(* ===== verification/Prelude.thy ===== *)
theory Prelude
  imports Main "HOL-Library.Sublist" "HOL-Library.Multiset"
begin

text \<open>
  Shared vocabulary of the development: the collections of rewrite rules the
  component theories extend, result values for fallible code, and generic facts
  on lists (contiguous sublists, sums of sizes, pointwise updates) that several
  components need.
\<close>

named_theorems sublist_intros \<open>facts that one list is a contiguous part of another\<close>
named_theorems go_simps \<open>evaluation rules for the Go standard library functions\<close>
named_theorems store_simps \<open>unfolding rules for statements on the tables\<close>

section \<open>Results of fallible code\<close>

text \<open>\<open>Inl e\<close> is the error return, \<open>Inr v\<close> the value with a nil error.\<close>

type_synonym ('e, 'a) result = "'e + 'a"

definition bind_res :: "('e, 'a) result \<Rightarrow> ('a \<Rightarrow> ('e, 'b) result) \<Rightarrow> ('e, 'b) result" where
  "bind_res r f = (case r of Inl e \<Rightarrow> Inl e | Inr v \<Rightarrow> f v)"

lemma bind_res_simps [simp]:
  "bind_res (Inl e) f = Inl e"
  "bind_res (Inr v) f = f v"
  by (simp_all add: bind_res_def)

lemma bind_res_eq_Inr: "bind_res r f = Inr y \<longleftrightarrow> (\<exists>x. r = Inr x \<and> f x = Inr y)"
  by (cases r) auto

section \<open>Contiguous parts of a list\<close>

lemma sublist_take [sublist_intros]: "sublist (take n xs) xs"
  by (metis append_Nil append_take_drop_id sublist_def)

lemma sublist_drop [sublist_intros]: "sublist (drop n xs) xs"
  by (metis append_Nil2 append_assoc append_take_drop_id sublist_def)

lemma sublist_slice: "sublist (take n (drop m xs)) xs"
  using sublist_take sublist_drop sublist_order.order_trans by blast

lemma sublist_dropWhile [sublist_intros]: "sublist (dropWhile P xs) xs"
  by (metis suffix_dropWhile suffix_imp_sublist)

lemma sublist_rev_dropWhile [sublist_intros]: "sublist (rev (dropWhile P (rev xs))) xs"
  by (metis rev_rev_ident sublist_dropWhile sublist_rev)

lemma set_sublist: "sublist xs ys \<Longrightarrow> set xs \<subseteq> set ys"
  by (rule set_mono_sublist)

lemma length_sublist: "sublist xs ys \<Longrightarrow> length xs \<le> length ys"
  by (rule sublist_length_le)

section \<open>Rounding and maxima of sums\<close>

lemma sum_list_filter_le: "sum_list (map f (filter P xs)) \<le> sum_list (map (f :: 'a \<Rightarrow> nat) xs)"
  by (induction xs) auto

lemma sum_list_concat: "sum_list (map f (concat xss)) = sum_list (map (\<lambda>xs. sum_list (map f xs)) xss)"
  for f :: "'a \<Rightarrow> nat"
  by (induction xss) auto

lemma sum_list_update_add:
  fixes xs :: "nat list"
  assumes "i < length xs"
  shows "sum_list (xs[i := xs ! i + k]) = sum_list xs + k"
  using assms by (simp add: sum_list_update member_le_sum_list)

section \<open>Stable sorting\<close>

text \<open>\<open>sort.SliceStable\<close> with a strict order \<open>lt\<close>.\<close>

fun stable_insert :: "('a \<Rightarrow> 'a \<Rightarrow> bool) \<Rightarrow> 'a \<Rightarrow> 'a list \<Rightarrow> 'a list" where
  "stable_insert lt x [] = [x]"
| "stable_insert lt x (y # ys) = (if lt y x then y # stable_insert lt x ys else x # y # ys)"

definition stable_sort :: "('a \<Rightarrow> 'a \<Rightarrow> bool) \<Rightarrow> 'a list \<Rightarrow> 'a list" where
  "stable_sort lt xs = foldr (stable_insert lt) xs []"

lemma stable_insert_mset [simp]: "mset (stable_insert lt x ys) = add_mset x (mset ys)"
  by (induction ys) auto

lemma stable_sort_mset [simp]: "mset (stable_sort lt xs) = mset xs"
  by (induction xs) (simp_all add: stable_sort_def)

lemma set_stable_sort [simp]: "set (stable_sort lt xs) = set xs"
  using stable_sort_mset [of lt xs] by (rule mset_eq_setD)

lemma length_stable_sort [simp]: "length (stable_sort lt xs) = length xs"
  using stable_sort_mset [of lt xs] by (rule mset_eq_length)

text \<open>For an order whose negation is transitive, the result is sorted.\<close>

lemma stable_sort_sorted:
  assumes asym: "\<And>a b. lt a b \<Longrightarrow> \<not> lt b a" and trans: "\<And>a b c. \<not> lt b a \<Longrightarrow> \<not> lt c b \<Longrightarrow> \<not> lt c a"
  shows "sorted_wrt (\<lambda>a b. \<not> lt b a) (stable_sort lt xs)"
proof -
  have "sorted_wrt (\<lambda>a b. \<not> lt b a) ys \<Longrightarrow> sorted_wrt (\<lambda>a b. \<not> lt b a) (stable_insert lt x ys)" for x ys
  proof (induction ys)
    case (Cons y ys)
    have s: "set (stable_insert lt x ys) = insert x (set ys)" by (induction ys) auto
    show ?case
    proof (cases "lt y x")
      case True
      then show ?thesis using Cons s asym by simp
    next
      case False
      then have "\<not> lt z x" if "z \<in> set ys" for z
        using trans [of y x z] that Cons.prems by simp
      then show ?thesis using Cons.prems False by simp
    qed
  qed simp
  then show ?thesis by (induction xs) (simp_all add: stable_sort_def)
qed

section \<open>Order of strings\<close>

text \<open>Go's order on strings, byte by byte.\<close>

fun str_less :: "string \<Rightarrow> string \<Rightarrow> bool" where
  "str_less _ [] = False"
| "str_less [] (_ # _) = True"
| "str_less (a # s) (b # t) = (of_char a < (of_char b :: nat) \<or> (a = b \<and> str_less s t))"

end
