(* ===== verification/Db_Models.thy ===== *)
theory Db_Models
  imports Complex_Main Prelude
begin

text \<open>
  The value types that the store, the search service and the allocators exchange
  (internal/db/models.go), and the floating-point operations the program uses.

  Go's float64 operations are a record of functions: every statement about a budget
  or an ordering that does not depend on rounding is proved for all such records, IEEE
  arithmetic included. The record \<open>exact\<close> is arithmetic without rounding, over the
  rationals; the optimality and normalisation statements are about it.
\<close>

section \<open>Floating-point operations\<close>

record 'f fops =
  fadd :: "'f \<Rightarrow> 'f \<Rightarrow> 'f"
  fsub :: "'f \<Rightarrow> 'f \<Rightarrow> 'f"
  fmul :: "'f \<Rightarrow> 'f \<Rightarrow> 'f"
  fdiv :: "'f \<Rightarrow> 'f \<Rightarrow> 'f"
  flt :: "'f \<Rightarrow> 'f \<Rightarrow> bool"
  fle :: "'f \<Rightarrow> 'f \<Rightarrow> bool"
  feq :: "'f \<Rightarrow> 'f \<Rightarrow> bool"
  fint :: "int \<Rightarrow> 'f"
  ftrunc :: "'f \<Rightarrow> int"
  fdec :: "int \<Rightarrow> nat \<Rightarrow> 'f"

text \<open>\<open>fdec m e\<close> is the constant \<open>m / 10^e\<close>, \<open>ftrunc\<close> the conversion \<open>int(x)\<close>.\<close>

definition trunc_rat :: "rat \<Rightarrow> int" where
  "trunc_rat x = (if x < 0 then \<lceil>x\<rceil> else \<lfloor>x\<rfloor>)"

definition exact :: "rat fops" where
  "exact = \<lparr>fadd = (+), fsub = (-), fmul = (*), fdiv = (/), flt = (<), fle = (\<le>), feq = (=),
            fint = of_int, ftrunc = trunc_rat, fdec = (\<lambda>m e. of_int m / 10 ^ e)\<rparr>"

lemma exact_simps [simp]:
  "fadd exact = (+)" "fsub exact = (-)" "fmul exact = (*)" "fdiv exact = (/)"
  "flt exact = (<)" "fle exact = (\<le>)" "feq exact = (=)" "fint exact = of_int"
  "ftrunc exact = trunc_rat" "fdec exact m e = of_int m / 10 ^ e"
  by (simp_all add: exact_def)

section \<open>Values of the store interface\<close>

record 'f db_hit =
  hTitle :: string
  hSnippet :: string
  hSource :: string
  hMatchLayer :: string
  hTruncated :: bool
  hSnippetFallback :: bool
  hRelevance :: 'f
  hMatchesAll :: bool

record db_search_input =
  inSessionID :: int
  inQuery :: string
  inSource :: string
  inLimit :: int

record doc_order_input =
  doSessionID :: int
  doSource :: string
  doLimit :: int
  doOffset :: int

record doc_chunk =
  dcTitle :: string
  dcContent :: string
  dcSource :: string

end
