(* ===== verification/Go_Strings.thy ===== *)
theory Go_Strings
  imports Prelude
begin

text \<open>
  The part of Go's strings, unicode/utf8 and strings packages the program uses.
  A Go string is a sequence of bytes, here a \<open>string\<close> (a list of 8-bit
  characters), so \<open>len(s)\<close> is \<open>length s\<close>. A rune is a code point, here a
  \<open>nat\<close>; \<open>runes s\<close> is the conversion \<open>[]rune(s)\<close>, in which every byte that does
  not start a well-formed encoding yields U+FFFD with width 1.
\<close>

section \<open>Bytes\<close>

abbreviation byte :: "char \<Rightarrow> nat" where
  "byte c \<equiv> of_char c"

abbreviation chr :: "nat \<Rightarrow> char" where
  "chr n \<equiv> char_of n"

definition newline :: char where "newline = CHR 0x0A"

definition cont_byte :: "char \<Rightarrow> bool" where
  "cont_byte c \<longleftrightarrow> 128 \<le> byte c \<and> byte c < 192"

text \<open>\<open>utf8.RuneStart\<close>: a byte that is not a continuation byte.\<close>

definition rune_start :: "char \<Rightarrow> bool" where
  "rune_start c \<longleftrightarrow> \<not> cont_byte c"

lemma byte_less [simp]: "byte c < 256"
  using of_char_mod_256 [of c] by (metis mod_less_divisor zero_less_numeral)

lemma chr_byte [simp]: "chr (byte c) = c"
  by simp

lemma newline_start [simp]: "rune_start newline" "\<not> cont_byte newline"
  by (simp_all add: rune_start_def cont_byte_def newline_def)

section \<open>UTF-8\<close>

definition rune_error :: nat where "rune_error = 65533"

text \<open>\<open>utf8.DecodeRuneInString\<close>: the first rune and its width in bytes.\<close>

definition lo3 :: "nat \<Rightarrow> nat" where "lo3 x = (if x = 224 then 160 else 128)"
definition hi3 :: "nat \<Rightarrow> nat" where "hi3 x = (if x = 237 then 159 else 191)"
definition lo4 :: "nat \<Rightarrow> nat" where "lo4 x = (if x = 240 then 144 else 128)"
definition hi4 :: "nat \<Rightarrow> nat" where "hi4 x = (if x = 244 then 143 else 191)"

fun decode_rune :: "string \<Rightarrow> nat \<times> nat" where
  "decode_rune [] = (rune_error, 0)"
| "decode_rune (a # s) =
     (let x = byte a in
      if x < 128 then (x, 1)
      else if x < 194 \<or> 244 < x then (rune_error, 1)
      else if x < 224 then
        (case s of
           b # _ \<Rightarrow> if cont_byte b then ((x - 192) * 64 + (byte b - 128), 2) else (rune_error, 1)
         | _ \<Rightarrow> (rune_error, 1))
      else if x < 240 then
        (case s of
           b # c # _ \<Rightarrow>
             if lo3 x \<le> byte b \<and> byte b \<le> hi3 x \<and> cont_byte c
             then ((x - 224) * 4096 + (byte b - 128) * 64 + (byte c - 128), 3)
             else (rune_error, 1)
         | _ \<Rightarrow> (rune_error, 1))
      else
        (case s of
           b # c # d # _ \<Rightarrow>
             if lo4 x \<le> byte b \<and> byte b \<le> hi4 x \<and> cont_byte c \<and> cont_byte d
             then ((x - 240) * 262144 + (byte b - 128) * 4096 + (byte c - 128) * 64
                   + (byte d - 128), 4)
             else (rune_error, 1)
         | _ \<Rightarrow> (rune_error, 1)))"

declare decode_rune.simps(2) [simp del]

definition rune_width :: "string \<Rightarrow> nat" where "rune_width s = snd (decode_rune s)"

lemma rune_width_pos [simp]: "0 < rune_width (a # s)"
  by (auto simp: rune_width_def decode_rune.simps Let_def split: list.splits)

lemma rune_width_Nil [simp]: "rune_width [] = 0"
  by (simp add: rune_width_def)

lemma rune_width_le: "rune_width s \<le> length s"
  by (cases s) (auto simp: rune_width_def decode_rune.simps Let_def split: list.splits)

lemma rune_width_le_4: "rune_width s \<le> 4"
  by (cases s) (auto simp: rune_width_def decode_rune.simps Let_def split: list.splits)

text \<open>\<open>[]rune(s)\<close>.\<close>

function runes :: "string \<Rightarrow> nat list" where
  "runes [] = []"
| "runes (a # s) = fst (decode_rune (a # s)) # runes (drop (rune_width (a # s)) (a # s))"
  by pat_completeness auto
termination
  by (relation "measure length") (use rune_width_pos in \<open>auto simp del: drop.simps\<close>)

declare runes.simps(2) [simp del]

text \<open>\<open>string(r)\<close> for a rune: surrogates and values beyond U+10FFFF become U+FFFD.\<close>

definition scalar :: "nat \<Rightarrow> bool" where
  "scalar r \<longleftrightarrow> r < 1114112 \<and> \<not> (55296 \<le> r \<and> r < 57344)"

definition encode_scalar :: "nat \<Rightarrow> string" where
  "encode_scalar r =
     (if r < 128 then [chr r]
      else if r < 2048 then [chr (192 + r div 64), chr (128 + r mod 64)]
      else if r < 65536 then
        [chr (224 + r div 4096), chr (128 + r div 64 mod 64), chr (128 + r mod 64)]
      else
        [chr (240 + r div 262144), chr (128 + r div 4096 mod 64),
         chr (128 + r div 64 mod 64), chr (128 + r mod 64)])"

definition encode_rune :: "nat \<Rightarrow> string" where
  "encode_rune r = (if scalar r then encode_scalar r else encode_scalar rune_error)"

text \<open>\<open>string(rs)\<close> for a slice of runes.\<close>

definition string_of_runes :: "nat list \<Rightarrow> string" where
  "string_of_runes rs = concat (map encode_rune rs)"

text \<open>\<open>utf8.ValidString\<close>: no byte decodes to the error rune of width 1.\<close>

definition starts_valid :: "string \<Rightarrow> bool" where
  "starts_valid s \<longleftrightarrow> decode_rune s \<noteq> (rune_error, 1)"

function valid_utf8 :: "string \<Rightarrow> bool" where
  "valid_utf8 [] = True"
| "valid_utf8 (a # s) =
     (starts_valid (a # s) \<and> valid_utf8 (drop (rune_width (a # s)) (a # s)))"
  by pat_completeness auto
termination
  by (relation "measure length") (use rune_width_pos in \<open>auto simp del: drop.simps\<close>)

declare valid_utf8.simps(2) [simp del]


section \<open>Facts about well-formed UTF-8\<close>

lemma decode_ascii [simp]: "byte a < 128 \<Longrightarrow> decode_rune (a # s) = (byte a, 1)"
  by (simp add: decode_rune.simps)

lemma rune_width_ascii [simp]: "byte a < 128 \<Longrightarrow> rune_width (a # s) = 1"
  by (simp add: rune_width_def)

lemma ascii_starts_valid [simp]: "byte a < 128 \<Longrightarrow> starts_valid (a # s)"
  by (simp add: starts_valid_def rune_error_def)

lemma valid_ascii_Cons [simp]: "byte a < 128 \<Longrightarrow> valid_utf8 (a # s) = valid_utf8 s"
  by (simp add: valid_utf8.simps)

lemma runes_ascii_Cons [simp]: "byte a < 128 \<Longrightarrow> runes (a # s) = byte a # runes s"
  by (simp add: runes.simps)

lemma ascii_valid: "\<forall>c\<in>set s. byte c < 128 \<Longrightarrow> valid_utf8 s"
  by (induction s) auto

lemma ascii_runes: "\<forall>c\<in>set s. byte c < 128 \<Longrightarrow> runes s = map byte s"
  by (induction s) auto

text \<open>A well-formed first rune is one leading byte and continuation bytes only.\<close>

lemma starts_valid_shape:
  assumes "starts_valid s" "s \<noteq> []"
  obtains a u t where "s = a # u @ t" "rune_start a" "\<forall>c\<in>set u. cont_byte c"
    "rune_width s = Suc (length u)"
    "\<And>t'. decode_rune (a # u @ t') = decode_rune s"
proof -
  obtain a s' where s: "s = a # s'" using assms(2) by (cases s) auto
  have v: "decode_rune (a # s') \<noteq> (rune_error, 1)"
    using assms(1) s by (simp add: starts_valid_def)
  let ?x = "byte a"
  have cont3: "lo3 y \<le> byte b \<and> byte b \<le> hi3 y \<Longrightarrow> cont_byte b" for y b
    by (auto simp: lo3_def hi3_def cont_byte_def split: if_splits)
  have cont4: "lo4 y \<le> byte b \<and> byte b \<le> hi4 y \<Longrightarrow> cont_byte b" for y b
    by (auto simp: lo4_def hi4_def cont_byte_def split: if_splits)
  consider (one) "?x < 128" | (bad) "128 \<le> ?x" "?x < 194 \<or> 244 < ?x"
    | (two) "194 \<le> ?x" "?x < 224" | (three) "224 \<le> ?x" "?x < 240"
    | (four) "240 \<le> ?x" "?x \<le> 244" by linarith
  then show ?thesis
  proof cases
    case one
    then show ?thesis using that [of a "[]" s'] s
      by (simp add: rune_start_def cont_byte_def rune_width_def)
  next
    case bad
    then show ?thesis using v by (auto simp: decode_rune.simps Let_def)
  next
    case two
    then obtain b t where t: "s' = b # t" "cont_byte b"
      using v by (auto simp: decode_rune.simps Let_def split: list.splits if_splits)
    with two show ?thesis using that [of a "[b]" t] s
      by (simp add: rune_start_def cont_byte_def rune_width_def decode_rune.simps)
  next
    case three
    then obtain b c t where t: "s' = b # c # t" "lo3 ?x \<le> byte b \<and> byte b \<le> hi3 ?x" "cont_byte c"
      using v by (auto simp: decode_rune.simps Let_def split: list.splits if_splits)
    with three cont3 [OF t(2)] show ?thesis using that [of a "[b, c]" t] s
      by (simp add: rune_start_def rune_width_def decode_rune.simps) (simp add: cont_byte_def)
  next
    case four
    then obtain b c d t where t: "s' = b # c # d # t" "lo4 ?x \<le> byte b \<and> byte b \<le> hi4 ?x"
      "cont_byte c" "cont_byte d"
      using v by (auto simp: decode_rune.simps Let_def split: list.splits if_splits)
    with four cont4 [OF t(2)] show ?thesis using that [of a "[b, c, d]" t] s
      by (simp add: rune_start_def rune_width_def decode_rune.simps) (simp add: cont_byte_def)
  qed
qed


lemma decode_append:
  assumes "starts_valid u" "u \<noteq> []"
  shows "decode_rune (u @ v) = decode_rune u"
proof -
  obtain a w t where s: "u = a # w @ t" "\<And>t'. decode_rune (a # w @ t') = decode_rune u"
    using starts_valid_shape [OF assms] by metis
  have "u @ v = a # w @ (t @ v)" using s(1) by simp
  then show ?thesis using s(2) [of "t @ v"] by simp
qed

lemma rune_width_append:
  "starts_valid u \<Longrightarrow> u \<noteq> [] \<Longrightarrow> rune_width (u @ v) = rune_width u"
  by (simp add: rune_width_def decode_append)

lemma starts_valid_append:
  "starts_valid u \<Longrightarrow> u \<noteq> [] \<Longrightarrow> starts_valid (u @ v)"
  by (simp add: starts_valid_def decode_append)

lemma valid_utf8_step:
  "s \<noteq> [] \<Longrightarrow> valid_utf8 s \<longleftrightarrow> starts_valid s \<and> valid_utf8 (drop (rune_width s) s)"
  by (cases s) (simp_all add: valid_utf8.simps)

lemma runes_step:
  "s \<noteq> [] \<Longrightarrow> runes s = fst (decode_rune s) # runes (drop (rune_width s) s)"
  by (cases s) (simp_all add: runes.simps)

lemma drop_width_append:
  "starts_valid u \<Longrightarrow> u \<noteq> [] \<Longrightarrow>
     drop (rune_width (u @ v)) (u @ v) = drop (rune_width u) u @ v"
  using rune_width_le [of u] by (simp add: rune_width_append)

lemma valid_append:
  "valid_utf8 u \<Longrightarrow> runes (u @ v) = runes u @ runes v \<and> valid_utf8 (u @ v) = valid_utf8 v"
proof (induction u rule: valid_utf8.induct)
  case 1
  then show ?case by simp
next
  case (2 a u)
  let ?s = "a # u"
  from "2.prems" have sv: "starts_valid ?s" and rest: "valid_utf8 (drop (rune_width ?s) ?s)"
    by (simp_all add: valid_utf8_step)
  note ih = "2.IH" [OF rest]
  have d: "drop (rune_width (?s @ v)) (?s @ v) = drop (rune_width ?s) ?s @ v"
    by (rule drop_width_append [OF sv]) simp
  have r1: "runes (?s @ v)
      = fst (decode_rune (?s @ v)) # runes (drop (rune_width (?s @ v)) (?s @ v))"
    by (rule runes_step) simp
  have r2: "valid_utf8 (?s @ v)
      \<longleftrightarrow> starts_valid (?s @ v) \<and> valid_utf8 (drop (rune_width (?s @ v)) (?s @ v))"
    by (rule valid_utf8_step) simp
  have "starts_valid (?s @ v)" by (rule starts_valid_append [OF sv]) simp
  with ih d r1 r2 decode_append [OF sv, of v] runes_step [of ?s] show ?case
    by (simp del: append_Cons)
qed

lemmas runes_append = valid_append [THEN conjunct1]
lemmas valid_append_iff = valid_append [THEN conjunct2]

text \<open>Cutting well-formed text before a leading byte leaves well-formed text.\<close>

lemma valid_cut:
  assumes "valid_utf8 (u @ v)" "v = [] \<or> rune_start (hd v)"
  shows "valid_utf8 u"
  using assms
proof (induction u rule: length_induct)
  case (1 u)
  show ?case
  proof (cases u)
    case Nil
    then show ?thesis by simp
  next
    case (Cons a u')
    let ?s = "u @ v"
    have sv: "starts_valid ?s" and rest: "valid_utf8 (drop (rune_width ?s) ?s)"
      using "1.prems"(1) Cons by (simp_all add: valid_utf8_step)
    obtain b w t where sh: "?s = b # w @ t" "\<forall>c\<in>set w. cont_byte c"
        "rune_width ?s = Suc (length w)" "\<And>t'. decode_rune (b # w @ t') = decode_rune ?s"
      using starts_valid_shape [OF sv] Cons by (metis append_is_Nil_conv list.distinct(1))
    have ab: "w @ t = u' @ v" using sh(1) Cons by simp
    have "\<exists>t'. u' = w @ t'"
    proof -
      from ab consider us where "w @ us = u'" | us where "w = u' @ us" "us @ t = v"
        by (auto simp: append_eq_append_conv2)
      then show ?thesis
      proof cases
        case 2
        show ?thesis
        proof (cases us)
          case (Cons c us')
          with 2 sh(2) "1.prems"(2) show ?thesis by (auto simp: rune_start_def)
        qed (use 2 in simp)
      qed auto
    qed
    then obtain t' where t': "u' = w @ t'" by blast
    have u: "u = b # w @ t'" using sh(1) Cons t' by simp
    have dec: "decode_rune u = decode_rune ?s" using sh(4) [of t'] u by simp
    then have svu: "starts_valid u" "rune_width u = Suc (length w)"
      using sv sh(3) by (simp_all add: starts_valid_def rune_width_def)
    have "drop (rune_width ?s) ?s = drop (rune_width u) u @ v"
      using drop_width_append [OF svu(1)] Cons by simp
    with rest have "valid_utf8 (drop (rune_width u) u @ v)" by simp
    moreover have "length (drop (rune_width u) u) < length u" using svu(2) Cons by simp
    ultimately have "valid_utf8 (drop (rune_width u) u)" using "1.IH" "1.prems"(2) by blast
    with svu(1) Cons show ?thesis by (simp add: valid_utf8_step)
  qed
qed

lemma valid_cut_both:
  assumes "valid_utf8 (u @ v)" "v = [] \<or> rune_start (hd v)"
  shows "valid_utf8 u" "valid_utf8 v" "runes (u @ v) = runes u @ runes v"
proof -
  show u: "valid_utf8 u" by (rule valid_cut [OF assms])
  show "valid_utf8 v" "runes (u @ v) = runes u @ runes v"
    using assms(1) valid_append [OF u] by simp_all
qed


text \<open>Encoding what was decoded gives back the bytes: \<open>string([]rune(s))\<close> is the identity
  on well-formed text.\<close>

lemma digit64:
  fixes q y :: nat
  assumes "y < 64"
  shows "(q * 64 + y) div 64 = q" "(q * 64 + y) mod 64 = y"
  using assms by simp_all

lemma digit4096:
  fixes q y :: nat
  assumes "y < 4096"
  shows "(q * 4096 + y) div 4096 = q"
  using assms by simp

lemma encode_decode:
  assumes "starts_valid s" "s \<noteq> []"
  shows "encode_rune (fst (decode_rune s)) = take (rune_width s) s"
proof -
  obtain a s' where s: "s = a # s'" using assms(2) by (cases s) auto
  have v: "decode_rune (a # s') \<noteq> (rune_error, 1)"
    using assms(1) s by (simp add: starts_valid_def)
  let ?x = "byte a"
  consider (one) "?x < 128" | (bad) "128 \<le> ?x" "?x < 194 \<or> 244 < ?x"
    | (two) "194 \<le> ?x" "?x < 224" | (three) "224 \<le> ?x" "?x < 240"
    | (four) "240 \<le> ?x" "?x \<le> 244" by linarith
  then show ?thesis
  proof cases
    case one
    then show ?thesis using s
      by (simp add: encode_rune_def scalar_def encode_scalar_def rune_width_def)
  next
    case bad
    then show ?thesis using v by (auto simp: decode_rune.simps Let_def)
  next
    case two
    then obtain b t where t: "s' = b # t" "128 \<le> byte b" "byte b < 192"
      using v by (auto simp: decode_rune.simps Let_def cont_byte_def split: list.splits if_splits)
    define r where "r = (?x - 192) * 64 + (byte b - 128)"
    define y where "y = byte b - 128"
    have y: "y < 64" "byte b = 128 + y" using t by (auto simp: y_def)
    have ry: "r = (?x - 192) * 64 + y" by (simp add: r_def y_def)
    have "r div 64 = ?x - 192" "r mod 64 = y" using y(1) unfolding ry by simp_all
    then have r: "128 \<le> r" "r < 2048" "192 + r div 64 = ?x" "128 + r mod 64 = byte b"
      using two y ry by simp_all
    have "decode_rune s = (r, 2)"
      using two t s by (simp add: decode_rune.simps cont_byte_def r_def)
    then show ?thesis using r s t
      by (simp add: encode_rune_def scalar_def encode_scalar_def rune_width_def)
  next
    case three
    then obtain b c t where t: "s' = b # c # t" "lo3 ?x \<le> byte b" "byte b \<le> hi3 ?x"
        "128 \<le> byte c" "byte c < 192"
      using v by (auto simp: decode_rune.simps Let_def cont_byte_def split: list.splits if_splits)
    have b: "128 \<le> byte b" "byte b < 192"
      using t(2,3) by (auto simp: lo3_def hi3_def split: if_splits)
    define r where "r = (?x - 224) * 4096 + (byte b - 128) * 64 + (byte c - 128)"
    have dm: "r = (?x - 224) * 4096 + ((byte b - 128) * 64 + (byte c - 128))"
      by (simp add: r_def)
    have lt: "(byte b - 128) * 64 + (byte c - 128) < 4096" using b t(4,5) by linarith
    have d1: "r div 4096 = ?x - 224" using lt unfolding dm by (rule digit4096)
    have r2: "r = ((?x - 224) * 64 + (byte b - 128)) * 64 + (byte c - 128)"
      by (simp add: r_def algebra_simps)
    have d2: "r div 64 = (?x - 224) * 64 + (byte b - 128)" "r mod 64 = byte c - 128"
      unfolding r2 using t(4,5) by (intro digit64; linarith)+
    have d3: "r div 64 mod 64 = byte b - 128" unfolding d2(1) using b by (intro digit64) linarith
    have ge: "2048 \<le> r"
    proof (cases "?x = 224")
      case True
      then have "160 \<le> byte b" using t(2) by (simp add: lo3_def)
      then show ?thesis using three unfolding r_def by linarith
    next
      case False
      then show ?thesis using three unfolding r_def by linarith
    qed
    have sur: "\<not> (55296 \<le> r \<and> r < 57344)"
    proof (cases "?x = 237")
      case True
      then have "byte b \<le> 159" using t(3) by (simp add: hi3_def)
      then have "r < 55296" using t(5) True unfolding r_def by linarith
      then show ?thesis by simp
    next
      case False
      then consider "?x \<le> 236" | "238 \<le> ?x" by linarith
      then show ?thesis
      proof cases
        case 1
        then have "r < 55296" using lt unfolding dm by linarith
        then show ?thesis by simp
      next
        case 2
        then have "57344 \<le> r" unfolding r_def by linarith
        then show ?thesis by simp
      qed
    qed
    have top: "r < 65536" using three lt unfolding dm by linarith
    have "decode_rune s = (r, 3)"
      using three t s by (simp add: decode_rune.simps cont_byte_def r_def)
    moreover have "224 + r div 4096 = ?x" "128 + r div 64 mod 64 = byte b" "128 + r mod 64 = byte c"
      using d1 d2 d3 three b t(4,5) by auto
    ultimately show ?thesis using ge sur top s t
      by (simp add: encode_rune_def scalar_def encode_scalar_def rune_width_def)
  next
    case four
    then obtain b c d t where t: "s' = b # c # d # t" "lo4 ?x \<le> byte b" "byte b \<le> hi4 ?x"
        "128 \<le> byte c" "byte c < 192" "128 \<le> byte d" "byte d < 192"
      using v by (auto simp: decode_rune.simps Let_def cont_byte_def split: list.splits if_splits)
    have b: "128 \<le> byte b" "byte b < 192"
      using t(2,3) by (auto simp: lo4_def hi4_def split: if_splits)
    define r where "r = (?x - 240) * 262144 + (byte b - 128) * 4096 + (byte c - 128) * 64
                        + (byte d - 128)"
    have dm: "r = (?x - 240) * 262144 + ((byte b - 128) * 4096 + (byte c - 128) * 64
                        + (byte d - 128))"
      by (simp add: r_def)
    have lt: "(byte b - 128) * 4096 + (byte c - 128) * 64 + (byte d - 128) < 262144"
      using b t(4-7) by linarith
    have d1: "r div 262144 = ?x - 240" using lt unfolding dm by simp
    have r2: "r = ((?x - 240) * 64 + (byte b - 128)) * 4096 + ((byte c - 128) * 64 + (byte d - 128))"
      by (simp add: r_def algebra_simps)
    have lt2: "(byte c - 128) * 64 + (byte d - 128) < 4096" using t(4-7) by linarith
    have d2: "r div 4096 = (?x - 240) * 64 + (byte b - 128)" using lt2 unfolding r2 by (rule digit4096)
    have r3: "r = (((?x - 240) * 64 + (byte b - 128)) * 64 + (byte c - 128)) * 64 + (byte d - 128)"
      by (simp add: r_def algebra_simps)
    have d3: "r div 64 = ((?x - 240) * 64 + (byte b - 128)) * 64 + (byte c - 128)"
        "r mod 64 = byte d - 128"
      unfolding r3 using t(6,7) by (intro digit64; linarith)+
    have d4: "r div 4096 mod 64 = byte b - 128" "r div 64 mod 64 = byte c - 128"
      unfolding d2 d3(1) using b t(4,5) by (intro digit64; linarith)+
    have ge: "65536 \<le> r"
    proof (cases "?x = 240")
      case True
      then have "144 \<le> byte b" using t(2) by (simp add: lo4_def)
      then show ?thesis using four unfolding r_def by linarith
    next
      case False
      then show ?thesis using four unfolding r_def by linarith
    qed
    have top: "r < 1114112"
    proof (cases "?x = 244")
      case True
      then have "byte b \<le> 143" using t(3) by (simp add: hi4_def)
      then show ?thesis using t(5,7) True unfolding r_def by linarith
    next
      case False
      then show ?thesis using four lt unfolding dm by linarith
    qed
    have "decode_rune s = (r, 4)"
      using four t s by (simp add: decode_rune.simps cont_byte_def r_def)
    moreover have "240 + r div 262144 = ?x" "128 + r div 4096 mod 64 = byte b"
        "128 + r div 64 mod 64 = byte c" "128 + r mod 64 = byte d"
      using d1 d3(2) d4 four b t(4-7) by auto
    ultimately show ?thesis using ge top s t
      by (simp add: encode_rune_def scalar_def encode_scalar_def rune_width_def)
  qed
qed

lemma string_of_runes_append [simp]:
  "string_of_runes (xs @ ys) = string_of_runes xs @ string_of_runes ys"
  by (simp add: string_of_runes_def)

lemma string_of_runes_runes: "valid_utf8 s \<Longrightarrow> string_of_runes (runes s) = s"
proof (induction s rule: valid_utf8.induct)
  case 1
  then show ?case by (simp add: string_of_runes_def)
next
  case (2 a s)
  then have sv: "starts_valid (a # s)" and r: "valid_utf8 (drop (rune_width (a # s)) (a # s))"
    by (simp_all add: valid_utf8_step)
  have "string_of_runes (runes (a # s)) = take (rune_width (a # s)) (a # s)
      @ string_of_runes (runes (drop (rune_width (a # s)) (a # s)))"
    using encode_decode [OF sv] by (simp add: runes_step string_of_runes_def)
  with "2.IH" [OF r] show ?case by (metis append_take_drop_id)
qed

lemma sublist_string_of_runes:
  "sublist rs rs' \<Longrightarrow> sublist (string_of_runes rs) (string_of_runes rs')"
  by (auto simp: sublist_def) (metis string_of_runes_append)

end
