(* ===== verification/Go_Text.thy ===== *)
theory Go_Text
  imports Go_Strings
begin

text \<open>
  The functions of Go's strings package the program calls (TrimSpace, TrimRight,
  Split, Join, IndexByte, LastIndexByte, HasPrefix, Fields, strconv.Itoa), and the
  measure of what they may drop: \<open>ink s\<close> is the sequence of runes of \<open>s\<close> that are
  not white space.
\<close>

section \<open>White space\<close>

text \<open>\<open>unicode.IsSpace\<close>: the code points with the property White_Space.\<close>

definition is_space :: "nat \<Rightarrow> bool" where
  "is_space r \<longleftrightarrow>
     (9 \<le> r \<and> r \<le> 13) \<or> r = 32 \<or> r = 133 \<or> r = 160 \<or> r = 5760
     \<or> (8192 \<le> r \<and> r \<le> 8202) \<or> r = 8232 \<or> r = 8233 \<or> r = 8239 \<or> r = 8287 \<or> r = 12288"

definition ink :: "string \<Rightarrow> nat list" where
  "ink s = filter (\<lambda>r. \<not> is_space r) (runes s)"

text \<open>\<open>utf8.DecodeLastRuneInString\<close>.\<close>

definition last_start :: "string \<Rightarrow> nat option" where
  "last_start s = find (\<lambda>j. j \<le> length s \<and> rune_start (s ! (length s - j))) [2, 3, 4]"

definition decode_last_rune :: "string \<Rightarrow> nat \<times> nat" where
  "decode_last_rune s =
     (if s = [] then (rune_error, 0)
      else if byte (last s) < 128 then (byte (last s), 1)
      else case last_start s of
             None \<Rightarrow> (rune_error, 1)
           | Some j \<Rightarrow> (let (r, n) = decode_rune (drop (length s - j) s)
                       in if n = j then (r, n) else (rune_error, 1)))"

lemma last_start_Some: "last_start s = Some j \<Longrightarrow> 2 \<le> j \<and> j \<le> 4 \<and> j \<le> length s"
  by (auto simp: last_start_def split: if_splits)

lemma decode_last_rune_pos: "s \<noteq> [] \<Longrightarrow> 0 < snd (decode_last_rune s)"
  by (auto simp: decode_last_rune_def split: option.split prod.split dest: last_start_Some)

text \<open>\<open>strings.TrimLeftFunc\<close>, \<open>strings.TrimRightFunc\<close> with \<open>unicode.IsSpace\<close>, and
  \<open>strings.TrimSpace\<close>.\<close>

function trim_left :: "string \<Rightarrow> string" where
  "trim_left [] = []"
| "trim_left (a # s) =
     (if is_space (fst (decode_rune (a # s)))
      then trim_left (drop (rune_width (a # s)) (a # s)) else a # s)"
  by pat_completeness auto
termination
  by (relation "measure length") (use rune_width_pos in \<open>auto simp del: drop.simps\<close>)

function trim_right :: "string \<Rightarrow> string" where
  "trim_right s =
     (if s = [] then []
      else if is_space (fst (decode_last_rune s))
      then trim_right (take (length s - snd (decode_last_rune s)) s) else s)"
  by pat_completeness auto
termination
proof (relation "measure length", goal_cases)
  case (2 s)
  then show ?case using decode_last_rune_pos [of s] by (cases s) auto
qed simp

declare trim_left.simps(2) [simp del] trim_right.simps [simp del]

definition trim_space :: "string \<Rightarrow> string" where
  "trim_space s = trim_right (trim_left s)"

text \<open>The test \<open>strings.TrimSpace(s) == ""\<close>.\<close>

definition blank :: "string \<Rightarrow> bool" where
  "blank s \<longleftrightarrow> trim_space s = []"

lemma trim_right_Nil [simp]: "trim_right [] = []"
  by (simp add: trim_right.simps)

lemma trim_space_Nil [simp]: "trim_space [] = []"
  by (simp add: trim_space_def)

lemma blank_Nil [simp]: "blank []"
  by (simp add: blank_def)

text \<open>\<open>strings.TrimRight(s, cutset)\<close> and \<open>strings.TrimLeft(s, cutset)\<close> for a set of
  ASCII bytes.\<close>

definition trim_right_set :: "(char \<Rightarrow> bool) \<Rightarrow> string \<Rightarrow> string" where
  "trim_right_set P s = rev (dropWhile P (rev s))"

definition trim_left_set :: "(char \<Rightarrow> bool) \<Rightarrow> string \<Rightarrow> string" where
  "trim_left_set P s = dropWhile P s"

abbreviation trim_right_nl :: "string \<Rightarrow> string" where
  "trim_right_nl \<equiv> trim_right_set (\<lambda>c. c = newline)"

abbreviation trim_left_nl :: "string \<Rightarrow> string" where
  "trim_left_nl \<equiv> trim_left_set (\<lambda>c. c = newline)"

section \<open>Searching and splitting\<close>

text \<open>\<open>strings.IndexByte\<close> and \<open>strings.LastIndexByte\<close>, \<open>None\<close> for -1.\<close>

fun index_byte :: "char \<Rightarrow> string \<Rightarrow> nat option" where
  "index_byte c [] = None"
| "index_byte c (a # s) = (if a = c then Some 0 else map_option Suc (index_byte c s))"

fun last_index_byte :: "char \<Rightarrow> string \<Rightarrow> nat option" where
  "last_index_byte c [] = None"
| "last_index_byte c (a # s) =
     (case last_index_byte c s of
        Some i \<Rightarrow> Some (Suc i)
      | None \<Rightarrow> if a = c then Some 0 else None)"

text \<open>\<open>strings.Split(s, sep)\<close> for a one-byte separator and \<open>strings.Join\<close>.\<close>

fun split_byte :: "char \<Rightarrow> string \<Rightarrow> string list" where
  "split_byte c [] = [[]]"
| "split_byte c (a # s) =
     (if a = c then [] # split_byte c s
      else case split_byte c s of
             [] \<Rightarrow> [[a]]
           | p # ps \<Rightarrow> (a # p) # ps)"

fun join :: "string \<Rightarrow> string list \<Rightarrow> string" where
  "join sep [] = []"
| "join sep [p] = p"
| "join sep (p # q # ps) = p @ sep @ join sep (q # ps)"

definition has_prefix :: "string \<Rightarrow> string \<Rightarrow> bool" where
  "has_prefix s p \<longleftrightarrow> take (length p) s = p"

definition has_suffix :: "string \<Rightarrow> string \<Rightarrow> bool" where
  "has_suffix s p \<longleftrightarrow> length p \<le> length s \<and> drop (length s - length p) s = p"

text \<open>\<open>strings.Fields\<close>: the maximal runs of non-space runes.\<close>

function fields_from :: "string \<Rightarrow> string \<Rightarrow> string list" where
  "fields_from acc [] = (if acc = [] then [] else [acc])"
| "fields_from acc (a # s) =
     (let n = rune_width (a # s); rest = drop n (a # s)
      in if is_space (fst (decode_rune (a # s)))
         then (if acc = [] then fields_from [] rest else acc # fields_from [] rest)
         else fields_from (acc @ take n (a # s)) rest)"
  by pat_completeness auto
termination
  by (relation "measure (\<lambda>(acc, s). length s)")
     (use rune_width_pos in \<open>auto simp del: drop.simps take.simps\<close>)

definition fields :: "string \<Rightarrow> string list" where "fields s = fields_from [] s"

text \<open>\<open>strconv.Itoa\<close> and \<open>%d\<close> for a non-negative number.\<close>

fun itoa :: "nat \<Rightarrow> string" where
  "itoa n = (if n < 10 then [chr (48 + n)] else itoa (n div 10) @ [chr (48 + n mod 10)])"

declare itoa.simps [simp del]

text \<open>\<open>r[:n]\<close> converted back, for \<open>r := []rune(s)\<close>.\<close>

definition cap_runes :: "nat \<Rightarrow> string \<Rightarrow> string" where
  "cap_runes n s = (if n < length (runes s) then string_of_runes (take n (runes s)) else s)"


section \<open>Trimming keeps a contiguous part\<close>

lemma suffix_trim_left: "suffix (trim_left s) s"
proof (induction s rule: trim_left.induct)
  case (2 a s)
  then show ?case
    by (auto simp: trim_left.simps intro: suffix_order.order_trans suffix_drop)
qed simp

lemma prefix_trim_right: "prefix (trim_right s) s"
proof (induction s rule: trim_right.induct)
  case (1 s)
  then show ?case
    by (subst trim_right.simps) (auto intro: prefix_order.order_trans take_is_prefix)
qed

lemma sublist_trim_space [sublist_intros]: "sublist (trim_space s) s"
  unfolding trim_space_def
  using prefix_trim_right [of "trim_left s"] suffix_trim_left [of s]
  by (meson prefix_imp_sublist suffix_imp_sublist sublist_order.order_trans)

lemma length_trim_space: "length (trim_space s) \<le> length s"
  by (rule length_sublist [OF sublist_trim_space])

lemma sublist_trim_right_set [sublist_intros]: "sublist (trim_right_set P s) s"
  by (simp add: trim_right_set_def sublist_rev_dropWhile)

lemma sublist_trim_left_set [sublist_intros]: "sublist (trim_left_set P s) s"
  by (simp add: trim_left_set_def sublist_dropWhile)

lemma trim_right_set_split: "\<exists>t. s = trim_right_set P s @ t \<and> (\<forall>c\<in>set t. P c)"
proof -
  have "rev s = takeWhile P (rev s) @ dropWhile P (rev s)" by simp
  then have "s = rev (dropWhile P (rev s)) @ rev (takeWhile P (rev s))"
    by (metis rev_append rev_rev_ident)
  then show ?thesis
    unfolding trim_right_set_def using set_takeWhileD by (metis set_rev)
qed

lemma trim_left_set_split: "\<exists>t. s = t @ trim_left_set P s \<and> (\<forall>c\<in>set t. P c)"
  unfolding trim_left_set_def
  by (rule exI [of _ "takeWhile P s"]) (auto dest: set_takeWhileD)

section \<open>Ink\<close>

lemma ink_Nil [simp]: "ink [] = []"
  by (simp add: ink_def)

lemma ink_append: "valid_utf8 u \<Longrightarrow> ink (u @ v) = ink u @ ink v"
  by (simp add: ink_def runes_append)

lemma newline_byte [simp]: "byte newline = 10"
  by (simp add: newline_def)

lemma newline_space [simp]: "is_space 10"
  by (simp add: is_space_def)

lemma error_not_space [simp]: "\<not> is_space rune_error"
  by (simp add: is_space_def rune_error_def)

lemma ink_ascii_space:
  "\<forall>c\<in>set u. byte c < 128 \<and> is_space (byte c) \<Longrightarrow> ink u = [] \<and> valid_utf8 u"
  by (simp add: ink_def ascii_runes ascii_valid)

lemma ink_newlines: "\<forall>c\<in>set u. c = newline \<Longrightarrow> ink u = [] \<and> valid_utf8 u"
  by (rule ink_ascii_space) auto

lemma ascii_rune_start [simp]: "byte c < 128 \<Longrightarrow> rune_start c"
  by (simp add: rune_start_def cont_byte_def)

text \<open>A first rune that is a space is a well-formed encoding.\<close>

lemma space_first:
  assumes "s \<noteq> []" "is_space (fst (decode_rune s))"
  obtains w v where "s = w @ v" "w \<noteq> []" "length w = rune_width s" "valid_utf8 w" "ink w = []"
    "rune_start (hd w)"
proof -
  have sv: "starts_valid s" using assms by (auto simp: starts_valid_def)
  obtain a u t where sh: "s = a # u @ t" "rune_start a" "rune_width s = Suc (length u)"
      "\<And>t'. decode_rune (a # u @ t') = decode_rune s"
    using starts_valid_shape [OF sv assms(1)] by metis
  let ?w = "a # u"
  have dw: "decode_rune ?w = decode_rune s" using sh(4) [of "[]"] by simp
  have "rune_width ?w = length ?w" using dw sh(3) by (simp add: rune_width_def)
  then have "valid_utf8 ?w" "runes ?w = [fst (decode_rune s)]"
    using dw sv by (simp_all add: valid_utf8_step runes_step starts_valid_def)
  moreover have "s = ?w @ t" using sh(1) by simp
  ultimately show ?thesis using that [of ?w t] sh(2,3) assms(2) by (simp add: ink_def)
qed

lemma trim_left_ink:
  assumes "valid_utf8 s"
  shows "\<exists>w. s = w @ trim_left s \<and> valid_utf8 w \<and> ink w = [] \<and> valid_utf8 (trim_left s)"
  using assms
proof (induction s rule: trim_left.induct)
  case 1
  show ?case by simp
next
  case (2 a s)
  show ?case
  proof (cases "is_space (fst (decode_rune (a # s)))")
    case True
    obtain w v where w: "a # s = w @ v" "w \<noteq> []" "length w = rune_width (a # s)"
        "valid_utf8 w" "ink w = []"
      using space_first [OF _ True] by (metis list.distinct(1))
    have v: "drop (rune_width (a # s)) (a # s) = v" using w(1,3) by simp
    have "valid_utf8 v" using w(1,4) "2.prems" by (metis valid_append_iff)
    then obtain w' where w': "v = w' @ trim_left v" "valid_utf8 w'" "ink w' = []"
        "valid_utf8 (trim_left v)"
      using "2.IH" [OF True] v by auto
    have "trim_left (a # s) = trim_left v" using True v by (simp add: trim_left.simps)
    moreover have "a # s = (w @ w') @ trim_left v" using w(1) w'(1) by simp
    ultimately show ?thesis
      using w(4,5) w'(2-4) by (intro exI [of _ "w @ w'"]) (simp add: valid_append_iff ink_append)
  next
    case False
    then show ?thesis using "2.prems" by (simp add: trim_left.simps)
  qed
qed

lemma space_last:
  assumes "valid_utf8 s" "s \<noteq> []" "is_space (fst (decode_last_rune s))"
  defines "n \<equiv> snd (decode_last_rune s)"
  shows "\<exists>w. s = take (length s - n) s @ w \<and> valid_utf8 (take (length s - n) s)
             \<and> valid_utf8 w \<and> ink w = []"
proof -
  let ?k = "length s - n"
  have "\<exists>w. drop ?k s = w \<and> valid_utf8 w \<and> ink w = [] \<and> (w = [] \<or> rune_start (hd w))"
  proof (cases "byte (last s) < 128")
    case True
    then have n: "n = 1" "is_space (byte (last s))"
      using assms(2,3) by (simp_all add: decode_last_rune_def n_def)
    have "drop ?k s = [last s]" unfolding n(1) using assms(2)
      by (metis append_butlast_last_id append_eq_conv_conj length_butlast)
    then show ?thesis using True n(2) by (simp add: ink_def)
  next
    case False
    then obtain j where j: "last_start s = Some j" "decode_rune (drop (length s - j) s)
        = (fst (decode_last_rune s), j)" "n = j"
      using assms(2,3)
      by (auto simp: decode_last_rune_def n_def split: option.splits prod.splits if_splits)
    have len: "2 \<le> j" "j \<le> length s" using last_start_Some [OF j(1)] by auto
    let ?w = "drop (length s - j) s"
    have w: "?w \<noteq> []" "length ?w = j" using len by auto
    obtain u v where u: "?w = u @ v" "length u = rune_width ?w" "valid_utf8 u" "ink u = []"
        "rune_start (hd u)" "u \<noteq> []"
      using space_first [OF w(1)] assms(3) j(2) by (metis fst_conv)
    have "rune_width ?w = j" using j(2) by (simp add: rune_width_def)
    then have "u = ?w" using u(1,2) w(2) by (metis append_Nil2 append_eq_conv_conj take_all_iff order_refl)
    then show ?thesis using u j(3) by auto
  qed
  then obtain w where w: "drop ?k s = w" "valid_utf8 w" "ink w = []" "w = [] \<or> rune_start (hd w)"
    by blast
  have s: "s = take ?k s @ w" using w(1) by (metis append_take_drop_id)
  have "valid_utf8 (take ?k s)" using valid_cut [of "take ?k s" w] assms(1) s w(4) by metis
  with s w show ?thesis by blast
qed

lemma trim_right_ink:
  assumes "valid_utf8 s"
  shows "\<exists>w. s = trim_right s @ w \<and> valid_utf8 w \<and> ink w = [] \<and> valid_utf8 (trim_right s)"
  using assms
proof (induction s rule: trim_right.induct)
  case (1 s)
  show ?case
  proof (cases "s \<noteq> [] \<and> is_space (fst (decode_last_rune s))")
    case True
    define s' where "s' = take (length s - snd (decode_last_rune s)) s"
    obtain w where w: "s = s' @ w" "valid_utf8 s'" "valid_utf8 w" "ink w = []"
      using space_last [OF "1.prems"] True unfolding s'_def by blast
    obtain w' where w': "s' = trim_right s' @ w'" "valid_utf8 w'" "ink w' = []"
        "valid_utf8 (trim_right s')"
      using "1.IH" True w(2) unfolding s'_def by blast
    have "trim_right s = trim_right s'"
      using True by (subst trim_right.simps) (simp add: s'_def)
    moreover have "s = trim_right s' @ (w' @ w)" using w(1) w'(1) by (metis append_assoc)
    moreover have "valid_utf8 (w' @ w)" "ink (w' @ w) = []"
      using w(3,4) w'(2,3) by (simp_all add: valid_append_iff ink_append)
    ultimately show ?thesis using w'(4) by metis
  next
    case False
    then have "trim_right s = s" by (subst trim_right.simps) auto
    then show ?thesis using "1.prems" by simp
  qed
qed

lemma trim_space_ink:
  assumes "valid_utf8 s"
  shows "ink (trim_space s) = ink s" "valid_utf8 (trim_space s)"
proof -
  obtain l where l: "s = l @ trim_left s" "valid_utf8 l" "ink l = []" "valid_utf8 (trim_left s)"
    using trim_left_ink [OF assms] by blast
  obtain r where r: "trim_left s = trim_space s @ r" "valid_utf8 (trim_space s)" "ink r = []"
    using trim_right_ink [OF l(4)] unfolding trim_space_def by blast
  show "valid_utf8 (trim_space s)" by (rule r(2))
  have "ink s = ink (trim_left s)" using l(1-3) ink_append by (metis append_Nil)
  also have "\<dots> = ink (trim_space s)" using r by (metis append_Nil2 ink_append)
  finally show "ink (trim_space s) = ink s" ..
qed

lemma blank_ink: "valid_utf8 s \<Longrightarrow> blank s \<Longrightarrow> ink s = []"
  using trim_space_ink(1) [of s] by (simp add: blank_def)

lemma ink_blank:
  assumes "valid_utf8 s" "ink s = []"
  shows "blank s"
proof -
  obtain l where l: "s = l @ trim_left s" "valid_utf8 l" "valid_utf8 (trim_left s)"
    using trim_left_ink [OF assms(1)] by blast
  have "trim_left s = []"
  proof (rule ccontr)
    assume ne: "trim_left s \<noteq> []"
    have ns: "\<not> is_space (fst (decode_rune (trim_left s)))"
      using ne by (induction s rule: trim_left.induct) (auto simp: trim_left.simps split: if_splits)
    have "ink (trim_left s) = []" using l assms(2) ink_append [OF l(2)] by (metis append_is_Nil_conv)
    with ns ne show False by (simp add: ink_def runes_step)
  qed
  then show ?thesis by (simp add: blank_def trim_space_def)
qed


section \<open>Cutting and joining\<close>

lemma cut_at:
  assumes "valid_utf8 s" "i < length s \<Longrightarrow> rune_start (s ! i)"
  shows "valid_utf8 (take i s)" "valid_utf8 (drop i s)" "ink s = ink (take i s) @ ink (drop i s)"
proof -
  have "drop i s = [] \<or> rune_start (hd (drop i s))"
    using assms(2) by (cases "i < length s") (simp_all add: hd_drop_conv_nth)
  then have v: "valid_utf8 (take i s)" using valid_cut [of "take i s" "drop i s"] assms(1) by simp
  then show "valid_utf8 (take i s)" "valid_utf8 (drop i s)"
    using assms(1) valid_append_iff [OF v, of "drop i s"] by simp_all
  show "ink s = ink (take i s) @ ink (drop i s)" using ink_append [OF v, of "drop i s"] by simp
qed

lemma trim_right_nl_ink:
  assumes "valid_utf8 s"
  shows "ink (trim_right_nl s) = ink s" "valid_utf8 (trim_right_nl s)"
proof -
  obtain t where t: "s = trim_right_nl s @ t" "\<forall>c\<in>set t. c = newline"
    using trim_right_set_split by blast
  have "t = [] \<or> rune_start (hd t)" using t(2) by (cases t) auto
  then show v: "valid_utf8 (trim_right_nl s)" using valid_cut t(1) assms by metis
  show "ink (trim_right_nl s) = ink s"
    using ink_append [OF v, of t] ink_newlines [OF t(2)] t(1) by simp
qed

lemma trim_left_nl_ink:
  assumes "valid_utf8 s"
  shows "ink (trim_left_nl s) = ink s" "valid_utf8 (trim_left_nl s)"
proof -
  obtain t where t: "s = t @ trim_left_nl s" "\<forall>c\<in>set t. c = newline"
    using trim_left_set_split by blast
  note v = ink_newlines [OF t(2)]
  show "ink (trim_left_nl s) = ink s" using ink_append v t(1) by (metis append_Nil)
  show "valid_utf8 (trim_left_nl s)" using valid_append_iff v assms t(1) by metis
qed

lemma index_byte_Some: "index_byte c s = Some i \<Longrightarrow> i < length s \<and> s ! i = c \<and> c \<notin> set (take i s)"
  by (induction s arbitrary: i) (auto split: if_splits)

lemma index_byte_None: "index_byte c s = None \<longleftrightarrow> c \<notin> set s"
  by (induction s) auto

lemma last_index_byte_Some:
  "last_index_byte c s = Some i \<Longrightarrow> i < length s \<and> s ! i = c \<and> c \<notin> set (drop (Suc i) s)"
proof (induction s arbitrary: i)
  case (Cons a s)
  have none: "last_index_byte c t = None \<Longrightarrow> c \<notin> set t" for t
    by (induction t) (auto split: option.splits if_splits)
  from Cons show ?case by (auto split: option.splits if_splits dest: none)
qed simp

lemma last_index_byte_None: "last_index_byte c s = None \<longleftrightarrow> c \<notin> set s"
  by (induction s) (auto split: option.splits)

lemma split_byte_not_Nil [simp]: "split_byte c s \<noteq> []"
  by (induction s) (auto split: list.splits)

lemma join_Cons_char: "join sep ((a # p) # ps) = a # join sep (p # ps)"
  by (cases ps) simp_all

lemma join_Nil_Cons: "ps \<noteq> [] \<Longrightarrow> join sep ([] # ps) = sep @ join sep ps"
  by (cases ps) simp_all

lemma join_Cons: "ps \<noteq> [] \<Longrightarrow> join sep (p # ps) = p @ sep @ join sep ps"
  by (cases ps) simp_all

lemma join_split: "join [c] (split_byte c s) = s"
  by (induction s) (auto simp: join_Nil_Cons join_Cons_char split: list.splits)

lemma split_byte_parts: "p \<in> set (split_byte c s) \<Longrightarrow> c \<notin> set p"
proof (induction s arbitrary: p)
  case (Cons a s)
  then show ?case by (auto split: if_splits list.splits)
qed simp

lemma sublist_join: "p \<in> set ps \<Longrightarrow> sublist p (join sep ps)"
proof (induction sep ps rule: join.induct)
  case (3 sep p' q ps)
  then consider "p = p'" | "sublist p (join sep (q # ps))" by auto
  then show ?case
    by cases (auto intro: sublist_appendI simp: sublist_append)
qed auto

lemma valid_join:
  assumes "\<forall>p\<in>set ps. valid_utf8 p"
  shows "valid_utf8 (join [newline] ps)" "ink (join [newline] ps) = concat (map ink ps)"
proof -
  have "valid_utf8 (join [newline] ps) \<and> ink (join [newline] ps) = concat (map ink ps)"
    using assms
  proof (induction ps)
    case (Cons p ps)
    show ?case
    proof (cases "ps = []")
      case False
      have "ink (newline # t) = ink t" for t by (simp add: ink_def)
      with False Cons show ?thesis by (simp add: join_Cons valid_append_iff ink_append)
    qed (use Cons in simp)
  qed simp
  then show "valid_utf8 (join [newline] ps)" "ink (join [newline] ps) = concat (map ink ps)"
    by auto
qed

lemma valid_join_parts: "valid_utf8 (join [newline] ps) \<Longrightarrow> \<forall>p\<in>set ps. valid_utf8 p"
proof (induction ps)
  case (Cons p ps)
  show ?case
  proof (cases "ps = []")
    case False
    then have j: "join [newline] (p # ps) = p @ newline # join [newline] ps" by (simp add: join_Cons)
    then have "valid_utf8 p" "valid_utf8 (newline # join [newline] ps)"
      using Cons.prems valid_cut_both(1,2) [of p "newline # join [newline] ps"] by simp_all
    with Cons.IH show ?thesis by simp
  qed (use Cons in simp)
qed simp

lemma split_lines_valid:
  "valid_utf8 s \<Longrightarrow> \<forall>l\<in>set (split_byte newline s). valid_utf8 l"
  using valid_join_parts [of "split_byte newline s"] by (simp add: join_split)

lemma split_lines_ink:
  "valid_utf8 s \<Longrightarrow> concat (map ink (split_byte newline s)) = ink s"
  using valid_join(2) [OF split_lines_valid] by (simp add: join_split)

lemma cap_runes_le: "n < length (runes s) \<Longrightarrow> valid_utf8 s \<Longrightarrow> prefix (cap_runes n s) s"
  unfolding cap_runes_def
  using string_of_runes_runes [of s] string_of_runes_append [of "take n (runes s)" "drop n (runes s)"]
  by (metis append_take_drop_id prefixI)

lemma encode_rune_ne [simp]: "encode_rune r \<noteq> []"
  by (simp add: encode_rune_def encode_scalar_def)

section \<open>Folding case\<close>

text \<open>\<open>strings.EqualFold(s, word)\<close> for an ASCII word: besides the other case of a letter only
  U+212A (the Kelvin sign) and U+017F (the long s) fold to an ASCII letter.\<close>

definition fold_rune :: "nat \<Rightarrow> nat" where
  "fold_rune r = (if 65 \<le> r \<and> r \<le> 90 then r + 32 else if r = 8490 then 107 else if r = 383 then 115 else r)"

definition equal_fold :: "string \<Rightarrow> string \<Rightarrow> bool" where
  "equal_fold s word \<longleftrightarrow> map fold_rune (runes s) = map fold_rune (runes word)"

section \<open>Cuts between lines\<close>

definition line_cut :: "string \<Rightarrow> string \<Rightarrow> bool" where
  "line_cut u v \<longleftrightarrow> u = [] \<or> v = [] \<or> last u = newline"

lemma line_cut_valid:
  assumes "valid_utf8 (u @ v)" "line_cut u v"
  shows "valid_utf8 u" "valid_utf8 v" "ink (u @ v) = ink u @ ink v"
proof -
  have u: "valid_utf8 u"
  proof (cases "u = [] \<or> v = []")
    case True
    then show ?thesis using assms(1) by auto
  next
    case False
    then have split: "u = butlast u @ [newline]" using assms(2) append_butlast_last_id [of u] by (simp add: line_cut_def)
    have "valid_utf8 (butlast u @ newline # v)" using assms(1) by (subst (asm) split) simp
    then have b: "valid_utf8 (butlast u)" by (rule valid_cut) simp
    have "valid_utf8 (butlast u @ [newline])" using valid_append_iff [OF b, of "[newline]"] by simp
    then show ?thesis using split by simp
  qed
  then show "valid_utf8 u" "valid_utf8 v" "ink (u @ v) = ink u @ ink v"
    using assms(1) valid_append_iff [OF u, of v] ink_append [OF u] by simp_all
qed

lemma line_cut_trans: "line_cut u (v @ w) \<Longrightarrow> line_cut v w \<Longrightarrow> line_cut (u @ v) w"
  by (cases "v = []") (auto simp: line_cut_def)

end
