(* ===== verification/Go_Regex.thy ===== *)
theory Go_Regex
  imports Go_Text
begin

text \<open>
  The regular expressions of Go's regexp package that the program compiles. A
  pattern is a term of type \<open>re\<close>; \<open>rmatch\<close> lists the positions where a match may
  end in the order in which the leftmost-first semantics prefers them (an earlier
  alternative first, a greedy repetition longest first), so the first element is the
  match Go reports. A position is the byte before it, if any, and the text after it.

  All character classes of the program are sets of ASCII characters or complements
  of such sets under a repetition or at the end of a pattern, so matching byte by
  byte agrees with Go's matching rune by rune on whether and where a match lies.
\<close>

datatype re =
    RSet "char \<Rightarrow> bool"
  | RSeq re re
  | RAlt re re
  | RStar re
  | RLazy re
  | REps
  | RBol
  | REol
  | RWord

type_synonym pos = "char option \<times> string"

definition word_char :: "char \<Rightarrow> bool" where
  "word_char c \<longleftrightarrow> (48 \<le> byte c \<and> byte c \<le> 57) \<or> (65 \<le> byte c \<and> byte c \<le> 90)
                    \<or> (97 \<le> byte c \<and> byte c \<le> 122) \<or> byte c = 95"

definition digit_char :: "char \<Rightarrow> bool" where
  "digit_char c \<longleftrightarrow> 48 \<le> byte c \<and> byte c \<le> 57"

text \<open>The class \<open>\s\<close> of Go's syntax: tab, newline, form feed, return, space.\<close>

definition re_space :: "char \<Rightarrow> bool" where
  "re_space c \<longleftrightarrow> byte c \<in> {9, 10, 12, 13, 32}"

fun star_iter :: "nat \<Rightarrow> (pos \<Rightarrow> pos list) \<Rightarrow> pos \<Rightarrow> pos list" where
  "star_iter 0 f x = [x]"
| "star_iter (Suc n) f x =
     concat (map (star_iter n f) (filter (\<lambda>y. length (snd y) < length (snd x)) (f x))) @ [x]"

text \<open>The lazy repetition prefers to stop.\<close>

fun lazy_iter :: "nat \<Rightarrow> (pos \<Rightarrow> pos list) \<Rightarrow> pos \<Rightarrow> pos list" where
  "lazy_iter 0 f x = [x]"
| "lazy_iter (Suc n) f x =
     x # concat (map (lazy_iter n f) (filter (\<lambda>y. length (snd y) < length (snd x)) (f x)))"

fun at_word_edge :: "pos \<Rightarrow> bool" where
  "at_word_edge (p, s) =
     ((case p of Some c \<Rightarrow> word_char c | None \<Rightarrow> False)
      \<noteq> (case s of c # _ \<Rightarrow> word_char c | [] \<Rightarrow> False))"

fun set_step :: "(char \<Rightarrow> bool) \<Rightarrow> pos \<Rightarrow> pos list" where
  "set_step P (p, []) = []"
| "set_step P (p, c # s) = (if P c then [(Some c, s)] else [])"

primrec rmatch :: "re \<Rightarrow> pos \<Rightarrow> pos list" where
  "rmatch (RSet P) x = set_step P x"
| "rmatch (RSeq a b) x = concat (map (rmatch b) (rmatch a x))"
| "rmatch (RAlt a b) x = rmatch a x @ rmatch b x"
| "rmatch (RStar a) x = star_iter (length (snd x)) (rmatch a) x"
| "rmatch (RLazy a) x = lazy_iter (length (snd x)) (rmatch a) x"
| "rmatch REps x = [x]"
| "rmatch RBol x = (if fst x = None then [x] else [])"
| "rmatch REol x = (if snd x = [] then [x] else [])"
| "rmatch RWord x = (if at_word_edge x then [x] else [])"

text \<open>\<open>re.FindStringIndex\<close>: start and end of the leftmost match, relative to \<open>s\<close>.\<close>

fun re_find :: "re \<Rightarrow> char option \<Rightarrow> string \<Rightarrow> (nat \<times> nat) option" where
  "re_find r p s =
     (case rmatch r (p, s) of
        y # _ \<Rightarrow> Some (0, length s - length (snd y))
      | [] \<Rightarrow> (case s of
                [] \<Rightarrow> None
              | c # t \<Rightarrow> map_option (\<lambda>(a, b). (Suc a, Suc b)) (re_find r (Some c) t)))"

declare re_find.simps [simp del]

text \<open>\<open>re.MatchString\<close>.\<close>

definition re_matches :: "re \<Rightarrow> string \<Rightarrow> bool" where
  "re_matches r s \<longleftrightarrow> re_find r None s \<noteq> None"

text \<open>\<open>re.Split(s, -1)\<close> for a pattern that matches no empty text.\<close>

function re_split :: "re \<Rightarrow> char option \<Rightarrow> string \<Rightarrow> string list" where
  "re_split r p s =
     (case re_find r p s of
        None \<Rightarrow> [s]
      | Some (a, b) \<Rightarrow>
          if 0 < b \<and> b \<le> length s
          then take a s # re_split r (Some (s ! (b - 1))) (drop b s) else [s])"
  by pat_completeness auto
termination
  by (relation "measure (\<lambda>(r, p, s). length s)") auto

declare re_split.simps [simp del]

text \<open>The group of a pattern \<open>^a(b)c\<close> in the match that \<open>re.FindStringSubmatch\<close> reports.\<close>

definition re_submatch :: "re \<Rightarrow> re \<Rightarrow> re \<Rightarrow> string \<Rightarrow> string option" where
  "re_submatch a b c s =
     (case [(p, q). p \<leftarrow> rmatch a (None, s), q \<leftarrow> rmatch b p, rmatch c q \<noteq> []] of
        [] \<Rightarrow> None
      | (p, q) # _ \<Rightarrow> Some (take (length (snd p) - length (snd q)) (snd p)))"

text \<open>\<open>re.ReplaceAllString(s, "$1" + repl)\<close> for a pattern \<open>a(b)c\<close> that matches no empty text.\<close>

definition re_groups :: "re \<Rightarrow> re \<Rightarrow> re \<Rightarrow> pos \<Rightarrow> (string \<times> pos) option" where
  "re_groups a b c x =
     (case [(p, q, e). p \<leftarrow> rmatch a x, q \<leftarrow> rmatch b p, e \<leftarrow> rmatch c q] of
        [] \<Rightarrow> None
      | (p, q, e) # _ \<Rightarrow> Some (take (length (snd p) - length (snd q)) (snd p), e))"

function re_replace :: "re \<Rightarrow> re \<Rightarrow> re \<Rightarrow> string \<Rightarrow> char option \<Rightarrow> string \<Rightarrow> string" where
  "re_replace a b c repl prev s =
     (case re_groups a b c (prev, s) of
        Some (g, e) \<Rightarrow>
          if length (snd e) < length s then g @ repl @ re_replace a b c repl (fst e) (snd e) else s
      | None \<Rightarrow> (case s of [] \<Rightarrow> [] | ch # t \<Rightarrow> ch # re_replace a b c repl (Some ch) t))"
  by pat_completeness auto
termination
  by (relation "measure (\<lambda>(a, b, c, repl, prev, s). length s)") auto

declare re_replace.simps [simp del]

section \<open>Abbreviations for pattern syntax\<close>

definition r_char :: "char \<Rightarrow> re" where "r_char c = RSet (\<lambda>x. x = c)"

text \<open>A letter under the flag \<open>i\<close>; k and s also fold to a letter outside ASCII.\<close>

definition r_ci :: "char \<Rightarrow> re" where
  "r_ci c =
     RAlt (RSet (\<lambda>x. x = c \<or> 97 \<le> byte c \<and> byte c \<le> 122 \<and> byte x + 32 = byte c))
       (if c = CHR ''k'' then RSeq (r_char CHR 0xE2) (RSeq (r_char CHR 0x84) (r_char CHR 0xAA))
        else if c = CHR ''s'' then RSeq (r_char CHR 0xC5) (r_char CHR 0xBF)
        else RSet (\<lambda>_. False))"

fun r_ci_lit :: "string \<Rightarrow> re" where
  "r_ci_lit [] = REps"
| "r_ci_lit (c # s) = RSeq (r_ci c) (r_ci_lit s)"

fun r_lit :: "string \<Rightarrow> re" where
  "r_lit [] = REps"
| "r_lit (c # s) = RSeq (r_char c) (r_lit s)"

definition r_plus :: "re \<Rightarrow> re" where "r_plus a = RSeq a (RStar a)"

definition r_opt :: "re \<Rightarrow> re" where "r_opt a = RAlt a REps"

fun r_times :: "nat \<Rightarrow> re \<Rightarrow> re" where
  "r_times 0 a = REps"
| "r_times (Suc n) a = RSeq a (r_times n a)"

text \<open>\<open>a{0,n}\<close>, greedy.\<close>

fun r_upto :: "nat \<Rightarrow> re \<Rightarrow> re" where
  "r_upto 0 a = REps"
| "r_upto (Suc n) a = r_opt (RSeq a (r_upto n a))"

fun r_seq :: "re list \<Rightarrow> re" where
  "r_seq [] = REps"
| "r_seq (r # rs) = RSeq r (r_seq rs)"

fun r_alts :: "re list \<Rightarrow> re" where
  "r_alts [] = RSet (\<lambda>_. False)"
| "r_alts [r] = r"
| "r_alts (r # rs) = RAlt r (r_alts rs)"

section \<open>What a match consumes\<close>

primrec re_chars :: "(char \<Rightarrow> bool) \<Rightarrow> re \<Rightarrow> bool" where
  "re_chars Q (RSet P) = (\<forall>c. P c \<longrightarrow> Q c)"
| "re_chars Q (RSeq a b) = (re_chars Q a \<and> re_chars Q b)"
| "re_chars Q (RAlt a b) = (re_chars Q a \<and> re_chars Q b)"
| "re_chars Q (RStar a) = re_chars Q a"
| "re_chars Q (RLazy a) = re_chars Q a"
| "re_chars Q REps = True"
| "re_chars Q RBol = True"
| "re_chars Q REol = True"
| "re_chars Q RWord = True"

primrec re_min :: "re \<Rightarrow> nat" where
  "re_min (RSet P) = 1"
| "re_min (RSeq a b) = re_min a + re_min b"
| "re_min (RAlt a b) = min (re_min a) (re_min b)"
| "re_min (RStar a) = 0"
| "re_min (RLazy a) = 0"
| "re_min REps = 0"
| "re_min RBol = 0"
| "re_min REol = 0"
| "re_min RWord = 0"

definition consumes :: "(char \<Rightarrow> bool) \<Rightarrow> nat \<Rightarrow> pos \<Rightarrow> pos \<Rightarrow> bool" where
  "consumes Q n x y \<longleftrightarrow> (\<exists>u. snd x = u @ snd y \<and> (\<forall>c\<in>set u. Q c) \<and> n \<le> length u)"

lemma consumes_refl: "consumes Q 0 x x"
  by (auto simp: consumes_def)

lemma consumes_trans: "consumes Q m x y \<Longrightarrow> consumes Q n y z \<Longrightarrow> consumes Q (m + n) x z"
  unfolding consumes_def by (elim exE conjE, rename_tac u v, rule_tac x = "u @ v" in exI) auto

lemma consumes_mono: "consumes Q m x y \<Longrightarrow> n \<le> m \<Longrightarrow> consumes Q n x y"
  unfolding consumes_def using order_trans by blast

lemma set_step_consumes: "y \<in> set (set_step P x) \<Longrightarrow> (\<And>c. P c \<Longrightarrow> Q c) \<Longrightarrow> consumes Q 1 x y"
  by (cases "(P, x)" rule: set_step.cases) (auto simp: consumes_def split: if_splits)

lemma star_iter_consumes:
  assumes "\<And>x y. y \<in> set (f x) \<Longrightarrow> consumes Q 0 x y"
  shows "y \<in> set (star_iter n f x) \<Longrightarrow> consumes Q 0 x y"
proof (induction n arbitrary: x)
  case (Suc n)
  then consider z where "z \<in> set (f x)" "y \<in> set (star_iter n f z)" | "y = x" by auto
  then show ?case
  proof cases
    case 1
    with Suc.IH assms show ?thesis using consumes_trans [of Q 0 x z 0 y] by auto
  qed (simp add: consumes_refl)
qed (simp add: consumes_refl)

lemma lazy_iter_consumes:
  assumes "\<And>x y. y \<in> set (f x) \<Longrightarrow> consumes Q 0 x y"
  shows "y \<in> set (lazy_iter n f x) \<Longrightarrow> consumes Q 0 x y"
proof (induction n arbitrary: x)
  case (Suc n)
  then consider z where "z \<in> set (f x)" "y \<in> set (lazy_iter n f z)" | "y = x" by auto
  then show ?case
  proof cases
    case 1
    with Suc.IH assms show ?thesis using consumes_trans [of Q 0 x z 0 y] by auto
  qed (simp add: consumes_refl)
qed (simp add: consumes_refl)

lemma rmatch_consumes:
  "re_chars Q r \<Longrightarrow> y \<in> set (rmatch r x) \<Longrightarrow> consumes Q (re_min r) x y"
proof (induction r arbitrary: x y)
  case (RSet P)
  then show ?case using set_step_consumes [of y P x Q] by simp
next
  case (RSeq a b)
  then obtain z where "z \<in> set (rmatch a x)" "y \<in> set (rmatch b z)" by auto
  then have "consumes Q (re_min a) x z" "consumes Q (re_min b) z y"
    using RSeq.IH RSeq.prems(1) by simp_all
  then show ?case using consumes_trans by simp
next
  case (RAlt a b)
  then show ?case using consumes_mono [OF _ min.cobounded1] consumes_mono [OF _ min.cobounded2]
    by (metis Un_iff re_chars.simps(3) re_min.simps(3) rmatch.simps(3) set_append)
next
  case (RStar a)
  have "consumes Q 0 u v" if "v \<in> set (rmatch a u)" for u v
    using RStar.IH [OF _ that] RStar.prems(1) consumes_mono by auto
  moreover have "y \<in> set (star_iter (length (snd x)) (rmatch a) x)" using RStar.prems(2) by simp
  ultimately have "consumes Q 0 x y" by (rule star_iter_consumes)
  then show ?case by simp
next
  case (RLazy a)
  have "consumes Q 0 u v" if "v \<in> set (rmatch a u)" for u v
    using RLazy.IH [OF _ that] RLazy.prems(1) consumes_mono by auto
  moreover have "y \<in> set (lazy_iter (length (snd x)) (rmatch a) x)" using RLazy.prems(2) by simp
  ultimately have "consumes Q 0 x y" by (rule lazy_iter_consumes)
  then show ?case by simp
qed (auto simp: consumes_refl split: if_splits)

lemma re_find_bounds:
  assumes "re_chars Q r" "re_find r p s = Some (a, b)"
  shows "a + re_min r \<le> b" "b \<le> length s" "\<forall>c\<in>set (drop a (take b s)). Q c"
proof -
  have "a + re_min r \<le> b \<and> b \<le> length s \<and> (\<forall>c\<in>set (drop a (take b s)). Q c)"
    using assms(2)
  proof (induction s arbitrary: p a b)
    case Nil
    then show ?case
      using rmatch_consumes [OF assms(1), of _ "(p, [])"]
      by (auto simp: re_find.simps consumes_def split: list.splits)
  next
    case (Cons c t)
    show ?case
    proof (cases "rmatch r (p, c # t)")
      case Nil
      with Cons.prems obtain a' b' where "re_find r (Some c) t = Some (a', b')" "a = Suc a'" "b = Suc b'"
        by (auto simp: re_find.simps [of r p])
      with Cons.IH show ?thesis by fastforce
    next
      case (Cons y ys)
      with \<open>re_find r p (c # t) = Some (a, b)\<close>
      have ab: "a = 0" "b = length (c # t) - length (snd y)" by (auto simp: re_find.simps [of r p])
      have "consumes Q (re_min r) (p, c # t) y"
        by (rule rmatch_consumes [OF assms(1)]) (simp add: Cons)
      then obtain u where "c # t = u @ snd y" "\<forall>c\<in>set u. Q c" "re_min r \<le> length u"
        by (auto simp: consumes_def)
      then show ?thesis using ab by (metis add_0 add_diff_cancel_right' append_eq_conv_conj
            diff_le_self drop0 length_append)
    qed
  qed
  then show "a + re_min r \<le> b" "b \<le> length s" "\<forall>c\<in>set (drop a (take b s)). Q c" by auto
qed

end
