(* ===== verification/Chunk_Core.thy ===== *)
theory Chunk_Core
  imports Go_Regex
begin

text \<open>
  Package internal/ingest/chunk, files chunk.go and text.go: the chunk type, the
  size bound every stored chunk obeys, titles, and the text chunker that the other
  format chunkers fall back to.

  A loop that the code does not bound (\<open>splitOnRuneBoundaries\<close>, \<open>windowParagraph\<close>)
  is a partial function with values in \<open>option\<close>: \<open>None\<close> means that it does not
  return. The lemmas show where it returns: always for the former with a positive
  bound, on well-formed UTF-8 for the latter.
\<close>

section \<open>Definitions\<close>

record db_chunk =
  Title :: string
  Content :: string
  ContentType :: string

definition titleCap :: nat where "titleCap = 60"
definition chunkTargetBytes :: nat where "chunkTargetBytes = 2048"
definition chunkMaxBytes :: nat where "chunkMaxBytes = 2 * chunkTargetBytes"

definition contentTypeProse :: string where "contentTypeProse = ''prose''"
definition contentTypeCode :: string where "contentTypeCode = ''code''"

text \<open>\<open>s[a:b]\<close>.\<close>

definition slice :: "nat \<Rightarrow> nat \<Rightarrow> string \<Rightarrow> string" where
  "slice a b s = take (b - a) (drop a s)"

text \<open>\<open>runeBoundaryBefore(s, limit)\<close>; every caller has \<open>limit < len(s)\<close>.\<close>

fun runeBoundaryBefore :: "string \<Rightarrow> nat \<Rightarrow> nat" where
  "runeBoundaryBefore s 0 = 0"
| "runeBoundaryBefore s (Suc i) =
     (if rune_start (s ! Suc i) then Suc i else runeBoundaryBefore s i)"

partial_function (option) rune_cut_loop :: "nat \<Rightarrow> string \<Rightarrow> string list \<Rightarrow> string list option" where
  "rune_cut_loop maxBytes s pieces =
     (if length s > maxBytes then
        (let cut = runeBoundaryBefore s maxBytes;
             cut = (if cut = 0 then maxBytes else cut)
         in rune_cut_loop maxBytes (drop cut s) (pieces @ [take cut s]))
      else Some (pieces @ [s]))"

definition splitOnRuneBoundaries :: "string \<Rightarrow> nat \<Rightarrow> string list option" where
  "splitOnRuneBoundaries s maxBytes = rune_cut_loop maxBytes s []"

text \<open>The index after the line that contains index \<open>i\<close>, its newline included.\<close>

definition line_end :: "string \<Rightarrow> nat \<Rightarrow> nat" where
  "line_end s i = (case index_byte newline (drop i s) of Some n \<Rightarrow> i + n + 1 | None \<Rightarrow> length s)"

lemma line_end_gt: "i < length s \<Longrightarrow> i < line_end s i \<and> line_end s i \<le> length s"
  by (auto simp: line_end_def split: option.split dest: index_byte_Some)

function line_loop :: "nat \<Rightarrow> string \<Rightarrow> nat \<Rightarrow> nat \<Rightarrow> string list \<Rightarrow> string list option" where
  "line_loop maxBytes s segStart i pieces =
     (if i < length s then
        (let lineEnd = line_end s i in
         if lineEnd - i > maxBytes then
           (let pieces' = (if i > segStart then pieces @ [slice segStart i s] else pieces) in
            case splitOnRuneBoundaries (slice i lineEnd s) maxBytes of
              None \<Rightarrow> None
            | Some ps \<Rightarrow> line_loop maxBytes s lineEnd lineEnd (pieces' @ ps))
         else if i > segStart \<and> lineEnd - segStart > maxBytes then
           line_loop maxBytes s i lineEnd (pieces @ [slice segStart i s])
         else line_loop maxBytes s segStart lineEnd pieces)
      else Some (if segStart < length s then pieces @ [drop segStart s] else pieces))"
  by pat_completeness auto
termination
  by (relation "measure (\<lambda>(m, s, seg, i, ps). length s - i)") (use line_end_gt in \<open>auto intro: diff_less_mono2\<close>)

declare line_loop.simps [simp del]

definition splitOnLineBoundaries :: "string \<Rightarrow> nat \<Rightarrow> string list option" where
  "splitOnLineBoundaries s maxBytes = line_loop maxBytes s 0 0 []"

fun boundChunks :: "db_chunk list \<Rightarrow> db_chunk list option" where
  "boundChunks [] = Some []"
| "boundChunks (c # cs) =
     (if length (Content c) \<le> chunkMaxBytes then map_option ((#) c) (boundChunks cs)
      else case splitOnLineBoundaries (Content c) chunkMaxBytes of
             None \<Rightarrow> None
           | Some segs \<Rightarrow> map_option ((@) (map (\<lambda>seg. c\<lparr>Content := seg\<rparr>) segs)) (boundChunks cs))"

definition numberedTitle :: "string \<Rightarrow> nat \<Rightarrow> string" where
  "numberedTitle kind n = kind @ '' '' @ itoa n"

definition capTitle :: "string \<Rightarrow> string \<Rightarrow> string" where
  "capTitle title fallback =
     (let title = trim_space title in
      if title = [] then fallback else cap_runes titleCap title)"

subsection \<open>The text chunker\<close>

definition blankLineRe :: re where
  "blankLineRe = r_seq [r_char newline, RStar (RSet (\<lambda>c. c = CHR '' '' \<or> c = CHR 0x09)),
                        r_char newline]"

partial_function (option) window_loop :: "string \<Rightarrow> string list \<Rightarrow> string list option" where
  "window_loop rest pieces =
     (if length rest > chunkMaxBytes then
        (let cut = (case last_index_byte newline (take chunkTargetBytes rest) of
                      Some i \<Rightarrow> if i = 0 then runeBoundaryBefore rest chunkTargetBytes else i
                    | None \<Rightarrow> runeBoundaryBefore rest chunkTargetBytes);
             piece = trim_right_nl (take cut rest)
         in window_loop (trim_left_nl (drop cut rest))
              (if blank piece then pieces else pieces @ [piece]))
      else Some (if blank rest then pieces else pieces @ [rest]))"

definition windowParagraph :: "string \<Rightarrow> string list option" where
  "windowParagraph p = (if length p \<le> chunkMaxBytes then Some [p] else window_loop p [])"

definition first_line :: "string \<Rightarrow> string" where
  "first_line body = (case index_byte newline body of Some i \<Rightarrow> take i body | None \<Rightarrow> body)"

definition paragraphTitle :: "string \<Rightarrow> nat \<Rightarrow> string" where
  "paragraphTitle body n = capTitle (first_line body) (numberedTitle ''section'' n)"

fun add_pieces :: "string \<Rightarrow> string list \<Rightarrow> db_chunk list \<Rightarrow> db_chunk list" where
  "add_pieces contentType [] chunks = chunks"
| "add_pieces contentType (piece # ps) chunks =
     add_pieces contentType ps
       (chunks @ [\<lparr>Title = paragraphTitle piece (length chunks + 1), Content = piece,
                   ContentType = contentType\<rparr>])"

fun text_paragraphs :: "string \<Rightarrow> string list \<Rightarrow> db_chunk list \<Rightarrow> db_chunk list option" where
  "text_paragraphs contentType [] chunks = Some chunks"
| "text_paragraphs contentType (p # ps) chunks =
     (let body = trim_space p in
      if body = [] then text_paragraphs contentType ps chunks
      else case windowParagraph body of
             None \<Rightarrow> None
           | Some pieces \<Rightarrow>
               text_paragraphs contentType ps (add_pieces contentType pieces chunks))"

type_synonym chunkFunc = "string \<Rightarrow> string \<Rightarrow> string \<Rightarrow> db_chunk list option"

definition textChunks :: chunkFunc where
  "textChunks source content contentType =
     (case text_paragraphs contentType (re_split blankLineRe None content) [] of
        None \<Rightarrow> None
      | Some chunks \<Rightarrow>
          Some (if chunks = []
                then [\<lparr>Title = ''section 1'', Content = content, ContentType = contentType\<rparr>]
                else chunks))"

subsection \<open>Split\<close>

text \<open>The package variable \<open>chunkers\<close>, filled by the \<open>register\<close> calls of the format files.\<close>

type_synonym registry = "string \<rightharpoonup> chunkFunc"

definition register :: "string \<Rightarrow> chunkFunc \<Rightarrow> registry \<Rightarrow> registry" where
  "register format fn chunkers = chunkers(format \<mapsto> fn)"

definition formatText :: string where "formatText = ''text''"

definition bounded :: "db_chunk list option \<Rightarrow> string \<Rightarrow> (db_chunk list \<times> string) option" where
  "bounded r format =
     (case r of None \<Rightarrow> None | Some cs \<Rightarrow> map_option (\<lambda>bs. (bs, format)) (boundChunks cs))"

text \<open>\<open>Split(source, content, format, contentType)\<close>, over the registered chunkers and the
  detector \<open>detectFormat\<close>.\<close>

definition Split ::
  "registry \<Rightarrow> (string \<Rightarrow> string) \<Rightarrow> string \<Rightarrow> string \<Rightarrow> string \<Rightarrow> string
   \<Rightarrow> (db_chunk list \<times> string) option" where
  "Split chunkers detectFormat source content format contentType =
     (let contentType = (if contentType = [] then contentTypeProse else contentType) in
      if blank content then Some ([], format)
      else
        (let format = (if format = [] then detectFormat content else format) in
         case chunkers format of
           None \<Rightarrow> bounded (textChunks source content contentType) formatText
         | Some fn \<Rightarrow> bounded (fn source content contentType) format))"


section \<open>Rune boundaries in well-formed text\<close>

lemma valid_hd_start:
  assumes "valid_utf8 s" "s \<noteq> []"
  shows "rune_start (hd s)"
proof -
  have "starts_valid s" using assms by (simp add: valid_utf8_step)
  then show ?thesis by (rule starts_valid_shape [OF _ assms(2)]) simp
qed

lemma cont_run_short:
  "valid_utf8 s \<Longrightarrow> s = u @ v @ w \<Longrightarrow> \<forall>c\<in>set v. cont_byte c \<Longrightarrow> length v \<le> 3"
proof (induction s arbitrary: u rule: length_induct)
  case (1 s)
  note cont = "1.prems"(3)
  have IH: "length t < length s \<Longrightarrow> valid_utf8 t \<Longrightarrow> t = u' @ v @ w \<Longrightarrow> length v \<le> 3" for t u'
    using "1.IH" cont by blast
  show ?case
  proof (cases "v = []")
    case False
    then have ne: "s \<noteq> []" using "1.prems"(2) by simp
    have sv: "starts_valid s" and vd: "valid_utf8 (drop (rune_width s) s)"
      using "1.prems"(1) ne by (simp_all add: valid_utf8_step)
    obtain a x t where sh: "s = a # x @ t" "rune_start a" "rune_width s = Suc (length x)"
      using starts_valid_shape [OF sv ne] by metis
    have vt: "valid_utf8 t" using sh(1,3) vd by simp
    have lt: "length t < length s" using sh(1) by simp
    have x3: "length x \<le> 3" using rune_width_le_4 [of s] sh(3) by simp
    have u: "u \<noteq> []" using sh(1,2) "1.prems"(2,3) False
      by (cases v) (auto simp: rune_start_def)
    then obtain u' where u': "u = a # u'" "x @ t = u' @ v @ w"
      using sh(1) "1.prems"(2) by (cases u) auto
    from append_eq_append_conv2 [THEN iffD1, OF u'(2)]
    consider us where "x @ us = u'" "t = us @ v @ w" | us where "x = u' @ us" "us @ t = v @ w"
      by blast
    then show ?thesis
    proof cases
      case 1
      show ?thesis by (rule IH [OF lt vt 1(2)])
    next
      case 2
      from append_eq_append_conv2 [THEN iffD1, OF 2(2)]
      consider vs where "us @ vs = v" "t = vs @ w" | vs where "us = v @ vs" by blast
      then show ?thesis
      proof cases
        case 1
        have "vs = []"
        proof (rule ccontr)
          assume "vs \<noteq> []"
          then have "rune_start (hd vs)" using valid_hd_start [OF vt] 1(2) by auto
          moreover have "cont_byte (hd vs)" using "1.prems"(3) 1(1) \<open>vs \<noteq> []\<close> by auto
          ultimately show False by (simp add: rune_start_def)
        qed
        then show ?thesis using 1 2(1) x3 by simp
      next
        case (2 vs)
        then show ?thesis using \<open>x = u' @ us\<close> x3 by simp
      qed
    qed
  qed simp
qed

lemma runeBoundaryBefore_le: "runeBoundaryBefore s i \<le> i"
  by (induction i) auto

lemma runeBoundaryBefore_start: "0 < runeBoundaryBefore s i \<Longrightarrow> rune_start (s ! runeBoundaryBefore s i)"
  by (induction i) (auto split: if_splits)

lemma runeBoundaryBefore_skip:
  "runeBoundaryBefore s i < j \<Longrightarrow> j \<le> i \<Longrightarrow> cont_byte (s ! j)"
  by (induction i) (auto simp: rune_start_def le_Suc_eq split: if_splits)

lemma runeBoundaryBefore_near:
  assumes "valid_utf8 s" "i < length s"
  shows "i \<le> runeBoundaryBefore s i + 3"
proof -
  let ?b = "runeBoundaryBefore s i"
  have split: "s = take (Suc ?b) s @ slice (Suc ?b) (Suc i) s @ drop (Suc i) s"
  proof -
    have "drop (Suc ?b) s = take (Suc i - Suc ?b) (drop (Suc ?b) s) @ drop (Suc i) s"
      using runeBoundaryBefore_le [of s i] by (metis Suc_le_mono append_take_drop_id drop_drop le_add_diff_inverse2)
    then show ?thesis unfolding slice_def by (metis append_take_drop_id)
  qed
  have "\<forall>c\<in>set (slice (Suc ?b) (Suc i) s). cont_byte c"
    using assms(2) runeBoundaryBefore_skip [of s i]
    by (auto simp: slice_def in_set_conv_nth)
  then have "length (slice (Suc ?b) (Suc i) s) \<le> 3" by (rule cont_run_short [OF assms(1) split])
  then show ?thesis using assms(2) by (simp add: slice_def)
qed

lemma boundary_valid:
  assumes "valid_utf8 s" "i < length s" "b = runeBoundaryBefore s i" "0 < b"
  shows "valid_utf8 (take b s)" "valid_utf8 (drop b s)" "ink s = ink (take b s) @ ink (drop b s)"
  using cut_at [OF assms(1), of b] runeBoundaryBefore_start [of s i] assms(3,4) by auto

section \<open>Splitting on rune boundaries\<close>

lemma rune_cut_loop_total:
  assumes "0 < m"
  shows "\<exists>ps. rune_cut_loop m s acc = Some (acc @ ps) \<and> concat ps = s
              \<and> (\<forall>p\<in>set ps. length p \<le> m) \<and> (s \<noteq> [] \<longrightarrow> (\<forall>p\<in>set ps. p \<noteq> []))"
proof (induction s arbitrary: acc rule: length_induct)
  case (1 s)
  show ?case
  proof (cases "length s > m")
    case True
    define b where "b = runeBoundaryBefore s m"
    define cut where "cut = (if b = 0 then m else b)"
    have cut: "0 < cut" "cut \<le> m" using assms runeBoundaryBefore_le [of s m] by (auto simp: cut_def b_def)
    have ne: "drop cut s \<noteq> []" using True cut by simp
    have "length (drop cut s) < length s" using cut True by simp
    then obtain ps where ps: "rune_cut_loop m (drop cut s) (acc @ [take cut s]) = Some ((acc @ [take cut s]) @ ps)"
        "concat ps = drop cut s" "\<forall>p\<in>set ps. length p \<le> m" "\<forall>p\<in>set ps. p \<noteq> []"
      using 1 ne by blast
    have "rune_cut_loop m s acc = rune_cut_loop m (drop cut s) (acc @ [take cut s])"
      using True by (subst rune_cut_loop.simps) (simp add: Let_def cut_def b_def)
    with ps cut True show ?thesis by (intro exI [of _ "take cut s # ps"]) auto
  next
    case False
    then show ?thesis by (subst rune_cut_loop.simps) auto
  qed
qed

lemma rune_cut_loop_valid:
  assumes "4 \<le> m"
  shows "valid_utf8 s \<Longrightarrow> rune_cut_loop m s acc = Some (acc @ ps) \<Longrightarrow> \<forall>p\<in>set ps. valid_utf8 p"
proof (induction s arbitrary: acc ps rule: length_induct)
  case (1 s)
  show ?case
  proof (cases "length s > m")
    case True
    define b where "b = runeBoundaryBefore s m"
    have b: "0 < b" using runeBoundaryBefore_near [OF "1.prems"(1) True] assms by (simp add: b_def)
    note v = boundary_valid [OF "1.prems"(1) True b_def b]
    have eq: "rune_cut_loop m s acc = rune_cut_loop m (drop b s) (acc @ [take b s])"
      using True b by (subst rune_cut_loop.simps) (simp add: Let_def b_def)
    obtain ps' where ps': "rune_cut_loop m (drop b s) (acc @ [take b s]) = Some ((acc @ [take b s]) @ ps')"
      using rune_cut_loop_total [of m] assms by (meson less_le_trans zero_less_numeral)
    have "length (drop b s) < length s" using b True by simp
    then have "\<forall>p\<in>set ps'. valid_utf8 p" using "1.IH" v(2) ps' by blast
    moreover have "ps = take b s # ps'" using eq ps' "1.prems"(2) by simp
    ultimately show ?thesis using v(1) by simp
  next
    case False
    then show ?thesis using 1 by (subst (asm) rune_cut_loop.simps) auto
  qed
qed

lemma splitOnRuneBoundaries_total:
  assumes "0 < m"
  obtains ps where "splitOnRuneBoundaries s m = Some ps" "concat ps = s"
    "\<forall>p\<in>set ps. length p \<le> m" "s \<noteq> [] \<Longrightarrow> \<forall>p\<in>set ps. p \<noteq> []"
    "4 \<le> m \<Longrightarrow> valid_utf8 s \<Longrightarrow> \<forall>p\<in>set ps. valid_utf8 p"
  using rune_cut_loop_total [OF assms, of s "[]"] rune_cut_loop_valid [of m s "[]"]
  unfolding splitOnRuneBoundaries_def by auto


section \<open>Splitting on line boundaries\<close>

lemma take_slice: "a \<le> b \<Longrightarrow> take a s @ slice a b s = take b s"
  unfolding slice_def by (metis le_add_diff_inverse take_add)

lemma slice_valid:
  assumes "a \<le> b" "valid_utf8 (take a s)" "valid_utf8 (take b s)"
  shows "valid_utf8 (slice a b s)"
  using take_slice [OF assms(1), of s] valid_append_iff [OF assms(2), of "slice a b s"] assms(3) by simp

lemma drop_valid: "valid_utf8 s \<Longrightarrow> valid_utf8 (take i s) \<Longrightarrow> valid_utf8 (drop i s)"
  using valid_append_iff [of "take i s" "drop i s"] by simp

lemma line_end_valid:
  assumes "valid_utf8 s" "valid_utf8 (take i s)" "i < length s"
  shows "valid_utf8 (take (line_end s i) s)"
proof (cases "index_byte newline (drop i s)")
  case None
  then show ?thesis using assms(1) by (simp add: line_end_def)
next
  case (Some n)
  let ?d = "drop i s"
  note n = index_byte_Some [OF Some]
  have d: "valid_utf8 ?d" by (rule drop_valid [OF assms(1,2)])
  have "valid_utf8 (take n ?d)" using cut_at(1) [OF d, of n] n by simp
  moreover have "take (Suc n) ?d = take n ?d @ [newline]" using n by (simp add: take_Suc_conv_app_nth)
  ultimately have "valid_utf8 (take (Suc n) ?d)" by (simp add: valid_append_iff)
  moreover have "take (i + Suc n) s = take i s @ take (Suc n) ?d" by (rule take_add)
  ultimately have "valid_utf8 (take (i + Suc n) s)" using assms(2) by (simp add: valid_append_iff)
  then show ?thesis using Some by (simp add: line_end_def)
qed

definition pieces_ok :: "nat \<Rightarrow> bool \<Rightarrow> string list \<Rightarrow> bool" where
  "pieces_ok m v ps \<longleftrightarrow> (\<forall>p\<in>set ps. length p \<le> m \<and> p \<noteq> [] \<and> (v \<longrightarrow> valid_utf8 p))"

lemma pieces_ok_simps [simp]:
  "pieces_ok m v []"
  "pieces_ok m v (ps @ qs) \<longleftrightarrow> pieces_ok m v ps \<and> pieces_ok m v qs"
  "pieces_ok m v [p] \<longleftrightarrow> length p \<le> m \<and> p \<noteq> [] \<and> (v \<longrightarrow> valid_utf8 p)"
  by (auto simp: pieces_ok_def)

lemma slice_length [simp]: "b \<le> length s \<Longrightarrow> length (slice a b s) = b - a"
  by (simp add: slice_def)

lemma slice_ne: "a < b \<Longrightarrow> b \<le> length s \<Longrightarrow> slice a b s \<noteq> []"
  by (simp add: slice_def)

lemma line_loop_total:
  assumes m: "4 \<le> m"
  shows "seg \<le> i \<Longrightarrow> i \<le> length s \<Longrightarrow> i - seg \<le> m \<Longrightarrow> concat pieces = take seg s
    \<Longrightarrow> (v \<Longrightarrow> valid_utf8 s \<and> valid_utf8 (take seg s) \<and> valid_utf8 (take i s))
    \<Longrightarrow> pieces_ok m v pieces
    \<Longrightarrow> \<exists>ps. line_loop m s seg i pieces = Some ps \<and> concat ps = s \<and> pieces_ok m v ps"
proof (induction "length s - i" arbitrary: seg i pieces rule: less_induct)
  case less
  note prems = less.prems
  show ?case
  proof (cases "i < length s")
    case False
    have eq: "line_loop m s seg i pieces
        = Some (if seg < length s then pieces @ [drop seg s] else pieces)"
      using False by (subst line_loop.simps) simp
    show ?thesis
    proof (cases "seg < length s")
      case True
      then show ?thesis unfolding eq using prems False drop_valid [of s seg] by auto
    next
      case nseg: False
      then have "concat pieces = s" using prems(4) by simp
      then show ?thesis unfolding eq using nseg prems(6) by simp
    qed
  next
    case True
    define e where "e = line_end s i"
    have e: "i < e" "e \<le> length s" using line_end_gt [OF True] by (auto simp: e_def)
    have ve: "v \<Longrightarrow> valid_utf8 (take e s)"
      using line_end_valid [of s i] prems(5) True by (auto simp: e_def)
    have small: "length s - e < length s - i" using e True by simp
    have vsl: "v \<Longrightarrow> valid_utf8 (slice seg i s)" "v \<Longrightarrow> valid_utf8 (slice i e s)"
      using slice_valid [of seg i s] slice_valid [of i e s] prems(1,5) ve e by auto
    consider (long) "e - i > m" | (full) "\<not> e - i > m" "i > seg" "e - seg > m"
      | (more) "\<not> e - i > m" "\<not> (i > seg \<and> e - seg > m)" by blast
    then show ?thesis
    proof cases
      case long
      define pieces' where "pieces' = (if i > seg then pieces @ [slice seg i s] else pieces)"
      have p': "pieces_ok m v pieces'" "concat pieces' = take i s"
        using prems vsl(1) take_slice [OF prems(1), of s] slice_ne [of seg i s] True by (auto simp: pieces'_def)
      obtain qs where qs: "splitOnRuneBoundaries (slice i e s) m = Some qs" "concat qs = slice i e s"
          "\<forall>p\<in>set qs. length p \<le> m" "slice i e s \<noteq> [] \<Longrightarrow> \<forall>p\<in>set qs. p \<noteq> []"
          "4 \<le> m \<Longrightarrow> valid_utf8 (slice i e s) \<Longrightarrow> \<forall>p\<in>set qs. valid_utf8 p"
        using splitOnRuneBoundaries_total [of m "slice i e s"] m by auto
      have "slice i e s \<noteq> []" using e by (simp add: slice_ne)
      then have ok: "pieces_ok m v (pieces' @ qs)" using p'(1) qs m vsl(2) by (auto simp: pieces_ok_def)
      have eq: "line_loop m s seg i pieces = line_loop m s e e (pieces' @ qs)"
        using True long qs(1)
        by (subst line_loop.simps) (simp add: Let_def pieces'_def flip: e_def)
      have cc: "concat (pieces' @ qs) = take e s"
        using p'(2) qs(2) take_slice [of i e s] e by simp
      show ?thesis unfolding eq by (rule less.hyps [OF small]) (use e ve ok cc prems(5) in auto)
    next
      case full
      have eq: "line_loop m s seg i pieces = line_loop m s i e (pieces @ [slice seg i s])"
        using True full by (subst line_loop.simps) (simp add: Let_def flip: e_def)
      have ok: "pieces_ok m v (pieces @ [slice seg i s])"
        using prems(2,3,6) vsl(1) full(2) slice_ne [of seg i s] by simp
      have cc: "concat (pieces @ [slice seg i s]) = take i s"
        using prems(4) take_slice [OF prems(1), of s] by simp
      show ?thesis unfolding eq
        by (rule less.hyps [OF small]) (use e ve ok cc prems full in auto)
    next
      case more
      have eq: "line_loop m s seg i pieces = line_loop m s seg e pieces"
        using True more by (subst line_loop.simps) (auto simp add: Let_def simp flip: e_def)
      have "e - seg \<le> m" using more prems(1) by (cases "i = seg") auto
      then show ?thesis unfolding eq
        by (intro less.hyps [OF small]) (use e ve prems in auto)
    qed
  qed
qed

lemma splitOnLineBoundaries_total:
  assumes "4 \<le> m"
  obtains ps where "splitOnLineBoundaries s m = Some ps" "concat ps = s"
    "pieces_ok m (valid_utf8 s) ps"
  using line_loop_total [OF assms, of 0 0 s "[]" "valid_utf8 s"]
  unfolding splitOnLineBoundaries_def by auto

section \<open>Windows of a paragraph\<close>

definition window_cut :: "string \<Rightarrow> nat" where
  "window_cut rest =
     (case last_index_byte newline (take chunkTargetBytes rest) of
        Some i \<Rightarrow> if i = 0 then runeBoundaryBefore rest chunkTargetBytes else i
      | None \<Rightarrow> runeBoundaryBefore rest chunkTargetBytes)"

lemma sizes [simp]: "chunkTargetBytes = 2048" "chunkMaxBytes = 4096"
  by (simp_all add: chunkMaxBytes_def chunkTargetBytes_def)

lemma window_loop_step:
  "window_loop rest pieces =
     (if length rest > 4096 then
        window_loop (trim_left_nl (drop (window_cut rest) rest))
          (if blank (trim_right_nl (take (window_cut rest) rest)) then pieces
           else pieces @ [trim_right_nl (take (window_cut rest) rest)])
      else Some (if blank rest then pieces else pieces @ [rest]))"
  by (subst window_loop.simps) (simp add: Let_def window_cut_def)

lemma window_cut_props:
  assumes "valid_utf8 rest" "length rest > 4096"
  shows "0 < window_cut rest" "window_cut rest \<le> 2048"
    "valid_utf8 (take (window_cut rest) rest)" "valid_utf8 (drop (window_cut rest) rest)"
    "ink rest = ink (take (window_cut rest) rest) @ ink (drop (window_cut rest) rest)"
proof -
  let ?b = "runeBoundaryBefore rest 2048"
  have lt: "2048 < length rest" using assms(2) by simp
  have b: "0 < ?b" "?b \<le> 2048" "rune_start (rest ! ?b)"
    using runeBoundaryBefore_near [OF assms(1) lt] runeBoundaryBefore_le [of rest 2048]
      runeBoundaryBefore_start [of rest 2048] by simp_all
  have c: "0 < window_cut rest \<and> window_cut rest \<le> 2048 \<and> rune_start (rest ! window_cut rest)"
    using b last_index_byte_Some [of newline "take 2048 rest"]
    by (auto simp: window_cut_def split: option.split)
  then show "0 < window_cut rest" "window_cut rest \<le> 2048" by auto
  show "valid_utf8 (take (window_cut rest) rest)" "valid_utf8 (drop (window_cut rest) rest)"
    "ink rest = ink (take (window_cut rest) rest) @ ink (drop (window_cut rest) rest)"
    using cut_at [OF assms(1), of "window_cut rest"] c by auto
qed

definition windows_ok :: "string \<Rightarrow> string list \<Rightarrow> bool" where
  "windows_ok p ps \<longleftrightarrow>
     (\<forall>x\<in>set ps. length x \<le> 4096 \<and> valid_utf8 x \<and> sublist x p) \<and> concat (map ink ps) = ink p"

lemma window_loop_total:
  "valid_utf8 rest \<Longrightarrow>
     \<exists>ps. window_loop rest acc = Some (acc @ ps) \<and> windows_ok rest ps \<and> (\<forall>x\<in>set ps. \<not> blank x)"
proof (induction rest arbitrary: acc rule: length_induct)
  case (1 rest)
  note vr = "1.prems"
  show ?case
  proof (cases "length rest > 4096")
    case True
    note cut = window_cut_props [OF vr True]
    define piece where "piece = trim_right_nl (take (window_cut rest) rest)"
    define rest' where "rest' = trim_left_nl (drop (window_cut rest) rest)"
    have piece: "valid_utf8 piece" "ink piece = ink (take (window_cut rest) rest)"
      "length piece \<le> 2048" "sublist piece rest"
      using trim_right_nl_ink [OF cut(3)] length_sublist [OF sublist_trim_right_set, of "\<lambda>c. c = newline" "take (window_cut rest) rest"]
        cut(2) sublist_trim_right_set sublist_take sublist_order.order_trans
      unfolding piece_def by (auto, blast)
    have rest': "valid_utf8 rest'" "ink rest' = ink (drop (window_cut rest) rest)"
      "length rest' < length rest" "sublist rest' rest"
      using trim_left_nl_ink [OF cut(4)] length_sublist [OF sublist_trim_left_set, of "\<lambda>c. c = newline" "drop (window_cut rest) rest"]
        cut(1) True sublist_trim_left_set sublist_drop sublist_order.order_trans
      unfolding rest'_def by (auto, blast)
    define acc' where "acc' = (if blank piece then acc else acc @ [piece])"
    obtain ps where ps: "window_loop rest' acc' = Some (acc' @ ps)" "windows_ok rest' ps"
        "\<forall>x\<in>set ps. \<not> blank x"
      using "1.IH" rest'(1,3) by blast
    have step: "window_loop rest acc = window_loop rest' acc'"
      using True by (subst window_loop_step) (simp add: piece_def rest'_def acc'_def)
    have ink: "ink rest = ink piece @ ink rest'" using cut(5) piece(2) rest'(2) by simp
    have sub: "\<forall>x\<in>set ps. sublist x rest"
      using ps(2) rest'(4) sublist_order.order_trans unfolding windows_ok_def by blast
    show ?thesis
    proof (cases "blank piece")
      case True
      then have "ink piece = []" using blank_ink piece(1) by simp
      then show ?thesis using step ps ink sub True
        by (intro exI [of _ ps]) (auto simp: acc'_def windows_ok_def)
    next
      case False
      then show ?thesis using step ps ink sub piece
        by (intro exI [of _ "piece # ps"]) (auto simp: acc'_def windows_ok_def)
    qed
  next
    case False
    then have "window_loop rest acc = Some (if blank rest then acc else acc @ [rest])"
      by (subst window_loop_step) simp
    then show ?thesis using vr blank_ink [OF vr] False
      by (cases "blank rest") (auto simp: windows_ok_def intro: exI [of _ "[rest]"])
  qed
qed

lemma windowParagraph_total:
  assumes "valid_utf8 p"
  obtains ps where "windowParagraph p = Some ps" "windows_ok p ps" "\<not> blank p \<Longrightarrow> \<forall>x\<in>set ps. \<not> blank x"
proof (cases "length p \<le> 4096")
  case True
  then show ?thesis using that [of "[p]"] assms by (simp add: windowParagraph_def windows_ok_def)
next
  case False
  then show ?thesis using that window_loop_total [OF assms, of "[]"]
    by (auto simp: windowParagraph_def)
qed

section \<open>The text chunker\<close>

definition contents_ink :: "db_chunk list \<Rightarrow> nat list" where
  "contents_ink cs = concat (map (\<lambda>c. ink (Content c)) cs)"

lemma contents_ink_simps [simp]:
  "contents_ink [] = []"
  "contents_ink (c # cs) = ink (Content c) @ contents_ink cs"
  "contents_ink (cs @ ds) = contents_ink cs @ contents_ink ds"
  by (simp_all add: contents_ink_def)

text \<open>What a chunker owes to its caller for each chunk.\<close>

definition chunk_ok :: "db_chunk \<Rightarrow> bool" where
  "chunk_ok c \<longleftrightarrow> valid_utf8 (Content c) \<and> \<not> blank (Content c)"

definition chunk_fit :: "db_chunk \<Rightarrow> bool" where
  "chunk_fit c \<longleftrightarrow> valid_utf8 (Content c) \<and> Content c \<noteq> []"

lemma chunk_ok_fit: "chunk_ok c \<Longrightarrow> chunk_fit c"
  by (auto simp: chunk_ok_def chunk_fit_def)

lemma add_pieces_props:
  "\<exists>ds. add_pieces ct ps cs = cs @ ds \<and> map Content ds = ps \<and> (\<forall>d\<in>set ds. ContentType d = ct)"
proof (induction ps arbitrary: cs)
  case (Cons p ps)
  let ?d = "\<lparr>Title = paragraphTitle p (length cs + 1), Content = p, ContentType = ct\<rparr>"
  obtain ds where "add_pieces ct ps (cs @ [?d]) = (cs @ [?d]) @ ds" "map Content ds = ps"
    "\<forall>d\<in>set ds. ContentType d = ct" using Cons.IH by blast
  then show ?case by (intro exI [of _ "?d # ds"]) simp
qed simp

lemma map_Content_ink: "map Content ds = ps \<Longrightarrow> contents_ink ds = concat (map ink ps)"
  by (auto simp: contents_ink_def comp_def)

lemma map_Content_all: "map Content ds = ps \<Longrightarrow> (\<forall>d\<in>set ds. P (Content d)) \<longleftrightarrow> (\<forall>p\<in>set ps. P p)"
  by auto

lemma text_paragraphs_total:
  "\<forall>p\<in>set ps. valid_utf8 p \<Longrightarrow>
     \<exists>ds. text_paragraphs ct ps cs = Some (cs @ ds) \<and> contents_ink ds = concat (map ink ps)
        \<and> (\<forall>d\<in>set ds. chunk_ok d \<and> length (Content d) \<le> chunkMaxBytes
                        \<and> (\<exists>p\<in>set ps. sublist (Content d) p))"
proof (induction ps arbitrary: cs)
  case (Cons p ps)
  note vp = trim_space_ink [of p]
  show ?case
  proof (cases "trim_space p = []")
    case True
    then have "ink p = []" using Cons.prems blank_ink [of p] by (simp add: blank_def)
    then show ?thesis using Cons True by fastforce
  next
    case False
    have v: "valid_utf8 (trim_space p)" "ink (trim_space p) = ink p" using vp Cons.prems by auto
    have nb: "\<not> blank (trim_space p)"
      using False blank_ink [OF v(1)] ink_blank [of p] v(2) Cons.prems by (auto simp: blank_def)
    obtain ws where ws: "windowParagraph (trim_space p) = Some ws" "windows_ok (trim_space p) ws"
      "\<forall>x\<in>set ws. \<not> blank x" using windowParagraph_total [OF v(1)] nb by metis
    obtain es where es: "add_pieces ct ws cs = cs @ es" "map Content es = ws"
      using add_pieces_props [of ct ws cs] by blast
    obtain ds where ds: "text_paragraphs ct ps (cs @ es) = Some ((cs @ es) @ ds)"
      "contents_ink ds = concat (map ink ps)"
      "\<forall>d\<in>set ds. chunk_ok d \<and> length (Content d) \<le> chunkMaxBytes \<and> (\<exists>p\<in>set ps. sublist (Content d) p)"
      using Cons.IH [of "cs @ es"] Cons.prems by auto
    have eq: "text_paragraphs ct (p # ps) cs = Some (cs @ es @ ds)"
      using False ws(1) es(1) ds(1) by (simp add: Let_def)
    have ink: "contents_ink es = ink p"
      using map_Content_ink [OF es(2)] ws(2) v(2) by (simp add: windows_ok_def)
    have "\<forall>w\<in>set ws. valid_utf8 w \<and> \<not> blank w \<and> length w \<le> 4096 \<and> sublist w p"
      using ws(2,3) sublist_trim_space [of p] sublist_order.order_trans unfolding windows_ok_def by blast
    then have "\<forall>d\<in>set es. chunk_ok d \<and> length (Content d) \<le> 4096 \<and> sublist (Content d) p"
      using es(2) by (auto simp: chunk_ok_def)
    then show ?thesis using eq ink ds(2,3) by (intro exI [of _ "es @ ds"]) auto
  qed
qed simp

lemma re_split_ink:
  assumes sp: "re_chars (\<lambda>c. byte c < 128 \<and> is_space (byte c)) r" "0 < re_min r"
  shows "valid_utf8 s \<Longrightarrow> (\<forall>p\<in>set (re_split r prev s). valid_utf8 p \<and> sublist p s)
            \<and> concat (map ink (re_split r prev s)) = ink s"
proof (induction s arbitrary: prev rule: length_induct)
  case (1 s)
  show ?case
  proof (cases "re_find r prev s")
    case None
    then show ?thesis using "1.prems" by (simp add: re_split.simps [of r prev s])
  next
    case (Some ab)
    obtain a b where ab: "ab = (a, b)" by fastforce
    note fb = re_find_bounds [OF sp(1) Some [unfolded ab]]
    have lt: "a < b" "b \<le> length s" using fb(1,2) sp(2) by auto
    define m where "m = drop a (take b s)"
    have s: "s = take a s @ m @ drop b s"
    proof -
      have "take b s = take a (take b s) @ m" unfolding m_def by (rule append_take_drop_id [symmetric])
      moreover have "take a (take b s) = take a s" using lt by simp
      ultimately show ?thesis by (metis append_assoc append_take_drop_id)
    qed
    have m: "m \<noteq> []" "\<forall>c\<in>set m. byte c < 128 \<and> is_space (byte c)" using lt fb(3) by (auto simp: m_def)
    have hd: "rune_start (hd (m @ drop b s))" using m by (cases m) auto
    have v: "valid_utf8 (take a s)" "valid_utf8 (m @ drop b s)"
      using valid_cut_both(1,2) [of "take a s" "m @ drop b s"] "1.prems" s hd by metis+
    have im: "ink m = []" "valid_utf8 m" using ink_ascii_space [OF m(2)] by auto
    then have vd: "valid_utf8 (drop b s)" using v(2) valid_append_iff by blast
    have "length (drop b s) < length s" using lt by simp
    then have IH: "(\<forall>p\<in>set (re_split r q (drop b s)). valid_utf8 p \<and> sublist p (drop b s))
        \<and> concat (map ink (re_split r q (drop b s))) = ink (drop b s)" for q
      using "1.IH" vd by blast
    have eq: "re_split r prev s = take a s # re_split r (Some (s ! (b - 1))) (drop b s)"
      using Some ab lt by (simp add: re_split.simps [of r prev s])
    have "ink s = ink (take a s) @ ink (m @ drop b s)"
      using s ink_append [OF v(1), of "m @ drop b s"] by simp
    also have "ink (m @ drop b s) = ink (drop b s)" using ink_append [OF im(2), of "drop b s"] im(1) by simp
    finally have ink: "ink s = ink (take a s) @ ink (drop b s)" .
    have "sublist p s" if "sublist p (drop b s)" for p
      using that sublist_drop [of b s] by (rule sublist_order.order_trans)
    then show ?thesis unfolding eq using IH [of "Some (s ! (b - 1))"] ink v(1) sublist_take [of a s]
      by simp
  qed
qed

lemma blankLineRe_spaces:
  "re_chars (\<lambda>c. byte c < 128 \<and> is_space (byte c)) blankLineRe" "re_min blankLineRe = 2"
  by (auto simp: blankLineRe_def r_char_def is_space_def newline_def)

lemma textChunks_total:
  assumes "valid_utf8 content" "\<not> blank content"
  obtains cs where "textChunks source content ct = Some cs" "cs \<noteq> []"
    "\<forall>c\<in>set cs. chunk_ok c \<and> length (Content c) \<le> chunkMaxBytes \<and> sublist (Content c) content"
    "contents_ink cs = ink content"
proof -
  note sp = re_split_ink [OF blankLineRe_spaces(1) _ assms(1), of None] 
  obtain cs where cs: "text_paragraphs ct (re_split blankLineRe None content) [] = Some cs"
    "contents_ink cs = ink content"
    "\<forall>d\<in>set cs. chunk_ok d \<and> length (Content d) \<le> chunkMaxBytes
       \<and> (\<exists>p\<in>set (re_split blankLineRe None content). sublist (Content d) p)"
    using text_paragraphs_total [of "re_split blankLineRe None content" ct "[]"] sp blankLineRe_spaces(2)
    by auto
  have "cs \<noteq> []" using cs(2) ink_blank [OF assms(1)] assms(2) by auto
  moreover have "\<forall>d\<in>set cs. sublist (Content d) content"
    using cs(3) sp blankLineRe_spaces(2) sublist_order.order_trans by (metis zero_less_numeral)
  ultimately show ?thesis using that [of cs] cs by (auto simp: textChunks_def)
qed

section \<open>The size bound of Split\<close>

lemma concat_join: "concat ps = join [] ps"
  by (induction ps rule: induct_list012) auto

lemma boundChunks_total:
  "\<forall>c\<in>set cs. chunk_fit c \<Longrightarrow>
     \<exists>bs. boundChunks cs = Some bs
        \<and> concat (map Content bs) = concat (map Content cs)
        \<and> contents_ink bs = contents_ink cs
        \<and> (\<forall>b\<in>set bs. length (Content b) \<le> chunkMaxBytes \<and> Content b \<noteq> [] \<and> valid_utf8 (Content b)
             \<and> (\<exists>c\<in>set cs. Title b = Title c \<and> ContentType b = ContentType c
                            \<and> sublist (Content b) (Content c)))"
proof (induction cs)
  case (Cons c cs)
  obtain bs where bs: "boundChunks cs = Some bs" "concat (map Content bs) = concat (map Content cs)"
    "contents_ink bs = contents_ink cs"
    "\<forall>b\<in>set bs. length (Content b) \<le> 4096 \<and> Content b \<noteq> [] \<and> valid_utf8 (Content b)
        \<and> (\<exists>c\<in>set cs. Title b = Title c \<and> ContentType b = ContentType c \<and> sublist (Content b) (Content c))"
    using Cons by auto
  have c: "valid_utf8 (Content c)" "Content c \<noteq> []" using Cons.prems by (auto simp: chunk_fit_def)
  show ?case
  proof (cases "length (Content c) \<le> 4096")
    case True
    then show ?thesis using bs c by (intro exI [of _ "c # bs"]) auto
  next
    case False
    obtain ps where ps: "splitOnLineBoundaries (Content c) 4096 = Some ps" "concat ps = Content c"
      "pieces_ok 4096 (valid_utf8 (Content c)) ps"
      using splitOnLineBoundaries_total [of 4096 "Content c"] by auto
    let ?ds = "map (\<lambda>seg. c\<lparr>Content := seg\<rparr>) ps"
    have eq: "boundChunks (c # cs) = Some (?ds @ bs)" using False ps(1) bs(1) by simp
    have ok: "\<forall>p\<in>set ps. length p \<le> 4096 \<and> p \<noteq> [] \<and> valid_utf8 p"
      using ps(3) c(1) by (auto simp: pieces_ok_def)
    have "valid_utf8 (concat qs) \<longrightarrow> (\<forall>p\<in>set qs. valid_utf8 p) \<longrightarrow> concat (map ink qs) = ink (concat qs)"
      for qs
      by (induction qs) (auto simp: ink_append valid_append_iff)
    then have "contents_ink ?ds = ink (Content c)"
      using ok ps(2) c(1) by (simp add: contents_ink_def comp_def)
    moreover have "\<forall>p\<in>set ps. sublist p (Content c)"
      using ps(2) sublist_join [of _ ps "[]"] by (metis concat_join)
    ultimately show ?thesis using eq ok bs(2-4) ps(2)
      by (intro exI [of _ "?ds @ bs"]) (auto simp: comp_def)
  qed
qed simp

section \<open>The contract between Split and the format chunkers\<close>

locale returning_chunker =
  fixes fn :: chunkFunc
  assumes fn_returns: "valid_utf8 content \<Longrightarrow> \<not> blank content \<Longrightarrow>
    \<exists>cs. fn source content ct = Some cs \<and> (\<forall>c\<in>set cs. chunk_fit c)"
begin

lemma bounded_returns:
  assumes "valid_utf8 content" "\<not> blank content"
  obtains bs where "bounded (fn source content ct) fmt = Some (bs, fmt)"
    "\<forall>b\<in>set bs. length (Content b) \<le> chunkMaxBytes \<and> Content b \<noteq> [] \<and> valid_utf8 (Content b)"
    "concat (map Content bs) = concat (map Content (the (fn source content ct)))"
    "contents_ink bs = contents_ink (the (fn source content ct))"
    "bs = [] \<longleftrightarrow> the (fn source content ct) = []"
proof -
  obtain cs where cs: "fn source content ct = Some cs" "\<forall>c\<in>set cs. chunk_fit c"
    using fn_returns [OF assms] by blast
  obtain bs where bs: "boundChunks cs = Some bs" "concat (map Content bs) = concat (map Content cs)"
      "contents_ink bs = contents_ink cs"
      "\<forall>b\<in>set bs. length (Content b) \<le> chunkMaxBytes \<and> Content b \<noteq> [] \<and> valid_utf8 (Content b)"
    using boundChunks_total [OF cs(2)] by blast
  have "concat (map Content cs) = [] \<longleftrightarrow> cs = []" using cs(2) by (cases cs) (auto simp: chunk_fit_def)
  moreover have "concat (map Content bs) = [] \<longleftrightarrow> bs = []" using bs(4) by (cases bs) auto
  ultimately show ?thesis using that [of bs] cs bs by (simp add: bounded_def)
qed

end

text \<open>A chunker that gives at least one chunk.\<close>

locale chunker =
  fixes fn :: chunkFunc
  assumes fn_total: "valid_utf8 content \<Longrightarrow> \<not> blank content \<Longrightarrow>
    \<exists>cs. fn source content ct = Some cs \<and> cs \<noteq> [] \<and> (\<forall>c\<in>set cs. chunk_fit c)"

sublocale chunker \<subseteq> returning_chunker
  by unfold_locales (use fn_total in blast)

context chunker
begin

lemma bounded_total:
  assumes "valid_utf8 content" "\<not> blank content"
  obtains bs where "bounded (fn source content ct) fmt = Some (bs, fmt)" "bs \<noteq> []"
    "\<forall>b\<in>set bs. length (Content b) \<le> chunkMaxBytes \<and> Content b \<noteq> [] \<and> valid_utf8 (Content b)"
    "concat (map Content bs) = concat (map Content (the (fn source content ct)))"
    "contents_ink bs = contents_ink (the (fn source content ct))"
proof -
  have "the (fn source content ct) \<noteq> []" using fn_total [OF assms, of source ct] by auto
  then show ?thesis using bounded_returns [OF assms, of source ct fmt] that by metis
qed

end

text \<open>A chunker that also keeps every non-blank rune of the document, once and in order.\<close>

locale faithful_chunker = chunker +
  assumes fn_ink: "valid_utf8 content \<Longrightarrow> \<not> blank content \<Longrightarrow> fn source content ct = Some cs
    \<Longrightarrow> contents_ink cs = ink content"
begin

lemma bounded_ink:
  assumes "valid_utf8 content" "\<not> blank content"
    "bounded (fn source content ct) fmt = Some (bs, fmt')"
  shows "contents_ink bs = ink content"
proof -
  obtain cs where "fn source content ct = Some cs" using fn_total [OF assms(1,2)] by blast
  moreover obtain bs' where "bounded (fn source content ct) fmt = Some (bs', fmt)"
    "contents_ink bs' = contents_ink (the (fn source content ct))"
    using bounded_total [OF assms(1,2)] by metis
  ultimately show ?thesis using fn_ink [OF assms(1,2)] assms(3) by simp
qed

end

interpretation plain: faithful_chunker textChunks
proof unfold_locales
  fix content source ct :: string
  assume "valid_utf8 content" "\<not> blank content"
  then show "\<exists>cs. textChunks source content ct = Some cs \<and> cs \<noteq> [] \<and> (\<forall>c\<in>set cs. chunk_fit c)"
    by (rule textChunks_total) (blast intro: chunk_ok_fit)
next
  fix content source ct cs
  assume "valid_utf8 content" "\<not> blank content" "textChunks source content ct = Some cs"
  then show "contents_ink cs = ink content" by (metis option.inject textChunks_total)
qed

section \<open>Split over a registry\<close>

definition registry_ok :: "registry \<Rightarrow> bool" where
  "registry_ok chunkers \<longleftrightarrow> (\<forall>fmt fn. chunkers fmt = Some fn \<longrightarrow> chunker fn)"

definition registry_faithful :: "registry \<Rightarrow> bool" where
  "registry_faithful chunkers \<longleftrightarrow> (\<forall>fmt fn. chunkers fmt = Some fn \<longrightarrow> faithful_chunker fn)"

lemma Split_form:
  assumes "\<not> blank content"
  obtains fn fmt where "fn = textChunks \<or> (\<exists>f. chunkers f = Some fn)"
    "Split chunkers detect source content format ct
       = bounded (fn source content (if ct = [] then contentTypeProse else ct)) fmt"
  using assms that by (cases "chunkers (if format = [] then detect content else format)")
    (auto simp: Split_def Let_def)

lemma Split_total:
  assumes "registry_ok chunkers" "valid_utf8 content"
  obtains bs fmt where "Split chunkers detect source content format ct = Some (bs, fmt)"
    "\<forall>b\<in>set bs. length (Content b) \<le> chunkMaxBytes \<and> Content b \<noteq> [] \<and> valid_utf8 (Content b)"
    "bs = [] \<longleftrightarrow> blank content"
proof (cases "blank content")
  case True
  then show ?thesis using that [of "[]" format] by (simp add: Split_def)
next
  case False
  obtain fn fmt where fn: "fn = textChunks \<or> (\<exists>f. chunkers f = Some fn)"
    "Split chunkers detect source content format ct
       = bounded (fn source content (if ct = [] then contentTypeProse else ct)) fmt"
    by (rule Split_form [OF False])
  have "chunker fn" using fn(1) assms(1) plain.chunker_axioms by (auto simp: registry_ok_def)
  then show ?thesis using chunker.bounded_total [OF _ assms(2) False] that False fn(2) by metis
qed

lemma Split_ink:
  assumes "registry_faithful chunkers" "valid_utf8 content"
    "Split chunkers detect source content format ct = Some (bs, fmt)"
  shows "contents_ink bs = ink content"
proof (cases "blank content")
  case True
  then show ?thesis using assms(3) blank_ink [OF assms(2)] by (simp add: Split_def)
next
  case False
  obtain fn fmt' where fn: "fn = textChunks \<or> (\<exists>f. chunkers f = Some fn)"
    "Split chunkers detect source content format ct
       = bounded (fn source content (if ct = [] then contentTypeProse else ct)) fmt'"
    by (rule Split_form [OF False])
  have "faithful_chunker fn" using fn(1) assms(1) plain.faithful_chunker_axioms
    by (auto simp: registry_faithful_def)
  then show ?thesis using faithful_chunker.bounded_ink [OF _ assms(2) False] fn(2) assms(3) by metis
qed

section \<open>Where the windowing loop does not return\<close>

lemma runeBoundaryBefore_none: "\<forall>c\<in>set s. cont_byte c \<Longrightarrow> i < length s \<Longrightarrow> runeBoundaryBefore s i = 0"
  by (induction i) (auto simp: rune_start_def)

lemma window_loop_stuck:
  assumes "window_loop rest pieces = Some r"
  shows "\<not> (length rest > chunkMaxBytes \<and> (\<forall>c\<in>set rest. cont_byte c))"
proof (rule window_loop.raw_induct [OF _ assms])
  fix loop rest pieces y
  assume IH: "\<And>rest pieces y. loop rest pieces = Some y \<Longrightarrow>
      \<not> (length rest > chunkMaxBytes \<and> (\<forall>c\<in>set rest. cont_byte c))"
    and step: "(if length rest > chunkMaxBytes then
        (let cut = (case last_index_byte newline (take chunkTargetBytes rest) of
                      Some i \<Rightarrow> if i = 0 then runeBoundaryBefore rest chunkTargetBytes else i
                    | None \<Rightarrow> runeBoundaryBefore rest chunkTargetBytes);
             piece = trim_right_nl (take cut rest)
         in loop (trim_left_nl (drop cut rest)) (if blank piece then pieces else pieces @ [piece]))
      else Some (if blank rest then pieces else pieces @ [rest])) = Some y"
  show "\<not> (length rest > chunkMaxBytes \<and> (\<forall>c\<in>set rest. cont_byte c))"
  proof
    assume bad: "length rest > chunkMaxBytes \<and> (\<forall>c\<in>set rest. cont_byte c)"
    have nonl: "newline \<notin> set (take 2048 rest)"
      using bad newline_start(2) by (meson in_set_takeD)
    have "last_index_byte newline (take chunkTargetBytes rest) = None"
      using nonl by (simp add: last_index_byte_None)
    moreover have "runeBoundaryBefore rest chunkTargetBytes = 0"
      using bad runeBoundaryBefore_none by simp
    moreover have "trim_left_nl rest = rest"
      using bad newline_start(2) unfolding trim_left_set_def by (cases rest) auto
    moreover have "trim_right_nl [] = []" by (simp add: trim_right_set_def)
    ultimately have "loop rest pieces = Some y" using step bad by (simp add: Let_def)
    then show False using IH bad by blast
  qed
qed

end
