(* ===== verification/Store_Core.thy ===== *)
theory Store_Core
  imports Db_Models Chunk_Core
begin

text \<open>
  The state behind internal/db: the tables of the schema as lists of rows, the clocks, and
  the statement and transaction layer. A statement either runs or fails with
  \<open>ErrStorageBackend\<close> and no effect, as the next entry of \<open>faults\<close> says; \<open>WithTx\<close> restores
  all tables when its body or its commit fails. Repository methods are functions from a
  state to an error or a value and the new state.
\<close>

section \<open>Errors\<close>

datatype db_error =
    ErrNamespaceRequired | ErrClientNameRequired | ErrSessionTokenHashRequired
  | ErrSourceRequired | ErrQueryRequired | ErrInvalidLimit | ErrInvalidPriority | ErrInvalidTTL
  | ErrSessionNotFound | ErrSessionExists | ErrClientNotFound | ErrClientExists
  | ErrClientProtected | ErrInvalidClientCredential | ErrCorrelationNotFound
  | ErrFeedbackAlreadySubmitted
  | ErrStorageBackend

section \<open>Tables\<close>

text \<open>Times are microseconds, the resolution of the database.\<close>

record client_row =
  cl_ns :: string
  cl_name :: string
  cl_created :: int
  cl_last_activity :: "int option"
  cl_hash :: "string option"
  cl_issued :: "int option"
  cl_rotated :: "int option"

record session_row =
  se_id :: int
  se_ns :: string
  se_hash :: string
  se_client :: string
  se_created :: int
  se_last :: int
  se_ttl :: int
  se_expires :: int

record label_row =
  la_session :: int
  la_key :: string
  la_value :: string

record source_row =
  so_id :: int
  so_session :: int
  so_label :: string
  so_indexed :: int

record chunk_row =
  ch_id :: int
  ch_source :: int
  ch_title :: string
  ch_content :: string
  ch_type :: string

record vocab_row =
  vo_session :: int
  vo_word :: string
  vo_freq :: int

record event_row =
  ev_id :: int
  ev_session :: int
  ev_type :: string
  ev_priority :: int
  ev_data :: string
  ev_hash :: string
  ev_created :: int

record corr_row =
  co_id :: string
  co_session :: int
  co_type :: string
  co_meta :: string
  co_outcome :: string
  co_feedback :: "int option"
  co_created :: int

record tables =
  clients :: "client_row list"
  sessions :: "session_row list"
  session_labels :: "label_row list"
  sources :: "source_row list"
  chunks :: "chunk_row list"
  vocabulary :: "vocab_row list"
  session_events :: "event_row list"
  correlations :: "corr_row list"
  next_session :: int
  next_source :: int
  next_chunk :: int
  next_event :: int

record db =
  tabs :: tables
  db_now :: int
  app_now :: int
  faults :: "bool list"

section \<open>Operations as functions on the state\<close>

type_synonym 'a dbm = "db \<Rightarrow> (db_error, 'a) result \<times> db"

definition ret :: "'a \<Rightarrow> 'a dbm" where "ret x d = (Inr x, d)"

definition fail :: "db_error \<Rightarrow> 'a dbm" where "fail e d = (Inl e, d)"

definition andthen :: "'a dbm \<Rightarrow> ('a \<Rightarrow> 'b dbm) \<Rightarrow> 'b dbm" where
  "andthen m f d = (case m d of (Inl e, d') \<Rightarrow> (Inl e, d') | (Inr x, d') \<Rightarrow> f x d')"

text \<open>A guard that returns early with an error.\<close>

definition guard :: "bool \<Rightarrow> db_error \<Rightarrow> 'a dbm \<Rightarrow> 'a dbm" where
  "guard b e m = (if b then fail e else m)"

text \<open>One SQL statement: the tables before, the result and the tables after.\<close>

definition stmt :: "(db \<Rightarrow> (db_error, 'a) result \<times> tables) \<Rightarrow> 'a dbm" where
  "stmt f d =
     (case faults d of
        True # fs \<Rightarrow> (Inl ErrStorageBackend, d\<lparr>faults := fs\<rparr>)
      | _ \<Rightarrow> (case f d of (r, t) \<Rightarrow> (r, d\<lparr>tabs := t, faults := tl (faults d)\<rparr>)))"

text \<open>A statement that only reads.\<close>

definition query :: "(db \<Rightarrow> (db_error, 'a) result) \<Rightarrow> 'a dbm" where
  "query f = stmt (\<lambda>d. (f d, tabs d))"

text \<open>\<open>BEGIN\<close> and \<open>COMMIT\<close> are statements too; a failure restores the tables.\<close>

definition begin_tx :: "unit dbm" where "begin_tx = query (\<lambda>_. Inr ())"

definition WithTx :: "'a dbm \<Rightarrow> 'a dbm" where
  "WithTx body d =
     (case begin_tx d of
        (Inl e, d1) \<Rightarrow> (Inl e, d1)
      | (Inr _, d1) \<Rightarrow>
          (case body d1 of
             (Inl e, d2) \<Rightarrow> (Inl e, d2\<lparr>tabs := tabs d1\<rparr>)
           | (Inr x, d2) \<Rightarrow>
               (case query (\<lambda>_. Inr ()) d2 of
                  (Inl e, d3) \<Rightarrow> (Inl e, d3\<lparr>tabs := tabs d1\<rparr>)
                | (Inr _, d3) \<Rightarrow> (Inr x, d3))))"

section \<open>Laws of the statement layer\<close>

lemma andthen_Inl [simp]: "m d = (Inl e, d') \<Longrightarrow> andthen m f d = (Inl e, d')"
  by (simp add: andthen_def)

lemma andthen_Inr [simp]: "m d = (Inr x, d') \<Longrightarrow> andthen m f d = f x d'"
  by (simp add: andthen_def)

lemma guard_Inr: "guard b e m d = (Inr x, d') \<longleftrightarrow> \<not> b \<and> m d = (Inr x, d')"
  by (simp add: guard_def fail_def)

lemma andthen_cases:
  assumes "andthen m f d = (r, d')"
  obtains (err) e where "m d = (Inl e, d')" "r = Inl e"
  | (ok) x d1 where "m d = (Inr x, d1)" "f x d1 = (r, d')"
  using assms by (auto simp: andthen_def split: prod.splits sum.splits)

lemma stmt_cases:
  assumes "stmt f d = (r, d')"
  obtains (fault) fs where "faults d = True # fs" "r = Inl ErrStorageBackend" "d' = d\<lparr>faults := fs\<rparr>"
  | (run) t where "f d = (r, t)" "d' = d\<lparr>tabs := t, faults := tl (faults d)\<rparr>"
    "\<not> (\<exists>fs. faults d = True # fs)"
  using assms by (auto simp: stmt_def split: list.splits bool.splits prod.splits)

lemma query_cases:
  assumes "query f d = (r, d')"
  obtains (fault) fs where "r = Inl ErrStorageBackend" "d' = d\<lparr>faults := fs\<rparr>"
  | (run) "f d = r" "d' = d\<lparr>faults := tl (faults d)\<rparr>"
  using assms [unfolded query_def]
proof (cases rule: stmt_cases)
  case (fault fs)
  then show ?thesis using that(1) by simp
next
  case (run t)
  then show ?thesis using that(2) by (cases d) simp
qed

text \<open>Without faults a statement is what it does to the tables.\<close>

lemma stmt_run [store_simps]:
  "faults d = [] \<Longrightarrow> stmt f d = (fst (f d), d\<lparr>tabs := snd (f d)\<rparr>)"
  by (cases d) (simp add: stmt_def split: prod.split)

lemma query_run [store_simps]: "faults d = [] \<Longrightarrow> query f d = (f d, d)"
  by (cases d) (simp add: query_def stmt_run)

text \<open>A property of the tables that an operation keeps, whatever it returns.\<close>

definition keeps :: "(tables \<Rightarrow> bool) \<Rightarrow> 'a dbm \<Rightarrow> bool" where
  "keeps P m \<longleftrightarrow> (\<forall>d. P (tabs d) \<longrightarrow> P (tabs (snd (m d))))"

lemma keepsD: "keeps P m \<Longrightarrow> m d = (r, d') \<Longrightarrow> P (tabs d) \<Longrightarrow> P (tabs d')"
  unfolding keeps_def by (metis snd_conv)

named_theorems keeps_intros \<open>operations that keep a property of the tables\<close>

lemma keeps_ret [keeps_intros]: "keeps P (ret x)"
  by (simp add: keeps_def ret_def)

lemma keeps_fail [keeps_intros]: "keeps P (fail e)"
  by (simp add: keeps_def fail_def)

lemma keeps_guard [keeps_intros]: "keeps P m \<Longrightarrow> keeps P (guard b e m)"
  by (simp add: guard_def keeps_fail)

lemma keeps_andthen [keeps_intros]: "keeps P m \<Longrightarrow> (\<And>x. keeps P (f x)) \<Longrightarrow> keeps P (andthen m f)"
  unfolding keeps_def andthen_def by (auto split: prod.split sum.split)

lemma keeps_stmt: "(\<And>d. P (tabs d) \<Longrightarrow> P (snd (f d))) \<Longrightarrow> keeps P (stmt f)"
  unfolding keeps_def stmt_def by (auto split: list.split bool.split prod.split) (metis snd_conv)+

lemma keeps_query [keeps_intros]: "keeps P (query f)"
  unfolding query_def by (rule keeps_stmt) simp

lemma begin_tx_tabs: "begin_tx d = (r, d1) \<Longrightarrow> tabs d1 = tabs d"
  unfolding begin_tx_def by (elim query_cases) auto

text \<open>A transaction is atomic: an error leaves the tables as they were.\<close>

lemma WithTx_atomic: "WithTx body d = (Inl e, d') \<Longrightarrow> tabs d' = tabs d"
  by (auto simp: WithTx_def begin_tx_tabs split: prod.splits sum.splits)

lemma WithTx_ok:
  assumes "WithTx body d = (Inr x, d')"
  obtains d1 d2 where "tabs d1 = tabs d" "body d1 = (Inr x, d2)" "tabs d' = tabs d2"
    "db_now d1 = db_now d" "app_now d1 = app_now d"
proof -
  obtain u d1 where b: "begin_tx d = (Inr u, d1)"
    using assms by (cases "begin_tx d") (auto simp: WithTx_def split: sum.splits)
  then obtain x' d2 where m: "body d1 = (Inr x', d2)"
    using assms by (cases "body d1") (auto simp: WithTx_def split: sum.splits)
  obtain v d3 where c: "query (\<lambda>_. Inr ()) d2 = (Inr v, d3)"
    using assms b m by (cases "query (\<lambda>_. Inr ()) d2") (auto simp: WithTx_def split: sum.splits)
  have "x = x'" "d' = d3" using assms b m c by (simp_all add: WithTx_def)
  moreover have "tabs d3 = tabs d2" using c by (elim query_cases) auto
  moreover have "tabs d1 = tabs d \<and> db_now d1 = db_now d \<and> app_now d1 = app_now d"
    using b unfolding begin_tx_def by (elim query_cases) auto
  ultimately show ?thesis using that [of d1 d2] m by simp
qed

lemma keeps_WithTx [keeps_intros]:
  assumes "keeps P body"
  shows "keeps P (WithTx body)"
  unfolding keeps_def
proof (intro allI impI)
  fix d :: db
  assume P: "P (tabs d)"
  obtain r d' where w: "WithTx body d = (r, d')" by fastforce
  show "P (tabs (snd (WithTx body d)))"
  proof (cases r)
    case (Inl e)
    then show ?thesis using w P WithTx_atomic by fastforce
  next
    case (Inr x)
    then show ?thesis using w assms P unfolding keeps_def by (metis WithTx_ok snd_conv)
  qed
qed

end
