(* ===== verification/Store_Repos.thy ===== *)
theory Store_Repos
  imports Store_Core
begin

text \<open>
  The repository methods of internal/db/pg_*.go, each with its argument checks in the
  order of the code and its SQL statement as a function on the tables. Where SQL leaves an
  order open (ties of an ORDER BY), the model keeps the order of insertion.
\<close>

section \<open>Shared lookups\<close>

text \<open>The isolation guard \<open>EXISTS (SELECT 1 FROM sessions WHERE id = .. AND namespace = ..)\<close>.\<close>

definition session_in :: "tables \<Rightarrow> string \<Rightarrow> int \<Rightarrow> bool" where
  "session_in t ns sid \<longleftrightarrow> (\<exists>s\<in>set (sessions t). se_id s = sid \<and> se_ns s = ns)"

text \<open>The trigger that maintains \<open>expires_at\<close>.\<close>

definition set_expires_at :: "session_row \<Rightarrow> session_row" where
  "set_expires_at s = s\<lparr>se_expires := se_last s + se_ttl s * 60000000\<rparr>"

text \<open>\<open>ON DELETE CASCADE\<close> below the sessions with the given ids.\<close>

definition cascade_sessions :: "int set \<Rightarrow> tables \<Rightarrow> tables" where
  "cascade_sessions ids t =
     t\<lparr>sessions := filter (\<lambda>s. se_id s \<notin> ids) (sessions t),
       session_labels := filter (\<lambda>l. la_session l \<notin> ids) (session_labels t),
       chunks := filter (\<lambda>c. \<not> (\<exists>s\<in>set (sources t). so_id s = ch_source c \<and> so_session s \<in> ids)) (chunks t),
       sources := filter (\<lambda>s. so_session s \<notin> ids) (sources t),
       vocabulary := filter (\<lambda>v. vo_session v \<notin> ids) (vocabulary t),
       session_events := filter (\<lambda>e. ev_session e \<notin> ids) (session_events t),
       correlations := filter (\<lambda>c. co_session c \<notin> ids) (correlations t)\<rparr>"

section \<open>Clients (pg_clients.go)\<close>

definition find_client :: "tables \<Rightarrow> string \<Rightarrow> string \<Rightarrow> client_row option" where
  "find_client t ns name = find (\<lambda>c. cl_ns c = ns \<and> cl_name c = name) (clients t)"

definition update_client :: "string \<Rightarrow> string \<Rightarrow> (client_row \<Rightarrow> client_row) \<Rightarrow> tables \<Rightarrow> tables" where
  "update_client ns name f t =
     t\<lparr>clients := map (\<lambda>c. if cl_ns c = ns \<and> cl_name c = name then f c else c) (clients t)\<rparr>"

definition Clients_Register :: "string \<Rightarrow> string \<Rightarrow> bool dbm" where
  "Clients_Register ns name =
     guard (ns = []) ErrNamespaceRequired (guard (name = []) ErrClientNameRequired
       (stmt (\<lambda>d. let t = tabs d in
          if find_client t ns name \<noteq> None then (Inr False, t)
          else (Inr True, t\<lparr>clients := clients t @
                  [\<lparr>cl_ns = ns, cl_name = name, cl_created = db_now d, cl_last_activity = None,
                    cl_hash = None, cl_issued = None, cl_rotated = None\<rparr>]\<rparr>))))"

definition RegisterWithCredential :: "string \<Rightarrow> string \<Rightarrow> string \<Rightarrow> unit dbm" where
  "RegisterWithCredential ns name tokenHash =
     guard (ns = []) ErrNamespaceRequired (guard (name = []) ErrClientNameRequired
       (guard (tokenHash = []) ErrInvalidClientCredential
         (stmt (\<lambda>d. let t = tabs d in
            if find_client t ns name \<noteq> None then (Inl ErrClientExists, t)
            else (Inr (), t\<lparr>clients := clients t @
                    [\<lparr>cl_ns = ns, cl_name = name, cl_created = db_now d, cl_last_activity = None,
                      cl_hash = Some tokenHash, cl_issued = Some (db_now d), cl_rotated = None\<rparr>]\<rparr>)))))"

definition RotateCredential :: "string \<Rightarrow> string \<Rightarrow> string \<Rightarrow> unit dbm" where
  "RotateCredential ns name newHash =
     guard (ns = []) ErrNamespaceRequired (guard (name = []) ErrClientNameRequired
       (guard (newHash = []) ErrInvalidClientCredential
         (stmt (\<lambda>d. let t = tabs d in
            if \<exists>c\<in>set (clients t). cl_ns c = ns \<and> cl_name c = name \<and> cl_hash c \<noteq> None
            then (Inr (), update_client ns name
                    (\<lambda>c. if cl_hash c \<noteq> None then c\<lparr>cl_hash := Some newHash, cl_rotated := Some (db_now d)\<rparr> else c) t)
            else (Inl ErrClientNotFound, t)))))"

definition LookupByToken :: "string \<Rightarrow> string \<Rightarrow> string dbm" where
  "LookupByToken ns tokenHash =
     guard (ns = []) ErrNamespaceRequired (guard (tokenHash = []) ErrInvalidClientCredential
       (query (\<lambda>d. case find (\<lambda>c. cl_ns c = ns \<and> cl_hash c = Some tokenHash) (clients (tabs d)) of
                     None \<Rightarrow> Inl ErrInvalidClientCredential
                   | Some c \<Rightarrow> Inr (cl_name c))))"

definition client_sessions :: "tables \<Rightarrow> string \<Rightarrow> string \<Rightarrow> session_row list" where
  "client_sessions t ns name = filter (\<lambda>s. se_ns s = ns \<and> se_client s = name) (sessions t)"

text \<open>Name, number of sessions, latest activity.\<close>

definition Clients_List :: "string \<Rightarrow> (string \<times> nat \<times> int option) list dbm" where
  "Clients_List ns =
     guard (ns = []) ErrNamespaceRequired
       (query (\<lambda>d. let t = tabs d in
          Inr (map (\<lambda>c. let ss = client_sessions t ns (cl_name c) in
                 (cl_name c, length ss,
                  if ss = [] then None else Some (fold (\<lambda>s m. max (se_last s) m) ss (se_last (hd ss)))))
               (stable_sort (\<lambda>a b. str_less (cl_name a) (cl_name b))
                  (filter (\<lambda>c. cl_ns c = ns) (clients t))))))"

definition CountSessions :: "string \<Rightarrow> string \<Rightarrow> nat dbm" where
  "CountSessions ns name =
     guard (ns = []) ErrNamespaceRequired (guard (name = []) ErrClientNameRequired
       (query (\<lambda>d. let t = tabs d in
          if find_client t ns name = None then Inl ErrClientNotFound
          else Inr (length (client_sessions t ns name)))))"

definition LockByName :: "string \<Rightarrow> string \<Rightarrow> unit dbm" where
  "LockByName ns name =
     guard (ns = []) ErrNamespaceRequired (guard (name = []) ErrClientNameRequired
       (query (\<lambda>d. if find_client (tabs d) ns name = None then Inl ErrClientNotFound else Inr ())))"

record cascade_counts =
  cc_sources :: nat
  cc_chunks :: nat
  cc_events :: nat
  cc_labels :: nat

definition counts_for :: "int set \<Rightarrow> tables \<Rightarrow> cascade_counts" where
  "counts_for ids t =
     \<lparr>cc_sources = length (filter (\<lambda>s. so_session s \<in> ids) (sources t)),
      cc_chunks = length (filter (\<lambda>c. \<exists>s\<in>set (sources t). so_id s = ch_source c \<and> so_session s \<in> ids) (chunks t)),
      cc_events = length (filter (\<lambda>e. ev_session e \<in> ids) (session_events t)),
      cc_labels = length (filter (\<lambda>l. la_session l \<in> ids) (session_labels t))\<rparr>"

definition CascadeCountsForClient :: "string \<Rightarrow> string \<Rightarrow> (nat \<times> cascade_counts) dbm" where
  "CascadeCountsForClient ns name =
     query (\<lambda>d. let t = tabs d; ss = client_sessions t ns name in
       Inr (length ss, counts_for (set (map se_id ss)) t))"

definition Clients_DeleteRow :: "string \<Rightarrow> string \<Rightarrow> unit dbm" where
  "Clients_DeleteRow ns name =
     stmt (\<lambda>d. let t = tabs d;
                   t' = cascade_sessions (set (map se_id (client_sessions t ns name))) t
               in (Inr (), t'\<lparr>clients := filter (\<lambda>c. \<not> (cl_ns c = ns \<and> cl_name c = name)) (clients t')\<rparr>))"

definition BumpActivity :: "string \<Rightarrow> string \<Rightarrow> int \<Rightarrow> unit dbm" where
  "BumpActivity ns name ts =
     stmt (\<lambda>d. (Inr (), update_client ns name
       (\<lambda>c. c\<lparr>cl_last_activity := Some (case cl_last_activity c of None \<Rightarrow> ts | Some u \<Rightarrow> max u ts)\<rparr>) (tabs d)))"

section \<open>Sessions (pg_sessions.go)\<close>

record new_session =
  ns_namespace :: string
  ns_hash :: string
  ns_client :: string
  ns_ttl :: int

definition DefaultClient :: string where "DefaultClient = ''default''"

definition Sessions_Insert :: "new_session \<Rightarrow> session_row dbm" where
  "Sessions_Insert sess =
     guard (ns_namespace sess = []) ErrNamespaceRequired
       (guard (ns_hash sess = []) ErrSessionTokenHashRequired
         (guard (ns_ttl sess \<le> 0) ErrInvalidTTL
           (stmt (\<lambda>d.
              let t = tabs d;
                  client = (if ns_client sess = [] then DefaultClient else ns_client sess);
                  row = set_expires_at \<lparr>se_id = next_session t, se_ns = ns_namespace sess,
                          se_hash = ns_hash sess, se_client = client, se_created = db_now d,
                          se_last = app_now d, se_ttl = ns_ttl sess, se_expires = 0\<rparr>
              in if \<exists>s\<in>set (sessions t). se_ns s = ns_namespace sess \<and> se_hash s = ns_hash sess
                 then (Inl ErrSessionExists, t)
                 else if find_client t (ns_namespace sess) client = None
                 then (Inl ErrClientNotFound, t)
                 else (Inr row, t\<lparr>sessions := sessions t @ [row], next_session := next_session t + 1\<rparr>)))))"

definition InsertLabels :: "int \<Rightarrow> (string \<times> string) list \<Rightarrow> unit dbm" where
  "InsertLabels sid labels =
     (if labels = [] then ret ()
      else stmt (\<lambda>d. let t = tabs d in
             if \<not> distinct (map fst labels)
                \<or> (\<exists>l\<in>set (session_labels t). la_session l = sid \<and> la_key l \<in> fst ` set labels)
                \<or> \<not> (\<exists>s\<in>set (sessions t). se_id s = sid)
             then (Inl ErrStorageBackend, t)
             else (Inr (), t\<lparr>session_labels := session_labels t @
                     map (\<lambda>(k, v). \<lparr>la_session = sid, la_key = k, la_value = v\<rparr>) labels\<rparr>)))"

definition labels_of :: "tables \<Rightarrow> int \<Rightarrow> (string \<times> string) list" where
  "labels_of t sid = map (\<lambda>l. (la_key l, la_value l)) (filter (\<lambda>l. la_session l = sid) (session_labels t))"

definition find_session :: "tables \<Rightarrow> string \<Rightarrow> string \<Rightarrow> session_row option" where
  "find_session t ns hash = find (\<lambda>s. se_ns s = ns \<and> se_hash s = hash) (sessions t)"

definition Sessions_Get :: "string \<Rightarrow> string \<Rightarrow> (session_row \<times> (string \<times> string) list) dbm" where
  "Sessions_Get ns hash =
     guard (ns = []) ErrNamespaceRequired (guard (hash = []) ErrSessionTokenHashRequired
       (query (\<lambda>d. case find_session (tabs d) ns hash of
                     None \<Rightarrow> Inl ErrSessionNotFound
                   | Some s \<Rightarrow> Inr (s, labels_of (tabs d) (se_id s)))))"

definition Touch :: "string \<Rightarrow> string \<Rightarrow> int \<Rightarrow> unit dbm" where
  "Touch ns hash lastActivity =
     guard (ns = []) ErrNamespaceRequired (guard (hash = []) ErrSessionTokenHashRequired
       (stmt (\<lambda>d. let t = tabs d in
          if find_session t ns hash = None then (Inl ErrSessionNotFound, t)
          else (Inr (), t\<lparr>sessions := map (\<lambda>s. if se_ns s = ns \<and> se_hash s = hash
                          then set_expires_at (s\<lparr>se_last := max (se_last s) lastActivity\<rparr>) else s)
                        (sessions t)\<rparr>))))"

record session_filter =
  sf_namespace :: string
  sf_client :: string
  sf_labels :: "(string \<times> string) list"

text \<open>\<open>buildSessionFilterWhere\<close>: a session has all the labels asked for when the number of
  distinct keys among its label rows that equal one of the pairs is the number of pairs.\<close>

definition session_matches :: "tables \<Rightarrow> session_filter \<Rightarrow> session_row \<Rightarrow> bool" where
  "session_matches t f s \<longleftrightarrow>
     se_ns s = sf_namespace f
     \<and> (sf_client f = [] \<or> se_client s = sf_client f)
     \<and> (sf_labels f = []
        \<or> (let rows = filter (\<lambda>l. la_session l = se_id s \<and> (la_key l, la_value l) \<in> set (sf_labels f)) (session_labels t)
           in rows \<noteq> [] \<and> length (remdups (map la_key rows)) = length (sf_labels f)))"

definition Sessions_List :: "session_filter \<Rightarrow> (session_row \<times> (string \<times> string) list \<times> nat) list dbm" where
  "Sessions_List f =
     guard (sf_namespace f = []) ErrNamespaceRequired
       (query (\<lambda>d. let t = tabs d in
          Inr (map (\<lambda>s. (s, labels_of t (se_id s), length (filter (\<lambda>e. ev_session e = se_id s) (session_events t))))
                (stable_sort (\<lambda>a b. se_last b < se_last a) (filter (session_matches t f) (sessions t))))))"

definition Sessions_Count :: "session_filter \<Rightarrow> nat dbm" where
  "Sessions_Count f =
     guard (sf_namespace f = []) ErrNamespaceRequired
       (query (\<lambda>d. Inr (length (filter (session_matches (tabs d) f) (sessions (tabs d))))))"

definition LockByTokenHash :: "string \<Rightarrow> string \<Rightarrow> (int \<times> string) dbm" where
  "LockByTokenHash ns hash =
     guard (ns = []) ErrNamespaceRequired (guard (hash = []) ErrSessionTokenHashRequired
       (query (\<lambda>d. case find_session (tabs d) ns hash of
                     None \<Rightarrow> Inl ErrSessionNotFound
                   | Some s \<Rightarrow> Inr (se_id s, se_client s))))"

definition LockByID :: "string \<Rightarrow> int \<Rightarrow> (string \<times> int) dbm" where
  "LockByID ns sid =
     guard (ns = []) ErrNamespaceRequired
       (query (\<lambda>d. case find (\<lambda>s. se_id s = sid \<and> se_ns s = ns) (sessions (tabs d)) of
                     None \<Rightarrow> Inl ErrSessionNotFound
                   | Some s \<Rightarrow> Inr (se_client s, se_last s)))"

definition LockAllByFilter :: "session_filter \<Rightarrow> int list dbm" where
  "LockAllByFilter f =
     guard (sf_namespace f = []) ErrNamespaceRequired
       (query (\<lambda>d. Inr (sort (map se_id (filter (session_matches (tabs d) f) (sessions (tabs d)))))))"

definition CascadeCounts :: "int \<Rightarrow> cascade_counts dbm" where
  "CascadeCounts sid = query (\<lambda>d. Inr (counts_for {sid} (tabs d)))"

definition CascadeCountsForIDs :: "int list \<Rightarrow> cascade_counts dbm" where
  "CascadeCountsForIDs ids = query (\<lambda>d. Inr (counts_for (set ids) (tabs d)))"

definition DeleteByIDRow :: "int \<Rightarrow> unit dbm" where
  "DeleteByIDRow sid = stmt (\<lambda>d. (Inr (), cascade_sessions {sid} (tabs d)))"

definition DeleteRows :: "int list \<Rightarrow> unit dbm" where
  "DeleteRows ids =
     (if ids = [] then ret () else stmt (\<lambda>d. (Inr (), cascade_sessions (set ids) (tabs d))))"

definition ScanExpired :: "int \<Rightarrow> (int \<times> string) list dbm" where
  "ScanExpired now =
     query (\<lambda>d. Inr (map (\<lambda>s. (se_id s, se_ns s))
       (stable_sort (\<lambda>a b. se_expires a < se_expires b) (filter (\<lambda>s. se_expires s < now) (sessions (tabs d))))))"

section \<open>Sources, chunks, vocabulary (pg_sources.go, pg_chunks.go, pg_vocabulary.go)\<close>

definition defaultSearchLimit :: int where "defaultSearchLimit = 5"

definition Upsert :: "string \<Rightarrow> int \<Rightarrow> string \<Rightarrow> (int \<times> bool) dbm" where
  "Upsert ns sid label =
     guard (ns = []) ErrNamespaceRequired
       (stmt (\<lambda>d. let t = tabs d in
          if \<not> session_in t ns sid then (Inl ErrSessionNotFound, t)
          else case find (\<lambda>s. so_session s = sid \<and> so_label s = label) (sources t) of
                 Some s \<Rightarrow>
                   (Inr (so_id s, False),
                    t\<lparr>sources := map (\<lambda>r. if so_session r = sid \<and> so_label r = label
                                      then r\<lparr>so_indexed := db_now d\<rparr> else r) (sources t)\<rparr>)
               | None \<Rightarrow>
                   (Inr (next_source t, True),
                    t\<lparr>sources := sources t @ [\<lparr>so_id = next_source t, so_session = sid, so_label = label,
                                               so_indexed = db_now d\<rparr>],
                      next_source := next_source t + 1\<rparr>)))"

text \<open>Label, number of chunks, time of indexing.\<close>

definition Sources_List :: "string \<Rightarrow> int \<Rightarrow> (string \<times> nat \<times> int) list dbm" where
  "Sources_List ns sid =
     guard (ns = []) ErrNamespaceRequired
       (query (\<lambda>d. let t = tabs d in
          Inr (if session_in t ns sid
               then map (\<lambda>s. (so_label s, length (filter (\<lambda>c. ch_source c = so_id s) (chunks t)), so_indexed s))
                      (stable_sort (\<lambda>a b. so_indexed b < so_indexed a)
                         (filter (\<lambda>s. so_session s = sid) (sources t)))
               else [])))"

text \<open>The chunks of a source in document order: ascending id.\<close>

definition source_chunks :: "tables \<Rightarrow> int \<Rightarrow> string \<Rightarrow> doc_chunk list" where
  "source_chunks t sid label =
     map (\<lambda>c. \<lparr>dcTitle = ch_title c, dcContent = ch_content c, dcSource = label\<rparr>)
       (sort_key ch_id (filter (\<lambda>c. \<exists>s\<in>set (sources t). so_id s = ch_source c \<and> so_session s = sid \<and> so_label s = label)
          (chunks t)))"

definition ChunksInOrder :: "string \<Rightarrow> doc_order_input \<Rightarrow> (doc_chunk list \<times> bool) dbm" where
  "ChunksInOrder ns inp =
     guard (ns = []) ErrNamespaceRequired (guard (doSource inp = []) ErrSourceRequired
       (guard (doLimit inp < 0 \<or> doOffset inp < 0) ErrInvalidLimit
         (let limit = (if doLimit inp = 0 then defaultSearchLimit else doLimit inp) in
          query (\<lambda>d. let t = tabs d;
                         out = (if session_in t ns (doSessionID inp)
                                then take (nat (limit + 1)) (drop (nat (doOffset inp))
                                       (source_chunks t (doSessionID inp) (doSource inp)))
                                else []);
                         hasMore = (int (length out) > limit)
                     in Inr (if hasMore then take (nat limit) out else out, hasMore)))))"

definition DeleteForSource :: "int \<Rightarrow> unit dbm" where
  "DeleteForSource src =
     stmt (\<lambda>d. let t = tabs d in (Inr (), t\<lparr>chunks := filter (\<lambda>c. ch_source c \<noteq> src) (chunks t)\<rparr>))"

fun chunk_rows :: "int \<Rightarrow> int \<Rightarrow> db_chunk list \<Rightarrow> chunk_row list" where
  "chunk_rows i src [] = []"
| "chunk_rows i src (c # cs) =
     \<lparr>ch_id = i, ch_source = src, ch_title = Title c, ch_content = Content c, ch_type = ContentType c\<rparr>
     # chunk_rows (i + 1) src cs"

definition Chunks_Insert :: "int \<Rightarrow> db_chunk list \<Rightarrow> unit dbm" where
  "Chunks_Insert src cs =
     (if cs = [] then ret ()
      else stmt (\<lambda>d. let t = tabs d in
             if \<not> (\<exists>s\<in>set (sources t). so_id s = src) then (Inl ErrStorageBackend, t)
             else (Inr (), t\<lparr>chunks := chunks t @ chunk_rows (next_chunk t) src cs,
                             next_chunk := next_chunk t + int (length cs)\<rparr>)))"

text \<open>\<open>lx simple text\<close> is \<open>tsvector_to_array(to_tsvector(config, text))\<close>: the distinct lexemes.\<close>

type_synonym lexer = "bool \<Rightarrow> string \<Rightarrow> string list"

definition chunk_words :: "lexer \<Rightarrow> chunk_row \<Rightarrow> string list" where
  "chunk_words lx c = lx (ch_type c = ''code'') (ch_content c)"

definition vocabTermCounts :: "lexer \<Rightarrow> tables \<Rightarrow> int \<Rightarrow> (string \<times> int) list" where
  "vocabTermCounts lx t src =
     (let ws = concat (map (chunk_words lx) (filter (\<lambda>c. ch_source c = src) (chunks t)))
      in map (\<lambda>w. (w, int (count_list ws w))) (remdups ws))"

definition source_session :: "tables \<Rightarrow> int \<Rightarrow> int option" where
  "source_session t src = map_option so_session (find (\<lambda>s. so_id s = src) (sources t))"

definition DecrementForSource :: "lexer \<Rightarrow> int \<Rightarrow> unit dbm" where
  "DecrementForSource lx src =
     stmt (\<lambda>d. let t = tabs d; old = vocabTermCounts lx t src in
       (Inr (), t\<lparr>vocabulary := map (\<lambda>v. if Some (vo_session v) = source_session t src
                    then (case map_of old (vo_word v) of
                            None \<Rightarrow> v | Some cnt \<Rightarrow> v\<lparr>vo_freq := vo_freq v - cnt\<rparr>)
                    else v) (vocabulary t)\<rparr>))"

definition add_word :: "int \<Rightarrow> string \<times> int \<Rightarrow> vocab_row list \<Rightarrow> vocab_row list" where
  "add_word sid e vs =
     (case e of (w, cnt) \<Rightarrow>
        if \<exists>v\<in>set vs. vo_session v = sid \<and> vo_word v = w
        then map (\<lambda>v. if vo_session v = sid \<and> vo_word v = w then v\<lparr>vo_freq := vo_freq v + cnt\<rparr> else v) vs
        else vs @ [\<lparr>vo_session = sid, vo_word = w, vo_freq = cnt\<rparr>])"

definition IncrementForSource :: "lexer \<Rightarrow> int \<Rightarrow> unit dbm" where
  "IncrementForSource lx src =
     stmt (\<lambda>d. let t = tabs d in
       (Inr (), case source_session t src of
                  None \<Rightarrow> t
                | Some sid \<Rightarrow> t\<lparr>vocabulary := fold (add_word sid) (vocabTermCounts lx t src) (vocabulary t)\<rparr>))"

definition PruneZeros :: "int \<Rightarrow> unit dbm" where
  "PruneZeros sid =
     stmt (\<lambda>d. let t = tabs d in
       (Inr (), t\<lparr>vocabulary := filter (\<lambda>v. \<not> (vo_session v = sid \<and> vo_freq v \<le> 0)) (vocabulary t)\<rparr>))"

definition TopByIDF :: "int \<Rightarrow> nat \<Rightarrow> string list dbm" where
  "TopByIDF sid limit =
     query (\<lambda>d. Inr (map vo_word (take limit
       (stable_sort (\<lambda>a b. vo_freq a < vo_freq b \<or> (vo_freq a = vo_freq b \<and> str_less (vo_word a) (vo_word b)))
          (filter (\<lambda>v. vo_session v = sid) (vocabulary (tabs d)))))))"

section \<open>Events (pg_events.go)\<close>

record event_input =
  ei_type :: string
  ei_priority :: int
  ei_data :: string

definition defaultReadEventsLimit :: int where "defaultReadEventsLimit = 100"
definition snapshotRowCap :: nat where "snapshotRowCap = 512"

text \<open>Eight bytes, most significant first.\<close>

definition be64 :: "nat \<Rightarrow> string" where
  "be64 n = map (\<lambda>i. char_of (n div 256 ^ (7 - i) mod 256)) [0..<8]"

text \<open>What \<open>HashEventPayload\<close> feeds to SHA-256.\<close>

definition event_preimage :: "string \<Rightarrow> string \<Rightarrow> string" where
  "event_preimage eventType data = be64 (length eventType) @ eventType @ be64 (length data) @ data"

definition HashEventPayload :: "(string \<Rightarrow> string) \<Rightarrow> string \<Rightarrow> string \<Rightarrow> string" where
  "HashEventPayload sha256 eventType data = sha256 (event_preimage eventType data)"

fun event_rows :: "(string \<Rightarrow> string) \<Rightarrow> int \<Rightarrow> int \<Rightarrow> int \<Rightarrow> event_input list \<Rightarrow> event_row list" where
  "event_rows sha now i sid [] = []"
| "event_rows sha now i sid (e # es) =
     \<lparr>ev_id = i, ev_session = sid, ev_type = ei_type e, ev_priority = ei_priority e, ev_data = ei_data e,
      ev_hash = HashEventPayload sha (ei_type e) (ei_data e), ev_created = now\<rparr>
     # event_rows sha now (i + 1) sid es"

definition Events_Write :: "(string \<Rightarrow> string) \<Rightarrow> string \<Rightarrow> int \<Rightarrow> event_input list \<Rightarrow> nat dbm" where
  "Events_Write sha ns sid events =
     guard (ns = []) ErrNamespaceRequired
       (if events = [] then ret 0
        else guard (\<exists>e\<in>set events. ei_priority e < 1 \<or> ei_priority e > 4) ErrInvalidPriority
          (stmt (\<lambda>d. let t = tabs d in
             if \<not> session_in t ns sid then (Inl ErrSessionNotFound, t)
             else (Inr (length events),
                   t\<lparr>session_events := session_events t @ event_rows sha (db_now d) (next_event t) sid events,
                     next_event := next_event t + int (length events)\<rparr>))))"

record event_filter =
  ef_types :: "string list"
  ef_min_priority :: int
  ef_limit :: int

definition event_order :: "event_row \<Rightarrow> event_row \<Rightarrow> bool" where
  "event_order a b \<longleftrightarrow> ev_priority a < ev_priority b
     \<or> (ev_priority a = ev_priority b \<and> ev_created b < ev_created a)"

definition Events_Read :: "string \<Rightarrow> int \<Rightarrow> event_filter \<Rightarrow> event_row list dbm" where
  "Events_Read ns sid f =
     guard (ns = []) ErrNamespaceRequired (guard (ef_limit f < 0) ErrInvalidLimit
       (guard (ef_min_priority f \<noteq> 0 \<and> (ef_min_priority f < 1 \<or> ef_min_priority f > 4)) ErrInvalidPriority
         (let limit = (if ef_limit f = 0 then defaultReadEventsLimit else ef_limit f) in
          query (\<lambda>d. let t = tabs d in
            Inr (take (nat limit) (stable_sort event_order
              (filter (\<lambda>e. ev_session e = sid \<and> session_in t ns sid
                         \<and> (ef_types f = [] \<or> ev_type e \<in> set (ef_types f))
                         \<and> (ef_min_priority f > 0 \<longrightarrow> ev_priority e \<le> ef_min_priority f))
                (session_events t))))))))"

definition Events_Snapshot :: "string \<Rightarrow> int \<Rightarrow> event_row list dbm" where
  "Events_Snapshot ns sid =
     guard (ns = []) ErrNamespaceRequired
       (query (\<lambda>d. let t = tabs d in
          Inr (take snapshotRowCap (stable_sort event_order
            (filter (\<lambda>e. ev_session e = sid \<and> session_in t ns sid) (session_events t))))))"

section \<open>Correlations (pg_correlations.go)\<close>

definition Correlations_Insert :: "string \<Rightarrow> int \<Rightarrow> string \<Rightarrow> string \<Rightarrow> string \<Rightarrow> unit dbm" where
  "Correlations_Insert ns sid cid requestType meta =
     guard (ns = []) ErrNamespaceRequired
       (stmt (\<lambda>d. let t = tabs d in
          if \<not> session_in t ns sid then (Inl ErrSessionNotFound, t)
          else if (\<exists>c\<in>set (correlations t). co_id c = cid)
                  \<or> requestType \<notin> {''ingest'', ''search'', ''snapshot''}
          then (Inl ErrStorageBackend, t)
          else (Inr (), t\<lparr>correlations := correlations t @
                  [\<lparr>co_id = cid, co_session = sid, co_type = requestType, co_meta = meta,
                    co_outcome = ''unset'', co_feedback = None, co_created = db_now d\<rparr>]\<rparr>)))"

definition find_correlation :: "tables \<Rightarrow> string \<Rightarrow> int \<Rightarrow> string \<Rightarrow> corr_row option" where
  "find_correlation t ns sid cid =
     (if session_in t ns sid then find (\<lambda>c. co_id c = cid \<and> co_session c = sid) (correlations t) else None)"

definition GetWithLockedRow :: "string \<Rightarrow> int \<Rightarrow> string \<Rightarrow> corr_row dbm" where
  "GetWithLockedRow ns sid cid =
     guard (ns = []) ErrNamespaceRequired
       (query (\<lambda>d. case find_correlation (tabs d) ns sid cid of
                     None \<Rightarrow> Inl ErrCorrelationNotFound | Some c \<Rightarrow> Inr c))"

definition UpdateOutcome :: "string \<Rightarrow> int \<Rightarrow> string \<Rightarrow> string \<Rightarrow> corr_row dbm" where
  "UpdateOutcome ns sid cid outcome =
     guard (ns = []) ErrNamespaceRequired
       (stmt (\<lambda>d. let t = tabs d in
          case find_correlation t ns sid cid of
            None \<Rightarrow> (Inl ErrCorrelationNotFound, t)
          | Some c \<Rightarrow>
              if co_feedback c \<noteq> None then (Inl ErrCorrelationNotFound, t)
              else if outcome \<notin> {''unset'', ''success'', ''retry'', ''degraded''} then (Inl ErrStorageBackend, t)
              else
                (let c' = c\<lparr>co_outcome := outcome, co_feedback := Some (db_now d)\<rparr> in
                 (Inr c', t\<lparr>correlations := map (\<lambda>r. if co_id r = cid then c' else r) (correlations t)\<rparr>))))"

end
