(* ===== verification/Store_Inv.thy ===== *)
theory Store_Inv
  imports Store_Repos
begin

text \<open>
  The invariant of the tables: keys are unique, ids come from their sequence, every row
  refers to an existing parent, expiry is activity plus time to live, priorities and
  outcomes are in range. Every repository method keeps it, whatever it returns, and so does
  every composition of them, transactions included.
\<close>

section \<open>The invariant\<close>

definition clients_ok :: "tables \<Rightarrow> bool" where
  "clients_ok t \<longleftrightarrow> distinct (map (\<lambda>c. (cl_ns c, cl_name c)) (clients t))"

definition has_client :: "tables \<Rightarrow> string \<Rightarrow> string \<Rightarrow> bool" where
  "has_client t ns name \<longleftrightarrow> (ns, name) \<in> (\<lambda>c. (cl_ns c, cl_name c)) ` set (clients t)"

definition session_ids :: "tables \<Rightarrow> int set" where
  "session_ids t = se_id ` set (sessions t)"

definition source_ids :: "tables \<Rightarrow> int set" where
  "source_ids t = so_id ` set (sources t)"

definition session_row_ok :: "tables \<Rightarrow> session_row \<Rightarrow> bool" where
  "session_row_ok t s \<longleftrightarrow> has_client t (se_ns s) (se_client s) \<and> se_id s < next_session t
     \<and> se_expires s = se_last s + se_ttl s * 60000000 \<and> 0 < se_ttl s \<and> se_ns s \<noteq> [] \<and> se_hash s \<noteq> []"

definition sessions_ok :: "tables \<Rightarrow> bool" where
  "sessions_ok t \<longleftrightarrow> distinct (map se_id (sessions t)) \<and> distinct (map (\<lambda>s. (se_ns s, se_hash s)) (sessions t))
     \<and> (\<forall>s\<in>set (sessions t). session_row_ok t s)"

definition labels_ok :: "tables \<Rightarrow> bool" where
  "labels_ok t \<longleftrightarrow> distinct (map (\<lambda>l. (la_session l, la_key l)) (session_labels t))
     \<and> la_session ` set (session_labels t) \<subseteq> session_ids t"

definition sources_ok :: "tables \<Rightarrow> bool" where
  "sources_ok t \<longleftrightarrow> distinct (map so_id (sources t)) \<and> distinct (map (\<lambda>s. (so_session s, so_label s)) (sources t))
     \<and> so_session ` set (sources t) \<subseteq> session_ids t \<and> (\<forall>s\<in>set (sources t). so_id s < next_source t)"

definition chunks_ok :: "tables \<Rightarrow> bool" where
  "chunks_ok t \<longleftrightarrow> sorted_wrt (<) (map ch_id (chunks t)) \<and> ch_source ` set (chunks t) \<subseteq> source_ids t
     \<and> (\<forall>c\<in>set (chunks t). ch_id c < next_chunk t)"

definition vocab_ok :: "tables \<Rightarrow> bool" where
  "vocab_ok t \<longleftrightarrow> distinct (map (\<lambda>v. (vo_session v, vo_word v)) (vocabulary t))
     \<and> vo_session ` set (vocabulary t) \<subseteq> session_ids t"

definition events_ok :: "tables \<Rightarrow> bool" where
  "events_ok t \<longleftrightarrow> sorted_wrt (<) (map ev_id (session_events t))
     \<and> ev_session ` set (session_events t) \<subseteq> session_ids t
     \<and> (\<forall>e\<in>set (session_events t). ev_id e < next_event t \<and> 1 \<le> ev_priority e \<and> ev_priority e \<le> 4)"

definition corr_row_ok :: "corr_row \<Rightarrow> bool" where
  "corr_row_ok c \<longleftrightarrow> co_type c \<in> {''ingest'', ''search'', ''snapshot''}
     \<and> co_outcome c \<in> {''unset'', ''success'', ''retry'', ''degraded''}
     \<and> (co_feedback c = None \<longrightarrow> co_outcome c = ''unset'')"

definition corrs_ok :: "tables \<Rightarrow> bool" where
  "corrs_ok t \<longleftrightarrow> distinct (map co_id (correlations t)) \<and> co_session ` set (correlations t) \<subseteq> session_ids t
     \<and> (\<forall>c\<in>set (correlations t). corr_row_ok c)"

definition tables_ok :: "tables \<Rightarrow> bool" where
  "tables_ok t \<longleftrightarrow> clients_ok t \<and> sessions_ok t \<and> labels_ok t \<and> sources_ok t \<and> chunks_ok t \<and> vocab_ok t
     \<and> events_ok t \<and> corrs_ok t"

lemmas table_defs = clients_ok_def has_client_def session_ids_def source_ids_def session_row_ok_def sessions_ok_def
  labels_ok_def sources_ok_def chunks_ok_def vocab_ok_def events_ok_def corrs_ok_def

section \<open>Updates of one table\<close>

text \<open>Changing rows in place keeps what depends on the keys only.\<close>

lemma same_keys:
  assumes "\<And>x. k (f x) = k x"
  shows "distinct (map k (map f xs)) \<longleftrightarrow> distinct (map k xs)" "k ` set (map f xs) = k ` set xs"
proof -
  have m: "map k (map f xs) = map k xs" using assms by simp
  then show "distinct (map k (map f xs)) \<longleftrightarrow> distinct (map k xs)" by presburger
  show "k ` set (map f xs) = k ` set xs" using m by (metis list.set_map)
qed

text \<open>Adding or changing rows of one table leaves the conditions on the others alone.\<close>

lemma ok_clients:
  assumes "tables_ok t" "clients_ok (t\<lparr>clients := cs\<rparr>)"
    "(\<lambda>c. (cl_ns c, cl_name c)) ` set (clients t) \<subseteq> (\<lambda>c. (cl_ns c, cl_name c)) ` set cs"
  shows "tables_ok (t\<lparr>clients := cs\<rparr>)"
  using assms by (auto simp: tables_ok_def table_defs)

lemma update_client_ok:
  assumes "tables_ok t" "\<And>c. cl_ns (f c) = cl_ns c \<and> cl_name (f c) = cl_name c"
  shows "tables_ok (update_client ns name f t)"
proof -
  let ?k = "\<lambda>c. (cl_ns c, cl_name c)" and ?f = "\<lambda>c. if cl_ns c = ns \<and> cl_name c = name then f c else c"
  have k: "?k (?f c) = ?k c" for c using assms(2) [of c] by simp
  show ?thesis unfolding update_client_def
  proof (rule ok_clients)
    show "clients_ok (t\<lparr>clients := map ?f (clients t)\<rparr>)"
      using assms(1) same_keys(1) [of ?k ?f "clients t", OF k] by (simp add: tables_ok_def clients_ok_def del: map_map)
    show "?k ` set (clients t) \<subseteq> ?k ` set (map ?f (clients t))"
      using same_keys(2) [of ?k ?f "clients t", OF k] by blast
  qed (rule assms(1))
qed

lemma find_client_None: "find_client t ns name = None \<longleftrightarrow> \<not> has_client t ns name"
  by (auto simp: find_client_def find_None_iff has_client_def)

lemma find_source_None: "find (\<lambda>s. so_session s = sid \<and> so_label s = l) xs = None
    \<longleftrightarrow> (sid, l) \<notin> (\<lambda>s. (so_session s, so_label s)) ` set xs"
  by (auto simp: find_None_iff)

lemma session_in_id: "session_in t ns sid \<Longrightarrow> sid \<in> session_ids t"
  by (auto simp: session_in_def session_ids_def)

text \<open>Keeping the identities of the sessions keeps all that refers to them.\<close>

lemma ok_sessions:
  assumes "tables_ok t" "sessions_ok (t\<lparr>sessions := ss, next_session := n\<rparr>)" "session_ids t \<subseteq> se_id ` set ss"
  shows "tables_ok (t\<lparr>sessions := ss, next_session := n\<rparr>)"
proof -
  have ids: "session_ids (t\<lparr>sessions := ss, next_session := n\<rparr>) = se_id ` set ss" by (simp add: session_ids_def)
  have "la_session ` set (session_labels t) \<subseteq> se_id ` set ss" "so_session ` set (sources t) \<subseteq> se_id ` set ss"
    "vo_session ` set (vocabulary t) \<subseteq> se_id ` set ss" "ev_session ` set (session_events t) \<subseteq> se_id ` set ss"
    "co_session ` set (correlations t) \<subseteq> se_id ` set ss"
    using assms(1,3) unfolding tables_ok_def labels_ok_def sources_ok_def vocab_ok_def events_ok_def corrs_ok_def
    by (meson order_trans)+
  then show ?thesis using assms(1,2) by (simp add: tables_ok_def clients_ok_def labels_ok_def sources_ok_def chunks_ok_def
        source_ids_def vocab_ok_def events_ok_def corrs_ok_def ids)
qed

lemma ok_sources:
  assumes "tables_ok t" "sources_ok (t\<lparr>sources := ss, next_source := n\<rparr>)" "source_ids t \<subseteq> so_id ` set ss"
  shows "tables_ok (t\<lparr>sources := ss, next_source := n\<rparr>)"
proof -
  have "ch_source ` set (chunks t) \<subseteq> so_id ` set ss"
    using assms(1,3) unfolding tables_ok_def chunks_ok_def by (meson order_trans)
  then show ?thesis using assms(1,2) by (simp add: tables_ok_def clients_ok_def has_client_def session_ids_def
      source_ids_def session_row_ok_def sessions_ok_def labels_ok_def chunks_ok_def vocab_ok_def events_ok_def corrs_ok_def)
qed

lemma cascade_session_ids: "session_ids (cascade_sessions ids t) = session_ids t - ids"
  by (auto simp: cascade_sessions_def session_ids_def)

lemma cascade_ok:
  assumes ok: "tables_ok t"
  shows "tables_ok (cascade_sessions ids t)"
proof -
  let ?t = "cascade_sessions ids t"
  have c: "clients_ok ?t" using ok by (simp add: cascade_sessions_def tables_ok_def clients_ok_def)
  have s: "sessions_ok ?t"
    using ok by (auto simp: cascade_sessions_def tables_ok_def sessions_ok_def session_row_ok_def has_client_def distinct_map_filter)
  have l: "labels_ok ?t" using ok cascade_session_ids [of ids t]
    by (auto simp: cascade_sessions_def tables_ok_def labels_ok_def distinct_map_filter)
  have so: "sources_ok ?t" using ok cascade_session_ids [of ids t]
    by (auto simp: cascade_sessions_def tables_ok_def sources_ok_def distinct_map_filter)
  have "ch_source c \<in> source_ids ?t" if "c \<in> set (chunks ?t)" for c
  proof -
    have c: "c \<in> set (chunks t)" "\<not> (\<exists>s\<in>set (sources t). so_id s = ch_source c \<and> so_session s \<in> ids)"
      using that by (auto simp: cascade_sessions_def)
    then obtain s where "s \<in> set (sources t)" "so_id s = ch_source c"
      using ok by (fastforce simp: tables_ok_def chunks_ok_def source_ids_def)
    then show ?thesis using c(2) by (force simp: cascade_sessions_def source_ids_def)
  qed
  then have ch: "chunks_ok ?t"
    using ok by (auto simp: tables_ok_def chunks_ok_def cascade_sessions_def sorted_wrt_map sorted_wrt_filter)
  have v: "vocab_ok ?t" using ok cascade_session_ids [of ids t]
    by (auto simp: cascade_sessions_def tables_ok_def vocab_ok_def distinct_map_filter)
  have e: "events_ok ?t" using ok cascade_session_ids [of ids t]
    by (auto simp: cascade_sessions_def tables_ok_def events_ok_def sorted_wrt_map sorted_wrt_filter)
  have co: "corrs_ok ?t" using ok cascade_session_ids [of ids t]
    by (auto simp: cascade_sessions_def tables_ok_def corrs_ok_def distinct_map_filter)
  show ?thesis using c s l so ch v e co by (simp add: tables_ok_def)
qed

section \<open>The methods\<close>

lemma Clients_Register_keeps [keeps_intros]: "keeps tables_ok (Clients_Register ns name)"
  unfolding Clients_Register_def Let_def
  by (intro keeps_guard keeps_stmt)
    (auto simp: find_client_None has_client_def intro!: ok_clients, auto simp: tables_ok_def clients_ok_def)

lemma RegisterWithCredential_keeps [keeps_intros]: "keeps tables_ok (RegisterWithCredential ns name h)"
  unfolding RegisterWithCredential_def Let_def
  by (intro keeps_guard keeps_stmt)
    (auto simp: find_client_None has_client_def intro!: ok_clients, auto simp: tables_ok_def clients_ok_def)

lemma RotateCredential_keeps [keeps_intros]: "keeps tables_ok (RotateCredential ns name h)"
  unfolding RotateCredential_def Let_def
  by (intro keeps_guard keeps_stmt) (auto intro!: update_client_ok)

lemma BumpActivity_keeps [keeps_intros]: "keeps tables_ok (BumpActivity ns name ts)"
  unfolding BumpActivity_def by (intro keeps_stmt) (auto intro!: update_client_ok)

lemma Clients_DeleteRow_keeps [keeps_intros]: "keeps tables_ok (Clients_DeleteRow ns name)"
  unfolding Clients_DeleteRow_def Let_def
proof (intro keeps_stmt)
  fix d assume ok: "tables_ok (tabs d)"
  let ?t = "cascade_sessions (set (map se_id (client_sessions (tabs d) ns name))) (tabs d)"
  let ?cs = "filter (\<lambda>c. \<not> (cl_ns c = ns \<and> cl_name c = name)) (clients ?t)"
  have okt: "tables_ok ?t" by (rule cascade_ok [OF ok])
  have "has_client (?t\<lparr>clients := ?cs\<rparr>) (se_ns s) (se_client s)" if s: "s \<in> set (sessions ?t)" for s
  proof -
    have "s \<in> set (sessions (tabs d))" "se_id s \<notin> set (map se_id (client_sessions (tabs d) ns name))"
      using s by (auto simp: cascade_sessions_def)
    then have "\<not> (se_ns s = ns \<and> se_client s = name)" by (auto simp: client_sessions_def)
    moreover have "has_client ?t (se_ns s) (se_client s)"
      using okt s by (auto simp: tables_ok_def sessions_ok_def session_row_ok_def)
    ultimately show ?thesis by (force simp: has_client_def)
  qed
  then have "sessions_ok (?t\<lparr>clients := ?cs\<rparr>)" using okt
    by (auto simp: tables_ok_def sessions_ok_def session_row_ok_def)
  moreover have "clients_ok (?t\<lparr>clients := ?cs\<rparr>)" using okt by (simp add: tables_ok_def clients_ok_def distinct_map_filter)
  ultimately have "tables_ok (?t\<lparr>clients := ?cs\<rparr>)" using okt
    by (simp add: tables_ok_def labels_ok_def sources_ok_def chunks_ok_def vocab_ok_def events_ok_def corrs_ok_def
        session_ids_def source_ids_def)
  then show "tables_ok (snd (Inr (), ?t\<lparr>clients := ?cs\<rparr>))" by simp
qed

lemma Sessions_Insert_keeps [keeps_intros]: "keeps tables_ok (Sessions_Insert sess)"
proof -
  have "tables_ok (t\<lparr>sessions := sessions t @ [row], next_session := next_session t + 1\<rparr>)"
    if ok: "tables_ok t" and row: "se_id row = next_session t" "session_row_ok (t\<lparr>next_session := next_session t + 1\<rparr>) row"
      "\<not> (\<exists>s\<in>set (sessions t). se_ns s = se_ns row \<and> se_hash s = se_hash row)" for t row
    using ok row
    by (intro ok_sessions) (fastforce simp: tables_ok_def sessions_ok_def session_row_ok_def has_client_def session_ids_def)+
  then show ?thesis
    unfolding Sessions_Insert_def guard_def Let_def
    by (auto intro!: keeps_fail keeps_stmt
        simp: find_client_None set_expires_at_def session_row_ok_def has_client_def DefaultClient_def)
qed

lemma Touch_keeps [keeps_intros]: "keeps tables_ok (Touch ns hash ts)"
proof -
  have "tables_ok (t\<lparr>sessions := map f (sessions t)\<rparr>)"
    if ok: "tables_ok t" and f: "\<And>s. se_id (f s) = se_id s \<and> se_ns (f s) = se_ns s \<and> se_hash (f s) = se_hash s
        \<and> se_client (f s) = se_client s \<and> se_ttl (f s) = se_ttl s
        \<and> (se_expires s = se_last s + se_ttl s * 60000000 \<longrightarrow> se_expires (f s) = se_last (f s) + se_ttl s * 60000000)"
    for t f
  proof -
    have "sessions_ok (t\<lparr>sessions := map f (sessions t), next_session := next_session t\<rparr>)"
      using ok f by (simp add: tables_ok_def sessions_ok_def comp_def session_row_ok_def has_client_def)
    moreover have "session_ids t \<subseteq> se_id ` set (map f (sessions t))"
      using same_keys(2) [of se_id f "sessions t"] f by (simp add: session_ids_def)
    ultimately have "tables_ok (t\<lparr>sessions := map f (sessions t), next_session := next_session t\<rparr>)"
      using ok_sessions ok by blast
    then show ?thesis by (cases t) simp
  qed
  then show ?thesis
    unfolding Touch_def guard_def Let_def
    by (auto intro!: keeps_fail keeps_stmt simp: set_expires_at_def)
qed

lemma InsertLabels_keeps [keeps_intros]: "keeps tables_ok (InsertLabels sid labels)"
proof -
  have "tables_ok (t\<lparr>session_labels := session_labels t
          @ map (\<lambda>(k, v). \<lparr>la_session = sid, la_key = k, la_value = v\<rparr>) labels\<rparr>)"
    if ok: "tables_ok t" and fresh: "distinct (map fst labels)"
      "\<not> (\<exists>l\<in>set (session_labels t). la_session l = sid \<and> la_key l \<in> fst ` set labels)"
      "\<exists>s\<in>set (sessions t). se_id s = sid" for t
  proof -
    have "map (\<lambda>l. (la_session l, la_key l)) (map (\<lambda>(k, v). \<lparr>la_session = sid, la_key = k, la_value = v\<rparr>) labels)
        = map (Pair sid) (map fst labels)" by (simp add: case_prod_unfold)
    then have "distinct (map (\<lambda>l. (la_session l, la_key l))
        (map (\<lambda>(k, v). \<lparr>la_session = sid, la_key = k, la_value = v\<rparr>) labels))"
      using fresh(1) by (simp only: distinct_map) (simp add: inj_on_def)
    then have "labels_ok (t\<lparr>session_labels := session_labels t
          @ map (\<lambda>(k, v). \<lparr>la_session = sid, la_key = k, la_value = v\<rparr>) labels\<rparr>)"
      using ok fresh(2,3) by (force simp: tables_ok_def labels_ok_def session_ids_def)
    then show ?thesis using ok by (simp add: tables_ok_def clients_ok_def sessions_ok_def session_row_ok_def has_client_def
        session_ids_def sources_ok_def chunks_ok_def source_ids_def vocab_ok_def events_ok_def corrs_ok_def)
  qed
  then show ?thesis unfolding InsertLabels_def Let_def
    by (auto intro!: keeps_ret keeps_stmt)
qed

lemma DeleteByIDRow_keeps [keeps_intros]: "keeps tables_ok (DeleteByIDRow sid)"
  unfolding DeleteByIDRow_def by (intro keeps_stmt) (simp add: cascade_ok)

lemma DeleteRows_keeps [keeps_intros]: "keeps tables_ok (DeleteRows ids)"
  unfolding DeleteRows_def by (auto intro!: keeps_ret keeps_stmt cascade_ok)

lemma Upsert_keeps [keeps_intros]: "keeps tables_ok (Upsert ns sid label)"
proof -
  have "tables_ok (t\<lparr>sources := map f (sources t), next_source := next_source t\<rparr>)"
    if "tables_ok t" "\<And>s. so_id (f s) = so_id s \<and> so_session (f s) = so_session s \<and> so_label (f s) = so_label s" for t f
  proof (rule ok_sources [OF that(1)])
    have k: "(so_session (f s), so_label (f s)) = (so_session s, so_label s)" for s using that(2) by simp
    show "sources_ok (t\<lparr>sources := map f (sources t), next_source := next_source t\<rparr>)"
      using that same_keys(1) [of so_id f "sources t"] same_keys(2) [of so_session f "sources t"]
        same_keys(1) [of "\<lambda>s. (so_session s, so_label s)" f "sources t", OF k]
      by (simp add: tables_ok_def sources_ok_def session_ids_def del: map_map)
    show "source_ids t \<subseteq> so_id ` set (map f (sources t))"
      using same_keys(2) [of so_id f "sources t"] that(2) by (simp add: source_ids_def)
  qed
  then have upd: "tables_ok (t\<lparr>sources := map f (sources t)\<rparr>)"
    if "tables_ok t" "\<And>s. so_id (f s) = so_id s \<and> so_session (f s) = so_session s \<and> so_label (f s) = so_label s" for t f
    using that by (cases t) fastforce
  have add: "tables_ok (t\<lparr>sources := sources t @ [\<lparr>so_id = next_source t, so_session = sid, so_label = label, so_indexed = n\<rparr>],
        next_source := next_source t + 1\<rparr>)"
    if "tables_ok t" "sid \<in> session_ids t" "(sid, label) \<notin> (\<lambda>s. (so_session s, so_label s)) ` set (sources t)" for t n
    using that by (intro ok_sources) (fastforce simp: tables_ok_def sources_ok_def source_ids_def session_ids_def)+
  show ?thesis unfolding Upsert_def Let_def
    by (intro keeps_guard keeps_stmt)
      (auto simp: find_source_None split: option.split intro!: upd add dest: session_in_id)
qed

lemma DeleteForSource_keeps [keeps_intros]: "keeps tables_ok (DeleteForSource src)"
  unfolding DeleteForSource_def Let_def
  by (intro keeps_stmt) (auto simp: tables_ok_def table_defs sorted_wrt_map sorted_wrt_filter)

lemma chunk_rows_props:
  "map ch_id (chunk_rows i src cs) = map (\<lambda>k. i + int k) [0..<length cs]"
  "\<forall>c\<in>set (chunk_rows i src cs). ch_source c = src"
  by (induction cs arbitrary: i) (auto simp: upt_conv_Cons simp del: upt_Suc simp flip: map_Suc_upt)

lemma sorted_int_seq: "sorted_wrt (<) (map (\<lambda>k. i + int k) [0..<n])"
  by (simp add: sorted_wrt_map sorted_wrt_upt [THEN sorted_wrt_mono_rel [rotated]])

lemma Chunks_Insert_keeps [keeps_intros]: "keeps tables_ok (Chunks_Insert src cs)"
proof -
  have "tables_ok (t\<lparr>chunks := chunks t @ chunk_rows (next_chunk t) src cs, next_chunk := next_chunk t + int (length cs)\<rparr>)"
    if ok: "tables_ok t" and src: "\<exists>s\<in>set (sources t). so_id s = src" for t
  proof -
    have ids: "ch_id ` set (chunk_rows (next_chunk t) src cs) = (\<lambda>k. next_chunk t + int k) ` {0..<length cs}"
      using chunk_rows_props(1) [of "next_chunk t" src cs] by (metis list.set_map set_upt)
    have new: "next_chunk t \<le> ch_id c \<and> ch_id c < next_chunk t + int (length cs)"
      if "c \<in> set (chunk_rows (next_chunk t) src cs)" for c
    proof -
      have "ch_id c \<in> (\<lambda>k. next_chunk t + int k) ` {0..<length cs}" using that ids by blast
      then show ?thesis by auto
    qed
    have "chunks_ok (t\<lparr>chunks := chunks t @ chunk_rows (next_chunk t) src cs, next_chunk := next_chunk t + int (length cs)\<rparr>)"
      using ok src new chunk_rows_props(2) [of "next_chunk t" src cs] sorted_int_seq [of "next_chunk t" "length cs"]
      by (fastforce simp: tables_ok_def chunks_ok_def source_ids_def sorted_wrt_append chunk_rows_props(1))
    then show ?thesis using ok by (simp add: tables_ok_def clients_ok_def has_client_def session_ids_def
        session_row_ok_def sessions_ok_def labels_ok_def sources_ok_def vocab_ok_def events_ok_def corrs_ok_def)
  qed
  then show ?thesis unfolding Chunks_Insert_def Let_def by (auto intro!: keeps_ret keeps_stmt)
qed

lemma ok_vocab:
  assumes "tables_ok t" "distinct (map (\<lambda>v. (vo_session v, vo_word v)) vs)" "vo_session ` set vs \<subseteq> session_ids t"
  shows "tables_ok (t\<lparr>vocabulary := vs\<rparr>)"
  using assms by (simp add: tables_ok_def table_defs)

lemma DecrementForSource_keeps [keeps_intros]: "keeps tables_ok (DecrementForSource lx src)"
proof -
  have "tables_ok (t\<lparr>vocabulary := map f (vocabulary t)\<rparr>)"
    if "tables_ok t" "\<And>v. vo_session (f v) = vo_session v \<and> vo_word (f v) = vo_word v" for t f
    using that by (intro ok_vocab) (force simp: tables_ok_def vocab_ok_def comp_def)+
  then show ?thesis unfolding DecrementForSource_def Let_def
    by (intro keeps_stmt) (auto split: option.split)
qed

lemma add_word_keys:
  assumes "distinct (map (\<lambda>v. (vo_session v, vo_word v)) vs)" "vo_session ` set vs \<subseteq> S" "sid \<in> S"
  shows "distinct (map (\<lambda>v. (vo_session v, vo_word v)) (add_word sid e vs)) \<and> vo_session ` set (add_word sid e vs) \<subseteq> S"
proof (cases "\<exists>v\<in>set vs. vo_session v = sid \<and> vo_word v = fst e")
  case True
  let ?f = "\<lambda>v. if vo_session v = sid \<and> vo_word v = fst e then v\<lparr>vo_freq := vo_freq v + snd e\<rparr> else v"
  have e: "add_word sid e vs = map ?f vs" using True by (simp add: add_word_def case_prod_unfold)
  have "distinct (map (\<lambda>v. (vo_session v, vo_word v)) (map ?f vs))"
    using assms(1) by (subst same_keys(1)) auto
  moreover have "vo_session ` set (map ?f vs) \<subseteq> S" using assms(2) by (subst same_keys(2)) auto
  ultimately show ?thesis by (simp only: e)
next
  case False
  then show ?thesis using assms by (auto simp: add_word_def case_prod_unfold)
qed

lemma fold_add_word:
  "distinct (map (\<lambda>v. (vo_session v, vo_word v)) vs) \<Longrightarrow> vo_session ` set vs \<subseteq> S \<Longrightarrow> sid \<in> S \<Longrightarrow>
     distinct (map (\<lambda>v. (vo_session v, vo_word v)) (fold (add_word sid) es vs))
     \<and> vo_session ` set (fold (add_word sid) es vs) \<subseteq> S"
proof (induction es arbitrary: vs)
  case (Cons e es)
  then show ?case using add_word_keys [of vs S sid e] by simp
qed simp

lemma IncrementForSource_keeps [keeps_intros]: "keeps tables_ok (IncrementForSource lx src)"
proof -
  have "tables_ok (t\<lparr>vocabulary := fold (add_word sid) es (vocabulary t)\<rparr>)"
    if ok: "tables_ok t" and s: "source_session t src = Some sid" for t sid es
  proof -
    have "sid \<in> session_ids t"
      using ok s by (auto simp: source_session_def find_Some_iff tables_ok_def sources_ok_def)
    then show ?thesis using fold_add_word [of "vocabulary t" "session_ids t" sid es] ok
      by (intro ok_vocab) (auto simp: tables_ok_def vocab_ok_def)
  qed
  then show ?thesis unfolding IncrementForSource_def Let_def
    by (intro keeps_stmt) (auto split: option.split)
qed

lemma PruneZeros_keeps [keeps_intros]: "keeps tables_ok (PruneZeros sid)"
proof -
  have "tables_ok (t\<lparr>vocabulary := filter p (vocabulary t)\<rparr>)" if "tables_ok t" for t p
    using that by (intro ok_vocab) (auto simp: tables_ok_def vocab_ok_def distinct_map_filter)
  then show ?thesis unfolding PruneZeros_def Let_def by (intro keeps_stmt) simp
qed

lemma event_rows_props:
  "map ev_id (event_rows sha now i sid es) = map (\<lambda>k. i + int k) [0..<length es]"
  "\<forall>e\<in>set (event_rows sha now i sid es). ev_session e = sid \<and> ev_priority e \<in> ei_priority ` set es"
  by (induction es arbitrary: i) (auto simp: upt_conv_Cons simp del: upt_Suc simp flip: map_Suc_upt)

lemma Events_Write_keeps [keeps_intros]: "keeps tables_ok (Events_Write sha ns sid es)"
proof -
  have "tables_ok (t\<lparr>session_events := session_events t @ event_rows sha now (next_event t) sid es,
        next_event := next_event t + int (length es)\<rparr>)"
    if ok: "tables_ok t" and sid: "sid \<in> session_ids t" and pr: "\<forall>e\<in>set es. 1 \<le> ei_priority e \<and> ei_priority e \<le> 4" for t now
  proof -
    have ids: "ev_id ` set (event_rows sha now (next_event t) sid es) = (\<lambda>k. next_event t + int k) ` {0..<length es}"
      using event_rows_props(1) [of sha now "next_event t" sid es] by (metis list.set_map set_upt)
    have new: "next_event t \<le> ev_id e \<and> ev_id e < next_event t + int (length es)
        \<and> ev_session e = sid \<and> 1 \<le> ev_priority e \<and> ev_priority e \<le> 4"
      if "e \<in> set (event_rows sha now (next_event t) sid es)" for e
    proof -
      have "ev_id e \<in> (\<lambda>k. next_event t + int k) ` {0..<length es}" using that ids by blast
      moreover have "ev_session e = sid" "ev_priority e \<in> ei_priority ` set es"
        using that event_rows_props(2) [of sha now "next_event t" sid es] by blast+
      ultimately show ?thesis using pr by auto
    qed
    have "events_ok (t\<lparr>session_events := session_events t @ event_rows sha now (next_event t) sid es,
        next_event := next_event t + int (length es)\<rparr>)"
      using ok sid new sorted_int_seq [of "next_event t" "length es"]
      by (fastforce simp: tables_ok_def events_ok_def session_ids_def sorted_wrt_append event_rows_props(1))
    then show ?thesis using ok by (simp add: tables_ok_def clients_ok_def has_client_def session_ids_def source_ids_def
        session_row_ok_def sessions_ok_def labels_ok_def sources_ok_def chunks_ok_def vocab_ok_def corrs_ok_def)
  qed
  then have "tables_ok (tabs d) \<Longrightarrow> session_in (tabs d) ns sid \<Longrightarrow> \<forall>e\<in>set es. 1 \<le> ei_priority e \<and> ei_priority e \<le> 4 \<Longrightarrow>
      tables_ok (tabs d\<lparr>session_events := session_events (tabs d) @ event_rows sha (db_now d) (next_event (tabs d)) sid es,
        next_event := next_event (tabs d) + int (length es)\<rparr>)" for d
    using session_in_id by blast
  then show ?thesis unfolding Events_Write_def guard_def Let_def
    by (auto intro!: keeps_fail keeps_ret keeps_stmt simp: not_less)
qed

lemma Correlations_Insert_keeps [keeps_intros]: "keeps tables_ok (Correlations_Insert ns sid cid ty meta)"
  unfolding Correlations_Insert_def Let_def
  by (intro keeps_guard keeps_stmt)
    (auto simp: tables_ok_def table_defs corr_row_ok_def dest!: session_in_id)

lemma UpdateOutcome_keeps [keeps_intros]: "keeps tables_ok (UpdateOutcome ns sid cid outcome)"
proof -
  have "tables_ok (t\<lparr>correlations := map (\<lambda>r. if co_id r = cid then c' else r) (correlations t)\<rparr>)"
    if ok: "tables_ok t" and c: "find_correlation t ns sid cid = Some c"
      and c': "co_id c' = co_id c" "co_session c' = co_session c" "corr_row_ok c'" for t c c'
  proof -
    have f: "co_id c = cid" "co_session c = sid" "sid \<in> session_ids t"
      using c by (auto simp: find_correlation_def find_Some_iff split: if_splits dest: session_in_id)
    have k: "co_id (if co_id r = cid then c' else r) = co_id r" for r using f c' by simp
    have "corrs_ok (t\<lparr>correlations := map (\<lambda>r. if co_id r = cid then c' else r) (correlations t)\<rparr>)"
      using ok f c' same_keys(1) [of co_id "\<lambda>r. if co_id r = cid then c' else r" "correlations t", OF k]
      by (auto simp: tables_ok_def corrs_ok_def session_ids_def simp del: map_map)
    then show ?thesis using ok by (simp add: tables_ok_def table_defs)
  qed
  moreover have "corr_row_ok (c\<lparr>co_outcome := out, co_feedback := Some n\<rparr>)"
    if "tables_ok t" "find_correlation t ns sid cid = Some c" "out \<in> {''unset'', ''success'', ''retry'', ''degraded''}" for t c out n
    using that by (auto simp: find_correlation_def find_Some_iff tables_ok_def corrs_ok_def corr_row_ok_def split: if_splits)
  ultimately show ?thesis unfolding UpdateOutcome_def Let_def
    by (intro keeps_guard keeps_stmt) (auto split: option.split)
qed

text \<open>Methods that only read.\<close>

lemma reads_keep [keeps_intros]:
  "keeps P (LookupByToken ns h)" "keeps P (Clients_List ns)" "keeps P (CountSessions ns name)"
  "keeps P (LockByName ns name)" "keeps P (CascadeCountsForClient ns name)" "keeps P (Sessions_Get ns h)"
  "keeps P (Sessions_List f)" "keeps P (Sessions_Count f)" "keeps P (LockByTokenHash ns h)" "keeps P (LockByID ns sid)"
  "keeps P (LockAllByFilter f)" "keeps P (CascadeCounts sid)" "keeps P (CascadeCountsForIDs ids)" "keeps P (ScanExpired now)"
  "keeps P (Sources_List ns sid)" "keeps P (ChunksInOrder ns inp)" "keeps P (TopByIDF sid n)" "keeps P (Events_Read ns sid ef)"
  "keeps P (Events_Snapshot ns sid)" "keeps P (GetWithLockedRow ns sid cid)"
  unfolding LookupByToken_def Clients_List_def CountSessions_def LockByName_def CascadeCountsForClient_def Sessions_Get_def
    Sessions_List_def Sessions_Count_def LockByTokenHash_def LockByID_def LockAllByFilter_def CascadeCounts_def
    CascadeCountsForIDs_def ScanExpired_def Sources_List_def ChunksInOrder_def TopByIDF_def Events_Read_def
    Events_Snapshot_def GetWithLockedRow_def Let_def
  by (intro keeps_guard keeps_query)+

end
