(* ===== verification/Go_Json.thy ===== *)
theory Go_Json
  imports Go_Text
begin

text \<open>
  What the program uses of encoding/json: the compact encoding of strings, integers,
  booleans and objects with string keys, as \<open>json.Marshal\<close> writes them (HTML escaping on).
  The lemmas say that a string converted from runes is encoded rune by rune, so its size
  grows with every rune.
\<close>

section \<open>Encoding\<close>

definition hex_digit :: "nat \<Rightarrow> char" where
  "hex_digit n = (if n < 10 then chr (48 + n) else chr (87 + n))"

text \<open>\<open>hex.EncodeToString\<close>.\<close>

definition hex_string :: "string \<Rightarrow> string" where
  "hex_string s = concat (map (\<lambda>c. [hex_digit (byte c div 16), hex_digit (byte c mod 16)]) s)"

definition quote :: char where "quote = CHR 0x22"
definition backslash :: char where "backslash = CHR 0x5C"

text \<open>The escape of a rune \<open>r\<close> read from the bytes \<open>raw\<close>; a byte that starts no rune is read
  as U+FFFD of width 1.\<close>

definition json_rune :: "nat \<Rightarrow> string \<Rightarrow> string" where
  "json_rune r raw =
     (if r < 128 then
        (if r = 34 \<or> r = 92 then [backslash, chr r]
         else if r = 8 then backslash # ''b''
         else if r = 12 then backslash # ''f''
         else if r = 10 then backslash # ''n''
         else if r = 13 then backslash # ''r''
         else if r = 9 then backslash # ''t''
         else if r < 32 \<or> r = 60 \<or> r = 62 \<or> r = 38
           then backslash # ''u00'' @ [hex_digit (r div 16), hex_digit (r mod 16)]
         else raw)
      else if r = rune_error \<and> length raw = 1 then backslash # ''ufffd''
      else if r = 8232 \<or> r = 8233 then backslash # ''u202'' @ [hex_digit (r mod 16)]
      else raw)"

function json_escape :: "string \<Rightarrow> string" where
  "json_escape [] = []"
| "json_escape (a # s) =
     json_rune (fst (decode_rune (a # s))) (take (rune_width (a # s)) (a # s))
     @ json_escape (drop (rune_width (a # s)) (a # s))"
  by pat_completeness auto
termination
  by (relation "measure length") (use rune_width_pos in \<open>auto simp del: drop.simps take.simps\<close>)

declare json_escape.simps(2) [simp del]

definition json_string :: "string \<Rightarrow> string" where
  "json_string s = quote # json_escape s @ [quote]"

definition json_int :: "int \<Rightarrow> string" where
  "json_int n = (if n < 0 then CHR ''-'' # itoa (nat (- n)) else itoa (nat n))"

definition json_bool :: "bool \<Rightarrow> string" where
  "json_bool b = (if b then ''true'' else ''false'')"

text \<open>An object from its members in order, the values already encoded; a map is written with
  its keys sorted.\<close>

definition json_object :: "(string \<times> string) list \<Rightarrow> string" where
  "json_object ms = CHR ''{'' # join '','' (map (\<lambda>(k, v). json_string k @ '':'' @ v) ms) @ ''}''"

section \<open>Strings converted from runes\<close>

text \<open>A rune that some well-formed sequence encodes; every rune of \<open>[]rune(s)\<close> is one.\<close>

definition proper_rune :: "nat \<Rightarrow> bool" where
  "proper_rune r \<longleftrightarrow> encode_rune r \<noteq> [] \<and> starts_valid (encode_rune r)
     \<and> decode_rune (encode_rune r) = (r, length (encode_rune r))"

lemma proper_error [simp]: "proper_rune rune_error"
  by (simp add: proper_rune_def encode_rune_def scalar_def encode_scalar_def rune_error_def starts_valid_def
      decode_rune.simps cont_byte_def lo3_def hi3_def)

lemma proper_decode:
  assumes "s \<noteq> []"
  shows "proper_rune (fst (decode_rune s))"
proof (cases "starts_valid s")
  case True
  then show ?thesis
  proof (rule starts_valid_shape [OF _ assms])
    fix a w t
    assume s: "s = a # w @ t" "rune_width s = Suc (length w)" "\<And>t'. decode_rune (a # w @ t') = decode_rune s"
    have e: "encode_rune (fst (decode_rune s)) = a # w" using encode_decode [OF True assms] s(1,2) by simp
    have d: "decode_rune (a # w) = decode_rune s" using s(3) [of "[]"] by simp
    then show ?thesis using True s(2) unfolding proper_rune_def e
      by (simp add: starts_valid_def d rune_width_def prod_eq_iff)
  qed
next
  case False
  then show ?thesis by (simp add: starts_valid_def)
qed

lemma proper_runes: "r \<in> set (runes s) \<Longrightarrow> proper_rune r"
proof (induction s rule: runes.induct)
  case (2 a s)
  then show ?case using proper_decode [of "a # s"] by (auto simp: runes.simps(2))
qed simp

lemma json_escape_proper:
  assumes "proper_rune r"
  shows "json_escape (encode_rune r @ s) = json_rune r (encode_rune r) @ json_escape s"
proof -
  have p: "encode_rune r \<noteq> []" "starts_valid (encode_rune r)"
    and e: "decode_rune (encode_rune r) = (r, length (encode_rune r))"
    using assms by (simp_all add: proper_rune_def)
  have d: "decode_rune (encode_rune r @ s) = (r, length (encode_rune r))" using decode_append [OF p(2,1)] e by simp
  obtain a t where a: "encode_rune r @ s = a # t" using p(1) by (cases "encode_rune r") auto
  have "json_escape (a # t) = json_rune r (take (length (encode_rune r)) (a # t)) @ json_escape (drop (length (encode_rune r)) (a # t))"
    using d a by (simp add: json_escape.simps(2) rune_width_def)
  then show ?thesis unfolding a [symmetric] by simp
qed

lemma json_escape_runes:
  "\<forall>r\<in>set rs. proper_rune r \<Longrightarrow>
     json_escape (string_of_runes rs) = concat (map (\<lambda>r. json_rune r (encode_rune r)) rs)"
proof (induction rs)
  case (Cons r rs)
  have "string_of_runes (r # rs) = encode_rune r @ string_of_runes rs" by (simp add: string_of_runes_def)
  then show ?case using Cons by (simp add: json_escape_proper)
qed (simp add: string_of_runes_def)

lemma if_ne: "a \<noteq> [] \<Longrightarrow> b \<noteq> [] \<Longrightarrow> (if c then a else b) \<noteq> []"
  by simp

lemma json_rune_ne: "raw \<noteq> [] \<Longrightarrow> json_rune r raw \<noteq> []"
  unfolding json_rune_def by (intro if_ne) simp_all

lemma length_escape_mono:
  assumes "\<forall>r\<in>set rs. proper_rune r" "m < n" "n \<le> length rs"
  shows "length (json_escape (string_of_runes (take m rs))) < length (json_escape (string_of_runes (take n rs)))"
proof -
  let ?e = "\<lambda>r. json_rune r (encode_rune r)"
  have p: "\<forall>r\<in>set (take k rs). proper_rune r" for k using assms(1) by (auto dest: in_set_takeD)
  have split: "take n rs = take m rs @ take (n - m) (drop m rs)"
    using take_add [of m "n - m" rs] assms(2) by simp
  obtain r us where r: "take (n - m) (drop m rs) = r # us"
    using assms(2,3) by (cases "take (n - m) (drop m rs)") auto
  have "0 < length (?e r)" using json_rune_ne [of "encode_rune r" r] by simp
  then show ?thesis unfolding json_escape_runes [OF p] unfolding split r by simp
qed

section \<open>Back from strings to runes\<close>

lemma runes_proper:
  assumes "proper_rune r"
  shows "runes (encode_rune r @ s) = r # runes s"
proof -
  have p: "encode_rune r \<noteq> []" "starts_valid (encode_rune r)"
    and e: "decode_rune (encode_rune r) = (r, length (encode_rune r))"
    using assms by (simp_all add: proper_rune_def)
  have "decode_rune (encode_rune r @ s) = (r, length (encode_rune r))" using decode_append [OF p(2,1)] e by simp
  then show ?thesis using p(1) runes_step [of "encode_rune r @ s"] by (simp add: rune_width_def)
qed

lemma runes_string_of_runes: "\<forall>r\<in>set rs. proper_rune r \<Longrightarrow> runes (string_of_runes rs) = rs"
proof (induction rs)
  case (Cons r rs)
  have "string_of_runes (r # rs) = encode_rune r @ string_of_runes rs" by (simp add: string_of_runes_def)
  then show ?case using Cons by (simp add: runes_proper)
qed (simp add: string_of_runes_def)

lemma runes_of_part: "set rs \<subseteq> set (runes s) \<Longrightarrow> runes (string_of_runes rs) = rs"
  using proper_runes by (intro runes_string_of_runes) blast

end
