(* ===== verification/Ingest.thy ===== *)
theory Ingest
  imports Store_Inv Go_Json
begin

text \<open>
  internal/ingest/service.go. One ingest replaces the chunks of a source in a transaction
  and keeps the vocabulary in step. The vocabulary is exact: the frequency stored for a word
  of a session is the number of its chunks that contain the word, and no zero is stored.
  Every method keeps this, and the detailed lemma \<open>ingest_tx_ok\<close> says what a committed
  ingest did.
\<close>

section \<open>The service\<close>

definition summaryCap :: nat where "summaryCap = 50"
definition previewMax :: nat where "previewMax = 200"
definition distinctiveTermsCap :: nat where "distinctiveTermsCap = 40"
definition maxChunksPerSource :: nat where "maxChunksPerSource = 500"

record ingest_input =
  inp_Source :: string
  inp_Content :: string
  inp_Format :: string
  inp_ContentType :: string

record ingest_section =
  sec_Title :: string
  sec_Preview :: string

record ingest_result =
  ir_Source :: string
  ir_Created :: bool
  ir_SectionsIndexed :: nat
  ir_SectionsTotal :: nat
  ir_SummaryTruncated :: bool
  ir_Summary :: "ingest_section list"
  ir_DistinctiveTerms :: "string list"

definition preview :: "string \<Rightarrow> string" where
  "preview content =
     (let r = runes content in
      if length r \<le> previewMax then content else string_of_runes (take previewMax r))"

text \<open>The transaction body.\<close>

definition ingest_tx :: "lexer \<Rightarrow> string \<Rightarrow> int \<Rightarrow> string \<Rightarrow> db_chunk list \<Rightarrow> (bool \<times> string list) dbm" where
  "ingest_tx lx ns sid source cs =
     andthen (Upsert ns sid source) (\<lambda>(srcID, c).
     andthen (DecrementForSource lx srcID) (\<lambda>_.
     andthen (DeleteForSource srcID) (\<lambda>_.
     andthen (Chunks_Insert srcID cs) (\<lambda>_.
     andthen (IncrementForSource lx srcID) (\<lambda>_.
     andthen (PruneZeros sid) (\<lambda>_.
     andthen (TopByIDF sid distinctiveTermsCap) (\<lambda>terms. ret (c, terms))))))))"

text \<open>A call whose error is logged and otherwise ignored.\<close>

definition attempt :: "'a dbm \<Rightarrow> unit dbm" where
  "attempt m d = (Inr (), snd (m d))"

definition ingest_meta :: "ingest_result \<Rightarrow> string \<Rightarrow> string" where
  "ingest_meta r effectiveFormat =
     json_object [(''format'', json_string effectiveFormat),
                  (''sections_indexed'', json_int (int (ir_SectionsIndexed r))),
                  (''sections_total'', json_int (int (ir_SectionsTotal r))),
                  (''summary_truncated'', json_bool (ir_SummaryTruncated r))]"

definition ingest_captureCorrelation :: "string \<Rightarrow> int \<Rightarrow> string \<Rightarrow> ingest_result \<Rightarrow> string \<Rightarrow> unit dbm" where
  "ingest_captureCorrelation ns sid cid r effectiveFormat =
     attempt (Correlations_Insert ns sid cid ''ingest'' (ingest_meta r effectiveFormat))"

definition ingest_result_of :: "string \<Rightarrow> db_chunk list \<Rightarrow> nat \<Rightarrow> bool \<times> string list \<Rightarrow> ingest_result" where
  "ingest_result_of source cs tot ct =
     (let summaryLen = min (length cs) summaryCap in
      \<lparr>ir_Source = source, ir_Created = fst ct, ir_SectionsIndexed = length cs, ir_SectionsTotal = tot,
       ir_SummaryTruncated = summaryLen < tot,
       ir_Summary = map (\<lambda>c. \<lparr>sec_Title = Title c, sec_Preview = preview (Content c)\<rparr>) (take summaryLen cs),
       ir_DistinctiveTerms = snd ct\<rparr>)"

definition ingest_chunks ::
  "lexer \<Rightarrow> string \<Rightarrow> int \<Rightarrow> string \<Rightarrow> string \<Rightarrow> db_chunk list \<Rightarrow> string \<Rightarrow> ingest_result dbm" where
  "ingest_chunks lx ns sid cid source chunks0 effectiveFormat =
     (let tot = length chunks0;
          cs = (if tot > maxChunksPerSource then take maxChunksPerSource chunks0 else chunks0)
      in andthen (WithTx (ingest_tx lx ns sid source cs)) (\<lambda>ct.
         let r = ingest_result_of source cs tot ct in
         andthen (ingest_captureCorrelation ns sid cid r effectiveFormat) (\<lambda>_. ret r)))"

text \<open>\<open>None\<close>: chunking does not return.\<close>

definition Ingest ::
  "registry \<Rightarrow> (string \<Rightarrow> string) \<Rightarrow> lexer \<Rightarrow> string \<Rightarrow> int \<Rightarrow> string \<Rightarrow> ingest_input \<Rightarrow> ingest_result dbm option" where
  "Ingest chunkers detectFormat lx ns sid cid inp =
     (if inp_Source inp = [] then Some (fail ErrSourceRequired)
      else map_option (\<lambda>(cs, effectiveFormat). ingest_chunks lx ns sid cid (inp_Source inp) cs effectiveFormat)
             (Split chunkers detectFormat (inp_Source inp) (inp_Content inp) (inp_Format inp) (inp_ContentType inp)))"

definition ListSources :: "string \<Rightarrow> int \<Rightarrow> (string \<times> nat \<times> int) list dbm" where
  "ListSources ns sid = Sources_List ns sid"

section \<open>Exact vocabulary\<close>

definition freq_of :: "vocab_row list \<Rightarrow> int \<Rightarrow> string \<Rightarrow> int" where
  "freq_of vs sid w = (case find (\<lambda>v. vo_session v = sid \<and> vo_word v = w) vs of None \<Rightarrow> 0 | Some v \<Rightarrow> vo_freq v)"

definition with_word :: "lexer \<Rightarrow> string \<Rightarrow> chunk_row list \<Rightarrow> int" where
  "with_word lx w cs = int (length (filter (\<lambda>c. w \<in> set (chunk_words lx c)) cs))"

definition session_chunks :: "tables \<Rightarrow> int \<Rightarrow> chunk_row list" where
  "session_chunks t sid = filter (\<lambda>c. source_session t (ch_source c) = Some sid) (chunks t)"

definition vocab_exact :: "lexer \<Rightarrow> tables \<Rightarrow> bool" where
  "vocab_exact lx t \<longleftrightarrow> (\<forall>sid w. freq_of (vocabulary t) sid w = with_word lx w (session_chunks t sid))
     \<and> (\<forall>v\<in>set (vocabulary t). 0 < vo_freq v)"

text \<open>\<open>tsvector_to_array\<close> lists each lexeme once.\<close>

definition lexer_distinct :: "lexer \<Rightarrow> bool" where
  "lexer_distinct lx \<longleftrightarrow> (\<forall>b s. distinct (lx b s))"

lemma with_word_simps [simp]:
  "with_word lx w [] = 0"
  "with_word lx w (c # cs) = (if w \<in> set (chunk_words lx c) then 1 else 0) + with_word lx w cs"
  "with_word lx w (cs @ ds) = with_word lx w cs + with_word lx w ds"
  by (simp_all add: with_word_def)

lemma with_word_split: "with_word lx w cs = with_word lx w (filter P cs) + with_word lx w (filter (\<lambda>c. \<not> P c) cs)"
  by (induction cs) auto

lemma with_word_pos: "0 \<le> with_word lx w cs"
  by (simp add: with_word_def)

lemma distinct_count_list: "distinct xs \<Longrightarrow> count_list xs x = (if x \<in> set xs then 1 else 0)"
  by (induction xs) auto

lemma count_words:
  assumes "lexer_distinct lx"
  shows "int (count_list (concat (map (chunk_words lx) cs)) w) = with_word lx w cs"
proof (induction cs)
  case (Cons c cs)
  have "distinct (chunk_words lx c)" using assms by (simp add: lexer_distinct_def chunk_words_def)
  then have "count_list (chunk_words lx c) w = (if w \<in> set (chunk_words lx c) then 1 else 0)"
    by (rule distinct_count_list)
  then show ?case using Cons by simp
qed simp

section \<open>What the vocabulary statements do\<close>

lemma find_map_keep:
  "(\<And>x. P (f x) = P x) \<Longrightarrow> find P (map f xs) = map_option f (find P xs)"
  by (induction xs) auto

lemma find_SomeD: "find P xs = Some x \<Longrightarrow> P x \<and> x \<in> set xs"
  by (induction xs) (auto split: if_splits)

lemma find_append: "find P (xs @ ys) = (case find P xs of None \<Rightarrow> find P ys | Some x \<Rightarrow> Some x)"
  by (induction xs) auto

lemma freq_add_word:
  "freq_of (add_word sid e vs) s w = freq_of vs s w + (if s = sid \<and> w = fst e then snd e else 0)"
proof (cases "\<exists>v\<in>set vs. vo_session v = sid \<and> vo_word v = fst e")
  case True
  let ?f = "\<lambda>v. if vo_session v = sid \<and> vo_word v = fst e then v\<lparr>vo_freq := vo_freq v + snd e\<rparr> else v"
  have e: "add_word sid e vs = map ?f vs" using True by (simp add: add_word_def case_prod_unfold)
  have f: "find (\<lambda>v. vo_session v = s \<and> vo_word v = w) (map ?f vs)
      = map_option ?f (find (\<lambda>v. vo_session v = s \<and> vo_word v = w) vs)" by (rule find_map_keep) simp
  show ?thesis
  proof (cases "find (\<lambda>v. vo_session v = s \<and> vo_word v = w) vs")
    case None
    then have "\<not> (s = sid \<and> w = fst e)" using True by (auto simp: find_None_iff)
    then show ?thesis unfolding e freq_of_def f None by auto
  next
    case (Some v)
    then have "vo_session v = s \<and> vo_word v = w" by (blast dest: find_SomeD)
    then show ?thesis unfolding e freq_of_def f Some by simp
  qed
next
  case False
  then have "find (\<lambda>v. vo_session v = sid \<and> vo_word v = fst e) vs = None" by (auto simp: find_None_iff)
  then show ?thesis using False by (auto simp: add_word_def case_prod_unfold freq_of_def find_append split: option.split)
qed

lemma freq_fold_words:
  "freq_of (fold (add_word sid) es vs) s w
     = freq_of vs s w + (if s = sid then sum_list (map snd (filter (\<lambda>e. fst e = w) es)) else 0)"
  by (induction es arbitrary: vs) (auto simp: freq_add_word)

lemma sum_tagged:
  "distinct ws \<Longrightarrow> sum_list (map snd (filter (\<lambda>e. fst e = w) (map (\<lambda>w. (w, g w)) ws))) = (if w \<in> set ws then g w else (0::int))"
  by (induction ws) auto

lemma map_of_tagged: "map_of (map (\<lambda>w. (w, g w)) ws) w = (if w \<in> set ws then Some (g w) else None)"
  by (induction ws) auto

definition src_chunks :: "tables \<Rightarrow> int \<Rightarrow> chunk_row list" where
  "src_chunks t src = filter (\<lambda>c. ch_source c = src) (chunks t)"

lemma term_counts:
  assumes "lexer_distinct lx"
  shows "sum_list (map snd (filter (\<lambda>e. fst e = w) (vocabTermCounts lx t src))) = with_word lx w (src_chunks t src)"
    "map_of (vocabTermCounts lx t src) w = (if with_word lx w (src_chunks t src) = 0 then None
       else Some (with_word lx w (src_chunks t src)))"
proof -
  let ?ws = "concat (map (chunk_words lx) (src_chunks t src))"
  have c: "int (count_list ?ws w) = with_word lx w (src_chunks t src)" by (rule count_words [OF assms])
  have z: "w \<in> set ?ws \<longleftrightarrow> with_word lx w (src_chunks t src) \<noteq> 0" using c [symmetric] by (auto simp: count_list_0_iff)
  have v: "vocabTermCounts lx t src = map (\<lambda>w. (w, int (count_list ?ws w))) (remdups ?ws)"
    by (simp add: vocabTermCounts_def src_chunks_def Let_def)
  show "sum_list (map snd (filter (\<lambda>e. fst e = w) (vocabTermCounts lx t src))) = with_word lx w (src_chunks t src)"
    unfolding v sum_tagged [OF distinct_remdups] using c z by simp
  show "map_of (vocabTermCounts lx t src) w = (if with_word lx w (src_chunks t src) = 0 then None
       else Some (with_word lx w (src_chunks t src)))"
    unfolding v map_of_tagged using c z by simp
qed

definition decremented :: "lexer \<Rightarrow> tables \<Rightarrow> int \<Rightarrow> vocab_row list" where
  "decremented lx t src = map (\<lambda>v. if Some (vo_session v) = source_session t src
     then (case map_of (vocabTermCounts lx t src) (vo_word v) of
             None \<Rightarrow> v | Some cnt \<Rightarrow> v\<lparr>vo_freq := vo_freq v - cnt\<rparr>)
     else v) (vocabulary t)"

lemma freq_decremented:
  assumes "lexer_distinct lx" "freq_of (vocabulary t) s w = 0 \<Longrightarrow> source_session t src = Some s
    \<Longrightarrow> with_word lx w (src_chunks t src) = 0"
  shows "freq_of (decremented lx t src) s w = freq_of (vocabulary t) s w
    - (if source_session t src = Some s then with_word lx w (src_chunks t src) else 0)"
proof -
  let ?P = "\<lambda>v. vo_session v = s \<and> vo_word v = w"
  let ?f = "\<lambda>v. if Some (vo_session v) = source_session t src
     then (case map_of (vocabTermCounts lx t src) (vo_word v) of
             None \<Rightarrow> v | Some cnt \<Rightarrow> v\<lparr>vo_freq := vo_freq v - cnt\<rparr>)
     else v"
  have f: "find ?P (decremented lx t src) = map_option ?f (find ?P (vocabulary t))" unfolding decremented_def
    by (rule find_map_keep) (simp split: option.split)
  show ?thesis
  proof (cases "find ?P (vocabulary t)")
    case None
    then show ?thesis using assms(2) by (simp add: freq_of_def f)
  next
    case (Some v)
    then have "vo_session v = s" "vo_word v = w" by (auto dest: find_SomeD)
    then show ?thesis unfolding freq_of_def f Some by (simp add: term_counts(2) [OF assms(1)])
  qed
qed

lemma freq_pruned:
  assumes "distinct (map (\<lambda>v. (vo_session v, vo_word v)) vs)" "\<And>s w. 0 \<le> freq_of vs s w"
  shows "freq_of (filter (\<lambda>v. \<not> (vo_session v = sid \<and> vo_freq v \<le> 0)) vs) s w = freq_of vs s w"
proof -
  have f: "vo_freq v = freq_of vs (vo_session v) (vo_word v)" if "v \<in> set vs" for v
    using assms(1) that by (induction vs) (auto simp: freq_of_def)
  then have "vo_freq v \<le> 0 \<longleftrightarrow> vo_freq v = 0" if "v \<in> set vs" for v
    using that assms(2) [of "vo_session v" "vo_word v"] by simp
  then show ?thesis using assms(1)
  proof (induction vs)
    case (Cons v vs)
    then have ih: "freq_of (filter (\<lambda>v. \<not> (vo_session v = sid \<and> vo_freq v \<le> 0)) vs) s w = freq_of vs s w" by simp
    show ?case
    proof (cases "vo_session v = s \<and> vo_word v = w")
      case True
      then have "find (\<lambda>v. vo_session v = s \<and> vo_word v = w) vs = None"
        using Cons.prems(2) unfolding find_None_iff by (auto simp: image_iff)
      then have "freq_of vs s w = 0" by (simp add: freq_of_def)
      then show ?thesis using True ih Cons.prems(1) by (auto simp: freq_of_def)
    next
      case False
      then show ?thesis using ih by (auto simp: freq_of_def)
    qed
  qed simp
qed

section \<open>Runs of the statements\<close>

lemma Upsert_ok:
  assumes "Upsert ns sid label d = (Inr (src, c), d')" "tables_ok (tabs d)"
  shows "session_in (tabs d) ns sid" "tables_ok (tabs d')"
    "c \<longleftrightarrow> (sid, label) \<notin> (\<lambda>s. (so_session s, so_label s)) ` set (sources (tabs d))"
    "chunks (tabs d') = chunks (tabs d)" "vocabulary (tabs d') = vocabulary (tabs d)"
    "(\<lambda>s. (so_id s, so_session s, so_label s)) ` set (sources (tabs d'))
       = insert (src, sid, label) ((\<lambda>s. (so_id s, so_session s, so_label s)) ` set (sources (tabs d)))"
    "c \<Longrightarrow> src \<notin> source_ids (tabs d)"
proof -
  let ?P = "\<lambda>s. so_session s = sid \<and> so_label s = label" and ?t = "tabs d"
  let ?k = "\<lambda>s. (so_id s, so_session s, so_label s)"
  have u: "stmt (\<lambda>d. let t = tabs d in
          if \<not> session_in t ns sid then (Inl ErrSessionNotFound, t)
          else case find (\<lambda>s. so_session s = sid \<and> so_label s = label) (sources t) of
                 Some s \<Rightarrow>
                   (Inr (so_id s, False),
                    t\<lparr>sources := map (\<lambda>r. if so_session r = sid \<and> so_label r = label
                                      then r\<lparr>so_indexed := db_now d\<rparr> else r) (sources t)\<rparr>)
               | None \<Rightarrow>
                   (Inr (next_source t, True),
                    t\<lparr>sources := sources t @ [\<lparr>so_id = next_source t, so_session = sid, so_label = label,
                                               so_indexed = db_now d\<rparr>],
                      next_source := next_source t + 1\<rparr>)) d = (Inr (src, c), d')"
    using assms(1) unfolding Upsert_def guard_def fail_def by (simp split: if_splits)
  show ok': "tables_ok (tabs d')"
    using Upsert_keeps [of ns sid label] assms unfolding keeps_def by (metis snd_conv)
  have fresh: "\<forall>s\<in>set (sources ?t). so_id s < next_source ?t" using assms(2) by (simp add: tables_ok_def sources_ok_def)
  show "session_in ?t ns sid"
    using u by (elim stmt_cases) (auto simp: Let_def split: if_splits)
  show "c \<longleftrightarrow> (sid, label) \<notin> (\<lambda>s. (so_session s, so_label s)) ` set (sources ?t)"
    using u by (elim stmt_cases) (auto simp: Let_def find_source_None dest: find_SomeD split: if_splits option.splits)
  show "chunks (tabs d') = chunks ?t" "vocabulary (tabs d') = vocabulary ?t"
    using u by (elim stmt_cases; auto simp: Let_def split: if_splits option.splits)+
  show "c \<Longrightarrow> src \<notin> source_ids ?t"
    using u fresh by (elim stmt_cases) (force simp: Let_def source_ids_def split: if_splits option.splits)+
  show "?k ` set (sources (tabs d')) = insert (src, sid, label) (?k ` set (sources ?t))"
  proof (cases "find ?P (sources ?t)")
    case None
    then show ?thesis using u by (elim stmt_cases) (auto simp: Let_def split: if_splits)
  next
    case (Some s)
    then have s: "s \<in> set (sources ?t)" "so_session s = sid" "so_label s = label" by (auto dest: find_SomeD)
    have m: "?k ` set (map (\<lambda>r. if so_session r = sid \<and> so_label r = label
              then r\<lparr>so_indexed := db_now d\<rparr> else r) (sources ?t)) = ?k ` set (sources ?t)"
      by (rule same_keys(2)) simp
    have "src = so_id s" using u Some by (elim stmt_cases) (auto simp: Let_def split: if_splits)
    moreover have "?k ` set (sources (tabs d')) = ?k ` set (sources ?t)"
      using u Some m by (elim stmt_cases) (auto simp: Let_def split: if_splits simp del: set_map)
    moreover have "?k s \<in> ?k ` set (sources ?t)" using s(1) by blast
    ultimately show ?thesis using s by auto
  qed
qed

lemma vocab_statements_ok:
  "DecrementForSource lx src d = (Inr x, d') \<Longrightarrow> tabs d' = (tabs d)\<lparr>vocabulary := decremented lx (tabs d) src\<rparr>"
  "IncrementForSource lx src d = (Inr x, d') \<Longrightarrow> source_session (tabs d) src = Some sid \<Longrightarrow>
     tabs d' = (tabs d)\<lparr>vocabulary := fold (add_word sid) (vocabTermCounts lx (tabs d) src) (vocabulary (tabs d))\<rparr>"
  "PruneZeros sid d = (Inr x, d') \<Longrightarrow>
     tabs d' = (tabs d)\<lparr>vocabulary := filter (\<lambda>v. \<not> (vo_session v = sid \<and> vo_freq v \<le> 0)) (vocabulary (tabs d))\<rparr>"
  by (auto simp: DecrementForSource_def IncrementForSource_def PruneZeros_def decremented_def Let_def elim!: stmt_cases)

lemma chunk_statements_ok:
  "DeleteForSource src d = (Inr x, d') \<Longrightarrow> tabs d' = (tabs d)\<lparr>chunks := filter (\<lambda>c. ch_source c \<noteq> src) (chunks (tabs d))\<rparr>"
  "Chunks_Insert src cs d = (Inr x, d') \<Longrightarrow>
     tabs d' = (tabs d)\<lparr>chunks := chunks (tabs d) @ chunk_rows (next_chunk (tabs d)) src cs,
                        next_chunk := next_chunk (tabs d) + int (length cs)\<rparr>"
  by (auto simp: DeleteForSource_def Chunks_Insert_def Let_def ret_def elim!: stmt_cases split: if_splits)

lemma TopByIDF_ok:
  assumes "TopByIDF sid n d = (Inr ws, d')"
  shows "tabs d' = tabs d" "length ws \<le> n" "set ws \<subseteq> {w. \<exists>v\<in>set (vocabulary (tabs d)). vo_session v = sid \<and> vo_word v = w}"
  using assms unfolding TopByIDF_def
  by (elim query_cases; auto dest!: in_set_takeD)+

text \<open>The committed transaction, statement by statement.\<close>

lemma ingest_tx_run:
  assumes "ingest_tx lx ns sid source cs d = (Inr (c, ws), d')"
  obtains src d1 t2 t3 t4 t5 where "Upsert ns sid source d = (Inr (src, c), d1)"
    "t2 = (tabs d1)\<lparr>vocabulary := decremented lx (tabs d1) src\<rparr>"
    "t3 = t2\<lparr>chunks := filter (\<lambda>c. ch_source c \<noteq> src) (chunks t2)\<rparr>"
    "t4 = t3\<lparr>chunks := chunks t3 @ chunk_rows (next_chunk t3) src cs, next_chunk := next_chunk t3 + int (length cs)\<rparr>"
    "source_session t4 src = Some sid \<Longrightarrow> t5 = t4\<lparr>vocabulary := fold (add_word sid) (vocabTermCounts lx t4 src) (vocabulary t4)\<rparr>"
    "tabs d' = t5\<lparr>vocabulary := filter (\<lambda>v. \<not> (vo_session v = sid \<and> vo_freq v \<le> 0)) (vocabulary t5)\<rparr>"
    "length ws \<le> distinctiveTermsCap"
    "set ws \<subseteq> {w. \<exists>v\<in>set (vocabulary (tabs d')). vo_session v = sid \<and> vo_word v = w}"
proof -
  obtain src c' d1 d2 d3 d4 d5 d6 d7 where
    u: "Upsert ns sid source d = (Inr (src, c'), d1)" and de: "DecrementForSource lx src d1 = (Inr (), d2)"
    and dl: "DeleteForSource src d2 = (Inr (), d3)" and ci: "Chunks_Insert src cs d3 = (Inr (), d4)"
    and inc: "IncrementForSource lx src d4 = (Inr (), d5)" and pr: "PruneZeros sid d5 = (Inr (), d6)"
    and top: "TopByIDF sid distinctiveTermsCap d6 = (Inr ws, d7)" and e: "c' = c" "d7 = d'"
    using assms unfolding ingest_tx_def
    by (elim andthen_cases) (auto simp: ret_def elim!: andthen_cases)
  note t = TopByIDF_ok [OF top]
  note v1 = vocab_statements_ok(1) [OF de] and v2 = vocab_statements_ok(2) [OF inc] and v3 = vocab_statements_ok(3) [OF pr]
  note c1 = chunk_statements_ok(1) [OF dl] and c2 = chunk_statements_ok(2) [OF ci]
  show thesis
    by (rule that [OF u [unfolded e] v1 c1 c2 v2]) (use t v3 e in simp_all)
qed

section \<open>A committed ingest\<close>

lemma source_session_iff:
  assumes "tables_ok t"
  shows "source_session t src = Some sid \<longleftrightarrow> (\<exists>l. (src, sid, l) \<in> (\<lambda>s. (so_id s, so_session s, so_label s)) ` set (sources t))"
proof -
  have d: "distinct (map so_id (sources t))" using assms by (simp add: tables_ok_def sources_ok_def)
  show ?thesis
  proof (cases "find (\<lambda>s. so_id s = src) (sources t)")
    case None
    then have "src \<notin> so_id ` set (sources t)" by (auto simp: find_None_iff)
    then show ?thesis using None by (auto simp: source_session_def)
  next
    case (Some s)
    then have s: "s \<in> set (sources t)" "so_id s = src" by (auto dest: find_SomeD)
    have r: "r = s" if "r \<in> set (sources t)" "so_id r = src" for r
      using d that s unfolding distinct_map by (blast dest: inj_onD)
    have "(\<exists>l. (src, sid, l) \<in> (\<lambda>s. (so_id s, so_session s, so_label s)) ` set (sources t)) \<longleftrightarrow> so_session s = sid"
      using r s by blast
    then show ?thesis by (simp add: source_session_def Some)
  qed
qed

lemma distinct_source_session:
  assumes "tables_ok t" "s \<in> set (sources t)"
  shows "source_session t (so_id s) = Some (so_session s)"
  unfolding source_session_iff [OF assms(1)] using assms(2) by blast

lemma source_chunks_keys:
  assumes "tables_ok t"
  shows "source_chunks t sid l = map (\<lambda>c. \<lparr>dcTitle = ch_title c, dcContent = ch_content c, dcSource = l\<rparr>)
    (filter (\<lambda>c. (ch_source c, sid, l) \<in> (\<lambda>s. (so_id s, so_session s, so_label s)) ` set (sources t)) (chunks t))"
proof -
  have p: "(\<exists>s\<in>set (sources t). so_id s = ch_source c \<and> so_session s = sid \<and> so_label s = l)
      \<longleftrightarrow> (ch_source c, sid, l) \<in> (\<lambda>s. (so_id s, so_session s, so_label s)) ` set (sources t)" for c by force
  have "sorted (map ch_id (chunks t))" using assms
    by (simp add: tables_ok_def chunks_ok_def strict_sorted_imp_sorted)
  then have "sorted (map ch_id (filter P (chunks t)))" for P by (rule sorted_filter)
  then show ?thesis unfolding source_chunks_def p by (simp add: sort_key_id_if_sorted)
qed

definition doc_of :: "string \<Rightarrow> db_chunk \<Rightarrow> doc_chunk" where
  "doc_of label c = \<lparr>dcTitle = Title c, dcContent = Content c, dcSource = label\<rparr>"

lemma chunk_rows_docs:
  "map (\<lambda>c. \<lparr>dcTitle = ch_title c, dcContent = ch_content c, dcSource = l\<rparr>) (chunk_rows i src cs) = map (doc_of l) cs"
  by (induction cs arbitrary: i) (simp_all add: doc_of_def)

lemma filter_new_rows:
  "(\<And>r. ch_source r = src \<Longrightarrow> P r = b) \<Longrightarrow> filter P (chunk_rows i src cs) = (if b then chunk_rows i src cs else [])"
  by (induction cs arbitrary: i) auto

text \<open>The committed change as one function of the tables after the upsert.\<close>

definition reindexed :: "lexer \<Rightarrow> int \<Rightarrow> int \<Rightarrow> db_chunk list \<Rightarrow> tables \<Rightarrow> tables" where
  "reindexed lx src sid cs t =
     (let t2 = t\<lparr>vocabulary := decremented lx t src\<rparr>;
          t3 = t2\<lparr>chunks := filter (\<lambda>c. ch_source c \<noteq> src) (chunks t2)\<rparr>;
          t4 = t3\<lparr>chunks := chunks t3 @ chunk_rows (next_chunk t3) src cs, next_chunk := next_chunk t3 + int (length cs)\<rparr>;
          t5 = t4\<lparr>vocabulary := fold (add_word sid) (vocabTermCounts lx t4 src) (vocabulary t4)\<rparr>
      in t5\<lparr>vocabulary := filter (\<lambda>v. \<not> (vo_session v = sid \<and> vo_freq v \<le> 0)) (vocabulary t5)\<rparr>)"

lemma ingest_tx_reindexes:
  assumes "ingest_tx lx ns sid source cs d = (Inr (c, ws), d')" "tables_ok (tabs d)"
  obtains src d1 where "Upsert ns sid source d = (Inr (src, c), d1)" "source_session (tabs d1) src = Some sid"
    "tabs d' = reindexed lx src sid cs (tabs d1)" "length ws \<le> distinctiveTermsCap"
    "set ws \<subseteq> {w. \<exists>v\<in>set (vocabulary (tabs d')). vo_session v = sid \<and> vo_word v = w}"
  using assms(1)
proof (rule ingest_tx_run)
  fix src d1 t2 t3 t4 t5
  assume u: "Upsert ns sid source d = (Inr (src, c), d1)"
    and t: "t2 = (tabs d1)\<lparr>vocabulary := decremented lx (tabs d1) src\<rparr>"
    "t3 = t2\<lparr>chunks := filter (\<lambda>c. ch_source c \<noteq> src) (chunks t2)\<rparr>"
    "t4 = t3\<lparr>chunks := chunks t3 @ chunk_rows (next_chunk t3) src cs, next_chunk := next_chunk t3 + int (length cs)\<rparr>"
    and t5: "source_session t4 src = Some sid \<Longrightarrow> t5 = t4\<lparr>vocabulary := fold (add_word sid) (vocabTermCounts lx t4 src) (vocabulary t4)\<rparr>"
    and e: "tabs d' = t5\<lparr>vocabulary := filter (\<lambda>v. \<not> (vo_session v = sid \<and> vo_freq v \<le> 0)) (vocabulary t5)\<rparr>"
    and w: "length ws \<le> distinctiveTermsCap" "set ws \<subseteq> {w. \<exists>v\<in>set (vocabulary (tabs d')). vo_session v = sid \<and> vo_word v = w}"
  have s: "source_session (tabs d1) src = Some sid"
    unfolding source_session_iff [OF Upsert_ok(2) [OF u assms(2)]] Upsert_ok(6) [OF u assms(2)] by blast
  have "source_session t4 src = source_session (tabs d1) src" by (simp add: t source_session_def)
  then have "tabs d' = reindexed lx src sid cs (tabs d1)" using t5 e s by (simp add: reindexed_def Let_def t)
  then show thesis using that u s w by blast
qed

lemma reindexed_fields:
  "chunks (reindexed lx src sid cs t) = filter (\<lambda>c. ch_source c \<noteq> src) (chunks t) @ chunk_rows (next_chunk t) src cs"
  "sources (reindexed lx src sid cs t) = sources t" "sessions (reindexed lx src sid cs t) = sessions t"
  "session_labels (reindexed lx src sid cs t) = session_labels t" "clients (reindexed lx src sid cs t) = clients t"
  "session_events (reindexed lx src sid cs t) = session_events t" "correlations (reindexed lx src sid cs t) = correlations t"
  by (simp_all add: reindexed_def Let_def)

lemma new_rows_source: "r \<in> set (chunk_rows i src cs) \<Longrightarrow> ch_source r = src"
  using chunk_rows_props(2) [of i src cs] by blast

lemma filter_map_fixed:
  assumes "\<And>v. P (f v) = P v" "\<And>v. P v \<Longrightarrow> f v = v"
  shows "filter P (map f vs) = filter P vs"
  by (induction vs) (auto simp: assms)

lemma foreign_words:
  "filter (\<lambda>v. vo_session v \<noteq> sid) (fold (add_word sid) es vs) = filter (\<lambda>v. vo_session v \<noteq> sid) vs"
proof (induction es arbitrary: vs)
  case (Cons e es)
  have "filter (\<lambda>v. vo_session v \<noteq> sid) (map (\<lambda>v. if vo_session v = sid \<and> vo_word v = fst e
      then v\<lparr>vo_freq := vo_freq v + snd e\<rparr> else v) vs) = filter (\<lambda>v. vo_session v \<noteq> sid) vs"
    by (rule filter_map_fixed) auto
  then have "filter (\<lambda>v. vo_session v \<noteq> sid) (add_word sid e vs) = filter (\<lambda>v. vo_session v \<noteq> sid) vs"
    by (simp add: add_word_def case_prod_unfold del: filter_map)
  then show ?case using Cons by simp
qed simp

lemma foreign_decremented:
  assumes "source_session t src = Some sid"
  shows "filter (\<lambda>v. vo_session v \<noteq> sid) (decremented lx t src) = filter (\<lambda>v. vo_session v \<noteq> sid) (vocabulary t)"
  unfolding decremented_def by (rule filter_map_fixed) (auto simp: assms split: option.split)

lemma reindexed_foreign:
  assumes "source_session t src = Some sid"
  shows "filter (\<lambda>v. vo_session v \<noteq> sid) (vocabulary (reindexed lx src sid cs t)) = filter (\<lambda>v. vo_session v \<noteq> sid) (vocabulary t)"
proof -
  have "filter (\<lambda>v. vo_session v \<noteq> sid) (filter (\<lambda>v. \<not> (vo_session v = sid \<and> vo_freq v \<le> 0)) vs)
      = filter (\<lambda>v. vo_session v \<noteq> sid) vs" for vs :: "vocab_row list" by (induction vs) auto
  then show ?thesis using foreign_words foreign_decremented [OF assms]
    by (simp add: reindexed_def Let_def del: filter_filter)
qed

lemma session_split:
  assumes "source_session t src = Some sid"
  shows "with_word lx w (session_chunks t s) = with_word lx w (filter (\<lambda>c. ch_source c \<noteq> src) (session_chunks t s))
    + (if s = sid then with_word lx w (src_chunks t src) else 0)"
proof -
  have "filter (\<lambda>c. \<not> ch_source c \<noteq> src) (session_chunks t s) = (if s = sid then src_chunks t src else [])"
    unfolding session_chunks_def src_chunks_def using assms by (induction "chunks t") (auto intro: filter_cong simp: filter_empty_conv)
  then show ?thesis using with_word_split [of lx w "session_chunks t s" "\<lambda>c. ch_source c \<noteq> src"] by simp
qed

lemma reindexed_exact:
  assumes lx: "lexer_distinct lx" and ok: "tables_ok t" and ex: "vocab_exact lx t" and src: "source_session t src = Some sid"
  shows "vocab_exact lx (reindexed lx src sid cs t)"
proof -
  let ?r = "reindexed lx src sid cs t" and ?rows = "chunk_rows (next_chunk t) src cs"
  let ?old = "\<lambda>s. filter (\<lambda>c. ch_source c \<noteq> src) (session_chunks t s)"
  have ex: "freq_of (vocabulary t) s w = with_word lx w (session_chunks t s)" "\<forall>v\<in>set (vocabulary t). 0 < vo_freq v" for s w
    using ex by (simp_all add: vocab_exact_def)
  note sp = session_split [OF src, of lx]
  have dec: "freq_of (decremented lx t src) s w = with_word lx w (?old s)" for s w
    using freq_decremented [OF lx, of t s w src] ex(1) sp [of w s] src with_word_pos [of lx w "?old s"]
      with_word_pos [of lx w "src_chunks t src"] by (simp split: if_splits)
  define t4 where "t4 = t\<lparr>vocabulary := decremented lx t src, chunks := filter (\<lambda>c. ch_source c \<noteq> src) (chunks t) @ ?rows,
      next_chunk := next_chunk t + int (length cs)\<rparr>"
  define v5 where "v5 = fold (add_word sid) (vocabTermCounts lx t4 src) (decremented lx t src)"
  have r: "?r = t4\<lparr>vocabulary := filter (\<lambda>v. \<not> (vo_session v = sid \<and> vo_freq v \<le> 0)) v5\<rparr>"
    by (simp add: reindexed_def Let_def t4_def v5_def)
  have rows: "filter (\<lambda>c. ch_source c = src) ?rows = ?rows" by (simp add: filter_new_rows [where b = True])
  have "src_chunks t4 src = ?rows" using rows by (simp add: src_chunks_def t4_def)
  then have f5: "freq_of v5 s w = with_word lx w (?old s) + (if s = sid then with_word lx w ?rows else 0)" for s w
    unfolding v5_def by (simp add: freq_fold_words dec term_counts(1) [OF lx])
  have sess: "session_chunks ?r s = ?old s @ (if s = sid then ?rows else [])" for s
  proof -
    have e: "source_session ?r = source_session t" by (simp add: source_session_def reindexed_fields fun_eq_iff)
    have "filter (\<lambda>c. source_session t (ch_source c) = Some s) ?rows = (if s = sid then ?rows else [])"
      using src by (intro filter_new_rows) auto
    then show ?thesis unfolding session_chunks_def e reindexed_fields by (auto intro: filter_cong)
  qed
  have d5: "distinct (map (\<lambda>v. (vo_session v, vo_word v)) v5)"
  proof -
    have dv: "distinct (map (\<lambda>v. (vo_session v, vo_word v)) (vocabulary t))" using ok by (simp add: tables_ok_def vocab_ok_def)
    have "distinct (map (\<lambda>v. (vo_session v, vo_word v)) (decremented lx t src))"
      unfolding decremented_def by (subst same_keys(1)) (auto simp: dv split: option.split)
    then show ?thesis unfolding v5_def using fold_add_word [of "decremented lx t src" UNIV sid] by simp
  qed
  have pos: "0 \<le> freq_of v5 s w" for s w by (simp add: f5 with_word_pos)
  have "freq_of (vocabulary ?r) s w = with_word lx w (session_chunks ?r s)" for s w
  proof -
    have "freq_of (vocabulary ?r) s w = freq_of v5 s w" using freq_pruned [OF d5 pos, of sid s w] by (simp add: r)
    then show ?thesis unfolding sess f5 by simp
  qed
  moreover have "0 < vo_freq v" if v: "v \<in> set (vocabulary ?r)" for v
  proof (cases "vo_session v = sid")
    case True
    then show ?thesis using v by (simp add: r)
  next
    case False
    then have "v \<in> set (filter (\<lambda>v. vo_session v \<noteq> sid) (vocabulary ?r))" using v by simp
    then show ?thesis using ex(2) unfolding reindexed_foreign [OF src] by simp
  qed
  ultimately show ?thesis by (simp add: vocab_exact_def)
qed

section \<open>The documents and the invariant after an ingest\<close>

lemma source_key_unique:
  fixes A :: "source_row set"
  assumes "(i, s, l) \<in> (\<lambda>s. (so_id s, so_session s, so_label s)) ` A"
    "(i', s', l') \<in> (\<lambda>s. (so_id s, so_session s, so_label s)) ` A"
  shows "inj_on (\<lambda>s. (so_session s, so_label s)) A \<Longrightarrow> s = s' \<Longrightarrow> l = l' \<Longrightarrow> i = i'"
    "inj_on so_id A \<Longrightarrow> i = i' \<Longrightarrow> s = s' \<and> l = l'"
proof -
  obtain x y where x: "x \<in> A" "so_id x = i" "so_session x = s" "so_label x = l"
    and y: "y \<in> A" "so_id y = i'" "so_session y = s'" "so_label y = l'"
    using assms by (auto elim!: imageE)
  show "i = i'" if "inj_on (\<lambda>s. (so_session s, so_label s)) A" "s = s'" "l = l'"
    using inj_onD [OF that(1) _ x(1) y(1)] x y that by simp
  show "s = s' \<and> l = l'" if "inj_on so_id A" "i = i'"
    using inj_onD [OF that(1) _ x(1) y(1)] x y that by simp
qed

lemma reindexed_docs:
  assumes ok: "tables_ok (tabs d)" and u: "Upsert ns sid source d = (Inr (src, c), d1)"
    and ok': "tables_ok (reindexed lx src sid cs (tabs d1))"
  shows "source_chunks (reindexed lx src sid cs (tabs d1)) s l
    = (if s = sid \<and> l = source then map (doc_of source) cs else source_chunks (tabs d) s l)"
proof -
  let ?k = "\<lambda>s. (so_id s, so_session s, so_label s)" and ?r = "reindexed lx src sid cs (tabs d1)"
  let ?K = "?k ` set (sources (tabs d))"
  note U = Upsert_ok [OF u ok]
  have keys: "?k ` set (sources ?r) = insert (src, sid, source) ?K" using U(6) by (simp add: reindexed_fields)
  have ids: "inj_on so_id (set (sources ?r))" and labels: "inj_on (\<lambda>s. (so_session s, so_label s)) (set (sources ?r))"
    using ok' by (simp_all add: tables_ok_def sources_ok_def distinct_map)
  have here: "(src, sid, source) \<in> ?k ` set (sources ?r)" using keys by blast
  have one: "(i, sid, source) \<in> ?k ` set (sources ?r) \<longleftrightarrow> i = src" for i
    using source_key_unique(1) [OF _ here labels] here by blast
  have other: "(src, s, l) \<notin> ?k ` set (sources ?r)" if n: "\<not> (s = sid \<and> l = source)"
    using source_key_unique(2) [OF _ here ids] n by blast
  have ch: "chunks ?r = filter (\<lambda>c. ch_source c \<noteq> src) (chunks (tabs d)) @ chunk_rows (next_chunk (tabs d1)) src cs"
    using U(4) by (simp add: reindexed_fields)
  show ?thesis
  proof (cases "s = sid \<and> l = source")
    case True
    then have "filter (\<lambda>c. (ch_source c, s, l) \<in> ?k ` set (sources ?r)) (chunks ?r) = chunk_rows (next_chunk (tabs d1)) src cs"
      unfolding ch using one by (simp add: filter_new_rows [where b = True] filter_empty_conv)
    then show ?thesis unfolding source_chunks_keys [OF ok'] using True by (simp add: chunk_rows_docs)
  next
    case False
    have "filter (\<lambda>c. (ch_source c, s, l) \<in> ?k ` set (sources ?r)) (chunk_rows (next_chunk (tabs d1)) src cs) = []"
      using other [OF False] by (simp add: filter_new_rows [where b = False])
    moreover have "filter (\<lambda>c. ch_source c \<noteq> src \<and> (ch_source c, s, l) \<in> ?k ` set (sources ?r)) (chunks (tabs d))
        = filter (\<lambda>c. (ch_source c, s, l) \<in> ?K) (chunks (tabs d))"
      using other [OF False] keys False by (intro filter_cong) auto
    ultimately show ?thesis unfolding source_chunks_keys [OF ok'] source_chunks_keys [OF ok] ch if_not_P [OF False] by simp
  qed
qed

definition db_ok :: "lexer \<Rightarrow> tables \<Rightarrow> bool" where
  "db_ok lx t \<longleftrightarrow> tables_ok t \<and> vocab_exact lx t"

text \<open>An operation that leaves vocabulary, chunks and sources alone keeps the vocabulary exact.\<close>

definition index_of :: "tables \<Rightarrow> vocab_row list \<times> chunk_row list \<times> source_row list" where
  "index_of t = (vocabulary t, chunks t, sources t)"

lemma same_index_exact: "index_of t' = index_of t \<Longrightarrow> vocab_exact lx t' = vocab_exact lx t"
proof -
  assume i: "index_of t' = index_of t"
  then have "source_session t' = source_session t" by (simp add: index_of_def source_session_def fun_eq_iff)
  then have "session_chunks t' = session_chunks t" using i by (simp add: session_chunks_def index_of_def fun_eq_iff)
  then show ?thesis using i by (simp add: vocab_exact_def index_of_def)
qed

lemma keeps_db_ok:
  assumes "keeps tables_ok m" "\<And>i. keeps (\<lambda>t. index_of t = i) m"
  shows "keeps (db_ok lx) m"
  unfolding keeps_def
proof (intro allI impI)
  fix d :: db assume d: "db_ok lx (tabs d)"
  have i: "index_of (tabs (snd (m d))) = index_of (tabs d)"
    using assms(2) [of "index_of (tabs d)", unfolded keeps_def, rule_format, OF refl] .
  have "tables_ok (tabs (snd (m d)))" using assms(1) [unfolded keeps_def, rule_format, of d] d by (simp add: db_ok_def)
  then show "db_ok lx (tabs (snd (m d)))" using d by (simp add: db_ok_def same_index_exact [OF i])
qed

lemma index_frame:
  "index_of (t\<lparr>clients := a\<rparr>) = index_of t" "index_of (t\<lparr>sessions := b\<rparr>) = index_of t"
  "index_of (t\<lparr>session_labels := c\<rparr>) = index_of t" "index_of (t\<lparr>session_events := e\<rparr>) = index_of t"
  "index_of (t\<lparr>correlations := f\<rparr>) = index_of t" "index_of (t\<lparr>next_session := n\<rparr>) = index_of t"
  "index_of (t\<lparr>next_event := n\<rparr>) = index_of t" "index_of (update_client ns name g t) = index_of t"
  by (simp_all add: index_of_def update_client_def)

lemma frames_keep [keeps_intros]:
  "keeps (\<lambda>t. index_of t = i) (Clients_Register ns name)"
  "keeps (\<lambda>t. index_of t = i) (RegisterWithCredential ns name h)"
  "keeps (\<lambda>t. index_of t = i) (RotateCredential ns name h)"
  "keeps (\<lambda>t. index_of t = i) (BumpActivity ns name ts)"
  "keeps (\<lambda>t. index_of t = i) (Sessions_Insert sess)"
  "keeps (\<lambda>t. index_of t = i) (InsertLabels sid labels)"
  "keeps (\<lambda>t. index_of t = i) (Touch ns h ts)"
  "keeps (\<lambda>t. index_of t = i) (Events_Write sha ns sid es)"
  "keeps (\<lambda>t. index_of t = i) (Correlations_Insert ns sid cid ty meta)"
  "keeps (\<lambda>t. index_of t = i) (UpdateOutcome ns sid cid out)"
  unfolding Clients_Register_def RegisterWithCredential_def RotateCredential_def BumpActivity_def Sessions_Insert_def
    InsertLabels_def Touch_def Events_Write_def Correlations_Insert_def UpdateOutcome_def guard_def Let_def
  by (auto intro!: keeps_stmt keeps_fail keeps_ret simp: index_frame split: option.split)

lemma keeps_attempt [keeps_intros]: "keeps P m \<Longrightarrow> keeps P (attempt m)"
  by (simp add: keeps_def attempt_def)

lemma upsert_session_chunks:
  assumes u: "Upsert ns sid source d = (Inr (src, c), d')" and ok: "tables_ok (tabs d)"
  shows "session_chunks (tabs d') = session_chunks (tabs d)"
proof
  fix s
  let ?k = "\<lambda>s. (so_id s, so_session s, so_label s)"
  note U = Upsert_ok [OF u ok]
  have "(source_session (tabs d') (ch_source r) = Some s) = (source_session (tabs d) (ch_source r) = Some s)"
    if r: "r \<in> set (chunks (tabs d))" for r
  proof (cases c)
    case True
    have "ch_source r \<in> source_ids (tabs d)" using ok r by (auto simp: tables_ok_def chunks_ok_def)
    then have "ch_source r \<noteq> src" using U(7) True by blast
    then show ?thesis unfolding source_session_iff [OF ok] source_session_iff [OF U(2)] U(6) by auto
  next
    case False
    then obtain x where x: "x \<in> set (sources (tabs d))" "so_session x = sid" "so_label x = source" using U(3) by auto
    have "(src, sid, source) \<in> ?k ` set (sources (tabs d'))" "?k x \<in> ?k ` set (sources (tabs d'))"
      using U(6) x(1) by auto
    moreover have "inj_on (\<lambda>s. (so_session s, so_label s)) (set (sources (tabs d')))"
      using U(2) by (simp add: tables_ok_def sources_ok_def distinct_map)
    ultimately have "so_id x = src" using x by (auto dest: inj_onD)
    then have "?k ` set (sources (tabs d')) = ?k ` set (sources (tabs d))" using U(6) x by auto
    then show ?thesis unfolding source_session_iff [OF ok] source_session_iff [OF U(2)] by simp
  qed
  then show "session_chunks (tabs d') s = session_chunks (tabs d) s"
    unfolding session_chunks_def U(4) by (rule filter_cong [OF refl])
qed

lemma ingest_tx_keeps:
  assumes lx: "lexer_distinct lx"
  shows "keeps (db_ok lx) (WithTx (ingest_tx lx ns sid source cs))"
  unfolding keeps_def
proof (intro allI impI)
  fix d :: db assume ok: "db_ok lx (tabs d)"
  obtain r d' where w: "WithTx (ingest_tx lx ns sid source cs) d = (r, d')" by fastforce
  have "keeps tables_ok (WithTx (ingest_tx lx ns sid source cs))"
    unfolding ingest_tx_def by (intro keeps_intros keeps_andthen) (auto intro!: keeps_intros split: prod.split)
  then have t: "tables_ok (tabs d')" using ok w by (auto simp: keeps_def db_ok_def)
  show "db_ok lx (tabs (snd (WithTx (ingest_tx lx ns sid source cs) d)))"
  proof (cases r)
    case (Inl e)
    then show ?thesis using w ok WithTx_atomic by fastforce
  next
    case (Inr x)
    obtain c ws where x: "x = (c, ws)" by fastforce
    from w [unfolded Inr x] show ?thesis
    proof (rule WithTx_ok)
      fix d1 d2
      assume d1: "tabs d1 = tabs d" and run: "ingest_tx lx ns sid source cs d1 = (Inr (c, ws), d2)" and d2: "tabs d' = tabs d2"
      have ok1: "tables_ok (tabs d1)" "vocab_exact lx (tabs d1)" using ok d1 by (simp_all add: db_ok_def)
      show ?thesis using run ok1(1)
      proof (rule ingest_tx_reindexes)
        fix src d3
        assume u: "Upsert ns sid source d1 = (Inr (src, c), d3)" and s: "source_session (tabs d3) src = Some sid"
          and r: "tabs d2 = reindexed lx src sid cs (tabs d3)"
        have "session_chunks (tabs d3) = session_chunks (tabs d1)"
          using upsert_session_chunks [OF u ok1(1)] .
        then have "vocab_exact lx (tabs d3)" using ok1(2) Upsert_ok(5) [OF u ok1(1)] by (simp add: vocab_exact_def)
        then have "vocab_exact lx (tabs d2)" unfolding r by (rule reindexed_exact [OF lx Upsert_ok(2) [OF u ok1(1)] _ s])
        then show ?thesis using t d2 w by (simp add: db_ok_def)
      qed
    qed
  qed
qed

lemma cascade_exact:
  assumes ok: "tables_ok t" and ex: "vocab_exact lx t"
  shows "vocab_exact lx (cascade_sessions ids t)"
proof -
  let ?t = "cascade_sessions ids t"
  have v: "vocabulary ?t = filter (\<lambda>v. vo_session v \<notin> ids) (vocabulary t)" by (simp add: cascade_sessions_def)
  have f: "freq_of (filter (\<lambda>v. vo_session v \<notin> ids) vs) s w = (if s \<in> ids then 0 else freq_of vs s w)" for vs s w
    by (induction vs) (auto simp: freq_of_def)
  have ok': "tables_ok ?t" by (rule cascade_ok [OF ok])
  have keys: "(src, s, l) \<in> (\<lambda>s. (so_id s, so_session s, so_label s)) ` set (sources ?t)
      \<longleftrightarrow> s \<notin> ids \<and> (src, s, l) \<in> (\<lambda>s. (so_id s, so_session s, so_label s)) ` set (sources t)" for src s l
    by (auto simp: cascade_sessions_def)
  have ss: "source_session ?t src = Some s \<longleftrightarrow> s \<notin> ids \<and> source_session t src = Some s" for src s
    unfolding source_session_iff [OF ok] source_session_iff [OF ok'] keys by blast
  have drop: "(\<exists>s\<in>set (sources t). so_id s = src \<and> so_session s \<in> ids) \<longleftrightarrow> (\<exists>s\<in>ids. source_session t src = Some s)" for src
  proof
    show "(\<exists>s\<in>set (sources t). so_id s = src \<and> so_session s \<in> ids) \<Longrightarrow> \<exists>s\<in>ids. source_session t src = Some s"
      using distinct_source_session [OF ok] by blast
  next
    assume "\<exists>s\<in>ids. source_session t src = Some s"
    then obtain i where i: "i \<in> ids" "source_session t src = Some i" by blast
    then obtain s where "s \<in> set (sources t)" "so_id s = src" "so_session s = i"
      by (auto simp: source_session_def dest!: find_SomeD)
    then show "\<exists>s\<in>set (sources t). so_id s = src \<and> so_session s \<in> ids" using i(1) by blast
  qed
  have "session_chunks ?t s = (if s \<in> ids then [] else session_chunks t s)" for s
  proof (cases "s \<in> ids")
    case True
    then show ?thesis by (simp add: session_chunks_def ss)
  next
    case False
    have "chunks ?t = filter (\<lambda>c. \<not> (\<exists>s\<in>ids. source_session t (ch_source c) = Some s)) (chunks t)"
      unfolding drop [symmetric] by (simp add: cascade_sessions_def)
    then show ?thesis using False by (auto simp: session_chunks_def ss intro!: filter_cong)
  qed
  then show ?thesis using ex by (auto simp: vocab_exact_def v f)
qed

lemma deletes_keep [keeps_intros]:
  "keeps (db_ok lx) (DeleteByIDRow sid)" "keeps (db_ok lx) (DeleteRows sids)" "keeps (db_ok lx) (Clients_DeleteRow ns name)"
proof -
  have c: "db_ok lx (cascade_sessions ids t)" if "db_ok lx t" for ids t
    using that by (simp add: db_ok_def cascade_ok cascade_exact)
  show "keeps (db_ok lx) (DeleteByIDRow sid)" "keeps (db_ok lx) (DeleteRows sids)"
    by (auto simp: DeleteByIDRow_def DeleteRows_def intro!: keeps_stmt keeps_ret c)
  show "keeps (db_ok lx) (Clients_DeleteRow ns name)"
    unfolding keeps_def
  proof (intro allI impI)
    fix d :: db assume d: "db_ok lx (tabs d)"
    obtain r d' where r: "Clients_DeleteRow ns name d = (r, d')" by fastforce
    have t: "tables_ok (tabs d')"
      using Clients_DeleteRow_keeps [of ns name, unfolded keeps_def, rule_format, of d] d r by (simp add: db_ok_def)
    have "vocab_exact lx (tabs d')"
      using r d c [of "tabs d"] unfolding Clients_DeleteRow_def Let_def
      by (elim stmt_cases) (auto simp: same_index_exact [OF index_frame(1)] db_ok_def)
    then show "db_ok lx (tabs (snd (Clients_DeleteRow ns name d)))" using t r by (simp add: db_ok_def)
  qed
qed

lemmas simple_keeps [keeps_intros] =
  keeps_db_ok [OF Clients_Register_keeps frames_keep(1)] keeps_db_ok [OF RegisterWithCredential_keeps frames_keep(2)]
  keeps_db_ok [OF RotateCredential_keeps frames_keep(3)] keeps_db_ok [OF BumpActivity_keeps frames_keep(4)]
  keeps_db_ok [OF Sessions_Insert_keeps frames_keep(5)] keeps_db_ok [OF InsertLabels_keeps frames_keep(6)]
  keeps_db_ok [OF Touch_keeps frames_keep(7)] keeps_db_ok [OF Events_Write_keeps frames_keep(8)]
  keeps_db_ok [OF Correlations_Insert_keeps frames_keep(9)] keeps_db_ok [OF UpdateOutcome_keeps frames_keep(10)]

section \<open>The operation\<close>

lemma ingest_chunks_keeps [keeps_intros]:
  "lexer_distinct lx \<Longrightarrow> keeps (db_ok lx) (ingest_chunks lx ns sid cid source cs fmt)"
  unfolding ingest_chunks_def Let_def ingest_captureCorrelation_def
  by (intro keeps_andthen keeps_ret ingest_tx_keeps keeps_attempt keeps_intros)

definition indexed :: "db_chunk list \<Rightarrow> db_chunk list" where
  "indexed cs = take maxChunksPerSource cs"

lemma Correlations_Insert_index:
  "index_of (tabs (snd (Correlations_Insert ns sid cid ty meta d))) = index_of (tabs d)"
  using frames_keep(9) [of "index_of (tabs d)" ns sid cid ty meta, unfolded keeps_def, rule_format, OF refl] .

lemma index_docs: "index_of t' = index_of t \<Longrightarrow> source_chunks t' s l = source_chunks t s l"
  by (simp add: index_of_def source_chunks_def)

lemma ingest_chunks_ok:
  assumes lx: "lexer_distinct lx" and ok: "db_ok lx (tabs d)"
    and run: "ingest_chunks lx ns sid cid source cs fmt d = (Inr r, d')"
  shows "session_in (tabs d) ns sid"
    "source_chunks (tabs d') s l = (if s = sid \<and> l = source then map (doc_of source) (indexed cs) else source_chunks (tabs d) s l)"
    "ir_Created r \<longleftrightarrow> (sid, source) \<notin> (\<lambda>s. (so_session s, so_label s)) ` set (sources (tabs d))"
    "ir_SectionsIndexed r = length (indexed cs) \<and> ir_SectionsTotal r = length cs"
    "ir_SummaryTruncated r \<longleftrightarrow> length (ir_Summary r) < length cs"
    "map sec_Title (ir_Summary r) = map Title (take summaryCap (indexed cs))"
    "length (ir_DistinctiveTerms r) \<le> distinctiveTermsCap"
    "set (ir_DistinctiveTerms r) \<subseteq> {w. 0 < with_word lx w (session_chunks (tabs d') sid)}"
    "filter (\<lambda>v. vo_session v \<noteq> sid) (vocabulary (tabs d')) = filter (\<lambda>v. vo_session v \<noteq> sid) (vocabulary (tabs d))"
proof -
  have ix: "(if length cs > maxChunksPerSource then take maxChunksPerSource cs else cs) = indexed cs"
    by (simp add: indexed_def)
  obtain ct d1 where w: "WithTx (ingest_tx lx ns sid source (indexed cs)) d = (Inr ct, d1)"
    and r: "r = ingest_result_of source (indexed cs) (length cs) ct"
    and d': "d' = snd (Correlations_Insert ns sid cid ''ingest'' (ingest_meta r fmt) d1)"
    using run unfolding ingest_chunks_def Let_def ix ingest_captureCorrelation_def
    by (elim andthen_cases) (auto simp: ret_def attempt_def)
  have db: "db_ok lx (tabs d1)" using keepsD [OF ingest_tx_keeps [OF lx] w] ok by simp
  have id: "index_of (tabs d') = index_of (tabs d1)" unfolding d' by (rule Correlations_Insert_index)
  obtain c ws where ct: "ct = (c, ws)" by fastforce
  obtain d2 d3 where d2: "tabs d2 = tabs d" and tx: "ingest_tx lx ns sid source (indexed cs) d2 = (Inr (c, ws), d3)"
    and d3: "tabs d1 = tabs d3" using WithTx_ok [OF w [unfolded ct]] by metis
  have okd: "tables_ok (tabs d2)" using ok d2 by (simp add: db_ok_def)
  obtain src d4 where u: "Upsert ns sid source d2 = (Inr (src, c), d4)"
    and ss: "source_session (tabs d4) src = Some sid" and rx: "tabs d3 = reindexed lx src sid (indexed cs) (tabs d4)"
    and ws: "length ws \<le> distinctiveTermsCap" "set ws \<subseteq> {w. \<exists>v\<in>set (vocabulary (tabs d3)). vo_session v = sid \<and> vo_word v = w}"
    using ingest_tx_reindexes [OF tx okd] by metis
  note U = Upsert_ok [OF u okd]
  show "session_in (tabs d) ns sid" using U(1) d2 by simp
  show "source_chunks (tabs d') s l = (if s = sid \<and> l = source then map (doc_of source) (indexed cs) else source_chunks (tabs d) s l)"
    unfolding index_docs [OF id] d3 rx using reindexed_docs [OF okd u] db d2 by (simp add: db_ok_def d3 rx)
  show "ir_Created r \<longleftrightarrow> (sid, source) \<notin> (\<lambda>s. (so_session s, so_label s)) ` set (sources (tabs d))"
    using U(3) d2 by (simp add: r ct ingest_result_of_def Let_def)
  show "ir_SectionsIndexed r = length (indexed cs) \<and> ir_SectionsTotal r = length cs"
    by (simp add: r ingest_result_of_def Let_def)
  show "ir_SummaryTruncated r \<longleftrightarrow> length (ir_Summary r) < length cs"
    by (simp add: r ingest_result_of_def Let_def min_def indexed_def)
  show "map sec_Title (ir_Summary r) = map Title (take summaryCap (indexed cs))"
    by (simp add: r ingest_result_of_def Let_def comp_def min_def)
  show "length (ir_DistinctiveTerms r) \<le> distinctiveTermsCap" using ws by (simp add: r ct ingest_result_of_def Let_def)
  have "vocabulary (tabs d') = vocabulary (tabs d3)" using id d3 by (simp add: index_of_def)
  moreover have "filter (\<lambda>v. vo_session v \<noteq> sid) (vocabulary (tabs d3)) = filter (\<lambda>v. vo_session v \<noteq> sid) (vocabulary (tabs d))"
    unfolding rx using reindexed_foreign [OF ss] U(5) d2 by simp
  ultimately show "filter (\<lambda>v. vo_session v \<noteq> sid) (vocabulary (tabs d')) = filter (\<lambda>v. vo_session v \<noteq> sid) (vocabulary (tabs d))"
    by simp
  have "0 < with_word lx w (session_chunks (tabs d') sid)" if w: "w \<in> set ws" for w
  proof -
    obtain v where v: "v \<in> set (vocabulary (tabs d1))" "vo_session v = sid" "vo_word v = w" using ws w d3 by auto
    have ex: "vocab_exact lx (tabs d1)" using db by (simp add: db_ok_def)
    obtain v' where f: "find (\<lambda>v. vo_session v = sid \<and> vo_word v = w) (vocabulary (tabs d1)) = Some v'"
      using v by (cases "find (\<lambda>v. vo_session v = sid \<and> vo_word v = w) (vocabulary (tabs d1))") (auto simp: find_None_iff)
    then have "v' \<in> set (vocabulary (tabs d1))" by (blast dest: find_SomeD)
    then have "0 < freq_of (vocabulary (tabs d1)) sid w" using ex f by (simp add: vocab_exact_def freq_of_def)
    then have "0 < with_word lx w (session_chunks (tabs d1) sid)" using ex by (simp add: vocab_exact_def)
    moreover have "session_chunks (tabs d') = session_chunks (tabs d1)"
      using id by (simp add: session_chunks_def source_session_def index_of_def fun_eq_iff)
    ultimately show ?thesis by simp
  qed
  then show "set (ir_DistinctiveTerms r) \<subseteq> {w. 0 < with_word lx w (session_chunks (tabs d') sid)}"
    by (auto simp: r ct ingest_result_of_def Let_def)
qed

text \<open>A failed ingest leaves the tables as they were.\<close>

lemma ingest_chunks_error:
  assumes "ingest_chunks lx ns sid cid source cs fmt d = (Inl e, d')"
  shows "tabs d' = tabs d"
  using assms unfolding ingest_chunks_def Let_def ingest_captureCorrelation_def
  by (elim andthen_cases) (auto simp: ret_def attempt_def dest: WithTx_atomic)

end
