(* ===== verification/Auth_Secrets.thy ===== *)
theory Auth_Secrets
  imports Go_Strings Prelude
begin

text \<open>
  internal/auth/secrets.go: session and client tokens, and the digest under which the store
  keeps them. The random source is an argument, the bytes it delivered or nothing when it
  failed; SHA-256 is a parameter; base64url without padding is written out.
\<close>

section \<open>Base64\<close>

definition b64_alphabet :: string where
  "b64_alphabet = ''ABCDEFGHIJKLMNOPQRSTUVWXYZabcdefghijklmnopqrstuvwxyz0123456789-_''"

definition b64_char :: "nat \<Rightarrow> char" where "b64_char n = b64_alphabet ! n"

fun RawURLEncoding :: "nat list \<Rightarrow> string" where
  "RawURLEncoding (a # b # c # rest) =
     [b64_char (a div 4), b64_char (a mod 4 * 16 + b div 16), b64_char (b mod 16 * 4 + c div 64), b64_char (c mod 64)]
     @ RawURLEncoding rest"
| "RawURLEncoding [a, b] = [b64_char (a div 4), b64_char (a mod 4 * 16 + b div 16), b64_char (b mod 16 * 4)]"
| "RawURLEncoding [a] = [b64_char (a div 4), b64_char (a mod 4 * 16)]"
| "RawURLEncoding [] = []"

definition token_bytes :: nat where "token_bytes = 32"

text \<open>\<open>None\<close> when the random source fails.\<close>

definition NewRandomToken :: "nat list option \<Rightarrow> string option" where
  "NewRandomToken rnd = map_option RawURLEncoding rnd"

definition HashToken :: "(string \<Rightarrow> string) \<Rightarrow> string \<Rightarrow> string \<Rightarrow> string" where
  "HashToken sha ns rawToken = sha (ns @ [CHR 0x00] @ rawToken)"

section \<open>The encoding\<close>

lemma alphabet_distinct: "distinct b64_alphabet" "length b64_alphabet = 64"
  by code_simp+

lemma b64_char_inj: "m < 64 \<Longrightarrow> n < 64 \<Longrightarrow> b64_char m = b64_char n \<longleftrightarrow> m = n"
  unfolding b64_char_def by (rule nth_eq_iff_index_eq) (simp_all add: alphabet_distinct)

lemma b64_char_set: "n < 64 \<Longrightarrow> b64_char n \<in> set b64_alphabet"
  unfolding b64_char_def by (rule nth_mem) (simp add: alphabet_distinct)

definition b64_value :: "char \<Rightarrow> nat" where
  "b64_value ch = length (takeWhile (\<lambda>c. c \<noteq> ch) b64_alphabet)"

lemma b64_value: "n < 64 \<Longrightarrow> b64_value (b64_char n) = n"
proof -
  assume n: "n < 64"
  have "takeWhile (\<lambda>c. c \<noteq> b64_alphabet ! n) b64_alphabet = take n b64_alphabet"
  proof (rule takeWhile_eq_take_P_nth)
    show "b64_alphabet ! i \<noteq> b64_alphabet ! n" if "i < n" "i < length b64_alphabet" for i
      using that n alphabet_distinct by (simp add: nth_eq_iff_index_eq)
  qed simp
  then show ?thesis using n by (simp add: b64_value_def b64_char_def alphabet_distinct)
qed

fun RawURLDecoding :: "string \<Rightarrow> nat list" where
  "RawURLDecoding (p # q # r # s # rest) =
     [b64_value p * 4 + b64_value q div 16, b64_value q mod 16 * 16 + b64_value r div 4, b64_value r mod 4 * 64 + b64_value s]
     @ RawURLDecoding rest"
| "RawURLDecoding [p, q, r] = [b64_value p * 4 + b64_value q div 16, b64_value q mod 16 * 16 + b64_value r div 4]"
| "RawURLDecoding [p, q] = [b64_value p * 4 + b64_value q div 16]"
| "RawURLDecoding _ = []"

lemma packed: "y < n \<Longrightarrow> (x * n + y) div n = x" "y < n \<Longrightarrow> (x * n + y) mod n = y" for x y n :: nat
  by simp_all

lemma packed_less: "x < m \<Longrightarrow> y < n \<Longrightarrow> x * n + y < m * n" for x y m n :: nat
proof -
  assume "x < m" "y < n"
  then have "x * n + y < Suc x * n" by simp
  also have "\<dots> \<le> m * n" using \<open>x < m\<close> by (intro mult_le_mono1) simp
  finally show ?thesis .
qed

lemma sextets:
  fixes a b c :: nat
  assumes "a < 256" "b < 256" "c < 256"
  shows "a div 4 < 64" "a mod 4 * 16 + b div 16 < 64" "b mod 16 * 4 + c div 64 < 64" "c mod 64 < 64"
    "a mod 4 * 16 < 64" "b mod 16 * 4 < 64"
proof -
  show "a div 4 < 64" "c mod 64 < 64" using assms by simp_all
  show "a mod 4 * 16 + b div 16 < 64" using packed_less [of "a mod 4" 4 "b div 16" 16] assms by simp
  show "b mod 16 * 4 + c div 64 < 64" using packed_less [of "b mod 16" 16 "c div 64" 4] assms by simp
  show "a mod 4 * 16 < 64" using packed_less [of "a mod 4" 4 0 16] by simp
  show "b mod 16 * 4 < 64" using packed_less [of "b mod 16" 16 0 4] by simp
qed

lemma unpack:
  fixes a b c :: nat
  assumes "b < 256" "c < 256"
  shows "a div 4 * 4 + (a mod 4 * 16 + b div 16) div 16 = a"
    "(a mod 4 * 16 + b div 16) mod 16 * 16 + (b mod 16 * 4 + c div 64) div 4 = b"
    "(b mod 16 * 4 + c div 64) mod 4 * 64 + c mod 64 = c"
    "a div 4 * 4 + a mod 4 * 16 div 16 = a"
    "(a mod 4 * 16 + b div 16) mod 16 * 16 + b mod 16 * 4 div 4 = b"
proof -
  have l: "b div 16 < 16" "c div 64 < 4" using assms by simp_all
  show "a div 4 * 4 + (a mod 4 * 16 + b div 16) div 16 = a"
    unfolding packed(1) [OF l(1)] by (rule div_mult_mod_eq)
  show "(a mod 4 * 16 + b div 16) mod 16 * 16 + (b mod 16 * 4 + c div 64) div 4 = b"
    unfolding packed(2) [OF l(1)] packed(1) [OF l(2)] by (rule div_mult_mod_eq)
  show "(b mod 16 * 4 + c div 64) mod 4 * 64 + c mod 64 = c"
    unfolding packed(2) [OF l(2)] by (rule div_mult_mod_eq)
  show "a div 4 * 4 + a mod 4 * 16 div 16 = a" by simp
  show "(a mod 4 * 16 + b div 16) mod 16 * 16 + b mod 16 * 4 div 4 = b"
    unfolding packed(2) [OF l(1)] by simp
qed

lemma RawURL_roundtrip: "\<forall>x\<in>set bs. x < 256 \<Longrightarrow> RawURLDecoding (RawURLEncoding bs) = bs"
proof (induction bs rule: RawURLEncoding.induct)
  case (1 a b c rest)
  then have l: "a < 256" "b < 256" "c < 256" by simp_all
  have ih: "RawURLDecoding (RawURLEncoding rest) = rest" using 1 by simp
  show ?case
    by (simp only: RawURLEncoding.simps append_Cons append_Nil RawURLDecoding.simps ih
      sextets [OF l, THEN b64_value] unpack [OF l(2,3)])
next
  case (2 a b)
  then have l: "a < 256" "b < 256" "b < 256" by simp_all
  show ?case
    by (simp only: RawURLEncoding.simps RawURLDecoding.simps sextets [OF l, THEN b64_value] unpack [OF l(2,3)])
next
  case (3 a)
  then have l: "a < 256" "a < 256" "a < 256" by simp_all
  show ?case
    by (simp only: RawURLEncoding.simps RawURLDecoding.simps sextets [OF l, THEN b64_value] unpack [OF l(2,3)])
qed simp

lemma RawURL_alphabet: "\<forall>x\<in>set bs. x < 256 \<Longrightarrow> set (RawURLEncoding bs) \<subseteq> set b64_alphabet"
proof (induction bs rule: RawURLEncoding.induct)
  case (1 a b c rest)
  then have l: "a < 256" "b < 256" "c < 256" by simp_all
  show ?case using 1 sextets [OF l, THEN b64_char_set] by simp
next
  case (2 a b)
  then have l: "a < 256" "b < 256" "b < 256" by simp_all
  show ?case using sextets [OF l, THEN b64_char_set] by simp
next
  case (3 a)
  then have l: "a < 256" "a < 256" "a < 256" by simp_all
  show ?case using sextets [OF l, THEN b64_char_set] by simp
qed simp

lemma RawURL_length: "length (RawURLEncoding bs) = (length bs * 4 + 2) div 3"
  by (induction bs rule: RawURLEncoding.induct) simp_all

text \<open>Different random bytes give different tokens, of 43 characters of the alphabet.\<close>

lemma NewRandomToken_ok:
  assumes "NewRandomToken (Some bs) = Some tok" "length bs = token_bytes" "\<forall>x\<in>set bs. x < 256"
  shows "length tok = 43" "set tok \<subseteq> set b64_alphabet" "RawURLDecoding tok = bs"
  using assms RawURL_length [of bs] RawURL_alphabet [of bs] RawURL_roundtrip [of bs]
  by (auto simp: NewRandomToken_def token_bytes_def)

text \<open>The namespace and the token are recovered from what is hashed.\<close>

lemma token_message_inj:
  assumes "ns @ [CHR 0x00] @ tok = ns' @ [CHR 0x00] @ tok'" "CHR 0x00 \<notin> set ns" "CHR 0x00 \<notin> set ns'"
  shows "ns = ns'" "tok = tok'"
proof -
  have t: "takeWhile (\<lambda>c. c \<noteq> CHR 0x00) (n @ [CHR 0x00] @ r) = n" if "CHR 0x00 \<notin> set n" for n r :: string
    using that by (induction n) auto
  show "ns = ns'" using arg_cong [OF assms(1), of "takeWhile (\<lambda>c. c \<noteq> CHR 0x00)"] t assms(2,3) by simp
  then show "tok = tok'" using assms(1) by simp
qed

end
