(* ===== verification/Session_Service.thy ===== *)
theory Session_Service
  imports Ingest Auth_Secrets
begin

text \<open>
  internal/session: the session service over the store, its token cache, the idempotency
  store of session creation and the expiry scanner. The LRU container is a parameter, a
  record of operations with the documented laws \<open>lru_ok\<close>. Requests run one after another;
  the single-flight group, which only merges concurrent calls, is the call itself.
\<close>

section \<open>The LRU container\<close>

record ('c, 'k, 'v) lru =
  lru_get :: "'k \<Rightarrow> 'c \<Rightarrow> 'v option \<times> 'c"
  lru_add :: "'k \<Rightarrow> 'v \<Rightarrow> 'c \<Rightarrow> 'c"
  lru_remove :: "'k \<Rightarrow> 'c \<Rightarrow> 'c"
  lru_keys :: "'c \<Rightarrow> 'k list"
  lru_purge :: "'c \<Rightarrow> 'c"

definition lru_peek :: "('c, 'k, 'v) lru \<Rightarrow> 'c \<Rightarrow> 'k \<Rightarrow> 'v option" where
  "lru_peek L c k = fst (lru_get L k c)"

text \<open>\<open>Get\<close> changes recency only, \<open>Add\<close> stores and may evict others, \<open>Remove\<close> and \<open>Purge\<close>
  delete, \<open>Keys\<close> lists what is stored.\<close>

definition lru_ok :: "('c, 'k, 'v) lru \<Rightarrow> bool" where
  "lru_ok L \<longleftrightarrow>
     (\<forall>c k. lru_peek L (snd (lru_get L k c)) = lru_peek L c)
     \<and> (\<forall>c k v k'. lru_peek L (lru_add L k v c) k' = (if k' = k then Some v else lru_peek L c k')
                 \<or> k' \<noteq> k \<and> lru_peek L (lru_add L k v c) k' = None)
     \<and> (\<forall>c k k'. lru_peek L (lru_remove L k c) k' = (if k' = k then None else lru_peek L c k'))
     \<and> (\<forall>c k. k \<in> set (lru_keys L c) \<longleftrightarrow> lru_peek L c k \<noteq> None)
     \<and> (\<forall>c k. lru_peek L (lru_purge L c) k = None)"

section \<open>The token cache (cache.go)\<close>

record session_metadata =
  md_ID :: int
  md_Client :: string
  md_TTLMinutes :: int
  md_CreatedAt :: int

type_synonym cacheKey = "string \<times> string"

datatype 'c sess_cache = NoopCache | LruCache "('c, cacheKey, session_metadata) lru" 'c

definition newCache :: "('c, cacheKey, session_metadata) lru \<Rightarrow> (int \<Rightarrow> 'c option) \<Rightarrow> int \<Rightarrow> 'c sess_cache" where
  "newCache L lru_new capacity =
     (if capacity \<le> 0 then NoopCache else case lru_new capacity of None \<Rightarrow> NoopCache | Some c \<Rightarrow> LruCache L c)"

fun cache_Lookup :: "cacheKey \<Rightarrow> 'c sess_cache \<Rightarrow> session_metadata option \<times> 'c sess_cache" where
  "cache_Lookup k NoopCache = (None, NoopCache)"
| "cache_Lookup k (LruCache L c) = (case lru_get L k c of (v, c') \<Rightarrow> (v, LruCache L c'))"

fun cache_Put :: "cacheKey \<Rightarrow> session_metadata \<Rightarrow> 'c sess_cache \<Rightarrow> 'c sess_cache" where
  "cache_Put k v NoopCache = NoopCache"
| "cache_Put k v (LruCache L c) = LruCache L (lru_add L k v c)"

fun cache_Invalidate :: "cacheKey \<Rightarrow> 'c sess_cache \<Rightarrow> 'c sess_cache" where
  "cache_Invalidate k NoopCache = NoopCache"
| "cache_Invalidate k (LruCache L c) = LruCache L (lru_remove L k c)"

fun cache_InvalidateNamespace :: "string \<Rightarrow> 'c sess_cache \<Rightarrow> 'c sess_cache" where
  "cache_InvalidateNamespace ns NoopCache = NoopCache"
| "cache_InvalidateNamespace ns (LruCache L c) =
     LruCache L (fold (\<lambda>k c. if fst k = ns then lru_remove L k c else c) (lru_keys L c) c)"

fun cache_Purge :: "'c sess_cache \<Rightarrow> 'c sess_cache" where
  "cache_Purge NoopCache = NoopCache"
| "cache_Purge (LruCache L c) = LruCache L (lru_purge L c)"

section \<open>The contract of the cache interface\<close>

text \<open>What a cache must promise its service: entries come from \<open>Put\<close> alone, and
  invalidated entries are gone. It may forget at any time.\<close>

locale session_cache =
  fixes valid :: "'c \<Rightarrow> bool"
    and lookup :: "'k \<times> 'l \<Rightarrow> 'c \<Rightarrow> 'v option \<times> 'c"
    and put :: "'k \<times> 'l \<Rightarrow> 'v \<Rightarrow> 'c \<Rightarrow> 'c"
    and invalidate :: "'k \<times> 'l \<Rightarrow> 'c \<Rightarrow> 'c"
    and invalidate_ns :: "'k \<Rightarrow> 'c \<Rightarrow> 'c"
    and purge :: "'c \<Rightarrow> 'c"
  assumes valid_ops: "valid c \<Longrightarrow> valid (snd (lookup k c)) \<and> valid (put k v c) \<and> valid (invalidate k c)
      \<and> valid (invalidate_ns n c) \<and> valid (purge c)"
    and after_lookup: "valid c \<Longrightarrow> fst (lookup k' (snd (lookup k c))) = fst (lookup k' c)"
    and after_put: "valid c \<Longrightarrow> fst (lookup k' (put k v c)) = Some w \<Longrightarrow>
      (if k' = k then w = v else fst (lookup k' c) = Some w)"
    and after_invalidate: "valid c \<Longrightarrow> fst (lookup k' (invalidate k c)) = Some w \<Longrightarrow> k' \<noteq> k \<and> fst (lookup k' c) = Some w"
    and after_invalidate_ns: "valid c \<Longrightarrow> fst (lookup k' (invalidate_ns n c)) = Some w \<Longrightarrow> fst k' \<noteq> n \<and> fst (lookup k' c) = Some w"
    and after_purge: "valid c \<Longrightarrow> fst (lookup k' (purge c)) = None"
begin

text \<open>Every entry satisfies \<open>P\<close>.\<close>

definition entries :: "('k \<times> 'l \<Rightarrow> 'v \<Rightarrow> bool) \<Rightarrow> 'c \<Rightarrow> bool" where
  "entries P c \<longleftrightarrow> valid c \<and> (\<forall>k v. fst (lookup k c) = Some v \<longrightarrow> P k v)"

lemma entries_mono: "entries P c \<Longrightarrow> (\<And>k v. P k v \<Longrightarrow> Q k v) \<Longrightarrow> entries Q c"
  by (auto simp: entries_def)

lemma entries_hit: "entries P c \<Longrightarrow> lookup k c = (Some v, c') \<Longrightarrow> P k v"
  unfolding entries_def by (metis fst_conv)

lemma entries_lookup: "entries P c \<Longrightarrow> entries P (snd (lookup k c))"
  using valid_ops after_lookup by (auto simp: entries_def)

lemma entries_put: "entries P c \<Longrightarrow> P k v \<Longrightarrow> entries P (put k v c)"
  unfolding entries_def using valid_ops after_put by (metis (full_types))

lemma entries_invalidate: "entries P c \<Longrightarrow> entries (\<lambda>k' v. k' \<noteq> k \<and> P k' v) (invalidate k c)"
  unfolding entries_def using valid_ops after_invalidate by blast

lemma entries_invalidate_ns: "entries P c \<Longrightarrow> entries (\<lambda>k' v. fst k' \<noteq> n \<and> P k' v) (invalidate_ns n c)"
  unfolding entries_def using valid_ops after_invalidate_ns by blast

lemma entries_purge: "entries P c \<Longrightarrow> entries Q (purge c)"
  unfolding entries_def using valid_ops after_purge by fastforce

end

fun cache_valid :: "'c sess_cache \<Rightarrow> bool" where
  "cache_valid NoopCache = True"
| "cache_valid (LruCache L c) = lru_ok L"

lemma lru_laws:
  assumes "lru_ok L"
  shows "lru_peek L (snd (lru_get L k c)) = lru_peek L c"
    "lru_peek L (lru_add L k v c) k' = Some w \<Longrightarrow> if k' = k then w = v else lru_peek L c k' = Some w"
    "lru_peek L (lru_add L k v c) k = Some v"
    "lru_peek L (lru_remove L k c) k' = (if k' = k then None else lru_peek L c k')"
    "k \<in> set (lru_keys L c) \<longleftrightarrow> lru_peek L c k \<noteq> None"
    "lru_peek L (lru_purge L c) k = None"
proof -
  have add: "lru_peek L (lru_add L k v c) k' = (if k' = k then Some v else lru_peek L c k')
      \<or> k' \<noteq> k \<and> lru_peek L (lru_add L k v c) k' = None" for k'
    using assms unfolding lru_ok_def by blast
  show "lru_peek L (lru_add L k v c) k' = Some w \<Longrightarrow> if k' = k then w = v else lru_peek L c k' = Some w"
    using add [of k'] by auto
  show "lru_peek L (lru_add L k v c) k = Some v" using add [of k] by simp
qed (use assms in \<open>simp_all add: lru_ok_def\<close>)

lemma lru_remove_all:
  assumes "lru_ok L"
  shows "lru_peek L (fold (\<lambda>k c. if P k then lru_remove L k c else c) ks c) k
    = (if k \<in> set ks \<and> P k then None else lru_peek L c k)"
proof (induction ks arbitrary: c)
  case (Cons x ks)
  show ?case
  proof (cases "P x")
    case True
    then show ?thesis using Cons [of "lru_remove L x c"] by (simp add: lru_laws(4) [OF assms])
  next
    case False
    then show ?thesis using Cons [of c] by auto
  qed
qed simp

lemma lookup_peek: "fst (cache_Lookup k (LruCache L c)) = lru_peek L c k"
  "snd (cache_Lookup k (LruCache L c)) = LruCache L (snd (lru_get L k c))"
  by (simp_all add: lru_peek_def split: prod.split)

interpretation token_cache: session_cache cache_valid cache_Lookup cache_Put cache_Invalidate cache_InvalidateNamespace cache_Purge
proof unfold_locales
  fix c :: "'c sess_cache" and k k' :: cacheKey and v w :: session_metadata and n :: string
  assume c: "cache_valid c"
  show "cache_valid (snd (cache_Lookup k c)) \<and> cache_valid (cache_Put k v c) \<and> cache_valid (cache_Invalidate k c)
      \<and> cache_valid (cache_InvalidateNamespace n c) \<and> cache_valid (cache_Purge c)"
    using c by (cases c) (simp_all split: prod.split)
  show "fst (cache_Lookup k' (snd (cache_Lookup k c))) = fst (cache_Lookup k' c)"
  proof (cases c)
    case (LruCache L d)
    then show ?thesis using c unfolding LruCache lookup_peek by (simp add: lru_laws(1))
  qed simp
  show "fst (cache_Lookup k' (cache_Put k v c)) = Some w \<Longrightarrow> if k' = k then w = v else fst (cache_Lookup k' c) = Some w"
  proof (cases c)
    case (LruCache L d)
    assume "fst (cache_Lookup k' (cache_Put k v c)) = Some w"
    then have p: "lru_peek L (lru_add L k v d) k' = Some w" unfolding LruCache cache_Put.simps lookup_peek .
    have L: "lru_ok L" using c LruCache by simp
    show ?thesis unfolding LruCache lookup_peek by (rule lru_laws(2) [OF L p])
  qed simp
  show "fst (cache_Lookup k' (cache_Invalidate k c)) = Some w \<Longrightarrow> k' \<noteq> k \<and> fst (cache_Lookup k' c) = Some w"
  proof (cases c)
    case (LruCache L d)
    assume "fst (cache_Lookup k' (cache_Invalidate k c)) = Some w"
    then have p: "lru_peek L (lru_remove L k d) k' = Some w" unfolding LruCache cache_Invalidate.simps lookup_peek .
    have L: "lru_ok L" using c LruCache by simp
    show ?thesis using p unfolding LruCache lookup_peek lru_laws(4) [OF L] by (simp split: if_splits)
  qed simp
  show "fst (cache_Lookup k' (cache_InvalidateNamespace n c)) = Some w \<Longrightarrow> fst k' \<noteq> n \<and> fst (cache_Lookup k' c) = Some w"
  proof (cases c)
    case (LruCache L d)
    assume s: "fst (cache_Lookup k' (cache_InvalidateNamespace n c)) = Some w"
    have L: "lru_ok L" using c LruCache by simp
    have "(if k' \<in> set (lru_keys L d) \<and> fst k' = n then None else lru_peek L d k') = Some w"
      using s unfolding LruCache cache_InvalidateNamespace.simps lookup_peek lru_remove_all [OF L] .
    then show ?thesis unfolding LruCache lookup_peek lru_laws(5) [OF L] by (auto split: if_splits)
  qed simp
  show "fst (cache_Lookup k' (cache_Purge c)) = None"
  proof (cases c)
    case (LruCache L d)
    then show ?thesis using c unfolding LruCache cache_Purge.simps lookup_peek by (simp add: lru_laws(6))
  qed simp
qed

section \<open>The idempotency store (idempotency.go)\<close>

type_synonym dedupKey = "string \<times> string \<times> string"

record dedupEntry =
  de_SessionToken :: string
  de_SessionID :: int
  de_Client :: string
  de_TTLMinutes :: int
  de_CreatedAt :: int
  de_IssuedAt :: int

record 'i idempotencyStore =
  is_ops :: "('i, dedupKey, dedupEntry) lru"
  is_c :: 'i
  is_ttl :: int

text \<open>\<open>None\<close> is the nil store, with deduplication off.\<close>

definition newIdempotencyStore ::
  "('i, dedupKey, dedupEntry) lru \<Rightarrow> (int \<Rightarrow> 'i) \<Rightarrow> int \<Rightarrow> int \<Rightarrow> 'i idempotencyStore option" where
  "newIdempotencyStore L lru_new capacity ttl =
     (if capacity \<le> 0 then None else Some \<lparr>is_ops = L, is_c = lru_new capacity, is_ttl = ttl\<rparr>)"

definition idem_Resolve ::
  "int \<Rightarrow> string \<Rightarrow> string \<Rightarrow> string \<Rightarrow> 'i idempotencyStore option \<Rightarrow> dedupEntry option \<times> 'i idempotencyStore option" where
  "idem_Resolve now ns client key st =
     (case st of
        None \<Rightarrow> (None, None)
      | Some i \<Rightarrow>
          if key = [] then (None, st)
          else (let k = (ns, client, key) in
            case lru_get (is_ops i) k (is_c i) of
              (None, c) \<Rightarrow> (None, Some (i\<lparr>is_c := c\<rparr>))
            | (Some entry, c) \<Rightarrow>
                if now - de_IssuedAt entry \<ge> is_ttl i
                then (None, Some (i\<lparr>is_c := lru_remove (is_ops i) k c\<rparr>))
                else (Some entry, Some (i\<lparr>is_c := c\<rparr>))))"

definition idem_Store ::
  "int \<Rightarrow> string \<Rightarrow> string \<Rightarrow> dedupEntry \<Rightarrow> 'i idempotencyStore option \<Rightarrow> 'i idempotencyStore option" where
  "idem_Store now ns key entry st =
     (case st of
        None \<Rightarrow> None
      | Some i \<Rightarrow>
          if key = [] then st
          else Some (i\<lparr>is_c := lru_add (is_ops i) (ns, de_Client entry, key) (entry\<lparr>de_IssuedAt := now\<rparr>) (is_c i)\<rparr>))"

section \<open>The service (service.go)\<close>

record ('c, 'i) svc =
  sv_db :: db
  sv_cache :: "'c sess_cache"
  sv_idem :: "'i idempotencyStore option"

datatype svc_error = DbError db_error | TokenError

type_synonym ('c, 'i, 'a) svm = "('c, 'i) svc \<Rightarrow> (svc_error, 'a) result \<times> ('c, 'i) svc"

definition on_db :: "'a dbm \<Rightarrow> ('c, 'i, 'a) svm" where
  "on_db m s =
     (case m (sv_db s) of
        (Inl e, d) \<Rightarrow> (Inl (DbError e), s\<lparr>sv_db := d\<rparr>)
      | (Inr x, d) \<Rightarrow> (Inr x, s\<lparr>sv_db := d\<rparr>))"

text \<open>What a create request carries, and what \<open>Create\<close> leaves in the session for the response.\<close>

record create_input =
  cr_Namespace :: string
  cr_Client :: string
  cr_TTLMinutes :: int
  cr_Labels :: "(string \<times> string) list"

record created =
  cd_SessionToken :: string
  cd_ID :: int
  cd_Client :: string
  cd_TTLMinutes :: int
  cd_CreatedAt :: int

definition created_of :: "dedupEntry \<Rightarrow> created" where
  "created_of e = \<lparr>cd_SessionToken = de_SessionToken e, cd_ID = de_SessionID e, cd_Client = de_Client e,
     cd_TTLMinutes = de_TTLMinutes e, cd_CreatedAt = de_CreatedAt e\<rparr>"

definition insert_session :: "new_session \<Rightarrow> (string \<times> string) list \<Rightarrow> session_row dbm" where
  "insert_session ns labels =
     WithTx (andthen (Sessions_Insert ns) (\<lambda>row. andthen (InsertLabels (se_id row) labels) (\<lambda>_. ret row)))"

definition metadata_of :: "session_row \<Rightarrow> session_metadata" where
  "metadata_of r = \<lparr>md_ID = se_id r, md_Client = se_client r, md_TTLMinutes = se_ttl r, md_CreatedAt = se_created r\<rparr>"

definition mint_session ::
  "(string \<Rightarrow> string) \<Rightarrow> nat list option \<Rightarrow> create_input \<Rightarrow> string \<Rightarrow> ('c, 'i, dedupEntry) svm" where
  "mint_session sha rnd req key s =
     (case NewRandomToken rnd of
        None \<Rightarrow> (Inl TokenError, s)
      | Some raw \<Rightarrow>
          (let ns = cr_Namespace req in
           case insert_session \<lparr>ns_namespace = ns, ns_hash = HashToken sha ns raw, ns_client = cr_Client req, ns_ttl = cr_TTLMinutes req\<rparr>
                  (cr_Labels req) (sv_db s) of
             (Inl e, d) \<Rightarrow> (Inl (DbError e), s\<lparr>sv_db := d\<rparr>)
           | (Inr row, d) \<Rightarrow>
               (let fresh = \<lparr>de_SessionToken = raw, de_SessionID = se_id row, de_Client = cr_Client req,
                       de_TTLMinutes = cr_TTLMinutes req, de_CreatedAt = se_created row, de_IssuedAt = 0\<rparr>
                in (Inr fresh,
                    s\<lparr>sv_db := d,
                      sv_cache := cache_Put (ns, raw) \<lparr>md_ID = se_id row, md_Client = cr_Client req,
                        md_TTLMinutes = cr_TTLMinutes req, md_CreatedAt = se_created row\<rparr> (sv_cache s),
                      sv_idem := idem_Store (app_now d) ns key fresh (sv_idem s)\<rparr>))))"

definition Session_Create ::
  "(string \<Rightarrow> string) \<Rightarrow> nat list option \<Rightarrow> create_input \<Rightarrow> string \<Rightarrow> ('c, 'i, created) svm" where
  "Session_Create sha rnd req key s =
     (if cr_Namespace req = [] then (Inl (DbError ErrNamespaceRequired), s)
      else if cr_TTLMinutes req \<le> 0 then (Inl (DbError ErrInvalidTTL), s)
      else
        (let req = (if cr_Client req = [] then req\<lparr>cr_Client := DefaultClient\<rparr> else req) in
         case idem_Resolve (app_now (sv_db s)) (cr_Namespace req) (cr_Client req) key (sv_idem s) of
           (Some cached, i) \<Rightarrow> (Inr (created_of cached), s\<lparr>sv_idem := i\<rparr>)
         | (None, i) \<Rightarrow>
             (case mint_session sha rnd req key (s\<lparr>sv_idem := i\<rparr>) of
                (Inl e, s') \<Rightarrow> (Inl e, s')
              | (Inr fresh, s') \<Rightarrow> (Inr (created_of fresh), s'))))"

definition Session_Lookup :: "(string \<Rightarrow> string) \<Rightarrow> string \<Rightarrow> string \<Rightarrow> ('c, 'i, session_metadata) svm" where
  "Session_Lookup sha ns sessionToken s =
     (let k = (ns, sessionToken) in
      case cache_Lookup k (sv_cache s) of
        (Some md, c) \<Rightarrow> (Inr md, s\<lparr>sv_cache := c\<rparr>)
      | (None, c) \<Rightarrow>
          (case on_db (Sessions_Get ns (HashToken sha ns sessionToken)) (s\<lparr>sv_cache := c\<rparr>) of
             (Inl e, s') \<Rightarrow> (Inl e, s')
           | (Inr (row, labels), s') \<Rightarrow>
               (Inr (metadata_of row), s'\<lparr>sv_cache := cache_Put k (metadata_of row) (sv_cache s')\<rparr>)))"

definition Session_Get :: "(string \<Rightarrow> string) \<Rightarrow> string \<Rightarrow> string \<Rightarrow> ('c, 'i, session_row \<times> (string \<times> string) list) svm" where
  "Session_Get sha ns sessionToken = on_db (Sessions_Get ns (HashToken sha ns sessionToken))"

definition Session_Touch :: "(string \<Rightarrow> string) \<Rightarrow> string \<Rightarrow> string \<Rightarrow> int \<Rightarrow> ('c, 'i, unit) svm" where
  "Session_Touch sha ns sessionToken lastActivity s =
     (case on_db (Touch ns (HashToken sha ns sessionToken) lastActivity) s of
        (Inl e, s') \<Rightarrow>
          (Inl e, if e = DbError ErrSessionNotFound
                  then s'\<lparr>sv_cache := cache_Invalidate (ns, sessionToken) (sv_cache s')\<rparr> else s')
      | (Inr u, s') \<Rightarrow> (Inr u, s'))"

definition deleteLockedSession :: "string \<Rightarrow> string \<Rightarrow> int \<Rightarrow> int \<Rightarrow> cascade_counts dbm" where
  "deleteLockedSession ns client sid activityAt =
     andthen (CascadeCounts sid) (\<lambda>cascade.
     andthen (BumpActivity ns client activityAt) (\<lambda>_.
     andthen (DeleteByIDRow sid) (\<lambda>_. ret cascade)))"

definition delete_by_token :: "string \<Rightarrow> string \<Rightarrow> (int \<times> cascade_counts) dbm" where
  "delete_by_token ns hash d =
     WithTx (andthen (LockByTokenHash ns hash) (\<lambda>(sid, client).
       andthen (deleteLockedSession ns client sid (app_now d)) (\<lambda>cascade. ret (sid, cascade)))) d"

definition Session_Delete :: "(string \<Rightarrow> string) \<Rightarrow> string \<Rightarrow> string \<Rightarrow> ('c, 'i, int \<times> cascade_counts) svm" where
  "Session_Delete sha ns sessionToken s =
     (case on_db (delete_by_token ns (HashToken sha ns sessionToken)) s of
        (Inl e, s') \<Rightarrow>
          (Inl e, if e = DbError ErrSessionNotFound
                  then s'\<lparr>sv_cache := cache_Invalidate (ns, sessionToken) (sv_cache s')\<rparr> else s')
      | (Inr r, s') \<Rightarrow> (Inr r, s'\<lparr>sv_cache := cache_Invalidate (ns, sessionToken) (sv_cache s')\<rparr>))"

definition delete_by_id :: "string \<Rightarrow> int \<Rightarrow> (int \<times> cascade_counts) dbm" where
  "delete_by_id ns sid =
     WithTx (andthen (LockByID ns sid) (\<lambda>(client, lastActivity).
       andthen (deleteLockedSession ns client sid lastActivity) (\<lambda>cascade. ret (sid, cascade))))"

definition Session_DeleteByID :: "string \<Rightarrow> int \<Rightarrow> ('c, 'i, int \<times> cascade_counts) svm" where
  "Session_DeleteByID ns sid s =
     (case on_db (delete_by_id ns sid) s of
        (r, s') \<Rightarrow> (r, if ns \<noteq> [] then s'\<lparr>sv_cache := cache_InvalidateNamespace ns (sv_cache s')\<rparr> else s'))"

definition Session_List :: "session_filter \<Rightarrow> ('c, 'i, (session_row \<times> (string \<times> string) list \<times> nat) list) svm" where
  "Session_List f = on_db (Sessions_List f)"

definition Session_Count :: "session_filter \<Rightarrow> ('c, 'i, nat) svm" where
  "Session_Count f = on_db (Sessions_Count f)"

definition no_cascade :: cascade_counts where
  "no_cascade = \<lparr>cc_sources = 0, cc_chunks = 0, cc_events = 0, cc_labels = 0\<rparr>"

definition delete_matching :: "session_filter \<Rightarrow> (nat \<times> cascade_counts) dbm" where
  "delete_matching f =
     WithTx (andthen (LockAllByFilter f) (\<lambda>ids.
       if ids = [] then ret (0, no_cascade)
       else andthen (CascadeCountsForIDs ids) (\<lambda>cascade.
            andthen (DeleteRows ids) (\<lambda>_. ret (length ids, cascade)))))"

definition Session_DeleteAll :: "session_filter \<Rightarrow> ('c, 'i, nat \<times> cascade_counts) svm" where
  "Session_DeleteAll f s =
     (case on_db (delete_matching f) s of
        (Inl e, s') \<Rightarrow> (Inl e, s')
      | (Inr r, s') \<Rightarrow>
          (Inr r, s'\<lparr>sv_cache := (if sf_namespace f \<noteq> [] then cache_InvalidateNamespace (sf_namespace f) (sv_cache s')
                                 else cache_Purge (sv_cache s'))\<rparr>))"

definition Session_ScanExpired :: "int \<Rightarrow> ('c, 'i, (int \<times> string) list) svm" where
  "Session_ScanExpired now = on_db (ScanExpired now)"

definition InvalidateNamespaceCache :: "string \<Rightarrow> ('c, 'i) svc \<Rightarrow> ('c, 'i) svc" where
  "InvalidateNamespaceCache ns s = s\<lparr>sv_cache := cache_InvalidateNamespace ns (sv_cache s)\<rparr>"

section \<open>The expiry scanner (scanner.go)\<close>

text \<open>\<open>stop sid\<close> tells that a delete of the session that fails with a storage error does so
  because its context was cancelled, which ends the scan. The result is the number of sessions deleted.\<close>

fun scan_refs :: "(int \<Rightarrow> bool) \<Rightarrow> (int \<times> string) list \<Rightarrow> nat \<Rightarrow> ('c, 'i) svc \<Rightarrow> nat \<times> ('c, 'i) svc" where
  "scan_refs stop [] deleted s = (deleted, s)"
| "scan_refs stop ((sid, ns) # refs) deleted s =
     (case Session_DeleteByID ns sid s of
        (Inl e, s') \<Rightarrow> if e = DbError ErrStorageBackend \<and> stop sid then (deleted, s') else scan_refs stop refs deleted s'
      | (Inr res, s') \<Rightarrow> scan_refs stop refs (deleted + 1) s')"

definition scanOnce :: "(int \<Rightarrow> bool) \<Rightarrow> ('c, 'i) svc \<Rightarrow> nat \<times> ('c, 'i) svc" where
  "scanOnce stop s =
     (case Session_ScanExpired (app_now (sv_db s)) s of
        (Inl e, s') \<Rightarrow> (0, s')
      | (Inr refs, s') \<Rightarrow> scan_refs stop refs 0 s')"

section \<open>The sessions as a map\<close>

text \<open>What the store promises about sessions: a map from namespace and token digest.\<close>

definition session_view :: "tables \<Rightarrow> string \<times> string \<Rightarrow> session_metadata option" where
  "session_view t k = map_option metadata_of (find_session t (fst k) (snd k))"

lemma find_unique:
  assumes "distinct (map f xs)" "find (\<lambda>x. f x = k) xs = Some r"
  shows "find (\<lambda>x. f x = k) (filter P xs) = (if P r then Some r else None)"
  using assms
proof (induction xs)
  case (Cons x xs)
  show ?case
  proof (cases "f x = k")
    case True
    have "k \<notin> f ` set xs" using Cons.prems(1) True by simp
    then have "\<forall>y\<in>set xs. f y \<noteq> k" by blast
    then have "find (\<lambda>x. f x = k) (filter P xs) = None" by (auto simp: find_None_iff)
    then show ?thesis using True Cons.prems(2) by simp
  next
    case False
    then show ?thesis using Cons by simp
  qed
qed simp

lemma find_map_same:
  assumes "\<And>x. P (f x) = P x" "\<And>x. m (f x) = m x"
  shows "map_option m (find P (map f xs)) = map_option m (find P xs)"
  by (induction xs) (simp_all add: assms)

lemma find_session_key: "find_session t ns h = find (\<lambda>s. (se_ns s, se_hash s) = (ns, h)) (sessions t)"
  by (simp add: find_session_def)

lemma view_cascade:
  assumes "tables_ok t"
  shows "session_view (cascade_sessions ids t) k
    = (case session_view t k of None \<Rightarrow> None | Some md \<Rightarrow> if md_ID md \<in> ids then None else Some md)"
proof (cases "find_session t (fst k) (snd k)")
  case None
  then have "find_session (cascade_sessions ids t) (fst k) (snd k) = None"
    by (auto simp: find_session_def find_None_iff cascade_sessions_def)
  then show ?thesis using None by (simp add: session_view_def)
next
  case (Some r)
  have "distinct (map (\<lambda>s. (se_ns s, se_hash s)) (sessions t))" using assms by (simp add: tables_ok_def sessions_ok_def)
  from find_unique [OF this Some [unfolded find_session_key], of "\<lambda>s. se_id s \<notin> ids"]
  have "find_session (cascade_sessions ids t) (fst k) (snd k) = (if se_id r \<notin> ids then Some r else None)"
    by (simp add: find_session_key cascade_sessions_def)
  then show ?thesis using Some by (simp add: session_view_def metadata_of_def)
qed

lemma view_sessions: "sessions t' = sessions t \<Longrightarrow> session_view t' = session_view t"
  by (simp add: session_view_def find_session_def fun_eq_iff)

lemma view_id:
  assumes "tables_ok t" "session_view t k = Some md" "session_view t k' = Some md'" "md_ID md = md_ID md'"
  shows "k = k'"
proof -
  obtain r r' where r: "find_session t (fst k) (snd k) = Some r" "find_session t (fst k') (snd k') = Some r'"
    "md = metadata_of r" "md' = metadata_of r'"
    using assms(2,3) by (auto simp: session_view_def)
  then have "r \<in> set (sessions t)" "r' \<in> set (sessions t)" "se_ns r = fst k \<and> se_hash r = snd k" "se_ns r' = fst k' \<and> se_hash r' = snd k'"
    by (auto simp: find_session_def dest: find_SomeD)
  moreover have "inj_on se_id (set (sessions t))" using assms(1) by (simp add: tables_ok_def sessions_ok_def distinct_map)
  moreover have "se_id r = se_id r'" using assms(4) r(3,4) by (simp add: metadata_of_def)
  ultimately have "r = r'" by (blast dest: inj_onD)
  then show ?thesis using \<open>se_ns r = _ \<and> _\<close> \<open>se_ns r' = _ \<and> _\<close> by (simp add: prod_eq_iff)
qed

lemma Touch_view: "keeps (\<lambda>t. session_view t = v) (Touch ns hash ts)"
proof -
  let ?f = "\<lambda>s. if se_ns s = ns \<and> se_hash s = hash then set_expires_at (s\<lparr>se_last := max (se_last s) ts\<rparr>) else s"
  have f: "se_ns (?f s) = se_ns s \<and> se_hash (?f s) = se_hash s \<and> metadata_of (?f s) = metadata_of s" for s
    by (simp add: set_expires_at_def metadata_of_def)
  have v: "session_view (t\<lparr>sessions := map ?f (sessions t)\<rparr>) = session_view t" for t
  proof
    fix k :: "string \<times> string"
    show "session_view (t\<lparr>sessions := map ?f (sessions t)\<rparr>) k = session_view t k"
      unfolding session_view_def find_session_def using f
      by (simp del: map_map split del: if_split) (rule find_map_same, simp_all split del: if_split)
  qed
  then show ?thesis unfolding Touch_def Let_def
  proof (intro keeps_guard keeps_stmt)
    fix d :: db assume d: "session_view (tabs d) = v"
    show "session_view (snd (if find_session (tabs d) ns hash = None then (Inl ErrSessionNotFound, tabs d)
        else (Inr (), (tabs d)\<lparr>sessions := map ?f (sessions (tabs d))\<rparr>))) = v"
      by (simp only: if_distrib [of snd] snd_conv if_distrib [of session_view] v d if_cancel)
  qed
qed

section \<open>What the operations do to the map\<close>

lemma insert_session_ok:
  assumes "insert_session ns labels d = (Inr row, d')"
  shows "session_view (tabs d') = (session_view (tabs d))((ns_namespace ns, ns_hash ns) \<mapsto> metadata_of row)"
    "ns_client ns \<noteq> [] \<Longrightarrow> se_client row = ns_client ns" "se_ttl row = ns_ttl ns"
    "session_view (tabs d) (ns_namespace ns, ns_hash ns) = None" "se_id row = next_session (tabs d)"
proof -
  obtain d1 d2 where t: "tabs d1 = tabs d" "tabs d' = tabs d2"
    and b: "andthen (Sessions_Insert ns) (\<lambda>row. andthen (InsertLabels (se_id row) labels) (\<lambda>_. ret row)) d1 = (Inr row, d2)"
    by (rule WithTx_ok [OF assms [unfolded insert_session_def]]) (rule that)
  obtain row' d3 where i: "Sessions_Insert ns d1 = (Inr row', d3)"
    and b2: "andthen (InsertLabels (se_id row') labels) (\<lambda>_. ret row') d3 = (Inr row, d2)"
    using b by (elim andthen_cases) auto
  obtain u where l: "InsertLabels (se_id row') labels d3 = (Inr u, d2)" and r: "row' = row"
    using b2 by (elim andthen_cases) (auto simp: ret_def)
  have s: "sessions (tabs d2) = sessions (tabs d3)"
    using l unfolding InsertLabels_def Let_def
    by (auto simp: ret_def elim!: stmt_cases split: if_splits)
  let ?c = "if ns_client ns = [] then DefaultClient else ns_client ns"
  let ?row = "set_expires_at \<lparr>se_id = next_session (tabs d1), se_ns = ns_namespace ns, se_hash = ns_hash ns, se_client = ?c,
    se_created = db_now d1, se_last = app_now d1, se_ttl = ns_ttl ns, se_expires = 0\<rparr>"
  have i': "row = ?row" "sessions (tabs d3) = sessions (tabs d1) @ [?row]"
    "\<not> (\<exists>s\<in>set (sessions (tabs d1)). se_ns s = ns_namespace ns \<and> se_hash s = ns_hash ns)"
    using i unfolding Sessions_Insert_def guard_Inr Let_def r by (auto elim!: stmt_cases split: if_splits)
  have rk: "se_ns row = ns_namespace ns" "se_hash row = ns_hash ns" unfolding i'(1) by (simp_all add: set_expires_at_def)
  show n: "session_view (tabs d) (ns_namespace ns, ns_hash ns) = None"
    using i'(3) t(1) by (auto simp: session_view_def find_session_def find_None_iff)
  show "session_view (tabs d') = (session_view (tabs d))((ns_namespace ns, ns_hash ns) \<mapsto> metadata_of row)"
  proof
    fix k :: "string \<times> string"
    have fa: "find P (xs @ [x]) = (case find P xs of None \<Rightarrow> if P x then Some x else None | Some y \<Rightarrow> Some y)" for P and xs :: "session_row list" and x
      by (induction xs) auto
    have "find_session (tabs d') (fst k) (snd k)
        = (case find_session (tabs d) (fst k) (snd k) of None \<Rightarrow> if k = (ns_namespace ns, ns_hash ns) then Some row else None | Some y \<Rightarrow> Some y)"
      unfolding find_session_def t(2) s i'(2) [folded i'(1)] fa t(1) rk
      by (auto simp: prod_eq_iff split: option.split)
    then show "session_view (tabs d') k = ((session_view (tabs d))((ns_namespace ns, ns_hash ns) \<mapsto> metadata_of row)) k"
      using n by (auto simp: session_view_def split: option.split)
  qed
  show "ns_client ns \<noteq> [] \<Longrightarrow> se_client row = ns_client ns" "se_ttl row = ns_ttl ns" "se_id row = next_session (tabs d)"
    unfolding i'(1) t(1) by (simp_all add: set_expires_at_def)
qed

lemma deleteLockedSession_ok:
  assumes "deleteLockedSession ns client sid tm d = (Inr c, d')"
  shows "sessions (tabs d') = filter (\<lambda>s. se_id s \<noteq> sid) (sessions (tabs d))" "c = counts_for {sid} (tabs d)"
proof -
  obtain d1 where c: "CascadeCounts sid d = (Inr c, d1)"
    and r: "andthen (BumpActivity ns client tm) (\<lambda>_. andthen (DeleteByIDRow sid) (\<lambda>_. ret c)) d1 = (Inr c, d')"
    using assms unfolding deleteLockedSession_def by (elim andthen_cases) (auto simp: ret_def)
  obtain u d2 where b: "BumpActivity ns client tm d1 = (Inr u, d2)" and r2: "andthen (DeleteByIDRow sid) (\<lambda>_. ret c) d2 = (Inr c, d')"
    using r by (elim andthen_cases) auto
  obtain v where d: "DeleteByIDRow sid d2 = (Inr v, d')" using r2 by (elim andthen_cases) (auto simp: ret_def)
  have 1: "tabs d1 = tabs d \<and> c = counts_for {sid} (tabs d)" using c unfolding CascadeCounts_def by (auto elim!: query_cases)
  have 2: "sessions (tabs d2) = sessions (tabs d1)" using b unfolding BumpActivity_def by (auto simp: update_client_def elim!: stmt_cases)
  have 3: "sessions (tabs d') = filter (\<lambda>s. se_id s \<noteq> sid) (sessions (tabs d2))"
    using d unfolding DeleteByIDRow_def by (auto simp: cascade_sessions_def elim!: stmt_cases)
  show "sessions (tabs d') = filter (\<lambda>s. se_id s \<noteq> sid) (sessions (tabs d))" "c = counts_for {sid} (tabs d)"
    using 1 2 3 by simp_all
qed

lemma view_filter:
  assumes "tables_ok t" "sessions t' = filter (\<lambda>s. se_id s \<notin> ids) (sessions t)"
  shows "session_view t' k = (case session_view t k of None \<Rightarrow> None | Some md \<Rightarrow> if md_ID md \<in> ids then None else Some md)"
proof -
  have "session_view t' = session_view (cascade_sessions ids t)"
    by (rule view_sessions) (simp add: assms(2) cascade_sessions_def)
  then show ?thesis using view_cascade [OF assms(1)] by simp
qed

lemma delete_by_token_ok:
  assumes ok: "tables_ok (tabs d)" and run: "delete_by_token ns hash d = (Inr (sid, c), d')"
  shows "\<exists>md. session_view (tabs d) (ns, hash) = Some md \<and> md_ID md = sid"
    "session_view (tabs d') = (session_view (tabs d))((ns, hash) := None)" "c = counts_for {sid} (tabs d)"
    "sessions (tabs d') = filter (\<lambda>s. se_id s \<noteq> sid) (sessions (tabs d))"
proof -
  obtain d1 d2 where t: "tabs d1 = tabs d" "tabs d' = tabs d2"
    and b: "andthen (LockByTokenHash ns hash) (\<lambda>(sid, client).
       andthen (deleteLockedSession ns client sid (app_now d)) (\<lambda>cascade. ret (sid, cascade))) d1 = (Inr (sid, c), d2)"
    by (rule WithTx_ok [OF run [unfolded delete_by_token_def]]) (rule that)
  obtain sid' client d3 where l: "LockByTokenHash ns hash d1 = (Inr (sid', client), d3)"
    and b2: "andthen (deleteLockedSession ns client sid' (app_now d)) (\<lambda>cascade. ret (sid', cascade)) d3 = (Inr (sid, c), d2)"
    using b by (elim andthen_cases) auto
  have del: "deleteLockedSession ns client sid (app_now d) d3 = (Inr c, d2)" and sid: "sid' = sid"
    using b2 by (elim andthen_cases; auto simp: ret_def)+
  obtain r where r: "find_session (tabs d) ns hash = Some r" "se_id r = sid" and t3: "tabs d3 = tabs d"
    using l unfolding LockByTokenHash_def guard_Inr sid by (elim conjE query_cases) (auto simp: t split: option.splits)
  note D = deleteLockedSession_ok [OF del, unfolded t3]
  show c: "c = counts_for {sid} (tabs d)" by (rule D(2))
  show v: "\<exists>md. session_view (tabs d) (ns, hash) = Some md \<and> md_ID md = sid"
    using r by (simp add: session_view_def metadata_of_def)
  show "sessions (tabs d') = filter (\<lambda>s. se_id s \<noteq> sid) (sessions (tabs d))" using D(1) t(2) by simp
  then have f: "sessions (tabs d') = filter (\<lambda>s. se_id s \<notin> {sid}) (sessions (tabs d))" by simp
  show "session_view (tabs d') = (session_view (tabs d))((ns, hash) := None)"
  proof
    fix k :: "string \<times> string"
    show "session_view (tabs d') k = ((session_view (tabs d))((ns, hash) := None)) k"
    proof (cases "session_view (tabs d) k")
      case None
      then show ?thesis using view_filter [OF ok f] by simp
    next
      case (Some md)
      obtain md' where md': "session_view (tabs d) (ns, hash) = Some md'" "md_ID md' = sid" using v by blast
      have "md_ID md = sid \<longleftrightarrow> k = (ns, hash)"
      proof
        show "md_ID md = sid \<Longrightarrow> k = (ns, hash)" using view_id [OF ok Some md'(1)] md'(2) by simp
        show "k = (ns, hash) \<Longrightarrow> md_ID md = sid" using Some md' by simp
      qed
      then show ?thesis using view_filter [OF ok f, of k] Some by simp
    qed
  qed
qed

text \<open>Sessions are removed from one namespace only.\<close>

definition removed_from :: "string \<Rightarrow> tables \<Rightarrow> tables \<Rightarrow> bool" where
  "removed_from ns t t' \<longleftrightarrow> session_view t' \<subseteq>\<^sub>m session_view t \<and> (\<forall>k. fst k \<noteq> ns \<longrightarrow> session_view t' k = session_view t k)"

lemma removed_ids:
  assumes ok: "tables_ok t" and f: "sessions t' = filter (\<lambda>s. se_id s \<notin> ids) (sessions t)"
    and ids: "\<And>s. s \<in> set (sessions t) \<Longrightarrow> se_id s \<in> ids \<Longrightarrow> se_ns s = ns"
  shows "removed_from ns t t'"
  unfolding removed_from_def
proof (intro conjI allI impI)
  show "session_view t' \<subseteq>\<^sub>m session_view t"
    unfolding map_le_def by (auto simp: view_filter [OF ok f] split: option.splits if_splits)
  fix k :: "string \<times> string" assume k: "fst k \<noteq> ns"
  show "session_view t' k = session_view t k"
  proof (cases "session_view t k")
    case (Some md)
    then obtain r where r: "find_session t (fst k) (snd k) = Some r" "md = metadata_of r" by (auto simp: session_view_def)
    then have "r \<in> set (sessions t)" "se_ns r = fst k" by (auto simp: find_session_def dest: find_SomeD)
    then have "se_id r \<notin> ids" using ids k by fastforce
    then show ?thesis using Some r(2) by (simp add: view_filter [OF ok f] metadata_of_def)
  qed (simp add: view_filter [OF ok f])
qed

lemma delete_by_id_ok:
  assumes ok: "tables_ok (tabs d)" and run: "delete_by_id ns sid d = (Inr (sid', c), d')"
  shows "sid' = sid" "c = counts_for {sid} (tabs d)" "sessions (tabs d') = filter (\<lambda>s. se_id s \<noteq> sid) (sessions (tabs d))"
    "session_in (tabs d) ns sid" "removed_from ns (tabs d) (tabs d')"
proof -
  obtain d1 d2 where t: "tabs d1 = tabs d" "tabs d' = tabs d2"
    and b: "andthen (LockByID ns sid) (\<lambda>(client, lastActivity).
       andthen (deleteLockedSession ns client sid lastActivity) (\<lambda>cascade. ret (sid, cascade))) d1 = (Inr (sid', c), d2)"
    by (rule WithTx_ok [OF run [unfolded delete_by_id_def]]) (rule that)
  obtain client la d3 where l: "LockByID ns sid d1 = (Inr (client, la), d3)"
    and b2: "andthen (deleteLockedSession ns client sid la) (\<lambda>cascade. ret (sid, cascade)) d3 = (Inr (sid', c), d2)"
    using b by (elim andthen_cases) auto
  have del: "deleteLockedSession ns client sid la d3 = (Inr c, d2)" and sid: "sid' = sid"
    using b2 by (elim andthen_cases; auto simp: ret_def)+
  obtain r where r: "r \<in> set (sessions (tabs d))" "se_id r = sid" "se_ns r = ns" and t3: "tabs d3 = tabs d"
    using l unfolding LockByID_def guard_Inr by (elim conjE query_cases) (auto simp: t split: option.splits dest!: find_SomeD)
  note D = deleteLockedSession_ok [OF del, unfolded t3]
  show "sid' = sid" by (rule sid)
  show "c = counts_for {sid} (tabs d)" by (rule D(2))
  show f: "sessions (tabs d') = filter (\<lambda>s. se_id s \<noteq> sid) (sessions (tabs d))" using D(1) t(2) by simp
  show "session_in (tabs d) ns sid" using r by (auto simp: session_in_def)
  have inj: "inj_on se_id (set (sessions (tabs d)))" using ok by (simp add: tables_ok_def sessions_ok_def distinct_map)
  show "removed_from ns (tabs d) (tabs d')"
  proof (rule removed_ids [OF ok, of _ "{sid}"])
    show "sessions (tabs d') = filter (\<lambda>s. se_id s \<notin> {sid}) (sessions (tabs d))" using f by simp
    fix s assume "s \<in> set (sessions (tabs d))" "se_id s \<in> {sid}"
    then have "s = r" using inj r by (auto dest: inj_onD)
    then show "se_ns s = ns" using r(3) by simp
  qed
qed

lemma delete_matching_ok:
  assumes ok: "tables_ok (tabs d)" and run: "delete_matching f d = (Inr (n, c), d')"
  shows "sessions (tabs d') = filter (\<lambda>s. \<not> session_matches (tabs d) f s) (sessions (tabs d))"
    "n = length (filter (session_matches (tabs d) f) (sessions (tabs d)))"
    "removed_from (sf_namespace f) (tabs d) (tabs d')" "sf_namespace f \<noteq> []"
proof -
  let ?ids = "\<lambda>t. sort (map se_id (filter (session_matches t f) (sessions t)))"
  obtain d1 d2 where t: "tabs d1 = tabs d" "tabs d' = tabs d2"
    and b: "andthen (LockAllByFilter f) (\<lambda>ids. if ids = [] then ret (0, no_cascade)
       else andthen (CascadeCountsForIDs ids) (\<lambda>cascade. andthen (DeleteRows ids) (\<lambda>_. ret (length ids, cascade)))) d1 = (Inr (n, c), d2)"
    by (rule WithTx_ok [OF run [unfolded delete_matching_def]]) (rule that)
  obtain ids d3 where l: "LockAllByFilter f d1 = (Inr ids, d3)"
    and b2: "(if ids = [] then ret (0, no_cascade)
       else andthen (CascadeCountsForIDs ids) (\<lambda>cascade. andthen (DeleteRows ids) (\<lambda>_. ret (length ids, cascade)))) d3 = (Inr (n, c), d2)"
    using b by (elim andthen_cases) auto
  have ids: "ids = ?ids (tabs d)" "tabs d3 = tabs d" and ns: "sf_namespace f \<noteq> []"
    using l unfolding LockAllByFilter_def guard_Inr by (elim conjE query_cases; simp add: t)+
  show "sf_namespace f \<noteq> []" by (rule ns)
  have r: "sessions (tabs d2) = filter (\<lambda>s. se_id s \<notin> set ids) (sessions (tabs d)) \<and> n = length ids"
  proof (cases "ids = []")
    case True
    then show ?thesis using b2 ids(2) by (simp add: ret_def)
  next
    case False
    then obtain c1 d4 where c: "CascadeCountsForIDs ids d3 = (Inr c1, d4)"
      and b3: "andthen (DeleteRows ids) (\<lambda>_. ret (length ids, c1)) d4 = (Inr (n, c), d2)"
      using b2 by (simp only: if_False) (elim andthen_cases, auto)
    obtain u where r: "DeleteRows ids d4 = (Inr u, d2)" "n = length ids" using b3 by (elim andthen_cases) (auto simp: ret_def)
    have "tabs d4 = tabs d3" using c unfolding CascadeCountsForIDs_def by (auto elim!: query_cases)
    then show ?thesis using r False ids(2) unfolding DeleteRows_def by (auto simp: cascade_sessions_def elim!: stmt_cases)
  qed
  have inj: "inj_on se_id (set (sessions (tabs d)))" using ok by (simp add: tables_ok_def sessions_ok_def distinct_map)
  have m: "se_id s \<in> set ids \<longleftrightarrow> session_matches (tabs d) f s" if "s \<in> set (sessions (tabs d))" for s
    unfolding ids(1) using that inj by (auto dest: inj_onD)
  show "sessions (tabs d') = filter (\<lambda>s. \<not> session_matches (tabs d) f s) (sessions (tabs d))"
    unfolding t(2) using r m by (auto intro: filter_cong)
  show "n = length (filter (session_matches (tabs d) f) (sessions (tabs d)))" using r ids(1) by simp
  show "removed_from (sf_namespace f) (tabs d) (tabs d')"
  proof (rule removed_ids [OF ok])
    show "sessions (tabs d') = filter (\<lambda>s. se_id s \<notin> set ids) (sessions (tabs d))" using r t(2) by simp
    show "se_ns s = sf_namespace f" if "s \<in> set (sessions (tabs d))" "se_id s \<in> set ids" for s
      using m that by (simp add: session_matches_def)
  qed
qed

section \<open>The invariant of the service\<close>

text \<open>Every cached entry is what the store says of that token; \<open>A\<close> holds the tokens in play.\<close>

definition cached :: "(string \<Rightarrow> string) \<Rightarrow> string set \<Rightarrow> (string \<times> string \<Rightarrow> session_metadata option) \<Rightarrow> cacheKey \<Rightarrow> session_metadata \<Rightarrow> bool" where
  "cached sha A v k md \<longleftrightarrow> snd k \<in> A \<and> v (fst k, HashToken sha (fst k) (snd k)) = Some md"

definition svc_ok :: "(string \<Rightarrow> string) \<Rightarrow> string set \<Rightarrow> lexer \<Rightarrow> ('c, 'i) svc \<Rightarrow> bool" where
  "svc_ok sha A lx s \<longleftrightarrow> db_ok lx (tabs (sv_db s)) \<and> token_cache.entries (cached sha A (session_view (tabs (sv_db s)))) (sv_cache s)"

text \<open>No two of the tokens in play collide under the digest.\<close>

definition collision_free :: "(string \<Rightarrow> string) \<Rightarrow> string set \<Rightarrow> bool" where
  "collision_free sha A \<longleftrightarrow> (\<forall>ns. inj_on (HashToken sha ns) A)"

lemma svc_ok_intro:
  assumes "db_ok lx (tabs (sv_db s))" "token_cache.entries P (sv_cache s)"
    "\<And>k md. P k md \<Longrightarrow> cached sha A (session_view (tabs (sv_db s))) k md"
  shows "svc_ok sha A lx s"
  unfolding svc_ok_def using assms(1) token_cache.entries_mono [OF assms(2), of "cached sha A (session_view (tabs (sv_db s)))"] assms(3) by blast

lemma session_ops_keep [keeps_intros]:
  "keeps (db_ok lx) (insert_session ns labels)" "keeps (db_ok lx) (deleteLockedSession n c sid tm)"
  "keeps (db_ok lx) (delete_by_token n h)" "keeps (db_ok lx) (delete_by_id n sid)" "keeps (db_ok lx) (delete_matching f)"
proof -
  show l: "keeps (db_ok lx) (deleteLockedSession n c sid tm)" for n c sid tm
    unfolding deleteLockedSession_def by (intro keeps_intros)
  show "keeps (db_ok lx) (insert_session ns labels)" "keeps (db_ok lx) (delete_by_id n sid)" "keeps (db_ok lx) (delete_matching f)"
    unfolding insert_session_def delete_by_id_def delete_matching_def case_prod_unfold
    by (auto intro!: keeps_intros l)
  have "keeps (db_ok lx) (WithTx (andthen (LockByTokenHash n h) (\<lambda>(sid, client).
       andthen (deleteLockedSession n client sid tm) (\<lambda>cascade. ret (sid, cascade)))))" for tm
    unfolding case_prod_unfold by (intro keeps_intros l)
  then show "keeps (db_ok lx) (delete_by_token n h)"
    unfolding keeps_def delete_by_token_def by blast
qed

lemma on_db_run:
  assumes "on_db m s = (r, s')"
  obtains (err) e d where "m (sv_db s) = (Inl e, d)" "r = Inl (DbError e)" "s' = s\<lparr>sv_db := d\<rparr>"
  | (ok) x d where "m (sv_db s) = (Inr x, d)" "r = Inr x" "s' = s\<lparr>sv_db := d\<rparr>"
  using assms by (cases "m (sv_db s)"; cases "fst (m (sv_db s))") (auto simp: on_db_def)

text \<open>A request that leaves the sessions of the store alone.\<close>

lemma svc_ok_same_view:
  assumes "svc_ok sha A lx s" "on_db m s = (r, s')" "keeps (db_ok lx) m" "\<And>v. keeps (\<lambda>t. session_view t = v) m"
  shows "svc_ok sha A lx s'"
proof -
  obtain q d where m: "m (sv_db s) = (q, d)" "s' = s\<lparr>sv_db := d\<rparr>" using assms(2) by (cases rule: on_db_run) auto
  have "db_ok lx (tabs d)" using keepsD [OF assms(3) m(1)] assms(1) by (simp add: svc_ok_def)
  moreover have "session_view (tabs d) = session_view (tabs (sv_db s))" using keepsD [OF assms(4) m(1)] by blast
  ultimately show ?thesis using assms(1) by (simp add: svc_ok_def m(2))
qed

lemma Session_Touch_keeps:
  assumes "svc_ok sha A lx s" "Session_Touch sha ns tok ts s = (r, s')"
  shows "svc_ok sha A lx s'"
proof -
  obtain q s1 where m: "on_db (Touch ns (HashToken sha ns tok) ts) s = (q, s1)" by fastforce
  have s1: "svc_ok sha A lx s1" by (rule svc_ok_same_view [OF assms(1) m]) (intro keeps_intros Touch_view)+
  have "s' = s1 \<or> s' = s1\<lparr>sv_cache := cache_Invalidate (ns, tok) (sv_cache s1)\<rparr>"
    using assms(2) m by (auto simp: Session_Touch_def split: sum.splits if_splits)
  moreover have "svc_ok sha A lx (s1\<lparr>sv_cache := cache_Invalidate (ns, tok) (sv_cache s1)\<rparr>)"
    by (rule svc_ok_intro [where P = "\<lambda>k md. k \<noteq> (ns, tok) \<and> cached sha A (session_view (tabs (sv_db s1))) k md"])
      (use s1 token_cache.entries_invalidate in \<open>auto simp: svc_ok_def\<close>)
  ultimately show ?thesis using s1 by auto
qed

lemma Sessions_Get_ok:
  assumes "Sessions_Get ns h d = (r, d')"
  shows "tabs d' = tabs d" "r = Inr (row, ls) \<Longrightarrow> session_view (tabs d) (ns, h) = Some (metadata_of row)"
    "r = Inl ErrSessionNotFound \<Longrightarrow> session_view (tabs d) (ns, h) = None"
proof -
  show "tabs d' = tabs d" using assms unfolding Sessions_Get_def guard_def fail_def by (auto elim!: query_cases split: if_splits)
  show "r = Inr (row, ls) \<Longrightarrow> session_view (tabs d) (ns, h) = Some (metadata_of row)"
    using assms unfolding Sessions_Get_def guard_def fail_def
    by (auto simp: session_view_def elim!: query_cases split: if_splits option.splits)
  show "r = Inl ErrSessionNotFound \<Longrightarrow> session_view (tabs d) (ns, h) = None"
    using assms unfolding Sessions_Get_def guard_def fail_def
    by (auto simp: session_view_def elim!: query_cases split: if_splits option.splits)
qed

lemma Session_Lookup_ok:
  assumes ok: "svc_ok sha A lx s" and tok: "tok \<in> A" and run: "Session_Lookup sha ns tok s = (r, s')"
  shows "svc_ok sha A lx s'" "tabs (sv_db s') = tabs (sv_db s)"
    "r = Inr md \<Longrightarrow> session_view (tabs (sv_db s)) (ns, HashToken sha ns tok) = Some md"
    "r = Inl (DbError ErrSessionNotFound) \<Longrightarrow> session_view (tabs (sv_db s)) (ns, HashToken sha ns tok) = None"
proof -
  let ?v = "session_view (tabs (sv_db s))"
  obtain hit c where l: "cache_Lookup (ns, tok) (sv_cache s) = (hit, c)" by fastforce
  have e: "token_cache.entries (cached sha A ?v) (sv_cache s)" and db: "db_ok lx (tabs (sv_db s))" using ok by (auto simp: svc_ok_def)
  have ec: "token_cache.entries (cached sha A ?v) c" using token_cache.entries_lookup [OF e, of "(ns, tok)"] l by simp
  have "svc_ok sha A lx s' \<and> tabs (sv_db s') = tabs (sv_db s) \<and> (\<forall>md. r = Inr md \<longrightarrow> ?v (ns, HashToken sha ns tok) = Some md)
      \<and> (r = Inl (DbError ErrSessionNotFound) \<longrightarrow> ?v (ns, HashToken sha ns tok) = None)"
  proof (cases hit)
    case (Some md)
    then have "r = Inr md" "s' = s\<lparr>sv_cache := c\<rparr>" using run l by (auto simp: Session_Lookup_def)
    moreover have "cached sha A ?v (ns, tok) md" using token_cache.entries_hit [OF e] l Some by blast
    ultimately show ?thesis using db ec by (simp add: svc_ok_def cached_def)
  next
    case None
    let ?g = "Sessions_Get ns (HashToken sha ns tok)"
    obtain q d where g: "?g (sv_db s) = (q, d)" by fastforce
    have t: "tabs d = tabs (sv_db s)" by (rule Sessions_Get_ok(1) [OF g])
    show ?thesis
    proof (cases q)
      case (Inl err)
      then have "r = Inl (DbError err)" "s' = s\<lparr>sv_cache := c, sv_db := d\<rparr>"
        using run l None g by (auto simp: Session_Lookup_def on_db_def)
      then show ?thesis using db ec t Sessions_Get_ok(3) [OF g] Inl by (simp add: svc_ok_def)
    next
      case (Inr rl)
      obtain row ls where rl: "rl = (row, ls)" by fastforce
      have r: "r = Inr (metadata_of row)" "s' = s\<lparr>sv_cache := cache_Put (ns, tok) (metadata_of row) c, sv_db := d\<rparr>"
        using run l None g Inr rl by (auto simp: Session_Lookup_def on_db_def)
      have v: "?v (ns, HashToken sha ns tok) = Some (metadata_of row)" using Sessions_Get_ok(2) [OF g] Inr rl by simp
      have "token_cache.entries (cached sha A ?v) (cache_Put (ns, tok) (metadata_of row) c)"
        by (rule token_cache.entries_put [OF ec]) (simp add: cached_def tok v)
      then show ?thesis using db t r v by (simp add: svc_ok_def)
    qed
  qed
  then show "svc_ok sha A lx s'" "tabs (sv_db s') = tabs (sv_db s)"
    "r = Inr md \<Longrightarrow> ?v (ns, HashToken sha ns tok) = Some md"
    "r = Inl (DbError ErrSessionNotFound) \<Longrightarrow> ?v (ns, HashToken sha ns tok) = None" by simp_all
qed

lemma mint_session_ok:
  assumes ok: "svc_ok sha A lx s" and raw: "\<And>raw. NewRandomToken rnd = Some raw \<Longrightarrow> raw \<in> A" and c: "cr_Client req \<noteq> []"
    and run: "mint_session sha rnd req key s = (r, s')"
  shows "svc_ok sha A lx s'" "r = Inl e \<Longrightarrow> tabs (sv_db s') = tabs (sv_db s) \<and> sv_idem s' = sv_idem s"
    "r = Inr fresh \<Longrightarrow> session_view (tabs (sv_db s'))
       = (session_view (tabs (sv_db s)))((cr_Namespace req, HashToken sha (cr_Namespace req) (de_SessionToken fresh))
           \<mapsto> \<lparr>md_ID = de_SessionID fresh, md_Client = cr_Client req, md_TTLMinutes = cr_TTLMinutes req, md_CreatedAt = de_CreatedAt fresh\<rparr>)
       \<and> session_view (tabs (sv_db s)) (cr_Namespace req, HashToken sha (cr_Namespace req) (de_SessionToken fresh)) = None
       \<and> NewRandomToken rnd = Some (de_SessionToken fresh) \<and> de_Client fresh = cr_Client req \<and> de_TTLMinutes fresh = cr_TTLMinutes req
       \<and> sv_idem s' = idem_Store (app_now (sv_db s')) (cr_Namespace req) key fresh (sv_idem s)"
proof -
  let ?v = "session_view (tabs (sv_db s))" and ?ns = "cr_Namespace req"
  have ok': "db_ok lx (tabs (sv_db s))" "token_cache.entries (cached sha A ?v) (sv_cache s)" using ok by (auto simp: svc_ok_def)
  let ?goal = "svc_ok sha A lx s' \<and> (\<forall>e. r = Inl e \<longrightarrow> tabs (sv_db s') = tabs (sv_db s) \<and> sv_idem s' = sv_idem s)
     \<and> (\<forall>fresh. r = Inr fresh \<longrightarrow> session_view (tabs (sv_db s'))
       = ?v((?ns, HashToken sha ?ns (de_SessionToken fresh))
           \<mapsto> \<lparr>md_ID = de_SessionID fresh, md_Client = cr_Client req, md_TTLMinutes = cr_TTLMinutes req, md_CreatedAt = de_CreatedAt fresh\<rparr>)
       \<and> ?v (?ns, HashToken sha ?ns (de_SessionToken fresh)) = None
       \<and> NewRandomToken rnd = Some (de_SessionToken fresh) \<and> de_Client fresh = cr_Client req \<and> de_TTLMinutes fresh = cr_TTLMinutes req
       \<and> sv_idem s' = idem_Store (app_now (sv_db s')) ?ns key fresh (sv_idem s))"
  have ?goal
  proof (cases "NewRandomToken rnd")
    case None
    then show ?thesis using run ok by (auto simp: mint_session_def)
  next
    case (Some tok)
    let ?new = "\<lparr>ns_namespace = ?ns, ns_hash = HashToken sha ?ns tok, ns_client = cr_Client req, ns_ttl = cr_TTLMinutes req\<rparr>"
    obtain q d where i: "insert_session ?new (cr_Labels req) (sv_db s) = (q, d)" by fastforce
    show ?thesis
    proof (cases q)
      case (Inl err)
      have r: "r = Inl (DbError err)" "s' = s\<lparr>sv_db := d\<rparr>" using run Some i Inl by (simp_all add: mint_session_def Let_def)
      have "tabs d = tabs (sv_db s)" using i Inl unfolding insert_session_def by (simp add: WithTx_atomic)
      then show ?thesis using ok r by (simp add: svc_ok_def)
    next
      case (Inr row)
      let ?fresh = "\<lparr>de_SessionToken = tok, de_SessionID = se_id row, de_Client = cr_Client req,
                       de_TTLMinutes = cr_TTLMinutes req, de_CreatedAt = se_created row, de_IssuedAt = 0\<rparr>"
      let ?md = "\<lparr>md_ID = se_id row, md_Client = cr_Client req, md_TTLMinutes = cr_TTLMinutes req, md_CreatedAt = se_created row\<rparr>"
      have r: "r = Inr ?fresh" "s' = s\<lparr>sv_db := d, sv_cache := cache_Put (?ns, tok) ?md (sv_cache s),
          sv_idem := idem_Store (app_now d) ?ns key ?fresh (sv_idem s)\<rparr>"
        using run Some i Inr by (simp_all add: mint_session_def Let_def)
      note I = insert_session_ok [OF i [unfolded Inr], unfolded new_session.select_convs]
      have md: "metadata_of row = ?md" using I(2,3) c by (simp add: metadata_of_def)
      have v: "session_view (tabs d) = ?v((?ns, HashToken sha ?ns tok) \<mapsto> ?md)" unfolding I(1) md ..
      have e: "token_cache.entries (cached sha A (session_view (tabs d))) (sv_cache s)"
        by (rule token_cache.entries_mono [OF ok'(2)]) (auto simp: cached_def v I(4))
      have "token_cache.entries (cached sha A (session_view (tabs d))) (cache_Put (?ns, tok) ?md (sv_cache s))"
        by (rule token_cache.entries_put [OF e]) (simp add: cached_def raw [OF Some] v)
      moreover have "db_ok lx (tabs d)" using keepsD [OF session_ops_keep(1) i] ok'(1) .
      ultimately have "svc_ok sha A lx s'" by (simp add: svc_ok_def r(2))
      then show ?thesis using v I(4) Some by (simp add: r)
    qed
  qed
  then show "svc_ok sha A lx s'" "r = Inl e \<Longrightarrow> tabs (sv_db s') = tabs (sv_db s) \<and> sv_idem s' = sv_idem s"
    "r = Inr fresh \<Longrightarrow> session_view (tabs (sv_db s'))
       = ?v((?ns, HashToken sha ?ns (de_SessionToken fresh))
           \<mapsto> \<lparr>md_ID = de_SessionID fresh, md_Client = cr_Client req, md_TTLMinutes = cr_TTLMinutes req, md_CreatedAt = de_CreatedAt fresh\<rparr>)
       \<and> ?v (?ns, HashToken sha ?ns (de_SessionToken fresh)) = None
       \<and> NewRandomToken rnd = Some (de_SessionToken fresh) \<and> de_Client fresh = cr_Client req \<and> de_TTLMinutes fresh = cr_TTLMinutes req
       \<and> sv_idem s' = idem_Store (app_now (sv_db s')) ?ns key fresh (sv_idem s)" by blast+
qed

text \<open>The request with the default client filled in.\<close>

definition defaulted :: "create_input \<Rightarrow> create_input" where
  "defaulted req = (if cr_Client req = [] then req\<lparr>cr_Client := DefaultClient\<rparr> else req)"

lemma defaulted_props: "cr_Client (defaulted req) \<noteq> []" "cr_Namespace (defaulted req) = cr_Namespace req"
  "cr_TTLMinutes (defaulted req) = cr_TTLMinutes req"
  by (simp_all add: defaulted_def DefaultClient_def)

lemma Session_Create_cases:
  assumes "Session_Create sha rnd req key s = (r, s')"
  obtains (invalid) e where "r = Inl (DbError e)" "s' = s" "cr_Namespace req = [] \<or> cr_TTLMinutes req \<le> 0"
  | (replay) entry i where "cr_Namespace req \<noteq> []" "0 < cr_TTLMinutes req"
      "idem_Resolve (app_now (sv_db s)) (cr_Namespace req) (cr_Client (defaulted req)) key (sv_idem s) = (Some entry, i)"
      "r = Inr (created_of entry)" "s' = s\<lparr>sv_idem := i\<rparr>"
  | (mint) i q where "cr_Namespace req \<noteq> []" "0 < cr_TTLMinutes req"
      "idem_Resolve (app_now (sv_db s)) (cr_Namespace req) (cr_Client (defaulted req)) key (sv_idem s) = (None, i)"
      "mint_session sha rnd (defaulted req) key (s\<lparr>sv_idem := i\<rparr>) = (q, s')" "r = map_sum id created_of q"
proof -
  note d = Session_Create_def [of sha rnd req key s, unfolded Let_def, folded defaulted_def, unfolded defaulted_props]
  show thesis
  proof (cases "cr_Namespace req = [] \<or> cr_TTLMinutes req \<le> 0")
    case True
    then show thesis using assms d by (auto intro: invalid split: if_splits)
  next
    case False
    obtain o1 i where res: "idem_Resolve (app_now (sv_db s)) (cr_Namespace req) (cr_Client (defaulted req)) key (sv_idem s) = (o1, i)"
      by fastforce
    show thesis
    proof (cases o1)
      case (Some entry)
      then show thesis using replay [of entry i] assms d False res by simp
    next
      case None
      obtain q s1 where m: "mint_session sha rnd (defaulted req) key (s\<lparr>sv_idem := i\<rparr>) = (q, s1)" by fastforce
      then have "s' = s1" "r = map_sum id created_of q" using assms d False res None by (auto split: sum.splits)
      then show thesis using mint [of i q] False res None m by simp
    qed
  qed
qed

lemma svc_ok_idem: "svc_ok sha A lx (s\<lparr>sv_idem := i\<rparr>) \<longleftrightarrow> svc_ok sha A lx s"
  by (simp add: svc_ok_def)

lemma Session_Create_keeps:
  assumes "svc_ok sha A lx s" "\<And>raw. NewRandomToken rnd = Some raw \<Longrightarrow> raw \<in> A" "Session_Create sha rnd req key s = (r, s')"
  shows "svc_ok sha A lx s'"
  using assms(3)
proof (cases rule: Session_Create_cases)
  case (mint i q)
  show ?thesis by (rule mint_session_ok(1) [OF _ assms(2) defaulted_props(1) mint(4)]) (use assms(1) in \<open>simp add: svc_ok_idem\<close>)
qed (use assms(1) in \<open>simp_all add: svc_ok_idem\<close>)

lemma Session_Delete_ok:
  assumes ok: "svc_ok sha A lx s" and A: "collision_free sha A" "tok \<in> A" and run: "Session_Delete sha ns tok s = (r, s')"
  shows "svc_ok sha A lx s'"
    "r = Inr (sid, c) \<Longrightarrow> session_view (tabs (sv_db s')) = (session_view (tabs (sv_db s)))((ns, HashToken sha ns tok) := None)
       \<and> (\<exists>md. session_view (tabs (sv_db s)) (ns, HashToken sha ns tok) = Some md \<and> md_ID md = sid) \<and> c = counts_for {sid} (tabs (sv_db s))"
    "r = Inl e \<Longrightarrow> tabs (sv_db s') = tabs (sv_db s)"
proof -
  let ?h = "HashToken sha ns tok" and ?v = "session_view (tabs (sv_db s))"
  have tok: "tables_ok (tabs (sv_db s))" using ok by (simp add: svc_ok_def db_ok_def)
  have en: "token_cache.entries (\<lambda>k md. k \<noteq> (ns, tok) \<and> cached sha A ?v k md) (cache_Invalidate (ns, tok) (sv_cache s))"
    by (rule token_cache.entries_invalidate) (use ok in \<open>simp add: svc_ok_def\<close>)
  obtain q s1 where m: "on_db (delete_by_token ns ?h) s = (q, s1)" by fastforce
  have "svc_ok sha A lx s' \<and> (\<forall>sid c. r = Inr (sid, c) \<longrightarrow> session_view (tabs (sv_db s')) = ?v((ns, ?h) := None)
       \<and> (\<exists>md. ?v (ns, ?h) = Some md \<and> md_ID md = sid) \<and> c = counts_for {sid} (tabs (sv_db s)))
       \<and> (\<forall>e. r = Inl e \<longrightarrow> tabs (sv_db s') = tabs (sv_db s))"
    using m
  proof (cases rule: on_db_run)
    case (err e d)
    have t: "tabs d = tabs (sv_db s)" using err(1) unfolding delete_by_token_def by (rule WithTx_atomic)
    have r: "r = Inl (DbError e)" "s' = s1 \<or> s' = s1\<lparr>sv_cache := cache_Invalidate (ns, tok) (sv_cache s1)\<rparr>"
      using run m err(2) by (auto simp: Session_Delete_def split: if_splits)
    have "svc_ok sha A lx s1" using ok t by (simp add: svc_ok_def err(3))
    moreover have "svc_ok sha A lx (s1\<lparr>sv_cache := cache_Invalidate (ns, tok) (sv_cache s1)\<rparr>)"
      by (rule svc_ok_intro [where P = "\<lambda>k md. k \<noteq> (ns, tok) \<and> cached sha A ?v k md"])
        (use ok en t in \<open>auto simp: svc_ok_def err(3)\<close>)
    moreover have "tabs (sv_db s') = tabs (sv_db s)" using r(2) t err(3) by auto
    ultimately show ?thesis using r by auto
  next
    case (ok x d)
    obtain sid c where x: "x = (sid, c)" by fastforce
    note D = delete_by_token_ok [OF tok ok(1) [unfolded x]]
    have r: "r = Inr (sid, c)" "s' = s\<lparr>sv_db := d, sv_cache := cache_Invalidate (ns, tok) (sv_cache s)\<rparr>"
      using run m ok x by (auto simp: Session_Delete_def)
    have "db_ok lx (tabs d)" using keepsD [OF session_ops_keep(3) ok(1)] \<open>svc_ok sha A lx s\<close> by (simp add: svc_ok_def)
    moreover have "cached sha A (session_view (tabs d)) k md" if k: "k \<noteq> (ns, tok) \<and> cached sha A ?v k md" for k md
    proof -
      have "(fst k, HashToken sha (fst k) (snd k)) \<noteq> (ns, ?h)"
        using k A unfolding collision_free_def cached_def by (metis inj_onD prod.collapse prod.inject)
      then show ?thesis using k by (simp add: cached_def D(2))
    qed
    ultimately have "svc_ok sha A lx s'" unfolding r(2)
      by (intro svc_ok_intro [where P = "\<lambda>k md. k \<noteq> (ns, tok) \<and> cached sha A ?v k md"]) (simp_all add: en)
    then show ?thesis using D by (simp add: r)
  qed
  then show "svc_ok sha A lx s'"
    "r = Inr (sid, c) \<Longrightarrow> session_view (tabs (sv_db s')) = ?v((ns, ?h) := None)
       \<and> (\<exists>md. ?v (ns, ?h) = Some md \<and> md_ID md = sid) \<and> c = counts_for {sid} (tabs (sv_db s))"
    "r = Inl e \<Longrightarrow> tabs (sv_db s') = tabs (sv_db s)" by blast+
qed

text \<open>After sessions of one namespace are gone, dropping that namespace from the cache is enough.\<close>

lemma svc_ok_drop_namespace:
  assumes ok: "svc_ok sha A lx s" and db: "db_ok lx t" and rm: "removed_from ns (tabs (sv_db s)) t" and t: "tabs d = t"
  shows "svc_ok sha A lx (s\<lparr>sv_db := d, sv_cache := cache_InvalidateNamespace ns (sv_cache s)\<rparr>)"
proof (rule svc_ok_intro)
  show "db_ok lx (tabs (sv_db (s\<lparr>sv_db := d, sv_cache := cache_InvalidateNamespace ns (sv_cache s)\<rparr>)))" using db t by simp
  show "token_cache.entries (\<lambda>k md. fst k \<noteq> ns \<and> cached sha A (session_view (tabs (sv_db s))) k md)
      (sv_cache (s\<lparr>sv_db := d, sv_cache := cache_InvalidateNamespace ns (sv_cache s)\<rparr>))"
    using token_cache.entries_invalidate_ns [of "cached sha A (session_view (tabs (sv_db s)))" "sv_cache s" ns] ok by (simp add: svc_ok_def)
  show "cached sha A (session_view (tabs (sv_db (s\<lparr>sv_db := d, sv_cache := cache_InvalidateNamespace ns (sv_cache s)\<rparr>)))) k md"
    if "fst k \<noteq> ns \<and> cached sha A (session_view (tabs (sv_db s))) k md" for k md
    using that rm t by (simp add: cached_def removed_from_def)
qed

lemma removed_refl: "removed_from ns t t" by (simp add: removed_from_def)

lemma Session_DeleteByID_ok:
  assumes ok: "svc_ok sha A lx s" and run: "Session_DeleteByID ns sid s = (r, s')"
  shows "svc_ok sha A lx s'" "r = Inl e \<Longrightarrow> tabs (sv_db s') = tabs (sv_db s)"
    "r = Inr x \<Longrightarrow> sessions (tabs (sv_db s')) = filter (\<lambda>s. se_id s \<noteq> sid) (sessions (tabs (sv_db s)))"
proof -
  have tok: "tables_ok (tabs (sv_db s))" using ok by (simp add: svc_ok_def db_ok_def)
  obtain s1 where m: "on_db (delete_by_id ns sid) s = (r, s1)"
    and s': "s' = (if ns \<noteq> [] then s1\<lparr>sv_cache := cache_InvalidateNamespace ns (sv_cache s1)\<rparr> else s1)"
    using run by (auto simp: Session_DeleteByID_def split: prod.splits)
  have "svc_ok sha A lx s' \<and> (\<forall>e. r = Inl e \<longrightarrow> tabs (sv_db s') = tabs (sv_db s))
    \<and> (\<forall>x. r = Inr x \<longrightarrow> sessions (tabs (sv_db s')) = filter (\<lambda>s. se_id s \<noteq> sid) (sessions (tabs (sv_db s))))"
    using m
  proof (cases rule: on_db_run)
    case (err e d)
    have t: "tabs d = tabs (sv_db s)" using err(1) unfolding delete_by_id_def by (rule WithTx_atomic)
    have "svc_ok sha A lx (s\<lparr>sv_db := d, sv_cache := cache_InvalidateNamespace ns (sv_cache s)\<rparr>)"
      by (rule svc_ok_drop_namespace [OF ok _ removed_refl t]) (use ok in \<open>simp add: svc_ok_def\<close>)
    moreover have "svc_ok sha A lx (s\<lparr>sv_db := d\<rparr>)" using ok t by (simp add: svc_ok_def)
    ultimately show ?thesis using t err(2) by (simp add: s' err(3))
  next
    case (ok x d)
    obtain i c where x: "x = (i, c)" by fastforce
    note D = delete_by_id_ok [OF tok ok(1) [unfolded x]]
    have "ns \<noteq> []" using D(4) tok by (auto simp: session_in_def tables_ok_def sessions_ok_def session_row_ok_def)
    moreover have "db_ok lx (tabs d)" using keepsD [OF session_ops_keep(4) ok(1)] \<open>svc_ok sha A lx s\<close> by (simp add: svc_ok_def)
    ultimately show ?thesis using svc_ok_drop_namespace [OF \<open>svc_ok sha A lx s\<close> _ D(5) refl] D(3) ok(2)
      by (simp add: s' ok(3))
  qed
  then show "svc_ok sha A lx s'" "r = Inl e \<Longrightarrow> tabs (sv_db s') = tabs (sv_db s)"
    "r = Inr x \<Longrightarrow> sessions (tabs (sv_db s')) = filter (\<lambda>s. se_id s \<noteq> sid) (sessions (tabs (sv_db s)))" by blast+
qed

lemma Session_DeleteAll_ok:
  assumes ok: "svc_ok sha A lx s" and run: "Session_DeleteAll f s = (r, s')"
  shows "svc_ok sha A lx s'" "r = Inl e \<Longrightarrow> tabs (sv_db s') = tabs (sv_db s)"
    "r = Inr (n, c) \<Longrightarrow> sessions (tabs (sv_db s')) = filter (\<lambda>x. \<not> session_matches (tabs (sv_db s)) f x) (sessions (tabs (sv_db s)))
       \<and> n = length (filter (session_matches (tabs (sv_db s)) f) (sessions (tabs (sv_db s))))"
proof -
  have tok: "tables_ok (tabs (sv_db s))" using ok by (simp add: svc_ok_def db_ok_def)
  obtain q s1 where m: "on_db (delete_matching f) s = (q, s1)" by fastforce
  have "svc_ok sha A lx s' \<and> (\<forall>e. r = Inl e \<longrightarrow> tabs (sv_db s') = tabs (sv_db s))
    \<and> (\<forall>n c. r = Inr (n, c) \<longrightarrow> sessions (tabs (sv_db s')) = filter (\<lambda>x. \<not> session_matches (tabs (sv_db s)) f x) (sessions (tabs (sv_db s)))
       \<and> n = length (filter (session_matches (tabs (sv_db s)) f) (sessions (tabs (sv_db s)))))"
    using m
  proof (cases rule: on_db_run)
    case (err e d)
    have t: "tabs d = tabs (sv_db s)" using err(1) unfolding delete_matching_def by (rule WithTx_atomic)
    have "r = Inl (DbError e)" "s' = s\<lparr>sv_db := d\<rparr>" using run m err by (auto simp: Session_DeleteAll_def)
    then show ?thesis using ok t by (simp add: svc_ok_def)
  next
    case (ok x d)
    obtain n c where x: "x = (n, c)" by fastforce
    note D = delete_matching_ok [OF tok ok(1) [unfolded x]]
    have r: "r = Inr (n, c)" "s' = s\<lparr>sv_db := d, sv_cache := cache_InvalidateNamespace (sf_namespace f) (sv_cache s)\<rparr>"
      using run m ok x D(4) by (auto simp: Session_DeleteAll_def)
    have "db_ok lx (tabs d)" using keepsD [OF session_ops_keep(5) ok(1)] \<open>svc_ok sha A lx s\<close> by (simp add: svc_ok_def)
    then show ?thesis using svc_ok_drop_namespace [OF \<open>svc_ok sha A lx s\<close> _ D(3) refl] D(1,2) by (simp add: r)
  qed
  then show "svc_ok sha A lx s'" "r = Inl e \<Longrightarrow> tabs (sv_db s') = tabs (sv_db s)"
    "r = Inr (n, c) \<Longrightarrow> sessions (tabs (sv_db s')) = filter (\<lambda>x. \<not> session_matches (tabs (sv_db s)) f x) (sessions (tabs (sv_db s)))
       \<and> n = length (filter (session_matches (tabs (sv_db s)) f) (sessions (tabs (sv_db s))))" by blast+
qed

section \<open>A lookup is the store's answer\<close>

text \<open>Without storage faults the cached lookup returns what the map of sessions holds.\<close>

lemma Session_Lookup_view:
  assumes ok: "svc_ok sha A lx s" and tok: "tok \<in> A" and f: "faults (sv_db s) = []"
    and ne: "ns \<noteq> []" "HashToken sha ns tok \<noteq> []"
  shows "fst (Session_Lookup sha ns tok s)
    = (case session_view (tabs (sv_db s)) (ns, HashToken sha ns tok) of None \<Rightarrow> Inl (DbError ErrSessionNotFound) | Some md \<Rightarrow> Inr md)"
proof -
  obtain r s' where run: "Session_Lookup sha ns tok s = (r, s')" by fastforce
  note L = Session_Lookup_ok [OF ok tok run]
  obtain hit c where l: "cache_Lookup (ns, tok) (sv_cache s) = (hit, c)" by fastforce
  have "r = Inl (DbError ErrSessionNotFound) \<or> (\<exists>md. r = Inr md)"
    using run l ne f unfolding Session_Lookup_def on_db_def Sessions_Get_def
    by (auto simp: guard_def query_run split: option.splits sum.splits prod.splits)
  then show ?thesis using L(3,4) run by auto
qed

section \<open>Idempotent creation\<close>

lemma idem_replay:
  assumes "is_ops i = L" "lru_ok L" "key \<noteq> []" "now' - now < is_ttl i"
  shows "\<exists>j. idem_Resolve now' ns (de_Client e) key (idem_Store now ns key e (Some i)) = (Some (e\<lparr>de_IssuedAt := now\<rparr>), j)"
proof -
  have "fst (lru_get L (ns, de_Client e, key) (lru_add L (ns, de_Client e, key) (e\<lparr>de_IssuedAt := now\<rparr>) (is_c i)))
      = Some (e\<lparr>de_IssuedAt := now\<rparr>)"
    using lru_laws(3) [OF assms(2)] by (simp add: lru_peek_def)
  then show ?thesis using assms(1,3,4)
    by (cases "lru_get L (ns, de_Client e, key) (lru_add L (ns, de_Client e, key) (e\<lparr>de_IssuedAt := now\<rparr>) (is_c i))")
      (auto simp: idem_Store_def idem_Resolve_def Let_def)
qed

lemma idem_Resolve_none:
  assumes "idem_Resolve now ns client key (Some i) = (None, st)"
  obtains j where "st = Some j" "is_ops j = is_ops i" "is_ttl j = is_ttl i"
  using assms that by (auto simp: idem_Resolve_def Let_def split: if_splits option.splits prod.splits)

lemma Session_Create_idempotent:
  assumes ok: "svc_ok sha A lx s" "\<And>raw. NewRandomToken rnd = Some raw \<Longrightarrow> raw \<in> A"
    and i: "sv_idem s = Some i" "lru_ok (is_ops i)" "key \<noteq> []"
    and fresh: "fst (idem_Resolve (app_now (sv_db s)) (cr_Namespace req) (cr_Client (defaulted req)) key (sv_idem s)) = None"
    and run: "Session_Create sha rnd req key s = (Inr c, s')"
    and req': "cr_Namespace req' = cr_Namespace req" "cr_Client (defaulted req') = cr_Client (defaulted req)" "0 < cr_TTLMinutes req'"
    and s2: "sv_idem s2 = sv_idem s'" "app_now (sv_db s2) - app_now (sv_db s') < is_ttl i"
  shows "\<exists>j. Session_Create sha rnd' req' key s2 = (Inr c, s2\<lparr>sv_idem := j\<rparr>)"
  using run
proof (cases rule: Session_Create_cases)
  case (mint st q)
  obtain e where q: "q = Inr e" "c = created_of e" using mint(5) by (cases q) auto
  obtain j where j: "st = Some j" "is_ops j = is_ops i" "is_ttl j = is_ttl i" by (rule idem_Resolve_none [OF mint(3) [unfolded i(1)]])
  note M = mint_session_ok [OF _ ok(2) defaulted_props(1) mint(4)]
  have M3: "de_Client e = cr_Client (defaulted req) \<and> sv_idem s' = idem_Store (app_now (sv_db s')) (cr_Namespace req) key e (Some j)"
    using M(3) [OF _ _ q(1)] ok(1) j(1) by (simp add: svc_ok_idem defaulted_props)
  obtain k where k: "idem_Resolve (app_now (sv_db s2)) (cr_Namespace req) (de_Client e) key
      (idem_Store (app_now (sv_db s')) (cr_Namespace req) key e (Some j)) = (Some (e\<lparr>de_IssuedAt := app_now (sv_db s')\<rparr>), k)"
    using idem_replay [OF j(2) i(2,3), of "app_now (sv_db s2)" "app_now (sv_db s')"] s2(2) j(3) by auto
  have "Session_Create sha rnd' req' key s2 = (Inr (created_of e), s2\<lparr>sv_idem := k\<rparr>)"
    using k M3 req' mint(1) s2(1)
    by (simp add: Session_Create_def Let_def defaulted_def [symmetric] defaulted_props created_of_def)
  then show ?thesis using q(2) by blast
qed (use fresh in simp_all)

section \<open>The scanner\<close>

lemma delete_by_id_runs:
  assumes "faults d = []" "ns \<noteq> []" "session_in (tabs d) ns sid"
  obtains c d' where "delete_by_id ns sid d = (Inr (sid, c), d')" "faults d' = []" "app_now d' = app_now d"
proof -
  obtain r where r: "find (\<lambda>s. se_id s = sid \<and> se_ns s = ns) (sessions (tabs d)) = Some r"
    using assms(3) by (cases "find (\<lambda>s. se_id s = sid \<and> se_ns s = ns) (sessions (tabs d))") (auto simp: session_in_def find_None_iff)
  have "\<exists>c d'. delete_by_id ns sid d = (Inr (sid, c), d') \<and> faults d' = [] \<and> app_now d' = app_now d"
    using assms(1,2) r unfolding delete_by_id_def deleteLockedSession_def LockByID_def CascadeCounts_def BumpActivity_def DeleteByIDRow_def
    by (simp add: WithTx_def begin_tx_def query_run stmt_run guard_def ret_def)
  then show thesis using that by blast
qed

lemma scan_refs_ok:
  assumes "svc_ok sha A lx s" "faults (sv_db s) = []" "distinct (map fst refs)"
    "\<forall>(sid, ns)\<in>set refs. session_in (tabs (sv_db s)) ns sid"
  shows "\<exists>s'. scan_refs stop refs n s = (n + length refs, s') \<and> svc_ok sha A lx s' \<and> faults (sv_db s') = []
    \<and> sessions (tabs (sv_db s')) = filter (\<lambda>x. se_id x \<notin> fst ` set refs) (sessions (tabs (sv_db s)))"
  using assms
proof (induction refs arbitrary: s n)
  case (Cons ref refs)
  obtain sid ns where ref: "ref = (sid, ns)" by fastforce
  have si: "session_in (tabs (sv_db s)) ns sid" using Cons.prems(4) ref by simp
  then have ns: "ns \<noteq> []" using Cons.prems(1) by (auto simp: svc_ok_def db_ok_def session_in_def tables_ok_def sessions_ok_def session_row_ok_def)
  obtain c d where d: "delete_by_id ns sid (sv_db s) = (Inr (sid, c), d)" "faults d = []"
    by (rule delete_by_id_runs [OF Cons.prems(2) ns si])
  obtain s1 where s1: "Session_DeleteByID ns sid s = (Inr (sid, c), s1)" "sv_db s1 = d"
    using d(1) by (simp add: Session_DeleteByID_def on_db_def split del: if_split) (auto split: if_splits)
  note D = Session_DeleteByID_ok [OF Cons.prems(1) s1(1)]
  have ss: "sessions (tabs (sv_db s1)) = filter (\<lambda>s. se_id s \<noteq> sid) (sessions (tabs (sv_db s)))" by (rule D(3) [OF refl])
  have "\<forall>(i, n)\<in>set refs. session_in (tabs (sv_db s1)) n i"
    using Cons.prems(3,4) by (force simp: ref session_in_def ss)
  then obtain s' where "scan_refs stop refs (n + 1) s1 = (n + 1 + length refs, s')" "svc_ok sha A lx s'" "faults (sv_db s') = []"
    "sessions (tabs (sv_db s')) = filter (\<lambda>x. se_id x \<notin> fst ` set refs) (sessions (tabs (sv_db s1)))"
    using Cons.IH [OF D(1), of "n + 1"] d(2) s1(2) Cons.prems(3) by auto
  then show ?case using s1(1) by (auto simp: ref ss intro!: filter_cong)
qed simp

lemma scanOnce_ok:
  assumes "svc_ok sha A lx s" "faults (sv_db s) = []"
  defines "expired \<equiv> \<lambda>x. se_expires x < app_now (sv_db s)"
  shows "\<exists>s'. scanOnce stop s = (length (filter expired (sessions (tabs (sv_db s)))), s') \<and> svc_ok sha A lx s'
    \<and> sessions (tabs (sv_db s')) = filter (\<lambda>x. \<not> expired x) (sessions (tabs (sv_db s)))"
proof -
  let ?ss = "sessions (tabs (sv_db s))"
  define refs where "refs = map (\<lambda>s. (se_id s, se_ns s)) (stable_sort (\<lambda>a b. se_expires a < se_expires b) (filter expired ?ss))"
  have m: "mset refs = mset (map (\<lambda>s. (se_id s, se_ns s)) (filter expired ?ss))" unfolding refs_def by simp
  have set: "set refs = (\<lambda>s. (se_id s, se_ns s)) ` {x \<in> set ?ss. expired x}" using arg_cong [OF m, of set_mset] by simp
  have d: "distinct (map se_id ?ss)" using assms(1) by (simp add: svc_ok_def db_ok_def tables_ok_def sessions_ok_def)
  have "mset (map fst refs) = mset (map se_id (filter expired ?ss))" unfolding refs_def by (simp add: comp_def)
  then have "distinct (map fst refs)" using d mset_eq_imp_distinct_iff [of "map fst refs"] by (metis distinct_map_filter)
  moreover have "\<forall>(sid, ns)\<in>set refs. session_in (tabs (sv_db s)) ns sid" unfolding set by (auto simp: session_in_def)
  ultimately obtain s' where s': "scan_refs stop refs 0 s = (0 + length refs, s')" "svc_ok sha A lx s'"
    "sessions (tabs (sv_db s')) = filter (\<lambda>x. se_id x \<notin> fst ` set refs) ?ss"
    using scan_refs_ok [OF assms(1,2), of refs stop 0] by blast
  have sc: "Session_ScanExpired (app_now (sv_db s)) s = (Inr refs, s)"
    using assms(2) by (simp add: Session_ScanExpired_def on_db_def ScanExpired_def query_run refs_def expired_def)
  have l: "length refs = length (filter expired ?ss)" using mset_eq_length [OF m] by simp
  have "filter (\<lambda>x. se_id x \<notin> fst ` set refs) ?ss = filter (\<lambda>x. \<not> expired x) ?ss"
    using d unfolding set by (intro filter_cong refl) (auto simp: distinct_map image_iff dest: inj_onD)
  then show ?thesis using s' sc l by (simp add: scanOnce_def)
qed

end
