(* ===== verification/Client_Service.thy ===== *)
theory Client_Service
  imports Session_Service
begin

text \<open>
  internal/clientreg/service.go: registration of clients, with and without a credential,
  rotation, resolution of a presented token, deletion with its cascade; and the two steps of
  the delete handler, which drops the namespace from the session cache after the cascade.
  Random bytes are an argument; the creation time in a reply is the service's clock.
\<close>

section \<open>Operations\<close>

definition db_result :: "(db_error, 'a) result \<Rightarrow> (svc_error, 'a) result" where
  "db_result r = map_sum DbError id r"

definition Clients_PreviewDelete :: "string \<Rightarrow> string \<Rightarrow> nat dbm" where
  "Clients_PreviewDelete ns name =
     guard (ns = []) ErrNamespaceRequired (guard (name = []) ErrClientNameRequired
       (guard (name = DefaultClient) ErrClientProtected (CountSessions ns name)))"

definition Clients_Delete :: "string \<Rightarrow> string \<Rightarrow> (nat \<times> cascade_counts) dbm" where
  "Clients_Delete ns name =
     guard (ns = []) ErrNamespaceRequired (guard (name = []) ErrClientNameRequired
       (guard (name = DefaultClient) ErrClientProtected
         (WithTx (andthen (LockByName ns name) (\<lambda>_.
            andthen (CascadeCountsForClient ns name) (\<lambda>counts.
            andthen (Clients_DeleteRow ns name) (\<lambda>_. ret counts)))))))"

definition Register :: "string \<Rightarrow> string \<Rightarrow> bool dbm" where
  "Register ns name =
     guard (ns = []) ErrNamespaceRequired (guard (name = []) ErrClientNameRequired (Clients_Register ns name))"

text \<open>The raw token is returned once; the store keeps its digest.\<close>

definition Register_Credential :: "(string \<Rightarrow> string) \<Rightarrow> nat list option \<Rightarrow> string \<Rightarrow> string \<Rightarrow> db \<Rightarrow> (svc_error, string) result \<times> db" where
  "Register_Credential sha rnd ns name d =
     (if ns = [] then (Inl (DbError ErrNamespaceRequired), d)
      else if name = [] then (Inl (DbError ErrClientNameRequired), d)
      else case NewRandomToken rnd of
             None \<Rightarrow> (Inl TokenError, d)
           | Some raw \<Rightarrow>
               (case RegisterWithCredential ns name (HashToken sha ns raw) d of
                  (Inl e, d') \<Rightarrow> (Inl (DbError e), d')
                | (Inr _, d') \<Rightarrow> (Inr raw, d')))"

definition RotateToken :: "(string \<Rightarrow> string) \<Rightarrow> nat list option \<Rightarrow> string \<Rightarrow> string \<Rightarrow> db \<Rightarrow> (svc_error, string) result \<times> db" where
  "RotateToken sha rnd ns name d =
     (if ns = [] then (Inl (DbError ErrNamespaceRequired), d)
      else if name = [] then (Inl (DbError ErrClientNameRequired), d)
      else case NewRandomToken rnd of
             None \<Rightarrow> (Inl TokenError, d)
           | Some raw \<Rightarrow>
               (case RotateCredential ns name (HashToken sha ns raw) d of
                  (Inl e, d') \<Rightarrow> (Inl (DbError e), d')
                | (Inr _, d') \<Rightarrow> (Inr raw, d')))"

definition ResolveByToken :: "(string \<Rightarrow> string) \<Rightarrow> string \<Rightarrow> string \<Rightarrow> string dbm" where
  "ResolveByToken sha ns rawToken =
     guard (ns = []) ErrNamespaceRequired
       (guard (rawToken = []) ErrInvalidClientCredential (LookupByToken ns (HashToken sha ns rawToken)))"

fun SeedDefaults :: "string list \<Rightarrow> unit dbm" where
  "SeedDefaults [] = ret ()"
| "SeedDefaults (ns # nss) = andthen (Clients_Register ns DefaultClient) (\<lambda>_. SeedDefaults nss)"

text \<open>The delete handler: the cascade, then the session cache (api/handlers/manage.go).\<close>

definition delete_client :: "string \<Rightarrow> string \<Rightarrow> ('c, 'i, nat \<times> cascade_counts) svm" where
  "delete_client ns name s =
     (case on_db (Clients_Delete ns name) s of
        (Inl e, s') \<Rightarrow> (Inl e, s')
      | (Inr r, s') \<Rightarrow> (Inr r, InvalidateNamespaceCache ns s'))"

section \<open>Invariants\<close>

lemma client_ops_keep [keeps_intros]:
  "keeps (db_ok lx) (Clients_Delete ns name)" "keeps (db_ok lx) (Register ns name)" "keeps (db_ok lx) (SeedDefaults nss)"
proof -
  show "keeps (db_ok lx) (Clients_Delete ns name)" "keeps (db_ok lx) (Register ns name)"
    unfolding Clients_Delete_def Register_def by (intro keeps_intros)+
  show "keeps (db_ok lx) (SeedDefaults nss)" by (induction nss) (auto intro!: keeps_intros)
qed

text \<open>A protected or failing delete changes nothing.\<close>

lemma Clients_Delete_error: "Clients_Delete ns name d = (Inl e, d') \<Longrightarrow> tabs d' = tabs d"
  unfolding Clients_Delete_def guard_def fail_def by (auto split: if_splits dest: WithTx_atomic)

lemma Clients_Delete_ok:
  assumes ok: "tables_ok (tabs d)" and run: "Clients_Delete ns name d = (Inr r, d')"
  shows "name \<noteq> DefaultClient" "has_client (tabs d) ns name" "\<not> has_client (tabs d') ns name"
    "sessions (tabs d') = filter (\<lambda>s. \<not> (se_ns s = ns \<and> se_client s = name)) (sessions (tabs d))"
    "fst r = length (client_sessions (tabs d) ns name)" "removed_from ns (tabs d) (tabs d')"
proof -
  have g: "name \<noteq> DefaultClient" and w: "WithTx (andthen (LockByName ns name) (\<lambda>_. andthen (CascadeCountsForClient ns name) (\<lambda>counts.
            andthen (Clients_DeleteRow ns name) (\<lambda>_. ret counts)))) d = (Inr r, d')"
    using run unfolding Clients_Delete_def guard_Inr by blast+
  show "name \<noteq> DefaultClient" by (rule g)
  obtain d1 d2 where t: "tabs d1 = tabs d" "tabs d' = tabs d2"
    and b: "andthen (LockByName ns name) (\<lambda>_. andthen (CascadeCountsForClient ns name) (\<lambda>counts.
            andthen (Clients_DeleteRow ns name) (\<lambda>_. ret counts))) d1 = (Inr r, d2)"
    by (rule WithTx_ok [OF w]) (rule that)
  obtain u d3 where l: "LockByName ns name d1 = (Inr u, d3)"
    and b2: "andthen (CascadeCountsForClient ns name) (\<lambda>counts. andthen (Clients_DeleteRow ns name) (\<lambda>_. ret counts)) d3 = (Inr r, d2)"
    using b by (elim andthen_cases) auto
  obtain cs d4 where c: "CascadeCountsForClient ns name d3 = (Inr cs, d4)"
    and b3: "andthen (Clients_DeleteRow ns name) (\<lambda>_. ret cs) d4 = (Inr r, d2)"
    using b2 by (elim andthen_cases) auto
  obtain v where dr: "Clients_DeleteRow ns name d4 = (Inr v, d2)" and r: "cs = r"
    using b3 by (elim andthen_cases) (auto simp: ret_def)
  have l': "find_client (tabs d) ns name \<noteq> None" "tabs d3 = tabs d"
    using l unfolding LockByName_def guard_Inr by (elim conjE query_cases; simp add: t split: if_splits)+
  have c': "fst cs = length (client_sessions (tabs d) ns name)" "tabs d4 = tabs d"
    using c unfolding CascadeCountsForClient_def Let_def by (elim query_cases; auto simp: l'(2))+
  show "fst r = length (client_sessions (tabs d) ns name)" using c'(1) r by simp
  show "has_client (tabs d) ns name" using l'(1) by (simp add: find_client_None)
  let ?ids = "set (map se_id (client_sessions (tabs d) ns name))"
  have d2: "tabs d2 = (cascade_sessions ?ids (tabs d))\<lparr>clients := filter (\<lambda>c. \<not> (cl_ns c = ns \<and> cl_name c = name)) (clients (tabs d))\<rparr>"
    using dr unfolding Clients_DeleteRow_def Let_def by (elim stmt_cases) (auto simp: c'(2) cascade_sessions_def)
  have inj: "inj_on se_id (set (sessions (tabs d)))" using ok by (simp add: tables_ok_def sessions_ok_def distinct_map)
  have m: "se_id s \<in> ?ids \<longleftrightarrow> se_ns s = ns \<and> se_client s = name" if "s \<in> set (sessions (tabs d))" for s
    using that inj by (auto simp: client_sessions_def dest: inj_onD)
  have f: "sessions (tabs d') = filter (\<lambda>s. se_id s \<notin> ?ids) (sessions (tabs d))" unfolding t(2) d2 by (simp add: cascade_sessions_def)
  show "sessions (tabs d') = filter (\<lambda>s. \<not> (se_ns s = ns \<and> se_client s = name)) (sessions (tabs d))"
    unfolding f using m by (intro filter_cong refl) blast
  show "\<not> has_client (tabs d') ns name" unfolding t(2) d2 by (auto simp: has_client_def)
  show "removed_from ns (tabs d) (tabs d')" by (rule removed_ids [OF ok f]) (use m in blast)
qed

lemma delete_client_keeps:
  assumes ok: "svc_ok sha A lx s" and run: "delete_client ns name s = (r, s')"
  shows "svc_ok sha A lx s'"
proof -
  have tok: "tables_ok (tabs (sv_db s))" using ok by (simp add: svc_ok_def db_ok_def)
  obtain q s1 where m: "on_db (Clients_Delete ns name) s = (q, s1)" by fastforce
  show ?thesis
    using m
  proof (cases rule: on_db_run)
    case (err e d)
    then have "s' = s\<lparr>sv_db := d\<rparr>" using run m by (auto simp: delete_client_def)
    then show ?thesis using ok Clients_Delete_error [OF err(1)] by (simp add: svc_ok_def)
  next
    case (ok x d)
    have s': "s' = s\<lparr>sv_db := d, sv_cache := cache_InvalidateNamespace ns (sv_cache s)\<rparr>"
      using run m ok by (auto simp: delete_client_def InvalidateNamespaceCache_def)
    have "db_ok lx (tabs d)" using keepsD [OF client_ops_keep(1) ok(1)] \<open>svc_ok sha A lx s\<close> by (simp add: svc_ok_def)
    then show ?thesis unfolding s' using svc_ok_drop_namespace [OF \<open>svc_ok sha A lx s\<close> _ Clients_Delete_ok(6) [OF tok ok(1)] refl] by blast
  qed
qed

section \<open>Credentials\<close>

lemma find_credential_new:
  "find P (xs @ [x]) = (case find P xs of None \<Rightarrow> if P x then Some x else None | Some y \<Rightarrow> Some y)"
  by (induction xs) auto

text \<open>A token that was just issued resolves to its client, unless the digest was in use.\<close>

lemma Register_Credential_resolves:
  assumes run: "Register_Credential sha rnd ns name d = (Inr raw, d')" and f: "faults d = []" and ne: "raw \<noteq> []"
    and new: "\<forall>c\<in>set (clients (tabs d)). cl_ns c = ns \<longrightarrow> cl_hash c \<noteq> Some (HashToken sha ns raw)"
  shows "fst (ResolveByToken sha ns raw d') = Inr name" "\<not> has_client (tabs d) ns name" "has_client (tabs d') ns name"
proof -
  have g: "ns \<noteq> []" "name \<noteq> []" and r: "RegisterWithCredential ns name (HashToken sha ns raw) d = (Inr (), d')"
    using run unfolding Register_Credential_def by (auto split: if_splits option.splits prod.splits sum.splits)
  have h: "HashToken sha ns raw \<noteq> []" "find_client (tabs d) ns name = None"
    "clients (tabs d') = clients (tabs d) @ [\<lparr>cl_ns = ns, cl_name = name, cl_created = db_now d, cl_last_activity = None,
       cl_hash = Some (HashToken sha ns raw), cl_issued = Some (db_now d), cl_rotated = None\<rparr>]" "faults d' = []"
    using r f unfolding RegisterWithCredential_def guard_Inr Let_def by (auto simp: stmt_run split: if_splits)
  have "find (\<lambda>c. cl_ns c = ns \<and> cl_hash c = Some (HashToken sha ns raw)) (clients (tabs d)) = None"
    using new by (auto simp: find_None_iff)
  then show "fst (ResolveByToken sha ns raw d') = Inr name"
    using g ne h by (simp add: ResolveByToken_def LookupByToken_def guard_def query_run find_credential_new)
  show "\<not> has_client (tabs d) ns name" using h(2) by (simp add: find_client_None)
  show "has_client (tabs d') ns name" using h(3) by (simp add: has_client_def)
qed

text \<open>Rotation is strict: the new token resolves, and the token it replaces no longer does.\<close>

lemma RotateToken_strict:
  assumes run: "RotateToken sha rnd ns name d = (Inr raw, d')" and f: "faults d = []" and ne: "raw \<noteq> []" and ok: "tables_ok (tabs d)"
    and old: "fst (ResolveByToken sha ns old d) = Inr name" "HashToken sha ns old \<noteq> HashToken sha ns raw"
    and new: "\<forall>c\<in>set (clients (tabs d)). cl_ns c = ns \<longrightarrow> cl_hash c \<noteq> Some (HashToken sha ns raw)"
    and one: "\<forall>c\<in>set (clients (tabs d)). cl_ns c = ns \<and> cl_hash c = Some (HashToken sha ns old) \<longrightarrow> cl_name c = name"
  shows "fst (ResolveByToken sha ns raw d') = Inr name" "fst (ResolveByToken sha ns old d') = Inl ErrInvalidClientCredential"
proof -
  let ?new = "Some (HashToken sha ns raw)" and ?old = "Some (HashToken sha ns old)"
  have g: "ns \<noteq> []" and r: "RotateCredential ns name (HashToken sha ns raw) d = (Inr (), d')"
    using run unfolding RotateToken_def by (auto split: if_splits option.splits prod.splits sum.splits)
  let ?u = "\<lambda>c. if cl_ns c = ns \<and> cl_name c = name then (if cl_hash c \<noteq> None then c\<lparr>cl_hash := ?new, cl_rotated := Some (db_now d)\<rparr> else c) else c"
  have h: "HashToken sha ns raw \<noteq> []" "\<exists>c\<in>set (clients (tabs d)). cl_ns c = ns \<and> cl_name c = name \<and> cl_hash c \<noteq> None"
    "clients (tabs d') = map ?u (clients (tabs d))" "faults d' = []"
    using r f unfolding RotateCredential_def guard_Inr Let_def by (auto simp: stmt_run update_client_def split: if_splits)
  have o: "old \<noteq> []" "HashToken sha ns old \<noteq> []"
    using old(1) g by (auto simp: ResolveByToken_def LookupByToken_def guard_def fail_def split: if_splits)
  have "\<not> (cl_ns (?u c) = ns \<and> cl_hash (?u c) = ?old)" if "c \<in> set (clients (tabs d))" for c
    using one that old(2) by (cases "cl_ns c = ns \<and> cl_name c = name"; cases "cl_hash c") auto
  then have "find (\<lambda>c. cl_ns c = ns \<and> cl_hash c = ?old) (clients (tabs d')) = None"
    unfolding h(3) find_None_iff set_map by blast
  then show "fst (ResolveByToken sha ns old d') = Inl ErrInvalidClientCredential"
    using g o h(4) by (simp add: ResolveByToken_def LookupByToken_def guard_def query_run)
  let ?P = "\<lambda>c. cl_ns c = ns \<and> cl_hash c = ?new"
  obtain c0 where "c0 \<in> set (clients (tabs d))" "cl_ns c0 = ns" "cl_name c0 = name" "cl_hash c0 \<noteq> None" using h(2) by blast
  then have "?u c0 \<in> set (clients (tabs d'))" "?P (?u c0)" unfolding h(3) by simp_all
  then have "find ?P (clients (tabs d')) \<noteq> None" unfolding find_None_iff by blast
  then obtain c where c: "find ?P (clients (tabs d')) = Some c" by blast
  then have "c \<in> ?u ` set (clients (tabs d))" "cl_ns c = ns" "cl_hash c = ?new" using h(3) by (auto dest: find_SomeD)
  then obtain x where x: "x \<in> set (clients (tabs d))" "c = ?u x" "cl_ns (?u x) = ns" "cl_hash (?u x) = ?new" by blast
  have "cl_name x = name" using x(1,3,4) new by (cases "cl_ns x = ns \<and> cl_name x = name") simp_all
  then have "cl_name c = name" unfolding x(2) by simp
  then show "fst (ResolveByToken sha ns raw d') = Inr name"
    using g ne h(1,4) c by (simp add: ResolveByToken_def LookupByToken_def guard_def query_run)
qed

end
