(* ===== verification/Feedback_Service.thy ===== *)
theory Feedback_Service
  imports Ingest
begin

text \<open>
  internal/feedback/service.go: one outcome per correlation, inside the acceptance window.
  The UUID package is a parameter: the version of an id and the time it embeds, in the
  microseconds of the clocks.
\<close>

record uuid_pkg =
  uuid_version :: "string \<Rightarrow> int"
  uuid_time :: "string \<Rightarrow> int"

datatype feedback_error = FbDb db_error | ErrFeedbackWindowExpired | ErrInvalidCorrelationID

definition receive_tx :: "string \<Rightarrow> int \<Rightarrow> string \<Rightarrow> string \<Rightarrow> corr_row dbm" where
  "receive_tx ns sid cid outcome =
     WithTx (andthen (GetWithLockedRow ns sid cid) (\<lambda>existing.
       guard (co_feedback existing \<noteq> None) ErrFeedbackAlreadySubmitted (UpdateOutcome ns sid cid outcome)))"

definition Receive :: "uuid_pkg \<Rightarrow> string \<Rightarrow> int \<Rightarrow> string \<Rightarrow> string \<Rightarrow> int \<Rightarrow> db \<Rightarrow> (feedback_error, corr_row) result \<times> db" where
  "Receive U ns sid cid outcome ttlMinutes d =
     (if uuid_version U cid \<noteq> 7 then (Inl ErrInvalidCorrelationID, d)
      else if app_now d - uuid_time U cid > ttlMinutes * 60000000 then (Inl ErrFeedbackWindowExpired, d)
      else case receive_tx ns sid cid outcome d of
             (Inl e, d') \<Rightarrow> (Inl (FbDb e), d')
           | (Inr rec, d') \<Rightarrow> (Inr rec, d'))"

lemma receive_tx_keeps [keeps_intros]: "keeps (db_ok lx) (receive_tx ns sid cid outcome)"
  unfolding receive_tx_def by (intro keeps_intros)

lemma find_correlation_SomeD:
  assumes "find_correlation t ns sid cid = Some c"
  shows "session_in t ns sid" "c \<in> set (correlations t)" "co_id c = cid" "co_session c = sid"
  using assms unfolding find_correlation_def by (auto split: if_splits dest: find_SomeD)

lemma receive_tx_ok:
  assumes run: "receive_tx ns sid cid outcome d = (Inr rec, d')"
  obtains c n where "find_correlation (tabs d) ns sid cid = Some c" "co_feedback c = None"
    "rec = c\<lparr>co_outcome := outcome, co_feedback := Some n\<rparr>" "outcome \<in> {''unset'', ''success'', ''retry'', ''degraded''}"
    "tabs d' = (tabs d)\<lparr>correlations := map (\<lambda>r. if co_id r = cid then rec else r) (correlations (tabs d))\<rparr>"
proof -
  obtain d1 d2 where t: "tabs d1 = tabs d" "tabs d' = tabs d2"
    and b: "andthen (GetWithLockedRow ns sid cid) (\<lambda>existing.
       guard (co_feedback existing \<noteq> None) ErrFeedbackAlreadySubmitted (UpdateOutcome ns sid cid outcome)) d1 = (Inr rec, d2)"
    by (rule WithTx_ok [OF run [unfolded receive_tx_def]]) (rule that)
  obtain c d3 where g: "GetWithLockedRow ns sid cid d1 = (Inr c, d3)" and c: "co_feedback c = None"
    and u: "UpdateOutcome ns sid cid outcome d3 = (Inr rec, d2)"
    using b by (elim andthen_cases) (auto simp: guard_Inr)
  have g': "find_correlation (tabs d) ns sid cid = Some c" "tabs d3 = tabs d"
    using g unfolding GetWithLockedRow_def guard_Inr by (elim conjE query_cases; simp add: t split: option.splits)+
  have "rec = c\<lparr>co_outcome := outcome, co_feedback := Some (db_now d3)\<rparr> \<and> outcome \<in> {''unset'', ''success'', ''retry'', ''degraded''}
      \<and> tabs d2 = (tabs d)\<lparr>correlations := map (\<lambda>r. if co_id r = cid then rec else r) (correlations (tabs d))\<rparr>"
    using u g' c unfolding UpdateOutcome_def guard_Inr Let_def by (elim conjE stmt_cases) (auto split: if_splits)
  then show thesis using that [of c "db_now d3"] g'(1) c t(2) by simp
qed

text \<open>Feedback is accepted once: afterwards the correlation has its outcome, and every further
  feedback inside the window is refused and changes nothing.\<close>

lemma Receive_once:
  assumes ok: "tables_ok (tabs d)" and run: "Receive U ns sid cid outcome ttl d = (Inr rec, d')"
  shows "uuid_version U cid = 7" "app_now d - uuid_time U cid \<le> ttl * 60000000" "session_in (tabs d) ns sid"
    "co_outcome rec = outcome" "find_correlation (tabs d') ns sid cid = Some rec" "co_feedback rec \<noteq> None"
    "\<And>d2 o2 ttl2 r d3. tabs d2 = tabs d' \<Longrightarrow> faults d2 = [] \<Longrightarrow> ns \<noteq> [] \<Longrightarrow> app_now d2 - uuid_time U cid \<le> ttl2 * 60000000 \<Longrightarrow>
       Receive U ns sid cid o2 ttl2 d2 = (r, d3) \<Longrightarrow> r = Inl (FbDb ErrFeedbackAlreadySubmitted) \<and> tabs d3 = tabs d2"
proof -
  have r: "receive_tx ns sid cid outcome d = (Inr rec, d')"
    and v: "uuid_version U cid = 7" "app_now d - uuid_time U cid \<le> ttl * 60000000"
    using run unfolding Receive_def by (auto split: if_splits prod.splits sum.splits)
  show "uuid_version U cid = 7" "app_now d - uuid_time U cid \<le> ttl * 60000000" by (rule v)+
  obtain c n where c: "find_correlation (tabs d) ns sid cid = Some c" "co_feedback c = None"
    "rec = c\<lparr>co_outcome := outcome, co_feedback := Some n\<rparr>"
    "tabs d' = (tabs d)\<lparr>correlations := map (\<lambda>r. if co_id r = cid then rec else r) (correlations (tabs d))\<rparr>"
    by (rule receive_tx_ok [OF r])
  note C = find_correlation_SomeD [OF c(1)]
  show "session_in (tabs d) ns sid" by (rule C(1))
  show fb: "co_outcome rec = outcome" "co_feedback rec \<noteq> None" using c(3) by simp_all
  have k: "co_id rec = cid \<and> co_session rec = sid" using C c(3) by simp
  have inj: "inj_on co_id (set (correlations (tabs d)))" using ok by (simp add: tables_ok_def corrs_ok_def distinct_map)
  have "find (\<lambda>c. co_id c = cid \<and> co_session c = sid) (map (\<lambda>r. if co_id r = cid then rec else r) xs) = Some rec" if "c \<in> set xs" for xs
    using that k C by (induction xs) auto
  then show f: "find_correlation (tabs d') ns sid cid = Some rec"
    using C by (simp add: find_correlation_def c(4) session_in_def)
  fix d2 :: db and o2 :: string and ttl2 :: int and r :: "(feedback_error, corr_row) result" and d3 :: db
  assume 2: "tabs d2 = tabs d'" "faults d2 = []" "ns \<noteq> []" "app_now d2 - uuid_time U cid \<le> ttl2 * 60000000"
    "Receive U ns sid cid o2 ttl2 d2 = (r, d3)"
  have "receive_tx ns sid cid o2 d2 = (Inl ErrFeedbackAlreadySubmitted, d2)"
    using 2 f fb(2) unfolding receive_tx_def GetWithLockedRow_def
    by (simp add: WithTx_def begin_tx_def query_run guard_def fail_def)
  then show "r = Inl (FbDb ErrFeedbackAlreadySubmitted) \<and> tabs d3 = tabs d2" using 2 v(1) by (simp add: Receive_def)
qed

lemma Receive_error: "Receive U ns sid cid outcome ttl d = (Inl e, d') \<Longrightarrow> tabs d' = tabs d"
  unfolding Receive_def receive_tx_def by (auto split: if_splits prod.splits sum.splits dest: WithTx_atomic)

lemma Receive_keeps:
  assumes "Receive U ns sid cid outcome ttl d = (r, d')" "db_ok lx (tabs d)"
  shows "db_ok lx (tabs d')"
  using assms keepsD [OF receive_tx_keeps] unfolding Receive_def
  by (auto split: if_splits prod.splits sum.splits)

end
