(* ===== verification/Snapshot_Service.thy ===== *)
theory Snapshot_Service
  imports Ingest
begin

text \<open>
  internal/snapshot/service.go: the events of a session by priority and recency, as many as
  fit a byte budget of wire JSON. The timestamp format of the driver's time values is a
  parameter \<open>stamp\<close>; the payload column holds valid JSON, which marshalling compacts.
\<close>

section \<open>Wire size\<close>

definition json_ws :: "char \<Rightarrow> bool" where
  "json_ws c \<longleftrightarrow> c = CHR 0x20 \<or> c = CHR 0x09 \<or> c = CHR 0x0A \<or> c = CHR 0x0D"

text \<open>Compaction with HTML escaping; the flags say that the position is in a string, after a
  backslash.\<close>

fun compact_json :: "bool \<Rightarrow> bool \<Rightarrow> string \<Rightarrow> string" where
  "compact_json q e [] = []"
| "compact_json q e (c # cs) =
     (if c = CHR ''<'' \<or> c = CHR ''>'' \<or> c = CHR ''&''
      then backslash # ''u00'' @ [hex_digit (of_char c div 16), hex_digit (of_char c mod 16)] @ compact_json q False cs
      else if c = CHR 0xE2 \<and> take 1 cs = [CHR 0x80] \<and> take 1 (drop 1 cs) \<in> {[CHR 0xA8], [CHR 0xA9]}
      then backslash # ''u202'' @ [hex_digit (of_char (cs ! 1) mod 16)] @ compact_json q False (drop 2 cs)
      else if \<not> q then (if json_ws c then compact_json q e cs else c # compact_json (c = quote) False cs)
      else if e then c # compact_json True False cs
      else c # compact_json (c \<noteq> quote) (c = backslash) cs)"

definition wire_event :: "(int \<Rightarrow> string) \<Rightarrow> event_row \<Rightarrow> string" where
  "wire_event stamp ev =
     json_object [(''id'', json_int (ev_id ev)), (''type'', json_string (ev_type ev)), (''priority'', json_int (ev_priority ev)),
       (''data'', compact_json False False (if ev_data ev = [] then ''{}'' else ev_data ev)),
       (''created_at'', stamp (ev_created ev))]"

definition event_size :: "(int \<Rightarrow> string) \<Rightarrow> event_row \<Rightarrow> nat" where
  "event_size stamp ev = length (wire_event stamp ev)"

section \<open>Build\<close>

definition DefaultBudgetBytes :: int where "DefaultBudgetBytes = 2048"

record snapshot_result =
  sn_Events :: "event_row list"
  sn_ByteBudgetUsed :: int
  sn_BudgetExceeded :: bool

fun snap_loop :: "(event_row \<Rightarrow> nat) \<Rightarrow> int \<Rightarrow> event_row list \<Rightarrow> event_row list \<Rightarrow> int \<Rightarrow> snapshot_result" where
  "snap_loop sz budgetBytes [] inc used = \<lparr>sn_Events = inc, sn_ByteBudgetUsed = used, sn_BudgetExceeded = False\<rparr>"
| "snap_loop sz budgetBytes (ev # evs) inc used =
     (if used + int (sz ev) \<le> budgetBytes then snap_loop sz budgetBytes evs (inc @ [ev]) (used + int (sz ev))
      else if inc = [] \<and> ev_priority ev = 1
      then \<lparr>sn_Events = inc @ [ev], sn_ByteBudgetUsed = used + int (sz ev), sn_BudgetExceeded = True\<rparr>
      else \<lparr>sn_Events = inc, sn_ByteBudgetUsed = used, sn_BudgetExceeded = True\<rparr>)"

definition snap_meta :: "snapshot_result \<Rightarrow> string" where
  "snap_meta r =
     json_object [(''budget_exceeded'', json_bool (sn_BudgetExceeded r)), (''byte_budget_used'', json_int (sn_ByteBudgetUsed r)),
       (''event_count'', json_int (int (length (sn_Events r))))]"

definition Build :: "(int \<Rightarrow> string) \<Rightarrow> string \<Rightarrow> int \<Rightarrow> string \<Rightarrow> int \<Rightarrow> snapshot_result dbm" where
  "Build stamp ns sid cid budgetBytes =
     (let budgetBytes = (if budgetBytes \<le> 0 then DefaultBudgetBytes else budgetBytes) in
      andthen (Events_Snapshot ns sid) (\<lambda>events.
        (let r = snap_loop (event_size stamp) budgetBytes events [] 0
         in andthen (attempt (Correlations_Insert ns sid cid ''snapshot'' (snap_meta r))) (\<lambda>_. ret r))))"

section \<open>What is included\<close>

definition event_bytes :: "(event_row \<Rightarrow> nat) \<Rightarrow> event_row list \<Rightarrow> int" where
  "event_bytes sz evs = int (sum_list (map sz evs))"

lemma event_bytes_simps [simp]: "event_bytes sz [] = 0" "event_bytes sz (e # es) = int (sz e) + event_bytes sz es"
  "event_bytes sz (es @ fs) = event_bytes sz es + event_bytes sz fs"
  by (simp_all add: event_bytes_def)

lemma event_bytes_nonneg: "0 \<le> event_bytes sz es" by (simp add: event_bytes_def)

text \<open>The result is a prefix of the rows, the longest within the budget, except that a first
  event of priority 1 is always there.\<close>

lemma snap_loop_spec:
  assumes "used = event_bytes sz inc" "used \<le> B"
  shows "\<exists>k\<le>length evs. sn_Events (snap_loop sz B evs inc used) = inc @ take k evs
    \<and> sn_ByteBudgetUsed (snap_loop sz B evs inc used) = event_bytes sz (inc @ take k evs)
    \<and> (event_bytes sz (inc @ take k evs) \<le> B \<or> inc = [] \<and> k = 1 \<and> ev_priority (hd evs) = 1)
    \<and> (k < length evs \<longrightarrow> B < event_bytes sz (inc @ take (Suc k) evs))
    \<and> (sn_BudgetExceeded (snap_loop sz B evs inc used) \<longleftrightarrow> B < event_bytes sz (inc @ evs))
    \<and> (inc = [] \<and> evs \<noteq> [] \<and> ev_priority (hd evs) = 1 \<longrightarrow> 0 < k)"
  using assms
proof (induction evs arbitrary: inc used)
  case (Cons ev evs)
  let ?u = "used + int (sz ev)"
  show ?case
  proof (cases "?u \<le> B")
    case True
    have u: "?u = event_bytes sz (inc @ [ev])" using Cons.prems(1) by simp
    obtain k where k: "k \<le> length evs" "sn_Events (snap_loop sz B evs (inc @ [ev]) ?u) = (inc @ [ev]) @ take k evs"
      "sn_ByteBudgetUsed (snap_loop sz B evs (inc @ [ev]) ?u) = event_bytes sz ((inc @ [ev]) @ take k evs)"
      "event_bytes sz ((inc @ [ev]) @ take k evs) \<le> B"
      "k < length evs \<Longrightarrow> B < event_bytes sz ((inc @ [ev]) @ take (Suc k) evs)"
      "sn_BudgetExceeded (snap_loop sz B evs (inc @ [ev]) ?u) \<longleftrightarrow> B < event_bytes sz ((inc @ [ev]) @ evs)"
      using Cons.IH [OF u True] by auto
    have s: "snap_loop sz B (ev # evs) inc used = snap_loop sz B evs (inc @ [ev]) ?u" using True by simp
    show ?thesis unfolding s using k by (intro exI [of _ "Suc k"]) simp
  next
    case False
    have gt: "B < event_bytes sz (inc @ ev # evs)" using False Cons.prems(1) event_bytes_nonneg [of sz evs] by simp
    show ?thesis
    proof (cases "inc = [] \<and> ev_priority ev = 1")
      case True
      have "0 < length evs \<longrightarrow> B < event_bytes sz (inc @ take (Suc 1) (ev # evs))"
        using False Cons.prems(1) event_bytes_nonneg [of sz "take 1 evs"] by simp
      then show ?thesis using False True gt Cons.prems(1) by (intro exI [of _ 1]) simp
    next
      case nf: False
      show ?thesis using False nf gt Cons.prems by (intro exI [of _ 0]) auto
    qed
  qed
qed simp

definition snapshot_rows :: "tables \<Rightarrow> string \<Rightarrow> int \<Rightarrow> event_row list" where
  "snapshot_rows t ns sid = take snapshotRowCap (stable_sort event_order
     (filter (\<lambda>e. ev_session e = sid \<and> session_in t ns sid) (session_events t)))"

lemma Events_Snapshot_ok:
  assumes "Events_Snapshot ns sid d = (Inr evs, d')"
  shows "evs = snapshot_rows (tabs d) ns sid" "tabs d' = tabs d"
  using assms unfolding Events_Snapshot_def guard_Inr Let_def snapshot_rows_def by (elim conjE query_cases; simp)+

lemma Build_ok:
  assumes "Build stamp ns sid cid budgetBytes d = (Inr r, d')"
  defines "B \<equiv> if budgetBytes \<le> 0 then DefaultBudgetBytes else budgetBytes"
  defines "rows \<equiv> snapshot_rows (tabs d) ns sid"
  shows "\<exists>k\<le>length rows. sn_Events r = take k rows \<and> sn_ByteBudgetUsed r = event_bytes (event_size stamp) (take k rows)
      \<and> (sn_ByteBudgetUsed r \<le> B \<or> k = 1 \<and> ev_priority (hd rows) = 1)
      \<and> (k < length rows \<longrightarrow> B < event_bytes (event_size stamp) (take (Suc k) rows))
      \<and> (rows \<noteq> [] \<and> ev_priority (hd rows) = 1 \<longrightarrow> 0 < k)"
    "sn_BudgetExceeded r \<longleftrightarrow> B < event_bytes (event_size stamp) rows"
    "index_of (tabs d') = index_of (tabs d)"
proof -
  obtain evs d1 where e: "Events_Snapshot ns sid d = (Inr evs, d1)"
    and r: "r = snap_loop (event_size stamp) B evs [] 0"
    and ix: "index_of (tabs d') = index_of (tabs d1)"
    using assms(1) unfolding Build_def Let_def B_def
    by (auto simp: ret_def attempt_def Correlations_Insert_index elim!: andthen_cases)
  note E = Events_Snapshot_ok [OF e, folded rows_def]
  have "0 \<le> B" by (simp add: B_def DefaultBudgetBytes_def)
  from snap_loop_spec [of 0 "event_size stamp" "[]" B rows, OF _ this]
  obtain k where k: "k \<le> length rows" "sn_Events r = take k rows" "sn_ByteBudgetUsed r = event_bytes (event_size stamp) (take k rows)"
    "event_bytes (event_size stamp) (take k rows) \<le> B \<or> k = 1 \<and> ev_priority (hd rows) = 1"
    "k < length rows \<longrightarrow> B < event_bytes (event_size stamp) (take (Suc k) rows)"
    "sn_BudgetExceeded r \<longleftrightarrow> B < event_bytes (event_size stamp) rows"
    "rows \<noteq> [] \<and> ev_priority (hd rows) = 1 \<longrightarrow> 0 < k"
    unfolding r E(1) by auto
  show "sn_BudgetExceeded r \<longleftrightarrow> B < event_bytes (event_size stamp) rows" by (rule k(6))
  show "index_of (tabs d') = index_of (tabs d)" using ix E(2) by simp
  show "\<exists>k\<le>length rows. sn_Events r = take k rows \<and> sn_ByteBudgetUsed r = event_bytes (event_size stamp) (take k rows)
      \<and> (sn_ByteBudgetUsed r \<le> B \<or> k = 1 \<and> ev_priority (hd rows) = 1)
      \<and> (k < length rows \<longrightarrow> B < event_bytes (event_size stamp) (take (Suc k) rows))
      \<and> (rows \<noteq> [] \<and> ev_priority (hd rows) = 1 \<longrightarrow> 0 < k)"
    using k by (intro exI [of _ k]) simp
qed

lemma snapshot_rows_sorted: "sorted_wrt (\<lambda>a b. \<not> event_order b a) (snapshot_rows t ns sid)"
  unfolding snapshot_rows_def by (rule sorted_wrt_take, rule stable_sort_sorted) (auto simp: event_order_def)

lemma Build_keeps [keeps_intros]: "keeps (db_ok lx) (Build stamp ns sid cid budgetBytes)"
  unfolding Build_def Let_def by (intro keeps_andthen keeps_ret keeps_attempt keeps_intros)

end
