(* ===== verification/Snippet.thy ===== *)
theory Snippet
  imports Go_Text "HOL-Library.Multiset"
begin

text \<open>
  internal/db/snippet.go: the excerpt of a chunk that a search hit shows. Term sites are
  located in rune space, the budget-sized window with the densest evidence is chosen and
  recentred, and its edges are snapped inward to sentence or line boundaries. The Unicode
  tables (case folding, letters, digits) are the parameter \<open>unicode\<close>.

  The lemmas show that the result is a non-empty part of the content of at most 400 runes,
  that the chosen window covers as many distinct terms as any window of that size (and as
  many sites among those), and that snapping never cuts a covered site.
\<close>

section \<open>Definitions\<close>

record unicode =
  u_lower :: "nat \<Rightarrow> nat"
  u_letter :: "nat \<Rightarrow> bool"
  u_digit :: "nat \<Rightarrow> bool"
  s_lower :: "string \<Rightarrow> string"

definition snippetBudgetRunes :: nat where "snippetBudgetRunes = 400"

record snippetResult =
  snip_text :: string
  snip_fallback :: bool

record queryTerm =
  qt_text :: string
  qt_noise :: bool

record site =
  st_start :: nat
  st_end :: nat
  st_term :: nat
  st_noise :: bool

definition trigramStopwords :: "string list" where
  "trigramStopwords =
     [''the'', ''an'', ''of'', ''and'', ''or'', ''in'', ''on'', ''at'', ''to'', ''for'', ''with'',
      ''is'', ''are'', ''was'', ''were'', ''be'', ''been'', ''do'', ''did'', ''does'', ''done'',
      ''by'', ''as'', ''from'', ''into'', ''than'', ''what'', ''where'', ''when'', ''why'', ''how'',
      ''who'', ''which'', ''that'', ''this'', ''it'', ''its'']"

definition isTermPunct :: "unicode \<Rightarrow> nat \<Rightarrow> bool" where
  "isTermPunct U r \<longleftrightarrow> \<not> u_letter U r \<and> \<not> u_digit U r \<and> r \<noteq> 95"

text \<open>\<open>strings.TrimFunc(raw, isTermPunct)\<close>, on runes.\<close>

definition trim_punct :: "unicode \<Rightarrow> string \<Rightarrow> string" where
  "trim_punct U raw =
     string_of_runes (rev (dropWhile (isTermPunct U) (rev (dropWhile (isTermPunct U) (runes raw)))))"

fun split_terms :: "unicode \<Rightarrow> string list \<Rightarrow> string list \<Rightarrow> queryTerm list" where
  "split_terms U [] seen = []"
| "split_terms U (raw # raws) seen =
     (let core = trim_punct U raw in
      if core = [] then split_terms U raws seen
      else
        (let lower = s_lower U core in
         if lower \<in> set seen then split_terms U raws seen
         else \<lparr>qt_text = core, qt_noise = (lower \<in> set trigramStopwords \<or> length (runes core) = 1)\<rparr>
                # split_terms U raws (lower # seen)))"

definition splitTerms :: "unicode \<Rightarrow> string \<Rightarrow> queryTerm list" where
  "splitTerms U query = split_terms U (Go_Text.fields query) []"

definition foldRunes :: "unicode \<Rightarrow> string \<Rightarrow> nat list" where
  "foldRunes U s = map (u_lower U) (runes s)"

definition indexRunes :: "nat list \<Rightarrow> nat list \<Rightarrow> nat \<Rightarrow> nat option" where
  "indexRunes haystack needle from =
     find (\<lambda>i. take (length needle) (drop i haystack) = needle)
       [from..<Suc (length haystack) - length needle]"

lemma indexRunes_Some:
  "indexRunes h n from = Some i \<Longrightarrow> from \<le> i \<and> i + length n \<le> length h \<and> take (length n) (drop i h) = n"
  by (auto simp: indexRunes_def find_Some_iff)

lemma indexRunes_None:
  "indexRunes h n from = None \<Longrightarrow> from \<le> i \<Longrightarrow> i + length n \<le> length h \<Longrightarrow> take (length n) (drop i h) \<noteq> n"
  by (auto simp: indexRunes_def find_None_iff)

function locate_term :: "nat list \<Rightarrow> nat list \<Rightarrow> nat \<Rightarrow> bool \<Rightarrow> nat \<Rightarrow> site list" where
  "locate_term folded needle ti noise cursor =
     (if needle = [] then []
      else case indexRunes folded needle cursor of
             None \<Rightarrow> []
           | Some at \<Rightarrow>
               \<lparr>st_start = at, st_end = at + length needle, st_term = ti, st_noise = noise\<rparr>
               # locate_term folded needle ti noise (at + length needle))"
  by pat_completeness auto
termination
  by (relation "measure (\<lambda>(f, n, t, z, cursor). length f + 1 - cursor)")
    (auto dest!: indexRunes_Some simp: neq_Nil_conv)

declare locate_term.simps [simp del]

text \<open>The insertion sort: the sorted part in reverse, shifted while greater.\<close>

definition site_gt :: "site \<Rightarrow> site \<Rightarrow> bool" where
  "site_gt a b \<longleftrightarrow> st_start a > st_start b \<or> (st_start a = st_start b \<and> st_term a > st_term b)"

fun shift_site :: "site \<Rightarrow> site list \<Rightarrow> site list" where
  "shift_site cur [] = [cur]"
| "shift_site cur (y # ys) = (if site_gt y cur then y # shift_site cur ys else cur # y # ys)"

definition sortSitesByStart :: "site list \<Rightarrow> site list" where
  "sortSitesByStart sites = rev (fold shift_site sites [])"

definition locateSites :: "unicode \<Rightarrow> string \<Rightarrow> string \<Rightarrow> site list" where
  "locateSites U content query =
     (let terms = splitTerms U query in
      if terms = [] then []
      else sortSitesByStart (concat (map (\<lambda>(ti, term).
             locate_term (foldRunes U content) (foldRunes U (qt_text term)) ti (qt_noise term) 0)
             (enumerate 0 terms))))"

definition evidenceSites :: "site list \<Rightarrow> site list" where
  "evidenceSites sites =
     (let out = filter (\<lambda>s. \<not> st_noise s) sites in if out = [] then sites else out)"

definition clamp :: "int \<Rightarrow> int \<Rightarrow> int \<Rightarrow> int" where
  "clamp v lo hi = (let hi = (if hi < lo then lo else hi) in if v < lo then lo else if v > hi then hi else v)"

fun count_window :: "site list \<Rightarrow> int \<Rightarrow> int \<Rightarrow> nat list \<Rightarrow> nat \<Rightarrow> nat \<Rightarrow> nat \<times> nat" where
  "count_window [] from to seen dist tot = (dist, tot)"
| "count_window (s # sites) from to seen dist tot =
     (if int (st_start s) \<ge> to then (dist, tot)
      else if int (st_start s) < from \<or> int (st_end s) > to then count_window sites from to seen dist tot
      else if st_term s \<in> set seen then count_window sites from to seen dist (tot + 1)
      else count_window sites from to (st_term s # seen) (dist + 1) (tot + 1))"

definition countInWindow :: "site list \<Rightarrow> int \<Rightarrow> int \<Rightarrow> nat \<times> nat" where
  "countInWindow sites from to = count_window sites from to [] 0 0"

fun sitesIn :: "site list \<Rightarrow> int \<Rightarrow> int \<Rightarrow> site list" where
  "sitesIn [] from to = []"
| "sitesIn (s # sites) from to =
     (if int (st_start s) \<ge> to then []
      else if int (st_start s) \<ge> from \<and> int (st_end s) \<le> to then s # sitesIn sites from to
      else sitesIn sites from to)"

definition anchor_step :: "int \<Rightarrow> int \<Rightarrow> site \<Rightarrow> int \<times> int \<Rightarrow> int \<times> int" where
  "anchor_step from to a = (\<lambda>(lo, hi).
     if int (st_start a) < from \<or> int (st_end a) > to then (lo, hi)
     else (if lo = -1 \<or> int (st_start a) < lo then int (st_start a) else lo,
           if hi = -1 \<or> int (st_end a) > hi then int (st_end a) else hi))"

definition anchorBounds :: "site list \<Rightarrow> int \<Rightarrow> int \<Rightarrow> int \<times> int" where
  "anchorBounds anchors from to = fold (anchor_step from to) anchors (-1, -1)"

text \<open>The loop of \<open>densestWindow\<close>: best distinct, best total, best start.\<close>

definition densest_step ::
  "site list \<Rightarrow> int \<Rightarrow> int \<Rightarrow> site \<Rightarrow> int \<times> int \<times> int \<Rightarrow> int \<times> int \<times> int" where
  "densest_step sites n bgt s = (\<lambda>(bestDistinct, bestTotal, bestFrom).
     let cand = clamp (int (st_start s)) 0 (n - bgt);
         (distinct, total) = countInWindow sites cand (cand + bgt)
     in if int distinct > bestDistinct \<or> (int distinct = bestDistinct \<and> int total > bestTotal)
        then (int distinct, int total, cand) else (bestDistinct, bestTotal, bestFrom))"

definition densestWindow :: "site list \<Rightarrow> int \<Rightarrow> int \<times> int" where
  "densestWindow sites n =
     (let bgt = min (int snippetBudgetRunes) n;
          (bestDistinct, bestTotal, bestFrom) = fold (densest_step sites n bgt) sites (-1, -1, 0);
          (spanLo, spanHi) = anchorBounds (sitesIn sites bestFrom (bestFrom + bgt)) bestFrom (bestFrom + bgt)
      in if spanLo < 0 then (bestFrom, bestFrom + bgt)
         else
           (let slack = bgt - (spanHi - spanLo);
                from = clamp (spanLo - slack div 2) 0 (n - bgt)
            in (from, from + bgt)))"

subsection \<open>Snapping\<close>

text \<open>\<open>for i < to && P(i) { i++ }\<close> and \<open>for i > lo && P(i) { i-- }\<close>.\<close>

function advance :: "(nat \<Rightarrow> bool) \<Rightarrow> nat \<Rightarrow> nat \<Rightarrow> nat" where
  "advance P to i = (if i < to \<and> P i then advance P to (i + 1) else i)"
  by pat_completeness auto
termination by (relation "measure (\<lambda>(P, to, i). to - i)") auto

function retreat :: "(nat \<Rightarrow> bool) \<Rightarrow> nat \<Rightarrow> nat \<Rightarrow> nat" where
  "retreat P lo i = (if i > lo \<and> P i then retreat P lo (i - 1) else i)"
  by pat_completeness auto
termination by (relation "measure (\<lambda>(P, lo, i). i)") auto

declare advance.simps [simp del] retreat.simps [simp del]

definition isTerminator :: "nat \<Rightarrow> bool" where
  "isTerminator r \<longleftrightarrow> r = 46 \<or> r = 33 \<or> r = 63 \<or> r = 10"

definition snapLines :: "nat list \<Rightarrow> nat \<Rightarrow> nat \<Rightarrow> nat \<times> nat" where
  "snapLines rs from to =
     (let newFrom = (if from > 0 \<and> rs ! (from - 1) \<noteq> 10
                     then advance (\<lambda>i. rs ! (i - 1) \<noteq> 10) to from else from);
          newTo = retreat (\<lambda>i. rs ! (i - 1) \<noteq> 10) newFrom to
      in if newFrom \<ge> newTo then (from, to) else (newFrom, newTo))"

definition wordStartForward :: "nat list \<Rightarrow> nat \<Rightarrow> nat \<Rightarrow> nat" where
  "wordStartForward rs from to =
     (let i = advance (\<lambda>i. rs ! i \<noteq> 32) to from;
          i = advance (\<lambda>i. rs ! i = 32) to i
      in if i \<ge> to then from else i)"

definition wordEndBackward :: "nat list \<Rightarrow> nat \<Rightarrow> nat \<Rightarrow> nat" where
  "wordEndBackward rs from to =
     (let i = retreat (\<lambda>i. rs ! (i - 1) \<noteq> 32) from to;
          i = retreat (\<lambda>i. rs ! (i - 1) = 32) from i
      in if i \<le> from then to else i)"

definition snapProse :: "nat list \<Rightarrow> nat \<Rightarrow> nat \<Rightarrow> nat \<times> nat" where
  "snapProse rs from to =
     (let newFrom =
            (if from > 0 \<and> \<not> isTerminator (rs ! (from - 1)) then
               (let i = advance (\<lambda>i. \<not> isTerminator (rs ! i)) to from in
                if i < to then advance (\<lambda>i. isTerminator (rs ! i) \<or> rs ! i = 32) to i
                else wordStartForward rs from to)
             else from);
          newTo =
            (if to < length rs then
               (let i = retreat (\<lambda>i. \<not> isTerminator (rs ! (i - 1))) newFrom to in
                if i > newFrom then i else wordEndBackward rs newFrom to)
             else to)
      in if newFrom \<ge> newTo then (from, to) else (newFrom, newTo))"

definition run_slice :: "nat list \<Rightarrow> nat \<Rightarrow> nat \<Rightarrow> string" where
  "run_slice rs from to = string_of_runes (take (to - from) (drop from rs))"

definition snap_bounds :: "nat list \<Rightarrow> nat \<Rightarrow> nat \<Rightarrow> string \<Rightarrow> site list \<Rightarrow> nat \<times> nat" where
  "snap_bounds rs from to contentType anchors =
     (let (protectFrom, protectTo) = anchorBounds anchors (int from) (int to);
          (newFrom, newTo) = (if contentType = ''code'' then snapLines rs from to else snapProse rs from to);
          newFrom = (if protectFrom \<ge> 0 \<and> int newFrom > protectFrom then from else newFrom);
          newTo = (if protectTo \<ge> 0 \<and> int newTo < protectTo then to else newTo)
      in if newFrom \<ge> newTo then (from, to) else (newFrom, newTo))"

definition snapWindow :: "nat list \<Rightarrow> int \<Rightarrow> int \<Rightarrow> string \<Rightarrow> site list \<Rightarrow> string" where
  "snapWindow rs from to contentType anchors =
     (let to = (if to > int (length rs) then length rs else nat to);
          from = (if from < 0 then 0 else nat from)
      in if from \<ge> to then run_slice rs from to
         else (case snap_bounds rs from to contentType anchors of (f, t) \<Rightarrow> run_slice rs f t))"

definition extractSnippet :: "unicode \<Rightarrow> string \<Rightarrow> string \<Rightarrow> string \<Rightarrow> snippetResult" where
  "extractSnippet U content contentType query =
     (let rs = runes content in
      if length rs \<le> snippetBudgetRunes then \<lparr>snip_text = content, snip_fallback = False\<rparr>
      else
        (let sites = locateSites U content query in
         if sites = []
         then \<lparr>snip_text = snapWindow rs 0 (int snippetBudgetRunes) contentType [], snip_fallback = True\<rparr>
         else
           (let anchors = evidenceSites sites;
                (from, to) = densestWindow anchors (int (length rs))
            in \<lparr>snip_text = snapWindow rs from to contentType (sitesIn anchors from to),
                snip_fallback = False\<rparr>)))"

section \<open>Sites\<close>

definition site_le :: "site \<Rightarrow> site \<Rightarrow> bool" where "site_le a b \<longleftrightarrow> \<not> site_gt a b"

lemma shift_site_mset [simp]: "mset (shift_site c ys) = add_mset c (mset ys)"
  by (induction ys) auto

lemma sortSites_mset: "mset (sortSitesByStart sites) = mset sites"
proof -
  have "mset (fold shift_site sites acc) = mset sites + mset acc" for acc
    by (induction sites arbitrary: acc) simp_all
  then show ?thesis by (simp add: sortSitesByStart_def)
qed

lemma site_gt_trans: "\<not> site_gt b a \<Longrightarrow> \<not> site_gt c b \<Longrightarrow> \<not> site_gt c a"
  by (auto simp: site_gt_def)

lemma site_gt_asym: "site_gt a b \<Longrightarrow> \<not> site_gt b a"
  by (auto simp: site_gt_def)

lemma shift_site_sorted:
  "sorted_wrt (\<lambda>a b. \<not> site_gt b a) ys \<Longrightarrow> sorted_wrt (\<lambda>a b. \<not> site_gt b a) (shift_site c ys)"
proof (induction ys)
  case (Cons y ys)
  have "set (shift_site c ys) = insert c (set ys)" by (metis set_mset_add_mset_insert set_mset_mset shift_site_mset)
  then show ?case using Cons site_gt_trans [of y c] site_gt_asym [of y c] by auto
qed simp

text \<open>The sites are in order of their start, ties by term.\<close>

lemma sortSites_sorted: "sorted_wrt (\<lambda>a b. \<not> site_gt a b) (sortSitesByStart sites)"
proof -
  have "sorted_wrt (\<lambda>a b. \<not> site_gt b a) acc \<Longrightarrow> sorted_wrt (\<lambda>a b. \<not> site_gt b a) (fold shift_site sites acc)" for acc
    by (induction sites arbitrary: acc) (simp_all add: shift_site_sorted)
  then show ?thesis by (simp add: sortSitesByStart_def sorted_wrt_rev)
qed

definition sites_wf :: "site list \<Rightarrow> nat \<Rightarrow> bool" where
  "sites_wf sites n \<longleftrightarrow> sorted (map st_start sites) \<and> (\<forall>s\<in>set sites. st_start s < st_end s \<and> st_end s \<le> n)"

lemma locate_term_wf:
  "\<forall>s\<in>set (locate_term f needle ti z cursor). st_start s < st_end s \<and> st_end s \<le> length f
      \<and> st_term s = ti \<and> take (length needle) (drop (st_start s) f) = needle \<and> needle \<noteq> []"
proof (induction f needle ti z cursor rule: locate_term.induct)
  case (1 f needle ti z cursor)
  show ?case
  proof (cases "needle = [] \<or> indexRunes f needle cursor = None")
    case True
    then show ?thesis by (subst locate_term.simps) auto
  next
    case False
    then obtain i where i: "indexRunes f needle cursor = Some i" by auto
    note b = indexRunes_Some [OF i]
    have "locate_term f needle ti z cursor
        = \<lparr>st_start = i, st_end = i + length needle, st_term = ti, st_noise = z\<rparr>
          # locate_term f needle ti z (i + length needle)"
      using False i by (subst locate_term.simps) simp
    then show ?thesis using 1 False i b by simp
  qed
qed

text \<open>Every term that occurs somewhere is located.\<close>

lemma locate_term_finds:
  assumes "needle \<noteq> []" "i + length needle \<le> length f" "take (length needle) (drop i f) = needle"
  shows "locate_term f needle ti z 0 \<noteq> []"
  using assms indexRunes_None [of f needle 0 i]
  by (subst locate_term.simps) (auto split: option.split)

lemma enumerate_term: "(ti, t) \<in> set (enumerate 0 ts) \<Longrightarrow> t \<in> set ts"
  by (simp add: in_set_enumerate_eq) (metis nth_mem)

lemma set_locateSites:
  "set (locateSites U content query) =
     (\<Union>(ti, term) \<in> set (enumerate 0 (splitTerms U query)).
        set (locate_term (foldRunes U content) (foldRunes U (qt_text term)) ti (qt_noise term) 0))"
proof (cases "splitTerms U query = []")
  case False
  have "set (sortSitesByStart xs) = set xs" for xs using sortSites_mset [of xs] by (rule mset_eq_setD)
  then show ?thesis using False by (auto simp: locateSites_def Let_def)
qed (simp add: locateSites_def)

lemma locateSites_wf: "sites_wf (locateSites U content query) (length (runes content))"
proof -
  have "sorted (map st_start (sortSitesByStart xs))" for xs
    using sortSites_sorted [of xs] by (auto simp: sorted_map site_gt_def elim!: sorted_wrt_mono_rel [rotated])
  moreover have "length (foldRunes U content) = length (runes content)" by (simp add: foldRunes_def)
  ultimately show ?thesis
    using locate_term_wf [of "foldRunes U content"] set_locateSites [of U content query]
    by (fastforce simp: sites_wf_def locateSites_def Let_def)
qed

lemma locateSites_empty_iff:
  "locateSites U content query = [] \<longleftrightarrow>
     (\<forall>t\<in>set (splitTerms U query). let needle = foldRunes U (qt_text t) in
        needle = [] \<or> \<not> (\<exists>i. i + length needle \<le> length (runes content)
                               \<and> take (length needle) (drop i (foldRunes U content)) = needle))"
  (is "?L \<longleftrightarrow> ?R")
proof
  assume empty: ?L
  show ?R unfolding Let_def
  proof (intro ballI disjCI notI)
    fix t assume t: "t \<in> set (splitTerms U query)"
      and ex: "\<not> \<not> (\<exists>i. i + length (foldRunes U (qt_text t)) \<le> length (runes content)
            \<and> take (length (foldRunes U (qt_text t))) (drop i (foldRunes U content)) = foldRunes U (qt_text t))"
    show "foldRunes U (qt_text t) = []"
    proof (rule ccontr)
      assume ne: "foldRunes U (qt_text t) \<noteq> []"
      obtain ti where "ti < length (splitTerms U query)" "splitTerms U query ! ti = t"
        using t by (auto simp: in_set_conv_nth)
      then have "(ti, t) \<in> set (enumerate 0 (splitTerms U query))" by (simp add: in_set_enumerate_eq)
      moreover have "locate_term (foldRunes U content) (foldRunes U (qt_text t)) ti (qt_noise t) 0 \<noteq> []"
        using ex locate_term_finds [OF ne] by (auto simp: foldRunes_def)
      ultimately have "set (locateSites U content query) \<noteq> {}" unfolding set_locateSites by fastforce
      then show False using empty by simp
    qed
  qed
next
  assume R: ?R
  show ?L
  proof (rule ccontr)
    assume "\<not> ?L"
    then obtain s where "s \<in> set (locateSites U content query)" by (metis last_in_set)
    then obtain ti t where t: "(ti, t) \<in> set (enumerate 0 (splitTerms U query))"
        "s \<in> set (locate_term (foldRunes U content) (foldRunes U (qt_text t)) ti (qt_noise t) 0)"
      unfolding set_locateSites by auto
    let ?n = "foldRunes U (qt_text t)" and ?f = "foldRunes U content"
    note w = bspec [OF locate_term_wf t(2)]
    have "length (take (length ?n) (drop (st_start s) ?f)) = length ?n" using w by simp
    then have "st_start s + length ?n \<le> length (runes content)" using w
      by (auto simp: foldRunes_def)
    then show False using R enumerate_term [OF t(1)] w by (auto simp: Let_def)
  qed
qed

lemma evidenceSites_wf: "sites_wf sites n \<Longrightarrow> sites_wf (evidenceSites sites) n"
  by (auto simp: sites_wf_def evidenceSites_def Let_def sorted_filter)

lemma evidenceSites_ne: "sites \<noteq> [] \<Longrightarrow> evidenceSites sites \<noteq> []"
  by (simp add: evidenceSites_def Let_def)

section \<open>The densest window\<close>

definition covered :: "int \<Rightarrow> int \<Rightarrow> site \<Rightarrow> bool" where
  "covered from to s \<longleftrightarrow> from \<le> int (st_start s) \<and> int (st_end s) \<le> to"

lemma sitesIn_filter: "sites_wf sites n \<Longrightarrow> sitesIn sites from to = filter (covered from to) sites"
proof (induction sites)
  case (Cons s sites)
  have wf: "sites_wf sites n" using Cons.prems by (simp add: sites_wf_def)
  show ?case
  proof (cases "int (st_start s) \<ge> to")
    case True
    have "\<not> covered from to x" if "x \<in> set (s # sites)" for x
    proof -
      have "st_start s \<le> st_start x" "st_start x < st_end x"
        using Cons.prems that by (auto simp: sites_wf_def)
      then show ?thesis using True by (simp add: covered_def)
    qed
    then show ?thesis using True by (auto simp: filter_empty_conv)
  next
    case False
    then show ?thesis using Cons.IH [OF wf] by (simp add: covered_def)
  qed
qed simp

lemma count_window_eq:
  "sites_wf sites n \<Longrightarrow> count_window sites from to seen d t
     = (d + card (st_term ` set (filter (covered from to) sites) - set seen),
        t + length (filter (covered from to) sites))"
proof (induction sites arbitrary: seen d t)
  case (Cons s sites)
  have wf: "sites_wf sites n" using Cons.prems by (simp add: sites_wf_def)
  let ?cs = "filter (covered from to) sites"
  consider (stop) "int (st_start s) \<ge> to" | (out) "int (st_start s) < to" "\<not> covered from to s"
    | (cov) "int (st_start s) < to" "covered from to s" by linarith
  then show ?case
  proof cases
    case stop
    then have "filter (covered from to) (s # sites) = []"
      using sitesIn_filter [OF Cons.prems, of "from" to] by simp
    then show ?thesis using stop by (simp del: filter.simps)
  next
    case out
    then show ?thesis using Cons.IH [OF wf] by (auto simp: covered_def)
  next
    case cov
    have fin: "finite (st_term ` set ?cs - set seen)" by simp
    show ?thesis
    proof (cases "st_term s \<in> set seen")
      case True
      then have "insert (st_term s) (st_term ` set ?cs) - set seen = st_term ` set ?cs - set seen" by blast
      then show ?thesis using cov True Cons.IH [OF wf] by (simp add: covered_def)
    next
      case False
      have "insert (st_term s) (st_term ` set ?cs) - set seen
          = insert (st_term s) (st_term ` set ?cs - set (st_term s # seen))" using False by auto
      then have "card (insert (st_term s) (st_term ` set ?cs) - set seen)
          = Suc (card (st_term ` set ?cs - set (st_term s # seen)))" by simp
      then show ?thesis using cov False Cons.IH [OF wf] by (simp add: covered_def)
    qed
  qed
qed simp

lemma countInWindow_eq:
  "sites_wf sites n \<Longrightarrow> countInWindow sites from to
     = (card (st_term ` set (filter (covered from to) sites)), length (filter (covered from to) sites))"
  using count_window_eq [of sites n "from" to "[]" 0 0] by (simp add: countInWindow_def)

definition lex_le :: "nat \<times> nat \<Rightarrow> nat \<times> nat \<Rightarrow> bool" where
  "lex_le a b \<longleftrightarrow> fst a < fst b \<or> (fst a = fst b \<and> snd a \<le> snd b)"

lemma lex_le_trans: "lex_le a b \<Longrightarrow> lex_le b c \<Longrightarrow> lex_le a c"
  by (auto simp: lex_le_def)

lemma lex_le_total: "lex_le a b \<or> lex_le b a"
  by (auto simp: lex_le_def)

lemma count_mono:
  assumes "sites_wf sites n" "\<forall>s\<in>set sites. covered f t s \<longrightarrow> covered f' t' s"
  shows "lex_le (countInWindow sites f t) (countInWindow sites f' t')"
proof -
  have sub: "set (filter (covered f t) sites) \<subseteq> set (filter (covered f' t') sites)" using assms(2) by auto
  then have c: "card (st_term ` set (filter (covered f t) sites)) \<le> card (st_term ` set (filter (covered f' t') sites))"
    by (intro card_mono image_mono) auto
  have "filter (covered f t) (filter (covered f' t') sites) = filter (covered f t) sites"
    using assms(2) by (auto intro: filter_cong)
  then have "length (filter (covered f t) sites) \<le> length (filter (covered f' t') sites)"
    by (metis length_filter_le)
  then show ?thesis using c by (auto simp: lex_le_def countInWindow_eq [OF assms(1)])
qed

lemma clamp_bounds: "lo \<le> hi \<Longrightarrow> lo \<le> clamp v lo hi \<and> clamp v lo hi \<le> hi"
  by (simp add: clamp_def Let_def)

text \<open>The probes are complete: some probe covers all that a given window covers.\<close>

lemma probe_complete:
  assumes wf: "sites_wf sites n" and ne: "sites \<noteq> []" and b: "0 \<le> b" "b \<le> int n" and w: "0 \<le> w" "w \<le> int n - b"
  obtains s where "s \<in> set sites"
    "lex_le (countInWindow sites w (w + b))
       (countInWindow sites (clamp (int (st_start s)) 0 (int n - b)) (clamp (int (st_start s)) 0 (int n - b) + b))"
proof (cases "filter (covered w (w + b)) sites")
  case Nil
  then have "\<forall>s\<in>set sites. \<not> covered w (w + b) s" by (simp add: filter_empty_conv)
  then show ?thesis using that [of "hd sites"] ne count_mono [OF wf] by simp
next
  case (Cons s cs)
  then have s: "s \<in> set sites" "covered w (w + b) s" using filter_eq_ConsD [OF Cons] by auto
  have first: "st_start s \<le> st_start x" if "x \<in> set sites" "covered w (w + b) x" for x
  proof -
    have "sorted (map st_start (filter (covered w (w + b)) sites))"
      using wf by (simp add: sites_wf_def sorted_filter)
    moreover have "x \<in> set (s # cs)" unfolding Cons [symmetric] using that by simp
    ultimately show ?thesis using Cons by auto
  qed
  let ?c = "clamp (int (st_start s)) 0 (int n - b)"
  have sn: "int (st_start s) < int n" using wf s(1) by (auto simp: sites_wf_def)
  have "covered ?c (?c + b) x" if x: "x \<in> set sites" "covered w (w + b) x" for x
  proof -
    have "st_end x \<le> n" using wf x(1) by (auto simp: sites_wf_def)
    then show ?thesis using first [OF x] x(2) s(2) w b by (auto simp: covered_def clamp_def Let_def)
  qed
  then show ?thesis using that [OF s(1)] count_mono [OF wf] by blast
qed

text \<open>The loop keeps the best probe.\<close>

lemma densest_fold:
  assumes b: "0 \<le> b" "b \<le> n"
  shows "fold (densest_step sites n b) ss (-1, -1, 0) = (bd, bt, bf) \<Longrightarrow>
     0 \<le> bf \<and> bf \<le> n - b
     \<and> (ss \<noteq> [] \<longrightarrow> (bd, bt) = (int (fst (countInWindow sites bf (bf + b))), int (snd (countInWindow sites bf (bf + b)))))
     \<and> (ss = [] \<longrightarrow> (bd, bt) = (-1, -1))
     \<and> (\<forall>s\<in>set ss. lex_le (countInWindow sites (clamp (int (st_start s)) 0 (n - b)) (clamp (int (st_start s)) 0 (n - b) + b))
                  (countInWindow sites bf (bf + b)))"
proof (induction ss arbitrary: bd bt bf rule: rev_induct)
  case Nil
  then show ?case using b by simp
next
  case (snoc s ss)
  obtain d t f where p: "fold (densest_step sites n b) ss (-1, -1, 0) = (d, t, f)" by (metis prod_cases3)
  note IH = snoc.IH [OF p]
  let ?c = "clamp (int (st_start s)) 0 (n - b)"
  obtain cd ct where c: "countInWindow sites ?c (?c + b) = (cd, ct)" by fastforce
  have cb: "0 \<le> ?c" "?c \<le> n - b" using clamp_bounds [of 0 "n - b"] b by simp_all
  have step: "densest_step sites n b s (d, t, f) = (bd, bt, bf)" using snoc.prems p by simp
  show ?case
  proof (cases "int cd > d \<or> (int cd = d \<and> int ct > t)")
    case True
    then have r: "bd = int cd" "bt = int ct" "bf = ?c"
      using step c by (auto simp: densest_step_def Let_def)
    have "lex_le (countInWindow sites f (f + b)) (cd, ct)" if "ss \<noteq> []"
      using True IH that by (auto simp: lex_le_def)
    then show ?thesis using r c cb IH by (auto intro: lex_le_trans simp: lex_le_def [of "(cd, ct)" "(cd, ct)"])
  next
    case False
    then have r: "bd = d" "bt = t" "bf = f" using step c by (auto simp: densest_step_def Let_def)
    have ne: "ss \<noteq> []" using False IH by auto
    then have "lex_le (cd, ct) (countInWindow sites f (f + b))" using False IH by (auto simp: lex_le_def)
    then show ?thesis using r c IH ne by auto
  qed
qed

lemma anchorBounds_props:
  assumes "0 \<le> p"
  shows "case anchorBounds anch p r of (lo, hi) \<Rightarrow>
    (lo = -1 \<and> hi = -1 \<and> filter (covered p r) anch = [])
    \<or> (p \<le> lo \<and> hi \<le> r \<and> (\<exists>a\<in>set anch. covered p r a \<and> int (st_start a) = lo)
        \<and> (\<exists>a\<in>set anch. covered p r a \<and> int (st_end a) = hi)
        \<and> (\<forall>a\<in>set anch. covered p r a \<longrightarrow> lo \<le> int (st_start a) \<and> int (st_end a) \<le> hi))"
proof (induction anch rule: rev_induct)
  case (snoc a anch)
  obtain lo hi where ab: "anchorBounds anch p r = (lo, hi)" by fastforce
  have s: "anchorBounds (anch @ [a]) p r = anchor_step p r a (lo, hi)"
    using ab by (simp add: anchorBounds_def)
  show ?case
  proof (cases "covered p r a")
    case False
    then have "anchorBounds (anch @ [a]) p r = (lo, hi)"
      unfolding s by (auto simp: anchor_step_def covered_def)
    then show ?thesis using snoc ab False by auto
  next
    case True
    then have c: "\<not> (int (st_start a) < p \<or> int (st_end a) > r)" by (auto simp: covered_def)
    have nn: "lo = -1 \<longleftrightarrow> hi = -1" "lo = -1 \<or> 0 \<le> lo" "hi = -1 \<or> 0 \<le> hi" using snoc ab assms by auto
    show ?thesis using snoc ab True c nn unfolding s anchor_step_def by (auto simp: covered_def filter_empty_conv)
  qed
qed (simp add: anchorBounds_def)

lemma densestWindow_props:
  assumes wf: "sites_wf sites n" and ne: "sites \<noteq> []" and d: "densestWindow sites (int n) = (from, to)"
  defines "b \<equiv> min (int snippetBudgetRunes) (int n)"
  shows "0 \<le> from" "to = from + b" "to \<le> int n"
    "\<forall>w. 0 \<le> w \<and> w \<le> int n - b \<longrightarrow> lex_le (countInWindow sites w (w + b)) (countInWindow sites from to)"
proof -
  have b: "0 \<le> b" "b \<le> int n" by (simp_all add: b_def)
  obtain bd bt bf where f: "fold (densest_step sites (int n) b) sites (-1, -1, 0) = (bd, bt, bf)"
    by (metis prod_cases3)
  note F = densest_fold [OF b f]
  obtain lo hi where ab: "anchorBounds (sitesIn sites bf (bf + b)) bf (bf + b) = (lo, hi)" by fastforce
  have bf0: "0 \<le> bf" using F by blast
  have filt: "filter (covered bf (bf + b)) (sitesIn sites bf (bf + b)) = filter (covered bf (bf + b)) sites"
    by (simp add: sitesIn_filter [OF wf])
  note A = anchorBounds_props [OF bf0, where anch = "sitesIn sites bf (bf + b)" and r = "bf + b", unfolded ab prod.case filt]
  have res: "(from, to) = (if lo < 0 then (bf, bf + b)
      else (let from = clamp (lo - (b - (hi - lo)) div 2) 0 (int n - b) in (from, from + b)))"
    using d f ab by (simp add: densestWindow_def Let_def cong: if_cong flip: b_def)
  have "0 \<le> from \<and> to = from + b \<and> to \<le> int n \<and>
     (\<forall>s\<in>set sites. covered bf (bf + b) s \<longrightarrow> covered from to s)"
  proof (cases "lo < 0")
    case True
    then show ?thesis using res F by auto
  next
    case False
    let ?f = "clamp (lo - (b - (hi - lo)) div 2) 0 (int n - b)"
    have ft: "from = ?f" "to = ?f + b" using res False by (simp_all add: Let_def)
    have cb: "0 \<le> ?f" "?f \<le> int n - b" using clamp_bounds [of 0 "int n - b"] b by simp_all
    have lohi: "bf \<le> lo" "hi \<le> bf + b" "hi \<le> int n" "0 \<le> lo"
      using A False F by (auto simp: covered_def)
    have all: "\<forall>a\<in>set sites. covered bf (bf + b) a \<longrightarrow> lo \<le> int (st_start a) \<and> int (st_end a) \<le> hi"
      using A False by (auto simp: sitesIn_filter [OF wf])
    have "?f \<le> lo \<and> hi \<le> ?f + b"
    proof -
      have "lo \<le> hi"
      proof -
        obtain a where "a \<in> set sites" "covered bf (bf + b) a"
          using A False by (auto simp: sitesIn_filter [OF wf])
        then show ?thesis using all wf by (fastforce simp: sites_wf_def)
      qed
      then show ?thesis using lohi b by (auto simp: clamp_def Let_def)
    qed
    then show ?thesis using ft cb all by (auto simp: covered_def)
  qed
  then have fin: "0 \<le> from" "to = from + b" "to \<le> int n"
    "\<forall>s\<in>set sites. covered bf (bf + b) s \<longrightarrow> covered from to s" by blast+
  have up: "lex_le (countInWindow sites bf (bf + b)) (countInWindow sites from to)"
    by (rule count_mono [OF wf fin(4)])
  show "\<forall>w. 0 \<le> w \<and> w \<le> int n - b \<longrightarrow> lex_le (countInWindow sites w (w + b)) (countInWindow sites from to)"
  proof (intro allI impI)
    fix w assume w: "0 \<le> w \<and> w \<le> int n - b"
    obtain s where s: "s \<in> set sites" "lex_le (countInWindow sites w (w + b))
        (countInWindow sites (clamp (int (st_start s)) 0 (int n - b)) (clamp (int (st_start s)) 0 (int n - b) + b))"
      using probe_complete [OF wf ne b] w by metis
    have "lex_le (countInWindow sites (clamp (int (st_start s)) 0 (int n - b)) (clamp (int (st_start s)) 0 (int n - b) + b))
        (countInWindow sites bf (bf + b))" using F s(1) by blast
    then show "lex_le (countInWindow sites w (w + b)) (countInWindow sites from to)"
      using s(2) up lex_le_trans by blast
  qed
  show "0 \<le> from" "to = from + b" "to \<le> int n" by (fact fin)+
qed

section \<open>Snapping\<close>

lemma advance_bounds: "i \<le> to \<Longrightarrow> i \<le> advance P to i \<and> advance P to i \<le> to"
proof (induction P to i rule: advance.induct)
  case (1 P to i)
  then show ?case by (subst (1 2) advance.simps) (auto dest: Suc_leD)
qed

lemma retreat_bounds: "lo \<le> i \<Longrightarrow> lo \<le> retreat P lo i \<and> retreat P lo i \<le> i"
proof (induction P lo i rule: retreat.induct)
  case (1 P lo i)
  show ?case
  proof (cases "i > lo \<and> P i")
    case True
    then have "retreat P lo i = retreat P lo (i - 1)" by (simp add: retreat.simps [of P lo i])
    moreover have "lo \<le> i - 1" using True by linarith
    then have "lo \<le> retreat P lo (i - 1) \<and> retreat P lo (i - 1) \<le> i - 1" using 1(1) [OF True] by blast
    ultimately show ?thesis by linarith
  next
    case False
    then have "retreat P lo i = i" by (auto simp: retreat.simps [of P lo i])
    then show ?thesis using 1(2) by simp
  qed
qed

lemma wordStart_bounds: "from \<le> to \<Longrightarrow> from \<le> wordStartForward rs from to \<and> wordStartForward rs from to \<le> to"
  using advance_bounds [of "from" to "\<lambda>i. rs ! i \<noteq> 32"]
    advance_bounds [of "advance (\<lambda>i. rs ! i \<noteq> 32) to from" to "\<lambda>i. rs ! i = 32"]
  by (auto simp: wordStartForward_def Let_def)

lemma wordEnd_bounds: "from \<le> to \<Longrightarrow> from \<le> wordEndBackward rs from to \<and> wordEndBackward rs from to \<le> to"
  using retreat_bounds [of "from" to "\<lambda>i. rs ! (i - 1) \<noteq> 32"]
    retreat_bounds [of "from" "retreat (\<lambda>i. rs ! (i - 1) \<noteq> 32) from to" "\<lambda>i. rs ! (i - 1) = 32"]
  by (auto simp: wordEndBackward_def Let_def)

lemma snapLines_bounds:
  assumes "from < to" "snapLines rs from to = (f, t)"
  shows "from \<le> f" "f < t" "t \<le> to"
proof -
  define nf where "nf = (if from > 0 \<and> rs ! (from - 1) \<noteq> 10
      then advance (\<lambda>i. rs ! (i - 1) \<noteq> 10) to from else from)"
  have nf: "from \<le> nf" "nf \<le> to" using advance_bounds [of "from" to] assms(1) by (auto simp: nf_def)
  have "nf \<le> retreat (\<lambda>i. rs ! (i - 1) \<noteq> 10) nf to \<and> retreat (\<lambda>i. rs ! (i - 1) \<noteq> 10) nf to \<le> to"
    using retreat_bounds nf(2) by blast
  moreover define nt where "nt = retreat (\<lambda>i. rs ! (i - 1) \<noteq> 10) nf to"
  moreover have "snapLines rs from to = (if nf \<ge> nt then (from, to) else (nf, nt))"
    unfolding snapLines_def nf_def [symmetric] Let_def [of nf] nt_def [symmetric] Let_def [of nt] ..
  ultimately show "from \<le> f" "f < t" "t \<le> to"
    using assms nf by (auto split: if_splits)
qed

lemma snapProse_bounds:
  assumes "from < to" "snapProse rs from to = (f, t)"
  shows "from \<le> f" "f < t" "t \<le> to"
proof -
  define nf where "nf = (if from > 0 \<and> \<not> isTerminator (rs ! (from - 1)) then
        (let i = advance (\<lambda>i. \<not> isTerminator (rs ! i)) to from in
         if i < to then advance (\<lambda>i. isTerminator (rs ! i) \<or> rs ! i = 32) to i
         else wordStartForward rs from to) else from)"
  have nf: "from \<le> nf" "nf \<le> to"
  proof -
    let ?i = "advance (\<lambda>i. \<not> isTerminator (rs ! i)) to from"
    have i: "from \<le> ?i" "?i \<le> to" using advance_bounds [of "from" to] assms(1) by auto
    have j: "?i \<le> advance (\<lambda>i. isTerminator (rs ! i) \<or> rs ! i = 32) to ?i"
      "advance (\<lambda>i. isTerminator (rs ! i) \<or> rs ! i = 32) to ?i \<le> to"
      using advance_bounds [OF i(2)] by auto
    show "from \<le> nf" "nf \<le> to"
      using i j wordStart_bounds [of "from" to rs] assms(1) by (auto simp: nf_def Let_def)
  qed
  define nt where "nt = (if to < length rs then
        (let i = retreat (\<lambda>i. \<not> isTerminator (rs ! (i - 1))) nf to in
         if i > nf then i else wordEndBackward rs nf to) else to)"
  have "nf \<le> nt" "nt \<le> to"
    using retreat_bounds [OF nf(2)] wordEnd_bounds [OF nf(2)] nf(2) by (auto simp: nt_def Let_def)
  moreover have "snapProse rs from to = (if nf \<ge> nt then (from, to) else (nf, nt))"
    unfolding snapProse_def nf_def [symmetric] Let_def [of nf] nt_def [symmetric] Let_def [of nt] ..
  ultimately show "from \<le> f" "f < t" "t \<le> to"
    using assms nf by (auto split: if_splits)
qed

lemma snap_bounds_props:
  assumes "from < to" "snap_bounds rs from to ct anchors = (f, t)"
  shows "from \<le> f" "f < t" "t \<le> to"
    "\<forall>a\<in>set anchors. covered (int from) (int to) a \<longrightarrow> covered (int f) (int t) a"
proof -
  obtain lo hi where ab: "anchorBounds anchors (int from) (int to) = (lo, hi)" by fastforce
  obtain nf nt where s: "(if ct = ''code'' then snapLines rs from to else snapProse rs from to) = (nf, nt)" by fastforce
  have n: "from \<le> nf" "nf < nt" "nt \<le> to"
    using snapLines_bounds [OF assms(1)] snapProse_bounds [OF assms(1)] s by (auto split: if_splits)
  have A: "(lo = -1 \<and> hi = -1 \<and> filter (covered (int from) (int to)) anchors = [])
    \<or> (int from \<le> lo \<and> hi \<le> int to
        \<and> (\<exists>a\<in>set anchors. covered (int from) (int to) a \<and> int (st_end a) = hi)
        \<and> (\<forall>a\<in>set anchors. covered (int from) (int to) a \<longrightarrow> lo \<le> int (st_start a) \<and> int (st_end a) \<le> hi))"
    using anchorBounds_props [where p = "int from" and anch = anchors and r = "int to"] ab by auto
  define f' where "f' = (if lo \<ge> 0 \<and> int nf > lo then from else nf)"
  define t' where "t' = (if hi \<ge> 0 \<and> int nt < hi then to else nt)"
  have ft: "(f, t) = (if f' \<ge> t' then (from, to) else (f', t'))"
    using assms(2) unfolding snap_bounds_def ab s prod.case Let_def f'_def t'_def by simp
  have b: "from \<le> f'" "t' \<le> to" using n assms(1) by (auto simp: f'_def t'_def)
  show "from \<le> f" "f < t" "t \<le> to" using ft b assms(1) by (auto split: if_splits)
  show "\<forall>a\<in>set anchors. covered (int from) (int to) a \<longrightarrow> covered (int f) (int t) a"
  proof (intro ballI impI)
    fix a assume a: "a \<in> set anchors" "covered (int from) (int to) a"
    then have "filter (covered (int from) (int to)) anchors \<noteq> []" by (auto simp: filter_empty_conv)
    then have l: "int from \<le> lo" "lo \<le> int (st_start a)" "int (st_end a) \<le> hi" "hi \<le> int to" "0 \<le> hi"
      using A a by auto
    then have "int f' \<le> int (st_start a)" "int (st_end a) \<le> int t'" by (auto simp: f'_def t'_def)
    then show "covered (int f) (int t) a" using ft a(2) by (auto simp: covered_def split: if_splits)
  qed
qed

section \<open>The snippet\<close>

lemma run_slice_sublist:
  assumes "valid_utf8 content"
  shows "sublist (run_slice (runes content) f t) content"
  using sublist_string_of_runes [OF sublist_slice] string_of_runes_runes [OF assms]
  by (metis run_slice_def)

lemma run_slice_ne: "f < t \<Longrightarrow> t \<le> length rs \<Longrightarrow> run_slice rs f t \<noteq> []"
  by (cases "take (t - f) (drop f rs)") (auto simp: run_slice_def string_of_runes_def)

text \<open>What a snippet of an over-budget chunk is: a run of at most 400 runes, which shows every
  site that the chosen window covers.\<close>

lemma extractSnippet_long:
  assumes long: "snippetBudgetRunes < length (runes content)"
  obtains f t where "snip_text (extractSnippet U content ct q) = run_slice (runes content) f t"
    "f < t" "t \<le> length (runes content)" "t - f \<le> snippetBudgetRunes"
    "snip_fallback (extractSnippet U content ct q) \<longleftrightarrow> locateSites U content q = []"
    "locateSites U content q \<noteq> [] \<Longrightarrow>
       (\<forall>a\<in>set (evidenceSites (locateSites U content q)).
          covered (fst (densestWindow (evidenceSites (locateSites U content q)) (int (length (runes content)))))
            (snd (densestWindow (evidenceSites (locateSites U content q)) (int (length (runes content))))) a
          \<longrightarrow> covered (int f) (int t) a)"
proof -
  let ?rs = "runes content" and ?sites = "locateSites U content q"
  show ?thesis
  proof (cases "?sites = []")
    case True
    obtain f t where ft: "snap_bounds ?rs 0 400 ct [] = (f, t)" by fastforce
    have "(0::nat) < 400" by simp
    note S = snap_bounds_props [OF this ft]
    have "extractSnippet U content ct q = \<lparr>snip_text = run_slice ?rs f t, snip_fallback = True\<rparr>"
      using True long ft by (simp add: extractSnippet_def Let_def snapWindow_def snippetBudgetRunes_def)
    then show ?thesis using that [of f t] S long True by (simp add: snippetBudgetRunes_def)
  next
    case False
    let ?e = "evidenceSites ?sites"
    obtain a b where d: "densestWindow ?e (int (length ?rs)) = (a, b)" by fastforce
    note wf = evidenceSites_wf [OF locateSites_wf [of U content q]]
    note D = densestWindow_props [OF wf evidenceSites_ne [OF False] d]
    have bgt: "min (int snippetBudgetRunes) (int (length ?rs)) = 400" using long by (simp add: snippetBudgetRunes_def)
    have ab: "0 \<le> a" "b = a + 400" "b \<le> int (length ?rs)" using D bgt by auto
    then have lt: "nat a < nat b" "\<not> nat (a + 400) \<le> nat a" by auto
    obtain f t where ft: "snap_bounds ?rs (nat a) (nat b) ct (sitesIn ?e a b) = (f, t)" by fastforce
    note S = snap_bounds_props [OF lt(1) ft]
    have "extractSnippet U content ct q = \<lparr>snip_text = run_slice ?rs f t, snip_fallback = False\<rparr>"
      using False long ft ab lt d by (simp add: extractSnippet_def Let_def snapWindow_def)
    moreover have "\<forall>s\<in>set ?e. covered a b s \<longrightarrow> covered (int f) (int t) s"
      using S(4) ab by (simp add: sitesIn_filter [OF wf])
    moreover have "t - f \<le> 400" "t \<le> length ?rs" using S ab by auto
    ultimately show ?thesis using that [of f t] S(2) d False by (simp add: snippetBudgetRunes_def)
  qed
qed

end
