(* ===== verification/Search_Store.thy ===== *)
theory Search_Store
  imports Store_Inv Snippet Go_Json
begin

text \<open>
  The search path of the store: internal/db/pg_sources.go (\<open>Search\<close>, \<open>searchOne\<close>,
  \<open>classCandidates\<close>), pg_textsearch.go (the two tokenizer classes and their candidate query)
  and pg_trgm.go (the trigram fallback).

  What the database extensions compute is a parameter, the record \<open>text_search\<close>: the
  distinct lexemes of a text under a class, the negated BM25 scores of a chunk's title and
  content, and word similarity with its threshold operator.
\<close>

record 'f text_search =
  ts_lex :: lexer
  ts_bm_title :: "tables \<Rightarrow> bool \<Rightarrow> string \<Rightarrow> chunk_row \<Rightarrow> 'f"
  ts_bm_content :: "tables \<Rightarrow> bool \<Rightarrow> string \<Rightarrow> chunk_row \<Rightarrow> 'f"
  ts_similarity :: "string \<Rightarrow> string \<Rightarrow> 'f"
  ts_word_similar :: "string \<Rightarrow> string \<Rightarrow> bool"

section \<open>Definitions\<close>

definition rrfK :: int where "rrfK = 60"
definition minTrigramTermLen :: nat where "minTrigramTermLen = 3"
definition maxTrigramTerms :: nat where "maxTrigramTerms = 8"

subsection \<open>Layer 1: BM25 candidates of a tokenizer class\<close>

record 'f bm25Candidate =
  bc_id :: int
  bc_title :: string
  bc_content :: string
  bc_contentType :: string
  bc_label :: string
  bc_matchesAll :: bool
  bc_rrf :: 'f
  bc_score :: 'f

text \<open>The class \<open>code = True\<close> is the \<open>simple\<close> configuration with the predicate
  \<open>content_type = 'code'\<close>, the other one the \<open>english\<close> configuration with its negation.\<close>

definition bm25Classes :: "bool list" where "bm25Classes = [False, True]"

text \<open>Chunks joined with their source, restricted to a session of the namespace and, when a
  source label is given, to that source.\<close>

definition scoped_chunks :: "tables \<Rightarrow> string \<Rightarrow> int \<Rightarrow> string \<Rightarrow> (chunk_row \<times> string) list" where
  "scoped_chunks t ns sid source =
     (if session_in t ns sid
      then [(c, so_label s). c \<leftarrow> chunks t, s \<leftarrow> sources t,
              ch_source c = so_id s \<and> so_session s = sid \<and> (source = [] \<or> so_label s = source)]
      else [])"

definition doc_lexemes :: "'f text_search \<Rightarrow> bool \<Rightarrow> chunk_row \<Rightarrow> string list" where
  "doc_lexemes T code c = ts_lex T code (ch_title c @ '' '' @ ch_content c)"

text \<open>\<open>vec @@ plainto_tsquery(q)\<close>: all lexemes of the query, of which there is one at least.\<close>

definition matches_all :: "'f text_search \<Rightarrow> bool \<Rightarrow> string \<Rightarrow> chunk_row \<Rightarrow> bool" where
  "matches_all T code q c \<longleftrightarrow>
     ts_lex T code q \<noteq> [] \<and> (\<forall>w\<in>set (ts_lex T code q). w \<in> set (doc_lexemes T code c))"

definition matches_any :: "'f text_search \<Rightarrow> bool \<Rightarrow> string \<Rightarrow> chunk_row \<Rightarrow> bool" where
  "matches_any T code q c \<longleftrightarrow> (\<exists>w\<in>set (doc_lexemes T code c). w \<in> set (ts_lex T code q))"

definition class_order :: "'f fops \<Rightarrow> 'f bm25Candidate \<Rightarrow> 'f bm25Candidate \<Rightarrow> bool" where
  "class_order F a b \<longleftrightarrow>
     (if bc_matchesAll a \<noteq> bc_matchesAll b then bc_matchesAll a
      else flt F (bc_score a) (bc_score b) \<or> (\<not> flt F (bc_score b) (bc_score a) \<and> bc_id a < bc_id b))"

definition class_row :: "'f fops \<Rightarrow> 'f text_search \<Rightarrow> tables \<Rightarrow> bool \<Rightarrow> string \<Rightarrow> chunk_row \<times> string \<Rightarrow> 'f bm25Candidate" where
  "class_row F T t code q cl =
     (case cl of (c, label) \<Rightarrow>
        \<lparr>bc_id = ch_id c, bc_title = ch_title c, bc_content = ch_content c, bc_contentType = ch_type c,
         bc_label = label, bc_matchesAll = matches_all T code q c, bc_rrf = fint F 0,
         bc_score = fadd F (fmul F (fint F 2) (ts_bm_title T t code q c))
                           (fmul F (fint F 1) (ts_bm_content T t code q c))\<rparr>)"

definition classCandidatesSQL ::
  "'f fops \<Rightarrow> 'f text_search \<Rightarrow> tables \<Rightarrow> string \<Rightarrow> bool \<Rightarrow> int \<Rightarrow> string \<Rightarrow> string \<Rightarrow> nat \<Rightarrow> 'f bm25Candidate list" where
  "classCandidatesSQL F T t ns code sid source q k =
     take k (stable_sort (class_order F)
       (map (class_row F T t code q)
         (filter (\<lambda>(c, l). (ch_type c = ''code'') = code \<and> matches_any T code q c) (scoped_chunks t ns sid source))))"

definition with_rank :: "'f fops \<Rightarrow> 'f bm25Candidate list \<Rightarrow> 'f bm25Candidate list" where
  "with_rank F cs = map (\<lambda>(i, c). c\<lparr>bc_rrf := fdiv F (fint F 1) (fint F (rrfK + int i + 1))\<rparr>) (enumerate 0 cs)"

definition classCandidates ::
  "'f fops \<Rightarrow> 'f text_search \<Rightarrow> string \<Rightarrow> bool \<Rightarrow> int \<Rightarrow> string \<Rightarrow> string \<Rightarrow> nat \<Rightarrow> 'f bm25Candidate list dbm" where
  "classCandidates F T ns code sid source q k =
     query (\<lambda>d. Inr (with_rank F (classCandidatesSQL F T (tabs d) ns code sid source q k)))"

subsection \<open>Layer 2: trigram fallback\<close>

fun trigram_terms :: "unicode \<Rightarrow> string list \<Rightarrow> string list \<Rightarrow> string list \<Rightarrow> string list" where
  "trigram_terms U [] seen out = out"
| "trigram_terms U (raw # raws) seen out =
     (if length raw < minTrigramTermLen then trigram_terms U raws seen out
      else
        (let lower = s_lower U raw in
         if lower \<in> set trigramStopwords then trigram_terms U raws seen out
         else if lower \<in> set seen then trigram_terms U raws seen out
         else
           (let out = out @ [raw] in
            if length out = maxTrigramTerms then out else trigram_terms U raws (lower # seen) out)))"

definition normalizeTrigramTerms :: "unicode \<Rightarrow> string \<Rightarrow> string list" where
  "normalizeTrigramTerms U q = trigram_terms U (Go_Text.fields q) [] []"

definition trigram_relevance :: "'f fops \<Rightarrow> 'f text_search \<Rightarrow> string \<Rightarrow> chunk_row \<Rightarrow> 'f" where
  "trigram_relevance F T q c =
     fadd F (fmul F (fint F 2) (ts_similarity T q (ch_title c))) (fmul F (fint F 1) (ts_similarity T q (ch_content c)))"

definition trigram_order :: "'f fops \<Rightarrow> 'f text_search \<Rightarrow> string \<Rightarrow> chunk_row \<times> string \<Rightarrow> chunk_row \<times> string \<Rightarrow> bool" where
  "trigram_order F T q a b \<longleftrightarrow>
     (let ra = trigram_relevance F T q (fst a); rb = trigram_relevance F T q (fst b)
      in flt F rb ra \<or> (\<not> flt F ra rb \<and> ch_id (fst a) < ch_id (fst b)))"

definition trigramCandidatesSQL ::
  "'f fops \<Rightarrow> 'f text_search \<Rightarrow> tables \<Rightarrow> string \<Rightarrow> int \<Rightarrow> string \<Rightarrow> string \<Rightarrow> nat \<Rightarrow> int list \<Rightarrow> string list
   \<Rightarrow> (chunk_row \<times> string) list" where
  "trigramCandidatesSQL F T t ns sid source q limit excludeIDs terms =
     take limit (stable_sort (trigram_order F T q)
       (filter (\<lambda>(c, l). ch_id c \<notin> set excludeIDs
          \<and> (\<forall>term\<in>set terms. ts_word_similar T term (ch_title c) \<or> ts_word_similar T term (ch_content c)))
        (scoped_chunks t ns sid source)))"

definition trigram_hit :: "'f fops \<Rightarrow> unicode \<Rightarrow> 'f text_search \<Rightarrow> string \<Rightarrow> chunk_row \<times> string \<Rightarrow> 'f db_hit" where
  "trigram_hit F U T q cl =
     (case cl of (c, label) \<Rightarrow>
        (let snip = extractSnippet U (ch_content c) (ch_type c) q in
         \<lparr>hTitle = ch_title c, hSnippet = snip_text snip, hSource = label, hMatchLayer = ''trigram'',
          hTruncated = False, hSnippetFallback = snip_fallback snip,
          hRelevance = trigram_relevance F T q c, hMatchesAll = False\<rparr>))"

definition trigramCandidates ::
  "'f fops \<Rightarrow> unicode \<Rightarrow> 'f text_search \<Rightarrow> string \<Rightarrow> int \<Rightarrow> string \<Rightarrow> string \<Rightarrow> int \<Rightarrow> int list \<Rightarrow> 'f db_hit list dbm" where
  "trigramCandidates F U T ns sid source q limit excludeIDs =
     (if limit \<le> 0 then ret []
      else
        (let terms = normalizeTrigramTerms U q in
         if terms = [] then ret []
         else query (\<lambda>d. Inr (map (trigram_hit F U T q)
                (trigramCandidatesSQL F T (tabs d) ns sid source q (nat limit) excludeIDs terms)))))"

subsection \<open>Fusion\<close>

definition fused_order :: "'f fops \<Rightarrow> 'f bm25Candidate \<Rightarrow> 'f bm25Candidate \<Rightarrow> bool" where
  "fused_order F a b \<longleftrightarrow>
     (if bc_matchesAll a \<noteq> bc_matchesAll b then bc_matchesAll a
      else if \<not> feq F (bc_rrf a) (bc_rrf b) then flt F (bc_rrf b) (bc_rrf a)
      else bc_id a < bc_id b)"

definition primary_hit :: "'f fops \<Rightarrow> unicode \<Rightarrow> string \<Rightarrow> 'f bm25Candidate \<Rightarrow> 'f db_hit" where
  "primary_hit F U q c =
     (let snip = extractSnippet U (bc_content c) (bc_contentType c) q in
      \<lparr>hTitle = bc_title c, hSnippet = snip_text snip, hSource = bc_label c, hMatchLayer = ''primary'',
       hTruncated = False, hSnippetFallback = snip_fallback snip,
       hRelevance = fsub F (fint F 0) (bc_score c), hMatchesAll = bc_matchesAll c\<rparr>)"

definition fuse :: "'f fops \<Rightarrow> int \<Rightarrow> 'f bm25Candidate list \<Rightarrow> 'f bm25Candidate list" where
  "fuse F limit cands =
     (let fused = stable_sort (fused_order F) cands
      in if int (length fused) > limit then take (nat limit) fused else fused)"

fun class_lists ::
  "'f fops \<Rightarrow> 'f text_search \<Rightarrow> string \<Rightarrow> int \<Rightarrow> string \<Rightarrow> string \<Rightarrow> int \<Rightarrow> bool list \<Rightarrow> 'f bm25Candidate list \<Rightarrow> 'f bm25Candidate list dbm" where
  "class_lists F T ns sid source q limit [] fused = ret fused"
| "class_lists F T ns sid source q limit (code # codes) fused =
     andthen (classCandidates F T ns code sid source q (nat (2 * limit)))
       (\<lambda>cands. class_lists F T ns sid source q limit codes (fused @ cands))"

definition searchOne ::
  "'f fops \<Rightarrow> unicode \<Rightarrow> 'f text_search \<Rightarrow> string \<Rightarrow> int \<Rightarrow> string \<Rightarrow> string \<Rightarrow> int \<Rightarrow> 'f db_hit list dbm" where
  "searchOne F U T ns sid source q limit =
     andthen (class_lists F T ns sid source q limit bm25Classes []) (\<lambda>cands.
       (let fused = fuse F limit cands;
            hits = map (primary_hit F U q) fused
        in if int (length hits) < limit
           then andthen (trigramCandidates F U T ns sid source q (limit - int (length hits)) (map bc_id fused))
                  (\<lambda>trigramHits. ret (hits @ trigramHits))
           else ret hits))"

definition Sources_Search :: "'f fops \<Rightarrow> unicode \<Rightarrow> 'f text_search \<Rightarrow> string \<Rightarrow> db_search_input \<Rightarrow> 'f db_hit list dbm" where
  "Sources_Search F U T ns inp =
     guard (ns = []) ErrNamespaceRequired (guard (inQuery inp = []) ErrQueryRequired
       (guard (inLimit inp < 0) ErrInvalidLimit
         (let limit = (if inLimit inp = 0 then defaultSearchLimit else inLimit inp)
          in searchOne F U T ns (inSessionID inp) (inSource inp) (inQuery inp) limit)))"

section \<open>Trigram terms\<close>

lemma trigram_terms_props:
  assumes "length out < maxTrigramTerms" "map (s_lower U) out = rev seen" "distinct seen"
    "\<forall>w\<in>set out. minTrigramTermLen \<le> length w \<and> s_lower U w \<notin> set trigramStopwords"
  shows "length (trigram_terms U raws seen out) \<le> maxTrigramTerms
    \<and> distinct (map (s_lower U) (trigram_terms U raws seen out))
    \<and> (\<forall>w\<in>set (trigram_terms U raws seen out). minTrigramTermLen \<le> length w \<and> s_lower U w \<notin> set trigramStopwords)
    \<and> (\<exists>us. trigram_terms U raws seen out = out @ us \<and> subseq us raws)"
  using assms
proof (induction raws arbitrary: seen out)
  case Nil
  then show ?case by simp
next
  case (Cons raw raws)
  let ?l = "s_lower U raw"
  have skip: ?case if "trigram_terms U (raw # raws) seen out = trigram_terms U raws seen out"
  proof -
    note ih = Cons.IH [OF Cons.prems]
    then obtain us where "trigram_terms U raws seen out = out @ us" "subseq us raws" by blast
    then have "\<exists>us. trigram_terms U raws seen out = out @ us \<and> subseq us (raw # raws)" by (blast intro: list_emb_Cons)
    with ih show ?thesis unfolding that by (elim conjE) (intro conjI)
  qed
  consider (short) "length raw < minTrigramTermLen \<or> ?l \<in> set trigramStopwords \<or> ?l \<in> set seen"
    | (full) "\<not> length raw < minTrigramTermLen" "?l \<notin> set trigramStopwords" "?l \<notin> set seen" "Suc (length out) = maxTrigramTerms"
    | (more) "\<not> length raw < minTrigramTermLen" "?l \<notin> set trigramStopwords" "?l \<notin> set seen" "Suc (length out) \<noteq> maxTrigramTerms"
    by blast
  then show ?case
  proof cases
    case short
    then show ?thesis by (intro skip) (auto simp: Let_def)
  next
    case full
    then have "trigram_terms U (raw # raws) seen out = out @ [raw]" by (simp add: Let_def)
    then show ?thesis using full Cons.prems by auto
  next
    case more
    then have e: "trigram_terms U (raw # raws) seen out = trigram_terms U raws (?l # seen) (out @ [raw])"
      by (simp add: Let_def)
    have "length (out @ [raw]) < maxTrigramTerms" using more(4) Cons.prems(1) by simp
    moreover have "map (s_lower U) (out @ [raw]) = rev (?l # seen)" "distinct (?l # seen)"
      "\<forall>w\<in>set (out @ [raw]). minTrigramTermLen \<le> length w \<and> s_lower U w \<notin> set trigramStopwords"
      using more Cons.prems by auto
    ultimately have ih: "length (trigram_terms U raws (?l # seen) (out @ [raw])) \<le> maxTrigramTerms
      \<and> distinct (map (s_lower U) (trigram_terms U raws (?l # seen) (out @ [raw])))
      \<and> (\<forall>w\<in>set (trigram_terms U raws (?l # seen) (out @ [raw])). minTrigramTermLen \<le> length w \<and> s_lower U w \<notin> set trigramStopwords)
      \<and> (\<exists>us. trigram_terms U raws (?l # seen) (out @ [raw]) = (out @ [raw]) @ us \<and> subseq us raws)"
      by (rule Cons.IH)
    then obtain us where "trigram_terms U raws (?l # seen) (out @ [raw]) = (out @ [raw]) @ us" "subseq us raws" by blast
    then have "trigram_terms U raws (?l # seen) (out @ [raw]) = out @ (raw # us) \<and> subseq (raw # us) (raw # raws)" by simp
    with ih show ?thesis unfolding e by (elim conjE) (intro conjI exI)
  qed
qed

lemma normalizeTrigramTerms_props:
  "length (normalizeTrigramTerms U q) \<le> maxTrigramTerms"
  "distinct (map (s_lower U) (normalizeTrigramTerms U q))"
  "w \<in> set (normalizeTrigramTerms U q) \<Longrightarrow> minTrigramTermLen \<le> length w \<and> s_lower U w \<notin> set trigramStopwords"
  "subseq (normalizeTrigramTerms U q) (Go_Text.fields q)"
  using trigram_terms_props [of "[]" U "[]" "Go_Text.fields q"]
  by (auto simp: normalizeTrigramTerms_def maxTrigramTerms_def)

section \<open>What a search returns\<close>

lemma extractSnippet_part:
  "length (runes (snip_text (extractSnippet U content ct q))) \<le> snippetBudgetRunes"
  "valid_utf8 content \<Longrightarrow> sublist (snip_text (extractSnippet U content ct q)) content"
proof -
  have "length (runes (snip_text (extractSnippet U content ct q))) \<le> snippetBudgetRunes
      \<and> (valid_utf8 content \<longrightarrow> sublist (snip_text (extractSnippet U content ct q)) content)"
  proof (cases "length (runes content) \<le> snippetBudgetRunes")
    case True
    then show ?thesis by (simp add: extractSnippet_def Let_def)
  next
    case False
    then obtain f t where s: "snip_text (extractSnippet U content ct q) = run_slice (runes content) f t"
      "t - f \<le> snippetBudgetRunes" by (elim extractSnippet_long [OF not_le_imp_less])
    have "set (take (t - f) (drop f (runes content))) \<subseteq> set (runes content)"
      by (meson order_trans set_drop_subset set_take_subset)
    then have "runes (run_slice (runes content) f t) = take (t - f) (drop f (runes content))"
      unfolding run_slice_def by (rule runes_of_part)
    then show ?thesis using s run_slice_sublist by simp
  qed
  then show "length (runes (snip_text (extractSnippet U content ct q))) \<le> snippetBudgetRunes"
    "valid_utf8 content \<Longrightarrow> sublist (snip_text (extractSnippet U content ct q)) content" by blast+
qed

lemma scoped_chunks_props:
  assumes "(c, l) \<in> set (scoped_chunks t ns sid source)"
  shows "session_in t ns sid" "c \<in> set (chunks t)" "source \<noteq> [] \<Longrightarrow> l = source"
    "\<exists>s\<in>set (sources t). so_id s = ch_source c \<and> so_session s = sid \<and> so_label s = l"
  using assms by (auto simp: scoped_chunks_def split: if_splits)

text \<open>Each chunk is listed once: its source is unique.\<close>

lemma join_single:
  fixes c :: chunk_row
  assumes "distinct (map so_id ss)"
  shows "\<exists>l. concat (map (\<lambda>s. if ch_source c = so_id s \<and> P s then [(c, so_label s)] else []) ss) \<in> {[], [(c, l)]}"
  using assms
proof (induction ss)
  case (Cons s ss)
  show ?case
  proof (cases "ch_source c = so_id s \<and> P s")
    case True
    then have "concat (map (\<lambda>s. if ch_source c = so_id s \<and> P s then [(c, so_label s)] else []) ss) = []"
      using Cons.prems by auto
    then show ?thesis using True by auto
  next
    case False
    then show ?thesis using Cons by auto
  qed
qed simp

lemma distinct_concat_single:
  assumes "distinct (map g xs)" "\<And>x. \<exists>l. f x \<in> {[], [(x, l)]}"
  shows "distinct (map (g \<circ> fst) (concat (map f xs)))"
  using assms(1)
proof (induction xs)
  case (Cons x xs)
  have sub: "fst ` set (f y) \<subseteq> {y}" for y using assms(2) [of y] by auto
  have "g x \<notin> (g \<circ> fst) ` set (concat (map f xs))" using Cons.prems sub by fastforce
  moreover have "distinct (map (g \<circ> fst) (concat (map f xs)))" using Cons by (simp add: comp_def)
  moreover obtain l where "f x = [] \<or> f x = [(x, l)]" using assms(2) [of x] by auto
  ultimately have "distinct (map (g \<circ> fst) (f x @ concat (map f xs)))" by (elim disjE) (simp_all del: map_concat)
  then show ?case by (simp add: comp_def)
qed simp

lemma scoped_chunks_ids:
  assumes ok: "tables_ok t"
  shows "distinct (map (ch_id \<circ> fst) (scoped_chunks t ns sid source))"
proof -
  have ids: "distinct (map ch_id (chunks t))" and so: "distinct (map so_id (sources t))"
    using ok by (auto simp: tables_ok_def chunks_ok_def sources_ok_def strict_sorted_iff)
  show ?thesis
    unfolding scoped_chunks_def using distinct_concat_single [OF ids join_single [OF so]] by simp
qed

lemma distinct_stable_sort: "distinct (map f (stable_sort lt xs)) = distinct (map f xs)"
proof -
  have "mset (map f (stable_sort lt xs)) = mset (map f xs)" by simp
  then show ?thesis by (rule mset_eq_imp_distinct_iff)
qed

lemma with_rank_keeps:
  "map bc_id (with_rank F cs) = map bc_id cs"
  "c \<in> set (with_rank F cs) \<Longrightarrow> \<exists>c'\<in>set cs. \<exists>r. c = c'\<lparr>bc_rrf := r\<rparr>"
proof -
  have "map bc_id (map (\<lambda>(i, c). c\<lparr>bc_rrf := g i\<rparr>) (enumerate n cs)) = map bc_id cs" for g :: "nat \<Rightarrow> 'a" and n
    by (induction cs arbitrary: n) simp_all
  then show "map bc_id (with_rank F cs) = map bc_id cs" unfolding with_rank_def .
  show "c \<in> set (with_rank F cs) \<Longrightarrow> \<exists>c'\<in>set cs. \<exists>r. c = c'\<lparr>bc_rrf := r\<rparr>"
    by (force simp: with_rank_def dest: in_set_enumerate_eq [THEN iffD1])
qed

definition cand_of :: "'f fops \<Rightarrow> 'f text_search \<Rightarrow> tables \<Rightarrow> string \<Rightarrow> chunk_row \<times> string \<Rightarrow> 'f bm25Candidate \<Rightarrow> bool" where
  "cand_of F T t q cl c \<longleftrightarrow> (\<exists>r. c = (class_row F T t (ch_type (fst cl) = ''code'') q cl)\<lparr>bc_rrf := r\<rparr>)
     \<and> matches_any T (ch_type (fst cl) = ''code'') q (fst cl)"

lemma classCandidatesSQL_props:
  assumes ok: "tables_ok t"
  shows "distinct (map bc_id (classCandidatesSQL F T t ns code sid source q k))"
    "c \<in> set (with_rank F (classCandidatesSQL F T t ns code sid source q k)) \<Longrightarrow>
       \<exists>cl\<in>set (scoped_chunks t ns sid source). cand_of F T t q cl c \<and> (bc_contentType c = ''code'') = code"
proof -
  let ?fl = "filter (\<lambda>(c, l). (ch_type c = ''code'') = code \<and> matches_any T code q c) (scoped_chunks t ns sid source)"
  let ?rows = "map (class_row F T t code q) ?fl"
  have "map bc_id ?rows = map (ch_id \<circ> fst) ?fl" by (simp add: class_row_def case_prod_unfold)
  then have "distinct (map bc_id ?rows)" using scoped_chunks_ids [OF ok] by (simp only: distinct_map_filter)
  then have "distinct (map bc_id (stable_sort (class_order F) ?rows))"
    by (simp only: distinct_stable_sort)
  then show "distinct (map bc_id (classCandidatesSQL F T t ns code sid source q k))"
    unfolding classCandidatesSQL_def take_map [symmetric] by (rule distinct_take)
  assume "c \<in> set (with_rank F (classCandidatesSQL F T t ns code sid source q k))"
  then obtain c' r where c: "c' \<in> set (classCandidatesSQL F T t ns code sid source q k)" "c = c'\<lparr>bc_rrf := r\<rparr>"
    by (blast dest: with_rank_keeps(2))
  then have "c' \<in> set ?rows" unfolding classCandidatesSQL_def by (auto dest!: in_set_takeD)
  then obtain cl where cl: "cl \<in> set ?fl" "c' = class_row F T t code q cl" unfolding set_map by blast
  have code: "(ch_type (fst cl) = ''code'') = code" "matches_any T code q (fst cl)" "cl \<in> set (scoped_chunks t ns sid source)"
    using cl(1) by (auto simp: case_prod_unfold)
  have "cand_of F T t q cl c" unfolding cand_of_def code(1)
    by (intro conjI exI [of _ r]) (simp_all only: c(2) cl(2) code(2))
  moreover have "bc_contentType c = ch_type (fst cl)" using c(2) cl(2) by (simp add: class_row_def case_prod_unfold)
  ultimately show "\<exists>cl\<in>set (scoped_chunks t ns sid source). cand_of F T t q cl c \<and> (bc_contentType c = ''code'') = code"
    using code by (intro bexI [of _ cl]) simp_all
qed

section \<open>The fused result\<close>

text \<open>An order that puts everything with \<open>k\<close> first sorts by \<open>k\<close>, whatever it does otherwise.\<close>

lemma stable_sort_tier:
  assumes "\<And>a b. k a \<Longrightarrow> \<not> k b \<Longrightarrow> lt a b" "\<And>a b. \<not> k a \<Longrightarrow> k b \<Longrightarrow> \<not> lt a b"
  shows "sorted_wrt (\<lambda>a b. k b \<longrightarrow> k a) (stable_sort lt xs)"
proof -
  have "sorted_wrt (\<lambda>a b. k b \<longrightarrow> k a) ys \<Longrightarrow> sorted_wrt (\<lambda>a b. k b \<longrightarrow> k a) (stable_insert lt x ys)" for x ys
  proof (induction ys)
    case (Cons y ys)
    have s: "set (stable_insert lt x ys) = insert x (set ys)" by (induction ys) auto
    show ?case
    proof (cases "lt y x")
      case True
      then have "k x \<longrightarrow> k y" using assms(2) by blast
      then show ?thesis using True Cons s by simp
    next
      case False
      then have "k y \<longrightarrow> k x" using assms(1) by blast
      then show ?thesis using False Cons.prems by auto
    qed
  qed simp
  then show ?thesis by (induction xs) (simp_all add: stable_sort_def)
qed

definition hit_tier :: "'f db_hit \<Rightarrow> nat" where
  "hit_tier h = (if hMatchLayer h = ''primary'' then (if hMatchesAll h then 2 else 1) else 0)"

definition hit_from :: "'f text_search \<Rightarrow> string \<Rightarrow> chunk_row \<times> string \<Rightarrow> 'f db_hit \<Rightarrow> bool" where
  "hit_from T q cl h \<longleftrightarrow>
     (let c = fst cl; code = (ch_type c = ''code'') in
      hTitle h = ch_title c \<and> hSource h = snd cl \<and> \<not> hTruncated h
      \<and> length (runes (hSnippet h)) \<le> snippetBudgetRunes
      \<and> (valid_utf8 (ch_content c) \<longrightarrow> sublist (hSnippet h) (ch_content c))
      \<and> (hMatchLayer h = ''primary'' \<and> matches_any T code q c \<and> hMatchesAll h = matches_all T code q c
         \<or> hMatchLayer h = ''trigram'' \<and> \<not> hMatchesAll h))"

lemma classCandidates_ok:
  assumes "classCandidates F T ns code sid source q k d = (Inr cs, d')"
  shows "cs = with_rank F (classCandidatesSQL F T (tabs d) ns code sid source q k)" "tabs d' = tabs d"
  using assms unfolding classCandidates_def by (elim query_cases; simp)+

lemma class_lists_ok:
  assumes "class_lists F T ns sid source q limit bm25Classes [] d = (Inr cs, d')"
  shows "cs = with_rank F (classCandidatesSQL F T (tabs d) ns False sid source q (nat (2 * limit)))
           @ with_rank F (classCandidatesSQL F T (tabs d) ns True sid source q (nat (2 * limit)))" "tabs d' = tabs d"
proof -
  obtain as bs d1 d2 where "classCandidates F T ns False sid source q (nat (2 * limit)) d = (Inr as, d1)"
    "classCandidates F T ns True sid source q (nat (2 * limit)) d1 = (Inr bs, d2)" "cs = as @ bs" "d' = d2"
    using assms unfolding bm25Classes_def
    by (auto simp: ret_def elim!: andthen_cases)
  then show "cs = with_rank F (classCandidatesSQL F T (tabs d) ns False sid source q (nat (2 * limit)))
           @ with_rank F (classCandidatesSQL F T (tabs d) ns True sid source q (nat (2 * limit)))" "tabs d' = tabs d"
    using classCandidates_ok by metis+
qed

lemma scoped_unique:
  assumes "tables_ok t" "a \<in> set (scoped_chunks t ns sid source)" "b \<in> set (scoped_chunks t ns sid source)"
    "ch_id (fst a) = ch_id (fst b)"
  shows "a = b"
proof -
  have "inj_on (ch_id \<circ> fst) (set (scoped_chunks t ns sid source))"
    using scoped_chunks_ids [OF assms(1), of ns sid source] by (simp only: distinct_map)
  then show ?thesis by (rule inj_onD) (use assms(2-4) in simp_all)
qed

lemma cand_of_fields:
  assumes "cand_of F T t q cl c"
  shows "bc_id c = ch_id (fst cl)" "bc_title c = ch_title (fst cl)" "bc_content c = ch_content (fst cl)"
    "bc_contentType c = ch_type (fst cl)" "bc_label c = snd cl"
    "bc_matchesAll c = matches_all T (ch_type (fst cl) = ''code'') q (fst cl)"
    "matches_any T (ch_type (fst cl) = ''code'') q (fst cl)"
  using assms by (auto simp: cand_of_def class_row_def case_prod_unfold)

lemma fuse_props:
  assumes ok: "tables_ok t" and limit: "0 \<le> limit"
    and cs: "cs = with_rank F (classCandidatesSQL F T t ns False sid source q k)
           @ with_rank F (classCandidatesSQL F T t ns True sid source q k)"
  shows "distinct (map bc_id (fuse F limit cs))" "int (length (fuse F limit cs)) \<le> limit"
    "sorted_wrt (\<lambda>a b. bc_matchesAll b \<longrightarrow> bc_matchesAll a) (fuse F limit cs)"
    "c \<in> set (fuse F limit cs) \<Longrightarrow> \<exists>cl\<in>set (scoped_chunks t ns sid source). cand_of F T t q cl c"
proof -
  let ?A = "with_rank F (classCandidatesSQL F T t ns False sid source q k)"
  let ?B = "with_rank F (classCandidatesSQL F T t ns True sid source q k)"
  note P = classCandidatesSQL_props [OF ok]
  have dj: "bc_id a \<noteq> bc_id b" if a: "a \<in> set ?A" and b: "b \<in> set ?B" for a b
  proof
    assume e: "bc_id a = bc_id b"
    obtain x where x: "x \<in> set (scoped_chunks t ns sid source)" "cand_of F T t q x a" "bc_contentType a \<noteq> ''code''"
      using P(2) [OF a] by blast
    obtain y where y: "y \<in> set (scoped_chunks t ns sid source)" "cand_of F T t q y b" "bc_contentType b = ''code''"
      using P(2) [OF b] by blast
    have "x = y" using scoped_unique [OF ok x(1) y(1)] e cand_of_fields(1) [OF x(2)] cand_of_fields(1) [OF y(2)] by simp
    then show False using x(3) y(3) cand_of_fields(4) [OF x(2)] cand_of_fields(4) [OF y(2)] by simp
  qed
  have "distinct (map bc_id cs)" unfolding cs map_append distinct_append
  proof (intro conjI)
    show "distinct (map bc_id ?A)" "distinct (map bc_id ?B)" unfolding with_rank_keeps(1) by (rule P(1))+
    show "set (map bc_id ?A) \<inter> set (map bc_id ?B) = {}" using dj by auto
  qed
  then have d: "distinct (map bc_id (stable_sort (fused_order F) cs))" by (simp only: distinct_stable_sort)
  have f: "fuse F limit cs = take (nat limit) (stable_sort (fused_order F) cs)" using limit by (auto simp: fuse_def Let_def)
  show "distinct (map bc_id (fuse F limit cs))" unfolding f take_map [symmetric] using d by (rule distinct_take)
  show "int (length (fuse F limit cs)) \<le> limit" unfolding f using limit by simp
  show "sorted_wrt (\<lambda>a b. bc_matchesAll b \<longrightarrow> bc_matchesAll a) (fuse F limit cs)" unfolding f
    by (rule sorted_wrt_take, rule stable_sort_tier) (simp_all add: fused_order_def)
  assume "c \<in> set (fuse F limit cs)"
  then have "c \<in> set cs" unfolding f by (auto dest: in_set_takeD)
  then consider "c \<in> set ?A" | "c \<in> set ?B" unfolding cs by auto
  then show "\<exists>cl\<in>set (scoped_chunks t ns sid source). cand_of F T t q cl c" by cases (blast dest: P(2))+
qed

lemma primary_hit_from: "cand_of F T t q cl c \<Longrightarrow> hit_from T q cl (primary_hit F U q c)"
  using extractSnippet_part [where U = U and content = "bc_content c" and ct = "bc_contentType c" and q = q] cand_of_fields [of F T t q cl c]
  by (simp add: hit_from_def primary_hit_def Let_def)

lemma trigram_hit_from: "hit_from T q cl (trigram_hit F U T q cl)"
  using extractSnippet_part [where U = U and content = "ch_content (fst cl)" and ct = "ch_type (fst cl)" and q = q]
  by (simp add: hit_from_def trigram_hit_def Let_def case_prod_unfold)

lemma trigramCandidatesSQL_props:
  assumes ok: "tables_ok t"
  shows "set (trigramCandidatesSQL F T t ns sid source q limit ex terms) \<subseteq> set (scoped_chunks t ns sid source)"
    "distinct (map (ch_id \<circ> fst) (trigramCandidatesSQL F T t ns sid source q limit ex terms))"
    "cl \<in> set (trigramCandidatesSQL F T t ns sid source q limit ex terms) \<Longrightarrow> ch_id (fst cl) \<notin> set ex"
    "length (trigramCandidatesSQL F T t ns sid source q limit ex terms) \<le> limit"
proof -
  let ?fl = "filter (\<lambda>(c, l). ch_id c \<notin> set ex
          \<and> (\<forall>term\<in>set terms. ts_word_similar T term (ch_title c) \<or> ts_word_similar T term (ch_content c)))
        (scoped_chunks t ns sid source)"
  have e: "trigramCandidatesSQL F T t ns sid source q limit ex terms = take limit (stable_sort (trigram_order F T q) ?fl)"
    by (simp add: trigramCandidatesSQL_def)
  have sub: "set (trigramCandidatesSQL F T t ns sid source q limit ex terms) \<subseteq> set ?fl"
    unfolding e using set_take_subset [of limit "stable_sort (trigram_order F T q) ?fl"] by simp
  then show "set (trigramCandidatesSQL F T t ns sid source q limit ex terms) \<subseteq> set (scoped_chunks t ns sid source)" by auto
  show "cl \<in> set (trigramCandidatesSQL F T t ns sid source q limit ex terms) \<Longrightarrow> ch_id (fst cl) \<notin> set ex" using sub by auto
  have "distinct (map (ch_id \<circ> fst) ?fl)" using scoped_chunks_ids [OF ok] by (simp only: distinct_map_filter)
  then have "distinct (map (ch_id \<circ> fst) (stable_sort (trigram_order F T q) ?fl))" by (simp only: distinct_stable_sort)
  then show "distinct (map (ch_id \<circ> fst) (trigramCandidatesSQL F T t ns sid source q limit ex terms))"
    unfolding e take_map [symmetric] by (rule distinct_take)
  show "length (trigramCandidatesSQL F T t ns sid source q limit ex terms) \<le> limit" unfolding e by simp
qed

lemma trigramCandidates_ok:
  assumes "trigramCandidates F U T ns sid source q limit ex d = (Inr hits, d')"
  obtains cls where "hits = map (trigram_hit F U T q) cls"
    "cls = [] \<or> cls = trigramCandidatesSQL F T (tabs d) ns sid source q (nat limit) ex (normalizeTrigramTerms U q) \<and> 0 < limit"
    "tabs d' = tabs d"
proof (cases "limit \<le> 0 \<or> normalizeTrigramTerms U q = []")
  case True
  then have "hits = [] \<and> d' = d" using assms by (auto simp: trigramCandidates_def ret_def Let_def cong: if_cong)
  then show thesis using that [of "[]"] by simp
next
  case False
  then have "query (\<lambda>d. Inr (map (trigram_hit F U T q)
      (trigramCandidatesSQL F T (tabs d) ns sid source q (nat limit) ex (normalizeTrigramTerms U q)))) d = (Inr hits, d')"
    using assms by (simp add: trigramCandidates_def Let_def cong: if_cong)
  then show thesis
    using that [of "trigramCandidatesSQL F T (tabs d) ns sid source q (nat limit) ex (normalizeTrigramTerms U q)"] False
    by (elim query_cases) simp_all
qed

lemma searchOne_ok:
  assumes ok: "tables_ok (tabs d)" and limit: "0 < limit"
    and run: "searchOne F U T ns sid source q limit d = (Inr hits, d')"
  obtains cls where "list_all2 (hit_from T q) cls hits" "distinct (map (ch_id \<circ> fst) cls)"
    "set cls \<subseteq> set (scoped_chunks (tabs d) ns sid source)" "int (length hits) \<le> limit"
    "sorted_wrt (\<lambda>a b. hit_tier b \<le> hit_tier a) hits" "tabs d' = tabs d"
proof -
  obtain cs d1 where c: "class_lists F T ns sid source q limit bm25Classes [] d = (Inr cs, d1)"
    and run1: "(let fused = fuse F limit cs; hits = map (primary_hit F U q) fused
        in if int (length hits) < limit
           then andthen (trigramCandidates F U T ns sid source q (limit - int (length hits)) (map bc_id fused))
                  (\<lambda>trigramHits. ret (hits @ trigramHits))
           else ret hits) d1 = (Inr hits, d')"
    using run unfolding searchOne_def by (elim andthen_cases) auto
  note C = class_lists_ok [OF c]
  let ?fu = "fuse F limit cs" and ?S = "set (scoped_chunks (tabs d) ns sid source)"
  note Fu = fuse_props [OF ok less_imp_le [OF limit] C(1)]
  obtain f where f: "\<And>c. c \<in> set ?fu \<Longrightarrow> f c \<in> ?S \<and> cand_of F T (tabs d) q (f c) c" using Fu(4) by metis
  let ?p = "map f ?fu"
  have p: "list_all2 (hit_from T q) ?p (map (primary_hit F U q) ?fu)"
  proof -
    have "\<forall>c\<in>set ?fu. hit_from T q (f c) (primary_hit F U q c)" using f by (blast intro: primary_hit_from)
    then show ?thesis by (simp add: list_all2_map1 list_all2_map2 list_all2_same)
  qed
  have fid: "\<forall>c\<in>set ?fu. ch_id (fst (f c)) = bc_id c" using f by (metis cand_of_fields(1))
  then have pid: "map (ch_id \<circ> fst) ?p = map bc_id ?fu" by simp
  have pS: "set ?p \<subseteq> ?S" using f by auto
  have ptier: "sorted_wrt (\<lambda>a b. hit_tier b \<le> hit_tier a) (map (primary_hit F U q) ?fu)"
    using Fu(3) unfolding sorted_wrt_map
    by (rule sorted_wrt_mono_rel [rotated]) (auto simp: hit_tier_def primary_hit_def Let_def)
  obtain tr where tr: "hits = map (primary_hit F U q) ?fu @ map (trigram_hit F U T q) tr" "set tr \<subseteq> ?S"
    "distinct (map (ch_id \<circ> fst) tr)" "\<forall>cl\<in>set tr. ch_id (fst cl) \<notin> set (map bc_id ?fu)"
    "int (length hits) \<le> limit" "tabs d' = tabs d"
  proof (cases "int (length ?fu) < limit")
    case True
    obtain th where th: "trigramCandidates F U T ns sid source q (limit - int (length ?fu)) (map bc_id ?fu) d1 = (Inr th, d')"
      "hits = map (primary_hit F U q) ?fu @ th"
      using run1 True by (auto simp: Let_def ret_def elim!: andthen_cases)
    obtain tr where tr: "th = map (trigram_hit F U T q) tr" "tr = [] \<or> tr = trigramCandidatesSQL F T (tabs d1) ns sid source q
        (nat (limit - int (length ?fu))) (map bc_id ?fu) (normalizeTrigramTerms U q) \<and> 0 < limit - int (length ?fu)"
      "tabs d' = tabs d1" by (rule trigramCandidates_ok [OF th(1)])
    note Q = trigramCandidatesSQL_props [OF ok]
    show thesis
    proof (rule that [of tr])
      have "length tr \<le> nat (limit - int (length ?fu))" using tr(2) Q(4) unfolding C(2) by auto
      then show "int (length hits) \<le> limit" using True by (simp add: th(2) tr(1))
      show "set tr \<subseteq> ?S" using tr(2) unfolding C(2) by (elim disjE conjE) (simp_all add: Q(1))
      show "distinct (map (ch_id \<circ> fst) tr)" using tr(2) unfolding C(2) by (elim disjE conjE) (simp_all only: Q(2) list.map distinct.simps)
      show "\<forall>cl\<in>set tr. ch_id (fst cl) \<notin> set (map bc_id ?fu)" 
      proof
        fix cl assume "cl \<in> set tr"
        then show "ch_id (fst cl) \<notin> set (map bc_id ?fu)" using tr(2) unfolding C(2)
          by (elim disjE conjE) (simp, rule Q(3), simp only:)
      qed
    qed (use th(2) tr(1,3) C(2) in simp_all)
  next
    case False
    then show thesis using that [of "[]"] run1 Fu(2) C(2) by (simp add: Let_def ret_def)
  qed
  show thesis
  proof (rule that [of "?p @ tr"])
    show "list_all2 (hit_from T q) (?p @ tr) hits" unfolding tr(1)
      by (rule list_all2_appendI [OF p]) (simp add: list_all2_map2 list_all2_same trigram_hit_from)
    show "distinct (map (ch_id \<circ> fst) (?p @ tr))" unfolding map_append pid distinct_append
    proof (intro conjI)
      have "x \<notin> set (map bc_id ?fu)" if x: "x \<in> set (map (ch_id \<circ> fst) tr)" for x
      proof -
        obtain cl where "cl \<in> set tr" "x = ch_id (fst cl)" using x by auto
        then show ?thesis using tr(4) by blast
      qed
      then show "set (map bc_id ?fu) \<inter> set (map (ch_id \<circ> fst) tr) = {}" by blast
    qed (rule Fu(1), rule tr(3))
    show "sorted_wrt (\<lambda>a b. hit_tier b \<le> hit_tier a) hits" unfolding tr(1) sorted_wrt_append
      using ptier by (auto simp: sorted_wrt_map hit_tier_def trigram_hit_def case_prod_unfold Let_def)
  qed (use pS tr in auto)
qed

lemma Sources_Search_ok:
  assumes ok: "tables_ok (tabs d)" and run: "Sources_Search F U T ns inp d = (Inr hits, d')"
  obtains cls where "list_all2 (hit_from T (inQuery inp)) cls hits" "distinct (map (ch_id \<circ> fst) cls)"
    "set cls \<subseteq> set (scoped_chunks (tabs d) ns (inSessionID inp) (inSource inp))"
    "int (length hits) \<le> (if inLimit inp = 0 then defaultSearchLimit else inLimit inp)"
    "sorted_wrt (\<lambda>a b. hit_tier b \<le> hit_tier a) hits" "tabs d' = tabs d"
proof -
  have r: "searchOne F U T ns (inSessionID inp) (inSource inp) (inQuery inp)
      (if inLimit inp = 0 then defaultSearchLimit else inLimit inp) d = (Inr hits, d')" "\<not> inLimit inp < 0"
    using run by (auto simp: Sources_Search_def guard_def fail_def Let_def split: if_splits)
  then have "0 < (if inLimit inp = 0 then defaultSearchLimit else inLimit inp)" by (simp add: defaultSearchLimit_def)
  from searchOne_ok [OF ok this r(1)] show thesis using that by blast
qed

lemma class_lists_keep: "keeps P (class_lists F T ns sid source q limit codes fused)"
  by (induction codes arbitrary: fused) (auto simp: classCandidates_def intro!: keeps_intros keeps_query)

lemma Sources_Search_keeps [keeps_intros]: "keeps P (Sources_Search F U T ns inp)"
  unfolding Sources_Search_def searchOne_def trigramCandidates_def Let_def
  by (auto intro!: keeps_guard keeps_andthen keeps_ret keeps_query keeps_fail class_lists_keep)

end
