(* ===== verification/Alloc_Core.thy ===== *)
theory Alloc_Core
  imports Db_Models "HOL-Library.Multiset" "HOL-Library.Signed_Division"
begin

text \<open>
  internal/search/allocator.go: the closed set of variants, the input and output of
  an allocator, and the contract that every variant keeps. The contract is a locale:
  each candidate of a query is either included or counted as omitted, the bytes used
  are the sizes of what was included and never exceed the budget, and the exceeded
  flag says exactly whether something was omitted. \<open>ordered_allocator\<close> adds that a
  query's hits keep their rank order.
\<close>

section \<open>Variants\<close>

datatype Variant = RankRound | ScoreProportional | KnapsackGreedy | EqualBudget | MMR

definition variant_name :: "Variant \<Rightarrow> string" where
  "variant_name v = (case v of
     RankRound \<Rightarrow> ''rank-round'' | ScoreProportional \<Rightarrow> ''score-proportional''
   | KnapsackGreedy \<Rightarrow> ''knapsack-greedy'' | EqualBudget \<Rightarrow> ''equal-budget'' | MMR \<Rightarrow> ''mmr'')"

definition ParseVariant :: "string \<Rightarrow> Variant option" where
  "ParseVariant s =
     (if s = ''rank-round'' then Some RankRound
      else if s = ''score-proportional'' then Some ScoreProportional
      else if s = ''knapsack-greedy'' then Some KnapsackGreedy
      else if s = ''equal-budget'' then Some EqualBudget
      else if s = ''mmr'' then Some MMR
      else None)"

lemma ParseVariant_iff: "ParseVariant s = Some v \<longleftrightarrow> s = variant_name v"
  by (cases v) (auto simp: ParseVariant_def variant_name_def)

section \<open>Input and output\<close>

record 'f candidate =
  hit :: "'f db_hit"
  csize :: nat
  relevance :: 'f

record 'f allocInput =
  queries :: "string list"
  candidates :: "'f candidate list list"
  budget :: int

record 'f allocOutput =
  included :: "'f candidate list list"
  omitted :: "nat list"
  byteBudgetUsed :: int
  budgetExceeded :: bool

definition newOutput :: "'f allocInput \<Rightarrow> 'f allocOutput" where
  "newOutput inp = \<lparr>included = replicate (length (candidates inp)) [],
                    omitted = replicate (length (candidates inp)) 0,
                    byteBudgetUsed = 0, budgetExceeded = False\<rparr>"

text \<open>The two updates of the output that the allocators make: appending a candidate to
  its query's result, and counting one as dropped.\<close>

definition include_cand :: "nat \<Rightarrow> 'f candidate \<Rightarrow> 'f allocOutput \<Rightarrow> 'f allocOutput" where
  "include_cand qi c out = out\<lparr>included := (included out)[qi := included out ! qi @ [c]]\<rparr>"

definition omit_cand :: "nat \<Rightarrow> 'f allocOutput \<Rightarrow> 'f allocOutput" where
  "omit_cand qi out = out\<lparr>omitted := (omitted out)[qi := omitted out ! qi + 1], budgetExceeded := True\<rparr>"

section \<open>The contract\<close>

definition sizes_of :: "'f candidate list \<Rightarrow> nat" where
  "sizes_of cs = sum_list (map csize cs)"

definition total_size :: "'f candidate list list \<Rightarrow> nat" where
  "total_size css = sum_list (map sizes_of css)"

lemma sizes_of_simps [simp]:
  "sizes_of [] = 0" "sizes_of (c # cs) = csize c + sizes_of cs"
  "sizes_of (cs @ ds) = sizes_of cs + sizes_of ds"
  by (simp_all add: sizes_of_def)

definition accounted :: "'f candidate list list \<Rightarrow> 'f allocOutput \<Rightarrow> bool" where
  "accounted css out \<longleftrightarrow>
     length (included out) = length css \<and> length (omitted out) = length css \<and>
     (\<forall>qi<length css. mset (included out ! qi) \<subseteq># mset (css ! qi)
        \<and> length (included out ! qi) + omitted out ! qi = length (css ! qi))"

definition alloc_ok :: "'f allocInput \<Rightarrow> 'f allocOutput \<Rightarrow> bool" where
  "alloc_ok inp out \<longleftrightarrow>
     accounted (candidates inp) out \<and>
     byteBudgetUsed out = int (total_size (included out)) \<and>
     byteBudgetUsed out \<le> budget inp \<and>
     (budgetExceeded out \<longleftrightarrow> (\<exists>k\<in>set (omitted out). 0 < k))"

locale allocator =
  fixes adm :: "'f allocInput \<Rightarrow> bool" and alloc :: "'f allocInput \<Rightarrow> 'f allocOutput"
  assumes alloc_ok: "adm inp \<Longrightarrow> alloc_ok inp (alloc inp)"
begin

lemma strict_budget: "adm inp \<Longrightarrow> int (total_size (included (alloc inp))) \<le> budget inp"
  using alloc_ok [of inp] by (auto simp: alloc_ok_def)

lemma complete_unless_exceeded:
  assumes "adm inp" "\<not> budgetExceeded (alloc inp)" "qi < length (candidates inp)"
  shows "mset (included (alloc inp) ! qi) = mset (candidates inp ! qi)"
proof -
  let ?out = "alloc inp"
  have ok: "accounted (candidates inp) ?out" "\<forall>k\<in>set (omitted ?out). k = 0"
    using alloc_ok [OF assms(1)] assms(2) by (auto simp: alloc_ok_def)
  then have "omitted ?out ! qi = 0" using assms(3) by (simp add: accounted_def)
  then have "length (included ?out ! qi) = length (candidates inp ! qi)"
    "mset (included ?out ! qi) \<subseteq># mset (candidates inp ! qi)"
    using ok(1) assms(3) by (auto simp: accounted_def)
  then show ?thesis by (metis mset_subset_size size_mset subset_mset.le_less less_irrefl)
qed

lemma exceeded_only_when_needed:
  assumes "adm inp" "budgetExceeded (alloc inp)"
  obtains qi where "qi < length (candidates inp)"
    "length (included (alloc inp) ! qi) < length (candidates inp ! qi)"
proof -
  let ?out = "alloc inp"
  have ok: "accounted (candidates inp) ?out" "\<exists>k\<in>set (omitted ?out). 0 < k"
    using alloc_ok [OF assms(1)] assms(2) by (auto simp: alloc_ok_def)
  then obtain qi where "qi < length (omitted ?out)" "0 < omitted ?out ! qi"
    by (auto simp: in_set_conv_nth)
  moreover from this ok(1) have "length (included ?out ! qi) + omitted ?out ! qi = length (candidates inp ! qi)"
    by (simp add: accounted_def)
  ultimately show ?thesis using that [of qi] ok(1) by (simp add: accounted_def)
qed

end

locale ordered_allocator = allocator adm alloc
  for adm :: "'f allocInput \<Rightarrow> bool" and alloc :: "'f allocInput \<Rightarrow> 'f allocOutput" +
  assumes alloc_subseq: "adm inp \<Longrightarrow> qi < length (candidates inp) \<Longrightarrow>
    subseq (included (alloc inp) ! qi) (candidates inp ! qi)"
begin

lemma all_in_order:
  assumes "adm inp" "\<not> budgetExceeded (alloc inp)"
  shows "included (alloc inp) = candidates inp"
proof (rule nth_equalityI)
  show l: "length (included (alloc inp)) = length (candidates inp)"
    using alloc_ok [OF assms(1)] by (simp add: alloc_ok_def accounted_def)
  fix qi assume "qi < length (included (alloc inp))"
  then have qi: "qi < length (candidates inp)" using l by simp
  have "length (included (alloc inp) ! qi) = length (candidates inp ! qi)"
    using complete_unless_exceeded [OF assms qi] by (metis size_mset)
  then show "included (alloc inp) ! qi = candidates inp ! qi"
    using alloc_subseq [OF assms(1) qi] subseq_same_length by blast
qed

end

section \<open>Decisions\<close>

text \<open>
  An allocator takes decisions one by one: the candidate offered is included when it
  fits under a limit, and counted as omitted otherwise. The ghost list of the
  candidates a query was offered ties the output to the input.
\<close>

definition offer :: "int \<Rightarrow> nat \<Rightarrow> 'f candidate \<Rightarrow> 'f allocOutput \<times> int \<Rightarrow> 'f allocOutput \<times> int" where
  "offer limit qi c st =
     (case st of (out, used) \<Rightarrow>
        if used + int (csize c) \<le> limit then (include_cand qi c out, used + int (csize c))
        else (omit_cand qi out, used))"

definition offered_inv :: "'f candidate list list \<Rightarrow> 'f allocOutput \<Rightarrow> bool" where
  "offered_inv done out \<longleftrightarrow>
     length (included out) = length done \<and> length (omitted out) = length done \<and>
     (\<forall>qi<length done. subseq (included out ! qi) (done ! qi)
        \<and> length (included out ! qi) + omitted out ! qi = length (done ! qi)) \<and>
     (budgetExceeded out \<longleftrightarrow> (\<exists>k\<in>set (omitted out). 0 < k))"

lemma offered_start: "offered_inv (replicate (length (candidates inp)) []) (newOutput inp)"
  by (auto simp: offered_inv_def newOutput_def)

lemma newOutput_total [simp]: "total_size (included (newOutput inp)) = 0"
  by (simp add: newOutput_def total_size_def sum_list_replicate)

lemma offered_include:
  "offered_inv done out \<Longrightarrow> qi < length done \<Longrightarrow>
     offered_inv (done[qi := done ! qi @ [c]]) (include_cand qi c out)"
  by (auto simp: offered_inv_def include_cand_def nth_list_update list_emb_append_mono)

lemma offered_omit:
  "offered_inv done out \<Longrightarrow> qi < length done \<Longrightarrow>
     offered_inv (done[qi := done ! qi @ [c]]) (omit_cand qi out)"
  by (auto simp: offered_inv_def omit_cand_def nth_list_update subseq_append_iff
      set_update_memI intro: bexI [OF _ set_update_memI])

lemma total_include:
  "qi < length (included out) \<Longrightarrow>
     total_size (included (include_cand qi c out)) = total_size (included out) + csize c"
  using sum_list_update_add [of qi "map sizes_of (included out)" "csize c"]
  by (simp add: include_cand_def total_size_def map_update)

lemma total_omit [simp]: "included (omit_cand qi out) = included out"
  by (simp add: omit_cand_def)

text \<open>One decision keeps the books, and the bytes it adds stay under the limit.\<close>

lemma offer_inv:
  assumes "offered_inv done out" "qi < length done" "offer limit qi c (out, used) = (out', used')"
  shows "offered_inv (done[qi := done ! qi @ [c]]) out'"
    "int (total_size (included out')) - int (total_size (included out)) = used' - used"
    "used \<le> limit \<Longrightarrow> used' \<le> limit" "used \<le> used'"
proof -
  have "qi < length (included out)" using assms(1,2) by (simp add: offered_inv_def)
  then show "offered_inv (done[qi := done ! qi @ [c]]) out'"
    "int (total_size (included out')) - int (total_size (included out)) = used' - used"
    "used \<le> limit \<Longrightarrow> used' \<le> limit" "used \<le> used'"
    using assms offered_include [OF assms(1,2)] offered_omit [OF assms(1,2)]
    by (auto simp: offer_def total_include split: if_splits)
qed

lemma subseq_mset: "subseq xs ys \<Longrightarrow> mset xs \<subseteq># mset ys"
  by (induction rule: list_emb.induct) (auto intro: subset_mset.order_trans)

lemma offered_accounted:
  assumes "offered_inv css out"
  shows "accounted css out"
  using assms by (auto simp: offered_inv_def accounted_def subseq_mset)

end
