(* ===== verification/Alloc_Greedy.thy ===== *)
theory Alloc_Greedy
  imports Alloc_Core
begin

text \<open>
  The allocators rank-round and equal-budget of internal/search/allocators.go. Both are
  sequences of decisions; what is proved of them, beyond the contract, is the coverage
  of rank-round (ranks that fit together are never starved) and that equal-budget fills
  every query's fixed share independently of the others.
\<close>

section \<open>Sequences of decisions\<close>

definition offers :: "int \<Rightarrow> (nat \<times> 'f candidate) list \<Rightarrow> 'f allocOutput \<times> int \<Rightarrow> 'f allocOutput \<times> int" where
  "offers limit evs st = fold (\<lambda>(qi, c). offer limit qi c) evs st"

lemma offers_simps [simp]:
  "offers limit [] st = st"
  "offers limit ((qi, c) # evs) st = offers limit evs (offer limit qi c st)"
  "offers limit (evs @ evs') st = offers limit evs' (offers limit evs st)"
  by (simp_all add: offers_def)

definition of_query :: "nat \<Rightarrow> (nat \<times> 'f candidate) list \<Rightarrow> 'f candidate list" where
  "of_query qi evs = map snd (filter (\<lambda>e. fst e = qi) evs)"

lemma of_query_simps [simp]:
  "of_query qi [] = []"
  "of_query qi ((q, c) # evs) = (if q = qi then c # of_query qi evs else of_query qi evs)"
  "of_query qi (evs @ evs') = of_query qi evs @ of_query qi evs'"
  by (simp_all add: of_query_def)

lemma of_query_concat: "of_query qi (concat evss) = concat (map (of_query qi) evss)"
  by (induction evss) simp_all

lemma offers_inv:
  "offered_inv done out \<Longrightarrow> \<forall>e\<in>set evs. fst e < length done \<Longrightarrow> offers limit evs (out, u) = (out', u') \<Longrightarrow>
   \<exists>done'. length done' = length done \<and> (\<forall>qi<length done. done' ! qi = done ! qi @ of_query qi evs)
     \<and> offered_inv done' out'
     \<and> int (total_size (included out')) - int (total_size (included out)) = u' - u
     \<and> (u \<le> limit \<longrightarrow> u' \<le> limit) \<and> u \<le> u'"
proof (induction evs arbitrary: "done" out u)
  case Nil
  then show ?case by auto
next
  case (Cons e evs)
  obtain qi c where e: "e = (qi, c)" by fastforce
  obtain out1 u1 where o1: "offer limit qi c (out, u) = (out1, u1)" by fastforce
  have qi: "qi < length done" using Cons.prems(2) e by simp
  note step = offer_inv [OF Cons.prems(1) qi o1]
  have rest: "offers limit evs (out1, u1) = (out', u')" using Cons.prems(3) e o1 by simp
  obtain done' where d: "length done' = length done"
      "\<forall>q<length done. done' ! q = (done[qi := done ! qi @ [c]]) ! q @ of_query q evs"
      "offered_inv done' out'"
      "int (total_size (included out')) - int (total_size (included out1)) = u' - u1"
      "u1 \<le> limit \<longrightarrow> u' \<le> limit" "u1 \<le> u'"
    using Cons.IH [OF step(1) _ rest] Cons.prems(2) by auto
  have "\<forall>q<length done. done' ! q = done ! q @ of_query q (e # evs)"
    using d(2) e qi by (auto simp: nth_list_update)
  then show ?case using d step by (intro exI [of _ done']) auto
qed

text \<open>While the candidates offered fit together, all of them are included.\<close>

lemma offers_fit:
  "u + int (sizes_of (map snd evs)) \<le> limit \<Longrightarrow> offers limit evs (out, u) = (out', u') \<Longrightarrow>
   \<forall>e\<in>set evs. fst e < length (included out) \<Longrightarrow>
   length (included out') = length (included out)
   \<and> (\<forall>qi<length (included out). included out' ! qi = included out ! qi @ of_query qi evs)"
proof (induction evs arbitrary: out u)
  case (Cons e evs)
  obtain qi c where e: "e = (qi, c)" by fastforce
  have fit: "offer limit qi c (out, u) = (include_cand qi c out, u + int (csize c))"
    using Cons.prems(1) e by (simp add: offer_def)
  have l: "length (included (include_cand qi c out)) = length (included out)"
    by (simp add: include_cand_def)
  have "length (included out') = length (included (include_cand qi c out)) \<and>
    (\<forall>q<length (included (include_cand qi c out)). included out' ! q
        = included (include_cand qi c out) ! q @ of_query q evs)"
    by (rule Cons.IH [of "u + int (csize c)"]) (use Cons.prems e fit l in auto)
  then show ?case using l e Cons.prems(3) by (auto simp: include_cand_def nth_list_update)
qed simp

lemma offer_keeps_prefix:
  "qi < length (included out) \<Longrightarrow> offer limit q c (out, u) = (out', u') \<Longrightarrow>
     length (included out') = length (included out) \<and> prefix (included out ! qi) (included out' ! qi)"
  by (cases "q = qi") (auto simp: offer_def include_cand_def omit_cand_def split: if_splits)

lemma offers_keep_prefix:
  "qi < length (included out) \<Longrightarrow> offers limit evs (out, u) = (out', u') \<Longrightarrow>
     prefix (included out ! qi) (included out' ! qi)"
proof (induction evs arbitrary: out u)
  case (Cons e evs)
  obtain q c where e: "e = (q, c)" by fastforce
  obtain out1 u1 where o1: "offer limit q c (out, u) = (out1, u1)" by fastforce
  have k: "length (included out1) = length (included out)" "prefix (included out ! qi) (included out1 ! qi)"
    using offer_keeps_prefix [OF Cons.prems(1) o1] by auto
  have "offers limit evs (out1, u1) = (out', u')" using Cons.prems(2) e o1 by simp
  then have "prefix (included out1 ! qi) (included out' ! qi)" using Cons.IH k(1) Cons.prems(1) by metis
  then show ?case using k(2) by (rule prefix_order.order_trans [rotated])
qed simp

section \<open>Rank-round\<close>

definition rank_offer :: "int \<Rightarrow> nat \<Rightarrow> nat \<times> 'f candidate list \<Rightarrow> 'f allocOutput \<times> int \<Rightarrow> 'f allocOutput \<times> int" where
  "rank_offer limit r = (\<lambda>(qi, cs) st. if r \<ge> length cs then st else offer limit qi (cs ! r) st)"

definition rankRound :: "'f allocInput \<Rightarrow> 'f allocOutput" where
  "rankRound inp =
     (let maxRank = fold (\<lambda>cs m. if length cs > m then length cs else m) (candidates inp) 0;
          (out, used) = fold (\<lambda>r. fold (rank_offer (budget inp) r) (enumerate 0 (candidates inp)))
                          [0..<maxRank] (newOutput inp, 0)
      in out\<lparr>byteBudgetUsed := used\<rparr>)"

definition rank_events :: "nat \<Rightarrow> 'f candidate list list \<Rightarrow> nat \<Rightarrow> (nat \<times> 'f candidate) list" where
  "rank_events n css r = concat (map (\<lambda>(qi, cs). if r < length cs then [(qi, cs ! r)] else []) (enumerate n css))"

lemma rank_events_simps [simp]:
  "rank_events n [] r = []"
  "rank_events n (cs # css) r = (if r < length cs then [(n, cs ! r)] else []) @ rank_events (Suc n) css r"
  by (simp_all add: rank_events_def)

lemma fold_rank_offer:
  "fold (rank_offer limit r) (enumerate n css) st = offers limit (rank_events n css r) st"
  by (induction css arbitrary: n st) (auto simp: rank_offer_def)

definition all_rank_events :: "'f candidate list list \<Rightarrow> nat \<Rightarrow> (nat \<times> 'f candidate) list" where
  "all_rank_events css m = concat (map (rank_events 0 css) [0..<m])"

lemma fold_rounds:
  "fold (\<lambda>r. fold (rank_offer limit r) (enumerate 0 css)) [0..<m] st = offers limit (all_rank_events css m) st"
  by (induction m) (auto simp: all_rank_events_def fold_rank_offer)

lemma rank_events_fst: "e \<in> set (rank_events n css r) \<Longrightarrow> n \<le> fst e \<and> fst e < n + length css"
  by (induction css arbitrary: n) (fastforce split: if_splits)+

lemma of_query_outside: "\<forall>e\<in>set evs. fst e \<noteq> qi \<Longrightarrow> of_query qi evs = []"
  by (simp add: of_query_def)

lemma of_query_rank:
  "qi < length css \<Longrightarrow> of_query (n + qi) (rank_events n css r)
      = (if r < length (css ! qi) then [css ! qi ! r] else [])"
proof (induction css arbitrary: n qi)
  case (Cons cs css)
  show ?case
  proof (cases qi)
    case 0
    have "of_query n (rank_events (Suc n) css r) = []"
      by (rule of_query_outside) (use rank_events_fst in fastforce)
    then show ?thesis using 0 by simp
  next
    case (Suc k)
    then have "of_query (Suc n + k) (rank_events (Suc n) css r)
        = (if r < length (css ! k) then [css ! k ! r] else [])"
      using Cons.prems by (intro Cons.IH) simp
    then show ?thesis using Suc by simp
  qed
qed simp

lemma concat_nths_take: "concat (map (\<lambda>r. if r < length cs then [cs ! r] else []) [0..<m]) = take m cs"
  by (induction m) (simp_all add: take_Suc_conv_app_nth)

lemma of_query_all_ranks:
  "qi < length css \<Longrightarrow> of_query qi (all_rank_events css m) = take m (css ! qi)"
  using of_query_rank [of qi css 0]
  by (simp add: all_rank_events_def of_query_concat comp_def concat_nths_take)

lemma max_rank_ge:
  "(\<forall>cs\<in>set css. length cs \<le> fold (\<lambda>cs m. if length cs > m then length cs else m) css m)
   \<and> m \<le> fold (\<lambda>cs m. if length cs > m then length cs else m) css m"
proof (induction css arbitrary: m)
  case (Cons cs css)
  from Cons [of "if length cs > m then length cs else m"] show ?case by (auto split: if_splits)
qed simp

lemma rank_total: "sizes_of (map snd (rank_events n css r)) = sum_list (map (\<lambda>cs. if r < length cs then csize (cs ! r) else 0) css)"
  by (induction css arbitrary: n) auto

lemma sizes_take_Suc: "sizes_of (take (Suc r) cs) = sizes_of (take r cs) + (if r < length cs then csize (cs ! r) else 0)"
  by (simp add: take_Suc_conv_app_nth)

lemma all_rank_total: "sizes_of (map snd (all_rank_events css m)) = total_size (map (take m) css)"
proof (induction m)
  case 0
  show ?case by (induction css) (simp_all add: all_rank_events_def total_size_def)
next
  case (Suc m)
  have "sum_list (map (\<lambda>cs. sizes_of (take (Suc m) cs)) css)
      = sum_list (map (\<lambda>cs. sizes_of (take m cs)) css)
        + sum_list (map (\<lambda>cs. if m < length cs then csize (cs ! m) else 0) css)"
    by (simp add: sizes_take_Suc sum_list_addf)
  then show ?case using Suc
    by (simp add: all_rank_events_def total_size_def comp_def rank_total)
qed

lemma rankRound_events:
  obtains m out used where "offers (budget inp) (all_rank_events (candidates inp) m) (newOutput inp, 0) = (out, used)"
    "rankRound inp = out\<lparr>byteBudgetUsed := used\<rparr>"
    "\<forall>cs\<in>set (candidates inp). length cs \<le> m"
proof -
  define m where "m = fold (\<lambda>cs m. if length cs > m then length cs else m) (candidates inp) 0"
  obtain out used where o: "offers (budget inp) (all_rank_events (candidates inp) m) (newOutput inp, 0) = (out, used)"
    by fastforce
  have "rankRound inp = out\<lparr>byteBudgetUsed := used\<rparr>"
    unfolding rankRound_def Let_def fold_rounds m_def [symmetric] o by simp
  moreover have "\<forall>cs\<in>set (candidates inp). length cs \<le> m"
    using max_rank_ge [where css = "candidates inp" and m = 0] unfolding m_def by blast
  ultimately show ?thesis using that o by blast
qed

lemma all_rank_events_fst: "\<forall>e\<in>set (all_rank_events css m). fst e < length css"
  using rank_events_fst [of _ 0 css] by (fastforce simp: all_rank_events_def)

text \<open>A sequence of decisions that offers each query its candidates in rank order keeps the contract.\<close>

lemma decisions_ok:
  assumes "offers (budget inp) evs (newOutput inp, 0) = (out, used)" "0 \<le> budget inp"
    "\<forall>e\<in>set evs. fst e < length (candidates inp)"
    "\<forall>qi<length (candidates inp). of_query qi evs = candidates inp ! qi"
  shows "alloc_ok inp (out\<lparr>byteBudgetUsed := used\<rparr>)"
    "\<forall>qi<length (candidates inp). subseq (included out ! qi) (candidates inp ! qi)"
proof -
  let ?n = "length (candidates inp)"
  obtain done' where d: "length done' = ?n" "\<forall>qi<?n. done' ! qi = replicate ?n [] ! qi @ of_query qi evs"
     "offered_inv done' out" "int (total_size (included out)) = used" "used \<le> budget inp"
    using offers_inv [OF offered_start _ assms(1)] assms(2,3) by auto
  have "done' = candidates inp" by (rule nth_equalityI) (use d(1,2) assms(4) in simp_all)
  then have inv: "offered_inv (candidates inp) out" using d(3) by simp
  then show "\<forall>qi<?n. subseq (included out ! qi) (candidates inp ! qi)" by (simp add: offered_inv_def)
  show "alloc_ok inp (out\<lparr>byteBudgetUsed := used\<rparr>)"
    using offered_accounted [OF inv] inv d(4,5) by (simp add: alloc_ok_def accounted_def offered_inv_def)
qed

definition nonneg_budget :: "'f allocInput \<Rightarrow> bool" where
  "nonneg_budget inp \<longleftrightarrow> 0 \<le> budget inp"

interpretation rank_round: ordered_allocator nonneg_budget rankRound
proof unfold_locales
  fix inp :: "'f allocInput"
  assume adm: "nonneg_budget inp"
  obtain m out used where e: "offers (budget inp) (all_rank_events (candidates inp) m) (newOutput inp, 0) = (out, used)"
      "rankRound inp = out\<lparr>byteBudgetUsed := used\<rparr>" "\<forall>cs\<in>set (candidates inp). length cs \<le> m"
    by (rule rankRound_events)
  have q: "\<forall>qi<length (candidates inp). of_query qi (all_rank_events (candidates inp) m) = candidates inp ! qi"
    using of_query_all_ranks [where css = "candidates inp" and m = m] e(3) by (simp add: all_set_conv_all_nth)
  note ok = decisions_ok [OF e(1) _ all_rank_events_fst q]
  show "alloc_ok inp (rankRound inp)" using ok(1) adm e(2) by (simp add: nonneg_budget_def)
  show "subseq (included (rankRound inp) ! qi) (candidates inp ! qi)" if "qi < length (candidates inp)" for qi
    using ok(2) adm e(2) that by (simp add: nonneg_budget_def)
qed

text \<open>Coverage: if all candidates of rank below \<open>r\<close> fit together, all of them are returned first.\<close>

lemma rankRound_prefix:
  assumes "int (total_size (map (take r) (candidates inp))) \<le> budget inp" "qi < length (candidates inp)"
  shows "prefix (take r (candidates inp ! qi)) (included (rankRound inp) ! qi)"
proof -
  let ?css = "candidates inp"
  obtain m out used where e: "offers (budget inp) (all_rank_events ?css m) (newOutput inp, 0) = (out, used)"
      "rankRound inp = out\<lparr>byteBudgetUsed := used\<rparr>" "\<forall>cs\<in>set ?css. length cs \<le> m"
    by (rule rankRound_events)
  define k where "k = min r m"
  obtain out1 u1 where o1: "offers (budget inp) (all_rank_events ?css k) (newOutput inp, 0) = (out1, u1)" by fastforce
  have tk: "map (take k) ?css = map (take r) ?css" using e(3) by (auto simp: k_def min_def)
  have in1: "length (included out1) = length ?css \<and> included out1 ! qi = of_query qi (all_rank_events ?css k)"
    using offers_fit [OF _ o1] all_rank_events_fst [of ?css k] assms
    by (simp add: all_rank_total tk newOutput_def)
  have ev1: "of_query qi (all_rank_events ?css k) = take r (?css ! qi)"
    using of_query_all_ranks [OF assms(2)] tk assms(2) by (metis nth_map)
  have "[0..<m] = [0..<k] @ [k..<m]" using upt_add_eq_append [of 0 k "m - k"] by (simp add: k_def)
  then have "all_rank_events ?css m = all_rank_events ?css k @ concat (map (rank_events 0 ?css) [k..<m])"
    by (simp add: all_rank_events_def)
  then have "offers (budget inp) (concat (map (rank_events 0 ?css) [k..<m])) (out1, u1) = (out, used)"
    using e(1) o1 by simp
  then have "prefix (included out1 ! qi) (included out ! qi)"
    by (rule offers_keep_prefix [rotated]) (use in1 assms(2) in simp)
  then show ?thesis using e(2) in1 ev1 by simp
qed

section \<open>Equal-budget\<close>

definition equal_query ::
  "int \<Rightarrow> int \<Rightarrow> nat \<times> 'f candidate list \<Rightarrow> 'f allocOutput \<times> int \<Rightarrow> 'f allocOutput \<times> int" where
  "equal_query share remainder = (\<lambda>(qi, cs) (out, used).
     let capBytes = (if int qi < remainder then share + 1 else share);
         (out, qUsed) = fold (offer capBytes qi) cs (out, 0)
     in (out, used + qUsed))"

definition equalBudget :: "'f allocInput \<Rightarrow> 'f allocOutput" where
  "equalBudget inp =
     (let out = newOutput inp;
          q = int (length (candidates inp))
      in if q = 0 then out
         else
           (let share = budget inp sdiv q;
                remainder = budget inp smod q;
                (out, used) = fold (equal_query share remainder) (enumerate 0 (candidates inp)) (out, 0)
            in out\<lparr>byteBudgetUsed := used\<rparr>))"

text \<open>What a query gets from a share of its own: the greedy fill of the share.\<close>

fun fill_share :: "int \<Rightarrow> int \<Rightarrow> 'f candidate list \<Rightarrow> 'f candidate list" where
  "fill_share share used [] = []"
| "fill_share share used (c # cs) =
     (if used + int (csize c) \<le> share then c # fill_share share (used + int (csize c)) cs
      else fill_share share used cs)"

definition share_of :: "int \<Rightarrow> nat \<Rightarrow> nat \<Rightarrow> int" where
  "share_of b n qi = b div int n + (if int qi < b mod int n then 1 else 0)"

lemma fill_share_props:
  "subseq (fill_share s u cs) cs" "u \<le> s \<Longrightarrow> u + int (sizes_of (fill_share s u cs)) \<le> s"
  by (induction cs arbitrary: u) fastforce+

lemma offer_step:
  "offer s qi c (out, u) = (if u + int (csize c) \<le> s then (include_cand qi c out, u + int (csize c))
                            else (omit_cand qi out, u))"
  by (simp add: offer_def)

lemma offer_share:
  "qi < length (included out) \<Longrightarrow> fold (offer s qi) cs (out, u) = (out', u') \<Longrightarrow>
   length (included out') = length (included out)
   \<and> included out' ! qi = included out ! qi @ fill_share s u cs
   \<and> (\<forall>q. q \<noteq> qi \<longrightarrow> included out' ! q = included out ! q)
   \<and> u' = u + int (sizes_of (fill_share s u cs))"
proof (induction cs arbitrary: out u)
  case (Cons c cs)
  show ?case
  proof (cases "u + int (csize c) \<le> s")
    case True
    then have "fold (offer s qi) cs (include_cand qi c out, u + int (csize c)) = (out', u')"
      using Cons.prems(2) by (simp add: offer_step)
    from Cons.IH [OF _ this] Cons.prems(1) True show ?thesis by (simp add: include_cand_def)
  next
    case False
    then have "fold (offer s qi) cs (omit_cand qi out, u) = (out', u')"
      using Cons.prems(2) by (simp add: offer_step)
    from Cons.IH [OF _ this] Cons.prems(1) False show ?thesis by (simp add: omit_cand_def)
  qed
qed simp

lemma fold_offer_events: "fold (offer s qi) cs st = offers s (map (Pair qi) cs) st"
  by (induction cs arbitrary: st) simp_all

lemma of_query_map_Pair: "of_query q (map (Pair qi) cs) = (if q = qi then cs else [])"
  by (induction cs) auto

lemma sdiv_smod_nonneg:
  assumes "0 \<le> (b::int)" "0 < n"
  shows "b sdiv n = b div n" "b smod n = b mod n"
  using assms by (auto simp: signed_divide_int_def signed_modulo_int_def sgn_if)

text \<open>After the first \<open>k\<close> queries: their results are in place, the others are untouched.\<close>

lemma equal_loop:
  assumes "0 \<le> budget inp" "n = length (candidates inp)" "k \<le> n"
    "fold (equal_query (budget inp div int n) (budget inp mod int n)) (enumerate 0 (take k (candidates inp)))
        (newOutput inp, 0) = (out, used)"
  shows "(\<exists>done. length done = n \<and> offered_inv done out
            \<and> (\<forall>q<n. done ! q = (if q < k then candidates inp ! q else [])))
    \<and> (\<forall>q<n. included out ! q = (if q < k then fill_share (share_of (budget inp) n q) 0 (candidates inp ! q) else []))
    \<and> used = int (total_size (included out))"
  using assms(3,4)
proof (induction k arbitrary: out used)
  case 0
  then have "out = newOutput inp" "used = 0" by simp_all
  then show ?case using offered_start [of inp] assms(2)
    by (auto simp: newOutput_def total_size_def sum_list_replicate intro!: exI [of _ "replicate n []"])
next
  case (Suc k)
  let ?css = "candidates inp" and ?s = "share_of (budget inp) n k"
  obtain out1 u1 where o1: "fold (equal_query (budget inp div int n) (budget inp mod int n))
        (enumerate 0 (take k ?css)) (newOutput inp, 0) = (out1, u1)" by fastforce
  have IH: "(\<exists>done. length done = n \<and> offered_inv done out1
            \<and> (\<forall>q<n. done ! q = (if q < k then ?css ! q else [])))
    \<and> (\<forall>q<n. included out1 ! q = (if q < k then fill_share (share_of (budget inp) n q) 0 (?css ! q) else []))
    \<and> u1 = int (total_size (included out1))"
    using Suc.IH [OF _ o1] Suc.prems(1) by simp
  then obtain d where d: "length d = n" "offered_inv d out1" "\<forall>q<n. d ! q = (if q < k then ?css ! q else [])"
    by blast
  have k: "k < n" "k < length (included out1)" "length (included out1) = n"
    using Suc.prems(1) d(1,2) by (auto simp: offered_inv_def)
  have "enumerate 0 (take (Suc k) ?css) = enumerate 0 (take k ?css) @ [(k, ?css ! k)]"
    using k assms(2) by (simp add: take_Suc_conv_app_nth enumerate_append_eq)
  then have "equal_query (budget inp div int n) (budget inp mod int n) (k, ?css ! k) (out1, u1) = (out, used)"
    using Suc.prems(2) o1 by simp
  then obtain qu where o2: "fold (offer ?s k) (?css ! k) (out1, 0) = (out, qu)" "used = u1 + qu"
    by (auto simp: equal_query_def share_of_def Let_def split: prod.splits if_splits)
  note sh = offer_share [OF k(2) o2(1)]
  have "offers ?s (map (Pair k) (?css ! k)) (out1, 0) = (out, qu)" using o2(1) by (simp add: fold_offer_events)
  from offers_inv [OF d(2) _ this] obtain d' where d': "length d' = n"
      "\<forall>q<n. d' ! q = d ! q @ of_query q (map (Pair k) (?css ! k))" "offered_inv d' out"
      "int (total_size (included out)) - int (total_size (included out1)) = qu"
    using d(1) k(1) by auto
  have "\<forall>q<n. d' ! q = (if q < Suc k then ?css ! q else [])"
    using d'(2) d(3) by (auto simp: of_query_map_Pair less_Suc_eq)
  moreover have "included out ! q = (if q < Suc k then fill_share (share_of (budget inp) n q) 0 (?css ! q) else [])"
    if "q < n" for q
    using IH sh that by (cases "q = k") (auto simp: less_Suc_eq)
  moreover have "used = int (total_size (included out))" using IH o2(2) d'(4) by simp
  ultimately show ?case using d'(1,3) by blast
qed

lemma shares_sum:
  assumes "0 \<le> b" "0 < n"
  shows "(\<Sum>q<n. share_of b n q) = b"
proof -
  have "(\<Sum>q<n. if int q < b mod int n then 1 else 0 :: int) = int (card {q. q < n \<and> int q < b mod int n})"
  proof -
    have "{..<n} \<inter> {q. int q < b mod int n} = {q. q < n \<and> int q < b mod int n}" by auto
    then show ?thesis by (simp add: sum.If_cases)
  qed
  also have "{q. q < n \<and> int q < b mod int n} = {..<nat (b mod int n)}"
  proof -
    have "b mod int n < int n" using assms(2) by simp
    then show ?thesis by auto
  qed
  finally have "(\<Sum>q<n. share_of b n q) = int n * (b div int n) + b mod int n"
    using assms by (simp add: share_of_def sum.distrib)
  then show ?thesis by simp
qed

lemma total_size_nth: "total_size css = (\<Sum>q<length css. sizes_of (css ! q))"
  by (simp add: total_size_def sum_list_sum_nth atLeast0LessThan)

lemma equalBudget_props:
  assumes "0 \<le> budget inp"
  shows "alloc_ok inp (equalBudget inp)"
    "\<forall>qi<length (candidates inp). included (equalBudget inp) ! qi
        = fill_share (share_of (budget inp) (length (candidates inp)) qi) 0 (candidates inp ! qi)"
proof -
  let ?css = "candidates inp" and ?n = "length (candidates inp)" and ?b = "budget inp"
  have "alloc_ok inp (equalBudget inp) \<and> (\<forall>qi<?n. included (equalBudget inp) ! qi
        = fill_share (share_of ?b ?n qi) 0 (?css ! qi))"
  proof (cases "?n = 0")
    case True
    then have "equalBudget inp = newOutput inp" by (simp add: equalBudget_def)
    then show ?thesis using True assms
      by (simp add: alloc_ok_def accounted_def newOutput_def total_size_def)
  next
    case False
    obtain out used where o: "fold (equal_query (?b div int ?n) (?b mod int ?n)) (enumerate 0 ?css)
        (newOutput inp, 0) = (out, used)" by fastforce
    have eq: "equalBudget inp = out\<lparr>byteBudgetUsed := used\<rparr>"
      using False o assms by (simp add: equalBudget_def Let_def sdiv_smod_nonneg)
    obtain d where d: "length d = ?n" "offered_inv d out" "\<forall>q<?n. d ! q = ?css ! q"
        "\<forall>q<?n. included out ! q = fill_share (share_of ?b ?n q) 0 (?css ! q)"
        "used = int (total_size (included out))"
    proof -
      have o': "fold (equal_query (?b div int ?n) (?b mod int ?n)) (enumerate 0 (take ?n ?css)) (newOutput inp, 0)
          = (out, used)" using o by simp
      note l = equal_loop [OF assms refl order_refl o']
      from l obtain d where "length d = ?n" "offered_inv d out" "\<forall>q<?n. d ! q = (if q < ?n then ?css ! q else [])"
        by blast
      moreover have "\<forall>q<?n. included out ! q = fill_share (share_of ?b ?n q) 0 (?css ! q)"
        "used = int (total_size (included out))" using l by simp_all
      ultimately show ?thesis using that [of d] by simp
    qed
    have dcss: "d = ?css" by (rule nth_equalityI) (use d in simp_all)
    have len: "length (included out) = ?n" using d(1,2) by (simp add: offered_inv_def)
    have share_nonneg: "0 \<le> share_of ?b ?n q" for q
    proof -
      have "0 \<le> ?b div int ?n" using assms by (simp add: div_int_pos_iff)
      then show ?thesis by (simp add: share_of_def)
    qed
    have "int (sizes_of (included out ! q)) \<le> share_of ?b ?n q" if "q < ?n" for q
      using fill_share_props(2) [OF share_nonneg, of q "?css ! q"] d(4) that by simp
    then have "int (total_size (included out)) \<le> (\<Sum>q<?n. share_of ?b ?n q)"
      unfolding total_size_nth len of_nat_sum by (intro sum_mono) simp
    then have "used \<le> ?b" using shares_sum [OF assms] False d(5) by simp
    then show ?thesis using eq offered_accounted [OF d(2)] d dcss
      by (simp add: alloc_ok_def accounted_def offered_inv_def)
  qed
  then show "alloc_ok inp (equalBudget inp)"
    "\<forall>qi<?n. included (equalBudget inp) ! qi = fill_share (share_of ?b ?n qi) 0 (?css ! qi)" by auto
qed

interpretation equal_budget: ordered_allocator nonneg_budget equalBudget
  by unfold_locales (simp_all add: nonneg_budget_def equalBudget_props fill_share_props(1))

end
