(* ===== verification/Alloc_Score.thy ===== *)
theory Alloc_Score
  imports Alloc_Greedy
begin

text \<open>
  The allocator score-proportional of internal/search/allocators.go. The budget is
  apportioned by the relevance of each query's first hit with the largest-remainder
  method, every query takes a prefix of its hits from its share, and what is left is
  offered rank by rank. With exact arithmetic and non-negative relevances the shares
  add up to the budget, each within one byte of its quota, which gives the contract.
\<close>

section \<open>Definitions\<close>

definition frac_less :: "'f fops \<Rightarrow> nat \<times> 'f \<Rightarrow> nat \<times> 'f \<Rightarrow> bool" where
  "frac_less A a b = (if \<not> feq A (snd a) (snd b) then flt A (snd b) (snd a) else fst a < fst b)"

definition largestRemainder :: "'f fops \<Rightarrow> 'f list \<Rightarrow> 'f \<Rightarrow> int \<Rightarrow> int list" where
  "largestRemainder A weights ttl bgt =
     (let quotas = map (\<lambda>w. fmul A (fdiv A w ttl) (fint A bgt)) weights;
          shares = map (ftrunc A) quotas;
          fracs = enumerate 0 (map (\<lambda>q. fsub A q (fint A (ftrunc A q))) quotas);
          remaining = bgt - sum_list shares
      in fold (\<lambda>f shares. shares[fst f := shares ! fst f + 1])
           (take (nat remaining) (stable_sort (frac_less A) fracs)) shares)"

text \<open>The inner loop of the first pass: a prefix of the hits under the share.\<close>

fun prop_fill :: "int \<Rightarrow> nat \<Rightarrow> 'f candidate list \<Rightarrow> nat \<Rightarrow> 'f allocOutput \<times> int \<times> nat \<Rightarrow> 'f allocOutput \<times> int \<times> nat" where
  "prop_fill share qi [] ci st = st"
| "prop_fill share qi (c # cs) ci (out, qUsed, nxt) =
     (if qUsed + int (csize c) \<le> share
      then prop_fill share qi cs (ci + 1) (include_cand qi c out, qUsed + int (csize c), ci + 1)
      else (out, qUsed, nxt))"

definition prop_query ::
  "int list \<Rightarrow> nat \<times> 'f candidate list \<Rightarrow> 'f allocOutput \<times> int \<times> nat list \<Rightarrow> 'f allocOutput \<times> int \<times> nat list" where
  "prop_query shares = (\<lambda>(qi, cs) (out, used, nexts).
     let (out, qUsed, nxt) = prop_fill (shares ! qi) qi cs 0 (out, 0, 0)
     in (out, used + qUsed, nexts[qi := nxt]))"

definition prop_offer ::
  "nat list \<Rightarrow> nat \<times> 'f candidate list \<Rightarrow> 'f allocOutput \<times> int \<times> int \<times> nat list
   \<Rightarrow> 'f allocOutput \<times> int \<times> int \<times> nat list" where
  "prop_offer nexts = (\<lambda>(qi, cs) (out, used, leftover, offered).
     let idx = nexts ! qi + offered ! qi in
     if idx \<ge> length cs then (out, used, leftover, offered)
     else
       (let c = cs ! idx; offered = offered[qi := offered ! qi + 1] in
        if int (csize c) \<le> leftover
        then (include_cand qi c out, used + int (csize c), leftover - int (csize c), offered)
        else (omit_cand qi out, used, leftover, offered)))"

definition prop_weights :: "'f fops \<Rightarrow> 'f candidate list list \<Rightarrow> 'f list \<times> 'f" where
  "prop_weights A css =
     (let weights = map (\<lambda>cs. case cs of [] \<Rightarrow> fint A 0 | c # _ \<Rightarrow> relevance c) css;
          total = fold (\<lambda>w t. fadd A t w) weights (fint A 0)
      in if fle A total (fint A 0)
         then (replicate (length css) (fint A 1), fint A (int (length css)))
         else (weights, total))"

definition scoreProportional :: "'f fops \<Rightarrow> 'f allocInput \<Rightarrow> 'f allocOutput" where
  "scoreProportional A inp =
     (let out = newOutput inp; css = candidates inp; q = length css in
      if q = 0 then out
      else
        (let (weights, total) = prop_weights A css;
             shares = largestRemainder A weights total (budget inp);
             (out, used, nexts) = fold (prop_query shares) (enumerate 0 css) (out, 0, replicate q 0);
             leftover = budget inp - used;
             maxRank = fold (\<lambda>(qi, cs) m. if int (length cs) - int (nexts ! qi) > m
                                         then int (length cs) - int (nexts ! qi) else m) (enumerate 0 css) 0;
             (out, used, leftover, offered) =
               fold (\<lambda>r. fold (prop_offer nexts) (enumerate 0 css)) [0..<nat maxRank]
                 (out, used, leftover, replicate q 0)
         in out\<lparr>byteBudgetUsed := used\<rparr>))"

section \<open>The largest-remainder method\<close>

lemma sum_list_bump: "i < length xs \<Longrightarrow> sum_list (xs[i := xs ! i + k]) = sum_list xs + k"
  for xs :: "int list"
  by (induction xs arbitrary: i) (auto split: nat.split)

lemma bump_sum:
  "\<forall>f\<in>set fs. fst f < length shares \<Longrightarrow>
     sum_list (fold (\<lambda>f s. s[fst f := s ! fst f + 1]) fs shares) = sum_list shares + int (length fs)
     \<and> length (fold (\<lambda>f s. s[fst f := s ! fst f + 1]) fs shares) = length shares"
  for shares :: "int list"
proof (induction fs arbitrary: shares)
  case (Cons f fs)
  have "sum_list (shares[fst f := shares ! fst f + 1]) = sum_list shares + 1"
    using Cons.prems by (simp add: sum_list_bump)
  then show ?case using Cons.IH [of "shares[fst f := shares ! fst f + 1]"] Cons.prems by simp
qed simp

lemma bump_nth:
  "\<forall>f\<in>set fs. fst f < length shares \<Longrightarrow> distinct (map fst fs) \<Longrightarrow> i < length shares \<Longrightarrow>
     fold (\<lambda>f s. s[fst f := s ! fst f + 1]) fs shares ! i
       = shares ! i + (if i \<in> fst ` set fs then 1 else 0)"
  for shares :: "int list"
proof (induction fs arbitrary: shares)
  case (Cons f fs)
  let ?s = "shares[fst f := shares ! fst f + 1]"
  have "fold (\<lambda>f s. s[fst f := s ! fst f + 1]) fs ?s ! i = ?s ! i + (if i \<in> fst ` set fs then 1 else 0)"
    by (rule Cons.IH) (use Cons.prems in auto)
  then show ?case using Cons.prems by (cases "i = fst f") auto
qed simp

text \<open>The quotas are apportioned: with exact arithmetic every share is its quota rounded
  down or up, and the shares add up to the budget.\<close>

lemma largestRemainder_exact:
  assumes "\<forall>w\<in>set weights. 0 \<le> w" "sum_list weights = ttl" "0 < ttl" "0 \<le> b"
  defines "shares \<equiv> largestRemainder exact weights ttl b"
  shows "length shares = length weights" "sum_list shares = b"
    "\<forall>i<length weights. \<lfloor>weights ! i / ttl * of_int b\<rfloor> \<le> shares ! i
        \<and> shares ! i \<le> \<lfloor>weights ! i / ttl * of_int b\<rfloor> + 1"
proof -
  define quotas where "quotas = map (\<lambda>w. w / ttl * rat_of_int b) weights"
  define floors where "floors = map (\<lambda>q. \<lfloor>q\<rfloor>) quotas"
  define fracs where "fracs = enumerate 0 (map (\<lambda>q. q - rat_of_int (trunc_rat q)) quotas)"
  define sorted where "sorted = stable_sort (frac_less exact) fracs"
  have qpos: "\<forall>q\<in>set quotas. 0 \<le> q" using assms(1,3,4) by (auto simp: quotas_def)
  then have tr: "map trunc_rat quotas = floors" by (auto simp: floors_def trunc_rat_def)
  have "sum_list quotas = sum_list weights * (of_int b / ttl)"
    using sum_list_mult_const [of "\<lambda>w. w" "of_int b / ttl" weights] by (simp add: quotas_def)
  then have qsum: "sum_list quotas = of_int b" using assms(2,3) by simp
  have len: "length floors = length weights" "length quotas = length weights"
    by (simp_all add: floors_def quotas_def)
  have diff: "of_int (sum_list (map (\<lambda>q. \<lfloor>q\<rfloor>) qs)) \<le> sum_list qs
      \<and> sum_list qs \<le> of_int (sum_list (map (\<lambda>q. \<lfloor>q\<rfloor>) qs)) + of_nat (length qs)" for qs :: "rat list"
  proof (induction qs)
    case (Cons q qs)
    have "of_int \<lfloor>q\<rfloor> \<le> q" "q \<le> of_int \<lfloor>q\<rfloor> + 1" by linarith+
    then show ?case using Cons
      by (simp only: list.map sum_list.Cons length_Cons of_int_add of_nat_Suc) linarith
  qed simp
  have rem: "sum_list floors \<le> b" "b \<le> sum_list floors + int (length weights)"
    using diff [of quotas] qsum len(2) unfolding floors_def [symmetric] by linarith+
  define k where "k = nat (b - sum_list floors)"
  have k: "int k = b - sum_list floors" "k \<le> length weights" using rem by (simp_all add: k_def)
  have sh: "shares = fold (\<lambda>f s. s[fst f := s ! fst f + 1]) (take k sorted) floors"
    unfolding shares_def largestRemainder_def Let_def exact_simps
      quotas_def [symmetric] tr fracs_def [symmetric] sorted_def [symmetric] k_def ..
  have ms: "mset sorted = mset fracs" by (simp add: sorted_def)
  have fr: "map fst fracs = [0..<length weights]" by (simp add: fracs_def quotas_def)
  have ls: "length sorted = length weights"
    using ms fr by (metis length_map length_upt minus_nat.diff_0 size_mset)
  have dist: "distinct (map fst sorted)" "set (map fst sorted) = {0..<length weights}"
    using ms fr by (metis distinct_upt mset_eq_imp_distinct_iff mset_map,
        metis atLeastLessThan_upt mset_eq_setD mset_map)
  have bnd: "\<forall>f\<in>set (take k sorted). fst f < length floors"
  proof
    fix f assume "f \<in> set (take k sorted)"
    then have "fst f \<in> set (map fst sorted)" by (auto dest: in_set_takeD)
    then show "fst f < length floors" using dist(2) len(1) by simp
  qed
  have dt: "distinct (map fst (take k sorted))" using dist(1) by (metis distinct_take take_map)
  show "length shares = length weights" "sum_list shares = b"
    using bump_sum [OF bnd] sh len ls k by simp_all
  show "\<forall>i<length weights. \<lfloor>weights ! i / ttl * of_int b\<rfloor> \<le> shares ! i
        \<and> shares ! i \<le> \<lfloor>weights ! i / ttl * of_int b\<rfloor> + 1"
  proof (intro allI impI)
    fix i assume i: "i < length weights"
    have "floors ! i = \<lfloor>weights ! i / ttl * of_int b\<rfloor>" using i by (simp add: floors_def quotas_def)
    moreover have "shares ! i = floors ! i + (if i \<in> fst ` set (take k sorted) then 1 else 0)"
      unfolding sh by (rule bump_nth [OF bnd dt]) (use i len in simp)
    ultimately show "\<lfloor>weights ! i / ttl * of_int b\<rfloor> \<le> shares ! i
        \<and> shares ! i \<le> \<lfloor>weights ! i / ttl * of_int b\<rfloor> + 1" by simp
  qed
qed

section \<open>The first pass\<close>

lemma offered_many:
  assumes "offered_inv done out" "qi < length done"
    "included out' = (included out)[qi := included out ! qi @ cs]" "omitted out' = omitted out"
    "budgetExceeded out' = budgetExceeded out"
  shows "offered_inv (done[qi := done ! qi @ cs]) out'"
  using assms by (auto simp: offered_inv_def nth_list_update list_emb_append_mono)

lemma prop_fill_props:
  "qi < length (included out) \<Longrightarrow> prop_fill s qi cs ci (out, u, ci) = (out', u', nx) \<Longrightarrow>
   ci \<le> nx \<and> nx \<le> ci + length cs
   \<and> included out' = (included out)[qi := included out ! qi @ take (nx - ci) cs]
   \<and> omitted out' = omitted out \<and> budgetExceeded out' = budgetExceeded out
   \<and> u' = u + int (sizes_of (take (nx - ci) cs)) \<and> (u \<le> s \<or> u' = u \<longrightarrow> u' \<le> max u s)"
proof (induction cs arbitrary: out u ci)
  case Nil
  then show ?case by simp
next
  case (Cons c cs)
  show ?case
  proof (cases "u + int (csize c) \<le> s")
    case True
    then have st: "prop_fill s qi cs (Suc ci) (include_cand qi c out, u + int (csize c), Suc ci) = (out', u', nx)"
      using Cons.prems(2) by simp
    have len: "qi < length (included (include_cand qi c out))" using Cons.prems(1) by (simp add: include_cand_def)
    note IH = Cons.IH [OF len st]
    then obtain k where k: "nx - ci = Suc k" "nx - Suc ci = k" by (cases "nx - ci") auto
    show ?thesis using IH True Cons.prems(1) k by (auto simp: include_cand_def)
  next
    case False
    then show ?thesis using Cons.prems by auto
  qed
qed

lemma prop_query_loop:
  assumes "n = length css" "css = candidates inp" "k \<le> n"
    "fold (prop_query shares) (enumerate 0 (take k css)) (newOutput inp, 0, replicate n 0) = (out, used, nexts)"
  shows "length nexts = n \<and> (\<forall>q<n. nexts ! q \<le> length (css ! q))
    \<and> offered_inv (map (\<lambda>q. take (nexts ! q) (css ! q)) [0..<n]) out
    \<and> used = int (total_size (included out)) \<and> 0 \<le> used
    \<and> used \<le> (\<Sum>q<k. max 0 (shares ! q)) \<and> (\<forall>q<n. k \<le> q \<longrightarrow> nexts ! q = 0)"
  using assms(3,4)
proof (induction k arbitrary: out used nexts)
  case 0
  then have "out = newOutput inp" "used = 0" "nexts = replicate n 0" by simp_all
  moreover have "map (\<lambda>q. take (replicate n 0 ! q) (css ! q)) [0..<n] = replicate n []"
    by (rule nth_equalityI) simp_all
  ultimately show ?case using offered_start [of inp] assms(1,2) by simp
next
  case (Suc k)
  obtain out1 u1 nx1 where o1: "fold (prop_query shares) (enumerate 0 (take k css))
      (newOutput inp, 0, replicate n 0) = (out1, u1, nx1)" by (metis prod_cases3)
  let ?d = "map (\<lambda>q. take (nx1 ! q) (css ! q)) [0..<n]"
  have IH: "length nx1 = n" "\<forall>q<n. nx1 ! q \<le> length (css ! q)" "offered_inv ?d out1"
      "u1 = int (total_size (included out1))" "0 \<le> u1" "u1 \<le> (\<Sum>q<k. max 0 (shares ! q))"
      "\<forall>q<n. k \<le> q \<longrightarrow> nx1 ! q = 0"
    using Suc.IH [OF _ o1] Suc.prems(1) by simp_all
  have k: "k < n" "k < length (included out1)" using Suc.prems(1) IH(3) by (auto simp: offered_inv_def)
  have "enumerate 0 (take (Suc k) css) = enumerate 0 (take k css) @ [(k, css ! k)]"
    using k assms(1) by (simp add: take_Suc_conv_app_nth enumerate_append_eq)
  then have "prop_query shares (k, css ! k) (out1, u1, nx1) = (out, used, nexts)"
    using Suc.prems(2) o1 by simp
  then obtain qu nx where o2: "prop_fill (shares ! k) k (css ! k) 0 (out1, 0, 0) = (out, qu, nx)"
      "used = u1 + qu" "nexts = nx1[k := nx]"
    by (auto simp: prop_query_def Let_def split: prod.splits)
  note f = prop_fill_props [OF k(2) o2(1)]
  have qu: "qu = int (sizes_of (take nx (css ! k)))" "qu \<le> max 0 (shares ! k)"
  proof -
    show "qu = int (sizes_of (take nx (css ! k)))" using f by simp
    show "qu \<le> max 0 (shares ! k)"
    proof (cases "css ! k")
      case Nil
      then show ?thesis using o2(1) by simp
    next
      case (Cons c cs)
      then show ?thesis using f o2(1) by (cases "0 \<le> shares ! k") (auto split: if_splits)
    qed
  qed
  have inc: "included out = (included out1)[k := included out1 ! k @ take nx (css ! k)]" using f by simp
  have "offered_inv (?d[k := ?d ! k @ take nx (css ! k)]) out"
    by (rule offered_many [OF IH(3)]) (use k f in simp_all)
  moreover have "?d[k := ?d ! k @ take nx (css ! k)] = map (\<lambda>q. take (nexts ! q) (css ! q)) [0..<n]"
    using IH(1,7) k o2(3) by (intro nth_equalityI) (auto simp: nth_list_update)
  moreover have "total_size (included out) = total_size (included out1) + sizes_of (take nx (css ! k))"
    unfolding inc using sum_list_update_add [of k "map sizes_of (included out1)" "sizes_of (take nx (css ! k))"] k(2)
    by (simp add: total_size_def map_update)
  moreover have "\<forall>q<n. nexts ! q \<le> length (css ! q)" using IH(1,2) f o2(3) k by (auto simp: nth_list_update)
  ultimately show ?case using IH o2 qu k f by (auto simp: nth_list_update)
qed

section \<open>The second pass\<close>

definition pass_inv ::
  "'f allocInput \<Rightarrow> nat list \<Rightarrow> nat \<Rightarrow> nat \<Rightarrow> 'f allocOutput \<times> int \<times> int \<times> nat list \<Rightarrow> bool" where
  "pass_inv inp nexts r k = (\<lambda>(out, used, leftover, offered).
     length offered = length (candidates inp)
     \<and> (\<forall>q<length (candidates inp). offered ! q
          = min (length (candidates inp ! q) - nexts ! q) (r + (if q < k then 1 else 0)))
     \<and> offered_inv (map (\<lambda>q. take (nexts ! q + offered ! q) (candidates inp ! q)) [0..<length (candidates inp)]) out
     \<and> used = int (total_size (included out)) \<and> leftover = budget inp - used \<and> used \<le> budget inp)"

lemma pass_step:
  assumes inv: "pass_inv inp nexts r k st" and k: "k < length (candidates inp)"
    and nx: "\<forall>q<length (candidates inp). nexts ! q \<le> length (candidates inp ! q)"
  shows "pass_inv inp nexts r (Suc k) (prop_offer nexts (k, candidates inp ! k) st)"
proof -
  let ?css = "candidates inp" and ?n = "length (candidates inp)"
  obtain out used lft offered where st: "st = (out, used, lft, offered)" by (metis prod_cases4)
  let ?d = "map (\<lambda>q. take (nexts ! q + offered ! q) (?css ! q)) [0..<?n]"
  have I: "length offered = ?n" "\<forall>q<?n. offered ! q = min (length (?css ! q) - nexts ! q) (r + (if q < k then 1 else 0))"
      "offered_inv ?d out" "used = int (total_size (included out))" "lft = budget inp - used" "used \<le> budget inp"
    using inv by (simp_all add: pass_inv_def st)
  have ok: "offered ! k = min (length (?css ! k) - nexts ! k) r" using I(2) k by simp
  have nk: "nexts ! k \<le> length (?css ! k)" using nx k by simp
  show ?thesis
  proof (cases "nexts ! k + offered ! k \<ge> length (?css ! k)")
    case True
    then have "prop_offer nexts (k, ?css ! k) st = st" by (simp add: prop_offer_def st)
    moreover have "offered ! k = min (length (?css ! k) - nexts ! k) (r + 1)" using True ok nk by linarith
    ultimately show ?thesis using I by (auto simp: pass_inv_def st less_Suc_eq)
  next
    case False
    let ?c = "?css ! k ! (nexts ! k + offered ! k)" and ?o = "offered[k := offered ! k + 1]"
    obtain out' used' where o: "offer (budget inp) k ?c (out, used) = (out', used')" by fastforce
    have res: "prop_offer nexts (k, ?css ! k) st = (out', used', budget inp - used', ?o)"
      using False o I(5) by (auto simp: prop_offer_def st Let_def offer_def split: if_splits)
    have kd: "k < length ?d" using k by simp
    note step = offer_inv [OF I(3) kd o]
    have "?d[k := ?d ! k @ [?c]] = map (\<lambda>q. take (nexts ! q + ?o ! q) (?css ! q)) [0..<?n]"
      using k I(1) False by (intro nth_equalityI) (auto simp: nth_list_update take_Suc_conv_app_nth)
    then have "offered_inv (map (\<lambda>q. take (nexts ! q + ?o ! q) (?css ! q)) [0..<?n]) out'"
      using step(1) by simp
    moreover have "\<forall>q<?n. ?o ! q = min (length (?css ! q) - nexts ! q) (r + (if q < Suc k then 1 else 0))"
    proof (intro allI impI)
      fix q assume q: "q < ?n"
      show "?o ! q = min (length (?css ! q) - nexts ! q) (r + (if q < Suc k then 1 else 0))"
      proof (cases "q = k")
        case True
        then show ?thesis using I(1) ok False nk k by simp
      next
        case False
        then show ?thesis using I(2) q by (auto simp: less_Suc_eq)
      qed
    qed
    ultimately show ?thesis using I step by (simp add: pass_inv_def res)
  qed
qed

lemma pass_round:
  assumes inv: "pass_inv inp nexts r 0 st"
    and nx: "\<forall>q<length (candidates inp). nexts ! q \<le> length (candidates inp ! q)"
  shows "pass_inv inp nexts (Suc r) 0 (fold (prop_offer nexts) (enumerate 0 (candidates inp)) st)"
proof -
  let ?css = "candidates inp" and ?n = "length (candidates inp)"
  have "k \<le> ?n \<Longrightarrow> pass_inv inp nexts r k (fold (prop_offer nexts) (enumerate 0 (take k ?css)) st)" for k
  proof (induction k)
    case (Suc k)
    have "enumerate 0 (take (Suc k) ?css) = enumerate 0 (take k ?css) @ [(k, ?css ! k)]"
      using Suc.prems by (simp add: take_Suc_conv_app_nth enumerate_append_eq)
    then show ?case using pass_step [OF Suc.IH _ nx] Suc.prems by simp
  qed (use inv in simp)
  from this [of ?n] have "pass_inv inp nexts r ?n (fold (prop_offer nexts) (enumerate 0 ?css) st)" by simp
  then show ?thesis by (auto simp: pass_inv_def)
qed

lemma pass_rounds:
  assumes "pass_inv inp nexts 0 0 st"
    and nx: "\<forall>q<length (candidates inp). nexts ! q \<le> length (candidates inp ! q)"
  shows "pass_inv inp nexts m 0 (fold (\<lambda>r. fold (prop_offer nexts) (enumerate 0 (candidates inp))) [0..<m] st)"
  using assms(1) pass_round [OF _ nx] by (induction m) simp_all

lemma max_left_ge:
  "(\<forall>e\<in>set xs. f e \<le> fold (\<lambda>e m. if f e > m then f e else m) xs m)
     \<and> m \<le> fold (\<lambda>e m. if f e > m then f e else m) xs m"
  for m :: int
proof (induction xs arbitrary: m)
  case (Cons e xs)
  from Cons [of "if f e > m then f e else m"] show ?case by (auto split: if_splits)
qed simp

text \<open>The contract, for any arithmetic whose shares do not exceed the budget.\<close>

lemma scoreProportional_ok:
  assumes "0 \<le> budget inp" "prop_weights A (candidates inp) = (weights, ttl)"
    "(\<Sum>q<length (candidates inp). max 0 (largestRemainder A weights ttl (budget inp) ! q)) \<le> budget inp"
  shows "alloc_ok inp (scoreProportional A inp)"
    "\<forall>qi<length (candidates inp). subseq (included (scoreProportional A inp) ! qi) (candidates inp ! qi)"
proof -
  let ?css = "candidates inp" and ?n = "length (candidates inp)"
  let ?shares = "largestRemainder A weights ttl (budget inp)"
  have "alloc_ok inp (scoreProportional A inp)
    \<and> (\<forall>qi<?n. subseq (included (scoreProportional A inp) ! qi) (?css ! qi))"
  proof (cases "?n = 0")
    case True
    then show ?thesis using assms(1)
      by (simp add: scoreProportional_def alloc_ok_def accounted_def newOutput_def total_size_def)
  next
    case False
    obtain out1 u1 nexts where o1: "fold (prop_query ?shares) (enumerate 0 ?css) (newOutput inp, 0, replicate ?n 0)
        = (out1, u1, nexts)" by (metis prod_cases3)
    then have o1': "fold (prop_query ?shares) (enumerate 0 (take ?n ?css)) (newOutput inp, 0, replicate ?n 0)
        = (out1, u1, nexts)" by simp
    note L = prop_query_loop [OF refl refl order_refl o1']
    have nx: "\<forall>q<?n. nexts ! q \<le> length (?css ! q)" using L by blast
    define m where "m = fold (\<lambda>(qi, cs) m. if int (length cs) - int (nexts ! qi) > m
        then int (length cs) - int (nexts ! qi) else m) (enumerate 0 ?css) 0"
    have m_ge: "length (?css ! q) - nexts ! q \<le> nat m" if "q < ?n" for q
    proof -
      have "(q, ?css ! q) \<in> set (enumerate 0 ?css)" using that by (simp add: in_set_enumerate_eq)
      then have "int (length (?css ! q)) - int (nexts ! q) \<le> m"
        using bspec [OF conjunct1 [OF max_left_ge [of "enumerate 0 ?css" "\<lambda>e. int (length (snd e)) - int (nexts ! fst e)" 0]],
          of "(q, ?css ! q)"]
        unfolding m_def by (simp add: case_prod_unfold)
      then show ?thesis by linarith
    qed
    obtain out used lft offered where o2: "fold (\<lambda>r. fold (prop_offer nexts) (enumerate 0 ?css)) [0..<nat m]
        (out1, u1, budget inp - u1, replicate ?n 0) = (out, used, lft, offered)" by (metis prod_cases4)
    have eq: "scoreProportional A inp = out\<lparr>byteBudgetUsed := used\<rparr>"
      using False by (simp add: scoreProportional_def Let_def assms(2) o1 m_def [symmetric] o2)
    have d0: "map (\<lambda>q. take (nexts ! q + replicate ?n 0 ! q) (?css ! q)) [0..<?n]
        = map (\<lambda>q. take (nexts ! q) (?css ! q)) [0..<?n]" by (rule nth_equalityI) simp_all
    have "pass_inv inp nexts 0 0 (out1, u1, budget inp - u1, replicate ?n 0)"
      unfolding pass_inv_def prod.case d0 using L assms(3) by simp
    from pass_rounds [OF this nx, of "nat m"] have P: "pass_inv inp nexts (nat m) 0 (out, used, lft, offered)"
      unfolding o2 .
    have "nexts ! q + offered ! q = length (?css ! q)" if "q < ?n" for q
      using P m_ge [OF that] nx that by (auto simp: pass_inv_def)
    then have "map (\<lambda>q. take (nexts ! q + offered ! q) (?css ! q)) [0..<?n] = ?css"
      by (intro nth_equalityI) simp_all
    then have inv: "offered_inv ?css out" using P by (simp add: pass_inv_def)
    show ?thesis using eq offered_accounted [OF inv] inv P
      by (simp add: alloc_ok_def accounted_def offered_inv_def pass_inv_def)
  qed
  then show "alloc_ok inp (scoreProportional A inp)"
    "\<forall>qi<?n. subseq (included (scoreProportional A inp) ! qi) (?css ! qi)" by auto
qed

section \<open>Exact arithmetic\<close>

definition relevant_input :: "rat allocInput \<Rightarrow> bool" where
  "relevant_input inp \<longleftrightarrow> 0 \<le> budget inp \<and> (\<forall>cs\<in>set (candidates inp). \<forall>c\<in>set cs. 0 \<le> relevance c)"

lemma prop_weights_exact:
  assumes "\<forall>cs\<in>set css. \<forall>c\<in>set cs. 0 \<le> relevance c" "css \<noteq> []"
    "prop_weights exact css = (weights, ttl)"
  shows "\<forall>w\<in>set weights. 0 \<le> w" "sum_list weights = ttl" "0 < ttl" "length weights = length css"
proof -
  let ?w = "map (\<lambda>cs. case cs of [] \<Rightarrow> 0 | c # _ \<Rightarrow> relevance c) css"
  have fs: "fold (\<lambda>w t. t + w) ws t = t + sum_list ws" for ws and t :: rat
    by (induction ws arbitrary: t) simp_all
  have pos: "\<forall>w\<in>set ?w. 0 \<le> w" using assms(1) by (auto split: list.split)
  have "(weights, ttl) = (if sum_list ?w \<le> 0 then (replicate (length css) 1, of_nat (length css))
        else (?w, sum_list ?w))"
    using assms(3) by (simp add: prop_weights_def Let_def fs cong: if_cong)
  then show "\<forall>w\<in>set weights. 0 \<le> w" "sum_list weights = ttl" "0 < ttl" "length weights = length css"
    using pos assms(2) by (auto simp: sum_list_replicate split: if_splits)
qed

lemma exact_shares:
  assumes "relevant_input inp" "candidates inp \<noteq> []" "prop_weights exact (candidates inp) = (weights, ttl)"
  shows "(\<Sum>q<length (candidates inp). max 0 (largestRemainder exact weights ttl (budget inp) ! q)) = budget inp"
proof -
  let ?s = "largestRemainder exact weights ttl (budget inp)"
  have rel: "\<forall>cs\<in>set (candidates inp). \<forall>c\<in>set cs. 0 \<le> relevance c" "0 \<le> budget inp"
    using assms(1) by (simp_all add: relevant_input_def)
  note w = prop_weights_exact [OF rel(1) assms(2,3)]
  note lr = largestRemainder_exact [OF w(1,2,3) rel(2)]
  have "0 \<le> ?s ! q" if "q < length (candidates inp)" for q
  proof -
    have "0 \<le> weights ! q / ttl * of_int (budget inp)" using w that rel(2) by simp
    then have "0 \<le> \<lfloor>weights ! q / ttl * of_int (budget inp)\<rfloor>" by simp
    moreover have "\<lfloor>weights ! q / ttl * of_int (budget inp)\<rfloor> \<le> ?s ! q" using lr(3) w(4) that by simp
    ultimately show ?thesis by linarith
  qed
  then have "(\<Sum>q<length (candidates inp). max 0 (?s ! q)) = (\<Sum>q<length ?s. ?s ! q)"
    using lr(1) w(4) by (intro sum.cong) auto
  then show ?thesis using lr(2) by (simp add: sum_list_sum_nth atLeast0LessThan)
qed

interpretation score_proportional: ordered_allocator relevant_input "scoreProportional exact"
proof unfold_locales
  fix inp assume adm: "relevant_input inp"
  obtain weights ttl where w: "prop_weights exact (candidates inp) = (weights, ttl)" by fastforce
  have b: "0 \<le> budget inp" using adm by (simp add: relevant_input_def)
  have "(\<Sum>q<length (candidates inp). max 0 (largestRemainder exact weights ttl (budget inp) ! q)) \<le> budget inp"
    using exact_shares [OF adm _ w] b by (cases "candidates inp = []") simp_all
  note ok = scoreProportional_ok [OF b w this]
  show "alloc_ok inp (scoreProportional exact inp)" by (rule ok(1))
  show "subseq (included (scoreProportional exact inp) ! qi) (candidates inp ! qi)"
    if "qi < length (candidates inp)" for qi using ok(2) that by blast
qed

end
