(* ===== verification/Alloc_Knapsack.thy ===== *)
theory Alloc_Knapsack
  imports Alloc_Greedy "HOL-Library.Word"
begin

unbundle bit_operations_syntax

text \<open>
  The allocator knapsack-greedy of internal/search/allocators.go: the 0/1 knapsack by
  dynamic programming, with one row of take bits per item packed into 64-bit words. The
  in-place table and the bit rows are shown to compute the recursive value function
  \<open>knap_value\<close>, the strict budget holds for every arithmetic, and with exact arithmetic
  the selection has the largest total relevance of all that fit.
\<close>

section \<open>Definitions\<close>

type_synonym 'f knapItem = "nat \<times> 'f candidate"

definition flat_items :: "'f candidate list list \<Rightarrow> 'f knapItem list" where
  "flat_items css = concat (map (\<lambda>(qi, cs). map (Pair qi) cs) (enumerate 0 css))"

definition knap_set :: "nat \<Rightarrow> 64 word list \<Rightarrow> 64 word list" where
  "knap_set w row = row[w div 64 := row ! (w div 64) OR push_bit (w mod 64) 1]"

definition knap_bit :: "64 word list \<Rightarrow> nat \<Rightarrow> bool" where
  "knap_bit row w \<longleftrightarrow> row ! (w div 64) AND push_bit (w mod 64) 1 \<noteq> 0"

definition knap_cell ::
  "'f fops \<Rightarrow> nat \<Rightarrow> 'f \<Rightarrow> nat \<Rightarrow> 'f list \<times> 64 word list \<Rightarrow> 'f list \<times> 64 word list" where
  "knap_cell A sz val w = (\<lambda>(dp, row).
     if flt A (dp ! w) (fadd A (dp ! (w - sz)) val)
     then (dp[w := fadd A (dp ! (w - sz)) val], knap_set w row)
     else (dp, row))"

definition knap_row ::
  "'f fops \<Rightarrow> nat \<Rightarrow> nat \<Rightarrow> 'f candidate \<Rightarrow> 'f list \<Rightarrow> 'f list \<times> 64 word list" where
  "knap_row A b words c dp =
     fold (knap_cell A (csize c) (relevance c)) (rev [csize c..<Suc b]) (dp, replicate words 0)"

fun knap_rows :: "'f fops \<Rightarrow> nat \<Rightarrow> nat \<Rightarrow> 'f knapItem list \<Rightarrow> 'f list \<Rightarrow> 64 word list list" where
  "knap_rows A b words [] dp = []"
| "knap_rows A b words (it # items) dp =
     (let (dp, row) = knap_row A b words (snd it) dp in row # knap_rows A b words items dp)"

text \<open>The reconstruction, from the last item to the first.\<close>

fun knap_back :: "('f knapItem \<times> 64 word list) list \<Rightarrow> nat \<Rightarrow> bool list" where
  "knap_back [] w = []"
| "knap_back ((it, row) # rest) w =
     (if knap_bit row w then True # knap_back rest (w - csize (snd it))
      else False # knap_back rest w)"

definition knap_emit :: "'f knapItem \<times> bool \<Rightarrow> 'f allocOutput \<times> int \<Rightarrow> 'f allocOutput \<times> int" where
  "knap_emit = (\<lambda>((qi, c), chosen) (out, used).
     if chosen then (include_cand qi c out, used + int (csize c)) else (omit_cand qi out, used))"

definition knapsackGreedy :: "'f fops \<Rightarrow> 'f allocInput \<Rightarrow> 'f allocOutput" where
  "knapsackGreedy A inp =
     (let out = newOutput inp; items = flat_items (candidates inp) in
      if items = [] \<or> budget inp \<le> 0 then out
      else
        (let b = nat (budget inp);
             words = (b + 64) div 64;
             rows = knap_rows A b words items (replicate (b + 1) (fint A 0));
             chosen = rev (knap_back (rev (zip items rows)) b);
             (out, used) = fold knap_emit (zip items chosen) (out, 0)
         in out\<lparr>byteBudgetUsed := used\<rparr>))"

section \<open>The value function\<close>

text \<open>Over the items in reverse order: the best value within \<open>w\<close> bytes as the program
  computes it, and whether the last item is taken.\<close>

fun knap_value :: "'f fops \<Rightarrow> 'f candidate list \<Rightarrow> nat \<Rightarrow> 'f" where
  "knap_value A [] w = fint A 0"
| "knap_value A (c # cs) w =
     (if csize c \<le> w \<and> flt A (knap_value A cs w) (fadd A (knap_value A cs (w - csize c)) (relevance c))
      then fadd A (knap_value A cs (w - csize c)) (relevance c)
      else knap_value A cs w)"

definition knap_takes :: "'f fops \<Rightarrow> 'f candidate list \<Rightarrow> 'f candidate \<Rightarrow> nat \<Rightarrow> bool" where
  "knap_takes A cs c w \<longleftrightarrow>
     csize c \<le> w \<and> flt A (knap_value A cs w) (fadd A (knap_value A cs (w - csize c)) (relevance c))"

fun knap_choice :: "'f fops \<Rightarrow> 'f candidate list \<Rightarrow> nat \<Rightarrow> bool list" where
  "knap_choice A [] w = []"
| "knap_choice A (c # cs) w =
     (if knap_takes A cs c w then True # knap_choice A cs (w - csize c)
      else False # knap_choice A cs w)"

section \<open>Bit rows and the in-place table\<close>

lemma knap_bit_iff: "knap_bit row w \<longleftrightarrow> bit (row ! (w div 64)) (w mod 64)"
proof -
  have "(row ! (w div 64)) AND push_bit (w mod 64) 1 = (if bit (row ! (w div 64)) (w mod 64) then push_bit (w mod 64) 1 else 0)"
    by (rule bit_word_eqI) (auto simp: bit_simps)
  moreover have "push_bit (w mod 64) (1 :: 64 word) \<noteq> 0"
  proof -
    have "bit (push_bit (w mod 64) (1 :: 64 word)) (w mod 64)" by (simp add: bit_simps)
    then show ?thesis by auto
  qed
  ultimately show ?thesis by (simp add: knap_bit_def)
qed

lemma knap_set_bit:
  assumes "w div 64 < length row"
  shows "knap_bit (knap_set w row) v \<longleftrightarrow> v = w \<or> knap_bit row v"
proof (cases "v div 64 = w div 64")
  case True
  then have "v mod 64 = w mod 64 \<longleftrightarrow> v = w" by (metis mult_div_mod_eq)
  then show ?thesis using assms True
    by (auto simp: knap_bit_iff knap_set_def bit_simps)
next
  case False
  then show ?thesis using assms by (auto simp: knap_bit_iff knap_set_def)
qed

lemma knap_cells:
  fixes A :: "'f fops" and f :: "nat \<Rightarrow> 'f" and v :: 'f and sz b :: nat
  assumes words: "\<forall>w\<le>b. w div 64 < words"
  defines "taken \<equiv> \<lambda>w. sz \<le> w \<and> flt A (f w) (fadd A (f (w - sz)) v)"
  defines "upd \<equiv> \<lambda>w. if taken w then fadd A (f (w - sz)) v else f w"
  shows "k \<le> Suc b \<Longrightarrow> length dp = Suc b \<Longrightarrow> length row = words \<Longrightarrow> \<forall>w<k. dp ! w = f w \<and> \<not> knap_bit row w
    \<Longrightarrow> fold (knap_cell A sz v) (rev [sz..<k]) (dp, row) = (dp', row')
    \<Longrightarrow> length dp' = Suc b \<and> (\<forall>w\<le>b. dp' ! w = (if w < k then upd w else dp ! w)
          \<and> (knap_bit row' w \<longleftrightarrow> (if w < k then taken w else knap_bit row w)))"
proof (induction k arbitrary: dp row)
  case 0
  then show ?case by simp
next
  case (Suc k)
  show ?case
  proof (cases "sz \<le> k")
    case True
    obtain dp1 row1 where s: "knap_cell A sz v k (dp, row) = (dp1, row1)" by fastforce
    have f: "dp ! k = f k" "dp ! (k - sz) = f (k - sz)" "\<not> knap_bit row k" using Suc.prems(4) by auto
    have kw: "k div 64 < length row" using words Suc.prems(1,3) by simp
    have one: "length dp1 = Suc b" "length row1 = words"
      "\<And>w. w \<le> b \<Longrightarrow> dp1 ! w = (if w = k then upd k else dp ! w)"
      "\<And>w. knap_bit row1 w \<longleftrightarrow> (if w = k then taken k else knap_bit row w)"
      using s f True Suc.prems(1-3) knap_set_bit [OF kw]
      by (auto simp: knap_cell_def taken_def upd_def knap_set_def split: if_splits)
    have "fold (knap_cell A sz v) (rev [sz..<k]) (dp1, row1) = (dp', row')"
      using Suc.prems(5) True s by simp
    moreover have "\<forall>w<k. dp1 ! w = f w \<and> \<not> knap_bit row1 w" using one Suc.prems(1,4) by auto
    ultimately have IH: "length dp' = Suc b" "\<forall>w\<le>b. dp' ! w = (if w < k then upd w else dp1 ! w)
          \<and> (knap_bit row' w \<longleftrightarrow> (if w < k then taken w else knap_bit row1 w))"
      using Suc.IH [of dp1 row1] one(1,2) Suc.prems(1) by auto
    show ?thesis
    proof (intro conjI allI impI)
      fix w assume w: "w \<le> b"
      show "dp' ! w = (if w < Suc k then upd w else dp ! w)"
        using IH(2) one(3) [OF w] w by (auto simp: less_Suc_eq)
      show "knap_bit row' w \<longleftrightarrow> (if w < Suc k then taken w else knap_bit row w)"
        using IH(2) one(4) [of w] w by (auto simp: less_Suc_eq)
    qed (fact IH(1))
  next
    case False
    then have "dp' = dp" "row' = row" using Suc.prems(5) by auto
    moreover have "\<not> taken w \<and> upd w = f w" if "w < Suc k" for w
      using False that by (auto simp: taken_def upd_def)
    ultimately show ?thesis using Suc.prems by auto
  qed
qed

lemma knap_row_correct:
  assumes words: "\<forall>w\<le>b. w div 64 < words" and dp: "dp = map (knap_value A cs) [0..<Suc b]"
    and row: "knap_row A b words c dp = (dp', row)"
  shows "dp' = map (knap_value A (c # cs)) [0..<Suc b]" "\<forall>w\<le>b. knap_bit row w \<longleftrightarrow> knap_takes A cs c w"
proof -
  have z: "\<forall>w<Suc b. dp ! w = knap_value A cs w \<and> \<not> knap_bit (replicate words 0) w"
    using words by (simp add: dp knap_bit_iff less_Suc_eq_le del: upt_Suc)
  have l: "length dp = Suc b" "length (replicate words (0 :: 64 word)) = words" by (simp_all add: dp)
  note K = knap_cells [OF words order_refl l z row [unfolded knap_row_def]]
  have "dp' = map (\<lambda>w. dp' ! w) [0..<Suc b]" using K by (metis map_nth)
  also have "\<dots> = map (knap_value A (c # cs)) [0..<Suc b]" using K by (auto simp del: upt_Suc)
  finally show "dp' = map (knap_value A (c # cs)) [0..<Suc b]" .
  show "\<forall>w\<le>b. knap_bit row w \<longleftrightarrow> knap_takes A cs c w" using K by (simp add: knap_takes_def less_Suc_eq_le)
qed

fun rows_ok :: "'f fops \<Rightarrow> nat \<Rightarrow> ('f knapItem \<times> 64 word list) list \<Rightarrow> bool" where
  "rows_ok A b [] = True"
| "rows_ok A b ((it, row) # rest) =
     ((\<forall>w\<le>b. knap_bit row w \<longleftrightarrow> knap_takes A (map (snd \<circ> fst) rest) (snd it) w) \<and> rows_ok A b rest)"

lemma knap_rows_length: "length (knap_rows A b words items dp) = length items"
  by (induction items arbitrary: dp) (simp_all add: case_prod_unfold Let_def)

lemma knap_rows_ok:
  assumes words: "\<forall>w\<le>b. w div 64 < words"
  shows "dp = map (knap_value A (map (snd \<circ> fst) prev)) [0..<Suc b] \<Longrightarrow> rows_ok A b prev \<Longrightarrow>
    rows_ok A b (rev (zip items (knap_rows A b words items dp)) @ prev)"
proof (induction items arbitrary: dp prev)
  case (Cons it items)
  obtain dp1 row where r: "knap_row A b words (snd it) dp = (dp1, row)" by fastforce
  note c = knap_row_correct [OF words Cons.prems(1) r]
  have "rows_ok A b (rev (zip items (knap_rows A b words items dp1)) @ (it, row) # prev)"
    by (rule Cons.IH) (use c Cons.prems(2) in \<open>simp_all add: comp_def del: upt_Suc\<close>)
  then show ?case using r by simp
qed simp

lemma knap_back_choice:
  "rows_ok A b rs \<Longrightarrow> w \<le> b \<Longrightarrow> knap_back rs w = knap_choice A (map (snd \<circ> fst) rs) w"
  by (induction rs arbitrary: w rule: rows_ok.induct) auto

section \<open>The selection\<close>

lemma knap_choice_length [simp]: "length (knap_choice A cs w) = length cs"
  by (induction cs arbitrary: w) auto

definition pick :: "'a list \<Rightarrow> bool list \<Rightarrow> 'a list" where
  "pick xs bs = map fst (filter snd (zip xs bs))"

lemma pick_simps [simp]:
  "pick [] bs = []" "pick xs [] = []"
  "pick (x # xs) (b # bs) = (if b then x # pick xs bs else pick xs bs)"
  by (simp_all add: pick_def)

lemma pick_rev: "length xs = length bs \<Longrightarrow> pick (rev xs) (rev bs) = rev (pick xs bs)"
  by (simp add: pick_def zip_rev rev_filter rev_map)

lemma pick_map: "pick (map f xs) bs = map f (pick xs bs)"
  by (induction xs arbitrary: bs; case_tac bs) auto

lemma knap_choice_size: "sizes_of (pick cs (knap_choice A cs w)) \<le> w"
proof (induction cs arbitrary: w)
  case (Cons c cs)
  show ?case using Cons [of w] Cons [of "w - csize c"] by (auto simp: knap_takes_def)
qed simp

definition rel_of :: "rat candidate list \<Rightarrow> rat" where
  "rel_of cs = sum_list (map relevance cs)"

lemma rel_of_simps [simp]:
  "rel_of [] = 0" "rel_of (c # cs) = relevance c + rel_of cs" "rel_of (cs @ ds) = rel_of cs + rel_of ds"
  "rel_of (rev cs) = rel_of cs"
  by (simp_all add: rel_of_def rev_map [symmetric])

lemma sizes_of_rev [simp]: "sizes_of (rev cs) = sizes_of cs"
  by (simp add: sizes_of_def rev_map [symmetric])

lemma knap_choice_value: "rel_of (pick cs (knap_choice exact cs w)) = knap_value exact cs w"
  by (induction cs arbitrary: w) (auto simp: knap_takes_def)

text \<open>No selection that fits is worth more.\<close>

lemma knap_value_optimal:
  "subseq sel cs \<Longrightarrow> sizes_of sel \<le> w \<Longrightarrow> rel_of sel \<le> knap_value exact cs w"
proof (induction cs arbitrary: sel w)
  case (Cons c cs)
  show ?case
  proof (cases "subseq sel cs")
    case True
    then have "rel_of sel \<le> knap_value exact cs w" using Cons by blast
    then show ?thesis by auto
  next
    case False
    then obtain s where s: "sel = c # s" "subseq s cs"
      using Cons.prems(1) by (cases sel) (auto split: if_splits)
    have fit: "csize c \<le> w" using s(1) Cons.prems(2) by simp
    have "rel_of s \<le> knap_value exact cs (w - csize c)"
      by (rule Cons.IH [OF s(2)]) (use s(1) Cons.prems(2) in simp)
    then have "rel_of sel \<le> knap_value exact cs (w - csize c) + relevance c" using s(1) by simp
    then show ?thesis using fit by auto
  qed
next
  case Nil
  then show ?case by (cases sel) simp_all
qed

section \<open>The allocator\<close>

lemma flat_items_shift:
  "\<forall>e\<in>set (concat (map (\<lambda>(qi, cs). map (Pair qi) cs) (enumerate n css))). n \<le> fst e \<and> fst e < n + length css"
  by (induction css arbitrary: n) fastforce+

lemma of_query_items:
  "qi < length css \<Longrightarrow>
     of_query (n + qi) (concat (map (\<lambda>(qi, cs). map (Pair qi) cs) (enumerate n css))) = css ! qi"
proof (induction css arbitrary: n qi)
  case (Cons cs css)
  show ?case
  proof (cases qi)
    case 0
    have "of_query n (concat (map (\<lambda>(qi, cs). map (Pair qi) cs) (enumerate (Suc n) css))) = []"
      by (rule of_query_outside) (use flat_items_shift [of "Suc n" css] in fastforce)
    then show ?thesis using 0 by (simp add: of_query_map_Pair)
  next
    case (Suc k)
    then have "of_query (Suc n + k) (concat (map (\<lambda>(qi, cs). map (Pair qi) cs) (enumerate (Suc n) css))) = css ! k"
      using Cons.prems by (intro Cons.IH) simp
    then show ?thesis using Suc by (simp add: of_query_map_Pair)
  qed
qed simp

lemma flat_items_props:
  "\<forall>e\<in>set (flat_items css). fst e < length css"
  "\<forall>qi<length css. of_query qi (flat_items css) = css ! qi"
  using flat_items_shift [of 0 css] of_query_items [of _ css 0] by (simp_all add: flat_items_def)

lemma knap_emit_inv:
  "offered_inv done out \<Longrightarrow> \<forall>it\<in>set items. fst it < length done \<Longrightarrow> length items = length bs \<Longrightarrow>
   fold knap_emit (zip items bs) (out, u) = (out', u') \<Longrightarrow>
   \<exists>done'. length done' = length done \<and> (\<forall>qi<length done. done' ! qi = done ! qi @ of_query qi items)
     \<and> offered_inv done' out'
     \<and> (\<forall>qi<length done. included out' ! qi = included out ! qi @ of_query qi (pick items bs))
     \<and> int (total_size (included out')) - int (total_size (included out)) = u' - u
     \<and> u' = u + int (sizes_of (map snd (pick items bs)))"
proof (induction items arbitrary: bs "done" out u)
  case Nil
  then show ?case by auto
next
  case (Cons it items)
  obtain qi c where it: "it = (qi, c)" by fastforce
  obtain b bs' where bs: "bs = b # bs'" using Cons.prems(3) by (cases bs) auto
  have qi: "qi < length done" using Cons.prems(2) it by simp
  let ?d = "done[qi := done ! qi @ [c]]"
  define st where "st = knap_emit (it, b) (out, u)"
  obtain out1 u1 where st1: "st = (out1, u1)" by fastforce
  have len: "length (included out) = length done" using Cons.prems(1) by (simp add: offered_inv_def)
  have step: "offered_inv ?d out1" "u1 = u + (if b then int (csize c) else 0)"
    "int (total_size (included out1)) - int (total_size (included out)) = u1 - u"
    "included out1 = (if b then (included out)[qi := included out ! qi @ [c]] else included out)"
    using offered_include [OF Cons.prems(1) qi, of c] offered_omit [OF Cons.prems(1) qi, of c] st1
      total_include [of qi out c] qi len
    by (auto simp: st_def knap_emit_def it include_cand_def split: if_splits)
  have rest: "fold knap_emit (zip items bs') (out1, u1) = (out', u')"
    using Cons.prems(4) bs st1 by (simp add: st_def)
  obtain d' where d': "length d' = length done" "\<forall>q<length done. d' ! q = ?d ! q @ of_query q items"
      "offered_inv d' out'"
      "\<forall>q<length done. included out' ! q = included out1 ! q @ of_query q (pick items bs')"
      "int (total_size (included out')) - int (total_size (included out1)) = u' - u1"
      "u' = u1 + int (sizes_of (map snd (pick items bs')))"
    using Cons.IH [OF step(1) _ _ rest] Cons.prems(2,3) bs by auto
  have "\<forall>q<length done. d' ! q = done ! q @ of_query q (it # items)"
    using d'(2) it qi by (auto simp: nth_list_update)
  moreover have "\<forall>q<length done. included out' ! q = included out ! q @ of_query q (pick (it # items) bs)"
    using d'(4) step(4) it bs qi len by (auto simp: nth_list_update)
  ultimately show ?case using d'(1,3,5,6) step(2,3) it bs by (intro exI [of _ d']) auto
qed

definition knap_picked :: "'f fops \<Rightarrow> 'f allocInput \<Rightarrow> 'f knapItem list" where
  "knap_picked A inp =
     (let items = flat_items (candidates inp) in
      pick items (rev (knap_choice A (rev (map snd items)) (nat (budget inp)))))"

lemma knapsack_run:
  assumes "0 < budget inp"
  shows "alloc_ok inp (knapsackGreedy A inp)"
    "\<forall>qi<length (candidates inp). subseq (included (knapsackGreedy A inp) ! qi) (candidates inp ! qi)
       \<and> included (knapsackGreedy A inp) ! qi = of_query qi (knap_picked A inp)"
proof -
  let ?css = "candidates inp" and ?n = "length (candidates inp)"
  define items where "items = flat_items ?css"
  define b where "b = nat (budget inp)"
  note fi = flat_items_props [of ?css, folded items_def]
  have "alloc_ok inp (knapsackGreedy A inp)
    \<and> (\<forall>qi<?n. subseq (included (knapsackGreedy A inp) ! qi) (?css ! qi)
       \<and> included (knapsackGreedy A inp) ! qi = of_query qi (knap_picked A inp))"
  proof (cases "items = []")
    case True
    then have "\<forall>qi<?n. ?css ! qi = []" using fi(2) by simp
    moreover have "knapsackGreedy A inp = newOutput inp"
      using True by (simp add: knapsackGreedy_def Let_def items_def)
    moreover have "of_query qi (knap_picked A inp) = []" for qi
      using True by (simp add: knap_picked_def Let_def flip: items_def)
    ultimately show ?thesis using assms
      by (auto simp: alloc_ok_def accounted_def newOutput_def total_size_def sum_list_replicate)
  next
    case False
    define words where "words = (b + 64) div 64"
    define rows where "rows = knap_rows A b words items (replicate (b + 1) (fint A 0))"
    have words: "\<forall>w\<le>b. w div 64 < words"
    proof (intro allI impI)
      fix w assume "w \<le> b"
      then have "w div 64 \<le> b div 64" by (rule div_le_mono)
      then show "w div 64 < words" by (simp add: words_def)
    qed
    have "replicate (b + 1) (fint A 0) = map (knap_value A []) [0..<Suc b]"
      by (rule nth_equalityI) (simp_all del: upt_Suc replicate.simps)
    then have ro: "rows_ok A b (rev (zip items rows))"
      using knap_rows_ok [OF words, of "replicate (b + 1) (fint A 0)" A "[]" items]
      by (simp add: rows_def)
    have lr: "length rows = length items" by (simp add: rows_def knap_rows_length)
    have "map (snd \<circ> fst) (rev (zip items rows)) = rev (map snd items)"
      using lr by (simp add: rev_map [symmetric] map_map [symmetric] del: map_map)
    then have kb: "rev (knap_back (rev (zip items rows)) b) = rev (knap_choice A (rev (map snd items)) b)"
      using knap_back_choice [OF ro order_refl] by simp
    define chosen where "chosen = rev (knap_choice A (rev (map snd items)) b)"
    obtain out used where o: "fold knap_emit (zip items chosen) (newOutput inp, 0) = (out, used)" by fastforce
    have eq: "knapsackGreedy A inp = out\<lparr>byteBudgetUsed := used\<rparr>"
      unfolding knapsackGreedy_def Let_def items_def [symmetric] b_def [symmetric] words_def [symmetric]
        rows_def [symmetric] kb chosen_def [symmetric] o
      using False assms by simp
    have lc: "length items = length chosen" by (simp add: chosen_def)
    have "\<forall>it\<in>set items. fst it < length (replicate ?n [])" using fi(1) by simp
    from knap_emit_inv [OF offered_start this lc o] obtain d where d: "length d = ?n"
      "\<forall>q<?n. d ! q = replicate ?n [] ! q @ of_query q items" "offered_inv d out"
      "\<forall>q<?n. included out ! q = included (newOutput inp) ! q @ of_query q (pick items chosen)"
      "int (total_size (included out)) = used" "used = int (sizes_of (map snd (pick items chosen)))"
      by auto
    have dcss: "d = ?css" by (rule nth_equalityI) (use d(1,2) fi(2) in simp_all)
    have pk: "knap_picked A inp = pick items chosen"
      by (simp add: knap_picked_def Let_def chosen_def b_def flip: items_def)
    have "map snd (pick items chosen) = rev (pick (rev (map snd items)) (knap_choice A (rev (map snd items)) b))"
      using pick_rev [of "rev (map snd items)" "knap_choice A (rev (map snd items)) b"]
      by (simp add: chosen_def pick_map)
    then have "sizes_of (map snd (pick items chosen)) \<le> b"
      using knap_choice_size [of "rev (map snd items)" A b] by simp
    then have "used \<le> budget inp" using d(6) assms by (simp add: b_def)
    then show ?thesis using eq d dcss pk offered_accounted [of ?css out]
      by (simp add: alloc_ok_def accounted_def offered_inv_def newOutput_def)
  qed
  then show "alloc_ok inp (knapsackGreedy A inp)"
    "\<forall>qi<?n. subseq (included (knapsackGreedy A inp) ! qi) (?css ! qi)
       \<and> included (knapsackGreedy A inp) ! qi = of_query qi (knap_picked A inp)" by auto
qed

definition positive_budget :: "'f allocInput \<Rightarrow> bool" where
  "positive_budget inp \<longleftrightarrow> 0 < budget inp"

interpretation knapsack: ordered_allocator positive_budget "knapsackGreedy A" for A :: "'f fops"
proof unfold_locales
  fix inp :: "'f allocInput"
  assume b: "positive_budget inp"
  show "alloc_ok inp (knapsackGreedy A inp)"
    using b knapsack_run(1) by (simp only: positive_budget_def)
  show "subseq (included (knapsackGreedy A inp) ! qi) (candidates inp ! qi)" if "qi < length (candidates inp)" for qi
    using b knapsack_run(2) [of inp A] that unfolding positive_budget_def by blast
qed

text \<open>Optimality: the relevance returned is the largest of any choice of hits within the budget.\<close>

definition total_rel :: "rat candidate list list \<Rightarrow> rat" where
  "total_rel css = sum_list (map rel_of css)"

lemma flat_subseq:
  "list_all2 subseq sel css \<Longrightarrow> subseq
     (concat (map (\<lambda>(qi, cs). map (Pair qi) cs) (enumerate n sel)))
     (concat (map (\<lambda>(qi, cs). map (Pair qi) cs) (enumerate n css)))"
  by (induction arbitrary: n rule: list_all2_induct) (auto intro!: list_emb_append_mono subseq_map)

lemma subseq_reversed: "subseq xs ys \<Longrightarrow> subseq (rev xs) (rev ys)"
  by (induction rule: list_emb.induct) (auto intro: subseq_rev_drop_many list_emb_append_mono)

lemma flat_snd: "map snd (flat_items css) = concat css"
proof -
  have "map snd (concat (map (\<lambda>(qi, cs). map (Pair qi) cs) (enumerate n css))) = concat css" for n
    by (induction css arbitrary: n) (simp_all add: comp_def)
  then show ?thesis by (simp add: flat_items_def)
qed

lemma rel_concat: "rel_of (concat css) = total_rel css"
  by (induction css) (simp_all add: total_rel_def)

lemma sizes_concat: "sizes_of (concat css) = total_size css"
  by (induction css) (simp_all add: total_size_def)

lemma rel_of_query:
  "\<forall>e\<in>set evs. fst e < n \<Longrightarrow> total_rel (map (\<lambda>qi. of_query qi evs) [0..<n]) = rel_of (map snd evs)"
proof (induction evs)
  case Nil
  show ?case by (simp add: total_rel_def comp_def sum_list_0)
next
  case (Cons e evs)
  obtain q c where e: "e = (q, c)" by fastforce
  have "(\<Sum>qi\<leftarrow>[0..<n]. rel_of (of_query qi (e # evs)))
      = (\<Sum>qi\<leftarrow>[0..<n]. (if qi = q then relevance c else 0) + rel_of (of_query qi evs))"
    by (rule arg_cong [where f = sum_list]) (simp add: e)
  also have "\<dots> = (\<Sum>qi\<leftarrow>[0..<n]. if qi = q then relevance c else 0) + rel_of (map snd evs)"
    using Cons by (simp add: sum_list_addf total_rel_def comp_def)
  also have "(\<Sum>qi\<leftarrow>[0..<n]. if qi = q then relevance c else 0) = relevance c"
    using Cons.prems e by (simp add: interv_sum_list_conv_sum_set_nat)
  finally show ?case by (simp add: total_rel_def comp_def e)
qed

lemma knapsack_optimal:
  assumes "0 < budget inp" "list_all2 subseq sel (candidates inp)" "int (total_size sel) \<le> budget inp"
  shows "total_rel sel \<le> total_rel (included (knapsackGreedy exact inp))"
proof -
  let ?css = "candidates inp" and ?n = "length (candidates inp)"
  let ?items = "flat_items (candidates inp)"
  let ?cs = "rev (map snd ?items)" and ?b = "nat (budget inp)"
  have len: "length (included (knapsackGreedy exact inp)) = ?n"
    using knapsack_run(1) [OF assms(1)] by (simp add: alloc_ok_def accounted_def)
  have inc: "included (knapsackGreedy exact inp) = map (\<lambda>qi. of_query qi (knap_picked exact inp)) [0..<?n]"
    by (rule nth_equalityI) (use knapsack_run(2) [OF assms(1)] len in simp_all)
  have "set (knap_picked exact inp) \<subseteq> set ?items"
    by (auto simp: knap_picked_def Let_def pick_def dest: set_zip_leftD)
  then have "\<forall>e\<in>set (knap_picked exact inp). fst e < ?n" using flat_items_props(1) by blast
  then have "total_rel (included (knapsackGreedy exact inp)) = rel_of (map snd (knap_picked exact inp))"
    unfolding inc by (rule rel_of_query)
  also have "map snd (knap_picked exact inp) = rev (pick ?cs (knap_choice exact ?cs ?b))"
    using pick_rev [of ?cs "knap_choice exact ?cs ?b"]
    by (simp add: knap_picked_def Let_def flip: pick_map)
  finally have val: "total_rel (included (knapsackGreedy exact inp)) = knap_value exact ?cs ?b"
    by (simp add: knap_choice_value)
  have "subseq (flat_items sel) ?items" unfolding flat_items_def by (rule flat_subseq [OF assms(2)])
  then have "subseq (rev (concat sel)) ?cs" using subseq_map flat_snd by (metis subseq_reversed)
  moreover have "sizes_of (rev (concat sel)) \<le> ?b"
    using assms(3) sizes_concat [of sel] by simp
  ultimately have "rel_of (rev (concat sel)) \<le> knap_value exact ?cs ?b" by (rule knap_value_optimal)
  then show ?thesis using val by (simp add: rel_concat)
qed

end
