(* ===== verification/Alloc_MMR.thy ===== *)
theory Alloc_MMR
  imports Alloc_Score Alloc_Knapsack Go_Text
begin

text \<open>
  The allocator mmr of internal/search/allocators.go (greedy maximal marginal relevance
  over token sets) and the choice of an allocator by variant. \<open>lower\<close> stands for
  \<open>strings.ToLower\<close>, whose Unicode tables are not part of the model. mmr keeps the
  contract for every arithmetic, but not the rank order of a query's hits.
\<close>

section \<open>Definitions\<close>

definition tokenSet :: "(string \<Rightarrow> string) \<Rightarrow> string \<Rightarrow> string set" where
  "tokenSet lower s = set (fields (lower s))"

definition jaccard :: "'f fops \<Rightarrow> string set \<Rightarrow> string set \<Rightarrow> 'f" where
  "jaccard A a b =
     (if card a = 0 \<and> card b = 0 then fint A 0
      else
        (let inter = card (a \<inter> b); union = card a + card b - inter in
         if union = 0 then fint A 0 else fdiv A (fint A (int inter)) (fint A (int union))))"

definition mmrLambda :: "'f fops \<Rightarrow> 'f" where "mmrLambda A = fdec A 7 1"
definition mmrRest :: "'f fops \<Rightarrow> 'f" where "mmrRest A = fdec A 3 1"

type_synonym 'f mmrItem = "(nat \<times> 'f candidate) \<times> string set"

definition mmr_score :: "'f fops \<Rightarrow> 'f mmrItem \<Rightarrow> 'f \<Rightarrow> 'f" where
  "mmr_score A it maxSim =
     fsub A (fmul A (mmrLambda A) (relevance (snd (fst it)))) (fmul A (mmrRest A) maxSim)"

definition mmr_better ::
  "'f fops \<Rightarrow> 'f mmrItem list \<Rightarrow> bool list \<Rightarrow> 'f list \<Rightarrow> nat \<Rightarrow> (nat \<times> 'f) option \<Rightarrow> (nat \<times> 'f) option" where
  "mmr_better A items selected maxSims i best =
     (if selected ! i then best
      else
        (let score = mmr_score A (items ! i) (maxSims ! i) in
         case best of
           None \<Rightarrow> Some (i, score)
         | Some (_, bestScore) \<Rightarrow> if flt A bestScore score then Some (i, score) else best))"

definition mmr_best :: "'f fops \<Rightarrow> 'f mmrItem list \<Rightarrow> bool list \<Rightarrow> 'f list \<Rightarrow> (nat \<times> 'f) option" where
  "mmr_best A items selected maxSims =
     fold (mmr_better A items selected maxSims) [0..<length items] None"

definition mmr_sims ::
  "'f fops \<Rightarrow> 'f mmrItem list \<Rightarrow> bool list \<Rightarrow> string set \<Rightarrow> 'f list \<Rightarrow> 'f list" where
  "mmr_sims A items selected tokens maxSims =
     map (\<lambda>i. if selected ! i then maxSims ! i
              else (let sim = jaccard A (snd (items ! i)) tokens in
                    if flt A (maxSims ! i) sim then sim else maxSims ! i)) [0..<length items]"

type_synonym 'f mmr_state = "bool list \<times> 'f list \<times> 'f allocOutput \<times> int"

definition mmr_step :: "'f fops \<Rightarrow> int \<Rightarrow> 'f mmrItem list \<Rightarrow> 'f mmr_state \<Rightarrow> 'f mmr_state" where
  "mmr_step A limit items = (\<lambda>(selected, maxSims, out, used).
     case mmr_best A items selected maxSims of
       None \<Rightarrow> (selected, maxSims, out, used)
     | Some (best, _) \<Rightarrow>
         (let selected = selected[best := True];
              it = items ! best;
              qi = fst (fst it); c = snd (fst it)
          in if used + int (csize c) \<le> limit
             then (selected, mmr_sims A items selected (snd it) maxSims,
                   include_cand qi c out, used + int (csize c))
             else (selected, maxSims, omit_cand qi out, used)))"

definition mmr :: "'f fops \<Rightarrow> (string \<Rightarrow> string) \<Rightarrow> 'f allocInput \<Rightarrow> 'f allocOutput" where
  "mmr A lower inp =
     (let out = newOutput inp;
          items = map (\<lambda>it. (it, tokenSet lower (hSnippet (hit (snd it))))) (flat_items (candidates inp));
          n = length items
      in if n = 0 then out
         else
           (let (selected, maxSims, out, used) =
              fold (\<lambda>count. mmr_step A (budget inp) items) [0..<n]
                (replicate n False, replicate n (fint A 0), out, 0)
            in out\<lparr>byteBudgetUsed := used\<rparr>))"

definition NewAllocator :: "'f fops \<Rightarrow> (string \<Rightarrow> string) \<Rightarrow> Variant \<Rightarrow> 'f allocInput \<Rightarrow> 'f allocOutput" where
  "NewAllocator A lower v =
     (case v of
        ScoreProportional \<Rightarrow> scoreProportional A
      | KnapsackGreedy \<Rightarrow> knapsackGreedy A
      | EqualBudget \<Rightarrow> equalBudget
      | MMR \<Rightarrow> mmr A lower
      | RankRound \<Rightarrow> rankRound)"

section \<open>Every item is decided once\<close>

lemma mmr_best_some:
  "\<not> selected ! i \<Longrightarrow> i < length items \<Longrightarrow>
     \<exists>j s. mmr_best A items selected maxSims = Some (j, s) \<and> j < length items \<and> \<not> selected ! j"
proof -
  assume i: "\<not> selected ! i" "i < length items"
  have inv: "(\<forall>j s. fold (mmr_better A items selected maxSims) [0..<k] None = Some (j, s) \<longrightarrow> j < k \<and> \<not> selected ! j)
    \<and> (i < k \<longrightarrow> fold (mmr_better A items selected maxSims) [0..<k] None \<noteq> None)" for k
    by (induction k) (use i(1) in \<open>auto simp: mmr_better_def Let_def less_Suc_eq split: option.splits if_splits\<close>)
  show ?thesis using inv [of "length items"] i(2) unfolding mmr_best_def by auto
qed

lemma pick_select:
  "length bs = length xs \<Longrightarrow> i < length xs \<Longrightarrow> \<not> bs ! i \<Longrightarrow>
     mset (pick xs (bs[i := True])) = add_mset (xs ! i) (mset (pick xs bs))"
proof (induction xs arbitrary: bs i)
  case (Cons x xs)
  then obtain b bs' where bs: "bs = b # bs'" by (cases bs) auto
  show ?case
  proof (cases i)
    case 0
    then show ?thesis using Cons.prems bs by simp
  next
    case (Suc j)
    then have "mset (pick xs (bs'[j := True])) = add_mset (xs ! j) (mset (pick xs bs'))"
      using Cons.prems bs by (intro Cons.IH) simp_all
    then show ?thesis using Suc bs by simp
  qed
qed simp

lemma pick_all: "length bs = length xs \<Longrightarrow> \<forall>b\<in>set bs. b \<Longrightarrow> pick xs bs = xs"
  by (induction xs arbitrary: bs; case_tac bs) auto

lemma mset_of_query: "mset (of_query qi evs) = image_mset snd (filter_mset (\<lambda>e. fst e = qi) (mset evs))"
  by (simp add: of_query_def)

definition mmr_inv :: "'f allocInput \<Rightarrow> 'f mmrItem list \<Rightarrow> nat \<Rightarrow> 'f mmr_state \<Rightarrow> bool" where
  "mmr_inv inp items k = (\<lambda>(selected, maxSims, out, used).
     length selected = length items \<and> length (filter id selected) = k
     \<and> (\<exists>done. length done = length (candidates inp) \<and> offered_inv done out
          \<and> (\<forall>qi<length done. mset (done ! qi) = mset (of_query qi (pick (map fst items) selected))))
     \<and> used = int (total_size (included out)) \<and> used \<le> budget inp)"

lemma length_filter_set_True:
  "i < length bs \<Longrightarrow> \<not> bs ! i \<Longrightarrow> length (filter id (bs[i := True])) = Suc (length (filter id bs))"
  by (induction bs arbitrary: i) (auto split: nat.splits)

lemma mmr_step_inv:
  assumes inv: "mmr_inv inp items k st" and k: "k < length items"
    and dom: "\<forall>it\<in>set items. fst (fst it) < length (candidates inp)"
  shows "mmr_inv inp items (Suc k) (mmr_step A (budget inp) items st)"
proof -
  obtain sel ms out used where st: "st = (sel, ms, out, used)" by (metis prod_cases4)
  obtain d where I: "length sel = length items" "length (filter id sel) = k"
      "length d = length (candidates inp)" "offered_inv d out"
      "\<forall>qi<length d. mset (d ! qi) = mset (of_query qi (pick (map fst items) sel))"
      "used = int (total_size (included out))" "used \<le> budget inp"
    using inv by (auto simp: mmr_inv_def st)
  have "\<exists>i<length items. \<not> sel ! i"
  proof (rule ccontr)
    assume "\<not> (\<exists>i<length items. \<not> sel ! i)"
    then have "filter id sel = sel" using I(1) by (simp add: filter_id_conv all_set_conv_all_nth)
    then show False using I(1,2) k by simp
  qed
  then obtain best s where b: "mmr_best A items sel ms = Some (best, s)" "best < length items" "\<not> sel ! best"
    using mmr_best_some by metis
  obtain qi c toks where it: "items ! best = ((qi, c), toks)" by (metis prod.exhaust)
  have qi: "qi < length d" using dom b(2) it I(3) by (metis fst_conv nth_mem)
  obtain out' used' where o: "offer (budget inp) qi c (out, used) = (out', used')" by fastforce
  note step = offer_inv [OF I(4) qi o]
  let ?sel = "sel[best := True]"
  have res: "\<exists>ms'. mmr_step A (budget inp) items st = (?sel, ms', out', used')"
    using o b(1) it by (auto simp: mmr_step_def st Let_def offer_def split: if_splits)
  have "mset (pick (map fst items) ?sel) = add_mset (qi, c) (mset (pick (map fst items) sel))"
    using pick_select [of sel "map fst items" best] I(1) b(2,3) it by simp
  then have "\<forall>q<length d. mset ((d[qi := d ! qi @ [c]]) ! q) = mset (of_query q (pick (map fst items) ?sel))"
    using I(5) qi by (auto simp: mset_of_query nth_list_update)
  moreover have "length (filter id ?sel) = Suc k" using length_filter_set_True [of best sel] b(2,3) I(1,2) by simp
  ultimately have "mmr_inv inp items (Suc k) (?sel, ms', out', used')" for ms'
    using I step by (auto simp: mmr_inv_def intro!: exI [of _ "d[qi := d ! qi @ [c]]"])
  then show ?thesis using res by metis
qed

lemma accounted_mset:
  assumes "offered_inv done out" "length done = length css" "\<forall>qi<length css. mset (done ! qi) = mset (css ! qi)"
  shows "accounted css out"
  unfolding accounted_def
proof (intro conjI allI impI)
  fix qi assume qi: "qi < length css"
  have "mset (included out ! qi) \<subseteq># mset (done ! qi)"
    "length (included out ! qi) + omitted out ! qi = length (done ! qi)"
    using assms(1,2) qi by (auto simp: offered_inv_def subseq_mset)
  moreover have "length (done ! qi) = length (css ! qi)" using assms(3) qi mset_eq_length by blast
  ultimately show "mset (included out ! qi) \<subseteq># mset (css ! qi)"
    "length (included out ! qi) + omitted out ! qi = length (css ! qi)"
    using assms(3) qi by simp_all
qed (use assms(1,2) in \<open>simp_all add: offered_inv_def\<close>)

lemma mmr_ok:
  assumes "0 \<le> budget inp"
  shows "alloc_ok inp (mmr A lower inp)"
proof -
  let ?css = "candidates inp"
  define items where "items = map (\<lambda>it. (it, tokenSet lower (hSnippet (hit (snd it))))) (flat_items ?css)"
  have fst_items: "map fst items = flat_items ?css" by (simp add: items_def comp_def)
  show ?thesis
  proof (cases "length items = 0")
    case True
    then have "\<forall>qi<length ?css. ?css ! qi = []"
      using flat_items_props(2) [of ?css] fst_items by simp
    then show ?thesis using True assms
      by (auto simp: mmr_def Let_def alloc_ok_def accounted_def newOutput_def total_size_def sum_list_replicate
          simp flip: items_def)
  next
    case False
    define st0 where "st0 = (replicate (length items) False, replicate (length items) (fint A 0), newOutput inp, 0 :: int)"
    have dom: "\<forall>it\<in>set items. fst (fst it) < length ?css"
      using flat_items_props(1) [of ?css] by (auto simp: items_def)
    have pick_none: "pick xs (replicate (length xs) False) = []" for xs :: "'c list"
      by (induction xs) simp_all
    have "mmr_inv inp items 0 st0"
      using offered_start [of inp] assms pick_none [of "map fst items"]
      by (auto simp: mmr_inv_def st0_def intro!: exI [of _ "replicate (length ?css) []"])
    then have "k \<le> length items \<Longrightarrow>
        mmr_inv inp items k (fold (\<lambda>count. mmr_step A (budget inp) items) [0..<k] st0)" for k
      by (induction k) (use mmr_step_inv [OF _ _ dom] in simp_all)
    from this [OF order_refl] obtain sel ms out used where
      f: "fold (\<lambda>count. mmr_step A (budget inp) items) [0..<length items] st0 = (sel, ms, out, used)"
         "mmr_inv inp items (length items) (sel, ms, out, used)" by (metis prod_cases4)
    then obtain d where I: "length sel = length items" "length (filter id sel) = length items"
      "length d = length ?css" "offered_inv d out"
      "\<forall>qi<length d. mset (d ! qi) = mset (of_query qi (pick (map fst items) sel))"
      "used = int (total_size (included out))" "used \<le> budget inp"
      by (auto simp: mmr_inv_def)
    have "\<forall>b\<in>set sel. b"
    proof
      fix b assume "b \<in> set sel"
      then show b using length_filter_less [of b sel id] I(1,2) by auto
    qed
    then have "pick (map fst items) sel = map fst items"
      using pick_all [of sel "map fst items"] I(1) by (simp only: length_map)
    then have "pick (map fst items) sel = flat_items ?css" by (simp only: fst_items)
    then have "\<forall>qi<length ?css. mset (d ! qi) = mset (?css ! qi)"
      using I(3,5) flat_items_props(2) [of ?css] by simp
    note acc = accounted_mset [OF I(4,3) this]
    have "mmr A lower inp = out\<lparr>byteBudgetUsed := used\<rparr>"
      using False f(1) unfolding mmr_def Let_def items_def [symmetric] st0_def by simp
    then show ?thesis using acc I by (simp add: alloc_ok_def accounted_def offered_inv_def)
  qed
qed

interpretation mmr: allocator nonneg_budget "mmr A lower" for A :: "'f fops" and lower
  using mmr_ok by unfold_locales (simp only: nonneg_budget_def)

section \<open>Every variant\<close>

definition service_input :: "rat allocInput \<Rightarrow> bool" where
  "service_input inp \<longleftrightarrow> 0 < budget inp \<and> (\<forall>cs\<in>set (candidates inp). \<forall>c\<in>set cs. 0 \<le> relevance c)"

interpretation variant: allocator service_input "NewAllocator exact lower v" for lower v
proof unfold_locales
  fix inp assume adm: "service_input inp"
  then have "nonneg_budget inp" "relevant_input inp" "positive_budget inp"
    by (auto simp: service_input_def nonneg_budget_def relevant_input_def positive_budget_def)
  then show "alloc_ok inp (NewAllocator exact lower v inp)"
    using rank_round.alloc_ok equal_budget.alloc_ok score_proportional.alloc_ok knapsack.alloc_ok mmr.alloc_ok
    by (cases v) (simp_all add: NewAllocator_def)
qed

end
