(* ===== verification/Search_Service.thy ===== *)
theory Search_Service
  imports Search_Store Ingest Alloc_MMR
begin

text \<open>
  internal/search/service.go and documentorder.go: the ranked search (one store query per
  submitted query, relevance normalised into three bands, sizes in bytes of wire JSON, a
  budget allocator) and the document-order read, page by page.

  The queries of one request run here in submitted order; they only read, so the order
  matters for nothing but which error is reported.
\<close>

section \<open>Wire size\<close>

text \<open>The compact JSON of a standalone hit; marshalling strings and a boolean never fails.\<close>

definition wire_hit :: "'f db_hit \<Rightarrow> string" where
  "wire_hit h = json_object
     ([(''title'', json_string (hTitle h)), (''snippet'', json_string (hSnippet h)),
       (''source'', json_string (hSource h)), (''match_layer'', json_string (hMatchLayer h))]
      @ (if hTruncated h then [(''truncated'', json_bool True)] else []))"

definition wireSize :: "'f db_hit \<Rightarrow> nat" where
  "wireSize h = length (wire_hit h)"

section \<open>Ranked search\<close>

definition matchLayerPrimary :: string where "matchLayerPrimary = ''primary''"
definition matchLayerTrigram :: string where "matchLayerTrigram = ''trigram''"
definition matchLayerDocument :: string where "matchLayerDocument = ''document''"

record 'f query_result =
  qr_Query :: string
  qr_Hits :: "'f db_hit list"
  qr_BudgetOmitted :: nat

record 'f search_result =
  sr_Queries :: "'f query_result list"
  sr_ByteBudgetUsed :: int
  sr_BudgetExceeded :: bool
  sr_BudgetBytes :: int
  sr_Allocator :: "Variant option"
  sr_NextOffset :: "int option"

fun fanOut :: "'f fops \<Rightarrow> unicode \<Rightarrow> 'f text_search \<Rightarrow> string \<Rightarrow> db_search_input \<Rightarrow> string list \<Rightarrow> 'f db_hit list list dbm" where
  "fanOut F U T ns inp [] = ret []"
| "fanOut F U T ns inp (q # qs) =
     andthen (Sources_Search F U T ns \<lparr>inSessionID = inSessionID inp, inQuery = q, inSource = inSource inp, inLimit = inLimit inp\<rparr>)
       (\<lambda>hits. andthen (fanOut F U T ns inp qs) (\<lambda>rest. ret (hits # rest)))"

text \<open>Least and greatest relevance of the group; \<open>None\<close> while no member was seen.\<close>

definition range_step :: "'f fops \<Rightarrow> ('f db_hit \<Rightarrow> bool) \<Rightarrow> 'f db_hit \<Rightarrow> ('f \<times> 'f) option \<Rightarrow> ('f \<times> 'f) option" where
  "range_step F P h acc =
     (if \<not> P h then acc
      else case acc of
             None \<Rightarrow> Some (hRelevance h, hRelevance h)
           | Some (minV, maxV) \<Rightarrow>
               Some (if flt F (hRelevance h) minV then hRelevance h else minV,
                     if flt F maxV (hRelevance h) then hRelevance h else maxV))"

definition normalizeGroup ::
  "'f fops \<Rightarrow> ('f db_hit \<Rightarrow> bool) \<Rightarrow> 'f \<Rightarrow> 'f \<Rightarrow> 'f db_hit list list \<Rightarrow> 'f db_hit list list" where
  "normalizeGroup F P lo hi perQuery =
     (case fold (range_step F P) (concat perQuery) None of
        None \<Rightarrow> perQuery
      | Some (minV, maxV) \<Rightarrow>
          (let span = fsub F maxV minV in
           map (map (\<lambda>h. if \<not> P h then h
                         else if feq F span (fint F 0) then h\<lparr>hRelevance := hi\<rparr>
                         else h\<lparr>hRelevance := fadd F lo (fmul F (fdiv F (fsub F (hRelevance h) minV) span) (fsub F hi lo))\<rparr>))
             perQuery))"

definition in_group :: "string \<Rightarrow> bool \<Rightarrow> 'f db_hit \<Rightarrow> bool" where
  "in_group layer matchesAll h \<longleftrightarrow> hMatchLayer h = layer \<and> hMatchesAll h = matchesAll"

definition normalizeRelevance :: "'f fops \<Rightarrow> 'f db_hit list list \<Rightarrow> 'f db_hit list list" where
  "normalizeRelevance F pq =
     normalizeGroup F (in_group matchLayerTrigram False) (fdec F 1 1) (fdec F 5 1)
       (normalizeGroup F (in_group matchLayerPrimary False) (fdec F 6 1) (fdec F 8 1)
         (normalizeGroup F (in_group matchLayerPrimary True) (fdec F 85 2) (fint F 1) pq))"

definition hits_where :: "('f db_hit \<Rightarrow> bool) \<Rightarrow> 'f query_result list \<Rightarrow> nat" where
  "hits_where P rs = length (filter P (concat (map qr_Hits rs)))"

text \<open>Primary, trigram, total, snippet fallbacks.\<close>

definition hitBreakdown :: "'f query_result list \<Rightarrow> nat \<times> nat \<times> nat \<times> nat" where
  "hitBreakdown rs =
     (hits_where (\<lambda>h. hMatchLayer h = matchLayerPrimary) rs, hits_where (\<lambda>h. hMatchLayer h = matchLayerTrigram) rs,
      hits_where (\<lambda>_. True) rs, hits_where hSnippetFallback rs)"

definition json_nat :: "nat \<Rightarrow> string" where "json_nat n = json_int (int n)"

definition search_meta :: "Variant \<Rightarrow> 'f search_result \<Rightarrow> nat \<Rightarrow> nat \<Rightarrow> string" where
  "search_meta v r resultsOmitted intentZeroMatch =
     (case hitBreakdown (sr_Queries r) of (primary, trigram, tot, snippetFallbacks) \<Rightarrow>
        json_object [(''allocator'', json_string (variant_name v)), (''budget_exceeded'', json_bool (sr_BudgetExceeded r)),
          (''byte_budget_used'', json_int (sr_ByteBudgetUsed r)), (''hit_count'', json_nat tot),
          (''hits_document'', json_nat 0), (''hits_primary'', json_nat primary), (''hits_trigram'', json_nat trigram),
          (''intent_zero_match'', json_nat intentZeroMatch), (''mode'', json_string ''ranked''),
          (''results_omitted'', json_nat resultsOmitted), (''snippet_fallbacks'', json_nat snippetFallbacks)])"

definition search_candidates :: "'f db_hit list list \<Rightarrow> 'f candidate list list" where
  "search_candidates pq = map (map (\<lambda>h. \<lparr>hit = h, csize = wireSize h, relevance = hRelevance h\<rparr>)) pq"

definition search_assemble :: "string list \<Rightarrow> int \<Rightarrow> Variant \<Rightarrow> 'f allocOutput \<Rightarrow> 'f search_result" where
  "search_assemble qs budgetBytes v alloc =
     \<lparr>sr_Queries = map (\<lambda>(qi, q). \<lparr>qr_Query = q, qr_Hits = map hit (included alloc ! qi), qr_BudgetOmitted = omitted alloc ! qi\<rparr>)
                     (enumerate 0 qs),
      sr_ByteBudgetUsed = byteBudgetUsed alloc, sr_BudgetExceeded = budgetExceeded alloc,
      sr_BudgetBytes = budgetBytes, sr_Allocator = Some v, sr_NextOffset = None\<rparr>"

definition Search ::
  "'f fops \<Rightarrow> unicode \<Rightarrow> 'f text_search \<Rightarrow> string \<Rightarrow> int \<Rightarrow> string \<Rightarrow> db_search_input \<Rightarrow> string list \<Rightarrow> int \<Rightarrow> Variant
   \<Rightarrow> 'f search_result dbm" where
  "Search F U T ns sid cid inp qs budgetBytes v =
     andthen (fanOut F U T ns inp qs) (\<lambda>perQuery.
       (let perQuery = normalizeRelevance F perQuery;
            alloc = NewAllocator F (s_lower U) v
                      \<lparr>queries = qs, candidates = search_candidates perQuery, budget = budgetBytes\<rparr>;
            result = search_assemble qs budgetBytes v alloc;
            totalOmitted = sum_list (map qr_BudgetOmitted (sr_Queries result));
            intentZeroMatch = length (filter (\<lambda>hits. hits = []) perQuery)
        in andthen (attempt (Correlations_Insert ns sid cid ''search'' (search_meta v result totalOmitted intentZeroMatch)))
             (\<lambda>_. ret result)))"

section \<open>Document order\<close>

definition doc_hit :: "'f fops \<Rightarrow> doc_chunk \<Rightarrow> string \<Rightarrow> bool \<Rightarrow> 'f db_hit" where
  "doc_hit F ch snippet trunc =
     \<lparr>hTitle = dcTitle ch, hSnippet = snippet, hSource = dcSource ch, hMatchLayer = matchLayerDocument,
      hTruncated = trunc, hSnippetFallback = False, hRelevance = fint F 0, hMatchesAll = False\<rparr>"

definition full_hit :: "'f fops \<Rightarrow> doc_chunk \<Rightarrow> 'f db_hit" where
  "full_hit F ch = doc_hit F ch (dcContent ch) False"

definition prefix_hit :: "'f fops \<Rightarrow> doc_chunk \<Rightarrow> int \<Rightarrow> 'f db_hit" where
  "prefix_hit F ch n = doc_hit F ch (string_of_runes (take (nat n) (runes (dcContent ch)))) True"

text \<open>The binary search over prefix lengths.\<close>

function prefix_search :: "(int \<Rightarrow> bool) \<Rightarrow> int \<Rightarrow> int \<Rightarrow> int \<Rightarrow> int" where
  "prefix_search fits lo hi best =
     (if lo \<le> hi then
        (let mid = (lo + hi) div 2 in
         if fits mid then prefix_search fits (mid + 1) hi mid else prefix_search fits lo (mid - 1) best)
      else best)"
  by pat_completeness auto
termination by (relation "measure (\<lambda>(f, lo, hi, b). nat (hi - lo + 1))") auto

declare prefix_search.simps [simp del]

definition truncatedDocHit :: "'f fops \<Rightarrow> doc_chunk \<Rightarrow> int \<Rightarrow> ('f db_hit \<times> nat) option" where
  "truncatedDocHit F ch budgetBytes =
     (let best = prefix_search (\<lambda>n. int (wireSize (prefix_hit F ch n)) \<le> budgetBytes) 1
                   (int (length (runes (dcContent ch)))) 0
      in if best < 1 then None else Some (prefix_hit F ch best, wireSize (prefix_hit F ch best)))"

record 'f doc_page =
  dp_hits :: "'f db_hit list"
  dp_used :: int
  dp_consumed :: int
  dp_omitted :: nat
  dp_exceeded :: bool
  dp_headTruncated :: bool
  dp_headNoFit :: bool

definition doc_start :: "'f doc_page" where
  "doc_start = \<lparr>dp_hits = [], dp_used = 0, dp_consumed = 0, dp_omitted = 0, dp_exceeded = False,
                dp_headTruncated = False, dp_headNoFit = False\<rparr>"

definition doc_take :: "'f db_hit \<Rightarrow> nat \<Rightarrow> 'f doc_page \<Rightarrow> 'f doc_page" where
  "doc_take h n p = p\<lparr>dp_hits := dp_hits p @ [h], dp_used := dp_used p + int n, dp_consumed := dp_consumed p + 1\<rparr>"

fun doc_loop :: "'f fops \<Rightarrow> int \<Rightarrow> doc_chunk list \<Rightarrow> 'f doc_page \<Rightarrow> 'f doc_page" where
  "doc_loop F budgetBytes [] p = p"
| "doc_loop F budgetBytes (ch # chs) p =
     (let h = full_hit F ch; n = wireSize h in
      if dp_used p + int n \<le> budgetBytes then doc_loop F budgetBytes chs (doc_take h n p)
      else if dp_hits p = [] then
        (case truncatedDocHit F ch budgetBytes of
           Some (th, thSize) \<Rightarrow> (doc_take th thSize p)\<lparr>dp_headTruncated := True, dp_exceeded := True\<rparr>
         | None \<Rightarrow> p\<lparr>dp_headNoFit := True, dp_omitted := 1, dp_exceeded := True\<rparr>)
      else p\<lparr>dp_omitted := 1, dp_exceeded := True\<rparr>)"

definition doc_more :: "doc_chunk list \<Rightarrow> bool \<Rightarrow> 'f doc_page \<Rightarrow> bool" where
  "doc_more cs hasMoreBeyondLimit p =
     (if dp_headNoFit p then True
      else if dp_headTruncated p then length cs > 1 \<or> hasMoreBeyondLimit
      else if dp_omitted p = 1 then True
      else hasMoreBeyondLimit)"

definition doc_result :: "int \<Rightarrow> int \<Rightarrow> doc_chunk list \<Rightarrow> bool \<Rightarrow> 'f doc_page \<Rightarrow> 'f search_result" where
  "doc_result offset budgetBytes cs hasMoreBeyondLimit p =
     \<lparr>sr_Queries = [\<lparr>qr_Query = [], qr_Hits = dp_hits p, qr_BudgetOmitted = dp_omitted p\<rparr>],
      sr_ByteBudgetUsed = dp_used p, sr_BudgetExceeded = dp_exceeded p, sr_BudgetBytes = budgetBytes,
      sr_Allocator = None,
      sr_NextOffset = (if doc_more cs hasMoreBeyondLimit p then Some (offset + dp_consumed p) else None)\<rparr>"

definition doc_meta :: "'f doc_page \<Rightarrow> string" where
  "doc_meta p =
     json_object [(''budget_exceeded'', json_bool (dp_exceeded p)), (''byte_budget_used'', json_int (dp_used p)),
       (''hit_count'', json_int (dp_consumed p)), (''hits_document'', json_int (dp_consumed p)), (''hits_primary'', json_nat 0),
       (''hits_trigram'', json_nat 0), (''intent_zero_match'', json_nat 0), (''mode'', json_string ''document''),
       (''results_omitted'', json_nat (dp_omitted p)), (''snippet_fallbacks'', json_nat 0)]"

definition min_hit :: "'f fops \<Rightarrow> nat" where
  "min_hit F = wireSize (doc_hit F \<lparr>dcTitle = [], dcContent = [], dcSource = []\<rparr> [] False)"

definition fetch_limit :: "'f fops \<Rightarrow> int \<Rightarrow> int \<Rightarrow> int" where
  "fetch_limit F limit budgetBytes = (if limit \<le> 0 then budgetBytes sdiv int (min_hit F) + 1 else limit)"

definition DocumentOrder ::
  "'f fops \<Rightarrow> string \<Rightarrow> int \<Rightarrow> string \<Rightarrow> string \<Rightarrow> int \<Rightarrow> int \<Rightarrow> int \<Rightarrow> 'f search_result dbm" where
  "DocumentOrder F ns sid cid source limit offset budgetBytes =
     andthen (ChunksInOrder ns \<lparr>doSessionID = sid, doSource = source, doLimit = fetch_limit F limit budgetBytes, doOffset = offset\<rparr>)
       (\<lambda>(cs, hasMoreBeyondLimit).
         (let p = doc_loop F budgetBytes cs doc_start;
              result = doc_result offset budgetBytes cs hasMoreBeyondLimit p
          in andthen (attempt (Correlations_Insert ns sid cid ''search'' (doc_meta p))) (\<lambda>_. ret result)))"

section \<open>Sizes\<close>

lemma wireSize_doc:
  "wireSize (doc_hit F ch s tr) = wireSize (doc_hit F \<lparr>dcTitle = [], dcContent = [], dcSource = []\<rparr> [] tr)
     + length (json_escape (dcTitle ch)) + length (json_escape s) + length (json_escape (dcSource ch))"
  by (simp add: wireSize_def wire_hit_def doc_hit_def json_object_def json_string_def)

lemma min_hit_le: "min_hit F \<le> wireSize (full_hit F ch)"
  unfolding full_hit_def min_hit_def wireSize_doc [of F ch] by simp

lemma min_hit_pos: "0 < min_hit F"
  by (simp add: min_hit_def wireSize_def wire_hit_def doc_hit_def json_object_def)

lemma prefix_size_mono:
  assumes "1 \<le> m" "m < n" "n \<le> int (length (runes (dcContent ch)))"
  shows "wireSize (prefix_hit F ch m) < wireSize (prefix_hit F ch n)"
proof -
  have "length (json_escape (string_of_runes (take (nat m) (runes (dcContent ch)))))
      < length (json_escape (string_of_runes (take (nat n) (runes (dcContent ch)))))"
    using assms by (intro length_escape_mono) (auto intro: proper_runes)
  then show ?thesis unfolding prefix_hit_def wireSize_doc [of F ch] by simp
qed

section \<open>The longest prefix that fits\<close>

lemma prefix_search_spec:
  assumes down: "\<And>m n. 1 \<le> m \<Longrightarrow> m \<le> n \<Longrightarrow> n \<le> L \<Longrightarrow> fits n \<Longrightarrow> fits m"
    and "best = lo - 1" "1 \<le> lo" "lo \<le> hi + 1" "hi \<le> L" "1 \<le> best \<Longrightarrow> fits best" "\<And>n. hi < n \<Longrightarrow> n \<le> L \<Longrightarrow> \<not> fits n"
  shows "0 \<le> prefix_search fits lo hi best \<and> prefix_search fits lo hi best \<le> L
    \<and> (1 \<le> prefix_search fits lo hi best \<longrightarrow> fits (prefix_search fits lo hi best))
    \<and> (\<forall>n. prefix_search fits lo hi best < n \<and> n \<le> L \<longrightarrow> \<not> fits n)"
  using assms(2-)
proof (induction "nat (hi - lo + 1)" arbitrary: lo hi best rule: less_induct)
  case less
  show ?case
  proof (cases "lo \<le> hi")
    case False
    then show ?thesis using less.prems by (simp add: prefix_search.simps [of fits lo hi])
  next
    case True
    define mid where "mid = (lo + hi) div 2"
    have m: "lo \<le> mid" "mid \<le> hi" using True by (auto simp: mid_def)
    have e: "prefix_search fits lo hi best
        = (if fits mid then prefix_search fits (mid + 1) hi mid else prefix_search fits lo (mid - 1) best)"
      using True by (subst prefix_search.simps) (simp add: Let_def mid_def)
    show ?thesis
    proof (cases "fits mid")
      case fit: True
      have "nat (hi - (mid + 1) + 1) < nat (hi - lo + 1)" using m by simp
      from less.hyps [OF this] show ?thesis unfolding e using fit m less.prems by simp
    next
      case unfit: False
      have "\<not> fits n" if "mid - 1 < n" "n \<le> L" for n
        using down [of mid n] that unfit m less.prems by fastforce
      moreover have "nat (mid - 1 - lo + 1) < nat (hi - lo + 1)" using m True by linarith
      note less.hyps [OF this, of best]
      ultimately show ?thesis unfolding e using unfit m less.prems by simp
    qed
  qed
qed

lemma truncatedDocHit_spec:
  "truncatedDocHit F ch B = Some (h, n) \<Longrightarrow> \<exists>k. 1 \<le> k \<and> k \<le> int (length (runes (dcContent ch))) \<and> h = prefix_hit F ch k
     \<and> n = wireSize h \<and> int n \<le> B
     \<and> (\<forall>j. k < j \<and> j \<le> int (length (runes (dcContent ch))) \<longrightarrow> B < int (wireSize (prefix_hit F ch j)))"
  "truncatedDocHit F ch B = None \<Longrightarrow>
     \<forall>j. 1 \<le> j \<and> j \<le> int (length (runes (dcContent ch))) \<longrightarrow> B < int (wireSize (prefix_hit F ch j))"
proof -
  let ?L = "int (length (runes (dcContent ch)))" and ?fits = "\<lambda>n. int (wireSize (prefix_hit F ch n)) \<le> B"
  let ?k = "prefix_search ?fits 1 ?L 0"
  have down: "?fits m" if "1 \<le> m" "m \<le> n" "n \<le> ?L" "?fits n" for m n
    using prefix_size_mono [of m n ch F] that by (cases "m = n") auto
  have k: "0 \<le> ?k \<and> ?k \<le> ?L \<and> (1 \<le> ?k \<longrightarrow> ?fits ?k) \<and> (\<forall>n. ?k < n \<and> n \<le> ?L \<longrightarrow> \<not> ?fits n)"
    by (rule prefix_search_spec [OF down]) auto
  show "\<exists>k. 1 \<le> k \<and> k \<le> ?L \<and> h = prefix_hit F ch k \<and> n = wireSize h \<and> int n \<le> B
     \<and> (\<forall>j. k < j \<and> j \<le> ?L \<longrightarrow> B < int (wireSize (prefix_hit F ch j)))"
    if "truncatedDocHit F ch B = Some (h, n)"
    using that k by (intro exI [of _ ?k]) (auto simp: truncatedDocHit_def Let_def not_le split: if_splits)
  show "\<forall>j. 1 \<le> j \<and> j \<le> ?L \<longrightarrow> B < int (wireSize (prefix_hit F ch j))" if "truncatedDocHit F ch B = None"
    using that k by (auto simp: truncatedDocHit_def Let_def not_le split: if_splits)
qed

section \<open>One page\<close>

fun fit_count :: "'f fops \<Rightarrow> int \<Rightarrow> int \<Rightarrow> doc_chunk list \<Rightarrow> nat" where
  "fit_count F B u [] = 0"
| "fit_count F B u (ch # chs) =
     (if u + int (wireSize (full_hit F ch)) \<le> B then Suc (fit_count F B (u + int (wireSize (full_hit F ch))) chs) else 0)"

definition hit_bytes :: "'f db_hit list \<Rightarrow> int" where
  "hit_bytes hs = int (sum_list (map wireSize hs))"

lemma hit_bytes_simps [simp]: "hit_bytes [] = 0" "hit_bytes (h # hs) = int (wireSize h) + hit_bytes hs"
  "hit_bytes (hs @ gs) = hit_bytes hs + hit_bytes gs"
  by (simp_all add: hit_bytes_def)

lemma fit_count_props:
  "fit_count F B u cs \<le> length cs"
  "0 < fit_count F B u cs \<Longrightarrow> u + hit_bytes (map (full_hit F) (take (fit_count F B u cs) cs)) \<le> B"
  "fit_count F B u cs < length cs \<Longrightarrow>
     B < u + hit_bytes (map (full_hit F) (take (Suc (fit_count F B u cs)) cs))"
proof (induction cs arbitrary: u)
  case (Cons ch cs)
  let ?w = "int (wireSize (full_hit F ch))"
  { case 1 show ?case using Cons(1) by simp
  next
    case 2
    then show ?case using Cons(2) [of "u + ?w"] by (cases "fit_count F B (u + ?w) cs") (auto split: if_splits)
  next
    case 3
    then show ?case using Cons(3) [of "u + ?w"] by (auto split: if_splits)
  }
qed simp_all

definition doc_taken :: "'f fops \<Rightarrow> doc_chunk list \<Rightarrow> nat \<Rightarrow> 'f doc_page \<Rightarrow> 'f doc_page" where
  "doc_taken F cs k p =
     p\<lparr>dp_hits := dp_hits p @ map (full_hit F) (take k cs),
       dp_used := dp_used p + hit_bytes (map (full_hit F) (take k cs)), dp_consumed := dp_consumed p + int k\<rparr>"

lemma doc_loop_taken:
  "doc_loop F B cs p =
     (let k = fit_count F B (dp_used p) cs; p' = doc_taken F cs k p in
      if k = length cs then p' else doc_loop F B (drop k cs) p')"
proof (induction cs arbitrary: p)
  case Nil
  then show ?case by (simp add: doc_taken_def)
next
  case (Cons ch cs)
  show ?case
  proof (cases "dp_used p + int (wireSize (full_hit F ch)) \<le> B")
    case True
    let ?p = "doc_take (full_hit F ch) (wireSize (full_hit F ch)) p"
    have u: "dp_used ?p = dp_used p + int (wireSize (full_hit F ch))" by (simp add: doc_take_def)
    have t: "doc_taken F cs k ?p = doc_taken F (ch # cs) (Suc k) p" for k
      by (simp add: doc_taken_def doc_take_def)
    have "doc_loop F B (ch # cs) p = doc_loop F B cs ?p" using True by (simp add: Let_def)
    then show ?thesis unfolding Cons.IH [of ?p] u Let_def t using True by simp
  next
    case False
    have "doc_taken F (ch # cs) 0 p = p" by (simp add: doc_taken_def)
    then show ?thesis using False by (simp add: Let_def)
  qed
qed

lemma doc_page_cases:
  fixes F :: "'f fops"
  obtains (all) "doc_loop F B cs doc_start = doc_taken F cs (length cs) doc_start" "fit_count F B 0 cs = length cs"
  | (some) k where "0 < k" "k < length cs" "fit_count F B 0 cs = k"
      "doc_loop F B cs doc_start = (doc_taken F cs k doc_start)\<lparr>dp_omitted := 1, dp_exceeded := True\<rparr>"
  | (cut) ch rest th n where "cs = ch # rest" "B < int (wireSize (full_hit F ch))" "truncatedDocHit F ch B = Some (th, n)"
      "doc_loop F B cs doc_start = (doc_take th n doc_start)\<lparr>dp_headTruncated := True, dp_exceeded := True\<rparr>"
  | (stuck) ch rest where "cs = ch # rest" "B < int (wireSize (full_hit F ch))" "truncatedDocHit F ch B = None"
      "doc_loop F B cs doc_start = doc_start\<lparr>dp_headNoFit := True, dp_omitted := 1, dp_exceeded := True\<rparr>"
proof -
  let ?k = "fit_count F B 0 cs"
  have u: "dp_used doc_start = 0" by (simp add: doc_start_def)
  note e = doc_loop_taken [of F B cs doc_start, unfolded u Let_def]
  show thesis
  proof (cases "?k = length cs")
    case True
    then show thesis using all e by simp
  next
    case False
    then have lt: "?k < length cs" using fit_count_props(1) [of F B 0 cs] by simp
    then obtain ch rest where d: "drop ?k cs = ch # rest" by (metis Cons_nth_drop_Suc)
    let ?p = "doc_taken F cs ?k doc_start"
    have e': "doc_loop F B cs doc_start = doc_loop F B (ch # rest) ?p" using e False d by simp
    have "take (Suc ?k) cs = take ?k cs @ [ch]" using d lt by (simp add: take_Suc_conv_app_nth nth_via_drop)
    then have over: "\<not> dp_used ?p + int (wireSize (full_hit F ch)) \<le> B"
      using fit_count_props(3) [OF lt] by (simp add: doc_taken_def doc_start_def)
    show thesis
    proof (cases "?k = 0")
      case z: True
      have p: "?p = doc_start" by (simp add: z doc_taken_def doc_start_def)
      have c: "cs = ch # rest" using d z by simp
      have B: "B < int (wireSize (full_hit F ch))" using over unfolding p by (simp add: doc_start_def)
      show thesis
      proof (cases "truncatedDocHit F ch B")
        case None
        then show thesis using stuck [OF c B None] e' over by (simp add: p Let_def) (simp add: doc_start_def)
      next
        case (Some x)
        obtain th n where "truncatedDocHit F ch B = Some (th, n)" using Some by (cases x) simp
        then show thesis using cut [OF c B, of th n] e' over by (simp add: p Let_def) (simp add: doc_start_def)
      qed
    next
      case False
      then have "dp_hits ?p \<noteq> []" using lt by (auto simp: doc_taken_def doc_start_def)
      then show thesis using some [of ?k] False lt e' over by (simp add: Let_def)
    qed
  qed
qed

lemma doc_page_books:
  fixes F :: "'f fops" and B :: int and cs :: "doc_chunk list"
  assumes "0 \<le> B"
  defines "p \<equiv> doc_loop F B cs doc_start"
  shows "dp_used p = hit_bytes (dp_hits p) \<and> dp_used p \<le> B \<and> dp_omitted p \<le> 1
    \<and> dp_consumed p = int (length (dp_hits p)) \<and> (dp_exceeded p \<longleftrightarrow> fit_count F B 0 cs < length cs)"
proof (cases F B cs rule: doc_page_cases)
  case all
  have "hit_bytes (map (full_hit F) cs) \<le> B" using fit_count_props(2) [of F B 0 cs] assms(1) all(2) by (cases cs) simp_all
  then show ?thesis using all by (simp add: p_def doc_taken_def doc_start_def)
next
  case (some k)
  then have "hit_bytes (map (full_hit F) (take k cs)) \<le> B" using fit_count_props(2) [of F B 0 cs] by simp
  then show ?thesis using some by (simp add: p_def doc_taken_def doc_start_def)
next
  case (cut ch rest th n)
  then have "n = wireSize th" "int n \<le> B" using truncatedDocHit_spec(1) [OF cut(3)] by auto
  then show ?thesis using cut by (simp add: p_def doc_take_def doc_start_def)
next
  case (stuck ch rest)
  then show ?thesis using assms(1) by (simp add: p_def doc_start_def)
qed

text \<open>What a page holds: whole chunks from the front, or one cut chunk, or nothing.\<close>

definition no_rune_fits :: "'f fops \<Rightarrow> int \<Rightarrow> doc_chunk \<Rightarrow> int \<Rightarrow> bool" where
  "no_rune_fits F B ch k \<longleftrightarrow>
     (\<forall>j. k < j \<and> j \<le> int (length (runes (dcContent ch))) \<longrightarrow> B < int (wireSize (prefix_hit F ch j)))"

definition page_spec :: "'f fops \<Rightarrow> int \<Rightarrow> doc_chunk list \<Rightarrow> 'f doc_page \<Rightarrow> bool" where
  "page_spec F B cs p \<longleftrightarrow>
     (if dp_headTruncated p then
        \<not> dp_headNoFit p \<and> cs \<noteq> [] \<and> B < int (wireSize (full_hit F (hd cs)))
        \<and> (\<exists>k. 1 \<le> k \<and> k \<le> int (length (runes (dcContent (hd cs)))) \<and> dp_hits p = [prefix_hit F (hd cs) k]
               \<and> no_rune_fits F B (hd cs) k)
      else if dp_headNoFit p then
        dp_hits p = [] \<and> cs \<noteq> [] \<and> B < int (wireSize (full_hit F (hd cs))) \<and> no_rune_fits F B (hd cs) 0
      else
        dp_hits p = map (full_hit F) (take (length (dp_hits p)) cs)
        \<and> dp_omitted p = (if length (dp_hits p) < length cs then 1 else 0) \<and> (cs \<noteq> [] \<longrightarrow> dp_hits p \<noteq> []))"

lemma doc_page_spec: "page_spec F B cs (doc_loop F B cs doc_start)"
proof (cases F B cs rule: doc_page_cases)
  case all
  then show ?thesis by (simp add: page_spec_def doc_taken_def doc_start_def)
next
  case (some k)
  then show ?thesis by (auto simp: page_spec_def doc_taken_def doc_start_def)
next
  case (cut ch rest th n)
  obtain k where "1 \<le> k" "k \<le> int (length (runes (dcContent ch)))" "th = prefix_hit F ch k" "no_rune_fits F B ch k"
    using truncatedDocHit_spec(1) [OF cut(3)] unfolding no_rune_fits_def by blast
  then show ?thesis using cut by (auto simp: page_spec_def doc_take_def doc_start_def)
next
  case (stuck ch rest)
  then show ?thesis using truncatedDocHit_spec(2) [OF stuck(3)]
    by (auto simp: page_spec_def doc_start_def no_rune_fits_def)
qed

section \<open>A document read\<close>

definition document :: "tables \<Rightarrow> string \<Rightarrow> int \<Rightarrow> string \<Rightarrow> doc_chunk list" where
  "document t ns sid source = (if session_in t ns sid then source_chunks t sid source else [])"

lemma ChunksInOrder_ok:
  assumes "ChunksInOrder ns inp d = (Inr (cs, hm), d')"
  defines "limit \<equiv> (if doLimit inp = 0 then defaultSearchLimit else doLimit inp)"
    and "rest \<equiv> drop (nat (doOffset inp)) (document (tabs d) ns (doSessionID inp) (doSource inp))"
  shows "tabs d' = tabs d" "0 < limit" "0 \<le> doOffset inp" "cs = take (nat limit) rest"
    "hm \<longleftrightarrow> limit < int (length rest)"
proof -
  have g: "ns \<noteq> []" "doSource inp \<noteq> []" "\<not> (doLimit inp < 0 \<or> doOffset inp < 0)"
    using assms(1) unfolding ChunksInOrder_def guard_Inr by blast+
  then show l: "0 < limit" "0 \<le> doOffset inp" by (auto simp: limit_def defaultSearchLimit_def)
  let ?out = "\<lambda>d. take (nat (limit + 1)) (drop (nat (doOffset inp)) (document (tabs d) ns (doSessionID inp) (doSource inp)))"
  have o: "(if session_in (tabs d) ns (doSessionID inp)
      then take (nat (limit + 1)) (drop (nat (doOffset inp)) (source_chunks (tabs d) (doSessionID inp) (doSource inp))) else []) = ?out d"
    for d :: db by (simp add: document_def)
  have "query (\<lambda>d. Inr (if int (length (?out d)) > limit then take (nat limit) (?out d) else ?out d,
      int (length (?out d)) > limit)) d = (Inr (cs, hm), d')"
    using assms(1) unfolding ChunksInOrder_def guard_Inr Let_def limit_def [symmetric] o by blast
  then have q: "tabs d' = tabs d \<and> (cs = (if int (length (?out d)) > limit then take (nat limit) (?out d) else ?out d))
    \<and> (hm \<longleftrightarrow> int (length (?out d)) > limit)"
    by (rule query_cases) (simp, clarsimp simp del: length_take take_take)
  show "tabs d' = tabs d" using q by blast
  have len: "int (length (?out d)) > limit \<longleftrightarrow> limit < int (length rest)" using l(1) unfolding rest_def length_take by linarith
  then show "hm \<longleftrightarrow> limit < int (length rest)" using q by blast
  have "take (nat limit) (?out d) = take (nat limit) rest" unfolding rest_def take_take using l(1) by (simp add: min_absorb1)
  moreover have "?out d = take (nat limit) rest" if "\<not> limit < int (length rest)" using that by (simp add: rest_def)
  ultimately show "cs = take (nat limit) rest" using q len by (metis (no_types, lifting))
qed

definition rest_of :: "db \<Rightarrow> string \<Rightarrow> int \<Rightarrow> string \<Rightarrow> int \<Rightarrow> doc_chunk list" where
  "rest_of d ns sid source offset = drop (nat offset) (document (tabs d) ns sid source)"

definition page_hits :: "'f search_result \<Rightarrow> 'f db_hit list" where
  "page_hits r = concat (map qr_Hits (sr_Queries r))"

lemma DocumentOrder_run:
  assumes "DocumentOrder F ns sid cid source limit offset B d = (Inr r, d')"
  obtains cs hm where
    "cs = take (nat (if fetch_limit F limit B = 0 then defaultSearchLimit else fetch_limit F limit B)) (rest_of d ns sid source offset)"
    "hm \<longleftrightarrow> (if fetch_limit F limit B = 0 then defaultSearchLimit else fetch_limit F limit B) < int (length (rest_of d ns sid source offset))"
    "r = doc_result offset B cs hm (doc_loop F B cs doc_start)" "0 \<le> offset"
    "0 < (if fetch_limit F limit B = 0 then defaultSearchLimit else fetch_limit F limit B)"
    "index_of (tabs d') = index_of (tabs d)"
proof -
  let ?inp = "\<lparr>doSessionID = sid, doSource = source, doLimit = fetch_limit F limit B, doOffset = offset\<rparr>"
  obtain cs hm d1 where c: "ChunksInOrder ns ?inp d = (Inr (cs, hm), d1)"
    and r: "r = doc_result offset B cs hm (doc_loop F B cs doc_start)"
    and d': "d' = snd (Correlations_Insert ns sid cid ''search'' (doc_meta (doc_loop F B cs doc_start)) d1)"
    using assms unfolding DocumentOrder_def
    by (auto simp: Let_def ret_def attempt_def elim!: andthen_cases)
  note C = ChunksInOrder_ok [OF c, unfolded doc_order_input.select_convs]
  have "index_of (tabs d') = index_of (tabs d)" unfolding d' Correlations_Insert_index C(1) ..
  then show thesis using that [of cs hm] C(2-5) r unfolding rest_of_def by blast
qed

text \<open>In fill mode the budget runs out before the fetch does.\<close>

lemma fill_binds:
  fixes F :: "'f fops"
  assumes "0 \<le> B" "fit_count F B 0 cs = length cs"
  shows "int (length cs) < B sdiv int (min_hit F) + 1"
proof -
  have "int (length xs) * int (min_hit F) \<le> hit_bytes (map (full_hit F) xs)" for xs :: "doc_chunk list"
  proof (induction xs)
    case (Cons x xs)
    then show ?case using min_hit_le [of F x] by (simp add: algebra_simps)
  qed simp
  from this [of cs] have "int (length cs) * int (min_hit F) \<le> B"
    using fit_count_props(2) [of F B 0 cs] assms by (cases cs) simp_all
  then have "int (length cs) \<le> B div int (min_hit F)"
    using zdiv_mono1 [of "int (length cs) * int (min_hit F)" B "int (min_hit F)"] min_hit_pos [of F] by simp
  moreover have "B sdiv int (min_hit F) = B div int (min_hit F)" using assms(1) by (simp add: signed_divide_int_def sgn_if)
  ultimately show ?thesis by simp
qed

lemma doc_page_all: "fit_count F B 0 cs = length cs \<Longrightarrow> doc_loop F B cs doc_start = doc_taken F cs (length cs) doc_start"
  using doc_loop_taken [of F B cs doc_start] by (simp add: Let_def doc_start_def)

text \<open>The page delivers a prefix of the remaining chunks and says where the next one starts.\<close>

lemma DocumentOrder_ok:
  fixes F :: "'f fops"
  assumes B: "0 \<le> B" and run: "DocumentOrder F ns sid cid source limit offset B d = (Inr r, d')"
  defines "rest \<equiv> rest_of d ns sid source offset"
  shows "sr_ByteBudgetUsed r = hit_bytes (page_hits r) \<and> sr_ByteBudgetUsed r \<le> B"
    "index_of (tabs d') = index_of (tabs d)"
    "rest = [] \<Longrightarrow> page_hits r = [] \<and> sr_NextOffset r = None"
    "rest \<noteq> [] \<Longrightarrow> int (wireSize (full_hit F (hd rest))) \<le> B \<Longrightarrow>
       page_hits r \<noteq> [] \<and> page_hits r = map (full_hit F) (take (length (page_hits r)) rest)
       \<and> sr_NextOffset r = (if length (page_hits r) < length rest then Some (offset + int (length (page_hits r))) else None)"
    "rest \<noteq> [] \<Longrightarrow> B < int (wireSize (full_hit F (hd rest))) \<Longrightarrow>
       (page_hits r = [] \<and> sr_NextOffset r = Some offset \<and> no_rune_fits F B (hd rest) 0)
       \<or> (\<exists>k. 1 \<le> k \<and> k \<le> int (length (runes (dcContent (hd rest)))) \<and> page_hits r = [prefix_hit F (hd rest) k]
            \<and> no_rune_fits F B (hd rest) k
            \<and> sr_NextOffset r = (if 1 < length rest then Some (offset + 1) else None))"
proof -
  define fl where "fl = (if fetch_limit F limit B = 0 then defaultSearchLimit else fetch_limit F limit B)"
  obtain cs hm where cs: "cs = take (nat fl) rest" and hm: "hm \<longleftrightarrow> fl < int (length rest)"
    and r: "r = doc_result offset B cs hm (doc_loop F B cs doc_start)" and fl: "0 < fl"
    and ix: "index_of (tabs d') = index_of (tabs d)"
    using DocumentOrder_run [OF run] unfolding fl_def rest_def by metis
  let ?p = "doc_loop F B cs doc_start"
  have ph: "page_hits r = dp_hits ?p" and used: "sr_ByteBudgetUsed r = dp_used ?p"
    and next_: "sr_NextOffset r = (if doc_more cs hm ?p then Some (offset + dp_consumed ?p) else None)"
    by (simp_all add: r doc_result_def page_hits_def)
  note books = doc_page_books [OF B, of F cs]
  note spec = doc_page_spec [of F B cs]
  show "sr_ByteBudgetUsed r = hit_bytes (page_hits r) \<and> sr_ByteBudgetUsed r \<le> B"
    using books unfolding ph used by simp
  show "index_of (tabs d') = index_of (tabs d)" by (rule ix)
  show "rest = [] \<Longrightarrow> page_hits r = [] \<and> sr_NextOffset r = None"
    unfolding ph next_ using fl hm cs by (simp add: doc_start_def doc_more_def)
  have hd: "rest \<noteq> [] \<Longrightarrow> cs \<noteq> [] \<and> hd cs = hd rest" using cs fl by simp
  show "page_hits r \<noteq> [] \<and> page_hits r = map (full_hit F) (take (length (page_hits r)) rest)
       \<and> sr_NextOffset r = (if length (page_hits r) < length rest then Some (offset + int (length (page_hits r))) else None)"
    if ne: "rest \<noteq> []" and fit: "int (wireSize (full_hit F (hd rest))) \<le> B"
  proof -
    have np: "\<not> dp_headTruncated ?p" "\<not> dp_headNoFit ?p" using spec fit hd [OF ne] by (auto simp: page_spec_def split: if_splits)
    then have s: "dp_hits ?p = map (full_hit F) (take (length (dp_hits ?p)) cs)" "dp_hits ?p \<noteq> []"
      "dp_omitted ?p = (if length (dp_hits ?p) < length cs then 1 else 0)"
      using spec hd [OF ne] by (auto simp: page_spec_def)
    have le: "length (dp_hits ?p) \<le> length cs" using arg_cong [OF s(1), of length] by simp
    have "take n cs = take n rest" if "n \<le> length cs" for n using that by (simp add: cs min_absorb1)
    note t = this [OF le]
    have "sr_NextOffset r = (if length (dp_hits ?p) < length cs \<or> hm then Some (offset + int (length (dp_hits ?p))) else None)"
      unfolding next_ using np s(3) books by (simp add: doc_more_def)
    moreover have "length (dp_hits ?p) < length cs \<or> hm \<longleftrightarrow> length (dp_hits ?p) < length rest"
    proof -
      have "length cs = min (length rest) (nat fl)" by (simp add: cs)
      then show ?thesis using le hm fl by linarith
    qed
    ultimately show ?thesis unfolding ph using s(1,2) t by simp
  qed
  show "(page_hits r = [] \<and> sr_NextOffset r = Some offset \<and> no_rune_fits F B (hd rest) 0)
       \<or> (\<exists>k. 1 \<le> k \<and> k \<le> int (length (runes (dcContent (hd rest)))) \<and> page_hits r = [prefix_hit F (hd rest) k]
            \<and> no_rune_fits F B (hd rest) k
            \<and> sr_NextOffset r = (if 1 < length rest then Some (offset + 1) else None))"
    if ne: "rest \<noteq> []" and over: "B < int (wireSize (full_hit F (hd rest)))"
  proof -
    have h: "hd cs = hd rest" using hd [OF ne] by blast
    have f0: "dp_headTruncated ?p \<or> dp_headNoFit ?p"
      using over hd [OF ne] by (cases cs) (auto simp: Let_def doc_start_def split: option.split)
    show ?thesis
    proof (cases "dp_headTruncated ?p")
      case True
      have "length cs = min (length rest) (nat fl)" by (simp add: cs)
      then have "length cs > 1 \<or> hm \<longleftrightarrow> 1 < length rest" using hm fl by linarith
      then have "sr_NextOffset r = (if 1 < length rest then Some (offset + int (length (dp_hits ?p))) else None)"
        unfolding next_ using True spec books by (simp add: doc_more_def page_spec_def)
      moreover obtain k where "1 \<le> k" "k \<le> int (length (runes (dcContent (hd rest))))"
        "dp_hits ?p = [prefix_hit F (hd rest) k]" "no_rune_fits F B (hd rest) k"
        using spec True unfolding page_spec_def h by (simp split: if_splits) blast
      ultimately show ?thesis unfolding ph by auto
    next
      case False
      then have "sr_NextOffset r = Some offset" unfolding next_ using f0 spec books by (simp add: doc_more_def page_spec_def)
      then show ?thesis unfolding ph using False f0 spec unfolding page_spec_def h by simp
    qed
  qed
qed

section \<open>Reading a document page by page\<close>

lemma Correlations_Insert_frame:
  "keeps (\<lambda>t. t\<lparr>correlations := []\<rparr> = i) (Correlations_Insert ns sid cid ty meta)"
  unfolding Correlations_Insert_def guard_def Let_def
  by (auto intro!: keeps_stmt keeps_fail)

lemma Correlations_Insert_document:
  "document (tabs (snd (Correlations_Insert ns sid cid ty meta d))) = document (tabs d)"
proof -
  let ?t = "tabs (snd (Correlations_Insert ns sid cid ty meta d))"
  have f: "?t\<lparr>correlations := []\<rparr> = (tabs d)\<lparr>correlations := []\<rparr>"
    using Correlations_Insert_frame [unfolded keeps_def, rule_format, OF refl] .
  have "session_in (t\<lparr>correlations := []\<rparr>) = session_in t" "source_chunks (t\<lparr>correlations := []\<rparr>) = source_chunks t" for t
    by (simp_all add: source_chunks_def session_in_def fun_eq_iff)
  then have "document (t\<lparr>correlations := []\<rparr>) = document t" for t
    by (simp add: document_def fun_eq_iff)
  then show ?thesis using f by metis
qed

lemma Correlations_Insert_faults: "faults d = [] \<Longrightarrow> faults (snd (Correlations_Insert ns sid cid ty meta d)) = []"
  by (simp add: Correlations_Insert_def guard_def fail_def stmt_run)

lemma DocumentOrder_runs:
  fixes F :: "'f fops"
  assumes "faults d = []" "ns \<noteq> []" "source \<noteq> []" "0 \<le> offset" "0 \<le> B"
  obtains r d' where "DocumentOrder F ns sid cid source limit offset B d = (Inr r, d')" "faults d' = []"
    "document (tabs d') = document (tabs d)"
proof -
  let ?inp = "\<lparr>doSessionID = sid, doSource = source, doLimit = fetch_limit F limit B, doOffset = offset\<rparr>"
  have "0 \<le> B sdiv int (min_hit F)"
    using assms(5) min_hit_pos [of F] by (simp add: signed_divide_int_def sgn_if pos_imp_zdiv_nonneg_iff)
  then have "0 \<le> fetch_limit F limit B" by (simp add: fetch_limit_def)
  then obtain cs hm where c: "ChunksInOrder ns ?inp d = (Inr (cs, hm), d)"
    using assms unfolding ChunksInOrder_def by (simp add: guard_def Let_def query_run)
  let ?p = "doc_loop F B cs doc_start"
  have "DocumentOrder F ns sid cid source limit offset B d
      = (Inr (doc_result offset B cs hm ?p), snd (Correlations_Insert ns sid cid ''search'' (doc_meta ?p) d))"
    using c by (simp add: DocumentOrder_def Let_def attempt_def ret_def)
  then show thesis using that Correlations_Insert_faults [OF assms(1)] Correlations_Insert_document by blast
qed

text \<open>A client that follows \<open>next_offset\<close>, for at most \<open>fuel\<close> pages; \<open>None\<close> when these were not enough.\<close>

fun read_pages ::
  "nat \<Rightarrow> 'f fops \<Rightarrow> string \<Rightarrow> int \<Rightarrow> string \<Rightarrow> string \<Rightarrow> int \<Rightarrow> int \<Rightarrow> int \<Rightarrow> 'f db_hit list option dbm" where
  "read_pages 0 F ns sid cid source limit B offset = ret None"
| "read_pages (Suc fuel) F ns sid cid source limit B offset =
     andthen (DocumentOrder F ns sid cid source limit offset B) (\<lambda>r.
       case sr_NextOffset r of
         None \<Rightarrow> ret (Some (page_hits r))
       | Some next_offset \<Rightarrow>
           andthen (read_pages fuel F ns sid cid source limit B next_offset)
             (\<lambda>rest. ret (map_option (\<lambda>hs. page_hits r @ hs) rest)))"

lemma read_pages_all:
  fixes F :: "'f fops"
  assumes "faults d = []" "ns \<noteq> []" "source \<noteq> []" "0 \<le> offset" "0 \<le> B"
    "\<forall>ch\<in>set (rest_of d ns sid source offset). int (wireSize (full_hit F ch)) \<le> B"
    "length (rest_of d ns sid source offset) < fuel"
  shows "\<exists>d'. read_pages fuel F ns sid cid source limit B offset d
      = (Inr (Some (map (full_hit F) (rest_of d ns sid source offset))), d')
    \<and> faults d' = [] \<and> document (tabs d') = document (tabs d)"
  using assms
proof (induction fuel arbitrary: offset d)
  case (Suc fuel)
  let ?rest = "rest_of d ns sid source offset"
  obtain r d1 where run: "DocumentOrder F ns sid cid source limit offset B d = (Inr r, d1)" "faults d1 = []"
    "document (tabs d1) = document (tabs d)"
    by (rule DocumentOrder_runs [OF Suc.prems(1-5)])
  note D = DocumentOrder_ok [OF Suc.prems(5) run(1)]
  show ?case
  proof (cases "?rest = []")
    case True
    then show ?thesis using D(3) run by (simp add: ret_def)
  next
    case False
    have "int (wireSize (full_hit F (hd ?rest))) \<le> B" using Suc.prems(6) False by simp
    note P = D(4) [OF False this]
    let ?k = "length (page_hits r)"
    show ?thesis
    proof (cases "?k < length ?rest")
      case end_: False
      then show ?thesis using P run by (simp add: ret_def)
    next
      case True
      have nx: "sr_NextOffset r = Some (offset + int ?k)" using P True by simp
      have rest1: "rest_of d1 ns sid source (offset + int ?k) = drop ?k ?rest"
        using Suc.prems(4) by (simp add: rest_of_def run(3) nat_add_distrib add.commute)
      have "length (rest_of d1 ns sid source (offset + int ?k)) < fuel"
        using Suc.prems(7) P True unfolding rest1 by (cases "page_hits r") auto
      moreover have "\<forall>ch\<in>set (rest_of d1 ns sid source (offset + int ?k)). int (wireSize (full_hit F ch)) \<le> B"
        using Suc.prems(6) unfolding rest1 by (auto dest: in_set_dropD)
      ultimately obtain d2 where d2: "read_pages fuel F ns sid cid source limit B (offset + int ?k) d1
          = (Inr (Some (map (full_hit F) (drop ?k ?rest))), d2)" "faults d2 = []" "document (tabs d2) = document (tabs d1)"
        using Suc.IH [OF run(2) Suc.prems(2,3), of "offset + int ?k"] Suc.prems(4,5) unfolding rest1 by fastforce
      have "page_hits r @ map (full_hit F) (drop ?k ?rest) = map (full_hit F) ?rest"
        using P by (metis append_take_drop_id map_append)
      then show ?thesis using run d2 nx by (simp add: ret_def)
    qed
  qed
qed simp

section \<open>Relevance bands\<close>

lemma range_fold:
  assumes "fold (range_step exact P) hs acc = r"
  shows "(r = None \<longleftrightarrow> acc = None \<and> (\<forall>h\<in>set hs. \<not> P h))
    \<and> (\<forall>mn mx. r = Some (mn, mx) \<longrightarrow> (\<forall>h\<in>set hs. P h \<longrightarrow> mn \<le> hRelevance h \<and> hRelevance h \<le> mx)
         \<and> (\<forall>a b. acc = Some (a, b) \<longrightarrow> mn \<le> a \<and> b \<le> mx))"
  using assms
proof (induction hs arbitrary: acc)
  case (Cons h hs)
  note ih = Cons.IH [OF Cons.prems [simplified]]
  show ?case
  proof (cases "P h")
    case False
    then have e: "range_step exact P h acc = acc" by (simp add: range_step_def)
    show ?thesis using ih False unfolding e by simp
  next
    case True
    then obtain a b where e: "range_step exact P h acc = Some (a, b)" "a \<le> hRelevance h" "hRelevance h \<le> b"
      "\<forall>a' b'. acc = Some (a', b') \<longrightarrow> a \<le> a' \<and> b' \<le> b"
      by (cases acc) (auto simp: range_step_def)
    show ?thesis using ih True e(2-4) unfolding e(1) by fastforce
  qed
qed simp

definition rescore :: "('f db_hit \<Rightarrow> bool) \<Rightarrow> ('f db_hit \<Rightarrow> 'f) \<Rightarrow> 'f db_hit \<Rightarrow> 'f db_hit" where
  "rescore P f h = (if P h then h\<lparr>hRelevance := f h\<rparr> else h)"

lemma normalizeGroup_exact:
  assumes "lo \<le> hi"
  obtains f where "normalizeGroup exact P lo hi pq = map (map (rescore P f)) pq"
    "\<And>h. h \<in> set (concat pq) \<Longrightarrow> P h \<Longrightarrow> lo \<le> f h \<and> f h \<le> hi"
    "\<And>h h'. h \<in> set (concat pq) \<Longrightarrow> h' \<in> set (concat pq) \<Longrightarrow> P h \<Longrightarrow> P h' \<Longrightarrow> hRelevance h \<le> hRelevance h' \<Longrightarrow> f h \<le> f h'"
proof (cases "fold (range_step exact P) (concat pq) None")
  case None
  then have "\<forall>h\<in>set (concat pq). \<not> P h" using range_fold [OF refl, of P "concat pq" None] by simp
  then have "map (map (rescore P (\<lambda>_. lo))) pq = pq" by (intro map_idI) (auto simp: rescore_def)
  then show thesis using that [of "\<lambda>_. lo"] None assms by (simp add: normalizeGroup_def)
next
  case (Some r)
  obtain mn mx where r: "r = (mn, mx)" by fastforce
  have rng: "mn \<le> hRelevance h \<and> hRelevance h \<le> mx" if "h \<in> set (concat pq)" "P h" for h
    using range_fold [OF Some [unfolded r]] that by blast
  let ?span = "mx - mn"
  define f where "f h = (if ?span = 0 then hi else lo + (hRelevance h - mn) / ?span * (hi - lo))" for h :: "rat db_hit"
  have "normalizeGroup exact P lo hi pq = map (map (rescore P f)) pq"
    unfolding normalizeGroup_def Some r by (simp add: Let_def rescore_def f_def fun_eq_iff)
  moreover have "lo \<le> f h \<and> f h \<le> hi" if h: "h \<in> set (concat pq)" "P h" for h
  proof (cases "?span = 0")
    case True
    then show ?thesis using assms by (simp add: f_def)
  next
    case False
    then have sp: "0 < ?span" using rng [OF h] by simp
    let ?x = "(hRelevance h - mn) / ?span"
    have x: "0 \<le> ?x" "?x \<le> 1" using rng [OF h] sp by (simp_all add: divide_le_eq_1_pos)
    have "0 \<le> ?x * (hi - lo)" using mult_nonneg_nonneg [OF x(1), of "hi - lo"] assms by simp
    moreover have "?x * (hi - lo) \<le> hi - lo" using x assms mult_right_mono [of ?x 1 "hi - lo"] by simp
    ultimately show ?thesis using False by (simp add: f_def)
  qed
  moreover have "f h \<le> f h'" if "h \<in> set (concat pq)" "P h" "hRelevance h \<le> hRelevance h'" for h h'
  proof (cases "?span = 0")
    case False
    then have sp: "0 < ?span" using rng that by fastforce
    have "(hRelevance h - mn) / ?span \<le> (hRelevance h' - mn) / ?span" using that(3) sp by (simp add: divide_right_mono)
    then have "(hRelevance h - mn) / ?span * (hi - lo) \<le> (hRelevance h' - mn) / ?span * (hi - lo)"
      using assms by (intro mult_right_mono) simp_all
    then show ?thesis using False by (simp add: f_def)
  qed (simp add: f_def)
  ultimately show thesis using that [of f] by blast
qed

text \<open>Everything of a hit but its relevance.\<close>

definition strip :: "rat db_hit \<Rightarrow> rat db_hit" where "strip h = h\<lparr>hRelevance := 0\<rparr>"

lemma strip_rescore [simp]: "strip (rescore P f h) = strip h"
  by (simp add: strip_def rescore_def)

definition band :: "rat db_hit \<Rightarrow> bool" where
  "band h \<longleftrightarrow>
     (if in_group matchLayerPrimary True h then 85/100 \<le> hRelevance h \<and> hRelevance h \<le> 1
      else if in_group matchLayerPrimary False h then 6/10 \<le> hRelevance h \<and> hRelevance h \<le> 8/10
      else if in_group matchLayerTrigram False h then 1/10 \<le> hRelevance h \<and> hRelevance h \<le> 5/10
      else True)"

lemma in_group_rescore [simp]: "in_group l m (rescore P f h) = in_group l m h"
  by (simp add: in_group_def rescore_def)

lemma groups_disjoint:
  "in_group matchLayerPrimary True h \<Longrightarrow> \<not> in_group matchLayerPrimary False h \<and> \<not> in_group matchLayerTrigram m h"
  "in_group matchLayerPrimary m h \<Longrightarrow> \<not> in_group matchLayerTrigram m' h"
  by (auto simp: in_group_def matchLayerPrimary_def matchLayerTrigram_def)

lemma normalizeRelevance_exact:
  "map (map strip) (normalizeRelevance exact pq) = map (map strip) pq"
  "h \<in> set (concat (normalizeRelevance exact pq)) \<Longrightarrow> band h"
proof -
  let ?P = "in_group matchLayerPrimary True" and ?Q = "in_group matchLayerPrimary False" and ?R = "in_group matchLayerTrigram False"
  have bds: "(85/100 :: rat) \<le> 1" "(6/10 :: rat) \<le> 8/10" "(1/10 :: rat) \<le> 5/10" by simp_all
  obtain f where f: "normalizeGroup exact ?P (85/100) 1 pq = map (map (rescore ?P f)) pq"
    "\<And>h. h \<in> set (concat pq) \<Longrightarrow> ?P h \<Longrightarrow> 85/100 \<le> f h \<and> f h \<le> 1"
    using normalizeGroup_exact [of "85/100" 1 ?P pq, OF bds(1)] by metis
  let ?pq1 = "map (map (rescore ?P f)) pq"
  obtain g where g: "normalizeGroup exact ?Q (6/10) (8/10) ?pq1 = map (map (rescore ?Q g)) ?pq1"
    "\<And>h. h \<in> set (concat ?pq1) \<Longrightarrow> ?Q h \<Longrightarrow> 6/10 \<le> g h \<and> g h \<le> 8/10"
    using normalizeGroup_exact [of "6/10" "8/10" ?Q ?pq1, OF bds(2)] by metis
  let ?pq2 = "map (map (rescore ?Q g)) ?pq1"
  obtain k where k: "normalizeGroup exact ?R (1/10) (5/10) ?pq2 = map (map (rescore ?R k)) ?pq2"
    "\<And>h. h \<in> set (concat ?pq2) \<Longrightarrow> ?R h \<Longrightarrow> 1/10 \<le> k h \<and> k h \<le> 5/10"
    using normalizeGroup_exact [of "1/10" "5/10" ?R ?pq2, OF bds(3)] by metis
  have n: "normalizeRelevance exact pq = map (map (rescore ?R k)) ?pq2"
    unfolding normalizeRelevance_def exact_simps using f(1) g(1) k(1) by simp
  show "map (map strip) (normalizeRelevance exact pq) = map (map strip) pq" unfolding n by (simp add: comp_def)
  assume "h \<in> set (concat (normalizeRelevance exact pq))"
  then obtain x where x: "x \<in> set (concat pq)" "h = rescore ?R k (rescore ?Q g (rescore ?P f x))" unfolding n by auto
  let ?y = "rescore ?P f x" let ?z = "rescore ?Q g ?y"
  have y: "?y \<in> set (concat ?pq1)" and z: "?z \<in> set (concat ?pq2)" using x(1) by auto
  show "band h"
  proof (cases "?P x")
    case True
    then show ?thesis using f(2) [OF x(1)] groups_disjoint(1) [OF True, of False] unfolding x(2) band_def
      by (simp add: rescore_def) (simp add: in_group_def)
  next
    case nP: False
    show ?thesis
    proof (cases "?Q x")
      case True
      then have "?Q ?y" by simp
      then show ?thesis using g(2) [OF y] groups_disjoint(2) [OF True, of False] nP unfolding x(2) band_def
        by (simp add: rescore_def) (simp add: in_group_def)
    next
      case nQ: False
      then show ?thesis using k(2) [OF z] nP unfolding x(2) band_def
        by (simp add: rescore_def) (simp add: in_group_def matchLayerPrimary_def matchLayerTrigram_def)
    qed
  qed
qed

section \<open>The ranked search, whole\<close>

text \<open>The hits of one query, each from a chunk of its own of the session and the named source.\<close>

definition found :: "'f text_search \<Rightarrow> tables \<Rightarrow> string \<Rightarrow> db_search_input \<Rightarrow> string \<Rightarrow> 'f db_hit list \<Rightarrow> bool" where
  "found T t ns inp q hits \<longleftrightarrow>
     (\<exists>cls. list_all2 (hit_from T q) cls hits \<and> distinct (map (ch_id \<circ> fst) cls)
        \<and> set cls \<subseteq> set (scoped_chunks t ns (inSessionID inp) (inSource inp)))
     \<and> int (length hits) \<le> (if inLimit inp = 0 then defaultSearchLimit else inLimit inp)"

lemma fanOut_ok:
  assumes "tables_ok (tabs d)" "fanOut F U T ns inp qs d = (Inr pq, d')"
  shows "tabs d' = tabs d \<and> list_all2 (found T (tabs d) ns inp) qs pq"
  using assms
proof (induction qs arbitrary: d pq)
  case Nil
  then show ?case by (simp add: ret_def)
next
  case (Cons q qs)
  let ?inp = "\<lparr>inSessionID = inSessionID inp, inQuery = q, inSource = inSource inp, inLimit = inLimit inp\<rparr>"
  obtain hits d1 where s: "Sources_Search F U T ns ?inp d = (Inr hits, d1)"
    and r: "andthen (fanOut F U T ns inp qs) (\<lambda>rest. ret (hits # rest)) d1 = (Inr pq, d')"
    using Cons.prems(2) unfolding fanOut.simps by (elim andthen_cases) auto
  obtain rest d2 where f: "fanOut F U T ns inp qs d1 = (Inr rest, d2)" and pq: "pq = hits # rest" "d2 = d'"
    using r by (elim andthen_cases) (auto simp: ret_def)
  have c: "found T (tabs d) ns inp q hits" "tabs d1 = tabs d"
    using Sources_Search_ok [OF Cons.prems(1) s, unfolded db_search_input.select_convs] unfolding found_def by blast+
  show ?case unfolding pq
    using Cons.IH [OF Cons.prems(1) [folded c(2)] f [unfolded pq(2)], unfolded c(2)] c(1) by simp
qed

lemma fanOut_keep: "keeps P (fanOut F U T ns inp qs)"
  by (induction qs) (auto intro!: keeps_intros)

lemma Search_keeps [keeps_intros]: "keeps (db_ok lx) (Search F U T ns sid cid inp qs budgetBytes v)"
  unfolding Search_def Let_def by (intro keeps_andthen fanOut_keep keeps_ret keeps_attempt keeps_intros)

lemma strip_eq:
  assumes "strip h = strip h'"
  shows "wireSize h = wireSize h'" "hit_from T q cl h = hit_from T q cl h'" "in_group l m h = in_group l m h'"
proof -
  have e: "hTitle h = hTitle h'" "hSnippet h = hSnippet h'" "hSource h = hSource h'" "hMatchLayer h = hMatchLayer h'"
    "hTruncated h = hTruncated h'" "hMatchesAll h = hMatchesAll h'"
    using assms by (cases h; cases h'; simp add: strip_def)+
  show "wireSize h = wireSize h'" by (simp add: wireSize_def wire_hit_def e)
  show "hit_from T q cl h = hit_from T q cl h'" by (simp add: hit_from_def Let_def e)
  show "in_group l m h = in_group l m h'" by (simp add: in_group_def e)
qed

lemma stripped_member:
  assumes "map strip xs = map strip ys" "x \<in> set xs"
  obtains y where "y \<in> set ys" "strip x = strip y"
proof -
  have "strip x \<in> strip ` set xs" using assms(2) by simp
  also have "strip ` set xs = strip ` set ys" using arg_cong [OF assms(1), of set] by simp
  finally show thesis using that by auto
qed

lemma list_all2_right: "list_all2 P xs ys \<Longrightarrow> y \<in> set ys \<Longrightarrow> \<exists>x\<in>set xs. P x y"
  by (induction rule: list_all2_induct) auto

lemma hit_from_group:
  "hit_from T q cl h \<Longrightarrow> in_group matchLayerPrimary True h \<or> in_group matchLayerPrimary False h \<or> in_group matchLayerTrigram False h"
  by (auto simp: hit_from_def Let_def in_group_def matchLayerPrimary_def matchLayerTrigram_def)

lemma normalized_found:
  assumes f: "list_all2 (found T t ns inp) qs pq" and i: "i < length qs"
  defines "hits \<equiv> normalizeRelevance exact pq ! i"
  shows "length (normalizeRelevance exact pq) = length qs" "map strip hits = map strip (pq ! i)"
    "found T t ns inp (qs ! i) (pq ! i)"
    "h \<in> set hits \<Longrightarrow> band h \<and> 1/10 \<le> hRelevance h \<and> hRelevance h \<le> 1"
proof -
  note n = normalizeRelevance_exact [where pq = pq]
  have l: "length pq = length qs" using f by (simp add: list_all2_lengthD)
  show l': "length (normalizeRelevance exact pq) = length qs"
    using arg_cong [OF n(1), of length] l by simp
  show e: "map strip hits = map strip (pq ! i)"
    using arg_cong [OF n(1), of "\<lambda>x. x ! i"] i l l' by (simp add: hits_def)
  show fi: "found T t ns inp (qs ! i) (pq ! i)" using f i by (simp add: list_all2_conv_all_nth)
  assume h: "h \<in> set hits"
  then have b: "band h" using n(2) i l' by (force simp: hits_def)
  obtain h0 where h0: "h0 \<in> set (pq ! i)" "strip h = strip h0" by (rule stripped_member [OF e h])
  obtain cl where "hit_from T (qs ! i) cl h0" using fi list_all2_right [OF _ h0(1)] unfolding found_def by blast
  then have "in_group matchLayerPrimary True h \<or> in_group matchLayerPrimary False h \<or> in_group matchLayerTrigram False h"
    unfolding strip_eq(3) [OF h0(2)] by (rule hit_from_group)
  then have "1/10 \<le> hRelevance h \<and> hRelevance h \<le> 1"
    using b groups_disjoint unfolding band_def by (elim disjE) (simp_all split: if_splits)
  then show "band h \<and> 1/10 \<le> hRelevance h \<and> hRelevance h \<le> 1" using b by simp
qed

lemma Search_run:
  assumes "Search F U T ns sid cid inp qs B v d = (Inr r, d')"
  obtains pq d1 where "fanOut F U T ns inp qs d = (Inr pq, d1)"
    "r = search_assemble qs B v (NewAllocator F (s_lower U) v
       \<lparr>queries = qs, candidates = search_candidates (normalizeRelevance F pq), budget = B\<rparr>)"
    "index_of (tabs d') = index_of (tabs d1)"
proof -
  obtain pq d1 where f: "fanOut F U T ns inp qs d = (Inr pq, d1)"
    and r: "r = search_assemble qs B v (NewAllocator F (s_lower U) v
       \<lparr>queries = qs, candidates = search_candidates (normalizeRelevance F pq), budget = B\<rparr>)"
    and d': "index_of (tabs d') = index_of (tabs d1)"
    using assms unfolding Search_def
    by (auto simp: Let_def ret_def attempt_def Correlations_Insert_index elim!: andthen_cases)
  from f r d' show thesis by (rule that)
qed

text \<open>One query's block of the answer: hits among those found, the rest counted as omitted.\<close>

definition served_ok :: "rat text_search \<Rightarrow> tables \<Rightarrow> string \<Rightarrow> db_search_input \<Rightarrow> string \<Rightarrow> rat query_result \<Rightarrow> bool" where
  "served_ok T t ns inp q qr \<longleftrightarrow>
     qr_Query qr = q
     \<and> (\<exists>hits. found T t ns inp q hits \<and> mset (map strip (qr_Hits qr)) \<subseteq># mset (map strip hits)
          \<and> length (qr_Hits qr) + qr_BudgetOmitted qr = length hits)
     \<and> (\<forall>h\<in>set (qr_Hits qr). band h \<and> 1/10 \<le> hRelevance h \<and> hRelevance h \<le> 1)"

lemma assembled_nth:
  "i < length qs \<Longrightarrow> sr_Queries (search_assemble qs B v out) ! i
     = \<lparr>qr_Query = qs ! i, qr_Hits = map hit (included out ! i), qr_BudgetOmitted = omitted out ! i\<rparr>"
  by (simp add: search_assemble_def nth_enumerate_eq)

lemma assembled_length: "length (sr_Queries (search_assemble qs B v out)) = length qs"
  by (simp add: search_assemble_def)

lemma hit_bytes_total:
  "\<forall>cs\<in>set css. \<forall>c\<in>set cs. csize c = wireSize (hit c) \<Longrightarrow> hit_bytes (concat (map (map hit) css)) = int (total_size css)"
proof (induction css)
  case (Cons cs css)
  have "\<forall>c\<in>set cs. csize c = wireSize (hit c) \<Longrightarrow> hit_bytes (map hit cs) = int (sizes_of cs)"
    by (induction cs) simp_all
  then show ?case using Cons by (simp add: total_size_def)
qed (simp add: total_size_def)

lemma search_candidates_nth:
  "i < length pq \<Longrightarrow> search_candidates pq ! i = map (\<lambda>h. \<lparr>hit = h, csize = wireSize h, relevance = hRelevance h\<rparr>) (pq ! i)"
  by (simp add: search_candidates_def)

theorem Search_ok:
  assumes ok: "tables_ok (tabs d)" and B: "0 < B"
    and run: "Search exact U T ns sid cid inp qs B v d = (Inr r, d')"
  shows "list_all2 (served_ok T (tabs d) ns inp) qs (sr_Queries r)"
    "sr_ByteBudgetUsed r = hit_bytes (page_hits r) \<and> sr_ByteBudgetUsed r \<le> B"
    "sr_BudgetExceeded r \<longleftrightarrow> (\<exists>q\<in>set (sr_Queries r). 0 < qr_BudgetOmitted q)"
    "index_of (tabs d') = index_of (tabs d)"
proof -
  obtain pq d1 where f: "fanOut exact U T ns inp qs d = (Inr pq, d1)"
    and r: "r = search_assemble qs B v (NewAllocator exact (s_lower U) v
       \<lparr>queries = qs, candidates = search_candidates (normalizeRelevance exact pq), budget = B\<rparr>)"
    and ix: "index_of (tabs d') = index_of (tabs d1)"
    by (rule Search_run [OF run])
  note fo = fanOut_ok [OF ok f]
  show "index_of (tabs d') = index_of (tabs d)" using ix fo by simp
  let ?npq = "normalizeRelevance exact pq"
  define ai where "ai = \<lparr>queries = qs, candidates = search_candidates ?npq, budget = B\<rparr>"
  define out where "out = NewAllocator exact (s_lower U) v ai"
  have f2: "list_all2 (found T (tabs d) ns inp) qs pq" using fo by simp
  note nf = normalized_found [OF f2]
  have l: "length ?npq = length qs"
    using arg_cong [OF normalizeRelevance_exact(1) [of pq], of length] f2 by (simp add: list_all2_lengthD)
  have "service_input ai"
    using B nf(4) l unfolding service_input_def ai_def search_candidates_def
    by (auto simp: in_set_conv_nth) force
  then have a: "alloc_ok ai out" unfolding out_def by (rule variant.alloc_ok)
  then have acc: "accounted (search_candidates ?npq) out" by (simp add: alloc_ok_def ai_def)
  have lc: "length (search_candidates ?npq) = length qs" using l by (simp add: search_candidates_def)
  have li: "length (included out) = length qs" "length (omitted out) = length qs"
    using acc lc by (simp_all add: accounted_def)
  have r': "r = search_assemble qs B v out" unfolding r out_def ai_def ..
  show "list_all2 (served_ok T (tabs d) ns inp) qs (sr_Queries r)"
    unfolding list_all2_conv_all_nth r' assembled_length
  proof (intro conjI allI impI refl)
    fix i assume i: "i < length qs"
    let ?cand = "\<lambda>h. \<lparr>hit = h, csize = wireSize h, relevance = hRelevance h\<rparr>"
    have c: "search_candidates ?npq ! i = map ?cand (?npq ! i)" using i l by (simp add: search_candidates_nth)
    have ic: "mset (included out ! i) \<subseteq># mset (map ?cand (?npq ! i))"
      "length (included out ! i) + omitted out ! i = length (?npq ! i)"
      using acc i lc unfolding accounted_def c [symmetric] by (auto simp: c)
    from image_mset_subseteq_mono [OF ic(1), of hit]
    have h: "mset (map hit (included out ! i)) \<subseteq># mset (?npq ! i)" by (simp add: comp_def image_mset.compositionality)
    from image_mset_subseteq_mono [OF this, of strip]
    have hs: "mset (map strip (map hit (included out ! i))) \<subseteq># mset (map strip (pq ! i))"
      unfolding nf(2) [OF i, symmetric] by (simp only: mset_map)
    have len: "length (?npq ! i) = length (pq ! i)" using arg_cong [OF nf(2) [OF i], of length] by simp
    have "set (map hit (included out ! i)) \<subseteq> set (?npq ! i)" using set_mset_mono [OF h] by simp
    then have b: "\<forall>h\<in>set (map hit (included out ! i)). band h \<and> 1/10 \<le> hRelevance h \<and> hRelevance h \<le> 1"
      using nf(4) [OF i] by blast
    show "served_ok T (tabs d) ns inp (qs ! i) (sr_Queries (search_assemble qs B v out) ! i)"
      unfolding served_ok_def assembled_nth [OF i] query_result.select_convs
      using nf(3) [OF i] hs b ic(2) len by auto
  qed
  have ms: "\<forall>cs\<in>set (included out). \<forall>c\<in>set cs. csize c = wireSize (hit c)"
  proof (intro ballI)
    fix cs c assume "cs \<in> set (included out)" "c \<in> set cs"
    then obtain i where i: "i < length qs" "c \<in> set (included out ! i)" using li(1) by (auto simp: in_set_conv_nth)
    have "mset (included out ! i) \<subseteq># mset (search_candidates ?npq ! i)" using acc lc i(1) by (simp add: accounted_def)
    from set_mset_mono [OF this] have "c \<in># mset (search_candidates ?npq ! i)" using i(2) by auto
    then show "csize c = wireSize (hit c)" using i l by (auto simp: search_candidates_nth)
  qed
  have "page_hits r = concat (map (map hit) (included out))"
    unfolding page_hits_def r' search_assemble_def using li(1)
    by (auto simp: enumerate_eq_zip map_nth intro!: arg_cong [where f = concat] nth_equalityI)
  then show "sr_ByteBudgetUsed r = hit_bytes (page_hits r) \<and> sr_ByteBudgetUsed r \<le> B"
    using a hit_bytes_total [OF ms] by (simp add: r' search_assemble_def alloc_ok_def ai_def)
  have "map qr_BudgetOmitted (sr_Queries r) = omitted out"
    unfolding r' search_assemble_def using li(2) by (auto simp: enumerate_eq_zip intro!: nth_equalityI)
  from arg_cong [OF this, of set] have "set (omitted out) = qr_BudgetOmitted ` set (sr_Queries r)" by simp
  then show "sr_BudgetExceeded r \<longleftrightarrow> (\<exists>q\<in>set (sr_Queries r). 0 < qr_BudgetOmitted q)"
    using a by (auto simp: r' search_assemble_def alloc_ok_def)
qed

text \<open>Without storage faults a search with valid arguments succeeds.\<close>

lemma class_lists_run: "faults d = [] \<Longrightarrow> \<exists>cs. class_lists F T ns sid source q limit codes fused d = (Inr cs, d)"
  by (induction codes arbitrary: fused) (simp_all add: ret_def classCandidates_def query_run)

lemma Sources_Search_runs:
  assumes "faults d = []" "ns \<noteq> []" "inQuery inp \<noteq> []" "0 \<le> inLimit inp"
  shows "\<exists>hits. Sources_Search F U T ns inp d = (Inr hits, d)"
proof -
  let ?limit = "if inLimit inp = 0 then defaultSearchLimit else inLimit inp"
  obtain cs where c: "class_lists F T ns (inSessionID inp) (inSource inp) (inQuery inp) ?limit bm25Classes [] d = (Inr cs, d)"
    using class_lists_run [OF assms(1)] by blast
  have "\<exists>hs. trigramCandidates F U T ns sid source q k ids d = (Inr hs, d)" for sid source q k ids
    using assms(1) by (simp add: trigramCandidates_def Let_def ret_def query_run)
  then obtain hs where "trigramCandidates F U T ns (inSessionID inp) (inSource inp) (inQuery inp)
      (?limit - int (length (map (primary_hit F U (inQuery inp)) (fuse F ?limit cs)))) (map bc_id (fuse F ?limit cs)) d = (Inr hs, d)" by blast
  then have "\<exists>hits. searchOne F U T ns (inSessionID inp) (inSource inp) (inQuery inp) ?limit d = (Inr hits, d)"
    unfolding searchOne_def andthen_Inr [where m = "class_lists F T ns (inSessionID inp) (inSource inp) (inQuery inp) ?limit bm25Classes []", OF c] Let_def by (simp add: ret_def)
  then show ?thesis using assms(2-4) unfolding Sources_Search_def Let_def by (simp add: guard_def)
qed

lemma fanOut_runs:
  assumes "faults d = []" "ns \<noteq> []" "\<forall>q\<in>set qs. q \<noteq> []" "0 \<le> inLimit inp"
  shows "\<exists>pq. fanOut F U T ns inp qs d = (Inr pq, d)"
  using assms(3)
proof (induction qs)
  case (Cons q qs)
  obtain pq where pq: "fanOut F U T ns inp qs d = (Inr pq, d)" using Cons by auto
  obtain hits where "Sources_Search F U T ns \<lparr>inSessionID = inSessionID inp, inQuery = q, inSource = inSource inp, inLimit = inLimit inp\<rparr> d = (Inr hits, d)"
    using Sources_Search_runs [OF assms(1,2), of "\<lparr>inSessionID = inSessionID inp, inQuery = q, inSource = inSource inp, inLimit = inLimit inp\<rparr>" F U T]
      Cons.prems assms(4) by auto
  then show ?case using pq by (simp add: ret_def)
qed (simp add: ret_def)

lemma Search_runs:
  assumes "faults d = []" "ns \<noteq> []" "\<forall>q\<in>set qs. q \<noteq> []" "0 \<le> inLimit inp"
  shows "\<exists>r d'. Search F U T ns sid cid inp qs B v d = (Inr r, d')"
proof -
  obtain pq where pq: "fanOut F U T ns inp qs d = (Inr pq, d)" using fanOut_runs [OF assms] by blast
  show ?thesis unfolding Search_def andthen_Inr [where m = "fanOut F U T ns inp qs", OF pq] Let_def by (simp add: attempt_def ret_def andthen_def)
qed

lemma ChunksInOrder_keeps: "keeps P (ChunksInOrder ns inp)"
  unfolding ChunksInOrder_def Let_def by (intro keeps_intros)

lemma DocumentOrder_keeps [keeps_intros]: "keeps (db_ok lx) (DocumentOrder F ns sid cid source limit offset B)"
  unfolding DocumentOrder_def Let_def case_prod_unfold
  by (intro keeps_andthen ChunksInOrder_keeps keeps_ret keeps_attempt keeps_intros)

section \<open>What was ingested is what is read\<close>

lemma ingest_steps_sessions:
  "keeps (\<lambda>t. sessions t = S) (Upsert ns sid source)" "keeps (\<lambda>t. sessions t = S) (DecrementForSource lx src)"
  "keeps (\<lambda>t. sessions t = S) (DeleteForSource src)" "keeps (\<lambda>t. sessions t = S) (Chunks_Insert src cs)"
  "keeps (\<lambda>t. sessions t = S) (IncrementForSource lx src)" "keeps (\<lambda>t. sessions t = S) (PruneZeros sid)"
  "keeps (\<lambda>t. sessions t = S) (TopByIDF sid k)" "keeps (\<lambda>t. sessions t = S) (Correlations_Insert ns sid cid ty meta)"
  unfolding Upsert_def DecrementForSource_def DeleteForSource_def Chunks_Insert_def IncrementForSource_def PruneZeros_def
    TopByIDF_def Correlations_Insert_def Let_def
  by (auto intro!: keeps_intros keeps_stmt split: option.split)

lemma ingest_sessions: "keeps (\<lambda>t. sessions t = S) (ingest_chunks lx ns sid cid source cs fmt)"
  unfolding ingest_chunks_def ingest_tx_def ingest_captureCorrelation_def Let_def case_prod_unfold
  by (intro keeps_andthen keeps_ret keeps_attempt keeps_WithTx ingest_steps_sessions)

text \<open>Without storage faults an ingest into an existing session succeeds.\<close>

lemma ingest_runs:
  assumes "faults d = []" "ns \<noteq> []" "session_in (tabs d) ns sid"
  shows "\<exists>r d'. ingest_chunks lx ns sid cid source cs fmt d = (Inr r, d') \<and> faults d' = []"
proof -
  let ?cs = "if length cs > maxChunksPerSource then take maxChunksPerSource cs else cs"
  have up: "\<exists>src c d1. Upsert ns sid source d = (Inr (src, c), d1) \<and> faults d1 = [] \<and> src \<in> so_id ` set (sources (tabs d1))"
  proof (cases "find (\<lambda>s. so_session s = sid \<and> so_label s = source) (sources (tabs d))")
    case None
    then show ?thesis using assms by (auto simp: Upsert_def guard_def stmt_run Let_def)
  next
    case (Some s)
    let ?f = "\<lambda>r. if so_session r = sid \<and> so_label r = source then r\<lparr>so_indexed := db_now d\<rparr> else r"
    have "so_id s \<in> so_id ` set (sources (tabs d))" using find_SomeD [OF Some] by blast
    then have "so_id s \<in> so_id ` set (map ?f (sources (tabs d)))"
      using same_keys(2) [of so_id ?f "sources (tabs d)"] by simp
    then show ?thesis using assms Some by (simp add: Upsert_def guard_def stmt_run Let_def) blast
  qed
  then obtain src c d1 where u: "Upsert ns sid source d = (Inr (src, c), d1)" "faults d1 = []" "src \<in> so_id ` set (sources (tabs d1))" by blast
  obtain d2 where d2: "DecrementForSource lx src d1 = (Inr (), d2)" "faults d2 = []" "sources (tabs d2) = sources (tabs d1)"
    using u(2) by (simp add: DecrementForSource_def stmt_run Let_def)
  obtain d3 where d3: "DeleteForSource src d2 = (Inr (), d3)" "faults d3 = []" "sources (tabs d3) = sources (tabs d2)"
    using d2(2) by (simp add: DeleteForSource_def stmt_run Let_def)
  have "\<exists>s\<in>set (sources (tabs d3)). so_id s = src" using u(3) d2(3) d3(3) by auto
  then have "\<exists>d4. Chunks_Insert src xs d3 = (Inr (), d4) \<and> faults d4 = []" for xs
    using d3(2) by (cases "xs = []") (simp_all add: Chunks_Insert_def stmt_run Let_def ret_def)
  then obtain d4 where d4: "Chunks_Insert src ?cs d3 = (Inr (), d4)" "faults d4 = []" by blast
  obtain d5 where d5: "IncrementForSource lx src d4 = (Inr (), d5)" "faults d5 = []"
    using d4(2) by (simp add: IncrementForSource_def stmt_run Let_def)
  obtain d6 where d6: "PruneZeros sid d5 = (Inr (), d6)" "faults d6 = []"
    using d5(2) by (simp add: PruneZeros_def stmt_run Let_def)
  obtain ws where "TopByIDF sid distinctiveTermsCap d6 = (Inr ws, d6)"
    using d6(2) by (simp add: TopByIDF_def query_run)
  then have tx: "ingest_tx lx ns sid source ?cs d = (Inr (c, ws), d6)"
    using u(1) d2(1) d3(1) d4(1) d5(1) d6(1) by (simp add: ingest_tx_def ret_def)
  have w: "WithTx (ingest_tx lx ns sid source ?cs) d = (Inr (c, ws), d6)"
    using tx d6(2) assms(1) by (simp add: WithTx_def begin_tx_def query_run)
  show ?thesis unfolding ingest_chunks_def Let_def andthen_Inr [where m = "WithTx (ingest_tx lx ns sid source ?cs)", OF w]
    using Correlations_Insert_faults [OF d6(2)] by (simp add: ingest_captureCorrelation_def attempt_def ret_def andthen_def)
qed

lemma ingested_document:
  assumes "lexer_distinct lx" "db_ok lx (tabs d)" "ingest_chunks lx ns sid cid source cs fmt d = (Inr r, d')"
  shows "document (tabs d') ns sid source = map (doc_of source) (indexed cs)"
proof -
  have "sessions (tabs d') = sessions (tabs d)" using keepsD [OF ingest_sessions assms(3)] by blast
  then have "session_in (tabs d') ns sid" using ingest_chunks_ok(1) [OF assms] by (simp add: session_in_def)
  then show ?thesis using ingest_chunks_ok(2) [OF assms, of sid source] by (simp add: document_def)
qed

lemma ingest_then_read:
  fixes F :: "'f fops"
  assumes "lexer_distinct lx" "db_ok lx (tabs d)" "ingest_chunks lx ns sid cid source cs fmt d = (Inr r, d')"
    "faults d' = []" "ns \<noteq> []" "source \<noteq> []" "0 \<le> B"
    "\<forall>c\<in>set (indexed cs). int (wireSize (full_hit F (doc_of source c))) \<le> B" "length (indexed cs) < fuel"
  shows "fst (read_pages fuel F ns sid cid' source limit B 0 d') = Inr (Some (map (full_hit F \<circ> doc_of source) (indexed cs)))"
proof -
  have e: "rest_of d' ns sid source 0 = map (doc_of source) (indexed cs)"
    using ingested_document [OF assms(1-3)] by (simp add: rest_of_def)
  have f: "\<forall>ch\<in>set (rest_of d' ns sid source 0). int (wireSize (full_hit F ch)) \<le> B"
    unfolding e set_map using assms(8) by blast
  have l: "length (rest_of d' ns sid source 0) < fuel" unfolding e using assms(9) by simp
  show ?thesis using read_pages_all [OF assms(4-6) order.refl assms(7) f l, of cid' limit] unfolding e by auto
qed

end
