(* ===== verification/System.thy ===== *)
theory System
  imports Client_Service Feedback_Service Snapshot_Service Search_Service
begin

text \<open>
  The server as a state machine: the store, the session cache and the idempotency store,
  and one step per request of the API, per scan of the expiry scanner and per move of the
  environment (clocks and storage faults). Invariants are proved for every reachable state.
\<close>

section \<open>Steps\<close>

text \<open>Everything outside the program: SHA-256, the tokenizer and ranking functions of the
  database, floating point, Unicode tables, the UUID package, the time format, the chunkers,
  and the set of tokens that the random source may produce or a client may present.\<close>

record 'f env =
  e_sha :: "string \<Rightarrow> string"
  e_lexer :: lexer
  e_float :: "'f fops"
  e_unicode :: unicode
  e_text :: "'f text_search"
  e_uuid :: uuid_pkg
  e_stamp :: "int \<Rightarrow> string"
  e_tokens :: "string set"

definition env_ok :: "'f env \<Rightarrow> bool" where
  "env_ok E \<longleftrightarrow> collision_free (e_sha E) (e_tokens E) \<and> lexer_distinct (e_lexer E)"

inductive step :: "'f env \<Rightarrow> ('c, 'i) svc \<Rightarrow> ('c, 'i) svc \<Rightarrow> bool" for E :: "'f env" where
  environment: "tabs d = tabs (sv_db s) \<Longrightarrow> step E s (s\<lparr>sv_db := d\<rparr>)"
| create: "Session_Create (e_sha E) rnd req key s = (r1, s') \<Longrightarrow>
    (\<forall>raw. NewRandomToken rnd = Some raw \<longrightarrow> raw \<in> e_tokens E) \<Longrightarrow> step E s s'"
| lookup: "Session_Lookup (e_sha E) ns tok s = (r2, s') \<Longrightarrow> tok \<in> e_tokens E \<Longrightarrow> step E s s'"
| touch: "Session_Touch (e_sha E) ns tok ts s = (r3, s') \<Longrightarrow> step E s s'"
| delete_session: "Session_Delete (e_sha E) ns tok s = (r4, s') \<Longrightarrow> tok \<in> e_tokens E \<Longrightarrow> step E s s'"
| delete_sessions: "Session_DeleteAll f s = (r5, s') \<Longrightarrow> step E s s'"
| list_sessions: "Session_List f s = (r6, s') \<Longrightarrow> step E s s'"
| scan: "scanOnce stop s = (n, s') \<Longrightarrow> step E s s'"
| ingest: "on_db (ingest_chunks (e_lexer E) ns sid cid source cs fmt) s = (r7, s') \<Longrightarrow> step E s s'"
| search: "on_db (Search (e_float E) (e_unicode E) (e_text E) ns sid cid inp qs b v) s = (r8, s') \<Longrightarrow> step E s s'"
| read_document: "on_db (DocumentOrder (e_float E) ns sid cid source limit offset b) s = (r9, s') \<Longrightarrow> step E s s'"
| write_events: "on_db (Events_Write (e_sha E) ns sid evs) s = (r10, s') \<Longrightarrow> step E s s'"
| snapshot: "on_db (Build (e_stamp E) ns sid cid b) s = (r11, s') \<Longrightarrow> step E s s'"
| feedback: "Receive (e_uuid E) ns sid cid outcome ttl (sv_db s) = (r12, d) \<Longrightarrow> step E s (s\<lparr>sv_db := d\<rparr>)"
| register_client: "on_db (Register ns name) s = (r13, s') \<Longrightarrow> step E s s'"
| credential: "Register_Credential (e_sha E) rnd ns name (sv_db s) = (r14, d) \<Longrightarrow> step E s (s\<lparr>sv_db := d\<rparr>)"
| rotate: "RotateToken (e_sha E) rnd ns name (sv_db s) = (r14, d) \<Longrightarrow> step E s (s\<lparr>sv_db := d\<rparr>)"
| remove_client: "delete_client ns name s = (r15, s') \<Longrightarrow> step E s s'"

inductive reachable :: "'f env \<Rightarrow> ('c, 'i) svc \<Rightarrow> ('c, 'i) svc \<Rightarrow> bool" for E :: "'f env" and s0 where
  start: "reachable E s0 s0"
| more: "reachable E s0 s \<Longrightarrow> step E s s' \<Longrightarrow> reachable E s0 s'"

text \<open>The server at its first start: empty tables, seeded default clients, new caches.\<close>

definition empty_tables :: tables where
  "empty_tables = \<lparr>clients = [], sessions = [], session_labels = [], sources = [], chunks = [], vocabulary = [],
     session_events = [], correlations = [], next_session = 1, next_source = 1, next_chunk = 1, next_event = 1\<rparr>"

definition boot :: "int \<Rightarrow> string list \<Rightarrow> 'c sess_cache \<Rightarrow> 'i idempotencyStore option \<Rightarrow> ('c, 'i) svc" where
  "boot now nss cache idem =
     \<lparr>sv_db = snd (SeedDefaults nss \<lparr>tabs = empty_tables, db_now = now, app_now = now, faults = []\<rparr>),
      sv_cache = cache, sv_idem = idem\<rparr>"

section \<open>The invariant of every reachable state\<close>

lemma svc_ok_other:
  assumes "svc_ok sha A lx s" "on_db m s = (r, s')" "keeps (db_ok lx) m" "\<And>x. keeps (\<lambda>t. sessions t = x) m"
  shows "svc_ok sha A lx s'"
proof (rule svc_ok_same_view [OF assms(1-3)])
  show "keeps (\<lambda>t. session_view t = v) m" for v
    unfolding keeps_def
  proof (intro allI impI)
    fix d :: db assume v: "session_view (tabs d) = v"
    have "sessions (tabs (snd (m d))) = sessions (tabs d)"
      using assms(4) [of "sessions (tabs d)", unfolded keeps_def, rule_format, OF refl] .
    then show "session_view (tabs (snd (m d))) = v" using v view_sessions by blast
  qed
qed

lemma svc_ok_db:
  assumes "svc_ok sha A lx s" "db_ok lx (tabs d)" "sessions (tabs d) = sessions (tabs (sv_db s))"
  shows "svc_ok sha A lx (s\<lparr>sv_db := d\<rparr>)"
  using assms view_sessions [OF assms(3)] by (simp add: svc_ok_def)

lemma sessions_frames:
  "keeps (\<lambda>t. sessions t = x) (Sessions_List f)" "keeps (\<lambda>t. sessions t = x) (Events_Write sha ns sid evs)"
  "keeps (\<lambda>t. sessions t = x) (Correlations_Insert ns sid cid ty meta)" "keeps (\<lambda>t. sessions t = x) (Clients_Register ns name)"
  "keeps (\<lambda>t. sessions t = x) (RegisterWithCredential ns name h)" "keeps (\<lambda>t. sessions t = x) (RotateCredential ns name h)"
  "keeps (\<lambda>t. sessions t = x) (UpdateOutcome ns sid cid out)"
  unfolding Sessions_List_def Events_Write_def Correlations_Insert_def Clients_Register_def RegisterWithCredential_def
    RotateCredential_def UpdateOutcome_def Let_def
  by (auto intro!: keeps_intros keeps_stmt simp: update_client_def split: option.split)

lemma service_frames:
  "keeps (\<lambda>t. sessions t = x) (Search F U T ns sid cid inp qs b v)"
  "keeps (\<lambda>t. sessions t = x) (DocumentOrder F ns sid cid source limit offset b)"
  "keeps (\<lambda>t. sessions t = x) (Build stamp ns sid cid b)" "keeps (\<lambda>t. sessions t = x) (Register ns name)"
  "keeps (\<lambda>t. sessions t = x) (receive_tx ns sid cid outcome)"
  unfolding Search_def DocumentOrder_def Build_def Register_def receive_tx_def Let_def case_prod_unfold
  by (intro keeps_andthen keeps_attempt keeps_ret keeps_guard keeps_WithTx fanOut_keep ChunksInOrder_keeps reads_keep sessions_frames)+

lemma scan_refs_keeps: "svc_ok sha A lx s \<Longrightarrow> svc_ok sha A lx (snd (scan_refs stop refs n s))"
proof (induction refs arbitrary: n s)
  case (Cons ref refs)
  obtain sid ns where ref: "ref = (sid, ns)" by fastforce
  obtain r s1 where d: "Session_DeleteByID ns sid s = (r, s1)" by fastforce
  have "svc_ok sha A lx s1" by (rule Session_DeleteByID_ok(1) [OF Cons.prems d])
  then show ?case using Cons.IH d by (simp add: ref split: sum.split)
qed simp

lemma scanOnce_keeps:
  assumes "svc_ok sha A lx s"
  shows "svc_ok sha A lx (snd (scanOnce stop s))"
proof -
  obtain r s1 where d: "Session_ScanExpired (app_now (sv_db s)) s = (r, s1)" by fastforce
  have "svc_ok sha A lx s1"
    by (rule svc_ok_same_view [OF assms d [unfolded Session_ScanExpired_def]]) (rule reads_keep)+
  then show ?thesis using d by (auto simp: scanOnce_def split: sum.split intro!: scan_refs_keeps)
qed

lemma credentials_keep:
  assumes "db_ok lx (tabs d)"
  shows "Register_Credential sha rnd ns name d = (r, d') \<Longrightarrow> db_ok lx (tabs d') \<and> sessions (tabs d') = sessions (tabs d)"
    "RotateToken sha rnd ns name d = (r, d') \<Longrightarrow> db_ok lx (tabs d') \<and> sessions (tabs d') = sessions (tabs d)"
proof -
  note k = keepsD [OF simple_keeps(2)] keepsD [OF simple_keeps(3)]
  have s: "sessions (tabs (snd (RegisterWithCredential ns name h d))) = sessions (tabs d)"
    "sessions (tabs (snd (RotateCredential ns name h d))) = sessions (tabs d)" for h
    using sessions_frames(5,6) [of "sessions (tabs d)", unfolded keeps_def, rule_format, OF refl] by blast+
  have q: "db_ok lx (tabs (snd (RegisterWithCredential ns name h d)))" "db_ok lx (tabs (snd (RotateCredential ns name h d)))" for h
    using simple_keeps(2,3) [unfolded keeps_def, rule_format, OF assms] by blast+
  show "Register_Credential sha rnd ns name d = (r, d') \<Longrightarrow> db_ok lx (tabs d') \<and> sessions (tabs d') = sessions (tabs d)"
    using assms s(1) q(1) unfolding Register_Credential_def
    by (auto split: if_splits option.splits prod.splits sum.splits) (metis snd_conv)+
  show "RotateToken sha rnd ns name d = (r, d') \<Longrightarrow> db_ok lx (tabs d') \<and> sessions (tabs d') = sessions (tabs d)"
    using assms s(2) q(2) unfolding RotateToken_def
    by (auto split: if_splits option.splits prod.splits sum.splits) (metis snd_conv)+
qed

lemma step_keeps:
  assumes E: "env_ok E" and st: "step E s s'" and ok: "svc_ok (e_sha E) (e_tokens E) (e_lexer E) s"
  shows "svc_ok (e_sha E) (e_tokens E) (e_lexer E) s'"
proof -
  have A: "collision_free (e_sha E) (e_tokens E)" "lexer_distinct (e_lexer E)" using E by (auto simp: env_ok_def)
  have db: "db_ok (e_lexer E) (tabs (sv_db s))" using ok by (simp add: svc_ok_def)
  show ?thesis
    using st
  proof (cases rule: step.cases)
    case (environment d)
    then show ?thesis using ok by (simp add: svc_ok_def)
  next
    case (create rnd req key r1)
    show ?thesis by (rule Session_Create_keeps [OF ok _ create(1)]) (use create(2) in blast)
  next
    case (lookup ns tok r2)
    show ?thesis by (rule Session_Lookup_ok(1) [OF ok lookup(2,1)])
  next
    case (touch ns tok ts r3)
    show ?thesis by (rule Session_Touch_keeps [OF ok touch(1)])
  next
    case (delete_session ns tok r4)
    show ?thesis by (rule Session_Delete_ok(1) [OF ok A(1) delete_session(2,1)])
  next
    case (delete_sessions f r5)
    show ?thesis by (rule Session_DeleteAll_ok(1) [OF ok delete_sessions(1)])
  next
    case (list_sessions f r6)
    show ?thesis by (rule svc_ok_other [OF ok list_sessions(1) [unfolded Session_List_def] reads_keep(7) sessions_frames(1)])
  next
    case (scan stop n)
    then show ?thesis using scanOnce_keeps [OF ok, of stop] by simp
  next
    case (ingest ns sid cid source cs fmt r7)
    show ?thesis by (rule svc_ok_other [OF ok ingest(1) ingest_chunks_keeps [OF A(2)] ingest_sessions])
  next
    case (search ns sid cid inp qs b v r8)
    show ?thesis by (rule svc_ok_other [OF ok search(1) Search_keeps service_frames(1)])
  next
    case (read_document ns sid cid source limit offset b r9)
    show ?thesis by (rule svc_ok_other [OF ok read_document(1) DocumentOrder_keeps service_frames(2)])
  next
    case (write_events ns sid evs r10)
    show ?thesis by (rule svc_ok_other [OF ok write_events(1) simple_keeps(8) sessions_frames(2)])
  next
    case (snapshot ns sid cid b r11)
    show ?thesis by (rule svc_ok_other [OF ok snapshot(1) Build_keeps service_frames(3)])
  next
    case (feedback ns sid cid outcome ttl r12 d)
    have "sessions (tabs d) = sessions (tabs (sv_db s))"
      using feedback(2) keepsD [OF service_frames(5) _ refl] unfolding Receive_def
      by (auto split: if_splits prod.splits sum.splits)
    then show ?thesis unfolding feedback(1) using svc_ok_db [OF ok Receive_keeps [OF feedback(2) db]] by blast
  next
    case (register_client ns name r13)
    show ?thesis by (rule svc_ok_other [OF ok register_client(1) client_ops_keep(2) service_frames(4)])
  next
    case (credential rnd ns name r14 d)
    then show ?thesis using svc_ok_db [OF ok] credentials_keep(1) [OF db] by blast
  next
    case (rotate rnd ns name r14 d)
    then show ?thesis using svc_ok_db [OF ok] credentials_keep(2) [OF db] by blast
  next
    case (remove_client ns name r15)
    show ?thesis by (rule delete_client_keeps [OF ok remove_client(1)])
  qed
qed

lemma boot_ok:
  assumes "token_cache.entries (\<lambda>_ _. False) cache"
  shows "svc_ok sha A lx (boot now nss cache idem)"
proof -
  have "db_ok lx empty_tables"
    by (simp add: db_ok_def tables_ok_def table_defs empty_tables_def vocab_exact_def freq_of_def session_chunks_def)
  then have "db_ok lx (tabs (sv_db (boot now nss cache idem)))"
    using client_ops_keep(3) [unfolded keeps_def, rule_format, of lx "\<lparr>tabs = empty_tables, db_now = now, app_now = now, faults = []\<rparr>" nss]
    by (simp add: boot_def)
  then show ?thesis using token_cache.entries_mono [OF assms]
    by (auto simp: svc_ok_def boot_def)
qed

lemma reachable_ok:
  assumes "env_ok E" "reachable E s0 s" "svc_ok (e_sha E) (e_tokens E) (e_lexer E) s0"
  shows "svc_ok (e_sha E) (e_tokens E) (e_lexer E) s"
  using assms(2) by (induction rule: reachable.induct) (use assms(1,3) step_keeps in blast)+

section \<open>A deleted session is gone\<close>

text \<open>No session has the id, and none will: ids are handed out in increasing order.\<close>

definition gone :: "int \<Rightarrow> tables \<Rightarrow> bool" where
  "gone sid t \<longleftrightarrow> sid < next_session t \<and> sid \<notin> session_ids t"

lemma gone_frame:
  assumes "\<And>x. keeps (\<lambda>t. sessions t = x) m" "\<And>x. keeps (\<lambda>t. next_session t = x) m"
  shows "keeps (gone sid) m"
  unfolding keeps_def
proof (intro allI impI)
  fix d :: db assume g: "gone sid (tabs d)"
  have "sessions (tabs (snd (m d))) = sessions (tabs d)" "next_session (tabs (snd (m d))) = next_session (tabs d)"
    using assms(1) [of "sessions (tabs d)", unfolded keeps_def, rule_format, OF refl]
      assms(2) [of "next_session (tabs d)", unfolded keeps_def, rule_format, OF refl] .
  then show "gone sid (tabs (snd (m d)))" using g by (simp add: gone_def session_ids_def)
qed

lemma gone_removed: "gone sid t \<Longrightarrow> session_ids t' \<subseteq> session_ids t \<Longrightarrow> next_session t' = next_session t \<Longrightarrow> gone sid t'"
  by (auto simp: gone_def)

lemma next_session_frames:
  "keeps (\<lambda>t. next_session t = x) (Sessions_List f)" "keeps (\<lambda>t. next_session t = x) (Events_Write sha ns sid evs)"
  "keeps (\<lambda>t. next_session t = x) (Correlations_Insert ns sid cid ty meta)" "keeps (\<lambda>t. next_session t = x) (Clients_Register ns name)"
  "keeps (\<lambda>t. next_session t = x) (RegisterWithCredential ns name h)" "keeps (\<lambda>t. next_session t = x) (RotateCredential ns name h)"
  "keeps (\<lambda>t. next_session t = x) (UpdateOutcome ns sid cid out)" "keeps (\<lambda>t. next_session t = x) (BumpActivity ns name ts)"
  "keeps (\<lambda>t. next_session t = x) (Touch ns h ts)" "keeps (\<lambda>t. next_session t = x) (InsertLabels i labels)"
  unfolding Sessions_List_def Events_Write_def Correlations_Insert_def Clients_Register_def RegisterWithCredential_def
    RotateCredential_def UpdateOutcome_def BumpActivity_def Touch_def InsertLabels_def Let_def
  by (auto intro!: keeps_intros keeps_stmt simp: update_client_def split: option.split)

lemma ingest_steps_next:
  "keeps (\<lambda>t. next_session t = S) (Upsert ns sid source)" "keeps (\<lambda>t. next_session t = S) (DecrementForSource lx src)"
  "keeps (\<lambda>t. next_session t = S) (DeleteForSource src)" "keeps (\<lambda>t. next_session t = S) (Chunks_Insert src cs)"
  "keeps (\<lambda>t. next_session t = S) (IncrementForSource lx src)" "keeps (\<lambda>t. next_session t = S) (PruneZeros sid)"
  "keeps (\<lambda>t. next_session t = S) (TopByIDF sid k)"
  unfolding Upsert_def DecrementForSource_def DeleteForSource_def Chunks_Insert_def IncrementForSource_def PruneZeros_def
    TopByIDF_def Let_def
  by (auto intro!: keeps_intros keeps_stmt split: option.split)

lemma service_next:
  "keeps (\<lambda>t. next_session t = x) (Search F U T ns sid cid inp qs b v)"
  "keeps (\<lambda>t. next_session t = x) (DocumentOrder F ns sid cid source limit offset b)"
  "keeps (\<lambda>t. next_session t = x) (Build stamp ns sid cid b)" "keeps (\<lambda>t. next_session t = x) (Register ns name)"
  "keeps (\<lambda>t. next_session t = x) (receive_tx ns sid cid outcome)"
  "keeps (\<lambda>t. next_session t = x) (ingest_chunks lx ns sid cid source cs fmt)"
  unfolding Search_def DocumentOrder_def Build_def Register_def receive_tx_def ingest_chunks_def ingest_tx_def
    ingest_captureCorrelation_def Let_def case_prod_unfold
  by (intro keeps_andthen keeps_attempt keeps_ret keeps_guard keeps_WithTx fanOut_keep ChunksInOrder_keeps reads_keep
      next_session_frames ingest_steps_next)+

lemma gone_statements:
  "keeps (gone sid) (Sessions_Insert new)" "keeps (gone sid) (InsertLabels i labels)" "keeps (gone sid) (Touch ns h ts)"
  "keeps (gone sid) (BumpActivity ns name ts)" "keeps (gone sid) (DeleteByIDRow i)" "keeps (gone sid) (DeleteRows ids)"
  "keeps (gone sid) (Clients_DeleteRow ns name)"
proof -
  have c: "gone sid (cascade_sessions ids t)" if "gone sid t" for ids t
    using gone_removed [OF that, of "cascade_sessions ids t"] cascade_session_ids [of ids t] by (auto simp: cascade_sessions_def)
  show "keeps (gone sid) (DeleteByIDRow i)" "keeps (gone sid) (DeleteRows ids)"
    unfolding DeleteByIDRow_def DeleteRows_def by (auto intro!: keeps_stmt keeps_ret c)
  have "gone sid (t\<lparr>clients := cl\<rparr>) \<longleftrightarrow> gone sid t" for t cl by (simp add: gone_def session_ids_def)
  then show "keeps (gone sid) (Clients_DeleteRow ns name)"
    unfolding Clients_DeleteRow_def Let_def by (auto intro!: keeps_stmt c)
  show "keeps (gone sid) (InsertLabels i labels)" "keeps (gone sid) (BumpActivity ns name ts)"
    by (auto intro!: gone_frame next_session_frames)
      (auto simp: InsertLabels_def BumpActivity_def update_client_def Let_def intro!: keeps_stmt keeps_ret)
  show "keeps (gone sid) (Sessions_Insert new)"
    unfolding Sessions_Insert_def Let_def
    by (auto intro!: keeps_guard keeps_stmt simp: gone_def session_ids_def set_expires_at_def)
  show "keeps (gone sid) (Touch ns h ts)"
    unfolding Touch_def Let_def
    by (intro keeps_guard keeps_stmt) (auto simp: gone_def session_ids_def set_expires_at_def)
qed

lemma session_ops_gone:
  "keeps (gone sid) (insert_session new labels)" "keeps (gone sid) (deleteLockedSession n c i tm)"
  "keeps (gone sid) (delete_by_token n h)" "keeps (gone sid) (delete_by_id n i)" "keeps (gone sid) (delete_matching f)"
  "keeps (gone sid) (Clients_Delete ns name)"
proof -
  show l: "keeps (gone sid) (deleteLockedSession n c i tm)" for n c i tm
    unfolding deleteLockedSession_def by (intro keeps_andthen keeps_ret reads_keep gone_statements)
  show "keeps (gone sid) (insert_session new labels)" "keeps (gone sid) (delete_by_id n i)" "keeps (gone sid) (delete_matching f)"
    "keeps (gone sid) (Clients_Delete ns name)"
    unfolding insert_session_def delete_by_id_def delete_matching_def Clients_Delete_def case_prod_unfold
    by (auto intro!: keeps_intros l gone_statements)
  have "keeps (gone sid) (WithTx (andthen (LockByTokenHash n h) (\<lambda>(sid, client).
       andthen (deleteLockedSession n client sid tm) (\<lambda>cascade. ret (sid, cascade)))))" for tm
    unfolding case_prod_unfold by (intro keeps_intros l)
  then show "keeps (gone sid) (delete_by_token n h)"
    unfolding keeps_def delete_by_token_def by blast
qed

lemma on_db_gone: "on_db m s = (r, s') \<Longrightarrow> keeps (gone sid) m \<Longrightarrow> gone sid (tabs (sv_db s)) \<Longrightarrow> gone sid (tabs (sv_db s'))"
  by (cases rule: on_db_run, assumption) (auto dest: keepsD)

lemma create_gone:
  assumes g: "gone sid (tabs (sv_db s))" and run: "Session_Create sha rnd req key s = (r, s')"
  shows "gone sid (tabs (sv_db s'))"
  using run
proof (cases rule: Session_Create_cases)
  case (mint i q)
  have "tabs (sv_db s') = tabs (sv_db s) \<or> (\<exists>new labels r. insert_session new labels (sv_db s) = (r, sv_db s'))"
    using mint(4) by (auto simp: mint_session_def Let_def split: option.splits prod.splits sum.splits)
  then show ?thesis using g keepsD [OF session_ops_gone(1)] by metis
qed (use g in simp_all)

lemma scan_gone:
  "gone sid (tabs (sv_db s)) \<Longrightarrow> gone sid (tabs (sv_db (snd (scanOnce stop s))))"
proof -
  assume g: "gone sid (tabs (sv_db s))"
  have loop: "gone sid (tabs (sv_db s)) \<Longrightarrow> gone sid (tabs (sv_db (snd (scan_refs stop refs n s))))" for refs n and s :: "('a, 'b) svc"
  proof (induction refs arbitrary: n s)
    case (Cons ref refs)
    obtain i ns where ref: "ref = (i, ns)" by fastforce
    obtain r s1 where d: "Session_DeleteByID ns i s = (r, s1)" by fastforce
    obtain q s2 where m: "on_db (delete_by_id ns i) s = (q, s2)" by fastforce
    have "sv_db s1 = sv_db s2" using d m by (auto simp: Session_DeleteByID_def split: if_splits)
    then have "gone sid (tabs (sv_db s1))" using on_db_gone [OF m session_ops_gone(4) Cons.prems] by simp
    then show ?case using Cons.IH d by (simp add: ref split: sum.split)
  qed simp
  obtain r s1 where d: "Session_ScanExpired (app_now (sv_db s)) s = (r, s1)" by fastforce
  have "gone sid (tabs (sv_db s1))" by (rule on_db_gone [OF d [unfolded Session_ScanExpired_def] _ g]) (rule reads_keep)
  then show ?thesis using d by (auto simp: scanOnce_def split: sum.split intro!: loop)
qed

lemma step_gone:
  assumes ok: "svc_ok (e_sha E) (e_tokens E) (e_lexer E) s" and st: "step E s s'" and g: "gone sid (tabs (sv_db s))"
  shows "gone sid (tabs (sv_db s'))"
proof -
  have frame: "gone sid (tabs (sv_db s'))"
    if "on_db m s = (r, s')" "\<And>x. keeps (\<lambda>t. sessions t = x) m" "\<And>x. keeps (\<lambda>t. next_session t = x) m" for m r
    using on_db_gone [OF that(1) gone_frame [OF that(2,3)] g] .
  show ?thesis
    using st
  proof (cases rule: step.cases)
    case (environment d)
    then show ?thesis using g by simp
  next
    case (create rnd req key r1)
    show ?thesis by (rule create_gone [OF g create(1)])
  next
    case (lookup ns tok r2)
    then show ?thesis using Session_Lookup_ok(2) [OF ok lookup(2,1)] g by simp
  next
    case (touch ns tok ts r3)
    obtain q s1 where m: "on_db (Touch ns (HashToken (e_sha E) ns tok) ts) s = (q, s1)" by fastforce
    then have "sv_db s' = sv_db s1" using touch(1) by (auto simp: Session_Touch_def split: sum.splits if_splits)
    then show ?thesis using on_db_gone [OF m gone_statements(3) g] by simp
  next
    case (delete_session ns tok r4)
    obtain q s1 where m: "on_db (delete_by_token ns (HashToken (e_sha E) ns tok)) s = (q, s1)" by fastforce
    then have "sv_db s' = sv_db s1" using delete_session(1) by (auto simp: Session_Delete_def split: sum.splits if_splits)
    then show ?thesis using on_db_gone [OF m session_ops_gone(3) g] by simp
  next
    case (delete_sessions f r5)
    obtain q s1 where m: "on_db (delete_matching f) s = (q, s1)" by fastforce
    then have "sv_db s' = sv_db s1" using delete_sessions(1) by (auto simp: Session_DeleteAll_def split: sum.splits if_splits)
    then show ?thesis using on_db_gone [OF m session_ops_gone(5) g] by simp
  next
    case (list_sessions f r6)
    show ?thesis by (rule frame [OF list_sessions(1) [unfolded Session_List_def] sessions_frames(1) next_session_frames(1)])
  next
    case (scan stop n)
    then show ?thesis using scan_gone [OF g, of stop] by simp
  next
    case (ingest ns i cid source cs fmt r7)
    show ?thesis by (rule frame [OF ingest(1) ingest_sessions service_next(6)])
  next
    case (search ns i cid inp qs b v r8)
    show ?thesis by (rule frame [OF search(1) service_frames(1) service_next(1)])
  next
    case (read_document ns i cid source limit offset b r9)
    show ?thesis by (rule frame [OF read_document(1) service_frames(2) service_next(2)])
  next
    case (write_events ns i evs r10)
    show ?thesis by (rule frame [OF write_events(1) sessions_frames(2) next_session_frames(2)])
  next
    case (snapshot ns i cid b r11)
    show ?thesis by (rule frame [OF snapshot(1) service_frames(3) service_next(3)])
  next
    case (feedback ns i cid outcome ttl r12 d)
    have "gone sid (tabs d)"
      using feedback(2) keepsD [OF gone_frame [OF service_frames(5) service_next(5)] _ g] g unfolding Receive_def
      by (auto split: if_splits prod.splits sum.splits)
    then show ?thesis by (simp add: feedback(1))
  next
    case (register_client ns name r13)
    show ?thesis by (rule frame [OF register_client(1) service_frames(4) service_next(4)])
  next
    case (credential rnd ns name r14 d)
    have "gone sid (tabs d)"
      using credential(2) keepsD [OF gone_frame [OF sessions_frames(5) next_session_frames(5)] _ g] g unfolding Register_Credential_def
      by (auto split: if_splits option.splits prod.splits sum.splits)
    then show ?thesis by (simp add: credential(1))
  next
    case (rotate rnd ns name r14 d)
    have "gone sid (tabs d)"
      using rotate(2) keepsD [OF gone_frame [OF sessions_frames(6) next_session_frames(6)] _ g] g unfolding RotateToken_def
      by (auto split: if_splits option.splits prod.splits sum.splits)
    then show ?thesis by (simp add: rotate(1))
  next
    case (remove_client ns name r15)
    obtain q s1 where m: "on_db (Clients_Delete ns name) s = (q, s1)" by fastforce
    then have "sv_db s' = sv_db s1" using remove_client(1) by (auto simp: delete_client_def InvalidateNamespaceCache_def split: sum.splits)
    then show ?thesis using on_db_gone [OF m session_ops_gone(6) g] by simp
  qed
qed

lemma reachable_gone:
  assumes "env_ok E" "svc_ok (e_sha E) (e_tokens E) (e_lexer E) s0" "gone sid (tabs (sv_db s0))" "reachable E s0 s"
  shows "svc_ok (e_sha E) (e_tokens E) (e_lexer E) s \<and> gone sid (tabs (sv_db s))"
  using assms(4)
proof (induction rule: reachable.induct)
  case start
  then show ?case using assms by simp
next
  case (more s s')
  then show ?case using step_gone step_keeps [OF assms(1)] by blast
qed

lemma gone_view: "gone sid t \<Longrightarrow> session_view t k = Some md \<Longrightarrow> md_ID md \<noteq> sid"
  by (auto simp: gone_def session_view_def metadata_of_def session_ids_def find_session_def dest!: find_SomeD)

lemma delete_by_token_next: "keeps (\<lambda>t. next_session t = x) (delete_by_token ns h)"
proof -
  have r: "keeps (\<lambda>t. next_session t = x) (DeleteByIDRow i)" for i
    unfolding DeleteByIDRow_def by (auto intro!: keeps_stmt simp: cascade_sessions_def)
  have "keeps (\<lambda>t. next_session t = x) (WithTx (andthen (LockByTokenHash ns h) (\<lambda>(sid, client).
       andthen (deleteLockedSession ns client sid tm) (\<lambda>cascade. ret (sid, cascade)))))" for tm
    unfolding case_prod_unfold deleteLockedSession_def
    by (intro keeps_WithTx keeps_andthen keeps_ret reads_keep next_session_frames r)
  then show ?thesis unfolding keeps_def delete_by_token_def by blast
qed

text \<open>After a successful delete no later lookup, cached or not and by whatever token, yields
  that session.\<close>

lemma deleted_session_unreachable:
  assumes E: "env_ok E" and ok: "svc_ok (e_sha E) (e_tokens E) (e_lexer E) s"
    and del: "Session_Delete (e_sha E) ns tok s = (Inr (sid, c), s1)" "tok \<in> e_tokens E"
    and later: "reachable E s1 s2" and look: "Session_Lookup (e_sha E) ns' tok' s2 = (Inr md, s3)" "tok' \<in> e_tokens E"
  shows "md_ID md \<noteq> sid"
proof -
  have A: "collision_free (e_sha E) (e_tokens E)" using E by (simp add: env_ok_def)
  note D = Session_Delete_ok [OF ok A del(2,1)]
  let ?h = "HashToken (e_sha E) ns tok"
  have tok: "tables_ok (tabs (sv_db s))" using ok by (simp add: svc_ok_def db_ok_def)
  obtain d where d: "delete_by_token ns ?h (sv_db s) = (Inr (sid, c), d)" and s1: "sv_db s1 = d"
    using del(1) by (auto simp: Session_Delete_def on_db_def split: prod.splits sum.splits)
  have "sid \<in> session_ids (tabs (sv_db s))"
    using delete_by_token_ok(1) [OF tok d] by (auto simp: session_view_def metadata_of_def session_ids_def find_session_def dest!: find_SomeD)
  then have "sid < next_session (tabs (sv_db s))" using tok by (auto simp: tables_ok_def sessions_ok_def session_row_ok_def session_ids_def)
  moreover have "next_session (tabs d) = next_session (tabs (sv_db s))" using keepsD [OF delete_by_token_next d refl] .
  moreover have "sid \<notin> session_ids (tabs d)" using delete_by_token_ok(4) [OF tok d] by (auto simp: session_ids_def)
  ultimately have "gone sid (tabs (sv_db s1))" by (simp add: gone_def s1)
  note R = reachable_gone [OF E D(1) this later]
  have "session_view (tabs (sv_db s2)) (ns', HashToken (e_sha E) ns' tok') = Some md"
    by (rule Session_Lookup_ok(3) [OF _ look(2,1) refl]) (use R in blast)
  then show ?thesis using gone_view R by blast
qed

end
