(* ===== verification/Server_Config.thy ===== *)
theory Server_Config
  imports Alloc_Core Go_Text
begin

text \<open>
  The configuration of the service: its validation (internal/config/config.go), the resolution
  of secret references (internal/secrets/secret_reader.go) and the registry of namespaces
  (internal/auth/registry.go). Reading the YAML file and the defaults are left out. A threshold
  is a rational number, or None for the float that is not a number; durations are nanoseconds.
\<close>

section \<open>Secrets\<close>

datatype secret_error = MalformedSecret string | EnvUnset string | SecretUnreadable string | SecretEmpty string

text \<open>\<open>[file:..]\<close>, \<open>[text:..]\<close> or \<open>[env:..]\<close>, with a payload that is not empty and has no bracket at its end.\<close>

definition secret_match :: "string \<Rightarrow> (string \<times> string) option" where
  "secret_match ref =
     (case find (\<lambda>scheme. has_prefix ref (CHR ''['' # scheme @ '':'')) [''file'', ''text'', ''env''] of
        None \<Rightarrow> None
      | Some scheme \<Rightarrow>
          let rest = drop (length scheme + 2) ref in
          if 2 \<le> length rest \<and> last rest = CHR '']'' \<and> CHR '']'' \<notin> set (butlast rest)
          then Some (scheme, butlast rest) else None)"

text \<open>The environment and the file system are arguments; a file gives None when it cannot be read.\<close>

definition resolve_secret ::
    "(string \<Rightarrow> string option) \<Rightarrow> (string \<Rightarrow> string option) \<Rightarrow> string \<Rightarrow> (secret_error, string) result" where
  "resolve_secret env file ref =
     (case secret_match ref of
        None \<Rightarrow> Inl (MalformedSecret ref)
      | Some (scheme, payload) \<Rightarrow>
          if scheme = ''text'' then Inr payload
          else if scheme = ''env'' then (case env payload of None \<Rightarrow> Inl (EnvUnset payload) | Some v \<Rightarrow> Inr v)
          else case file payload of
                 None \<Rightarrow> Inl (SecretUnreadable payload)
               | Some data \<Rightarrow> if trim_space data = [] then Inl (SecretEmpty payload) else Inr (trim_space data))"

text \<open>A variable that is set but empty resolves to the empty secret.\<close>

lemma empty_env_secret: "resolve_secret (\<lambda>_. Some []) file ''[env:X]'' = Inr []"
  by code_simp

text \<open>A literal that names itself.\<close>

lemma text_secret:
  "payload \<noteq> [] \<Longrightarrow> CHR '']'' \<notin> set payload \<Longrightarrow> resolve_secret env file (''[text:'' @ payload @ '']'') = Inr payload"
  by (cases payload) (auto simp: resolve_secret_def secret_match_def has_prefix_def Let_def butlast_append)

section \<open>The configuration\<close>

definition maxNamespaceLength :: nat where "maxNamespaceLength = 64"
definition minRatePerSecond :: int where "minRatePerSecond = 1"
definition maxRatePerSecond :: int where "maxRatePerSecond = 100000"
definition minFeedbackTTLMinutes :: int where "minFeedbackTTLMinutes = 1"
definition maxFeedbackTTLMinutes :: int where "maxFeedbackTTLMinutes = 1440"
definition maxSearchBudgetKB :: int where "maxSearchBudgetKB = 256"

definition name_char :: "char \<Rightarrow> bool" where
  "name_char c \<longleftrightarrow> 97 \<le> byte c \<and> byte c \<le> 122 \<or> 65 \<le> byte c \<and> byte c \<le> 90 \<or> 48 \<le> byte c \<and> byte c \<le> 57
     \<or> c = CHR ''_'' \<or> c = CHR ''-''"

definition namespaceNameRegex :: "string \<Rightarrow> bool" where
  "namespaceNameRegex s \<longleftrightarrow> 1 \<le> length s \<and> length s \<le> 64 \<and> list_all name_char s"

record namespace_config =
  nc_Name :: string
  nc_APIKey :: string
  nc_RatePerSecond :: int
  nc_RequireClientCredentials :: bool
  nc_FeedbackTTLMinutes :: int
  nc_DefaultAllocator :: string
  nc_AllowAllocatorOverride :: bool

record service_config =
  sc_DSN :: string
  sc_MaxOpenConns :: int
  sc_MaxIdleConns :: int
  sc_ConnMaxLifetime :: int
  sc_TrigramThreshold :: "rat option"
  sc_MaxBudgetKB :: int
  sc_RatePerSecond :: int
  sc_RateGlobalPerSecond :: int
  sc_RatePerIPPerSecond :: int
  sc_TLSEnabled :: bool
  sc_CertFile :: string
  sc_KeyFile :: string
  sc_CacheSize :: int
  sc_DefaultTTLMinutes :: int
  sc_MaxTTLMinutes :: int
  sc_ScannerIntervalMS :: int
  sc_ScannerJitterMS :: int
  sc_IdempotencyKeyTTL :: int
  sc_IdempotencyKeySize :: int
  sc_Namespaces :: "namespace_config list"

text \<open>One constructor per message; the field and the index it names are its arguments.\<close>

datatype config_error =
    NoNamespaces | NoDSN | Negative string | IdleOverOpen | ThresholdRange | ThresholdZero | BudgetRange
  | RateAbove string | TLSFilesMissing | NotBracketed string | TTLRange string | TTLOrder | JitterOverInterval
  | IdempotencyTTL | NameMissing nat | NameInvalid nat | NameDuplicate nat nat | KeyMissing nat | KeyNotBracketed nat
  | KeyDuplicate nat nat | RateNegative nat | RateBelow nat | RateTooHigh nat | FeedbackNegative nat | FeedbackBelow nat
  | FeedbackAbove nat | AllocatorInvalid nat

definition bracketed :: "string \<Rightarrow> bool" where "bracketed s \<longleftrightarrow> has_prefix s ''['' \<and> has_suffix s '']''"

definition validateRate :: "string \<Rightarrow> int \<Rightarrow> config_error option" where
  "validateRate field v = (if v < 0 then Some (Negative field) else if 0 < v \<and> maxRatePerSecond < v then Some (RateAbove field) else None)"

definition validateAllocator :: "nat \<Rightarrow> string \<Rightarrow> config_error option" where
  "validateAllocator i a = (if a = [] then None else case ParseVariant a of None \<Rightarrow> Some (AllocatorInvalid i) | Some v \<Rightarrow> None)"

text \<open>The first of a list of checks that fails.\<close>

fun first_error :: "(bool \<times> 'e) list \<Rightarrow> 'e option" where
  "first_error [] = None"
| "first_error ((bad, e) # cs) = (if bad then Some e else first_error cs)"

definition storage_checks :: "service_config \<Rightarrow> (bool \<times> config_error) list" where
  "storage_checks c =
     [(sc_Namespaces c = [], NoNamespaces), (sc_DSN c = [], NoDSN),
      (sc_MaxOpenConns c < 0, Negative ''storage.max_open_conns''), (sc_MaxIdleConns c < 0, Negative ''storage.max_idle_conns''),
      (sc_ConnMaxLifetime c < 0, Negative ''storage.conn_max_lifetime''),
      (0 < sc_MaxOpenConns c \<and> sc_MaxOpenConns c < sc_MaxIdleConns c, IdleOverOpen),
      (case sc_TrigramThreshold c of None \<Rightarrow> False | Some t \<Rightarrow> t < 0 \<or> 1 < t, ThresholdRange),
      (sc_TrigramThreshold c = Some 0, ThresholdZero),
      (sc_MaxBudgetKB c < 1 \<or> maxSearchBudgetKB < sc_MaxBudgetKB c, BudgetRange)]"

definition tls_checks :: "service_config \<Rightarrow> (bool \<times> config_error) list" where
  "tls_checks c =
     [(sc_TLSEnabled c \<and> (sc_CertFile c = [] \<or> sc_KeyFile c = []), TLSFilesMissing),
      (sc_TLSEnabled c \<and> \<not> bracketed (sc_CertFile c), NotBracketed ''server.tls.cert_file''),
      (sc_TLSEnabled c \<and> \<not> bracketed (sc_KeyFile c), NotBracketed ''server.tls.key_file'')]"

definition session_checks :: "service_config \<Rightarrow> (bool \<times> config_error) list" where
  "session_checks c =
     [(sc_CacheSize c < 0, Negative ''sessions.cache_size''),
      (sc_DefaultTTLMinutes c \<le> 0 \<or> 10080 < sc_DefaultTTLMinutes c, TTLRange ''sessions.default_ttl_minutes''),
      (sc_MaxTTLMinutes c \<le> 0 \<or> 10080 < sc_MaxTTLMinutes c, TTLRange ''sessions.max_ttl_minutes''),
      (sc_MaxTTLMinutes c < sc_DefaultTTLMinutes c, TTLOrder),
      (sc_ScannerIntervalMS c < 0, Negative ''sessions.ttl_scanner_interval_ms''),
      (sc_ScannerJitterMS c < 0, Negative ''sessions.ttl_scanner_jitter_ms''),
      (0 < sc_ScannerIntervalMS c \<and> sc_ScannerIntervalMS c \<le> sc_ScannerJitterMS c, JitterOverInterval),
      (sc_IdempotencyKeyTTL c \<le> 0, IdempotencyTTL),
      (sc_IdempotencyKeySize c < 0, Negative ''sessions.idempotency_key_size'')]"

text \<open>One namespace, given the names and the references seen before it, each with its index.\<close>

definition namespace_checks ::
    "nat \<Rightarrow> (string \<times> nat) list \<Rightarrow> (string \<times> nat) list \<Rightarrow> namespace_config \<Rightarrow> (bool \<times> config_error) list" where
  "namespace_checks i names keys n =
     [(nc_Name n = [], NameMissing i), (\<not> namespaceNameRegex (nc_Name n), NameInvalid i),
      (map_of names (nc_Name n) \<noteq> None, NameDuplicate i (the (map_of names (nc_Name n)))),
      (nc_APIKey n = [], KeyMissing i), (\<not> bracketed (nc_APIKey n), KeyNotBracketed i),
      (map_of keys (nc_APIKey n) \<noteq> None, KeyDuplicate i (the (map_of keys (nc_APIKey n)))),
      (nc_RatePerSecond n < 0, RateNegative i),
      (0 < nc_RatePerSecond n \<and> nc_RatePerSecond n < minRatePerSecond, RateBelow i),
      (0 < nc_RatePerSecond n \<and> maxRatePerSecond < nc_RatePerSecond n, RateTooHigh i),
      (nc_FeedbackTTLMinutes n < 0, FeedbackNegative i),
      (0 < nc_FeedbackTTLMinutes n \<and> nc_FeedbackTTLMinutes n < minFeedbackTTLMinutes, FeedbackBelow i),
      (0 < nc_FeedbackTTLMinutes n \<and> maxFeedbackTTLMinutes < nc_FeedbackTTLMinutes n, FeedbackAbove i)]"

fun validate_namespaces ::
    "nat \<Rightarrow> (string \<times> nat) list \<Rightarrow> (string \<times> nat) list \<Rightarrow> namespace_config list \<Rightarrow> config_error option" where
  "validate_namespaces i names keys [] = None"
| "validate_namespaces i names keys (n # ns) =
     (case first_error (namespace_checks i names keys n) of
        Some e \<Rightarrow> Some e
      | None \<Rightarrow>
          (case validateAllocator i (nc_DefaultAllocator n) of
             Some e \<Rightarrow> Some e
           | None \<Rightarrow> validate_namespaces (Suc i) ((nc_Name n, i) # names) ((nc_APIKey n, i) # keys) ns))"

definition or_else :: "'e option \<Rightarrow> 'e option \<Rightarrow> 'e option" where
  "or_else a b = (case a of Some e \<Rightarrow> Some e | None \<Rightarrow> b)"

definition validate_config :: "service_config \<Rightarrow> config_error option" where
  "validate_config c =
     or_else (first_error (storage_checks c))
    (or_else (validateRate ''server.rate_limit_per_second'' (sc_RatePerSecond c))
    (or_else (validateRate ''server.rate_limit_global_per_second'' (sc_RateGlobalPerSecond c))
    (or_else (validateRate ''server.rate_limit_per_ip_per_second'' (sc_RatePerIPPerSecond c))
    (or_else (first_error (tls_checks c))
    (or_else (first_error (session_checks c))
             (validate_namespaces 0 [] [] (sc_Namespaces c)))))))"

lemma or_else_None [simp]: "or_else a b = None \<longleftrightarrow> a = None \<and> b = None"
  by (simp add: or_else_def split: option.split)

lemma first_error_None: "first_error cs = None \<longleftrightarrow> (\<forall>c\<in>set cs. \<not> fst c)"
  by (induction cs rule: first_error.induct) auto

text \<open>What an accepted configuration has.\<close>

definition namespace_ok :: "namespace_config \<Rightarrow> bool" where
  "namespace_ok n \<longleftrightarrow> namespaceNameRegex (nc_Name n) \<and> bracketed (nc_APIKey n)
     \<and> 0 \<le> nc_RatePerSecond n \<and> nc_RatePerSecond n \<le> maxRatePerSecond
     \<and> 0 \<le> nc_FeedbackTTLMinutes n \<and> nc_FeedbackTTLMinutes n \<le> maxFeedbackTTLMinutes
     \<and> (nc_DefaultAllocator n = [] \<or> ParseVariant (nc_DefaultAllocator n) \<noteq> None)"

lemma fresh_keys:
  "(\<forall>x\<in>S. f x \<notin> insert a A \<and> g x \<notin> insert b B) \<longleftrightarrow> a \<notin> f ` S \<and> b \<notin> g ` S \<and> (\<forall>x\<in>S. f x \<notin> A \<and> g x \<notin> B)"
  by auto

lemma validate_namespaces_iff:
  "validate_namespaces i names keys ns = None \<longleftrightarrow>
     (\<forall>n\<in>set ns. namespace_ok n) \<and> distinct (map nc_Name ns) \<and> distinct (map nc_APIKey ns)
     \<and> (\<forall>n\<in>set ns. nc_Name n \<notin> fst ` set names \<and> nc_APIKey n \<notin> fst ` set keys)"
proof (induction ns arbitrary: i names keys)
  case (Cons n ns)
  have rate: "(\<not> r < 0 \<and> \<not> (0 < r \<and> r < 1) \<and> \<not> (0 < r \<and> m < r)) \<longleftrightarrow> 0 \<le> r \<and> r \<le> m" if "0 < m" for r m :: int
    using that by auto
  have r1: "(\<not> r < 0 \<and> \<not> (0 < r \<and> r < minRatePerSecond) \<and> \<not> (0 < r \<and> maxRatePerSecond < r)) \<longleftrightarrow> 0 \<le> r \<and> r \<le> maxRatePerSecond"
    "(\<not> r < 0 \<and> \<not> (0 < r \<and> r < minFeedbackTTLMinutes) \<and> \<not> (0 < r \<and> maxFeedbackTTLMinutes < r)) \<longleftrightarrow> 0 \<le> r \<and> r \<le> maxFeedbackTTLMinutes" for r
    unfolding minRatePerSecond_def minFeedbackTTLMinutes_def by (rule rate, simp add: maxRatePerSecond_def maxFeedbackTTLMinutes_def)+
  have "first_error (namespace_checks i names keys n) = None \<longleftrightarrow>
      nc_Name n \<noteq> [] \<and> namespaceNameRegex (nc_Name n) \<and> map_of names (nc_Name n) = None
      \<and> nc_APIKey n \<noteq> [] \<and> bracketed (nc_APIKey n) \<and> map_of keys (nc_APIKey n) = None
      \<and> (\<not> nc_RatePerSecond n < 0 \<and> \<not> (0 < nc_RatePerSecond n \<and> nc_RatePerSecond n < minRatePerSecond)
          \<and> \<not> (0 < nc_RatePerSecond n \<and> maxRatePerSecond < nc_RatePerSecond n))
      \<and> (\<not> nc_FeedbackTTLMinutes n < 0 \<and> \<not> (0 < nc_FeedbackTTLMinutes n \<and> nc_FeedbackTTLMinutes n < minFeedbackTTLMinutes)
          \<and> \<not> (0 < nc_FeedbackTTLMinutes n \<and> maxFeedbackTTLMinutes < nc_FeedbackTTLMinutes n))"
    unfolding first_error_None namespace_checks_def
    by (simp only: list.set ball_simps fst_conv not_not simp_thms conj_assoc)
  then have "first_error (namespace_checks i names keys n) = None \<longleftrightarrow>
      nc_Name n \<noteq> [] \<and> namespaceNameRegex (nc_Name n) \<and> nc_Name n \<notin> fst ` set names
      \<and> nc_APIKey n \<noteq> [] \<and> bracketed (nc_APIKey n) \<and> nc_APIKey n \<notin> fst ` set keys
      \<and> (0 \<le> nc_RatePerSecond n \<and> nc_RatePerSecond n \<le> maxRatePerSecond)
      \<and> (0 \<le> nc_FeedbackTTLMinutes n \<and> nc_FeedbackTTLMinutes n \<le> maxFeedbackTTLMinutes)"
    by (simp only: r1 map_of_eq_None_iff)
  moreover have "namespaceNameRegex (nc_Name n) \<Longrightarrow> nc_Name n \<noteq> []" "bracketed (nc_APIKey n) \<Longrightarrow> nc_APIKey n \<noteq> []"
    by (auto simp: namespaceNameRegex_def bracketed_def has_prefix_def)
  moreover have "validateAllocator i (nc_DefaultAllocator n) = None
      \<longleftrightarrow> nc_DefaultAllocator n = [] \<or> ParseVariant (nc_DefaultAllocator n) \<noteq> None"
    by (simp add: validateAllocator_def split: option.split)
  ultimately have "first_error (namespace_checks i names keys n) = None \<and> validateAllocator i (nc_DefaultAllocator n) = None
      \<longleftrightarrow> namespace_ok n \<and> nc_Name n \<notin> fst ` set names \<and> nc_APIKey n \<notin> fst ` set keys"
    unfolding namespace_ok_def by satx
  then have st: "validate_namespaces i names keys (n # ns) = None \<longleftrightarrow>
      (namespace_ok n \<and> nc_Name n \<notin> fst ` set names \<and> nc_APIKey n \<notin> fst ` set keys)
      \<and> validate_namespaces (Suc i) ((nc_Name n, i) # names) ((nc_APIKey n, i) # keys) ns = None"
    by (cases "first_error (namespace_checks i names keys n)"; cases "validateAllocator i (nc_DefaultAllocator n)") auto
  have "(\<forall>x\<in>set ns. nc_Name x \<notin> fst ` set ((nc_Name n, i) # names) \<and> nc_APIKey x \<notin> fst ` set ((nc_APIKey n, i) # keys))
      \<longleftrightarrow> nc_Name n \<notin> nc_Name ` set ns \<and> nc_APIKey n \<notin> nc_APIKey ` set ns
        \<and> (\<forall>x\<in>set ns. nc_Name x \<notin> fst ` set names \<and> nc_APIKey x \<notin> fst ` set keys)"
    by (simp only: list.set image_insert fst_conv fresh_keys)
  then show ?case unfolding st Cons.IH by (simp only: list.set list.map distinct.simps ball_simps set_map) satx
qed simp

text \<open>The threshold that is not a number passes both of its checks.\<close>

lemma nan_threshold_passes:
  "sc_TrigramThreshold c = None \<Longrightarrow> (bad, ThresholdRange) \<in> set (storage_checks c) \<Longrightarrow> \<not> bad"
  by (auto simp: storage_checks_def)

section \<open>The registry\<close>

record memoryRegistry =
  rg_keys :: "(string \<times> string) list"
  rg_rates :: "(string \<times> int) list"
  rg_credentials :: "string list"
  rg_feedbackTTLs :: "(string \<times> int) list"
  rg_allocators :: "(string \<times> string) list"
  rg_override :: "string list"

definition reg_Resolve :: "memoryRegistry \<Rightarrow> string \<Rightarrow> string option" where
  "reg_Resolve r apiKey = map_of (rg_keys r) apiKey"

definition RateFor :: "memoryRegistry \<Rightarrow> string \<Rightarrow> int option" where
  "RateFor r ns = map_of (rg_rates r) ns"

definition RequiresClientCredentials :: "memoryRegistry \<Rightarrow> string \<Rightarrow> bool" where
  "RequiresClientCredentials r ns \<longleftrightarrow> ns \<in> set (rg_credentials r)"

definition FeedbackTTLFor :: "memoryRegistry \<Rightarrow> string \<Rightarrow> int option" where
  "FeedbackTTLFor r ns = map_of (rg_feedbackTTLs r) ns"

definition DefaultAllocatorFor :: "memoryRegistry \<Rightarrow> string \<Rightarrow> string option" where
  "DefaultAllocatorFor r ns = map_of (rg_allocators r) ns"

definition AllowAllocatorOverride :: "memoryRegistry \<Rightarrow> string \<Rightarrow> bool" where
  "AllowAllocatorOverride r ns \<longleftrightarrow> ns \<in> set (rg_override r)"

definition empty_registry :: memoryRegistry where
  "empty_registry = \<lparr>rg_keys = [], rg_rates = [], rg_credentials = [], rg_feedbackTTLs = [], rg_allocators = [], rg_override = []\<rparr>"

datatype registry_error = SecretFailed secret_error | EmptyKey string | SharedKey string string

definition add_namespace :: "namespace_config \<Rightarrow> string \<Rightarrow> memoryRegistry \<Rightarrow> memoryRegistry" where
  "add_namespace n apiKey r =
     \<lparr>rg_keys = (apiKey, nc_Name n) # rg_keys r,
      rg_rates = (if 0 < nc_RatePerSecond n then (nc_Name n, nc_RatePerSecond n) # rg_rates r else rg_rates r),
      rg_credentials = (if nc_RequireClientCredentials n then nc_Name n # rg_credentials r else rg_credentials r),
      rg_feedbackTTLs = (if 0 < nc_FeedbackTTLMinutes n then (nc_Name n, nc_FeedbackTTLMinutes n) # rg_feedbackTTLs r else rg_feedbackTTLs r),
      rg_allocators = (if nc_DefaultAllocator n \<noteq> [] then (nc_Name n, nc_DefaultAllocator n) # rg_allocators r else rg_allocators r),
      rg_override = (if nc_AllowAllocatorOverride n then nc_Name n # rg_override r else rg_override r)\<rparr>"

text \<open>The reader of secrets ends the process where it fails; here that is an error.\<close>

fun namespace_registry ::
    "(string \<Rightarrow> (secret_error, string) result) \<Rightarrow> namespace_config list \<Rightarrow> memoryRegistry \<Rightarrow> (registry_error, memoryRegistry) result" where
  "namespace_registry reader [] r = Inr r"
| "namespace_registry reader (n # ns) r =
     (case reader (nc_APIKey n) of
        Inl e \<Rightarrow> Inl (SecretFailed e)
      | Inr apiKey \<Rightarrow>
          if apiKey = [] then Inl (EmptyKey (nc_Name n))
          else case reg_Resolve r apiKey of
                 Some other \<Rightarrow> Inl (SharedKey (nc_Name n) other)
               | None \<Rightarrow> namespace_registry reader ns (add_namespace n apiKey r))"

definition BuildRegistry ::
    "(string \<Rightarrow> (secret_error, string) result) \<Rightarrow> namespace_config list \<Rightarrow> (registry_error, memoryRegistry) result" where
  "BuildRegistry reader ns = namespace_registry reader ns empty_registry"

text \<open>A key resolves to a namespace exactly when the secret of that namespace is the key.\<close>

lemma buildRegistry_resolve:
  assumes "namespace_registry reader ns r = Inr r'"
  shows "reg_Resolve r' key = Some name \<longleftrightarrow>
    reg_Resolve r key = Some name \<or> (\<exists>n\<in>set ns. nc_Name n = name \<and> reader (nc_APIKey n) = Inr key)"
  using assms
proof (induction ns arbitrary: r)
  case (Cons n ns)
  then obtain k where k: "reader (nc_APIKey n) = Inr k" "reg_Resolve r k = None" "namespace_registry reader ns (add_namespace n k r) = Inr r'"
    by (auto split: sum.splits if_splits option.splits)
  have "reg_Resolve (add_namespace n k r) key = (if key = k then Some (nc_Name n) else reg_Resolve r key)"
    by (simp add: reg_Resolve_def add_namespace_def)
  then show ?case using Cons.IH [OF k(3)] k(1,2) by auto
qed simp

lemma buildRegistry_nonempty: "namespace_registry reader ns r = Inr r' \<Longrightarrow> reg_Resolve r [] = None \<Longrightarrow> reg_Resolve r' [] = None"
proof (induction ns arbitrary: r)
  case (Cons n ns)
  then obtain k where k: "k \<noteq> []" "namespace_registry reader ns (add_namespace n k r) = Inr r'"
    by (auto split: sum.splits if_splits option.splits)
  have "reg_Resolve (add_namespace n k r) [] = None" using Cons.prems(2) k(1) by (simp add: reg_Resolve_def add_namespace_def)
  then show ?case by (rule Cons.IH [OF k(2)])
qed simp

lemma buildRegistry_credentials:
  "namespace_registry reader ns r = Inr r' \<Longrightarrow>
    RequiresClientCredentials r' name \<longleftrightarrow> RequiresClientCredentials r name \<or> (\<exists>n\<in>set ns. nc_Name n = name \<and> nc_RequireClientCredentials n)"
proof (induction ns arbitrary: r)
  case (Cons n ns)
  then obtain k where k: "namespace_registry reader ns (add_namespace n k r) = Inr r'"
    by (auto split: sum.splits if_splits option.splits)
  show ?case using Cons.IH [OF k] by (auto simp: RequiresClientCredentials_def add_namespace_def)
qed simp

end
