(* ===== verification/Go_JsonScan.thy ===== *)
theory Go_JsonScan
  imports Go_Json
begin

text \<open>
  What the program uses of encoding/json to read: \<open>Valid\<close>, the token walk of a decoder over
  the members of an object or the elements of an array with their raw text, and the decoding
  of strings. A text is cut into tokens that keep their raw bytes, white space included, and
  the grammar is a machine over the tokens with the stack of open containers.
\<close>

section \<open>Tokens\<close>

datatype jtok = JSpace string | JPunct char | JStr string | JNum string | JLit string

fun jraw :: "jtok \<Rightarrow> string" where
  "jraw (JSpace s) = s"
| "jraw (JPunct c) = [c]"
| "jraw (JStr s) = s"
| "jraw (JNum s) = s"
| "jraw (JLit s) = s"

fun is_jspace :: "jtok \<Rightarrow> bool" where
  "is_jspace (JSpace _) = True"
| "is_jspace _ = False"

definition hex_value :: "char \<Rightarrow> nat option" where
  "hex_value c =
     (let b = byte c in
      if 48 \<le> b \<and> b \<le> 57 then Some (b - 48)
      else if 97 \<le> b \<and> b \<le> 102 then Some (b - 87)
      else if 65 \<le> b \<and> b \<le> 70 then Some (b - 55) else None)"

text \<open>Four hexadecimal digits at the start of a text.\<close>

definition hex4 :: "string \<Rightarrow> nat option" where
  "hex4 s =
     (let vs = map hex_value (take 4 s) in
      if length vs = 4 \<and> None \<notin> set vs then Some (foldl (\<lambda>n v. n * 16 + the v) 0 vs) else None)"

definition escape_chars :: "char set" where
  "escape_chars = {CHR ''b'', CHR ''f'', CHR ''n'', CHR ''r'', CHR ''t'', CHR ''/'', backslash, quote}"

text \<open>The rest of a string literal after its opening quote, through the closing one.\<close>

function str_end :: "string \<Rightarrow> (string \<times> string) option" where
  "str_end [] = None"
| "str_end (c # s) =
     (if c = quote then Some ([c], s)
      else if byte c < 32 then None
      else if c \<noteq> backslash then map_option (\<lambda>(u, r). (c # u, r)) (str_end s)
      else case s of
             [] \<Rightarrow> None
           | e # t \<Rightarrow>
               if e \<in> escape_chars
               then map_option (\<lambda>(u, r). (c # e # u, r)) (str_end t)
               else if e = CHR ''u'' \<and> hex4 t \<noteq> None
               then map_option (\<lambda>(u, r). (c # e # take 4 t @ u, r)) (str_end (drop 4 t))
               else None)"
  by pat_completeness auto
termination by (relation "measure length") auto

declare str_end.simps(2) [simp del]

definition digit :: "char \<Rightarrow> bool" where "digit c \<longleftrightarrow> 48 \<le> byte c \<and> byte c \<le> 57"

definition digits_from :: "string \<Rightarrow> string" where "digits_from s = takeWhile digit s"

text \<open>A number: sign, integer part, fraction and exponent as far as they go.\<close>

definition num_int :: "string \<Rightarrow> string option" where
  "num_int s = (case s of
      [] \<Rightarrow> None
    | c # _ \<Rightarrow> if c = CHR ''0'' then Some [c] else if digit c then Some (digits_from s) else None)"

definition num_frac :: "string \<Rightarrow> string option" where
  "num_frac s = (case s of
      c # t \<Rightarrow> if c = CHR ''.'' then (if digits_from t = [] then None else Some (c # digits_from t)) else Some []
    | [] \<Rightarrow> Some [])"

definition num_exp :: "string \<Rightarrow> string option" where
  "num_exp s = (case s of
      c # t \<Rightarrow>
        if c = CHR ''e'' \<or> c = CHR ''E'' then
          (let sgn = (case t of x # _ \<Rightarrow> if x = CHR ''+'' \<or> x = CHR ''-'' then [x] else [] | [] \<Rightarrow> []);
               ds = digits_from (drop (length sgn) t)
           in if ds = [] then None else Some (c # sgn @ ds))
        else Some []
    | [] \<Rightarrow> Some [])"

definition num_end :: "string \<Rightarrow> (string \<times> string) option" where
  "num_end s =
     (let sgn = (case s of x # _ \<Rightarrow> if x = CHR ''-'' then [x] else [] | [] \<Rightarrow> []);
          s1 = drop (length sgn) s in
      case num_int s1 of
        None \<Rightarrow> None
      | Some i \<Rightarrow>
          (let s2 = drop (length i) s1 in
           case num_frac s2 of
             None \<Rightarrow> None
           | Some f \<Rightarrow>
               (let s3 = drop (length f) s2 in
                case num_exp s3 of
                  None \<Rightarrow> None
                | Some e \<Rightarrow> Some (sgn @ i @ f @ e, drop (length e) s3))))"

definition space_chars :: "char set" where "space_chars = {CHR '' '', CHR 0x09, CHR 0x0A, CHR 0x0D}"
definition punct_chars :: "char set" where "punct_chars = {CHR ''{'', CHR ''}'', CHR ''['', CHR '']'', CHR '','', CHR '':''}"

definition json_tok :: "string \<Rightarrow> (jtok \<times> string) option" where
  "json_tok s =
     (case s of
        [] \<Rightarrow> None
      | c # r \<Rightarrow>
          if c \<in> space_chars then Some (JSpace [c], r)
          else if c \<in> punct_chars then Some (JPunct c, r)
          else if c = quote then map_option (\<lambda>(u, t). (JStr (c # u), t)) (str_end r)
          else if c = CHR ''-'' \<or> digit c then map_option (\<lambda>(u, t). (JNum u, t)) (num_end s)
          else if has_prefix s ''true'' then Some (JLit ''true'', drop 4 s)
          else if has_prefix s ''false'' then Some (JLit ''false'', drop 5 s)
          else if has_prefix s ''null'' then Some (JLit ''null'', drop 4 s)
          else None)"

text \<open>A token is not empty, starts with an ASCII character, and is cut off the text.\<close>

definition tok_cut :: "string \<Rightarrow> string \<Rightarrow> string \<Rightarrow> bool" where
  "tok_cut s u r \<longleftrightarrow> s = u @ r \<and> u \<noteq> [] \<and> byte (hd u) < 128"

lemma str_end_split: "str_end s = Some (u, r) \<Longrightarrow> s = u @ r"
proof (induction s arbitrary: u rule: str_end.induct)
  case (2 c s)
  show ?case
  proof (cases s)
    case Nil
    then show ?thesis using 2 by (auto simp: str_end.simps(2) split: if_splits)
  next
    case (Cons e t)
    show ?thesis
    proof (cases "c = quote \<or> byte c < 32 \<or> c \<noteq> backslash")
      case True
      then show ?thesis using "2.prems" "2.IH"(1) by (auto simp: str_end.simps(2) split: if_splits)
    next
      case False
      note run = "2.prems" [unfolded str_end.simps(2) [of c s], unfolded Cons list.case]
      consider (simple) "e \<in> escape_chars"
        | (hex) "\<not> e \<in> escape_chars"
            "e = CHR ''u'' \<and> hex4 t \<noteq> None"
        | (bad) "\<not> e \<in> escape_chars"
            "\<not> (e = CHR ''u'' \<and> hex4 t \<noteq> None)" by blast
      then show ?thesis
      proof cases
        case simple
        then obtain v where "str_end t = Some (v, r)" "u = c # e # v" using run False by (auto split: option.splits)
        then show ?thesis using "2.IH"(2) [OF _ _ _ Cons simple] False Cons by auto
      next
        case hex
        then obtain v where v: "str_end (drop 4 t) = Some (v, r)" "u = c # e # take 4 t @ v"
          using run False by auto
        have "drop 4 t = v @ r" using "2.IH"(3) [OF _ _ _ Cons hex v(1)] False by blast
        then show ?thesis using v(2) Cons append_take_drop_id [of 4 t] by simp
      next
        case bad
        then show ?thesis using run False by (auto split: if_splits)
      qed
    qed
  qed
qed simp

lemma digits_from_prefix: "drop (length (digits_from s)) s = dropWhile digit s"
  by (simp add: digits_from_def dropWhile_eq_drop)

lemma digits_from_split: "s = digits_from s @ drop (length (digits_from s)) s"
  by (simp add: digits_from_def dropWhile_eq_drop [symmetric])

lemma num_part_splits:
  "num_int s = Some u \<Longrightarrow> s = u @ drop (length u) s \<and> u \<noteq> [] \<and> digit (hd u)"
  "num_frac s = Some u \<Longrightarrow> s = u @ drop (length u) s"
  "num_exp s = Some u \<Longrightarrow> s = u @ drop (length u) s"
proof -
  show "num_int s = Some u \<Longrightarrow> s = u @ drop (length u) s \<and> u \<noteq> [] \<and> digit (hd u)"
    using digits_from_split [of s]
    by (cases s) (auto simp: num_int_def digits_from_def digit_def split: if_splits)
  show "num_frac s = Some u \<Longrightarrow> s = u @ drop (length u) s"
    using digits_from_split [of "tl s"] by (cases s) (auto simp: num_frac_def split: if_splits)
  assume run: "num_exp s = Some u"
  show "s = u @ drop (length u) s"
  proof (cases s)
    case Nil
    then show ?thesis using run by (simp add: num_exp_def)
  next
    case (Cons c t)
    define sgn where "sgn = (case t of x # _ \<Rightarrow> if x = CHR ''+'' \<or> x = CHR ''-'' then [x] else [] | [] \<Rightarrow> [])"
    have t: "t = sgn @ drop (length sgn) t" by (cases t) (simp_all add: sgn_def)
    have "u = [] \<or> u = c # sgn @ digits_from (drop (length sgn) t)"
      using run by (auto simp: Cons num_exp_def sgn_def [symmetric] Let_def split: if_splits)
    then show ?thesis
    proof
      assume u: "u = c # sgn @ digits_from (drop (length sgn) t)"
      have "t = sgn @ digits_from (drop (length sgn) t) @ drop (length (digits_from (drop (length sgn) t))) (drop (length sgn) t)"
        using t digits_from_split [of "drop (length sgn) t"] by simp
      then show ?thesis unfolding Cons u by (metis append_Cons append_assoc append_eq_conv_conj)
    qed simp
  qed
qed

lemma num_end_split:
  assumes "num_end s = Some (u, r)"
  shows "s = u @ r" "u \<noteq> []" "hd u = CHR ''-'' \<or> digit (hd u)"
proof -
  define sgn where "sgn = (case s of x # _ \<Rightarrow> if x = CHR ''-'' then [x] else [] | [] \<Rightarrow> [])"
  have s: "s = sgn @ drop (length sgn) s" "sgn = [] \<or> sgn = [CHR ''-'']"
    by (cases s; simp add: sgn_def)+
  obtain i f e where i: "num_int (drop (length sgn) s) = Some i"
    and f: "num_frac (drop (length i) (drop (length sgn) s)) = Some f"
    and e: "num_exp (drop (length f) (drop (length i) (drop (length sgn) s))) = Some e"
    and u: "u = sgn @ i @ f @ e" "r = drop (length e) (drop (length f) (drop (length i) (drop (length sgn) s)))"
    using assms by (auto simp: num_end_def sgn_def [symmetric] Let_def split: option.splits)
  note parts = num_part_splits(1) [OF i] num_part_splits(2) [OF f] num_part_splits(3) [OF e]
  show "s = u @ r" using s(1) parts unfolding u by (metis append_assoc)
  show "u \<noteq> []" "hd u = CHR ''-'' \<or> digit (hd u)" using s(2) parts(1) u(1) by auto
qed

lemma literal_cut:
  "has_prefix s p \<Longrightarrow> p \<noteq> [] \<Longrightarrow> byte (hd p) < 128 \<Longrightarrow> tok_cut s p (drop (length p) s)"
  using append_take_drop_id [of "length p" s] by (simp add: tok_cut_def has_prefix_def)

lemma literal_cuts:
  "has_prefix s ''true'' \<Longrightarrow> tok_cut s ''true'' (drop 4 s)"
  "has_prefix s ''false'' \<Longrightarrow> tok_cut s ''false'' (drop 5 s)"
  "has_prefix s ''null'' \<Longrightarrow> tok_cut s ''null'' (drop 4 s)"
  using literal_cut [of s "''true''"] literal_cut [of s "''false''"] literal_cut [of s "''null''"]
  by (simp_all add: numeral_eq_Suc)

lemma json_tok_cases:
  assumes "json_tok (c # w) = Some (t, r)"
  obtains (ascii) "jraw t = [c]" "r = w" "byte c < 128"
  | (str) u where "c = quote" "jraw t = c # u" "str_end w = Some (u, r)"
  | (num) "num_end (c # w) = Some (jraw t, r)"
  | (lit) "tok_cut (c # w) (jraw t) r"
proof -
  note run = assms [unfolded json_tok_def list.case]
  show ?thesis
  proof (cases "c \<in> space_chars \<or> c \<in> punct_chars")
    case True
    then have "byte c < 128" by (auto simp: space_chars_def punct_chars_def)
    then show ?thesis using run True by (intro ascii) (auto split: if_splits)
  next
    case nosp: False
    show ?thesis
    proof (cases "c = quote \<or> c = CHR ''-'' \<or> digit c")
      case True
      show ?thesis
      proof (cases "c = quote")
        case True
        then obtain u where "str_end w = Some (u, r)" "jraw t = c # u" using run nosp by auto
        then show ?thesis using str True by blast
      next
        case False
        then have "num_end (c # w) = Some (jraw t, r)" using run nosp True by auto
        then show ?thesis by (rule num)
      qed
    next
      case False
      then have "jraw t = ''true'' \<and> r = drop 4 (c # w) \<and> has_prefix (c # w) ''true''
        \<or> jraw t = ''false'' \<and> r = drop 5 (c # w) \<and> has_prefix (c # w) ''false''
        \<or> jraw t = ''null'' \<and> r = drop 4 (c # w) \<and> has_prefix (c # w) ''null''"
        using run nosp by (auto split: if_splits)
      then show ?thesis using literal_cuts [of "c # w"] lit by metis
    qed
  qed
qed

lemma json_tok_cut: "json_tok s = Some (t, r) \<Longrightarrow> tok_cut s (jraw t) r"
proof (cases s)
  case (Cons c w)
  assume "json_tok s = Some (t, r)"
  then have "json_tok (c # w) = Some (t, r)" by (simp add: Cons)
  then show ?thesis
  proof (cases rule: json_tok_cases)
    case num
    then show ?thesis using num_end_split [OF num] by (auto simp: tok_cut_def Cons digit_def)
  qed (auto simp: tok_cut_def Cons quote_def dest: str_end_split)
qed (simp add: json_tok_def)

function json_lex :: "string \<Rightarrow> jtok list option" where
  "json_lex s =
     (if s = [] then Some []
      else case json_tok s of
             None \<Rightarrow> None
           | Some (t, r) \<Rightarrow> map_option ((#) t) (json_lex r))"
  by pat_completeness auto
termination
  by (relation "measure length") (auto dest!: json_tok_cut simp: tok_cut_def)

declare json_lex.simps [simp del]

section \<open>Validity\<close>

text \<open>What the scanner expects next; the stack tells for each open container whether it is an
  object. More than 10000 open containers are refused.\<close>

datatype expect = EValue | EValueOrClose | EKey | EKeyOrClose | EColon | ECommaOrClose | EEnd

definition after_value :: "bool list \<Rightarrow> expect" where
  "after_value st = (if st = [] then EEnd else ECommaOrClose)"

definition maxNestingDepth :: nat where "maxNestingDepth = 10000"

definition open_container :: "bool \<Rightarrow> bool list \<Rightarrow> (expect \<times> bool list) option" where
  "open_container obj st =
     (if length st < maxNestingDepth then Some (if obj then EKeyOrClose else EValueOrClose, obj # st) else None)"

definition start_value :: "bool list \<Rightarrow> jtok \<Rightarrow> (expect \<times> bool list) option" where
  "start_value st t =
     (case t of
        JPunct c \<Rightarrow> if c = CHR ''{'' then open_container True st
                    else if c = CHR ''['' then open_container False st else None
      | JSpace _ \<Rightarrow> None
      | _ \<Rightarrow> Some (after_value st, st))"

definition close_container :: "bool list \<Rightarrow> (expect \<times> bool list) option" where
  "close_container st = Some (after_value (tl st), tl st)"

fun json_step :: "expect \<Rightarrow> bool list \<Rightarrow> jtok \<Rightarrow> (expect \<times> bool list) option" where
  "json_step EValue st t = start_value st t"
| "json_step EValueOrClose st t = (if t = JPunct CHR '']'' then close_container st else start_value st t)"
| "json_step EKey st t = (case t of JStr _ \<Rightarrow> Some (EColon, st) | _ \<Rightarrow> None)"
| "json_step EKeyOrClose st t =
     (case t of JStr _ \<Rightarrow> Some (EColon, st) | _ \<Rightarrow> if t = JPunct CHR ''}'' then close_container st else None)"
| "json_step EColon st t = (if t = JPunct CHR '':'' then Some (EValue, st) else None)"
| "json_step ECommaOrClose st t =
     (if t = JPunct CHR '','' then Some (if hd st then EKey else EValue, st)
      else if t = JPunct (if hd st then CHR ''}'' else CHR '']'') then close_container st else None)"
| "json_step EEnd st t = None"

fun json_run :: "expect \<Rightarrow> bool list \<Rightarrow> jtok list \<Rightarrow> bool" where
  "json_run ex st [] = (ex = EEnd)"
| "json_run ex st (t # ts) =
     (if is_jspace t then json_run ex st ts
      else case json_step ex st t of None \<Rightarrow> False | Some (ex', st') \<Rightarrow> json_run ex' st' ts)"

definition json_Valid :: "string \<Rightarrow> bool" where
  "json_Valid s = (case json_lex s of None \<Rightarrow> False | Some ts \<Rightarrow> json_run EValue [] ts)"

section \<open>Members and elements\<close>

text \<open>The token runs between the commas of a container, up to its closing bracket.\<close>

fun json_split :: "nat \<Rightarrow> jtok list \<Rightarrow> jtok list \<Rightarrow> jtok list list" where
  "json_split k cur [] = [cur]"
| "json_split k cur (t # ts) =
     (if t = JPunct CHR ''{'' \<or> t = JPunct CHR ''['' then json_split (Suc k) (cur @ [t]) ts
      else if t = JPunct CHR ''}'' \<or> t = JPunct CHR '']''
      then (if k = 0 then [cur] else json_split (k - 1) (cur @ [t]) ts)
      else if t = JPunct CHR '','' \<and> k = 0 then cur # json_split 0 [] ts
      else json_split k (cur @ [t]) ts)"

definition strip_space :: "jtok list \<Rightarrow> jtok list" where
  "strip_space ts = rev (dropWhile is_jspace (rev (dropWhile is_jspace ts)))"

definition raw_text :: "jtok list \<Rightarrow> string" where
  "raw_text ts = concat (map jraw ts)"

text \<open>The values of an array, or the members of an object as runs of key, colon and value.\<close>

definition json_parts :: "jtok list \<Rightarrow> jtok list list" where
  "json_parts inner =
     (let ps = map strip_space (json_split 0 [] inner) in if ps = [[]] then [] else ps)"

definition json_member :: "jtok list \<Rightarrow> (string \<times> jtok list) option" where
  "json_member ts =
     (case ts of
        JStr k # rest \<Rightarrow>
          (case dropWhile is_jspace rest of
             c # v \<Rightarrow> if c = JPunct CHR '':'' then Some (k, strip_space v) else None
           | [] \<Rightarrow> None)
      | _ \<Rightarrow> None)"

text \<open>The tokens after the opening bracket \<open>b\<close>.\<close>

definition json_inner :: "char \<Rightarrow> string \<Rightarrow> jtok list option" where
  "json_inner b s =
     (case json_lex s of
        None \<Rightarrow> None
      | Some ts \<Rightarrow> (case dropWhile is_jspace ts of
                      t # rest \<Rightarrow> if t = JPunct b then Some rest else None
                    | [] \<Rightarrow> None))"

section \<open>Decoding of strings\<close>

definition surrogate :: "nat \<Rightarrow> bool" where "surrogate r \<longleftrightarrow> 55296 \<le> r \<and> r < 57344"

text \<open>The value of an escape \<open>\u\<close> that starts a text.\<close>

definition getu4 :: "string \<Rightarrow> nat option" where
  "getu4 s = (if take 2 s = [backslash, CHR ''u''] then hex4 (drop 2 s) else None)"

definition pair_rune :: "nat \<Rightarrow> nat \<Rightarrow> nat option" where
  "pair_rune r r1 =
     (if 55296 \<le> r \<and> r < 56320 \<and> 56320 \<le> r1 \<and> r1 < 57344
      then Some ((r - 55296) * 1024 + (r1 - 56320) + 65536) else None)"

definition escape_char :: "char \<Rightarrow> char" where
  "escape_char e =
     (if e = CHR ''b'' then CHR 0x08 else if e = CHR ''f'' then CHR 0x0C else if e = CHR ''n'' then CHR 0x0A
      else if e = CHR ''r'' then CHR 0x0D else if e = CHR ''t'' then CHR 0x09 else e)"

function json_decode :: "string \<Rightarrow> string" where
  "json_decode [] = []"
| "json_decode (c # s) =
     (if c = backslash then
        (case s of
           [] \<Rightarrow> []
         | e # t \<Rightarrow>
             if e \<noteq> CHR ''u'' then escape_char e # json_decode t
             else (case hex4 t of
                     None \<Rightarrow> []
                   | Some r \<Rightarrow>
                       (let t' = drop 4 t in
                        if \<not> surrogate r then encode_rune r @ json_decode t'
                        else case getu4 t' of
                               None \<Rightarrow> encode_rune rune_error @ json_decode t'
                             | Some r1 \<Rightarrow>
                                 (case pair_rune r r1 of
                                    None \<Rightarrow> encode_rune rune_error @ json_decode t'
                                  | Some r2 \<Rightarrow> encode_rune r2 @ json_decode (drop 6 t')))))
      else encode_rune (fst (decode_rune (c # s))) @ json_decode (drop (rune_width (c # s)) (c # s)))"
  by pat_completeness auto
termination
  by (relation "measure length") (use rune_width_pos in \<open>auto simp del: drop.simps simp: drop_Cons'\<close>)

declare json_decode.simps(2) [simp del]

text \<open>The value of a string token, its quotes included.\<close>

definition json_unquote :: "string \<Rightarrow> string" where
  "json_unquote raw = json_decode (butlast (tl raw))"

section \<open>Facts about tokens\<close>

lemma json_lex_raw:
  "json_lex s = Some ts \<Longrightarrow> raw_text ts = s \<and> (\<forall>t\<in>set ts. jraw t \<noteq> [] \<and> byte (hd (jraw t)) < 128)"
proof (induction s arbitrary: ts rule: json_lex.induct)
  case (1 s)
  show ?case
  proof (cases "s = []")
    case True
    then show ?thesis using "1.prems" by (simp add: json_lex.simps raw_text_def)
  next
    case False
    then obtain t r us where t: "json_tok s = Some (t, r)" "json_lex r = Some us" "ts = t # us"
      using "1.prems" by (auto simp: json_lex.simps [of s] split: option.splits)
    show ?thesis using "1.IH" [OF False t(1) refl t(2)] json_tok_cut [OF t(1)]
      by (auto simp: t(3) raw_text_def tok_cut_def)
  qed
qed

lemma ascii_head_parts:
  "valid_utf8 (concat us) \<Longrightarrow> \<forall>u\<in>set us. u \<noteq> [] \<and> byte (hd u) < 128 \<Longrightarrow> \<forall>u\<in>set us. valid_utf8 u"
proof (induction us)
  case (Cons u us)
  have "concat us = [] \<or> rune_start (hd (concat us))" using Cons.prems(2) by (cases us) auto
  then have "valid_utf8 u" "valid_utf8 (concat us)" using valid_cut_both [of u "concat us"] Cons.prems(1) by simp_all
  then show ?case using Cons by simp
qed simp

lemma raw_text_valid: "\<forall>t\<in>set ts. valid_utf8 (jraw t) \<Longrightarrow> valid_utf8 (raw_text ts)"
  unfolding raw_text_def by (induction ts) (auto simp: valid_append_iff)

lemma json_lex_valid: "json_lex s = Some ts \<Longrightarrow> valid_utf8 s \<Longrightarrow> \<forall>t\<in>set ts. valid_utf8 (jraw t) \<and> jraw t \<noteq> []"
  using json_lex_raw [of s ts] ascii_head_parts [of "map jraw ts"] by (auto simp: raw_text_def)

lemma json_split_set: "ps \<in> set (json_split k cur ts) \<Longrightarrow> set ps \<subseteq> set cur \<union> set ts"
proof (induction k cur ts rule: json_split.induct)
  case (2 k cur t ts)
  define op where "op \<longleftrightarrow> t = JPunct CHR ''{'' \<or> t = JPunct CHR ''[''"
  define cl where "cl \<longleftrightarrow> t = JPunct CHR ''}'' \<or> t = JPunct CHR '']''"
  define cm where "cm \<longleftrightarrow> t = JPunct CHR '','' \<and> k = 0"
  have split: "json_split k cur (t # ts) =
     (if op then json_split (Suc k) (cur @ [t]) ts else if cl then (if k = 0 then [cur] else json_split (k - 1) (cur @ [t]) ts)
      else if cm then cur # json_split 0 [] ts else json_split k (cur @ [t]) ts)"
    by (simp add: op_def cl_def cm_def)
  note ih = "2.IH" [folded op_def cl_def cm_def]
  consider (deeper) op | (last) "\<not> op" cl "k = 0" | (out) "\<not> op" cl "k \<noteq> 0"
    | (sep) "\<not> op" "\<not> cl" cm | (other) "\<not> op" "\<not> cl" "\<not> cm" by blast
  then show ?case
  proof cases
    case deeper
    then show ?thesis using ih(1) "2.prems" split by simp
  next
    case last
    then show ?thesis using "2.prems" split by auto
  next
    case out
    then show ?thesis using ih(2) "2.prems" split by simp
  next
    case sep
    then show ?thesis using ih(3) "2.prems" split by fastforce
  next
    case other
    then show ?thesis using ih(4) "2.prems" split by simp
  qed
qed simp

lemma strip_space_set: "set (strip_space ts) \<subseteq> set ts"
  unfolding strip_space_def by (auto dest!: set_dropWhileD)

lemma strip_space_Nil: "strip_space ts = [] \<longleftrightarrow> (\<forall>t\<in>set ts. is_jspace t)"
proof
  assume e: "strip_space ts = []"
  then have "\<forall>t\<in>set (dropWhile is_jspace ts). is_jspace t" by (simp add: strip_space_def dropWhile_eq_Nil_conv)
  then have "dropWhile is_jspace ts = []" using hd_dropWhile [of is_jspace ts] hd_in_set by blast
  then show "\<forall>t\<in>set ts. is_jspace t" by (simp add: dropWhile_eq_Nil_conv)
qed (simp add: strip_space_def dropWhile_eq_Nil_conv [THEN iffD2])

lemma raw_text_Nil: "\<forall>t\<in>set ts. jraw t \<noteq> [] \<Longrightarrow> raw_text ts = [] \<longleftrightarrow> ts = []"
  by (cases ts) (auto simp: raw_text_def)

lemma json_inner_lex: "json_inner b s = Some rest \<Longrightarrow> \<exists>ts. json_lex s = Some ts \<and> set rest \<subseteq> set ts
    \<and> dropWhile is_jspace ts = JPunct b # rest"
  using set_dropWhileD [of _ is_jspace] by (force simp: json_inner_def split: option.splits list.splits if_splits)

section \<open>Elements of a valid array are not empty\<close>

definition inked :: "jtok list \<Rightarrow> bool" where "inked ts \<longleftrightarrow> (\<exists>t\<in>set ts. \<not> is_jspace t)"

lemma inked_append [simp]: "inked (ts @ [t]) \<longleftrightarrow> inked ts \<or> \<not> is_jspace t"
  by (auto simp: inked_def)

lemma json_step_cases:
  assumes "json_step ex st t = Some (ex', st')" "st \<noteq> []"
  obtains (opens) obj where "t = JPunct CHR ''{'' \<or> t = JPunct CHR ''[''" "st' = obj # st" "ex' = (if obj then EKeyOrClose else EValueOrClose)"
      "ex \<in> {EValue, EValueOrClose}"
  | (closes) "t = JPunct CHR ''}'' \<or> t = JPunct CHR '']''" "st' = tl st" "ex' = after_value (tl st)" "ex \<noteq> EValue"
  | (comma) "t = JPunct CHR '',''" "st' = st" "ex = ECommaOrClose" "ex' = (if hd st then EKey else EValue)"
  | (scalar) "t \<notin> {JPunct CHR ''{'', JPunct CHR ''['', JPunct CHR ''}'', JPunct CHR '']'', JPunct CHR '',''}" "st' = st"
      "\<not> is_jspace t" "ex \<noteq> ECommaOrClose" "ex \<in> {EValue, EValueOrClose} \<longrightarrow> ex' = ECommaOrClose"
      "ex \<in> {EKey, EKeyOrClose} \<longrightarrow> ex' = EColon \<and> (\<exists>s. t = JStr s)"
      "ex = EColon \<longrightarrow> ex' = EValue \<and> t = JPunct CHR '':''"
proof (cases ex)
  case EValue
  then show ?thesis using assms opens [of True] opens [of False] scalar
    by (cases t) (auto simp: start_value_def open_container_def after_value_def split: if_splits)
next
  case EValueOrClose
  then show ?thesis using assms opens [of True] opens [of False] closes scalar
    by (cases t) (auto simp: start_value_def open_container_def close_container_def after_value_def split: if_splits)
next
  case EKey
  then show ?thesis using assms scalar by (cases t) auto
next
  case EKeyOrClose
  then show ?thesis using assms scalar closes by (cases t) (auto simp: close_container_def split: if_splits)
next
  case EColon
  then show ?thesis using assms scalar by (auto split: if_splits)
next
  case ECommaOrClose
  then show ?thesis using assms comma closes by (auto simp: close_container_def split: if_splits)
qed (use assms in simp)

text \<open>Inside an array at depth \<open>k\<close> below it: what has been collected is a started element unless
  a value is due.\<close>

lemma json_split_inked:
  assumes "json_run ex st ts" "length st = Suc k" "\<not> last st"
    "k = 0 \<longrightarrow> ex \<in> {EValue, EValueOrClose, ECommaOrClose}" "k \<noteq> 0 \<or> ex = ECommaOrClose \<longrightarrow> inked cur"
  shows "(\<forall>ps\<in>set (json_split k cur ts). inked ps) \<or> ex = EValueOrClose \<and> k = 0 \<and> (\<exists>ps. json_split k cur ts = [ps])"
  using assms
proof (induction ts arbitrary: ex st k cur)
  case (Cons t ts)
  note run = Cons.prems(1) and st = Cons.prems(2,3) and ex = Cons.prems(4) and cur = Cons.prems(5)
  show ?case
  proof (cases "is_jspace t")
    case True
    then have "json_split k cur (t # ts) = json_split k (cur @ [t]) ts" "json_run ex st ts" using run by auto
    then show ?thesis using Cons.IH [OF _ st ex, of "cur @ [t]"] cur by simp
  next
    case False
    then obtain ex' st' where step: "json_step ex st t = Some (ex', st')" and run': "json_run ex' st' ts"
      using run by (auto split: option.splits)
    have ne: "st \<noteq> []" using st(1) by auto
    from step ne show ?thesis
    proof (cases rule: json_step_cases)
      case (opens obj)
      then show ?thesis using Cons.IH [OF run', of "Suc k" "cur @ [t]"] st False ne by auto
    next
      case closes
      show ?thesis
      proof (cases k)
        case 0
        then have "json_split k cur (t # ts) = [cur]" using closes(1) by auto
        then show ?thesis using ex cur 0 closes(4) by auto
      next
        case (Suc k')
        then have "tl st \<noteq> []" using st(1) by (cases st) auto
        then have tl: "length st' = Suc k'" "\<not> last st'" "ex' = ECommaOrClose"
          using st Suc closes(2,3) by (simp_all add: last_tl after_value_def)
        then show ?thesis using Cons.IH [OF run' tl(1,2), of "cur @ [t]"] closes(1) Suc False by auto
      qed
    next
      case comma
      show ?thesis
      proof (cases "k = 0")
        case True
        then have "\<not> hd st" using st by (cases st) auto
        then show ?thesis using Cons.IH [OF run', of 0 "[]"] comma True st cur by auto
      next
        case False
        then show ?thesis using Cons.IH [OF run', of k "cur @ [t]"] comma st cur by auto
      qed
    next
      case scalar
      then have "json_split k cur (t # ts) = json_split k (cur @ [t]) ts" by auto
      then show ?thesis using Cons.IH [OF run', of k "cur @ [t]"] scalar st ex False by (cases "k = 0") auto
    qed
  qed
qed simp

section \<open>Members of a valid object have a key\<close>

definition keyed :: "jtok list \<Rightarrow> bool" where
  "keyed ts \<longleftrightarrow> (\<exists>a k b. ts = a @ JStr k # b \<and> list_all is_jspace a \<and> list_all is_jspace b)"

definition membered :: "jtok list \<Rightarrow> bool" where
  "membered ts \<longleftrightarrow> (\<exists>a k b c. ts = a @ JStr k # b @ JPunct CHR '':'' # c \<and> list_all is_jspace a \<and> list_all is_jspace b)"

lemma keyed_append:
  "list_all is_jspace cur \<Longrightarrow> keyed (cur @ [JStr s])"
  "keyed cur \<Longrightarrow> is_jspace t \<Longrightarrow> keyed (cur @ [t])"
  "keyed cur \<Longrightarrow> membered (cur @ [JPunct CHR '':''])"
  "membered cur \<Longrightarrow> membered (cur @ [t])"
  by (fastforce simp: keyed_def membered_def)+

lemma dropWhile_spaces_app: "list_all is_jspace a \<Longrightarrow> dropWhile is_jspace (a @ ts) = dropWhile is_jspace ts"
  by (induction a) auto

lemma dropWhile_keeps: "\<not> is_jspace y \<Longrightarrow> \<exists>zs. dropWhile is_jspace (xs @ y # ys) = zs @ y # ys"
proof (induction xs)
  case (Cons x xs)
  then show ?case by (cases "is_jspace x") (auto intro: exI [of _ "x # xs"])
qed simp

lemma membered_member:
  assumes "membered ts"
  shows "json_member (strip_space ts) \<noteq> None"
proof -
  obtain a k b c where ts: "ts = a @ JStr k # b @ JPunct CHR '':'' # c" "list_all is_jspace a" "list_all is_jspace b"
    using assms by (auto simp: membered_def)
  have "dropWhile is_jspace ts = (JStr k # b) @ JPunct CHR '':'' # c" using ts(1) dropWhile_spaces_app [OF ts(2)] by simp
  then have "rev (dropWhile is_jspace ts) = rev c @ JPunct CHR '':'' # rev (JStr k # b)" by simp
  then obtain c' where "dropWhile is_jspace (rev (dropWhile is_jspace ts)) = c' @ JPunct CHR '':'' # rev (JStr k # b)"
    using dropWhile_keeps [of "JPunct CHR '':''" "rev c" "rev (JStr k # b)"] by auto
  then have "strip_space ts = JStr k # b @ JPunct CHR '':'' # rev c'" by (simp add: strip_space_def)
  then show ?thesis using dropWhile_spaces_app [OF ts(3)] by (simp add: json_member_def)
qed

fun member_state :: "nat \<Rightarrow> expect \<Rightarrow> jtok list \<Rightarrow> bool" where
  "member_state k EKey cur = (k = 0 \<and> list_all is_jspace cur \<or> k \<noteq> 0 \<and> membered cur)"
| "member_state k EKeyOrClose cur = (k = 0 \<and> list_all is_jspace cur \<or> k \<noteq> 0 \<and> membered cur)"
| "member_state k EColon cur = (k = 0 \<and> keyed cur \<or> k \<noteq> 0 \<and> membered cur)"
| "member_state k EValueOrClose cur = (k \<noteq> 0 \<and> membered cur)"
| "member_state k ex cur = membered cur"

lemma member_state_space: "member_state k ex cur \<Longrightarrow> is_jspace t \<Longrightarrow> member_state k ex (cur @ [t])"
  by (cases ex) (auto intro: keyed_append)

lemma member_state_deep: "k \<noteq> 0 \<Longrightarrow> member_state k ex cur = membered cur"
  by (cases ex) auto

lemma json_split_members:
  assumes "json_run ex st ts" "length st = Suc k" "last st" "member_state k ex cur"
  shows "(\<forall>ps\<in>set (json_split k cur ts). membered ps)
    \<or> ex = EKeyOrClose \<and> k = 0 \<and> (\<exists>ps. json_split k cur ts = [ps] \<and> list_all is_jspace ps)"
  using assms
proof (induction ts arbitrary: ex st k cur)
  case (Cons t ts)
  note run = Cons.prems(1) and st = Cons.prems(2,3) and cur = Cons.prems(4)
  show ?case
  proof (cases "is_jspace t")
    case True
    then have "json_split k cur (t # ts) = json_split k (cur @ [t]) ts" "json_run ex st ts" using run by auto
    then show ?thesis using Cons.IH [OF _ st member_state_space [OF cur True]] by simp
  next
    case False
    then obtain ex' st' where step: "json_step ex st t = Some (ex', st')" and run': "json_run ex' st' ts"
      using run by (auto split: option.splits)
    have ne: "st \<noteq> []" using st(1) by auto
    from step ne show ?thesis
    proof (cases rule: json_step_cases)
      case (opens obj)
      then have "membered (cur @ [t])" using cur by (auto intro: keyed_append)
      then show ?thesis using Cons.IH [OF run', of "Suc k" "cur @ [t]"] st opens(1,2) ne by (auto simp: member_state_deep)
    next
      case closes
      show ?thesis
      proof (cases k)
        case 0
        then have "json_split k cur (t # ts) = [cur]" "membered cur \<or> ex = EKeyOrClose \<and> list_all is_jspace cur"
          using closes(1,4) cur step by (cases ex; auto)+
        then show ?thesis using 0 by (simp only:) auto
      next
        case (Suc k')
        then have "tl st \<noteq> []" using st(1) by (cases st) auto
        then have tl: "length st' = Suc k'" "last st'" "ex' = ECommaOrClose"
          using st Suc closes(2,3) by (simp_all add: last_tl after_value_def)
        have "membered (cur @ [t])" using cur Suc by (simp add: member_state_deep keyed_append)
        then have "member_state k' ex' (cur @ [t])" by (simp add: tl(3))
        then show ?thesis using Cons.IH [OF run' tl(1,2), of "cur @ [t]"] closes(1) Suc by auto
      qed
    next
      case comma
      show ?thesis
      proof (cases "k = 0")
        case True
        then have h: "hd st" using st by (cases st) auto
        have "\<forall>ps\<in>set (json_split 0 [] ts). membered ps"
          using Cons.IH [OF run', of 0 "[]"] comma True st h by simp
        then show ?thesis using comma True cur by auto
      next
        case False
        then have ms: "member_state k ex' (cur @ [t])" using cur by (simp add: member_state_deep keyed_append)
        have sp: "json_split k cur (t # ts) = json_split k (cur @ [t]) ts" using comma(1) False by simp
        have "length st' = Suc k" "last st'" using comma(2) st by simp_all
        from Cons.IH [OF run' this ms] show ?thesis unfolding sp using False by simp
      qed
    next
      case scalar
      then have sp: "json_split k cur (t # ts) = json_split k (cur @ [t]) ts" by auto
      have "member_state k ex' (cur @ [t])"
      proof (cases "k = 0")
        case True
        moreover have "ex \<noteq> EEnd" using step by auto
        ultimately show ?thesis using cur scalar by (cases ex) (auto intro: keyed_append)
      next
        case False
        then show ?thesis using cur by (simp add: member_state_deep keyed_append)
      qed
      note ms = this
      have "ex' \<noteq> EKeyOrClose" using scalar(5-7) scalar(4) step by (cases ex) auto
      moreover have "length st' = Suc k" "last st'" using scalar(2) st by simp_all
      ultimately show ?thesis using Cons.IH [OF run' _ _ ms] unfolding sp by simp
    qed
  qed
qed simp

text \<open>The tokens after the opening bracket of a valid container.\<close>

lemma json_inner_run:
  assumes "json_Valid s" "json_inner b s = Some inner" "b = CHR ''{'' \<or> b = CHR ''[''"
  shows "json_run (if b = CHR ''{'' then EKeyOrClose else EValueOrClose) [b = CHR ''{''] inner"
proof -
  obtain ts where ts: "json_lex s = Some ts" "dropWhile is_jspace ts = JPunct b # inner"
    using json_inner_lex [OF assms(2)] by blast
  have "json_run ex st us = json_run ex st (dropWhile is_jspace us)" for ex st us by (induction us) auto
  then have "json_run EValue [] (JPunct b # inner)" using assms(1) ts by (metis (mono_tags, lifting) json_Valid_def option.simps(5))
  then show ?thesis using assms(3) by (auto simp: start_value_def open_container_def maxNestingDepth_def)
qed

lemma inked_strip: "inked ps \<Longrightarrow> strip_space ps \<noteq> []"
  using strip_space_Nil by (auto simp: inked_def)

lemma json_split_prefix:
  "json_split k cur ts \<noteq> []" "set cur \<subseteq> set (hd (json_split k cur ts))"
proof -
  show "json_split k cur ts \<noteq> []" by (induction ts arbitrary: k cur) simp_all
  have "x \<in> set cur \<Longrightarrow> x \<in> set (hd (json_split k cur ts))" for x
    by (induction ts arbitrary: k cur) simp_all
  then show "set cur \<subseteq> set (hd (json_split k cur ts))" by blast
qed

lemma json_run_end: "json_run EEnd st ts \<Longrightarrow> list_all is_jspace ts"
  by (induction ts) (auto split: if_splits)

lemma json_parts_of_array:
  assumes "json_Valid s" "json_inner CHR ''['' s = Some inner"
  shows "[] \<notin> set (json_parts inner)"
    "json_parts inner = [] \<Longrightarrow> \<exists>ps. json_split 0 [] inner = [ps] \<and> list_all is_jspace ps"
proof -
  note run = json_inner_run [OF assms, simplified]
  have split: "(\<forall>ps\<in>set (json_split 0 [] inner). inked ps) \<or> (\<exists>ps. json_split 0 [] inner = [ps])"
    using json_split_inked [OF run, of 0 "[]"] by auto
  then show "[] \<notin> set (json_parts inner)"
  proof
    assume "\<forall>ps\<in>set (json_split 0 [] inner). inked ps"
    then have "[] \<notin> set (map strip_space (json_split 0 [] inner))" using inked_strip by fastforce
    then show ?thesis by (simp add: json_parts_def Let_def)
  next
    assume "\<exists>ps. json_split 0 [] inner = [ps]"
    then show ?thesis by (auto simp: json_parts_def Let_def)
  qed
  show "\<exists>ps. json_split 0 [] inner = [ps] \<and> list_all is_jspace ps" if "json_parts inner = []"
    using that strip_space_Nil json_split_prefix(1) [of 0 "[]" inner]
    by (auto simp: json_parts_def Let_def list_all_iff split: if_splits)
qed

lemma json_parts_of_object:
  assumes "json_Valid s" "json_inner CHR ''{'' s = Some inner"
  shows "None \<notin> set (map json_member (json_parts inner))"
    "json_parts inner = [] \<Longrightarrow> \<exists>ps. json_split 0 [] inner = [ps] \<and> list_all is_jspace ps"
proof -
  note run = json_inner_run [OF assms, simplified]
  have "(\<forall>ps\<in>set (json_split 0 [] inner). membered ps) \<or> (\<exists>ps. json_split 0 [] inner = [ps] \<and> list_all is_jspace ps)"
    using json_split_members [OF run, of 0 "[]"] by auto
  then show "None \<notin> set (map json_member (json_parts inner))"
  proof
    assume "\<forall>ps\<in>set (json_split 0 [] inner). membered ps"
    then have "\<forall>ps\<in>set (map strip_space (json_split 0 [] inner)). json_member ps \<noteq> None" using membered_member by auto
    then show ?thesis by (auto simp: json_parts_def Let_def)
  next
    assume "\<exists>ps. json_split 0 [] inner = [ps] \<and> list_all is_jspace ps"
    then have "map strip_space (json_split 0 [] inner) = [[]]" by (auto simp: strip_space_Nil list_all_iff)
    then show ?thesis by (simp add: json_parts_def)
  qed
  show "\<exists>ps. json_split 0 [] inner = [ps] \<and> list_all is_jspace ps" if "json_parts inner = []"
    using that strip_space_Nil json_split_prefix(1) [of 0 "[]" inner]
    by (auto simp: json_parts_def Let_def list_all_iff split: if_splits)
qed

text \<open>A container without parts is its brackets around white space.\<close>

lemma json_split_blank:
  assumes "json_split 0 cur ts = [ps]" "list_all is_jspace ps" "json_run ex [b] ts" "ex = EKeyOrClose \<or> ex = EValueOrClose"
    "list_all is_jspace cur"
  shows "\<exists>as c rest. ts = as @ c # rest \<and> ps = cur @ as \<and> length (jraw c) = 1 \<and> list_all is_jspace rest"
  using assms
proof (induction ts arbitrary: cur)
  case (Cons t ts)
  show ?case
  proof (cases "is_jspace t")
    case True
    then have "json_split 0 cur (t # ts) = json_split 0 (cur @ [t]) ts" "json_run ex [b] ts" using Cons.prems(3) by auto
    then obtain as c rest where "ts = as @ c # rest" "ps = (cur @ [t]) @ as" "length (jraw c) = 1" "list_all is_jspace rest"
      using Cons.IH [of "cur @ [t]"] Cons.prems True by auto
    then show ?thesis by (intro exI [of _ "t # as"]) auto
  next
    case False
    have t: "t \<notin> set ps" using False Cons.prems(2) by (auto simp: list_all_iff)
    have kept: "json_split k (cur @ [t]) ts \<noteq> [ps]" for k
      using json_split_prefix(2) [of "cur @ [t]" k ts] t by auto
    have "t = JPunct CHR ''}'' \<or> t = JPunct CHR '']''"
    proof (rule ccontr)
      assume "\<not> ?thesis"
      then show False using Cons.prems(1) kept json_split_prefix(1) [of 0 "[]" ts] by (simp split: if_splits)
    qed
    then have "ps = cur" "json_run EEnd [] ts \<and> length (jraw t) = 1"
      using Cons.prems(1,3,4) by (auto simp: close_container_def after_value_def start_value_def)
    then show ?thesis using json_run_end by (intro exI [of _ "[]"]) auto
  qed
qed auto

end
