(* ===== verification/Api_Handlers.thy ===== *)
theory Api_Handlers
  imports System Server_Config Go_JsonScan
begin

text \<open>
  internal/api/handlers: one definition per operation of the API, from the context that the
  middleware leaves and the decoded request to the status and the body of the answer, with the
  mapping of every error of the services (errors.go). The bodies are typed; their JSON text,
  the log lines and the response headers are left out. The data of an event travels as the
  JSON text of the store, and a label map as an association list.
\<close>

section \<open>Requests and answers\<close>

record create_session_request =
  csr_Client :: "string option"
  csr_Labels :: "(string \<times> string) list option"
  csr_TtlMinutes :: "int option"

record ingest_request =
  igr_Source :: string
  igr_Content :: string
  igr_Format :: "string option"
  igr_ContentType :: "string option"

record search_request =
  srq_Queries :: "string list"
  srq_Source :: "string option"
  srq_BudgetBytes :: "int option"
  srq_Limit :: "int option"
  srq_Offset :: "int option"

record feedback_request =
  fbr_CorrelationId :: string
  fbr_Outcome :: string

record api_event =
  ae_Id :: int
  ae_Type :: string
  ae_Priority :: int
  ae_Data :: string
  ae_CreatedAt :: int

record api_hit =
  ah_Title :: string
  ah_Snippet :: string
  ah_Source :: string
  ah_MatchLayer :: string
  ah_Truncated :: "bool option"

record managed_session =
  mg_Namespace :: string
  mg_Client :: string
  mg_TtlMinutes :: int
  mg_CreatedAt :: int
  mg_LastActivity :: int
  mg_EventCount :: nat
  mg_Labels :: "(string \<times> string) list option"

text \<open>One constructor per body of the generated response types.\<close>

datatype api_reply =
    NoContent
  | ErrorReply string "string option"
  | RateLimitedReply string string
  | TooLargeReply int
  | HealthReply bool
  | VersionReply string
  | ClientReply string string int "string option"
  | RotatedReply string string string int
  | SessionReply string created
  | SourcesReply "(string \<times> nat \<times> int) list"
  | SnapshotReply int bool "api_event list"
  | IngestReply string nat nat bool "ingest_section list" "string list"
  | SearchReply "(string \<times> api_hit list \<times> nat) list" int bool int "int option"
  | AcceptedReply nat
  | EventsReply "api_event list"
  | ManagedReply "managed_session list"
  | AffectedReply nat
  | DeletedSessionsReply nat cascade_counts
  | ClientsReply "(string \<times> nat \<times> int option) list"
  | DeletedClientReply string nat cascade_counts

type_synonym answer = "nat \<times> api_reply"

text \<open>What the middleware puts into the context of a request, and the configuration of the handlers:
  with the chunkers, the format detector and the quoting of a string in a message (\<open>strconv.Quote\<close>).\<close>

record request_ctx =
  rc_Namespace :: string
  rc_Client :: string
  rc_Metadata :: "session_metadata option"
  rc_CorrelationID :: "string option"

record handlers_config =
  hc_Registry :: memoryRegistry
  hc_DefaultTTLMinutes :: int
  hc_MaxTTLMinutes :: int
  hc_SearchMaxBudgetBytes :: int
  hc_Version :: string
  hc_Chunkers :: registry
  hc_Detect :: "string \<Rightarrow> string"
  hc_Quote :: "string \<Rightarrow> string"

definition uuid_Nil :: string where "uuid_Nil = ''00000000-0000-0000-0000-000000000000''"

definition correlationIDOrNil :: "request_ctx \<Rightarrow> string" where
  "correlationIDOrNil cx = (case rc_CorrelationID cx of Some cid \<Rightarrow> cid | None \<Rightarrow> uuid_Nil)"

section \<open>Errors\<close>

record errorMapping =
  em_Status :: nat
  em_Code :: string
  em_Detail :: string

definition error_mapping :: "nat \<Rightarrow> string \<Rightarrow> string \<Rightarrow> errorMapping option" where
  "error_mapping st c d = Some \<lparr>em_Status = st, em_Code = c, em_Detail = d\<rparr>"

definition session_missing :: "errorMapping option" where
  "session_missing = error_mapping 404 ''session_not_found'' ''session not found in this namespace''"

definition namespace_missing :: "errorMapping option" where
  "namespace_missing = error_mapping 400 ''invalid_request'' ''namespace is required''"

fun mapSessionError :: "svc_error \<Rightarrow> errorMapping option" where
  "mapSessionError (DbError ErrSessionExists) = error_mapping 409 ''session_exists'' ''session already exists in this namespace''"
| "mapSessionError (DbError ErrSessionNotFound) = session_missing"
| "mapSessionError (DbError ErrSessionTokenHashRequired) = error_mapping 400 ''invalid_request'' ''session token is required''"
| "mapSessionError (DbError ErrInvalidTTL) = error_mapping 400 ''invalid_request'' ''ttl_minutes must be a positive integer''"
| "mapSessionError (DbError ErrNamespaceRequired) = namespace_missing"
| "mapSessionError (DbError ErrClientNotFound) =
     error_mapping 400 ''client_not_found'' ''client must be registered before sessions can reference it''"
| "mapSessionError _ = None"

fun mapClientError :: "svc_error \<Rightarrow> errorMapping option" where
  "mapClientError (DbError ErrClientExists) = error_mapping 409 ''client_exists'' ''client already registered in this namespace''"
| "mapClientError (DbError ErrClientNotFound) = error_mapping 404 ''client_not_found'' ''client not found in this namespace''"
| "mapClientError (DbError ErrClientProtected) =
     error_mapping 409 ''client_protected'' ''the default client is the bootstrap fallback for sessions that name no client and cannot be deleted''"
| "mapClientError (DbError ErrClientNameRequired) = error_mapping 400 ''invalid_request'' ''client name is required''"
| "mapClientError (DbError ErrInvalidClientCredential) = error_mapping 401 ''invalid_credential'' ''invalid client credential''"
| "mapClientError (DbError ErrNamespaceRequired) = namespace_missing"
| "mapClientError _ = None"

fun mapEventsError :: "svc_error \<Rightarrow> errorMapping option" where
  "mapEventsError (DbError ErrSessionNotFound) = session_missing"
| "mapEventsError (DbError ErrInvalidPriority) = error_mapping 400 ''invalid_priority'' ''event priority must be in [1,4]''"
| "mapEventsError (DbError ErrInvalidLimit) = error_mapping 400 ''invalid_request'' ''limit must be a positive integer''"
| "mapEventsError (DbError ErrNamespaceRequired) = namespace_missing"
| "mapEventsError _ = None"

fun mapIngestError :: "svc_error \<Rightarrow> errorMapping option" where
  "mapIngestError (DbError ErrSessionNotFound) = session_missing"
| "mapIngestError (DbError ErrSourceRequired) = error_mapping 400 ''invalid_request'' ''source label is required''"
| "mapIngestError (DbError ErrNamespaceRequired) = namespace_missing"
| "mapIngestError _ = None"

fun mapSearchError :: "svc_error \<Rightarrow> errorMapping option" where
  "mapSearchError (DbError ErrSessionNotFound) = session_missing"
| "mapSearchError (DbError ErrQueryRequired) = error_mapping 400 ''invalid_request'' ''at least one query is required''"
| "mapSearchError (DbError ErrInvalidLimit) = error_mapping 400 ''invalid_request'' ''limit must be a positive integer''"
| "mapSearchError (DbError ErrNamespaceRequired) = namespace_missing"
| "mapSearchError _ = None"

fun mapFeedbackError :: "feedback_error \<Rightarrow> errorMapping option" where
  "mapFeedbackError ErrFeedbackWindowExpired =
     error_mapping 410 ''feedback_window_expired'' ''correlation_id is older than the feedback acceptance window''"
| "mapFeedbackError ErrInvalidCorrelationID = error_mapping 400 ''invalid_correlation_id'' ''correlation_id is not a valid UUIDv7''"
| "mapFeedbackError (FbDb ErrCorrelationNotFound) =
     error_mapping 404 ''correlation_not_found'' ''correlation not found within the resolved session''"
| "mapFeedbackError (FbDb ErrFeedbackAlreadySubmitted) =
     error_mapping 409 ''feedback_already_submitted'' ''feedback already submitted for this correlation''"
| "mapFeedbackError (FbDb e) = None"

text \<open>Every error that a handler returns ends in \<open>StrictErrorHandler\<close> (respond.go). A panic ends in the recovery.\<close>

definition unexpected_error :: answer where
  "unexpected_error = (500, ErrorReply ''internal_error'' (Some ''unexpected error''))"

definition panic_answer :: answer where
  "panic_answer = (500, ErrorReply ''internal server error'' None)"

text \<open>A mapped error has an answer only under the statuses that the operation declares.\<close>

definition mapped_answer :: "nat list \<Rightarrow> errorMapping option \<Rightarrow> answer" where
  "mapped_answer declared m =
     (case m of
        Some e \<Rightarrow> if em_Status e \<in> set declared then (em_Status e, ErrorReply (em_Code e) (Some (em_Detail e))) else unexpected_error
      | None \<Rightarrow> unexpected_error)"

definition invalid_request :: "string \<Rightarrow> answer" where
  "invalid_request d = (400, ErrorReply ''invalid_request'' (Some d))"

abbreviation missing_body :: answer where "missing_body \<equiv> invalid_request ''missing request body''"

section \<open>Operational\<close>

type_synonym ('c, 'i) handling = "('c, 'i) svc \<Rightarrow> answer \<times> ('c, 'i) svc"

text \<open>The health check is a ping, a statement without effect.\<close>

definition Handle_GetHealth :: "('c, 'i) handling" where
  "Handle_GetHealth s =
     (case on_db (query (\<lambda>_. Inr ())) s of
        (Inl e, s') \<Rightarrow> ((503, HealthReply False), s')
      | (Inr _, s') \<Rightarrow> ((200, HealthReply True), s'))"

definition Handle_GetVersion :: "handlers_config \<Rightarrow> ('c, 'i) handling" where
  "Handle_GetVersion cfg s = ((200, VersionReply (hc_Version cfg)), s)"

section \<open>Clients\<close>

definition quoted_client :: "handlers_config \<Rightarrow> string \<Rightarrow> string \<Rightarrow> string \<Rightarrow> string" where
  "quoted_client cfg name between ns = ''client '' @ hc_Quote cfg name @ between @ hc_Quote cfg ns"

definition mapRegisterClientError :: "handlers_config \<Rightarrow> svc_error \<Rightarrow> string \<Rightarrow> string \<Rightarrow> answer option" where
  "mapRegisterClientError cfg err ns name =
     (case mapClientError err of
        None \<Rightarrow> None
      | Some m \<Rightarrow>
          if em_Status m = 409
          then Some (409, ErrorReply (em_Code m) (Some (quoted_client cfg name '' already registered in namespace '' ns)))
          else if em_Status m = 400 then Some (400, ErrorReply (em_Code m) (Some (em_Detail m)))
          else None)"

definition or_unexpected :: "answer option \<Rightarrow> answer" where
  "or_unexpected a = (case a of Some x \<Rightarrow> x | None \<Rightarrow> unexpected_error)"

definition registerUncredentialedClient :: "handlers_config \<Rightarrow> string \<Rightarrow> string \<Rightarrow> ('c, 'i) handling" where
  "registerUncredentialedClient cfg ns name s =
     (case on_db (Register ns name) s of
        (Inl e, s') \<Rightarrow> (or_unexpected (mapRegisterClientError cfg e ns name), s')
      | (Inr False, s') \<Rightarrow>
          ((409, ErrorReply ''client_exists'' (Some (quoted_client cfg name '' already registered in namespace '' ns))), s')
      | (Inr True, s') \<Rightarrow> ((201, ClientReply name ns (app_now (sv_db s')) None), s'))"

definition registerCredentialedClient :: "handlers_config \<Rightarrow> (string \<Rightarrow> string) \<Rightarrow> nat list option \<Rightarrow> string \<Rightarrow> string \<Rightarrow> ('c, 'i) handling" where
  "registerCredentialedClient cfg sha rnd ns name s =
     (case Register_Credential sha rnd ns name (sv_db s) of
        (Inl e, d) \<Rightarrow> (or_unexpected (mapRegisterClientError cfg e ns name), s\<lparr>sv_db := d\<rparr>)
      | (Inr token, d) \<Rightarrow> ((201, ClientReply name ns (app_now d) (Some token)), s\<lparr>sv_db := d\<rparr>))"

definition Handle_RegisterClient ::
    "handlers_config \<Rightarrow> (string \<Rightarrow> string) \<Rightarrow> nat list option \<Rightarrow> request_ctx \<Rightarrow> string \<Rightarrow> ('c, 'i) handling" where
  "Handle_RegisterClient cfg sha rnd cx name s =
     (let ns = rc_Namespace cx in
      if ns = [] then (unexpected_error, s)
      else if RequiresClientCredentials (hc_Registry cfg) ns then registerCredentialedClient cfg sha rnd ns name s
      else registerUncredentialedClient cfg ns name s)"

definition Handle_RotateClientToken ::
    "handlers_config \<Rightarrow> (string \<Rightarrow> string) \<Rightarrow> nat list option \<Rightarrow> request_ctx \<Rightarrow> string \<Rightarrow> ('c, 'i) handling" where
  "Handle_RotateClientToken cfg sha rnd cx name s =
     (let ns = rc_Namespace cx in
      if ns = [] then (unexpected_error, s)
      else if rc_Client cx = [] \<or> rc_Client cx \<noteq> name then ((401, ErrorReply ''unauthorized'' None), s)
      else case RotateToken sha rnd ns name (sv_db s) of
             (Inl e, d) \<Rightarrow>
               (if e = DbError ErrClientNotFound
                then (404, ErrorReply ''client_not_found'' (Some (quoted_client cfg name '' not found in namespace '' ns)))
                else unexpected_error, s\<lparr>sv_db := d\<rparr>)
           | (Inr token, d) \<Rightarrow> ((200, RotatedReply name ns token (app_now d)), s\<lparr>sv_db := d\<rparr>))"

section \<open>Sessions\<close>

text \<open>The session that \<open>CreateSession\<close> asks for; None for a body that names another client than the authenticated one.\<close>

definition committed_ttl :: "handlers_config \<Rightarrow> create_session_request \<Rightarrow> int" where
  "committed_ttl cfg body =
     (let ttl = (case csr_TtlMinutes body of Some t \<Rightarrow> t | None \<Rightarrow> hc_DefaultTTLMinutes cfg) in
      if hc_MaxTTLMinutes cfg < ttl then hc_MaxTTLMinutes cfg else ttl)"

definition session_client :: "request_ctx \<Rightarrow> create_session_request \<Rightarrow> string option" where
  "session_client cx body =
     (if rc_Client cx \<noteq> [] then
        (case csr_Client body of
           Some c \<Rightarrow> if c \<noteq> rc_Client cx then None else Some (rc_Client cx)
         | None \<Rightarrow> Some (rc_Client cx))
      else (case csr_Client body of Some c \<Rightarrow> Some c | None \<Rightarrow> Some []))"

definition client_mismatch :: "handlers_config \<Rightarrow> string \<Rightarrow> string \<Rightarrow> answer" where
  "client_mismatch cfg c authClient =
     (400, ErrorReply ''client_mismatch''
        (Some (''body client '' @ hc_Quote cfg c @ '' does not match authenticated client '' @ hc_Quote cfg authClient)))"

definition Handle_CreateSession ::
    "handlers_config \<Rightarrow> (string \<Rightarrow> string) \<Rightarrow> nat list option \<Rightarrow> request_ctx \<Rightarrow> create_session_request option \<Rightarrow> string option
     \<Rightarrow> ('c, 'i) handling" where
  "Handle_CreateSession cfg sha rnd cx body idempotencyKey s =
     (case body of
        None \<Rightarrow> (missing_body, s)
      | Some b \<Rightarrow>
          let ns = rc_Namespace cx in
          if ns = [] then (unexpected_error, s)
          else case session_client cx b of
                 None \<Rightarrow> (client_mismatch cfg (the (csr_Client b)) (rc_Client cx), s)
               | Some client \<Rightarrow>
                   (case Session_Create sha rnd
                           \<lparr>cr_Namespace = ns, cr_Client = client, cr_TTLMinutes = committed_ttl cfg b,
                            cr_Labels = (case csr_Labels b of Some ls \<Rightarrow> ls | None \<Rightarrow> [])\<rparr>
                           (case idempotencyKey of Some k \<Rightarrow> k | None \<Rightarrow> []) s of
                      (Inl e, s') \<Rightarrow> (mapped_answer [409, 400] (mapSessionError e), s')
                    | (Inr cd, s') \<Rightarrow> ((201, SessionReply ns cd), s')))"

definition Handle_DeleteSession :: "(string \<Rightarrow> string) \<Rightarrow> request_ctx \<Rightarrow> string \<Rightarrow> ('c, 'i) handling" where
  "Handle_DeleteSession sha cx token s =
     (if rc_Metadata cx = None then (unexpected_error, s)
      else case Session_Delete sha (rc_Namespace cx) token s of
             (Inl e, s') \<Rightarrow> (mapped_answer [404] (mapSessionError e), s')
           | (Inr r, s') \<Rightarrow> ((204, NoContent), s'))"

text \<open>\<open>json.Unmarshal\<close> of stored data into a map.\<close>

definition decodes_to_map :: "string \<Rightarrow> bool" where
  "decodes_to_map data \<longleftrightarrow> data = [] \<or>
     json_Valid data \<and> (case json_lex data of
        None \<Rightarrow> False
      | Some ts \<Rightarrow> (case filter (\<lambda>t. \<not> is_jspace t) ts of t # _ \<Rightarrow> t = JPunct (CHR ''{'') \<or> t = JLit ''null'' | [] \<Rightarrow> False))"

definition api_event_of :: "event_row \<Rightarrow> api_event" where
  "api_event_of e = \<lparr>ae_Id = ev_id e, ae_Type = ev_type e, ae_Priority = ev_priority e,
     ae_Data = (if ev_data e = [] then ''{}'' else ev_data e), ae_CreatedAt = ev_created e\<rparr>"

text \<open>None when the data of one of the events does not decode.\<close>

definition event_list :: "event_row list \<Rightarrow> api_event list option" where
  "event_list es = (if list_all (\<lambda>e. decodes_to_map (ev_data e)) es then Some (map api_event_of es) else None)"

definition Handle_GetSnapshot :: "(int \<Rightarrow> string) \<Rightarrow> request_ctx \<Rightarrow> int option \<Rightarrow> ('c, 'i) handling" where
  "Handle_GetSnapshot stamp cx budgetBytes s =
     (case rc_Metadata cx of
        None \<Rightarrow> (unexpected_error, s)
      | Some md \<Rightarrow>
          (case on_db (Build stamp (rc_Namespace cx) (md_ID md) (correlationIDOrNil cx)
                   (case budgetBytes of Some b \<Rightarrow> b | None \<Rightarrow> DefaultBudgetBytes)) s of
             (Inl e, s') \<Rightarrow> (mapped_answer [404] (mapEventsError e), s')
           | (Inr r, s') \<Rightarrow>
               (case event_list (sn_Events r) of
                  None \<Rightarrow> (unexpected_error, s')
                | Some es \<Rightarrow> ((200, SnapshotReply (sn_ByteBudgetUsed r) (sn_BudgetExceeded r) es), s'))))"

definition Handle_ListSources :: "request_ctx \<Rightarrow> ('c, 'i) handling" where
  "Handle_ListSources cx s =
     (case rc_Metadata cx of
        None \<Rightarrow> (unexpected_error, s)
      | Some md \<Rightarrow>
          (case on_db (ListSources (rc_Namespace cx) (md_ID md)) s of
             (Inl e, s') \<Rightarrow> (mapped_answer [404] (mapIngestError e), s')
           | (Inr srcs, s') \<Rightarrow> ((200, SourcesReply srcs), s')))"

section \<open>Ingest and search\<close>

definition ingest_input_of :: "ingest_request \<Rightarrow> ingest_input" where
  "ingest_input_of b = \<lparr>inp_Source = igr_Source b, inp_Content = igr_Content b,
     inp_Format = (case igr_Format b of Some f \<Rightarrow> f | None \<Rightarrow> []),
     inp_ContentType = (case igr_ContentType b of Some c \<Rightarrow> c | None \<Rightarrow> [])\<rparr>"

definition ingest_reply :: "ingest_result \<Rightarrow> api_reply" where
  "ingest_reply r = IngestReply (ir_Source r) (ir_SectionsIndexed r) (ir_SectionsTotal r) (ir_SummaryTruncated r)
     (ir_Summary r) (ir_DistinctiveTerms r)"

text \<open>Where chunking does not return, the timeout of the server answers.\<close>

definition timeout_answer :: answer where
  "timeout_answer = (503, ErrorReply ''request timeout'' None)"

definition Handle_Ingest :: "handlers_config \<Rightarrow> lexer \<Rightarrow> request_ctx \<Rightarrow> ingest_request option \<Rightarrow> ('c, 'i) handling" where
  "Handle_Ingest cfg lx cx body s =
     (case body of
        None \<Rightarrow> (missing_body, s)
      | Some b \<Rightarrow>
          (case rc_Metadata cx of
             None \<Rightarrow> (unexpected_error, s)
           | Some md \<Rightarrow>
               (case Ingest (hc_Chunkers cfg) (hc_Detect cfg) lx (rc_Namespace cx) (md_ID md) (correlationIDOrNil cx)
                       (ingest_input_of b) of
                  None \<Rightarrow> (timeout_answer, s)
                | Some m \<Rightarrow>
                    (case on_db m s of
                       (Inl e, s') \<Rightarrow> (mapped_answer [404, 400] (mapIngestError e), s')
                     | (Inr r, s') \<Rightarrow> ((200, ingest_reply r), s')))))"

definition api_defaultSearchLimit :: int where "api_defaultSearchLimit = 5"
definition searchDefaultBudgetBytes :: int where "searchDefaultBudgetBytes = 4096"

definition searchBudget :: "handlers_config \<Rightarrow> int option \<Rightarrow> int" where
  "searchBudget cfg requested =
     (let budget = (case requested of Some b \<Rightarrow> if 0 < b then b else searchDefaultBudgetBytes | None \<Rightarrow> searchDefaultBudgetBytes);
          ceiling = hc_SearchMaxBudgetBytes cfg
      in if 0 < ceiling \<and> ceiling < budget then ceiling else budget)"

definition resolveAllocator :: "handlers_config \<Rightarrow> string \<Rightarrow> string option \<Rightarrow> Variant" where
  "resolveAllocator cfg ns header =
     (let variant = (case DefaultAllocatorFor (hc_Registry cfg) ns of
                       Some a \<Rightarrow> (case ParseVariant a of Some v \<Rightarrow> v | None \<Rightarrow> RankRound)
                     | None \<Rightarrow> RankRound)
      in case header of
           Some h \<Rightarrow>
             if AllowAllocatorOverride (hc_Registry cfg) ns
             then (case ParseVariant h of Some v \<Rightarrow> v | None \<Rightarrow> variant) else variant
         | None \<Rightarrow> variant)"

definition api_hit_of :: "'f db_hit \<Rightarrow> api_hit" where
  "api_hit_of h = \<lparr>ah_Title = hTitle h, ah_Snippet = hSnippet h, ah_Source = hSource h, ah_MatchLayer = hMatchLayer h,
     ah_Truncated = (if hTruncated h then Some True else None)\<rparr>"

definition search_reply :: "'f search_result \<Rightarrow> api_reply" where
  "search_reply r =
     SearchReply (map (\<lambda>q. (qr_Query q, map api_hit_of (qr_Hits q), qr_BudgetOmitted q)) (sr_Queries r))
       (sr_ByteBudgetUsed r) (sr_BudgetExceeded r) (sr_BudgetBytes r) (sr_NextOffset r)"

text \<open>The call of the service behind a body: None asks for a source or a query.\<close>

definition search_dispatch ::
    "handlers_config \<Rightarrow> 'f fops \<Rightarrow> unicode \<Rightarrow> 'f text_search \<Rightarrow> request_ctx \<Rightarrow> session_metadata \<Rightarrow> search_request \<Rightarrow> string option
     \<Rightarrow> 'f search_result dbm option" where
  "search_dispatch cfg F U T cx md b header =
     (let source = (case srq_Source b of Some x \<Rightarrow> x | None \<Rightarrow> []);
          budget = searchBudget cfg (srq_BudgetBytes b);
          ns = rc_Namespace cx; cid = correlationIDOrNil cx
      in if srq_Queries b = [] then
           (if source = [] then None
            else Some (DocumentOrder F ns (md_ID md) cid source (case srq_Limit b of Some l \<Rightarrow> l | None \<Rightarrow> 0)
                   (case srq_Offset b of Some off \<Rightarrow> if 0 < off then off else 0 | None \<Rightarrow> 0) budget))
         else Some (Search F U T ns (md_ID md) cid
                \<lparr>inSessionID = md_ID md, inQuery = [], inSource = source,
                 inLimit = (case srq_Limit b of Some l \<Rightarrow> l | None \<Rightarrow> api_defaultSearchLimit)\<rparr>
                (srq_Queries b) budget (resolveAllocator cfg ns header)))"

definition Handle_Search ::
    "handlers_config \<Rightarrow> 'f fops \<Rightarrow> unicode \<Rightarrow> 'f text_search \<Rightarrow> request_ctx \<Rightarrow> search_request option \<Rightarrow> string option
     \<Rightarrow> ('c, 'i) handling" where
  "Handle_Search cfg F U T cx body header s =
     (case body of
        None \<Rightarrow> (missing_body, s)
      | Some b \<Rightarrow>
          (case rc_Metadata cx of
             None \<Rightarrow> (unexpected_error, s)
           | Some md \<Rightarrow>
               (case search_dispatch cfg F U T cx md b header of
                  None \<Rightarrow> (invalid_request ''either queries or source is required'', s)
                | Some m \<Rightarrow>
                    (case on_db m s of
                       (Inl e, s') \<Rightarrow> (mapped_answer [404, 400] (mapSearchError e), s')
                     | (Inr r, s') \<Rightarrow> ((200, search_reply r), s')))))"

section \<open>Events and feedback\<close>

definition Handle_WriteEvents :: "(string \<Rightarrow> string) \<Rightarrow> request_ctx \<Rightarrow> event_input list option \<Rightarrow> ('c, 'i) handling" where
  "Handle_WriteEvents sha cx body s =
     (case body of
        None \<Rightarrow> (missing_body, s)
      | Some evs \<Rightarrow>
          (case rc_Metadata cx of
             None \<Rightarrow> (unexpected_error, s)
           | Some md \<Rightarrow>
               (case on_db (Events_Write sha (rc_Namespace cx) (md_ID md) evs) s of
                  (Inl e, s') \<Rightarrow> (mapped_answer [404, 400] (mapEventsError e), s')
                | (Inr n, s') \<Rightarrow> ((202, AcceptedReply n), s'))))"

definition read_filter :: "string list option \<Rightarrow> int option \<Rightarrow> int option \<Rightarrow> event_filter" where
  "read_filter types minPriority limit =
     \<lparr>ef_types = (case types of Some ts \<Rightarrow> ts | None \<Rightarrow> []), ef_min_priority = (case minPriority of Some p \<Rightarrow> p | None \<Rightarrow> 0),
      ef_limit = (case limit of Some l \<Rightarrow> l | None \<Rightarrow> 0)\<rparr>"

definition Handle_ReadEvents :: "request_ctx \<Rightarrow> string list option \<Rightarrow> int option \<Rightarrow> int option \<Rightarrow> ('c, 'i) handling" where
  "Handle_ReadEvents cx types minPriority limit s =
     (case rc_Metadata cx of
        None \<Rightarrow> (unexpected_error, s)
      | Some md \<Rightarrow>
          (case on_db (Events_Read (rc_Namespace cx) (md_ID md) (read_filter types minPriority limit)) s of
             (Inl e, s') \<Rightarrow> (mapped_answer [404] (mapEventsError e), s')
           | (Inr es, s') \<Rightarrow>
               (case event_list es of None \<Rightarrow> (unexpected_error, s') | Some out \<Rightarrow> ((200, EventsReply out), s'))))"

definition defaultFeedbackTTLMinutes :: int where "defaultFeedbackTTLMinutes = 60"

definition feedback_ttl :: "handlers_config \<Rightarrow> string \<Rightarrow> int" where
  "feedback_ttl cfg ns =
     (case FeedbackTTLFor (hc_Registry cfg) ns of
        Some t \<Rightarrow> if t = 0 then defaultFeedbackTTLMinutes else t
      | None \<Rightarrow> defaultFeedbackTTLMinutes)"

definition Handle_Feedback :: "handlers_config \<Rightarrow> uuid_pkg \<Rightarrow> request_ctx \<Rightarrow> feedback_request option \<Rightarrow> ('c, 'i) handling" where
  "Handle_Feedback cfg U cx body s =
     (let ns = rc_Namespace cx in
      if ns = [] then (unexpected_error, s)
      else case rc_Metadata cx of
             None \<Rightarrow> (unexpected_error, s)
           | Some md \<Rightarrow>
               (case body of
                  None \<Rightarrow> (panic_answer, s)
                | Some b \<Rightarrow>
                    (case Receive U ns (md_ID md) (fbr_CorrelationId b) (fbr_Outcome b) (feedback_ttl cfg ns) (sv_db s) of
                       (Inl e, d) \<Rightarrow> (mapped_answer [410, 404, 409, 400] (mapFeedbackError e), s\<lparr>sv_db := d\<rparr>)
                     | (Inr rec, d) \<Rightarrow> ((204, NoContent), s\<lparr>sv_db := d\<rparr>))))"

section \<open>Management\<close>

definition manageSessionsFilter :: "string \<Rightarrow> string option \<Rightarrow> (string \<times> string) list option \<Rightarrow> session_filter" where
  "manageSessionsFilter ns client labels =
     \<lparr>sf_namespace = ns, sf_client = (case client of Some c \<Rightarrow> c | None \<Rightarrow> []),
      sf_labels = (case labels of Some ls \<Rightarrow> ls | None \<Rightarrow> [])\<rparr>"

definition toManagedSession :: "session_row \<times> (string \<times> string) list \<times> nat \<Rightarrow> managed_session" where
  "toManagedSession p = (case p of (s, labels, n) \<Rightarrow>
     \<lparr>mg_Namespace = se_ns s, mg_Client = se_client s, mg_TtlMinutes = se_ttl s, mg_CreatedAt = se_created s,
      mg_LastActivity = se_last s, mg_EventCount = n, mg_Labels = (if labels = [] then None else Some labels)\<rparr>)"

definition Handle_ManageListSessions ::
    "request_ctx \<Rightarrow> string option \<Rightarrow> (string \<times> string) list option \<Rightarrow> ('c, 'i) handling" where
  "Handle_ManageListSessions cx client labels s =
     (if rc_Namespace cx = [] then (unexpected_error, s)
      else case Session_List (manageSessionsFilter (rc_Namespace cx) client labels) s of
             (Inl e, s') \<Rightarrow> (unexpected_error, s')
           | (Inr rows, s') \<Rightarrow> ((200, ManagedReply (map toManagedSession rows)), s'))"

definition Handle_ManageDeleteSessions ::
    "request_ctx \<Rightarrow> string option \<Rightarrow> (string \<times> string) list option \<Rightarrow> bool option \<Rightarrow> ('c, 'i) handling" where
  "Handle_ManageDeleteSessions cx client labels dryRun s =
     (if rc_Namespace cx = [] then (unexpected_error, s)
      else let f = manageSessionsFilter (rc_Namespace cx) client labels in
        if dryRun = Some True then
          (case Session_Count f s of
             (Inl e, s') \<Rightarrow> (unexpected_error, s')
           | (Inr n, s') \<Rightarrow> ((200, AffectedReply n), s'))
        else
          (case Session_DeleteAll f s of
             (Inl e, s') \<Rightarrow> (unexpected_error, s')
           | (Inr (n, cascaded), s') \<Rightarrow> ((200, DeletedSessionsReply n cascaded), s')))"

definition Handle_ManageListClients :: "request_ctx \<Rightarrow> ('c, 'i) handling" where
  "Handle_ManageListClients cx s =
     (if rc_Namespace cx = [] then (unexpected_error, s)
      else case on_db (Clients_List (rc_Namespace cx)) s of
             (Inl e, s') \<Rightarrow> (unexpected_error, s')
           | (Inr cs, s') \<Rightarrow> ((200, ClientsReply cs), s'))"

definition mapManageDeleteClientError :: "svc_error \<Rightarrow> answer" where
  "mapManageDeleteClientError e = mapped_answer [409, 404] (mapClientError e)"

definition Handle_ManageDeleteClient :: "request_ctx \<Rightarrow> string \<Rightarrow> bool option \<Rightarrow> ('c, 'i) handling" where
  "Handle_ManageDeleteClient cx name dryRun s =
     (let ns = rc_Namespace cx in
      if ns = [] then (unexpected_error, s)
      else if dryRun = Some True then
        (case on_db (Clients_PreviewDelete ns name) s of
           (Inl e, s') \<Rightarrow> (mapManageDeleteClientError e, s')
         | (Inr n, s') \<Rightarrow> ((200, AffectedReply n), s'))
      else
        (case delete_client ns name s of
           (Inl e, s') \<Rightarrow> (mapManageDeleteClientError e, s')
         | (Inr (n, cascaded), s') \<Rightarrow> ((200, DeletedClientReply name n cascaded), s')))"

end
