(* ===== verification/Go_Path.thy ===== *)
theory Go_Path
  imports Go_Text
begin

text \<open>
  What the program uses of path/filepath on a Unix system: \<open>IsAbs\<close>, \<open>Clean\<close>, \<open>Join\<close>, \<open>Rel\<close>,
  \<open>Base\<close> and \<open>Ext\<close>. All of them are lexical.
\<close>

section \<open>Operations\<close>

definition slash :: char where "slash = CHR ''/''"

definition is_abs :: "string \<Rightarrow> bool" where "is_abs p \<longleftrightarrow> p \<noteq> [] \<and> hd p = slash"

fun clean_segs :: "bool \<Rightarrow> string list \<Rightarrow> string list \<Rightarrow> string list" where
  "clean_segs rooted acc [] = rev acc"
| "clean_segs rooted acc (s # ss) =
     (if s = [] \<or> s = ''.'' then clean_segs rooted acc ss
      else if s = ''..'' then
        (if acc \<noteq> [] \<and> hd acc \<noteq> ''..'' then clean_segs rooted (tl acc) ss
         else if rooted then clean_segs rooted acc ss else clean_segs rooted (s # acc) ss)
      else clean_segs rooted (s # acc) ss)"

definition path_clean :: "string \<Rightarrow> string" where
  "path_clean p =
     (if p = [] then ''.''
      else let body = join ''/'' (clean_segs (is_abs p) [] (split_byte slash p)) in
           if is_abs p then slash # body else if body = [] then ''.'' else body)"

text \<open>\<open>filepath.Join\<close> of two elements, the second one not empty.\<close>

definition path_join :: "string \<Rightarrow> string \<Rightarrow> string" where
  "path_join a p = path_clean (if a = [] then p else a @ slash # p)"

text \<open>The segments of a clean path after its root.\<close>

definition path_segs :: "string \<Rightarrow> string list" where
  "path_segs p =
     (let q = (if is_abs p then tl p else p) in if q = [] then [] else split_byte slash q)"

fun strip_common :: "string list \<Rightarrow> string list \<Rightarrow> string list \<times> string list" where
  "strip_common (b # bs) (t # ts) = (if b = t then strip_common bs ts else (b # bs, t # ts))"
| "strip_common bs ts = (bs, ts)"

definition path_rel :: "string \<Rightarrow> string \<Rightarrow> string option" where
  "path_rel basepath targpath =
     (let b = path_clean basepath; t = path_clean targpath in
      if t = b then Some ''.''
      else let b = (if b = ''.'' then [] else b) in
           if is_abs b \<noteq> is_abs t then None
           else case strip_common (path_segs b) (path_segs t) of
                  (bs, ts) \<Rightarrow>
                    if bs \<noteq> [] \<and> ts \<noteq> [] \<and> hd bs = ''..'' then None
                    else Some (join ''/'' (replicate (length bs) ''..'' @ ts)))"

definition path_base :: "string \<Rightarrow> string" where
  "path_base p =
     (if p = [] then ''.''
      else let q = trim_right_set (\<lambda>c. c = slash) p in
           if q = [] then ''/'' else last (split_byte slash q))"

definition path_ext :: "string \<Rightarrow> string" where
  "path_ext p =
     (let f = last (split_byte slash p) in
      case last_index_byte CHR ''.'' f of None \<Rightarrow> [] | Some i \<Rightarrow> drop i f)"

section \<open>Facts\<close>

lemma split_join:
  "ps \<noteq> [] \<Longrightarrow> \<forall>p\<in>set ps. c \<notin> set p \<Longrightarrow> split_byte c (join [c] ps) = ps"
proof (induction ps)
  case (Cons p ps)
  have one: "split_byte c p = [p]" if "c \<notin> set p" for p using that by (induction p) auto
  have app: "split_byte c (p @ c # s) = p # split_byte c s" if "c \<notin> set p" for p s
    using that by (induction p) auto
  show ?case
  proof (cases "ps = []")
    case True
    then show ?thesis using one Cons.prems by simp
  next
    case False
    then show ?thesis using Cons app [of p] by (simp add: join_Cons)
  qed
qed simp

definition plain_seg :: "string \<Rightarrow> bool" where
  "plain_seg s \<longleftrightarrow> s \<noteq> [] \<and> s \<noteq> ''.'' \<and> slash \<notin> set s"

lemma clean_segs_props:
  assumes "\<forall>s\<in>set acc. plain_seg s" "\<forall>s\<in>set ss. slash \<notin> set s"
  shows "\<forall>s\<in>set (clean_segs rooted acc ss). plain_seg s"
    "rooted \<Longrightarrow> ''..'' \<notin> set acc \<Longrightarrow> ''..'' \<notin> set (clean_segs rooted acc ss)"
proof -
  have "(\<forall>s\<in>set (clean_segs rooted acc ss). plain_seg s)
    \<and> (rooted \<longrightarrow> ''..'' \<notin> set acc \<longrightarrow> ''..'' \<notin> set (clean_segs rooted acc ss))"
    using assms
  proof (induction rooted acc ss rule: clean_segs.induct)
    case (2 rooted acc s ss)
    have tl: "\<forall>s\<in>set (tl acc). plain_seg s" "''..'' \<notin> set acc \<Longrightarrow> ''..'' \<notin> set (tl acc)"
      using "2.prems"(1) list.set_sel(2) by (cases acc; fastforce)+
    have dd: "plain_seg ''..''" "s \<noteq> [] \<Longrightarrow> s \<noteq> ''.'' \<Longrightarrow> plain_seg s"
      using "2.prems"(2) by (simp_all add: plain_seg_def slash_def)
    show ?case using 2 tl dd by (cases "acc = []") simp_all
  qed simp
  then show "\<forall>s\<in>set (clean_segs rooted acc ss). plain_seg s"
    "rooted \<Longrightarrow> ''..'' \<notin> set acc \<Longrightarrow> ''..'' \<notin> set (clean_segs rooted acc ss)" by blast+
qed

lemma join_segs:
  assumes "\<forall>s\<in>set ss. plain_seg s"
  shows "join ''/'' ss = [] \<longleftrightarrow> ss = []" "ss \<noteq> [] \<Longrightarrow> hd (join ''/'' ss) \<noteq> slash"
    "ss \<noteq> [] \<Longrightarrow> split_byte slash (join ''/'' ss) = ss"
proof -
  show "ss \<noteq> [] \<Longrightarrow> split_byte slash (join ''/'' ss) = ss"
    using split_join [of ss slash] assms by (simp add: plain_seg_def slash_def)
  have "join ''/'' ss \<noteq> [] \<and> hd (join ''/'' ss) \<noteq> slash" if "ss \<noteq> []"
  proof -
    obtain s rest where s: "ss = s # rest" using \<open>ss \<noteq> []\<close> by (cases ss) auto
    then obtain c w where c: "s = c # w" "c \<noteq> slash" using assms by (cases s) (auto simp: plain_seg_def)
    then show ?thesis by (cases rest) (auto simp: s c)
  qed
  then show "join ''/'' ss = [] \<longleftrightarrow> ss = []" "ss \<noteq> [] \<Longrightarrow> hd (join ''/'' ss) \<noteq> slash" by auto
qed

text \<open>The segments of a clean path: an absolute one has no \<open>..\<close> among them.\<close>

lemma path_clean_segs:
  assumes "p \<noteq> []"
  defines "ss \<equiv> clean_segs (is_abs p) [] (split_byte slash p)"
  shows "\<forall>s\<in>set ss. plain_seg s" "is_abs p \<Longrightarrow> ''..'' \<notin> set ss"
    "is_abs (path_clean p) = is_abs p"
    "path_segs (path_clean p) = (if ss = [] \<and> \<not> is_abs p then [''.''] else ss)"
proof -
  note props = clean_segs_props [of "[]" "split_byte slash p" "is_abs p"]
  have sl: "\<forall>s\<in>set (split_byte slash p). slash \<notin> set s" using split_byte_parts by blast
  show pl: "\<forall>s\<in>set ss. plain_seg s" using props(1) sl by (simp add: ss_def)
  show "is_abs p \<Longrightarrow> ''..'' \<notin> set ss" using props(2) sl by (simp add: ss_def)
  note js = join_segs [OF pl]
  have run: "path_clean p = (if is_abs p then slash # join ''/'' ss else if ss = [] then ''.'' else join ''/'' ss)"
    unfolding path_clean_def Let_def ss_def [symmetric] using assms(1) js(1) by simp
  show abs: "is_abs (path_clean p) = is_abs p" using run js by (auto simp: is_abs_def slash_def)
  show "path_segs (path_clean p) = (if ss = [] \<and> \<not> is_abs p then [''.''] else ss)"
  proof (cases "ss = []")
    case True
    then show ?thesis using abs run by (auto simp: path_segs_def is_abs_def slash_def)
  next
    case False
    then show ?thesis using abs run js by (auto simp: path_segs_def)
  qed
qed

lemma strip_common_parts:
  "strip_common bs ts = (br, tr) \<Longrightarrow> \<exists>com. bs = com @ br \<and> ts = com @ tr"
  by (induction bs ts arbitrary: br tr rule: strip_common.induct) (auto split: if_splits)

text \<open>A relative path that does not start upwards leads from the base to the target.\<close>

lemma path_rel_inside:
  assumes "path_rel base targ = Some rel" "is_abs base" "rel \<noteq> ''..''" "\<not> has_prefix rel ''../''"
  shows "is_abs targ" "path_segs (path_clean targ) = path_segs (path_clean base) @ (if rel = ''.'' then [] else path_segs rel)"
    "''..'' \<notin> set (path_segs rel)" "\<not> is_abs rel"
proof -
  let ?b = "path_clean base" and ?t = "path_clean targ"
  have bne: "base \<noteq> []" using assms(2) by (auto simp: is_abs_def)
  note bs = path_clean_segs [OF bne]
  have bdot: "?b \<noteq> ''.''" using bs(3) assms(2) by (auto simp: is_abs_def slash_def)
  have "is_abs targ \<and> path_segs ?t = path_segs ?b @ (if rel = ''.'' then [] else path_segs rel)
    \<and> ''..'' \<notin> set (path_segs rel) \<and> \<not> is_abs rel"
  proof (cases "?t = ?b")
    case True
    then have rel: "rel = ''.''" using assms(1) by (simp add: path_rel_def Let_def)
    have "is_abs ?t" using True bs(3) assms(2) by simp
    moreover have "targ \<noteq> []" using True bdot by (auto simp: path_clean_def)
    ultimately have "is_abs targ" using path_clean_segs(3) by blast
    then show ?thesis using True rel by (simp add: path_segs_def is_abs_def slash_def)
  next
    case False
    obtain br tr where st: "strip_common (path_segs ?b) (path_segs ?t) = (br, tr)" by fastforce
    have eq: "is_abs ?t" "rel = join ''/'' (replicate (length br) ''..'' @ tr)"
      using assms(1,2) False bdot bs(3) st by (auto simp: path_rel_def Let_def split: if_splits)
    have tne: "targ \<noteq> []" using eq(1) by (auto simp: path_clean_def is_abs_def slash_def)
    note ts = path_clean_segs [OF tne]
    have ta: "is_abs targ" using ts(3) eq(1) by simp
    obtain com where com: "path_segs ?b = com @ br" "path_segs ?t = com @ tr" using strip_common_parts [OF st] by blast
    have "br = []"
    proof (rule ccontr)
      assume "br \<noteq> []"
      then obtain n where n: "length br = Suc n" by (cases br) auto
      show False
      proof (cases "replicate n ''..'' @ tr = []")
        case True
        then show False using assms(3) eq(2) n by simp
      next
        case False
        then have "rel = ''..'' @ ''/'' @ join ''/'' (replicate n ''..'' @ tr)" using eq(2) n join_Cons by simp
        then show False using assms(4) by (simp add: has_prefix_def)
      qed
    qed
    then have tr: "path_segs ?t = path_segs ?b @ tr" "rel = join ''/'' tr" using com eq(2) by simp_all
    have "clean_segs (is_abs targ) [] (split_byte slash targ) = path_segs ?b @ tr" using ts(4) ta tr(1) by simp
    then have pl: "\<forall>s\<in>set tr. plain_seg s" "''..'' \<notin> set tr"
      using ts(1) ts(2) [OF ta] by (metis UnCI set_append)+
    have "tr \<noteq> []"
    proof
      assume "tr = []"
      then have same: "path_segs ?t = path_segs ?b" using tr by simp
      have form: "path_clean p = slash # join ''/'' (path_segs (path_clean p))" if "is_abs p" for p
      proof -
        have "p \<noteq> []" using that by (auto simp: is_abs_def)
        then show ?thesis using path_clean_segs(4) [of p] that by (simp add: path_clean_def Let_def)
      qed
      have "?t = ?b" using form [OF ta] form [OF assms(2)] same by simp
      then show False using False by simp
    qed
    note js = join_segs [OF pl(1)]
    have rs: "\<not> is_abs rel" "path_segs rel = tr" using js \<open>tr \<noteq> []\<close> by (auto simp: tr(2) is_abs_def path_segs_def)
    have "rel \<noteq> ''.''"
    proof
      assume "rel = ''.''"
      then have "tr = [''.'']" using rs(2) by (simp add: path_segs_def is_abs_def slash_def)
      then show False using pl(1) by (simp add: plain_seg_def)
    qed
    then show ?thesis using ta tr(1) rs pl(2) by simp
  qed
  then show "is_abs targ" "path_segs ?t = path_segs ?b @ (if rel = ''.'' then [] else path_segs rel)"
    "''..'' \<notin> set (path_segs rel)" "\<not> is_abs rel" by blast+
qed

end
