(* ===== verification/Api_Server.thy ===== *)
theory Api_Server
  imports Api_Handlers Go_Path "HOL-Library.Word"
begin

text \<open>
  internal/server and internal/server/middleware: the chain of the server, from the limit of
  requests per address to the resolution of the session, around the handlers of
  \<^theory_text>\<open>Api_Handlers\<close>. Routing and decoding (the generated code with chi), the
  validator of the OpenAPI document and the token bucket of x/time/rate are parameters.
  Logging, tracing, the timeout and the recovery from panics are left out, as is the limit on
  a body of unknown length.
\<close>

section \<open>Requests\<close>

text \<open>The operation that the router finds and its decoded arguments; chi's own 404 or 405 otherwise.\<close>

datatype api_call =
    OpGetHealth
  | OpGetVersion
  | OpRegisterClient string
  | OpRotateClientToken string
  | OpCreateSession "create_session_request option" "string option"
  | OpDeleteSession
  | OpListSources
  | OpGetSnapshot "int option"
  | OpIngest "ingest_request option"
  | OpSearch "search_request option" "string option"
  | OpFeedback "feedback_request option"
  | OpWriteEvents "event_input list option"
  | OpReadEvents "string list option" "int option" "int option"
  | OpManageListSessions "string option" "(string \<times> string) list option"
  | OpManageDeleteSessions "string option" "(string \<times> string) list option" "bool option"
  | OpManageListClients
  | OpManageDeleteClient string "bool option"
  | OpUnrouted nat

text \<open>A request, with the random bytes, and the correlation id, that it draws (None: the source fails).\<close>

record api_request =
  rq_Method :: string
  rq_Path :: string
  rq_RemoteAddr :: string
  rq_Header :: "string \<Rightarrow> string"
  rq_ContentLength :: int
  rq_Call :: api_call
  rq_Random :: "nat list option"
  rq_UUID :: "string option"

definition HeaderAPIKey :: string where "HeaderAPIKey = ''X-CALM-API-Key''"
definition HeaderAuthorization :: string where "HeaderAuthorization = ''Authorization''"
definition BearerPrefix :: string where "BearerPrefix = ''Bearer ''"
definition HeaderSessionToken :: string where "HeaderSessionToken = ''X-CALM-Session-Token''"
definition workloadRequestIDHeader :: string where "workloadRequestIDHeader = ''X-Workload-Request-Id''"
definition maxWorkloadRequestIDLength :: nat where "maxWorkloadRequestIDLength = 256"

text \<open>The routes that the generated \<open>HandlerFromMux\<close> registers.\<close>

fun route :: "api_call \<Rightarrow> (string \<times> string) option" where
  "route OpGetHealth = Some (''GET'', ''/v1/health'')"
| "route OpGetVersion = Some (''GET'', ''/v1/version'')"
| "route (OpRegisterClient name) = Some (''POST'', ''/v1/clients/'' @ name)"
| "route (OpRotateClientToken name) = Some (''POST'', ''/v1/clients/'' @ name @ ''/rotate-token'')"
| "route (OpCreateSession b k) = Some (''POST'', ''/v1/sessions'')"
| "route OpDeleteSession = Some (''DELETE'', ''/v1/sessions'')"
| "route OpListSources = Some (''GET'', ''/v1/sources'')"
| "route (OpGetSnapshot b) = Some (''GET'', ''/v1/snapshot'')"
| "route (OpIngest b) = Some (''POST'', ''/v1/ingest'')"
| "route (OpSearch b h) = Some (''POST'', ''/v1/search'')"
| "route (OpFeedback b) = Some (''POST'', ''/v1/feedback'')"
| "route (OpWriteEvents b) = Some (''POST'', ''/v1/events'')"
| "route (OpReadEvents ts p l) = Some (''GET'', ''/v1/events'')"
| "route (OpManageListSessions c ls) = Some (''GET'', ''/v1/manage/sessions'')"
| "route (OpManageDeleteSessions c ls dry) = Some (''DELETE'', ''/v1/manage/sessions'')"
| "route OpManageListClients = Some (''GET'', ''/v1/manage/clients'')"
| "route (OpManageDeleteClient name dry) = Some (''DELETE'', ''/v1/manage/clients/'' @ name)"
| "route (OpUnrouted st) = None"

definition routed :: "api_request \<Rightarrow> bool" where
  "routed r \<longleftrightarrow> (case route (rq_Call r) of Some mp \<Rightarrow> mp = (rq_Method r, rq_Path r) | None \<Rightarrow> True)"

section \<open>Session routes (session.go)\<close>

text \<open>An operation of the OpenAPI document: its method, and whether it or its path declares the session header.\<close>

type_synonym openapi = "(string \<times> bool \<times> (string \<times> bool) list) list"

definition session_path :: "string \<times> bool \<times> (string \<times> bool) list \<Rightarrow> (string \<times> string) list" where
  "session_path item = (case item of (p, declared, ops) \<Rightarrow> map (\<lambda>(m, d). (m, p)) (filter (\<lambda>(m, d). d \<or> declared) ops))"

definition ExtractSessionTokenRoutes :: "openapi \<Rightarrow> (string \<times> string) list option" where
  "ExtractSessionTokenRoutes spec =
     (if list_ex (\<lambda>item. session_path item \<noteq> [] \<and> CHR ''{'' \<in> set (fst item)) spec then None
      else Some (concat (map session_path spec)))"

text \<open>The paths of docs/api/openapi.yaml.\<close>

definition calm_openapi :: openapi where
  "calm_openapi =
     [(''/v1/health'', False, [(''GET'', False)]), (''/v1/version'', False, [(''GET'', False)]),
      (''/v1/clients/{name}'', False, [(''POST'', False)]), (''/v1/clients/{name}/rotate-token'', False, [(''POST'', False)]),
      (''/v1/sessions'', False, [(''POST'', False), (''DELETE'', True)]), (''/v1/sources'', False, [(''GET'', True)]),
      (''/v1/snapshot'', False, [(''GET'', True)]), (''/v1/ingest'', False, [(''POST'', True)]),
      (''/v1/search'', False, [(''POST'', True)]), (''/v1/feedback'', False, [(''POST'', True)]),
      (''/v1/events'', False, [(''POST'', True), (''GET'', True)]),
      (''/v1/manage/sessions'', False, [(''GET'', False), (''DELETE'', False)]),
      (''/v1/manage/clients'', False, [(''GET'', False)]), (''/v1/manage/clients/{client}'', False, [(''DELETE'', False)])]"

section \<open>The state of the server\<close>

text \<open>A limiter: made from a rate and a burst, asked at a time, and its tokens at a time.\<close>

record 'l limiter_pkg =
  rl_NewLimiter :: "int \<Rightarrow> int \<Rightarrow> 'l"
  rl_Allow :: "int \<Rightarrow> 'l \<Rightarrow> bool \<times> 'l"
  rl_Tokens :: "int \<Rightarrow> 'l \<Rightarrow> rat"

record 'l ipBucketStore =
  ib_buckets :: "(string \<times> 'l) list"
  ib_inserts :: "64 word"
  ib_perSecond :: int
  ib_sweepThreshold :: int
  ib_sweepEvery :: "64 word"

record ('c, 'i, 'l) front =
  fr_svc :: "('c, 'i) svc"
  fr_ips :: "'l ipBucketStore"
  fr_nsBuckets :: "(string \<times> 'l) list"
  fr_global :: "'l option"

record ('f, 'l) server_config =
  sv_Handlers :: handlers_config
  sv_Env :: "'f env"
  sv_Limiter :: "'l limiter_pkg"
  sv_Validate :: "api_request \<Rightarrow> (nat \<times> string) option"
  sv_Routes :: "(string \<times> string) list"
  sv_RatePerSecond :: int
  sv_RateGlobalPerSecond :: int
  sv_RatePerIPPerSecond :: int
  sv_TrustProxyHeaders :: bool
  sv_MaxIngestPayloadKB :: int

type_synonym ('c, 'i, 'l) endpoint =
  "api_request \<Rightarrow> request_ctx \<Rightarrow> ('c, 'i, 'l) front \<Rightarrow> answer \<times> ('c, 'i, 'l) front"

definition front_now :: "('c, 'i, 'l) front \<Rightarrow> int" where "front_now fr = app_now (sv_db (fr_svc fr))"

section \<open>Rate limits (ratelimit.go)\<close>

definition ipBucketSweepThreshold :: int where "ipBucketSweepThreshold = 100000"
definition ipSweepEvery :: "64 word" where "ipSweepEvery = 10000"

definition newIPBucketStore :: "int \<Rightarrow> int \<Rightarrow> 64 word \<Rightarrow> 'l ipBucketStore" where
  "newIPBucketStore perSecond threshold every =
     \<lparr>ib_buckets = [], ib_inserts = 0, ib_perSecond = perSecond, ib_sweepThreshold = threshold, ib_sweepEvery = every\<rparr>"

text \<open>Storing under a key of an association list.\<close>

definition put_assoc :: "'k \<Rightarrow> 'v \<Rightarrow> ('k \<times> 'v) list \<Rightarrow> ('k \<times> 'v) list" where
  "put_assoc k v m = (k, v) # filter (\<lambda>e. fst e \<noteq> k) m"

definition bucketFor :: "'l limiter_pkg \<Rightarrow> int \<Rightarrow> string \<Rightarrow> 'l ipBucketStore \<Rightarrow> 'l \<times> 'l ipBucketStore" where
  "bucketFor L now ip st =
     (case map_of (ib_buckets st) ip of
        Some bucket \<Rightarrow> (bucket, st)
      | None \<Rightarrow>
          let inserts = ib_inserts st + 1;
              burst = ib_perSecond st * 2;
              kept = (if inserts mod ib_sweepEvery st = 0 \<and> ib_sweepThreshold st < int (length (ib_buckets st))
                      then filter (\<lambda>e. \<not> of_int burst \<le> rl_Tokens L now (snd e)) (ib_buckets st) else ib_buckets st);
              bucket = rl_NewLimiter L (ib_perSecond st) burst
          in (bucket, st\<lparr>ib_inserts := inserts, ib_buckets := put_assoc ip bucket kept\<rparr>))"

text \<open>Asking the bucket of an address; the map holds the limiter itself, which the question changes.\<close>

definition ip_Allow :: "'l limiter_pkg \<Rightarrow> int \<Rightarrow> string \<Rightarrow> 'l ipBucketStore \<Rightarrow> bool \<times> 'l ipBucketStore" where
  "ip_Allow L now ip st =
     (case bucketFor L now ip st of
        (bucket, st1) \<Rightarrow> (case rl_Allow L now bucket of (ok, bucket') \<Rightarrow> (ok, st1\<lparr>ib_buckets := put_assoc ip bucket' (ib_buckets st1)\<rparr>)))"

text \<open>\<open>net.SplitHostPort\<close>: the host, None for an error.\<close>

definition last_colon :: "string \<Rightarrow> nat option" where
  "last_colon s = (if CHR '':'' \<in> set s then Some (length s - 1 - length (takeWhile (\<lambda>c. c \<noteq> CHR '':'') (rev s))) else None)"

definition split_host :: "string \<Rightarrow> string option" where
  "split_host hostport =
     (case last_colon hostport of
        None \<Rightarrow> None
      | Some i \<Rightarrow>
          if hd hostport = CHR ''['' then
            (let e = length (takeWhile (\<lambda>c. c \<noteq> CHR '']'') hostport) in
             if e + 1 = i \<and> CHR '']'' \<in> set hostport \<and> CHR ''['' \<notin> set (tl hostport) \<and> CHR '']'' \<notin> set (drop (e + 1) hostport)
             then Some (drop 1 (take e hostport)) else None)
          else if CHR '':'' \<in> set (take i hostport) \<or> CHR ''['' \<in> set hostport \<or> CHR '']'' \<in> set hostport then None
          else Some (take i hostport))"

definition clientIP :: "bool \<Rightarrow> api_request \<Rightarrow> string" where
  "clientIP trust r =
     (let xff = rq_Header r ''X-Forwarded-For'' in
      if trust \<and> xff \<noteq> [] then trim_space (takeWhile (\<lambda>c. c \<noteq> CHR '','') xff)
      else case split_host (rq_RemoteAddr r) of None \<Rightarrow> rq_RemoteAddr r | Some host \<Rightarrow> host)"

definition writeRateLimited :: "string \<Rightarrow> string \<Rightarrow> int \<Rightarrow> answer" where
  "writeRateLimited endpoint tier perSec =
     (429, RateLimitedReply endpoint (tier @ '' rate limit of '' @ json_int perSec @ '' req/sec exceeded''))"

definition RateLimitIP :: "('f, 'l) server_config \<Rightarrow> ('c, 'i, 'l) endpoint \<Rightarrow> ('c, 'i, 'l) endpoint" where
  "RateLimitIP cfg nxt r cx fr =
     (if sv_RatePerIPPerSecond cfg \<le> 0 then nxt r cx fr
      else case ip_Allow (sv_Limiter cfg) (front_now fr) (clientIP (sv_TrustProxyHeaders cfg) r) (fr_ips fr) of
             (ok, st) \<Rightarrow>
               (if ok then nxt r cx (fr\<lparr>fr_ips := st\<rparr>)
                else (writeRateLimited (rq_Path r) ''per-ip'' (sv_RatePerIPPerSecond cfg), fr\<lparr>fr_ips := st\<rparr>)))"

text \<open>The limit of a namespace and its bucket, made at the first request.\<close>

definition ns_perSec :: "('f, 'l) server_config \<Rightarrow> string \<Rightarrow> int" where
  "ns_perSec cfg ns = (case RateFor (hc_Registry (sv_Handlers cfg)) ns of Some r \<Rightarrow> r | None \<Rightarrow> sv_RatePerSecond cfg)"

definition ns_Allow :: "('f, 'l) server_config \<Rightarrow> string \<Rightarrow> ('c, 'i, 'l) front \<Rightarrow> bool \<times> ('c, 'i, 'l) front" where
  "ns_Allow cfg ns fr =
     (let perSec = ns_perSec cfg ns; L = sv_Limiter cfg in
      if perSec \<le> 0 then (True, fr)
      else let bucket = (case map_of (fr_nsBuckets fr) ns of Some l \<Rightarrow> l | None \<Rightarrow> rl_NewLimiter L perSec (perSec * 2)) in
        case rl_Allow L (front_now fr) bucket of (ok, bucket') \<Rightarrow> (ok, fr\<lparr>fr_nsBuckets := put_assoc ns bucket' (fr_nsBuckets fr)\<rparr>))"

definition global_Allow :: "('f, 'l) server_config \<Rightarrow> ('c, 'i, 'l) front \<Rightarrow> bool \<times> ('c, 'i, 'l) front" where
  "global_Allow cfg fr =
     (case fr_global fr of
        None \<Rightarrow> (True, fr)
      | Some bucket \<Rightarrow> (case rl_Allow (sv_Limiter cfg) (front_now fr) bucket of (ok, bucket') \<Rightarrow> (ok, fr\<lparr>fr_global := Some bucket'\<rparr>)))"

definition RateLimitNamespaceAndGlobal :: "('f, 'l) server_config \<Rightarrow> ('c, 'i, 'l) endpoint \<Rightarrow> ('c, 'i, 'l) endpoint" where
  "RateLimitNamespaceAndGlobal cfg nxt r cx fr =
     (let ns = rc_Namespace cx in
      if ns = [] then nxt r cx fr
      else case ns_Allow cfg ns fr of
        (False, fr1) \<Rightarrow> (writeRateLimited (rq_Path r) ''namespace'' (ns_perSec cfg ns), fr1)
      | (True, fr1) \<Rightarrow>
          (case global_Allow cfg fr1 of
             (False, fr2) \<Rightarrow> (writeRateLimited (rq_Path r) ''global'' (sv_RateGlobalPerSecond cfg), fr2)
           | (True, fr2) \<Rightarrow> nxt r cx fr2))"

section \<open>The other middleware\<close>

definition Context :: "('c, 'i, 'l) endpoint \<Rightarrow> ('c, 'i, 'l) endpoint" where
  "Context nxt r cx fr = nxt r (cx\<lparr>rc_CorrelationID := rq_UUID r\<rparr>) fr"

definition WorkloadRequestID :: "('c, 'i, 'l) endpoint \<Rightarrow> ('c, 'i, 'l) endpoint" where
  "WorkloadRequestID nxt r cx fr =
     (if maxWorkloadRequestIDLength < length (rq_Header r workloadRequestIDHeader)
      then ((400, ErrorReply ''x_workload_request_id_too_long'' (Some ''X-Workload-Request-Id exceeds 256 characters'')), fr)
      else nxt r cx fr)"

definition unauthenticatedPaths :: "string list" where "unauthenticatedPaths = [''/v1/health'', ''/v1/version'']"

definition isClientRegistration :: "string \<Rightarrow> string \<Rightarrow> bool" where
  "isClientRegistration meth urlPath \<longleftrightarrow>
     meth = ''POST''
     \<and> (let cleaned = path_clean urlPath; prefix = ''/v1/clients/''; name = drop (length prefix) cleaned
        in has_prefix cleaned prefix \<and> name \<noteq> [] \<and> slash \<notin> set name)"

definition unauthorized :: answer where "unauthorized = (401, ErrorReply ''unauthorized'' None)"

text \<open>The client token of a request, in a namespace that asks for one.\<close>

definition bearer_token :: "api_request \<Rightarrow> string option" where
  "bearer_token r =
     (let header = rq_Header r HeaderAuthorization in
      if header = [] \<or> \<not> has_prefix header BearerPrefix \<or> drop (length BearerPrefix) header = [] then None
      else Some (drop (length BearerPrefix) header))"

definition Auth :: "('f, 'l) server_config \<Rightarrow> ('c, 'i, 'l) endpoint \<Rightarrow> ('c, 'i, 'l) endpoint" where
  "Auth cfg nxt r cx fr =
     (if rq_Path r \<in> set unauthenticatedPaths then nxt r cx fr
      else let apiKey = rq_Header r HeaderAPIKey; registry = hc_Registry (sv_Handlers cfg) in
        if apiKey = [] then (unauthorized, fr)
        else case reg_Resolve registry apiKey of
               None \<Rightarrow> (unauthorized, fr)
             | Some ns \<Rightarrow>
                 let cx = cx\<lparr>rc_Namespace := ns\<rparr> in
                 if RequiresClientCredentials registry ns \<and> \<not> isClientRegistration (rq_Method r) (rq_Path r) then
                   (case bearer_token r of
                      None \<Rightarrow> (unauthorized, fr)
                    | Some token \<Rightarrow>
                        (case on_db (ResolveByToken (e_sha (sv_Env cfg)) ns token) (fr_svc fr) of
                           (Inl e, s) \<Rightarrow> (unauthorized, fr\<lparr>fr_svc := s\<rparr>)
                         | (Inr client, s) \<Rightarrow> nxt r (cx\<lparr>rc_Client := client\<rparr>) (fr\<lparr>fr_svc := s\<rparr>)))
                 else nxt r cx fr)"

definition BodySizeLimit :: "('f, 'l) server_config \<Rightarrow> ('c, 'i, 'l) endpoint \<Rightarrow> ('c, 'i, 'l) endpoint" where
  "BodySizeLimit cfg nxt r cx fr =
     (let maxBytes = sv_MaxIngestPayloadKB cfg * 1024 in
      if maxBytes < rq_ContentLength r then ((413, TooLargeReply maxBytes), fr) else nxt r cx fr)"

definition OpenAPIValidator :: "('f, 'l) server_config \<Rightarrow> ('c, 'i, 'l) endpoint \<Rightarrow> ('c, 'i, 'l) endpoint" where
  "OpenAPIValidator cfg nxt r cx fr =
     (case sv_Validate cfg r of Some (st, msg) \<Rightarrow> ((st, ErrorReply msg None), fr) | None \<Rightarrow> nxt r cx fr)"

definition SessionResolve :: "('f, 'l) server_config \<Rightarrow> ('c, 'i, 'l) endpoint \<Rightarrow> ('c, 'i, 'l) endpoint" where
  "SessionResolve cfg nxt r cx fr =
     (if (rq_Method r, rq_Path r) \<notin> set (sv_Routes cfg) then nxt r cx fr
      else let token = rq_Header r HeaderSessionToken; ns = rc_Namespace cx; sha = e_sha (sv_Env cfg);
               notFound = (404, ErrorReply ''session_not_found'' (Some ''session not found in this namespace'')) in
        if ns = [] then (notFound, fr)
        else case Session_Lookup sha ns token (fr_svc fr) of
               (Inl e, s) \<Rightarrow>
                 (if e = DbError ErrSessionNotFound then notFound else (500, ErrorReply ''internal_error'' None), fr\<lparr>fr_svc := s\<rparr>)
             | (Inr md, s) \<Rightarrow>
                 (case nxt r (cx\<lparr>rc_Metadata := Some md\<rparr>) (fr\<lparr>fr_svc := s\<rparr>) of
                    (a, fr1) \<Rightarrow>
                      (if fst a < 500
                       then (a, fr1\<lparr>fr_svc := snd (Session_Touch sha ns token (front_now fr1) (fr_svc fr1))\<rparr>)
                       else (a, fr1))))"

section \<open>The server (server.go, routes.go)\<close>

definition dispatch_call ::
    "handlers_config \<Rightarrow> 'f env \<Rightarrow> api_request \<Rightarrow> request_ctx \<Rightarrow> ('c, 'i) handling" where
  "dispatch_call h E r cx =
     (case rq_Call r of
        OpGetHealth \<Rightarrow> Handle_GetHealth
      | OpGetVersion \<Rightarrow> Handle_GetVersion h
      | OpRegisterClient name \<Rightarrow> Handle_RegisterClient h (e_sha E) (rq_Random r) cx name
      | OpRotateClientToken name \<Rightarrow> Handle_RotateClientToken h (e_sha E) (rq_Random r) cx name
      | OpCreateSession b k \<Rightarrow> Handle_CreateSession h (e_sha E) (rq_Random r) cx b k
      | OpDeleteSession \<Rightarrow> Handle_DeleteSession (e_sha E) cx (rq_Header r HeaderSessionToken)
      | OpListSources \<Rightarrow> Handle_ListSources cx
      | OpGetSnapshot b \<Rightarrow> Handle_GetSnapshot (e_stamp E) cx b
      | OpIngest b \<Rightarrow> Handle_Ingest h (e_lexer E) cx b
      | OpSearch b header \<Rightarrow> Handle_Search h (e_float E) (e_unicode E) (e_text E) cx b header
      | OpFeedback b \<Rightarrow> Handle_Feedback h (e_uuid E) cx b
      | OpWriteEvents b \<Rightarrow> Handle_WriteEvents (e_sha E) cx b
      | OpReadEvents ts p l \<Rightarrow> Handle_ReadEvents cx ts p l
      | OpManageListSessions c ls \<Rightarrow> Handle_ManageListSessions cx c ls
      | OpManageDeleteSessions c ls dry \<Rightarrow> Handle_ManageDeleteSessions cx c ls dry
      | OpManageListClients \<Rightarrow> Handle_ManageListClients cx
      | OpManageDeleteClient name dry \<Rightarrow> Handle_ManageDeleteClient cx name dry
      | OpUnrouted st \<Rightarrow> (\<lambda>s. ((st, NoContent), s)))"

definition handlers_endpoint :: "('f, 'l) server_config \<Rightarrow> ('c, 'i, 'l) endpoint" where
  "handlers_endpoint cfg r cx fr =
     (case dispatch_call (sv_Handlers cfg) (sv_Env cfg) r cx (fr_svc fr) of (a, s) \<Rightarrow> (a, fr\<lparr>fr_svc := s\<rparr>))"

definition empty_ctx :: request_ctx where
  "empty_ctx = \<lparr>rc_Namespace = [], rc_Client = [], rc_Metadata = None, rc_CorrelationID = None\<rparr>"

definition NewHandler :: "('f, 'l) server_config \<Rightarrow> api_request \<Rightarrow> ('c, 'i, 'l) front \<Rightarrow> answer \<times> ('c, 'i, 'l) front" where
  "NewHandler cfg r =
     Context (WorkloadRequestID (RateLimitIP cfg (Auth cfg (RateLimitNamespaceAndGlobal cfg
       (BodySizeLimit cfg (OpenAPIValidator cfg (SessionResolve cfg (handlers_endpoint cfg)))))))) r empty_ctx"

end
