(* ===== verification/Tenant.thy ===== *)
theory Tenant
  imports System
begin

text \<open>
  Isolation of the tenants. What a namespace owns is its clients, its sessions and all that
  hangs below them; the rest of the tables is foreign to it. Every operation of a service
  that is called for a namespace leaves the foreign rows as they are, whatever it returns.
\<close>

section \<open>Foreign rows\<close>

definition foreign_ids :: "string \<Rightarrow> tables \<Rightarrow> int set" where
  "foreign_ids ns t = se_id ` {s \<in> set (sessions t). se_ns s \<noteq> ns}"

definition foreign_chunk :: "int set \<Rightarrow> source_row list \<Rightarrow> chunk_row \<Rightarrow> bool" where
  "foreign_chunk F srcs c \<longleftrightarrow> (\<exists>s\<in>set srcs. so_id s = ch_source c \<and> so_session s \<in> F)"

record foreign_rows =
  fo_clients :: "client_row list"
  fo_sessions :: "session_row list"
  fo_labels :: "label_row list"
  fo_sources :: "source_row list"
  fo_chunks :: "chunk_row list"
  fo_vocabulary :: "vocab_row list"
  fo_events :: "event_row list"
  fo_correlations :: "corr_row list"

definition foreign :: "string \<Rightarrow> tables \<Rightarrow> foreign_rows" where
  "foreign ns t =
     (let F = foreign_ids ns t in
      \<lparr>fo_clients = filter (\<lambda>c. cl_ns c \<noteq> ns) (clients t),
       fo_sessions = filter (\<lambda>s. se_ns s \<noteq> ns) (sessions t),
       fo_labels = filter (\<lambda>l. la_session l \<in> F) (session_labels t),
       fo_sources = filter (\<lambda>s. so_session s \<in> F) (sources t),
       fo_chunks = filter (foreign_chunk F (sources t)) (chunks t),
       fo_vocabulary = filter (\<lambda>v. vo_session v \<in> F) (vocabulary t),
       fo_events = filter (\<lambda>e. ev_session e \<in> F) (session_events t),
       fo_correlations = filter (\<lambda>c. co_session c \<in> F) (correlations t)\<rparr>)"

definition fo_ids :: "foreign_rows \<Rightarrow> int set" where "fo_ids v = se_id ` set (fo_sessions v)"

lemma foreign_ids: "foreign_ids ns t = fo_ids (foreign ns t)"
  by (auto simp: foreign_ids_def fo_ids_def foreign_def Let_def)

text \<open>Consistent tables with the given foreign rows.\<close>

definition tenant :: "string \<Rightarrow> foreign_rows \<Rightarrow> tables \<Rightarrow> bool" where
  "tenant ns v t \<longleftrightarrow> tables_ok t \<and> foreign ns t = v"

lemma keeps_tenant:
  assumes "keeps tables_ok m" "\<And>d. tenant ns v (tabs d) \<Longrightarrow> foreign ns (tabs (snd (m d))) = v"
  shows "keeps (tenant ns v) m"
  using assms by (simp add: keeps_def tenant_def)

lemma foreign_stmt:
  assumes "\<And>d. tenant ns v (tabs d) \<Longrightarrow> foreign ns (snd (f d)) = v" "tenant ns v (tabs d)"
  shows "foreign ns (tabs (snd (stmt f d))) = v"
  using assms(1) [OF assms(2)] assms(2)
  by (auto simp: stmt_def tenant_def split: list.split bool.split prod.split)

lemma foreign_guard:
  assumes "tenant ns v (tabs d)" "\<not> b \<Longrightarrow> foreign ns (tabs (snd (m d))) = v"
  shows "foreign ns (tabs (snd (guard b e m d))) = v"
  using assms by (simp add: guard_def fail_def tenant_def)

lemma keeps_bind:
  assumes "keeps P m" "\<And>d x d'. P (tabs d) \<Longrightarrow> m d = (Inr x, d') \<Longrightarrow> keeps P (f x)"
  shows "keeps P (andthen m f)"
  unfolding keeps_def
proof (intro allI impI)
  fix d :: db
  assume P: "P (tabs d)"
  obtain r d1 where m: "m d = (r, d1)" by fastforce
  have P1: "P (tabs d1)" by (rule keepsD [OF assms(1) m P])
  show "P (tabs (snd (andthen m f d)))"
  proof (cases r)
    case (Inl e)
    then show ?thesis using m P1 by simp
  next
    case (Inr x)
    have "keeps P (f x)" using assms(2) [OF P] m Inr by simp
    then show ?thesis using m Inr P1 by (simp add: keeps_def)
  qed
qed

lemma keeps_refine:
  assumes "keeps P m" "\<And>d x d'. P (tabs d) \<Longrightarrow> m d = (Inr x, d') \<Longrightarrow> Q x (tabs d')" "\<And>x. keeps (Q x) (f x)" "\<And>x t. Q x t \<Longrightarrow> P t"
  shows "keeps P (andthen m f)"
  unfolding keeps_def
proof (intro allI impI)
  fix d :: db
  assume P: "P (tabs d)"
  obtain r d1 where m: "m d = (r, d1)" by fastforce
  show "P (tabs (snd (andthen m f d)))"
  proof (cases r)
    case (Inl e)
    then show ?thesis using m keepsD [OF assms(1) m P] by simp
  next
    case (Inr x)
    have "Q x (tabs (snd (f x d1)))" using assms(3) assms(2) [OF P] m Inr by (simp add: keeps_def)
    then show ?thesis using m Inr assms(4) by simp
  qed
qed

section \<open>Updates that a namespace may make\<close>

lemma foreign_clients:
  "filter (\<lambda>c. cl_ns c \<noteq> ns) cs = filter (\<lambda>c. cl_ns c \<noteq> ns) (clients t) \<Longrightarrow> foreign ns (t\<lparr>clients := cs\<rparr>) = foreign ns t"
  by (simp add: foreign_def foreign_ids_def foreign_chunk_def Let_def)

lemma foreign_sessions:
  assumes "filter (\<lambda>s. se_ns s \<noteq> ns) ss = filter (\<lambda>s. se_ns s \<noteq> ns) (sessions t)"
  shows "foreign ns (t\<lparr>sessions := ss\<rparr>) = foreign ns t"
proof -
  have "{s \<in> set ss. se_ns s \<noteq> ns} = {s \<in> set (sessions t). se_ns s \<noteq> ns}"
    using arg_cong [OF assms, of set] by simp
  then have "foreign_ids ns (t\<lparr>sessions := ss\<rparr>) = foreign_ids ns t" by (simp add: foreign_ids_def)
  then show ?thesis using assms by (simp add: foreign_def foreign_chunk_def Let_def)
qed

lemma foreign_ids_same [simp]:
  "foreign_ids ns (t\<lparr>session_labels := a\<rparr>) = foreign_ids ns t" "foreign_ids ns (t\<lparr>sources := b\<rparr>) = foreign_ids ns t"
  "foreign_ids ns (t\<lparr>chunks := c\<rparr>) = foreign_ids ns t" "foreign_ids ns (t\<lparr>vocabulary := e\<rparr>) = foreign_ids ns t"
  "foreign_ids ns (t\<lparr>session_events := f\<rparr>) = foreign_ids ns t" "foreign_ids ns (t\<lparr>correlations := g\<rparr>) = foreign_ids ns t"
  "foreign_ids ns (t\<lparr>next_session := n\<rparr>) = foreign_ids ns t" "foreign_ids ns (t\<lparr>next_source := n\<rparr>) = foreign_ids ns t"
  "foreign_ids ns (t\<lparr>next_chunk := n\<rparr>) = foreign_ids ns t" "foreign_ids ns (t\<lparr>next_event := n\<rparr>) = foreign_ids ns t"
  by (simp_all add: foreign_ids_def)

lemma foreign_counters [simp]:
  "foreign ns (t\<lparr>next_session := n\<rparr>) = foreign ns t" "foreign ns (t\<lparr>next_source := n\<rparr>) = foreign ns t"
  "foreign ns (t\<lparr>next_chunk := n\<rparr>) = foreign ns t" "foreign ns (t\<lparr>next_event := n\<rparr>) = foreign ns t"
  by (simp_all add: foreign_def foreign_ids_def foreign_chunk_def Let_def)

lemma foreign_tables:
  "filter (\<lambda>l. la_session l \<in> foreign_ids ns t) a = filter (\<lambda>l. la_session l \<in> foreign_ids ns t) (session_labels t)
    \<Longrightarrow> foreign ns (t\<lparr>session_labels := a\<rparr>) = foreign ns t"
  "filter (foreign_chunk (foreign_ids ns t) (sources t)) c = filter (foreign_chunk (foreign_ids ns t) (sources t)) (chunks t)
    \<Longrightarrow> foreign ns (t\<lparr>chunks := c\<rparr>) = foreign ns t"
  "filter (\<lambda>l. vo_session l \<in> foreign_ids ns t) e = filter (\<lambda>l. vo_session l \<in> foreign_ids ns t) (vocabulary t)
    \<Longrightarrow> foreign ns (t\<lparr>vocabulary := e\<rparr>) = foreign ns t"
  "filter (\<lambda>l. ev_session l \<in> foreign_ids ns t) f = filter (\<lambda>l. ev_session l \<in> foreign_ids ns t) (session_events t)
    \<Longrightarrow> foreign ns (t\<lparr>session_events := f\<rparr>) = foreign ns t"
  "filter (\<lambda>l. co_session l \<in> foreign_ids ns t) g = filter (\<lambda>l. co_session l \<in> foreign_ids ns t) (correlations t)
    \<Longrightarrow> foreign ns (t\<lparr>correlations := g\<rparr>) = foreign ns t"
  by (simp_all add: foreign_def foreign_chunk_def Let_def)

lemma foreign_sources:
  assumes "filter (\<lambda>s. so_session s \<in> foreign_ids ns t) ss = filter (\<lambda>s. so_session s \<in> foreign_ids ns t) (sources t)"
  shows "foreign ns (t\<lparr>sources := ss\<rparr>) = foreign ns t"
proof -
  have "{s \<in> set ss. so_session s \<in> foreign_ids ns t} = {s \<in> set (sources t). so_session s \<in> foreign_ids ns t}"
    using arg_cong [OF assms, of set] by simp
  then have "foreign_chunk (foreign_ids ns t) ss = foreign_chunk (foreign_ids ns t) (sources t)"
    by (fastforce simp: foreign_chunk_def fun_eq_iff)
  then show ?thesis using assms by (simp add: foreign_def Let_def)
qed

text \<open>A session of the namespace is no foreign one: ids are unique.\<close>

lemma own_session:
  assumes "tables_ok t" "session_in t ns sid"
  shows "sid \<notin> foreign_ids ns t"
  using assms by (auto simp: tables_ok_def sessions_ok_def session_in_def foreign_ids_def distinct_map dest: inj_onD)

lemma filter_same_map: "(\<And>x. x \<in> set xs \<Longrightarrow> P (f x) = P x) \<Longrightarrow> (\<And>x. x \<in> set xs \<Longrightarrow> P x \<Longrightarrow> f x = x) \<Longrightarrow> filter P (map f xs) = filter P xs"
  by (induction xs) auto

lemma filter_filter_imp: "(\<And>x. x \<in> set xs \<Longrightarrow> P x \<Longrightarrow> Q x) \<Longrightarrow> filter P (filter Q xs) = filter P xs"
  by (induction xs) auto

lemma foreign_chunk_source:
  assumes "tables_ok t" "foreign_chunk F (sources t) c" "s \<in> set (sources t)" "so_id s = ch_source c"
  shows "so_session s \<in> F"
proof -
  obtain s' where s': "s' \<in> set (sources t)" "so_id s' = ch_source c" "so_session s' \<in> F"
    using assms(2) by (auto simp: foreign_chunk_def)
  have "inj_on so_id (set (sources t))" using assms(1) by (simp add: tables_ok_def sources_ok_def distinct_map)
  then have "s = s'" by (rule inj_onD) (use assms(3,4) s' in simp_all)
  then show ?thesis using s'(3) by simp
qed

lemma filter_disjoint: "ids \<inter> F = {} \<Longrightarrow> filter (\<lambda>l. f l \<in> F) (filter (\<lambda>l. f l \<notin> ids) xs) = filter (\<lambda>l. f l \<in> F) xs"
  by (intro filter_filter_imp) auto

lemma cascade_fields:
  "clients (cascade_sessions ids t) = clients t"
  "sessions (cascade_sessions ids t) = filter (\<lambda>s. se_id s \<notin> ids) (sessions t)"
  "session_labels (cascade_sessions ids t) = filter (\<lambda>l. la_session l \<notin> ids) (session_labels t)"
  "sources (cascade_sessions ids t) = filter (\<lambda>s. so_session s \<notin> ids) (sources t)"
  "chunks (cascade_sessions ids t)
     = filter (\<lambda>c. \<not> (\<exists>s\<in>set (sources t). so_id s = ch_source c \<and> so_session s \<in> ids)) (chunks t)"
  "vocabulary (cascade_sessions ids t) = filter (\<lambda>v. vo_session v \<notin> ids) (vocabulary t)"
  "session_events (cascade_sessions ids t) = filter (\<lambda>e. ev_session e \<notin> ids) (session_events t)"
  "correlations (cascade_sessions ids t) = filter (\<lambda>c. co_session c \<notin> ids) (correlations t)"
  by (simp_all add: cascade_sessions_def)

lemma foreign_cascade:
  assumes ok: "tables_ok t" and own: "ids \<inter> foreign_ids ns t = {}"
  shows "foreign ns (cascade_sessions ids t) = foreign ns t"
proof -
  let ?F = "foreign_ids ns t" and ?t = "cascade_sessions ids t"
  have s: "filter (\<lambda>s. se_ns s \<noteq> ns) (filter (\<lambda>s. se_id s \<notin> ids) (sessions t)) = filter (\<lambda>s. se_ns s \<noteq> ns) (sessions t)"
    using own by (intro filter_filter_imp) (auto simp: foreign_ids_def)
  have F: "foreign_ids ns ?t = ?F"
    unfolding foreign_ids_def using arg_cong [OF s, of set] by (auto simp: cascade_sessions_def)
  have c: "foreign_chunk ?F (filter (\<lambda>s. so_session s \<notin> ids) (sources t)) = foreign_chunk ?F (sources t)"
    using own by (auto simp: foreign_chunk_def fun_eq_iff)
  have ck: "filter (foreign_chunk ?F (sources t)) (filter (\<lambda>c. \<not> (\<exists>s\<in>set (sources t). so_id s = ch_source c \<and> so_session s \<in> ids)) (chunks t))
      = filter (foreign_chunk ?F (sources t)) (chunks t)"
  proof (rule filter_filter_imp)
    fix c assume "foreign_chunk ?F (sources t) c"
    then show "\<not> (\<exists>s\<in>set (sources t). so_id s = ch_source c \<and> so_session s \<in> ids)"
      using foreign_chunk_source [OF ok] own by blast
  qed
  show ?thesis unfolding foreign_def F Let_def
    by (simp only: cascade_fields c ck s filter_disjoint [OF own])
qed

section \<open>The methods of the repositories\<close>

lemma tenant_foreign: "tenant ns v t \<Longrightarrow> foreign ns t = v" "tenant ns v t \<Longrightarrow> tables_ok t"
  by (simp_all add: tenant_def)

named_theorems tenant_intros \<open>operations that a namespace may run\<close>

lemmas [tenant_intros] = keeps_ret keeps_fail keeps_guard keeps_andthen keeps_query keeps_WithTx keeps_attempt reads_keep

lemma update_client_foreign:
  "(\<And>c. cl_ns (f c) = cl_ns c) \<Longrightarrow> foreign ns (update_client ns name f t) = foreign ns t"
  unfolding update_client_def by (rule foreign_clients) (rule filter_same_map; auto)

lemma clients_tenant [tenant_intros]:
  "keeps (tenant ns v) (Clients_Register ns name)" "keeps (tenant ns v) (RegisterWithCredential ns name h)"
  "keeps (tenant ns v) (RotateCredential ns name h)" "keeps (tenant ns v) (BumpActivity ns name ts)"
proof -
  show "keeps (tenant ns v) (Clients_Register ns name)"
    by (rule keeps_tenant [OF Clients_Register_keeps]) (unfold Clients_Register_def Let_def,
      intro foreign_guard foreign_stmt, auto simp: tenant_foreign foreign_clients)
  show "keeps (tenant ns v) (RegisterWithCredential ns name h)"
    by (rule keeps_tenant [OF RegisterWithCredential_keeps]) (unfold RegisterWithCredential_def Let_def,
      intro foreign_guard foreign_stmt, auto simp: tenant_foreign foreign_clients)
  show "keeps (tenant ns v) (RotateCredential ns name h)"
    by (rule keeps_tenant [OF RotateCredential_keeps]) (unfold RotateCredential_def Let_def,
      intro foreign_guard foreign_stmt, auto simp: tenant_foreign update_client_foreign)
  show "keeps (tenant ns v) (BumpActivity ns name ts)"
    by (rule keeps_tenant [OF BumpActivity_keeps]) (unfold BumpActivity_def,
      intro foreign_stmt, auto simp: tenant_foreign update_client_foreign)
qed

lemma Clients_DeleteRow_tenant [tenant_intros]: "keeps (tenant ns v) (Clients_DeleteRow ns name)"
proof (rule keeps_tenant [OF Clients_DeleteRow_keeps])
  fix d :: db assume d: "tenant ns v (tabs d)"
  show "foreign ns (tabs (snd (Clients_DeleteRow ns name d))) = v"
    unfolding Clients_DeleteRow_def Let_def
  proof (rule foreign_stmt [OF _ d])
    fix d :: db assume d: "tenant ns v (tabs d)"
    let ?ids = "set (map se_id (client_sessions (tabs d) ns name))"
    have "?ids \<inter> foreign_ids ns (tabs d) = {}"
      using own_session [OF tenant_foreign(2) [OF d]] by (fastforce simp: client_sessions_def session_in_def)
    then have c: "foreign ns (cascade_sessions ?ids (tabs d)) = v"
      using foreign_cascade [OF tenant_foreign(2) [OF d]] tenant_foreign(1) [OF d] by simp
    have f: "filter (\<lambda>c. cl_ns c \<noteq> ns) (filter (\<lambda>c. \<not> (cl_ns c = ns \<and> cl_name c = name)) (clients t))
        = filter (\<lambda>c. cl_ns c \<noteq> ns) (clients t)" for t
      by (rule filter_filter_imp) auto
    show "foreign ns (snd (Inr (), (cascade_sessions ?ids (tabs d))\<lparr>clients :=
        filter (\<lambda>c. \<not> (cl_ns c = ns \<and> cl_name c = name)) (clients (cascade_sessions ?ids (tabs d)))\<rparr>)) = v"
      by (simp only: snd_conv foreign_clients [OF f] c)
  qed
qed

lemma Sessions_Insert_tenant [tenant_intros]: "ns_namespace sess = ns \<Longrightarrow> keeps (tenant ns v) (Sessions_Insert sess)"
  by (rule keeps_tenant [OF Sessions_Insert_keeps]) (unfold Sessions_Insert_def Let_def,
    intro foreign_guard foreign_stmt, auto simp: tenant_foreign foreign_sessions set_expires_at_def)

lemma Touch_tenant [tenant_intros]: "keeps (tenant ns v) (Touch ns h ts)"
proof (rule keeps_tenant [OF Touch_keeps])
  fix d :: db assume d: "tenant ns v (tabs d)"
  have f: "filter (\<lambda>s. se_ns s \<noteq> ns) (map (\<lambda>s. if se_ns s = ns \<and> se_hash s = h
      then set_expires_at (s\<lparr>se_last := max (se_last s) ts\<rparr>) else s) ss) = filter (\<lambda>s. se_ns s \<noteq> ns) ss" for ss
    by (rule filter_same_map) (auto simp: set_expires_at_def)
  show "foreign ns (tabs (snd (Touch ns h ts d))) = v"
    unfolding Touch_def Let_def
    by (intro foreign_guard foreign_stmt d) (auto simp: tenant_foreign foreign_sessions [OF f])
qed

text \<open>Methods that write below a session: it must not be a foreign one.\<close>

lemma InsertLabels_tenant: "sid \<notin> fo_ids v \<Longrightarrow> keeps (tenant ns v) (InsertLabels sid labels)"
proof (rule keeps_tenant [OF InsertLabels_keeps])
  fix d :: db assume sid: "sid \<notin> fo_ids v" and d: "tenant ns v (tabs d)"
  show "foreign ns (tabs (snd (InsertLabels sid labels d))) = v"
  proof (cases "labels = []")
    case True
    then show ?thesis using d by (simp add: InsertLabels_def ret_def tenant_foreign)
  next
    case False
    then show ?thesis
      unfolding InsertLabels_def Let_def if_not_P [OF False]
      by (intro foreign_stmt d)
        (use sid in \<open>auto simp: tenant_foreign foreign_ids case_prod_unfold filter_map comp_def intro!: foreign_tables(1) [THEN trans]\<close>)
  qed
qed

lemma DeleteRows_tenant: "set ids \<inter> fo_ids v = {} \<Longrightarrow> keeps (tenant ns v) (DeleteRows ids)"
  by (rule keeps_tenant [OF DeleteRows_keeps]) (auto simp: DeleteRows_def ret_def tenant_foreign foreign_ids foreign_cascade intro!: foreign_stmt)

lemma DeleteByIDRow_tenant: "sid \<notin> fo_ids v \<Longrightarrow> keeps (tenant ns v) (DeleteByIDRow sid)"
  by (rule keeps_tenant [OF DeleteByIDRow_keeps]) (auto simp: DeleteByIDRow_def tenant_foreign foreign_ids foreign_cascade intro!: foreign_stmt)

lemma own_id: "tenant ns v t \<Longrightarrow> session_in t ns sid \<Longrightarrow> sid \<notin> fo_ids v"
  using own_session [of t ns sid] by (auto simp: tenant_def foreign_ids)

lemma event_rows_session: "e \<in> set (event_rows sha now i sid es) \<Longrightarrow> ev_session e = sid"
  by (induction sha now i sid es rule: event_rows.induct) auto

lemma filter_none: "(\<And>x. x \<in> set xs \<Longrightarrow> \<not> P x) \<Longrightarrow> filter P xs = []"
  by (simp add: filter_empty_conv)

lemma Events_Write_tenant [tenant_intros]: "keeps (tenant ns v) (Events_Write sha ns sid es)"
proof (rule keeps_tenant [OF Events_Write_keeps])
  fix d :: db assume d: "tenant ns v (tabs d)"
  have w: "foreign ns (t\<lparr>session_events := session_events t @ event_rows sha now i sid es\<rparr>) = v"
    if t: "tenant ns v t" and s: "session_in t ns sid" for t :: tables and now i
  proof -
    have "filter (\<lambda>l. ev_session l \<in> foreign_ids ns t) (event_rows sha now i sid es) = []"
      using own_session [OF tenant_foreign(2) [OF t] s] event_rows_session by (intro filter_none) blast
    then show ?thesis using tenant_foreign(1) [OF t] by (simp add: foreign_tables(4))
  qed
  show "foreign ns (tabs (snd (Events_Write sha ns sid es d))) = v"
  proof (cases "es = []")
    case True
    then show ?thesis using d by (auto simp: Events_Write_def guard_def fail_def ret_def tenant_foreign)
  next
    case False
    then show ?thesis
      unfolding Events_Write_def Let_def if_not_P [OF False]
      by (intro foreign_guard foreign_stmt d) (simp_all add: tenant_foreign w)
  qed
qed

lemma Correlations_Insert_tenant [tenant_intros]: "keeps (tenant ns v) (Correlations_Insert ns sid cid ty meta)"
proof (rule keeps_tenant [OF Correlations_Insert_keeps])
  fix d :: db assume d: "tenant ns v (tabs d)"
  have w: "foreign ns (t\<lparr>correlations := correlations t @ [c]\<rparr>) = v"
    if t: "tenant ns v t" and s: "session_in t ns sid" "co_session c = sid" for t :: tables and c
    using own_session [OF tenant_foreign(2) [OF t] s(1)] tenant_foreign(1) [OF t] s(2) by (simp add: foreign_tables(5))
  show "foreign ns (tabs (snd (Correlations_Insert ns sid cid ty meta d))) = v"
    unfolding Correlations_Insert_def Let_def
    by (intro foreign_guard foreign_stmt d) (simp_all add: tenant_foreign w)
qed

lemma UpdateOutcome_tenant [tenant_intros]: "keeps (tenant ns v) (UpdateOutcome ns sid cid outcome)"
proof (rule keeps_tenant [OF UpdateOutcome_keeps])
  fix d :: db assume d: "tenant ns v (tabs d)"
  have w: "foreign ns (t\<lparr>correlations := map (\<lambda>r. if co_id r = cid then c' else r) (correlations t)\<rparr>) = v"
    if t: "tenant ns v t" and c: "find_correlation t ns sid cid = Some c" "co_session c' = co_session c" for t :: tables and c c'
  proof -
    note f = find_correlation_SomeD [OF c(1)]
    have sid: "sid \<notin> foreign_ids ns t" by (rule own_session [OF tenant_foreign(2) [OF t] f(1)])
    have inj: "inj_on co_id (set (correlations t))"
      using tenant_foreign(2) [OF t] by (simp add: tables_ok_def corrs_ok_def distinct_map)
    have own: "co_session r = sid" if "r \<in> set (correlations t)" "co_id r = cid" for r
    proof -
      have "r = c" by (rule inj_onD [OF inj]) (use that f in simp_all)
      then show ?thesis using f(4) by simp
    qed
    have "filter (\<lambda>l. co_session l \<in> foreign_ids ns t) (map (\<lambda>r. if co_id r = cid then c' else r) (correlations t))
        = filter (\<lambda>l. co_session l \<in> foreign_ids ns t) (correlations t)"
      by (rule filter_same_map) (use own sid f(4) c(2) in auto)
    then show ?thesis using tenant_foreign(1) [OF t] by (simp add: foreign_tables(5))
  qed
  show "foreign ns (tabs (snd (UpdateOutcome ns sid cid outcome d))) = v"
    unfolding UpdateOutcome_def Let_def
    by (intro foreign_guard foreign_stmt d) (auto simp: tenant_foreign w split: option.split)
qed

section \<open>Transactions\<close>

lemma insert_session_tenant [tenant_intros]:
  assumes ns: "ns_namespace sess = ns"
  shows "keeps (tenant ns v) (insert_session sess labels)"
  unfolding insert_session_def
proof (intro keeps_WithTx keeps_bind [OF Sessions_Insert_tenant [OF ns]] tenant_intros InsertLabels_tenant)
  fix d d' :: db and row
  assume d: "tenant ns v (tabs d)" and i: "Sessions_Insert sess d = (Inr row, d')"
  have "se_id row = next_session (tabs d)"
    using i unfolding Sessions_Insert_def guard_Inr Let_def
    by (elim conjE stmt_cases) (auto simp: set_expires_at_def split: if_splits)
  moreover have "se_id s < next_session (tabs d)" if "s \<in> set (sessions (tabs d))" for s
    using tenant_foreign(2) [OF d] that by (simp add: tables_ok_def sessions_ok_def session_row_ok_def)
  ultimately have "se_id row \<notin> foreign_ids ns (tabs d)" by (force simp: foreign_ids_def)
  then show "se_id row \<notin> fo_ids v" using tenant_foreign(1) [OF d] by (simp add: foreign_ids)
qed

lemma deleteLockedSession_tenant: "sid \<notin> fo_ids v \<Longrightarrow> keeps (tenant ns v) (deleteLockedSession ns client sid ts)"
  unfolding deleteLockedSession_def by (intro tenant_intros DeleteByIDRow_tenant)

lemma delete_by_token_tenant [tenant_intros]: "keeps (tenant ns v) (delete_by_token ns h)"
proof -
  have "keeps (tenant ns v) (WithTx (andthen (LockByTokenHash ns h) (\<lambda>(sid, client).
       andthen (deleteLockedSession ns client sid tm) (\<lambda>cascade. ret (sid, cascade)))))" for tm
    unfolding case_prod_unfold
  proof (intro keeps_WithTx keeps_bind [OF reads_keep(9)] tenant_intros deleteLockedSession_tenant)
    fix d d' :: db and x
    assume d: "tenant ns v (tabs d)" and l: "LockByTokenHash ns h d = (Inr x, d')"
    obtain s where "find_session (tabs d) ns h = Some s" "fst x = se_id s"
      using l unfolding LockByTokenHash_def guard_Inr by (elim conjE query_cases) (auto split: option.splits)
    then have "session_in (tabs d) ns (fst x)" by (auto simp: find_session_def session_in_def dest: find_SomeD)
    then show "fst x \<notin> fo_ids v" by (rule own_id [OF d])
  qed
  then show ?thesis unfolding keeps_def delete_by_token_def by blast
qed

lemma delete_matching_tenant [tenant_intros]:
  assumes ns: "sf_namespace f = ns"
  shows "keeps (tenant ns v) (delete_matching f)"
  unfolding delete_matching_def
proof (intro keeps_WithTx keeps_bind [OF reads_keep(11)])
  fix d d' :: db and ids
  assume d: "tenant ns v (tabs d)" and l: "LockAllByFilter f d = (Inr ids, d')"
  have "ids = sort (map se_id (filter (session_matches (tabs d) f) (sessions (tabs d))))"
    using l unfolding LockAllByFilter_def guard_Inr by (elim conjE query_cases) auto
  then have "set ids \<subseteq> {sid. session_in (tabs d) ns sid}"
    using ns by (auto simp: session_matches_def session_in_def)
  then have ids: "set ids \<inter> fo_ids v = {}" using own_id [OF d] by blast
  show "keeps (tenant ns v) (if ids = [] then ret (0, no_cascade)
      else andthen (CascadeCountsForIDs ids) (\<lambda>cascade. andthen (DeleteRows ids) (\<lambda>_. ret (length ids, cascade))))"
    by (cases "ids = []") (auto intro!: tenant_intros DeleteRows_tenant ids)
qed

lemma client_ops_tenant [tenant_intros]:
  "keeps (tenant ns v) (Clients_Delete ns name)" "keeps (tenant ns v) (Register ns name)"
  unfolding Clients_Delete_def Register_def by (intro tenant_intros)+

lemma receive_tx_tenant [tenant_intros]: "keeps (tenant ns v) (receive_tx ns sid cid outcome)"
  unfolding receive_tx_def by (intro tenant_intros)

text \<open>Below one source: the session of the source is not a foreign one.\<close>

definition at_source :: "string \<Rightarrow> foreign_rows \<Rightarrow> int \<Rightarrow> int \<Rightarrow> tables \<Rightarrow> bool" where
  "at_source ns v src sid t \<longleftrightarrow> tenant ns v t \<and> source_session t src = Some sid \<and> sid \<notin> fo_ids v"

lemma keeps_at_source:
  assumes "keeps tables_ok m" "\<And>x. keeps (\<lambda>t. sources t = x) m"
    "\<And>d. at_source ns v src sid (tabs d) \<Longrightarrow> foreign ns (tabs (snd (m d))) = v"
  shows "keeps (at_source ns v src sid) m"
  unfolding keeps_def
proof (intro allI impI)
  fix d :: db assume d: "at_source ns v src sid (tabs d)"
  have "sources (tabs (snd (m d))) = sources (tabs d)" using assms(2) [unfolded keeps_def, rule_format, OF refl] .
  moreover have "tables_ok (tabs (snd (m d)))"
    using assms(1) [unfolded keeps_def, rule_format] d by (simp add: at_source_def tenant_def)
  ultimately show "at_source ns v src sid (tabs (snd (m d)))"
    using d assms(3) [OF d] by (simp add: at_source_def tenant_def source_session_def)
qed

lemma at_source_parts:
  assumes "at_source ns v src sid t"
  shows "tenant ns v t" "tables_ok t" "foreign ns t = v" "sid \<notin> foreign_ids ns t" "source_session t src = Some sid"
    "\<And>s. s \<in> set (sources t) \<Longrightarrow> so_id s = src \<Longrightarrow> so_session s = sid"
proof -
  show t: "tenant ns v t" "tables_ok t" "foreign ns t = v" "sid \<notin> foreign_ids ns t" "source_session t src = Some sid"
    using assms by (auto simp: at_source_def tenant_def foreign_ids)
  obtain s0 where s0: "s0 \<in> set (sources t)" "so_id s0 = src" "so_session s0 = sid"
    using t(5) by (auto simp: source_session_def dest: find_SomeD)
  have inj: "inj_on so_id (set (sources t))" using t(2) by (simp add: tables_ok_def sources_ok_def distinct_map)
  fix s assume "s \<in> set (sources t)" "so_id s = src"
  then have "s = s0" by (intro inj_onD [OF inj]) (use s0 in simp_all)
  then show "so_session s = sid" using s0(3) by simp
qed

lemma not_foreign_chunk: "at_source ns v src sid t \<Longrightarrow> ch_source c = src \<Longrightarrow> \<not> foreign_chunk (foreign_ids ns t) (sources t) c"
  using at_source_parts(4,6) by (fastforce simp: foreign_chunk_def)

lemma foreign_at_source:
  assumes "\<And>d. at_source ns v src sid (tabs d) \<Longrightarrow> foreign ns (snd (f d)) = v" "at_source ns v src sid (tabs d)"
  shows "foreign ns (tabs (snd (stmt f d))) = v"
  using assms(1) [OF assms(2)] at_source_parts(3) [OF assms(2)] by (auto simp: stmt_def split: list.split bool.split prod.split)

lemma source_frames:
  "keeps (\<lambda>t. sources t = x) (DecrementForSource lx src)" "keeps (\<lambda>t. sources t = x) (DeleteForSource src)"
  "keeps (\<lambda>t. sources t = x) (Chunks_Insert src cs)" "keeps (\<lambda>t. sources t = x) (IncrementForSource lx src)"
  "keeps (\<lambda>t. sources t = x) (PruneZeros i)"
  unfolding DecrementForSource_def DeleteForSource_def Chunks_Insert_def IncrementForSource_def PruneZeros_def Let_def
  by (auto intro!: keeps_stmt keeps_ret split: option.split)

lemma add_words_foreign:
  "sid \<notin> F \<Longrightarrow> filter (\<lambda>v. vo_session v \<in> F) (fold (add_word sid) es vs) = filter (\<lambda>v. vo_session v \<in> F) vs"
proof (induction es arbitrary: vs)
  case (Cons e es)
  have "filter (\<lambda>v. vo_session v \<in> F) (map (\<lambda>v. if vo_session v = sid \<and> vo_word v = w then v\<lparr>vo_freq := vo_freq v + n\<rparr> else v) vs)
      = filter (\<lambda>v. vo_session v \<in> F) vs" for w n
    by (rule filter_same_map) (use Cons.prems in auto)
  then have "filter (\<lambda>v. vo_session v \<in> F) (add_word sid e vs) = filter (\<lambda>v. vo_session v \<in> F) vs"
    using Cons.prems by (auto simp: add_word_def split: prod.split)
  then show ?case using Cons by simp
qed simp

lemma source_statements:
  "keeps (at_source ns v src sid) (DecrementForSource lx src)" "keeps (at_source ns v src sid) (DeleteForSource src)"
  "keeps (at_source ns v src sid) (Chunks_Insert src cs)" "keeps (at_source ns v src sid) (IncrementForSource lx src)"
  "keeps (at_source ns v src sid) (PruneZeros sid)"
proof -
  note f = foreign_tables(2,3) [THEN trans]
  show "keeps (at_source ns v src sid) (DecrementForSource lx src)"
  proof (rule keeps_at_source [OF DecrementForSource_keeps source_frames(1)])
    fix d :: db assume d: "at_source ns v src sid (tabs d)"
    show "foreign ns (tabs (snd (DecrementForSource lx src d))) = v"
      unfolding DecrementForSource_def Let_def
      by (rule foreign_at_source [OF _ d]) (use at_source_parts in \<open>auto intro!: f filter_same_map split: option.splits if_splits\<close>)
  qed
  show "keeps (at_source ns v src sid) (DeleteForSource src)"
  proof (rule keeps_at_source [OF DeleteForSource_keeps source_frames(2)])
    fix d :: db assume d: "at_source ns v src sid (tabs d)"
    show "foreign ns (tabs (snd (DeleteForSource src d))) = v"
      unfolding DeleteForSource_def Let_def snd_conv
    proof (rule foreign_at_source [OF _ d], unfold snd_conv)
      fix d :: db assume d: "at_source ns v src sid (tabs d)"
      have "filter (foreign_chunk (foreign_ids ns (tabs d)) (sources (tabs d))) (filter (\<lambda>c. ch_source c \<noteq> src) (chunks (tabs d)))
          = filter (foreign_chunk (foreign_ids ns (tabs d)) (sources (tabs d))) (chunks (tabs d))"
        by (rule filter_filter_imp) (use not_foreign_chunk [OF d] in blast)
      then show "foreign ns ((tabs d)\<lparr>chunks := filter (\<lambda>c. ch_source c \<noteq> src) (chunks (tabs d))\<rparr>) = v"
        using at_source_parts(3) [OF d] by (simp only: foreign_tables(2))
    qed
  qed
  show "keeps (at_source ns v src sid) (Chunks_Insert src cs)"
  proof (rule keeps_at_source [OF Chunks_Insert_keeps source_frames(3)])
    fix d :: db assume d: "at_source ns v src sid (tabs d)"
    show "foreign ns (tabs (snd (Chunks_Insert src cs d))) = v"
    proof (cases "cs = []")
      case True
      then show ?thesis using at_source_parts(3) [OF d] by (simp add: Chunks_Insert_def ret_def)
    next
      case False
      have w: "foreign ns (t\<lparr>chunks := chunks t @ chunk_rows i src cs\<rparr>) = v" if t: "at_source ns v src sid t" for t i
      proof -
        have "filter (foreign_chunk (foreign_ids ns t) (sources t)) (chunk_rows i src cs) = []"
          using not_foreign_chunk [OF t] new_rows_source by (intro filter_none) blast
        then show ?thesis using at_source_parts(3) [OF t] by (simp add: foreign_tables(2))
      qed
      show ?thesis unfolding Chunks_Insert_def Let_def if_not_P [OF False]
        by (rule foreign_at_source [OF _ d]) (auto simp: w at_source_parts(3))
    qed
  qed
  show "keeps (at_source ns v src sid) (IncrementForSource lx src)"
  proof (rule keeps_at_source [OF IncrementForSource_keeps source_frames(4)])
    fix d :: db assume d: "at_source ns v src sid (tabs d)"
    show "foreign ns (tabs (snd (IncrementForSource lx src d))) = v"
      unfolding IncrementForSource_def Let_def
      by (rule foreign_at_source [OF _ d]) (simp add: at_source_parts(5) foreign_tables(3) add_words_foreign at_source_parts(3,4))
  qed
  show "keeps (at_source ns v src sid) (PruneZeros sid)"
  proof (rule keeps_at_source [OF PruneZeros_keeps source_frames(5)])
    fix d :: db assume d: "at_source ns v src sid (tabs d)"
    show "foreign ns (tabs (snd (PruneZeros sid d))) = v"
      unfolding PruneZeros_def Let_def
    proof (rule foreign_at_source [OF _ d], unfold snd_conv)
      fix d :: db assume d: "at_source ns v src sid (tabs d)"
      have "filter (\<lambda>l. vo_session l \<in> foreign_ids ns (tabs d)) (filter (\<lambda>v. \<not> (vo_session v = sid \<and> vo_freq v \<le> 0)) (vocabulary (tabs d)))
          = filter (\<lambda>l. vo_session l \<in> foreign_ids ns (tabs d)) (vocabulary (tabs d))"
        by (rule filter_filter_imp) (use at_source_parts(4) [OF d] in auto)
      then show "foreign ns ((tabs d)\<lparr>vocabulary := filter (\<lambda>v. \<not> (vo_session v = sid \<and> vo_freq v \<le> 0)) (vocabulary (tabs d))\<rparr>) = v"
        using at_source_parts(3) [OF d] by (simp only: foreign_tables(3))
    qed
  qed
qed

lemma Upsert_tenant: "keeps (tenant ns v) (Upsert ns sid label)"
proof (rule keeps_tenant [OF Upsert_keeps])
  fix d :: db assume d: "tenant ns v (tabs d)"
  have w: "foreign ns (t\<lparr>sources := map (\<lambda>r. if so_session r = sid \<and> so_label r = label then r\<lparr>so_indexed := n\<rparr> else r) (sources t)\<rparr>) = v"
    "foreign ns (t\<lparr>sources := sources t @ [\<lparr>so_id = i, so_session = sid, so_label = label, so_indexed = n\<rparr>]\<rparr>) = v"
    if t: "tenant ns v t" and s: "session_in t ns sid" for t :: tables and i n
  proof -
    have sid: "sid \<notin> foreign_ids ns t" by (rule own_session [OF tenant_foreign(2) [OF t] s])
    show "foreign ns (t\<lparr>sources := map (\<lambda>r. if so_session r = sid \<and> so_label r = label then r\<lparr>so_indexed := n\<rparr> else r) (sources t)\<rparr>) = v"
      unfolding tenant_foreign(1) [OF t, symmetric]
      by (intro foreign_sources filter_same_map) (use sid in auto)
    show "foreign ns (t\<lparr>sources := sources t @ [\<lparr>so_id = i, so_session = sid, so_label = label, so_indexed = n\<rparr>]\<rparr>) = v"
      unfolding tenant_foreign(1) [OF t, symmetric] by (intro foreign_sources) (use sid in simp)
  qed
  show "foreign ns (tabs (snd (Upsert ns sid label d))) = v"
    unfolding Upsert_def Let_def
    by (intro foreign_guard foreign_stmt d) (auto simp: tenant_foreign w split: option.split)
qed

lemma ingest_tx_tenant [tenant_intros]: "keeps (tenant ns v) (ingest_tx lx ns sid source cs)"
  unfolding ingest_tx_def case_prod_unfold
proof (rule keeps_refine [OF Upsert_tenant, where Q = "\<lambda>x. at_source ns v (fst x) sid"])
  fix d d' :: db and x
  assume d: "tenant ns v (tabs d)" and u: "Upsert ns sid source d = (Inr x, d')"
  have u': "Upsert ns sid source d = (Inr (fst x, snd x), d')" using u by simp
  note ok = Upsert_ok [OF u' tenant_foreign(2) [OF d]]
  have "source_session (tabs d') (fst x) = Some sid" unfolding source_session_iff [OF ok(2)] using ok(6) by blast
  then show "at_source ns v (fst x) sid (tabs d')"
    using own_id [OF d ok(1)] keepsD [OF Upsert_tenant u d] by (simp add: at_source_def)
qed (use at_source_parts(1) in \<open>auto intro!: keeps_andthen keeps_ret source_statements reads_keep(17)\<close>)

lemma ingest_chunks_tenant [tenant_intros]: "keeps (tenant ns v) (ingest_chunks lx ns sid cid source cs fmt)"
  unfolding ingest_chunks_def ingest_captureCorrelation_def Let_def by (intro tenant_intros)

lemma service_tenant [tenant_intros]:
  "keeps (tenant ns v) (Search F U T ns sid cid inp qs b w)"
  "keeps (tenant ns v) (DocumentOrder F ns sid cid source limit offset b)"
  "keeps (tenant ns v) (Build stamp ns sid cid b)"
  unfolding Search_def DocumentOrder_def Build_def Let_def case_prod_unfold
  by (intro tenant_intros fanOut_keep ChunksInOrder_keeps)+

section \<open>The services\<close>

lemma tenant_now: "tables_ok t \<Longrightarrow> tenant ns (foreign ns t) t" by (simp add: tenant_def)

text \<open>From one state of the service to another, for the requests of a namespace.\<close>

definition own_change :: "string \<Rightarrow> ('c, 'i) svc \<Rightarrow> ('c, 'i) svc \<Rightarrow> bool" where
  "own_change ns s s' \<longleftrightarrow> (tables_ok (tabs (sv_db s)) \<longrightarrow>
     tables_ok (tabs (sv_db s')) \<and> foreign ns (tabs (sv_db s')) = foreign ns (tabs (sv_db s)))"

lemma own_change_tenant: "(\<And>v. tenant ns v (tabs (sv_db s)) \<Longrightarrow> tenant ns v (tabs (sv_db s'))) \<Longrightarrow> own_change ns s s'"
  unfolding own_change_def using tenant_now by (metis tenant_def)

lemma own_change_refl [simp]: "own_change ns s s" by (simp add: own_change_def)

lemma own_change_trans: "own_change ns s s' \<Longrightarrow> own_change ns s' s'' \<Longrightarrow> own_change ns s s''"
  by (simp add: own_change_def)

lemma own_change_same: "tabs (sv_db s') = tabs (sv_db s) \<Longrightarrow> own_change ns s s'" by (simp add: own_change_def)

lemma on_db_own:
  assumes "\<And>v. keeps (tenant ns v) m" "on_db m s = (r, s')"
  shows "own_change ns s s'"
  using assms(2) by (cases rule: on_db_run) (auto intro!: own_change_tenant dest: keepsD [OF assms(1)])

lemma dbm_own: "(\<And>v. keeps (tenant ns v) m) \<Longrightarrow> m (sv_db s) = (r, d) \<Longrightarrow> own_change ns s (s\<lparr>sv_db := d\<rparr>)"
  by (rule own_change_tenant) (auto dest: keepsD)

lemma own_change_cache [simp]:
  "own_change ns s (s'\<lparr>sv_cache := c\<rparr>) = own_change ns s s'" "own_change ns s (s'\<lparr>sv_idem := i\<rparr>) = own_change ns s s'"
  "own_change ns (s\<lparr>sv_cache := c\<rparr>) s' = own_change ns s s'" "own_change ns (s\<lparr>sv_idem := i\<rparr>) s' = own_change ns s s'"
  by (simp_all add: own_change_def)

lemma transaction_own:
  "insert_session sess labels (sv_db s) = (r1, d) \<Longrightarrow> own_change (ns_namespace sess) s (s\<lparr>sv_db := d\<rparr>)"
  "on_db (delete_matching f) s = (r2, s') \<Longrightarrow> own_change (sf_namespace f) s s'"
  by (rule dbm_own [OF insert_session_tenant [OF refl]], assumption) (rule on_db_own [OF delete_matching_tenant [OF refl]])

lemma Session_Create_own:
  assumes "Session_Create sha rnd req key s = (r, s')" "cr_Namespace req = ns"
  shows "own_change ns s s'"
proof -
  have m: "own_change ns s s'" if "mint_session sha rnd q k s = (r, s')" "cr_Namespace q = ns"
    for q k r and s s' :: "('c, 'i) svc"
    using that by (auto simp: mint_session_def Let_def split: option.splits prod.splits sum.splits
        dest!: transaction_own(1))
  show ?thesis using assms
    by (auto simp: Session_Create_def Let_def split: if_splits option.splits prod.splits sum.splits dest!: m)
qed

lemma Session_Lookup_own: "Session_Lookup sha ns tok s = (r, s') \<Longrightarrow> own_change ns s s'"
  by (auto simp: Session_Lookup_def Let_def split: option.splits prod.splits sum.splits dest!: on_db_own [rotated, OF _ reads_keep(6)])

lemma Session_Touch_own: "Session_Touch sha ns tok ts s = (r, s') \<Longrightarrow> own_change ns s s'"
  by (auto simp: Session_Touch_def split: option.splits prod.splits sum.splits if_splits dest!: on_db_own [OF Touch_tenant])

lemma Session_Delete_own: "Session_Delete sha ns tok s = (r, s') \<Longrightarrow> own_change ns s s'"
  by (auto simp: Session_Delete_def split: option.splits prod.splits sum.splits if_splits dest!: on_db_own [OF delete_by_token_tenant])

lemma Session_DeleteAll_own: "Session_DeleteAll f s = (r, s') \<Longrightarrow> sf_namespace f = ns \<Longrightarrow> own_change ns s s'"
  by (auto simp: Session_DeleteAll_def split: option.splits prod.splits sum.splits if_splits dest!: transaction_own(2))

lemma delete_client_own: "delete_client ns name s = (r, s') \<Longrightarrow> own_change ns s s'"
  by (auto simp: delete_client_def InvalidateNamespaceCache_def split: prod.splits sum.splits dest!: on_db_own [OF client_ops_tenant(1)])

lemma credentials_own:
  "Register_Credential sha rnd ns name (sv_db s) = (r1, d) \<Longrightarrow> own_change ns s (s\<lparr>sv_db := d\<rparr>)"
  "RotateToken sha rnd ns name (sv_db s) = (r2, d) \<Longrightarrow> own_change ns s (s\<lparr>sv_db := d\<rparr>)"
  "Receive U ns sid cid outcome ttl (sv_db s) = (r3, d) \<Longrightarrow> own_change ns s (s\<lparr>sv_db := d\<rparr>)"
  by (auto simp: Register_Credential_def RotateToken_def Receive_def split: if_splits option.splits prod.splits sum.splits
      dest: dbm_own [OF clients_tenant(2)] dbm_own [OF clients_tenant(3)] dbm_own [OF receive_tx_tenant])

end
