(* ===== verification/Api_Guard.thy ===== *)
theory Api_Guard
  imports Api_Server Tenant
begin

text \<open>
  What the server promises over all its requests. A relation between the states of the
  services that every service call keeps, call by call, is kept by a whole request, through
  the middleware and the handlers (locale \<open>request_relation\<close>). It is used for the steps of
  the system, so that what holds in every reachable state holds under any sequence of
  requests, and for the isolation of the tenants. Refused requests, the attribution of a new
  session and the exemption of the registration are treated after that.
\<close>

section \<open>Whom a request speaks for\<close>

definition request_namespace :: "('f, 'l) server_config \<Rightarrow> api_request \<Rightarrow> string" where
  "request_namespace cfg r =
     (if rq_Path r \<in> set unauthenticatedPaths \<or> rq_Header r HeaderAPIKey = [] then []
      else case reg_Resolve (hc_Registry (sv_Handlers cfg)) (rq_Header r HeaderAPIKey) of Some ns \<Rightarrow> ns | None \<Rightarrow> [])"

section \<open>Relations that service calls keep\<close>

lemma allow_frames:
  "fr_svc (snd (ns_Allow cfg ns fr)) = fr_svc fr" "fr_svc (snd (global_Allow cfg fr)) = fr_svc fr"
  by (auto simp: ns_Allow_def global_Allow_def Let_def split: option.split prod.split)

locale request_relation =
  fixes E :: "'f env" and R :: "string \<Rightarrow> ('c, 'i) svc \<Rightarrow> ('c, 'i) svc \<Rightarrow> bool" and in_play :: "string \<Rightarrow> bool"
  assumes same: "tabs d = tabs (sv_db s) \<Longrightarrow> R ns s (s\<lparr>sv_db := d\<rparr>)"
    and trans: "R ns s s' \<Longrightarrow> R ns s' s'' \<Longrightarrow> R ns s s''"
    and create: "Session_Create (e_sha E) rnd req key s = (r1, s') \<Longrightarrow> cr_Namespace req = ns \<Longrightarrow>
      (\<forall>raw. NewRandomToken rnd = Some raw \<longrightarrow> in_play raw) \<Longrightarrow> R ns s s'"
    and lookup: "Session_Lookup (e_sha E) ns tok s = (r2, s') \<Longrightarrow> in_play tok \<Longrightarrow> R ns s s'"
    and touch: "Session_Touch (e_sha E) ns tok ts s = (r3, s') \<Longrightarrow> R ns s s'"
    and delete: "Session_Delete (e_sha E) ns tok s = (r4, s') \<Longrightarrow> in_play tok \<Longrightarrow> R ns s s'"
    and delete_all: "Session_DeleteAll f s = (r5, s') \<Longrightarrow> sf_namespace f = ns \<Longrightarrow> R ns s s'"
    and ingest: "on_db (ingest_chunks (e_lexer E) ns sid cid source cs fmt) s = (r6, s') \<Longrightarrow> R ns s s'"
    and search: "on_db (Search (e_float E) (e_unicode E) (e_text E) ns sid cid inp qs b v) s = (r7, s') \<Longrightarrow> R ns s s'"
    and document: "on_db (DocumentOrder (e_float E) ns sid cid source limit offset b) s = (r7, s') \<Longrightarrow> R ns s s'"
    and log_events: "on_db (Events_Write (e_sha E) ns sid evs) s = (r8, s') \<Longrightarrow> R ns s s'"
    and snapshot: "on_db (Build (e_stamp E) ns sid cid b) s = (r9, s') \<Longrightarrow> R ns s s'"
    and feedback: "Receive (e_uuid E) ns sid cid outcome ttl (sv_db s) = (r10, d) \<Longrightarrow> R ns s (s\<lparr>sv_db := d\<rparr>)"
    and register: "on_db (Register ns name) s = (r11, s') \<Longrightarrow> R ns s s'"
    and credential: "Register_Credential (e_sha E) rnd ns name (sv_db s) = (r12, d) \<Longrightarrow> R ns s (s\<lparr>sv_db := d\<rparr>)"
    and rotate: "RotateToken (e_sha E) rnd ns name (sv_db s) = (r12, d) \<Longrightarrow> R ns s (s\<lparr>sv_db := d\<rparr>)"
    and remove_client: "delete_client ns name s = (r13, s') \<Longrightarrow> R ns s s'"
begin

lemma here [simp]: "R ns s s"
  using same [of "sv_db s" s ns] by simp

lemma reads:
  assumes "\<And>x. keeps (\<lambda>t. t = x) m" "on_db m s = (r, s')"
  shows "R ns s s'"
  using assms(2)
  by (cases rule: on_db_run) (use keepsD [OF assms(1) _ refl] in \<open>auto intro!: same\<close>)

lemma fail_reads: "on_db (fail e) s = (r, s') \<Longrightarrow> R ns s s'"
  by (rule reads [OF keeps_fail])

lemma rows:
  "on_db (query f) s = (r, s') \<Longrightarrow> R ns s s'" "on_db (ListSources ns' sid) s = (r1, s') \<Longrightarrow> R ns s s'"
  "on_db (Events_Read ns' sid ef) s = (r2, s') \<Longrightarrow> R ns s s'" "on_db (Clients_List ns') s = (r3, s') \<Longrightarrow> R ns s s'"
  "on_db (Clients_PreviewDelete ns' name) s = (r4, s') \<Longrightarrow> R ns s s'" "Session_List sf s = (r5, s') \<Longrightarrow> R ns s s'"
  "Session_Count sf s = (r4, s') \<Longrightarrow> R ns s s'" "on_db (ResolveByToken sha ns' tok) s = (r6, s') \<Longrightarrow> R ns s s'"
  unfolding ListSources_def Clients_PreviewDelete_def Session_List_def Session_Count_def ResolveByToken_def
  by (erule reads [rotated]; intro keeps_query keeps_guard reads_keep)+

text \<open>The handlers.\<close>

lemma handle_ingest: "Handle_Ingest h (e_lexer E) cx b s = (a, s') \<Longrightarrow> R (rc_Namespace cx) s s'"
  by (auto simp: Handle_Ingest_def Ingest_def split: option.splits prod.splits sum.splits if_splits
      intro: fail_reads ingest)

lemma handle_search:
  "Handle_Search h (e_float E) (e_unicode E) (e_text E) cx b header s = (a, s') \<Longrightarrow> R (rc_Namespace cx) s s'"
  by (auto simp: Handle_Search_def search_dispatch_def Let_def split: option.splits prod.splits sum.splits if_splits
      intro: search document)

lemma handle_clients:
  "Handle_RegisterClient h (e_sha E) rnd cx name s = (a, s') \<Longrightarrow> R (rc_Namespace cx) s s'"
  "Handle_RotateClientToken h (e_sha E) rnd cx name s = (a, s') \<Longrightarrow> R (rc_Namespace cx) s s'"
  "Handle_ManageListClients cx s = (a, s') \<Longrightarrow> R (rc_Namespace cx) s s'"
  "Handle_ManageDeleteClient cx name dry s = (a, s') \<Longrightarrow> R (rc_Namespace cx) s s'"
proof -
  show "Handle_RegisterClient h (e_sha E) rnd cx name s = (a, s') \<Longrightarrow> R (rc_Namespace cx) s s'"
    by (auto simp: Handle_RegisterClient_def registerCredentialedClient_def registerUncredentialedClient_def Let_def
        split: prod.splits sum.splits if_splits bool.splits intro: register credential)
  show "Handle_RotateClientToken h (e_sha E) rnd cx name s = (a, s') \<Longrightarrow> R (rc_Namespace cx) s s'"
    by (auto simp: Handle_RotateClientToken_def Let_def split: prod.splits sum.splits if_splits intro: rotate)
  show "Handle_ManageListClients cx s = (a, s') \<Longrightarrow> R (rc_Namespace cx) s s'"
    by (auto simp: Handle_ManageListClients_def split: prod.splits sum.splits if_splits intro: rows)
  show "Handle_ManageDeleteClient cx name dry s = (a, s') \<Longrightarrow> R (rc_Namespace cx) s s'"
    by (auto simp: Handle_ManageDeleteClient_def Let_def split: prod.splits sum.splits if_splits intro: rows remove_client)
qed

lemma handle_sessions:
  "Handle_CreateSession h (e_sha E) rnd cx cb key s = (a, s') \<Longrightarrow>
    (\<forall>raw. NewRandomToken rnd = Some raw \<longrightarrow> in_play raw) \<Longrightarrow> R (rc_Namespace cx) s s'"
  "Handle_DeleteSession (e_sha E) cx tok s = (a, s') \<Longrightarrow> in_play tok \<Longrightarrow> R (rc_Namespace cx) s s'"
  "Handle_GetSnapshot (e_stamp E) cx b s = (a, s') \<Longrightarrow> R (rc_Namespace cx) s s'"
  "Handle_ListSources cx s = (a, s') \<Longrightarrow> R (rc_Namespace cx) s s'"
  "Handle_ManageListSessions cx client ls s = (a, s') \<Longrightarrow> R (rc_Namespace cx) s s'"
  "Handle_ManageDeleteSessions cx client ls dry s = (a, s') \<Longrightarrow> R (rc_Namespace cx) s s'"
proof -
  show "R (rc_Namespace cx) s s'"
    if c: "Handle_CreateSession h (e_sha E) rnd cx cb key s = (a, s')" and raw: "\<forall>raw. NewRandomToken rnd = Some raw \<longrightarrow> in_play raw"
    using c by (auto simp: Handle_CreateSession_def Let_def split: option.splits prod.splits sum.splits if_splits
        dest: create [OF _ _ raw])
  show "Handle_DeleteSession (e_sha E) cx tok s = (a, s') \<Longrightarrow> in_play tok \<Longrightarrow> R (rc_Namespace cx) s s'"
    by (auto simp: Handle_DeleteSession_def split: option.splits prod.splits sum.splits if_splits intro: delete)
  show "Handle_GetSnapshot (e_stamp E) cx b s = (a, s') \<Longrightarrow> R (rc_Namespace cx) s s'"
    by (auto simp: Handle_GetSnapshot_def split: option.splits prod.splits sum.splits intro: snapshot)
  show "Handle_ListSources cx s = (a, s') \<Longrightarrow> R (rc_Namespace cx) s s'"
    by (auto simp: Handle_ListSources_def split: option.splits prod.splits sum.splits intro: rows)
  show "Handle_ManageListSessions cx client ls s = (a, s') \<Longrightarrow> R (rc_Namespace cx) s s'"
    by (auto simp: Handle_ManageListSessions_def split: prod.splits sum.splits if_splits intro: rows)
  show "Handle_ManageDeleteSessions cx client ls dry s = (a, s') \<Longrightarrow> R (rc_Namespace cx) s s'"
    by (auto simp: Handle_ManageDeleteSessions_def manageSessionsFilter_def Let_def split: prod.splits sum.splits if_splits
        intro: rows delete_all)
qed

lemma handle_events:
  "Handle_WriteEvents (e_sha E) cx evs s = (a, s') \<Longrightarrow> R (rc_Namespace cx) s s'"
  "Handle_ReadEvents cx types p l s = (a, s') \<Longrightarrow> R (rc_Namespace cx) s s'"
  "Handle_Feedback h (e_uuid E) cx fb s = (a, s') \<Longrightarrow> R (rc_Namespace cx) s s'"
  "Handle_GetHealth s = (a, s') \<Longrightarrow> R (rc_Namespace cx) s s'"
proof -
  show "Handle_WriteEvents (e_sha E) cx evs s = (a, s') \<Longrightarrow> R (rc_Namespace cx) s s'"
    by (auto simp: Handle_WriteEvents_def split: option.splits prod.splits sum.splits intro: log_events)
  show "Handle_ReadEvents cx types p l s = (a, s') \<Longrightarrow> R (rc_Namespace cx) s s'"
    by (auto simp: Handle_ReadEvents_def split: option.splits prod.splits sum.splits intro: rows)
  show "Handle_Feedback h (e_uuid E) cx fb s = (a, s') \<Longrightarrow> R (rc_Namespace cx) s s'"
    by (auto simp: Handle_Feedback_def Let_def split: option.splits prod.splits sum.splits if_splits intro: feedback)
  show "Handle_GetHealth s = (a, s') \<Longrightarrow> R (rc_Namespace cx) s s'"
    by (auto simp: Handle_GetHealth_def split: prod.splits sum.splits intro: rows)
qed

lemmas handled = handle_ingest handle_search handle_clients handle_sessions handle_events

lemma dispatched:
  assumes "dispatch_call h E r cx s = (a, s')" "in_play (rq_Header r HeaderSessionToken)"
    "\<forall>raw. NewRandomToken (rq_Random r) = Some raw \<longrightarrow> in_play raw"
  shows "R (rc_Namespace cx) s s'"
  using assms by (cases "rq_Call r") (auto simp: dispatch_call_def Handle_GetVersion_def intro: handled)

text \<open>The chain below the authentication runs in one namespace.\<close>

definition kept :: "(api_request \<Rightarrow> bool) \<Rightarrow> ('c, 'i, 'l) endpoint \<Rightarrow> bool" where
  "kept P ep \<longleftrightarrow> (\<forall>r cx fr a fr'. P r \<longrightarrow> ep r cx fr = (a, fr') \<longrightarrow> R (rc_Namespace cx) (fr_svc fr) (fr_svc fr'))"

lemma keptD: "kept P ep \<Longrightarrow> P r \<Longrightarrow> ep r cx fr = (a, fr') \<Longrightarrow> R (rc_Namespace cx) (fr_svc fr) (fr_svc fr')"
  unfolding kept_def by blast

definition ours :: "api_request \<Rightarrow> bool" where
  "ours r \<longleftrightarrow> in_play (rq_Header r HeaderSessionToken) \<and> (\<forall>raw. NewRandomToken (rq_Random r) = Some raw \<longrightarrow> in_play raw)"

lemma kept_handlers: "sv_Env cfg = E \<Longrightarrow> kept ours (handlers_endpoint cfg)"
  unfolding kept_def ours_def handlers_endpoint_def by (auto split: prod.splits intro: dispatched)

lemma kept_SessionResolve:
  assumes E: "sv_Env cfg = E" and nxt: "kept ours nxt"
  shows "kept ours (SessionResolve cfg nxt)"
  unfolding kept_def
proof (intro allI impI)
  fix r cx fr a fr'
  assume r: "ours r" and run: "SessionResolve cfg nxt r cx fr = (a, fr')"
  let ?tok = "rq_Header r HeaderSessionToken" and ?ns = "rc_Namespace cx"
  have tok: "in_play ?tok" using r by (simp add: ours_def)
  show "R ?ns (fr_svc fr) (fr_svc fr')"
  proof (cases "(rq_Method r, rq_Path r) \<in> set (sv_Routes cfg) \<and> ?ns \<noteq> []")
    case False
    then show ?thesis using run keptD [OF nxt r] by (auto simp: SessionResolve_def Let_def split: if_splits)
  next
    case True
    obtain q s where l: "Session_Lookup (e_sha E) ?ns ?tok (fr_svc fr) = (q, s)" by fastforce
    have ls: "R ?ns (fr_svc fr) s" by (rule lookup [OF l tok])
    show ?thesis
    proof (cases q)
      case (Inl e)
      then have "fr' = fr\<lparr>fr_svc := s\<rparr>" using run True l E by (simp add: SessionResolve_def Let_def)
      then show ?thesis using ls by simp
    next
      case (Inr md)
      obtain b fr1 where n: "nxt r (cx\<lparr>rc_Metadata := Some md\<rparr>) (fr\<lparr>fr_svc := s\<rparr>) = (b, fr1)" by fastforce
      have "R ?ns s (fr_svc fr1)" using keptD [OF nxt r n] by simp
      then have 1: "R ?ns (fr_svc fr) (fr_svc fr1)" by (rule trans [OF ls])
      have "fr_svc fr' = fr_svc fr1 \<or> fr_svc fr' = snd (Session_Touch (e_sha E) ?ns ?tok (front_now fr1) (fr_svc fr1))"
        using run True l Inr n E by (auto simp: SessionResolve_def Let_def split: if_splits)
      moreover have "R ?ns (fr_svc fr1) (snd (Session_Touch (e_sha E) ?ns ?tok (front_now fr1) (fr_svc fr1)))"
        by (rule touch [OF prod.collapse [symmetric]])
      ultimately show ?thesis using 1 trans by metis
    qed
  qed
qed

lemma kept_limits:
  assumes "kept ours nxt"
  shows "kept ours (OpenAPIValidator cfg nxt)" "kept ours (BodySizeLimit cfg nxt)" "kept ours (RateLimitNamespaceAndGlobal cfg nxt)"
proof -
  show "kept ours (OpenAPIValidator cfg nxt)"
    unfolding kept_def OpenAPIValidator_def using keptD [OF assms] by (auto split: option.splits)
  show "kept ours (BodySizeLimit cfg nxt)"
    unfolding kept_def BodySizeLimit_def Let_def using keptD [OF assms] by (auto split: if_splits)
  show "kept ours (RateLimitNamespaceAndGlobal cfg nxt)"
    unfolding kept_def
  proof (intro allI impI)
    fix r cx fr a fr'
    assume r: "ours r" and run: "RateLimitNamespaceAndGlobal cfg nxt r cx fr = (a, fr')"
    obtain ok1 f1 where 1: "ns_Allow cfg (rc_Namespace cx) fr = (ok1, f1)" by fastforce
    obtain ok2 f2 where 2: "global_Allow cfg f1 = (ok2, f2)" by fastforce
    have s: "fr_svc f1 = fr_svc fr" "fr_svc f2 = fr_svc fr"
      using allow_frames(1) [of cfg "rc_Namespace cx" fr] allow_frames(2) [of cfg f1] 1 2 by simp_all
    have "fr' = f1 \<or> fr' = f2 \<or> nxt r cx fr = (a, fr') \<or> nxt r cx f2 = (a, fr')"
      using run 1 2 by (auto simp: RateLimitNamespaceAndGlobal_def Let_def split: if_splits bool.splits)
    then show "R (rc_Namespace cx) (fr_svc fr) (fr_svc fr')" using keptD [OF assms r] s by (metis here)
  qed
qed

text \<open>The authentication finds the namespace.\<close>

definition entered :: "('f, 'l) server_config \<Rightarrow> ('c, 'i, 'l) endpoint \<Rightarrow> bool" where
  "entered cfg ep \<longleftrightarrow> (\<forall>r cx fr a fr'. ours r \<longrightarrow> rc_Namespace cx = [] \<longrightarrow> ep r cx fr = (a, fr') \<longrightarrow>
     R (request_namespace cfg r) (fr_svc fr) (fr_svc fr'))"

lemma enteredD:
  "entered cfg ep \<Longrightarrow> ours r \<Longrightarrow> rc_Namespace cx = [] \<Longrightarrow> ep r cx fr = (a, fr') \<Longrightarrow>
    R (request_namespace cfg r) (fr_svc fr) (fr_svc fr')"
  unfolding entered_def by blast

lemma entered_Auth:
  assumes E: "sv_Env cfg = E" and nxt: "kept ours nxt"
  shows "entered cfg (Auth cfg nxt)"
  unfolding entered_def
proof (intro allI impI)
  fix r cx fr a fr'
  assume r: "ours r" and cx: "rc_Namespace cx = []" and run: "Auth cfg nxt r cx fr = (a, fr')"
  let ?key = "rq_Header r HeaderAPIKey" and ?reg = "hc_Registry (sv_Handlers cfg)"
  show "R (request_namespace cfg r) (fr_svc fr) (fr_svc fr')"
  proof (cases "rq_Path r \<in> set unauthenticatedPaths")
    case True
    then show ?thesis using run keptD [OF nxt r] cx by (fastforce simp: Auth_def request_namespace_def)
  next
    case path: False
    show ?thesis
    proof (cases "?key = [] \<or> reg_Resolve ?reg ?key = None")
      case True
      then have "fr' = fr" using run path by (auto simp: Auth_def Let_def split: if_splits)
      then show ?thesis by simp
    next
      case False
      then obtain ns where ns: "?key \<noteq> []" "reg_Resolve ?reg ?key = Some ns" by auto
      then have q: "request_namespace cfg r = ns" using path by (simp add: request_namespace_def)
      show ?thesis
      proof (cases "RequiresClientCredentials ?reg ns \<and> \<not> isClientRegistration (rq_Method r) (rq_Path r)")
        case False
        then have "nxt r (cx\<lparr>rc_Namespace := ns\<rparr>) fr = (a, fr')" using run path ns by (auto simp: Auth_def Let_def split: if_splits)
        then show ?thesis using keptD [OF nxt r] q by fastforce
      next
        case True
        show ?thesis
        proof (cases "bearer_token r")
          case None
          then have "fr' = fr" using run path ns True by (simp add: Auth_def Let_def)
          then show ?thesis by simp
        next
          case (Some token)
          obtain x s where b: "on_db (ResolveByToken (e_sha E) ns token) (fr_svc fr) = (x, s)" by fastforce
          have bs: "R ns (fr_svc fr) s" by (rule rows(8) [OF b])
          show ?thesis
          proof (cases x)
            case (Inl e)
            then have "fr' = fr\<lparr>fr_svc := s\<rparr>" using run path ns True Some b E by (simp add: Auth_def Let_def)
            then show ?thesis using bs q by simp
          next
            case (Inr client)
            then have "nxt r (cx\<lparr>rc_Namespace := ns, rc_Client := client\<rparr>) (fr\<lparr>fr_svc := s\<rparr>) = (a, fr')"
              using run path ns True Some b E by (simp add: Auth_def Let_def)
            from keptD [OF nxt r this] have "R ns s (fr_svc fr')" by simp
            then show ?thesis using trans [OF bs] q by simp
          qed
        qed
      qed
    qed
  qed
qed

lemma entered_front:
  assumes "entered cfg nxt"
  shows "entered cfg (RateLimitIP cfg nxt)" "entered cfg (WorkloadRequestID nxt)" "entered cfg (Context nxt)"
proof -
  show "entered cfg (RateLimitIP cfg nxt)" "entered cfg (WorkloadRequestID nxt)"
    unfolding entered_def RateLimitIP_def WorkloadRequestID_def
    using enteredD [OF assms] by (fastforce split: if_splits prod.splits)+
  show "entered cfg (Context nxt)"
    unfolding entered_def Context_def
  proof (intro allI impI)
    fix r cx fr a fr'
    assume "ours r" "rc_Namespace cx = []" and n: "nxt r (cx\<lparr>rc_CorrelationID := rq_UUID r\<rparr>) fr = (a, fr')"
    then show "R (request_namespace cfg r) (fr_svc fr) (fr_svc fr')" by (intro enteredD [OF assms _ _ n]) simp_all
  qed
qed

lemma kept_request:
  assumes "sv_Env cfg = E" "in_play (rq_Header r HeaderSessionToken)" "\<And>raw. NewRandomToken (rq_Random r) = Some raw \<Longrightarrow> in_play raw"
    and run: "NewHandler cfg r fr = (a, fr')"
  shows "R (request_namespace cfg r) (fr_svc fr) (fr_svc fr')"
proof -
  have e: "entered cfg (Context (WorkloadRequestID (RateLimitIP cfg (Auth cfg (RateLimitNamespaceAndGlobal cfg
      (BodySizeLimit cfg (OpenAPIValidator cfg (SessionResolve cfg (handlers_endpoint cfg)))))))))"
    by (intro entered_front entered_Auth kept_limits kept_SessionResolve kept_handlers assms(1))
  have o: "ours r" unfolding ours_def using assms(2,3) by blast
  have c: "rc_Namespace empty_ctx = []" by (simp add: empty_ctx_def)
  have n: "Context (WorkloadRequestID (RateLimitIP cfg (Auth cfg (RateLimitNamespaceAndGlobal cfg
      (BodySizeLimit cfg (OpenAPIValidator cfg (SessionResolve cfg (handlers_endpoint cfg)))))))) r empty_ctx fr = (a, fr')"
    using run unfolding NewHandler_def .
  show ?thesis using e o c n unfolding entered_def by metis
qed

end

section \<open>The relations of the model\<close>

text \<open>Steps of the system: \<^theory_text>\<open>System.step\<close> allows each call for every namespace.\<close>

definition presented :: "'f env \<Rightarrow> api_request \<Rightarrow> bool" where
  "presented E r \<longleftrightarrow> rq_Header r HeaderSessionToken \<in> e_tokens E
     \<and> (\<forall>raw. NewRandomToken (rq_Random r) = Some raw \<longrightarrow> raw \<in> e_tokens E)"

interpretation step_calls: request_relation E "\<lambda>_. (step E)\<^sup>*\<^sup>*" "\<lambda>tok. tok \<in> e_tokens E"
  by unfold_locales (auto intro: step.intros rtranclp_trans)

interpretation own_calls: request_relation E "own_change" "\<lambda>_. True"
proof (unfold_locales, goal_cases)
  case 2
  then show ?case by (rule own_change_trans)
qed (auto intro: own_change_same Session_Create_own Session_Lookup_own Session_Touch_own Session_Delete_own Session_DeleteAll_own
    delete_client_own credentials_own on_db_own [OF ingest_chunks_tenant] on_db_own [OF service_tenant(1)]
    on_db_own [OF service_tenant(2)] on_db_own [OF service_tenant(3)] on_db_own [OF Events_Write_tenant]
    on_db_own [OF client_ops_tenant(2)])

lemma request_steps:
  assumes "presented (sv_Env cfg) r" "NewHandler cfg r fr = (a, fr')"
  shows "(step (sv_Env cfg))\<^sup>*\<^sup>* (fr_svc fr) (fr_svc fr')"
  by (rule step_calls.kept_request [OF refl _ _ assms(2)]) (use assms(1) in \<open>auto simp: presented_def\<close>)

lemma request_own: "NewHandler cfg r fr = (a, fr') \<Longrightarrow> own_change (request_namespace cfg r) (fr_svc fr) (fr_svc fr')"
  by (rule own_calls.kept_request [OF refl]) simp_all

text \<open>A sequence of requests, with the answers.\<close>

fun serve_requests :: "('f, 'l) server_config \<Rightarrow> api_request list \<Rightarrow> ('c, 'i, 'l) front \<Rightarrow> answer list \<times> ('c, 'i, 'l) front" where
  "serve_requests cfg [] fr = ([], fr)"
| "serve_requests cfg (r # rs) fr =
     (case NewHandler cfg r fr of (a, fr1) \<Rightarrow> (case serve_requests cfg rs fr1 of (as, fr2) \<Rightarrow> (a # as, fr2)))"

lemma serve_steps:
  "\<forall>r\<in>set rs. presented (sv_Env cfg) r \<Longrightarrow> serve_requests cfg rs fr = (as, fr') \<Longrightarrow> (step (sv_Env cfg))\<^sup>*\<^sup>* (fr_svc fr) (fr_svc fr')"
proof (induction rs arbitrary: fr as fr')
  case (Cons r rs)
  obtain a fr1 where 1: "NewHandler cfg r fr = (a, fr1)" by fastforce
  obtain bs fr2 where 2: "serve_requests cfg rs fr1 = (bs, fr2)" by fastforce
  have "(step (sv_Env cfg))\<^sup>*\<^sup>* (fr_svc fr) (fr_svc fr1)" by (rule request_steps [OF _ 1]) (use Cons.prems(1) in simp)
  moreover have "(step (sv_Env cfg))\<^sup>*\<^sup>* (fr_svc fr1) (fr_svc fr2)" using Cons.IH [OF _ 2] Cons.prems(1) by simp
  moreover have "fr' = fr2" using Cons.prems(2) 1 2 by simp
  ultimately show ?case by (metis rtranclp_trans)
qed simp

lemma reachable_steps: "(step E)\<^sup>*\<^sup>* s s' \<Longrightarrow> reachable E s0 s \<Longrightarrow> reachable E s0 s'"
  by (induction rule: rtranclp_induct) (auto intro: reachable.more)

section \<open>The registration of a client is the only call without a client token\<close>

definition valid_name :: "string \<Rightarrow> bool" where
  "valid_name name \<longleftrightarrow> name \<noteq> [] \<and> list_all name_char name"

lemma valid_name_seg: "valid_name name \<Longrightarrow> plain_seg name \<and> name \<noteq> ''..''"
  by (auto simp: valid_name_def plain_seg_def name_char_def slash_def list_all_iff)

lemma clean_segs_plain: "\<forall>s\<in>set ss. plain_seg s \<and> s \<noteq> ''..'' \<Longrightarrow> clean_segs rooted acc ss = rev acc @ ss"
  by (induction ss arbitrary: acc) (auto simp: plain_seg_def)

lemma path_clean_plain:
  assumes "ss \<noteq> []" "\<forall>s\<in>set ss. plain_seg s \<and> s \<noteq> ''..''"
  shows "path_clean (slash # join ''/'' ss) = slash # join ''/'' ss"
proof -
  have "split_byte slash (slash # join ''/'' ss) = [] # ss" using join_segs(3) [of ss] assms by (simp add: slash_def)
  moreover have "is_abs (slash # join ''/'' ss)" by (simp add: is_abs_def)
  ultimately show ?thesis using clean_segs_plain [OF assms(2)] by (simp add: path_clean_def Let_def)
qed

text \<open>The client that a call names in its path satisfies the pattern of the API document.\<close>

fun named_well :: "api_call \<Rightarrow> bool" where
  "named_well (OpRegisterClient name) = valid_name name"
| "named_well (OpRotateClientToken name) = valid_name name"
| "named_well _ = True"

lemma registration_path:
  assumes "valid_name name"
  shows "isClientRegistration ''POST'' (''/v1/clients/'' @ name)"
    "\<not> isClientRegistration ''POST'' (''/v1/clients/'' @ name @ ''/rotate-token'')"
proof -
  note v = valid_name_seg [OF assms]
  have s: "slash \<notin> set name" using v by (simp add: plain_seg_def)
  have n: "name \<noteq> []" using assms by (simp add: valid_name_def)
  have p: "plain_seg ''v1''" "plain_seg ''clients''" "plain_seg ''rotate-token''" by (simp_all add: plain_seg_def slash_def)
  have "path_clean (''/v1/clients/'' @ name) = ''/v1/clients/'' @ name"
    using path_clean_plain [of "[''v1'', ''clients'', name]"] v p by (simp add: slash_def)
  then show "isClientRegistration ''POST'' (''/v1/clients/'' @ name)"
    using s n by (simp add: isClientRegistration_def Let_def has_prefix_def)
  have "path_clean (''/v1/clients/'' @ name @ ''/rotate-token'') = ''/v1/clients/'' @ name @ ''/rotate-token''"
    using path_clean_plain [of "[''v1'', ''clients'', name, ''rotate-token'']"] v p by (simp add: slash_def)
  then show "\<not> isClientRegistration ''POST'' (''/v1/clients/'' @ name @ ''/rotate-token'')"
    by (simp add: isClientRegistration_def Let_def has_prefix_def slash_def)
qed

lemma other_paths:
  "\<not> isClientRegistration ''POST'' ''/v1/sessions''" "\<not> isClientRegistration ''POST'' ''/v1/ingest''"
  "\<not> isClientRegistration ''POST'' ''/v1/search''" "\<not> isClientRegistration ''POST'' ''/v1/feedback''"
  "\<not> isClientRegistration ''POST'' ''/v1/events''" "\<not> isClientRegistration ''GET'' p" "\<not> isClientRegistration ''DELETE'' p"
  by (code_simp, code_simp, code_simp, code_simp, code_simp, simp_all add: isClientRegistration_def)

lemma exempt_iff:
  assumes "route c = Some (meth, p)" "named_well c"
  shows "isClientRegistration meth p \<longleftrightarrow> (\<exists>name. c = OpRegisterClient name)"
  using assms by (cases c) (auto simp: registration_path [simplified] other_paths)

section \<open>Session routes\<close>

fun needs_session :: "api_call \<Rightarrow> bool" where
  "needs_session OpDeleteSession = True"
| "needs_session OpListSources = True"
| "needs_session (OpGetSnapshot b) = True"
| "needs_session (OpIngest b) = True"
| "needs_session (OpSearch b h) = True"
| "needs_session (OpFeedback b) = True"
| "needs_session (OpWriteEvents b) = True"
| "needs_session (OpReadEvents ts p l) = True"
| "needs_session _ = False"

definition session_routes :: "(string \<times> string) list" where
  "session_routes = [(''DELETE'', ''/v1/sessions''), (''GET'', ''/v1/sources''), (''GET'', ''/v1/snapshot''), (''POST'', ''/v1/ingest''),
     (''POST'', ''/v1/search''), (''POST'', ''/v1/feedback''), (''POST'', ''/v1/events''), (''GET'', ''/v1/events'')]"

lemma extracted_routes: "ExtractSessionTokenRoutes calm_openapi = Some session_routes"
  by (simp add: ExtractSessionTokenRoutes_def calm_openapi_def session_path_def session_routes_def)

lemma session_route_iff: "route c = Some mp \<Longrightarrow> mp \<in> set session_routes \<longleftrightarrow> needs_session c"
  by (cases c) (auto simp: session_routes_def)

section \<open>Refused requests\<close>

definition holds_credential :: "(string \<Rightarrow> string) \<Rightarrow> tables \<Rightarrow> string \<Rightarrow> string \<Rightarrow> string \<Rightarrow> bool" where
  "holds_credential sha t ns token client \<longleftrightarrow>
     (\<exists>c\<in>set (clients t). cl_ns c = ns \<and> cl_name c = client \<and> cl_hash c = Some (HashToken sha ns token))"

definition admitted :: "('f, 'l) server_config \<Rightarrow> tables \<Rightarrow> api_request \<Rightarrow> bool" where
  "admitted cfg t r \<longleftrightarrow> rq_Path r \<in> set unauthenticatedPaths \<or>
     (\<exists>ns. rq_Header r HeaderAPIKey \<noteq> [] \<and> reg_Resolve (hc_Registry (sv_Handlers cfg)) (rq_Header r HeaderAPIKey) = Some ns
       \<and> (RequiresClientCredentials (hc_Registry (sv_Handlers cfg)) ns \<and> \<not> isClientRegistration (rq_Method r) (rq_Path r)
           \<longrightarrow> (\<exists>token client. bearer_token r = Some token \<and> holds_credential (e_sha (sv_Env cfg)) t ns token client)))"

text \<open>States that differ in the clock-independent faults of the store only.\<close>

definition undisturbed :: "('c, 'i) svc \<Rightarrow> ('c, 'i) svc \<Rightarrow> bool" where
  "undisturbed s s' \<longleftrightarrow> tabs (sv_db s') = tabs (sv_db s) \<and> app_now (sv_db s') = app_now (sv_db s) \<and> db_now (sv_db s') = db_now (sv_db s)
     \<and> sv_cache s' = sv_cache s \<and> sv_idem s' = sv_idem s"

lemma undisturbed_refl [simp]: "undisturbed s s" by (simp add: undisturbed_def)

lemma undisturbed_trans: "undisturbed s s' \<Longrightarrow> undisturbed s' s'' \<Longrightarrow> undisturbed s s''" by (simp add: undisturbed_def)

lemma ResolveByToken_ok:
  assumes "on_db (ResolveByToken sha ns token) s = (r, s')"
  shows "undisturbed s s'" "r = Inr client \<Longrightarrow> holds_credential sha (tabs (sv_db s)) ns token client"
proof -
  let ?P = "\<lambda>c. cl_ns c = ns \<and> cl_hash c = Some (HashToken sha ns token)"
  obtain q d where m: "ResolveByToken sha ns token (sv_db s) = (q, d)" "s' = s\<lparr>sv_db := d\<rparr>" "r = map_sum DbError id q"
    using assms by (cases rule: on_db_run) auto
  have "d = sv_db s \<or> (\<exists>fs. d = (sv_db s)\<lparr>faults := fs\<rparr>)"
    using m(1) unfolding ResolveByToken_def LookupByToken_def guard_def fail_def
    by (auto split: if_splits elim!: query_cases)
  then show "undisturbed s s'" using m(2) by (auto simp: undisturbed_def)
  assume "r = Inr client"
  then have q: "ResolveByToken sha ns token (sv_db s) = (Inr client, d)" using m(1,3) by (cases q) auto
  obtain c where "find ?P (clients (tabs (sv_db s))) = Some c" "cl_name c = client"
    using q unfolding ResolveByToken_def LookupByToken_def guard_Inr
    by (auto elim!: query_cases split: option.splits)
  then show "holds_credential sha (tabs (sv_db s)) ns token client" by (auto simp: holds_credential_def dest: find_SomeD)
qed

lemma Auth_refuses:
  assumes no: "\<not> admitted cfg (tabs (sv_db (fr_svc fr))) r" and run: "Auth cfg nxt r cx fr = (a, fr')"
  shows "a = unauthorized" "undisturbed (fr_svc fr) (fr_svc fr')"
proof -
  let ?key = "rq_Header r HeaderAPIKey" and ?reg = "hc_Registry (sv_Handlers cfg)"
  have path: "rq_Path r \<notin> set unauthenticatedPaths" using no by (auto simp: admitted_def)
  have "a = unauthorized \<and> undisturbed (fr_svc fr) (fr_svc fr')"
  proof (cases "?key = [] \<or> reg_Resolve ?reg ?key = None")
    case True
    then show ?thesis using run path by (auto simp: Auth_def Let_def split: if_splits)
  next
    case False
    then obtain ns where ns: "?key \<noteq> []" "reg_Resolve ?reg ?key = Some ns" by auto
    then have cred: "RequiresClientCredentials ?reg ns \<and> \<not> isClientRegistration (rq_Method r) (rq_Path r)"
      and none: "\<And>token client. bearer_token r = Some token \<Longrightarrow>
        \<not> holds_credential (e_sha (sv_Env cfg)) (tabs (sv_db (fr_svc fr))) ns token client"
      using no by (auto simp: admitted_def)
    show ?thesis
    proof (cases "bearer_token r")
      case None
      then show ?thesis using run path ns cred by (simp add: Auth_def Let_def)
    next
      case (Some token)
      obtain x s where b: "on_db (ResolveByToken (e_sha (sv_Env cfg)) ns token) (fr_svc fr) = (x, s)" by fastforce
      obtain e where "x = Inl e" using ResolveByToken_ok(2) [OF b] none [OF Some] by (cases x) auto
      then show ?thesis using run path ns cred Some b ResolveByToken_ok(1) [OF b] by (auto simp: Auth_def Let_def)
    qed
  qed
  then show "a = unauthorized" "undisturbed (fr_svc fr) (fr_svc fr')" by simp_all
qed

lemma refused:
  assumes no: "\<not> admitted cfg (tabs (sv_db (fr_svc fr))) r" and run: "NewHandler cfg r fr = (a, fr')"
  shows "fst a \<in> {400, 401, 429}" "undisturbed (fr_svc fr) (fr_svc fr')"
proof -
  have "fst a \<in> {400, 401, 429} \<and> undisturbed (fr_svc fr) (fr_svc fr')"
  proof (cases "maxWorkloadRequestIDLength < length (rq_Header r workloadRequestIDHeader)")
    case True
    then show ?thesis using run by (auto simp: NewHandler_def Context_def WorkloadRequestID_def)
  next
    case False
    let ?n = "RateLimitNamespaceAndGlobal cfg (BodySizeLimit cfg (OpenAPIValidator cfg (SessionResolve cfg (handlers_endpoint cfg))))"
    have q: "fst b \<in> {400, 401, 429} \<and> undisturbed (fr_svc fr) (fr_svc fr2)"
      if "Auth cfg ?n r cx fr1 = (b, fr2)" "fr_svc fr1 = fr_svc fr" for b cx fr1 fr2
      using Auth_refuses [OF _ that(1)] no that(2) by (simp add: unauthorized_def)
    have "RateLimitIP cfg (Auth cfg ?n) r (empty_ctx\<lparr>rc_CorrelationID := rq_UUID r\<rparr>) fr = (a, fr')"
      using run False by (simp add: NewHandler_def Context_def WorkloadRequestID_def)
    then show ?thesis unfolding RateLimitIP_def by (auto simp: writeRateLimited_def split: if_splits prod.splits dest!: q)
  qed
  then show "fst a \<in> {400, 401, 429}" "undisturbed (fr_svc fr) (fr_svc fr')" by simp_all
qed

section \<open>A new session\<close>

text \<open>The call of \<open>Create\<close> behind an answer that carries a session, on the state it ran on.\<close>

definition created_in ::
    "('f, 'l) server_config \<Rightarrow> api_request \<Rightarrow> request_ctx \<Rightarrow> ('c, 'i) svc \<Rightarrow> ('c, 'i) svc \<Rightarrow> string \<Rightarrow> created \<Rightarrow> bool" where
  "created_in cfg r cx s s' ns cd \<longleftrightarrow>
     (\<exists>b key client s1. rq_Call r = OpCreateSession (Some b) key \<and> ns = rc_Namespace cx \<and> session_client cx b = Some client
        \<and> undisturbed s s1
        \<and> Session_Create (e_sha (sv_Env cfg)) (rq_Random r)
            \<lparr>cr_Namespace = ns, cr_Client = client, cr_TTLMinutes = committed_ttl (sv_Handlers cfg) b,
             cr_Labels = (case csr_Labels b of Some ls \<Rightarrow> ls | None \<Rightarrow> [])\<rparr>
            (case key of Some k \<Rightarrow> k | None \<Rightarrow> []) s1 = (Inr cd, s'))"

definition creates :: "('f, 'l) server_config \<Rightarrow> ('c, 'i, 'l) endpoint \<Rightarrow> bool" where
  "creates cfg ep \<longleftrightarrow> (\<forall>r cx fr st ns cd fr'. (rq_Method r, rq_Path r) \<notin> set (sv_Routes cfg) \<longrightarrow>
     ep r cx fr = ((st, SessionReply ns cd), fr') \<longrightarrow> created_in cfg r cx (fr_svc fr) (fr_svc fr') ns cd)"

lemma createsD:
  "creates cfg ep \<Longrightarrow> (rq_Method r, rq_Path r) \<notin> set (sv_Routes cfg) \<Longrightarrow> ep r cx fr = ((st, SessionReply ns cd), fr')
    \<Longrightarrow> created_in cfg r cx (fr_svc fr) (fr_svc fr') ns cd"
  unfolding creates_def by blast

lemma created_in_undisturbed: "undisturbed s s0 \<Longrightarrow> created_in cfg r cx s0 s' ns cd \<Longrightarrow> created_in cfg r cx s s' ns cd"
  unfolding created_in_def by (meson undisturbed_trans)

lemma replies_without_session:
  "unexpected_error \<noteq> (st, SessionReply ns cd)" "invalid_request m \<noteq> (st, SessionReply ns cd)"
  "panic_answer \<noteq> (st, SessionReply ns cd)" "timeout_answer \<noteq> (st, SessionReply ns cd)"
  "mapped_answer l em \<noteq> (st, SessionReply ns cd)" "client_mismatch h c d \<noteq> (st, SessionReply ns cd)"
  "or_unexpected (mapRegisterClientError h e n c) \<noteq> (st, SessionReply ns cd)"
  "mapManageDeleteClientError e \<noteq> (st, SessionReply ns cd)" "ingest_reply ir \<noteq> SessionReply ns cd"
  "search_reply sr \<noteq> SessionReply ns cd"
  by (auto simp: unexpected_error_def invalid_request_def panic_answer_def timeout_answer_def mapped_answer_def client_mismatch_def
      or_unexpected_def mapRegisterClientError_def mapManageDeleteClientError_def ingest_reply_def search_reply_def split: option.split)

lemma Handle_CreateSession_reply:
  assumes "Handle_CreateSession h sha rnd cx body key s = ((st, SessionReply ns cd), s')"
  shows "\<exists>b client. body = Some b \<and> ns = rc_Namespace cx \<and> session_client cx b = Some client
    \<and> Session_Create sha rnd \<lparr>cr_Namespace = ns, cr_Client = client, cr_TTLMinutes = committed_ttl h b,
         cr_Labels = (case csr_Labels b of Some ls \<Rightarrow> ls | None \<Rightarrow> [])\<rparr>
         (case key of Some k \<Rightarrow> k | None \<Rightarrow> []) s = (Inr cd, s')"
proof -
  note no = replies_without_session
  obtain b where b: "body = Some b" using assms no(2) by (cases body) (simp_all add: Handle_CreateSession_def)
  have ns: "rc_Namespace cx \<noteq> []" using assms no(1) b by (auto simp: Handle_CreateSession_def Let_def)
  obtain client where c: "session_client cx b = Some client"
    using assms no(6) b ns by (cases "session_client cx b") (auto simp: Handle_CreateSession_def Let_def)
  obtain q s1 where q: "Session_Create sha rnd \<lparr>cr_Namespace = rc_Namespace cx, cr_Client = client, cr_TTLMinutes = committed_ttl h b,
         cr_Labels = (case csr_Labels b of Some ls \<Rightarrow> ls | None \<Rightarrow> [])\<rparr>
         (case key of Some k \<Rightarrow> k | None \<Rightarrow> []) s = (q, s1)" by fastforce
  show ?thesis
  proof (cases q)
    case (Inl e)
    then show ?thesis using assms no(5) b ns c q by (simp add: Handle_CreateSession_def Let_def)
  next
    case (Inr x)
    then have "ns = rc_Namespace cx" "x = cd" "s1 = s'" using assms b ns c q by (simp_all add: Handle_CreateSession_def Let_def)
    then show ?thesis using b c q Inr by blast
  qed
qed

lemma creates_handlers: "creates cfg (handlers_endpoint cfg)"
  unfolding creates_def
proof (intro allI impI)
  fix r cx fr st ns cd fr'
  assume "handlers_endpoint cfg r cx fr = ((st, SessionReply ns cd), fr')"
  then obtain s where d: "dispatch_call (sv_Handlers cfg) (sv_Env cfg) r cx (fr_svc fr) = ((st, SessionReply ns cd), s)" and s: "fr_svc fr' = s"
    by (auto simp: handlers_endpoint_def split: prod.splits)
  note no = replies_without_session
  show "created_in cfg r cx (fr_svc fr) (fr_svc fr') ns cd"
  proof (cases "\<exists>b key. rq_Call r = OpCreateSession b key")
    case True
    then obtain b key where c: "rq_Call r = OpCreateSession b key" by blast
    have "Handle_CreateSession (sv_Handlers cfg) (e_sha (sv_Env cfg)) (rq_Random r) cx b key (fr_svc fr) = ((st, SessionReply ns cd), fr_svc fr')"
      using d by (simp add: dispatch_call_def c s)
    from Handle_CreateSession_reply [OF this] c undisturbed_refl show ?thesis unfolding created_in_def by blast
  next
    case False
    then show ?thesis using d
      by (cases "rq_Call r")
        (auto simp: dispatch_call_def no no [symmetric] Let_def Handle_GetHealth_def Handle_GetVersion_def Handle_RegisterClient_def
          registerUncredentialedClient_def registerCredentialedClient_def Handle_RotateClientToken_def Handle_DeleteSession_def
          Handle_ListSources_def Handle_GetSnapshot_def Handle_Ingest_def Handle_Search_def Handle_Feedback_def
          Handle_WriteEvents_def Handle_ReadEvents_def Handle_ManageListSessions_def Handle_ManageDeleteSessions_def
          Handle_ManageListClients_def Handle_ManageDeleteClient_def
          split: option.splits prod.splits sum.splits if_splits bool.splits)
  qed
qed

lemma creates_limits:
  assumes "creates cfg nxt"
  shows "creates cfg (SessionResolve cfg nxt)" "creates cfg (OpenAPIValidator cfg nxt)" "creates cfg (BodySizeLimit cfg nxt)"
    "creates cfg (RateLimitNamespaceAndGlobal cfg nxt)" "creates cfg (RateLimitIP cfg nxt)" "creates cfg (WorkloadRequestID nxt)"
proof -
  note n = createsD [OF assms]
  show "creates cfg (SessionResolve cfg nxt)" "creates cfg (OpenAPIValidator cfg nxt)" "creates cfg (BodySizeLimit cfg nxt)"
    "creates cfg (WorkloadRequestID nxt)"
    unfolding creates_def SessionResolve_def OpenAPIValidator_def BodySizeLimit_def WorkloadRequestID_def Let_def
    by (auto intro: n split: option.splits if_splits)
  show "creates cfg (RateLimitIP cfg nxt)"
    unfolding creates_def RateLimitIP_def writeRateLimited_def by (fastforce dest: n split: prod.splits if_splits)
  show "creates cfg (RateLimitNamespaceAndGlobal cfg nxt)"
    unfolding creates_def
  proof (intro allI impI)
    fix r cx fr st ns cd fr'
    assume r: "(rq_Method r, rq_Path r) \<notin> set (sv_Routes cfg)"
      and run: "RateLimitNamespaceAndGlobal cfg nxt r cx fr = ((st, SessionReply ns cd), fr')"
    obtain ok1 f1 where 1: "ns_Allow cfg (rc_Namespace cx) fr = (ok1, f1)" by fastforce
    obtain ok2 f2 where 2: "global_Allow cfg f1 = (ok2, f2)" by fastforce
    have s: "fr_svc f2 = fr_svc fr"
      using allow_frames(1) [of cfg "rc_Namespace cx" fr] allow_frames(2) [of cfg f1] 1 2 by simp
    have "nxt r cx fr = ((st, SessionReply ns cd), fr') \<or> nxt r cx f2 = ((st, SessionReply ns cd), fr')"
      using run 1 2 by (auto simp: RateLimitNamespaceAndGlobal_def writeRateLimited_def Let_def split: if_splits bool.splits)
    then show "created_in cfg r cx (fr_svc fr) (fr_svc fr') ns cd" using n [OF r] s by metis
  qed
qed

lemma committed_ttl_le: "committed_ttl h b \<le> hc_MaxTTLMinutes h"
  by (simp add: committed_ttl_def Let_def)

lemma session_client_authenticated: "rc_Client cx \<noteq> [] \<Longrightarrow> session_client cx b = Some client \<Longrightarrow> client = rc_Client cx"
  by (auto simp: session_client_def split: option.splits if_splits)

text \<open>What the authentication leaves below it.\<close>

lemma Auth_admits:
  assumes run: "Auth cfg nxt r cx fr = ((st, SessionReply ns cd), fr')" and path: "rq_Path r \<notin> set unauthenticatedPaths"
    and reg: "\<not> isClientRegistration (rq_Method r) (rq_Path r)"
  obtains cx1 fr1 where "nxt r cx1 fr1 = ((st, SessionReply ns cd), fr')" "undisturbed (fr_svc fr) (fr_svc fr1)"
    "rc_Namespace cx1 = request_namespace cfg r"
    "RequiresClientCredentials (hc_Registry (sv_Handlers cfg)) (request_namespace cfg r) \<Longrightarrow>
      \<exists>token. bearer_token r = Some token
        \<and> holds_credential (e_sha (sv_Env cfg)) (tabs (sv_db (fr_svc fr))) (request_namespace cfg r) token (rc_Client cx1)"
proof -
  let ?key = "rq_Header r HeaderAPIKey" and ?reg = "hc_Registry (sv_Handlers cfg)"
  have k: "?key \<noteq> []" "reg_Resolve ?reg ?key \<noteq> None"
    using run path by (auto simp: Auth_def Let_def unauthorized_def split: if_splits option.splits)
  then obtain n where n: "reg_Resolve ?reg ?key = Some n" by blast
  have q: "request_namespace cfg r = n" using path k n by (simp add: request_namespace_def)
  show ?thesis
  proof (cases "RequiresClientCredentials ?reg n")
    case False
    then have "nxt r (cx\<lparr>rc_Namespace := n\<rparr>) fr = ((st, SessionReply ns cd), fr')"
      using run path k n by (auto simp: Auth_def Let_def)
    then show ?thesis by (rule that) (use q False in simp_all)
  next
    case True
    obtain token where t: "bearer_token r = Some token"
      using run path k n True reg by (cases "bearer_token r") (auto simp: Auth_def Let_def unauthorized_def)
    obtain x s where b: "on_db (ResolveByToken (e_sha (sv_Env cfg)) n token) (fr_svc fr) = (x, s)" by fastforce
    obtain client where x: "x = Inr client"
      using run path k n True reg t b by (cases x) (auto simp: Auth_def Let_def unauthorized_def)
    have "nxt r (cx\<lparr>rc_Namespace := n, rc_Client := client\<rparr>) (fr\<lparr>fr_svc := s\<rparr>) = ((st, SessionReply ns cd), fr')"
      using run path k n True reg t b x by (auto simp: Auth_def Let_def)
    then show ?thesis
      by (rule that) (use q t ResolveByToken_ok(1) [OF b] ResolveByToken_ok(2) [OF b x] in auto)
  qed
qed

lemma attributed:
  assumes routed: "routed r" and call: "rq_Call r = OpCreateSession b key" and routes: "sv_Routes cfg = session_routes"
    and run: "NewHandler cfg r fr = ((st, SessionReply ns cd), fr')"
  obtains body client s1 where "ns = request_namespace cfg r" "b = Some body" "undisturbed (fr_svc fr) s1"
    "Session_Create (e_sha (sv_Env cfg)) (rq_Random r)
       \<lparr>cr_Namespace = ns, cr_Client = client, cr_TTLMinutes = committed_ttl (sv_Handlers cfg) body,
        cr_Labels = (case csr_Labels body of Some ls \<Rightarrow> ls | None \<Rightarrow> [])\<rparr>
       (case key of Some k \<Rightarrow> k | None \<Rightarrow> []) s1 = (Inr cd, fr_svc fr')"
    "RequiresClientCredentials (hc_Registry (sv_Handlers cfg)) ns \<longrightarrow>
      (\<exists>token name. bearer_token r = Some token \<and> holds_credential (e_sha (sv_Env cfg)) (tabs (sv_db (fr_svc fr))) ns token name
        \<and> (name \<noteq> [] \<longrightarrow> client = name))"
proof -
  have mp: "rq_Method r = ''POST''" "rq_Path r = ''/v1/sessions''" using routed call by (auto simp: routed_def)
  have rt: "(rq_Method r, rq_Path r) \<notin> set (sv_Routes cfg)" unfolding mp routes session_routes_def by simp
  have path: "rq_Path r \<notin> set unauthenticatedPaths" unfolding mp unauthenticatedPaths_def by simp
  have reg: "\<not> isClientRegistration (rq_Method r) (rq_Path r)" unfolding mp by (rule other_paths)
  let ?n = "RateLimitNamespaceAndGlobal cfg (BodySizeLimit cfg (OpenAPIValidator cfg (SessionResolve cfg (handlers_endpoint cfg))))"
  have nxt: "creates cfg ?n" by (intro creates_limits creates_handlers)
  have "maxWorkloadRequestIDLength \<ge> length (rq_Header r workloadRequestIDHeader)"
    using run by (auto simp: NewHandler_def Context_def WorkloadRequestID_def split: if_splits)
  then have "RateLimitIP cfg (Auth cfg ?n) r (empty_ctx\<lparr>rc_CorrelationID := rq_UUID r\<rparr>) fr = ((st, SessionReply ns cd), fr')"
    using run by (simp add: NewHandler_def Context_def WorkloadRequestID_def split: if_splits)
  then obtain fr0 where a: "Auth cfg ?n r (empty_ctx\<lparr>rc_CorrelationID := rq_UUID r\<rparr>) fr0 = ((st, SessionReply ns cd), fr')"
    and fr0: "fr_svc fr0 = fr_svc fr"
    unfolding RateLimitIP_def writeRateLimited_def by (fastforce split: if_splits prod.splits)
  obtain cx1 fr1 where n: "?n r cx1 fr1 = ((st, SessionReply ns cd), fr')" "undisturbed (fr_svc fr) (fr_svc fr1)"
    "rc_Namespace cx1 = request_namespace cfg r"
    and cred: "RequiresClientCredentials (hc_Registry (sv_Handlers cfg)) (request_namespace cfg r) \<Longrightarrow>
      \<exists>token. bearer_token r = Some token
        \<and> holds_credential (e_sha (sv_Env cfg)) (tabs (sv_db (fr_svc fr))) (request_namespace cfg r) token (rc_Client cx1)"
    by (rule Auth_admits [OF a path reg]) (use fr0 in auto)
  have c: "created_in cfg r cx1 (fr_svc fr) (fr_svc fr') ns cd"
    by (rule created_in_undisturbed [OF n(2) createsD [OF nxt rt n(1)]])
  then obtain body key' client s1 where p: "rq_Call r = OpCreateSession (Some body) key'" "ns = rc_Namespace cx1"
    "session_client cx1 body = Some client" "undisturbed (fr_svc fr) s1"
    "Session_Create (e_sha (sv_Env cfg)) (rq_Random r)
       \<lparr>cr_Namespace = ns, cr_Client = client, cr_TTLMinutes = committed_ttl (sv_Handlers cfg) body,
        cr_Labels = (case csr_Labels body of Some ls \<Rightarrow> ls | None \<Rightarrow> [])\<rparr>
       (case key' of Some k \<Rightarrow> k | None \<Rightarrow> []) s1 = (Inr cd, fr_svc fr')"
    unfolding created_in_def by blast
  have "b = Some body" "key' = key" using p(1) call by simp_all
  moreover have "ns = request_namespace cfg r" using p(2) n(3) by simp
  ultimately show ?thesis
    by (intro that [of body s1 client]) (use p cred session_client_authenticated [OF _ p(3)] in blast)+
qed

end
