(* ===== verification/Chunk_Formats.thy ===== *)
theory Chunk_Formats
  imports Chunk_Core
begin

text \<open>
  Package internal/ingest/chunk, files log.go and stacktrace.go: runs of log lines
  anchored at timestamps and packed towards the target size, and one chunk per
  logical error report. Both chunkers are shown to meet the contract of Split.
\<close>

section \<open>Logs\<close>

abbreviation (input) rdigit :: re where "rdigit \<equiv> RSet digit_char"

definition clock :: re where
  "clock = r_seq [r_times 2 rdigit, r_char CHR '':'', r_times 2 rdigit, r_char CHR '':'', r_times 2 rdigit]"

definition fraction :: re where
  "fraction = r_opt (RSeq (RSet (\<lambda>c. c = CHR ''.'' \<or> c = CHR '','')) (r_plus rdigit))"

definition timestampRe :: re where
  "timestampRe = r_alts
     [r_seq [r_times 4 rdigit, r_char CHR ''-'', r_times 2 rdigit, r_char CHR ''-'', r_times 2 rdigit,
             RSet (\<lambda>c. c = CHR ''T'' \<or> c = CHR '' ''), clock, fraction,
             r_opt (RAlt (r_char CHR ''Z'')
                      (r_seq [RSet (\<lambda>c. c = CHR ''+'' \<or> c = CHR ''-''), r_times 2 rdigit,
                              r_opt (r_char CHR '':''), r_times 2 rdigit]))],
      r_seq [RWord, clock, fraction, RWord],
      r_seq [RSet (\<lambda>c. 65 \<le> byte c \<and> byte c \<le> 90), r_times 2 (RSet (\<lambda>c. 97 \<le> byte c \<and> byte c \<le> 122)),
             r_plus (r_char CHR '' ''), rdigit, r_opt rdigit, r_char CHR '' '', clock],
      r_seq [RSet (\<lambda>c. c \<in> {CHR ''I'', CHR ''W'', CHR ''E'', CHR ''F''}), r_times 4 rdigit, r_char CHR '' '',
             clock, r_char CHR ''.'', r_times 6 rdigit],
      r_seq [r_char CHR ''['', r_times 10 rdigit, r_opt (RSeq (r_char CHR ''.'') (r_plus rdigit)),
             r_char CHR '']'']]"

definition formatLog :: string where "formatLog = ''log''"

definition anchorPrefixBytes :: nat where "anchorPrefixBytes = 48"

definition timestampAnchor :: "string \<Rightarrow> bool" where
  "timestampAnchor line =
     (let probe = (if length line > anchorPrefixBytes + 32
                   then take (anchorPrefixBytes + 32) line else line)
      in case re_find timestampRe None probe of
           None \<Rightarrow> False
         | Some loc \<Rightarrow> fst loc \<le> anchorPrefixBytes)"

text \<open>The closure \<open>flush\<close> over \<open>cur\<close> and \<open>runs\<close>.\<close>

definition log_flush :: "string list \<Rightarrow> string list \<Rightarrow> string list" where
  "log_flush cur runs =
     (if cur = [] then runs
      else let run = trim_right_nl (join [newline] cur) in
           if blank run then runs else runs @ [run])"

fun log_runs :: "string list \<Rightarrow> string list \<Rightarrow> string list \<Rightarrow> bool \<Rightarrow> string list \<times> bool" where
  "log_runs [] cur runs anchored = (log_flush cur runs, anchored)"
| "log_runs (line # lines) cur runs anchored =
     (if timestampAnchor line then log_runs lines [line] (log_flush cur runs) True
      else log_runs lines (cur @ [line]) runs anchored)"

definition log_emit :: "string \<Rightarrow> string \<Rightarrow> db_chunk list \<Rightarrow> db_chunk list" where
  "log_emit contentType body chunks =
     chunks @ [\<lparr>Title = capTitle (first_line body) (numberedTitle ''section'' (length chunks + 1)),
                Content = body, ContentType = contentType\<rparr>]"

definition log_emit_packed :: "string \<Rightarrow> string list \<Rightarrow> db_chunk list \<Rightarrow> db_chunk list" where
  "log_emit_packed contentType packed chunks =
     (if packed = [] then chunks else log_emit contentType (join [newline] packed) chunks)"

fun log_pack :: "string \<Rightarrow> string list \<Rightarrow> string list \<Rightarrow> nat \<Rightarrow> db_chunk list \<Rightarrow> db_chunk list option" where
  "log_pack contentType [] packed sz chunks = Some (log_emit_packed contentType packed chunks)"
| "log_pack contentType (run # runs) packed sz chunks =
     (if length run > chunkMaxBytes then
        (let chunks = log_emit_packed contentType packed chunks;
             sz = (if packed = [] then sz else 0)
         in case windowParagraph run of
              None \<Rightarrow> None
            | Some pieces \<Rightarrow>
                log_pack contentType runs [] sz (fold (log_emit contentType) pieces chunks))
      else if 0 < sz \<and> sz + length run + 1 > chunkTargetBytes then
        log_pack contentType runs [run] (length run + 1)
          (log_emit contentType (join [newline] packed) chunks)
      else log_pack contentType runs (packed @ [run]) (sz + length run + 1) chunks)"

definition logChunks :: chunkFunc where
  "logChunks source content contentType =
     (case log_runs (split_byte newline content) [] [] False of
        (runs, anchored) \<Rightarrow>
          if \<not> anchored then textChunks source content contentType
          else log_pack contentType runs [] 0 [])"

subsection \<open>Runs and packing\<close>

definition run_ok :: "string \<Rightarrow> bool" where
  "run_ok r \<longleftrightarrow> valid_utf8 r \<and> \<not> blank r"

lemma trimmed_join:
  assumes "\<forall>l\<in>set ls. valid_utf8 l"
  shows "valid_utf8 (trim_right_nl (join [newline] ls))"
    "ink (trim_right_nl (join [newline] ls)) = concat (map ink ls)"
  using valid_join [OF assms] trim_right_nl_ink [of "join [newline] ls"] by simp_all

lemma log_flush_props:
  assumes "\<forall>l\<in>set cur. valid_utf8 l" "\<forall>r\<in>set runs. run_ok r"
  shows "(\<forall>r\<in>set (log_flush cur runs). run_ok r)
    \<and> concat (map ink (log_flush cur runs)) = concat (map ink runs) @ concat (map ink cur)"
  using assms trimmed_join [OF assms(1)] blank_ink [of "trim_right_nl (join [newline] cur)"]
  by (auto simp: log_flush_def Let_def run_ok_def)

lemma log_runs_props:
  "\<forall>l\<in>set lines. valid_utf8 l \<Longrightarrow> \<forall>l\<in>set cur. valid_utf8 l \<Longrightarrow> \<forall>r\<in>set runs. run_ok r \<Longrightarrow>
    log_runs lines cur runs anchored = (rs, b) \<Longrightarrow>
    (\<forall>r\<in>set rs. run_ok r)
    \<and> concat (map ink rs) = concat (map ink runs) @ concat (map ink cur) @ concat (map ink lines)"
proof (induction lines cur runs anchored rule: log_runs.induct)
  case (1 cur runs anchored)
  then show ?case using log_flush_props by auto
next
  case (2 line lines cur runs anchored)
  note fl = log_flush_props [OF 2(4,5)]
  show ?case
  proof (cases "timestampAnchor line")
    case True
    then have "log_runs lines [line] (log_flush cur runs) True = (rs, b)" using 2(6) by simp
    with 2(1) [OF True] 2(3) fl show ?thesis by simp
  next
    case False
    then have "log_runs lines (cur @ [line]) runs anchored = (rs, b)" using 2(6) by simp
    with 2(2) [OF False] 2(3-5) show ?thesis by simp
  qed
qed

definition packed_size :: "string list \<Rightarrow> nat" where
  "packed_size ps = sum_list (map (\<lambda>p. length p + 1) ps)"

lemma packed_size_simps [simp]:
  "packed_size [] = 0" "packed_size (ps @ qs) = packed_size ps + packed_size qs"
  "packed_size [p] = length p + 1"
  by (simp_all add: packed_size_def)

lemma join_size: "ps \<noteq> [] \<Longrightarrow> length (join [newline] ps) + 1 = packed_size ps"
  by (induction "[newline]" ps rule: join.induct) (simp_all add: packed_size_def)

lemma log_emit_ink [simp]: "contents_ink (log_emit ct b cs) = contents_ink cs @ ink b"
  by (simp add: log_emit_def)

lemma fold_emit_ink: "contents_ink (fold (log_emit ct) ps cs) = contents_ink cs @ concat (map ink ps)"
  by (induction ps arbitrary: cs) simp_all

definition log_chunk_ok :: "db_chunk \<Rightarrow> bool" where
  "log_chunk_ok c \<longleftrightarrow> chunk_ok c \<and> length (Content c) \<le> chunkMaxBytes"

definition log_piece_ok :: "string \<Rightarrow> bool" where
  "log_piece_ok b \<longleftrightarrow> run_ok b \<and> length b \<le> chunkMaxBytes"

lemma log_emit_ok:
  "log_piece_ok b \<Longrightarrow> \<forall>c\<in>set cs. log_chunk_ok c \<Longrightarrow> \<forall>c\<in>set (log_emit ct b cs). log_chunk_ok c"
  by (simp add: log_emit_def log_chunk_ok_def log_piece_ok_def chunk_ok_def run_ok_def)

lemma fold_emit_ok:
  "\<forall>b\<in>set ps. log_piece_ok b \<Longrightarrow> \<forall>c\<in>set cs. log_chunk_ok c \<Longrightarrow>
     \<forall>c\<in>set (fold (log_emit ct) ps cs). log_chunk_ok c"
proof (induction ps arbitrary: cs)
  case (Cons p ps)
  have "\<forall>c\<in>set (log_emit ct p cs). log_chunk_ok c"
    using Cons.prems log_emit_ok [of p cs ct] by simp
  then show ?case using Cons by simp
qed simp

lemma packed_join_ok:
  assumes "packed \<noteq> []" "\<forall>r\<in>set packed. run_ok r" "packed_size packed \<le> 4097"
  shows "log_piece_ok (join [newline] packed)" "ink (join [newline] packed) = concat (map ink packed)"
proof -
  have v: "\<forall>r\<in>set packed. valid_utf8 r" using assms(2) by (simp add: run_ok_def)
  show i: "ink (join [newline] packed) = concat (map ink packed)" by (rule valid_join(2) [OF v])
  have "ink (hd packed) \<noteq> []" using assms(1,2) ink_blank unfolding run_ok_def by (meson hd_in_set)
  then have "concat (map ink packed) \<noteq> []" using assms(1) by (cases packed) auto
  then have "\<not> blank (join [newline] packed)" using i blank_ink [OF valid_join(1) [OF v]] by metis
  then show "log_piece_ok (join [newline] packed)"
    using valid_join(1) [OF v] join_size [OF assms(1)] assms(3) by (simp add: log_piece_ok_def run_ok_def)
qed

lemma emit_packed_props:
  assumes "\<forall>r\<in>set packed. run_ok r" "packed_size packed \<le> 4097" "\<forall>c\<in>set cs. log_chunk_ok c"
  shows "(\<forall>c\<in>set (log_emit_packed ct packed cs). log_chunk_ok c)
    \<and> contents_ink (log_emit_packed ct packed cs) = contents_ink cs @ concat (map ink packed)"
proof (cases "packed = []")
  case True
  then show ?thesis using assms(3) by (simp add: log_emit_packed_def)
next
  case False
  show ?thesis
    using packed_join_ok [OF False assms(1,2)] log_emit_ok [OF _ assms(3), of "join [newline] packed" ct]
      False by (simp add: log_emit_packed_def)
qed

lemma log_pack_total:
  "\<forall>r\<in>set runs. run_ok r \<Longrightarrow> \<forall>r\<in>set packed. run_ok r \<Longrightarrow> sz = packed_size packed \<Longrightarrow>
   sz \<le> 4097 \<Longrightarrow> \<forall>c\<in>set cs. log_chunk_ok c \<Longrightarrow>
   \<exists>ds. log_pack ct runs packed sz cs = Some ds \<and> (\<forall>c\<in>set ds. log_chunk_ok c)
      \<and> contents_ink ds = contents_ink cs @ concat (map ink packed) @ concat (map ink runs)"
proof (induction runs arbitrary: packed sz cs)
  case Nil
  have "packed_size packed \<le> 4097" using Nil(3,4) by simp
  from emit_packed_props [OF Nil(2) this Nil(5), of ct]
  show ?case by (simp only: log_pack.simps option.inject ex_simps simp_thms list.map concat.simps append_Nil2)
      blast
next
  case (Cons run runs)
  have packed: "\<forall>r\<in>set packed. run_ok r" "packed_size packed \<le> 4097" "\<forall>c\<in>set cs. log_chunk_ok c"
    using Cons.prems by auto
  have run: "run_ok run" using Cons.prems by simp
  note ep = emit_packed_props [OF packed, of ct]
  consider (big) "length run > 4096" | (full) "length run \<le> 4096" "0 < sz" "sz + length run + 1 > 2048"
    | (fits) "length run \<le> 4096" "\<not> (0 < sz \<and> sz + length run + 1 > 2048)" by linarith
  then show ?case
  proof cases
    case big
    obtain ws where ws: "windowParagraph run = Some ws" "windows_ok run ws" "\<forall>x\<in>set ws. \<not> blank x"
      by (rule windowParagraph_total [of run]) (use run in \<open>simp_all add: run_ok_def\<close>)
    let ?cs = "fold (log_emit ct) ws (log_emit_packed ct packed cs)"
    have "\<forall>b\<in>set ws. log_piece_ok b"
      using ws(2,3) by (auto simp: windows_ok_def log_piece_ok_def run_ok_def)
    then have ok: "\<forall>c\<in>set ?cs. log_chunk_ok c" using fold_emit_ok ep by blast
    have ink: "contents_ink ?cs = contents_ink cs @ concat (map ink packed) @ ink run"
      using ws(2) ep by (simp add: fold_emit_ink windows_ok_def)
    have "log_pack ct (run # runs) packed sz cs = log_pack ct runs [] 0 ?cs"
      using big ws(1) Cons.prems(3) by (auto simp: Let_def)
    then show ?thesis using Cons.IH [of "[]" 0 ?cs] ok ink Cons.prems(1) by auto
  next
    case full
    then have ne: "packed \<noteq> []" using Cons.prems(3) by auto
    have le: "sz \<le> 4097" using Cons.prems by simp
    have "log_pack ct (run # runs) packed sz cs
        = log_pack ct runs [run] (length run + 1) (log_emit_packed ct packed cs)"
      using full ne by (simp add: log_emit_packed_def)
    then show ?thesis
      using Cons.IH [of "[run]" "length run + 1" "log_emit_packed ct packed cs"] ep Cons.prems(1) full run
      by auto
  next
    case fits
    then have "sz + length run + 1 \<le> 4097" by auto
    moreover have "log_pack ct (run # runs) packed sz cs
        = log_pack ct runs (packed @ [run]) (sz + length run + 1) cs"
      using fits by auto
    ultimately show ?thesis
      using Cons.IH [of "packed @ [run]" "sz + length run + 1" cs] Cons.prems run by auto
  qed
qed

lemma logChunks_total:
  assumes "valid_utf8 content" "\<not> blank content"
  obtains cs where "logChunks source content ct = Some cs" "cs \<noteq> []"
    "\<forall>c\<in>set cs. chunk_ok c \<and> length (Content c) \<le> chunkMaxBytes" "contents_ink cs = ink content"
proof (cases "log_runs (split_byte newline content) [] [] False")
  case (Pair rs b)
  have rs: "\<forall>r\<in>set rs. run_ok r" "concat (map ink rs) = ink content"
    using log_runs_props [OF split_lines_valid [OF assms(1)] _ _ Pair] split_lines_ink [OF assms(1)]
    by auto
  have ne: "ink content \<noteq> []" using ink_blank [OF assms(1)] assms(2) by blast
  show ?thesis
  proof (cases b)
    case False
    have eq: "logChunks source content ct = textChunks source content ct"
      using Pair False by (simp add: logChunks_def)
    show ?thesis by (rule textChunks_total [OF assms, of source ct])
        (use that eq in simp)
  next
    case True
    then have "logChunks source content ct = log_pack ct rs [] 0 []" using Pair by (simp add: logChunks_def)
    moreover obtain ds where "log_pack ct rs [] 0 [] = Some ds" "\<forall>c\<in>set ds. log_chunk_ok c"
      "contents_ink ds = ink content"
      using log_pack_total [OF rs(1), of "[]" 0 "[]" ct] rs(2) by auto
    moreover from this(3) have "ds \<noteq> []" using ne by auto
    ultimately show ?thesis using that [of ds] by (simp add: log_chunk_ok_def)
  qed
qed

interpretation log: faithful_chunker logChunks
proof unfold_locales
  fix content source ct :: string
  assume "valid_utf8 content" "\<not> blank content"
  then show "\<exists>cs. logChunks source content ct = Some cs \<and> cs \<noteq> [] \<and> (\<forall>c\<in>set cs. chunk_fit c)"
    by (rule logChunks_total) (blast intro: chunk_ok_fit)
next
  fix content source ct cs
  assume "valid_utf8 content" "\<not> blank content" "logChunks source content ct = Some cs"
  then show "contents_ink cs = ink content" by (metis option.inject logChunks_total)
qed

section \<open>Stack traces\<close>

definition ident_head :: "char \<Rightarrow> bool" where
  "ident_head c \<longleftrightarrow> (65 \<le> byte c \<and> byte c \<le> 90) \<or> (97 \<le> byte c \<and> byte c \<le> 122) \<or> byte c = 95"

definition word_dot :: re where "word_dot = RStar (RSet (\<lambda>c. word_char c \<or> c = CHR ''.''))"

text \<open>The metacharacter \<open>.\<close>: any character but a newline.\<close>

definition any_char :: re where "any_char = RSet (\<lambda>c. c \<noteq> newline)"

definition pythonTracebackRe :: re where
  "pythonTracebackRe = RSeq RBol (r_lit ''Traceback (most recent call last):'')"
definition pythonChainRe :: re where
  "pythonChainRe = RSeq RBol (RAlt (r_lit ''During handling of the above exception'')
                                   (r_lit ''The above exception was the direct cause''))"
definition pythonFinalRe :: re where
  "pythonFinalRe = r_seq [RBol, RSet ident_head, word_dot,
     r_opt (r_alts [r_lit ''Error'', r_lit ''Exception'', r_lit ''Warning'', r_lit ''Interrupt'', r_lit ''Exit'']),
     r_lit '': '', r_plus any_char]"
definition goPanicRe :: re where "goPanicRe = RSeq RBol (r_lit ''panic: '')"
definition goGoroutineRe :: re where
  "goGoroutineRe = r_seq [RBol, r_lit ''goroutine '', r_plus (RSet digit_char), r_lit '' ['']"
definition jvmThreadRe :: re where "jvmThreadRe = RSeq RBol (r_lit ''Exception in thread '')"
definition jvmExceptionRe :: re where
  "jvmExceptionRe = r_seq [RBol, RSet ident_head, word_dot,
     RAlt (r_lit ''Exception'') (r_lit ''Error''), r_opt (RSeq (r_lit '': '') (RStar any_char)), REol]"
definition jvmCausedByRe :: re where "jvmCausedByRe = RSeq RBol (r_lit ''Caused by:'')"
definition jvmFrameRe :: re where
  "jvmFrameRe = r_seq [RBol, r_plus (RSet re_space), r_lit ''at '']"

definition formatStacktrace :: string where "formatStacktrace = ''stacktrace''"

definition hasReportBody :: "string list \<Rightarrow> bool" where
  "hasReportBody cur \<longleftrightarrow> (\<exists>l\<in>set cur. \<not> blank l)"

definition containsGoroutine :: "string list \<Rightarrow> bool" where
  "containsGoroutine cur \<longleftrightarrow> (\<exists>l\<in>set cur. re_matches goGoroutineRe l)"

text \<open>\<open>nextNonBlankIsFrame(lines, i+1)\<close>, on the lines from \<open>i+1\<close> on.\<close>

fun nextNonBlankIsFrame :: "string list \<Rightarrow> bool" where
  "nextNonBlankIsFrame [] = False"
| "nextNonBlankIsFrame (l # ls) =
     (if blank l then nextNonBlankIsFrame ls else re_matches jvmFrameRe l)"

fun firstNonBlank :: "string list \<Rightarrow> string" where
  "firstNonBlank [] = []"
| "firstNonBlank (l # ls) = (if blank l then firstNonBlank ls else trim_space l)"

fun secondNonBlank_from :: "bool \<Rightarrow> string list \<Rightarrow> string" where
  "secondNonBlank_from seen [] = []"
| "secondNonBlank_from seen (l # ls) =
     (if blank l then secondNonBlank_from seen ls
      else if seen then l else secondNonBlank_from True ls)"

definition secondNonBlank :: "string list \<Rightarrow> string" where
  "secondNonBlank lines = secondNonBlank_from False lines"

text \<open>The backward loop at the end of \<open>traceTitle\<close>, on the reversed lines.\<close>

fun finalTitle :: "string list \<Rightarrow> string \<Rightarrow> string" where
  "finalTitle [] fallback = fallback"
| "finalTitle (l # ls) fallback =
     (let line = trim_space l in
      if line = [] then finalTitle ls fallback
      else if re_matches pythonFinalRe line then capTitle line fallback
      else fallback)"

definition traceTitle :: "string \<Rightarrow> nat \<Rightarrow> string" where
  "traceTitle body n =
     (let fallback = numberedTitle ''trace'' n;
          lines = split_byte newline body;
          first = firstNonBlank lines;
          second = secondNonBlank lines
      in if first \<noteq> [] \<and> (re_matches goPanicRe first \<or> re_matches goGoroutineRe first)
         then capTitle first fallback
         else if first \<noteq> [] \<and> (re_matches jvmThreadRe first \<or> re_matches jvmExceptionRe first)
                 \<and> second \<noteq> [] \<and> re_matches jvmFrameRe second
         then capTitle first fallback
         else finalTitle (rev lines) fallback)"

definition trace_flush :: "string list \<Rightarrow> db_chunk list \<Rightarrow> db_chunk list" where
  "trace_flush cur chunks =
     (if cur = [] then chunks
      else let body = trim_right_nl (join [newline] cur) in
           if blank body then chunks
           else chunks @ [\<lparr>Title = traceTitle body (length chunks + 1), Content = body,
                           ContentType = contentTypeCode\<rparr>])"

definition is_chain :: "string \<Rightarrow> bool" where
  "is_chain line \<longleftrightarrow> re_matches pythonChainRe line \<or> re_matches jvmCausedByRe line"

definition is_trace_start :: "string \<Rightarrow> string list \<Rightarrow> bool" where
  "is_trace_start line rest \<longleftrightarrow> re_matches pythonTracebackRe line \<or> re_matches jvmThreadRe line
     \<or> (re_matches jvmExceptionRe line \<and> nextNonBlankIsFrame rest)"

text \<open>The loop over the lines: \<open>cur\<close>, \<open>chunks\<close>, \<open>chainPending\<close>, \<open>sawMarker\<close>.\<close>

fun trace_loop ::
  "string list \<Rightarrow> string list \<Rightarrow> db_chunk list \<Rightarrow> bool \<Rightarrow> bool \<Rightarrow> db_chunk list \<times> bool" where
  "trace_loop [] cur chunks chainPending sawMarker = (trace_flush cur chunks, sawMarker)"
| "trace_loop (line # lines) cur chunks chainPending sawMarker =
     (if is_chain line then trace_loop lines (cur @ [line]) chunks True sawMarker
      else if is_trace_start line lines then
        (if \<not> chainPending \<and> hasReportBody cur
         then trace_loop lines [line] (trace_flush cur chunks) False True
         else trace_loop lines (cur @ [line]) chunks False True)
      else if re_matches goPanicRe line then
        (if hasReportBody cur
         then trace_loop lines [line] (trace_flush cur chunks) chainPending True
         else trace_loop lines (cur @ [line]) chunks chainPending True)
      else if re_matches goGoroutineRe line then
        (if containsGoroutine cur
         then trace_loop lines [line] (trace_flush cur chunks) chainPending True
         else trace_loop lines (cur @ [line]) chunks chainPending True)
      else trace_loop lines (cur @ [line]) chunks chainPending sawMarker)"

definition stacktraceChunks :: chunkFunc where
  "stacktraceChunks source content contentType =
     (case trace_loop (split_byte newline content) [] [] False False of
        (chunks, sawMarker) \<Rightarrow>
          Some (if \<not> sawMarker
                then (let body = trim_right_nl content in
                      [\<lparr>Title = traceTitle body 1, Content = body, ContentType = contentTypeCode\<rparr>])
                else chunks))"

subsection \<open>Reports\<close>

lemma trace_flush_props:
  assumes "\<forall>l\<in>set cur. valid_utf8 l" "\<forall>c\<in>set cs. chunk_ok c"
  shows "(\<forall>c\<in>set (trace_flush cur cs). chunk_ok c)
    \<and> contents_ink (trace_flush cur cs) = contents_ink cs @ concat (map ink cur)"
proof (cases "cur = [] \<or> blank (trim_right_nl (join [newline] cur))")
  case True
  then show ?thesis using trimmed_join [OF assms(1)] blank_ink assms(2)
    by (auto simp: trace_flush_def)
next
  case False
  then show ?thesis using trimmed_join [OF assms(1)] assms(2)
    by (simp add: trace_flush_def Let_def chunk_ok_def)
qed

definition trace_inv :: "nat list \<Rightarrow> string list \<Rightarrow> db_chunk list \<Rightarrow> bool" where
  "trace_inv goal cur cs \<longleftrightarrow> (\<forall>l\<in>set cur. valid_utf8 l) \<and> (\<forall>c\<in>set cs. chunk_ok c)
     \<and> contents_ink cs @ concat (map ink cur) = goal"

lemma trace_inv_more: "trace_inv g cur cs \<Longrightarrow> valid_utf8 l \<Longrightarrow> trace_inv (g @ ink l) (cur @ [l]) cs"
  by (auto simp: trace_inv_def)

lemma trace_inv_flush:
  "trace_inv g cur cs \<Longrightarrow> valid_utf8 l \<Longrightarrow> trace_inv (g @ ink l) [l] (trace_flush cur cs)"
  using trace_flush_props [of cur cs] by (simp add: trace_inv_def)

lemma trace_loop_inv:
  "trace_inv g cur cs \<Longrightarrow> \<forall>l\<in>set lines. valid_utf8 l \<Longrightarrow>
   trace_inv (g @ concat (map ink lines)) [] (fst (trace_loop lines cur cs cp sm))"
proof (induction lines arbitrary: g cur cs cp sm)
  case Nil
  then show ?case using trace_flush_props [of cur cs] by (simp add: trace_inv_def)
next
  case (Cons l lines)
  have l: "valid_utf8 l" "\<forall>l\<in>set lines. valid_utf8 l" using Cons.prems by simp_all
  note more = Cons.IH [OF trace_inv_more [OF Cons.prems(1) l(1)] l(2)]
  note fresh = Cons.IH [OF trace_inv_flush [OF Cons.prems(1) l(1)] l(2)]
  show ?case using more fresh by (simp only: trace_loop.simps list.map concat.simps append_assoc split: if_split) simp
qed

lemma stacktraceChunks_total:
  assumes "valid_utf8 content" "\<not> blank content"
  obtains cs where "stacktraceChunks source content ct = Some cs" "cs \<noteq> []" "\<forall>c\<in>set cs. chunk_ok c"
    "contents_ink cs = ink content"
proof (cases "trace_loop (split_byte newline content) [] [] False False")
  case (Pair cs b)
  have inv: "trace_inv (ink content) [] cs"
    using trace_loop_inv [of "[]" "[]" "[]" "split_byte newline content" False False]
      split_lines_valid [OF assms(1)] split_lines_ink [OF assms(1)] Pair
    by (simp add: trace_inv_def)
  have ne: "ink content \<noteq> []" using ink_blank [OF assms(1)] assms(2) by blast
  show ?thesis
  proof (cases b)
    case True
    moreover have "cs \<noteq> []" using inv ne by (auto simp: trace_inv_def)
    ultimately show ?thesis using that [of cs] inv Pair by (simp add: stacktraceChunks_def trace_inv_def)
  next
    case False
    have "\<not> blank (trim_right_nl content)"
      using trim_right_nl_ink [OF assms(1)] blank_ink ne by metis
    then show ?thesis using that Pair False trim_right_nl_ink [OF assms(1)]
      by (simp add: stacktraceChunks_def Let_def chunk_ok_def)
  qed
qed

interpretation stacktrace: faithful_chunker stacktraceChunks
proof unfold_locales
  fix content source ct :: string
  assume "valid_utf8 content" "\<not> blank content"
  then show "\<exists>cs. stacktraceChunks source content ct = Some cs \<and> cs \<noteq> [] \<and> (\<forall>c\<in>set cs. chunk_fit c)"
    by (rule stacktraceChunks_total) (blast intro: chunk_ok_fit)
next
  fix content source ct cs
  assume "valid_utf8 content" "\<not> blank content" "stacktraceChunks source content ct = Some cs"
  then show "contents_ink cs = ink content" by (metis option.inject stacktraceChunks_total)
qed

text \<open>Every report but the first begins with a line that matches a start pattern.\<close>

definition start_marker :: "string \<Rightarrow> bool" where
  "start_marker l \<longleftrightarrow> re_matches pythonTracebackRe l \<or> re_matches jvmThreadRe l
     \<or> re_matches jvmExceptionRe l \<or> re_matches goPanicRe l \<or> re_matches goGoroutineRe l"

lemma re_min_matches: "0 < re_min r \<Longrightarrow> re_matches r l \<Longrightarrow> l \<noteq> []"
proof
  assume "0 < re_min r" "re_matches r l" "l = []"
  then obtain a b where "re_find r None [] = Some (a, b)" by (auto simp: re_matches_def)
  moreover have "re_chars (\<lambda>_. True) r" by (induction r) auto
  ultimately show False using re_find_bounds [of "\<lambda>_. True" r None "[]" a b] \<open>0 < re_min r\<close> by simp
qed

lemma r_lit_min [simp]: "re_min (r_lit s) = length s"
  by (induction s) (simp_all add: r_char_def)

lemma start_marker_ne: "start_marker l \<Longrightarrow> l \<noteq> []"
  unfolding start_marker_def pythonTracebackRe_def jvmThreadRe_def jvmExceptionRe_def goPanicRe_def goGoroutineRe_def
  by (elim disjE; erule re_min_matches [rotated]) (simp_all add: r_char_def)

lemma first_line_trimmed:
  assumes "l \<noteq> []" "newline \<notin> set l"
  shows "first_line (trim_right_nl (join [newline] (l # ls))) = l"
proof -
  obtain x where x: "join [newline] (l # ls) = l @ x" "x = [] \<or> hd x = newline"
    by (cases "ls = []") (auto simp: join_Cons)
  have nl: "last l \<noteq> newline" using assms by (metis last_in_set)
  define y where "y = trim_right_nl x"
  have y: "trim_right_nl (l @ x) = l @ y"
  proof (cases "dropWhile (\<lambda>c. c = newline) (rev x)")
    case Nil
    then have "\<forall>c\<in>set (rev x). c = newline" by (simp add: dropWhile_eq_Nil_conv)
    moreover have "dropWhile (\<lambda>c. c = newline) (rev l) = rev l"
      using nl assms(1) by (simp add: dropWhile_eq_self_iff hd_rev)
    ultimately have "dropWhile (\<lambda>c. c = newline) (rev x @ rev l) = rev l"
      using dropWhile_append2 [of "rev x" "\<lambda>c. c = newline" "rev l"] by simp
    then show ?thesis using Nil by (simp add: trim_right_set_def y_def)
  next
    case (Cons a as)
    then have "\<not> (\<forall>c\<in>set (rev x). c = newline)"
      using dropWhile_eq_Nil_conv [of "\<lambda>c. c = newline" "rev x"] by simp
    then obtain c where "c \<in> set (rev x)" "c \<noteq> newline" by blast
    then have "dropWhile (\<lambda>c. c = newline) (rev x @ rev l) = dropWhile (\<lambda>c. c = newline) (rev x) @ rev l"
      by (rule dropWhile_append1)
    then show ?thesis by (simp add: trim_right_set_def y_def)
  qed
  have "y = [] \<or> hd y = newline"
  proof -
    obtain t where "x = y @ t" using trim_right_set_split [of x] y_def by blast
    then show ?thesis using x(2) by (cases y) auto
  qed
  then have "first_line (l @ y) = l"
  proof
    assume "y = []"
    then show ?thesis using assms(2) by (simp add: first_line_def index_byte_None [THEN iffD2])
  next
    assume hd: "hd y = newline"
    have "index_byte newline (l @ y) = (if y = [] then None else Some (length l))"
      using assms(2) hd
      by (induction l) (auto simp: neq_Nil_conv)
    then show ?thesis using assms(2) by (auto simp: first_line_def)
  qed
  then show ?thesis using x(1) y by simp
qed

definition marker_inv :: "string list \<Rightarrow> db_chunk list \<Rightarrow> bool" where
  "marker_inv cur cs \<longleftrightarrow> (cs \<noteq> [] \<longrightarrow> cur \<noteq> [] \<and> start_marker (hd cur)) \<and> (\<forall>l\<in>set cur. newline \<notin> set l)
     \<and> (\<forall>c\<in>set (tl cs). start_marker (first_line (Content c)))"

lemma trace_flush_markers:
  assumes "marker_inv cur cs"
  shows "\<forall>c\<in>set (tl (trace_flush cur cs)). start_marker (first_line (Content c))"
proof (cases "cs = [] \<or> cur = []")
  case True
  then show ?thesis using assms by (auto simp: trace_flush_def marker_inv_def Let_def)
next
  case False
  then obtain l ls where cur: "cur = l # ls" by (cases cur) auto
  have "start_marker l" "newline \<notin> set l" using assms False cur by (auto simp: marker_inv_def)
  then have "start_marker (first_line (trim_right_nl (join [newline] cur)))"
    using cur first_line_trimmed [OF start_marker_ne] by metis
  then show ?thesis using assms False by (auto simp: trace_flush_def marker_inv_def Let_def)
qed

lemma marker_inv_more: "marker_inv cur cs \<Longrightarrow> newline \<notin> set l \<Longrightarrow> marker_inv (cur @ [l]) cs"
  by (auto simp: marker_inv_def)

lemma marker_inv_flush:
  "marker_inv cur cs \<Longrightarrow> newline \<notin> set l \<Longrightarrow> start_marker l \<Longrightarrow> marker_inv [l] (trace_flush cur cs)"
  using trace_flush_markers by (simp add: marker_inv_def)

lemma trace_loop_markers:
  "marker_inv cur cs \<Longrightarrow> \<forall>l\<in>set lines. newline \<notin> set l \<Longrightarrow>
   \<forall>c\<in>set (tl (fst (trace_loop lines cur cs cp sm))). start_marker (first_line (Content c))"
proof (induction lines arbitrary: cur cs cp sm)
  case Nil
  then show ?case using trace_flush_markers by simp
next
  case (Cons l lines)
  have l: "newline \<notin> set l" "\<forall>l\<in>set lines. newline \<notin> set l" using Cons.prems by simp_all
  note more = Cons.IH [OF marker_inv_more [OF Cons.prems(1) l(1)] l(2)]
  have fresh: "start_marker l \<Longrightarrow> \<forall>c\<in>set (tl (fst (trace_loop lines [l] (trace_flush cur cs) cp' sm'))).
      start_marker (first_line (Content c))" for cp' sm'
    using Cons.IH [OF marker_inv_flush [OF Cons.prems(1) l(1)] l(2)] .
  have "is_trace_start l lines \<Longrightarrow> start_marker l" "re_matches goPanicRe l \<Longrightarrow> start_marker l"
    "re_matches goGoroutineRe l \<Longrightarrow> start_marker l"
    by (auto simp: is_trace_start_def start_marker_def)
  then show ?case using more fresh by (simp only: trace_loop.simps split: if_split) blast
qed

lemma trace_flush_code:
  "\<forall>c\<in>set cs. ContentType c = contentTypeCode \<Longrightarrow>
     \<forall>c\<in>set (trace_flush cur cs). ContentType c = contentTypeCode"
  by (auto simp: trace_flush_def Let_def)

lemma trace_loop_code:
  "\<forall>c\<in>set cs. ContentType c = contentTypeCode \<Longrightarrow>
     \<forall>c\<in>set (fst (trace_loop ls cur cs cp sm)). ContentType c = contentTypeCode"
proof (induction ls arbitrary: cur cs cp sm)
  case (Cons l ls)
  note more = Cons.IH [OF Cons.prems] Cons.IH [OF trace_flush_code [OF Cons.prems]]
  show ?case using more by (simp only: trace_loop.simps split: if_split) blast
qed (use trace_flush_code in simp)

lemma stacktrace_markers:
  "stacktraceChunks source content ct = Some cs \<Longrightarrow>
     \<forall>c\<in>set (tl cs). start_marker (first_line (Content c)) \<and> ContentType c = contentTypeCode"
proof -
  obtain ks b where ks: "trace_loop (split_byte newline content) [] [] False False = (ks, b)" by fastforce
  have m: "\<forall>c\<in>set (tl ks). start_marker (first_line (Content c))" "\<forall>c\<in>set ks. ContentType c = contentTypeCode"
    using trace_loop_markers [of "[]" "[]" "split_byte newline content" False False]
      trace_loop_code [of "[]" "split_byte newline content" "[]" False False] split_byte_parts ks
    by (simp_all add: marker_inv_def)
  assume "stacktraceChunks source content ct = Some cs"
  then have "cs = ks \<or> length cs = 1"
    using ks by (auto simp: stacktraceChunks_def Let_def)
  then show ?thesis
  proof
    assume "cs = ks"
    then show ?thesis using m by (cases ks) simp_all
  next
    assume "length cs = 1"
    then show ?thesis by (cases cs) simp_all
  qed
qed

end
