(* ===== verification/Chunk_Table.thy ===== *)
theory Chunk_Table
  imports Chunk_Core
begin

text \<open>
  internal/ingest/chunk/table.go: the CSV and TSV chunker. The reader of encoding/csv is
  modelled as far as the program uses it: where a record ends, and which input it refuses
  (a bare quote, an unfinished or badly closed quoted field).
\<close>

section \<open>The record reader of encoding/csv\<close>

definition quote_char :: char where "quote_char = CHR 0x22"
definition cr :: char where "cr = CHR 0x0D"

definition lengthNL :: "string \<Rightarrow> nat" where
  "lengthNL b = (if b \<noteq> [] \<and> last b = newline then 1 else 0)"

text \<open>\<open>readLine\<close> on non-empty input: the line as the parser sees it, and the rest of the input.\<close>

definition csv_readLine :: "string \<Rightarrow> string \<times> string" where
  "csv_readLine s =
     (case index_byte newline s of
        None \<Rightarrow> (if s \<noteq> [] \<and> last s = cr then butlast s else s, [])
      | Some i \<Rightarrow> (if 0 < i \<and> s ! (i - 1) = cr then take (i - 1) s @ [newline] else take (Suc i) s, drop (Suc i) s))"

lemma csv_readLine_shrinks:
  "s \<noteq> [] \<Longrightarrow> csv_readLine s = (line, rest) \<Longrightarrow> length line + length rest \<le> length s \<and> length rest < length s"
  by (auto simp: csv_readLine_def split: option.splits if_splits dest!: index_byte_Some)

lemma csv_line_rest:
  "(line, rest) = csv_readLine s \<Longrightarrow> s \<noteq> [] \<Longrightarrow> length line + length rest \<le> length s \<and> length rest < length s"
  using csv_readLine_shrinks [of s line rest] by simp

text \<open>The first line of the next record; empty lines are skipped.\<close>

function csv_start :: "string \<Rightarrow> (string \<times> string) option" where
  "csv_start s =
     (if s = [] then None
      else case csv_readLine s of
             (line, rest) \<Rightarrow> if length line = lengthNL line then csv_start rest else Some (line, rest))"
  by pat_completeness auto
termination
  by (relation "measure length") (auto dest: csv_line_rest)

declare csv_start.simps [simp del]

text \<open>The fields of a record, the flag telling whether inside a quoted field: the rest of the
  input after the record, or \<open>None\<close> for a parse error.\<close>

function csv_fields :: "char \<Rightarrow> bool \<Rightarrow> string \<Rightarrow> string \<Rightarrow> string option" where
  "csv_fields comma quoted line rest =
     (if \<not> quoted then
        (if line = [] \<or> hd line \<noteq> quote_char then
           (case index_byte comma line of
              Some i \<Rightarrow> if quote_char \<in> set (take i line) then None else csv_fields comma False (drop (Suc i) line) rest
            | None \<Rightarrow> if quote_char \<in> set (take (length line - lengthNL line) line) then None else Some rest)
         else csv_fields comma True (tl line) rest)
      else
        (case index_byte quote_char line of
           Some i \<Rightarrow>
             (let after = drop (Suc i) line in
              if after \<noteq> [] \<and> hd after = quote_char then csv_fields comma True (tl after) rest
              else if after \<noteq> [] \<and> hd after = comma then csv_fields comma False (tl after) rest
              else if lengthNL after = length after then Some rest else None)
         | None \<Rightarrow>
             if line = [] \<or> rest = [] then None
             else (case csv_readLine rest of (line', rest') \<Rightarrow> csv_fields comma True line' rest')))"
  by pat_completeness auto
termination
  by (relation "measure (\<lambda>(comma, quoted, line, rest). length line + length rest)")
    (auto simp: neq_Nil_conv split: prod.splits dest!: index_byte_Some csv_line_rest dest: csv_readLine_shrinks [rotated])

declare csv_fields.simps [simp del]

datatype csv_read = CsvEOF | CsvError | CsvRow string

definition csv_Read :: "char \<Rightarrow> string \<Rightarrow> csv_read" where
  "csv_Read comma s =
     (case csv_start s of
        None \<Rightarrow> CsvEOF
      | Some (line, rest) \<Rightarrow>
          (case csv_fields comma False line rest of None \<Rightarrow> CsvError | Some rest' \<Rightarrow> CsvRow rest'))"

section \<open>The chunker (table.go)\<close>

abbreviation trim_crlf :: "string \<Rightarrow> string" where
  "trim_crlf \<equiv> trim_right_set (\<lambda>c. c = cr \<or> c = newline)"

text \<open>The raw bytes of the rows, and the input from a parse error on. A record is never empty, so the
  second branch of the condition is not taken.\<close>

function csv_rows :: "char \<Rightarrow> string \<Rightarrow> string list \<times> string option" where
  "csv_rows comma s =
     (case csv_Read comma s of
        CsvEOF \<Rightarrow> ([], None)
      | CsvError \<Rightarrow> ([], Some s)
      | CsvRow rest \<Rightarrow>
          if length rest < length s
          then (case csv_rows comma rest of (rows, tail) \<Rightarrow> (take (length s - length rest) s # rows, tail))
          else ([], None))"
  by pat_completeness auto
termination
  by (relation "measure (\<lambda>(comma, s). length s)") auto

declare csv_rows.simps [simp del]

definition table_emit :: "string \<Rightarrow> string \<Rightarrow> nat \<times> string list \<Rightarrow> db_chunk" where
  "table_emit contentType header g =
     (case g of (firstRow, rows) \<Rightarrow>
        \<lparr>Title = ''rows '' @ itoa (firstRow + 1) @ ''-'' @ itoa (firstRow + length rows),
         Content = header @ [newline] @ trim_crlf (concat rows), ContentType = contentType\<rparr>)"

fun row_groups :: "nat \<Rightarrow> nat \<Rightarrow> string list \<Rightarrow> nat \<Rightarrow> string list \<Rightarrow> (nat \<times> string list) list" where
  "row_groups hdr start grp sz [] = (if grp = [] then [] else [(start, grp)])"
| "row_groups hdr start grp sz (r # rs) =
     (if grp \<noteq> [] \<and> sz + length r > chunkTargetBytes
      then (start, grp) # row_groups hdr (start + length grp) [r] (hdr + length r) rs
      else row_groups hdr start (grp @ [r]) (sz + length r) rs)"

definition delimitedChunks :: "char \<Rightarrow> chunkFunc" where
  "delimitedChunks comma source content contentType =
     (case csv_Read comma content of
        CsvRow rest \<Rightarrow>
          (let header = trim_crlf (take (length content - length rest) content) in
           case csv_rows comma rest of
             (rows, tail) \<Rightarrow>
               (let chunks = map (table_emit contentType header) (row_groups (length header) 0 [] (length header) rows) in
                case tail of
                  Some t \<Rightarrow> map_option (\<lambda>cs. chunks @ cs) (textChunks source t contentType)
                | None \<Rightarrow> if chunks = [] then textChunks source content contentType else Some chunks))
      | _ \<Rightarrow> textChunks source content contentType)"

definition csvChunks :: chunkFunc where "csvChunks = delimitedChunks CHR '',''"
definition tsvChunks :: chunkFunc where "tsvChunks = delimitedChunks CHR 0x09"

section \<open>Records are whole lines\<close>

lemma csv_readLine_split:
  assumes "s \<noteq> []" "csv_readLine s = (line, rest)"
  obtains u where "s = u @ rest" "u \<noteq> []" "line_cut u rest" "\<And>c. c \<in> set line \<Longrightarrow> c \<in> set u"
    "length line = lengthNL line \<Longrightarrow> set u \<subseteq> {cr, newline}"
proof (cases "index_byte newline s")
  case None
  then have line: "line = (if last s = cr then butlast s else s)" and rest: "rest = []"
    using assms by (auto simp: csv_readLine_def)
  have nl: "newline \<notin> set s" using None by (simp add: index_byte_None)
  have "newline \<notin> set line" using nl line by (auto dest: in_set_butlastD)
  then have "lengthNL line = 0" by (auto simp: lengthNL_def dest: last_in_set)
  have "set s \<subseteq> {cr, newline}" if "length line = lengthNL line"
  proof -
    have "line = []" using that \<open>lengthNL line = 0\<close> by simp
    then have "last s = cr" "butlast s = []" using line assms(1) by (auto split: if_splits)
    then have "s = [cr]" using append_butlast_last_id [OF assms(1)] by simp
    then show ?thesis by simp
  qed
  moreover have "c \<in> set s" if "c \<in> set line" for c using that line by (auto split: if_splits dest: in_set_butlastD)
  ultimately show ?thesis using assms(1) by (intro that [of s]) (simp_all add: rest line_cut_def)
next
  case (Some i)
  then have i: "i < length s" "s ! i = newline" using index_byte_Some by blast+
  have rest: "rest = drop (Suc i) s"
    and line: "line = (if 0 < i \<and> s ! (i - 1) = cr then take (i - 1) s @ [newline] else take (Suc i) s)"
    using assms Some by (auto simp: csv_readLine_def)
  have u: "take (Suc i) s = take i s @ [newline]" using i by (simp add: take_Suc_conv_app_nth)
  have sub: "set (take (i - 1) s) \<subseteq> set (take i s)" by (rule set_take_subset_set_take) simp
  have "set (take (Suc i) s) \<subseteq> {cr, newline}" if "length line = lengthNL line"
  proof -
    have "length line \<le> 1" using that by (auto simp: lengthNL_def split: if_splits)
    then have "i = 0 \<or> i = 1 \<and> s ! 0 = cr" using line i(1) by (auto split: if_splits)
    then have "take (Suc i) s = [newline] \<or> take (Suc i) s = [cr, newline]" using i by (cases s) (auto simp: take_Suc_conv_app_nth)
    then show ?thesis by auto
  qed
  moreover have "c \<in> set (take (Suc i) s)" if "c \<in> set line" for c
    using that line u sub by (auto split: if_splits)
  moreover have "s = take (Suc i) s @ rest" using rest by simp
  moreover have "line_cut (take (Suc i) s) rest" by (simp add: line_cut_def u)
  ultimately show ?thesis using assms(1) by (intro that [of "take (Suc i) s"]) simp_all
qed

lemma csv_start_split:
  "csv_start s = Some (line, rest) \<Longrightarrow>
     \<exists>u. s = u @ rest \<and> u \<noteq> [] \<and> line_cut u rest \<and> set line \<subseteq> set u"
  "csv_start s = None \<Longrightarrow> set s \<subseteq> {cr, newline}"
proof (induction s rule: csv_start.induct)
  case (1 s)
  {
    case 1
    then have ne: "s \<noteq> []" by (auto simp: csv_start.simps)
    obtain l r where lr: "csv_readLine s = (l, r)" by fastforce
    obtain u where u: "s = u @ r" "u \<noteq> []" "line_cut u r" "\<And>c. c \<in> set l \<Longrightarrow> c \<in> set u"
      using csv_readLine_split [OF ne lr] by metis
    show ?case
    proof (cases "length l = lengthNL l")
      case True
      then have "csv_start r = Some (line, rest)" using 1 ne lr by (simp add: csv_start.simps [of s])
      then obtain v where "r = v @ rest" "v \<noteq> []" "line_cut v rest" "set line \<subseteq> set v"
        using "1.IH"(1) [OF ne lr [symmetric] True] by blast
      then show ?thesis using u line_cut_trans [of u v rest] by (intro exI [of _ "u @ v"]) auto
    next
      case False
      then have "line = l" "rest = r" using 1 ne lr by (simp_all add: csv_start.simps [of s])
      then show ?thesis using u by blast
    qed
  next
    case 2
    show ?case
    proof (cases "s = []")
      case False
      obtain l r where lr: "csv_readLine s = (l, r)" by fastforce
      have nl: "length l = lengthNL l" "csv_start r = None"
        using 2 False lr by (auto simp: csv_start.simps [of s] split: if_splits)
      obtain u where "s = u @ r" "set u \<subseteq> {cr, newline}"
        using csv_readLine_split [OF False lr] nl(1) by metis
      then show ?thesis using "1.IH"(2) [OF False lr [symmetric] nl] by simp
    qed simp
  }
qed

lemma csv_fields_split:
  "csv_fields comma q line rest = Some rest' \<Longrightarrow> \<exists>u. rest = u @ rest' \<and> line_cut u rest'"
  "csv_fields comma q line rest = None \<Longrightarrow> q \<or> quote_char \<in> set line"
proof -
  show "csv_fields comma q line rest = Some rest' \<Longrightarrow> \<exists>u. rest = u @ rest' \<and> line_cut u rest'"
  proof (induction comma q line rest rule: csv_fields.induct)
    case (1 comma q line rest)
    note run = "1.prems" [unfolded csv_fields.simps [of comma q line rest]]
    have same: "\<exists>u. rest = u @ rest \<and> line_cut u rest" by (intro exI [of _ "[]"]) (simp add: line_cut_def)
    show ?case
    proof (cases q)
      case nq: False
      show ?thesis
      proof (cases "line = [] \<or> hd line \<noteq> quote_char")
        case True
        then show ?thesis using run same nq "1.IH"(1) [OF nq True]
          by (cases "index_byte comma line") (auto split: if_splits)
      next
        case False
        then show ?thesis using run nq "1.IH"(2) [OF nq False] by simp
      qed
    next
      case q: True
      show ?thesis
      proof (cases "index_byte quote_char line")
        case (Some i)
        then show ?thesis using run same q "1.IH"(4,5) [OF _ Some refl]
          by (simp add: Let_def split: if_splits)
      next
        case None
        obtain l r where lr: "csv_readLine rest = (l, r)" by fastforce
        have ne: "\<not> (line = [] \<or> rest = [])" and next_line: "csv_fields comma True l r = Some rest'"
          using run q None lr by (auto split: if_splits)
        obtain v where v: "r = v @ rest'" "line_cut v rest'"
          using "1.IH"(3) [OF _ None ne lr [symmetric] next_line] q by auto
        obtain u where "rest = u @ r" "line_cut u r" using csv_readLine_split [OF _ lr] ne by metis
        then show ?thesis using v line_cut_trans [of u v rest'] by (intro exI [of _ "u @ v"]) simp
      qed
    qed
  qed
  show "csv_fields comma q line rest = None \<Longrightarrow> q \<or> quote_char \<in> set line"
  proof (induction comma q line rest rule: csv_fields.induct)
    case (1 comma q line rest)
    show ?case
    proof (cases "q \<or> quote_char \<in> set line")
      case False
      then have "line = [] \<or> hd line \<noteq> quote_char" by (cases line) auto
      then have False using 1 False
        by (subst (asm) (2) csv_fields.simps) (auto split: option.splits if_splits dest: in_set_takeD in_set_dropD)
      then show ?thesis ..
    qed
  qed
qed

lemma csv_Read_split:
  "csv_Read comma s = CsvRow rest \<Longrightarrow> \<exists>u. s = u @ rest \<and> u \<noteq> [] \<and> line_cut u rest"
  "csv_Read comma s = CsvError \<Longrightarrow> quote_char \<in> set s"
  "csv_Read comma s = CsvEOF \<Longrightarrow> set s \<subseteq> {cr, newline}"
proof -
  show "csv_Read comma s = CsvEOF \<Longrightarrow> set s \<subseteq> {cr, newline}"
    using csv_start_split(2) [of s] by (auto simp: csv_Read_def split: option.splits prod.splits)
  show "csv_Read comma s = CsvError \<Longrightarrow> quote_char \<in> set s"
    using csv_start_split(1) [of s] csv_fields_split(2) [of comma False]
    by (fastforce simp: csv_Read_def split: option.splits prod.splits)
  assume "csv_Read comma s = CsvRow rest"
  then obtain line r where st: "csv_start s = Some (line, r)" and fl: "csv_fields comma False line r = Some rest"
    by (auto simp: csv_Read_def split: option.splits prod.splits)
  obtain u where "s = u @ r" "u \<noteq> []" "line_cut u r" using csv_start_split(1) [OF st] by blast
  moreover obtain v where "r = v @ rest" "line_cut v rest" using csv_fields_split(1) [OF fl] by blast
  ultimately show "\<exists>u. s = u @ rest \<and> u \<noteq> [] \<and> line_cut u rest"
    using line_cut_trans [of u v rest] by (intro exI [of _ "u @ v"]) simp
qed

text \<open>The rows, the tail after a parse error and ignored line ends make up the input.\<close>

lemma csv_rows_tile:
  assumes "valid_utf8 s" "csv_rows comma s = (rows, tail)"
  shows "\<exists>z. s = concat rows @ (case tail of None \<Rightarrow> z | Some t \<Rightarrow> t) \<and> set z \<subseteq> {cr, newline}
    \<and> (\<forall>r\<in>set rows. valid_utf8 r \<and> r \<noteq> []) \<and> (case tail of None \<Rightarrow> True | Some t \<Rightarrow> valid_utf8 t \<and> quote_char \<in> set t)"
  using assms
proof (induction comma s arbitrary: rows tail rule: csv_rows.induct)
  case (1 comma s)
  note run = "1.prems"(2) [unfolded csv_rows.simps [of comma s]]
  show ?case
  proof (cases "csv_Read comma s")
    case CsvEOF
    then show ?thesis using run csv_Read_split(3) [OF CsvEOF] by auto
  next
    case CsvError
    then show ?thesis using run csv_Read_split(2) [OF CsvError] "1.prems"(1) by (auto intro!: exI [of _ "[]"])
  next
    case (CsvRow rest)
    obtain u where u: "s = u @ rest" "u \<noteq> []" "line_cut u rest" using csv_Read_split(1) [OF CsvRow] by blast
    have v: "valid_utf8 u" "valid_utf8 rest" using line_cut_valid [of u rest] u "1.prems"(1) by simp_all
    obtain rows' where rows': "csv_rows comma rest = (rows', tail)" "rows = u # rows'"
      using run CsvRow u by (auto split: prod.splits)
    show ?thesis using "1.IH" [OF CsvRow _ v(2) rows'(1)] u v(1) by (auto simp: rows'(2))
  qed
qed

section \<open>Groups of rows\<close>

lemma row_groups_props:
  assumes "sz = hdr + length (concat grp)" "length grp \<le> 1 \<or> sz \<le> chunkTargetBytes"
  shows "concat (map snd (row_groups hdr start grp sz rows)) = grp @ rows"
    "\<forall>g\<in>set (row_groups hdr start grp sz rows).
       snd g \<noteq> [] \<and> (length (snd g) \<le> 1 \<or> hdr + length (concat (snd g)) \<le> chunkTargetBytes)"
    "row_groups hdr start grp sz rows = [] \<longleftrightarrow> grp @ rows = []"
proof -
  have "concat (map snd (row_groups hdr start grp sz rows)) = grp @ rows
    \<and> (\<forall>g\<in>set (row_groups hdr start grp sz rows).
       snd g \<noteq> [] \<and> (length (snd g) \<le> 1 \<or> hdr + length (concat (snd g)) \<le> chunkTargetBytes))
    \<and> (row_groups hdr start grp sz rows = [] \<longleftrightarrow> grp @ rows = [])"
    using assms
  proof (induction hdr start grp sz rows rule: row_groups.induct)
    case (2 hdr start grp sz r rs)
    show ?case
    proof (cases "grp \<noteq> [] \<and> sz + length r > chunkTargetBytes")
      case True
      have "concat (map snd (row_groups hdr (start + length grp) [r] (hdr + length r) rs)) = [r] @ rs
        \<and> (\<forall>g\<in>set (row_groups hdr (start + length grp) [r] (hdr + length r) rs).
             snd g \<noteq> [] \<and> (length (snd g) \<le> 1 \<or> hdr + length (concat (snd g)) \<le> chunkTargetBytes))"
        using "2.IH"(1) [OF True] by simp
      then show ?thesis using True "2.prems" by simp
    next
      case False
      then have "length (grp @ [r]) \<le> 1 \<or> sz + length r \<le> chunkTargetBytes" by auto
      moreover have "row_groups hdr start grp sz (r # rs) = row_groups hdr start (grp @ [r]) (sz + length r) rs"
        using False by (simp only: row_groups.simps if_False)
      ultimately show ?thesis using "2.IH"(2) [OF False] "2.prems"(1) by simp
    qed
  qed simp
  then show "concat (map snd (row_groups hdr start grp sz rows)) = grp @ rows"
    "\<forall>g\<in>set (row_groups hdr start grp sz rows).
       snd g \<noteq> [] \<and> (length (snd g) \<le> 1 \<or> hdr + length (concat (snd g)) \<le> chunkTargetBytes)"
    "row_groups hdr start grp sz rows = [] \<longleftrightarrow> grp @ rows = []"
    by blast+
qed

lemma ascii_spaces_trimmed:
  assumes "valid_utf8 s" "\<And>c. P c \<Longrightarrow> byte c < 128 \<and> is_space (byte c)"
  shows "ink (trim_right_set P s) = ink s" "valid_utf8 (trim_right_set P s)"
proof -
  obtain t where t: "s = trim_right_set P s @ t" "\<forall>c\<in>set t. P c"
    using trim_right_set_split by blast
  have "t = [] \<or> rune_start (hd t)" using t(2) assms(2) by (cases t) auto
  then show v: "valid_utf8 (trim_right_set P s)" using valid_cut t(1) assms(1) by metis
  have "ink t = []" using ink_ascii_space [of t] t(2) assms(2) by blast
  then show "ink (trim_right_set P s) = ink s" using ink_append [OF v, of t] t(1) by simp
qed

lemma crlf_space: "c = cr \<or> c = newline \<Longrightarrow> byte c < 128 \<and> is_space (byte c)"
  by (auto simp: cr_def is_space_def)

lemmas trim_crlf_ink = ascii_spaces_trimmed [where P = "\<lambda>c. c = cr \<or> c = newline", OF _ crlf_space]

lemma valid_concat:
  "\<forall>r\<in>set rs. valid_utf8 r \<Longrightarrow> valid_utf8 (concat rs) \<and> ink (concat rs) = concat (map ink rs)"
  by (induction rs) (auto simp: valid_append_iff ink_append)

section \<open>Nothing is dropped\<close>

lemma quote_not_blank: "valid_utf8 s \<Longrightarrow> quote_char \<in> set s \<Longrightarrow> \<not> blank s"
proof
  assume v: "valid_utf8 s" and q: "quote_char \<in> set s" and b: "blank s"
  obtain u w where s: "s = u @ quote_char # w" using q by (auto simp: in_set_conv_decomp)
  have start: "rune_start quote_char" "byte quote_char = 34" by (simp_all add: quote_char_def)
  have parts: "valid_utf8 u" "valid_utf8 (quote_char # w)" using valid_cut_both [of u "quote_char # w"] v s start(1) by simp_all
  have "34 \<in> set (ink (quote_char # w))" by (simp add: ink_def start(2) is_space_def)
  then have "ink s \<noteq> []" using ink_append [OF parts(1), of "quote_char # w"] s by auto
  then show False using blank_ink [OF v b] by simp
qed

lemma table_emit_props:
  assumes "\<forall>r\<in>set (snd g). valid_utf8 r" "valid_utf8 header"
  shows "valid_utf8 (Content (table_emit ct header g))"
    "ink (Content (table_emit ct header g)) = ink header @ concat (map ink (snd g))"
    "length (Content (table_emit ct header g)) \<le> length header + 1 + length (concat (snd g))"
    "Content (table_emit ct header g) \<noteq> []"
proof -
  have c: "valid_utf8 (concat (snd g))" "ink (concat (snd g)) = concat (map ink (snd g))"
    using valid_concat [OF assms(1)] by simp_all
  have content: "Content (table_emit ct header g) = header @ newline # trim_crlf (concat (snd g))"
    by (simp add: table_emit_def split: prod.split)
  show "valid_utf8 (Content (table_emit ct header g))"
    using trim_crlf_ink(2) [OF c(1)] by (simp add: content valid_append_iff [OF assms(2)])
  have "ink (newline # trim_crlf (concat (snd g))) = ink (trim_crlf (concat (snd g)))"
    by (simp add: ink_def)
  then show "ink (Content (table_emit ct header g)) = ink header @ concat (map ink (snd g))"
    using trim_crlf_ink(1) [OF c(1)] c(2) by (simp add: content ink_append [OF assms(2)])
  have "length (trim_crlf (concat (snd g))) \<le> length (concat (snd g))"
    by (rule length_sublist) (rule sublist_trim_right_set)
  then show "length (Content (table_emit ct header g)) \<le> length header + 1 + length (concat (snd g))"
    by (simp add: content)
  show "Content (table_emit ct header g) \<noteq> []" by (simp add: content)
qed

definition table_parts :: "string \<Rightarrow> string \<Rightarrow> string \<Rightarrow> string \<Rightarrow> (nat \<times> string list) list \<Rightarrow> db_chunk list \<Rightarrow> db_chunk list \<Rightarrow> bool" where
  "table_parts ct content head header gs tailChunks cs \<longleftrightarrow>
     prefix head content \<and> header = trim_crlf head \<and> cs = map (table_emit ct header) gs @ tailChunks \<and> cs \<noteq> []
     \<and> ink content = ink header @ concat (map ink (concat (map snd gs))) @ contents_ink tailChunks
     \<and> (\<forall>g\<in>set gs. snd g \<noteq> [] \<and> ink (Content (table_emit ct header g)) = ink header @ concat (map ink (snd g))
          \<and> (length (snd g) \<le> 1 \<or> length (Content (table_emit ct header g)) \<le> chunkTargetBytes + 1))
     \<and> (\<forall>c\<in>set cs. chunk_fit c)"

lemma delimitedChunks_total:
  assumes "valid_utf8 content" "\<not> blank content"
  shows "\<exists>cs. delimitedChunks comma source content ct = Some cs
    \<and> (textChunks source content ct = Some cs \<or> (\<exists>head header gs tailChunks. table_parts ct content head header gs tailChunks cs))"
proof (cases "csv_Read comma content")
  case (CsvRow rest)
  obtain head where head: "content = head @ rest" "line_cut head rest"
    using csv_Read_split(1) [OF CsvRow] by blast
  have v: "valid_utf8 head" "valid_utf8 rest" "ink content = ink head @ ink rest"
    using line_cut_valid [of head rest] assms(1) head by simp_all
  define header where "header = trim_crlf head"
  have header: "valid_utf8 header" "ink header = ink head"
    using trim_crlf_ink [OF v(1)] by (simp_all add: header_def)
  obtain rows tail where rows: "csv_rows comma rest = (rows, tail)" by fastforce
  obtain z where z: "rest = concat rows @ (case tail of None \<Rightarrow> z | Some t \<Rightarrow> t)" "set z \<subseteq> {cr, newline}"
    "\<forall>r\<in>set rows. valid_utf8 r \<and> r \<noteq> []" "case tail of None \<Rightarrow> True | Some t \<Rightarrow> valid_utf8 t \<and> quote_char \<in> set t"
    using csv_rows_tile [OF v(2) rows] by blast
  define gs where "gs = row_groups (length header) 0 [] (length header) rows"
  have gs: "concat (map snd gs) = rows"
    "\<forall>g\<in>set gs. snd g \<noteq> [] \<and> (length (snd g) \<le> 1 \<or> length header + length (concat (snd g)) \<le> chunkTargetBytes)"
    "gs = [] \<longleftrightarrow> rows = []"
    using row_groups_props [of "length header" "length header" "[]" 0 rows] by (simp_all add: gs_def)
  have sub: "\<forall>r\<in>set (snd g). valid_utf8 r" if "g \<in> set gs" for g using that z(3) gs(1) by fastforce
  have emitted: "\<forall>g\<in>set gs. snd g \<noteq> [] \<and> ink (Content (table_emit ct header g)) = ink header @ concat (map ink (snd g))
      \<and> (length (snd g) \<le> 1 \<or> length (Content (table_emit ct header g)) \<le> chunkTargetBytes + 1)"
  proof
    fix g assume g: "g \<in> set gs"
    show "snd g \<noteq> [] \<and> ink (Content (table_emit ct header g)) = ink header @ concat (map ink (snd g))
      \<and> (length (snd g) \<le> 1 \<or> length (Content (table_emit ct header g)) \<le> chunkTargetBytes + 1)"
      using gs(2) g table_emit_props(2,3) [OF sub [OF g] header(1), of ct] by fastforce
  qed
  have fit: "chunk_fit (table_emit ct header g)" if "g \<in> set gs" for g
    using table_emit_props(1,4) [OF sub [OF that] header(1)] by (simp add: chunk_fit_def)
  have concat_ink: "valid_utf8 (concat rows)" "ink (concat rows) = concat (map ink rows)"
    using valid_concat z(3) by blast+
  have taken: "take (length content - length rest) content = head" by (simp add: head(1))
  have run: "delimitedChunks comma source content ct = (case tail of
        Some t \<Rightarrow> map_option (\<lambda>cs. map (table_emit ct header) gs @ cs) (textChunks source t ct)
      | None \<Rightarrow> if map (table_emit ct header) gs = [] then textChunks source content ct else Some (map (table_emit ct header) gs))"
    by (cases tail) (simp_all add: delimitedChunks_def CsvRow rows header_def [symmetric] gs_def [symmetric] Let_def taken)
  have parts: "table_parts ct content head header gs tcs (map (table_emit ct header) gs @ tcs)"
    if "ink rest = concat (map ink rows) @ contents_ink tcs" "\<forall>c\<in>set tcs. chunk_fit c" "gs \<noteq> [] \<or> tcs \<noteq> []" for tcs
    using that fit emitted head(1) header v(3) gs(1) by (auto simp: table_parts_def header_def)
  show ?thesis
  proof (cases tail)
    case None
    have "ink z = []" using ink_ascii_space [of z] z(2) crlf_space by blast
    then have "ink rest = concat (map ink rows) @ contents_ink []"
      using z(1) None concat_ink by (simp add: ink_append)
    then show ?thesis using parts [of "[]"] run None plain.fn_total [OF assms, of source ct] by (cases "gs = []") auto
  next
    case (Some t)
    then have t: "valid_utf8 t" "\<not> blank t" using z(4) quote_not_blank by auto
    obtain tcs where tcs: "textChunks source t ct = Some tcs" "tcs \<noteq> []" "\<forall>c\<in>set tcs. chunk_ok c" "contents_ink tcs = ink t"
      by (rule textChunks_total [OF t]) blast
    have "ink rest = concat (map ink rows) @ contents_ink tcs"
      using z(1) Some concat_ink tcs(4) by (simp add: ink_append)
    then have "table_parts ct content head header gs tcs (map (table_emit ct header) gs @ tcs)"
      using parts [of tcs] tcs(2,3) chunk_ok_fit by blast
    then show ?thesis using run Some tcs(1) by auto
  qed
qed (use plain.fn_total [OF assms, of source ct] in \<open>auto simp: delimitedChunks_def\<close>)

lemma delimited_chunker: "chunker (delimitedChunks comma)"
proof unfold_locales
  fix content source ct
  assume ok: "valid_utf8 content" "\<not> blank content"
  obtain ts where ts: "textChunks source content ct = Some ts" "ts \<noteq> []" "\<forall>c\<in>set ts. chunk_fit c"
    using plain.fn_total [OF ok] by blast
  then show "\<exists>cs. delimitedChunks comma source content ct = Some cs \<and> cs \<noteq> [] \<and> (\<forall>c\<in>set cs. chunk_fit c)"
    using delimitedChunks_total [OF ok, of comma source ct] by (auto simp: table_parts_def)
qed

interpretation csv: chunker csvChunks unfolding csvChunks_def by (rule delimited_chunker)
interpretation tsv: chunker tsvChunks unfolding tsvChunks_def by (rule delimited_chunker)

end
