(* ===== verification/Chunk_Metrics.thy ===== *)
theory Chunk_Metrics
  imports Chunk_Core Go_Json
begin

text \<open>
  Package internal/ingest/chunk, file metrics.go: the lines of a Prometheus exposition grouped
  by metric family, one chunk per family, an oversized family split by label group or by
  sample lines with the metadata repeated. \<open>sha\<close> stands for \<open>sha256.Sum256\<close>.
\<close>

section \<open>Lines\<close>

definition name_start :: re where
  "name_start = RSet (\<lambda>c. 97 \<le> byte c \<and> byte c \<le> 122 \<or> 65 \<le> byte c \<and> byte c \<le> 90 \<or> c = CHR ''_'' \<or> c = CHR '':'')"

definition name_rest :: re where
  "name_rest = RSet (\<lambda>c. 97 \<le> byte c \<and> byte c \<le> 122 \<or> 65 \<le> byte c \<and> byte c \<le> 90 \<or> digit_char c
                          \<or> c = CHR ''_'' \<or> c = CHR '':'')"

definition metric_name :: re where "metric_name = RSeq name_start (RStar name_rest)"
definition spaces1 :: re where "spaces1 = r_plus (RSet re_space)"
definition digits1 :: re where "digits1 = r_plus (RSet digit_char)"

definition comment_kind :: re where "comment_kind = r_alts [r_lit ''HELP'', r_lit ''TYPE'', r_lit ''UNIT'']"

text \<open>The groups 1 and 2 of \<open>promCommentRe\<close>, and group 1 of \<open>promSampleRe\<close>.\<close>

definition promComment_kind :: "string \<Rightarrow> string option" where
  "promComment_kind =
     re_submatch (RSeq (r_char CHR ''#'') spaces1) comment_kind
       (r_seq [spaces1, metric_name, RAlt (RSet re_space) REol])"

definition promComment_name :: "string \<Rightarrow> string option" where
  "promComment_name =
     re_submatch (r_seq [r_char CHR ''#'', spaces1, comment_kind, spaces1]) metric_name
       (RAlt (RSet re_space) REol)"

definition sign_opt :: re where "sign_opt = r_opt (RSet (\<lambda>c. c = CHR ''+'' \<or> c = CHR ''-''))"

definition sample_value :: re where
  "sample_value = RSeq sign_opt (r_alts
     [r_seq [digits1, r_opt (r_char CHR ''.''), RStar (RSet digit_char),
             r_opt (r_seq [RSet (\<lambda>c. c = CHR ''e'' \<or> c = CHR ''E''), sign_opt, digits1])],
      RSeq (r_char CHR ''.'') digits1, r_lit ''Inf'', r_lit ''NaN''])"

definition promSample_name :: "string \<Rightarrow> string option" where
  "promSample_name =
     re_submatch REps metric_name
       (r_seq [r_opt (r_seq [r_char CHR ''{'', RStar (RSet (\<lambda>c. c \<noteq> newline)), r_char CHR ''}'']),
               spaces1, sample_value, r_opt (RSeq spaces1 digits1), RStar (RSet re_space), REol])"

definition trim_right_cr :: "string \<Rightarrow> string" where
  "trim_right_cr = trim_right_set (\<lambda>c. c = CHR 0x0D)"

section \<open>Families\<close>

record metricFamily =
  fam_name :: string
  fam_meta :: "string list"
  fam_samples :: "string list"
  fam_kind :: string

text \<open>\<open>order\<close> and \<open>byName\<close>: the families in order of appearance, found by name.\<close>

definition family_named :: "metricFamily list \<Rightarrow> string \<Rightarrow> metricFamily option" where
  "family_named fams name = find (\<lambda>f. fam_name f = name) fams"

definition with_family ::
    "string \<Rightarrow> (metricFamily \<Rightarrow> metricFamily) \<Rightarrow> metricFamily list \<Rightarrow> metricFamily list" where
  "with_family name upd fams =
     map (\<lambda>f. if fam_name f = name then upd f else f)
       (if family_named fams name = None
        then fams @ [\<lparr>fam_name = name, fam_meta = [], fam_samples = [], fam_kind = []\<rparr>] else fams)"

definition folds_into :: "metricFamily list \<Rightarrow> string \<Rightarrow> string \<Rightarrow> string option" where
  "folds_into fams name sfx =
     (if \<not> has_suffix name sfx then None
      else let base = take (length name - length sfx) name in
           case family_named fams base of
             None \<Rightarrow> None
           | Some f \<Rightarrow>
               if fam_kind f = ''histogram'' \<or> fam_kind f = ''summary'' \<and> sfx \<noteq> ''_bucket'' then Some base else None)"

definition sampleFamilyName :: "string \<Rightarrow> metricFamily list \<Rightarrow> string" where
  "sampleFamilyName name fams =
     (case List.map_filter (folds_into fams name) [''_bucket'', ''_sum'', ''_count''] of
        base # _ \<Rightarrow> base
      | [] \<Rightarrow> name)"

text \<open>One line of the loop in \<open>parseExposition\<close>; the second component is \<open>unparsed\<close>.\<close>

definition add_meta :: "string \<Rightarrow> string \<Rightarrow> metricFamily \<Rightarrow> metricFamily" where
  "add_meta kind line f =
     f\<lparr>fam_meta := fam_meta f @ [line],
       fam_kind := (if kind = ''TYPE'' \<and> length (Go_Text.fields line) \<ge> 4 then Go_Text.fields line ! 3 else fam_kind f)\<rparr>"

definition add_sample :: "string \<Rightarrow> metricFamily \<Rightarrow> metricFamily" where
  "add_sample line f = f\<lparr>fam_samples := fam_samples f @ [line]\<rparr>"

definition parse_line ::
    "string \<Rightarrow> metricFamily list \<times> string list \<Rightarrow> metricFamily list \<times> string list" where
  "parse_line line s =
     (let trimmed = trim_right_cr line in
      if blank trimmed then s
      else case promComment_name trimmed of
             Some name \<Rightarrow> (with_family name (add_meta (the (promComment_kind trimmed)) trimmed) (fst s), snd s)
           | None \<Rightarrow>
               (case promSample_name trimmed of
                  Some name \<Rightarrow> (with_family (sampleFamilyName name (fst s)) (add_sample trimmed) (fst s), snd s)
                | None \<Rightarrow> (fst s, snd s @ [trimmed])))"

definition parseExposition :: "string \<Rightarrow> metricFamily list \<times> string list" where
  "parseExposition content =
     (case fold parse_line (split_byte newline content) ([], []) of
        (order, unparsed) \<Rightarrow> (filter (\<lambda>f. fam_samples f \<noteq> [] \<or> fam_meta f \<noteq> []) order, unparsed))"

section \<open>Label groups\<close>

text \<open>The value of a label up to its closing quote, and what follows.\<close>

fun label_value :: "string \<Rightarrow> string \<times> string" where
  "label_value [] = ([], [])"
| "label_value (c # s) =
     (if c = backslash \<and> s \<noteq> [] then
        (case label_value (tl s) of (v, r) \<Rightarrow> (hd s # v, r))
      else if c = quote then ([], s)
      else case label_value s of (v, r) \<Rightarrow> (c # v, r))"

lemma label_value_shorter: "length (snd (label_value s)) \<le> length s"
  by (induction s rule: label_value.induct) (auto split: prod.splits)

lemma labels_shrink:
  assumes "(v, r) = label_value (tl (drop (Suc eq) s))" "drop (Suc eq) s \<noteq> []"
  shows "length (dropWhile P r) < length s"
proof -
  have "length (dropWhile P r) \<le> length r" by (rule length_dropWhile_le)
  also have "\<dots> \<le> length (tl (drop (Suc eq) s))"
    using label_value_shorter [of "tl (drop (Suc eq) s)"] unfolding assms(1) [symmetric] by simp
  also have "\<dots> < length s" using assms(2) by simp
  finally show ?thesis .
qed

function parseLabels :: "string \<Rightarrow> (string \<times> string) list" where
  "parseLabels s =
     (case index_byte CHR ''='' s of
        None \<Rightarrow> []
      | Some eq \<Rightarrow>
          (let rest = drop (eq + 1) s in
           if rest = [] \<or> hd rest \<noteq> quote then []
           else case label_value (tl rest) of
                  (v, r) \<Rightarrow> (trim_space (take eq s), v)
                            # parseLabels (dropWhile (\<lambda>c. c = CHR '','' \<or> c = CHR '' '') r)))"
  by pat_completeness auto
termination
  by (relation "measure length") (auto intro: labels_shrink)

declare parseLabels.simps [simp del]

definition labelGroupKey :: "string \<Rightarrow> string" where
  "labelGroupKey sample =
     (case (index_byte CHR ''{'' sample, last_index_byte CHR ''}'' sample) of
        (Some op, Some cl) \<Rightarrow>
          if cl < op then []
          else join '','' (stable_sort str_less
                 (map (\<lambda>(k, v). k @ CHR ''='' # v)
                   (filter (\<lambda>(k, v). k \<noteq> ''le'' \<and> k \<noteq> ''quantile'') (parseLabels (slice (op + 1) cl sample)))))
      | _ \<Rightarrow> [])"

text \<open>The keys in order of appearance, and the samples of a key.\<close>

fun first_keys :: "string list \<Rightarrow> string list" where
  "first_keys [] = []"
| "first_keys (s # ss) = labelGroupKey s # filter (\<lambda>k. k \<noteq> labelGroupKey s) (first_keys ss)"

definition labelGroups :: "metricFamily \<Rightarrow> (string \<Rightarrow> string list) \<times> string list" where
  "labelGroups fam =
     ((\<lambda>key. filter (\<lambda>s. labelGroupKey s = key) (fam_samples fam)), first_keys (fam_samples fam))"

definition metricTitlePrefix :: string where "metricTitlePrefix = ''metric:''"

definition groupTitle :: "(string \<Rightarrow> string) \<Rightarrow> string \<Rightarrow> string \<Rightarrow> string" where
  "groupTitle sha family serialized =
     (let title = metricTitlePrefix @ family @ '' labels:'' @ serialized; r = runes title in
      if length r \<le> titleCap then title
      else let sfx = CHR ''-'' # hex_string (take 4 (sha serialized)) in
           string_of_runes (take (titleCap - length sfx) r) @ sfx)"

section \<open>Chunks\<close>

definition code_chunk :: "string \<Rightarrow> string list \<Rightarrow> db_chunk" where
  "code_chunk title lines = \<lparr>Title = title, Content = join [newline] lines, ContentType = contentTypeCode\<rparr>"

definition part_flush :: "metricFamily \<Rightarrow> string list \<Rightarrow> db_chunk list \<Rightarrow> db_chunk list" where
  "part_flush fam part chunks =
     (if part = [] then chunks
      else chunks @ [code_chunk (metricTitlePrefix @ fam_name fam @ '' part:'' @ itoa (length chunks + 1))
                       (fam_meta fam @ part)])"

fun part_loop :: "metricFamily \<Rightarrow> nat \<Rightarrow> string list \<Rightarrow> string list \<Rightarrow> nat \<Rightarrow> db_chunk list \<Rightarrow> db_chunk list" where
  "part_loop fam metaLen [] part sz chunks = part_flush fam part chunks"
| "part_loop fam metaLen (s # ss) part sz chunks =
     (if part \<noteq> [] \<and> sz + length s + 1 > chunkTargetBytes
      then part_loop fam metaLen ss [s] (metaLen + length s + 1) (part_flush fam part chunks)
      else part_loop fam metaLen ss (part @ [s]) (sz + length s + 1) chunks)"

definition familyChunks :: "(string \<Rightarrow> string) \<Rightarrow> metricFamily \<Rightarrow> db_chunk list" where
  "familyChunks sha fam =
     (let all_lines = fam_meta fam @ fam_samples fam;
          title = metricTitlePrefix @ fam_name fam in
      if length (join [newline] all_lines) \<le> chunkMaxBytes then [code_chunk title all_lines]
      else case labelGroups fam of
             (groups, keys) \<Rightarrow>
               if length keys > 1
               then map (\<lambda>key. code_chunk (groupTitle sha (fam_name fam) key) (fam_meta fam @ groups key)) keys
               else if fam_kind fam = ''histogram'' \<or> fam_kind fam = ''summary'' then [code_chunk title all_lines]
               else let metaLen = length (join [newline] (fam_meta fam))
                    in part_loop fam metaLen (fam_samples fam) [] metaLen [])"

definition metricsChunks :: "(string \<Rightarrow> string) \<Rightarrow> chunkFunc" where
  "metricsChunks sha source content contentType =
     (case parseExposition content of
        (families, unparsed) \<Rightarrow>
          if families = [] then textChunks source content contentType
          else let chunks = concat (map (familyChunks sha) families) in
               if unparsed = [] then Some chunks
               else map_option (\<lambda>pieces. chunks @ map (\<lambda>p. \<lparr>Title = metricTitlePrefix @ ''unparsed'',
                                    Content = p, ContentType = contentTypeCode\<rparr>) pieces)
                      (windowParagraph (join [newline] unparsed)))"

section \<open>Every line is kept once\<close>

definition metric_lines :: "string \<Rightarrow> string list" where
  "metric_lines content = filter (\<lambda>l. \<not> blank l) (map trim_right_cr (split_byte newline content))"

definition fam_lines :: "metricFamily \<Rightarrow> string list" where
  "fam_lines f = fam_meta f @ fam_samples f"

definition adds_line :: "string \<Rightarrow> (metricFamily \<Rightarrow> metricFamily) \<Rightarrow> bool" where
  "adds_line l upd \<longleftrightarrow> (\<forall>f. fam_name (upd f) = fam_name f \<and> mset (fam_lines (upd f)) = add_mset l (mset (fam_lines f)))"

definition all_fam_lines :: "metricFamily list \<Rightarrow> string multiset" where
  "all_fam_lines fams = mset (concat (map fam_lines fams))"

lemma adds_line_updates [intro]: "adds_line l (add_meta k l)" "adds_line l (add_sample l)"
  by (simp_all add: adds_line_def add_meta_def add_sample_def fam_lines_def)

lemma family_named_None: "family_named fams n = None \<longleftrightarrow> n \<notin> fam_name ` set fams"
  by (auto simp: family_named_def find_None_iff)

lemma update_one_family:
  assumes "adds_line l upd"
  shows "n \<notin> fam_name ` set fams \<Longrightarrow> map (\<lambda>f. if fam_name f = n then upd f else f) fams = fams"
    and "distinct (map fam_name fams) \<Longrightarrow> n \<in> fam_name ` set fams \<Longrightarrow>
      all_fam_lines (map (\<lambda>f. if fam_name f = n then upd f else f) fams) = add_mset l (all_fam_lines fams)"
    and "map fam_name (map (\<lambda>f. if fam_name f = n then upd f else f) fams) = map fam_name fams"
proof -
  show same: "map (\<lambda>f. if fam_name f = n then upd f else f) fams = fams" if "n \<notin> fam_name ` set fams" for fams
    using that by (induction fams) auto
  show "distinct (map fam_name fams) \<Longrightarrow> n \<in> fam_name ` set fams \<Longrightarrow>
      all_fam_lines (map (\<lambda>f. if fam_name f = n then upd f else f) fams) = add_mset l (all_fam_lines fams)"
  proof (induction fams)
    case (Cons f fams)
    show ?case
    proof (cases "fam_name f = n")
      case True
      then have "n \<notin> fam_name ` set fams" using Cons.prems(1) by auto
      from same [OF this] show ?thesis using True assms by (simp add: all_fam_lines_def adds_line_def)
    next
      case False
      then show ?thesis using Cons by (simp add: all_fam_lines_def)
    qed
  qed simp
  show "map fam_name (map (\<lambda>f. if fam_name f = n then upd f else f) fams) = map fam_name fams"
    using assms by (simp add: adds_line_def)
qed

lemma with_family_lines:
  assumes "adds_line l upd" "distinct (map fam_name fams)"
  shows "all_fam_lines (with_family n upd fams) = add_mset l (all_fam_lines fams)"
    "distinct (map fam_name (with_family n upd fams))"
proof -
  define ext where "ext = (if family_named fams n = None
        then fams @ [\<lparr>fam_name = n, fam_meta = [], fam_samples = [], fam_kind = []\<rparr>] else fams)"
  have w: "with_family n upd fams = map (\<lambda>f. if fam_name f = n then upd f else f) ext"
    by (simp add: with_family_def ext_def)
  have d: "distinct (map fam_name ext)" "n \<in> fam_name ` set ext" "all_fam_lines ext = all_fam_lines fams"
    using assms(2) by (auto simp: ext_def family_named_None all_fam_lines_def fam_lines_def)
  show "all_fam_lines (with_family n upd fams) = add_mset l (all_fam_lines fams)"
    unfolding w using update_one_family(2) [OF assms(1) d(1,2)] d(3) by simp
  show "distinct (map fam_name (with_family n upd fams))"
    unfolding w update_one_family(3) [OF assms(1)] by (rule d(1))
qed

text \<open>The lines that are neither metadata nor samples.\<close>

definition stray :: "string \<Rightarrow> bool" where
  "stray l \<longleftrightarrow> promComment_name l = None \<and> promSample_name l = None"

lemma parse_lines_kept:
  assumes "distinct (map fam_name (fst s))"
  shows "distinct (map fam_name (fst (fold parse_line ls s)))
    \<and> all_fam_lines (fst (fold parse_line ls s))
        = all_fam_lines (fst s) + mset (filter (\<lambda>l. \<not> blank l \<and> \<not> stray l) (map trim_right_cr ls))
    \<and> snd (fold parse_line ls s) = snd s @ filter (\<lambda>l. \<not> blank l \<and> stray l) (map trim_right_cr ls)"
  using assms
proof (induction ls arbitrary: s)
  case (Cons l ls)
  let ?t = "trim_right_cr l"
  consider (blank) "blank ?t" | (comment) name where "\<not> blank ?t" "promComment_name ?t = Some name"
    | (sample) name where "\<not> blank ?t" "promComment_name ?t = None" "promSample_name ?t = Some name"
    | (stray) "\<not> blank ?t" "promComment_name ?t = None" "promSample_name ?t = None" by fastforce
  then show ?case
  proof cases
    case blank
    then have "parse_line l s = s" by (simp add: parse_line_def)
    then show ?thesis using Cons blank by simp
  next
    case comment
    note w = with_family_lines [OF adds_line_updates(1) [of ?t "the (promComment_kind ?t)"] Cons.prems, of name]
    have "parse_line l s = (with_family name (add_meta (the (promComment_kind ?t)) ?t) (fst s), snd s)"
      using comment by (simp add: parse_line_def Let_def)
    then show ?thesis using Cons.IH [of "parse_line l s"] w comment by (simp add: stray_def)
  next
    case sample
    note w = with_family_lines [OF adds_line_updates(2) [of ?t] Cons.prems, of "sampleFamilyName name (fst s)"]
    have "parse_line l s = (with_family (sampleFamilyName name (fst s)) (add_sample ?t) (fst s), snd s)"
      using sample by (simp add: parse_line_def Let_def)
    then show ?thesis using Cons.IH [of "parse_line l s"] w sample by (simp add: stray_def)
  next
    case stray
    then have "parse_line l s = (fst s, snd s @ [?t])" by (simp add: parse_line_def Let_def)
    then show ?thesis using Cons.IH [of "parse_line l s"] Cons.prems stray by (simp add: stray_def)
  qed
qed simp

lemma all_fam_lines_filter:
  "all_fam_lines (filter (\<lambda>f. fam_samples f \<noteq> [] \<or> fam_meta f \<noteq> []) fams) = all_fam_lines fams"
  by (induction fams) (auto simp: all_fam_lines_def fam_lines_def)

lemma parseExposition_lines:
  assumes "parseExposition content = (fams, unparsed)"
  shows "all_fam_lines fams = mset (filter (\<lambda>l. \<not> stray l) (metric_lines content))"
    "unparsed = filter stray (metric_lines content)"
    "distinct (map fam_name fams)" "\<forall>f\<in>set fams. fam_lines f \<noteq> []"
proof -
  note kept = parse_lines_kept [of "([], [])" "split_byte newline content"]
  have e: "all_fam_lines [] = {#}" by (simp add: all_fam_lines_def)
  have f: "fams = filter (\<lambda>f. fam_samples f \<noteq> [] \<or> fam_meta f \<noteq> []) (fst (fold parse_line (split_byte newline content) ([], [])))"
    "unparsed = snd (fold parse_line (split_byte newline content) ([], []))"
    using assms by (auto simp: parseExposition_def split: prod.splits)
  show "all_fam_lines fams = mset (filter (\<lambda>l. \<not> stray l) (metric_lines content))"
    unfolding f(1) all_fam_lines_filter using kept e by (simp add: metric_lines_def conj_commute)
  show "unparsed = filter stray (metric_lines content)"
    unfolding f(2) using kept by (simp add: metric_lines_def conj_commute)
  show "distinct (map fam_name fams)" unfolding f(1) using kept by (simp add: distinct_map_filter)
  show "\<forall>f\<in>set fams. fam_lines f \<noteq> []" unfolding f(1) by (auto simp: fam_lines_def)
qed

section \<open>The chunks of a family\<close>

lemma first_keys_props:
  "distinct (first_keys ss)" "set (first_keys ss) = labelGroupKey ` set ss"
  by (induction ss) (auto simp: distinct_filter)

lemma mset_groups:
  "distinct ks \<Longrightarrow> \<forall>s\<in>set ss. g s \<in> set ks \<Longrightarrow> mset (concat (map (\<lambda>k. filter (\<lambda>s. g s = k) ss) ks)) = mset ss"
proof (induction ks arbitrary: ss)
  case (Cons k ks)
  have "mset (concat (map (\<lambda>k'. filter (\<lambda>s. g s = k') ss) ks))
      = mset (concat (map (\<lambda>k'. filter (\<lambda>s. g s = k') (filter (\<lambda>s. g s \<noteq> k) ss)) ks))"
  proof -
    have "filter (\<lambda>s. g s = k') ss = filter (\<lambda>s. g s = k') (filter (\<lambda>s. g s \<noteq> k) ss)" if "k' \<in> set ks" for k'
      using that Cons.prems(1) by (auto intro: filter_cong)
    then show ?thesis by (simp cong: map_cong)
  qed
  also have "\<dots> = mset (filter (\<lambda>s. g s \<noteq> k) ss)" using Cons by (intro Cons.IH) auto
  finally show ?case
    using multiset_partition [of "mset ss" "\<lambda>s. g s = k"] by simp
qed simp

lemma part_loop_groups:
  "\<exists>gs. map Content (part_loop fam m ss part sz chunks) = map Content chunks @ map (\<lambda>g. join [newline] (fam_meta fam @ g)) gs
     \<and> concat gs = part @ ss \<and> (\<forall>g\<in>set gs. g \<noteq> [])"
proof (induction fam m ss part sz chunks rule: part_loop.induct)
  case (1 fam metaLen part sz chunks)
  then show ?case
    by (intro exI [of _ "if part = [] then [] else [part]"]) (simp add: part_flush_def code_chunk_def)
next
  case (2 fam metaLen s ss part sz chunks)
  show ?case
  proof (cases "part \<noteq> [] \<and> sz + length s + 1 > chunkTargetBytes")
    case True
    obtain gs where "map Content (part_loop fam metaLen ss [s] (metaLen + length s + 1) (part_flush fam part chunks))
        = map Content (part_flush fam part chunks) @ map (\<lambda>g. join [newline] (fam_meta fam @ g)) gs"
      "concat gs = [s] @ ss" "\<forall>g\<in>set gs. g \<noteq> []" using "2.IH"(1) [OF True] by blast
    then show ?thesis using True
      by (intro exI [of _ "part # gs"]) (simp add: part_flush_def code_chunk_def)
  next
    case False
    obtain gs where "map Content (part_loop fam metaLen ss (part @ [s]) (sz + length s + 1) chunks)
        = map Content chunks @ map (\<lambda>g. join [newline] (fam_meta fam @ g)) gs"
      "concat gs = (part @ [s]) @ ss" "\<forall>g\<in>set gs. g \<noteq> []" using "2.IH"(2) [OF False] by blast
    moreover have "part_loop fam metaLen (s # ss) part sz chunks = part_loop fam metaLen ss (part @ [s]) (sz + length s + 1) chunks"
      using False by (simp only: part_loop.simps if_False)
    ultimately show ?thesis by (intro exI [of _ gs]) simp
  qed
qed

text \<open>A family without samples whose metadata exceeds the bound gets no chunk.\<close>

definition dropped :: "metricFamily \<Rightarrow> bool" where
  "dropped f \<longleftrightarrow> fam_samples f = [] \<and> length (join [newline] (fam_meta f)) > chunkMaxBytes
     \<and> fam_kind f \<noteq> ''histogram'' \<and> fam_kind f \<noteq> ''summary''"

lemma familyChunks_groups:
  obtains gs where "map Content (familyChunks sha f) = map (\<lambda>g. join [newline] (fam_meta f @ g)) gs"
    "mset (concat gs) = mset (fam_samples f)" "gs = [] \<longleftrightarrow> dropped f"
    "\<forall>g\<in>set gs. g = [] \<longrightarrow> fam_samples f = []"
proof -
  let ?whole = "length (join [newline] (fam_meta f @ fam_samples f)) \<le> chunkMaxBytes"
  let ?hist = "fam_kind f = ''histogram'' \<or> fam_kind f = ''summary''"
  let ?keys = "first_keys (fam_samples f)"
  note keys = first_keys_props [of "fam_samples f"]
  consider (one) "?whole \<or> \<not> length ?keys > 1 \<and> ?hist"
    | (groups) "\<not> ?whole" "length ?keys > 1" | (parts) "\<not> ?whole" "\<not> length ?keys > 1" "\<not> ?hist" by blast
  then show thesis
  proof cases
    case one
    then have "familyChunks sha f = [code_chunk (metricTitlePrefix @ fam_name f) (fam_meta f @ fam_samples f)]"
      by (auto simp: familyChunks_def labelGroups_def Let_def)
    moreover have "\<not> dropped f" using one by (cases "fam_samples f = []") (auto simp: dropped_def)
    ultimately show thesis using that [of "[fam_samples f]"] by (simp add: code_chunk_def)
  next
    case groups
    let ?gs = "map (\<lambda>k. filter (\<lambda>s. labelGroupKey s = k) (fam_samples f)) ?keys"
    have "map Content (familyChunks sha f) = map (\<lambda>g. join [newline] (fam_meta f @ g)) ?gs"
      using groups by (simp add: familyChunks_def labelGroups_def Let_def code_chunk_def comp_def)
    moreover have "mset (concat ?gs) = mset (fam_samples f)" by (intro mset_groups) (simp_all add: keys)
    moreover have "?gs \<noteq> []" "fam_samples f \<noteq> []" using groups(2) by auto
    moreover have "\<forall>g\<in>set ?gs. g \<noteq> []" using keys(2) by (auto simp: filter_empty_conv)
    ultimately show thesis using that [of ?gs] by (auto simp: dropped_def)
  next
    case parts
    have "familyChunks sha f = part_loop f (length (join [newline] (fam_meta f))) (fam_samples f) []
        (length (join [newline] (fam_meta f))) []"
      using parts by (simp add: familyChunks_def labelGroups_def Let_def)
    then obtain gs where gs: "map Content (familyChunks sha f) = map (\<lambda>g. join [newline] (fam_meta f @ g)) gs"
      "concat gs = fam_samples f" "\<forall>g\<in>set gs. g \<noteq> []"
      using part_loop_groups [of f "length (join [newline] (fam_meta f))" "fam_samples f" "[]"
          "length (join [newline] (fam_meta f))" "[]"] by auto
    have "gs = [] \<longleftrightarrow> dropped f"
    proof (cases gs)
      case Nil
      then show ?thesis using gs(2) parts by (auto simp: dropped_def)
    next
      case (Cons g gs')
      then have "fam_samples f \<noteq> []" using gs(2,3) by auto
      then show ?thesis using Cons by (simp add: dropped_def)
    qed
    then show thesis using that [of gs] gs by auto
  qed
qed

lemma familyChunks_fit:
  assumes "fam_lines f \<noteq> []" "\<forall>l\<in>set (fam_lines f). valid_utf8 l \<and> l \<noteq> []" "c \<in> set (familyChunks sha f)"
  shows "chunk_fit c" "\<exists>ls. Content c = join [newline] ls \<and> set (fam_meta f) \<subseteq> set ls \<and> set ls \<subseteq> set (fam_lines f)"
proof -
  obtain gs where gs: "map Content (familyChunks sha f) = map (\<lambda>g. join [newline] (fam_meta f @ g)) gs"
    "mset (concat gs) = mset (fam_samples f)" "\<forall>g\<in>set gs. g = [] \<longrightarrow> fam_samples f = []"
    by (rule familyChunks_groups)
  have "Content c \<in> set (map (\<lambda>g. join [newline] (fam_meta f @ g)) gs)" using assms(3) gs(1) by (metis image_eqI list.set_map)
  then obtain g where g: "g \<in> set gs" "Content c = join [newline] (fam_meta f @ g)" by auto
  have sub: "set g \<subseteq> set (fam_samples f)" using g(1) mset_eq_setD [OF gs(2)] by auto
  have ls: "fam_meta f @ g \<noteq> []" "\<forall>l\<in>set (fam_meta f @ g). valid_utf8 l \<and> l \<noteq> []"
    using assms(1,2) sub gs(3) g(1) by (auto simp: fam_lines_def)
  have "join [newline] ls \<noteq> []" if "ls \<noteq> []" "\<forall>l\<in>set ls. l \<noteq> []" for ls
    using that by (cases ls rule: list.exhaust; cases "tl ls") auto
  then show "chunk_fit c" using g(2) ls valid_join(1) [of "fam_meta f @ g"] by (auto simp: chunk_fit_def)
  show "\<exists>ls. Content c = join [newline] ls \<and> set (fam_meta f) \<subseteq> set ls \<and> set ls \<subseteq> set (fam_lines f)"
    using g(2) sub by (intro exI [of _ "fam_meta f @ g"]) (auto simp: fam_lines_def)
qed

section \<open>The chunks of an exposition\<close>

lemma metric_lines_ok:
  assumes "valid_utf8 content" "l \<in> set (metric_lines content)"
  shows "valid_utf8 l" "l \<noteq> []" "\<not> blank l"
proof -
  obtain m where m: "m \<in> set (split_byte newline content)" "l = trim_right_cr m" "\<not> blank l"
    using assms(2) by (auto simp: metric_lines_def)
  obtain t where "m = l @ t" "\<forall>c\<in>set t. c = CHR 0x0D"
    using trim_right_set_split [of m "\<lambda>c. c = CHR 0x0D"] m(2) by (auto simp: trim_right_cr_def)
  then show "valid_utf8 l" using valid_cut [of l t] split_lines_valid [OF assms(1)] m(1) by (cases t) auto
  show "l \<noteq> []" "\<not> blank l" using m(3) by auto
qed

lemma family_lines_ok:
  assumes "valid_utf8 content" "parseExposition content = (fams, unparsed)" "f \<in> set fams" "l \<in> set (fam_lines f)"
  shows "valid_utf8 l \<and> l \<noteq> []"
proof -
  have "l \<in># all_fam_lines fams" using assms(3,4) by (auto simp: all_fam_lines_def)
  then have "l \<in> set (metric_lines content)" unfolding parseExposition_lines(1) [OF assms(2)] by simp
  then show ?thesis using metric_lines_ok [OF assms(1)] by blast
qed

lemma metricsChunks_run:
  assumes "valid_utf8 content" "parseExposition content = (fams, unparsed)" "fams \<noteq> []"
  obtains ps where "metricsChunks sha source content ct = Some (concat (map (familyChunks sha) fams)
      @ map (\<lambda>p. \<lparr>Title = metricTitlePrefix @ ''unparsed'', Content = p, ContentType = contentTypeCode\<rparr>) ps)"
    "\<forall>p\<in>set ps. valid_utf8 p \<and> p \<noteq> [] \<and> length p \<le> chunkMaxBytes" "concat (map ink ps) = concat (map ink unparsed)"
proof (cases "unparsed = []")
  case True
  then show ?thesis using that [of "[]"] assms(2,3) by (simp add: metricsChunks_def Let_def)
next
  case False
  have v: "\<forall>l\<in>set unparsed. valid_utf8 l" using metric_lines_ok [OF assms(1)] parseExposition_lines(2) [OF assms(2)] by auto
  obtain u us where u: "unparsed = u # us" using False by (cases unparsed) auto
  have "u \<in> set (metric_lines content)" using u parseExposition_lines(2) [OF assms(2)] by (metis filter_is_subset list.set_intros(1) subsetD)
  then have "\<not> blank u" using metric_lines_ok [OF assms(1)] by blast
  then have "ink u \<noteq> []" using ink_blank v u by auto
  then have nb: "\<not> blank (join [newline] unparsed)"
    using blank_ink valid_join [OF v] u by fastforce
  obtain ps where ps: "windowParagraph (join [newline] unparsed) = Some ps" "windows_ok (join [newline] unparsed) ps"
    "\<forall>x\<in>set ps. \<not> blank x" using windowParagraph_total [OF valid_join(1) [OF v]] nb by metis
  have "\<forall>p\<in>set ps. valid_utf8 p \<and> p \<noteq> [] \<and> length p \<le> chunkMaxBytes" "concat (map ink ps) = concat (map ink unparsed)"
    using ps(2,3) valid_join(2) [OF v] by (auto simp: windows_ok_def)
  then show ?thesis using that [of ps] assms(2,3) False ps(1) by (simp add: metricsChunks_def Let_def)
qed

lemma metricsChunks_returns:
  assumes "valid_utf8 content" "\<not> blank content"
  shows "\<exists>cs. metricsChunks sha source content ct = Some cs \<and> (\<forall>c\<in>set cs. chunk_fit c)
    \<and> (cs = [] \<longleftrightarrow> fst (parseExposition content) \<noteq> [] \<and> snd (parseExposition content) = []
                  \<and> (\<forall>f\<in>set (fst (parseExposition content)). dropped f))"
proof -
  obtain fams unparsed where p: "parseExposition content = (fams, unparsed)" by fastforce
  show ?thesis
  proof (cases "fams = []")
    case True
    then show ?thesis using p plain.fn_total [OF assms, of source ct] by (auto simp: metricsChunks_def)
  next
    case False
    obtain ps where ps: "metricsChunks sha source content ct = Some (concat (map (familyChunks sha) fams)
      @ map (\<lambda>p. \<lparr>Title = metricTitlePrefix @ ''unparsed'', Content = p, ContentType = contentTypeCode\<rparr>) ps)"
      "\<forall>p\<in>set ps. valid_utf8 p \<and> p \<noteq> [] \<and> length p \<le> chunkMaxBytes" "concat (map ink ps) = concat (map ink unparsed)"
      by (rule metricsChunks_run [OF assms(1) p False])
    have fit: "chunk_fit c" if "f \<in> set fams" "c \<in> set (familyChunks sha f)" for f c
      using familyChunks_fit(1) [OF _ _ that(2)] parseExposition_lines(4) [OF p] family_lines_ok [OF assms(1) p that(1)] that(1)
      by blast
    have empty: "familyChunks sha f = [] \<longleftrightarrow> dropped f" for f
      by (rule familyChunks_groups [of sha f]) (metis map_is_Nil_conv)
    have "ps = [] \<longleftrightarrow> unparsed = []"
    proof (cases unparsed)
      case (Cons u us)
      have "\<not> blank u" "valid_utf8 u"
        using metric_lines_ok [OF assms(1), of u] parseExposition_lines(2) [OF p] Cons
        by (metis filter_is_subset list.set_intros(1) subsetD)+
      then have "concat (map ink unparsed) \<noteq> []" using ink_blank Cons by auto
      then show ?thesis using ps(3) Cons by auto
    next
      case Nil
      then have "\<forall>p\<in>set ps. ink p = []" using ps(3) by simp
      then show ?thesis using ps Nil False p by (cases ps) (auto simp: metricsChunks_def Let_def)
    qed
    note unp = this
    let ?cs = "concat (map (familyChunks sha) fams)
      @ map (\<lambda>p. \<lparr>Title = metricTitlePrefix @ ''unparsed'', Content = p, ContentType = contentTypeCode\<rparr>) ps"
    have "\<forall>c\<in>set ?cs. chunk_fit c" using fit ps(2) by (auto simp: chunk_fit_def)
    moreover have "?cs = [] \<longleftrightarrow> unparsed = [] \<and> (\<forall>f\<in>set fams. dropped f)" using unp empty by auto
    ultimately show ?thesis unfolding p fst_conv snd_conv using ps(1) False by blast
  qed
qed

lemma metric_line_kept:
  assumes "valid_utf8 content" "metricsChunks sha source content ct = Some cs"
    "parseExposition content = (fams, unparsed)" "f \<in> set fams" "\<not> dropped f" "l \<in> set (fam_lines f)"
  shows "\<exists>c\<in>set cs. \<exists>ls. Content c = join [newline] ls \<and> l \<in> set ls \<and> set (fam_meta f) \<subseteq> set ls"
proof -
  have fams: "fams \<noteq> []" using assms(4) by auto
  obtain gs where gs: "map Content (familyChunks sha f) = map (\<lambda>g. join [newline] (fam_meta f @ g)) gs"
    "mset (concat gs) = mset (fam_samples f)" "gs = [] \<longleftrightarrow> dropped f" by (rule familyChunks_groups)
  obtain g where g: "g \<in> set gs" "l \<in> set (fam_meta f @ g)"
  proof (cases "l \<in> set (fam_meta f)")
    case True
    then show ?thesis using that [of "hd gs"] gs(3) assms(5) by (cases gs) auto
  next
    case False
    then have "l \<in> set (fam_samples f)" using assms(6) by (auto simp: fam_lines_def)
    then have "l \<in> set (concat gs)" using mset_eq_setD [OF gs(2)] by blast
    then show ?thesis using that by auto
  qed
  have "join [newline] (fam_meta f @ g) \<in> Content ` set (familyChunks sha f)"
    using g(1) gs(1) by (metis (no_types, lifting) image_eqI list.set_map)
  then obtain c where c: "c \<in> set (familyChunks sha f)" "Content c = join [newline] (fam_meta f @ g)" by auto
  obtain ps where "metricsChunks sha source content ct = Some (concat (map (familyChunks sha) fams)
      @ map (\<lambda>p. \<lparr>Title = metricTitlePrefix @ ''unparsed'', Content = p, ContentType = contentTypeCode\<rparr>) ps)"
    by (rule metricsChunks_run [OF assms(1,3) fams])
  then have "c \<in> set cs" using assms(2,4) c(1) by auto
  then show ?thesis using c(2) g(2) by (intro bexI [of _ c] exI [of _ "fam_meta f @ g"]) auto
qed

lemma split_byte_single: "c \<notin> set s \<Longrightarrow> split_byte c s = [s]"
  by (induction s) auto

lemma metadata_only_dropped:
  assumes "newline \<notin> set l" "trim_right_cr l = l" "\<not> blank l" "length l > chunkMaxBytes"
    "promComment_name l = Some n" "promComment_kind l = Some k" "k \<noteq> ''TYPE''"
  shows "metricsChunks sha source l ct = Some []"
proof -
  define f where "f = \<lparr>fam_name = n, fam_meta = [l], fam_samples = [], fam_kind = []\<rparr>"
  have "parse_line l ([], []) = ([f], [])"
    using assms(2,3,5-7) by (simp add: parse_line_def Let_def with_family_def family_named_def add_meta_def f_def)
  then have p: "parseExposition l = ([f], [])"
    using split_byte_single [OF assms(1)] by (simp add: parseExposition_def f_def)
  have "familyChunks sha f = []"
    using assms(4) by (simp add: familyChunks_def f_def labelGroups_def Let_def part_flush_def)
  then show ?thesis by (simp add: metricsChunks_def p)
qed

end
