(* ===== verification/Chunk_Json.thy ===== *)
theory Chunk_Json
  imports Chunk_Core Go_JsonScan
begin

text \<open>
  Package internal/ingest/chunk, file json.go: the records of a JSONL text or a top-level array,
  packed towards the target size, and one chunk per member of a top-level object. \<open>num_text\<close>
  stands for the shortest decimal text of the float a number token denotes (None when it is out
  of range), \<open>lower\<close> for \<open>strings.ToLower\<close>.
\<close>

section \<open>Titles of records\<close>

record titleKey =
  match_key :: string
  suffix_key :: string
  shortOnly :: bool

definition matches :: "(string \<Rightarrow> string) \<Rightarrow> titleKey \<Rightarrow> string \<Rightarrow> bool" where
  "matches lower t key =
     (if suffix_key t \<noteq> [] then has_suffix (lower key) (suffix_key t) else equal_fold key (match_key t))"

definition short_key :: "string \<Rightarrow> titleKey" where
  "short_key m = \<lparr>match_key = m, suffix_key = [], shortOnly = True\<rparr>"

definition long_key :: "string \<Rightarrow> titleKey" where
  "long_key m = \<lparr>match_key = m, suffix_key = [], shortOnly = False\<rparr>"

definition titlePriority :: "titleKey list" where
  "titlePriority =
     map short_key [''name'', ''title'', ''message'', ''msg'', ''event'', ''summary'']
     @ [long_key ''id'', \<lparr>match_key = [], suffix_key = ''_id'', shortOnly = False\<rparr>]
     @ map long_key [''uuid'', ''key'', ''slug'', ''case'', ''role'', ''level'', ''status'', ''type'']"

definition titleExclude :: "string list" where
  "titleExclude =
     [''task'', ''dataset'', ''benchmark'', ''split'', ''model'', ''subject'', ''service'', ''logger'',
      ''namespace'', ''version'', ''env'', ''timestamp'', ''ts'', ''time'', ''created_at'', ''updated_at'']"

text \<open>The scalar members of an object in document order. Reading a number that is out of range,
  at any depth, fails the whole walk.\<close>

definition scalar_text :: "(string \<Rightarrow> string option) \<Rightarrow> jtok list \<Rightarrow> string option" where
  "scalar_text num_text v =
     (case v of
        JStr s # _ \<Rightarrow> Some (json_unquote s)
      | JNum n # _ \<Rightarrow> num_text n
      | JLit l # _ \<Rightarrow> Some l
      | _ \<Rightarrow> None)"

fun num_readable :: "(string \<Rightarrow> string option) \<Rightarrow> jtok \<Rightarrow> bool" where
  "num_readable num_text (JNum n) = (num_text n \<noteq> None)"
| "num_readable num_text _ = True"

fun scalar_pairs :: "(string \<Rightarrow> string option) \<Rightarrow> (string \<times> jtok list) list \<Rightarrow> (string \<times> string) list" where
  "scalar_pairs num_text [] = []"
| "scalar_pairs num_text ((k, v) # ms) =
     (case scalar_text num_text v of
        None \<Rightarrow> scalar_pairs num_text ms
      | Some x \<Rightarrow> (json_unquote k, x) # scalar_pairs num_text ms)"

definition scalarMembers :: "(string \<Rightarrow> string option) \<Rightarrow> string \<Rightarrow> (string \<times> string) list" where
  "scalarMembers num_text record =
     (case json_inner CHR ''{'' record of
        None \<Rightarrow> []
      | Some inner \<Rightarrow>
          (let ms = map json_member (json_parts inner) in
           if None \<in> set ms \<or> \<not> list_all (num_readable num_text) inner then []
           else scalar_pairs num_text (map the ms)))"

definition candidate :: "string \<times> string \<Rightarrow> string" where
  "candidate m = fst m @ CHR ''='' # snd m"

definition overlong :: "string \<Rightarrow> bool" where
  "overlong s \<longleftrightarrow> length (runes s) > titleCap"

fun priority_title :: "(string \<Rightarrow> string) \<Rightarrow> titleKey list \<Rightarrow> (string \<times> string) list \<Rightarrow> string option" where
  "priority_title lower [] ms = None"
| "priority_title lower (p # ps) ms =
     (case find (\<lambda>m. matches lower p (fst m) \<and> \<not> (shortOnly p \<and> overlong (candidate m))) ms of
        Some m \<Rightarrow> Some (candidate m)
      | None \<Rightarrow> priority_title lower ps ms)"

definition recordTitle :: "(string \<Rightarrow> string option) \<Rightarrow> (string \<Rightarrow> string) \<Rightarrow> string \<Rightarrow> nat \<Rightarrow> string" where
  "recordTitle num_text lower record n =
     (let fallback = numberedTitle ''record'' n;
          ms = scalarMembers num_text record in
      if ms = [] then fallback
      else case priority_title lower titlePriority ms of
             Some cand \<Rightarrow> capTitle cand fallback
           | None \<Rightarrow>
               (case find (\<lambda>m. lower (fst m) \<notin> set titleExclude \<and> \<not> overlong (candidate m)) ms of
                  Some m \<Rightarrow> candidate m
                | None \<Rightarrow> fallback))"

section \<open>Chunks of records\<close>

text \<open>The closure \<open>flush\<close> over \<open>packed\<close> and \<open>firstIdx\<close>; the loop over the records.\<close>

definition record_flush ::
    "(string \<Rightarrow> nat \<Rightarrow> string) \<Rightarrow> string \<Rightarrow> nat \<Rightarrow> nat \<Rightarrow> string list \<Rightarrow> db_chunk list \<Rightarrow> db_chunk list" where
  "record_flush title contentType lastIdx firstIdx packed chunks =
     (if packed = [] then chunks
      else chunks @ [\<lparr>Title = (if length packed = 1 then title (hd packed) (firstIdx + 1)
                               else ''records '' @ itoa (firstIdx + 1) @ CHR ''-'' # itoa lastIdx),
                      Content = join [newline] packed, ContentType = contentType\<rparr>])"

fun record_loop ::
    "(string \<Rightarrow> nat \<Rightarrow> string) \<Rightarrow> string \<Rightarrow> nat \<Rightarrow> string list \<Rightarrow> nat \<Rightarrow> string list \<Rightarrow> nat \<Rightarrow> db_chunk list
     \<Rightarrow> db_chunk list" where
  "record_loop title ct i [] firstIdx packed sz chunks = record_flush title ct i firstIdx packed chunks"
| "record_loop title ct i (rec # recs) firstIdx packed sz chunks =
     (if packed \<noteq> [] \<and> sz + length rec + 1 > chunkTargetBytes then
        record_loop title ct (Suc i) recs i [rec] (length rec + 1) (record_flush title ct i firstIdx packed chunks)
      else
        record_loop title ct (Suc i) recs (if packed = [] then i else firstIdx) (packed @ [rec])
          (sz + length rec + 1) chunks)"

definition recordChunks ::
    "(string \<Rightarrow> string option) \<Rightarrow> (string \<Rightarrow> string) \<Rightarrow> string list \<Rightarrow> string \<Rightarrow> db_chunk list" where
  "recordChunks num_text lower records contentType =
     record_loop (recordTitle num_text lower) contentType 0 records 0 [] 0 []"

definition trim_suffix_cr :: "string \<Rightarrow> string" where
  "trim_suffix_cr line = (if line \<noteq> [] \<and> last line = CHR 0x0D then butlast line else line)"

definition jsonlRecords :: "string \<Rightarrow> string list option" where
  "jsonlRecords content =
     (let records = filter (\<lambda>l. l \<noteq> []) (map (\<lambda>l. trim_space (trim_suffix_cr l)) (split_byte newline content)) in
      if list_all (\<lambda>l. hd l \<in> {CHR ''{'', CHR ''[''} \<and> json_Valid l) records \<and> length records \<ge> 2
      then Some records else None)"

definition topLevelArrayElements :: "string \<Rightarrow> string list option" where
  "topLevelArrayElements data =
     (case json_inner CHR ''['' data of
        None \<Rightarrow> None
      | Some inner \<Rightarrow>
          (let records = map raw_text (json_parts inner) in if records = [] then None else Some records))"

definition member_chunk :: "string \<Rightarrow> nat \<Rightarrow> string \<times> jtok list \<Rightarrow> db_chunk" where
  "member_chunk contentType n m =
     (let key = json_unquote (fst m) in
      \<lparr>Title = capTitle key (numberedTitle ''member'' n),
       Content = json_string key @ '': '' @ raw_text (snd m), ContentType = contentType\<rparr>)"

fun member_chunks :: "string \<Rightarrow> nat \<Rightarrow> (string \<times> jtok list) list \<Rightarrow> db_chunk list" where
  "member_chunks contentType n [] = []"
| "member_chunks contentType n (m # ms) = member_chunk contentType (Suc n) m # member_chunks contentType (Suc n) ms"

definition objectMemberChunks :: "string \<Rightarrow> string \<Rightarrow> db_chunk list option" where
  "objectMemberChunks data contentType =
     (case json_inner CHR ''{'' data of
        None \<Rightarrow> None
      | Some inner \<Rightarrow>
          (let ms = map json_member (json_parts inner) in
           if ms = [] \<or> None \<in> set ms then None else Some (member_chunks contentType 0 (map the ms))))"

definition jsonChunks :: "(string \<Rightarrow> string option) \<Rightarrow> (string \<Rightarrow> string) \<Rightarrow> chunkFunc" where
  "jsonChunks num_text lower source content contentType =
     (case jsonlRecords content of
        Some records \<Rightarrow> Some (recordChunks num_text lower records contentType)
      | None \<Rightarrow>
          (let trimmed = trim_space content;
               arr = (if trimmed \<noteq> [] \<and> json_Valid trimmed \<and> hd trimmed = CHR ''['' then topLevelArrayElements trimmed else None);
               obj = (if trimmed \<noteq> [] \<and> json_Valid trimmed \<and> hd trimmed = CHR ''{'' then objectMemberChunks trimmed contentType else None)
           in case arr of
                Some records \<Rightarrow> Some (recordChunks num_text lower records contentType)
              | None \<Rightarrow> (case obj of Some chunks \<Rightarrow> Some chunks | None \<Rightarrow> textChunks source content contentType)))"

section \<open>Packing\<close>

text \<open>The chunks of a partition of the records, their titles by position.\<close>

fun titled_groups :: "(string \<Rightarrow> nat \<Rightarrow> string) \<Rightarrow> string \<Rightarrow> nat \<Rightarrow> string list list \<Rightarrow> db_chunk list" where
  "titled_groups title ct i [] = []"
| "titled_groups title ct i (g # gs) =
     \<lparr>Title = (if length g = 1 then title (hd g) (i + 1)
               else ''records '' @ itoa (i + 1) @ CHR ''-'' # itoa (i + length g)),
      Content = join [newline] g, ContentType = ct\<rparr> # titled_groups title ct (i + length g) gs"

definition group_fits :: "string list \<Rightarrow> bool" where
  "group_fits g \<longleftrightarrow> g \<noteq> [] \<and> (length g = 1 \<or> length (join [newline] g) < chunkTargetBytes)"

lemma titled_groups_append:
  "titled_groups title ct i (gs @ hs) = titled_groups title ct i gs @ titled_groups title ct (i + length (concat gs)) hs"
  by (induction gs arbitrary: i) (simp_all add: add.assoc)

lemma join_length: "ps \<noteq> [] \<Longrightarrow> length (join [newline] ps) + 1 = sum_list (map (\<lambda>p. length p + 1) ps)"
  by (induction "[newline]" ps rule: join.induct) simp_all

lemma record_loop_groups:
  assumes "sz = sum_list (map (\<lambda>p. length p + 1) packed)" "packed \<noteq> [] \<longrightarrow> group_fits packed"
    "packed \<noteq> [] \<longrightarrow> i = firstIdx + length packed"
  shows "\<exists>gs. record_loop title ct i recs firstIdx packed sz chunks
      = chunks @ titled_groups title ct (if packed = [] then i else firstIdx) gs
    \<and> concat gs = packed @ recs \<and> (\<forall>g\<in>set gs. group_fits g)"
  using assms
proof (induction title ct i recs firstIdx packed sz chunks rule: record_loop.induct)
  case (1 title ct i firstIdx packed sz chunks)
  then show ?case by (intro exI [of _ "if packed = [] then [] else [packed]"]) (simp add: record_flush_def)
next
  case (2 title ct i rec recs firstIdx packed sz chunks)
  show ?case
  proof (cases "packed \<noteq> [] \<and> sz + length rec + 1 > chunkTargetBytes")
    case True
    obtain gs where gs: "record_loop title ct (Suc i) recs i [rec] (length rec + 1) (record_flush title ct i firstIdx packed chunks)
        = record_flush title ct i firstIdx packed chunks @ titled_groups title ct i gs"
      "concat gs = rec # recs" "\<forall>g\<in>set gs. group_fits g"
      using "2.IH"(1) [OF True] by (auto simp: group_fits_def)
    then show ?thesis using True "2.prems"
      by (intro exI [of _ "packed # gs"]) (simp add: record_flush_def)
  next
    case False
    have fits: "group_fits (packed @ [rec])"
      using False "2.prems"(1) join_length [of "packed @ [rec]"] by (auto simp: group_fits_def)
    have step: "record_loop title ct i (rec # recs) firstIdx packed sz chunks
      = record_loop title ct (Suc i) recs (if packed = [] then i else firstIdx) (packed @ [rec]) (sz + length rec + 1) chunks"
      using False by (simp only: record_loop.simps if_False)
    have "\<exists>gs. record_loop title ct (Suc i) recs (if packed = [] then i else firstIdx) (packed @ [rec]) (sz + length rec + 1) chunks
        = chunks @ titled_groups title ct (if packed = [] then i else firstIdx) gs
      \<and> concat gs = (packed @ [rec]) @ recs \<and> (\<forall>g\<in>set gs. group_fits g)"
      using "2.IH"(2) [OF False] "2.prems"(1,3) fits by simp
    then show ?thesis unfolding step by simp
  qed
qed

lemma recordChunks_groups:
  obtains gs where "recordChunks num_text lower records ct = titled_groups (recordTitle num_text lower) ct 0 gs"
    "concat gs = records" "\<forall>g\<in>set gs. group_fits g"
  using record_loop_groups [of 0 "[]" 0 0 "recordTitle num_text lower" ct records "[]"]
  by (auto simp: recordChunks_def)

lemma titled_groups_contents: "map Content (titled_groups title ct i gs) = map (join [newline]) gs"
  by (induction gs arbitrary: i) simp_all

lemma recordChunks_fit:
  assumes "\<forall>r\<in>set records. valid_utf8 r \<and> r \<noteq> []" "records \<noteq> []"
  shows "recordChunks num_text lower records ct \<noteq> []
    \<and> (\<forall>c\<in>set (recordChunks num_text lower records ct). chunk_fit c)
    \<and> contents_ink (recordChunks num_text lower records ct) = concat (map ink records)"
proof -
  obtain gs where gs: "recordChunks num_text lower records ct = titled_groups (recordTitle num_text lower) ct 0 gs"
    "concat gs = records" "\<forall>g\<in>set gs. group_fits g" by (rule recordChunks_groups)
  have g: "valid_utf8 (join [newline] g) \<and> join [newline] g \<noteq> [] \<and> ink (join [newline] g) = concat (map ink g)"
    if "g \<in> set gs" for g
  proof -
    have r: "\<forall>r\<in>set g. valid_utf8 r \<and> r \<noteq> []" "g \<noteq> []"
      using that assms(1) gs(2,3) by (auto simp: group_fits_def)
    then have "join [newline] g \<noteq> []" by (cases g rule: list.exhaust; cases "tl g") auto
    then show ?thesis using valid_join [of g] r by auto
  qed
  have "gs \<noteq> []" using assms(2) gs(2) by auto
  then have ne: "titled_groups (recordTitle num_text lower) ct 0 gs \<noteq> []" by (cases gs) auto
  note mc = titled_groups_contents [of "recordTitle num_text lower" ct 0 gs]
  have fit: "\<forall>c\<in>set (titled_groups (recordTitle num_text lower) ct 0 gs). chunk_fit c"
    using map_Content_all [OF mc, of "\<lambda>x. valid_utf8 x \<and> x \<noteq> []"] g by (simp add: chunk_fit_def)
  have "contents_ink (titled_groups (recordTitle num_text lower) ct 0 gs) = concat (map (\<lambda>g. concat (map ink g)) gs)"
    using map_Content_ink [OF mc] g by (simp add: comp_def cong: map_cong)
  also have "\<dots> = concat (map ink records)" unfolding gs(2) [symmetric] by (induction gs) auto
  finally show ?thesis using gs(1) ne fit by simp
qed

section \<open>Validity of the pieces\<close>

lemma valid_take_rune:
  assumes "starts_valid s" "s \<noteq> []"
  shows "valid_utf8 (take (rune_width s) s)"
proof (rule starts_valid_shape [OF assms])
  fix a w t
  assume s: "s = a # w @ t" "rune_width s = Suc (length w)" "\<And>t'. decode_rune (a # w @ t') = decode_rune s"
  have "decode_rune (a # w) = decode_rune s" using s(3) [of "[]"] by simp
  then have "starts_valid (a # w)" "rune_width (a # w) = Suc (length w)"
    using assms(1) s(2) by (simp_all add: starts_valid_def rune_width_def)
  then show "valid_utf8 (take (rune_width s) s)" using s(1,2) by (simp add: valid_utf8_step)
qed

lemma hex_digit_ascii: "n < 16 \<Longrightarrow> byte (hex_digit n) < 128"
  by (simp add: hex_digit_def)

lemma json_rune_valid:
  assumes "s \<noteq> []"
  shows "valid_utf8 (json_rune (fst (decode_rune s)) (take (rune_width s) s))"
proof (cases "starts_valid s")
  case True
  have r: "fst (decode_rune s) < 128 \<Longrightarrow> byte (chr (fst (decode_rune s))) < 128" by simp
  show ?thesis
    using valid_take_rune [OF True assms] r
    by (auto simp: json_rune_def backslash_def hex_digit_ascii intro!: ascii_valid)
next
  case False
  then have "fst (decode_rune s) = rune_error" "rune_width s = 1"
    by (auto simp: starts_valid_def rune_width_def)
  moreover have "length (take 1 s) = 1" using assms by (cases s) auto
  ultimately show ?thesis by (simp add: json_rune_def rune_error_def backslash_def)
qed

lemma json_string_valid: "valid_utf8 (json_string k)"
proof -
  have "valid_utf8 (json_escape k)"
  proof (induction k rule: json_escape.induct)
    case (2 a s)
    then show ?case using json_rune_valid [of "a # s"] by (simp add: json_escape.simps(2) valid_append_iff)
  qed simp
  then show ?thesis by (simp add: json_string_def quote_def valid_append_iff)
qed

lemma trim_suffix_cr_ink:
  assumes "valid_utf8 s"
  shows "valid_utf8 (trim_suffix_cr s)" "ink (trim_suffix_cr s) = ink s"
proof -
  have "valid_utf8 (trim_suffix_cr s) \<and> ink (trim_suffix_cr s) = ink s"
  proof (cases "s \<noteq> [] \<and> last s = CHR 0x0D")
    case True
    then have s: "s = butlast s @ [CHR 0x0D]" by (metis append_butlast_last_id)
    then have v: "valid_utf8 (butlast s)" using valid_cut [of "butlast s" "[CHR 0x0D]"] assms by simp
    have "ink [CHR 0x0D] = []" by (simp add: ink_def ascii_runes is_space_def)
    then show ?thesis using True s v ink_append [OF v, of "[CHR 0x0D]"] by (simp add: trim_suffix_cr_def)
  qed (use assms in \<open>auto simp: trim_suffix_cr_def\<close>)
  then show "valid_utf8 (trim_suffix_cr s)" "ink (trim_suffix_cr s) = ink s" by blast+
qed

lemma concat_filter_ink:
  "concat (map ink (filter (\<lambda>l. l \<noteq> []) ls)) = concat (map ink ls)"
  by (induction ls) auto

lemma jsonlRecords_props:
  assumes "valid_utf8 content" "jsonlRecords content = Some records"
  shows "\<forall>r\<in>set records. valid_utf8 r \<and> r \<noteq> []" "records \<noteq> []" "concat (map ink records) = ink content"
proof -
  let ?clean = "\<lambda>l. trim_space (trim_suffix_cr l)"
  have r: "records = filter (\<lambda>l. l \<noteq> []) (map ?clean (split_byte newline content))" "2 \<le> length records"
    using assms(2) by (auto simp: jsonlRecords_def Let_def split: if_splits)
  have l: "valid_utf8 (?clean l) \<and> ink (?clean l) = ink l" if "l \<in> set (split_byte newline content)" for l
    using that split_lines_valid [OF assms(1)] trim_suffix_cr_ink [of l] trim_space_ink [of "trim_suffix_cr l"] by simp
  show "\<forall>r\<in>set records. valid_utf8 r \<and> r \<noteq> []" using r(1) l by auto
  show "records \<noteq> []" using r(2) by auto
  show "concat (map ink records) = ink content"
    unfolding r(1) concat_filter_ink split_lines_ink [OF assms(1), symmetric]
    using l by (simp add: comp_def cong: map_cong)
qed

lemma json_parts_subset:
  assumes "ps \<in> set (json_parts inner)"
  shows "set ps \<subseteq> set inner"
proof -
  have "ps \<in> set (map strip_space (json_split 0 [] inner))"
    using assms by (simp add: json_parts_def Let_def split: if_splits)
  then show ?thesis using strip_space_set json_split_set [of _ 0 "[]" inner] by fastforce
qed

lemma inner_part_valid:
  assumes "valid_utf8 s" "json_inner b s = Some inner" "ps \<in> set (json_parts inner)"
  shows "valid_utf8 (raw_text ps)"
  using json_inner_lex [OF assms(2)] json_lex_valid [OF _ assms(1)] json_parts_subset [OF assms(3)]
  by (intro raw_text_valid) blast

lemma json_member_set:
  assumes "json_member ts = Some (k, v)"
  shows "set v \<subseteq> set ts"
proof -
  obtain rest w where r: "ts = JStr k # rest" "dropWhile is_jspace rest = JPunct CHR '':'' # w" "v = strip_space w"
    using assms by (auto simp: json_member_def split: list.splits jtok.splits if_splits)
  have "set w \<subseteq> set rest" using set_dropWhileD [of _ is_jspace rest] r(2) by auto
  then show ?thesis using r strip_space_set [of w] by auto
qed

lemma array_elements_props:
  assumes "valid_utf8 s" "json_Valid s" "topLevelArrayElements s = Some records"
  shows "\<forall>r\<in>set records. valid_utf8 r \<and> r \<noteq> []" "records \<noteq> []"
proof -
  obtain inner where i: "json_inner CHR ''['' s = Some inner" "records = map raw_text (json_parts inner)" "records \<noteq> []"
    using assms(3) by (auto simp: topLevelArrayElements_def Let_def split: option.splits if_splits)
  have "raw_text ps \<noteq> []" if "ps \<in> set (json_parts inner)" for ps
  proof -
    have "\<forall>t\<in>set ps. jraw t \<noteq> []"
      using json_inner_lex [OF i(1)] json_lex_valid [OF _ assms(1)] json_parts_subset [OF that] by blast
    then show ?thesis using raw_text_Nil json_parts_of_array(1) [OF assms(2) i(1)] that by metis
  qed
  then show "\<forall>r\<in>set records. valid_utf8 r \<and> r \<noteq> []" using inner_part_valid [OF assms(1) i(1)] i(2) by auto
  show "records \<noteq> []" by (rule i(3))
qed

lemma member_chunks_set: "c \<in> set (member_chunks ct n ms) \<Longrightarrow> \<exists>i. \<exists>m\<in>set ms. c = member_chunk ct i m"
  by (induction ct n ms rule: member_chunks.induct) auto

lemma object_members_props:
  assumes "valid_utf8 s" "objectMemberChunks s ct = Some cs"
  shows "cs \<noteq> []" "\<forall>c\<in>set cs. chunk_fit c"
proof -
  obtain inner ms where i: "json_inner CHR ''{'' s = Some inner" "ms = map json_member (json_parts inner)" "ms \<noteq> []"
      "None \<notin> set ms" "cs = member_chunks ct 0 (map the ms)"
    using assms(2) by (auto simp: objectMemberChunks_def Let_def split: option.splits if_splits)
  show "cs \<noteq> []" using i(3,5) by (cases ms) auto
  have "valid_utf8 (raw_text (snd (the m)))" if m: "m \<in> set ms" for m
  proof -
    have "m \<in> json_member ` set (json_parts inner)" using m i(2) by (metis set_map)
    then obtain ps where ps: "ps \<in> set (json_parts inner)" "json_member ps = m" by blast
    moreover have "m \<noteq> None" using m i(4) by metis
    then obtain k v where "m = Some (k, v)" by auto
    ultimately have "set (snd (the m)) \<subseteq> set inner" using json_member_set json_parts_subset by fastforce
    then show ?thesis using json_inner_lex [OF i(1)] json_lex_valid [OF _ assms(1)] by (intro raw_text_valid) blast
  qed
  then have "chunk_fit (member_chunk ct i (the m))" if "m \<in> set ms" for i m
    using that json_string_valid [of "json_unquote (fst (the m))"]
    by (simp add: chunk_fit_def member_chunk_def Let_def valid_append_iff)
  then show "\<forall>c\<in>set cs. chunk_fit c"
    using member_chunks_set [of _ ct 0 "map the ms"] unfolding i(5) by fastforce
qed

section \<open>The contract of Split\<close>

interpretation json: chunker "jsonChunks num_text lower" for num_text and lower
proof unfold_locales
  fix content source ct :: string
  assume a: "valid_utf8 content" "\<not> blank content"
  have v: "valid_utf8 (trim_space content)" using trim_space_ink(2) [OF a(1)] .
  obtain tcs where tcs: "textChunks source content ct = Some tcs" "tcs \<noteq> []" "\<forall>c\<in>set tcs. chunk_fit c"
    using plain.fn_total [OF a] by blast
  show "\<exists>cs. jsonChunks num_text lower source content ct = Some cs \<and> cs \<noteq> [] \<and> (\<forall>c\<in>set cs. chunk_fit c)"
  proof (cases "jsonlRecords content")
    case (Some records)
    then show ?thesis using recordChunks_fit [OF jsonlRecords_props(1,2) [OF a(1) Some]] by (auto simp: jsonChunks_def)
  next
    case None
    define t where "t = trim_space content"
    define arr where "arr = (if t \<noteq> [] \<and> json_Valid t \<and> hd t = CHR ''['' then topLevelArrayElements t else None)"
    define obj where "obj = (if t \<noteq> [] \<and> json_Valid t \<and> hd t = CHR ''{'' then objectMemberChunks t ct else None)"
    have run: "jsonChunks num_text lower source content ct = (case arr of
        Some records \<Rightarrow> Some (recordChunks num_text lower records ct)
      | None \<Rightarrow> (case obj of Some chunks \<Rightarrow> Some chunks | None \<Rightarrow> textChunks source content ct))"
      unfolding jsonChunks_def None option.case Let_def arr_def obj_def t_def ..
    show ?thesis
    proof (cases arr)
      case (Some records)
      then have "json_Valid t" "topLevelArrayElements t = Some records" by (auto simp: arr_def split: if_splits)
      then show ?thesis using Some run recordChunks_fit [OF array_elements_props [of t records]] v by (auto simp: t_def)
    next
      case no_arr: None
      show ?thesis
      proof (cases obj)
        case (Some cs)
        then have "objectMemberChunks t ct = Some cs" by (auto simp: obj_def split: if_splits)
        then show ?thesis using no_arr Some run object_members_props [of t ct cs] v by (auto simp: t_def)
      qed (use no_arr run tcs in simp)
    qed
  qed
qed

end
