(* ===== verification/Chunk_Detect.thy ===== *)
theory Chunk_Detect
  imports Chunk_Json
begin

text \<open>
  Package internal/ingest/chunk, file detect.go: the format of content that carries no hint.
\<close>

section \<open>Markdown\<close>

definition fence_marker :: re where "fence_marker = RAlt (r_lit ''```'') (r_lit ''~~~'')"

definition fenceMarkerRe :: re where "fenceMarkerRe = r_seq [RBol, RStar (RSet re_space), fence_marker]"

definition mdListItemRe :: re where
  "mdListItemRe =
     r_seq [RBol, RStar (RSet re_space),
            RAlt (RSet (\<lambda>c. c = CHR ''-'' \<or> c = CHR ''*'' \<or> c = CHR ''+''))
                 (RSeq (r_plus (RSet digit_char)) (r_char CHR ''.'')),
            r_plus (RSet re_space), RSet (\<lambda>c. \<not> re_space c)]"

definition expositionCommentRe :: re where
  "expositionCommentRe =
     r_seq [RBol, r_char CHR ''#'', r_plus (RSet re_space),
            r_alts [r_lit ''HELP'', r_lit ''TYPE'', r_lit ''UNIT'', r_lit ''EOF''], RWord]"

text \<open>The group of \<open>mdHeadingRe\<close>.\<close>

definition headingText :: "string \<Rightarrow> string option" where
  "headingText =
     re_submatch
       (r_seq [RStar (RSet re_space), r_char CHR ''#'', r_upto 5 (r_char CHR ''#''), r_plus (RSet re_space)])
       (RSeq (RSet (\<lambda>c. c \<noteq> newline)) (RLazy (RSet (\<lambda>c. c \<noteq> newline))))
       (RSeq (RStar (RSet re_space)) REol)"

definition minListLines :: nat where "minListLines = 2"

fun md_scan :: "string list \<Rightarrow> bool \<Rightarrow> nat \<Rightarrow> nat \<Rightarrow> bool" where
  "md_scan [] inFence fenceCount listLines \<longleftrightarrow> fenceCount > 0 \<or> listLines \<ge> minListLines"
| "md_scan (line # ls) inFence fenceCount listLines \<longleftrightarrow>
     (if re_matches fenceMarkerRe line
      then md_scan ls (\<not> inFence) (if inFence then fenceCount + 1 else fenceCount) listLines
      else if inFence then md_scan ls inFence fenceCount listLines
      else if headingText line \<noteq> None \<and> \<not> re_matches expositionCommentRe line then True
      else md_scan ls inFence fenceCount (if re_matches mdListItemRe line then listLines + 1 else listLines))"

definition looksMarkdownDoc :: "string \<Rightarrow> bool" where
  "looksMarkdownDoc content = md_scan (split_byte newline content) False 0 0"

section \<open>JSON\<close>

definition json_opening :: "string \<Rightarrow> bool" where
  "json_opening s \<longleftrightarrow> s \<noteq> [] \<and> hd s \<in> {CHR ''{'', CHR ''[''}"

definition looksJSONL :: "string \<Rightarrow> bool" where
  "looksJSONL content \<longleftrightarrow>
     (let ls = filter (\<lambda>l. l \<noteq> []) (map trim_space (split_byte newline content)) in
      list_all (\<lambda>l. json_opening l \<and> json_Valid l) ls \<and> length ls \<ge> 2)"

definition looksJSON :: "string \<Rightarrow> bool" where
  "looksJSON content \<longleftrightarrow>
     (let trimmed = trim_space content in
      trimmed \<noteq> [] \<and>
      (json_opening trimmed \<and> json_Valid trimmed \<and> trim_space (butlast (tl trimmed)) \<noteq> [] \<or> looksJSONL content))"

section \<open>The format\<close>

definition formatJSON :: string where "formatJSON = ''json''"
definition formatMarkdown :: string where "formatMarkdown = ''markdown''"

definition detectFormat :: "string \<Rightarrow> string" where
  "detectFormat content =
     (if looksJSON content then formatJSON else if looksMarkdownDoc content then formatMarkdown else formatText)"

section \<open>Detected JSON is chunked as JSON\<close>

lemma trim_left_append:
  "valid_utf8 u \<Longrightarrow> trim_left (u @ v) = (if trim_left u = [] then trim_left v else trim_left u @ v)"
proof (induction u rule: trim_left.induct)
  case (2 a s)
  have st: "starts_valid (a # s)" "valid_utf8 (drop (rune_width (a # s)) (a # s))"
    using "2.prems" valid_utf8_step [of "a # s"] by simp_all
  have d: "decode_rune (a # s @ v) = decode_rune (a # s)" using decode_append [OF st(1), of v] by simp
  have w: "rune_width (a # s @ v) = rune_width (a # s)" by (simp add: rune_width_def d)
  have dr: "drop (rune_width (a # s)) (a # s @ v) = drop (rune_width (a # s)) (a # s) @ v"
    using rune_width_le [of "a # s"] by (metis append_Cons drop_append diff_is_0_eq drop_0)
  show ?case
  proof (cases "is_space (fst (decode_rune (a # s)))")
    case True
    then show ?thesis using "2.IH" [OF True st(2)] by (simp add: trim_left.simps(2) d w dr)
  qed (simp add: trim_left.simps(2) d)
qed simp

lemma trim_right_space: "byte c < 128 \<Longrightarrow> is_space (byte c) \<Longrightarrow> trim_right (x @ [c]) = trim_right x"
  by (subst trim_right.simps) (simp add: decode_last_rune_def)

lemma trim_suffix_cr_space: "valid_utf8 s \<Longrightarrow> trim_space (trim_suffix_cr s) = trim_space s"
proof (cases "s \<noteq> [] \<and> last s = CHR 0x0D")
  case True
  assume v: "valid_utf8 s"
  have s: "s = butlast s @ [CHR 0x0D]" using True by (metis append_butlast_last_id)
  have "valid_utf8 (butlast s)" using valid_cut [of "butlast s" "[CHR 0x0D]"] v s by simp
  from trim_left_append [OF this, of "[CHR 0x0D]"]
  have "trim_left s = (if trim_left (butlast s) = [] then [] else trim_left (butlast s) @ [CHR 0x0D])"
    using s by (simp add: trim_left.simps(2) is_space_def rune_width_def)
  then have "trim_space s = trim_right (trim_left (butlast s))"
    using trim_right_space [of "CHR 0x0D"] by (simp add: trim_space_def is_space_def)
  then show ?thesis using True by (simp add: trim_suffix_cr_def trim_space_def)
qed (auto simp: trim_suffix_cr_def)

lemma trim_right_last:
  "trim_right s \<noteq> [] \<Longrightarrow> byte (last (trim_right s)) < 128 \<Longrightarrow> \<not> is_space (byte (last (trim_right s)))"
proof (induction s rule: trim_right.induct)
  case (1 s)
  show ?case
  proof (cases "s \<noteq> [] \<and> is_space (fst (decode_last_rune s))")
    case True
    then have "trim_right s = trim_right (take (length s - snd (decode_last_rune s)) s)" by (subst trim_right.simps) simp
    then show ?thesis using 1 True by simp
  next
    case False
    then have "trim_right s = s" by (subst trim_right.simps) auto
    then show ?thesis using "1.prems" False by (auto simp: decode_last_rune_def)
  qed
qed

lemma looksJSONL_records:
  assumes "valid_utf8 content"
  shows "looksJSONL content \<longleftrightarrow> jsonlRecords content \<noteq> None"
proof -
  have e: "map (\<lambda>l. trim_space (trim_suffix_cr l)) (split_byte newline content) = map trim_space (split_byte newline content)"
    using split_lines_valid [OF assms] trim_suffix_cr_space by simp
  show ?thesis unfolding looksJSONL_def jsonlRecords_def e Let_def
    by (simp add: json_opening_def list_all_iff)
qed

lemma json_lex_spaces:
  "json_lex s = Some ts \<Longrightarrow> t \<in> set ts \<Longrightarrow> is_jspace t \<Longrightarrow> \<exists>c. jraw t = [c] \<and> byte c < 128 \<and> is_space (byte c)"
proof (induction s arbitrary: ts rule: json_lex.induct)
  case (1 s)
  show ?case
  proof (cases "s = []")
    case True
    then show ?thesis using "1.prems" by (simp add: json_lex.simps)
  next
    case False
    then obtain u r us where u: "json_tok s = Some (u, r)" "json_lex r = Some us" "ts = u # us"
      using "1.prems"(1) by (auto simp: json_lex.simps [of s] split: option.splits)
    show ?thesis
    proof (cases "t = u")
      case True
      obtain c w where s: "s = c # w" using False by (cases s) auto
      have "c \<in> space_chars \<and> u = JSpace [c]"
        using u(1) "1.prems"(3) True by (auto simp: s json_tok_def split: if_splits)
      then show ?thesis using True by (auto simp: space_chars_def is_space_def)
    next
      case False
      then show ?thesis using "1.IH" [OF _ u(1) refl u(2)] \<open>s \<noteq> []\<close> u(3) "1.prems"(2,3) by auto
    qed
  qed
qed

text \<open>A trimmed container with no part holds white space only.\<close>

lemma empty_container_blank:
  assumes "valid_utf8 content" "t = trim_space content" "json_Valid t" "json_inner b t = Some inner" "hd t = b"
    "b = CHR ''{'' \<or> b = CHR ''[''" "json_parts inner = []"
  shows "trim_space (butlast (tl t)) = []"
proof -
  obtain ps where ps: "json_split 0 [] inner = [ps]" "list_all is_jspace ps"
    using json_parts_of_array(2) [OF assms(3)] json_parts_of_object(2) [OF assms(3)] assms(4,6,7) by auto
  obtain c rest where inner: "inner = ps @ c # rest" "length (jraw c) = 1" "list_all is_jspace rest"
    using json_split_blank [OF ps json_inner_run [OF assms(3,4,6)]] by (cases "b = CHR ''{''") auto
  obtain ts where ts: "json_lex t = Some ts" "set inner \<subseteq> set ts" "dropWhile is_jspace ts = JPunct b # inner"
    using json_inner_lex [OF assms(4)] by blast
  have raw: "raw_text ts = t" using json_lex_raw [OF ts(1)] by blast
  note sp = json_lex_spaces [OF ts(1)]
  have "ts = JPunct b # inner"
  proof (cases ts)
    case (Cons u us)
    have "\<not> is_jspace u"
    proof
      assume "is_jspace u"
      then obtain x where "jraw u = [x]" "is_space (byte x)" using sp Cons by auto
      then have "is_space (byte (hd t))" using raw Cons by (auto simp: raw_text_def)
      then show False using assms(5,6) by (auto simp: is_space_def)
    qed
    then show ?thesis using ts(3) Cons by simp
  qed (use ts(3) in simp)
  then have t: "t = b # raw_text ps @ jraw c @ raw_text rest" using raw inner(1) by (simp add: raw_text_def)
  have "rest = []"
  proof (rule ccontr)
    assume ne: "rest \<noteq> []"
    then have "last rest \<in> set ts" "is_jspace (last rest)" using inner ts(2) by (auto simp: list_all_iff)
    then obtain x where x: "jraw (last rest) = [x]" "byte x < 128" "is_space (byte x)" using sp by blast
    then have "raw_text rest = raw_text (butlast rest) @ [x]"
      using ne by (metis append_butlast_last_id concat.simps concat_append list.simps(8,9) map_append raw_text_def append_Nil2)
    then have "last t = x" "t \<noteq> []" using t by simp_all
    then show False using trim_right_last [of "trim_left content"] x(2,3) assms(2) by (simp add: trim_space_def)
  qed
  then have b: "butlast (tl t) = raw_text ps" using t inner(2) by (cases "jraw c") (auto simp: raw_text_def)
  have "\<forall>x\<in>set (raw_text ps). byte x < 128 \<and> is_space (byte x)"
    using sp ps(2) inner(1) ts(2) by (fastforce simp: raw_text_def list_all_iff)
  then show ?thesis unfolding b using ink_ascii_space ink_blank by (metis blank_def)
qed

lemma json_inner_opening:
  assumes "json_Valid t" "t \<noteq> []" "hd t \<in> {CHR ''{'', CHR ''[''}"
  shows "\<exists>inner. json_inner (hd t) t = Some inner"
proof -
  obtain c w where t: "t = c # w" using assms(2) by (cases t) auto
  obtain ts where ts: "json_lex t = Some ts" using assms(1) by (auto simp: json_Valid_def split: option.splits)
  have "c \<notin> space_chars" "c \<in> punct_chars" using assms(3) t by (auto simp: space_chars_def punct_chars_def)
  then have "json_tok t = Some (JPunct c, w)" by (simp add: json_tok_def t)
  then obtain us where "ts = JPunct c # us" using ts t by (auto simp: json_lex.simps [of "c # w"] split: option.splits)
  then show ?thesis using ts t by (simp add: json_inner_def)
qed

lemma detected_json_chunked:
  assumes "valid_utf8 content" "detectFormat content = formatJSON"
  obtains (records) records where
      "jsonChunks num_text lower source content ct = Some (recordChunks num_text lower records ct)" "records \<noteq> []"
    | (members) cs where "jsonChunks num_text lower source content ct = Some cs"
      "objectMemberChunks (trim_space content) ct = Some cs"
proof -
  define t where "t = trim_space content"
  have looks: "looksJSON content"
    using assms(2) by (auto simp: detectFormat_def formatJSON_def formatMarkdown_def formatText_def split: if_splits)
  show thesis
  proof (cases "jsonlRecords content")
    case (Some records)
    then show thesis using that(1) [of records] jsonlRecords_props(2) [OF assms(1) Some] by (simp add: jsonChunks_def)
  next
    case None
    then have w: "t \<noteq> []" "hd t \<in> {CHR ''{'', CHR ''[''}" "json_Valid t" "trim_space (butlast (tl t)) \<noteq> []"
      using looks looksJSONL_records [OF assms(1)] by (auto simp: looksJSON_def json_opening_def t_def Let_def)
    obtain inner where inner: "json_inner (hd t) t = Some inner" using json_inner_opening [OF w(3,1,2)] by blast
    have parts: "json_parts inner \<noteq> []"
      using empty_container_blank [OF assms(1) t_def w(3) inner refl _] w(2,4) by auto
    have run: "jsonChunks num_text lower source content ct =
       (case (if hd t = CHR ''['' then topLevelArrayElements t else None) of
          Some records \<Rightarrow> Some (recordChunks num_text lower records ct)
        | None \<Rightarrow> (case (if hd t = CHR ''{'' then objectMemberChunks t ct else None) of
                     Some chunks \<Rightarrow> Some chunks | None \<Rightarrow> textChunks source content ct))"
      unfolding jsonChunks_def None option.case Let_def t_def [symmetric] using w(1,3) by simp
    show thesis
    proof (cases "hd t = CHR ''[''")
      case True
      then have "topLevelArrayElements t = Some (map raw_text (json_parts inner))"
        using inner parts by (simp add: topLevelArrayElements_def)
      then show thesis using that(1) [of "map raw_text (json_parts inner)"] run True parts by simp
    next
      case False
      then have h: "hd t = CHR ''{''" using w(2) by simp
      then have "None \<notin> set (map json_member (json_parts inner))"
        using json_parts_of_object(1) [OF w(3)] inner by simp
      then have "objectMemberChunks t ct = Some (member_chunks ct 0 (map the (map json_member (json_parts inner))))"
        using inner parts h by (auto simp: objectMemberChunks_def Let_def)
      then show thesis using that(2) run h by (simp add: t_def)
    qed
  qed
qed

end
