(* ===== verification/Chunk_Markdown.thy ===== *)
theory Chunk_Markdown
  imports Chunk_Detect
begin

text \<open>
  Package internal/ingest/chunk, file markdown.go. The parser of the library goldmark is the
  parameter \<open>parse\<close>: it gives the top-level blocks of a document in order, each with the
  byte ranges of its lines. The chunker cuts the document at lines of these blocks.
\<close>

section \<open>Blocks\<close>

type_synonym segment = "nat \<times> nat"

datatype md_block =
    Heading nat "segment list"
  | FencedCodeBlock "segment list" "nat option"
  | CodeBlock "segment list"
  | OtherBlock

text \<open>\<open>lineStartAt\<close> and \<open>lineEndAfter\<close>.\<close>

fun line_start :: "string \<Rightarrow> nat \<Rightarrow> nat" where
  "line_start s 0 = 0"
| "line_start s (Suc p) = (if s ! p \<noteq> newline then line_start s p else Suc p)"

definition lineStartAt :: "string \<Rightarrow> nat \<Rightarrow> nat" where
  "lineStartAt s pos = line_start s (min pos (length s))"

definition lineEndAfter :: "string \<Rightarrow> nat \<Rightarrow> nat" where
  "lineEndAfter s pos =
     (let p = pos + length (takeWhile (\<lambda>c. c \<noteq> newline) (drop pos s)) in if p < length s then p + 1 else p)"

definition fencedSpan :: "string \<Rightarrow> segment list \<Rightarrow> nat option \<Rightarrow> (nat \<times> nat) option" where
  "fencedSpan src ls info =
     (let innerStart = (if ls \<noteq> [] then Some (lineStartAt src (fst (hd ls)))
                        else map_option (lineEndAfter src) info) in
      case innerStart of
        None \<Rightarrow> None
      | Some i \<Rightarrow>
          if i = 0 then None
          else
            (let e = (if ls \<noteq> [] then snd (last ls) else i);
                 closeEnd = lineEndAfter src e in
             Some (lineStartAt src (i - 1),
                   if e < length src \<and> re_matches fenceMarkerRe (slice e closeEnd src) then closeEnd else e)))"

definition headingTitle :: "string \<Rightarrow> segment list \<Rightarrow> string" where
  "headingTitle content ls =
     (let raw = trim_space (slice (fst (hd ls)) (snd (hd ls)) content) in
      case headingText raw of Some h \<Rightarrow> h | None \<Rightarrow> raw)"

section \<open>Chunks\<close>

record md_state =
  md_chunks :: "db_chunk list"
  md_cursor :: nat
  md_stack :: "(nat \<times> string) list"

definition md_title :: "string \<Rightarrow> md_state \<Rightarrow> string" where
  "md_title source st =
     (if md_stack st = [] then capTitle source ''section 1''
      else capTitle (join '' > '' (map snd (md_stack st))) source)"

definition emitProse :: "string \<Rightarrow> string \<Rightarrow> string \<Rightarrow> nat \<Rightarrow> md_state \<Rightarrow> md_state" where
  "emitProse source content contentType e st =
     (if e \<le> md_cursor st then st
      else let body = trim_right_nl (slice (md_cursor st) e content) in
           if blank body then st
           else st\<lparr>md_chunks := md_chunks st @
                     [\<lparr>Title = md_title source st, Content = body, ContentType = contentType\<rparr>]\<rparr>)"

text \<open>Prose up to \<open>s\<close>, then the bytes from \<open>s\<close> to \<open>e\<close> as code.\<close>

definition emitCode :: "string \<Rightarrow> string \<Rightarrow> string \<Rightarrow> nat \<Rightarrow> nat \<Rightarrow> md_state \<Rightarrow> md_state" where
  "emitCode source content contentType s e st =
     (let st1 = emitProse source content contentType s st in
      st1\<lparr>md_chunks := md_chunks st1 @
            [\<lparr>Title = md_title source st1, Content = trim_right_nl (slice s e content), ContentType = contentTypeCode\<rparr>],
          md_cursor := e\<rparr>)"

definition push_heading :: "nat \<Rightarrow> string \<Rightarrow> (nat \<times> string) list \<Rightarrow> (nat \<times> string) list" where
  "push_heading level txt stack = rev (dropWhile (\<lambda>c. fst c \<ge> level) (rev stack)) @ [(level, txt)]"

fun md_step :: "string \<Rightarrow> string \<Rightarrow> string \<Rightarrow> md_block \<Rightarrow> md_state \<Rightarrow> md_state" where
  "md_step source content contentType (Heading level ls) st =
     (if ls = [] then st
      else let start = lineStartAt content (fst (hd ls));
               st1 = emitProse source content contentType start st
           in st1\<lparr>md_cursor := start, md_stack := push_heading level (headingTitle content ls) (md_stack st1)\<rparr>)"
| "md_step source content contentType (FencedCodeBlock ls info) st =
     (case fencedSpan content ls info of
        None \<Rightarrow> st
      | Some (s, e) \<Rightarrow> emitCode source content contentType s e st)"
| "md_step source content contentType (CodeBlock ls) st =
     (if ls = [] then st
      else emitCode source content contentType (lineStartAt content (fst (hd ls)))
             (lineEndAfter content (snd (last ls) - 1)) st)"
| "md_step source content contentType OtherBlock st = st"

definition markdownChunks :: "(string \<Rightarrow> md_block list) \<Rightarrow> chunkFunc" where
  "markdownChunks parse source content contentType =
     (let st = fold (md_step source content contentType) (parse content) \<lparr>md_chunks = [], md_cursor = 0, md_stack = []\<rparr>;
          st = emitProse source content contentType (length content) st
      in Some (if md_chunks st = []
               then [\<lparr>Title = capTitle source ''section 1'', Content = content, ContentType = contentType\<rparr>]
               else md_chunks st))"

section \<open>Exactly once\<close>

text \<open>The bytes a block claims: from the line of a heading on, the lines of a code block.\<close>

fun md_span :: "string \<Rightarrow> md_block \<Rightarrow> (nat \<times> nat) option" where
  "md_span content (Heading level ls) =
     (if ls = [] then None else Some (lineStartAt content (fst (hd ls)), lineStartAt content (fst (hd ls))))"
| "md_span content (FencedCodeBlock ls info) = fencedSpan content ls info"
| "md_span content (CodeBlock ls) =
     (if ls = [] then None
      else Some (lineStartAt content (fst (hd ls)), lineEndAfter content (snd (last ls) - 1)))"
| "md_span content OtherBlock = None"

definition at_line :: "string \<Rightarrow> nat \<Rightarrow> bool" where
  "at_line s p \<longleftrightarrow> p \<le> length s \<and> (p = 0 \<or> p = length s \<or> s ! (p - 1) = newline)"

text \<open>What is documented of the parser: blocks come in document order and do not overlap, and
  the lines of a code block end with their newline and are not all empty.\<close>

fun in_order :: "string \<Rightarrow> nat \<Rightarrow> md_block list \<Rightarrow> bool" where
  "in_order content cursor [] \<longleftrightarrow> True"
| "in_order content cursor (b # bs) \<longleftrightarrow>
     (case md_span content b of
        None \<Rightarrow> in_order content cursor bs
      | Some (s, e) \<Rightarrow> cursor \<le> s \<and> s \<le> e \<and> at_line content e \<and> in_order content e bs)"

fun code_inked :: "string \<Rightarrow> md_block \<Rightarrow> bool" where
  "code_inked content (Heading level ls) \<longleftrightarrow> True"
| "code_inked content b \<longleftrightarrow> (case md_span content b of None \<Rightarrow> True | Some (s, e) \<Rightarrow> trim_right_nl (slice s e content) \<noteq> [])"

definition parse_ok :: "(string \<Rightarrow> md_block list) \<Rightarrow> string \<Rightarrow> bool" where
  "parse_ok parse content \<longleftrightarrow> in_order content 0 (parse content) \<and> list_all (code_inked content) (parse content)"

lemma line_start_props: "line_start s p \<le> p \<and> (line_start s p = 0 \<or> s ! (line_start s p - 1) = newline)"
  by (induction p) auto

lemma lineStartAt_at_line: "at_line s (lineStartAt s p)"
  using line_start_props [of s "min p (length s)"] unfolding at_line_def lineStartAt_def by linarith

lemma at_line_length [simp]: "at_line s (length s)"
  by (simp add: at_line_def)

lemma at_line_cut: "at_line s p \<Longrightarrow> line_cut (take p s) (drop p s)"
  by (cases p) (auto simp: at_line_def line_cut_def take_Suc_conv_app_nth)

lemma span_ink:
  assumes "valid_utf8 s" "at_line s a" "at_line s b" "a \<le> b"
  shows "valid_utf8 (slice a b s)" "ink (take b s) = ink (take a s) @ ink (slice a b s)"
proof -
  have v: "valid_utf8 (take a s)" "valid_utf8 (take b s)"
    using line_cut_valid(1) [OF _ at_line_cut] assms(1-3) by (metis append_take_drop_id)+
  show "valid_utf8 (slice a b s)" by (rule slice_valid [OF assms(4) v])
  show "ink (take b s) = ink (take a s) @ ink (slice a b s)"
    using take_slice [OF assms(4), of s] ink_append [OF v(1), of "slice a b s"] by simp
qed

definition md_inv :: "string \<Rightarrow> md_state \<Rightarrow> bool" where
  "md_inv content st \<longleftrightarrow> at_line content (md_cursor st) \<and> contents_ink (md_chunks st) = ink (take (md_cursor st) content)
     \<and> (\<forall>c\<in>set (md_chunks st). chunk_fit c)"

lemma emitProse_props:
  assumes "valid_utf8 content" "md_inv content st" "at_line content e" "md_cursor st \<le> e"
  shows "md_cursor (emitProse source content ct e st) = md_cursor st"
    "contents_ink (md_chunks (emitProse source content ct e st)) = ink (take e content)"
    "\<forall>c\<in>set (md_chunks (emitProse source content ct e st)). chunk_fit c"
proof -
  note span = span_ink [OF assms(1) _ assms(3,4)]
  have at: "at_line content (md_cursor st)" using assms(2) by (simp add: md_inv_def)
  note body = trim_right_nl_ink [OF span(1) [OF at]]
  let ?body = "trim_right_nl (slice (md_cursor st) e content)"
  have "md_cursor (emitProse source content ct e st) = md_cursor st
    \<and> contents_ink (md_chunks (emitProse source content ct e st)) = ink (take e content)
    \<and> (\<forall>c\<in>set (md_chunks (emitProse source content ct e st)). chunk_fit c)"
  proof (cases "md_cursor st = e")
    case True
    then show ?thesis using assms(2) by (simp add: emitProse_def md_inv_def)
  next
    case False
    show ?thesis
    proof (cases "blank ?body")
      case True
      then show ?thesis using False assms(2,4) span(2) [OF at] body blank_ink [OF body(2)]
        by (simp add: emitProse_def md_inv_def Let_def)
    next
      case nb: False
      then have "?body \<noteq> []" by auto
      then show ?thesis using nb False assms(2,4) span(2) [OF at] body
        by (simp add: emitProse_def md_inv_def Let_def chunk_fit_def)
    qed
  qed
  then show "md_cursor (emitProse source content ct e st) = md_cursor st"
    "contents_ink (md_chunks (emitProse source content ct e st)) = ink (take e content)"
    "\<forall>c\<in>set (md_chunks (emitProse source content ct e st)). chunk_fit c" by blast+
qed

lemma emitCode_inv:
  assumes "valid_utf8 content" "md_inv content st" "at_line content s" "at_line content e" "md_cursor st \<le> s" "s \<le> e"
    "trim_right_nl (slice s e content) \<noteq> []"
  shows "md_inv content (emitCode source content ct s e st)" "md_cursor (emitCode source content ct s e st) = e"
proof -
  note pr = emitProse_props [OF assms(1-3,5), of source ct]
  note span = span_ink [OF assms(1,3,4,6)]
  show "md_inv content (emitCode source content ct s e st)"
    using pr span(2) trim_right_nl_ink [OF span(1)] assms(4,7)
    by (simp add: emitCode_def Let_def md_inv_def chunk_fit_def)
  show "md_cursor (emitCode source content ct s e st) = e" by (simp add: emitCode_def Let_def)
qed

lemma md_span_start: "md_span content b = Some (s, e) \<Longrightarrow> at_line content s"
  by (cases b) (auto simp: fencedSpan_def Let_def lineStartAt_at_line split: if_splits option.splits)

lemma md_step_inv:
  assumes "valid_utf8 content" "md_inv content st" "code_inked content b"
  shows "md_span content b = None \<Longrightarrow> md_step source content ct b st = st"
    and "md_span content b = Some (s, e) \<Longrightarrow> md_cursor st \<le> s \<Longrightarrow> s \<le> e \<Longrightarrow> at_line content e \<Longrightarrow>
      md_inv content (md_step source content ct b st) \<and> md_cursor (md_step source content ct b st) = e"
proof -
  show "md_span content b = None \<Longrightarrow> md_step source content ct b st = st"
    by (cases b) (auto split: if_splits)
  assume span: "md_span content b = Some (s, e)" "md_cursor st \<le> s" "s \<le> e" "at_line content e"
  note at = md_span_start [OF span(1)]
  show "md_inv content (md_step source content ct b st) \<and> md_cursor (md_step source content ct b st) = e"
  proof (cases b)
    case (Heading level ls)
    then have "ls \<noteq> []" "s = lineStartAt content (fst (hd ls))" "e = s" using span(1) by (auto split: if_splits)
    then show ?thesis using emitProse_props [OF assms(1,2) at span(2), of source ct] at
      by (simp add: Heading Let_def md_inv_def)
  next
    case (FencedCodeBlock ls info)
    then show ?thesis using emitCode_inv [OF assms(1,2) at span(4,2,3), of source ct] span(1) assms(3) by simp
  next
    case (CodeBlock ls)
    then have "ls \<noteq> []" "s = lineStartAt content (fst (hd ls))" "e = lineEndAfter content (snd (last ls) - 1)"
      using span(1) by (auto split: if_splits)
    then show ?thesis using emitCode_inv [OF assms(1,2) at span(4,2,3), of source ct] span(1) assms(3) by (simp add: CodeBlock)
  qed (use span(1) in simp)
qed

lemma md_fold_inv:
  assumes "valid_utf8 content"
  shows "md_inv content st \<Longrightarrow> in_order content (md_cursor st) bs \<Longrightarrow> list_all (code_inked content) bs \<Longrightarrow>
    md_inv content (fold (md_step source content ct) bs st)"
proof (induction bs arbitrary: st)
  case (Cons b bs)
  show ?case
  proof (cases "md_span content b")
    case None
    then show ?thesis using Cons md_step_inv(1) [OF assms Cons.prems(1), of b source ct] by simp
  next
    case (Some se)
    obtain s e where se: "se = (s, e)" by fastforce
    then show ?thesis using Cons.IH [of "md_step source content ct b st"] Cons.prems Some
        md_step_inv(2) [OF assms Cons.prems(1), of b s e source ct] by simp
  qed
qed simp

lemma markdownChunks_faithful:
  assumes "valid_utf8 content" "\<not> blank content" "parse_ok parse content"
  shows "\<exists>cs. markdownChunks parse source content ct = Some cs \<and> cs \<noteq> [] \<and> (\<forall>c\<in>set cs. chunk_fit c)
    \<and> contents_ink cs = ink content"
proof -
  define st where "st = fold (md_step source content ct) (parse content) \<lparr>md_chunks = [], md_cursor = 0, md_stack = []\<rparr>"
  have "md_inv content \<lparr>md_chunks = [], md_cursor = 0, md_stack = []\<rparr>" by (simp add: md_inv_def at_line_def)
  then have inv: "md_inv content st" using md_fold_inv [OF assms(1)] assms(3) by (simp add: st_def parse_ok_def)
  then have le: "md_cursor st \<le> length content" by (simp add: md_inv_def at_line_def)
  note fin = emitProse_props [OF assms(1) inv at_line_length le, of source ct]
  have "content \<noteq> []" using assms(2) by auto
  then show ?thesis using fin(2,3) assms(1)
    by (simp add: markdownChunks_def st_def [symmetric] Let_def chunk_fit_def)
qed

text \<open>The contract of Split, for a parser that keeps its documented order.\<close>

lemma markdown_chunker:
  assumes "\<forall>content. parse_ok parse content"
  shows "faithful_chunker (markdownChunks parse)"
proof
  fix content source ct
  assume "valid_utf8 content" "\<not> blank content"
  then show "\<exists>cs. markdownChunks parse source content ct = Some cs \<and> cs \<noteq> [] \<and> (\<forall>c\<in>set cs. chunk_fit c)"
    using markdownChunks_faithful assms by blast
next
  fix content source ct cs
  assume "valid_utf8 content" "\<not> blank content" "markdownChunks parse source content ct = Some cs"
  then show "contents_ink cs = ink content" using markdownChunks_faithful assms by (metis option.inject)
qed

end
