(* ===== verification/Chunk_Registry.thy ===== *)
theory Chunk_Registry
  imports Chunk_Formats Chunk_Table Chunk_Metrics Chunk_Markdown
begin

text \<open>
  The registry that the \<open>init\<close> functions of package internal/ingest/chunk fill, and what Split
  promises over it.
\<close>

definition formatCSV :: string where "formatCSV = ''csv''"
definition formatTSV :: string where "formatTSV = ''tsv''"
definition formatMetrics :: string where "formatMetrics = ''metrics''"

definition go_chunkers ::
    "(string \<Rightarrow> string option) \<Rightarrow> (string \<Rightarrow> string) \<Rightarrow> (string \<Rightarrow> string) \<Rightarrow> (string \<Rightarrow> md_block list) \<Rightarrow> registry" where
  "go_chunkers num_text lower sha parse =
     register formatText textChunks
      (register formatTSV tsvChunks (register formatCSV csvChunks
      (register formatStacktrace stacktraceChunks
      (register formatMetrics (metricsChunks sha)
      (register formatMarkdown (markdownChunks parse)
      (register formatLog logChunks
      (register formatJSON (jsonChunks num_text lower) Map.empty)))))))"

lemmas format_names = formatText_def formatTSV_def formatCSV_def formatStacktrace_def formatMetrics_def
  formatMarkdown_def formatLog_def formatJSON_def

interpretation metrics: returning_chunker "metricsChunks sha" for sha
  by unfold_locales (use metricsChunks_returns in blast)

lemma chunker_returning: "chunker fn \<Longrightarrow> returning_chunker fn"
  unfolding chunker_def returning_chunker_def by blast

lemma go_chunkers_ok:
  assumes "\<forall>content. parse_ok parse content" "go_chunkers num_text lower sha parse fmt = Some fn"
  shows "returning_chunker fn" "fmt \<noteq> formatMetrics \<Longrightarrow> chunker fn"
    "fmt \<in> {formatText, formatMarkdown, formatLog, formatStacktrace} \<Longrightarrow> faithful_chunker fn"
proof -
  note md = markdown_chunker [OF assms(1)]
  have md': "chunker (markdownChunks parse)" using md by (simp add: faithful_chunker_def)
  show "fmt \<noteq> formatMetrics \<Longrightarrow> chunker fn"
    using assms(2) md' plain.chunker_axioms csv.chunker_axioms tsv.chunker_axioms json.chunker_axioms
      log.chunker_axioms stacktrace.chunker_axioms
    by (auto simp: go_chunkers_def register_def split: if_splits)
  then show "returning_chunker fn"
    using assms(2) metrics.returning_chunker_axioms
    by (cases "fmt = formatMetrics") (auto simp: go_chunkers_def register_def format_names dest: chunker_returning)
  show "fmt \<in> {formatText, formatMarkdown, formatLog, formatStacktrace} \<Longrightarrow> faithful_chunker fn"
    using assms(2) md plain.faithful_chunker_axioms log.faithful_chunker_axioms stacktrace.faithful_chunker_axioms
    by (auto simp: go_chunkers_def register_def format_names)
qed

text \<open>The format that Split acts on.\<close>

definition effective :: "string \<Rightarrow> string \<Rightarrow> string" where
  "effective content format = (if format = [] then detectFormat content else format)"

text \<open>Content of which the metrics chunker keeps nothing.\<close>

definition all_dropped :: "string \<Rightarrow> bool" where
  "all_dropped content \<longleftrightarrow>
     fst (parseExposition content) \<noteq> [] \<and> snd (parseExposition content) = []
     \<and> (\<forall>f\<in>set (fst (parseExposition content)). dropped f)"

lemma go_Split_form:
  assumes "\<not> blank content"
  obtains fn fmt where "Split (go_chunkers num_text lower sha parse) detectFormat source content format ct
       = bounded (fn source content (if ct = [] then contentTypeProse else ct)) fmt"
    "go_chunkers num_text lower sha parse (effective content format) = Some fn
     \<or> go_chunkers num_text lower sha parse (effective content format) = None \<and> fn = textChunks"
  using assms that by (cases "go_chunkers num_text lower sha parse (effective content format)")
    (auto simp: Split_def Let_def effective_def)

lemma go_chunkers_metrics: "go_chunkers num_text lower sha parse formatMetrics = Some (metricsChunks sha)"
  by (simp add: go_chunkers_def register_def format_names)

lemma go_Split_total:
  assumes "\<forall>content. parse_ok parse content" "valid_utf8 content"
  obtains bs fmt where "Split (go_chunkers num_text lower sha parse) detectFormat source content format ct = Some (bs, fmt)"
    "\<forall>b\<in>set bs. length (Content b) \<le> chunkMaxBytes \<and> Content b \<noteq> [] \<and> valid_utf8 (Content b)"
    "bs = [] \<longleftrightarrow> blank content \<or> effective content format = formatMetrics \<and> all_dropped content"
proof (cases "blank content")
  case True
  then show ?thesis using that [of "[]" format] by (simp add: Split_def)
next
  case False
  let ?ct = "if ct = [] then contentTypeProse else ct"
  obtain fn fmt where fn: "Split (go_chunkers num_text lower sha parse) detectFormat source content format ct
       = bounded (fn source content ?ct) fmt"
    "go_chunkers num_text lower sha parse (effective content format) = Some fn
     \<or> go_chunkers num_text lower sha parse (effective content format) = None \<and> fn = textChunks"
    by (rule go_Split_form [OF False])
  have ret: "returning_chunker fn"
    using fn(2) go_chunkers_ok(1) [OF assms(1)] plain.returning_chunker_axioms by blast
  obtain bs where bs: "bounded (fn source content ?ct) fmt = Some (bs, fmt)"
    "\<forall>b\<in>set bs. length (Content b) \<le> chunkMaxBytes \<and> Content b \<noteq> [] \<and> valid_utf8 (Content b)"
    "bs = [] \<longleftrightarrow> the (fn source content ?ct) = []"
    by (rule returning_chunker.bounded_returns [OF ret assms(2) False])
  have "the (fn source content ?ct) = [] \<longleftrightarrow> effective content format = formatMetrics \<and> all_dropped content"
  proof (cases "effective content format = formatMetrics")
    case True
    then have "fn = metricsChunks sha" using fn(2) go_chunkers_metrics by auto
    then show ?thesis using metricsChunks_returns [OF assms(2) False, of sha source ?ct] True
      by (auto simp: all_dropped_def)
  next
    case nm: False
    have "chunker fn" using fn(2) go_chunkers_ok(2) [OF assms(1) _ nm] plain.chunker_axioms by blast
    then show ?thesis using chunker.fn_total [OF _ assms(2) False, of fn source ?ct] nm by auto
  qed
  then show ?thesis using that [of bs fmt] fn(1) bs False by simp
qed

lemma go_Split_ink:
  assumes "\<forall>content. parse_ok parse content" "valid_utf8 content"
    "effective content format \<notin> {formatJSON, formatCSV, formatTSV, formatMetrics}"
    "Split (go_chunkers num_text lower sha parse) detectFormat source content format ct = Some (bs, fmt)"
  shows "contents_ink bs = ink content"
proof (cases "blank content")
  case True
  then show ?thesis using assms(4) blank_ink [OF assms(2)] by (simp add: Split_def)
next
  case False
  obtain fn fmt' where fn: "Split (go_chunkers num_text lower sha parse) detectFormat source content format ct
       = bounded (fn source content (if ct = [] then contentTypeProse else ct)) fmt'"
    "go_chunkers num_text lower sha parse (effective content format) = Some fn
     \<or> go_chunkers num_text lower sha parse (effective content format) = None \<and> fn = textChunks"
    by (rule go_Split_form [OF False])
  have "effective content format \<in> {formatText, formatMarkdown, formatLog, formatStacktrace}
      \<or> go_chunkers num_text lower sha parse (effective content format) = None"
    using assms(3) by (auto simp: go_chunkers_def register_def)
  then have "faithful_chunker fn"
    using fn(2) go_chunkers_ok(3) [OF assms(1)] plain.faithful_chunker_axioms by auto
  then show ?thesis using faithful_chunker.bounded_ink [OF _ assms(2) False] fn(1) assms(4) by metis
qed

text \<open>A description too long for one chunk, alone in its exposition, leaves no chunk.\<close>

lemma go_Split_drops:
  assumes "newline \<notin> set l" "trim_right_cr l = l" "\<not> blank l" "length l > chunkMaxBytes"
    "promComment_name l = Some n" "promComment_kind l = Some k" "k \<noteq> ''TYPE''"
  shows "Split (go_chunkers num_text lower sha parse) detectFormat source l formatMetrics ct = Some ([], formatMetrics)"
proof -
  have "formatMetrics \<noteq> []" by (simp add: formatMetrics_def)
  then show ?thesis
    using assms(3) metadata_only_dropped [OF assms, of sha source "if ct = [] then contentTypeProse else ct"] go_chunkers_metrics
    by (simp add: Split_def Let_def bounded_def)
qed

end
