(* ===== verification/Event_Hash.thy ===== *)
theory Event_Hash
  imports Store_Repos
begin

text \<open>
  The digest input of an event (internal/db/pg_events.go): both fields with their lengths in
  front, so that it can be taken apart again and two different events never share it.
\<close>

definition unbe64 :: "string \<Rightarrow> nat" where
  "unbe64 s = fold (\<lambda>c n. n * 256 + of_char c) s 0"

definition event_parts :: "string \<Rightarrow> string \<times> string" where
  "event_parts s =
     (let n = unbe64 (take 8 s); r = drop 8 s in (take n r, drop 8 (drop n r)))"

lemma length_be64 [simp]: "length (be64 n) = 8"
  by (simp add: be64_def)

lemma digits: "fold (\<lambda>i a. a * 256 + n div 256 ^ (7 - i) mod 256) [0..<k] 0 = n div 256 ^ (8 - k) mod 256 ^ k" if "k \<le> 8" for n k :: nat
  using that
proof (induction k)
  case (Suc k)
  let ?q = "n div 256 ^ (8 - Suc k)"
  have e: "8 - k = Suc (8 - Suc k)" using Suc.prems by simp
  have "(256::nat) ^ (8 - k) = 256 ^ (8 - Suc k) * 256" unfolding e by simp
  then have "n div 256 ^ (8 - k) = ?q div 256" by (simp only: div_mult2_eq)
  then have "fold (\<lambda>i a. a * 256 + n div 256 ^ (7 - i) mod 256) [0..<Suc k] 0 = ?q div 256 mod 256 ^ k * 256 + ?q mod 256"
    using Suc by simp
  also have "\<dots> = ?q mod (256 * 256 ^ k)" 
    unfolding mod_mult2_eq [of ?q 256 "256 ^ k"] by (simp only: mult.commute)
  finally show ?case by simp
qed simp

lemma unbe64_be64: "n < 2 ^ 64 \<Longrightarrow> unbe64 (be64 n) = n"
proof -
  assume n: "n < 2 ^ 64"
  have "unbe64 (be64 n) = fold (\<lambda>i a. a * 256 + n div 256 ^ (7 - i) mod 256) [0..<8] 0"
    by (simp add: unbe64_def be64_def fold_map comp_def)
  also have "\<dots> = n mod 256 ^ 8" using digits [of 8 n] by simp
  also have "\<dots> = n" using n by simp
  finally show ?thesis .
qed

lemma event_parts_preimage:
  "length t < 2 ^ 64 \<Longrightarrow> event_parts (event_preimage t d) = (t, d)"
  by (simp add: event_parts_def event_preimage_def unbe64_be64 Let_def)

end
