(* ===== verification/Extract_Command.thy ===== *)
theory Extract_Command
  imports Go_Path Go_Regex
begin

text \<open>
  Package internal/adapter/extract, file command.go: a command line cut into tokens and into
  the segments of a pipeline or list, the program it runs, and paths relative to the
  workspace. Strings are walked rune by rune as the code does.
\<close>

section \<open>Tokens\<close>

text \<open>The variables of \<open>tokenize\<close>; quote 0 stands for no open quote.\<close>

record tok_state =
  tk_toks :: "string list"
  tk_buf :: string
  tk_quote :: nat
  tk_in :: bool
  tk_pend :: bool
  tk_dq :: bool

definition tok_start :: tok_state where
  "tok_start = \<lparr>tk_toks = [], tk_buf = [], tk_quote = 0, tk_in = False, tk_pend = False, tk_dq = False\<rparr>"

definition tok_flush :: "tok_state \<Rightarrow> tok_state" where
  "tok_flush st = (if tk_in st then st\<lparr>tk_toks := tk_toks st @ [tk_buf st], tk_buf := [], tk_in := False\<rparr> else st)"

definition put :: "nat \<Rightarrow> tok_state \<Rightarrow> tok_state" where
  "put r st = st\<lparr>tk_buf := tk_buf st @ encode_rune r\<rparr>"

definition tok_step :: "nat \<Rightarrow> tok_state \<Rightarrow> tok_state" where
  "tok_step r st =
     (if tk_pend st then
        (if r = 32 \<or> r = 9 then put r st else put r (put 92 st))\<lparr>tk_in := True, tk_pend := False\<rparr>
      else if tk_dq st then (put r (if r \<noteq> 34 \<and> r \<noteq> 92 then put 92 st else st))\<lparr>tk_dq := False\<rparr>
      else if tk_quote st \<noteq> 0 then
        (if tk_quote st = 34 \<and> r = 92 then st\<lparr>tk_dq := True\<rparr>
         else if r = tk_quote st then st\<lparr>tk_quote := 0\<rparr> else put r st)
      else if r = 92 then st\<lparr>tk_pend := True\<rparr>
      else if r = 39 \<or> r = 34 then st\<lparr>tk_quote := r, tk_in := True\<rparr>
      else if r = 32 \<or> r = 9 then tok_flush st
      else (put r st)\<lparr>tk_in := True\<rparr>)"

definition tokenize :: "string \<Rightarrow> string list" where
  "tokenize s =
     (let st = fold tok_step (runes s) tok_start;
          st = (if tk_pend st \<or> tk_dq st then (put 92 st)\<lparr>tk_in := True\<rparr> else st)
      in tk_toks (tok_flush st))"

definition IsAssignmentPrefix :: "string \<Rightarrow> bool" where
  "IsAssignmentPrefix tok =
     (case index_byte CHR ''='' tok of
        None \<Rightarrow> False
      | Some eq \<Rightarrow> 0 < eq \<and> (\<forall>i<eq. word_char (tok ! i) \<and> (i = 0 \<longrightarrow> \<not> digit_char (tok ! i))))"

fun stripAssignmentPrefixes :: "string list \<Rightarrow> string list" where
  "stripAssignmentPrefixes [] = []"
| "stripAssignmentPrefixes (t # ts) =
     (if IsAssignmentPrefix t then stripAssignmentPrefixes ts
      else if t = ''env'' \<and> ts \<noteq> [] \<and> \<not> has_prefix (hd ts) ''-'' then stripAssignmentPrefixes ts
      else t # ts)"

section \<open>Segments\<close>

function seg_loop :: "nat list \<Rightarrow> string \<Rightarrow> nat \<Rightarrow> bool \<Rightarrow> bool \<Rightarrow> string list" where
  "seg_loop [] b quote pendingEsc dqEsc = [if pendingEsc then b @ [CHR 0x5C] else b]"
| "seg_loop (r # rs) b quote pendingEsc dqEsc =
     (if pendingEsc then seg_loop rs (b @ CHR 0x5C # encode_rune r) quote False dqEsc
      else if dqEsc then seg_loop rs (b @ encode_rune r) quote pendingEsc False
      else if quote \<noteq> 0 then
        (if quote = 34 \<and> r = 92 then seg_loop rs (b @ encode_rune r) quote pendingEsc True
         else if r = quote then seg_loop rs (b @ encode_rune r) 0 pendingEsc dqEsc
         else seg_loop rs (b @ encode_rune r) quote pendingEsc dqEsc)
      else if r = 92 then seg_loop rs b quote True dqEsc
      else if r = 39 \<or> r = 34 then seg_loop rs (b @ encode_rune r) r pendingEsc dqEsc
      else if r = 59 \<or> r = 10 then b # seg_loop rs [] quote pendingEsc dqEsc
      else if r = 124 then
        b # seg_loop (if rs \<noteq> [] \<and> (hd rs = 124 \<or> hd rs = 38) then tl rs else rs) [] quote pendingEsc dqEsc
      else if r = 38 \<and> rs \<noteq> [] \<and> hd rs = 38 then b # seg_loop (tl rs) [] quote pendingEsc dqEsc
      else seg_loop rs (b @ encode_rune r) quote pendingEsc dqEsc)"
  by pat_completeness auto
termination by (relation "measure (\<lambda>(rs, _). length rs)") auto

declare seg_loop.simps(2) [simp del]

definition splitSegments :: "string \<Rightarrow> string list" where
  "splitSegments command = seg_loop (runes command) [] 0 False False"

definition segment_runs :: "string \<Rightarrow> string \<Rightarrow> bool" where
  "segment_runs program seg =
     (let toks = stripAssignmentPrefixes (tokenize seg) in
      toks \<noteq> [] \<and> (equal_fold (path_base (hd toks)) program \<or> equal_fold (path_base (hd toks)) (program @ ''.exe'')))"

definition InvokesProgram :: "string \<Rightarrow> string \<Rightarrow> bool" where
  "InvokesProgram command program \<longleftrightarrow> list_ex (segment_runs program) (splitSegments command)"

section \<open>Commands\<close>

record cmd =
  program :: string
  subcommand :: string
  args :: "string list"
  pipeline :: bool

definition shellMeta :: "char set" where
  "shellMeta = {CHR ''|'', CHR ''&'', CHR '';'', CHR ''<'', CHR ''>'', CHR ''('', CHR '')'', CHR ''$'', CHR 0x60, newline}"

definition cosmeticFlags :: "string list" where
  "cosmeticFlags = [''--color'', ''--no-color'', ''--no-pager'']"

definition compound :: cmd where
  "compound = \<lparr>program = ''sh'', subcommand = [], args = [], pipeline = True\<rparr>"

definition parse :: "string \<Rightarrow> cmd option" where
  "parse command =
     (let s = trim_space command in
      if s = [] then None
      else if \<not> list_all (\<lambda>c. c \<notin> shellMeta) s then Some compound
      else case stripAssignmentPrefixes (tokenize s) of
             [] \<Rightarrow> None
           | t # toks \<Rightarrow>
               if \<not> list_all (\<lambda>c. c \<notin> {CHR '' '', CHR 0x09}) t then Some compound
               else let prog = path_base t;
                        rest = filter (\<lambda>t. t \<notin> set cosmeticFlags) toks in
                    Some (if prog = ''git'' \<and> rest \<noteq> [] \<and> \<not> has_prefix (hd rest) ''-''
                          then \<lparr>program = prog, subcommand = hd rest, args = tl rest, pipeline = False\<rparr>
                          else \<lparr>program = prog, subcommand = [], args = rest, pipeline = False\<rparr>))"

definition Program :: "string \<Rightarrow> string" where
  "Program command = (case parse command of None \<Rightarrow> [] | Some c \<Rightarrow> program c)"

definition pathArgs :: "cmd \<Rightarrow> string list" where
  "pathArgs c = filter (\<lambda>a. \<not> has_prefix a ''-'') (args c)"

definition hasOutputFlag :: "cmd \<Rightarrow> bool" where
  "hasOutputFlag c \<longleftrightarrow> list_ex (\<lambda>a. a \<noteq> ''--'' \<and> has_prefix a ''-'') (args c)"

section \<open>Paths in the workspace\<close>

record invocation =
  inv_Seq :: int
  inv_Command :: string
  inv_Cwd :: string
  inv_WorkspaceRoot :: string
  inv_WorkspaceID :: string

definition upward :: "string \<Rightarrow> bool" where
  "upward p \<longleftrightarrow> p = ''..'' \<or> has_prefix p ''../''"

definition wsRel :: "string \<Rightarrow> invocation \<Rightarrow> string option" where
  "wsRel path iv =
     (if path = [] then None
      else let anchor = (if inv_Cwd iv = [] then inv_WorkspaceRoot iv else inv_Cwd iv) in
           if \<not> is_abs path \<and> anchor = [] then
             (let cl = path_clean path in if upward cl then None else Some cl)
           else let p = path_clean (if is_abs path then path else path_join anchor path) in
                if inv_WorkspaceRoot iv = [] then None
                else case path_rel (path_clean (inv_WorkspaceRoot iv)) p of
                       None \<Rightarrow> None
                     | Some rel \<Rightarrow> if upward rel then None else Some rel)"

section \<open>Quoting and segments\<close>

text \<open>The quoting state after a text: the open quote, and whether an escape is pending.\<close>

fun quote_step :: "nat \<Rightarrow> nat \<times> bool \<times> bool \<Rightarrow> nat \<times> bool \<times> bool" where
  "quote_step r (q, pend, dq) =
     (if pend then (q, False, dq) else if dq then (q, pend, False)
      else if q \<noteq> 0 then (if q = 34 \<and> r = 92 then (q, pend, True) else if r = q then (0, pend, dq) else (q, pend, dq))
      else if r = 92 then (q, True, dq) else if r = 39 \<or> r = 34 then (r, pend, dq) else (q, pend, dq))"

definition quotes_closed :: "string \<Rightarrow> bool" where
  "quotes_closed s \<longleftrightarrow> fold quote_step (runes s) (0, False, False) = (0, False, False)"

lemma seg_loop_append:
  assumes "fold quote_step rs (q, pend, dq) = (0, False, False)"
  shows "seg_loop (rs @ 59 # ss) b q pend dq = seg_loop rs b q pend dq @ seg_loop ss [] 0 False False"
  using assms
proof (induction rs b q pend dq rule: seg_loop.induct)
  case (1 b quote pendingEsc dqEsc)
  then show ?case by (simp add: seg_loop.simps(2))
next
  case (2 r rs b q pend dq)
  note run = seg_loop.simps(2) [of r _ b q pend dq]
  consider (pend) pend | (dq) "\<not> pend" dq | (quoted) "\<not> pend" "\<not> dq" "q \<noteq> 0" | (free) "\<not> pend" "\<not> dq" "q = 0" by blast
  then show ?case
  proof cases
    case pend
    then show ?thesis unfolding append_Cons run using "2.IH"(1) "2.prems" by simp
  next
    case dq
    then show ?thesis unfolding append_Cons run using "2.IH"(2) "2.prems" by simp
  next
    case quoted
    then show ?thesis unfolding append_Cons run using "2.IH"(3-5) "2.prems" by (auto split: if_splits)
  next
    case free
    have skip: "fold quote_step (tl rs) (0, False, False) = fold quote_step rs (0, False, False)"
      if "rs \<noteq> [] \<and> (hd rs = 124 \<or> hd rs = 38)" using that by (cases rs) auto
    consider "r = 92" | "r = 39 \<or> r = 34" | "r = 59 \<or> r = 10" | "r = 124" | "r = 38" "rs \<noteq> [] \<and> hd rs = 38"
      | "r \<notin> {92, 39, 34, 59, 10, 124}" "\<not> (r = 38 \<and> rs \<noteq> [] \<and> hd rs = 38)" by auto
    then show ?thesis
    proof cases
      case 1
      then show ?thesis unfolding append_Cons run using free "2.IH"(6) "2.prems" by simp
    next
      case 2
      then show ?thesis unfolding append_Cons run using free "2.IH"(7) "2.prems" by auto
    next
      case 3
      then show ?thesis unfolding append_Cons run using free "2.IH"(8) "2.prems" by auto
    next
      case 4
      define w where "w = (if rs \<noteq> [] \<and> (hd rs = 124 \<or> hd rs = 38) then tl rs else rs)"
      have c: "fold quote_step w (0, False, False) = (0, False, False)"
        using skip 4 free "2.prems" by (auto simp: w_def)
      have "(if rs @ 59 # ss \<noteq> [] \<and> (hd (rs @ 59 # ss) = 124 \<or> hd (rs @ 59 # ss) = 38) then tl (rs @ 59 # ss) else rs @ 59 # ss)
        = w @ 59 # ss" by (cases rs) (auto simp: w_def)
      then show ?thesis unfolding append_Cons run using free 4 "2.IH"(9) c by (simp add: w_def [symmetric])
    next
      case 5
      have c: "fold quote_step (tl rs) (0, False, False) = (0, False, False)"
        using skip 5 free "2.prems" by auto
      have "tl (rs @ 59 # ss) = tl rs @ 59 # ss" "hd (rs @ 59 # ss) = 38" using 5 by (cases rs; simp)+
      then show ?thesis unfolding append_Cons run using free 5 "2.IH"(10) c by simp
    next
      case 6
      have "\<not> (r = 38 \<and> hd (rs @ 59 # ss) = 38)" using 6 by (cases rs) auto
      moreover have "fold quote_step rs (0, False, False) = (0, False, False)" using 6 free "2.prems" by auto
      ultimately show ?thesis unfolding append_Cons run using free 6 "2.IH"(11) by (cases "r = 38") auto
    qed
  qed
qed

lemma splitSegments_append:
  assumes "valid_utf8 a" "quotes_closed a"
  shows "splitSegments (a @ CHR '';'' # b) = splitSegments a @ splitSegments b"
proof -
  have "runes (CHR '';'' # b) = 59 # runes b" by (simp add: runes.simps(2) rune_width_def)
  then show ?thesis
    using seg_loop_append [of "runes a" 0 False False "runes b" "[]"] assms runes_append [OF assms(1)]
    by (simp add: splitSegments_def quotes_closed_def)
qed

section \<open>Programs are not assignments\<close>

lemma strip_not_assignment:
  "stripAssignmentPrefixes ts = t # us \<Longrightarrow> \<not> IsAssignmentPrefix t \<and> suffix (t # us) ts"
  by (induction ts rule: stripAssignmentPrefixes.induct) (auto split: if_splits intro: suffix_ConsI)

lemma parse_program:
  assumes "parse command = Some c" "\<not> pipeline c"
  obtains t where "program c = path_base t" "\<not> IsAssignmentPrefix t" "t \<in> set (tokenize (trim_space command))"
    "set (args c) \<union> {subcommand c} - {[]} \<subseteq> set (tokenize (trim_space command))"
proof -
  obtain t toks where t: "stripAssignmentPrefixes (tokenize (trim_space command)) = t # toks"
    using assms by (auto simp: parse_def Let_def compound_def split: if_splits list.splits)
  define rest where "rest = filter (\<lambda>t. t \<notin> set cosmeticFlags) toks"
  have c: "c = (if path_base t = ''git'' \<and> rest \<noteq> [] \<and> \<not> has_prefix (hd rest) ''-''
     then \<lparr>program = path_base t, subcommand = hd rest, args = tl rest, pipeline = False\<rparr>
     else \<lparr>program = path_base t, subcommand = [], args = rest, pipeline = False\<rparr>)"
    using assms t by (auto simp: parse_def Let_def compound_def rest_def [symmetric] split: if_splits)
  note st = strip_not_assignment [OF t]
  have sub: "set (t # toks) \<subseteq> set (tokenize (trim_space command))" using st set_mono_suffix by blast
  have "set rest \<subseteq> set toks" by (auto simp: rest_def)
  moreover have "rest \<noteq> [] \<Longrightarrow> insert (hd rest) (set (tl rest)) = set rest" by (cases rest) auto
  ultimately have "set (args c) \<union> {subcommand c} - {[]} \<subseteq> set (tokenize (trim_space command))"
    using sub by (auto simp: c)
  then show thesis using that [of t] st sub by (simp add: c)
qed

section \<open>Paths stay in the workspace\<close>

lemma wsRel_inside:
  assumes "wsRel path iv = Some rel" "is_abs (inv_WorkspaceRoot iv)"
  obtains p where "p = (if is_abs path then path else path_join (if inv_Cwd iv = [] then inv_WorkspaceRoot iv else inv_Cwd iv) path)"
    "path_segs (path_clean (path_clean p)) = path_segs (path_clean (path_clean (inv_WorkspaceRoot iv))) @ (if rel = ''.'' then [] else path_segs rel)"
    "''..'' \<notin> set (path_segs rel)" "\<not> is_abs rel"
proof -
  define p where "p = (if is_abs path then path else path_join (if inv_Cwd iv = [] then inv_WorkspaceRoot iv else inv_Cwd iv) path)"
  have root: "inv_WorkspaceRoot iv \<noteq> []" "is_abs (path_clean (inv_WorkspaceRoot iv))"
    using assms(2) path_clean_segs(3) by (auto simp: is_abs_def)
  have "path_rel (path_clean (inv_WorkspaceRoot iv)) (path_clean p) = Some rel" "\<not> upward rel"
    using assms(1) root(1) by (auto simp: wsRel_def Let_def p_def split: if_splits option.splits)
  note inside = path_rel_inside [OF this(1) root(2)]
  show thesis
    using that [OF p_def] inside \<open>\<not> upward rel\<close> by (simp add: upward_def)
qed

end
