(* ===== verification/Extract_Label.thy ===== *)
theory Extract_Label
  imports Extract_Command Go_Json
begin

text \<open>
  Package internal/adapter/extract, files grammar.go and token.go: the grammar of source labels,
  \<open>calm:v1:<domain>:<verb>:<context>:<identity>[#<seq>][@<token>]\<close>. \<open>sha\<close> stands for
  \<open>sha256.Sum256\<close>.
\<close>

section \<open>Segments\<close>

definition maxLabelLen :: nat where "maxLabelLen = 200"
definition maxSeqSuffix :: nat where "maxSeqSuffix = 13"

record labelID =
  lb_domain :: string
  lb_verb :: string
  lb_context :: "string list"
  lb_ident :: "string list"

definition hexDigit :: "nat \<Rightarrow> char" where
  "hexDigit n = (if n < 10 then chr (48 + n) else chr (55 + n))"

definition reserved :: "char \<Rightarrow> bool" where
  "reserved c \<longleftrightarrow> c \<in> {CHR '':'', CHR ''#'', CHR ''@'', CHR '' '', CHR 0x25} \<or> byte c < 32 \<or> byte c = 127"

definition enc_char :: "char \<Rightarrow> string" where
  "enc_char c = (if reserved c then [CHR 0x25, hexDigit (byte c div 16), hexDigit (byte c mod 16)] else [c])"

definition enc :: "string \<Rightarrow> string" where
  "enc s = concat (map enc_char s)"

definition shortHash :: "(string \<Rightarrow> string) \<Rightarrow> string \<Rightarrow> string" where
  "shortHash sha s = take 16 (hex_string (sha s))"

section \<open>Labels\<close>

definition label_prefix :: "labelID \<Rightarrow> invocation \<Rightarrow> string list" where
  "label_prefix i iv =
     [''calm'', ''v1'', enc (lb_domain i)] @ (if lb_verb i = [] then [] else [enc (lb_verb i)])
     @ (if inv_WorkspaceID iv = [] then [] else [enc (inv_WorkspaceID iv)]) @ map enc (lb_context i)"

definition label_ident :: "labelID \<Rightarrow> string list" where
  "label_ident i = map enc (filter (\<lambda>x. x \<noteq> [] \<and> x \<noteq> ''.'') (lb_ident i))"

definition buildBase :: "(string \<Rightarrow> string) \<Rightarrow> labelID \<Rightarrow> invocation \<Rightarrow> nat \<Rightarrow> string" where
  "buildBase sha i iv reserve =
     (let limit = maxLabelLen - reserve;
          pre = label_prefix i iv;
          ident = label_ident i;
          label = join '':'' (pre @ ident);
          hashed = join '':'' (pre @ [CHR ''h'' # shortHash sha (join '':'' ident)]) in
      if length label \<le> limit then label
      else if ident \<noteq> [] \<and> length hashed \<le> limit then hashed
      else let digest = CHR ''h'' # shortHash sha (join '':'' (pre @ ident));
               label = (if ident \<noteq> [] then hashed else label);
               budget = limit - length digest - 1
           in take budget label @ CHR '':'' # digest)"

definition seqSuffix :: "int \<Rightarrow> string" where "seqSuffix n = CHR ''#'' # json_int n"

section \<open>Tokens and parsing\<close>

definition tokenAlphabet :: string where "tokenAlphabet = ''abcdefghijklmnopqrstuvwxyz234567''"
definition TokenLen :: nat where "TokenLen = 6"

text \<open>\<open>MintToken\<close>, given the bytes of the random source.\<close>

definition MintToken :: "string \<Rightarrow> string" where
  "MintToken buf = map (\<lambda>b. tokenAlphabet ! (byte b mod 32)) (take TokenLen buf)"

definition isValidToken :: "string \<Rightarrow> bool" where
  "isValidToken s \<longleftrightarrow>
     length s = TokenLen
     \<and> list_all (\<lambda>c. 97 \<le> byte c \<and> byte c \<le> 122 \<or> 50 \<le> byte c \<and> byte c \<le> 55) s"

text \<open>\<open>strconv.ParseInt(s, 10, 64)\<close>.\<close>

definition decimal :: "string \<Rightarrow> int" where
  "decimal s = foldl (\<lambda>n c. n * 10 + (int (byte c) - 48)) 0 s"

definition ParseInt :: "string \<Rightarrow> int option" where
  "ParseInt s =
     (let neg = (s \<noteq> [] \<and> hd s = CHR ''-'');
          ds = (if s \<noteq> [] \<and> (hd s = CHR ''-'' \<or> hd s = CHR ''+'') then tl s else s);
          n = (if neg then - decimal ds else decimal ds) in
      if ds = [] \<or> \<not> list_all digit_char ds then None
      else if - (2 ^ 63) \<le> n \<and> n < 2 ^ 63 then Some n else None)"

definition ParseSource :: "string \<Rightarrow> string \<times> int \<times> string" where
  "ParseSource label =
     (let (label, token) =
        (case last_index_byte CHR ''@'' label of
           None \<Rightarrow> (label, [])
         | Some i \<Rightarrow> let tail = drop (i + 1) label in
                    if isValidToken tail then (take i label, tail) else (label, []))
      in case last_index_byte CHR ''#'' label of
           None \<Rightarrow> (label, -1, token)
         | Some i \<Rightarrow>
             (case ParseInt (drop (i + 1) label) of
                None \<Rightarrow> (label, -1, token)
              | Some n \<Rightarrow> if 0 \<le> n then (take i label, n, token) else (label, -1, token)))"

section \<open>The encoding of a segment\<close>

definition unhexDigit :: "char \<Rightarrow> nat" where
  "unhexDigit c = (if byte c < 58 then byte c - 48 else byte c - 55)"

fun dec :: "string \<Rightarrow> string" where
  "dec (c # h # l # s) =
     (if c = CHR 0x25 then chr (unhexDigit h * 16 + unhexDigit l) # dec s else c # dec (h # l # s))"
| "dec (c # s) = c # dec s"
| "dec [] = []"

lemma hexDigit_props:
  "n < 16 \<Longrightarrow> unhexDigit (hexDigit n) = n"
  "n < 16 \<Longrightarrow> byte (hexDigit n) \<in> {48..57} \<union> {65..70}"
  by (auto simp: unhexDigit_def hexDigit_def)

lemma dec_plain: "c \<noteq> CHR 0x25 \<Longrightarrow> dec (c # s) = c # dec s"
  by (cases s rule: list.exhaust; cases "tl s") auto

lemma dec_enc: "dec (enc s) = s"
proof (induction s)
  case (Cons c s)
  have b: "byte c div 16 < 16" "byte c mod 16 < 16" using byte_less [of c] by (auto simp: less_mult_imp_div_less)
  have "chr (byte c div 16 * 16 + byte c mod 16) = c" by simp
  then show ?case using Cons b dec_plain [of c "enc s"]
    by (cases "reserved c") (auto simp: enc_def enc_char_def hexDigit_props(1) reserved_def)
qed (simp add: enc_def)

lemma enc_inject: "enc s = enc t \<longleftrightarrow> s = t"
  using dec_enc by metis

definition label_char :: "char \<Rightarrow> bool" where
  "label_char c \<longleftrightarrow> c \<notin> {CHR '':'', CHR ''#'', CHR ''@'', CHR '' ''} \<and> 32 < byte c \<and> byte c \<noteq> 127"

lemma label_char_hex: "byte c \<in> {48..57} \<union> {65..70} \<union> {97..122} \<Longrightarrow> label_char c"
  by (auto simp: label_char_def)

lemma enc_label_chars: "c \<in> set (enc s) \<Longrightarrow> label_char c"
proof -
  have "label_char c" if "c \<in> set (enc_char x)" for c x
  proof (cases "reserved x")
    case True
    have b: "byte x div 16 < 16" "byte x mod 16 < 16" using byte_less [of x] by (auto simp: less_mult_imp_div_less)
    have "label_char (hexDigit (byte x div 16))" "label_char (hexDigit (byte x mod 16))" "label_char CHR 0x25"
      using b hexDigit_props(2) [of "byte x div 16"] hexDigit_props(2) [of "byte x mod 16"] label_char_hex
      by (auto simp: label_char_def)
    then show ?thesis using that True by (auto simp: enc_char_def)
  next
    case False
    moreover have "byte x \<noteq> 32"
      using False of_char_eq_iff [of x "CHR '' ''"] by (auto simp: reserved_def)
    ultimately show ?thesis using that by (auto simp: enc_char_def reserved_def label_char_def)
  qed
  then show "c \<in> set (enc s) \<Longrightarrow> label_char c" by (auto simp: enc_def)
qed

lemma enc_Nil [simp]: "enc s = [] \<longleftrightarrow> s = []"
  by (cases s) (auto simp: enc_def enc_char_def)

lemma hex_string_chars: "c \<in> set (hex_string s) \<Longrightarrow> label_char c"
proof -
  assume "c \<in> set (hex_string s)"
  then obtain x where "c = hex_digit (byte x div 16) \<or> c = hex_digit (byte x mod 16)" by (auto simp: hex_string_def)
  moreover have "byte x div 16 < 16" "byte x mod 16 < 16" using byte_less [of x] by (auto simp: less_mult_imp_div_less)
  moreover have "byte (hex_digit n) \<in> {48..57} \<union> {97..102}" if "n < 16" for n
    using that by (auto simp: hex_digit_def)
  ultimately have "byte c \<in> {48..57} \<union> {97..102}" by metis
  then show "label_char c" using label_char_hex by auto
qed

lemma shortHash_props: "length (shortHash sha s) \<le> 16" "c \<in> set (shortHash sha s) \<Longrightarrow> label_char c"
  using hex_string_chars [of c "sha s"] by (auto simp: shortHash_def dest: in_set_takeD)

section \<open>The label\<close>

lemma label_parts:
  "s \<in> set (label_prefix i iv) \<union> set (label_ident i) \<Longrightarrow> c \<in> set s \<Longrightarrow> label_char c"
  using enc_label_chars
  by (auto simp: label_prefix_def label_ident_def label_char_def split: if_splits)

lemma join_chars: "c \<in> set (join sep ps) \<Longrightarrow> c \<in> set sep \<or> (\<exists>p\<in>set ps. c \<in> set p)"
  by (induction sep ps rule: join.induct) auto

lemma buildBase_chars: "c \<in> set (buildBase sha i iv reserve) \<Longrightarrow> label_char c \<or> c = CHR '':''"
proof -
  assume c: "c \<in> set (buildBase sha i iv reserve)"
  have h: "label_char CHR ''h''" by (simp add: label_char_def)
  have one: "label_char x \<or> x = CHR '':''" if "x \<in> set (join '':'' (label_prefix i iv @ label_ident i))" for x
    using join_chars [OF that] label_parts [of _ i iv x] by auto
  have two: "label_char x \<or> x = CHR '':''" if "x \<in> set (join '':'' (label_prefix i iv @ [CHR ''h'' # shortHash sha s]))" for x s
    using join_chars [OF that] label_parts [of _ i iv x] shortHash_props(2) [of x sha s] h by auto
  have cut: "label_char x \<or> x = CHR '':''" if "x \<in> set (take n (join '':'' (label_prefix i iv @ label_ident i)))
      \<union> set (take n (join '':'' (label_prefix i iv @ [CHR ''h'' # shortHash sha s])))" for x n s
    using that one two by (auto dest: in_set_takeD)
  show ?thesis
    using c one [of c] two [of c] cut [of c] shortHash_props(2) [of c sha] h
    by (auto simp: buildBase_def Let_def split: if_splits)
qed

lemma buildBase_length:
  assumes "reserve \<le> 182"
  shows "length (buildBase sha i iv reserve) \<le> maxLabelLen - reserve"
proof -
  define h where "h = shortHash sha (join '':'' (label_prefix i iv @ label_ident i))"
  have "length h \<le> 16" unfolding h_def by (rule shortHash_props(1))
  then have cut: "length (take (maxLabelLen - reserve - length (CHR ''h'' # h) - 1) s @ CHR '':'' # CHR ''h'' # h) \<le> maxLabelLen - reserve" for s
    using assms by (simp add: maxLabelLen_def min_def) arith
  show ?thesis unfolding buildBase_def Let_def h_def [symmetric] using cut by simp
qed

text \<open>The segments of a label that is not over length determine its parts.\<close>

lemma buildBase_segments:
  assumes "length (join '':'' (label_prefix i iv @ label_ident i)) \<le> maxLabelLen - reserve"
  shows "split_byte CHR '':'' (buildBase sha i iv reserve) = label_prefix i iv @ label_ident i"
proof -
  have "buildBase sha i iv reserve = join '':'' (label_prefix i iv @ label_ident i)"
    using assms by (simp add: buildBase_def Let_def)
  moreover have "label_prefix i iv @ label_ident i \<noteq> []" by (simp add: label_prefix_def)
  moreover have "\<forall>p\<in>set (label_prefix i iv @ label_ident i). CHR '':'' \<notin> set p"
    using label_parts [of _ i iv "CHR '':''"] by (auto simp: label_char_def)
  ultimately show ?thesis using split_join by metis
qed

lemma label_ident_inject:
  "label_ident i = label_ident j \<longleftrightarrow>
     filter (\<lambda>x. x \<noteq> [] \<and> x \<noteq> ''.'') (lb_ident i) = filter (\<lambda>x. x \<noteq> [] \<and> x \<noteq> ''.'') (lb_ident j)"
  unfolding label_ident_def by (rule inj_map_eq_map) (simp add: inj_def enc_inject)

lemma label_prefix_length:
  "length (label_prefix i iv) = 3 + (if lb_verb i = [] then 0 else 1) + (if inv_WorkspaceID iv = [] then 0 else 1) + length (lb_context i)"
  by (simp add: label_prefix_def)

section \<open>Parsing a label\<close>

lemma decimal_append: "decimal (s @ [c]) = decimal s * 10 + (int (byte c) - 48)"
  by (simp add: decimal_def)

lemma itoa_decimal: "decimal (itoa n) = int n" "list_all digit_char (itoa n)" "itoa n \<noteq> []"
proof -
  have "decimal (itoa n) = int n \<and> list_all digit_char (itoa n) \<and> itoa n \<noteq> []"
  proof (induction n rule: itoa.induct)
    case (1 n)
    show ?case
    proof (cases "n < 10")
      case True
      then show ?thesis by (simp add: itoa.simps decimal_def digit_char_def)
    next
      case False
      then have e: "itoa n = itoa (n div 10) @ [chr (48 + n mod 10)]" by (simp add: itoa.simps)
      have "int (n div 10) * 10 + int (n mod 10) = int n" by presburger
      then show ?thesis using 1 False unfolding e decimal_append by (simp add: digit_char_def)
    qed
  qed
  then show "decimal (itoa n) = int n" "list_all digit_char (itoa n)" "itoa n \<noteq> []" by blast+
qed

lemma ParseInt_json_int:
  assumes "0 \<le> n" "n < 2 ^ 63"
  shows "ParseInt (json_int n) = Some n"
proof -
  have s: "json_int n = itoa (nat n)" using assms(1) by (simp add: json_int_def)
  obtain c w where c: "itoa (nat n) = c # w" using itoa_decimal(3) [of "nat n"] by (cases "itoa (nat n)") auto
  have "digit_char c" using itoa_decimal(2) [of "nat n"] c by simp
  then have "c \<noteq> CHR ''-''" "c \<noteq> CHR ''+''" by (auto simp: digit_char_def)
  then show ?thesis using s c itoa_decimal [of "nat n"] assms by (simp add: ParseInt_def Let_def)
qed

lemma last_index_append:
  "c \<notin> set t \<Longrightarrow> last_index_byte c (s @ c # t) = Some (length s)"
  "c \<notin> set t \<Longrightarrow> last_index_byte c t = None"
proof -
  show none: "c \<notin> set t \<Longrightarrow> last_index_byte c t = None" for t by (induction t) auto
  show "c \<notin> set t \<Longrightarrow> last_index_byte c (s @ c # t) = Some (length s)"
    using none by (induction s) auto
qed

lemma token_chars: "isValidToken t \<Longrightarrow> CHR ''@'' \<notin> set t"
  by (auto simp: isValidToken_def list_all_iff)

lemma ParseSource_parts:
  assumes "CHR ''@'' \<notin> set base" "CHR ''#'' \<notin> set base" "isValidToken tok"
  shows "ParseSource (base @ CHR ''@'' # tok) = (base, -1, tok)"
    "0 \<le> n \<Longrightarrow> n < 2 ^ 63 \<Longrightarrow> ParseSource (base @ seqSuffix n @ CHR ''@'' # tok) = (base, n, tok)"
    "0 \<le> n \<Longrightarrow> n < 2 ^ 63 \<Longrightarrow> ParseSource (base @ seqSuffix n) = (base, n, [])"
    "ParseSource base = (base, -1, [])"
proof -
  note tok = token_chars [OF assms(3)]
  show "ParseSource (base @ CHR ''@'' # tok) = (base, -1, tok)"
    using last_index_append(1) [OF tok, of base] last_index_append(2) [OF assms(2)] assms(3)
    by (simp add: ParseSource_def)
  show "ParseSource base = (base, -1, [])"
    using last_index_append(2) [OF assms(1)] last_index_append(2) [OF assms(2)] by (simp add: ParseSource_def)
  assume n: "0 \<le> n" "n < 2 ^ 63"
  have "list_all digit_char (json_int n)" using itoa_decimal(2) n(1) by (simp add: json_int_def)
  then have h: "CHR ''#'' \<notin> set (json_int n)" "CHR ''@'' \<notin> set (json_int n)" by (auto simp: list_all_iff digit_char_def)
  note ih = last_index_append(1) [OF h(1), of base]
  have at: "last_index_byte CHR ''@'' (base @ CHR ''#'' # json_int n) = None"
    using assms(1) h(2) by (intro last_index_append(2)) simp
  show "ParseSource (base @ seqSuffix n) = (base, n, [])"
    using at ih ParseInt_json_int [OF n] n(1) by (simp add: ParseSource_def seqSuffix_def)
  show "ParseSource (base @ seqSuffix n @ CHR ''@'' # tok) = (base, n, tok)"
    using last_index_append(1) [OF tok, of "base @ seqSuffix n"] ih ParseInt_json_int [OF n] n(1) assms(3)
    by (simp add: ParseSource_def seqSuffix_def)
qed

lemma MintToken_valid: "TokenLen \<le> length buf \<Longrightarrow> isValidToken (MintToken buf)"
proof -
  assume "TokenLen \<le> length buf"
  moreover have "97 \<le> byte (tokenAlphabet ! n) \<and> byte (tokenAlphabet ! n) \<le> 122 \<or> 50 \<le> byte (tokenAlphabet ! n) \<and> byte (tokenAlphabet ! n) \<le> 55"
    if "n < 32" for n
  proof -
    have "list_all (\<lambda>c. 97 \<le> byte c \<and> byte c \<le> 122 \<or> 50 \<le> byte c \<and> byte c \<le> 55) tokenAlphabet" "length tokenAlphabet = 32"
      by (simp_all add: tokenAlphabet_def)
    then show ?thesis using that by (simp add: list_all_length)
  qed
  ultimately show ?thesis by (simp add: isValidToken_def MintToken_def list_all_iff)
qed

section \<open>A label cut inside a rune\<close>

text \<open>A long context is cut at a byte, so the label of well-formed text may be ill-formed.\<close>

lemma cut_rune_invalid: "\<not> valid_utf8 (CHR 0xC3 # CHR '':'' # s)"
  by (simp add: valid_utf8_step starts_valid_def decode_rune.simps cont_byte_def rune_error_def)

lemma label_cut_in_rune:
  assumes "length (sha (join '':'' (label_prefix i iv))) = 32" "inv_WorkspaceID iv = []"
    "i = \<lparr>lb_domain = ''search'', lb_verb = ''grep'', lb_context = [pattern], lb_ident = []\<rparr>"
    "pattern = CHR ''a'' # concat (replicate 100 [CHR 0xC3, CHR 0xA9])"
  shows "valid_utf8 pattern" "\<not> valid_utf8 (buildBase sha i iv 0)"
proof -
  have v: "valid_utf8 (concat (replicate n [CHR 0xC3, CHR 0xA9]))" for n
    by (induction n) (simp_all add: valid_utf8_step starts_valid_def decode_rune.simps cont_byte_def rune_width_def rune_error_def)
  then show "valid_utf8 pattern" by (simp add: assms(4))
  define L where "L = join '':'' (label_prefix i iv)"
  define h where "h = shortHash sha L"
  have "length (hex_string s) = 2 * length s" for s by (induction s) (simp_all add: hex_string_def)
  then have h: "length h = 16" using assms(1) by (simp add: h_def L_def shortHash_def)
  have e: "enc pattern = pattern"
  proof -
    have "enc (concat (replicate n [CHR 0xC3, CHR 0xA9])) = concat (replicate n [CHR 0xC3, CHR 0xA9])" for n
      by (induction n) (simp_all add: enc_def enc_char_def reserved_def)
    then show ?thesis using assms(4) by (simp add: enc_def enc_char_def reserved_def)
  qed
  have pre: "label_ident i = []" "L = ''calm:v1:search:grep:'' @ pattern"
    using e assms(2) by (simp_all add: L_def assms(3) label_ident_def label_prefix_def enc_def [of "''search''"] enc_def [of "''grep''"] enc_char_def reserved_def)
  have len: "length pattern = 201" by (simp add: assms(4) length_concat sum_list_replicate)
  let ?u = "''calm:v1:search:grep:a'' @ concat (replicate 80 [CHR 0xC3, CHR 0xA9])"
  have rep: "concat (replicate 100 [CHR 0xC3, CHR 0xA9])
      = concat (replicate 80 [CHR 0xC3, CHR 0xA9]) @ CHR 0xC3 # CHR 0xA9 # concat (replicate 19 [CHR 0xC3, CHR 0xA9])"
  proof -
    have "replicate 100 [CHR 0xC3, CHR 0xA9] = replicate 80 [CHR 0xC3, CHR 0xA9] @ replicate (Suc 19) [CHR 0xC3, CHR 0xA9]"
      using replicate_add [of 80 "Suc 19" "[CHR 0xC3, CHR 0xA9]"] by simp
    then show ?thesis using replicate_Suc [of 19 "[CHR 0xC3, CHR 0xA9]"] by simp
  qed
  have cut: "take 182 (''calm:v1:search:grep:'' @ pattern) = ?u @ [CHR 0xC3]"
    by (simp add: assms(4) rep length_concat sum_list_replicate)
  have "length L = 221" unfolding pre(2) using len by simp
  then have "buildBase sha i iv 0 = take 182 L @ CHR '':'' # CHR ''h'' # h"
    using pre(1) h by (simp add: buildBase_def Let_def L_def [symmetric] h_def [symmetric] maxLabelLen_def)
  also have "\<dots> = ?u @ CHR 0xC3 # CHR '':'' # CHR ''h'' # h" unfolding pre(2) cut by simp
  finally have b: "buildBase sha i iv 0 = ?u @ CHR 0xC3 # CHR '':'' # CHR ''h'' # h" .
  have u: "valid_utf8 ?u" using v by simp
  show "\<not> valid_utf8 (buildBase sha i iv 0)"
    unfolding b using valid_append_iff [OF u] cut_rune_invalid by blast
qed

end
