(* ===== verification/Extract_Plan.thy ===== *)
theory Extract_Plan
  imports Extract_Label
begin

text \<open>
  Package internal/adapter/extract, files rules.go, extract.go, structured.go, edit.go and
  events.go: from an invocation and its result to the source labels it is stored under and
  the events it leaves. \<open>sha\<close> stands for \<open>sha256.Sum256\<close>, \<open>lower\<close> for \<open>strings.ToLower\<close>,
  \<open>unified\<close> for the unified diff that go-difflib prints for a path and two texts.
\<close>

section \<open>Classification\<close>

datatype CaptureMode = Replace | Dual | Coexist

record classification =
  cl_id :: labelID
  cl_mode :: CaptureMode
  cl_content :: string
  cl_format :: string

definition plan_code :: string where "plan_code = ''code''"
definition plan_prose :: string where "plan_prose = ''prose''"

definition fileReadProgs :: "string list" where
  "fileReadProgs = [''cat'', ''head'', ''tail'', ''less'', ''more'', ''bat'']"

definition grepProgs :: "string list" where
  "grepProgs = [''grep'', ''egrep'', ''fgrep'', ''rg'', ''ag'']"

definition gitSubs :: "string list" where "gitSubs = [''diff'', ''status'', ''log'', ''show'']"

definition codeExts :: "string list" where
  "codeExts =
     [''go'', ''py'', ''js'', ''ts'', ''tsx'', ''jsx'', ''java'', ''c'', ''h'', ''cpp'', ''hpp'', ''cc'', ''rs'', ''rb'',
      ''php'', ''cs'', ''kt'', ''swift'', ''scala'', ''sh'', ''sql'', ''proto'']"

definition identOf :: "string \<Rightarrow> string list" where
  "identOf rel = (if rel = [] \<or> rel = ''.'' then [] else [rel])"

definition relIdent :: "string \<Rightarrow> invocation \<Rightarrow> string list option" where
  "relIdent path iv =
     (case wsRel path iv of
        None \<Rightarrow> None
      | Some rel \<Rightarrow> if list_ex (\<lambda>c. c \<in> {CHR ''*'', CHR 0x3F, CHR ''[''}) rel then None else Some (identOf rel))"

fun relIdents :: "string list \<Rightarrow> invocation \<Rightarrow> string list option" where
  "relIdents [] iv = Some []"
| "relIdents (p # ps) iv =
     (case relIdent p iv of
        None \<Rightarrow> None
      | Some seg \<Rightarrow> map_option (\<lambda>out. seg @ out) (relIdents ps iv))"

definition path_kind :: "(string \<Rightarrow> string) \<Rightarrow> string \<Rightarrow> string" where
  "path_kind lower path = (let e = lower (path_ext path) in if e \<noteq> [] \<and> hd e = CHR ''.'' then tl e else e)"

definition contentForPath :: "(string \<Rightarrow> string) \<Rightarrow> string \<Rightarrow> string" where
  "contentForPath lower path = (if path_kind lower path \<in> set codeExts then plan_code else plan_prose)"

definition gitContent :: "string \<Rightarrow> string" where
  "gitContent sub = (if sub = ''diff'' \<or> sub = ''show'' then plan_code else plan_prose)"

definition file_id :: "string \<Rightarrow> string list \<Rightarrow> labelID" where
  "file_id verb ident = \<lparr>lb_domain = ''file'', lb_verb = verb, lb_context = [], lb_ident = ident\<rparr>"

definition git_id :: "string \<Rightarrow> string list \<Rightarrow> labelID" where
  "git_id sub ident = \<lparr>lb_domain = ''vcs'', lb_verb = ''git'', lb_context = [sub], lb_ident = ident\<rparr>"

definition shell_id :: "string \<Rightarrow> labelID" where
  "shell_id prog = \<lparr>lb_domain = ''shell'', lb_verb = [], lb_context = [], lb_ident = [prog]\<rparr>"

definition classifyFileRead :: "(string \<Rightarrow> string) \<Rightarrow> string list \<Rightarrow> invocation \<Rightarrow> classification option" where
  "classifyFileRead lower paths iv =
     (case relIdents paths iv of
        None \<Rightarrow> None
      | Some ident \<Rightarrow>
          if ident = [] then None
          else Some \<lparr>cl_id = file_id ''read'' ident, cl_mode = Replace, cl_content = contentForPath lower (hd paths), cl_format = []\<rparr>)"

definition buildFileRead :: "(string \<Rightarrow> string) \<Rightarrow> cmd \<Rightarrow> invocation \<Rightarrow> classification option" where
  "buildFileRead lower c iv = (if pathArgs c = [] then None else classifyFileRead lower (pathArgs c) iv)"

definition classifyList :: "string list \<Rightarrow> invocation \<Rightarrow> classification option" where
  "classifyList paths iv =
     map_option (\<lambda>ident. \<lparr>cl_id = file_id ''list'' ident, cl_mode = Replace, cl_content = plan_prose, cl_format = []\<rparr>)
       (relIdents paths iv)"

definition operandsOrCwd :: "cmd \<Rightarrow> string list" where
  "operandsOrCwd c = (if pathArgs c = [] then [''.''] else pathArgs c)"

definition buildFind :: "cmd \<Rightarrow> invocation \<Rightarrow> classification option" where
  "buildFind c iv =
     map_option (\<lambda>ident. \<lparr>cl_id = \<lparr>lb_domain = ''search'', lb_verb = ''find'', lb_context = [], lb_ident = ident\<rparr>,
                         cl_mode = Replace, cl_content = plan_prose, cl_format = []\<rparr>)
       (relIdents (operandsOrCwd c) iv)"

definition classifyGrep :: "string \<Rightarrow> string list \<Rightarrow> invocation \<Rightarrow> classification option" where
  "classifyGrep pattern scopes iv =
     map_option (\<lambda>ident. \<lparr>cl_id = \<lparr>lb_domain = ''search'', lb_verb = ''grep'', lb_context = [pattern], lb_ident = ident\<rparr>,
                         cl_mode = Replace, cl_content = plan_prose, cl_format = []\<rparr>)
       (relIdents scopes iv)"

definition buildGrep :: "cmd \<Rightarrow> invocation \<Rightarrow> classification option" where
  "buildGrep c iv = (case pathArgs c of [] \<Rightarrow> None | p # ps \<Rightarrow> classifyGrep p ps iv)"

fun gitOperands :: "string list \<Rightarrow> invocation \<Rightarrow> string list option" where
  "gitOperands [] iv = Some []"
| "gitOperands (op # ops) iv =
     (case wsRel op iv of
        None \<Rightarrow> None
      | Some rel \<Rightarrow> map_option (\<lambda>out. identOf rel @ out) (gitOperands ops iv))"

definition buildGit :: "cmd \<Rightarrow> invocation \<Rightarrow> classification option" where
  "buildGit c iv =
     (let refs = takeWhile (\<lambda>a. a \<noteq> ''--'') (args c);
          paths = drop (length refs + 1) (args c);
          mk = (\<lambda>ident. \<lparr>cl_id = git_id (subcommand c) ident, cl_mode = Dual, cl_content = gitContent (subcommand c), cl_format = []\<rparr>)
      in if refs = [] \<and> paths = [] then Some (mk (if subcommand c \<noteq> ''status'' then [''HEAD''] else []))
         else case gitOperands refs iv of
                None \<Rightarrow> None
              | Some rs \<Rightarrow>
                  if paths = [] then Some (mk rs)
                  else map_option (\<lambda>ps. mk (rs @ ''--'' # ps)) (gitOperands paths iv))"

type_synonym rule = "(cmd \<Rightarrow> bool) \<times> (cmd \<Rightarrow> invocation \<Rightarrow> classification option)"

definition buildRegistry :: "(string \<Rightarrow> string) \<Rightarrow> string \<Rightarrow> rule list" where
  "buildRegistry lower goos =
     (let win = (goos = ''windows'') in
      [(\<lambda>c. program c = ''git'' \<and> subcommand c \<in> set gitSubs, buildGit),
       (\<lambda>c. program c \<in> set fileReadProgs \<or> win \<and> program c = ''type'', buildFileRead lower),
       (\<lambda>c. program c = ''ls'' \<or> win \<and> program c = ''dir'', \<lambda>c. classifyList (operandsOrCwd c)),
       (\<lambda>c. program c \<in> set grepProgs \<or> win \<and> program c = ''findstr'', buildGrep),
       (\<lambda>c. program c = ''find'', buildFind)])"

definition classify :: "rule list \<Rightarrow> cmd \<Rightarrow> invocation \<Rightarrow> classification option" where
  "classify registry c iv =
     (if pipeline c \<or> hasOutputFlag c then None
      else case find (\<lambda>r. fst r c) registry of None \<Rightarrow> None | Some r \<Rightarrow> snd r c iv)"

section \<open>Text of events\<close>

definition sanitizeText :: "string \<Rightarrow> string" where
  "sanitizeText s =
     concat (map (\<lambda>r. if r = rune_error then [] else if r = 10 \<or> r = 9 then encode_rune r
                      else if r < 32 \<or> r = 127 then [] else encode_rune r) (runes s))"

text \<open>\<open>strings.ToValidUTF8(s, "")\<close>.\<close>

function to_valid :: "string \<Rightarrow> string" where
  "to_valid [] = []"
| "to_valid (a # s) =
     (if starts_valid (a # s) then take (rune_width (a # s)) (a # s) @ to_valid (drop (rune_width (a # s)) (a # s))
      else to_valid s)"
  by pat_completeness auto
termination
  by (relation "measure length") (use rune_width_pos in \<open>auto simp del: drop.simps\<close>)

declare to_valid.simps(2) [simp del]

definition bearer_mark :: re where
  "bearer_mark = RAlt (r_seq [r_ci_lit ''authorization:'', RStar (RSet re_space), r_ci_lit ''bearer'']) (r_ci_lit ''bearer'')"

definition option_mark :: re where
  "option_mark =
     r_seq [r_char CHR ''-'', r_opt (r_char CHR ''-''),
            r_alts [r_ci_lit ''password'', r_ci_lit ''passwd'', r_ci_lit ''token'', r_ci_lit ''secret'',
                    r_seq [r_ci_lit ''api'', r_opt (RSet (\<lambda>c. c = CHR ''_'' \<or> c = CHR ''-'')), r_ci_lit ''key'']]]"

definition some_word :: re where "some_word = r_plus (RSet (\<lambda>c. \<not> re_space c))"

definition redactSecrets :: "string \<Rightarrow> string" where
  "redactSecrets s =
     re_replace REps option_mark (RSeq (RAlt (r_char CHR ''='') (r_plus (RSet re_space))) some_word) ''=<redacted>'' None
       (re_replace RWord bearer_mark (RSeq (r_plus (RSet re_space)) some_word) '' <redacted>'' None s)"

definition maxTraceSnippet :: nat where "maxTraceSnippet = 512"
definition maxDiffBytes :: nat where "maxDiffBytes = 2048"

definition traceSnippet :: "string \<Rightarrow> string" where
  "traceSnippet stderr =
     (let s = trim_space stderr in
      if s = [] then []
      else let s = redactSecrets (sanitizeText s);
               s = (if length s > maxTraceSnippet then to_valid (drop (length s - maxTraceSnippet) s) else s)
           in trim_space s)"

definition sanitizeDiff :: "string \<Rightarrow> string \<times> bool" where
  "sanitizeDiff diff =
     (let s = trim_space diff in
      if s = [] then ([], False)
      else let s = redactSecrets (sanitizeText s) in
           if length s > maxDiffBytes then (trim_space (to_valid (take maxDiffBytes s)), True)
           else (trim_space s, False))"

section \<open>Plans\<close>

record ExecResult =
  ex_Stderr :: string
  ex_ExitCode :: int
  ex_TimedOut :: bool

datatype FileOperation = OperationEdit | OperationWrite | OperationCreate

fun operation_name :: "FileOperation \<Rightarrow> string" where
  "operation_name OperationEdit = ''edit''"
| "operation_name OperationWrite = ''write''"
| "operation_name OperationCreate = ''create''"

record fileTouchedFacts =
  ft_path :: string
  ft_operation :: FileOperation
  ft_diff :: string
  ft_truncated :: bool

record eventFacts =
  ef_toolName :: string
  ef_summary :: string
  ef_subcommand :: string
  ef_exitCode :: int
  ef_timedOut :: bool
  ef_isGit :: bool
  ef_invocationID :: int
  ef_errMessage :: string
  ef_traceSnippet :: string
  ef_fileTouched :: "fileTouchedFacts option"

record plan =
  pl_Mode :: CaptureMode
  pl_LatestSource :: string
  pl_HistorySource :: string
  pl_ContentType :: string
  pl_Format :: string
  pl_base :: eventFacts

definition toolName :: string where "toolName = ''calm_run_command''"

definition commandSummary :: "cmd \<Rightarrow> string" where
  "commandSummary c = (if subcommand c \<noteq> [] then program c @ CHR '' '' # subcommand c else program c)"

definition errorMessage :: "ExecResult \<Rightarrow> string" where
  "errorMessage r =
     (if ex_TimedOut r then ''command timed out'' else ''command exited with code '' @ json_int (ex_ExitCode r))"

definition event_facts :: "string \<Rightarrow> string \<Rightarrow> string \<Rightarrow> bool \<Rightarrow> invocation \<Rightarrow> ExecResult \<Rightarrow> eventFacts" where
  "event_facts tool summary sub isGit iv r =
     \<lparr>ef_toolName = tool, ef_summary = summary, ef_subcommand = sub, ef_exitCode = ex_ExitCode r,
      ef_timedOut = ex_TimedOut r, ef_isGit = isGit, ef_invocationID = inv_Seq iv,
      ef_errMessage = (if ex_ExitCode r \<noteq> 0 \<or> ex_TimedOut r then errorMessage r else []),
      ef_traceSnippet = (if ex_ExitCode r \<noteq> 0 \<or> ex_TimedOut r then traceSnippet (ex_Stderr r) else []),
      ef_fileTouched = None\<rparr>"

definition assemble :: "(string \<Rightarrow> string) \<Rightarrow> classification \<Rightarrow> invocation \<Rightarrow> eventFacts \<Rightarrow> plan" where
  "assemble sha cl iv facts =
     (let base = buildBase sha (cl_id cl) iv maxSeqSuffix in
      \<lparr>pl_Mode = cl_mode cl,
       pl_LatestSource = (case cl_mode cl of
           Replace \<Rightarrow> buildBase sha (cl_id cl) iv 0 | Dual \<Rightarrow> base | Coexist \<Rightarrow> []),
       pl_HistorySource = (case cl_mode cl of
           Replace \<Rightarrow> [] | _ \<Rightarrow> base @ seqSuffix (inv_Seq iv)),
       pl_ContentType = cl_content cl, pl_Format = cl_format cl, pl_base = facts\<rparr>)"

definition coexistPlan :: "(string \<Rightarrow> string) \<Rightarrow> labelID \<Rightarrow> invocation \<Rightarrow> eventFacts \<Rightarrow> plan" where
  "coexistPlan sha i iv facts =
     \<lparr>pl_Mode = Coexist, pl_LatestSource = [],
      pl_HistorySource = buildBase sha i iv maxSeqSuffix @ seqSuffix (inv_Seq iv),
      pl_ContentType = plan_prose, pl_Format = [], pl_base = facts\<rparr>"

definition coexistID :: "cmd \<Rightarrow> labelID" where
  "coexistID c = shell_id (if pipeline c \<or> program c = [] then ''sh'' else program c)"

text \<open>None is the error \<open>errUntranslatable\<close>.\<close>

definition DerivePlan ::
    "(string \<Rightarrow> string) \<Rightarrow> (string \<Rightarrow> string) \<Rightarrow> string \<Rightarrow> invocation \<Rightarrow> ExecResult \<Rightarrow> plan option" where
  "DerivePlan sha lower goos iv r =
     (case parse (inv_Command iv) of
        None \<Rightarrow> None
      | Some c \<Rightarrow>
          (let facts = event_facts toolName (commandSummary c) (subcommand c) (program c = ''git'') iv r in
           Some (case classify (buildRegistry lower goos) c iv of
                   None \<Rightarrow> coexistPlan sha (coexistID c) iv facts
                 | Some cl \<Rightarrow> assemble sha cl iv facts)))"

subsection \<open>Typed tools\<close>

definition formatForPath :: "(string \<Rightarrow> string) \<Rightarrow> string \<Rightarrow> string" where
  "formatForPath lower path =
     (let e = path_kind lower path in
      if e = ''json'' then ''json'' else if e = ''md'' \<or> e = ''markdown'' then ''markdown''
      else if e = ''csv'' then ''csv'' else if e = ''tsv'' then ''tsv'' else [])"

definition PlanFileRead ::
    "(string \<Rightarrow> string) \<Rightarrow> (string \<Rightarrow> string) \<Rightarrow> invocation \<Rightarrow> ExecResult \<Rightarrow> string \<Rightarrow> plan" where
  "PlanFileRead sha lower iv r path =
     (let facts = event_facts ''calm_read_file'' ''cat'' [] False iv r in
      case classifyFileRead lower [path] iv of
        None \<Rightarrow> coexistPlan sha (shell_id ''cat'') iv facts
      | Some cl \<Rightarrow> assemble sha (cl\<lparr>cl_format := formatForPath lower path\<rparr>) iv facts)"

definition PlanListDir :: "(string \<Rightarrow> string) \<Rightarrow> invocation \<Rightarrow> ExecResult \<Rightarrow> string \<Rightarrow> plan" where
  "PlanListDir sha iv r path =
     (let facts = event_facts ''calm_list_dir'' ''ls'' [] False iv r in
      case classifyList [if path = [] then ''.'' else path] iv of
        None \<Rightarrow> coexistPlan sha (shell_id ''ls'') iv facts
      | Some cl \<Rightarrow> assemble sha cl iv facts)"

definition PlanGrep :: "(string \<Rightarrow> string) \<Rightarrow> invocation \<Rightarrow> ExecResult \<Rightarrow> string \<Rightarrow> string list \<Rightarrow> plan" where
  "PlanGrep sha iv r pattern scopes =
     (let facts = event_facts ''calm_grep'' ''grep'' [] False iv r in
      case classifyGrep pattern (if scopes = [] then [''.''] else scopes) iv of
        None \<Rightarrow> coexistPlan sha (shell_id ''grep'') iv facts
      | Some cl \<Rightarrow> assemble sha cl iv facts)"

definition PlanGitStatus :: "(string \<Rightarrow> string) \<Rightarrow> invocation \<Rightarrow> ExecResult \<Rightarrow> plan" where
  "PlanGitStatus sha iv r =
     assemble sha \<lparr>cl_id = git_id ''status'' [], cl_mode = Dual, cl_content = gitContent ''status'', cl_format = []\<rparr> iv
       (event_facts ''calm_git_status'' ''git status'' ''status'' True iv r)"

definition PlanGitDiff ::
    "(string \<Rightarrow> string) \<Rightarrow> invocation \<Rightarrow> ExecResult \<Rightarrow> string list \<Rightarrow> string list \<Rightarrow> bool \<Rightarrow> plan" where
  "PlanGitDiff sha iv r refs paths staged =
     (let facts = event_facts ''calm_git_diff'' ''git diff'' ''diff'' True iv r;
          ident = (if staged then [''--staged''] else []) @ refs;
          mk = (\<lambda>ident. assemble sha
                 \<lparr>cl_id = git_id ''diff'' (if ident = [] then [''HEAD''] else ident), cl_mode = Dual,
                  cl_content = gitContent ''diff'', cl_format = []\<rparr> iv facts)
      in if paths = [] then mk ident
         else case relIdents paths iv of
                None \<Rightarrow> coexistPlan sha (shell_id ''git'') iv facts
              | Some ps \<Rightarrow> mk (ident @ ''--'' # ps))"

definition unifiedDiff :: "(string \<Rightarrow> string \<Rightarrow> string \<Rightarrow> string) \<Rightarrow> string \<Rightarrow> string \<Rightarrow> string \<Rightarrow> string" where
  "unifiedDiff unified path old new = (if old = new then [] else unified path old new)"

definition fileTouchedFor ::
    "(string \<Rightarrow> string \<Rightarrow> string \<Rightarrow> string) \<Rightarrow> string \<Rightarrow> FileOperation \<Rightarrow> string \<Rightarrow> string \<Rightarrow> bool \<Rightarrow> fileTouchedFacts" where
  "fileTouchedFor unified path op old new steady =
     (let path = (if steady then path else sanitizeText path);
          (diff, truncated) = sanitizeDiff (unifiedDiff unified path old new)
      in \<lparr>ft_path = path, ft_operation = op, ft_diff = diff, ft_truncated = truncated\<rparr>)"

definition planFileMutation ::
    "(string \<Rightarrow> string) \<Rightarrow> (string \<Rightarrow> string) \<Rightarrow> (string \<Rightarrow> string \<Rightarrow> string \<Rightarrow> string) \<Rightarrow> string \<Rightarrow> string
     \<Rightarrow> invocation \<Rightarrow> ExecResult \<Rightarrow> string \<Rightarrow> FileOperation \<Rightarrow> string \<Rightarrow> string \<Rightarrow> plan" where
  "planFileMutation sha lower unified tool prog iv r path op old new =
     (let ident = relIdent path iv;
          eventPath = (case ident of None \<Rightarrow> path | Some [x] \<Rightarrow> x | Some _ \<Rightarrow> ''.'');
          facts = (event_facts tool prog [] False iv r)
                    \<lparr>ef_fileTouched := Some (fileTouchedFor unified eventPath op old new (ident \<noteq> None))\<rparr>
      in case ident of
           None \<Rightarrow> coexistPlan sha (shell_id prog) iv facts
         | Some i \<Rightarrow>
             \<lparr>pl_Mode = Dual, pl_LatestSource = buildBase sha (file_id ''read'' i) iv 0,
              pl_HistorySource = buildBase sha (file_id ''edit'' i) iv maxSeqSuffix @ seqSuffix (inv_Seq iv),
              pl_ContentType = contentForPath lower path, pl_Format = formatForPath lower path, pl_base = facts\<rparr>)"

definition PlanFileEdit where
  "PlanFileEdit sha lower unified iv r path old new =
     planFileMutation sha lower unified ''calm_edit_file'' ''sed'' iv r path OperationEdit old new"

definition PlanFileWrite where
  "PlanFileWrite sha lower unified iv r path op old new =
     planFileMutation sha lower unified ''calm_write_file'' ''tee'' iv r path op old new"

section \<open>Events\<close>

datatype jval = VStr string | VInt int | VBool bool

record eventDraft =
  ed_Type :: string
  ed_Priority :: int
  ed_Data :: "string \<rightharpoonup> jval"
  ed_latestLink :: string
  ed_historyLink :: string

record eventInput =
  ei_Type :: string
  ei_Priority :: int
  ei_Data :: "string \<rightharpoonup> jval"

record writeOutcome =
  wo_Source :: string
  wo_Persisted :: bool

definition when_set :: "bool \<Rightarrow> string \<Rightarrow> jval \<Rightarrow> (string \<rightharpoonup> jval) \<Rightarrow> (string \<rightharpoonup> jval)" where
  "when_set b k v m = (if b then m(k \<mapsto> v) else m)"

definition invocation_draft :: "plan \<Rightarrow> eventDraft" where
  "invocation_draft p =
     (let f = pl_base p in
      \<lparr>ed_Type = ''tool_invocation'', ed_Priority = 3,
       ed_Data = [''tool_name'' \<mapsto> VStr (ef_toolName f), ''command'' \<mapsto> VStr (ef_summary f),
                  ''exit_code'' \<mapsto> VInt (ef_exitCode f), ''invocation_id'' \<mapsto> VInt (ef_invocationID f)],
       ed_latestLink = pl_LatestSource p, ed_historyLink = pl_HistorySource p\<rparr>)"

definition error_draft :: "eventFacts \<Rightarrow> eventDraft" where
  "error_draft f =
     \<lparr>ed_Type = ''error_observed'', ed_Priority = 2,
      ed_Data = when_set (ef_traceSnippet f \<noteq> []) ''trace_snippet'' (VStr (ef_traceSnippet f))
                  [''message'' \<mapsto> VStr (ef_errMessage f), ''source'' \<mapsto> VStr (ef_toolName f),
                   ''exit_code'' \<mapsto> VInt (ef_exitCode f), ''invocation_id'' \<mapsto> VInt (ef_invocationID f)],
      ed_latestLink = [], ed_historyLink = []\<rparr>"

definition git_draft :: "eventFacts \<Rightarrow> eventDraft" where
  "git_draft f =
     \<lparr>ed_Type = ''git_operation'', ed_Priority = 2,
      ed_Data = when_set (ef_subcommand f \<noteq> []) ''subcommand'' (VStr (ef_subcommand f))
                  [''command'' \<mapsto> VStr (ef_summary f), ''invocation_id'' \<mapsto> VInt (ef_invocationID f)],
      ed_latestLink = [], ed_historyLink = []\<rparr>"

definition file_draft :: "plan \<Rightarrow> fileTouchedFacts \<Rightarrow> eventDraft" where
  "file_draft p t =
     \<lparr>ed_Type = ''file_touched'', ed_Priority = 1,
      ed_Data = when_set (ft_truncated t) ''diff_truncated'' (VBool True)
                  (when_set (ft_diff t \<noteq> []) ''diff'' (VStr (ft_diff t))
                    [''path'' \<mapsto> VStr (ft_path t), ''operation'' \<mapsto> VStr (operation_name (ft_operation t)),
                     ''invocation_id'' \<mapsto> VInt (ef_invocationID (pl_base p))]),
      ed_latestLink = pl_LatestSource p, ed_historyLink = pl_HistorySource p\<rparr>"

definition DeriveEvents :: "plan \<Rightarrow> eventDraft list" where
  "DeriveEvents p =
     (let f = pl_base p in
      [invocation_draft p]
      @ (if ef_exitCode f \<noteq> 0 \<or> ef_timedOut f then [error_draft f] else [])
      @ (if ef_isGit f then [git_draft f] else [])
      @ (case ef_fileTouched f of None \<Rightarrow> [] | Some t \<Rightarrow> [file_draft p t]))"

definition apply_outcome :: "string set \<Rightarrow> eventDraft \<Rightarrow> eventInput" where
  "apply_outcome persisted d =
     \<lparr>ei_Type = ed_Type d, ei_Priority = ed_Priority d,
      ei_Data = when_set (ed_historyLink d \<noteq> [] \<and> ed_historyLink d \<in> persisted) ''history_source'' (VStr (ed_historyLink d))
                  (when_set (ed_latestLink d \<noteq> [] \<and> ed_latestLink d \<in> persisted) ''latest_source'' (VStr (ed_latestLink d))
                    (ed_Data d))\<rparr>"

definition ApplyOutcomes :: "eventDraft list \<Rightarrow> writeOutcome list \<Rightarrow> eventInput list" where
  "ApplyOutcomes drafts outcomes =
     map (apply_outcome (set (map wo_Source (filter wo_Persisted outcomes)))) drafts"

definition FinalizeEvents :: "plan \<Rightarrow> writeOutcome list \<Rightarrow> eventInput list" where
  "FinalizeEvents p outcomes = ApplyOutcomes (DeriveEvents p) outcomes"

section \<open>Labels of plans\<close>

lemma itoa_length: "n < 10 ^ k \<Longrightarrow> 0 < k \<Longrightarrow> length (itoa n) \<le> k"
proof (induction n arbitrary: k rule: itoa.induct)
  case (1 n)
  show ?case
  proof (cases "n < 10")
    case True
    then show ?thesis using "1.prems" by (simp add: itoa.simps)
  next
    case False
    obtain j where j: "k = Suc j" "0 < j" using False "1.prems" by (cases k; cases "k - 1") auto
    have "n div 10 < 10 ^ j" using "1.prems"(1) j(1) by (simp add: less_mult_imp_div_less mult.commute)
    then have "length (itoa (n div 10)) \<le> j" using "1.IH" False j(2) by simp
    then show ?thesis using False j(1) by (simp add: itoa.simps [of n])
  qed
qed

lemma seqSuffix_length:
  assumes "0 \<le> n" "n < 10 ^ 12"
  shows "length (seqSuffix n) \<le> maxSeqSuffix"
proof -
  have "nat n < 10 ^ 12" using assms by (simp add: nat_less_iff)
  then show ?thesis using itoa_length [of "nat n" 12] assms(1) by (simp add: seqSuffix_def json_int_def maxSeqSuffix_def)
qed

text \<open>Every plan an invocation can get.\<close>

definition plan_of ::
    "(string \<Rightarrow> string) \<Rightarrow> (string \<Rightarrow> string) \<Rightarrow> (string \<Rightarrow> string \<Rightarrow> string \<Rightarrow> string) \<Rightarrow> string
     \<Rightarrow> invocation \<Rightarrow> ExecResult \<Rightarrow> plan \<Rightarrow> bool" where
  "plan_of sha lower unified goos iv r p \<longleftrightarrow>
     DerivePlan sha lower goos iv r = Some p
     \<or> (\<exists>path. p = PlanFileRead sha lower iv r path) \<or> (\<exists>path. p = PlanListDir sha iv r path)
     \<or> (\<exists>pattern scopes. p = PlanGrep sha iv r pattern scopes) \<or> p = PlanGitStatus sha iv r
     \<or> (\<exists>refs paths staged. p = PlanGitDiff sha iv r refs paths staged)
     \<or> (\<exists>tool prog path op old new. p = planFileMutation sha lower unified tool prog iv r path op old new)"

text \<open>The two source fields are built from labels.\<close>

definition labelled :: "(string \<Rightarrow> string) \<Rightarrow> invocation \<Rightarrow> plan \<Rightarrow> bool" where
  "labelled sha iv p \<longleftrightarrow>
     (pl_LatestSource p = [] \<or> (\<exists>i k. k \<le> maxSeqSuffix \<and> pl_LatestSource p = buildBase sha i iv k))
     \<and> (pl_HistorySource p = [] \<or> (\<exists>i. pl_HistorySource p = buildBase sha i iv maxSeqSuffix @ seqSuffix (inv_Seq iv)))
     \<and> (pl_Mode p \<noteq> Coexist \<longleftrightarrow> pl_LatestSource p \<noteq> []) \<and> (pl_Mode p \<noteq> Replace \<longleftrightarrow> pl_HistorySource p \<noteq> [])"

lemma buildBase_not_Nil: "buildBase sha i iv k \<noteq> []"
proof -
  have "join '':'' (label_prefix i iv @ ps) \<noteq> []" for ps
    by (cases ps; cases "lb_verb i = []"; cases "inv_WorkspaceID iv = []"; cases "lb_context i")
      (auto simp: label_prefix_def)
  from this [of "[]"] this [of "label_ident i"] this [of "[CHR ''h'' # s]" for s]
  show ?thesis by (auto simp: buildBase_def Let_def)
qed

lemma seqSuffix_not_Nil: "seqSuffix n \<noteq> []"
  by (simp add: seqSuffix_def)

lemma assemble_labelled: "labelled sha iv (assemble sha cl iv facts)"
  using buildBase_not_Nil [of sha] seqSuffix_not_Nil
  by (cases "cl_mode cl") (auto simp: labelled_def assemble_def Let_def)

lemma coexist_labelled: "labelled sha iv (coexistPlan sha i iv facts)"
  by (auto simp: labelled_def coexistPlan_def seqSuffix_not_Nil)

lemma mutation_labelled: "labelled sha iv (planFileMutation sha lower unified tool prog iv r path op old new)"
proof (cases "relIdent path iv")
  case None
  then show ?thesis using coexist_labelled by (simp add: planFileMutation_def Let_def)
next
  case (Some i)
  then show ?thesis using buildBase_not_Nil [of sha] seqSuffix_not_Nil
    by (auto simp: planFileMutation_def Let_def labelled_def)
qed

lemma plan_of_labelled:
  assumes "plan_of sha lower unified goos iv r p"
  shows "labelled sha iv p"
proof -
  note lb = assemble_labelled coexist_labelled
  have "labelled sha iv p" if "DerivePlan sha lower goos iv r = Some p"
    using that lb by (auto simp: DerivePlan_def Let_def split: option.splits)
  moreover have "labelled sha iv (PlanFileRead sha lower iv r path)" for path
    using lb by (auto simp: PlanFileRead_def Let_def split: option.splits)
  moreover have "labelled sha iv (PlanListDir sha iv r path)" for path
    using lb by (auto simp: PlanListDir_def Let_def split: option.splits)
  moreover have "labelled sha iv (PlanGrep sha iv r pattern scopes)" for pattern scopes
    using lb by (auto simp: PlanGrep_def Let_def split: option.splits)
  moreover have "labelled sha iv (PlanGitStatus sha iv r)" using lb by (auto simp: PlanGitStatus_def)
  moreover have "labelled sha iv (PlanGitDiff sha iv r refs paths staged)" for refs paths staged
    unfolding PlanGitDiff_def Let_def
    by (cases "paths = []"; cases "relIdents paths iv") (simp_all add: lb)
  ultimately show ?thesis using assms mutation_labelled unfolding plan_of_def by blast
qed

lemma buildBase_parse_chars: "CHR ''@'' \<notin> set (buildBase sha i iv k)" "CHR ''#'' \<notin> set (buildBase sha i iv k)"
  using buildBase_chars [of _ sha i iv k] by (auto simp: label_char_def)

lemma labelled_bounds:
  assumes "labelled sha iv p" "0 \<le> inv_Seq iv" "inv_Seq iv < 10 ^ 12"
  shows "length (pl_LatestSource p) \<le> maxLabelLen" "length (pl_HistorySource p) \<le> maxLabelLen"
proof -
  have "length (buildBase sha i iv k) \<le> maxLabelLen - k" if "k \<le> maxSeqSuffix" for i k
    using that buildBase_length [of k sha i iv] by (simp add: maxSeqSuffix_def)
  moreover have "length (seqSuffix (inv_Seq iv)) \<le> maxSeqSuffix" using seqSuffix_length assms(2,3) by blast
  moreover have "length (buildBase sha i iv maxSeqSuffix @ seqSuffix (inv_Seq iv)) \<le> maxLabelLen" for i
    using calculation(1) [of maxSeqSuffix i] calculation(2) by (simp add: maxSeqSuffix_def maxLabelLen_def)
  moreover have "length (buildBase sha i iv k) \<le> maxLabelLen" if "k \<le> maxSeqSuffix" for i k
    using calculation(1) [OF that, of i] by simp
  ultimately show "length (pl_LatestSource p) \<le> maxLabelLen" "length (pl_HistorySource p) \<le> maxLabelLen"
    using assms(1) unfolding labelled_def by (metis le0 list.size(3))+
qed

lemma labelled_parse:
  assumes "labelled sha iv p" "0 \<le> inv_Seq iv" "inv_Seq iv < 2 ^ 63" "isValidToken tok"
  shows "pl_LatestSource p \<noteq> [] \<Longrightarrow> ParseSource (pl_LatestSource p @ CHR ''@'' # tok) = (pl_LatestSource p, -1, tok)"
    "pl_HistorySource p \<noteq> [] \<Longrightarrow>
      \<exists>base. pl_HistorySource p = base @ seqSuffix (inv_Seq iv) \<and> ParseSource (pl_HistorySource p @ CHR ''@'' # tok) = (base, inv_Seq iv, tok)"
proof -
  note parts = ParseSource_parts [OF buildBase_parse_chars assms(4)]
  show "pl_LatestSource p \<noteq> [] \<Longrightarrow> ParseSource (pl_LatestSource p @ CHR ''@'' # tok) = (pl_LatestSource p, -1, tok)"
    using assms(1) parts(1) unfolding labelled_def by metis
  show "pl_HistorySource p \<noteq> [] \<Longrightarrow>
      \<exists>base. pl_HistorySource p = base @ seqSuffix (inv_Seq iv) \<and> ParseSource (pl_HistorySource p @ CHR ''@'' # tok) = (base, inv_Seq iv, tok)"
    using assms(1) parts(2) [OF assms(2,3)] unfolding labelled_def by (metis append_assoc)
qed

section \<open>The same document, the same label\<close>

lemma relIdents_one: "relIdents [p] iv = relIdent p iv"
  by (cases "relIdent p iv") auto

lemma edit_latest_is_read_latest:
  assumes "relIdent path iv = Some i" "i \<noteq> []"
  shows "pl_LatestSource (planFileMutation sha lower unified tool prog iv r path op old new)
    = pl_LatestSource (PlanFileRead sha lower iv r' path)"
  using assms by (simp add: planFileMutation_def PlanFileRead_def classifyFileRead_def relIdents_one assemble_def Let_def)

text \<open>A word that no shell syntax touches.\<close>

definition plain_word :: "string \<Rightarrow> bool" where
  "plain_word w \<longleftrightarrow> w \<noteq> [] \<and> (\<forall>c\<in>set w. 32 < byte c \<and> byte c < 127 \<and> c \<notin> shellMeta \<and> byte c \<notin> {34, 39, 92})"

definition quiet :: "tok_state \<Rightarrow> bool" where
  "quiet st \<longleftrightarrow> tk_quote st = 0 \<and> \<not> tk_pend st \<and> \<not> tk_dq st"

lemma encode_ascii: "byte c < 128 \<Longrightarrow> encode_rune (byte c) = [c]"
  by (simp add: encode_rune_def scalar_def encode_scalar_def)

lemma tok_word:
  "quiet st \<Longrightarrow> \<forall>c\<in>set w. 32 < byte c \<and> byte c < 127 \<and> byte c \<notin> {34, 39, 92} \<Longrightarrow>
    fold tok_step (map byte w) st = (if w = [] then st else st\<lparr>tk_buf := tk_buf st @ w, tk_in := True\<rparr>)"
proof (induction w arbitrary: st)
  case (Cons c w)
  have e: "encode_rune (byte c) = [c]" using Cons.prems(2) encode_ascii [of c] by simp
  have "tok_step (byte c) st = st\<lparr>tk_buf := tk_buf st @ [c], tk_in := True\<rparr>"
    using Cons.prems by (auto simp: tok_step_def quiet_def put_def e)
  then show ?case using Cons.IH [of "st\<lparr>tk_buf := tk_buf st @ [c], tk_in := True\<rparr>"] Cons.prems
    by (cases w) (auto simp: quiet_def)
qed simp

lemma tokenize_two:
  assumes "plain_word u" "plain_word w"
  shows "tokenize (u @ CHR '' '' # w) = [u, w]"
proof -
  have a: "\<forall>c\<in>set u. 32 < byte c \<and> byte c < 127 \<and> byte c \<notin> {34, 39, 92}" "\<forall>c\<in>set w. 32 < byte c \<and> byte c < 127 \<and> byte c \<notin> {34, 39, 92}"
    using assms by (auto simp: plain_word_def)
  have "\<forall>c\<in>set (u @ CHR '' '' # w). byte c < 128" using a by force
  then have r: "runes (u @ CHR '' '' # w) = map byte u @ 32 # map byte w" using ascii_runes by fastforce
  have ne: "u \<noteq> []" "w \<noteq> []" using assms by (auto simp: plain_word_def)
  have q: "quiet tok_start" by (simp add: quiet_def tok_start_def)
  have one: "fold tok_step (map byte u) tok_start = tok_start\<lparr>tk_buf := u, tk_in := True\<rparr>"
    using tok_word [OF q a(1)] ne by (simp add: tok_start_def)
  have two: "tok_step 32 (tok_start\<lparr>tk_buf := u, tk_in := True\<rparr>) = tok_start\<lparr>tk_toks := [u]\<rparr>"
    by (simp add: tok_step_def tok_start_def tok_flush_def)
  have three: "fold tok_step (map byte w) (tok_start\<lparr>tk_toks := [u]\<rparr>) = tok_start\<lparr>tk_toks := [u], tk_buf := w, tk_in := True\<rparr>"
    using tok_word [of "tok_start\<lparr>tk_toks := [u]\<rparr>" w] a(2) ne by (simp add: tok_start_def quiet_def)
  show ?thesis by (simp add: tokenize_def r one two three) (simp add: tok_start_def tok_flush_def)
qed

lemma trim_plain:
  assumes "s \<noteq> []" "\<forall>c\<in>set s. byte c < 128" "\<not> is_space (byte (hd s))" "\<not> is_space (byte (last s))"
  shows "trim_space s = s"
proof -
  obtain c w where s: "s = c # w" using assms(1) by (cases s) auto
  have "trim_left s = s" using assms(2,3) by (simp add: s trim_left.simps)
  moreover have "trim_right s = s"
    using assms by (subst trim_right.simps) (simp add: decode_last_rune_def)
  ultimately show ?thesis by (simp add: trim_space_def)
qed

lemma plain_not_space: "32 < byte c \<Longrightarrow> byte c < 127 \<Longrightarrow> \<not> is_space (byte c)"
  by (auto simp: is_space_def)

lemma parse_cat:
  assumes "plain_word path" "\<not> has_prefix path ''-''"
  shows "parse (''cat '' @ path) = Some \<lparr>program = ''cat'', subcommand = [], args = [path], pipeline = False\<rparr>"
proof -
  have cat: "plain_word ''cat''" by (simp add: plain_word_def shellMeta_def newline_def)
  have ne: "path \<noteq> []" and chars: "\<forall>c\<in>set path. 32 < byte c \<and> byte c < 127 \<and> c \<notin> shellMeta"
    using assms(1) by (auto simp: plain_word_def)
  have "trim_space (''cat '' @ path) = ''cat '' @ path"
  proof (rule trim_plain)
    show "\<forall>c\<in>set (''cat '' @ path). byte c < 128" using chars by auto
    show "\<not> is_space (byte (last (''cat '' @ path)))" using chars plain_not_space ne by (simp add: last_in_set)
  qed (simp_all add: is_space_def)
  moreover have "list_all (\<lambda>c. c \<notin> shellMeta) (''cat '' @ path)"
    using chars by (auto simp: list_all_iff shellMeta_def newline_def)
  moreover have "tokenize (''cat '' @ path) = [''cat'', path]" using tokenize_two [OF cat assms(1)] by simp
  moreover have "stripAssignmentPrefixes [''cat'', path] = [''cat'', path]"
    by (simp add: IsAssignmentPrefix_def)
  moreover have "path_base ''cat'' = ''cat''" by (simp add: path_base_def trim_right_set_def slash_def)
  moreover have "path \<notin> set cosmeticFlags" using assms(2) by (auto simp: cosmeticFlags_def has_prefix_def)
  ultimately show ?thesis by (simp add: parse_def Let_def)
qed

lemma shell_read_is_typed_read:
  assumes "inv_Command iv = ''cat '' @ path" "plain_word path" "\<not> has_prefix path ''-''"
    "relIdent path iv = Some i" "i \<noteq> []"
  shows "map_option pl_LatestSource (DerivePlan sha lower goos iv r) = Some (pl_LatestSource (PlanFileRead sha lower iv r' path))"
proof -
  let ?c = "\<lparr>program = ''cat'', subcommand = [], args = [path], pipeline = False\<rparr>"
  have "path \<noteq> ''--''" using assms(3) by (auto simp: has_prefix_def)
  then have "classify (buildRegistry lower goos) ?c iv = classifyFileRead lower [path] iv"
    using assms(3) by (simp add: classify_def hasOutputFlag_def buildRegistry_def Let_def buildFileRead_def pathArgs_def
        fileReadProgs_def)
  then show ?thesis
    using parse_cat [OF assms(2,3)] assms(1,4,5)
    by (simp add: DerivePlan_def PlanFileRead_def classifyFileRead_def relIdents_one assemble_def Let_def)
qed

section \<open>Bounds and links of events\<close>

lemma to_valid_length: "length (to_valid s) \<le> length s"
proof (induction s rule: to_valid.induct)
  case (2 a s)
  then show ?case using rune_width_le [of "a # s"] by (auto simp: to_valid.simps(2))
qed simp

lemma clipped_length:
  "length t \<le> n \<Longrightarrow> length (trim_space t) \<le> n" "length t \<le> n \<Longrightarrow> length (to_valid t) \<le> n"
  using length_trim_space [of t] to_valid_length [of t] by linarith+

lemma traceSnippet_length: "length (traceSnippet s) \<le> maxTraceSnippet"
  by (auto simp: traceSnippet_def Let_def intro!: clipped_length)

lemma sanitizeDiff_length: "length (fst (sanitizeDiff s)) \<le> maxDiffBytes"
  by (auto simp: sanitizeDiff_def Let_def intro!: clipped_length)

lemma draft_links:
  "d \<in> set (DeriveEvents p) \<Longrightarrow> ed_latestLink d \<in> {[], pl_LatestSource p} \<and> ed_historyLink d \<in> {[], pl_HistorySource p}
     \<and> ed_Data d ''latest_source'' = None \<and> ed_Data d ''history_source'' = None"
  by (auto simp: DeriveEvents_def Let_def invocation_draft_def error_draft_def git_draft_def file_draft_def when_set_def
      split: if_splits option.splits)

lemma final_links:
  assumes "e \<in> set (FinalizeEvents p outcomes)"
  shows "ei_Data e ''latest_source'' = Some v \<Longrightarrow> v = VStr (pl_LatestSource p) \<and> (\<exists>w\<in>set outcomes. wo_Persisted w \<and> wo_Source w = pl_LatestSource p)"
    "ei_Data e ''history_source'' = Some v \<Longrightarrow> v = VStr (pl_HistorySource p) \<and> (\<exists>w\<in>set outcomes. wo_Persisted w \<and> wo_Source w = pl_HistorySource p)"
proof -
  let ?P = "set (map wo_Source (filter wo_Persisted outcomes))"
  obtain d where d: "d \<in> set (DeriveEvents p)" "e = apply_outcome ?P d"
    using assms by (auto simp: FinalizeEvents_def ApplyOutcomes_def)
  note l = draft_links [OF d(1)]
  show "ei_Data e ''latest_source'' = Some v \<Longrightarrow> v = VStr (pl_LatestSource p) \<and> (\<exists>w\<in>set outcomes. wo_Persisted w \<and> wo_Source w = pl_LatestSource p)"
    using l by (auto simp: d(2) apply_outcome_def when_set_def split: if_splits)
  show "ei_Data e ''history_source'' = Some v \<Longrightarrow> v = VStr (pl_HistorySource p) \<and> (\<exists>w\<in>set outcomes. wo_Persisted w \<and> wo_Source w = pl_HistorySource p)"
    using l by (auto simp: d(2) apply_outcome_def when_set_def split: if_splits)
qed

end
