(* ===== verification/Capture_Registry.thy ===== *)
theory Capture_Registry
  imports Extract_Plan "HOL-Library.AList"
begin

text \<open>
  internal/adapter/capture/registry.go: the staleness tokens of the sources a session has
  captured. A registry is an association list with distinct keys; the order of its entries is
  never observed. A fused label \<open>source@token\<close> is accepted while the token is the current
  one of its source.
\<close>

record sourceToken =
  tk_Source :: string
  tk_Token :: string

type_synonym registry_map = "(string \<times> string) list"

definition NewRegistry :: registry_map where "NewRegistry = []"

definition Registry_Record :: "string \<Rightarrow> string \<Rightarrow> registry_map \<Rightarrow> registry_map" where
  "Registry_Record source token r = (if source = [] \<or> token = [] then r else AList.update source token r)"

text \<open>The key under which a parsed label is registered.\<close>

definition registry_key :: "string \<Rightarrow> int \<Rightarrow> string" where
  "registry_key base n = (if 0 \<le> n then base @ CHR ''#'' # json_int n else base)"

definition ValidateAndStrip :: "string \<Rightarrow> registry_map \<Rightarrow> string option" where
  "ValidateAndStrip label r =
     (case ParseSource label of (base, n, token) \<Rightarrow>
        if token = [] then (if CHR ''@'' \<in> set label then None else Some label)
        else if map_of r (registry_key base n) = Some token then Some (registry_key base n) else None)"

definition Registry_Reset :: "registry_map \<Rightarrow> registry_map" where "Registry_Reset r = []"

definition Registry_Snapshot :: "registry_map \<Rightarrow> registry_map" where "Registry_Snapshot r = r"

definition Registry_Load :: "registry_map \<Rightarrow> registry_map \<Rightarrow> registry_map" where "Registry_Load tokens r = tokens"

definition record_delta :: "sourceToken list \<Rightarrow> registry_map \<Rightarrow> registry_map" where
  "record_delta delta r = fold (\<lambda>d. AList.update (tk_Source d) (tk_Token d)) delta r"

text \<open>The label shown to the agent.\<close>

definition fuseSource :: "string \<Rightarrow> string \<Rightarrow> string" where
  "fuseSource source token = (if token = [] then source else source @ CHR ''@'' # token)"

section \<open>Lookups\<close>

lemma map_of_Record:
  "map_of (Registry_Record source token r) =
     (if source = [] \<or> token = [] then map_of r else (map_of r)(source \<mapsto> token))"
  by (simp add: Registry_Record_def update_conv')

lemma distinct_Record: "distinct (map fst r) \<Longrightarrow> distinct (map fst (Registry_Record source token r))"
  by (simp add: Registry_Record_def distinct_update)

lemma record_delta_distinct: "distinct (map fst r) \<Longrightarrow> distinct (map fst (record_delta delta r))"
  by (induction delta arbitrary: r) (simp_all add: record_delta_def distinct_update)

lemma map_of_delta_other:
  "k \<notin> tk_Source ` set delta \<Longrightarrow> map_of (record_delta delta r) k = map_of r k"
  by (induction delta arbitrary: r) (auto simp: record_delta_def update_conv')

lemma map_of_delta:
  assumes "k \<in> tk_Source ` set delta" "\<forall>d\<in>set delta. tk_Token d = token"
  shows "map_of (record_delta delta r) k = Some token"
  using assms
proof (induction delta arbitrary: r)
  case (Cons d ds)
  show ?case
  proof (cases "k \<in> tk_Source ` set ds")
    case True
    then show ?thesis using Cons by (simp add: record_delta_def)
  next
    case False
    then have "k = tk_Source d" using Cons.prems by auto
    then show ?thesis using map_of_delta_other [OF False] Cons.prems by (simp add: record_delta_def update_conv')
  qed
qed simp

lemma map_of_delta_Some:
  "map_of (record_delta delta r) k = Some t \<Longrightarrow> (\<exists>d\<in>set delta. tk_Source d = k \<and> tk_Token d = t) \<or> map_of r k = Some t"
  by (induction delta arbitrary: r) (fastforce simp: record_delta_def update_conv' split: if_splits)+

section \<open>Validation\<close>

text \<open>A label without a token passes through unless it has a stray at sign.\<close>

lemma Validate_plain: "CHR ''@'' \<notin> set label \<Longrightarrow> ValidateAndStrip label r = Some label"
proof -
  assume "CHR ''@'' \<notin> set label"
  then have "last_index_byte CHR ''@'' label = None" by (simp add: last_index_byte_None)
  then have "snd (snd (ParseSource label)) = []" by (simp add: ParseSource_def split: option.splits)
  then show ?thesis using \<open>CHR ''@'' \<notin> set label\<close> by (cases "ParseSource label") (auto simp: ValidateAndStrip_def)
qed

text \<open>After a reset no fused label is accepted.\<close>

lemma Validate_fused:
  assumes "ParseSource label = (base, n, token)" "token \<noteq> []"
  shows "ValidateAndStrip label r =
    (if map_of r (registry_key base n) = Some token then Some (registry_key base n) else None)"
  by (simp add: ValidateAndStrip_def assms)

lemma Validate_Reset: "ValidateAndStrip label (Registry_Reset r) \<noteq> None \<Longrightarrow> CHR ''@'' \<notin> set label"
  by (auto simp: ValidateAndStrip_def Registry_Reset_def split: prod.splits if_splits)

text \<open>
  A source of a plan, fused with a token, is accepted exactly while that token is the one
  registered for the source.
\<close>

lemma plan_source_validates:
  assumes "labelled sha iv p" "0 \<le> inv_Seq iv" "inv_Seq iv < 2 ^ 63" "isValidToken token"
    "source \<in> {pl_LatestSource p, pl_HistorySource p}" "source \<noteq> []"
  shows "ValidateAndStrip (fuseSource source token) r = (if map_of r source = Some token then Some source else None)"
proof -
  have t: "token \<noteq> []" using assms(4) by (auto simp: isValidToken_def TokenLen_def)
  have f: "fuseSource source token = source @ CHR ''@'' # token" using t by (simp add: fuseSource_def)
  show ?thesis
  proof (cases "source = pl_LatestSource p")
    case True
    then have "ParseSource (fuseSource source token) = (source, -1, token)"
      using labelled_parse(1) [OF assms(1-4)] assms(6) f by simp
    from Validate_fused [OF this t] show ?thesis by (simp add: registry_key_def)
  next
    case False
    then have h: "source = pl_HistorySource p" using assms(5) by simp
    obtain base where b: "source = base @ seqSuffix (inv_Seq iv)"
        "ParseSource (fuseSource source token) = (base, inv_Seq iv, token)"
      using labelled_parse(2) [OF assms(1-4)] assms(6) h f by auto
    have "registry_key base (inv_Seq iv) = source" using assms(2) b(1) by (simp add: registry_key_def seqSuffix_def)
    then show ?thesis using Validate_fused [OF b(2) t] by simp
  qed
qed

end
