(* ===== verification/Calm_Client.thy ===== *)
theory Calm_Client
  imports Go_Json Extract_Plan
begin

text \<open>
  internal/adapter/calm: the adapter's port onto the HTTP service. \<open>calm_api\<close> is the interface
  the rest of the adapter calls; its operations act on a world of type \<open>'c\<close>, the service
  behind the network. The client of genapi_client.go is modelled over the responses of the
  generated HTTP client, which is a parameter.
\<close>

section \<open>Errors\<close>

text \<open>A \<open>StatusError\<close> with operation, code and status line, or the error of the transport.\<close>

datatype calm_error = StatusError string int string | TransportError string

fun error_text :: "calm_error \<Rightarrow> string" where
  "error_text (StatusError op_name code status) = op_name @ '': '' @ status"
| "error_text (TransportError e) = e"

text \<open>\<open>errors.Is(err, ErrSessionNotFound)\<close> and \<open>errors.Is(err, ErrAuthRejected)\<close>.\<close>

fun session_not_found :: "calm_error \<Rightarrow> bool" where
  "session_not_found (StatusError _ code _) \<longleftrightarrow> code = 404"
| "session_not_found (TransportError _) \<longleftrightarrow> False"

fun auth_rejected :: "calm_error \<Rightarrow> bool" where
  "auth_rejected (StatusError _ code _) \<longleftrightarrow> code = 401 \<or> code = 403"
| "auth_rejected (TransportError _) \<longleftrightarrow> False"

fun isStatus4xx :: "calm_error \<Rightarrow> bool" where
  "isStatus4xx (StatusError _ code _) \<longleftrightarrow> 400 \<le> code \<and> code < 500"
| "isStatus4xx (TransportError _) \<longleftrightarrow> False"

lemma auth_rejected_4xx: "auth_rejected e \<Longrightarrow> isStatus4xx e"
  by (cases e) auto

lemma session_not_found_not_auth: "session_not_found e \<Longrightarrow> \<not> auth_rejected e"
  by (cases e) auto

section \<open>The interface\<close>

record ingestInput =
  ii_Source :: string
  ii_Content :: string
  ii_ContentType :: string
  ii_Format :: string

record sectionPreview =
  sp_Title :: string
  sp_Preview :: string

record ingestSummary =
  is_Source :: string
  is_SectionsIndexed :: int
  is_SectionsTotal :: int
  is_SummaryTruncated :: bool
  is_Sections :: "sectionPreview list"
  is_DistinctiveTerms :: "string list"
  is_CorrelationID :: string

record searchInput =
  si_Queries :: "string list"
  si_Source :: string
  si_Limit :: int
  si_Offset :: int
  si_BudgetBytes :: int

record hit =
  ht_Title :: string
  ht_Snippet :: string
  ht_Source :: string
  ht_MatchLayer :: string
  ht_Truncated :: bool

record queryResult =
  qr_Query :: string
  qr_Hits :: "hit list"

record searchResults =
  sr_Queries :: "queryResult list"
  sr_NextOffset :: "int option"
  sr_CorrelationID :: string

definition DocumentOrderBudgetDefault :: int where "DocumentOrderBudgetDefault = 32768"

record 'c calm_api =
  api_RegisterClient :: "string \<Rightarrow> 'c \<Rightarrow> (calm_error, bool) result \<times> 'c"
  api_CreateSession :: "string \<Rightarrow> int \<Rightarrow> string \<Rightarrow> 'c \<Rightarrow> (calm_error, string) result \<times> 'c"
  api_DeleteSession :: "string \<Rightarrow> 'c \<Rightarrow> (calm_error, unit) result \<times> 'c"
  api_Ingest :: "string \<Rightarrow> ingestInput \<Rightarrow> 'c \<Rightarrow> (calm_error, ingestSummary) result \<times> 'c"
  api_Search :: "string \<Rightarrow> searchInput \<Rightarrow> 'c \<Rightarrow> (calm_error, searchResults) result \<times> 'c"
  api_WriteEvents :: "string \<Rightarrow> eventInput list \<Rightarrow> 'c \<Rightarrow> (calm_error, unit) result \<times> 'c"
  api_Feedback :: "string \<Rightarrow> string \<Rightarrow> string \<Rightarrow> 'c \<Rightarrow> (calm_error, unit) result \<times> 'c"

section \<open>The client over HTTP\<close>

text \<open>
  A response: its code and status line, the correlation header, and the body of the code
  for which the generated client decoded one (\<open>JSON200\<close>, \<open>JSON201\<close> and so on).
\<close>

record 'p response =
  re_code :: int
  re_status :: string
  re_correlation :: string
  re_json :: "(int \<times> 'p) option"

type_synonym 'p reply = "(string, 'p response) result"

definition json_of :: "int \<Rightarrow> 'p response \<Rightarrow> 'p option" where
  "json_of code r = (case re_json r of Some (c, p) \<Rightarrow> if c = code then Some p else None | None \<Rightarrow> None)"

definition statusErr :: "string \<Rightarrow> 'p response \<Rightarrow> calm_error" where
  "statusErr op_name r = StatusError op_name (re_code r) (re_status r)"

definition RegisterClient_reply :: "'p reply \<Rightarrow> (calm_error, bool) result" where
  "RegisterClient_reply rep = (case rep of Inl e \<Rightarrow> Inl (TransportError e)
     | Inr r \<Rightarrow> (if json_of 201 r \<noteq> None then Inr True
                else if json_of 409 r \<noteq> None then Inr False
                else Inl (statusErr ''register client'' r)))"

text \<open>The optional fields of the request body of a create.\<close>

record create_body =
  cb_client :: "string option"
  cb_ttlMinutes :: int
  cb_idempotencyKey :: "string option"

definition given :: "string \<Rightarrow> string option" where
  "given s = (if s = [] then None else Some s)"

definition create_body_of :: "string \<Rightarrow> int \<Rightarrow> string \<Rightarrow> create_body" where
  "create_body_of client ttl key = \<lparr>cb_client = given client, cb_ttlMinutes = ttl, cb_idempotencyKey = given key\<rparr>"

definition CreateSession_reply :: "string reply \<Rightarrow> (calm_error, string) result" where
  "CreateSession_reply rep = (case rep of Inl e \<Rightarrow> Inl (TransportError e)
     | Inr r \<Rightarrow> (case json_of 201 r of Some token \<Rightarrow> Inr token | None \<Rightarrow> Inl (statusErr ''create session'' r)))"

definition DeleteSession_reply :: "'p reply \<Rightarrow> (calm_error, unit) result" where
  "DeleteSession_reply rep = (case rep of Inl e \<Rightarrow> Inl (TransportError e)
     | Inr r \<Rightarrow> (if re_code r < 200 \<or> 300 \<le> re_code r then Inl (statusErr ''delete session'' r) else Inr ()))"

record ingest_body =
  ib_source :: string
  ib_content :: string
  ib_contentType :: "string option"
  ib_format :: "string option"

definition ingest_body_of :: "ingestInput \<Rightarrow> ingest_body" where
  "ingest_body_of i = \<lparr>ib_source = ii_Source i, ib_content = ii_Content i, ib_contentType = given (ii_ContentType i),
     ib_format = given (ii_Format i)\<rparr>"

record section_json =
  sj_title :: string
  sj_preview :: "string option"

record ingest_json =
  ij_source :: string
  ij_indexed :: int
  ij_total :: int
  ij_truncated :: bool
  ij_summary :: "section_json list"
  ij_terms :: "string list"

definition Ingest_reply :: "ingest_json reply \<Rightarrow> (calm_error, ingestSummary) result" where
  "Ingest_reply rep = (case rep of Inl e \<Rightarrow> Inl (TransportError e)
     | Inr r \<Rightarrow> (case json_of 200 r of None \<Rightarrow> Inl (statusErr ''ingest'' r)
         | Some j \<Rightarrow> Inr \<lparr>is_Source = ij_source j, is_SectionsIndexed = ij_indexed j, is_SectionsTotal = ij_total j,
             is_SummaryTruncated = ij_truncated j,
             is_Sections = map (\<lambda>s. \<lparr>sp_Title = sj_title s, sp_Preview = (case sj_preview s of None \<Rightarrow> [] | Some p \<Rightarrow> p)\<rparr>) (ij_summary j),
             is_DistinctiveTerms = ij_terms j, is_CorrelationID = re_correlation r\<rparr>))"

record search_body =
  qb_queries :: "string list"
  qb_source :: "string option"
  qb_limit :: "int option"
  qb_offset :: "int option"
  qb_budget :: "int option"

definition positive :: "int \<Rightarrow> int option" where
  "positive n = (if 0 < n then Some n else None)"

definition search_body_of :: "searchInput \<Rightarrow> search_body" where
  "search_body_of i =
     \<lparr>qb_queries = si_Queries i, qb_source = given (si_Source i), qb_limit = positive (si_Limit i),
      qb_offset = (if si_Queries i \<noteq> [] then None else positive (si_Offset i)), qb_budget = positive (si_BudgetBytes i)\<rparr>"

record hit_json =
  hj_title :: string
  hj_snippet :: string
  hj_source :: string
  hj_layer :: string
  hj_truncated :: "bool option"

record search_json =
  qj_next :: "int option"
  qj_results :: "(string \<times> hit_json list) list"

definition hit_of :: "hit_json \<Rightarrow> hit" where
  "hit_of h = \<lparr>ht_Title = hj_title h, ht_Snippet = hj_snippet h, ht_Source = hj_source h, ht_MatchLayer = hj_layer h,
     ht_Truncated = (hj_truncated h = Some True)\<rparr>"

definition Search_reply :: "search_json reply \<Rightarrow> (calm_error, searchResults) result" where
  "Search_reply rep = (case rep of Inl e \<Rightarrow> Inl (TransportError e)
     | Inr r \<Rightarrow> (case json_of 200 r of None \<Rightarrow> Inl (statusErr ''search'' r)
         | Some j \<Rightarrow> Inr \<lparr>sr_Queries = map (\<lambda>(q, hs). \<lparr>qr_Query = q, qr_Hits = map hit_of hs\<rparr>) (qj_results j),
             sr_NextOffset = qj_next j, sr_CorrelationID = re_correlation r\<rparr>))"

definition WriteEvents_reply :: "'p reply \<Rightarrow> (calm_error, unit) result" where
  "WriteEvents_reply rep = (case rep of Inl e \<Rightarrow> Inl (TransportError e)
     | Inr r \<Rightarrow> (if json_of 202 r \<noteq> None then Inr () else Inl (statusErr ''write events'' r)))"

definition Feedback_reply :: "bool \<Rightarrow> 'p reply \<Rightarrow> (calm_error, unit) result" where
  "Feedback_reply parsed rep =
     (if \<not> parsed then Inl (StatusError ''feedback'' 400 ''400 malformed feedback reference'')
      else case rep of Inl e \<Rightarrow> Inl (TransportError e)
       | Inr r \<Rightarrow> (if re_code r = 204 then Inr () else Inl (statusErr ''feedback'' r)))"

section \<open>The client as an implementation of the interface\<close>

text \<open>
  The generated client and the network: what each request does to the service and which reply
  comes back. \<open>uuid.Parse\<close> is a parameter, too.
\<close>

record 'c http =
  ht_register :: "string \<Rightarrow> 'c \<Rightarrow> unit reply \<times> 'c"
  ht_create :: "create_body \<Rightarrow> 'c \<Rightarrow> string reply \<times> 'c"
  ht_delete :: "string \<Rightarrow> 'c \<Rightarrow> unit reply \<times> 'c"
  ht_ingest :: "string \<Rightarrow> ingest_body \<Rightarrow> 'c \<Rightarrow> ingest_json reply \<times> 'c"
  ht_search :: "string \<Rightarrow> search_body \<Rightarrow> 'c \<Rightarrow> search_json reply \<times> 'c"
  ht_events :: "string \<Rightarrow> eventInput list \<Rightarrow> 'c \<Rightarrow> unit reply \<times> 'c"
  ht_feedback :: "string \<Rightarrow> string \<Rightarrow> string \<Rightarrow> 'c \<Rightarrow> unit reply \<times> 'c"
  ht_uuid :: "string \<Rightarrow> bool"

definition genapiClient :: "'c http \<Rightarrow> 'c calm_api" where
  "genapiClient h =
     \<lparr>api_RegisterClient = \<lambda>name c. apfst RegisterClient_reply (ht_register h name c),
      api_CreateSession = \<lambda>client ttl key c. apfst CreateSession_reply (ht_create h (create_body_of client ttl key) c),
      api_DeleteSession = \<lambda>token c. apfst DeleteSession_reply (ht_delete h token c),
      api_Ingest = \<lambda>token i c. apfst Ingest_reply (ht_ingest h token (ingest_body_of i) c),
      api_Search = \<lambda>token i c. apfst Search_reply (ht_search h token (search_body_of i) c),
      api_WriteEvents = \<lambda>token es c. apfst WriteEvents_reply (ht_events h token es c),
      api_Feedback = \<lambda>token cid outcome c.
        (if ht_uuid h cid then apfst (Feedback_reply True) (ht_feedback h token cid outcome c)
         else (Feedback_reply False (Inl [] :: unit reply), c))\<rparr>"

text \<open>A request never carries an empty optional field, and a reply of the right code is never an error.\<close>

lemma given_Some: "given s = Some t \<longleftrightarrow> s = t \<and> t \<noteq> []"
  by (auto simp: given_def)

lemma CreateSession_reply_Inl:
  "CreateSession_reply rep = Inl e \<Longrightarrow> isStatus4xx e \<Longrightarrow> \<exists>r. rep = Inr r \<and> 400 \<le> re_code r \<and> re_code r < 500"
  by (auto simp: CreateSession_reply_def statusErr_def split: sum.splits option.splits)

end
