(* ===== verification/Capture_Engine.thy ===== *)
theory Capture_Engine
  imports Capture_Registry Calm_Client
begin

text \<open>
  internal/adapter/capture: the engine both adapter shells share (capture.go), its delivery
  to the service (pipeline.go) and the text it presents (present.go). A shell is a record of
  the operations the engine calls; the contract of a shell is a locale, interpreted on the
  MCP server and on the session manager of the capture command line. \<open>strconv.Quote\<close> is a
  parameter. The recovery from a panic has no counterpart: no definition here panics.
\<close>

section \<open>Values\<close>

record signal =
  sg_Reason :: string
  sg_Detail :: string

definition calm_unreachable :: string where "calm_unreachable = ''calm_unreachable''"
definition auth_failed :: string where "auth_failed = ''auth_failed''"
definition session_lost :: string where "session_lost = ''session_lost''"
definition capture_failed :: string where "capture_failed = ''capture_failed''"
definition capture_partial :: string where "capture_partial = ''capture_partial''"
definition feedback_window_expired :: string where "feedback_window_expired = ''feedback_window_expired''"

lemmas reason_defs = calm_unreachable_def auth_failed_def session_lost_def capture_failed_def capture_partial_def
  feedback_window_expired_def

record exec_result =
  rs_Stdout :: string
  rs_Stderr :: string
  rs_ExitCode :: int
  rs_TimedOut :: bool
  rs_Truncated :: bool

text \<open>The plan is derived once the sequence is known; None is the error of the derivation.\<close>

record spec =
  sp_Ingest :: string
  sp_Visible :: string
  sp_Res :: exec_result
  sp_RangedView :: bool
  sp_Plan :: "int \<Rightarrow> plan option"

record outcome =
  oc_Visible :: string
  oc_Captured :: bool
  oc_Source :: string
  oc_Reason :: string
  oc_Detail :: string
  oc_Label :: string
  oc_FeedbackRef :: string

record captureUnit =
  cu_Plan :: plan
  cu_Token :: string
  cu_Content :: string
  cu_Events :: "eventDraft list"

record delivery =
  dl_Outcomes :: "writeOutcome list"
  dl_Summary :: "ingestSummary option"
  dl_Events :: "eventInput list"
  dl_Delta :: "sourceToken list"

text \<open>The operations of a shell and of the service, on the state \<open>'s\<close> of both.\<close>

record 's shell =
  sh_Ensure :: "'s \<Rightarrow> (signal, string \<times> int) result \<times> 's"
  sh_OnCallError :: "string \<Rightarrow> calm_error \<Rightarrow> 's \<Rightarrow> signal option \<times> 's"
  sh_Record :: "string \<Rightarrow> sourceToken list \<Rightarrow> 's \<Rightarrow> 's"
  sh_Enqueue :: "string \<Rightarrow> eventInput list \<Rightarrow> 's \<Rightarrow> 's"
  sh_Ingest :: "string \<Rightarrow> ingestInput \<Rightarrow> 's \<Rightarrow> (calm_error, ingestSummary) result \<times> 's"

section \<open>Delivery\<close>

definition isSessionLevel :: "calm_error \<Rightarrow> bool" where
  "isSessionLevel e \<longleftrightarrow> session_not_found e \<or> auth_rejected e"

definition fan_input :: "string \<Rightarrow> string \<Rightarrow> plan \<Rightarrow> ingestInput" where
  "fan_input source content p =
     \<lparr>ii_Source = source, ii_Content = content, ii_ContentType = pl_ContentType p, ii_Format = pl_Format p\<rparr>"

text \<open>One write of the pair: a session-level failure ends the delivery, any other is noted.\<close>

definition write_source ::
    "'s shell \<Rightarrow> string \<Rightarrow> plan \<Rightarrow> string \<Rightarrow> string \<Rightarrow> writeOutcome list \<times> ingestSummary option \<Rightarrow> 's
     \<Rightarrow> (calm_error, writeOutcome list \<times> ingestSummary option) result \<times> 's" where
  "write_source S token p raw source acc s =
     (if source = [] then (Inr acc, s)
      else case sh_Ingest S token (fan_input source raw p) s of
             (Inr sm, s') \<Rightarrow> (Inr (fst acc @ [\<lparr>wo_Source = source, wo_Persisted = True\<rparr>], Some sm), s')
           | (Inl e, s') \<Rightarrow>
               if isSessionLevel e then (Inl e, s')
               else (Inr (fst acc @ [\<lparr>wo_Source = source, wo_Persisted = False\<rparr>], snd acc), s'))"

definition dualWriteIngest ::
    "'s shell \<Rightarrow> string \<Rightarrow> plan \<Rightarrow> string \<Rightarrow> 's \<Rightarrow> (calm_error, writeOutcome list \<times> ingestSummary option) result \<times> 's" where
  "dualWriteIngest S token p raw s =
     (case write_source S token p raw (pl_HistorySource p) ([], None) s of
        (Inl e, s1) \<Rightarrow> (Inl e, s1)
      | (Inr acc, s1) \<Rightarrow> write_source S token p raw (pl_LatestSource p) acc s1)"

definition persistedDelta :: "plan \<Rightarrow> string \<Rightarrow> writeOutcome list \<Rightarrow> sourceToken list" where
  "persistedDelta p tok outcomes =
     map (\<lambda>w. \<lparr>tk_Source = wo_Source w, tk_Token = tok\<rparr>)
       (filter (\<lambda>w. wo_Persisted w \<and> wo_Source w \<in> {pl_LatestSource p, pl_HistorySource p}) outcomes)"

definition Deliver :: "'s shell \<Rightarrow> string \<Rightarrow> captureUnit \<Rightarrow> 's \<Rightarrow> (calm_error, delivery) result \<times> 's" where
  "Deliver S token u s =
     (case dualWriteIngest S token (cu_Plan u) (cu_Content u) s of
        (Inl e, s1) \<Rightarrow> (Inl e, s1)
      | (Inr (outcomes, rep), s1) \<Rightarrow>
          let events = ApplyOutcomes (cu_Events u) outcomes;
              s2 = (if events \<noteq> [] then sh_Enqueue S token events s1 else s1)
          in (Inr \<lparr>dl_Outcomes = outcomes, dl_Summary = rep, dl_Events = events,
                   dl_Delta = persistedDelta (cu_Plan u) (cu_Token u) outcomes\<rparr>, s2))"

section \<open>Presentation\<close>

definition maxCompactSections :: nat where "maxCompactSections = 5"
definition maxCompactLen :: nat where "maxCompactLen = 4096"
definition wholeInlineMaxBytes :: nat where "wholeInlineMaxBytes = 4096"
definition rangedMaxBytes :: nat where "rangedMaxBytes = 8192"
definition failVerbatimMaxBytes :: nat where "failVerbatimMaxBytes = 16384"
definition failHeadBytes :: nat where "failHeadBytes = 4096"
definition failTailBytes :: nat where "failTailBytes = failVerbatimMaxBytes - failHeadBytes"

text \<open>The horizontal ellipsis and the em dash in UTF-8.\<close>

definition ellipsis :: string where "ellipsis = [CHR 0xE2, CHR 0x80, CHR 0xA6]"
definition em_dash :: string where "em_dash = [CHR 0xE2, CHR 0x80, CHR 0x94]"

definition with_newline :: "string \<Rightarrow> string" where
  "with_newline s = (if s \<noteq> [] \<and> last s = newline then s else s @ [newline])"

definition run_notes :: "exec_result \<Rightarrow> string" where
  "run_notes r = ''exit='' @ json_int (rs_ExitCode r)
     @ (if rs_TimedOut r then '' (timed out)'' else []) @ (if rs_Truncated r then '' (output truncated)'' else [])"

definition writeCompactLabel :: "(string \<Rightarrow> string) \<Rightarrow> ingestSummary \<Rightarrow> string \<Rightarrow> string" where
  "writeCompactLabel qt sm fused =
     ''Captured '' @ json_int (is_SectionsIndexed sm) @ ''/'' @ json_int (is_SectionsTotal sm)
       @ '' sections under '' @ qt fused @ ''.'' @ [newline]"

definition writeCaptureLabel :: "(string \<Rightarrow> string) \<Rightarrow> ingestSummary \<Rightarrow> string \<Rightarrow> string \<Rightarrow> string" where
  "writeCaptureLabel qt sm fused recall =
     writeCompactLabel qt sm fused @ ''Retrieve full output: '' @ recall @ '' source='' @ fused @ [newline]"

definition formatInline :: "string \<Rightarrow> exec_result \<Rightarrow> string" where
  "formatInline raw r =
     (if rs_ExitCode r = 0 \<and> \<not> rs_TimedOut r \<and> \<not> rs_Truncated r \<and> raw \<noteq> [] then raw
      else raw @ (if raw \<noteq> [] \<and> last raw \<noteq> newline then [newline] else []) @ run_notes r)"

definition formatInlineLabeled :: "(string \<Rightarrow> string) \<Rightarrow> ingestSummary \<Rightarrow> string \<Rightarrow> exec_result \<Rightarrow> string \<Rightarrow> string" where
  "formatInlineLabeled qt sm raw r token =
     with_newline (formatInline raw r) @ writeCompactLabel qt sm (fuseSource (is_Source sm) token)"

definition formatFailure ::
    "(string \<Rightarrow> string) \<Rightarrow> ingestSummary \<Rightarrow> string \<Rightarrow> exec_result \<Rightarrow> string \<Rightarrow> string \<Rightarrow> string" where
  "formatFailure qt sm raw r token recall =
     (let fused = fuseSource (is_Source sm) token in
      if length raw \<le> failVerbatimMaxBytes then with_newline (formatInline raw r) @ writeCompactLabel qt sm fused
      else with_newline (to_valid (take failHeadBytes raw))
         @ ellipsis @ '' ['' @ itoa (length raw - failHeadBytes - failTailBytes) @ '' bytes elided '' @ em_dash
         @ '' retrieve the full output with '' @ recall @ '' source='' @ fused @ '']'' @ [newline]
         @ with_newline (to_valid (drop (length raw - failTailBytes) raw))
         @ run_notes r @ [newline] @ writeCaptureLabel qt sm fused recall)"

definition formatRanged :: "(string \<Rightarrow> string) \<Rightarrow> ingestSummary \<Rightarrow> string \<Rightarrow> string \<Rightarrow> string \<Rightarrow> string" where
  "formatRanged qt sm raw token recall =
     (let fused = fuseSource (is_Source sm) token in
      (if length raw > rangedMaxBytes
       then to_valid (take rangedMaxBytes raw) @ [newline] @ ellipsis @ '' [ranged view capped at '' @ itoa rangedMaxBytes
         @ '' bytes '' @ em_dash @ '' narrow start_line/end_line, or reread the full capture in document order with ''
         @ recall @ '' source='' @ fused @ '']'' @ [newline]
       else with_newline raw) @ writeCaptureLabel qt sm fused recall)"

definition section_line :: "sectionPreview \<Rightarrow> string" where
  "section_line sec =
     ''- '' @ sp_Title sec @ (if sp_Preview sec \<noteq> [] then '': '' @ sp_Preview sec else []) @ [newline]"

definition formatCompact :: "(string \<Rightarrow> string) \<Rightarrow> ingestSummary \<Rightarrow> exec_result \<Rightarrow> string \<Rightarrow> string \<Rightarrow> string" where
  "formatCompact qt sm r token recall =
     (let shown = take maxCompactSections (is_Sections sm);
          hidden = length (is_Sections sm) - length shown;
          out = writeCaptureLabel qt sm (fuseSource (is_Source sm) token) recall
            @ concat (map section_line shown)
            @ (if 0 < hidden then ellipsis @ '' +'' @ itoa hidden @ '' more sections'' @ [newline] else [])
            @ run_notes r
      in if length out > maxCompactLen then to_valid (take maxCompactLen out) @ ellipsis else out)"

definition presentCapture ::
    "(string \<Rightarrow> string) \<Rightarrow> ingestSummary \<Rightarrow> string \<Rightarrow> exec_result \<Rightarrow> string \<Rightarrow> bool \<Rightarrow> string \<Rightarrow> string" where
  "presentCapture qt sm raw r token rangedView recall =
     (if rangedView then formatRanged qt sm raw token recall
      else if rs_ExitCode r \<noteq> 0 \<or> rs_TimedOut r then formatFailure qt sm raw r token recall
      else if length raw \<le> wholeInlineMaxBytes then formatInlineLabeled qt sm raw r token
      else formatCompact qt sm r token recall)"

text \<open>The options: the name of the retrieval command, the discovery card when it is enabled.\<close>

record presentOptions =
  po_recall :: string
  po_card :: "(string \<Rightarrow> string) option"

definition raw_outcome :: "string \<Rightarrow> string \<Rightarrow> string \<Rightarrow> outcome" where
  "raw_outcome visible reason detail =
     \<lparr>oc_Visible = visible, oc_Captured = False, oc_Source = [], oc_Reason = reason, oc_Detail = detail,
      oc_Label = [], oc_FeedbackRef = []\<rparr>"

definition present ::
    "(string \<Rightarrow> string) \<Rightarrow> presentOptions \<Rightarrow> captureUnit \<Rightarrow> delivery \<Rightarrow> spec \<Rightarrow> int \<Rightarrow> outcome" where
  "present qt opts u d sp n =
     (case dl_Summary d of
        None \<Rightarrow> raw_outcome (sp_Visible sp) capture_failed []
      | Some sm \<Rightarrow>
          let shown = presentCapture qt sm (sp_Visible sp) (sp_Res sp) (cu_Token u) (sp_RangedView sp) (po_recall opts)
          in \<lparr>oc_Visible = (case po_card opts of Some add_card \<Rightarrow> if n = 1 then add_card shown else shown | None \<Rightarrow> shown),
              oc_Captured = True, oc_Source = is_Source sm,
              oc_Reason = (if list_all wo_Persisted (dl_Outcomes d) then [] else capture_partial), oc_Detail = [],
              oc_Label = fuseSource (is_Source sm) (cu_Token u), oc_FeedbackRef = is_CorrelationID sm\<rparr>)"

section \<open>The capture\<close>

text \<open>\<open>rnd\<close> are the random bytes of the token minted for this capture.\<close>

definition Capture ::
    "(string \<Rightarrow> string) \<Rightarrow> presentOptions \<Rightarrow> 's shell \<Rightarrow> string \<Rightarrow> spec \<Rightarrow> 's \<Rightarrow> outcome \<times> 's" where
  "Capture qt opts S rnd sp s =
     (case sh_Ensure S s of
        (Inl sig, s1) \<Rightarrow> (raw_outcome (sp_Visible sp) (sg_Reason sig) (sg_Detail sig), s1)
      | (Inr (token, n), s1) \<Rightarrow>
          (case sp_Plan sp n of
             None \<Rightarrow> (raw_outcome (sp_Visible sp) capture_failed [], s1)
           | Some p \<Rightarrow>
               let u = \<lparr>cu_Plan = p, cu_Token = MintToken rnd, cu_Content = sp_Ingest sp, cu_Events = DeriveEvents p\<rparr> in
               (case Deliver S token u s1 of
                  (Inl e, s2) \<Rightarrow>
                    (case sh_OnCallError S token e s2 of
                       (Some sig, s3) \<Rightarrow> (raw_outcome (sp_Visible sp) (sg_Reason sig) (sg_Detail sig), s3)
                     | (None, s3) \<Rightarrow> (raw_outcome (sp_Visible sp) [] [], s3))
                | (Inr d, s2) \<Rightarrow> (present qt opts u d sp n, sh_Record S token (dl_Delta d) s2))))"

section \<open>What the presented text keeps\<close>

lemma with_newline_prefix: "prefix s (with_newline s)"
  by (simp add: with_newline_def)

lemma formatInline_prefix: "prefix raw (formatInline raw r)"
  by (simp add: formatInline_def)

text \<open>Ranged views, failures and short results stand verbatim at the head of the text.\<close>

lemma presentCapture_verbatim:
  assumes "if rangedView then length raw \<le> rangedMaxBytes
    else if rs_ExitCode r \<noteq> 0 \<or> rs_TimedOut r then length raw \<le> failVerbatimMaxBytes
    else length raw \<le> wholeInlineMaxBytes"
  shows "prefix raw (presentCapture qt sm raw r token rangedView recall)"
proof -
  have n: "prefix raw (with_newline raw @ x)" for x
    using with_newline_prefix [of raw] by (rule prefix_prefix)
  have m: "prefix raw (with_newline (formatInline raw r) @ x)" for x
    using formatInline_prefix [of raw r] with_newline_prefix [of "formatInline raw r"]
    by (metis prefix_order.order_trans prefix_prefix)
  show ?thesis
    using assms n m
    by (simp add: presentCapture_def formatRanged_def formatFailure_def formatInlineLabeled_def Let_def del: append_assoc split: if_splits)
qed

text \<open>Except for compact summaries, the text ends with the line that names the fused label.\<close>

lemma label_line_names: "sublist (qt f) (writeCompactLabel qt sm f)" "sublist (qt f) (writeCaptureLabel qt sm f recall)"
proof -
  show c: "sublist (qt f) (writeCompactLabel qt sm f)"
    unfolding writeCompactLabel_def sublist_def
    by (intro exI [of _ "''Captured '' @ json_int (is_SectionsIndexed sm) @ ''/'' @ json_int (is_SectionsTotal sm) @ '' sections under ''"]
        exI [of _ "''.'' @ [newline]"]) (simp only: append_assoc)
  show "sublist (qt f) (writeCaptureLabel qt sm f recall)"
    unfolding writeCaptureLabel_def by (rule sublist_order.order_trans [OF c]) (simp only: sublist_append_rightI)
qed

lemma presentCapture_names_label:
  assumes "rangedView \<or> rs_ExitCode r \<noteq> 0 \<or> rs_TimedOut r \<or> length raw \<le> wholeInlineMaxBytes"
  shows "sublist (qt (fuseSource (is_Source sm) token)) (presentCapture qt sm raw r token rangedView recall)"
proof -
  let ?f = "fuseSource (is_Source sm) token"
  have "suffix (writeCompactLabel qt sm ?f) (presentCapture qt sm raw r token rangedView recall)
    \<or> suffix (writeCaptureLabel qt sm ?f recall) (presentCapture qt sm raw r token rangedView recall)"
    using assms unfolding presentCapture_def formatRanged_def formatFailure_def formatInlineLabeled_def Let_def
    by (simp only: split: if_splits) (auto intro!: suffix_appendI simp del: append.simps append_assoc)
  then show ?thesis
    using label_line_names [of qt ?f sm] by (metis sublist_order.order_trans suffix_imp_sublist)
qed

section \<open>Delivery of the pair of sources\<close>

text \<open>CALM's documented reply names the source of the request.\<close>

definition echoes :: "'s shell \<Rightarrow> bool" where
  "echoes S \<longleftrightarrow> (\<forall>token i s sm s'. sh_Ingest S token i s = (Inr sm, s') \<longrightarrow> is_Source sm = ii_Source i)"

lemma echoed: "echoes S \<Longrightarrow> sh_Ingest S token (fan_input source raw p) s = (Inr sm, s') \<Longrightarrow> is_Source sm = source"
  unfolding echoes_def fan_input_def by (metis ingestInput.select_convs(1))

text \<open>The outcomes name sources of the plan, each persisted one backs the summary or came before it.\<close>

definition acc_ok :: "plan \<Rightarrow> writeOutcome list \<times> ingestSummary option \<Rightarrow> bool" where
  "acc_ok p acc \<longleftrightarrow>
     (\<forall>w\<in>set (fst acc). wo_Source w \<noteq> [] \<and> wo_Source w \<in> {pl_LatestSource p, pl_HistorySource p})
     \<and> (snd acc = None \<longleftrightarrow> (\<forall>w\<in>set (fst acc). \<not> wo_Persisted w))"

lemma write_source_acc:
  assumes "write_source S token p raw source acc s = (Inr acc', s')" "acc_ok p acc"
    "source \<in> {[], pl_LatestSource p, pl_HistorySource p}"
  shows "acc_ok p acc'"
  using assms by (auto simp: write_source_def acc_ok_def split: if_splits prod.splits sum.splits)

lemma write_source_summary:
  assumes "write_source S token p raw source acc s = (Inr acc', s')" "echoes S"
    "snd acc = Some sm \<Longrightarrow> \<exists>w\<in>set (fst acc). wo_Persisted w \<and> wo_Source w = is_Source sm" "snd acc' = Some sm"
  shows "\<exists>w\<in>set (fst acc'). wo_Persisted w \<and> wo_Source w = is_Source sm"
  using assms(1,3,4) by (auto simp: write_source_def split: if_splits prod.splits sum.splits dest: echoed [OF assms(2)])

lemma dualWriteIngest_acc:
  assumes "dualWriteIngest S token p raw s = (Inr acc, s')"
  shows "acc_ok p acc"
proof -
  obtain a1 s1 where 1: "write_source S token p raw (pl_HistorySource p) ([], None) s = (Inr a1, s1)"
      and 2: "write_source S token p raw (pl_LatestSource p) a1 s1 = (Inr acc, s')"
    using assms by (auto simp: dualWriteIngest_def split: prod.splits sum.splits)
  have "acc_ok p ([], None)" by (simp add: acc_ok_def)
  from write_source_acc [OF 2 write_source_acc [OF 1 this]] show ?thesis by simp
qed

lemma dualWriteIngest_summary:
  assumes "dualWriteIngest S token p raw s = (Inr (outs, Some sm), s')" "echoes S"
  shows "\<exists>w\<in>set outs. wo_Persisted w \<and> wo_Source w = is_Source sm"
proof -
  obtain a1 s1 where 1: "write_source S token p raw (pl_HistorySource p) ([], None) s = (Inr a1, s1)"
      and 2: "write_source S token p raw (pl_LatestSource p) a1 s1 = (Inr (outs, Some sm), s')"
    using assms by (auto simp: dualWriteIngest_def split: prod.splits sum.splits)
  have "\<exists>w\<in>set (fst a1). wo_Persisted w \<and> wo_Source w = is_Source sm" if "snd a1 = Some sm"
    using write_source_summary [OF 1 assms(2) _ that] by simp
  from write_source_summary [OF 2 assms(2) this] show ?thesis by simp
qed

lemma persistedDelta_sources:
  assumes "acc_ok p (outs, rep)"
  shows "tk_Source ` set (persistedDelta p tok outs) = wo_Source ` {w \<in> set outs. wo_Persisted w}"
    "\<forall>d\<in>set (persistedDelta p tok outs). tk_Token d = tok \<and> tk_Source d \<noteq> []"
proof -
  have "filter (\<lambda>w. wo_Persisted w \<and> wo_Source w \<in> {pl_LatestSource p, pl_HistorySource p}) outs = filter wo_Persisted outs"
    using assms by (intro filter_cong) (auto simp: acc_ok_def)
  then have d: "persistedDelta p tok outs = map (\<lambda>w. \<lparr>tk_Source = wo_Source w, tk_Token = tok\<rparr>) (filter wo_Persisted outs)"
    by (simp only: persistedDelta_def)
  show "tk_Source ` set (persistedDelta p tok outs) = wo_Source ` {w \<in> set outs. wo_Persisted w}"
    by (simp add: d image_image)
  show "\<forall>d\<in>set (persistedDelta p tok outs). tk_Token d = tok \<and> tk_Source d \<noteq> []"
    using assms by (auto simp: d acc_ok_def)
qed

section \<open>The contract of a shell\<close>

text \<open>
  What the engine relies on: \<open>Ensure\<close> gives the current session token and a fresh number, and
  a failed one burns none; traffic with the service leaves the state of the session alone;
  \<open>Record\<close> adds the delta to the registry of the session it was captured under, unless local
  storage fails (\<open>reliable\<close> says it will not), and never does so for another session.
\<close>

locale capture_shell =
  fixes S :: "'s shell" and inv :: "'s \<Rightarrow> bool" and session :: "'s \<Rightarrow> string option" and counter :: "'s \<Rightarrow> int"
    and reg :: "'s \<Rightarrow> registry_map" and reliable :: "'s \<Rightarrow> bool"
  assumes ensure_Inr: "\<lbrakk>inv s; sh_Ensure S s = (Inr (token, n), s')\<rbrakk>
      \<Longrightarrow> inv s' \<and> session s' = Some token \<and> n = counter s + 1 \<and> counter s' = n \<and> (reliable s \<longrightarrow> reliable s')"
    and ensure_Inl: "\<lbrakk>inv s; sh_Ensure S s = (Inl sig, s')\<rbrakk> \<Longrightarrow> inv s' \<and> counter s' = counter s \<and> sg_Reason sig \<noteq> []"
    and ingest_keeps: "\<lbrakk>inv s; sh_Ingest S token i s = (r, s')\<rbrakk>
      \<Longrightarrow> inv s' \<and> session s' = session s \<and> counter s' = counter s \<and> reg s' = reg s \<and> (reliable s \<longrightarrow> reliable s')"
    and enqueue_keeps: "inv s \<Longrightarrow> inv (sh_Enqueue S token es s) \<and> session (sh_Enqueue S token es s) = session s
      \<and> counter (sh_Enqueue S token es s) = counter s \<and> reg (sh_Enqueue S token es s) = reg s
      \<and> (reliable s \<longrightarrow> reliable (sh_Enqueue S token es s))"
    and record_keeps: "inv s \<Longrightarrow> inv (sh_Record S token delta s) \<and> session (sh_Record S token delta s) = session s
      \<and> counter (sh_Record S token delta s) = counter s"
    and record_other: "\<lbrakk>inv s; session s \<noteq> Some token\<rbrakk> \<Longrightarrow> reg (sh_Record S token delta s) = reg s"
    and record_adds: "\<lbrakk>inv s; reliable s; session s = Some token; \<forall>d\<in>set delta. tk_Source d \<noteq> [] \<and> tk_Token d \<noteq> []\<rbrakk>
      \<Longrightarrow> map_of (reg (sh_Record S token delta s)) = map_of (record_delta delta (reg s))"
    and callerror_keeps: "\<lbrakk>inv s; sh_OnCallError S token e s = (sig_opt, s')\<rbrakk> \<Longrightarrow> inv s' \<and> counter s' = counter s"
begin

lemma write_keeps:
  assumes "inv s" "write_source S token p raw source acc s = (r, s')"
  shows "inv s' \<and> session s' = session s \<and> counter s' = counter s \<and> reg s' = reg s \<and> (reliable s \<longrightarrow> reliable s')"
proof (cases "source = []")
  case True
  then show ?thesis using assms by (auto simp: write_source_def)
next
  case False
  obtain r1 s1 where i: "sh_Ingest S token (fan_input source raw p) s = (r1, s1)" by fastforce
  have "s' = s1" using assms(2) False i by (auto simp: write_source_def split: sum.splits if_splits)
  then show ?thesis using ingest_keeps [OF assms(1) i] by simp
qed

lemma dual_keeps:
  assumes "inv s" "dualWriteIngest S token p raw s = (r, s')"
  shows "inv s' \<and> session s' = session s \<and> counter s' = counter s \<and> reg s' = reg s \<and> (reliable s \<longrightarrow> reliable s')"
proof -
  obtain r1 s1 where 1: "write_source S token p raw (pl_HistorySource p) ([], None) s = (r1, s1)" by fastforce
  note k = write_keeps [OF assms(1) 1]
  show ?thesis
  proof (cases r1)
    case (Inl e)
    then show ?thesis using assms(2) 1 k by (auto simp: dualWriteIngest_def)
  next
    case (Inr a)
    then have "write_source S token p raw (pl_LatestSource p) a s1 = (r, s')"
      using assms(2) 1 by (simp add: dualWriteIngest_def)
    then show ?thesis using k write_keeps by metis
  qed
qed

lemma deliver_keeps:
  assumes "inv s" "Deliver S token u s = (r, s')"
  shows "inv s' \<and> session s' = session s \<and> counter s' = counter s \<and> reg s' = reg s \<and> (reliable s \<longrightarrow> reliable s')"
proof -
  obtain r1 s1 where 1: "dualWriteIngest S token (cu_Plan u) (cu_Content u) s = (r1, s1)" by fastforce
  note k = dual_keeps [OF assms(1) 1]
  have "s' = s1 \<or> (\<exists>es. s' = sh_Enqueue S token es s1)"
    using assms(2) 1 by (auto simp: Deliver_def Let_def split: sum.splits prod.splits if_splits)
  then show ?thesis using k enqueue_keeps by metis
qed

text \<open>The counter moves by one when the session was established, and only then.\<close>

lemma capture_counts:
  assumes "inv s" "Capture qt opts S rnd sp s = (out, s')"
  shows "inv s' \<and> counter s' = counter s + (case fst (sh_Ensure S s) of Inl _ \<Rightarrow> 0 | Inr _ \<Rightarrow> 1)"
proof -
  obtain r s1 where e: "sh_Ensure S s = (r, s1)" by fastforce
  show ?thesis
  proof (cases r)
    case (Inl sig)
    then show ?thesis using ensure_Inl [OF assms(1)] e assms(2) by (auto simp: Capture_def)
  next
    case (Inr x)
    obtain token n where x: "x = (token, n)" by fastforce
    have k: "inv s1" "counter s1 = counter s + 1" using ensure_Inr [OF assms(1)] e Inr x by auto
    show ?thesis
    proof (cases "sp_Plan sp n")
      case None
      then show ?thesis using k e Inr x assms(2) by (simp add: Capture_def)
    next
      case (Some p)
      define u where "u = \<lparr>cu_Plan = p, cu_Token = MintToken rnd, cu_Content = sp_Ingest sp, cu_Events = DeriveEvents p\<rparr>"
      obtain rd s2 where d: "Deliver S token u s1 = (rd, s2)" by fastforce
      have k2: "inv s2" "counter s2 = counter s + 1" using deliver_keeps [OF k(1) d] k(2) by auto
      have "s' = snd (sh_OnCallError S token (projl rd) s2) \<or> (\<exists>dl. s' = sh_Record S token dl s2)"
        using assms(2) e Inr x Some d unfolding u_def
        by (auto simp: Capture_def Let_def split: sum.splits prod.splits option.splits)
      then have "inv s' \<and> counter s' = counter s2"
        using callerror_keeps [OF k2(1) prod.collapse [symmetric]] record_keeps [OF k2(1)] by metis
      then show ?thesis using k2(2) e Inr by simp
    qed
  qed
qed

text \<open>A capture that was not stored shows the output as it is and hands out no label.\<close>

lemma capture_raw:
  assumes "inv s" "Capture qt opts S rnd sp s = (out, s')" "\<not> oc_Captured out"
  shows "oc_Visible out = sp_Visible sp \<and> oc_Label out = []"
  using assms(2,3)
  by (auto simp: Capture_def raw_outcome_def present_def Let_def split: prod.splits sum.splits option.splits)

text \<open>The run of a capture that hands out a label.\<close>

lemma capture_labelled_run:
  assumes "Capture qt opts S rnd sp s = (out, s')" "oc_Label out \<noteq> []"
  obtains token n s1 p u d s2 sm where "sh_Ensure S s = (Inr (token, n), s1)" "sp_Plan sp n = Some p"
    "u = \<lparr>cu_Plan = p, cu_Token = MintToken rnd, cu_Content = sp_Ingest sp, cu_Events = DeriveEvents p\<rparr>"
    "Deliver S token u s1 = (Inr d, s2)" "dl_Summary d = Some sm" "s' = sh_Record S token (dl_Delta d) s2"
    "oc_Label out = fuseSource (is_Source sm) (MintToken rnd)" "oc_Source out = is_Source sm" "oc_Captured out"
  using assms
  by (auto simp: Capture_def raw_outcome_def present_def Let_def split: prod.splits sum.splits option.splits if_splits)

text \<open>A label that the engine hands out is accepted by the registry afterwards.\<close>

lemma capture_label_valid:
  assumes "inv s" "reliable s" "echoes S" "TokenLen \<le> length rnd"
    "\<forall>n p. sp_Plan sp n = Some p \<longrightarrow> (\<exists>sha iv. labelled sha iv p \<and> inv_Seq iv = n)"
    "0 \<le> counter s" "counter s + 1 < 2 ^ 63" "Capture qt opts S rnd sp s = (out, s')" "oc_Label out \<noteq> []"
  shows "ValidateAndStrip (oc_Label out) (reg s') = Some (oc_Source out)"
proof -
  obtain token n s1 p u d s2 sm where e: "sh_Ensure S s = (Inr (token, n), s1)" and p: "sp_Plan sp n = Some p"
      and u: "u = \<lparr>cu_Plan = p, cu_Token = MintToken rnd, cu_Content = sp_Ingest sp, cu_Events = DeriveEvents p\<rparr>"
      and d: "Deliver S token u s1 = (Inr d, s2)" "dl_Summary d = Some sm" and s': "s' = sh_Record S token (dl_Delta d) s2"
      and out: "oc_Label out = fuseSource (is_Source sm) (MintToken rnd)" "oc_Source out = is_Source sm"
    by (rule capture_labelled_run [OF assms(8,9)])
  have s1: "inv s1" "session s1 = Some token" "n = counter s + 1" "reliable s1" using ensure_Inr [OF assms(1) e] assms(2) by auto
  have s2: "inv s2" "session s2 = Some token" "reliable s2" using deliver_keeps [OF s1(1) d(1)] s1 by auto
  obtain outs s3 where w: "dualWriteIngest S token p (sp_Ingest sp) s1 = (Inr (outs, Some sm), s3)"
      and dd: "dl_Delta d = persistedDelta p (MintToken rnd) outs"
    using d u by (auto simp: Deliver_def Let_def split: prod.splits sum.splits)
  have ok: "acc_ok p (outs, Some sm)" by (rule dualWriteIngest_acc [OF w])
  obtain wo where wo: "wo \<in> set outs" "wo_Persisted wo" "wo_Source wo = is_Source sm"
    using dualWriteIngest_summary [OF w assms(3)] by blast
  have v: "isValidToken (MintToken rnd)" by (rule MintToken_valid [OF assms(4)])
  then have ne: "MintToken rnd \<noteq> []" by (auto simp: isValidToken_def TokenLen_def)
  note ds = persistedDelta_sources [OF ok, of "MintToken rnd"]
  have "is_Source sm \<in> tk_Source ` set (dl_Delta d)" using wo unfolding dd ds(1) by (metis (mono_tags) image_eqI mem_Collect_eq)
  moreover have "\<forall>x\<in>set (dl_Delta d). tk_Token x = MintToken rnd" using ds(2) by (simp add: dd)
  ultimately have "map_of (reg s') (is_Source sm) = Some (MintToken rnd)"
    using record_adds [OF s2(1,3,2), of "dl_Delta d"] ds(2) ne by (simp add: s' dd map_of_delta)
  moreover obtain sha iv where "labelled sha iv p" "inv_Seq iv = n" using assms(5) p by blast
  moreover have "is_Source sm \<in> {pl_LatestSource p, pl_HistorySource p}" "is_Source sm \<noteq> []"
    using ok wo by (auto simp: acc_ok_def)
  ultimately show ?thesis
    using plan_source_validates [OF _ _ _ v] assms(6,7) s1(3) out by simp
qed

end

end
