(* ===== verification/Session_Manager.thy ===== *)
theory Session_Manager
  imports Capture_Engine
begin

text \<open>
  internal/adapter/session: the state of one harness conversation on disk and the operations on
  it (store.go, lock.go, manager.go). Every operation runs under the exclusive lock of its
  conversation, so it is one function on the host: the files of the conversation, the clock,
  the service behind the network, and the faults that local file operations will meet. A
  conversation is shared by the processes of its harness; each is a manager of its own.
  Times are microseconds.
\<close>

section \<open>The store\<close>

definition stateVersion :: int where "stateVersion = 1"

record conv_state =
  st_Version :: int
  st_SessionID :: string
  st_SessionToken :: string
  st_Client :: string
  st_IdempotencyBase :: string
  st_RecoverySeq :: int
  st_Seq :: int
  st_Epoch :: int
  st_AuthFailed :: bool
  st_NextAttemptAt :: int
  st_CreatedAt :: int
  st_Registry :: registry_map
  st_RegistrySeq :: "(string \<times> int) list"

record spoolLine =
  sl_Epoch :: int
  sl_SessionToken :: string
  sl_Events :: "eventInput list"

text \<open>
  The spool: its lines, None for one that does not parse, and whether the last line is torn,
  i.e. cut off by a failed write, so that the next append runs into it. A claimed spool is
  kept under the process id of its drainer, with the time of the claim.
\<close>

record spoolFile =
  sf_lines :: "spoolLine option list"
  sf_torn :: bool

record inflight =
  if_pid :: int
  if_mtime :: int
  if_lines :: "spoolLine option list"

text \<open>
  The next file operation works, fails without effect, fails half way, or fails after its
  effect (a failed fsync of an append).
\<close>

datatype fault = NoFault | Fail string | Torn string | Late string

record 'c host =
  w_state :: "conv_state option"
  w_spool :: "spoolFile option"
  w_inflight :: "inflight list"
  w_calm :: 'c
  w_now :: int
  w_faults :: "fault list"

definition next_fault :: "'c host \<Rightarrow> fault \<times> 'c host" where
  "next_fault w = (case w_faults w of [] \<Rightarrow> (NoFault, w) | f # fs \<Rightarrow> (f, w\<lparr>w_faults := fs\<rparr>))"

text \<open>A file operation without intermediate states: a rename, a read, an atomic save.\<close>

definition disk :: "('c host \<Rightarrow> 'a \<times> 'c host) \<Rightarrow> 'c host \<Rightarrow> (string, 'a) result \<times> 'c host" where
  "disk act w = (case next_fault w of
       (NoFault, w1) \<Rightarrow> apfst Inr (act w1)
     | (Fail e, w1) \<Rightarrow> (Inl e, w1) | (Torn e, w1) \<Rightarrow> (Inl e, w1) | (Late e, w1) \<Rightarrow> (Inl e, w1))"

definition store_lock :: "'c host \<Rightarrow> (string, unit) result \<times> 'c host" where
  "store_lock = disk (\<lambda>w. ((), w))"

definition store_load :: "'c host \<Rightarrow> (string, conv_state option) result \<times> 'c host" where
  "store_load w =
     (case disk (\<lambda>w. (w_state w, w)) w of
        (Inr (Some st), w1) \<Rightarrow>
          (if st_Version st \<noteq> stateVersion
           then Inl (''state version '' @ json_int (st_Version st) @ '' unsupported (want '' @ json_int stateVersion @ '')'')
           else Inr (Some st), w1)
      | r \<Rightarrow> r)"

definition store_save :: "conv_state \<Rightarrow> 'c host \<Rightarrow> (string, unit) result \<times> 'c host" where
  "store_save st = disk (\<lambda>w. ((), w\<lparr>w_state := Some st\<rparr>))"

definition spool_append :: "spoolLine \<Rightarrow> spoolFile option \<Rightarrow> spoolFile" where
  "spool_append l f = (case f of
       None \<Rightarrow> \<lparr>sf_lines = [Some l], sf_torn = False\<rparr>
     | Some f \<Rightarrow> \<lparr>sf_lines = (if sf_torn f then sf_lines f else sf_lines f @ [Some l]), sf_torn = False\<rparr>)"

definition spool_tear :: "spoolFile option \<Rightarrow> spoolFile" where
  "spool_tear f = (case f of
       None \<Rightarrow> \<lparr>sf_lines = [None], sf_torn = True\<rparr>
     | Some f \<Rightarrow> \<lparr>sf_lines = (if sf_torn f then sf_lines f else sf_lines f @ [None]), sf_torn = True\<rparr>)"

definition appendSpool :: "spoolLine \<Rightarrow> 'c host \<Rightarrow> (string, unit) result \<times> 'c host" where
  "appendSpool l w = (case next_fault w of
       (NoFault, w1) \<Rightarrow> (Inr (), w1\<lparr>w_spool := Some (spool_append l (w_spool w1))\<rparr>)
     | (Fail e, w1) \<Rightarrow> (Inl e, w1)
     | (Torn e, w1) \<Rightarrow> (Inl e, w1\<lparr>w_spool := Some (spool_tear (w_spool w1))\<rparr>)
     | (Late e, w1) \<Rightarrow> (Inl e, w1\<lparr>w_spool := Some (spool_append l (w_spool w1))\<rparr>))"

section \<open>Names\<close>

definition safe_char :: "char \<Rightarrow> bool" where
  "safe_char c \<longleftrightarrow> 97 \<le> byte c \<and> byte c \<le> 122 \<or> 48 \<le> byte c \<and> byte c \<le> 57 \<or> c = CHR ''_'' \<or> c = CHR ''-''"

definition safeSessionID :: "string \<Rightarrow> bool" where
  "safeSessionID s \<longleftrightarrow> 1 \<le> length s \<and> length s \<le> 128 \<and> list_all safe_char s"

definition sanitizeSessionID :: "(string \<Rightarrow> string) \<Rightarrow> string \<Rightarrow> string" where
  "sanitizeSessionID sha s = (if safeSessionID s then s else hex_string (sha s))"

definition idempotencyBase :: "(string \<Rightarrow> string) \<Rightarrow> string \<Rightarrow> string" where
  "idempotencyBase sha s = ''harness-'' @ hex_string (sha s)"

text \<open>
  A hashed id shares its directory with the safe id that is the text of its hash: the two
  conversations are kept apart only by the owner written into the state.
\<close>

lemma hex_safe:
  assumes "length s = 32"
  shows "safeSessionID (hex_string s)"
proof -
  have d: "safe_char (hex_digit n)" if "n < 16" for n
    using that by (auto simp: hex_digit_def safe_char_def)
  have h: "list_all safe_char (hex_string s) \<and> length (hex_string s) = 2 * length s" for s
  proof (induction s)
    case (Cons c s)
    have "byte c div 16 < 16" "byte c mod 16 < 16" using byte_less [of c] by (auto simp: less_mult_imp_div_less)
    then show ?case using Cons d by (simp add: hex_string_def)
  qed (simp add: hex_string_def)
  show ?thesis using h [of s] assms by (simp add: safeSessionID_def)
qed

lemma hashed_id_shares_directory:
  assumes "\<not> safeSessionID s" "length (sha s) = 32"
  shows "hex_string (sha s) \<noteq> s \<and> sanitizeSessionID sha (hex_string (sha s)) = sanitizeSessionID sha s"
  using assms hex_safe [OF assms(2)] by (auto simp: sanitizeSessionID_def)

text \<open>The zero time of Go, the first of January of year 1.\<close>

definition zero_time :: int where "zero_time = - 62135596800000000"

section \<open>The manager\<close>

text \<open>\<open>strconv.Quote\<close>, SHA-256 and the client of the service are parameters.\<close>

record 'c manager =
  mg_api :: "'c calm_api"
  mg_sha :: "string \<Rightarrow> string"
  mg_quote :: "string \<Rightarrow> string"
  mg_sessionID :: string
  mg_client :: string
  mg_ttlMin :: int

definition newState :: "'c manager \<Rightarrow> int \<Rightarrow> conv_state" where
  "newState m now =
     \<lparr>st_Version = stateVersion, st_SessionID = mg_sessionID m, st_SessionToken = [], st_Client = mg_client m,
      st_IdempotencyBase = idempotencyBase (mg_sha m) (mg_sessionID m), st_RecoverySeq = 0, st_Seq = 0, st_Epoch = 0,
      st_AuthFailed = False, st_NextAttemptAt = zero_time, st_CreatedAt = now, st_Registry = [], st_RegistrySeq = []\<rparr>"

definition establishRetryInterval :: int where "establishRetryInterval = 60000000"

text \<open>The error of a state that belongs to another conversation.\<close>

definition ownedState :: "'c manager \<Rightarrow> conv_state option \<Rightarrow> string option" where
  "ownedState m s = (case s of None \<Rightarrow> None
     | Some st \<Rightarrow> if st_SessionID st \<noteq> mg_sessionID m
         then Some (''state belongs to session '' @ mg_quote m (st_SessionID st) @ '', not '' @ mg_quote m (mg_sessionID m))
         else None)"

definition storeFailure :: "string \<Rightarrow> signal" where
  "storeFailure e = \<lparr>sg_Reason = capture_failed, sg_Detail = e\<rparr>"

definition auth_signal :: signal where "auth_signal = \<lparr>sg_Reason = auth_failed, sg_Detail = []\<rparr>"
definition lost_signal :: signal where "lost_signal = \<lparr>sg_Reason = session_lost, sg_Detail = []\<rparr>"

definition unreachable_signal :: "string \<Rightarrow> signal" where
  "unreachable_signal e = \<lparr>sg_Reason = calm_unreachable, sg_Detail = e\<rparr>"

definition Manager_load :: "'c manager \<Rightarrow> 'c host \<Rightarrow> (string, conv_state) result \<times> 'c host" where
  "Manager_load m w =
     (case store_load w of
        (Inl e, w1) \<Rightarrow> (Inl e, w1)
      | (Inr s, w1) \<Rightarrow> (case ownedState m s of
            Some e \<Rightarrow> (Inl e, w1)
          | None \<Rightarrow> (Inr (case s of None \<Rightarrow> newState m (w_now w1) | Some st \<Rightarrow> st), w1)))"

text \<open>The lock and the load at the head of an operation; \<open>k\<close> is its body.\<close>

definition locked :: "'c manager \<Rightarrow> (string \<Rightarrow> 'c host \<Rightarrow> 'r \<times> 'c host) \<Rightarrow> (conv_state \<Rightarrow> 'c host \<Rightarrow> 'r \<times> 'c host)
    \<Rightarrow> 'c host \<Rightarrow> 'r \<times> 'c host" where
  "locked m failed k w =
     (case store_lock w of
        (Inl e, w1) \<Rightarrow> failed e w1
      | (Inr _, w1) \<Rightarrow> (case Manager_load m w1 of (Inl e, w2) \<Rightarrow> failed e w2 | (Inr st, w2) \<Rightarrow> k st w2))"

definition throttleActive :: "conv_state \<Rightarrow> int \<Rightarrow> bool" where
  "throttleActive st now \<longleftrightarrow> now < st_NextAttemptAt st \<and> \<not> now + establishRetryInterval < st_NextAttemptAt st"

text \<open>The key of a create: a fresh one for every generation of the session.\<close>

definition create_key :: "conv_state \<Rightarrow> string" where
  "create_key st = st_IdempotencyBase st @ ''-r'' @ json_int (st_RecoverySeq st)"

definition Manager_register :: "'c manager \<Rightarrow> conv_state \<Rightarrow> 'c host \<Rightarrow> (signal option \<times> conv_state) \<times> 'c host" where
  "Manager_register m st w =
     (case api_RegisterClient (mg_api m) (mg_client m) (w_calm w) of
        (Inr _, c) \<Rightarrow> ((None, st), w\<lparr>w_calm := c\<rparr>)
      | (Inl e, c) \<Rightarrow>
          if auth_rejected e then ((Some auth_signal, st\<lparr>st_AuthFailed := True\<rparr>), w\<lparr>w_calm := c\<rparr>)
          else ((Some (unreachable_signal (error_text e)), st), w\<lparr>w_calm := c\<rparr>))"

definition create :: "'c manager \<Rightarrow> string \<Rightarrow> 'c host \<Rightarrow> (calm_error, string) result \<times> 'c host" where
  "create m key w =
     (case api_CreateSession (mg_api m) (mg_client m) (mg_ttlMin m) key (w_calm w) of (r, c) \<Rightarrow> (r, w\<lparr>w_calm := c\<rparr>))"

definition establish :: "'c manager \<Rightarrow> conv_state \<Rightarrow> string \<Rightarrow> 'c host \<Rightarrow> (signal option \<times> conv_state) \<times> 'c host" where
  "establish m st key w =
     (case Manager_register m st w of
        ((Some sig, st1), w1) \<Rightarrow> ((Some sig, st1), w1)
      | ((None, st1), w1) \<Rightarrow>
          (case create m key w1 of
             (Inr token, w2) \<Rightarrow> ((None, st1\<lparr>st_SessionToken := token, st_Client := mg_client m\<rparr>), w2)
           | (Inl e, w2) \<Rightarrow>
               if isStatus4xx e then ((Some auth_signal, st1\<lparr>st_AuthFailed := True, st_SessionToken := []\<rparr>), w2)
               else ((Some (unreachable_signal (error_text e)), st1), w2)))"

definition throttled :: string where "throttled = ''session establishment throttled after a recent failure''"

definition saved :: "conv_state \<Rightarrow> (signal, 'r) result \<Rightarrow> 'c host \<Rightarrow> (signal, 'r) result \<times> 'c host" where
  "saved st r w = (case store_save st w of (Inl e, w1) \<Rightarrow> (Inl (storeFailure e), w1) | (Inr _, w1) \<Rightarrow> (r, w1))"

definition ensure_body :: "'c manager \<Rightarrow> conv_state \<Rightarrow> 'c host \<Rightarrow> (signal, string \<times> int) result \<times> 'c host" where
  "ensure_body m st w =
     (if st_AuthFailed st then (Inl auth_signal, w)
      else if st_SessionToken st \<noteq> []
      then saved (st\<lparr>st_Seq := st_Seq st + 1\<rparr>) (Inr (st_SessionToken st, st_Seq st + 1)) w
      else if throttleActive st (w_now w) then (Inl (unreachable_signal throttled), w)
      else case establish m st (create_key st) w of
             ((Some sig, st1), w1) \<Rightarrow>
               (Inl sig, snd (store_save
                  (if sg_Reason sig = calm_unreachable then st1\<lparr>st_NextAttemptAt := w_now w1 + establishRetryInterval\<rparr> else st1) w1))
           | ((None, st1), w1) \<Rightarrow>
               saved (st1\<lparr>st_NextAttemptAt := zero_time, st_Seq := st_Seq st1 + 1\<rparr>)
                 (Inr (st_SessionToken st1, st_Seq st1 + 1)) w1)"

definition Manager_Ensure :: "'c manager \<Rightarrow> 'c host \<Rightarrow> (signal, string \<times> int) result \<times> 'c host" where
  "Manager_Ensure m = locked m (\<lambda>e w. (Inl (storeFailure e), w)) (ensure_body m)"

text \<open>The state an operation finds without seeding a fresh one; any failure only leaves a log line.\<close>

definition if_current :: "'c manager \<Rightarrow> string \<Rightarrow> (conv_state \<Rightarrow> 'c host \<Rightarrow> 'c host) \<Rightarrow> 'c host \<Rightarrow> 'c host" where
  "if_current m token k w =
     (case store_lock w of
        (Inl e, w1) \<Rightarrow> w1
      | (Inr _, w1) \<Rightarrow> (case store_load w1 of
            (Inr (Some st), w2) \<Rightarrow>
              if ownedState m (Some st) \<noteq> None \<or> st_SessionToken st \<noteq> token then w2 else k st w2
          | (_, w2) \<Rightarrow> w2))"

definition recorded :: "sourceToken list \<Rightarrow> conv_state \<Rightarrow> conv_state" where
  "recorded delta st =
     st\<lparr>st_Registry := record_delta delta (st_Registry st),
        st_RegistrySeq := fold (\<lambda>d. AList.update (tk_Source d) (st_Seq st)) delta (st_RegistrySeq st)\<rparr>"

definition Manager_Record :: "'c manager \<Rightarrow> string \<Rightarrow> sourceToken list \<Rightarrow> 'c host \<Rightarrow> 'c host" where
  "Manager_Record m token delta w =
     (if delta = [] then w else if_current m token (\<lambda>st w. snd (store_save (recorded delta st) w)) w)"

definition Manager_Enqueue :: "'c manager \<Rightarrow> string \<Rightarrow> eventInput list \<Rightarrow> 'c host \<Rightarrow> 'c host" where
  "Manager_Enqueue m token events w =
     (if events = [] then w
      else if_current m token
        (\<lambda>st w. snd (appendSpool \<lparr>sl_Epoch = st_Epoch st, sl_SessionToken = token, sl_Events = events\<rparr> w)) w)"

definition signal_after :: "conv_state \<Rightarrow> signal \<Rightarrow> 'c host \<Rightarrow> signal option \<times> 'c host" where
  "signal_after st sig w =
     (case store_save st w of (Inl e, w1) \<Rightarrow> (Some (storeFailure e), w1) | (Inr _, w1) \<Rightarrow> (Some sig, w1))"

definition latchAuth :: "'c manager \<Rightarrow> 'c host \<Rightarrow> signal option \<times> 'c host" where
  "latchAuth m = locked m (\<lambda>e w. (Some (storeFailure e), w))
     (\<lambda>st. signal_after (st\<lparr>st_AuthFailed := True, st_SessionToken := []\<rparr>) auth_signal)"

definition recover_body :: "'c manager \<Rightarrow> string \<Rightarrow> conv_state \<Rightarrow> 'c host \<Rightarrow> signal option \<times> 'c host" where
  "recover_body m failedToken st w =
     (if st_AuthFailed st then (Some auth_signal, w)
      else if st_SessionToken st \<noteq> failedToken then (Some lost_signal, w)
      else let st1 = st\<lparr>st_RecoverySeq := st_RecoverySeq st + 1\<rparr> in
           case create m (create_key st1) w of
             (Inr token, w1) \<Rightarrow>
               signal_after (st1\<lparr>st_SessionToken := token, st_Epoch := st_Epoch st1 + 1, st_Registry := [], st_RegistrySeq := []\<rparr>)
                 lost_signal w1
           | (Inl e, w1) \<Rightarrow>
               if isStatus4xx e then signal_after (st1\<lparr>st_AuthFailed := True, st_SessionToken := []\<rparr>) auth_signal w1
               else (Some (unreachable_signal (error_text e)), w1))"

definition recover :: "'c manager \<Rightarrow> string \<Rightarrow> 'c host \<Rightarrow> signal option \<times> 'c host" where
  "recover m failedToken = locked m (\<lambda>e w. (Some (storeFailure e), w)) (recover_body m failedToken)"

definition Manager_OnCallError :: "'c manager \<Rightarrow> string \<Rightarrow> calm_error \<Rightarrow> 'c host \<Rightarrow> signal option \<times> 'c host" where
  "Manager_OnCallError m failedToken e =
     (if auth_rejected e then latchAuth m
      else if session_not_found e then recover m failedToken
      else (\<lambda>w. (None, w)))"

definition reset_state :: "conv_state \<Rightarrow> conv_state" where
  "reset_state st =
     st\<lparr>st_AuthFailed := False, st_SessionToken := [], st_NextAttemptAt := zero_time, st_RecoverySeq := st_RecoverySeq st + 1,
        st_Epoch := st_Epoch st + 1, st_Registry := [], st_RegistrySeq := []\<rparr>"

definition Manager_Reset :: "'c manager \<Rightarrow> 'c host \<Rightarrow> (string, unit) result \<times> 'c host" where
  "Manager_Reset m w =
     (case store_lock w of
        (Inl e, w1) \<Rightarrow> (Inl e, w1)
      | (Inr _, w1) \<Rightarrow> (case store_load w1 of
            (Inl e, w2) \<Rightarrow> (Inl e, w2)
          | (Inr None, w2) \<Rightarrow> (Inr (), w2)
          | (Inr (Some st), w2) \<Rightarrow> (case ownedState m (Some st) of
                Some e \<Rightarrow> (Inl e, w2)
              | None \<Rightarrow> store_save (reset_state st) w2)))"

section \<open>Read-only views\<close>

record view =
  vw_Token :: string
  vw_Established :: bool
  vw_AuthFailed :: bool
  vw_Epoch :: int
  vw_Registry :: registry_map

definition view_of :: "conv_state option \<Rightarrow> view" where
  "view_of s = (case s of
       None \<Rightarrow> \<lparr>vw_Token = [], vw_Established = False, vw_AuthFailed = False, vw_Epoch = 0, vw_Registry = NewRegistry\<rparr>
     | Some st \<Rightarrow> \<lparr>vw_Token = st_SessionToken st, vw_Established = True, vw_AuthFailed = st_AuthFailed st,
                  vw_Epoch = st_Epoch st, vw_Registry = Registry_Load (st_Registry st) NewRegistry\<rparr>)"

record inventoryEntry =
  iv_Label :: string
  iv_Token :: string
  iv_Seq :: int

definition entry_less :: "inventoryEntry \<Rightarrow> inventoryEntry \<Rightarrow> bool" where
  "entry_less a b \<longleftrightarrow> (if iv_Seq a \<noteq> iv_Seq b then iv_Seq b < iv_Seq a else str_less (iv_Label a) (iv_Label b))"

text \<open>A label that was recorded before the sequence stamps existed reads as stamp 0.\<close>

definition inventory_of :: "conv_state \<Rightarrow> inventoryEntry list" where
  "inventory_of st =
     stable_sort entry_less
       (map (\<lambda>(l, t). \<lparr>iv_Label = l, iv_Token = t,
                     iv_Seq = (case map_of (st_RegistrySeq st) l of None \<Rightarrow> 0 | Some n \<Rightarrow> n)\<rparr>) (st_Registry st))"

definition read_only :: "'c manager \<Rightarrow> (conv_state option \<Rightarrow> 'r) \<Rightarrow> 'c host \<Rightarrow> (string, 'r) result \<times> 'c host" where
  "read_only m f w =
     (case store_lock w of
        (Inl e, w1) \<Rightarrow> (Inl e, w1)
      | (Inr _, w1) \<Rightarrow> (case store_load w1 of
            (Inl e, w2) \<Rightarrow> (Inl e, w2)
          | (Inr s, w2) \<Rightarrow> (case ownedState m s of Some e \<Rightarrow> Inl e | None \<Rightarrow> Inr (f s), w2)))"

definition Manager_View :: "'c manager \<Rightarrow> 'c host \<Rightarrow> (string, view) result \<times> 'c host" where
  "Manager_View m = read_only m view_of"

definition Manager_Inventory :: "'c manager \<Rightarrow> 'c host \<Rightarrow> (string, int \<times> inventoryEntry list) result \<times> 'c host" where
  "Manager_Inventory m = read_only m (\<lambda>s. case s of None \<Rightarrow> (0, []) | Some st \<Rightarrow> (st_Seq st, inventory_of st))"

end
