(* ===== verification/Session_Spool.thy ===== *)
theory Session_Spool
  imports Session_Manager
begin

text \<open>
  internal/adapter/session/spool.go and gc.go: the delivery of spooled events, and the
  reclamation of idle conversations. A drain claims the spool by renaming it, delivers the
  lines of the claim outside the lock, and leaves an abandoned claim to age until it is
  deleted unread.
\<close>

section \<open>Draining\<close>

definition staleInflightAge :: int where "staleInflightAge = 600000000"

text \<open>A claim is removed once its time lies before the cutoff.\<close>

definition reapStaleInflight :: "'c host \<Rightarrow> 'c host" where
  "reapStaleInflight w =
     (case disk (\<lambda>w. ((), w)) w of
        (Inl e, w1) \<Rightarrow> w1
      | (Inr _, w1) \<Rightarrow> w1\<lparr>w_inflight := filter (\<lambda>f. \<not> if_mtime f < w_now w1 - staleInflightAge) (w_inflight w1)\<rparr>)"

text \<open>The rename replaces an older claim of the same process id.\<close>

definition claimSpool :: "'c manager \<Rightarrow> int \<Rightarrow> 'c host \<Rightarrow> bool \<times> 'c host" where
  "claimSpool m pid w =
     (case store_lock w of
        (Inl e, w1) \<Rightarrow> (False, w1)
      | (Inr _, w1) \<Rightarrow>
          (case w_spool w1 of
             None \<Rightarrow> (False, w1)
           | Some f \<Rightarrow>
               (case disk (\<lambda>w. ((), w\<lparr>w_spool := None,
                    w_inflight := \<lparr>if_pid = pid, if_mtime = w_now w, if_lines = sf_lines f\<rparr> # filter (\<lambda>i. if_pid i \<noteq> pid) (w_inflight w)\<rparr>)) w1 of
                  (Inl e, w2) \<Rightarrow> (False, w2)
                | (Inr _, w2) \<Rightarrow> (True, w2))))"

record drained =
  dr_delivered :: "spoolLine list"
  dr_notFound :: "spoolLine list"
  dr_stale :: nat
  dr_abandoned :: bool

definition nothing_drained :: drained where
  "nothing_drained = \<lparr>dr_delivered = [], dr_notFound = [], dr_stale = 0, dr_abandoned = False\<rparr>"

text \<open>The loop over the lines; it stops at the first failure that is not a 404.\<close>

fun deliver_lines :: "'c calm_api \<Rightarrow> int \<Rightarrow> spoolLine option list \<Rightarrow> drained \<Rightarrow> 'c \<Rightarrow> drained \<times> 'c" where
  "deliver_lines api epoch [] d c = (d, c)"
| "deliver_lines api epoch (None # ls) d c = deliver_lines api epoch ls (d\<lparr>dr_stale := dr_stale d + 1\<rparr>) c"
| "deliver_lines api epoch (Some ln # ls) d c =
     (if sl_Epoch ln \<noteq> epoch then deliver_lines api epoch ls (d\<lparr>dr_stale := dr_stale d + 1\<rparr>) c
      else case api_WriteEvents api (sl_SessionToken ln) (sl_Events ln) c of
             (Inr _, c1) \<Rightarrow> deliver_lines api epoch ls (d\<lparr>dr_delivered := dr_delivered d @ [ln]\<rparr>) c1
           | (Inl e, c1) \<Rightarrow>
               if session_not_found e then deliver_lines api epoch ls (d\<lparr>dr_notFound := dr_notFound d @ [ln]\<rparr>) c1
               else (d\<lparr>dr_abandoned := True\<rparr>, c1))"

definition discardInflight :: "int \<Rightarrow> 'c host \<Rightarrow> 'c host" where
  "discardInflight pid w = snd (disk (\<lambda>w. ((), w\<lparr>w_inflight := filter (\<lambda>i. if_pid i \<noteq> pid) (w_inflight w)\<rparr>)) w)"

definition claimed_lines :: "int \<Rightarrow> 'c host \<Rightarrow> spoolLine option list" where
  "claimed_lines pid w = (case filter (\<lambda>i. if_pid i = pid) (w_inflight w) of [] \<Rightarrow> [] | i # _ \<Rightarrow> if_lines i)"

text \<open>The state is read without the lock and without the check of its owner.\<close>

definition deliverInflight :: "'c manager \<Rightarrow> int \<Rightarrow> 'c host \<Rightarrow> drained \<times> 'c host" where
  "deliverInflight m pid w =
     (case disk (\<lambda>w. (claimed_lines pid w, w)) w of
        (Inl e, w1) \<Rightarrow> (nothing_drained, w1)
      | (Inr ls, w1) \<Rightarrow>
          (case store_load w1 of
             (Inl e, w2) \<Rightarrow> (nothing_drained, w2)
           | (Inr None, w2) \<Rightarrow> (nothing_drained, discardInflight pid w2)
           | (Inr (Some st), w2) \<Rightarrow>
               (case deliver_lines (mg_api m) (st_Epoch st) ls nothing_drained (w_calm w2) of
                  (d, c) \<Rightarrow> (d, if dr_abandoned d then w2\<lparr>w_calm := c\<rparr> else discardInflight pid (w2\<lparr>w_calm := c\<rparr>)))))"

definition Manager_Drain :: "'c manager \<Rightarrow> int \<Rightarrow> 'c host \<Rightarrow> drained \<times> 'c host" where
  "Manager_Drain m pid w =
     (case claimSpool m pid (reapStaleInflight w) of
        (False, w1) \<Rightarrow> (nothing_drained, w1)
      | (True, w1) \<Rightarrow> deliverInflight m pid w1)"

section \<open>Garbage collection\<close>

text \<open>
  A conversation directory: whether another process holds its lock, the times of the state file
  and of the directory, and its other entries. None is a stat or a lock that fails.
\<close>

record dirEntry =
  de_name :: string
  de_isDir :: bool
  de_mtime :: "int option"

record convDir =
  cd_isDir :: bool
  cd_lock :: "bool option"
  cd_state :: "int option"
  cd_mtime :: "int option"
  cd_entries :: "dirEntry list"
  cd_removable :: bool

definition gc_floor :: int where "gc_floor = 48 * 3600 * 1000000"

definition gc_idle :: "int \<Rightarrow> int" where
  "gc_idle sessionTTL = (if 2 * sessionTTL < gc_floor then gc_floor else 2 * sessionTTL)"

definition idleSince :: "convDir \<Rightarrow> int \<Rightarrow> bool" where
  "idleSince d cutoff =
     (case (case cd_state d of Some t \<Rightarrow> Some t | None \<Rightarrow> cd_mtime d) of
        None \<Rightarrow> False | Some t \<Rightarrow> \<not> cutoff < t)"

definition free_lock :: "convDir \<Rightarrow> bool" where "free_lock d \<longleftrightarrow> cd_lock d = Some False"

definition reapIfIdle :: "convDir \<Rightarrow> int \<Rightarrow> bool" where
  "reapIfIdle d cutoff \<longleftrightarrow>
     idleSince d cutoff \<and> free_lock d
     \<and> \<not> (case cd_state d of Some t \<Rightarrow> cutoff < t | None \<Rightarrow> False) \<and> cd_removable d"

definition modified_before :: "dirEntry \<Rightarrow> int \<Rightarrow> bool" where
  "modified_before e cutoff = (case de_mtime e of None \<Rightarrow> False | Some t \<Rightarrow> t < cutoff)"

definition spoolFileName :: string where "spoolFileName = ''events.spool''"
definition inflightPrefix :: string where "inflightPrefix = ''events.inflight.''"

definition orphan :: "int \<Rightarrow> int \<Rightarrow> dirEntry \<Rightarrow> bool" where
  "orphan cutoff now e \<longleftrightarrow>
     \<not> de_isDir e
     \<and> (if sublist ''.tmp.'' (de_name e) \<or> de_name e = spoolFileName then modified_before e cutoff
        else has_prefix (de_name e) inflightPrefix \<and> modified_before e (now - staleInflightAge))"

definition sweepOrphans :: "int \<Rightarrow> int \<Rightarrow> convDir \<Rightarrow> convDir" where
  "sweepOrphans cutoff now d =
     (if free_lock d then d\<lparr>cd_entries := filter (\<lambda>e. \<not> orphan cutoff now e) (cd_entries d)\<rparr> else d)"

definition session_GC :: "int \<Rightarrow> int \<Rightarrow> convDir list \<Rightarrow> convDir list" where
  "session_GC sessionTTL now ds =
     (let cutoff = now - gc_idle sessionTTL in
      concat (map (\<lambda>d. if \<not> cd_isDir d then [d]
                     else if reapIfIdle d cutoff then [] else [sweepOrphans cutoff now d]) ds))"

text \<open>
  A conversation whose state was saved within the last two days, or whose lock is held, keeps its
  directory; a busy one keeps every file; a spool is swept only after the idle time.
\<close>

lemma gc_idle_floor: "172800000000 \<le> gc_idle ttl" "2 * ttl \<le> gc_idle ttl"
  by (simp_all add: gc_idle_def gc_floor_def)

lemma GC_keeps:
  assumes "d \<in> set ds" "cd_lock d \<noteq> Some False \<or> (\<exists>t. cd_state d = Some t \<and> now - gc_idle ttl < t)"
  shows "\<exists>d'\<in>set (session_GC ttl now ds). cd_state d' = cd_state d \<and> set (cd_entries d') \<subseteq> set (cd_entries d)
    \<and> (cd_lock d \<noteq> Some False \<longrightarrow> d' = d)
    \<and> (\<forall>e\<in>set (cd_entries d) - set (cd_entries d'). orphan (now - gc_idle ttl) now e)"
proof -
  let ?c = "now - gc_idle ttl"
  have r: "\<not> reapIfIdle d ?c" using assms(2) by (auto simp: reapIfIdle_def free_lock_def idleSince_def)
  define d' where "d' = (if cd_isDir d then sweepOrphans ?c now d else d)"
  have "d' \<in> set (session_GC ttl now ds)"
    using assms(1) r unfolding session_GC_def Let_def d'_def by fastforce
  then show ?thesis by (rule bexI [rotated]) (auto simp: d'_def sweepOrphans_def free_lock_def)
qed

section \<open>What a drain attempts\<close>

lemma subset_add_msetI: "A \<subseteq># B \<Longrightarrow> A \<subseteq># add_mset x B"
  by (metis add_mset_add_single mset_subset_eq_add_left subset_mset.order_trans)

lemma deliver_lines_parts:
  assumes "deliver_lines api epoch ls d c = (d', c')"
  shows "\<exists>ds ns. dr_delivered d' = dr_delivered d @ ds \<and> dr_notFound d' = dr_notFound d @ ns
    \<and> mset ds + mset ns \<subseteq># mset (map the (filter (\<lambda>l. l \<noteq> None) ls))
    \<and> (\<forall>l\<in>set ds \<union> set ns. sl_Epoch l = epoch)"
  using assms
proof (induction api epoch ls d c rule: deliver_lines.induct)
  case (3 api epoch ln ls d c)
  let ?P = "\<lambda>d0 ls. \<exists>ds ns. dr_delivered d' = dr_delivered d0 @ ds \<and> dr_notFound d' = dr_notFound d0 @ ns
    \<and> mset ds + mset ns \<subseteq># mset (map the (filter (\<lambda>l. l \<noteq> None) ls)) \<and> (\<forall>l\<in>set ds \<union> set ns. sl_Epoch l = epoch)"
  show ?case
  proof (cases "sl_Epoch ln = epoch")
    case False
    then have "?P (d\<lparr>dr_stale := dr_stale d + 1\<rparr>) ls" using "3.IH"(1) "3.prems" by simp
    then show ?thesis by (auto intro: subset_add_msetI)
  next
    case True
    obtain r c1 where r: "api_WriteEvents api (sl_SessionToken ln) (sl_Events ln) c = (r, c1)" by fastforce
    show ?thesis
    proof (cases r)
      case (Inr u)
      have "?P (d\<lparr>dr_delivered := dr_delivered d @ [ln]\<rparr>) ls"
        using "3.IH"(3) [OF _ r [symmetric] Inr] "3.prems" True r [unfolded Inr] by simp
      then obtain ds ns where "dr_delivered d' = dr_delivered d @ ln # ds" "dr_notFound d' = dr_notFound d @ ns"
        "mset ds + mset ns \<subseteq># mset (map the (filter (\<lambda>l. l \<noteq> None) ls))" "\<forall>l\<in>set ds \<union> set ns. sl_Epoch l = epoch" by auto
      then show ?thesis using True by (intro exI [of _ "ln # ds"] exI [of _ ns]) auto
    next
      case (Inl e)
      show ?thesis
      proof (cases "session_not_found e")
        case nf: True
        have "?P (d\<lparr>dr_notFound := dr_notFound d @ [ln]\<rparr>) ls"
          using "3.IH"(2) [OF _ r [symmetric] Inl nf] "3.prems" True nf r [unfolded Inl] by simp
        then obtain ds ns where "dr_delivered d' = dr_delivered d @ ds" "dr_notFound d' = dr_notFound d @ ln # ns"
          "mset ds + mset ns \<subseteq># mset (map the (filter (\<lambda>l. l \<noteq> None) ls))" "\<forall>l\<in>set ds \<union> set ns. sl_Epoch l = epoch" by auto
        then show ?thesis using True by (intro exI [of _ ds] exI [of _ "ln # ns"]) auto
      next
        case False
        then show ?thesis using "3.prems" True Inl r by auto
      qed
    qed
  qed
qed auto

end
