(* ===== verification/Session_History.thy ===== *)
theory Session_History
  imports Session_Spool
begin

text \<open>
  What the operations of internal/adapter/session add up to. The life of a conversation state is
  an abstract automaton on the record alone; every operation, with any reply of the
  service and any local fault, takes at most one of its steps on the state file. The
  invariants are proved by rule induction on the automaton and then hold for every
  history of operations.
\<close>

section \<open>The automaton of a conversation\<close>

inductive conv_step :: "conv_state \<Rightarrow> conv_state \<Rightarrow> bool" where
  allocate: "\<not> st_AuthFailed st \<Longrightarrow> st_SessionToken st \<noteq> [] \<Longrightarrow> conv_step st (st\<lparr>st_Seq := st_Seq st + 1\<rparr>)"
| established: "\<not> st_AuthFailed st \<Longrightarrow> st_SessionToken st = [] \<Longrightarrow>
    conv_step st (st\<lparr>st_SessionToken := token, st_Client := client, st_NextAttemptAt := zero_time, st_Seq := st_Seq st + 1\<rparr>)"
| postponed: "\<not> st_AuthFailed st \<Longrightarrow> st_SessionToken st = [] \<Longrightarrow> conv_step st (st\<lparr>st_NextAttemptAt := t\<rparr>)"
| latched: "conv_step st (st\<lparr>st_AuthFailed := True, st_SessionToken := []\<rparr>)"
| rejected: "\<not> st_AuthFailed st \<Longrightarrow>
    conv_step st (st\<lparr>st_RecoverySeq := st_RecoverySeq st + 1, st_AuthFailed := True, st_SessionToken := []\<rparr>)"
| replaced: "\<not> st_AuthFailed st \<Longrightarrow>
    conv_step st (st\<lparr>st_RecoverySeq := st_RecoverySeq st + 1, st_SessionToken := token, st_Epoch := st_Epoch st + 1,
                     st_Registry := [], st_RegistrySeq := []\<rparr>)"
| reset: "conv_step st (reset_state st)"

inductive_cases conv_stepE: "conv_step st st'"

text \<open>
  The epoch never outruns the recovery counter, the latch clears the token, the registry has one
  entry per source, and every stamp in it is a number already given out.
\<close>

definition conv_ok :: "conv_state \<Rightarrow> bool" where
  "conv_ok st \<longleftrightarrow>
     0 \<le> st_Epoch st \<and> st_Epoch st \<le> st_RecoverySeq st \<and> 0 \<le> st_Seq st
     \<and> (st_AuthFailed st \<longrightarrow> st_SessionToken st = [])
     \<and> distinct (map fst (st_Registry st)) \<and> distinct (map fst (st_RegistrySeq st))
     \<and> (\<forall>k. map_of (st_RegistrySeq st) k = None \<longleftrightarrow> map_of (st_Registry st) k = None)
     \<and> (\<forall>k n. map_of (st_RegistrySeq st) k = Some n \<longrightarrow> n \<le> st_Seq st)"

lemma stamps_fold:
  "map_of (fold (\<lambda>d. AList.update (tk_Source d) n) delta r) k =
     (if k \<in> tk_Source ` set delta then Some n else map_of r k)"
  by (induction delta arbitrary: r) (auto simp: update_conv')

lemma stamps_distinct:
  "distinct (map fst r) \<Longrightarrow> distinct (map fst (fold (\<lambda>d. AList.update (tk_Source d) n) delta r))"
  by (induction delta arbitrary: r) (simp_all add: distinct_update)

lemma record_delta_None: "map_of (record_delta delta r) k = None \<longleftrightarrow> k \<notin> tk_Source ` set delta \<and> map_of r k = None"
  by (induction delta arbitrary: r) (auto simp: record_delta_def update_conv')

lemma newState_ok: "conv_ok (newState m now)"
  by (simp add: newState_def conv_ok_def)

lemma conv_ok_stamp: "conv_ok st \<Longrightarrow> map_of (st_RegistrySeq st) k = Some n \<Longrightarrow> n \<le> st_Seq st"
  unfolding conv_ok_def by blast

lemma recorded_ok:
  assumes ok: "conv_ok st"
  shows "conv_ok (recorded delta st)"
proof -
  let ?f = "fold (\<lambda>d. AList.update (tk_Source d) (st_Seq st)) delta (st_RegistrySeq st)"
  have "map_of ?f k = None \<longleftrightarrow> map_of (record_delta delta (st_Registry st)) k = None" for k
    using ok unfolding conv_ok_def record_delta_None stamps_fold by (simp del: map_of_eq_None_iff)
  moreover have "n \<le> st_Seq st" if "map_of ?f k = Some n" for k n
    using that conv_ok_stamp [OF ok] by (auto simp: stamps_fold split: if_splits)
  ultimately show ?thesis
    using ok by (simp add: conv_ok_def recorded_def record_delta_distinct stamps_distinct del: map_of_eq_None_iff)
qed

lemma conv_ok_raise:
  assumes ok: "conv_ok st"
  shows "conv_ok (st\<lparr>st_Seq := st_Seq st + 1\<rparr>)"
proof -
  have "n \<le> st_Seq st + 1" if "map_of (st_RegistrySeq st) k = Some n" for k n
    using conv_ok_stamp [OF ok that] by simp
  then show ?thesis using ok by (simp add: conv_ok_def del: map_of_eq_None_iff)
qed

lemma conv_step_ok:
  assumes "conv_step st st'" "conv_ok st"
  shows "conv_ok st'"
  using assms(1)
proof cases
  case allocate
  then show ?thesis using conv_ok_raise [OF assms(2)] by simp
next
  case (established token client)
  then show ?thesis using conv_ok_raise [OF assms(2)] by (simp add: conv_ok_def del: map_of_eq_None_iff)
qed (use assms(2) in \<open>simp_all add: conv_ok_def reset_state_def del: map_of_eq_None_iff\<close>)

text \<open>Counters only grow; a new token of a new epoch is created under a new key.\<close>

lemma conv_step_mono:
  assumes "conv_step st st'"
  shows "st_Seq st \<le> st_Seq st'" "st_Epoch st \<le> st_Epoch st'" "st_RecoverySeq st \<le> st_RecoverySeq st'"
    "st_SessionID st' = st_SessionID st" "st_IdempotencyBase st' = st_IdempotencyBase st" "st_Version st' = st_Version st"
    "st_Epoch st < st_Epoch st' \<Longrightarrow> st_RecoverySeq st < st_RecoverySeq st'"
  using assms by (cases; simp add: reset_state_def)+

section \<open>Every operation takes at most one step\<close>

text \<open>The files of a conversation and the clock; the service and the faults are left out.\<close>

definition files :: "'c host \<Rightarrow> conv_state option \<times> spoolFile option \<times> inflight list \<times> int" where
  "files w = (w_state w, w_spool w, w_inflight w, w_now w)"

lemma next_fault_files: "next_fault w = (f, w') \<Longrightarrow> files w' = files w"
  by (auto simp: next_fault_def files_def split: list.splits)

lemma next_fault_none: "w_faults w = [] \<Longrightarrow> next_fault w = (NoFault, w)"
  by (simp add: next_fault_def)

lemma store_lock_files: "store_lock w = (r, w') \<Longrightarrow> files w' = files w"
  by (auto simp: store_lock_def disk_def dest: next_fault_files split: prod.splits fault.splits)

lemma store_load_files:
  assumes "store_load w = (r, w')"
  shows "files w' = files w" "r = Inr s \<Longrightarrow> s = w_state w \<and> (\<forall>st. s = Some st \<longrightarrow> st_Version st = stateVersion)"
  using assms
  by (auto simp: store_load_def disk_def files_def dest!: next_fault_files split: prod.splits fault.splits sum.splits option.splits if_splits)

lemma store_save_files:
  assumes "store_save st w = (r, w')"
  shows "(\<exists>e. r = Inl e) \<and> files w' = files w \<or> r = Inr () \<and> files w' = (Some st, snd (files w))"
  using assms by (auto simp: store_save_def disk_def files_def dest!: next_fault_files split: prod.splits fault.splits)

text \<open>The state an operation works on.\<close>

definition loaded :: "'c manager \<Rightarrow> 'c host \<Rightarrow> conv_state \<Rightarrow> bool" where
  "loaded m w st \<longleftrightarrow>
     (case w_state w of None \<Rightarrow> st = newState m (w_now w)
      | Some s \<Rightarrow> st = s \<and> st_SessionID s = mg_sessionID m \<and> st_Version s = stateVersion)"

lemma Manager_load_files:
  assumes "Manager_load m w = (r, w')"
  shows "files w' = files w" "r = Inr st \<Longrightarrow> loaded m w st"
proof -
  obtain r1 w1 where l: "store_load w = (r1, w1)" by fastforce
  note f = store_load_files [OF l]
  show "files w' = files w"
    using assms l f(1) by (auto simp: Manager_load_def split: sum.splits option.splits)
  show "loaded m w st" if "r = Inr st"
  proof -
    note r = that
    obtain s where s: "r1 = Inr s" using assms l r by (cases r1) (simp_all add: Manager_load_def)
    have w: "w_state w = s" "w_now w1 = w_now w" "\<And>st. s = Some st \<Longrightarrow> st_Version st = stateVersion"
      using f(1) f(2) [OF s] by (simp_all add: files_def)
    show ?thesis
      using assms l r w by (cases s) (auto simp: s Manager_load_def loaded_def ownedState_def split: if_splits)
  qed
qed

lemma disk_reliable: "w_faults w = [] \<Longrightarrow> disk act w = apfst Inr (act w)"
  by (simp add: disk_def next_fault_none)

lemma store_lock_reliable: "w_faults w = [] \<Longrightarrow> store_lock w = (Inr (), w)"
  by (simp add: store_lock_def disk_reliable)

lemma store_load_reliable:
  "w_faults w = [] \<Longrightarrow> snd (store_load w) = w"
  "w_faults w = [] \<Longrightarrow> w_state w = None \<or> st_Version (the (w_state w)) = stateVersion \<Longrightarrow> store_load w = (Inr (w_state w), w)"
  by (simp add: store_load_def disk_reliable split: option.splits)
    (cases "w_state w", simp_all add: store_load_def disk_reliable)

lemma Manager_load_reliable: "w_faults w = [] \<Longrightarrow> snd (Manager_load m w) = w"
  using store_load_reliable(1) [of w] by (cases "store_load w") (simp add: Manager_load_def split: sum.splits option.splits)

lemma store_save_reliable: "w_faults w = [] \<Longrightarrow> store_save st w = (Inr (), w\<lparr>w_state := Some st\<rparr>)"
  by (simp add: store_save_def disk_reliable)

text \<open>What an operation may do to the files: nothing, or one step of the state.\<close>

definition one_step :: "'c manager \<Rightarrow> 'c host \<Rightarrow> 'c host \<Rightarrow> bool" where
  "one_step m w w' \<longleftrightarrow>
     files w' = files w \<or> (\<exists>st st'. loaded m w st \<and> conv_step st st' \<and> files w' = (Some st', snd (files w)))"

lemma loaded_files: "files w' = files w \<Longrightarrow> loaded m w' = loaded m w"
  by (cases "w_state w") (auto simp: files_def loaded_def fun_eq_iff)

lemma one_step_files: "files w1 = files w \<Longrightarrow> one_step m w1 w' = one_step m w w'"
  using loaded_files [of w1 w m] by (simp add: one_step_def)

lemma locked_cases:
  assumes "locked m failed k w = (r, w')"
  obtains (failed) e w1 where "files w1 = files w" "failed e w1 = (r, w')"
    | (body) st w1 where "files w1 = files w" "loaded m w st" "k st w1 = (r, w')" "w_faults w = [] \<Longrightarrow> w_faults w1 = []"
proof -
  obtain r1 w1 where l: "store_lock w = (r1, w1)" by fastforce
  obtain r2 w2 where l2: "Manager_load m w1 = (r2, w2)" by fastforce
  have f: "files w1 = files w" "files w2 = files w"
    using store_lock_files [OF l] Manager_load_files(1) [OF l2] by auto
  have nf: "w_faults w2 = []" if "w_faults w = []"
    using l l2 Manager_load_reliable [OF that, of m] store_lock_reliable [OF that] that by simp
  show thesis
  proof (cases r1)
    case (Inl e)
    then show thesis using failed f assms l by (simp add: locked_def)
  next
    case (Inr u)
    show thesis
    proof (cases r2)
      case e2: (Inl e)
      then show thesis using failed f assms l l2 Inr by (simp add: locked_def)
    next
      case st: (Inr st)
      have "loaded m w1 st" using Manager_load_files(2) [OF l2 st] .
      then have "loaded m w st" by (simp add: loaded_files [OF f(1)])
      then show thesis using body [OF f(2)] assms l l2 Inr st nf by (simp add: locked_def)
    qed
  qed
qed

lemma saved_files:
  assumes "saved st r w = (r', w')"
  shows "(\<exists>e. r' = Inl (storeFailure e)) \<and> files w' = files w \<or> r' = r \<and> files w' = (Some st, snd (files w))"
proof -
  obtain a w1 where s: "store_save st w = (a, w1)" by fastforce
  show ?thesis using assms store_save_files [OF s] by (auto simp: saved_def s)
qed

lemma calm_files [simp]: "files (w\<lparr>w_calm := c\<rparr>) = files w"
  by (simp add: files_def)

lemma create_files: "create m key w = (r, w') \<Longrightarrow> files w' = files w"
  by (auto simp: create_def files_def split: prod.splits)

lemma register_files:
  assumes "Manager_register m st w = ((sig_opt, st'), w')"
  shows "files w' = files w
    \<and> (sig_opt = None \<and> st' = st
       \<or> sig_opt = Some auth_signal \<and> st' = st\<lparr>st_AuthFailed := True\<rparr>
       \<or> (\<exists>e. sig_opt = Some (unreachable_signal e)) \<and> st' = st)"
  using assms by (auto simp: Manager_register_def files_def split: prod.splits sum.splits if_splits)

lemma establish_files:
  assumes "establish m st key w = ((sig_opt, st'), w')"
  shows "files w' = files w
    \<and> (sig_opt = None \<and> (\<exists>token. st' = st\<lparr>st_SessionToken := token, st_Client := mg_client m\<rparr>)
       \<or> sig_opt = Some auth_signal \<and> st' \<in> {st\<lparr>st_AuthFailed := True\<rparr>, st\<lparr>st_AuthFailed := True, st_SessionToken := []\<rparr>}
       \<or> (\<exists>e. sig_opt = Some (unreachable_signal e)) \<and> st' = st)"
proof -
  obtain s1 st1 w1 where g: "Manager_register m st w = ((s1, st1), w1)" by (metis prod.exhaust)
  note gf = register_files [OF g]
  show ?thesis
  proof (cases s1)
    case (Some sig)
    then show ?thesis using assms gf by (auto simp: establish_def g)
  next
    case None
    then have st1: "st1 = st" "files w1 = files w" using gf by auto
    obtain r w2 where c: "create m key w1 = (r, w2)" by fastforce
    have f: "files w2 = files w" using create_files [OF c] st1 by simp
    show ?thesis using assms f by (cases r) (auto simp: establish_def g None c st1 split: if_splits)
  qed
qed

text \<open>The two outcomes of \<open>Ensure\<close>.\<close>

definition ensure_effect :: "conv_state \<Rightarrow> (signal, string \<times> int) result \<Rightarrow> 'c host \<Rightarrow> 'c host \<Rightarrow> bool" where
  "ensure_effect st r w w' \<longleftrightarrow>
     (case r of
        Inl sig \<Rightarrow> sg_Reason sig \<noteq> [] \<and>
          (files w' = files w \<or> (\<exists>st'. conv_step st st' \<and> st_Seq st' = st_Seq st \<and> files w' = (Some st', snd (files w))))
      | Inr (token, n) \<Rightarrow> n = st_Seq st + 1 \<and>
          (\<exists>st'. conv_step st st' \<and> st_Seq st' = n \<and> st_SessionToken st' = token \<and> files w' = (Some st', snd (files w))))"

lemma reasons_given [simp]:
  "sg_Reason auth_signal \<noteq> []" "sg_Reason (unreachable_signal e) \<noteq> []" "sg_Reason (storeFailure e) \<noteq> []" "sg_Reason lost_signal \<noteq> []"
  "sg_Reason auth_signal \<noteq> calm_unreachable" "calm_unreachable \<noteq> []" "sg_Reason (unreachable_signal e) = calm_unreachable"
  by (simp_all add: auth_signal_def unreachable_signal_def storeFailure_def lost_signal_def reason_defs)

lemma latched_state:
  assumes "st_SessionToken st = []" "st' \<in> {st\<lparr>st_AuthFailed := True\<rparr>, st\<lparr>st_AuthFailed := True, st_SessionToken := []\<rparr>}"
  shows "conv_step st st' \<and> st_Seq st' = st_Seq st"
proof -
  have "st' = st\<lparr>st_AuthFailed := True, st_SessionToken := []\<rparr>" using assms by (cases st) auto
  then show ?thesis using conv_step.latched by simp
qed

lemma ensure_body_effect:
  assumes run: "ensure_body m st w = (r, w')"
  shows "ensure_effect st r w w'"
proof -
  consider (auth) "st_AuthFailed st" | (live) "\<not> st_AuthFailed st" "st_SessionToken st \<noteq> []"
    | (throttling) "\<not> st_AuthFailed st" "st_SessionToken st = []" "throttleActive st (w_now w)"
    | (fresh) "\<not> st_AuthFailed st" "st_SessionToken st = []" "\<not> throttleActive st (w_now w)" by blast
  then show ?thesis
  proof cases
    case auth
    then show ?thesis using run by (auto simp: ensure_body_def ensure_effect_def)
  next
    case live
    then have "saved (st\<lparr>st_Seq := st_Seq st + 1\<rparr>) (Inr (st_SessionToken st, st_Seq st + 1)) w = (r, w')"
      using run by (simp add: ensure_body_def)
    from saved_files [OF this] show ?thesis
      using conv_step.allocate [OF live] by (auto simp: ensure_effect_def)
  next
    case throttling
    then show ?thesis using run by (auto simp: ensure_body_def ensure_effect_def)
  next
    case fresh
    obtain sig_opt st1 w1 where e: "establish m st (create_key st) w = ((sig_opt, st1), w1)" by (metis prod.exhaust)
    have f: "files w1 = files w" using establish_files [OF e] by blast
    show ?thesis
    proof (cases sig_opt)
      case None
      then obtain token where st1: "st1 = st\<lparr>st_SessionToken := token, st_Client := mg_client m\<rparr>"
        using establish_files [OF e] by auto
      let ?s = "st1\<lparr>st_NextAttemptAt := zero_time, st_Seq := st_Seq st1 + 1\<rparr>"
      have k: "saved ?s (Inr (st_SessionToken st1, st_Seq st1 + 1)) w1 = (r, w')"
        using run fresh e None by (simp add: ensure_body_def)
      have "conv_step st ?s"
        using conv_step.established [OF fresh(1,2), of "mg_client m" token] by (simp add: st1)
      then show ?thesis using saved_files [OF k] f by (auto simp: ensure_effect_def st1)
    next
      case (Some sig)
      define s2 where "s2 = (if sg_Reason sig = calm_unreachable then st1\<lparr>st_NextAttemptAt := w_now w1 + establishRetryInterval\<rparr> else st1)"
      have "(r, w') = (Inl sig, snd (store_save s2 w1))"
        unfolding run [symmetric] s2_def
        using fresh e Some by (simp add: ensure_body_def)
      then have k1: "r = Inl sig" and k2: "w' = snd (store_save s2 w1)" by simp_all
      obtain a where k: "store_save s2 w1 = (a, w')" using k2 by (metis prod.collapse)
      have "sg_Reason sig \<noteq> []" "conv_step st s2 \<and> st_Seq s2 = st_Seq st"
      proof -
        show "sg_Reason sig \<noteq> []" using establish_files [OF e] Some by auto
        consider "sig = auth_signal" "st1 \<in> {st\<lparr>st_AuthFailed := True\<rparr>, st\<lparr>st_AuthFailed := True, st_SessionToken := []\<rparr>}"
          | e' where "sig = unreachable_signal e'" "st1 = st" using establish_files [OF e] Some by auto
        then show "conv_step st s2 \<and> st_Seq s2 = st_Seq st"
        proof cases
          case 1
          then show ?thesis using latched_state [OF fresh(2) 1(2)] by (simp add: s2_def)
        next
          case (2 e')
          have "conv_step st (st\<lparr>st_NextAttemptAt := w_now w1 + establishRetryInterval\<rparr>)"
            by (rule conv_step.postponed [OF fresh(1,2)])
          then show ?thesis by (simp add: s2_def 2)
        qed
      qed
      then show ?thesis using k1 store_save_files [OF k] f by (auto simp: ensure_effect_def)
    qed
  qed
qed

lemma Ensure_effect:
  assumes "Manager_Ensure m w = (r, w')"
  shows "(\<exists>e. r = Inl (storeFailure e)) \<and> files w' = files w \<or> (\<exists>st. loaded m w st \<and> ensure_effect st r w w')"
  using assms unfolding Manager_Ensure_def
proof (cases rule: locked_cases)
  case (failed e w1)
  then show ?thesis by auto
next
  case (body st w1)
  have "ensure_effect st r w w'" using ensure_body_effect [OF body(3)] unfolding ensure_effect_def body(1) .
  then show ?thesis using body(2) by blast
qed

lemma calm_faults [simp]:
  "w_faults (snd (create m key w)) = w_faults w" "w_faults (snd (Manager_register m st w)) = w_faults w"
  by (simp_all add: create_def Manager_register_def split: prod.splits sum.splits)

lemma establish_faults [simp]: "w_faults (snd (establish m st key w)) = w_faults w"
proof -
  obtain s1 st1 w1 where g: "Manager_register m st w = ((s1, st1), w1)" by (metis prod.exhaust)
  obtain r w2 where c: "create m key w1 = (r, w2)" by fastforce
  have "w_faults w1 = w_faults w" "w_faults w2 = w_faults w1"
    using calm_faults(2) [of m st w] calm_faults(1) [of m key w1] by (simp_all add: g c)
  then show ?thesis by (cases s1; cases r) (simp_all add: establish_def g c)
qed

lemma ensure_body_reliable:
  assumes "w_faults w = []"
  shows "w_faults (snd (ensure_body m st w)) = []"
proof -
  have v: "w_faults (snd (saved st q u)) = []" if "w_faults u = []" for st u and q :: "(signal, string \<times> int) result"
    using that by (simp add: saved_def store_save_reliable)
  obtain o1 st1 w1 where x: "establish m st (create_key st) w = ((o1, st1), w1)" by (metis prod.exhaust)
  have f: "w_faults w1 = []" using establish_faults [of m st "create_key st" w] assms by (simp add: x)
  show ?thesis
    by (cases o1) (simp_all add: ensure_body_def x v f assms store_save_reliable)
qed

lemma Ensure_reliable:
  assumes "Manager_Ensure m w = (r, w')" "w_faults w = []"
  shows "w_faults w' = []"
proof -
  obtain r2 w2 where l: "Manager_load m w = (r2, w2)" by fastforce
  have w2: "w2 = w" using Manager_load_reliable [OF assms(2), of m] by (simp add: l)
  show ?thesis
    using assms ensure_body_reliable [OF assms(2), of m "projr r2"]
    by (cases r2) (auto simp: Manager_Ensure_def locked_def store_lock_reliable l w2)
qed

text \<open>\<open>Record\<close> and \<open>Enqueue\<close> act on the state of the very session they name.\<close>

lemma if_current_cases:
  assumes "if_current m token k w = w'"
  obtains (skipped) "files w' = files w"
    | (body) st w1 where "files w1 = files w" "w_state w = Some st" "loaded m w st" "st_SessionToken st = token" "k st w1 = w'"
proof -
  obtain r1 w1 where l: "store_lock w = (r1, w1)" by fastforce
  obtain r2 w2 where l2: "store_load w1 = (r2, w2)" by fastforce
  have f: "files w1 = files w" "files w2 = files w"
    using store_lock_files [OF l] store_load_files(1) [OF l2] by auto
  show thesis
  proof (cases "(\<exists>u. r1 = Inr u) \<and> (\<exists>st. r2 = Inr (Some st) \<and> ownedState m (Some st) = None \<and> st_SessionToken st = token)")
    case True
    then obtain st where st: "r2 = Inr (Some st)" "ownedState m (Some st) = None" "st_SessionToken st = token" by blast
    have s: "w_state w = Some st" "st_Version st = stateVersion"
      using store_load_files(2) [OF l2 st(1)] f by (auto simp: files_def)
    have ld: "loaded m w st" using st(2) s by (auto simp: loaded_def ownedState_def split: if_splits)
    have "k st w2 = w'" using assms l l2 st True by (auto simp: if_current_def)
    then show thesis by (rule body [OF f(2) s(1) ld st(3)])
  next
    case False
    then have "w' = w1 \<or> w' = w2"
      using assms l l2 by (auto simp: if_current_def split: sum.splits option.splits if_splits)
    then show thesis using f skipped by auto
  qed
qed

lemma Record_effect:
  "files (Manager_Record m token delta w) = files w
   \<or> (\<exists>st. w_state w = Some st \<and> loaded m w st \<and> st_SessionToken st = token
        \<and> files (Manager_Record m token delta w) = (Some (recorded delta st), snd (files w)))"
proof (cases "delta = []")
  case False
  show ?thesis
  proof (rule if_current_cases [of m token "\<lambda>st w. snd (store_save (recorded delta st) w)" w "Manager_Record m token delta w"])
    show "if_current m token (\<lambda>st w. snd (store_save (recorded delta st) w)) w = Manager_Record m token delta w"
      using False by (simp add: Manager_Record_def)
  next
    fix st w1
    assume b: "files w1 = files w" "w_state w = Some st" "loaded m w st" "st_SessionToken st = token"
      "snd (store_save (recorded delta st) w1) = Manager_Record m token delta w"
    then show ?thesis using store_save_files [OF prod.collapse [symmetric], of "recorded delta st" w1] by auto
  qed simp
qed (simp add: Manager_Record_def)

lemma Record_reliable:
  assumes "w_faults w = []" "w_state w = Some st" "loaded m w st"
  shows "Manager_Record m token delta w =
    (if delta = [] \<or> st_SessionToken st \<noteq> token then w else w\<lparr>w_state := Some (recorded delta st)\<rparr>)"
proof -
  have o: "ownedState m (Some st) = None" "st_Version st = stateVersion"
    using assms(2,3) by (simp_all add: loaded_def ownedState_def)
  show ?thesis
    using assms(1,2) o by (simp add: Manager_Record_def if_current_def store_lock_reliable store_load_reliable(2) store_save_reliable)
qed

lemma appendSpool_files:
  assumes "appendSpool l w = (r, w')"
  shows "w_state w' = w_state w \<and> w_inflight w' = w_inflight w \<and> w_now w' = w_now w
    \<and> (w_spool w' = w_spool w \<or> w_spool w' = Some (spool_append l (w_spool w)) \<or> w_spool w' = Some (spool_tear (w_spool w)))"
  using assms by (auto simp: appendSpool_def files_def dest!: next_fault_files split: prod.splits fault.splits)

lemma Enqueue_effect:
  "files (Manager_Enqueue m token es w) = files w
   \<or> (\<exists>st l. w_state w = Some st \<and> st_SessionToken st = token \<and> l = \<lparr>sl_Epoch = st_Epoch st, sl_SessionToken = token, sl_Events = es\<rparr>
        \<and> w_state (Manager_Enqueue m token es w) = w_state w \<and> w_inflight (Manager_Enqueue m token es w) = w_inflight w
        \<and> w_now (Manager_Enqueue m token es w) = w_now w
        \<and> (w_spool (Manager_Enqueue m token es w) = Some (spool_append l (w_spool w))
            \<or> w_spool (Manager_Enqueue m token es w) = Some (spool_tear (w_spool w))))"
proof (cases "es = []")
  case False
  let ?l = "\<lambda>st. \<lparr>sl_Epoch = st_Epoch st, sl_SessionToken = token, sl_Events = es\<rparr>"
  show ?thesis
  proof (rule if_current_cases [of m token "\<lambda>st w. snd (appendSpool (?l st) w)" w "Manager_Enqueue m token es w"])
    show "if_current m token (\<lambda>st w. snd (appendSpool (?l st) w)) w = Manager_Enqueue m token es w"
      using False by (simp add: Manager_Enqueue_def)
  next
    fix st w1
    assume b: "files w1 = files w" "w_state w = Some st" "loaded m w st" "st_SessionToken st = token"
      "snd (appendSpool (?l st) w1) = Manager_Enqueue m token es w"
    then show ?thesis using appendSpool_files [OF prod.collapse [symmetric], of "?l st" w1] by (auto simp: files_def)
  qed simp
qed (simp add: Manager_Enqueue_def)

text \<open>A step that gives out no number.\<close>

definition quiet_step :: "'c manager \<Rightarrow> 'c host \<Rightarrow> 'c host \<Rightarrow> bool" where
  "quiet_step m w w' \<longleftrightarrow>
     files w' = files w
     \<or> (\<exists>st st'. loaded m w st \<and> conv_step st st' \<and> st_Seq st' = st_Seq st \<and> files w' = (Some st', snd (files w)))"

lemma quiet_stepI:
  "loaded m w st \<Longrightarrow> conv_step st st' \<Longrightarrow> st_Seq st' = st_Seq st
    \<Longrightarrow> files w' = files w \<or> files w' = (Some st', snd (files w)) \<Longrightarrow> quiet_step m w w'"
  unfolding quiet_step_def by blast

lemma signal_after_files:
  assumes "signal_after st sig w = (r, w')"
  shows "files w' = files w \<or> files w' = (Some st, snd (files w))"
proof -
  obtain a w1 where s: "store_save st w = (a, w1)" by fastforce
  show ?thesis using assms store_save_files [OF s] by (cases a) (auto simp: signal_after_def s)
qed

lemma recover_body_step:
  assumes "recover_body m failedToken st w = (r, w')"
  shows "files w' = files w \<or> (\<exists>st'. conv_step st st' \<and> st_Seq st' = st_Seq st \<and> files w' = (Some st', snd (files w)))"
proof (cases "st_AuthFailed st \<or> st_SessionToken st \<noteq> failedToken")
  case True
  then show ?thesis using assms by (auto simp: recover_body_def split: if_splits)
next
  case False
  define st1 where "st1 = st\<lparr>st_RecoverySeq := st_RecoverySeq st + 1\<rparr>"
  obtain a w1 where c: "create m (create_key st1) w = (a, w1)" by fastforce
  have f: "files w1 = files w" by (rule create_files [OF c])
  show ?thesis
  proof (cases a)
    case (Inr token)
    let ?s = "st1\<lparr>st_SessionToken := token, st_Epoch := st_Epoch st1 + 1, st_Registry := [], st_RegistrySeq := []\<rparr>"
    have "signal_after ?s lost_signal w1 = (r, w')"
      using assms False c Inr by (simp add: recover_body_def Let_def st1_def)
    moreover have "conv_step st ?s" using conv_step.replaced [of st token] False by (simp add: st1_def)
    ultimately show ?thesis using signal_after_files f by (fastforce simp: st1_def)
  next
    case (Inl e)
    show ?thesis
    proof (cases "isStatus4xx e")
      case True
      let ?s = "st1\<lparr>st_AuthFailed := True, st_SessionToken := []\<rparr>"
      have "signal_after ?s auth_signal w1 = (r, w')"
        using assms False c Inl True by (simp add: recover_body_def Let_def st1_def)
      moreover have "conv_step st ?s" using conv_step.rejected [of st] False by (simp add: st1_def)
      ultimately show ?thesis using signal_after_files f by (fastforce simp: st1_def)
    next
      case no: False
      then show ?thesis using assms False c Inl f by (auto simp: recover_body_def Let_def st1_def)
    qed
  qed
qed

lemma OnCallError_step:
  assumes "Manager_OnCallError m failedToken e w = (r, w')"
  shows "quiet_step m w w'" "r = None \<Longrightarrow> w' = w"
proof -
  consider (auth) "auth_rejected e" | (lost) "\<not> auth_rejected e" "session_not_found e" | (other) "\<not> auth_rejected e" "\<not> session_not_found e"
    by blast
  then have "quiet_step m w w' \<and> (r = None \<longrightarrow> w' = w)"
  proof cases
    case auth
    have "latchAuth m w = (r, w')" using assms auth by (simp add: Manager_OnCallError_def)
    then show ?thesis unfolding latchAuth_def
    proof (cases rule: locked_cases)
      case (failed x w1)
      then show ?thesis by (auto simp: quiet_step_def)
    next
      case (body st w1)
      have "conv_step st (st\<lparr>st_AuthFailed := True, st_SessionToken := []\<rparr>)" by (rule conv_step.latched)
      moreover have "r \<noteq> None" using body(3) by (auto simp: signal_after_def split: prod.splits sum.splits)
      ultimately show ?thesis
        using signal_after_files [OF body(3)] body(1)
        quiet_stepI [OF body(2) conv_step.latched, of w'] by auto
    qed
  next
    case lost
    have "recover m failedToken w = (r, w')" using assms lost by (simp add: Manager_OnCallError_def)
    then show ?thesis unfolding recover_def
    proof (cases rule: locked_cases)
      case (failed x w1)
      then show ?thesis by (auto simp: quiet_step_def)
    next
      case (body st w1)
      have "r \<noteq> None"
        using body(3) by (auto simp: recover_body_def signal_after_def Let_def split: prod.splits sum.splits if_splits)
      then show ?thesis
        using recover_body_step [OF body(3)] body(1,2) by (auto simp: quiet_step_def)
    qed
  next
    case other
    then show ?thesis using assms by (auto simp: Manager_OnCallError_def quiet_step_def)
  qed
  then show "quiet_step m w w'" "r = None \<Longrightarrow> w' = w" by simp_all
qed

lemma Reset_step:
  assumes "Manager_Reset m w = (r, w')"
  shows "files w' = files w
    \<or> (\<exists>st. w_state w = Some st \<and> loaded m w st \<and> r = Inr () \<and> files w' = (Some (reset_state st), snd (files w)))"
proof -
  obtain r1 w1 where l: "store_lock w = (r1, w1)" by fastforce
  obtain r2 w2 where l2: "store_load w1 = (r2, w2)" by fastforce
  have f: "files w1 = files w" "files w2 = files w"
    using store_lock_files [OF l] store_load_files(1) [OF l2] by auto
  show ?thesis
  proof (cases "(\<exists>u. r1 = Inr u) \<and> (\<exists>st. r2 = Inr (Some st) \<and> ownedState m (Some st) = None)")
    case True
    then obtain st where st: "r2 = Inr (Some st)" "ownedState m (Some st) = None" by blast
    have s: "w_state w = Some st" "st_Version st = stateVersion"
      using store_load_files(2) [OF l2 st(1)] f by (auto simp: files_def)
    have ld: "loaded m w st" using st(2) s by (auto simp: loaded_def ownedState_def split: if_splits)
    have "store_save (reset_state st) w2 = (r, w')" using assms l l2 st True by (auto simp: Manager_Reset_def)
    from store_save_files [OF this] show ?thesis using f s ld by auto
  next
    case False
    then have "w' = w1 \<or> w' = w2"
      using assms l l2 by (auto simp: Manager_Reset_def split: sum.splits option.splits)
    then show ?thesis using f by auto
  qed
qed

section \<open>The manager as a shell of the engine\<close>

definition manager_shell :: "'c manager \<Rightarrow> 'c host shell" where
  "manager_shell m =
     \<lparr>sh_Ensure = Manager_Ensure m, sh_OnCallError = Manager_OnCallError m, sh_Record = Manager_Record m,
      sh_Enqueue = Manager_Enqueue m,
      sh_Ingest = \<lambda>token i w. (case api_Ingest (mg_api m) token i (w_calm w) of (r, c) \<Rightarrow> (r, w\<lparr>w_calm := c\<rparr>))\<rparr>"

definition conv_session :: "'c host \<Rightarrow> string option" where
  "conv_session w = map_option st_SessionToken (w_state w)"

definition conv_counter :: "'c host \<Rightarrow> int" where
  "conv_counter w = (case w_state w of None \<Rightarrow> 0 | Some st \<Rightarrow> st_Seq st)"

definition conv_registry :: "'c host \<Rightarrow> registry_map" where
  "conv_registry w = (case w_state w of None \<Rightarrow> [] | Some st \<Rightarrow> st_Registry st)"

definition conv_inv :: "'c manager \<Rightarrow> 'c host \<Rightarrow> bool" where
  "conv_inv m w \<longleftrightarrow> (\<forall>st. w_state w = Some st \<longrightarrow> conv_ok st \<and> st_SessionID st = mg_sessionID m \<and> st_Version st = stateVersion)"

lemma loaded_ok: "conv_inv m w \<Longrightarrow> loaded m w st \<Longrightarrow> conv_ok st \<and> st_SessionID st = mg_sessionID m \<and> st_Version st = stateVersion"
  by (auto simp: conv_inv_def loaded_def newState_ok split: option.splits) (simp_all add: newState_def)

lemma loaded_counter: "loaded m w st \<Longrightarrow> st_Seq st = conv_counter w"
  by (auto simp: loaded_def conv_counter_def newState_def split: option.splits)

lemma step_inv:
  assumes "conv_inv m w" "loaded m w st" "conv_step st st'" "files w' = (Some st', snd (files w))"
  shows "conv_inv m w'"
proof -
  have "w_state w' = Some st'" using assms(4) by (simp add: files_def)
  then show ?thesis
    using loaded_ok [OF assms(1,2)] conv_step_ok [OF assms(3)] conv_step_mono(4,6) [OF assms(3)] by (simp add: conv_inv_def)
qed

lemma files_inv: "files w' = files w \<Longrightarrow> conv_inv m w' = conv_inv m w"
  by (simp add: files_def conv_inv_def)

lemma files_views:
  assumes "files w' = files w"
  shows "conv_session w' = conv_session w" "conv_counter w' = conv_counter w" "conv_registry w' = conv_registry w"
  using assms by (simp_all add: files_def conv_session_def conv_counter_def conv_registry_def)

lemma quiet_step_keeps:
  assumes "quiet_step m w w'" "conv_inv m w"
  shows "conv_inv m w'" "conv_counter w' = conv_counter w"
proof -
  consider "files w' = files w" | st st' where "loaded m w st" "conv_step st st'" "st_Seq st' = st_Seq st" "files w' = (Some st', snd (files w))"
    using assms(1) by (auto simp: quiet_step_def)
  then have "conv_inv m w' \<and> conv_counter w' = conv_counter w"
  proof cases
    case 1
    then show ?thesis using assms(2) files_inv files_views(2) by metis
  next
    case 2
    have "w_state w' = Some st'" using 2(4) by (simp add: files_def)
    then show ?thesis
      using step_inv [OF assms(2) 2(1,2,4)] loaded_counter [OF 2(1)] 2(3) by (simp add: conv_counter_def)
  qed
  then show "conv_inv m w'" "conv_counter w' = conv_counter w" by simp_all
qed

lemma Record_keeps:
  assumes "conv_inv m w"
  shows "conv_inv m (Manager_Record m token delta w)" "conv_session (Manager_Record m token delta w) = conv_session w"
    "conv_counter (Manager_Record m token delta w) = conv_counter w"
    "conv_session w \<noteq> Some token \<Longrightarrow> conv_registry (Manager_Record m token delta w) = conv_registry w"
proof -
  let ?w = "Manager_Record m token delta w"
  consider "files ?w = files w"
    | st where "w_state w = Some st" "loaded m w st" "st_SessionToken st = token" "files ?w = (Some (recorded delta st), snd (files w))"
    using Record_effect [of m token delta w] by blast
  then have "conv_inv m ?w \<and> conv_session ?w = conv_session w \<and> conv_counter ?w = conv_counter w
    \<and> (conv_session w \<noteq> Some token \<longrightarrow> conv_registry ?w = conv_registry w)"
  proof cases
    case 1
    then show ?thesis using assms files_inv files_views by metis
  next
    case 2
    have "w_state ?w = Some (recorded delta st)" using 2(4) by (simp add: files_def)
    then show ?thesis
      using assms recorded_ok [of st delta] 2(1,3)
      by (simp add: conv_inv_def conv_session_def conv_counter_def) (simp add: recorded_def)
  qed
  then show "conv_inv m ?w" "conv_session ?w = conv_session w" "conv_counter ?w = conv_counter w"
    "conv_session w \<noteq> Some token \<Longrightarrow> conv_registry ?w = conv_registry w" by simp_all
qed

lemma Enqueue_keeps: "w_state (Manager_Enqueue m token es w) = w_state w"
  using Enqueue_effect [of m token es w] by (auto simp: files_def)

lemma Enqueue_reliable:
  assumes "w_faults w = []"
  shows "w_faults (Manager_Enqueue m token es w) = []"
proof -
  have a: "w_faults (snd (appendSpool l w)) = []" for l using assms by (simp add: appendSpool_def next_fault_none)
  obtain r2 w2 where l: "store_load w = (r2, w2)" by fastforce
  have "w2 = w" using store_load_reliable(1) [OF assms] by (simp add: l)
  then show ?thesis
    using assms a by (simp add: Manager_Enqueue_def if_current_def store_lock_reliable l split: sum.splits option.splits)
qed

interpretation manager: capture_shell "manager_shell m" "conv_inv m" conv_session conv_counter conv_registry "\<lambda>w. w_faults w = []"
  for m :: "'c manager"
proof unfold_locales
  fix w w' :: "'c host" and token :: string and n :: int
  assume i: "conv_inv m w" and run: "sh_Ensure (manager_shell m) w = (Inr (token, n), w')"
  have run: "Manager_Ensure m w = (Inr (token, n), w')" using run by (simp add: manager_shell_def)
  obtain st st' where st: "loaded m w st" "n = st_Seq st + 1" "conv_step st st'" "st_Seq st' = n" "st_SessionToken st' = token"
    "files w' = (Some st', snd (files w))"
    using Ensure_effect [OF run] by (auto simp: ensure_effect_def)
  have "w_state w' = Some st'" using st(6) by (simp add: files_def)
  then show "conv_inv m w' \<and> conv_session w' = Some token \<and> n = conv_counter w + 1 \<and> conv_counter w' = n
      \<and> (w_faults w = [] \<longrightarrow> w_faults w' = [])"
    using step_inv [OF i st(1,3,6)] loaded_counter [OF st(1)] st Ensure_reliable [OF run]
    by (simp add: conv_session_def conv_counter_def)
next
  fix w w' :: "'c host" and sig
  assume i: "conv_inv m w" and run: "sh_Ensure (manager_shell m) w = (Inl sig, w')"
  have run: "Manager_Ensure m w = (Inl sig, w')" using run by (simp add: manager_shell_def)
  have "quiet_step m w w' \<and> sg_Reason sig \<noteq> []"
    using Ensure_effect [OF run] by (auto simp: ensure_effect_def quiet_step_def)
  then show "conv_inv m w' \<and> conv_counter w' = conv_counter w \<and> sg_Reason sig \<noteq> []"
    using quiet_step_keeps [OF _ i] by blast
next
  fix w w' :: "'c host" and token i r
  assume v: "conv_inv m w" and run: "sh_Ingest (manager_shell m) token i w = (r, w')"
  obtain c where "w' = w\<lparr>w_calm := c\<rparr>" using run by (auto simp: manager_shell_def split: prod.splits)
  then show "conv_inv m w' \<and> conv_session w' = conv_session w \<and> conv_counter w' = conv_counter w
      \<and> conv_registry w' = conv_registry w \<and> (w_faults w = [] \<longrightarrow> w_faults w' = [])"
    using v by (simp add: conv_inv_def conv_session_def conv_counter_def conv_registry_def)
next
  fix w :: "'c host" and token es
  assume v: "conv_inv m w"
  then show "conv_inv m (sh_Enqueue (manager_shell m) token es w)
      \<and> conv_session (sh_Enqueue (manager_shell m) token es w) = conv_session w
      \<and> conv_counter (sh_Enqueue (manager_shell m) token es w) = conv_counter w
      \<and> conv_registry (sh_Enqueue (manager_shell m) token es w) = conv_registry w
      \<and> (w_faults w = [] \<longrightarrow> w_faults (sh_Enqueue (manager_shell m) token es w) = [])"
    using Enqueue_reliable [of w m token es]
    by (simp add: manager_shell_def conv_inv_def conv_session_def conv_counter_def conv_registry_def Enqueue_keeps)
next
  fix w :: "'c host" and token delta
  assume "conv_inv m w"
  from Record_keeps [OF this] show "conv_inv m (sh_Record (manager_shell m) token delta w)
      \<and> conv_session (sh_Record (manager_shell m) token delta w) = conv_session w
      \<and> conv_counter (sh_Record (manager_shell m) token delta w) = conv_counter w"
    by (simp add: manager_shell_def)
next
  fix w :: "'c host" and token delta
  assume "conv_inv m w" "conv_session w \<noteq> Some token"
  then show "conv_registry (sh_Record (manager_shell m) token delta w) = conv_registry w"
    using Record_keeps(4) by (simp add: manager_shell_def)
next
  fix w :: "'c host" and token and delta :: "sourceToken list"
  assume v: "conv_inv m w" and r: "w_faults w = []" and t: "conv_session w = Some token"
  obtain st where st: "w_state w = Some st" "st_SessionToken st = token" using t by (auto simp: conv_session_def)
  have "loaded m w st" using v st(1) by (simp add: conv_inv_def loaded_def)
  from Record_reliable [OF r st(1) this] st
  show "map_of (conv_registry (sh_Record (manager_shell m) token delta w)) = map_of (record_delta delta (conv_registry w))"
    by (simp add: manager_shell_def conv_registry_def recorded_def record_delta_def)
next
  fix w w' :: "'c host" and token e r
  assume v: "conv_inv m w" and "sh_OnCallError (manager_shell m) token e w = (r, w')"
  then have "Manager_OnCallError m token e w = (r, w')" by (simp add: manager_shell_def)
  from quiet_step_keeps [OF OnCallError_step(1) [OF this] v]
  show "conv_inv m w' \<and> conv_counter w' = conv_counter w" by simp
qed

end
