(* ===== verification/Session_Runs.thy ===== *)
theory Session_Runs
  imports Session_History
begin

text \<open>
  Histories of a conversation: any sequence of the operations of its processes, with clock
  moves, local faults and changes of the service in between. They give the numbers of
  captures out one by one, keep in the registry only what was recorded under the present
  session, and attempt each spooled event at most once and under its own session.
  The removal of an idle conversation ends its history.
\<close>

section \<open>Histories\<close>

datatype 'c action =
    AEnsure "'c manager"
  | ARecord "'c manager" string "sourceToken list"
  | AEnqueue "'c manager" string "eventInput list"
  | AOnCallError "'c manager" string calm_error
  | AReset "'c manager"
  | ADrain "'c manager" int
  | AWorld int 'c "fault list"

text \<open>What an action shows: a number given out, a line offered to the spool, the lines attempted.\<close>

datatype observation =
    Numbered string int
  | Offered spoolLine
  | Attempted "conv_state option" "spoolLine list"
  | Silent

definition spool_line :: "conv_state \<Rightarrow> string \<Rightarrow> eventInput list \<Rightarrow> spoolLine" where
  "spool_line st token es = \<lparr>sl_Epoch = st_Epoch st, sl_SessionToken = token, sl_Events = es\<rparr>"

fun act :: "'c action \<Rightarrow> 'c host \<Rightarrow> observation \<times> 'c host" where
  "act (AEnsure m) w =
     (case Manager_Ensure m w of (Inr (token, n), w') \<Rightarrow> (Numbered token n, w') | (Inl _, w') \<Rightarrow> (Silent, w'))"
| "act (ARecord m token delta) w = (Silent, Manager_Record m token delta w)"
| "act (AEnqueue m token es) w =
     ((case w_state w of
         None \<Rightarrow> Silent
       | Some st \<Rightarrow> if es \<noteq> [] \<and> st_SessionToken st = token then Offered (spool_line st token es) else Silent),
      Manager_Enqueue m token es w)"
| "act (AOnCallError m token e) w = (Silent, snd (Manager_OnCallError m token e w))"
| "act (AReset m) w = (Silent, snd (Manager_Reset m w))"
| "act (ADrain m pid) w =
     (case Manager_Drain m pid w of (d, w') \<Rightarrow> (Attempted (w_state w) (dr_delivered d @ dr_notFound d), w'))"
| "act (AWorld now c fs) w = (Silent, w\<lparr>w_now := now, w_calm := c, w_faults := fs\<rparr>)"

fun play :: "'c action list \<Rightarrow> 'c host \<Rightarrow> observation list \<times> 'c host" where
  "play [] w = ([], w)"
| "play (a # as') w = (case act a w of (ob, w1) \<Rightarrow> case play as' w1 of (obs, w2) \<Rightarrow> (ob # obs, w2))"

fun action_in :: "string \<Rightarrow> 'c action \<Rightarrow> bool" where
  "action_in sid (AEnsure m) = (mg_sessionID m = sid)"
| "action_in sid (ARecord m token _) = (mg_sessionID m = sid \<and> token \<noteq> [])"
| "action_in sid (AEnqueue m token _) = (mg_sessionID m = sid \<and> token \<noteq> [])"
| "action_in sid (AOnCallError m _ _) = (mg_sessionID m = sid)"
| "action_in sid (AReset m) = (mg_sessionID m = sid)"
| "action_in sid (ADrain m _) = (mg_sessionID m = sid)"
| "action_in sid (AWorld _ _ _) = True"

text \<open>The processes of one conversation; what they record or enqueue was captured under a token.\<close>

definition conversation :: "string \<Rightarrow> 'c action list \<Rightarrow> bool" where
  "conversation sid acts \<longleftrightarrow> list_all (action_in sid) acts"

definition conv_good :: "string \<Rightarrow> 'c host \<Rightarrow> bool" where
  "conv_good sid w \<longleftrightarrow> (\<forall>st. w_state w = Some st \<longrightarrow> conv_ok st \<and> st_SessionID st = sid \<and> st_Version st = stateVersion)"

lemma conv_inv_good: "mg_sessionID m = sid \<Longrightarrow> conv_inv m w = conv_good sid w"
  by (auto simp: conv_inv_def conv_good_def)

section \<open>Drains leave the state alone\<close>

definition some_lines :: "spoolLine option list \<Rightarrow> spoolLine list" where
  "some_lines ls = map the (filter (\<lambda>l. l \<noteq> None) ls)"

definition spooled :: "'c host \<Rightarrow> spoolLine list" where
  "spooled w = (case w_spool w of None \<Rightarrow> [] | Some f \<Rightarrow> some_lines (sf_lines f))"

lemma disk_files:
  assumes "disk f w = (r, w')"
  shows "(\<exists>e. r = Inl e) \<and> files w' = files w \<or> (\<exists>w1. files w1 = files w \<and> r = Inr (fst (f w1)) \<and> w' = snd (f w1))"
proof -
  obtain x w1 where n: "next_fault w = (x, w1)" by fastforce
  have "files w1 = files w" by (rule next_fault_files [OF n])
  then show ?thesis using assms by (cases x; cases "f w1") (auto simp: disk_def n intro!: exI [of _ w1])
qed

lemma reap_keeps: "w_state (reapStaleInflight w) = w_state w \<and> w_spool (reapStaleInflight w) = w_spool w"
proof -
  obtain r w1 where d: "disk (\<lambda>w. ((), w)) w = (r, w1)" by fastforce
  have "files w1 = files w" using disk_files [OF d] by auto
  then show ?thesis by (cases r) (simp_all add: reapStaleInflight_def d files_def)
qed

lemma claim_keeps:
  assumes "claimSpool m pid w = (b, w')"
  shows "w_state w' = w_state w \<and> (if b then w_spool w' = None \<and> some_lines (claimed_lines pid w') = spooled w else w_spool w' = w_spool w)"
proof -
  obtain r w1 where l: "store_lock w = (r, w1)" by fastforce
  have f: "files w1 = files w" by (rule store_lock_files [OF l])
  show ?thesis
  proof (cases "r = Inr () \<and> (\<exists>f. w_spool w1 = Some f)")
    case False
    then show ?thesis using assms f by (cases r) (auto simp: claimSpool_def l files_def split: option.splits)
  next
    case True
    then obtain fl where fl: "w_spool w1 = Some fl" by blast
    let ?g = "\<lambda>w :: 'a host. ((), w\<lparr>w_spool := None,
        w_inflight := \<lparr>if_pid = pid, if_mtime = w_now w, if_lines = sf_lines fl\<rparr> # filter (\<lambda>i. if_pid i \<noteq> pid) (w_inflight w)\<rparr>)"
    obtain r2 w2 where d: "disk ?g w1 = (r2, w2)" by fastforce
    have b: "(b, w') = (case r2 of Inl e \<Rightarrow> (False, w2) | Inr _ \<Rightarrow> (True, w2))"
      unfolding assms [symmetric] using True fl d by (simp add: claimSpool_def l)
    have "w_spool w = Some fl" using fl f by (simp add: files_def)
    then have sp: "spooled w = some_lines (sf_lines fl)" by (simp add: spooled_def)
    show ?thesis
      using disk_files [OF d] b f by (auto simp: files_def sp claimed_lines_def)
  qed
qed

lemma discard_keeps: "w_state (discardInflight pid w) = w_state w \<and> w_spool (discardInflight pid w) = w_spool w"
proof -
  let ?g = "\<lambda>w :: 'a host. ((), w\<lparr>w_inflight := filter (\<lambda>i. if_pid i \<noteq> pid) (w_inflight w)\<rparr>)"
  obtain r w1 where d: "disk ?g w = (r, w1)" by fastforce
  show ?thesis using disk_files [OF d] d by (auto simp: discardInflight_def files_def)
qed

definition attempted :: "drained \<Rightarrow> spoolLine list" where
  "attempted d = dr_delivered d @ dr_notFound d"

lemma deliverInflight_keeps:
  assumes "deliverInflight m pid w = (d, w')"
  shows "w_state w' = w_state w \<and> w_spool w' = w_spool w \<and> mset (attempted d) \<subseteq># mset (some_lines (claimed_lines pid w))
    \<and> (\<forall>l\<in>set (attempted d). \<exists>st. w_state w = Some st \<and> sl_Epoch l = st_Epoch st)"
proof -
  obtain r w1 where g: "disk (\<lambda>w. (claimed_lines pid w, w)) w = (r, w1)" by fastforce
  obtain r2 w2 where l: "store_load w1 = (r2, w2)" by fastforce
  have f: "files w1 = files w" "files w2 = files w"
    using disk_files [OF g] store_load_files(1) [OF l] by auto
  have n: "attempted nothing_drained = []" by (simp add: attempted_def nothing_drained_def)
  show ?thesis
  proof (cases "\<exists>ls st. r = Inr ls \<and> r2 = Inr (Some st)")
    case False
    then show ?thesis
      using assms f n discard_keeps [of pid w2]
      by (auto simp: deliverInflight_def g l files_def split: sum.splits option.splits)
  next
    case True
    then obtain ls st where r: "r = Inr ls" "r2 = Inr (Some st)" by blast
    have ls: "ls = claimed_lines pid w" using disk_files [OF g] r(1) by (auto simp: claimed_lines_def files_def)
    have st: "w_state w = Some st" using store_load_files(2) [OF l r(2)] f by (simp add: files_def)
    obtain d1 c where dl: "deliver_lines (mg_api m) (st_Epoch st) ls nothing_drained (w_calm w2) = (d1, c)" by fastforce
    have e: "d = d1" "w' = (if dr_abandoned d1 then w2\<lparr>w_calm := c\<rparr> else discardInflight pid (w2\<lparr>w_calm := c\<rparr>))"
      using assms by (auto simp: deliverInflight_def g l r dl)
    obtain ds ns where p: "dr_delivered d1 = ds" "dr_notFound d1 = ns" "mset ds + mset ns \<subseteq># mset (some_lines ls)"
        "\<forall>l\<in>set ds \<union> set ns. sl_Epoch l = st_Epoch st"
      using deliver_lines_parts [OF dl] by (auto simp: nothing_drained_def some_lines_def)
    have "w_state w' = w_state w \<and> w_spool w' = w_spool w"
      using f discard_keeps [of pid "w2\<lparr>w_calm := c\<rparr>"] by (auto simp: e files_def)
    then show ?thesis using p st ls by (simp add: attempted_def e(1))
  qed
qed

lemma Drain_effect:
  assumes "Manager_Drain m pid w = (d, w')"
  shows "w_state w' = w_state w" "mset (attempted d) + mset (spooled w') \<subseteq># mset (spooled w)"
    "\<forall>l\<in>set (attempted d). \<exists>st. w_state w = Some st \<and> sl_Epoch l = st_Epoch st"
proof -
  obtain b w1 where c: "claimSpool m pid (reapStaleInflight w) = (b, w1)" by fastforce
  note k = claim_keeps [OF c]
  have k1: "w_state w1 = w_state w" "b \<Longrightarrow> w_spool w1 = None" "b \<Longrightarrow> some_lines (claimed_lines pid w1) = spooled w"
      "\<not> b \<Longrightarrow> w_spool w1 = w_spool w"
    using k reap_keeps [of w] by (auto simp: spooled_def)
  have "w_state w' = w_state w \<and> mset (attempted d) + mset (spooled w') \<subseteq># mset (spooled w)
    \<and> (\<forall>l\<in>set (attempted d). \<exists>st. w_state w = Some st \<and> sl_Epoch l = st_Epoch st)"
  proof (cases b)
    case False
    then show ?thesis using assms c k1 by (auto simp: Manager_Drain_def attempted_def nothing_drained_def spooled_def)
  next
    case True
    then have "deliverInflight m pid w1 = (d, w')" using assms c by (simp add: Manager_Drain_def)
    from deliverInflight_keeps [OF this] show ?thesis using k1 True by (simp add: spooled_def)
  qed
  then show "w_state w' = w_state w" "mset (attempted d) + mset (spooled w') \<subseteq># mset (spooled w)"
    "\<forall>l\<in>set (attempted d). \<exists>st. w_state w = Some st \<and> sl_Epoch l = st_Epoch st" by simp_all
qed

section \<open>One action\<close>

lemma files_state: "files w' = (s, snd (files w)) \<Longrightarrow> w_state w' = s \<and> spooled w' = spooled w"
  by (simp add: files_def spooled_def)

lemma files_same: "files w' = files w \<Longrightarrow> w_state w' = w_state w \<and> spooled w' = spooled w"
  by (simp add: files_def spooled_def)

lemma spool_growth:
  "mset (some_lines (sf_lines (spool_append l f))) \<subseteq># add_mset l (mset (case f of None \<Rightarrow> [] | Some g \<Rightarrow> some_lines (sf_lines g)))"
  "some_lines (sf_lines (spool_tear f)) = (case f of None \<Rightarrow> [] | Some g \<Rightarrow> some_lines (sf_lines g))"
  by (auto simp: spool_append_def spool_tear_def some_lines_def split: option.splits)

definition offered1 :: "observation \<Rightarrow> spoolLine list" where
  "offered1 ob = (case ob of Offered l \<Rightarrow> [l] | _ \<Rightarrow> [])"

definition attempted1 :: "observation \<Rightarrow> spoolLine list" where
  "attempted1 ob = (case ob of Attempted s ls \<Rightarrow> ls | _ \<Rightarrow> [])"

definition numbers1 :: "observation \<Rightarrow> int list" where
  "numbers1 ob = (case ob of Numbered t n \<Rightarrow> [n] | _ \<Rightarrow> [])"

lemmas observed = offered1_def attempted1_def numbers1_def

text \<open>How an action changes the state record.\<close>

definition moves :: "string \<Rightarrow> 'c action \<Rightarrow> 'c host \<Rightarrow> 'c host \<Rightarrow> bool" where
  "moves sid a w w' \<longleftrightarrow>
     w_state w' = w_state w
     \<or> (\<exists>m st st'. mg_sessionID m = sid \<and> loaded m w st \<and> conv_step st st' \<and> w_state w' = Some st')
     \<or> (\<exists>m token delta st. a = ARecord m token delta \<and> w_state w = Some st \<and> st_SessionToken st = token \<and> w_state w' = Some (recorded delta st))"

lemma step_moves: "mg_sessionID m = sid \<Longrightarrow> quiet_step m w w' \<Longrightarrow> moves sid a w w' \<and> spooled w' = spooled w"
  by (auto simp: quiet_step_def moves_def dest!: files_same files_state)

lemma act_moves:
  assumes a: "action_in sid a" and g: "conv_good sid w" and run: "act a w = (ob, w')"
  shows "moves sid a w w' \<and> mset (attempted1 ob) + mset (spooled w') \<subseteq># mset (offered1 ob) + mset (spooled w)"
proof (cases a)
  case (AEnsure m)
  obtain r w1 where e: "Manager_Ensure m w = (r, w1)" by fastforce
  have w1: "w1 = w'" and o0: "attempted1 ob = []" "offered1 ob = []"
    using run e by (auto simp: AEnsure observed split: sum.splits)
  consider "files w' = files w" | st where "loaded m w st" "ensure_effect st r w w'"
    using Ensure_effect [OF e] w1 by auto
  then show ?thesis
  proof cases
    case 1
    then show ?thesis using o0 by (auto simp: moves_def dest: files_same)
  next
    case 2
    then have "files w' = files w \<or> (\<exists>st'. conv_step st st' \<and> files w' = (Some st', snd (files w)))"
      by (auto simp: ensure_effect_def split: sum.splits)
    then show ?thesis using 2(1) a o0 by (auto simp: AEnsure moves_def dest!: files_same files_state)
  qed
next
  case (ARecord m token delta)
  have e: "w' = Manager_Record m token delta w" "ob = Silent" using run by (auto simp: ARecord)
  show ?thesis
    using Record_effect [of m token delta w] unfolding e(1) [symmetric]
    by (auto simp: e(2) observed ARecord moves_def dest!: files_same files_state)
next
  case (AEnqueue m token es)
  have e: "w' = Manager_Enqueue m token es w" using run by (auto simp: AEnqueue)
  show ?thesis
  proof (cases "files w' = files w")
    case True
    then show ?thesis using run by (auto simp: AEnqueue moves_def observed dest!: files_same split: option.splits if_splits)
  next
    case False
    then have "es \<noteq> []" by (auto simp: e Manager_Enqueue_def)
    obtain st l where l: "w_state w = Some st" "st_SessionToken st = token" "l = spool_line st token es" "w_state w' = w_state w"
        "w_spool w' = Some (spool_append l (w_spool w)) \<or> w_spool w' = Some (spool_tear (w_spool w))"
      using Enqueue_effect [of m token es w] False unfolding e by (auto simp: spool_line_def)
    have ob: "ob = Offered l" using run l \<open>es \<noteq> []\<close> by (simp add: AEnqueue)
    have "mset (spooled w') \<subseteq># add_mset l (mset (spooled w))"
      using l(5) spool_growth(1) [of l "w_spool w"] spool_growth(2) [of "w_spool w"]
      by (auto simp: spooled_def intro: subset_add_msetI)
    then show ?thesis using l(4) by (simp add: ob observed moves_def)
  qed
next
  case (AOnCallError m token e)
  obtain r where "Manager_OnCallError m token e w = (r, w')" "ob = Silent"
    using run by (cases "Manager_OnCallError m token e w") (auto simp: AOnCallError)
  note r = this
  have "moves sid a w w' \<and> spooled w' = spooled w"
    using a by (intro step_moves [OF _ OnCallError_step(1) [OF r(1)]]) (simp add: AOnCallError)
  then show ?thesis by (simp add: r(2) observed)
next
  case (AReset m)
  obtain r where r: "Manager_Reset m w = (r, w')" "ob = Silent"
    using run by (cases "Manager_Reset m w") (auto simp: AReset)
  show ?thesis
    using Reset_step [OF r(1)] a conv_step.reset
    by (auto simp: r(2) observed AReset moves_def dest!: files_same files_state)
next
  case (ADrain m pid)
  obtain d where d: "Manager_Drain m pid w = (d, w')" "ob = Attempted (w_state w) (attempted d)"
    using run by (cases "Manager_Drain m pid w") (auto simp: ADrain attempted_def)
  show ?thesis using Drain_effect(1,2) [OF d(1)] by (simp add: d(2) observed moves_def)
next
  case (AWorld now c fs)
  then show ?thesis using run by (auto simp: moves_def observed spooled_def)
qed

lemma loaded_good: "conv_good sid w \<Longrightarrow> mg_sessionID m = sid \<Longrightarrow> loaded m w st \<Longrightarrow> conv_ok st \<and> st_SessionID st = sid \<and> st_Version st = stateVersion"
  using loaded_ok conv_inv_good by blast

lemma moves_good:
  assumes mv: "moves sid a w w'" and g: "conv_good sid w"
  shows "conv_good sid w'"
proof -
  consider "w_state w' = w_state w"
    | m st st' where "mg_sessionID m = sid" "loaded m w st" "conv_step st st'" "w_state w' = Some st'"
    | delta st where "w_state w = Some st" "w_state w' = Some (recorded delta st)"
    using mv by (auto simp: moves_def)
  then show ?thesis
  proof cases
    case 1
    then show ?thesis using g by (simp add: conv_good_def)
  next
    case 2
    then show ?thesis
      using loaded_good [OF g 2(1,2)] conv_step_ok [OF 2(3)] conv_step_mono(4,6) [OF 2(3)] by (simp add: conv_good_def)
  next
    case 3
    then have "conv_ok (recorded delta st)" "st_SessionID st = sid" "st_Version st = stateVersion"
      using g recorded_ok by (auto simp: conv_good_def)
    then show ?thesis using 3 by (simp add: conv_good_def) (simp add: recorded_def)
  qed
qed

section \<open>Numbers\<close>

lemma act_numbers:
  assumes a: "action_in sid a" and g: "conv_good sid w" and run: "act a w = (ob, w')"
  shows "numbers1 ob = [conv_counter w + 1 .. conv_counter w'] \<and> conv_counter w \<le> conv_counter w'"
proof (cases "\<exists>m. a = AEnsure m")
  case True
  then obtain m where m: "a = AEnsure m" by blast
  obtain r w1 where e: "Manager_Ensure m w = (r, w1)" by fastforce
  have i: "conv_inv m w" using a g conv_inv_good [of m sid w] by (simp add: m)
  show ?thesis
  proof (cases r)
    case (Inr p)
    obtain token n where r: "r = Inr (token, n)" using Inr by (cases p) simp
    have "w1 = w'" "ob = Numbered token n" using run e r by (auto simp: m)
    moreover have "n = conv_counter w + 1 \<and> conv_counter w1 = n"
      using Ensure_effect [OF e] loaded_counter [of m w] unfolding r ensure_effect_def
      by (fastforce simp: files_def conv_counter_def)
    ultimately show ?thesis by (simp add: observed)
  next
    case (Inl sig)
    have "w1 = w'" "ob = Silent" using run e Inl by (auto simp: m)
    moreover have "quiet_step m w w1"
      using Ensure_effect [OF e] unfolding Inl by (auto simp: ensure_effect_def quiet_step_def)
    ultimately show ?thesis using quiet_step_keeps(2) [OF _ i] by (simp add: observed)
  qed
next
  case False
  have "numbers1 ob = [] \<and> conv_counter w' = conv_counter w"
  proof (cases a)
    case (AEnsure m)
    then show ?thesis using False by simp
  next
    case (ARecord m token delta)
    then show ?thesis using run Record_keeps(3) [of m w token delta] a g conv_inv_good [of m sid w] by (auto simp: observed)
  next
    case (AEnqueue m token es)
    then show ?thesis
      using run Enqueue_keeps [of m token es w] by (auto simp: observed conv_counter_def split: option.splits if_splits)
  next
    case (AOnCallError m token e)
    then obtain r where r: "Manager_OnCallError m token e w = (r, w')" "ob = Silent"
      using run by (cases "Manager_OnCallError m token e w") auto
    have "conv_inv m w" using a g conv_inv_good [of m sid w] by (simp add: AOnCallError)
    then show ?thesis using quiet_step_keeps(2) [OF OnCallError_step(1) [OF r(1)]] r(2) by (simp add: observed)
  next
    case (AReset m)
    then obtain r where r: "Manager_Reset m w = (r, w')" "ob = Silent"
      using run by (cases "Manager_Reset m w") auto
    then show ?thesis using Reset_step [OF r(1)] by (auto simp: observed conv_counter_def files_def reset_state_def)
  next
    case (ADrain m pid)
    then obtain d where d: "Manager_Drain m pid w = (d, w')" "numbers1 ob = []"
      using run by (cases "Manager_Drain m pid w") (auto simp: observed)
    then show ?thesis using Drain_effect(1) [OF d(1)] by (simp add: conv_counter_def)
  next
    case (AWorld now c fs)
    then show ?thesis using run by (auto simp: observed conv_counter_def)
  qed
  then show ?thesis by simp
qed

section \<open>Histories\<close>

definition numbers :: "observation list \<Rightarrow> int list" where
  "numbers obs = concat (map numbers1 obs)"

definition offered :: "observation list \<Rightarrow> spoolLine list" where
  "offered obs = concat (map offered1 obs)"

definition delivered_attempts :: "observation list \<Rightarrow> spoolLine list" where
  "delivered_attempts obs = concat (map attempted1 obs)"

lemmas histories = numbers_def offered_def delivered_attempts_def

lemma play_Cons:
  assumes "play (a # as') w = (obs, w')"
  obtains ob w1 obs1 where "act a w = (ob, w1)" "play as' w1 = (obs1, w')" "obs = ob # obs1"
proof -
  obtain ob w1 where "act a w = (ob, w1)" by fastforce
  moreover obtain obs1 w2 where "play as' w1 = (obs1, w2)" by fastforce
  ultimately show thesis using that assms by simp
qed

lemma play_good:
  "conversation sid acts \<Longrightarrow> conv_good sid w \<Longrightarrow> play acts w = (obs, w') \<Longrightarrow> conv_good sid w'"
proof (induction acts arbitrary: w obs)
  case (Cons a as')
  obtain ob w1 obs1 where p: "act a w = (ob, w1)" "play as' w1 = (obs1, w')"
    using Cons.prems(3) by (rule play_Cons)
  have a: "action_in sid a" "conversation sid as'" using Cons.prems(1) by (simp_all add: conversation_def)
  have "conv_good sid w1" using act_moves [OF a(1) Cons.prems(2) p(1)] moves_good Cons.prems(2) by blast
  then show ?case using Cons.IH a(2) p(2) by blast
qed simp

lemma play_numbers:
  "conversation sid acts \<Longrightarrow> conv_good sid w \<Longrightarrow> play acts w = (obs, w')
    \<Longrightarrow> numbers obs = [conv_counter w + 1 .. conv_counter w'] \<and> conv_counter w \<le> conv_counter w'"
proof (induction acts arbitrary: w obs)
  case (Cons a as')
  obtain ob w1 obs1 where p: "act a w = (ob, w1)" "play as' w1 = (obs1, w')" "obs = ob # obs1"
    using Cons.prems(3) by (rule play_Cons)
  have a: "action_in sid a" "conversation sid as'" using Cons.prems(1) by (simp_all add: conversation_def)
  have g: "conv_good sid w1" using act_moves [OF a(1) Cons.prems(2) p(1)] moves_good Cons.prems(2) by blast
  note n = act_numbers [OF a(1) Cons.prems(2) p(1)]
  note ih = Cons.IH [OF a(2) g p(2)]
  have "[conv_counter w + 1 .. conv_counter w1] @ [conv_counter w1 + 1 .. conv_counter w'] = [conv_counter w + 1 .. conv_counter w']"
    using upto_split2 [of "conv_counter w + 1" "conv_counter w1" "conv_counter w'"] n ih
    by (cases "conv_counter w = conv_counter w1") simp_all
  then show ?case using n ih by (simp add: p(3) histories)
qed (simp add: histories)

section \<open>Where the registry comes from\<close>

text \<open>Every entry was recorded under the present session, unless the conversation is latched.\<close>

definition noted :: "'c action set \<Rightarrow> string \<Rightarrow> string \<Rightarrow> string \<Rightarrow> bool" where
  "noted acts k t token \<longleftrightarrow> (\<exists>m delta. ARecord m token delta \<in> acts \<and> (\<exists>d\<in>set delta. tk_Source d = k \<and> tk_Token d = t))"

definition reg_ok :: "'c action set \<Rightarrow> conv_state \<Rightarrow> bool" where
  "reg_ok acts st \<longleftrightarrow>
     (\<forall>k t. map_of (st_Registry st) k = Some t \<longrightarrow> (\<exists>token. noted acts k t token \<and> (st_AuthFailed st \<or> st_SessionToken st = token)))
     \<and> (\<not> st_AuthFailed st \<and> st_SessionToken st = [] \<longrightarrow> st_Registry st = [])"

lemma noted_mono: "noted A k t token \<Longrightarrow> A \<subseteq> B \<Longrightarrow> noted B k t token"
  unfolding noted_def by blast

lemma reg_ok_empty: "st_Registry st = [] \<Longrightarrow> reg_ok acts st"
  by (simp add: reg_ok_def)

lemma reg_ok_mono: "reg_ok A st \<Longrightarrow> A \<subseteq> B \<Longrightarrow> reg_ok B st"
  unfolding reg_ok_def using noted_mono by blast

lemma reg_ok_step:
  assumes "conv_step st st'" "reg_ok acts st"
  shows "reg_ok acts st'"
  using assms by cases (auto simp: reg_ok_def reset_state_def)

lemma reg_ok_recorded:
  assumes "reg_ok acts st" "ARecord m (st_SessionToken st) delta \<in> acts" "st_SessionToken st \<noteq> []" "conv_ok st"
  shows "reg_ok acts (recorded delta st)"
proof -
  have na: "\<not> st_AuthFailed st" using assms(3,4) by (auto simp: conv_ok_def)
  have "noted acts k t (st_SessionToken st)" if "map_of (record_delta delta (st_Registry st)) k = Some t" for k t
    using map_of_delta_Some [OF that] assms(1,2) na by (auto simp: reg_ok_def noted_def)
  then show ?thesis using assms(3) na by (simp add: reg_ok_def) (simp add: recorded_def)
qed

definition host_reg_ok :: "'c action set \<Rightarrow> 'c host \<Rightarrow> bool" where
  "host_reg_ok acts w \<longleftrightarrow> (\<forall>st. w_state w = Some st \<longrightarrow> reg_ok acts st)"

lemma moves_reg_ok:
  assumes mv: "moves sid a w w'" and g: "conv_good sid w" and a: "action_in sid a" "a \<in> acts" and r: "host_reg_ok acts w"
  shows "host_reg_ok acts w'"
proof -
  consider "w_state w' = w_state w"
    | m st st' where "loaded m w st" "conv_step st st'" "w_state w' = Some st'"
    | m token delta st where "a = ARecord m token delta" "w_state w = Some st" "st_SessionToken st = token" "w_state w' = Some (recorded delta st)"
    using mv by (auto simp: moves_def)
  then show ?thesis
  proof cases
    case 1
    then show ?thesis using r by (simp add: host_reg_ok_def)
  next
    case 2
    have "reg_ok acts st"
      using 2(1) r by (auto simp: loaded_def host_reg_ok_def newState_def reg_ok_def split: option.splits)
    then show ?thesis using reg_ok_step [OF 2(2)] 2(3) by (simp add: host_reg_ok_def)
  next
    case 3
    have "reg_ok acts st" "conv_ok st" using 3(2) r g by (auto simp: host_reg_ok_def conv_good_def)
    then show ?thesis using reg_ok_recorded [of acts st m delta] 3 a by (auto simp: host_reg_ok_def)
  qed
qed

lemma play_reg_ok:
  "conversation sid acts \<Longrightarrow> conv_good sid w \<Longrightarrow> play acts w = (obs, w') \<Longrightarrow> set acts \<subseteq> A \<Longrightarrow> host_reg_ok A w \<Longrightarrow> host_reg_ok A w'"
proof (induction acts arbitrary: w obs)
  case (Cons a as')
  obtain ob w1 obs1 where p: "act a w = (ob, w1)" "play as' w1 = (obs1, w')"
    using Cons.prems(3) by (rule play_Cons)
  have a: "action_in sid a" "conversation sid as'" using Cons.prems(1) by (simp_all add: conversation_def)
  have mv: "moves sid a w w1" using act_moves [OF a(1) Cons.prems(2) p(1)] by blast
  have "conv_good sid w1" by (rule moves_good [OF mv Cons.prems(2)])
  moreover have "host_reg_ok A w1" using moves_reg_ok [OF mv Cons.prems(2) a(1) _ Cons.prems(5)] Cons.prems(4) by simp
  ultimately show ?case using Cons.IH [OF a(2) _ p(2)] Cons.prems(4) by simp
qed simp

section \<open>Where events go\<close>

text \<open>A spooled line of the present epoch was captured under the present token, unless latched.\<close>

definition line_ok :: "conv_state \<Rightarrow> spoolLine \<Rightarrow> bool" where
  "line_ok st l \<longleftrightarrow> sl_Epoch l \<le> st_Epoch st
     \<and> (sl_Epoch l = st_Epoch st \<longrightarrow> st_AuthFailed st \<or> st_SessionToken st \<noteq> [] \<and> sl_SessionToken l = st_SessionToken st)"

lemma line_ok_step:
  assumes "conv_step st st'" "line_ok st l"
  shows "line_ok st' l"
  using assms by cases (auto simp: line_ok_def reset_state_def)

definition spool_ok :: "'c host \<Rightarrow> bool" where
  "spool_ok w \<longleftrightarrow> (case w_state w of None \<Rightarrow> spooled w = [] | Some st \<Rightarrow> list_all (line_ok st) (spooled w))"

lemma spool_ok_lines:
  assumes "spool_ok w" "mset ls + mset (spooled w') \<subseteq># mset (spooled w)" "w_state w' = w_state w"
  shows "spool_ok w'" "\<forall>l\<in>set ls. \<exists>st. w_state w = Some st \<and> line_ok st l"
proof -
  have s: "set ls \<subseteq> set (spooled w)" "set (spooled w') \<subseteq> set (spooled w)"
    using set_mset_mono [OF assms(2)] by auto
  show "spool_ok w'" using assms(1,3) s(2) by (auto simp: spool_ok_def list_all_iff split: option.splits)
  show "\<forall>l\<in>set ls. \<exists>st. w_state w = Some st \<and> line_ok st l"
    using assms(1) s(1) by (auto simp: spool_ok_def list_all_iff split: option.splits)
qed

lemma act_offered:
  assumes "action_in sid a" "act a w = (ob, w')" "l \<in> set (offered1 ob)"
  shows "\<exists>st. w_state w = Some st \<and> line_ok st l \<and> w_state w' = w_state w"
proof -
  obtain m token es where a: "a = AEnqueue m token es"
    using assms(2,3) by (cases a) (auto simp: observed split: sum.splits prod.splits)
  obtain st where st: "w_state w = Some st" "st_SessionToken st = token" "l = spool_line st token es"
    using assms(2,3) by (auto simp: a observed split: option.splits if_splits)
  have "w_state w' = w_state w" using assms(2) Enqueue_keeps [of m token es w] by (auto simp: a)
  then show ?thesis using st assms(1) by (simp add: a line_ok_def spool_line_def)
qed

lemma act_spool_ok:
  assumes a: "action_in sid a" and g: "conv_good sid w" and run: "act a w = (ob, w')" and s: "spool_ok w"
  shows "spool_ok w'"
proof -
  note am = act_moves [OF a g run]
  have mv: "moves sid a w w'" and sub: "set (spooled w') \<subseteq> set (offered1 ob) \<union> set (spooled w)"
    using am set_mset_mono [OF conjunct2 [OF am]] by auto
  have same: ?thesis if e: "w_state w' = w_state w"
  proof (cases "w_state w")
    case None
    have "set (offered1 ob) = {}" by (rule equals0I) (use act_offered [OF a run] None in auto)
    then show ?thesis using sub s e None by (simp add: spool_ok_def)
  next
    case (Some st)
    have "line_ok st l" if "l \<in> set (spooled w')" for l
      using that sub act_offered [OF a run, of l] s Some by (auto simp: spool_ok_def list_all_iff)
    then show ?thesis using e Some by (simp add: spool_ok_def list_all_iff)
  qed
  show ?thesis
  proof (cases "w_state w' = w_state w")
    case True
    then show ?thesis by (rule same)
  next
    case False
    have "set (offered1 ob) = {}" by (rule equals0I) (use act_offered [OF a run] False in auto)
    then have sub: "set (spooled w') \<subseteq> set (spooled w)" using sub by simp
    consider m st st' where "loaded m w st" "conv_step st st'" "w_state w' = Some st'"
      | delta st where "w_state w = Some st" "w_state w' = Some (recorded delta st)"
      using mv False by (auto simp: moves_def)
    then show ?thesis
    proof cases
      case 1
      have "line_ok st l" if "l \<in> set (spooled w)" for l
        using that s 1(1) by (auto simp: spool_ok_def loaded_def list_all_iff split: option.splits)
      then show ?thesis using line_ok_step [OF 1(2)] sub 1(3) by (auto simp: spool_ok_def list_all_iff)
    next
      case 2
      have "line_ok (recorded delta st) l = line_ok st l" for l by (simp add: line_ok_def recorded_def)
      then show ?thesis using 2 s sub by (auto simp: spool_ok_def list_all_iff)
    qed
  qed
qed

text \<open>What a drain attempts fits the state it was made under.\<close>

definition attempts_fit :: "observation \<Rightarrow> bool" where
  "attempts_fit ob = (case ob of
       Attempted s ls \<Rightarrow> list_all (\<lambda>l. case s of None \<Rightarrow> False
         | Some st \<Rightarrow> sl_Epoch l = st_Epoch st \<and> (st_AuthFailed st \<or> sl_SessionToken l = st_SessionToken st)) ls
     | _ \<Rightarrow> True)"

lemma act_attempts:
  assumes "action_in sid a" "spool_ok w" "act a w = (ob, w')"
  shows "attempts_fit ob"
proof (cases "\<exists>m pid. a = ADrain m pid")
  case True
  then obtain m pid where a: "a = ADrain m pid" by blast
  obtain d where d: "Manager_Drain m pid w = (d, w')" "ob = Attempted (w_state w) (attempted d)"
    using assms(3) by (cases "Manager_Drain m pid w") (auto simp: a attempted_def)
  note e = Drain_effect [OF d(1)]
  have "\<forall>l\<in>set (attempted d). \<exists>st. w_state w = Some st \<and> line_ok st l \<and> sl_Epoch l = st_Epoch st"
    using spool_ok_lines(2) [OF assms(2) e(2,1)] e(3) by auto
  then show ?thesis by (auto simp: d(2) attempts_fit_def list_all_iff line_ok_def split: option.splits)
next
  case False
  then show ?thesis
    using assms(3) by (cases a) (auto simp: attempts_fit_def split: sum.splits prod.splits option.splits if_splits)
qed

lemma play_events:
  "conversation sid acts \<Longrightarrow> conv_good sid w \<Longrightarrow> play acts w = (obs, w') \<Longrightarrow> spool_ok w
    \<Longrightarrow> mset (delivered_attempts obs) + mset (spooled w') \<subseteq># mset (offered obs) + mset (spooled w) \<and> list_all attempts_fit obs"
proof (induction acts arbitrary: w obs)
  case (Cons a as')
  obtain ob w1 obs1 where p: "act a w = (ob, w1)" "play as' w1 = (obs1, w')" "obs = ob # obs1"
    using Cons.prems(3) by (rule play_Cons)
  have a: "action_in sid a" "conversation sid as'" using Cons.prems(1) by (simp_all add: conversation_def)
  note mv = act_moves [OF a(1) Cons.prems(2) p(1)]
  have g: "conv_good sid w1" using mv moves_good Cons.prems(2) by blast
  note ih = Cons.IH [OF a(2) g p(2) act_spool_ok [OF a(1) Cons.prems(2) p(1) Cons.prems(4)]]
  have "mset (attempted1 ob) + mset (spooled w1) + mset (delivered_attempts obs1) + mset (spooled w')
      \<subseteq># mset (offered1 ob) + mset (spooled w) + mset (offered obs1) + mset (spooled w1)"
    using subset_mset.add_mono [OF conjunct2 [OF mv] conjunct1 [OF ih]] by (simp add: ac_simps)
  then have "mset (attempted1 ob) + mset (delivered_attempts obs1) + mset (spooled w') + mset (spooled w1)
      \<subseteq># mset (offered1 ob) + mset (offered obs1) + mset (spooled w) + mset (spooled w1)" by (simp add: ac_simps)
  then have "mset (attempted1 ob) + mset (delivered_attempts obs1) + mset (spooled w')
      \<subseteq># mset (offered1 ob) + mset (offered obs1) + mset (spooled w)" unfolding subset_mset.add_le_cancel_right .
  then show ?case using ih act_attempts [OF a(1) Cons.prems(4) p(1)] by (simp add: p(3) histories)
qed (simp add: histories)

lemma start_good: "w_state w = None \<Longrightarrow> conv_good sid w \<and> conv_counter w = 0 \<and> host_reg_ok A w"
  by (simp add: conv_good_def conv_counter_def host_reg_ok_def)

end
