(* ===== verification/Capture_Cards.thy ===== *)
theory Capture_Cards
  imports Session_Manager
begin

text \<open>
  Text that the shells show around captures: the discovery and session-start cards
  (capture/discovery_card.go), the search results (capture/search_format.go), the payload of
  a command (capture/command_payload.go) and the phrases of a degraded call (obs/fields.go).
\<close>

section \<open>Cards\<close>

text \<open>A horizontal line of two box characters, and a bullet, in UTF-8.\<close>

definition rule_mark :: string where
  "rule_mark = [CHR 0xE2, CHR 0x94, CHR 0x80, CHR 0xE2, CHR 0x94, CHR 0x80]"

definition bullet :: string where "bullet = [CHR 0xE2, CHR 0x80, CHR 0xA2]"
definition dquote :: string where "dquote = [CHR 0x22]"

definition recallAffordance :: "string \<Rightarrow> string" where
  "recallAffordance recall =
     rule_mark @ '' CALM keeps captured output searchable '' @ em_dash @ '' retrieve it instead of re-running:'' @ [newline]
     @ ''   '' @ bullet @ '' find by query:        '' @ recall @ '' '' @ dquote @ ''<terms>'' @ dquote @ [newline]
     @ ''   '' @ bullet @ '' scope to one capture:  '' @ recall @ '' source=<label> '' @ dquote @ ''<terms>'' @ dquote @ [newline]
     @ ''   '' @ bullet @ '' reread in order:       '' @ recall @ '' source=<label>'' @ [newline]
     @ ''   <label> is the source= value on a capture'' @ [CHR 0x27] @ ''s trailer; pass it verbatim'' @ [newline]
     @ ''   (it reports staleness rather than empty, and returns exact text).''"

definition discoveryCard :: "string \<Rightarrow> string" where
  "discoveryCard recall =
     recallAffordance recall @ [newline] @ ''   (shown once, on this conversation'' @ [CHR 0x27] @ ''s first capture)''"

definition withDiscoveryCard :: "string \<Rightarrow> string \<Rightarrow> string" where
  "withDiscoveryCard recall visible =
     (if visible \<noteq> [] \<and> \<not> has_suffix visible [newline] then visible @ [newline] else visible) @ [newline] @ discoveryCard recall"

definition inventoryMaxEntries :: nat where "inventoryMaxEntries = 20"
definition inventoryMaxBytes :: nat where "inventoryMaxBytes = 1024"

definition capLines :: "string \<Rightarrow> nat \<Rightarrow> string" where
  "capLines s maxBytes =
     (if length s \<le> maxBytes then s
      else case last_index_byte newline (take maxBytes s) of
             Some i \<Rightarrow> if 0 < i then take i s else []
           | None \<Rightarrow> [])"

definition renderInventory :: "inventoryEntry list \<Rightarrow> string" where
  "renderInventory entries =
     (if entries = [] then []
      else capLines ([newline] @ rule_mark @ '' captured so far (retrieve any with source=<label>):''
             @ concat (map (\<lambda>e. [newline] @ ''   '' @ bullet @ '' '' @ fuseSource (iv_Label e) (iv_Token e)) (take inventoryMaxEntries entries)))
           inventoryMaxBytes)"

definition SessionStartCard :: "string \<Rightarrow> int \<Rightarrow> inventoryEntry list \<Rightarrow> string" where
  "SessionStartCard recall captures entries =
     (if 0 < captures
      then ''This context is from the calm-capture session-start hook. Shell command output in this conversation is captured and searchable (''
        @ json_int captures @ '' captured so far) '' @ em_dash @ '' it can be retrieved instead of re-run.'' @ [newline]
      else ''This context is from the calm-capture session-start hook. It captures the full output of shell commands run in this conversation and keeps it searchable, so past output can be retrieved instead of re-run.'' @ [newline])
     @ recallAffordance recall @ renderInventory entries"

definition SessionRefresherCard :: "string \<Rightarrow> inventoryEntry list \<Rightarrow> string" where
  "SessionRefresherCard recall entries =
     ''This context is from the calm-capture session-start hook: shell output in this conversation stays captured and searchable via ''
     @ recall @ '' source=<label>. This replaces any earlier CALM capture inventory above.'' @ renderInventory entries"

text \<open>The cut never leaves part of a line: the text ends before a newline.\<close>

lemma capLines_whole:
  "length (capLines s n) \<le> n \<and> (capLines s n = s \<or> capLines s n = [] \<or> prefix (capLines s n @ [newline]) s)"
proof (cases "length s \<le> n")
  case False
  show ?thesis
  proof (cases "last_index_byte newline (take n s)")
    case (Some i)
    have i: "i < length (take n s)" "take n s ! i = newline"
      using last_index_byte_Some [OF Some] by auto
    have "take (Suc i) s = take i s @ [newline]" using i by (simp add: take_Suc_conv_app_nth)
    then have "prefix (take i s @ [newline]) s" using take_is_prefix [of "Suc i" s] by simp
    then show ?thesis using False Some i by (simp add: capLines_def)
  qed (use False in \<open>simp add: capLines_def\<close>)
qed (simp add: capLines_def)

section \<open>Search results\<close>

definition maxSearchResultLen :: nat where "maxSearchResultLen = 8192"

record SearchVocab =
  sv_TruncatedMarker :: string
  sv_ContinuationLine :: string
  sv_FeedbackPrefix :: string
  sv_ZeroHitRanked :: string
  sv_ZeroHitDocument :: string

definition totalHits :: "searchResults \<Rightarrow> nat" where
  "totalHits res = sum_list (map (\<lambda>q. length (qr_Hits q)) (sr_Queries res))"

definition sourceNote :: "string \<Rightarrow> string" where
  "sourceNote source = (if source = [] then [] else '' under source='' @ source)"

definition plural :: "nat \<Rightarrow> string \<Rightarrow> string \<Rightarrow> string" where
  "plural n one many = (if n = 1 then one else many)"

definition withFeedbackLine :: "string \<Rightarrow> SearchVocab \<Rightarrow> string \<Rightarrow> string" where
  "withFeedbackLine out v ref =
     (if sv_FeedbackPrefix v = [] \<or> ref = [] then out
      else (if out \<noteq> [] \<and> \<not> has_suffix out [newline] then out @ [newline] else out) @ sv_FeedbackPrefix v @ ref @ [newline])"

definition hit_line :: "hit \<Rightarrow> string" where
  "hit_line h = ''['' @ ht_MatchLayer h @ ''] '' @ ht_Title h @ ''  ('' @ ht_Source h @ '')'' @ [newline] @ ht_Snippet h @ [newline]"

definition FormatSearchResults :: "(string \<Rightarrow> string) \<Rightarrow> searchResults \<Rightarrow> string \<Rightarrow> SearchVocab \<Rightarrow> string" where
  "FormatSearchResults qt res source v =
     (if totalHits res = 0 then withFeedbackLine (sv_ZeroHitRanked v @ sourceNote source) v (sr_CorrelationID res)
      else let out = itoa (totalHits res) @ '' '' @ plural (totalHits res) ''hit'' ''hits'' @ '' across ''
                 @ itoa (length (sr_Queries res)) @ '' '' @ plural (length (sr_Queries res)) ''query'' ''queries'' @ '':'' @ [newline]
                 @ concat (map (\<lambda>q. [newline] @ ''# '' @ qt (qr_Query q) @ '' '' @ em_dash @ '' '' @ itoa (length (qr_Hits q)) @ '' ''
                      @ plural (length (qr_Hits q)) ''hit'' ''hits'' @ [newline] @ concat (map hit_line (qr_Hits q))) (sr_Queries res))
           in withFeedbackLine
                (if length out > maxSearchResultLen then to_valid (take maxSearchResultLen out) @ ellipsis else out)
                v (sr_CorrelationID res))"

definition chunk_text :: "SearchVocab \<Rightarrow> hit \<Rightarrow> string" where
  "chunk_text v h = [newline] @ ''## '' @ ht_Title h @ [newline] @ ht_Snippet h @ [newline]
     @ (if ht_Truncated h then sv_TruncatedMarker v @ [newline] else [])"

definition FormatDocumentOrder :: "searchResults \<Rightarrow> int \<Rightarrow> string \<Rightarrow> SearchVocab \<Rightarrow> string" where
  "FormatDocumentOrder res offset source v =
     (if totalHits res = 0 then withFeedbackLine (sv_ZeroHitDocument v @ sourceNote source) v (sr_CorrelationID res)
      else let hits = concat (map qr_Hits (sr_Queries res)) in
           withFeedbackLine
             (itoa (length hits) @ '' '' @ plural (length hits) ''chunk'' ''chunks'' @ '' in document order from offset ''
                @ json_int offset @ '':'' @ [newline]
              @ concat (map (chunk_text v) hits)
              @ (case sr_NextOffset res of None \<Rightarrow> [] | Some n \<Rightarrow> [newline] @ sv_ContinuationLine v @ json_int n @ [newline]))
             v (sr_CorrelationID res))"

text \<open>A document-order page shows every snippet in full.\<close>

lemma document_order_shows:
  assumes "q \<in> set (sr_Queries res)" "h \<in> set (qr_Hits q)"
  shows "sublist (ht_Snippet h) (FormatDocumentOrder res offset source v)"
proof -
  let ?hits = "concat (map qr_Hits (sr_Queries res))"
  have m: "h \<in> set ?hits" using assms by auto
  then obtain a b where ab: "?hits = a @ h # b" using split_list by metis
  have "qr_Hits q \<noteq> []" using assms(2) by auto
  then have t: "totalHits res \<noteq> 0" using assms(1) by (auto simp: totalHits_def)
  have c: "sublist (ht_Snippet h) (chunk_text v h)"
    unfolding chunk_text_def
    by (metis append_assoc sublist_appendI)
  have "sublist (chunk_text v h) (concat (map (chunk_text v) ?hits))"
    unfolding ab by simp
  then have "sublist (ht_Snippet h) (concat (map (chunk_text v) ?hits))" using c sublist_order.order_trans by blast
  then have "sublist (ht_Snippet h) (x @ concat (map (chunk_text v) ?hits) @ y)" for x y
    by (meson sublist_append_leftI sublist_append_rightI sublist_order.order_trans)
  then have body: "sublist (ht_Snippet h) (itoa (length ?hits) @ '' '' @ plural (length ?hits) ''chunk'' ''chunks'' @ '' in document order from offset ''
                @ json_int offset @ '':'' @ [newline] @ concat (map (chunk_text v) ?hits) @ y)" for y
    by (metis append_assoc)
  have f: "sublist s out \<Longrightarrow> sublist s (withFeedbackLine out v ref)" for s out ref
    unfolding withFeedbackLine_def by (auto intro: sublist_order.order_trans sublist_append_rightI)
  show ?thesis unfolding FormatDocumentOrder_def Let_def using t f [OF body] by simp
qed

section \<open>The payload of a command\<close>

definition CommandPayload :: "exec_result \<Rightarrow> string" where
  "CommandPayload r =
     (if rs_Stdout r \<noteq> [] \<and> \<not> blank (rs_Stderr r)
      then ''[stdout]'' @ [newline] @ rs_Stdout r
        @ (if has_suffix (rs_Stdout r) [newline] then [newline] else [newline, newline]) @ ''[stderr]'' @ [newline] @ rs_Stderr r
      else if \<not> blank (rs_Stderr r) then ''[stderr]'' @ [newline] @ rs_Stderr r
      else rs_Stdout r)"

section \<open>Degraded calls\<close>

definition degraded_mark :: string where "degraded_mark = ''CALM degraded '' @ em_dash @ '' ''"

definition DegradedPhrase :: "string \<Rightarrow> string" where
  "DegradedPhrase reason = degraded_mark @
     (if reason = calm_unreachable then ''calm_unreachable. Capture and search may fail; local result is shown.''
      else if reason = auth_failed then ''auth_failed. CALM credentials rejected; capture and feedback are disabled for this conversation.''
      else if reason = session_lost then ''session_lost. The prior session expired or was replaced; references to prior captures will fail.''
      else if reason = capture_failed then ''capture_failed. Local action ran; CALM did not index the output.''
      else if reason = capture_partial then ''capture_partial. Some captured sources were indexed; others were not.''
      else if reason = feedback_window_expired then ''feedback_window_expired. The feedback window for this reference has closed.''
      else reason @ ''.'')"

end
