(* ===== verification/Mcp_Workspace.thy ===== *)
theory Mcp_Workspace
  imports Extract_Plan "HOL-Library.AList"
begin

text \<open>
  internal/adapter/mcp/workspace.go: the workspaces of a session. A directory belongs to the
  deepest ancestor that carries a version-control marker, else to the deepest one with a
  project manifest. Discovery only appends. The files are those of an ordinary tree without
  symbolic links: a path names the file of its cleaned form.
\<close>

section \<open>Files\<close>

record fnode =
  fn_isDir :: bool
  fn_content :: string
  fn_perm :: int

type_synonym files = "(string \<times> fnode) list"

definition node :: "string \<Rightarrow> files \<Rightarrow> fnode option" where
  "node p fs = map_of fs (path_clean p)"

text \<open>\<open>filepath.Dir\<close>.\<close>

definition path_dir :: "string \<Rightarrow> string" where
  "path_dir p = path_clean (rev (dropWhile (\<lambda>c. c \<noteq> slash) (rev p)))"

subsection \<open>Parents are shorter\<close>

definition weight :: "string list \<Rightarrow> nat" where
  "weight ss = sum_list (map (\<lambda>s. length s + 1) ss)"

lemma weight_simps [simp]: "weight [] = 0" "weight (s # ss) = length s + 1 + weight ss" "weight (ss @ ts) = weight ss + weight ts"
  by (simp_all add: weight_def)

lemma weight_rev [simp]: "weight (rev ss) = weight ss"
  by (simp add: weight_def rev_map [symmetric])

lemma weight_tl: "acc \<noteq> [] \<Longrightarrow> weight (tl acc) < weight acc"
  by (cases acc) simp_all

lemma weight_clean: "weight (clean_segs r acc ss) + count_list ss [] \<le> weight acc + weight ss"
proof (induction r acc ss rule: clean_segs.induct)
  case (2 r acc s ss)
  show ?case
  proof (cases "s = [] \<or> s = ''.''")
    case True
    then show ?thesis using 2(1) by auto
  next
    case no: False
    show ?thesis
    proof (cases "s = ''..''")
      case True
      then show ?thesis using no 2(2-4) weight_tl [of acc] by auto
    next
      case False
      then show ?thesis using no 2(5) by auto
    qed
  qed
qed simp

lemma weight_join: "ss \<noteq> [] \<Longrightarrow> length (join ''/'' ss) + 1 = weight ss"
proof (induction ss)
  case (Cons s ss)
  then show ?case by (cases ss) (simp_all add: join_Cons)
qed simp

lemma weight_split: "weight (split_byte c p) = length p + 1"
  by (induction p) (auto split: list.splits)

lemma split_end: "split_byte c (p @ [c]) = split_byte c p @ [[]]"
proof (induction p)
  case (Cons a p)
  then show ?case by (cases "split_byte c p") (auto split: list.splits)
qed simp

definition depth :: "string \<Rightarrow> nat" where
  "depth d = (if d = ''.'' then 0 else length d + 1)"

lemma path_clean_length:
  assumes q: "q \<noteq> []" "last q = slash"
  shows "path_clean q = ''.'' \<or> path_clean q = ''/'' \<and> is_abs q \<or> length (path_clean q) < length q"
proof -
  define ss where "ss = clean_segs (is_abs q) [] (split_byte slash q)"
  obtain p where p: "q = p @ [slash]" using q by (metis append_butlast_last_id)
  have w: "weight ss + count_list (split_byte slash q) [] \<le> length q + 1"
    using weight_clean [of "is_abs q" "[]" "split_byte slash q"] by (simp add: weight_split ss_def)
  have run: "path_clean q = (if is_abs q then slash # join ''/'' ss else if join ''/'' ss = [] then ''.'' else join ''/'' ss)"
    using q(1) unfolding path_clean_def Let_def ss_def by simp
  show ?thesis
  proof (cases "ss = []")
    case True
    then show ?thesis using run by (simp add: slash_def)
  next
    case False
    note wj = weight_join [OF False]
    show ?thesis
    proof (cases "is_abs q")
      case abs: True
      have "2 \<le> count_list (split_byte slash q) []"
      proof (cases p)
        case Nil
        then show ?thesis by (simp add: p)
      next
        case (Cons a r)
        then have "a = slash" using abs by (simp add: p is_abs_def)
        then have "split_byte slash q = [] # split_byte slash (r @ [slash])" by (simp add: p Cons)
        then show ?thesis by (simp add: split_end)
      qed
      then show ?thesis using w wj run abs by simp
    next
      case False
      then show ?thesis using w wj run by (auto simp: p split_end)
    qed
  qed
qed

lemma path_dir_shrinks:
  assumes "path_dir d \<noteq> d"
  shows "depth (path_dir d) < depth d"
proof -
  define q where "q = rev (dropWhile (\<lambda>c. c \<noteq> slash) (rev d))"
  have pd: "path_dir d = path_clean q" by (simp add: path_dir_def q_def)
  have len: "length q \<le> length d" using length_dropWhile_le [of "\<lambda>c. c \<noteq> slash" "rev d"] by (simp add: q_def)
  show ?thesis
  proof (cases "q = []")
    case True
    then show ?thesis using assms pd by (auto simp: path_clean_def depth_def)
  next
    case False
    have hd: "hd (dropWhile (\<lambda>c. c \<noteq> slash) (rev d)) = slash" "slash \<in> set d"
      using False hd_dropWhile [of "\<lambda>c. c \<noteq> slash" "rev d"] set_dropWhileD [of _ "\<lambda>c. c \<noteq> slash" "rev d"] hd_in_set
      unfolding q_def by fastforce+
    then have l: "last q = slash" using False by (simp add: q_def last_rev)
    have nd: "d \<noteq> ''.''" using hd(2) by (auto simp: slash_def)
    have q_len: "0 < length q" using False by simp
    consider "path_clean q = ''.''" | "path_clean q = ''/''" "is_abs q" | "length (path_clean q) < length q"
      using path_clean_length [OF False l] by blast
    then show ?thesis
    proof cases
      case 1
      then show ?thesis using nd by (simp add: pd depth_def)
    next
      case 2
      have "d \<noteq> ''/''" using assms pd 2(1) by simp
      then have "1 < length d" using hd(2) by (cases d; cases "tl d") (auto simp: slash_def)
      then show ?thesis using nd 2(1) by (simp add: pd depth_def)
    next
      case 3
      then show ?thesis using nd len by (simp add: pd depth_def)
    qed
  qed
qed

section \<open>Anchors\<close>

definition vcsMarkers :: "string list" where "vcsMarkers = [''.git'', ''.hg'', ''.svn'']"

definition manifestMarkers :: "string list" where
  "manifestMarkers = [''go.mod'', ''package.json'', ''pyproject.toml'', ''setup.py'', ''Cargo.toml'', ''pom.xml'',
     ''build.gradle'', ''Gemfile'', ''composer.json'']"

definition isFSRoot :: "string \<Rightarrow> bool" where "isFSRoot d \<longleftrightarrow> path_dir d = d"

definition hasAnyMarker :: "files \<Rightarrow> string \<Rightarrow> string list \<Rightarrow> bool" where
  "hasAnyMarker fs dir markers \<longleftrightarrow> list_ex (\<lambda>m. node (path_join dir m) fs \<noteq> None) markers"

text \<open>The loop of \<open>anchorOf\<close>; \<open>home\<close> is the home directory of the user.\<close>

function anchor_loop :: "string \<Rightarrow> files \<Rightarrow> string \<Rightarrow> string \<Rightarrow> string option" where
  "anchor_loop home fs manifestAnchor d =
     (if d \<noteq> home \<and> \<not> isFSRoot d \<and> hasAnyMarker fs d vcsMarkers then Some d
      else let found = (if manifestAnchor = [] \<and> hasAnyMarker fs d manifestMarkers then d else manifestAnchor) in
           if path_dir d = d then (if found \<noteq> [] then Some found else None)
           else anchor_loop home fs found (path_dir d))"
  by pat_completeness auto
termination by (relation "measure (\<lambda>(_, _, _, d). depth d)") (auto simp: path_dir_shrinks)

declare anchor_loop.simps [simp del]

definition anchorOf :: "string \<Rightarrow> files \<Rightarrow> string \<Rightarrow> string option" where
  "anchorOf home fs dir = anchor_loop home fs [] (path_clean dir)"

section \<open>The registry of workspaces\<close>

record WorkspaceBinding =
  wb_ID :: string
  wb_Root :: string

definition wb_resolve :: "WorkspaceBinding \<Rightarrow> string \<Rightarrow> string" where
  "wb_resolve b path = (if is_abs path then path else path_join (wb_Root b) path)"

record workspaceSet =
  ws_bindings :: "WorkspaceBinding list"
  ws_usedIDs :: "string list"
  ws_dirAnchors :: "(string \<times> string) list"

definition newWorkspaceSet :: "string \<Rightarrow> files \<Rightarrow> string \<Rightarrow> workspaceSet" where
  "newWorkspaceSet home fs launchDir =
     (let root = (case anchorOf home fs launchDir of Some a \<Rightarrow> a | None \<Rightarrow> launchDir) in
      if root = []
      then \<lparr>ws_bindings = [\<lparr>wb_ID = [], wb_Root = []\<rparr>], ws_usedIDs = [], ws_dirAnchors = []\<rparr>
      else let root = path_clean root; i = path_base root in
           \<lparr>ws_bindings = [\<lparr>wb_ID = i, wb_Root = root\<rparr>], ws_usedIDs = [i], ws_dirAnchors = []\<rparr>)"

definition primary :: "workspaceSet \<Rightarrow> WorkspaceBinding" where
  "primary w = hd (ws_bindings w)"

definition byID :: "string \<Rightarrow> workspaceSet \<Rightarrow> WorkspaceBinding option" where
  "byID i w = find (\<lambda>b. wb_ID b = i) (ws_bindings w)"

definition workspace_ids :: "workspaceSet \<Rightarrow> string list" where
  "workspace_ids w = map wb_ID (ws_bindings w)"

definition is_dir :: "string \<Rightarrow> files \<Rightarrow> bool" where
  "is_dir p fs \<longleftrightarrow> (case node p fs of Some n \<Rightarrow> fn_isDir n | None \<Rightarrow> False)"

text \<open>The anchor of a directory, looked up once and then remembered.\<close>

definition memo_anchor :: "string \<Rightarrow> files \<Rightarrow> string \<Rightarrow> workspaceSet \<Rightarrow> string \<times> workspaceSet" where
  "memo_anchor home fs dir w =
     (case map_of (ws_dirAnchors w) dir of
        Some root \<Rightarrow> (root, w)
      | None \<Rightarrow> (let root = (case anchorOf home fs dir of Some a \<Rightarrow> a | None \<Rightarrow> []) in
                (root, w\<lparr>ws_dirAnchors := (dir, root) # ws_dirAnchors w\<rparr>)))"

definition mint_binding :: "(string \<Rightarrow> string) \<Rightarrow> string \<Rightarrow> workspaceSet \<Rightarrow> WorkspaceBinding \<times> workspaceSet" where
  "mint_binding sha root w =
     (let base = path_base root;
          i = (if base \<in> set (ws_usedIDs w) then base @ CHR ''-'' # hex_string (take 4 (sha root)) else base);
          b = \<lparr>wb_ID = i, wb_Root = root\<rparr>
      in (b, w\<lparr>ws_bindings := ws_bindings w @ [b], ws_usedIDs := i # ws_usedIDs w\<rparr>))"

definition byPathOrDiscover ::
    "(string \<Rightarrow> string) \<Rightarrow> string \<Rightarrow> files \<Rightarrow> string \<Rightarrow> workspaceSet \<Rightarrow> WorkspaceBinding \<times> workspaceSet" where
  "byPathOrDiscover sha home fs path w =
     (let p = path_clean path; dir = (if is_dir p fs then p else path_dir p) in
      case memo_anchor home fs dir w of
        (root, w1) \<Rightarrow>
          if root = [] then (primary w1, w1)
          else case find (\<lambda>b. wb_Root b = root) (ws_bindings w1) of
                 Some b \<Rightarrow> (b, w1)
               | None \<Rightarrow> mint_binding sha root w1)"

text \<open>The error is the detail of an \<open>ArgError\<close>.\<close>

definition selectWorkspace :: "string \<Rightarrow> workspaceSet \<Rightarrow> (string, WorkspaceBinding) result" where
  "selectWorkspace i w =
     (if i = [] then Inr (primary w)
      else case byID i w of
             Some b \<Rightarrow> Inr b
           | None \<Rightarrow> Inl (''unknown workspace '' @ i @ ''; known: '' @ join '', '' (workspace_ids w)))"

definition workspaceForPath ::
    "(string \<Rightarrow> string) \<Rightarrow> string \<Rightarrow> files \<Rightarrow> string \<Rightarrow> string \<Rightarrow> workspaceSet \<Rightarrow> (string, WorkspaceBinding) result \<times> workspaceSet" where
  "workspaceForPath sha home fs explicitID path w =
     (if explicitID \<noteq> [] then (selectWorkspace explicitID w, w)
      else if is_abs path then apfst Inr (byPathOrDiscover sha home fs path w)
      else (Inr (primary w), w))"

definition workspaceForCwd ::
    "(string \<Rightarrow> string) \<Rightarrow> string \<Rightarrow> files \<Rightarrow> string \<Rightarrow> workspaceSet \<Rightarrow> (WorkspaceBinding \<times> string) \<times> workspaceSet" where
  "workspaceForCwd sha home fs cwd w =
     (if cwd = [] then ((primary w, wb_Root (primary w)), w)
      else let dir = wb_resolve (primary w) cwd in
           case byPathOrDiscover sha home fs dir w of (b, w1) \<Rightarrow> ((b, dir), w1))"

definition mcp_invocation :: "int \<Rightarrow> workspaceSet \<Rightarrow> WorkspaceBinding \<Rightarrow> string \<Rightarrow> string \<Rightarrow> invocation" where
  "mcp_invocation n w b command cwd =
     \<lparr>inv_Seq = n, inv_Command = command, inv_Cwd = cwd, inv_WorkspaceRoot = wb_Root b,
      inv_WorkspaceID = (if wb_Root b \<noteq> wb_Root (primary w) then wb_ID b else [])\<rparr>"

section \<open>The anchor is the deepest marked ancestor\<close>

lemma path_clean_not_Nil [simp]: "path_clean p \<noteq> []"
  by (simp add: path_clean_def Let_def)

lemma path_dir_not_Nil [simp]: "path_dir p \<noteq> []"
  by (simp add: path_dir_def)

text \<open>A directory and the ones above it, the deepest first.\<close>

function ancestors :: "string \<Rightarrow> string list" where
  "ancestors d = d # (if path_dir d = d then [] else ancestors (path_dir d))"
  by pat_completeness auto
termination by (relation "measure depth") (auto simp: path_dir_shrinks)

declare ancestors.simps [simp del]

definition vcs_anchor :: "string \<Rightarrow> files \<Rightarrow> string \<Rightarrow> bool" where
  "vcs_anchor home fs d \<longleftrightarrow> d \<noteq> home \<and> \<not> isFSRoot d \<and> hasAnyMarker fs d vcsMarkers"

lemma anchor_step:
  "anchor_loop home fs m d =
     (if vcs_anchor home fs d then Some d
      else let found = (if m = [] \<and> hasAnyMarker fs d manifestMarkers then d else m) in
           if path_dir d = d then (if found \<noteq> [] then Some found else None)
           else anchor_loop home fs found (path_dir d))"
  by (subst anchor_loop.simps) (simp only: vcs_anchor_def)

lemma anchor_loop_found:
  "m \<noteq> [] \<Longrightarrow> anchor_loop home fs m d = (case find (vcs_anchor home fs) (ancestors d) of Some a \<Rightarrow> Some a | None \<Rightarrow> Some m)"
proof (induction d rule: ancestors.induct)
  case (1 d)
  show ?case
    using 1 by (cases "path_dir d = d"; subst anchor_step; subst ancestors.simps) simp_all
qed

lemma anchor_loop_find:
  "d \<noteq> [] \<Longrightarrow> anchor_loop home fs [] d =
     (case find (vcs_anchor home fs) (ancestors d) of
        Some a \<Rightarrow> Some a | None \<Rightarrow> find (\<lambda>a. hasAnyMarker fs a manifestMarkers) (ancestors d))"
proof (induction d rule: ancestors.induct)
  case (1 d)
  have a: "ancestors d = d # (if path_dir d = d then [] else ancestors (path_dir d))" by (rule ancestors.simps)
  show ?case
    using 1 by (cases "path_dir d = d"; subst anchor_step) (simp_all add: a anchor_loop_found split: option.splits)
qed

section \<open>Discovery\<close>

text \<open>Bindings are only appended, and no two have the same root.\<close>

definition distinct_roots :: "workspaceSet \<Rightarrow> bool" where
  "distinct_roots w \<longleftrightarrow> ws_bindings w \<noteq> [] \<and> distinct (map wb_Root (ws_bindings w))"

lemma newWorkspaceSet_distinct: "distinct_roots (newWorkspaceSet home fs dir)"
  by (simp add: newWorkspaceSet_def distinct_roots_def Let_def)

lemma memo_anchor_bindings: "memo_anchor home fs dir w = (root, w1) \<Longrightarrow> ws_bindings w1 = ws_bindings w"
  by (auto simp: memo_anchor_def split: option.splits)

lemma discovery_grows:
  assumes "byPathOrDiscover sha home fs path w = (b, w')" "distinct_roots w"
  shows "distinct_roots w'" "prefix (ws_bindings w) (ws_bindings w')" "b \<in> set (ws_bindings w')" "primary w' = primary w"
proof -
  define dir where "dir = (if is_dir (path_clean path) fs then path_clean path else path_dir (path_clean path))"
  obtain root w1 where m: "memo_anchor home fs dir w = (root, w1)" by fastforce
  note b1 = memo_anchor_bindings [OF m]
  have run: "(if root = [] then (primary w1, w1)
      else case find (\<lambda>b. wb_Root b = root) (ws_bindings w1) of Some b \<Rightarrow> (b, w1) | None \<Rightarrow> mint_binding sha root w1) = (b, w')"
    using assms(1) m by (simp add: byPathOrDiscover_def Let_def dir_def)
  have "distinct_roots w' \<and> prefix (ws_bindings w) (ws_bindings w') \<and> b \<in> set (ws_bindings w') \<and> primary w' = primary w"
  proof (cases "root = []")
    case True
    then show ?thesis using run b1 assms(2) by (auto simp: primary_def distinct_roots_def)
  next
    case root: False
    show ?thesis
    proof (cases "find (\<lambda>b. wb_Root b = root) (ws_bindings w1)")
      case (Some x)
      then show ?thesis using run root b1 assms(2) find_Some_iff [of "\<lambda>b. wb_Root b = root" "ws_bindings w1" x]
        by (auto simp: primary_def distinct_roots_def)
    next
      case None
      then have "root \<notin> wb_Root ` set (ws_bindings w)" using b1 by (auto simp: find_None_iff)
      moreover have "ws_bindings w' = ws_bindings w @ [b]" "wb_Root b = root"
        using run root None b1 by (auto simp: mint_binding_def Let_def)
      ultimately show ?thesis using assms(2) by (auto simp: primary_def distinct_roots_def)
    qed
  qed
  then show "distinct_roots w'" "prefix (ws_bindings w) (ws_bindings w')" "b \<in> set (ws_bindings w')" "primary w' = primary w"
    by auto
qed

text \<open>
  Which of two projects with the same name keeps the bare identifier depends on the order of
  their discovery, and so do the labels of their captures.
\<close>

definition twin_files :: files where
  "twin_files = [(''/a/p/.git'', \<lparr>fn_isDir = True, fn_content = [], fn_perm = 0\<rparr>), (''/b/p/.git'', \<lparr>fn_isDir = True, fn_content = [], fn_perm = 0\<rparr>)]"

lemma ids_depend_on_order:
  "let w = newWorkspaceSet ''/h'' twin_files ''/w'';
       d = (\<lambda>ps. fold (\<lambda>p w. snd (byPathOrDiscover id ''/h'' twin_files p w)) ps w)
   in workspace_ids (d [''/a/p/x'', ''/b/p/x'']) = [''w'', ''p'', ''p-2f622f70'']
      \<and> workspace_ids (d [''/b/p/x'', ''/a/p/x'']) = [''w'', ''p'', ''p-2f612f70'']"
  by code_simp

end
