(* ===== verification/Mcp_Server.thy ===== *)
theory Mcp_Server
  imports Capture_Cards Mcp_Workspace
begin

text \<open>
  internal/adapter/mcp: the server that a harness talks to over MCP. Here is its state, the
  life of its session (recovery.go, capture_seam.go, server.go), the basis registry of the
  mutating tools (basis.go), and the answer to a tool call. The loop of \<open>Serve\<close> handles
  one line after the other, so a call is one function on the state. The state includes what
  the calls act on: the files, the local faults to come (None: the next file operation works),
  the clock and the service.
\<close>

section \<open>State\<close>

record basisEntry =
  be_path :: string
  be_hash :: string
  be_unread :: bool

type_synonym basis = "(string \<times> basisEntry) list"

record 'c mcp =
  ms_session :: string
  ms_sessionClient :: string
  ms_authFailed :: bool
  ms_recoverySeq :: int
  ms_lastEstablishAttempt :: int
  ms_clientRegistered :: bool
  ms_seq :: int
  ms_registry :: registry_map
  ms_basis :: basis
  ms_workspaces :: workspaceSet
  ms_files :: files
  ms_faults :: "string option list"
  ms_now :: int
  ms_calm :: 'c

text \<open>
  The configuration, and what is not part of the source: the client of the service, SHA-256,
  \<open>strconv.Quote\<close>, Unicode lower case, the diff library and the operating system's name.
\<close>

record 'c mcp_config =
  mc_api :: "'c calm_api"
  mc_sha :: "string \<Rightarrow> string"
  mc_quote :: "string \<Rightarrow> string"
  mc_lower :: "string \<Rightarrow> string"
  mc_unified :: "string \<Rightarrow> string \<Rightarrow> string \<Rightarrow> string"
  mc_goos :: string
  mc_home :: string
  mc_name :: string
  mc_version :: string
  mc_defaultClient :: string
  mc_ttlMinutes :: int
  mc_idemKey :: string
  mc_keepSession :: bool

definition NewServer :: "'c mcp_config \<Rightarrow> string \<Rightarrow> files \<Rightarrow> string option list \<Rightarrow> int \<Rightarrow> 'c \<Rightarrow> 'c mcp" where
  "NewServer cfg launchDir fs faults now c =
     \<lparr>ms_session = [], ms_sessionClient = [], ms_authFailed = False, ms_recoverySeq = 0, ms_lastEstablishAttempt = zero_time,
      ms_clientRegistered = False, ms_seq = 0, ms_registry = NewRegistry, ms_basis = [],
      ms_workspaces = newWorkspaceSet (mc_home cfg) fs launchDir, ms_files = fs, ms_faults = faults, ms_now = now, ms_calm = c\<rparr>"

section \<open>The basis registry\<close>

definition contentHash :: "(string \<Rightarrow> string) \<Rightarrow> string \<Rightarrow> string" where
  "contentHash sha s = hex_string (sha s)"

definition basis_record :: "(string \<Rightarrow> string) \<Rightarrow> string \<Rightarrow> string \<Rightarrow> string \<Rightarrow> bool \<Rightarrow> basis \<Rightarrow> basis" where
  "basis_record sha label path content unread b =
     (if label = [] then b
      else AList.update label \<lparr>be_path = path_clean path, be_hash = contentHash sha content, be_unread = unread\<rparr> b)"

definition basis_Unread :: "string \<Rightarrow> basis \<Rightarrow> bool" where
  "basis_Unread label b = (case map_of b label of Some e \<Rightarrow> be_unread e | None \<Rightarrow> False)"

definition basis_MarkRead :: "string \<Rightarrow> basis \<Rightarrow> basis" where
  "basis_MarkRead label b =
     (case map_of b label of
        Some e \<Rightarrow> if be_unread e then AList.update label (e\<lparr>be_unread := False\<rparr>) b else b
      | None \<Rightarrow> b)"

text \<open>Whether the basis is a capture of this file, and whether the file still has that content.\<close>

definition basis_Verify :: "(string \<Rightarrow> string) \<Rightarrow> string \<Rightarrow> string \<Rightarrow> string \<Rightarrow> basis \<Rightarrow> bool \<times> bool" where
  "basis_Verify sha label path current b =
     (if label = [] then (False, False)
      else case map_of b label of
             None \<Rightarrow> (False, False)
           | Some e \<Rightarrow> if be_path e \<noteq> path_clean path then (False, False) else (True, be_hash e = contentHash sha current))"

definition basis_Reset :: "basis \<Rightarrow> basis" where "basis_Reset b = []"

section \<open>The session\<close>

text \<open>Registration and creation; the attempt counter makes every key fresh.\<close>

definition attempt_key :: "'c mcp_config \<Rightarrow> int \<Rightarrow> string" where
  "attempt_key cfg n = (if mc_idemKey cfg = [] then [] else mc_idemKey cfg @ ''-r'' @ json_int n)"

definition registration :: "'c mcp_config \<Rightarrow> string \<Rightarrow> 'c mcp \<Rightarrow> signal option \<times> 'c mcp" where
  "registration cfg client s =
     (if ms_clientRegistered s then (None, s)
      else case api_RegisterClient (mc_api cfg) client (ms_calm s) of
             (Inr _, c) \<Rightarrow> (None, s\<lparr>ms_calm := c, ms_clientRegistered := True\<rparr>)
           | (Inl e, c) \<Rightarrow>
               if auth_rejected e then (Some auth_signal, s\<lparr>ms_calm := c, ms_authFailed := True\<rparr>)
               else (Some (unreachable_signal (error_text e)), s\<lparr>ms_calm := c\<rparr>))"

definition lazy_create :: "'c mcp_config \<Rightarrow> string \<Rightarrow> 'c mcp \<Rightarrow> (signal, string) result \<times> 'c mcp" where
  "lazy_create cfg client s =
     (let s1 = s\<lparr>ms_recoverySeq := ms_recoverySeq s + 1\<rparr> in
      case api_CreateSession (mc_api cfg) client (mc_ttlMinutes cfg) (attempt_key cfg (ms_recoverySeq s1)) (ms_calm s1) of
        (Inr token, c) \<Rightarrow>
          (Inr token, s1\<lparr>ms_calm := c, ms_session := token, ms_sessionClient := client,
                        ms_registry := Registry_Reset (ms_registry s1), ms_basis := basis_Reset (ms_basis s1)\<rparr>)
      | (Inl e, c) \<Rightarrow>
          if isStatus4xx e then (Inl auth_signal, s1\<lparr>ms_calm := c, ms_authFailed := True\<rparr>)
          else (Inl (unreachable_signal (error_text e)), s1\<lparr>ms_calm := c\<rparr>))"

definition ensureSession :: "'c mcp_config \<Rightarrow> 'c mcp \<Rightarrow> (signal, string) result \<times> 'c mcp" where
  "ensureSession cfg s =
     (if ms_authFailed s then (Inl auth_signal, s)
      else if ms_session s \<noteq> [] then (Inr (ms_session s), s)
      else if ms_now s - ms_lastEstablishAttempt s < establishRetryInterval then (Inl (unreachable_signal []), s)
      else let s1 = s\<lparr>ms_lastEstablishAttempt := ms_now s\<rparr>;
               client = (if ms_sessionClient s1 = [] then mc_defaultClient cfg else ms_sessionClient s1)
           in case registration cfg client s1 of
                (Some sig, s2) \<Rightarrow> (Inl sig, s2)
              | (None, s2) \<Rightarrow> lazy_create cfg client s2)"

definition recoverSession :: "'c mcp_config \<Rightarrow> string \<Rightarrow> 'c mcp \<Rightarrow> signal \<times> 'c mcp" where
  "recoverSession cfg failedToken s =
     (if ms_authFailed s then (auth_signal, s)
      else if ms_session s \<noteq> failedToken then (lost_signal, s)
      else let s1 = s\<lparr>ms_recoverySeq := ms_recoverySeq s + 1\<rparr> in
           case api_CreateSession (mc_api cfg) (ms_sessionClient s1) (mc_ttlMinutes cfg) (attempt_key cfg (ms_recoverySeq s1)) (ms_calm s1) of
             (Inr token, c) \<Rightarrow>
               (lost_signal, s1\<lparr>ms_calm := c, ms_session := token,
                               ms_registry := Registry_Reset (ms_registry s1), ms_basis := basis_Reset (ms_basis s1)\<rparr>)
           | (Inl e, c) \<Rightarrow>
               if isStatus4xx e then (auth_signal, s1\<lparr>ms_calm := c, ms_authFailed := True, ms_session := []\<rparr>)
               else (unreachable_signal (error_text e), s1\<lparr>ms_calm := c\<rparr>))"

definition sessionFailureSignal :: "'c mcp_config \<Rightarrow> string \<Rightarrow> calm_error \<Rightarrow> 'c mcp \<Rightarrow> signal option \<times> 'c mcp" where
  "sessionFailureSignal cfg failedToken e s =
     (if auth_rejected e then (Some auth_signal, s\<lparr>ms_authFailed := True, ms_session := []\<rparr>)
      else if session_not_found e then apfst Some (recoverSession cfg failedToken s)
      else (None, s))"

section \<open>The server as a shell of the engine\<close>

definition mcp_Ensure :: "'c mcp_config \<Rightarrow> 'c mcp \<Rightarrow> (signal, string \<times> int) result \<times> 'c mcp" where
  "mcp_Ensure cfg s =
     (case ensureSession cfg s of
        (Inl sig, s1) \<Rightarrow> (Inl sig, s1)
      | (Inr token, s1) \<Rightarrow> (Inr (token, ms_seq s1 + 1), s1\<lparr>ms_seq := ms_seq s1 + 1\<rparr>))"

definition mcp_Record :: "string \<Rightarrow> sourceToken list \<Rightarrow> 'c mcp \<Rightarrow> 'c mcp" where
  "mcp_Record token delta s =
     (if ms_session s \<noteq> token then s
      else s\<lparr>ms_registry := fold (\<lambda>d. Registry_Record (tk_Source d) (tk_Token d)) delta (ms_registry s)\<rparr>)"

text \<open>The write runs detached; its outcome is only logged. Here it takes place at once.\<close>

definition mcp_Enqueue :: "'c mcp_config \<Rightarrow> string \<Rightarrow> eventInput list \<Rightarrow> 'c mcp \<Rightarrow> 'c mcp" where
  "mcp_Enqueue cfg token events s =
     (if ms_session s \<noteq> token then s
      else s\<lparr>ms_calm := snd (api_WriteEvents (mc_api cfg) token events (ms_calm s))\<rparr>)"

definition mcp_shell :: "'c mcp_config \<Rightarrow> 'c mcp shell" where
  "mcp_shell cfg =
     \<lparr>sh_Ensure = mcp_Ensure cfg, sh_OnCallError = sessionFailureSignal cfg, sh_Record = mcp_Record, sh_Enqueue = mcp_Enqueue cfg,
      sh_Ingest = \<lambda>token i s. (case api_Ingest (mc_api cfg) token i (ms_calm s) of (r, c) \<Rightarrow> (r, s\<lparr>ms_calm := c\<rparr>))\<rparr>"

section \<open>Handshake and shutdown\<close>

definition codeMethodNotFound :: int where "codeMethodNotFound = - 32601"
definition codeInvalidParams :: int where "codeInvalidParams = - 32602"
definition codeParseError :: int where "codeParseError = - 32700"

definition defaultProtocolVersion :: string where "defaultProtocolVersion = ''2025-06-18''"

text \<open>The registration and the create of the handshake; neither failure breaks it.\<close>

definition initialize_session :: "'c mcp_config \<Rightarrow> string \<Rightarrow> 'c mcp \<Rightarrow> 'c mcp" where
  "initialize_session cfg client s =
     (if ms_session s \<noteq> [] then s
      else case api_RegisterClient (mc_api cfg) client (ms_calm s) of
             (rr, c1) \<Rightarrow>
               let s1 = s\<lparr>ms_calm := c1, ms_clientRegistered := (case rr of Inr _ \<Rightarrow> True | Inl _ \<Rightarrow> ms_clientRegistered s)\<rparr> in
               (case api_CreateSession (mc_api cfg) client (mc_ttlMinutes cfg) (mc_idemKey cfg) (ms_calm s1) of
                  (Inr token, c2) \<Rightarrow> s1\<lparr>ms_calm := c2, ms_session := token, ms_sessionClient := client\<rparr>
                | (Inl e, c2) \<Rightarrow>
                    if auth_rejected e then s1\<lparr>ms_calm := c2, ms_authFailed := True\<rparr>
                    else s1\<lparr>ms_calm := c2, ms_sessionClient := client, ms_lastEstablishAttempt := ms_now s1\<rparr>))"

text \<open>The parameters are None when they do not parse: the protocol version and the client's name.\<close>

definition handleInitialize :: "'c mcp_config \<Rightarrow> (string \<times> string) option \<Rightarrow> 'c mcp \<Rightarrow> (int \<times> string, string) result \<times> 'c mcp" where
  "handleInitialize cfg params s =
     (case params of
        None \<Rightarrow> (Inl (codeInvalidParams, ''invalid initialize params''), s)
      | Some (pv, name) \<Rightarrow>
          (Inr (if pv = [] then defaultProtocolVersion else pv),
           initialize_session cfg (if name = [] then mc_defaultClient cfg else name) s))"

definition shutdown :: "'c mcp_config \<Rightarrow> 'c mcp \<Rightarrow> 'c mcp" where
  "shutdown cfg s =
     (let token = ms_session s; s1 = s\<lparr>ms_session := []\<rparr> in
      if token = [] \<or> mc_keepSession cfg then s1
      else s1\<lparr>ms_calm := snd (api_DeleteSession (mc_api cfg) token (ms_calm s1))\<rparr>)"

section \<open>Tool results\<close>

record ToolResult =
  tr_Content :: "string list"
  tr_IsError :: bool

definition TextResult :: "string \<Rightarrow> bool \<Rightarrow> ToolResult" where
  "TextResult text isError = \<lparr>tr_Content = [text], tr_IsError = isError\<rparr>"

datatype tool_error = DegradedSignal signal | ArgError string

type_synonym tool_outcome = "ToolResult \<times> tool_error option"

definition arg_error :: "string \<Rightarrow> tool_outcome" where
  "arg_error detail = (\<lparr>tr_Content = [], tr_IsError = False\<rparr>, Some (ArgError detail))"

definition outcomeToResult :: "outcome \<Rightarrow> tool_outcome" where
  "outcomeToResult out =
     (TextResult (oc_Visible out) False,
      if oc_Reason out = [] then None else Some (DegradedSignal \<lparr>sg_Reason = oc_Reason out, sg_Detail = oc_Detail out\<rparr>))"

definition translateDegraded :: "ToolResult \<Rightarrow> signal \<Rightarrow> ToolResult" where
  "translateDegraded out sig =
     (let text = DegradedPhrase (sg_Reason sig)
            @ (if tr_Content out \<noteq> [] \<and> hd (tr_Content out) \<noteq> [] then [newline, newline] @ hd (tr_Content out) else [])
            @ (if sg_Detail sig \<noteq> [] then [newline, newline] @ ''[stderr]'' @ [newline] @ sg_Detail sig else [])
      in TextResult text (tr_IsError out))"

definition tool_answer :: "tool_outcome \<Rightarrow> ToolResult" where
  "tool_answer r =
     (case snd r of
        None \<Rightarrow> fst r
      | Some (DegradedSignal sig) \<Rightarrow> translateDegraded (fst r) sig
      | Some (ArgError detail) \<Rightarrow> TextResult (''invalid arguments: '' @ detail) True)"

text \<open>A degraded call still shows the local result.\<close>

lemma degraded_shows: "sublist text (hd (tr_Content (tool_answer (TextResult text e, d)))) \<or> (\<exists>x. d = Some (ArgError x))"
proof (cases d)
  case (Some x)
  show ?thesis
  proof (cases x)
    case (DegradedSignal sig)
    have m: "sublist text (p @ [newline, newline] @ text @ q)" for p q
      unfolding sublist_def by (intro exI [of _ "p @ [newline, newline]"] exI [of _ q]) simp
    have m0: "sublist text (p @ [newline, newline] @ text)" for p
      using m [of p "[]"] by (simp only: append_Nil2)
    show ?thesis
    proof (cases "text = []")
      case False
      then show ?thesis
        using Some DegradedSignal m m0
        by (simp add: tool_answer_def translateDegraded_def TextResult_def Let_def del: append.simps(2))
    qed simp
  qed (use Some in simp)
qed (simp add: tool_answer_def TextResult_def)

section \<open>The contract of the engine\<close>

lemma record_all:
  "\<forall>d\<in>set delta. tk_Source d \<noteq> [] \<and> tk_Token d \<noteq> [] \<Longrightarrow>
    fold (\<lambda>d. Registry_Record (tk_Source d) (tk_Token d)) delta r = record_delta delta r"
  by (induction delta arbitrary: r) (simp_all add: record_delta_def Registry_Record_def)

text \<open>
  What the engine leaves alone: the files, the pending faults, the workspaces and the clock; and
  the bases are those of before, or none when a new session was created.
\<close>

definition same_outside :: "'c mcp \<Rightarrow> 'c mcp \<Rightarrow> bool" where
  "same_outside s s' \<longleftrightarrow> ms_files s' = ms_files s \<and> ms_faults s' = ms_faults s \<and> ms_workspaces s' = ms_workspaces s
     \<and> ms_now s' = ms_now s \<and> (ms_basis s' = ms_basis s \<or> ms_basis s' = [])"

lemma same_outside_refl: "same_outside s s" by (simp add: same_outside_def)

lemma same_outside_trans: "same_outside a b \<Longrightarrow> same_outside b c \<Longrightarrow> same_outside a c"
  by (auto simp: same_outside_def)

lemma registration_frame:
  "registration cfg client s = (x, s') \<Longrightarrow> same_outside s s' \<and> ms_seq s' = ms_seq s \<and> (\<forall>sig. x = Some sig \<longrightarrow> sg_Reason sig \<noteq> [])"
  by (auto simp: registration_def same_outside_def auth_signal_def unreachable_signal_def reason_defs split: if_splits prod.splits sum.splits)

lemma lazy_create_frame:
  "lazy_create cfg client s = (x, s') \<Longrightarrow> same_outside s s' \<and> ms_seq s' = ms_seq s
    \<and> (\<forall>sig. x = Inl sig \<longrightarrow> sg_Reason sig \<noteq> []) \<and> (\<forall>token. x = Inr token \<longrightarrow> ms_session s' = token)"
  by (auto simp: lazy_create_def same_outside_def basis_Reset_def Let_def auth_signal_def unreachable_signal_def reason_defs
    split: if_splits prod.splits sum.splits)

lemma ensureSession_frame:
  assumes "ensureSession cfg s = (x, s')"
  shows "same_outside s s'" "ms_seq s' = ms_seq s" "x = Inl sig \<Longrightarrow> sg_Reason sig \<noteq> []" "x = Inr token \<Longrightarrow> ms_session s' = token"
proof -
  have "same_outside s s' \<and> ms_seq s' = ms_seq s \<and> (\<forall>sig. x = Inl sig \<longrightarrow> sg_Reason sig \<noteq> []) \<and> (\<forall>token. x = Inr token \<longrightarrow> ms_session s' = token)"
  proof (cases "ms_authFailed s \<or> ms_session s \<noteq> [] \<or> ms_now s - ms_lastEstablishAttempt s < establishRetryInterval")
    case True
    then show ?thesis
      using assms by (auto simp: ensureSession_def same_outside_refl auth_signal_def unreachable_signal_def reason_defs split: if_splits)
  next
    case False
    define s1 where "s1 = s\<lparr>ms_lastEstablishAttempt := ms_now s\<rparr>"
    define client where "client = (if ms_sessionClient s1 = [] then mc_defaultClient cfg else ms_sessionClient s1)"
    obtain y s2 where r: "registration cfg client s1 = (y, s2)" by fastforce
    have e: "(x, s') = (case y of Some sig \<Rightarrow> (Inl sig, s2) | None \<Rightarrow> lazy_create cfg client s2)"
      using assms [symmetric] False r unfolding ensureSession_def Let_def s1_def [symmetric] client_def [symmetric]
      by (simp split: option.splits)
    have f: "ms_seq s1 = ms_seq s" "same_outside s s1" by (simp_all add: s1_def same_outside_def)
    note t = same_outside_trans [OF f(2)] same_outside_trans
    show ?thesis
    proof (cases y)
      case None
      then show ?thesis using registration_frame [OF r] e f(1) lazy_create_frame [of cfg client s2 x s'] t by (metis option.case(1))
    next
      case (Some sig)
      then show ?thesis using registration_frame [OF r] e f(1) t by auto
    qed
  qed
  then show "same_outside s s'" "ms_seq s' = ms_seq s" "x = Inl sig \<Longrightarrow> sg_Reason sig \<noteq> []" "x = Inr token \<Longrightarrow> ms_session s' = token"
    by auto
qed

lemma recoverSession_frame:
  "ms_seq (snd (recoverSession cfg token s)) = ms_seq s" "same_outside s (snd (recoverSession cfg token s))"
proof -
  obtain r c where "api_CreateSession (mc_api cfg) (ms_sessionClient s) (mc_ttlMinutes cfg) (attempt_key cfg (ms_recoverySeq s + 1)) (ms_calm s) = (r, c)"
    by fastforce
  then show "ms_seq (snd (recoverSession cfg token s)) = ms_seq s" "same_outside s (snd (recoverSession cfg token s))"
    by (cases r; simp add: recoverSession_def same_outside_def basis_Reset_def Let_def)+
qed

lemma sessionFailureSignal_frame:
  "ms_seq (snd (sessionFailureSignal cfg token e s)) = ms_seq s" "same_outside s (snd (sessionFailureSignal cfg token e s))"
  by (simp_all add: sessionFailureSignal_def recoverSession_frame same_outside_refl) (simp add: same_outside_def)

lemma mcp_Ensure_frame:
  assumes "mcp_Ensure cfg s = (x, s')"
  shows "same_outside s s'" "x = Inl sig \<Longrightarrow> ms_seq s' = ms_seq s \<and> sg_Reason sig \<noteq> []"
    "x = Inr (token, n) \<Longrightarrow> ms_session s' = token \<and> n = ms_seq s + 1 \<and> ms_seq s' = n"
proof -
  obtain y s1 where e: "ensureSession cfg s = (y, s1)" by fastforce
  note f = ensureSession_frame [OF e]
  show "same_outside s s'"
    using assms f(1) by (cases y) (auto simp: mcp_Ensure_def e same_outside_def)
  show "x = Inl sig \<Longrightarrow> ms_seq s' = ms_seq s \<and> sg_Reason sig \<noteq> []" "x = Inr (token, n) \<Longrightarrow> ms_session s' = token \<and> n = ms_seq s + 1 \<and> ms_seq s' = n"
    using assms f(2-4) by (cases y; auto simp: mcp_Ensure_def e)+
qed

text \<open>The state \<open>s0\<close> is any state before; \<open>s0\<close> itself meets the invariant.\<close>

interpretation mcp: capture_shell "mcp_shell cfg" "same_outside s0" "\<lambda>s. Some (ms_session s)" ms_seq ms_registry "\<lambda>s. True"
  for cfg :: "'c mcp_config" and s0 :: "'c mcp"
proof unfold_locales
  fix s s' :: "'c mcp" and token n
  assume "same_outside s0 s" "sh_Ensure (mcp_shell cfg) s = (Inr (token, n), s')"
  then show "same_outside s0 s' \<and> Some (ms_session s') = Some token \<and> n = ms_seq s + 1 \<and> ms_seq s' = n \<and> (True \<longrightarrow> True)"
    using mcp_Ensure_frame [of cfg s "Inr (token, n)" s'] same_outside_trans by (auto simp: mcp_shell_def)
next
  fix s s' :: "'c mcp" and sig
  assume "same_outside s0 s" "sh_Ensure (mcp_shell cfg) s = (Inl sig, s')"
  then show "same_outside s0 s' \<and> ms_seq s' = ms_seq s \<and> sg_Reason sig \<noteq> []"
    using mcp_Ensure_frame [of cfg s "Inl sig" s'] same_outside_trans by (auto simp: mcp_shell_def)
next
  fix s s' :: "'c mcp" and token i r
  assume "same_outside s0 s" "sh_Ingest (mcp_shell cfg) token i s = (r, s')"
  then show "same_outside s0 s' \<and> Some (ms_session s') = Some (ms_session s) \<and> ms_seq s' = ms_seq s \<and> ms_registry s' = ms_registry s \<and> (True \<longrightarrow> True)"
    by (auto simp: mcp_shell_def same_outside_def split: prod.splits)
next
  fix s s' :: "'c mcp" and token e x
  assume i: "same_outside s0 s" and "sh_OnCallError (mcp_shell cfg) token e s = (x, s')"
  then have "s' = snd (sessionFailureSignal cfg token e s)" by (simp add: mcp_shell_def)
  then show "same_outside s0 s' \<and> ms_seq s' = ms_seq s"
    by (simp add: sessionFailureSignal_frame same_outside_trans [OF i])
qed (auto simp: mcp_shell_def mcp_Enqueue_def mcp_Record_def record_all same_outside_def)

text \<open>Hence a capture counts on, and only the bases may be gone.\<close>

lemmas mcp_capture_frame = mcp.capture_counts [OF same_outside_refl]

end
