(* ===== verification/Mcp_Files.thy ===== *)
theory Mcp_Files
  imports Mcp_Server
begin

text \<open>
  The tools that read and change files: read_file.go and edit_tools.go. An existing file is
  only changed under a basis, the label of a capture that this server made of that path and
  whose content the file still has. A handler takes the result of decoding its arguments and
  the random bytes of the token it may mint.
\<close>

section \<open>File operations\<close>

definition MaxOutputBytes :: nat where "MaxOutputBytes = 512 * 1024"

definition next_io :: "'c mcp \<Rightarrow> string option \<times> 'c mcp" where
  "next_io s = (case ms_faults s of [] \<Rightarrow> (None, s) | f # fs \<Rightarrow> (f, s\<lparr>ms_faults := fs\<rparr>))"

datatype stat_result = Absent string | StatFailed string | Found fnode

definition no_such :: "string \<Rightarrow> string \<Rightarrow> string" where
  "no_such call p = call @ '' '' @ p @ '': no such file or directory''"

definition os_Stat :: "string \<Rightarrow> 'c mcp \<Rightarrow> stat_result \<times> 'c mcp" where
  "os_Stat p s =
     (case next_io s of
        (Some e, s1) \<Rightarrow> (StatFailed e, s1)
      | (None, s1) \<Rightarrow> (case node p (ms_files s1) of None \<Rightarrow> Absent (no_such ''stat'' p) | Some n \<Rightarrow> Found n, s1))"

definition os_ReadFile :: "string \<Rightarrow> 'c mcp \<Rightarrow> (string, string) result \<times> 'c mcp" where
  "os_ReadFile p s =
     (case next_io s of
        (Some e, s1) \<Rightarrow> (Inl e, s1)
      | (None, s1) \<Rightarrow> (case node p (ms_files s1) of
            None \<Rightarrow> Inl (no_such ''open'' p)
          | Some n \<Rightarrow> if fn_isDir n then Inl (''read '' @ p @ '': is a directory'') else Inr (fn_content n), s1))"

definition readFull :: "string \<Rightarrow> 'c mcp \<Rightarrow> (string, string) result \<times> 'c mcp" where
  "readFull p s =
     (case os_ReadFile p s of
        (Inl e, s1) \<Rightarrow> (Inl e, s1)
      | (Inr b, s1) \<Rightarrow>
          (if length b > MaxOutputBytes
           then Inl (''file exceeds the '' @ itoa (MaxOutputBytes div 1024) @ ''KiB capture limit; use calm_run_command for out-of-band changes'')
           else Inr b, s1))"

definition readCapped :: "string \<Rightarrow> 'c mcp \<Rightarrow> (string, string \<times> bool) result \<times> 'c mcp" where
  "readCapped p s =
     (case os_ReadFile p s of
        (Inl e, s1) \<Rightarrow> (Inl e, s1)
      | (Inr b, s1) \<Rightarrow> (Inr (if length b > MaxOutputBytes then (take MaxOutputBytes b, True) else (b, False)), s1))"

text \<open>
  The temporary file in the directory of the target and the rename over it: all or nothing.
  The message of a missing directory leaves out the random part of the temporary name.
\<close>

definition atomicWriteFile :: "string \<Rightarrow> string \<Rightarrow> int \<Rightarrow> 'c mcp \<Rightarrow> string option \<times> 'c mcp" where
  "atomicWriteFile p content perm s =
     (case next_io s of
        (Some e, s1) \<Rightarrow> (Some e, s1)
      | (None, s1) \<Rightarrow>
          if \<not> is_dir (path_dir p) (ms_files s1) then (Some (no_such ''open'' (path_join (path_dir p) ''.calm-write-'')), s1)
          else if is_dir p (ms_files s1) then (Some (''rename '' @ p @ '': file exists''), s1)
          else (None, s1\<lparr>ms_files := AList.update (path_clean p) \<lparr>fn_isDir = False, fn_content = content, fn_perm = perm\<rparr> (ms_files s1)\<rparr>))"

section \<open>Occurrences\<close>

text \<open>\<open>strings.Count\<close> and \<open>strings.Replace\<close> for a text that is not empty.\<close>

function count_sub :: "string \<Rightarrow> string \<Rightarrow> nat" where
  "count_sub sub [] = 0"
| "count_sub sub (c # s) =
     (if has_prefix (c # s) sub then Suc (count_sub sub (drop (length sub - 1) s)) else count_sub sub s)"
  by pat_completeness auto
termination by (relation "measure (\<lambda>(_, s). length s)") auto

function replace_sub :: "string \<Rightarrow> string \<Rightarrow> nat \<Rightarrow> string \<Rightarrow> string" where
  "replace_sub old new k [] = []"
| "replace_sub old new k (c # s) =
     (if k = 0 then c # s
      else if has_prefix (c # s) old then new @ replace_sub old new (k - 1) (drop (length old - 1) s)
      else c # replace_sub old new k s)"
  by pat_completeness auto
termination by (relation "measure (\<lambda>(_, _, _, s). length s)") auto

text \<open>Replacing splits the text at that many occurrences and joins the parts anew.\<close>

lemma join_front: "ps \<noteq> [] \<Longrightarrow> join sep ((c # hd ps) # tl ps) = c # join sep ps"
  by (cases ps; cases "tl ps") simp_all

lemma has_prefix_split:
  assumes "has_prefix (c # s) old" "old \<noteq> []"
  shows "c # s = old @ drop (length old - 1) s"
proof -
  have "c # s = take (length old) (c # s) @ drop (length old) (c # s)" by simp
  also have "take (length old) (c # s) = old" using assms(1) by (simp add: has_prefix_def)
  finally show ?thesis using assms(2) by (cases old) simp_all
qed

lemma replace_parts:
  assumes "old \<noteq> []" "k \<le> count_sub old s"
  shows "\<exists>ps. length ps = Suc k \<and> join old ps = s \<and> join new ps = replace_sub old new k s"
  using assms
proof (induction old new k s rule: replace_sub.induct)
  case (1 old new k)
  then show ?case by (intro exI [of _ "[[]]"]) simp
next
  case (2 old new k c s)
  show ?case
  proof (cases "k = 0")
    case True
    then show ?thesis by (intro exI [of _ "[c # s]"]) simp
  next
    case k: False
    show ?thesis
    proof (cases "has_prefix (c # s) old")
      case True
      let ?t = "drop (length old - 1) s"
      have "k - 1 \<le> count_sub old ?t" using "2.prems"(2) True k by simp
      then obtain ps where ps: "length ps = Suc (k - 1)" "join old ps = ?t" "join new ps = replace_sub old new (k - 1) ?t"
        using "2.IH"(1) [OF k True "2.prems"(1)] by blast
      have ne: "ps \<noteq> []" using ps(1) by auto
      have "replace_sub old new k (c # s) = new @ replace_sub old new (k - 1) ?t" using k True by simp
      then have "join new ([] # ps) = replace_sub old new k (c # s)" using ps(3) by (simp add: join_Cons [OF ne])
      moreover have "join old ([] # ps) = c # s"
        using ps(2) has_prefix_split [OF True "2.prems"(1)] by (simp only: join_Cons [OF ne] append_Nil)
      ultimately show ?thesis using ps(1) k by (intro exI [of _ "[] # ps"]) simp
    next
      case False
      then obtain ps where ps: "length ps = Suc k" "join old ps = s" "join new ps = replace_sub old new k s"
        using "2.IH"(2) [OF k False "2.prems"(1)] "2.prems"(2) by auto
      have ne: "ps \<noteq> []" using ps(1) by auto
      show ?thesis
        using ps k False ne by (intro exI [of _ "(c # hd ps) # tl ps"]) (simp add: join_front)
    qed
  qed
qed

section \<open>Reading\<close>

definition split_after :: "string \<Rightarrow> string list" where
  "split_after s =
     (let ls = split_byte newline s in map (\<lambda>l. l @ [newline]) (butlast ls) @ [last ls])"

text \<open>Lines from 1; 0 stands for the beginning and for the end. None: the start is past the end.\<close>

definition sliceLines :: "string \<Rightarrow> int \<Rightarrow> int \<Rightarrow> string option" where
  "sliceLines content start end_line =
     (if start \<le> 1 \<and> end_line = 0 then Some content
      else let lines0 = split_after content;
               ls = (if lines0 \<noteq> [] \<and> last lines0 = [] then butlast lines0 else lines0);
               first = (if start = 0 then 1 else start)
           in if int (length ls) < first then None
              else let stop = (if end_line = 0 \<or> int (length ls) < end_line then int (length ls) else end_line)
                   in Some (concat (take (nat (stop - (first - 1))) (drop (nat (first - 1)) ls))))"

lemma split_after_concat: "concat (split_after s) = s"
proof -
  have "concat (map (\<lambda>l. l @ [c]) (butlast ls)) @ last ls = join [c] ls" if "ls \<noteq> []" for ls :: "string list" and c
    using that
  proof (induction ls)
    case (Cons l ls)
    then show ?case by (cases "ls = []") (simp_all add: join_Cons)
  qed simp
  from this [OF split_byte_not_Nil, of newline newline s] show ?thesis
    by (simp add: split_after_def Let_def join_split)
qed

text \<open>A slice is a part of the file.\<close>

lemma sliceLines_part: "sliceLines content start end_line = Some v \<Longrightarrow> sublist v content"
proof -
  assume s: "sliceLines content start end_line = Some v"
  define ls where "ls = (if split_after content \<noteq> [] \<and> last (split_after content) = [] then butlast (split_after content) else split_after content)"
  have "concat ls = content"
  proof (cases "split_after content \<noteq> [] \<and> last (split_after content) = []")
    case True
    then have "split_after content = ls @ [[]]" by (metis ls_def append_butlast_last_id)
    then show ?thesis using split_after_concat [of content] by simp
  next
    case False
    then have "ls = split_after content" unfolding ls_def by (rule if_not_P)
    then show ?thesis by (simp add: split_after_concat)
  qed
  moreover have "sublist (concat (take n (drop k ls))) (concat ls)" for n k
  proof -
    have "concat ls = concat (take k ls) @ concat (take n (drop k ls)) @ concat (drop n (drop k ls))"
      by (metis append_take_drop_id concat_append)
    then show ?thesis by (metis sublist_appendI)
  qed
  moreover have "v = content \<or> (\<exists>n k. v = concat (take n (drop k ls)))"
    using s unfolding sliceLines_def Let_def ls_def [symmetric] by (metis option.inject option.distinct(1))
  ultimately show "sublist v content" by auto
qed

record readFileArgs =
  rf_Path :: string
  rf_StartLine :: int
  rf_EndLine :: int
  rf_Workspace :: string

definition execResultOf :: "exec_result \<Rightarrow> ExecResult" where
  "execResultOf r = \<lparr>ex_Stderr = rs_Stderr r, ex_ExitCode = rs_ExitCode r, ex_TimedOut = rs_TimedOut r\<rparr>"

definition stdout_result :: "string \<Rightarrow> bool \<Rightarrow> exec_result" where
  "stdout_result s truncated = \<lparr>rs_Stdout = s, rs_Stderr = [], rs_ExitCode = 0, rs_TimedOut = False, rs_Truncated = truncated\<rparr>"

definition toolNameSearch :: string where "toolNameSearch = ''calm_search''"

definition mcp_capture :: "'c mcp_config \<Rightarrow> string \<Rightarrow> spec \<Rightarrow> 'c mcp \<Rightarrow> outcome \<times> 'c mcp" where
  "mcp_capture cfg rnd sp s = Capture (mc_quote cfg) \<lparr>po_recall = toolNameSearch, po_card = None\<rparr> (mcp_shell cfg) rnd sp s"

text \<open>The workspace of a path argument.\<close>

definition server_workspace :: "'c mcp_config \<Rightarrow> string \<Rightarrow> string \<Rightarrow> 'c mcp \<Rightarrow> (string, WorkspaceBinding) result \<times> 'c mcp" where
  "server_workspace cfg i path s =
     (case workspaceForPath (mc_sha cfg) (mc_home cfg) (ms_files s) i path (ms_workspaces s) of
        (r, w) \<Rightarrow> (r, s\<lparr>ms_workspaces := w\<rparr>))"

definition bare_invocation :: "'c mcp \<Rightarrow> WorkspaceBinding \<Rightarrow> int \<Rightarrow> invocation" where
  "bare_invocation s wb n = mcp_invocation n (ms_workspaces s) wb [] (wb_Root wb)"

definition count_byte :: "char \<Rightarrow> string \<Rightarrow> nat" where
  "count_byte c s = length (filter (\<lambda>x. x = c) s)"

definition read_capture :: "'c mcp_config \<Rightarrow> string \<Rightarrow> readFileArgs \<Rightarrow> WorkspaceBinding \<Rightarrow> string \<Rightarrow> string \<Rightarrow> bool \<Rightarrow> string \<Rightarrow> 'c mcp
    \<Rightarrow> tool_outcome \<times> 'c mcp" where
  "read_capture cfg rnd a wb p full truncated visible s =
     (let r = stdout_result full truncated in
      case mcp_capture cfg rnd
        \<lparr>sp_Ingest = full, sp_Visible = visible, sp_Res = r, sp_RangedView = (0 < rf_StartLine a \<or> 0 < rf_EndLine a),
         sp_Plan = \<lambda>n. Some (PlanFileRead (mc_sha cfg) (mc_lower cfg) (bare_invocation s wb n) (execResultOf r) (rf_Path a))\<rparr> s of
        (out, s1) \<Rightarrow>
          (outcomeToResult out,
           if truncated then s1 else s1\<lparr>ms_basis := basis_record (mc_sha cfg) (oc_Label out) p full False (ms_basis s1)\<rparr>))"

definition readFile :: "'c mcp_config \<Rightarrow> string \<Rightarrow> (string, readFileArgs) result \<Rightarrow> 'c mcp \<Rightarrow> tool_outcome \<times> 'c mcp" where
  "readFile cfg rnd input s =
     (case input of
        Inl e \<Rightarrow> (arg_error e, s)
      | Inr a \<Rightarrow>
          if blank (rf_Path a) then (arg_error ''path is required'', s)
          else if rf_StartLine a < 0 \<or> rf_EndLine a < 0 then (arg_error ''start_line/end_line must be positive'', s)
          else if 0 < rf_StartLine a \<and> 0 < rf_EndLine a \<and> rf_EndLine a < rf_StartLine a
          then (arg_error (''end_line '' @ json_int (rf_EndLine a) @ '' is before start_line '' @ json_int (rf_StartLine a)), s)
          else case server_workspace cfg (rf_Workspace a) (rf_Path a) s of
                 (Inl e, s1) \<Rightarrow> (arg_error e, s1)
               | (Inr wb, s1) \<Rightarrow>
                   let p = wb_resolve wb (rf_Path a) in
                   (case readCapped p s1 of
                      (Inl e, s2) \<Rightarrow> ((TextResult (''read failed: '' @ e) True, None), s2)
                    | (Inr (full, truncated), s2) \<Rightarrow>
                        (case sliceLines full (rf_StartLine a) (rf_EndLine a) of
                           None \<Rightarrow> ((TextResult (''read failed: start_line '' @ json_int (rf_StartLine a)
                               @ '' is past the end of the file ('' @ itoa (count_byte newline full + 1) @ '' lines)'') True, None), s2)
                         | Some visible \<Rightarrow> read_capture cfg rnd a wb p full truncated visible s2)))"

section \<open>The basis of a mutation\<close>

record basisVerdict =
  bv_ok :: bool
  bv_state :: string
  bv_cause :: string

definition verifyBasis :: "'c mcp_config \<Rightarrow> string \<Rightarrow> string \<Rightarrow> string \<Rightarrow> string \<Rightarrow> 'c mcp \<Rightarrow> basisVerdict" where
  "verifyBasis cfg b p current missingCause s =
     (if blank b then \<lparr>bv_ok = False, bv_state = ''missing'', bv_cause = missingCause\<rparr>
      else case basis_Verify (mc_sha cfg) b p current (ms_basis s) of
             (known, fresh) \<Rightarrow>
               if \<not> known then \<lparr>bv_ok = False, bv_state = ''unknown'', bv_cause = ''basis '' @ b @ '' is not a capture this session recorded for this file''\<rparr>
               else if \<not> fresh then \<lparr>bv_ok = False, bv_state = ''stale'', bv_cause = ''the file changed since basis '' @ b\<rparr>
               else \<lparr>bv_ok = True, bv_state = [], bv_cause = []\<rparr>)"

definition lineCount :: "string \<Rightarrow> nat" where
  "lineCount s = (if s = [] then 0 else count_byte newline s + (if has_suffix s [newline] then 0 else 1))"

definition writeBasisLine :: "string \<Rightarrow> string \<Rightarrow> string" where
  "writeBasisLine label guidance =
     (if label = []
      then ''Capture is degraded, so no basis label was minted; calm_edit_file and calm_write_file on this file are rejected until capture recovers ''
        @ em_dash @ '' use the host'' @ [CHR 0x27] @ ''s native edit tools in the meantime.''
      else ''basis='' @ label @ '' '' @ em_dash @ '' '' @ guidance @ '' '' @ toolNameSearch @ '' source='' @ label)"

definition mutationResult :: "ToolResult \<Rightarrow> outcome \<Rightarrow> tool_outcome" where
  "mutationResult res out =
     (res, if oc_Reason out = [] then None else Some (DegradedSignal \<lparr>sg_Reason = oc_Reason out, sg_Detail = oc_Detail out\<rparr>))"

definition confirmMutation :: "'c mcp_config \<Rightarrow> string \<Rightarrow> string \<Rightarrow> string \<Rightarrow> string \<Rightarrow> string \<Rightarrow> string \<Rightarrow> spec \<Rightarrow> 'c mcp
    \<Rightarrow> tool_outcome \<times> 'c mcp" where
  "confirmMutation cfg rnd verb detail path p content sp s =
     (case mcp_capture cfg rnd sp s of
        (out, s1) \<Rightarrow>
          (mutationResult (TextResult
             (verb @ '' '' @ path @ '' ('' @ itoa (length content) @ '' bytes)'' @ (if detail \<noteq> [] then '', '' @ detail else []) @ ''.'' @ [newline]
              @ writeBasisLine (oc_Label out) ''pass this as basis for the next edit or write of this file; read the new content with'') False) out,
           s1\<lparr>ms_basis := basis_record (mc_sha cfg) (oc_Label out) p content False (ms_basis s1)\<rparr>))"

definition rejectMutation :: "'c mcp_config \<Rightarrow> string \<Rightarrow> string \<Rightarrow> WorkspaceBinding \<Rightarrow> string \<Rightarrow> string \<Rightarrow> string \<Rightarrow> basisVerdict \<Rightarrow> 'c mcp
    \<Rightarrow> tool_outcome \<times> 'c mcp" where
  "rejectMutation cfg rnd verb wb path p current v s =
     (let r = stdout_result current False in
      case mcp_capture cfg rnd
        \<lparr>sp_Ingest = current, sp_Visible = current, sp_Res = r, sp_RangedView = False,
         sp_Plan = \<lambda>n. Some (PlanFileRead (mc_sha cfg) (mc_lower cfg) (bare_invocation s wb n) (execResultOf r) path)\<rparr> s of
        (out, s1) \<Rightarrow>
          (mutationResult (TextResult
             (verb @ '' rejected: '' @ bv_cause v @ ''. '' @ path @ '' is unchanged.'' @ [newline]
              @ ''Current state: '' @ itoa (length current) @ '' bytes, '' @ itoa (lineCount current) @ '' lines.'' @ [newline]
              @ (if verb = ''write''
                 then writeBasisLine (oc_Label out) ''read the current content with''
                   @ (if oc_Label out \<noteq> [] then '', then retry with this basis '' @ em_dash @ '' an unread rejection basis does not authorize an overwrite'' else [])
                 else writeBasisLine (oc_Label out) (''retry with this basis '' @ em_dash
                   @ '' the edit lands only where your old text still matches; to see what changed first, read it with''))) True) out,
           s1\<lparr>ms_basis := basis_record (mc_sha cfg) (oc_Label out) p current True (ms_basis s1)\<rparr>))"

definition failed :: "string \<Rightarrow> 'c mcp \<Rightarrow> tool_outcome \<times> 'c mcp" where
  "failed text s = ((TextResult text True, None), s)"

definition oversizeMsg :: "string \<Rightarrow> string" where
  "oversizeMsg verb = verb @ '' failed: content exceeds the '' @ itoa (MaxOutputBytes div 1024)
     @ ''KiB capture limit; use calm_run_command for out-of-band changes''"

section \<open>Editing and writing\<close>

record editFileArgs =
  ed_Path :: string
  ed_Basis :: string
  ed_OldString :: string
  ed_NewString :: string
  ed_ReplaceAll :: bool
  ed_Workspace :: string

text \<open>The edit of a file with content \<open>old\<close> under a basis that holds.\<close>

definition apply_edit :: "'c mcp_config \<Rightarrow> string \<Rightarrow> editFileArgs \<Rightarrow> WorkspaceBinding \<Rightarrow> string \<Rightarrow> int \<Rightarrow> string \<Rightarrow> 'c mcp
    \<Rightarrow> tool_outcome \<times> 'c mcp" where
  "apply_edit cfg rnd a wb p perm old s =
     (let n = count_sub (ed_OldString a) old in
      if n = 0
      then failed (''edit failed: old_string matches '' @ itoa n @ '' times; it must appear in the file '' @ em_dash
             @ '' check the exact bytes, including whitespace and line endings'') s
      else if 1 < n \<and> \<not> ed_ReplaceAll a
      then failed (''edit failed: old_string matches '' @ itoa n @ '' times; it must match exactly once '' @ em_dash
             @ '' add surrounding context to make it unique, or set replace_all=true to replace every occurrence'') s
      else let limit = (if ed_ReplaceAll a then n else 1);
               detail = (if ed_ReplaceAll a then ''replaced '' @ itoa n @ '' '' @ plural n ''occurrence'' ''occurrences'' else []);
               new = replace_sub (ed_OldString a) (ed_NewString a) limit old
           in if length new > MaxOutputBytes then failed (oversizeMsg ''edit'') s
              else case atomicWriteFile p new perm s of
                     (Some e, s1) \<Rightarrow> failed (''edit failed: '' @ e) s1
                   | (None, s1) \<Rightarrow>
                       let r = stdout_result new False in
                       confirmMutation cfg rnd ''edited'' detail (ed_Path a) p new
                         \<lparr>sp_Ingest = new, sp_Visible = new, sp_Res = r, sp_RangedView = False,
                          sp_Plan = \<lambda>n. Some (PlanFileEdit (mc_sha cfg) (mc_lower cfg) (mc_unified cfg) (bare_invocation s1 wb n)
                            (execResultOf r) (ed_Path a) old new)\<rparr> s1)"

definition editFile :: "'c mcp_config \<Rightarrow> string \<Rightarrow> (string, editFileArgs) result \<Rightarrow> 'c mcp \<Rightarrow> tool_outcome \<times> 'c mcp" where
  "editFile cfg rnd input s =
     (case input of
        Inl e \<Rightarrow> (arg_error e, s)
      | Inr a \<Rightarrow>
          if blank (ed_Path a) then (arg_error ''path is required'', s)
          else if ed_OldString a = [] then (arg_error ''old_string is required; use calm_write_file for full rewrites'', s)
          else if ed_OldString a = ed_NewString a
          then (arg_error (''old_string and new_string are identical '' @ em_dash @ '' nothing to change''), s)
          else case server_workspace cfg (ed_Workspace a) (ed_Path a) s of
                 (Inl e, s1) \<Rightarrow> (arg_error e, s1)
               | (Inr wb, s1) \<Rightarrow>
                   let p = wb_resolve wb (ed_Path a) in
                   (case os_Stat p s1 of
                      (Absent e, s2) \<Rightarrow> failed (''edit failed: '' @ e) s2
                    | (StatFailed e, s2) \<Rightarrow> failed (''edit failed: '' @ e) s2
                    | (Found n, s2) \<Rightarrow>
                        if fn_isDir n then failed (''edit failed: '' @ ed_Path a @ '' is a directory'') s2
                        else case readFull p s2 of
                               (Inl e, s3) \<Rightarrow> failed (''edit failed: '' @ e) s3
                             | (Inr old, s3) \<Rightarrow>
                                 let v = verifyBasis cfg (ed_Basis a) p old ''no basis was supplied'' s3 in
                                 if \<not> bv_ok v then rejectMutation cfg rnd ''edit'' wb (ed_Path a) p old v s3
                                 else apply_edit cfg rnd a wb p (fn_perm n) old s3))"

record writeFileArgs =
  wr_Path :: string
  wr_Content :: string
  wr_Basis :: string
  wr_Workspace :: string

definition apply_write :: "'c mcp_config \<Rightarrow> string \<Rightarrow> writeFileArgs \<Rightarrow> WorkspaceBinding \<Rightarrow> string \<Rightarrow> int \<Rightarrow> FileOperation \<Rightarrow> string \<Rightarrow> string
    \<Rightarrow> 'c mcp \<Rightarrow> tool_outcome \<times> 'c mcp" where
  "apply_write cfg rnd a wb p perm op_kind verb old s =
     (case atomicWriteFile p (wr_Content a) perm s of
        (Some e, s1) \<Rightarrow> failed (''write failed: '' @ e) s1
      | (None, s1) \<Rightarrow>
          let r = stdout_result (wr_Content a) False in
          confirmMutation cfg rnd verb [] (wr_Path a) p (wr_Content a)
            \<lparr>sp_Ingest = wr_Content a, sp_Visible = wr_Content a, sp_Res = r, sp_RangedView = False,
             sp_Plan = \<lambda>n. Some (PlanFileWrite (mc_sha cfg) (mc_lower cfg) (mc_unified cfg) (bare_invocation s1 wb n)
               (execResultOf r) (wr_Path a) op_kind old (wr_Content a))\<rparr> s1)"

definition writeFile :: "'c mcp_config \<Rightarrow> string \<Rightarrow> (string, writeFileArgs) result \<Rightarrow> 'c mcp \<Rightarrow> tool_outcome \<times> 'c mcp" where
  "writeFile cfg rnd input s =
     (case input of
        Inl e \<Rightarrow> (arg_error e, s)
      | Inr a \<Rightarrow>
          if blank (wr_Path a) then (arg_error ''path is required'', s)
          else if length (wr_Content a) > MaxOutputBytes then failed (oversizeMsg ''write'') s
          else case server_workspace cfg (wr_Workspace a) (wr_Path a) s of
                 (Inl e, s1) \<Rightarrow> (arg_error e, s1)
               | (Inr wb, s1) \<Rightarrow>
                   let p = wb_resolve wb (wr_Path a) in
                   (case os_Stat p s1 of
                      (Absent e, s2) \<Rightarrow>
                        if \<not> blank (wr_Basis a)
                        then failed (''write rejected: the file was deleted since basis '' @ wr_Basis a @ ''. '' @ wr_Path a
                               @ '' does not exist. To create it fresh, retry without basis.'') s2
                        else apply_write cfg rnd a wb p 384 OperationCreate ''created'' [] s2
                    | (StatFailed e, s2) \<Rightarrow> failed (''write failed: '' @ e) s2
                    | (Found n, s2) \<Rightarrow>
                        if fn_isDir n then failed (''write failed: '' @ wr_Path a @ '' is a directory'') s2
                        else case readFull p s2 of
                               (Inl e, s3) \<Rightarrow> failed (''write failed: '' @ e) s3
                             | (Inr old, s3) \<Rightarrow>
                                 let v = verifyBasis cfg (wr_Basis a) p old ''no basis was supplied and the file already exists'' s3 in
                                 if \<not> bv_ok v then rejectMutation cfg rnd ''write'' wb (wr_Path a) p old v s3
                                 else if basis_Unread (wr_Basis a) (ms_basis s3)
                                 then failed (''write rejected: basis '' @ wr_Basis a
                                        @ '' was issued by a rejection and its content has not been read. Read it first '' @ em_dash @ '' ''
                                        @ toolNameSearch @ '' source='' @ wr_Basis a @ '' '' @ em_dash @ '' then retry with the same basis.'') s3
                                 else apply_write cfg rnd a wb p (fn_perm n) OperationWrite ''wrote'' old s3))"

end
