(* ===== verification/Mcp_Tools.thy ===== *)
theory Mcp_Tools
  imports Mcp_Files
begin

text \<open>
  The tools that inspect and run: search.go, list_dir.go, grep_tool.go, git_inspect.go and
  run_command.go, with the process results of internal/adapter/exec. What a process does is a
  parameter \<open>run\<close>: from the argument vector, the directory and the files it gives what the
  process wrote, how it ended, and the files it left.
\<close>

section \<open>Processes\<close>

text \<open>A buffer keeps the first bytes of what is written to it.\<close>

record cappedBuffer =
  cb_buf :: string
  cb_truncated :: bool

definition cappedBuffer_Write :: "string \<Rightarrow> cappedBuffer \<Rightarrow> cappedBuffer" where
  "cappedBuffer_Write p c =
     (let remaining = MaxOutputBytes - length (cb_buf c) in
      if 0 < remaining
      then if length p > remaining then \<lparr>cb_buf = cb_buf c @ take remaining p, cb_truncated = True\<rparr>
           else c\<lparr>cb_buf := cb_buf c @ p\<rparr>
      else if 0 < length p then c\<lparr>cb_truncated := True\<rparr> else c)"

definition capped :: "string list \<Rightarrow> cappedBuffer" where
  "capped ws = fold cappedBuffer_Write ws \<lparr>cb_buf = [], cb_truncated = False\<rparr>"

lemma capped_all:
  "cb_buf (capped ws) = take MaxOutputBytes (concat ws) \<and> (cb_truncated (capped ws) \<longleftrightarrow> length (concat ws) > MaxOutputBytes)"
proof (induction ws rule: rev_induct)
  case Nil
  then show ?case by (simp add: capped_def)
next
  case (snoc w ws)
  have "capped (ws @ [w]) = cappedBuffer_Write w (capped ws)" by (simp add: capped_def)
  then show ?case
    using snoc.IH by (cases "length (concat ws) < MaxOutputBytes") (auto simp: cappedBuffer_Write_def Let_def)
qed

datatype ended = Finished | ExitError int | OtherError string

record process =
  pr_stdout :: "string list"
  pr_stderr :: "string list"
  pr_end :: ended
  pr_deadline :: bool

type_synonym runner = "string list \<Rightarrow> string \<Rightarrow> files \<Rightarrow> process \<times> files"

definition runCmd :: "process \<Rightarrow> (string, exec_result) result" where
  "runCmd pr =
     (let out = capped (pr_stdout pr); err = capped (pr_stderr pr);
          res = \<lparr>rs_Stdout = cb_buf out, rs_Stderr = cb_buf err, rs_ExitCode = 0, rs_TimedOut = pr_deadline pr,
                 rs_Truncated = (cb_truncated out \<or> cb_truncated err)\<rparr>
      in case pr_end pr of
           Finished \<Rightarrow> Inr res
         | ExitError n \<Rightarrow> Inr (res\<lparr>rs_ExitCode := n\<rparr>)
         | OtherError e \<Rightarrow> if pr_deadline pr then Inr (res\<lparr>rs_ExitCode := - 1\<rparr>) else Inl e)"

definition shellArgv :: "string \<Rightarrow> string list" where
  "shellArgv command = [''sh'', ''-c'', command]"

definition run_argv :: "runner \<Rightarrow> string list \<Rightarrow> string \<Rightarrow> 'c mcp \<Rightarrow> (string, exec_result) result \<times> 'c mcp" where
  "run_argv run argv dir s =
     (case run argv dir (ms_files s) of (pr, fs) \<Rightarrow> (runCmd pr, s\<lparr>ms_files := fs\<rparr>))"

section \<open>Running and inspecting\<close>

text \<open>The capture of a finished command under a plan.\<close>

definition capture_run :: "'c mcp_config \<Rightarrow> string \<Rightarrow> exec_result \<Rightarrow> (int \<Rightarrow> plan option) \<Rightarrow> 'c mcp \<Rightarrow> tool_outcome \<times> 'c mcp" where
  "capture_run cfg rnd r plan_for s =
     apfst outcomeToResult (mcp_capture cfg rnd
       \<lparr>sp_Ingest = CommandPayload r, sp_Visible = CommandPayload r, sp_Res = r, sp_RangedView = False, sp_Plan = plan_for\<rparr> s)"

record runCommandArgs =
  rc_Command :: string
  rc_Cwd :: string

definition runCommand :: "'c mcp_config \<Rightarrow> runner \<Rightarrow> string \<Rightarrow> (string, runCommandArgs) result \<Rightarrow> 'c mcp \<Rightarrow> tool_outcome \<times> 'c mcp" where
  "runCommand cfg run rnd input s =
     (case input of
        Inl e \<Rightarrow> (arg_error e, s)
      | Inr a \<Rightarrow>
          if blank (rc_Command a) then (arg_error ''command is required'', s)
          else case workspaceForCwd (mc_sha cfg) (mc_home cfg) (ms_files s) (rc_Cwd a) (ms_workspaces s) of
                 ((wb, dir), w) \<Rightarrow>
                   (case run_argv run (shellArgv (rc_Command a)) dir (s\<lparr>ms_workspaces := w\<rparr>) of
                      (Inl e, s1) \<Rightarrow> failed (''failed to run command: '' @ e) s1
                    | (Inr r, s1) \<Rightarrow>
                        capture_run cfg rnd r
                          (\<lambda>n. DerivePlan (mc_sha cfg) (mc_lower cfg) (mc_goos cfg) (mcp_invocation n (ms_workspaces s1) wb (rc_Command a) dir) (execResultOf r))
                          s1))"

record listDirArgs =
  ld_Path :: string
  ld_Workspace :: string

text \<open>The entries of a directory in order of their names, as \<open>os.ReadDir\<close> returns them.\<close>

definition dir_entries :: "string \<Rightarrow> files \<Rightarrow> (string \<times> bool) list" where
  "dir_entries p fs =
     stable_sort (\<lambda>a b. str_less (fst a) (fst b))
       (map (\<lambda>(q, n). (path_base q, fn_isDir n)) (filter (\<lambda>(q, n). path_dir q = path_clean p \<and> q \<noteq> path_clean p) fs))"

definition os_ReadDir :: "string \<Rightarrow> 'c mcp \<Rightarrow> (string, (string \<times> bool) list) result \<times> 'c mcp" where
  "os_ReadDir p s =
     (case next_io s of
        (Some e, s1) \<Rightarrow> (Inl e, s1)
      | (None, s1) \<Rightarrow> (case node p (ms_files s1) of
            None \<Rightarrow> Inl (no_such ''open'' p)
          | Some n \<Rightarrow> if fn_isDir n then Inr (dir_entries p (ms_files s1)) else Inl (''fdopendir '' @ p @ '': not a directory''), s1))"

definition listDir :: "'c mcp_config \<Rightarrow> string \<Rightarrow> (string, listDirArgs) result \<Rightarrow> 'c mcp \<Rightarrow> tool_outcome \<times> 'c mcp" where
  "listDir cfg rnd input s =
     (case input of
        Inl e \<Rightarrow> (arg_error e, s)
      | Inr a \<Rightarrow>
          (case server_workspace cfg (ld_Workspace a) (ld_Path a) s of
             (Inl e, s1) \<Rightarrow> (arg_error e, s1)
           | (Inr wb, s1) \<Rightarrow>
               (case os_ReadDir (wb_resolve wb (if ld_Path a = [] then ''.'' else ld_Path a)) s1 of
                  (Inl e, s2) \<Rightarrow> failed (''list failed: '' @ e) s2
                | (Inr es, s2) \<Rightarrow>
                    let listing = concat (map (\<lambda>(name, d). name @ (if d then ''/'' else []) @ [newline]) es);
                        r = stdout_result listing False
                    in apfst outcomeToResult (mcp_capture cfg rnd
                         \<lparr>sp_Ingest = listing, sp_Visible = listing, sp_Res = r, sp_RangedView = False,
                          sp_Plan = \<lambda>n. Some (PlanListDir (mc_sha cfg) (bare_invocation s2 wb n) (execResultOf r) (ld_Path a))\<rparr> s2))))"

record grepArgs =
  gr_Pattern :: string
  gr_Paths :: "string list"
  gr_CaseInsensitive :: bool
  gr_Include :: string
  gr_Workspace :: string

definition findstrFilespecs :: "string list \<Rightarrow> string \<Rightarrow> (string \<Rightarrow> bool) \<Rightarrow> string list \<times> bool" where
  "findstrFilespecs paths include isDir =
     (let glob = (if include = [] then ''*'' else include) in
      (map (\<lambda>p. if p = ''.'' then glob
                else if isDir p then (if has_suffix p ''/'' then butlast p else p) @ [backslash] @ glob
                else p) paths,
       list_ex (\<lambda>p. p = ''.'' \<or> isDir p) paths))"

definition grepArgv :: "string \<Rightarrow> string \<Rightarrow> string list \<Rightarrow> bool \<Rightarrow> string \<Rightarrow> (string \<Rightarrow> bool) \<Rightarrow> string list" where
  "grepArgv engine pattern paths caseInsensitive include isDir =
     (if engine = ''findstr''
      then case findstrFilespecs paths include isDir of
             (specs, recurse) \<Rightarrow>
               ''findstr'' # (if recurse then [''/S''] else []) @ [''/N'', ''/R''] @ (if caseInsensitive then [''/I''] else [])
                 @ (''/C:'' @ pattern) # specs
      else (if engine = ''rg''
            then [''rg'', ''-n'', ''--no-heading''] @ (if caseInsensitive then [''-i''] else []) @ (if include \<noteq> [] then [''-g'', include] else [])
            else [''grep'', ''-rn''] @ (if caseInsensitive then [''-i''] else []) @ (if include \<noteq> [] then [''--include='' @ include] else []))
           @ [''--'', pattern] @ paths)"

text \<open>No match is a result: exit code 1 without output is replaced by a notice.\<close>

definition normalize_grep :: "exec_result \<Rightarrow> exec_result" where
  "normalize_grep r =
     (if rs_ExitCode r = 1 \<and> blank (rs_Stdout r) \<and> blank (rs_Stderr r) then stdout_result (''(no matches)'' @ [newline]) False else r)"

definition grep :: "'c mcp_config \<Rightarrow> string \<Rightarrow> runner \<Rightarrow> string \<Rightarrow> (string, grepArgs) result \<Rightarrow> 'c mcp \<Rightarrow> tool_outcome \<times> 'c mcp" where
  "grep cfg engine run rnd input s =
     (case input of
        Inl e \<Rightarrow> (arg_error e, s)
      | Inr a \<Rightarrow>
          if blank (gr_Pattern a) then (arg_error ''pattern is required'', s)
          else let paths = (if gr_Paths a = [] then [''.''] else gr_Paths a) in
               if list_ex blank paths then (arg_error ''paths entries must be non-blank'', s)
               else case server_workspace cfg (gr_Workspace a) (hd paths) s of
                      (Inl e, s1) \<Rightarrow> (arg_error e, s1)
                    | (Inr wb, s1) \<Rightarrow>
                        (case run_argv run (grepArgv engine (gr_Pattern a) paths (gr_CaseInsensitive a) (gr_Include a)
                                (\<lambda>p. is_dir (wb_resolve wb p) (ms_files s1))) (wb_Root wb) s1 of
                           (Inl e, s2) \<Rightarrow> failed (''failed to run '' @ engine @ '': '' @ e) s2
                         | (Inr r, s2) \<Rightarrow>
                             let r = normalize_grep r in
                             capture_run cfg rnd r
                               (\<lambda>n. Some (PlanGrep (mc_sha cfg) (bare_invocation s2 wb n) (execResultOf r) (gr_Pattern a) paths)) s2))"

definition runGitInspect :: "'c mcp_config \<Rightarrow> runner \<Rightarrow> string \<Rightarrow> WorkspaceBinding \<Rightarrow> string list
    \<Rightarrow> (exec_result \<Rightarrow> workspaceSet \<Rightarrow> int \<Rightarrow> plan option) \<Rightarrow> 'c mcp \<Rightarrow> tool_outcome \<times> 'c mcp" where
  "runGitInspect cfg run rnd wb argv planFor s =
     (case run_argv run argv (wb_Root wb) s of
        (Inl e, s1) \<Rightarrow> failed (''failed to run git: '' @ e) s1
      | (Inr r, s1) \<Rightarrow> capture_run cfg rnd r (planFor r (ms_workspaces s1)) s1)"

text \<open>The input also says whether there are other keys than the workspace.\<close>

definition gitStatus :: "'c mcp_config \<Rightarrow> runner \<Rightarrow> string \<Rightarrow> (string, string \<times> bool) result \<Rightarrow> 'c mcp \<Rightarrow> tool_outcome \<times> 'c mcp" where
  "gitStatus cfg run rnd input s =
     (case input of
        Inl e \<Rightarrow> (arg_error e, s)
      | Inr (workspace, others) \<Rightarrow>
          if others then (arg_error ''this tool takes only the optional workspace argument'', s)
          else case selectWorkspace workspace (ms_workspaces s) of
                 Inl e \<Rightarrow> (arg_error e, s)
               | Inr wb \<Rightarrow>
                   runGitInspect cfg run rnd wb [''git'', ''status'']
                     (\<lambda>r w n. Some (PlanGitStatus (mc_sha cfg) (mcp_invocation n w wb [] (wb_Root wb)) (execResultOf r))) s)"

record gitDiffArgs =
  gd_Refs :: "string list"
  gd_Paths :: "string list"
  gd_Staged :: bool
  gd_Workspace :: string

definition gitDiffArgv :: "gitDiffArgs \<Rightarrow> string list" where
  "gitDiffArgv a =
     [''git'', ''diff'']
     @ (if gd_Staged a then ''--staged'' # gd_Refs a else if gd_Refs a = [] then [''HEAD''] else gd_Refs a)
     @ (if gd_Paths a \<noteq> [] then ''--'' # gd_Paths a else [])"

fun bad_ref :: "string list \<Rightarrow> string option" where
  "bad_ref [] = None"
| "bad_ref (r # rs) =
     (if blank r then Some ''refs entries must be non-blank''
      else if has_prefix r ''-'' then Some (''invalid ref '' @ r) else bad_ref rs)"

definition gitDiff :: "'c mcp_config \<Rightarrow> runner \<Rightarrow> string \<Rightarrow> (string, gitDiffArgs) result \<Rightarrow> 'c mcp \<Rightarrow> tool_outcome \<times> 'c mcp" where
  "gitDiff cfg run rnd input s =
     (case input of
        Inl e \<Rightarrow> (arg_error e, s)
      | Inr a \<Rightarrow>
          (case bad_ref (gd_Refs a) of
             Some e \<Rightarrow> (arg_error e, s)
           | None \<Rightarrow>
               if list_ex blank (gd_Paths a) then (arg_error ''paths entries must be non-blank'', s)
               else if gd_Staged a \<and> 1 < length (gd_Refs a) then (arg_error ''staged diff takes at most one ref'', s)
               else case selectWorkspace (gd_Workspace a) (ms_workspaces s) of
                      Inl e \<Rightarrow> (arg_error e, s)
                    | Inr wb \<Rightarrow>
                        runGitInspect cfg run rnd wb (gitDiffArgv a)
                          (\<lambda>r w n. Some (PlanGitDiff (mc_sha cfg) (mcp_invocation n w wb [] (wb_Root wb)) (execResultOf r)
                            (gd_Refs a) (gd_Paths a) (gd_Staged a))) s))"

text \<open>The arguments of a caller never act as options of git: they follow \<open>--\<close> or do not start with a dash.\<close>

lemma bad_ref_None: "bad_ref rs = None \<Longrightarrow> r \<in> set rs \<Longrightarrow> \<not> blank r \<and> \<not> has_prefix r ''-''"
  by (induction rs) (auto split: if_splits)

section \<open>Recall\<close>

definition maxSearchQueries :: nat where "maxSearchQueries = 10"
definition maxSearchLimit :: int where "maxSearchLimit = 50"

record searchArgs =
  sa_Queries :: "string list"
  sa_Source :: string
  sa_Limit :: int
  sa_Offset :: int
  sa_BudgetBytes :: int

definition searchVocab :: SearchVocab where
  "searchVocab =
     \<lparr>sv_TruncatedMarker = ''[truncated '' @ em_dash @ '' raise budget_bytes or use a ranked query for the rest]'',
      sv_ContinuationLine = ''more chunks remain '' @ em_dash @ '' call calm_search again with source and offset: '',
      sv_FeedbackPrefix = [], sv_ZeroHitRanked = ''no matches'', sv_ZeroHitDocument = ''no chunks at this offset''\<rparr>"

fun first_blank :: "nat \<Rightarrow> string list \<Rightarrow> nat option" where
  "first_blank i [] = None"
| "first_blank i (q # qs) = (if blank q then Some i else first_blank (Suc i) qs)"

text \<open>What is wrong with the arguments, if anything.\<close>

definition search_arg_error :: "searchArgs \<Rightarrow> string option" where
  "search_arg_error a =
     (if sa_Queries a = [] \<and> sa_Source a = [] then Some ''queries or source is required''
      else if sa_Queries a = [] \<and> sa_Offset a < 0
      then Some (''offset out of range (must be >= 0, got '' @ json_int (sa_Offset a) @ '')'')
      else if maxSearchQueries < length (sa_Queries a)
      then Some (''too many queries (max '' @ itoa maxSearchQueries @ '', got '' @ itoa (length (sa_Queries a)) @ '')'')
      else case first_blank 0 (sa_Queries a) of
             Some i \<Rightarrow> Some (''queries['' @ itoa i @ ''] is blank (all queries must be non-empty per CALM'' @ [CHR 0x27] @ ''s SearchRequest schema)'')
           | None \<Rightarrow>
               if sa_Limit a < 0 \<or> maxSearchLimit < sa_Limit a
               then Some (''limit out of range (allowed 0..'' @ json_int maxSearchLimit @ '', got '' @ json_int (sa_Limit a) @ '')'')
               else None)"

definition search_input :: "searchArgs \<Rightarrow> string \<Rightarrow> searchInput" where
  "search_input a source =
     \<lparr>si_Queries = sa_Queries a, si_Source = source, si_Limit = sa_Limit a,
      si_Offset = (if sa_Queries a = [] then sa_Offset a else 0),
      si_BudgetBytes = (if sa_Queries a = [] \<and> sa_BudgetBytes a = 0 then DocumentOrderBudgetDefault else sa_BudgetBytes a)\<rparr>"

definition degraded_result :: "signal \<Rightarrow> tool_outcome" where
  "degraded_result sig = (\<lparr>tr_Content = [], tr_IsError = True\<rparr>, Some (DegradedSignal sig))"

text \<open>A document-order page with content is what turns the basis of a rejection into a read one.\<close>

definition search_found :: "'c mcp_config \<Rightarrow> searchArgs \<Rightarrow> searchResults \<Rightarrow> 'c mcp \<Rightarrow> tool_outcome \<times> 'c mcp" where
  "search_found cfg a res s =
     (let documentOrder = (sa_Queries a = []) in
      ((TextResult (if documentOrder then FormatDocumentOrder res (sa_Offset a) (sa_Source a) searchVocab
                    else FormatSearchResults (mc_quote cfg) res (sa_Source a) searchVocab) False, None),
       if documentOrder \<and> sr_Queries res \<noteq> [] \<and> qr_Hits (hd (sr_Queries res)) \<noteq> []
       then s\<lparr>ms_basis := basis_MarkRead (sa_Source a) (ms_basis s)\<rparr> else s))"

definition search_call :: "'c mcp_config \<Rightarrow> searchArgs \<Rightarrow> string \<Rightarrow> 'c mcp \<Rightarrow> tool_outcome \<times> 'c mcp" where
  "search_call cfg a source s =
     (case api_Search (mc_api cfg) (ms_session s) (search_input a source) (ms_calm s) of
        (Inr res, c) \<Rightarrow> search_found cfg a res (s\<lparr>ms_calm := c\<rparr>)
      | (Inl e, c) \<Rightarrow>
          (case sessionFailureSignal cfg (ms_session s) e (s\<lparr>ms_calm := c\<rparr>) of
             (Some sig, s1) \<Rightarrow> (degraded_result sig, s1)
           | (None, s1) \<Rightarrow> (degraded_result \<lparr>sg_Reason = calm_unreachable, sg_Detail = error_text e\<rparr>, s1)))"

definition search :: "'c mcp_config \<Rightarrow> (string, searchArgs) result \<Rightarrow> 'c mcp \<Rightarrow> tool_outcome \<times> 'c mcp" where
  "search cfg input s =
     (case input of
        Inl e \<Rightarrow> (arg_error e, s)
      | Inr a \<Rightarrow>
          (case search_arg_error a of
             Some e \<Rightarrow> (arg_error e, s)
           | None \<Rightarrow>
               if ms_authFailed s then (degraded_result \<lparr>sg_Reason = auth_failed, sg_Detail = []\<rparr>, s)
               else if ms_session s = [] then (degraded_result \<lparr>sg_Reason = calm_unreachable, sg_Detail = []\<rparr>, s)
               else if sa_Source a = [] then search_call cfg a [] s
               else case ValidateAndStrip (sa_Source a) (ms_registry s) of
                      None \<Rightarrow> (degraded_result \<lparr>sg_Reason = session_lost, sg_Detail = []\<rparr>, s)
                    | Some source \<Rightarrow> search_call cfg a source s))"

end
