(* ===== verification/Mcp_Rpc.thy ===== *)
theory Mcp_Rpc
  imports Mcp_Tools
begin

text \<open>
  The loop of the server: protocol.go, tools.go and the dispatch of server.go. A line of input
  comes with its parameters decoded (None: they did not decode); a call of a tool carries the
  decoded arguments and the random bytes of the token it may mint. The server has its built-in
  tools and no configured ones. Writing the reply to the output is not part of the state.
\<close>

section \<open>Tools\<close>

definition builtin_tools :: "string list" where
  "builtin_tools = [''calm_run_command'', ''calm_search'', ''calm_read_file'', ''calm_list_dir'', ''calm_grep'',
     ''calm_git_status'', ''calm_git_diff'', ''calm_edit_file'', ''calm_write_file'']"

datatype tool_call =
    RunCommand string "(string, runCommandArgs) result"
  | SearchCall "(string, searchArgs) result"
  | ReadFile string "(string, readFileArgs) result"
  | ListDir string "(string, listDirArgs) result"
  | Grep string "(string, grepArgs) result"
  | GitStatus string "(string, string \<times> bool) result"
  | GitDiff string "(string, gitDiffArgs) result"
  | EditFile string "(string, editFileArgs) result"
  | WriteFile string "(string, writeFileArgs) result"
  | UnknownTool string

text \<open>The engine of a search for text is probed at the start; what a process does is \<open>run\<close>.\<close>

fun handler :: "'c mcp_config \<Rightarrow> string \<Rightarrow> runner \<Rightarrow> tool_call \<Rightarrow> 'c mcp \<Rightarrow> tool_outcome \<times> 'c mcp" where
  "handler cfg engine run (RunCommand rnd i) s = runCommand cfg run rnd i s"
| "handler cfg engine run (SearchCall i) s = search cfg i s"
| "handler cfg engine run (ReadFile rnd i) s = readFile cfg rnd i s"
| "handler cfg engine run (ListDir rnd i) s = listDir cfg rnd i s"
| "handler cfg engine run (Grep rnd i) s = grep cfg engine run rnd i s"
| "handler cfg engine run (GitStatus rnd i) s = gitStatus cfg run rnd i s"
| "handler cfg engine run (GitDiff rnd i) s = gitDiff cfg run rnd i s"
| "handler cfg engine run (EditFile rnd i) s = editFile cfg rnd i s"
| "handler cfg engine run (WriteFile rnd i) s = writeFile cfg rnd i s"
| "handler cfg engine run (UnknownTool name) s = ((TextResult (''unknown tool: '' @ name) True, None), s)"

definition invokeTool :: "'c mcp_config \<Rightarrow> string \<Rightarrow> runner \<Rightarrow> tool_call \<Rightarrow> 'c mcp \<Rightarrow> ToolResult \<times> 'c mcp" where
  "invokeTool cfg engine run t s = apfst tool_answer (handler cfg engine run t s)"

section \<open>Requests\<close>

datatype method_call =
    Initialize "(string \<times> string) option"
  | NotificationInitialized
  | ToolsList
  | ToolsCall "tool_call option"
  | Ping
  | OtherMethod string

record request =
  rq_ID :: "string option"
  rq_call :: method_call

definition isNotification :: "request \<Rightarrow> bool" where "isNotification r \<longleftrightarrow> rq_ID r = None"

datatype rpc_value = InitializeResult string string string | NoValue | ToolNames "string list" | ToolAnswer ToolResult | EmptyObject

record rpcError =
  rp_Code :: int
  rp_Message :: string

definition rpc_error :: "int \<Rightarrow> string \<Rightarrow> rpcError" where
  "rpc_error code m = \<lparr>rp_Code = code, rp_Message = m\<rparr>"

definition handleToolCall :: "'c mcp_config \<Rightarrow> string \<Rightarrow> runner \<Rightarrow> tool_call option \<Rightarrow> 'c mcp \<Rightarrow> (rpcError, rpc_value) result \<times> 'c mcp" where
  "handleToolCall cfg engine run params s =
     (case params of
        None \<Rightarrow> (Inl (rpc_error codeInvalidParams ''invalid tools/call params''), s)
      | Some t \<Rightarrow> (case invokeTool cfg engine run t s of (res, s1) \<Rightarrow> (Inr (ToolAnswer res), s1)))"

definition dispatch :: "'c mcp_config \<Rightarrow> string \<Rightarrow> runner \<Rightarrow> request \<Rightarrow> 'c mcp \<Rightarrow> (rpcError, rpc_value) result \<times> 'c mcp" where
  "dispatch cfg engine run r s =
     (case rq_call r of
        Initialize params \<Rightarrow>
          (case handleInitialize cfg params s of
             (Inl (code, m), s1) \<Rightarrow> (Inl (rpc_error code m), s1)
           | (Inr pv, s1) \<Rightarrow> (Inr (InitializeResult pv (mc_name cfg) (mc_version cfg)), s1))
      | NotificationInitialized \<Rightarrow> (Inr NoValue, s)
      | ToolsList \<Rightarrow> (Inr (ToolNames builtin_tools), s)
      | ToolsCall params \<Rightarrow> handleToolCall cfg engine run params s
      | Ping \<Rightarrow> (Inr EmptyObject, s)
      | OtherMethod m \<Rightarrow>
          (if isNotification r then Inr NoValue else Inl (rpc_error codeMethodNotFound (''method not found: '' @ m)), s))"

record reply_line =
  rl_ID :: "string option"
  rl_Body :: "(rpcError, rpc_value) result"

text \<open>A line of input is None when it is not JSON; the reply then has the identifier null, here None.\<close>

definition handleLine :: "'c mcp_config \<Rightarrow> string \<Rightarrow> runner \<Rightarrow> request option \<Rightarrow> 'c mcp \<Rightarrow> reply_line list \<times> 'c mcp" where
  "handleLine cfg engine run line s =
     (case line of
        None \<Rightarrow> ([\<lparr>rl_ID = None, rl_Body = Inl (rpc_error codeParseError ''parse error'')\<rparr>], s)
      | Some r \<Rightarrow>
          (case dispatch cfg engine run r s of
             (res, s1) \<Rightarrow> (if isNotification r then [] else [\<lparr>rl_ID = rq_ID r, rl_Body = res\<rparr>], s1)))"

text \<open>The lines up to the end of the input, then the shutdown.\<close>

fun serve_lines :: "'c mcp_config \<Rightarrow> string \<Rightarrow> runner \<Rightarrow> request option list \<Rightarrow> 'c mcp \<Rightarrow> reply_line list \<times> 'c mcp" where
  "serve_lines cfg engine run [] s = ([], s)"
| "serve_lines cfg engine run (l # ls) s =
     (case handleLine cfg engine run l s of
        (out, s1) \<Rightarrow> apfst (append out) (serve_lines cfg engine run ls s1))"

definition Serve :: "'c mcp_config \<Rightarrow> string \<Rightarrow> runner \<Rightarrow> request option list \<Rightarrow> 'c mcp \<Rightarrow> reply_line list \<times> 'c mcp" where
  "Serve cfg engine run ls s = apsnd (shutdown cfg) (serve_lines cfg engine run ls s)"

section \<open>Answers\<close>

text \<open>Which lines are answered, with which identifier.\<close>

definition answers :: "request option \<Rightarrow> string option list" where
  "answers l = (case l of None \<Rightarrow> [None] | Some r \<Rightarrow> if isNotification r then [] else [rq_ID r])"

lemma handleLine_answers: "map rl_ID (fst (handleLine cfg engine run l s)) = answers l"
  by (cases l) (simp_all add: handleLine_def answers_def split: prod.split)

lemma serve_lines_answers: "map rl_ID (fst (serve_lines cfg engine run ls s)) = concat (map answers ls)"
proof (induction ls arbitrary: s)
  case (Cons l ls)
  obtain out s1 where e: "handleLine cfg engine run l s = (out, s1)" by fastforce
  show ?case using Cons.IH [of s1] handleLine_answers [of cfg engine run l s] by (simp add: e)
qed simp

end
