(* ===== verification/Mcp_Guard.thy ===== *)
theory Mcp_Guard
  imports Mcp_Rpc
begin

text \<open>
  What guards the files: the effect of a mutating tool on the files and on the bases, and the
  provenance of every basis over a whole run of the server in which the files may also change
  from outside between the calls.
\<close>

section \<open>Frames\<close>

definition untouched :: "'c mcp \<Rightarrow> 'c mcp \<Rightarrow> bool" where
  "untouched s s' \<longleftrightarrow> ms_files s' = ms_files s \<and> (ms_basis s' = ms_basis s \<or> ms_basis s' = [])"

lemma untouched_refl [simp]: "untouched s s" by (simp add: untouched_def)

lemma untouched_trans: "untouched a b \<Longrightarrow> untouched b c \<Longrightarrow> untouched a c"
  by (auto simp: untouched_def)

lemma untouched_outside: "same_outside s s' \<Longrightarrow> untouched s s'"
  by (auto simp: untouched_def same_outside_def)

lemma mcp_capture_untouched: "mcp_capture cfg rnd sp s = (out, s') \<Longrightarrow> untouched s s'"
  using mcp_capture_frame untouched_outside unfolding mcp_capture_def by blast

lemma next_io_untouched: "next_io s = (r, s') \<Longrightarrow> untouched s s'"
  by (auto simp: next_io_def untouched_def split: list.splits)

lemma os_Stat_untouched: "os_Stat p s = (r, s') \<Longrightarrow> untouched s s'"
  by (auto simp: os_Stat_def split: prod.splits option.splits dest: next_io_untouched)

lemma os_ReadFile_untouched: "os_ReadFile p s = (r, s') \<Longrightarrow> untouched s s'"
  by (auto simp: os_ReadFile_def split: prod.splits option.splits dest: next_io_untouched)

lemma os_ReadDir_untouched: "os_ReadDir p s = (r, s') \<Longrightarrow> untouched s s'"
  by (auto simp: os_ReadDir_def split: prod.splits option.splits dest: next_io_untouched)

lemma os_ReadFile_content:
  "os_ReadFile p s = (Inr b, s') \<Longrightarrow> \<exists>n. map_of (ms_files s) (path_clean p) = Some n \<and> \<not> fn_isDir n \<and> fn_content n = b"
proof -
  assume r: "os_ReadFile p s = (Inr b, s')"
  obtain f s1 where i: "next_io s = (f, s1)" by fastforce
  have "ms_files s1 = ms_files s" using next_io_untouched [OF i] by (simp add: untouched_def)
  then show ?thesis
    using r i by (auto simp: os_ReadFile_def node_def split: option.splits if_splits)
qed

lemma os_Stat_found:
  "os_Stat p s = (Found n, s') \<Longrightarrow> map_of (ms_files s) (path_clean p) = Some n"
proof -
  assume r: "os_Stat p s = (Found n, s')"
  obtain f s1 where i: "next_io s = (f, s1)" by fastforce
  have "ms_files s1 = ms_files s" using next_io_untouched [OF i] by (simp add: untouched_def)
  then show ?thesis using r i by (auto simp: os_Stat_def node_def split: option.splits)
qed

lemma os_Stat_absent:
  "os_Stat p s = (Absent e, s') \<Longrightarrow> map_of (ms_files s) (path_clean p) = None"
proof -
  assume r: "os_Stat p s = (Absent e, s')"
  obtain f s1 where i: "next_io s = (f, s1)" by fastforce
  have "ms_files s1 = ms_files s" using next_io_untouched [OF i] by (simp add: untouched_def)
  then show ?thesis using r i by (auto simp: os_Stat_def node_def split: option.splits)
qed

lemma readFull_reads:
  assumes "readFull p s = (r, s')"
  shows "untouched s s'"
    "r = Inr b \<Longrightarrow> \<exists>n. map_of (ms_files s) (path_clean p) = Some n \<and> \<not> fn_isDir n \<and> fn_content n = b"
proof -
  obtain x s1 where o: "os_ReadFile p s = (x, s1)" by fastforce
  have s': "s' = s1" using assms o by (cases x) (auto simp: readFull_def)
  show "untouched s s'" using os_ReadFile_untouched [OF o] by (simp add: s')
  show "r = Inr b \<Longrightarrow> \<exists>n. map_of (ms_files s) (path_clean p) = Some n \<and> \<not> fn_isDir n \<and> fn_content n = b"
    using assms o os_ReadFile_content by (cases x) (auto simp: readFull_def split: if_splits)
qed

lemma readCapped_reads:
  assumes "readCapped p s = (r, s')"
  shows "untouched s s'"
    "r = Inr (b, False) \<Longrightarrow> \<exists>n. map_of (ms_files s) (path_clean p) = Some n \<and> \<not> fn_isDir n \<and> fn_content n = b"
proof -
  obtain x s1 where o: "os_ReadFile p s = (x, s1)" by fastforce
  have s': "s' = s1" using assms o by (cases x) (auto simp: readCapped_def)
  show "untouched s s'" using os_ReadFile_untouched [OF o] by (simp add: s')
  show "r = Inr (b, False) \<Longrightarrow> \<exists>n. map_of (ms_files s) (path_clean p) = Some n \<and> \<not> fn_isDir n \<and> fn_content n = b"
    using assms o os_ReadFile_content by (cases x) (auto simp: readCapped_def split: if_splits)
qed

lemma server_workspace_untouched: "server_workspace cfg i p s = (r, s') \<Longrightarrow> untouched s s'"
  by (auto simp: server_workspace_def untouched_def split: prod.splits)

lemma untouched_workspaces [simp]: "untouched s (s\<lparr>ms_workspaces := w\<rparr>)"
  by (simp add: untouched_def)

text \<open>A write that succeeds replaces the node of the cleaned path; a failed one changes nothing.\<close>

lemma atomicWriteFile_effect:
  assumes "atomicWriteFile p content perm s = (r, s')"
  shows "ms_basis s' = ms_basis s"
    "ms_files s' = (if r = None then AList.update (path_clean p) \<lparr>fn_isDir = False, fn_content = content, fn_perm = perm\<rparr> (ms_files s) else ms_files s)"
proof -
  obtain f s1 where i: "next_io s = (f, s1)" by fastforce
  have u: "ms_files s1 = ms_files s" "ms_basis s1 = ms_basis s"
    using i by (auto simp: next_io_def split: list.splits)
  show "ms_basis s' = ms_basis s"
    using assms i u by (cases f) (auto simp: atomicWriteFile_def split: if_splits)
  show "ms_files s' = (if r = None then AList.update (path_clean p) \<lparr>fn_isDir = False, fn_content = content, fn_perm = perm\<rparr> (ms_files s) else ms_files s)"
    using assms i u by (cases f) (auto simp: atomicWriteFile_def split: if_splits)
qed

section \<open>What a call records\<close>

text \<open>A basis holds when its file has the content it stands for.\<close>

definition holds :: "'c mcp_config \<Rightarrow> 'c mcp \<Rightarrow> basisEntry \<Rightarrow> bool" where
  "holds cfg s e \<longleftrightarrow> (\<exists>n. map_of (ms_files s) (be_path e) = Some n \<and> contentHash (mc_sha cfg) (fn_content n) = be_hash e)"

definition same_basis :: "basisEntry \<Rightarrow> basisEntry \<Rightarrow> bool" where
  "same_basis e e' \<longleftrightarrow> be_path e = be_path e' \<and> be_hash e = be_hash e'"

text \<open>Every basis of the new state is one of the old state or holds.\<close>

definition bases_from :: "'c mcp_config \<Rightarrow> 'c mcp \<Rightarrow> 'c mcp \<Rightarrow> bool" where
  "bases_from cfg s s' \<longleftrightarrow> (\<forall>l e'. map_of (ms_basis s') l = Some e' \<longrightarrow>
     (\<exists>e. map_of (ms_basis s) l = Some e \<and> same_basis e e') \<or> holds cfg s' e')"

lemma bases_from_kept: "ms_basis s' = ms_basis s \<or> ms_basis s' = [] \<Longrightarrow> bases_from cfg s s'"
  by (auto simp: bases_from_def same_basis_def)

lemma bases_from_untouched: "untouched s s' \<Longrightarrow> bases_from cfg s s'"
  by (simp add: bases_from_kept untouched_def)

lemma bases_from_record:
  assumes "ms_basis s1 = ms_basis s \<or> ms_basis s1 = []"
    "map_of (ms_files s1) (path_clean p) = Some n" "fn_content n = content"
  shows "bases_from cfg s (s1\<lparr>ms_basis := basis_record (mc_sha cfg) label p content unread (ms_basis s1)\<rparr>)"
  using assms by (auto simp: bases_from_def basis_record_def same_basis_def holds_def update_conv')

lemma confirmMutation_effect:
  assumes "confirmMutation cfg rnd verb detail path p content sp s = (r, s')"
    "ms_basis s = ms_basis s0" "map_of (ms_files s) (path_clean p) = Some n" "fn_content n = content"
  shows "ms_files s' = ms_files s" "bases_from cfg s0 s'"
proof -
  obtain out s1 where c: "mcp_capture cfg rnd sp s = (out, s1)" by fastforce
  have u: "ms_files s1 = ms_files s" "ms_basis s1 = ms_basis s0 \<or> ms_basis s1 = []"
    using mcp_capture_untouched [OF c] assms(2) by (auto simp: untouched_def)
  have s': "s' = s1\<lparr>ms_basis := basis_record (mc_sha cfg) (oc_Label out) p content False (ms_basis s1)\<rparr>"
    using assms(1) c by (simp add: confirmMutation_def)
  show "ms_files s' = ms_files s" by (simp add: s' u)
  show "bases_from cfg s0 s'"
    unfolding s' by (rule bases_from_record [OF u(2) _ assms(4)]) (simp add: u assms(3))
qed

lemma rejectMutation_effect:
  assumes "rejectMutation cfg rnd verb wb path p current v s = (r, s')"
    "ms_basis s = ms_basis s0 \<or> ms_basis s = []" "map_of (ms_files s) (path_clean p) = Some n" "fn_content n = current"
  shows "ms_files s' = ms_files s" "bases_from cfg s0 s'"
proof -
  define sp where "sp = \<lparr>sp_Ingest = current, sp_Visible = current, sp_Res = stdout_result current False, sp_RangedView = False,
         sp_Plan = \<lambda>n. Some (PlanFileRead (mc_sha cfg) (mc_lower cfg) (bare_invocation s wb n) (execResultOf (stdout_result current False)) path)\<rparr>"
  obtain out s1 where c: "mcp_capture cfg rnd sp s = (out, s1)" by fastforce
  have u: "ms_files s1 = ms_files s" "ms_basis s1 = ms_basis s0 \<or> ms_basis s1 = []"
    using mcp_capture_untouched [OF c] assms(2) by (auto simp: untouched_def)
  have s': "s' = s1\<lparr>ms_basis := basis_record (mc_sha cfg) (oc_Label out) p current True (ms_basis s1)\<rparr>"
    using assms(1) c unfolding rejectMutation_def Let_def sp_def [symmetric] by simp
  show "ms_files s' = ms_files s" by (simp add: s' u)
  show "bases_from cfg s0 s'"
    unfolding s' by (rule bases_from_record [OF u(2) _ assms(4)]) (simp add: u assms(3))
qed

lemma read_capture_effect:
  assumes "read_capture cfg rnd a wb p full truncated visible s = (r, s')"
    "ms_basis s = ms_basis s0 \<or> ms_basis s = []"
    "\<not> truncated \<Longrightarrow> \<exists>n. map_of (ms_files s) (path_clean p) = Some n \<and> fn_content n = full"
  shows "ms_files s' = ms_files s" "bases_from cfg s0 s'"
proof -
  define sp where "sp = \<lparr>sp_Ingest = full, sp_Visible = visible, sp_Res = stdout_result full truncated, sp_RangedView = (0 < rf_StartLine a \<or> 0 < rf_EndLine a),
         sp_Plan = \<lambda>n. Some (PlanFileRead (mc_sha cfg) (mc_lower cfg) (bare_invocation s wb n) (execResultOf (stdout_result full truncated)) (rf_Path a))\<rparr>"
  obtain out s1 where c: "mcp_capture cfg rnd sp s = (out, s1)" by fastforce
  have u: "ms_files s1 = ms_files s" "ms_basis s1 = ms_basis s0 \<or> ms_basis s1 = []"
    using mcp_capture_untouched [OF c] assms(2) by (auto simp: untouched_def)
  have s': "s' = (if truncated then s1 else s1\<lparr>ms_basis := basis_record (mc_sha cfg) (oc_Label out) p full False (ms_basis s1)\<rparr>)"
    using assms(1) c unfolding read_capture_def Let_def sp_def [symmetric] by simp
  show "ms_files s' = ms_files s" by (simp add: s' u)
  show "bases_from cfg s0 s'"
  proof (cases truncated)
    case True
    then show ?thesis using s' u(2) by (simp add: bases_from_kept)
  next
    case False
    obtain n where n: "map_of (ms_files s) (path_clean p) = Some n" "fn_content n = full" using assms(3) [OF False] by blast
    then show ?thesis using s' False bases_from_record [OF u(2) _ n(2)] u(1) by simp
  qed
qed

section \<open>Edits and writes\<close>

lemma verifyBasis_ok:
  "bv_ok (verifyBasis cfg b p current cause s) \<Longrightarrow>
    \<exists>e. map_of (ms_basis s) b = Some e \<and> be_path e = path_clean p \<and> be_hash e = contentHash (mc_sha cfg) current"
  by (auto simp: verifyBasis_def basis_Verify_def split: if_splits option.splits)

text \<open>
  A basis that authorises a change of the file at a path: recorded for that path, and the file
  has the recorded content.
\<close>

definition authorised :: "'c mcp_config \<Rightarrow> 'c mcp \<Rightarrow> string \<Rightarrow> string \<Rightarrow> fnode \<Rightarrow> bool" where
  "authorised cfg s label q n \<longleftrightarrow> map_of (ms_files s) q = Some n \<and> \<not> fn_isDir n
     \<and> (\<exists>e. map_of (ms_basis s) label = Some e \<and> be_path e = q \<and> be_hash e = contentHash (mc_sha cfg) (fn_content n))"

lemma authorised_back:
  assumes "untouched s s1" "bv_ok (verifyBasis cfg b p current cause s1)"
    "map_of (ms_files s) (path_clean p) = Some n" "\<not> fn_isDir n" "fn_content n = current"
  shows "authorised cfg s b (path_clean p) n" "ms_basis s1 = ms_basis s"
proof -
  obtain e where e: "map_of (ms_basis s1) b = Some e" "be_path e = path_clean p" "be_hash e = contentHash (mc_sha cfg) current"
    using verifyBasis_ok [OF assms(2)] by blast
  then have "ms_basis s1 \<noteq> []" by auto
  then show b: "ms_basis s1 = ms_basis s" using assms(1) by (simp add: untouched_def)
  show "authorised cfg s b (path_clean p) n" using e assms(3-5) by (auto simp: authorised_def b)
qed

definition file_of :: "string \<Rightarrow> int \<Rightarrow> fnode" where
  "file_of content perm = \<lparr>fn_isDir = False, fn_content = content, fn_perm = perm\<rparr>"

text \<open>What an edit does to the files when it does anything.\<close>

definition edited :: "'c mcp_config \<Rightarrow> editFileArgs \<Rightarrow> 'c mcp \<Rightarrow> 'c mcp \<Rightarrow> bool" where
  "edited cfg a s s' \<longleftrightarrow> (\<exists>wb q n k. q = path_clean (wb_resolve wb (ed_Path a)) \<and> authorised cfg s (ed_Basis a) q n
     \<and> 0 < k \<and> count_sub (ed_OldString a) (fn_content n) = k
     \<and> (ed_ReplaceAll a \<or> k = 1)
     \<and> ms_files s' = AList.update q (file_of (replace_sub (ed_OldString a) (ed_NewString a) k (fn_content n)) (fn_perm n)) (ms_files s))"

lemma apply_edit_effect:
  assumes run: "apply_edit cfg rnd a wb p perm old s1 = (r, s')" and u: "untouched s s1" "ms_basis s1 = ms_basis s"
    and n: "authorised cfg s (ed_Basis a) (path_clean p) n" "fn_content n = old" "fn_perm n = perm" and p: "p = wb_resolve wb (ed_Path a)"
  shows "(ms_files s' = ms_files s \<or> edited cfg a s s') \<and> bases_from cfg s s'"
proof -
  define k where "k = count_sub (ed_OldString a) old"
  define new where "new = replace_sub (ed_OldString a) (ed_NewString a) (if ed_ReplaceAll a then k else 1) old"
  have f: "ms_files s1 = ms_files s" using u(1) by (simp add: untouched_def)
  have same: "s' = s1 \<Longrightarrow> ?thesis" using f u(1) by (simp add: bases_from_untouched)
  show ?thesis
  proof (cases "k = 0 \<or> (1 < k \<and> \<not> ed_ReplaceAll a) \<or> length new > MaxOutputBytes")
    case True
    then have "s' = s1"
      using run unfolding apply_edit_def Let_def k_def [symmetric] new_def [symmetric] failed_def by (auto split: if_splits)
    then show ?thesis by (rule same)
  next
    case False
    then have k: "0 < k" "ed_ReplaceAll a \<or> k = 1" by auto
    have g: "k \<noteq> 0" "(1 < k \<and> \<not> ed_ReplaceAll a) = False" "\<not> length new > MaxOutputBytes" using False by auto
    then have kk: "(if ed_ReplaceAll a then k else 1) = k" by auto
    obtain w s2 where w: "atomicWriteFile p new perm s1 = (w, s2)" by fastforce
    note e = atomicWriteFile_effect [OF w]
    show ?thesis
    proof (cases w)
      case (Some err)
      then have "s' = s2" using run w False unfolding apply_edit_def Let_def k_def [symmetric] new_def [symmetric] failed_def by auto
      then show ?thesis using e Some f u(2) by (simp add: bases_from_kept)
    next
      case None
      define detail where "detail = (if ed_ReplaceAll a then ''replaced '' @ itoa k @ '' '' @ plural k ''occurrence'' ''occurrences'' else [])"
      define sp where "sp = \<lparr>sp_Ingest = new, sp_Visible = new, sp_Res = stdout_result new False, sp_RangedView = False,
        sp_Plan = \<lambda>n. Some (PlanFileEdit (mc_sha cfg) (mc_lower cfg) (mc_unified cfg) (bare_invocation s2 wb n)
          (execResultOf (stdout_result new False)) (ed_Path a) old new)\<rparr>"
      have c: "confirmMutation cfg rnd ''edited'' detail (ed_Path a) p new sp s2 = (r, s')"
        using run w None
        unfolding apply_edit_def Let_def k_def [symmetric] new_def [symmetric] detail_def [symmetric] sp_def by (simp only: g if_False) simp
      have fs: "ms_files s2 = AList.update (path_clean p) (file_of new perm) (ms_files s)"
        using e(2) None f by (simp add: file_of_def)
      then have m: "map_of (ms_files s2) (path_clean p) = Some (file_of new perm)" by (simp add: update_conv')
      have b: "ms_basis s2 = ms_basis s" using e(1) u(2) by simp
      note cm = confirmMutation_effect [OF c b m]
      have "edited cfg a s s'"
        unfolding edited_def using n k fs cm(1)
        by (intro exI [of _ wb] exI [of _ "path_clean p"] exI [of _ n] exI [of _ k]) (auto simp: p k_def new_def file_of_def kk)
      then show ?thesis using cm(2) by (simp add: file_of_def)
    qed
  qed
qed

lemma editFile_effect:
  assumes run: "editFile cfg rnd (Inr a) s = (r, s')"
  shows "(ms_files s' = ms_files s \<or> edited cfg a s s') \<and> bases_from cfg s s'"
proof -
  have same: "untouched s s' \<Longrightarrow> ?thesis" by (simp add: untouched_def bases_from_kept)
  show ?thesis
  proof (cases "blank (ed_Path a) \<or> ed_OldString a = [] \<or> ed_OldString a = ed_NewString a")
    case True
    then have "s' = s" using run by (cases "blank (ed_Path a)"; cases "ed_OldString a = []") (auto simp: editFile_def)
    then show ?thesis by (intro same) simp
  next
    case a: False
    obtain w s1 where w: "server_workspace cfg (ed_Workspace a) (ed_Path a) s = (w, s1)" by fastforce
    note u1 = server_workspace_untouched [OF w]
    show ?thesis
    proof (cases w)
      case (Inl e)
      then show ?thesis using run a w u1 by (intro same) (auto simp: editFile_def)
    next
      case (Inr wb)
      define p where "p = wb_resolve wb (ed_Path a)"
      obtain st s2 where st: "os_Stat p s1 = (st, s2)" by fastforce
      note u2 = untouched_trans [OF u1 os_Stat_untouched [OF st]]
      show ?thesis
      proof (cases "\<exists>n. st = Found n \<and> \<not> fn_isDir n")
        case False
        then have "s' = s2"
          using run a w Inr st by (cases st) (auto simp: editFile_def Let_def p_def failed_def split: if_splits)
        then show ?thesis using u2 by (intro same) simp
      next
        case True
        then obtain n where n: "st = Found n" "\<not> fn_isDir n" by blast
        obtain rd s3 where rd: "readFull p s2 = (rd, s3)" by fastforce
        note u3 = untouched_trans [OF u2 readFull_reads(1) [OF rd]]
        have fs: "ms_files s1 = ms_files s" "ms_files s2 = ms_files s" using u1 u2 by (simp_all add: untouched_def)
        show ?thesis
        proof (cases rd)
          case (Inl e)
          then have "s' = s3" using run a w \<open>w = Inr wb\<close> st n rd by (auto simp: editFile_def Let_def p_def failed_def)
          then show ?thesis using u3 by (intro same) simp
        next
          case (Inr old)
          have m: "map_of (ms_files s) (path_clean p) = Some n" "fn_content n = old"
            using os_Stat_found [OF st [unfolded n(1)]] readFull_reads(2) [OF rd Inr] fs by auto
          define v where "v = verifyBasis cfg (ed_Basis a) p old ''no basis was supplied'' s3"
          have body: "(if \<not> bv_ok v then rejectMutation cfg rnd ''edit'' wb (ed_Path a) p old v s3
              else apply_edit cfg rnd a wb p (fn_perm n) old s3) = (r, s')"
            using run a w \<open>w = Inr wb\<close> st n rd Inr unfolding editFile_def Let_def p_def [symmetric] v_def
            by (auto simp: p_def [symmetric] split: if_splits)
          show ?thesis
          proof (cases "bv_ok v")
            case True
            show ?thesis
              using apply_edit_effect [OF _ u3 _ _ m(2) refl p_def] body True authorised_back [OF u3 _ m(1) n(2) m(2)] unfolding v_def by simp
          next
            case False
            then have rj: "rejectMutation cfg rnd ''edit'' wb (ed_Path a) p old v s3 = (r, s')" using body by simp
            have "ms_basis s3 = ms_basis s \<or> ms_basis s3 = []" "ms_files s3 = ms_files s" using u3 by (auto simp: untouched_def)
            then show ?thesis using rejectMutation_effect [OF rj] m by metis
          qed
        qed
      qed
    qed
  qed
qed

text \<open>What a write does: it creates a file that was absent, or replaces one under a basis that was read.\<close>

definition written :: "'c mcp_config \<Rightarrow> writeFileArgs \<Rightarrow> 'c mcp \<Rightarrow> 'c mcp \<Rightarrow> bool" where
  "written cfg a s s' \<longleftrightarrow> (\<exists>wb q perm. q = path_clean (wb_resolve wb (wr_Path a))
     \<and> (map_of (ms_files s) q = None \<and> blank (wr_Basis a) \<and> perm = 384
        \<or> (\<exists>n. authorised cfg s (wr_Basis a) q n \<and> \<not> basis_Unread (wr_Basis a) (ms_basis s) \<and> perm = fn_perm n))
     \<and> ms_files s' = AList.update q (file_of (wr_Content a) perm) (ms_files s))"

lemma apply_write_effect:
  assumes run: "apply_write cfg rnd a wb p perm op_kind verb old s1 = (r, s')" and u: "ms_files s1 = ms_files s" "ms_basis s1 = ms_basis s"
    and ok: "map_of (ms_files s) (path_clean p) = None \<and> blank (wr_Basis a) \<and> perm = 384
        \<or> (\<exists>n. authorised cfg s (wr_Basis a) (path_clean p) n \<and> \<not> basis_Unread (wr_Basis a) (ms_basis s) \<and> perm = fn_perm n)"
    and p: "p = wb_resolve wb (wr_Path a)"
  shows "(ms_files s' = ms_files s \<or> written cfg a s s') \<and> bases_from cfg s s'"
proof -
  obtain w s2 where w: "atomicWriteFile p (wr_Content a) perm s1 = (w, s2)" by fastforce
  note e = atomicWriteFile_effect [OF w]
  show ?thesis
  proof (cases w)
    case (Some err)
    then have "s' = s2" using run w unfolding apply_write_def failed_def by auto
    then show ?thesis using e Some u by (simp add: bases_from_kept)
  next
    case None
    define sp where "sp = \<lparr>sp_Ingest = wr_Content a, sp_Visible = wr_Content a, sp_Res = stdout_result (wr_Content a) False, sp_RangedView = False,
      sp_Plan = \<lambda>n. Some (PlanFileWrite (mc_sha cfg) (mc_lower cfg) (mc_unified cfg) (bare_invocation s2 wb n)
        (execResultOf (stdout_result (wr_Content a) False)) (wr_Path a) op_kind old (wr_Content a))\<rparr>"
    have c: "confirmMutation cfg rnd verb [] (wr_Path a) p (wr_Content a) sp s2 = (r, s')"
      using run w None unfolding apply_write_def Let_def sp_def by simp
    have fs: "ms_files s2 = AList.update (path_clean p) (file_of (wr_Content a) perm) (ms_files s)"
      using e(2) None u by (simp add: file_of_def)
    then have m: "map_of (ms_files s2) (path_clean p) = Some (file_of (wr_Content a) perm)" by (simp add: update_conv')
    have b: "ms_basis s2 = ms_basis s" using e(1) u(2) by simp
    note cm = confirmMutation_effect [OF c b m]
    have "written cfg a s s'"
      unfolding written_def using ok fs cm(1) p
      by (intro exI [of _ wb] exI [of _ "path_clean p"] exI [of _ perm]) (simp add: file_of_def)
    then show ?thesis using cm(2) by (simp add: file_of_def)
  qed
qed

lemma writeFile_effect:
  assumes run: "writeFile cfg rnd (Inr a) s = (r, s')"
  shows "(ms_files s' = ms_files s \<or> written cfg a s s') \<and> bases_from cfg s s'"
proof -
  have same: "untouched s s' \<Longrightarrow> ?thesis" by (simp add: untouched_def bases_from_kept)
  show ?thesis
  proof (cases "blank (wr_Path a) \<or> length (wr_Content a) > MaxOutputBytes")
    case True
    then have "s' = s" using run by (cases "blank (wr_Path a)") (auto simp: writeFile_def failed_def)
    then show ?thesis by (intro same) simp
  next
    case a: False
    obtain w s1 where w: "server_workspace cfg (wr_Workspace a) (wr_Path a) s = (w, s1)" by fastforce
    note u1 = server_workspace_untouched [OF w]
    have b1: "ms_basis s1 = ms_basis s" using w by (auto simp: server_workspace_def split: prod.splits)
    show ?thesis
    proof (cases w)
      case (Inl e)
      then show ?thesis using run a w u1 by (intro same) (auto simp: writeFile_def)
    next
      case (Inr wb)
      define p where "p = wb_resolve wb (wr_Path a)"
      obtain st s2 where st: "os_Stat p s1 = (st, s2)" by fastforce
      note u2 = untouched_trans [OF u1 os_Stat_untouched [OF st]]
      have fs: "ms_files s1 = ms_files s" "ms_files s2 = ms_files s" using u1 u2 by (simp_all add: untouched_def)
      note head = a w Inr st p_def [symmetric]
      show ?thesis
      proof (cases st)
        case (Absent e)
        show ?thesis
        proof (cases "blank (wr_Basis a)")
          case False
          then have "s' = s2" using run head Absent by (simp add: writeFile_def Let_def failed_def)
          then show ?thesis using u2 by (intro same) simp
        next
          case True
          have ap: "apply_write cfg rnd a wb p 384 OperationCreate ''created'' [] s2 = (r, s')"
            using run head Absent True by (simp add: writeFile_def Let_def)
          have m: "map_of (ms_files s) (path_clean p) = None" using os_Stat_absent [OF st [unfolded Absent]] fs by simp
          have b2: "ms_basis s2 = ms_basis s"
            using st b1 by (auto simp: os_Stat_def next_io_def split: list.splits option.splits prod.splits)
          show ?thesis using apply_write_effect [OF ap fs(2) b2 _ p_def] m True by simp
        qed
      next
        case (StatFailed e)
        then have "s' = s2" using run head by (simp add: writeFile_def Let_def failed_def)
        then show ?thesis using u2 by (intro same) simp
      next
        case (Found n)
        show ?thesis
        proof (cases "fn_isDir n")
          case True
          then have "s' = s2" using run head Found by (simp add: writeFile_def Let_def failed_def)
          then show ?thesis using u2 by (intro same) simp
        next
          case n: False
          obtain rd s3 where rd: "readFull p s2 = (rd, s3)" by fastforce
          note u3 = untouched_trans [OF u2 readFull_reads(1) [OF rd]]
          show ?thesis
          proof (cases rd)
            case (Inl e)
            then have "s' = s3" using run head Found n rd by (simp add: writeFile_def Let_def failed_def)
            then show ?thesis using u3 by (intro same) simp
          next
            case (Inr old)
            have m: "map_of (ms_files s) (path_clean p) = Some n" "fn_content n = old"
              using os_Stat_found [OF st [unfolded Found]] readFull_reads(2) [OF rd Inr] fs by auto
            have f3: "ms_files s3 = ms_files s" using u3 by (simp add: untouched_def)
            define v where "v = verifyBasis cfg (wr_Basis a) p old ''no basis was supplied and the file already exists'' s3"
            show ?thesis
            proof (cases "bv_ok v")
              case True
              note au = authorised_back [OF u3 True [unfolded v_def] m(1) n m(2)]
              show ?thesis
              proof (cases "basis_Unread (wr_Basis a) (ms_basis s3)")
                case True
                then have "s' = s3"
                  using run head Found n rd Inr \<open>bv_ok v\<close> by (simp add: writeFile_def Let_def failed_def v_def)
                then show ?thesis using u3 by (intro same) simp
              next
                case False
                have ap: "apply_write cfg rnd a wb p (fn_perm n) OperationWrite ''wrote'' old s3 = (r, s')"
                  using run head Found n rd Inr \<open>bv_ok v\<close> False by (simp add: writeFile_def Let_def v_def)
                show ?thesis using apply_write_effect [OF ap f3 au(2) _ p_def] au(1) False au(2) by auto
              qed
            next
              case False
              then have rj: "rejectMutation cfg rnd ''write'' wb (wr_Path a) p old v s3 = (r, s')"
                using run head Found n rd Inr by (simp add: writeFile_def Let_def v_def)
              have "ms_basis s3 = ms_basis s \<or> ms_basis s3 = []" using u3 by (auto simp: untouched_def)
              then show ?thesis using rejectMutation_effect [OF rj] m f3 by metis
            qed
          qed
        qed
      qed
    qed
  qed
qed

section \<open>The other tools\<close>

lemma readFile_effect: "readFile cfg rnd i s = (r, s') \<Longrightarrow> ms_files s' = ms_files s \<and> bases_from cfg s s'"
proof -
  assume run: "readFile cfg rnd i s = (r, s')"
  have same: "untouched s s' \<Longrightarrow> ?thesis" by (simp add: untouched_def bases_from_kept)
  show ?thesis
  proof (cases "\<exists>a. i = Inr a \<and> \<not> blank (rf_Path a) \<and> \<not> (rf_StartLine a < 0 \<or> rf_EndLine a < 0)
      \<and> \<not> (0 < rf_StartLine a \<and> 0 < rf_EndLine a \<and> rf_EndLine a < rf_StartLine a)")
    case False
    then have "s' = s" using run by (auto simp: readFile_def split: sum.splits if_splits)
    then show ?thesis by (intro same) simp
  next
    case True
    then obtain a where i: "i = Inr a" and a: "blank (rf_Path a) = False" "(rf_StartLine a < 0 \<or> rf_EndLine a < 0) = False"
      "(0 < rf_StartLine a \<and> 0 < rf_EndLine a \<and> rf_EndLine a < rf_StartLine a) = False" by auto
    obtain w s1 where w: "server_workspace cfg (rf_Workspace a) (rf_Path a) s = (w, s1)" by fastforce
    note u1 = server_workspace_untouched [OF w]
    show ?thesis
    proof (cases w)
      case (Inl e)
      then have "s' = s1" using run w unfolding readFile_def i by (simp only: a if_False sum.case prod.case) simp
      then show ?thesis using u1 by (intro same) simp
    next
      case (Inr wb)
      define p where "p = wb_resolve wb (rf_Path a)"
      obtain rd s2 where rd: "readCapped p s1 = (rd, s2)" by fastforce
      note u2 = untouched_trans [OF u1 readCapped_reads(1) [OF rd]]
      have body: "(case rd of Inl e \<Rightarrow> ((TextResult (''read failed: '' @ e) True, None), s2)
          | Inr (full, truncated) \<Rightarrow>
              (case sliceLines full (rf_StartLine a) (rf_EndLine a) of
                 None \<Rightarrow> ((TextResult (''read failed: start_line '' @ json_int (rf_StartLine a)
                     @ '' is past the end of the file ('' @ itoa (count_byte newline full + 1) @ '' lines)'') True, None), s2)
               | Some visible \<Rightarrow> read_capture cfg rnd a wb p full truncated visible s2)) = (r, s')"
        using run w Inr rd unfolding readFile_def i p_def by (simp only: a if_False sum.case prod.case Let_def)
      show ?thesis
      proof (cases "\<exists>full truncated visible. rd = Inr (full, truncated) \<and> sliceLines full (rf_StartLine a) (rf_EndLine a) = Some visible")
        case False
        then have "s' = s2" using body by (auto split: sum.splits option.splits)
        then show ?thesis using u2 by (intro same) simp
      next
        case True
        then obtain full truncated visible where x: "rd = Inr (full, truncated)" "sliceLines full (rf_StartLine a) (rf_EndLine a) = Some visible" by blast
        have c: "read_capture cfg rnd a wb p full truncated visible s2 = (r, s')" using body x by simp
        have f: "ms_files s2 = ms_files s" "ms_files s1 = ms_files s" "ms_basis s2 = ms_basis s \<or> ms_basis s2 = []"
          using u1 u2 by (auto simp: untouched_def)
        have n: "\<not> truncated \<Longrightarrow> \<exists>n. map_of (ms_files s2) (path_clean p) = Some n \<and> fn_content n = full"
          using readCapped_reads(2) [OF rd, of full] x(1) f by auto
        show ?thesis using read_capture_effect [OF c f(3) n] f(1) by simp
      qed
    qed
  qed
qed

lemma capture_run_untouched: "capture_run cfg rnd r plan_for s = (x, s') \<Longrightarrow> untouched s s'"
  unfolding capture_run_def using mcp_capture_untouched by (metis apfst_conv prod.inject surj_pair)

lemma listDir_untouched: "listDir cfg rnd i s = (r, s') \<Longrightarrow> untouched s s'"
proof -
  assume run: "listDir cfg rnd i s = (r, s')"
  show ?thesis
  proof (cases i)
    case (Inl e)
    then show ?thesis using run by (simp add: listDir_def)
  next
    case (Inr a)
    obtain w s1 where w: "server_workspace cfg (ld_Workspace a) (ld_Path a) s = (w, s1)" by fastforce
    note u1 = server_workspace_untouched [OF w]
    show ?thesis
    proof (cases w)
      case (Inl e)
      then show ?thesis using run w \<open>i = Inr a\<close> u1 by (simp add: listDir_def)
    next
      case (Inr wb)
      obtain es s2 where rd: "os_ReadDir (wb_resolve wb (if ld_Path a = [] then ''.'' else ld_Path a)) s1 = (es, s2)" by fastforce
      have u2: "untouched s s2" by (rule untouched_trans [OF u1 os_ReadDir_untouched [OF rd]])
      have "s' = s2 \<or> (\<exists>sp. s' = snd (mcp_capture cfg rnd sp s2))"
        using run w \<open>i = Inr a\<close> Inr rd unfolding listDir_def Let_def failed_def
        by (auto simp: apfst_def map_prod_def split: sum.splits prod.splits) (metis snd_conv)+
      then show ?thesis using u2 untouched_trans [OF u2 mcp_capture_untouched [OF prod.collapse [symmetric]]] by metis
    qed
  qed
qed

text \<open>A process may change every file; the bases are kept or reset.\<close>

definition bases_kept :: "'c mcp \<Rightarrow> 'c mcp \<Rightarrow> bool" where
  "bases_kept s s' \<longleftrightarrow> ms_basis s' = ms_basis s \<or> ms_basis s' = []"

lemma bases_kept_refl [simp]: "bases_kept s s" by (simp add: bases_kept_def)

lemma bases_kept_trans: "bases_kept a b \<Longrightarrow> bases_kept b c \<Longrightarrow> bases_kept a c"
  by (auto simp: bases_kept_def)

lemma bases_kept_untouched: "untouched s s' \<Longrightarrow> bases_kept s s'"
  by (simp add: bases_kept_def untouched_def)

lemma run_argv_kept: "run_argv run argv dir s = (r, s') \<Longrightarrow> bases_kept s s'"
  by (auto simp: run_argv_def bases_kept_def split: prod.splits)

lemma runCommand_kept: "runCommand cfg run rnd i s = (r, s') \<Longrightarrow> bases_kept s s'"
proof -
  assume run: "runCommand cfg run rnd i s = (r, s')"
  show ?thesis
  proof (cases "\<exists>a. i = Inr a \<and> \<not> blank (rc_Command a)")
    case False
    then show ?thesis using run by (auto simp: runCommand_def bases_kept_def split: sum.splits if_splits)
  next
    case True
    then obtain a where i: "i = Inr a" "\<not> blank (rc_Command a)" by blast
    obtain wb dir w where w: "workspaceForCwd (mc_sha cfg) (mc_home cfg) (ms_files s) (rc_Cwd a) (ms_workspaces s) = ((wb, dir), w)"
      by (metis surj_pair)
    obtain x s1 where x: "run_argv run (shellArgv (rc_Command a)) dir (s\<lparr>ms_workspaces := w\<rparr>) = (x, s1)" by fastforce
    have k: "bases_kept s s1" using bases_kept_trans [OF bases_kept_untouched [OF untouched_workspaces] run_argv_kept [OF x]] .
    show ?thesis
    proof (cases x)
      case (Inl e)
      then show ?thesis using run i w x k by (simp add: runCommand_def failed_def)
    next
      case (Inr ex)
      then show ?thesis
        using run i w x bases_kept_trans [OF k bases_kept_untouched [OF capture_run_untouched]] by (simp add: runCommand_def)
    qed
  qed
qed

lemma grep_kept: "grep cfg engine run rnd i s = (r, s') \<Longrightarrow> bases_kept s s'"
proof -
  assume g: "grep cfg engine run rnd i s = (r, s')"
  show ?thesis
  proof (cases "\<exists>a. i = Inr a \<and> \<not> blank (gr_Pattern a) \<and> \<not> list_ex blank (if gr_Paths a = [] then [''.''] else gr_Paths a)")
    case False
    then show ?thesis using g by (auto simp: grep_def Let_def bases_kept_def split: sum.splits if_splits)
  next
    case True
    then obtain a where i: "i = Inr a" "blank (gr_Pattern a) = False" "list_ex blank (if gr_Paths a = [] then [''.''] else gr_Paths a) = False"
      by auto
    define paths where "paths = (if gr_Paths a = [] then [''.''] else gr_Paths a)"
    obtain w s1 where w: "server_workspace cfg (gr_Workspace a) (hd paths) s = (w, s1)" by fastforce
    note k1 = bases_kept_untouched [OF server_workspace_untouched [OF w]]
    show ?thesis
    proof (cases w)
      case (Inl e)
      then have "s' = s1"
        using g w unfolding grep_def i(1) Let_def sum.case i(2) paths_def [symmetric] i(3) [unfolded paths_def [symmetric]] if_False by simp
      then show ?thesis using k1 by simp
    next
      case (Inr wb)
      obtain x s2 where x: "run_argv run (grepArgv engine (gr_Pattern a) paths (gr_CaseInsensitive a) (gr_Include a)
          (\<lambda>p. is_dir (wb_resolve wb p) (ms_files s1))) (wb_Root wb) s1 = (x, s2)" by fastforce
      note k2 = bases_kept_trans [OF k1 run_argv_kept [OF x]]
      have "s' = s2 \<or> (\<exists>ex pf. s' = snd (capture_run cfg rnd ex pf s2))"
        using g w Inr x unfolding grep_def i(1) Let_def sum.case i(2) paths_def [symmetric] i(3) [unfolded paths_def [symmetric]] if_False
        by (auto simp: failed_def split: sum.splits) (metis snd_conv)+
      then show ?thesis using k2 bases_kept_trans [OF k2 bases_kept_untouched [OF capture_run_untouched [OF prod.collapse [symmetric]]]] by metis
    qed
  qed
qed

lemma runGitInspect_kept: "runGitInspect cfg run rnd wb argv pf s = (r, s') \<Longrightarrow> bases_kept s s'"
proof -
  assume g: "runGitInspect cfg run rnd wb argv pf s = (r, s')"
  obtain x s1 where x: "run_argv run argv (wb_Root wb) s = (x, s1)" by fastforce
  note k = run_argv_kept [OF x]
  show ?thesis
    using g x k bases_kept_trans [OF k bases_kept_untouched [OF capture_run_untouched]]
    by (cases x) (auto simp: runGitInspect_def failed_def)
qed

lemma gitStatus_kept: "gitStatus cfg run rnd i s = (r, s') \<Longrightarrow> bases_kept s s'"
  by (auto simp: gitStatus_def split: sum.splits if_splits intro: runGitInspect_kept)

lemma gitDiff_kept: "gitDiff cfg run rnd i s = (r, s') \<Longrightarrow> bases_kept s s'"
  by (auto simp: gitDiff_def split: sum.splits option.splits if_splits intro: runGitInspect_kept)

text \<open>A search leaves the files alone; it may only mark a basis as read.\<close>

lemma MarkRead_entry:
  "map_of (basis_MarkRead label b) l = Some e' \<Longrightarrow> \<exists>e. map_of b l = Some e \<and> same_basis e e'"
  by (auto simp: basis_MarkRead_def same_basis_def update_conv' split: option.splits if_splits)

lemma search_call_effect:
  assumes "search_call cfg a source s = (r, s')"
  shows "ms_files s' = ms_files s \<and> bases_from cfg s s'"
proof -
  obtain x c where x: "api_Search (mc_api cfg) (ms_session s) (search_input a source) (ms_calm s) = (x, c)" by fastforce
  show ?thesis
  proof (cases x)
    case (Inl e)
    have "s' = snd (sessionFailureSignal cfg (ms_session s) e (s\<lparr>ms_calm := c\<rparr>))"
      using assms x Inl by (auto simp: search_call_def split: prod.splits option.splits)
    then have "untouched (s\<lparr>ms_calm := c\<rparr>) s'" using sessionFailureSignal_frame untouched_outside by metis
    then have "untouched s s'" by (simp add: untouched_def)
    then show ?thesis by (simp add: untouched_def bases_from_kept)
  next
    case (Inr res)
    then have "s' = snd (search_found cfg a res (s\<lparr>ms_calm := c\<rparr>))" using assms x by (simp add: search_call_def)
    then have "ms_files s' = ms_files s" "ms_basis s' = ms_basis s \<or> ms_basis s' = basis_MarkRead (sa_Source a) (ms_basis s)"
      by (auto simp: search_found_def Let_def)
    then show ?thesis using MarkRead_entry by (auto simp: bases_from_def same_basis_def)
  qed
qed

lemma search_effect: "search cfg i s = (r, s') \<Longrightarrow> ms_files s' = ms_files s \<and> bases_from cfg s s'"
proof -
  assume run: "search cfg i s = (r, s')"
  have "s' = s \<or> (\<exists>a source. s' = snd (search_call cfg a source s))"
    using run by (auto simp: search_def split: sum.splits option.splits if_splits) (metis snd_conv)+
  then show ?thesis using search_call_effect [OF prod.collapse [symmetric]] bases_from_kept by metis
qed

section \<open>Runs\<close>

lemma bases_from_bases_kept: "bases_kept s s' \<Longrightarrow> bases_from cfg s s'"
  by (simp add: bases_kept_def bases_from_kept)

lemma mutations_undecoded:
  "editFile cfg rnd (Inl e) s = (arg_error e, s)" "writeFile cfg rnd (Inl e) s = (arg_error e, s)"
  by (simp_all add: editFile_def writeFile_def)

lemma editFile_bases: "editFile cfg rnd i s = (r, s') \<Longrightarrow> bases_from cfg s s'"
  by (cases i) (simp add: mutations_undecoded bases_from_untouched, blast dest: editFile_effect)

lemma writeFile_bases: "writeFile cfg rnd i s = (r, s') \<Longrightarrow> bases_from cfg s s'"
  by (cases i) (simp add: mutations_undecoded bases_from_untouched, blast dest: writeFile_effect)

lemma handler_bases: "handler cfg engine run t s = (r, s') \<Longrightarrow> bases_from cfg s s'"
  by (cases t) (auto intro: editFile_bases writeFile_bases bases_from_untouched bases_from_bases_kept
    dest: readFile_effect search_effect listDir_untouched runCommand_kept grep_kept gitStatus_kept gitDiff_kept)

lemma initialize_session_untouched: "untouched s (initialize_session cfg client s)"
  by (auto simp: initialize_session_def untouched_def Let_def split: prod.splits sum.splits)

lemma handleLine_bases: "handleLine cfg engine run l s = (out, s') \<Longrightarrow> bases_from cfg s s'"
proof -
  assume h: "handleLine cfg engine run l s = (out, s')"
  have "untouched s s' \<or> (\<exists>t. s' = snd (handler cfg engine run t s))"
  proof (cases l)
    case None
    then show ?thesis using h by (simp add: handleLine_def)
  next
    case (Some r)
    then have s': "s' = snd (dispatch cfg engine run r s)" using h by (auto simp: handleLine_def split: prod.splits)
    show ?thesis
    proof (cases "rq_call r")
      case (Initialize params)
      then have "s' = snd (handleInitialize cfg params s)" by (auto simp: s' dispatch_def split: prod.splits sum.splits)
      then show ?thesis
        using initialize_session_untouched by (auto simp: handleInitialize_def split: option.splits prod.splits)
    next
      case (ToolsCall params)
      then have s'': "s' = snd (handleToolCall cfg engine run params s)" by (simp add: s' dispatch_def)
      show ?thesis
      proof (cases params)
        case (Some t)
        then have "s' = snd (handler cfg engine run t s)"
          by (cases "handler cfg engine run t s") (simp add: s'' handleToolCall_def invokeTool_def)
        then show ?thesis by blast
      qed (simp add: s'' handleToolCall_def)
    qed (simp_all add: s' dispatch_def)
  qed
  then show ?thesis using handler_bases [OF prod.collapse [symmetric]] bases_from_untouched by metis
qed

text \<open>A run of the server: lines it handles, and changes from outside between them.\<close>

datatype 'c mcp_event = Line "request option" | Outside files "string option list" int 'c

fun mcp_step :: "'c mcp_config \<Rightarrow> string \<Rightarrow> runner \<Rightarrow> 'c mcp_event \<Rightarrow> 'c mcp \<Rightarrow> 'c mcp" where
  "mcp_step cfg engine run (Line l) s = snd (handleLine cfg engine run l s)"
| "mcp_step cfg engine run (Outside fs faults now c) s = s\<lparr>ms_files := fs, ms_faults := faults, ms_now := now, ms_calm := c\<rparr>"

definition mcp_run :: "'c mcp_config \<Rightarrow> string \<Rightarrow> runner \<Rightarrow> 'c mcp_event list \<Rightarrow> 'c mcp \<Rightarrow> 'c mcp" where
  "mcp_run cfg engine run evs s = fold (mcp_step cfg engine run) evs s"

lemma mcp_run_snoc: "mcp_run cfg engine run (evs @ [ev]) s = mcp_step cfg engine run ev (mcp_run cfg engine run evs s)"
  by (simp add: mcp_run_def)

text \<open>A label that stands for a content the file has at this moment.\<close>

definition vouched :: "'c mcp_config \<Rightarrow> 'c mcp \<Rightarrow> string \<Rightarrow> string \<Rightarrow> string \<Rightarrow> bool" where
  "vouched cfg s l q h \<longleftrightarrow> (\<exists>e. map_of (ms_basis s) l = Some e \<and> be_path e = q \<and> be_hash e = h)
     \<and> (\<exists>m. map_of (ms_files s) q = Some m \<and> contentHash (mc_sha cfg) (fn_content m) = h)"

text \<open>Every basis was recorded by an earlier line, after which its file had the content it stands for.\<close>

lemma bases_vouched:
  assumes "ms_basis s0 = []" "map_of (ms_basis (mcp_run cfg engine run evs s0)) l = Some e"
  shows "\<exists>pre line post. evs = pre @ Line line # post
    \<and> vouched cfg (mcp_run cfg engine run (pre @ [Line line]) s0) l (be_path e) (be_hash e)"
  using assms(2)
proof (induction evs arbitrary: e rule: rev_induct)
  case Nil
  then show ?case using assms(1) by (simp add: mcp_run_def)
next
  case (snoc ev evs)
  let ?s = "mcp_run cfg engine run evs s0"
  have earlier: "?case" if kept: "map_of (ms_basis ?s) l = Some e1" "same_basis e1 e" for e1
  proof -
    obtain pre line post where "evs = pre @ Line line # post"
      "vouched cfg (mcp_run cfg engine run (pre @ [Line line]) s0) l (be_path e1) (be_hash e1)"
      using snoc.IH [OF kept(1)] by blast
    then show ?thesis using kept(2) by (intro exI [of _ pre] exI [of _ line] exI [of _ "post @ [ev]"]) (simp add: same_basis_def)
  qed
  show ?case
  proof (cases ev)
    case (Outside fs faults now c)
    then have "map_of (ms_basis ?s) l = Some e" using snoc.prems by (simp add: mcp_run_snoc)
    then show ?thesis by (rule earlier) (simp add: same_basis_def)
  next
    case (Line line)
    have "bases_from cfg ?s (mcp_run cfg engine run (evs @ [ev]) s0)"
      using handleLine_bases [OF prod.collapse [symmetric]] Line by (simp add: mcp_run_snoc)
    then consider e1 where "map_of (ms_basis ?s) l = Some e1" "same_basis e1 e"
      | "holds cfg (mcp_run cfg engine run (evs @ [ev]) s0) e"
      using snoc.prems unfolding bases_from_def by blast
    then show ?thesis
    proof cases
      case 1
      then show ?thesis by (rule earlier)
    next
      case 2
      then have "vouched cfg (mcp_run cfg engine run (evs @ [ev]) s0) l (be_path e) (be_hash e)"
        using snoc.prems by (simp add: vouched_def holds_def)
      then show ?thesis using Line by blast
    qed
  qed
qed

text \<open>The label that a mutating call names as its basis.\<close>

fun named_basis :: "tool_call \<Rightarrow> string option" where
  "named_basis (EditFile rnd (Inr a)) = Some (ed_Basis a)"
| "named_basis (WriteFile rnd (Inr a)) = Some (wr_Basis a)"
| "named_basis t = None"

lemma mutation_authorised:
  assumes "named_basis t = Some label" "handler cfg engine run t s = (r, s')" "map_of (ms_files s) q = Some n"
    "map_of (ms_files s') q \<noteq> Some n"
  shows "authorised cfg s label q n"
proof (cases t)
  case (EditFile rnd i)
  then obtain a where i: "i = Inr a" "label = ed_Basis a" using assms(1) by (cases i) auto
  then have "editFile cfg rnd (Inr a) s = (r, s')" using assms(2) EditFile by simp
  from editFile_effect [OF this] have "edited cfg a s s'" using assms(3,4) by auto
  then show ?thesis using assms(3,4) i(2) by (auto simp: edited_def authorised_def update_conv' split: if_splits)
next
  case (WriteFile rnd i)
  then obtain a where i: "i = Inr a" "label = wr_Basis a" using assms(1) by (cases i) auto
  then have "writeFile cfg rnd (Inr a) s = (r, s')" using assms(2) WriteFile by simp
  from writeFile_effect [OF this] have "written cfg a s s'" using assms(3,4) by auto
  then show ?thesis using assms(3,4) i(2) by (auto simp: written_def authorised_def update_conv' split: if_splits)
qed (use assms(1) in simp_all)

end
