(* ===== verification/Spec2Isabelle.thy ===== *)
theory Spec2Isabelle
  imports Api_Guard Chunk_Registry Alloc_MMR Snippet System Event_Hash Session_Runs Mcp_Guard
begin

text \<open>
  A model of CALM: a service (cmd/calm) that keeps the output of an agent's tool calls as searchable
  chunks, and the adapter of the agent's harness (cmd/calm-adapter, cmd/calm-capture) that feeds it.
  Every definition is translated from the Go source under src/; its name is the name in the source
  where Isabelle allows it. This theory holds sample inputs, facts that span components, and the
  properties C1 to C40.

  \<^bold>\<open>The service.\<close> A request passes the middleware of internal/server, is answered by a handler of
  internal/api/handlers, which calls one service (internal/session, clientreg, ingest, search,
  snapshot, feedback), which works on the repositories of internal/db.

  \<^item> Prelude, Go_Strings, Go_Text, Go_Path, Go_Regex, Go_Json, Go_JsonScan: what the program uses of
    Go's standard library, written out: bytes and runes, strings, path/filepath, regexp with
    leftmost-first preference, encoding/json in both directions. A Go string is a list of bytes.
  \<^item> Chunk_Core, Chunk_Formats, Chunk_Json, Chunk_Table, Chunk_Metrics, Chunk_Markdown, Chunk_Detect,
    Chunk_Registry (internal/ingest/chunk): the eight chunkers, format detection, and \<open>Split\<close> over
    the registry. The locales \<open>chunker\<close> and \<open>faithful_chunker\<close> hold the contract of a chunker and
    are interpreted on the chunkers of the code. Lemmas: every chunk is within chunkMaxBytes, non-empty and
    well-formed; text-like formats keep every non-blank rune in order.
  \<^item> Alloc_Core, Alloc_Greedy, Alloc_Score, Alloc_Knapsack, Alloc_MMR (internal/search/allocators.go):
    the five budget allocators against one contract (locales \<open>allocator\<close>, \<open>ordered_allocator\<close>), the
    knapsack table against its recursive value, the largest-remainder shares.
  \<^item> Db_Models, Store_Core, Store_Repos, Search_Store, Snippet, Event_Hash (internal/db): the tables as lists
    of rows, statements and transactions with rollback, every repository method with its checks in
    order. Store_Inv: the invariant of the tables, kept by every method on every outcome.
  \<^item> Auth_Secrets, Session_Service, Client_Service, Ingest, Search_Service, Snapshot_Service,
    Feedback_Service: the services. The vocabulary is exact, the token cache agrees with the table.
  \<^item> System: the service as a transition system; a step is a request, a scan of the expiry scanner, a
    move of a clock, or new storage faults. Tenant: each operation changes rows of its namespace only.
  \<^item> Server_Config: validation of the configuration, secret references, the registry of namespaces.
  \<^item> Api_Handlers, Api_Server, Api_Guard: the handlers with all status codes and bodies, the middleware
    chain of \<open>NewHandler\<close>, and what follows for whole requests: they refine the steps of System, they
    are confined to their tenant, refused requests change nothing. \<open>request_relation\<close> is the locale of
    the relations that all service calls keep, interpreted on the steps and on the tenants.

  \<^bold>\<open>The adapter.\<close> It runs next to the harness, derives a source label and events from a tool call
  (internal/adapter/extract), and delivers the output to the service (internal/adapter/calm) under a
  session whose state lies on disk (internal/adapter/session) or in the MCP server
  (internal/adapter/mcp).

  \<^item> Extract_Command, Extract_Label, Extract_Plan: command lines, the grammar of labels, the plan of
    every tool, with diffs and error facts.
  \<^item> Calm_Client: the port onto the service, and its client over the responses of the generated one.
  \<^item> Capture_Registry, Capture_Engine, Capture_Cards: staleness tokens, the capture pipeline shared by
    both shells (locale of a shell, interpreted on the MCP server and the session manager), the cards.
  \<^item> Session_Manager, Session_Spool: the operations on the state of a conversation, the event spool
    and the garbage collection. Session_History, Session_Runs: an abstract automaton of the state,
    the simulation by every operation, and the histories of a conversation.
  \<^item> Mcp_Workspace, Mcp_Server, Mcp_Files, Mcp_Tools, Mcp_Rpc: workspaces, the session of the MCP server, the file
    tools with their basis check, the inspection tools, the loop over input lines. Mcp_Guard: the
    provenance of a basis over a run, and what a mutating tool does to the files.

  \<^bold>\<open>Conventions.\<close> Errors are values of a sum type, effects are explicit state, integers that may
  overflow or are stored in bit rows are words, byte counts are int or nat as the code compares
  them. Times are microseconds in the store and the conversations, nanoseconds in configuration. A loop that the
  code does not bound is a partial function with values in option, None meaning that it does not
  return (chunking); there is no fuel. One such loop diverges on bytes that are not UTF-8, which a
  decoded request never has; on UTF-8 \<open>Split\<close> always returns.

  \<^bold>\<open>Parameters.\<close> Code that is not in the repository is an argument: SHA-256, the UUID package, the LRU
  container (laws \<open>lru_ok\<close>), floating point (\<open>fops\<close>; \<open>exact\<close> is rational arithmetic), Unicode case tables and
  letter classes, the lexer and the scores of the text-search extension, goldmark (\<open>parse_ok\<close>: its line ranges are in
  order and within the document), go-difflib, the decimal text of a float, strconv.Quote, the
  generated HTTP client, what a process does, the token bucket, the OpenAPI validator, routing and decoding
  (\<open>routed\<close>), the time format of a snapshot. What is assumed of them is in the statements by name.

  \<^bold>\<open>Faults and order.\<close> Any statement, commit or local file operation may fail, as a list of faults
  in the state says; an append to the spool may be torn. Requests, the scans, the operations of a conversation under its
  lock, and the lines of the MCP server run one after another: the interleaving is at these units,
  and statements within one transaction are not interleaved with others.

  \<^bold>\<open>Not modelled.\<close> Logging, tracing and metrics (internal/obs, adapter/obs besides its phrases): they carry no state
  the code reads. Timeouts and cancellation, the panic recovery and TLS. The goroutine and ticker of the expiry scanner (a scan is
  modelled). Reading YAML and the environment (viper). Migrations, connection set-up
  and preflight (SQL and driver calls). Process creation, locks and paths of Windows; symbolic
  links. Generated code (genapi besides its types and routes, the mocks). The command
  line calm-capture (internal/adapter/capturecli) and its configuration. The main functions.
\<close>

section \<open>Inputs of the witnesses\<close>

definition three_formats :: registry where
  "three_formats = register formatStacktrace stacktraceChunks
     (register formatLog logChunks (register formatText textChunks (\<lambda>_. None)))"

lemma three_formats_ok: "registry_ok three_formats" "registry_faithful three_formats"
  using plain.chunker_axioms log.chunker_axioms stacktrace.chunker_axioms
    plain.faithful_chunker_axioms log.faithful_chunker_axioms stacktrace.faithful_chunker_axioms
  by (auto simp: registry_ok_def registry_faithful_def three_formats_def register_def split: if_splits)

lemma ascii_not_blank: "\<forall>c\<in>set s. byte c < 128 \<Longrightarrow> \<exists>c\<in>set s. \<not> is_space (byte c) \<Longrightarrow> \<not> blank s"
  using blank_ink [OF ascii_valid] by (auto simp: ink_def ascii_runes filter_empty_conv)

definition traceback :: string where "traceback = ''Traceback (most recent call last):''"

definition two_traces :: string where
  "two_traces = traceback @ [newline] @ traceback"

lemma traceback_line: "\<not> is_chain traceback" "is_trace_start traceback ls" "\<not> blank traceback"
  "trim_right_nl traceback = traceback"
proof -
  show "\<not> is_chain traceback" by code_simp
  have "re_matches pythonTracebackRe traceback" by code_simp
  then show "is_trace_start traceback ls" by (simp add: is_trace_start_def)
  show "\<not> blank traceback" by (rule ascii_not_blank) (simp_all add: traceback_def is_space_def)
  show "trim_right_nl traceback = traceback" by (simp add: traceback_def trim_right_set_def newline_def)
qed

lemma two_traces_length: "length (the (stacktraceChunks [] two_traces [])) = 2"
proof -
  have "split_byte newline two_traces = [traceback, traceback]"
    by (simp add: two_traces_def traceback_def newline_def)
  then show ?thesis
    by (simp add: stacktraceChunks_def trace_flush_def Let_def traceback_line hasReportBody_def)
qed

definition sample_candidate :: "nat \<Rightarrow> rat candidate" where
  "sample_candidate n = \<lparr>hit = \<lparr>hTitle = ''t'', hSnippet = ''a b'', hSource = ''s'', hMatchLayer = ''primary'',
     hTruncated = False, hSnippetFallback = False, hRelevance = 1, hMatchesAll = True\<rparr>,
     csize = n, relevance = 1\<rparr>"

definition sample_input :: "rat allocInput" where
  "sample_input = \<lparr>queries = [''q'', ''r''], candidates = [[sample_candidate 3, sample_candidate 4], [sample_candidate 5]],
     budget = 9\<rparr>"

section \<open>A small server state\<close>

definition words_of :: lexer where "words_of code s = (if s = [] then [] else [s])"

lemma words_of_distinct: "lexer_distinct words_of" by (simp add: lexer_distinct_def words_of_def)

definition a_session :: "int \<Rightarrow> string \<Rightarrow> session_row" where
  "a_session i tok = \<lparr>se_id = i, se_ns = ''n'', se_hash = HashToken id ''n'' tok, se_client = DefaultClient, se_created = 0,
     se_last = 0, se_ttl = 30, se_expires = 1800000000\<rparr>"

definition a_client :: "string \<Rightarrow> string option \<Rightarrow> client_row" where
  "a_client name h = \<lparr>cl_ns = ''n'', cl_name = name, cl_created = 0, cl_last_activity = None, cl_hash = h, cl_issued = None,
     cl_rotated = None\<rparr>"

definition two_sessions :: tables where
  "two_sessions = empty_tables\<lparr>clients := [a_client DefaultClient None, a_client ''c'' (Some (HashToken id ''n'' ''old''))],
     sessions := [a_session 1 ''t'', a_session 2 ''u''], next_session := 3\<rparr>"

definition sample_db :: db where
  "sample_db = \<lparr>tabs = two_sessions, db_now = 0, app_now = 0, faults = []\<rparr>"

lemma sample_tables_ok: "db_ok lx two_sessions" "tables_ok two_sessions"
proof -
  show "tables_ok two_sessions"
    by (simp add: tables_ok_def table_defs two_sessions_def empty_tables_def a_session_def a_client_def DefaultClient_def HashToken_def)
  then show "db_ok lx two_sessions"
    by (simp add: db_ok_def vocab_exact_def freq_of_def session_chunks_def two_sessions_def empty_tables_def)
qed

lemma sample_db_ok: "db_ok lx (tabs sample_db)" "tables_ok (tabs sample_db)" "faults sample_db = []"
  using sample_tables_ok by (simp_all add: sample_db_def)

lemma sample_in: "session_in (tabs sample_db) ''n'' 1" "session_in (tabs sample_db) ''n'' 2"
  by (simp_all add: session_in_def sample_db_def two_sessions_def a_session_def)

definition sample_svc :: "(unit, unit) svc" where
  "sample_svc = \<lparr>sv_db = sample_db, sv_cache = NoopCache, sv_idem = None\<rparr>"

lemma sample_svc_ok: "svc_ok sha A lx sample_svc"
  using sample_db_ok(1) by (simp add: svc_ok_def sample_svc_def token_cache.entries_def)

lemma no_entries: "token_cache.entries P NoopCache" by (simp add: token_cache.entries_def)

lemma id_collision_free: "collision_free id A"
  by (simp add: collision_free_def HashToken_def inj_on_def)

lemma fst_Inr: "fst p = Inr x \<Longrightarrow> p = (Inr x, snd p)" by (cases p) simp

text \<open>Text search by equality, ranks all zero.\<close>

definition sample_search :: "rat text_search" where
  "sample_search = \<lparr>ts_lex = words_of, ts_bm_title = \<lambda>_ _ _ _. 0, ts_bm_content = \<lambda>_ _ _ _. 0, ts_similarity = \<lambda>_ _. 0,
     ts_word_similar = (=)\<rparr>"

definition ascii :: unicode where
  "ascii = \<lparr>u_lower = id, u_letter = (\<lambda>r. 97 \<le> r \<and> r \<le> 122), u_digit = (\<lambda>r. 48 \<le> r \<and> r \<le> 57), s_lower = id\<rparr>"

definition sample_env :: "rat env" where
  "sample_env = \<lparr>e_sha = id, e_lexer = words_of, e_float = exact, e_unicode = ascii, e_text = sample_search,
     e_uuid = \<lparr>uuid_version = \<lambda>_. 7, uuid_time = \<lambda>_. 0\<rparr>, e_stamp = \<lambda>_. [], e_tokens = UNIV\<rparr>"

lemma sample_env_ok: "env_ok sample_env"
  by (simp add: env_ok_def sample_env_def id_collision_free words_of_distinct)

lemma sample_env_simps: "e_sha sample_env = id" "e_lexer sample_env = words_of" "e_tokens sample_env = UNIV"
  by (simp_all add: sample_env_def)

definition two_chunks :: "db_chunk list" where
  "two_chunks = [\<lparr>Title = ''a'', Content = ''x'', ContentType = ''prose''\<rparr>, \<lparr>Title = ''b'', Content = ''y'', ContentType = ''prose''\<rparr>]"

lemma two_chunks_indexed: "indexed two_chunks = two_chunks"
  by (simp add: indexed_def two_chunks_def maxChunksPerSource_def)

text \<open>A chunk stored by an earlier ingest.\<close>

definition stored_db :: db where
  "stored_db = sample_db\<lparr>tabs := (tabs sample_db)\<lparr>
     sources := [\<lparr>so_id = 1, so_session = 1, so_label = ''s'', so_indexed = 0\<rparr>],
     chunks := [\<lparr>ch_id = 1, ch_source = 1, ch_title = ''a'', ch_content = ''x'', ch_type = ''prose''\<rparr>],
     vocabulary := [\<lparr>vo_session = 1, vo_word = ''x'', vo_freq = 1\<rparr>], next_source := 2, next_chunk := 2\<rparr>\<rparr>"

lemma stored_db_ok: "tables_ok (tabs stored_db)" "faults stored_db = []"
  by (simp_all add: tables_ok_def table_defs stored_db_def sample_db_def two_sessions_def empty_tables_def a_session_def a_client_def
      DefaultClient_def HashToken_def)




text \<open>A cache of size zero, no idempotency store; one request.\<close>

abbreviation no_cache :: "unit sess_cache" where "no_cache \<equiv> NoopCache"

abbreviation no_dedup :: "unit idempotencyStore option" where "no_dedup \<equiv> None"

lemma registered_reachable:
  "reachable sample_env (boot 0 [''n''] no_cache no_dedup) (snd (on_db (Register ''n'' ''c'') (boot 0 [''n''] no_cache no_dedup)))"
  by (rule reachable.more [OF reachable.start step.register_client [OF prod.collapse [symmetric]]])

lemma sample_delete: "fst (Session_Delete id ''n'' ''t'' sample_svc) = Inr (1, no_cascade)"
  by code_simp


lemma two_chunks_taken: "take maxChunksPerSource two_chunks = two_chunks"
  by (simp add: two_chunks_def maxChunksPerSource_def)

lemma two_chunks_fit: "\<forall>c\<in>set two_chunks. int (wireSize (full_hit exact (doc_of ''s'' c))) \<le> 1000"
  by code_simp

definition sample_query :: db_search_input where
  "sample_query = \<lparr>inSessionID = 1, inQuery = ''x'', inSource = [], inLimit = 5\<rparr>"









lemma sample_client_delete: "fst (Clients_Delete ''n'' ''c'' sample_db) = Inr (0, no_cascade)"
  by code_simp

lemma sample_rotate: "fst (RotateToken id (Some [1]) ''n'' ''c'' sample_db) = Inr (RawURLEncoding [1])"
  by code_simp

lemma sample_credential: "fst (Register_Credential id (Some [1]) ''n'' ''new'' sample_db) = Inr (RawURLEncoding [1])"
  by code_simp






section \<open>More inputs\<close>

text \<open>A parser that knows one heading; a HELP line longer than a chunk; a call of the adapter.\<close>

definition sample_parse :: "string \<Rightarrow> md_block list" where
  "sample_parse s = (if s = ''# t'' then [Heading 1 [(2, 3)]] else [])"

lemma sample_parse_ok: "\<forall>content. parse_ok sample_parse content"
proof
  fix content
  have "md_span ''# t'' (Heading 1 [(2, 3)]) = Some (0, 0)" by code_simp
  then show "parse_ok sample_parse content"
    by (simp add: parse_ok_def sample_parse_def at_line_def)
qed

lemma rmatch_star_set:
  "rmatch (RStar (RSet P)) (p, []) = [(p, [])]"
  "rmatch (RStar (RSet P)) (p, c # s) = (if P c then rmatch (RStar (RSet P)) (Some c, s) else []) @ [(p, c # s)]"
  by simp_all

lemma help_line:
  "promComment_name (''# HELP a '' @ s) = Some ''a''" "promComment_kind (''# HELP a '' @ s) = Some ''HELP''"
  by (simp_all add: promComment_name_def promComment_kind_def re_submatch_def r_char_def spaces1_def comment_kind_def metric_name_def
    name_start_def name_rest_def r_plus_def rmatch_star_set digit_char_def re_space_def del: rmatch.simps(4))

definition long_help :: string where "long_help = ''# HELP a '' @ replicate 4100 CHR ''x''"

lemma long_help_ok:
  "newline \<notin> set long_help" "trim_right_cr long_help = long_help" "\<not> blank long_help" "length long_help > chunkMaxBytes"
  "promComment_name long_help = Some ''a''" "promComment_kind long_help = Some ''HELP''"
proof -
  show "newline \<notin> set long_help" by (auto simp: long_help_def newline_def)
  show "trim_right_cr long_help = long_help"
    by (simp add: long_help_def trim_right_cr_def trim_right_set_def)
  show "\<not> blank long_help" by (rule ascii_not_blank) (auto simp: long_help_def is_space_def)
  show "length long_help > chunkMaxBytes" by (simp add: long_help_def chunkMaxBytes_def)
  show "promComment_name long_help = Some ''a''" "promComment_kind long_help = Some ''HELP''"
    by (simp_all only: long_help_def help_line)
qed

definition sample_call :: invocation where
  "sample_call = \<lparr>inv_Seq = 7, inv_Command = ''cat f.go'', inv_Cwd = [], inv_WorkspaceRoot = ''/w'', inv_WorkspaceID = []\<rparr>"

definition sample_exec :: ExecResult where
  "sample_exec = \<lparr>ex_Stderr = [], ex_ExitCode = 0, ex_TimedOut = False\<rparr>"

text \<open>A service that accepts everything, and one conversation on it.\<close>

definition sample_api :: "unit calm_api" where
  "sample_api =
     \<lparr>api_RegisterClient = \<lambda>n c. (Inr True, c), api_CreateSession = \<lambda>n ttl key c. (Inr ''tok'', c),
      api_DeleteSession = \<lambda>token c. (Inr (), c),
      api_Ingest = \<lambda>token i c. (Inr \<lparr>is_Source = ii_Source i, is_SectionsIndexed = 1, is_SectionsTotal = 1,
        is_SummaryTruncated = False, is_Sections = [], is_DistinctiveTerms = [], is_CorrelationID = []\<rparr>, c),
      api_Search = \<lambda>token i c. (Inr \<lparr>sr_Queries = [], sr_NextOffset = None, sr_CorrelationID = []\<rparr>, c),
      api_WriteEvents = \<lambda>token es c. (Inr (), c), api_Feedback = \<lambda>token ref outcome c. (Inr (), c)\<rparr>"

definition sample_manager :: "unit manager" where
  "sample_manager =
     \<lparr>mg_api = sample_api, mg_sha = id, mg_quote = id, mg_sessionID = ''c1'', mg_client = ''x'', mg_ttlMin = 60\<rparr>"

definition sample_host :: "unit host" where
  "sample_host = \<lparr>w_state = None, w_spool = None, w_inflight = [], w_calm = (), w_now = 0, w_faults = []\<rparr>"

definition sample_spec :: spec where
  "sample_spec =
     \<lparr>sp_Ingest = ''x'', sp_Visible = ''x'',
      sp_Res = \<lparr>rs_Stdout = ''x'', rs_Stderr = [], rs_ExitCode = 0, rs_TimedOut = False, rs_Truncated = False\<rparr>,
      sp_RangedView = False, sp_Plan = \<lambda>n. Some (PlanListDir id (sample_call\<lparr>inv_Seq := n\<rparr>) sample_exec ''d'')\<rparr>"

definition sample_options :: presentOptions where
  "sample_options = \<lparr>po_recall = ''calm_search'', po_card = None\<rparr>"

definition sample_random :: string where "sample_random = replicate 16 CHR ''a''"

lemma sample_reliable [simp]: "w_faults sample_host = []" by (simp add: sample_host_def)

lemma sample_ensured:
  "Manager_Ensure sample_manager sample_host
   = (Inr (''tok'', 1), sample_host\<lparr>w_state := Some ((newState sample_manager 0)\<lparr>st_SessionToken := ''tok'', st_Client := ''x'', st_NextAttemptAt := zero_time, st_Seq := 1\<rparr>)\<rparr>)"
  by (simp add: Manager_Ensure_def locked_def store_lock_reliable Manager_load_def store_load_reliable(2) ownedState_def
      ensure_body_def throttleActive_def establish_def Manager_register_def create_def saved_def store_save_reliable
      sample_host_def sample_manager_def sample_api_def newState_def zero_time_def)

lemma sample_sources:
  "pl_LatestSource (PlanListDir id (sample_call\<lparr>inv_Seq := 1\<rparr>) sample_exec ''d'') = ''calm:v1:file:list:d''"
  "pl_HistorySource (PlanListDir id (sample_call\<lparr>inv_Seq := 1\<rparr>) sample_exec ''d'') = []"
  by code_simp+

lemma sample_label:
  assumes "Capture id sample_options (manager_shell sample_manager) sample_random sample_spec sample_host = (out, w)"
  shows "oc_Label out \<noteq> []"
proof -
  have s: "sp_Plan sample_spec = (\<lambda>n. Some (PlanListDir id (sample_call\<lparr>inv_Seq := n\<rparr>) sample_exec ''d''))"
    "mg_api sample_manager = sample_api" "po_card sample_options = None"
    "api_Ingest sample_api = (\<lambda>token i c. (Inr \<lparr>is_Source = ii_Source i, is_SectionsIndexed = 1, is_SectionsTotal = 1,
        is_SummaryTruncated = False, is_Sections = [], is_DistinctiveTerms = [], is_CorrelationID = []\<rparr>, c))"
    by (simp_all add: sample_spec_def sample_manager_def sample_options_def sample_api_def)
  have f: "fuseSource (CHR ''c'' # x) t \<noteq> []" for x t by (simp add: fuseSource_def)
  show ?thesis
    using assms
    by (auto simp: Capture_def manager_shell_def sample_ensured s Let_def Deliver_def dualWriteIngest_def
        write_source_def sample_sources fan_input_def present_def f)
qed

lemma sample_plans: "\<forall>n p. sp_Plan sample_spec n = Some p \<longrightarrow> (\<exists>sha iv. labelled sha iv p \<and> inv_Seq iv = n)"
proof (intro allI impI)
  fix n p assume "sp_Plan sample_spec n = Some p"
  then have p: "p = PlanListDir id (sample_call\<lparr>inv_Seq := n\<rparr>) sample_exec ''d''" by (simp add: sample_spec_def)
  then have "plan_of id id (\<lambda>a b c. a) ''linux'' (sample_call\<lparr>inv_Seq := n\<rparr>) sample_exec p" by (auto simp: plan_of_def)
  then have "labelled id (sample_call\<lparr>inv_Seq := n\<rparr>) p" by (rule plan_of_labelled)
  then show "\<exists>sha iv. labelled sha iv p \<and> inv_Seq iv = n" by (intro exI [of _ id] exI [of _ "sample_call\<lparr>inv_Seq := n\<rparr>"]) simp
qed

definition sample_acts :: "unit action list" where
  "sample_acts = [AEnsure sample_manager, ARecord sample_manager ''tok'' [\<lparr>tk_Source = ''s'', tk_Token = ''t''\<rparr>],
     AEnqueue sample_manager ''tok'' [\<lparr>ei_Type = ''e'', ei_Priority = 1, ei_Data = Map.empty\<rparr>], ADrain sample_manager 1]"

lemma sample_conversation: "conversation ''c1'' sample_acts" "w_state sample_host = None" "w_spool sample_host = None"
  by (simp_all add: conversation_def sample_acts_def sample_manager_def sample_host_def)



definition sample_summary :: ingestSummary where
  "sample_summary = \<lparr>is_Source = ''s'', is_SectionsIndexed = 1, is_SectionsTotal = 1, is_SummaryTruncated = False,
     is_Sections = [], is_DistinctiveTerms = [], is_CorrelationID = []\<rparr>"

text \<open>The MCP server on a small disk, with a service that accepts everything.\<close>

definition sample_server_config :: "unit mcp_config" where
  "sample_server_config =
     \<lparr>mc_api = sample_api, mc_sha = id, mc_quote = id, mc_lower = id, mc_unified = \<lambda>a b c. a, mc_goos = ''linux'', mc_home = ''/h'',
      mc_name = ''calm'', mc_version = ''1'', mc_defaultClient = ''x'', mc_ttlMinutes = 60, mc_idemKey = [], mc_keepSession = False\<rparr>"

definition sample_disk :: files where
  "sample_disk = [(''/w'', \<lparr>fn_isDir = True, fn_content = [], fn_perm = 0\<rparr>), (''/w/f'', file_of ''ab'' 0)]"

definition no_process :: runner where
  "no_process argv dir fs = (\<lparr>pr_stdout = [], pr_stderr = [], pr_end = Finished, pr_deadline = False\<rparr>, fs)"

definition sample_server :: "unit mcp" where
  "sample_server = NewServer sample_server_config ''/w'' sample_disk [] 0 ()"

definition sample_read :: "unit mcp_event list" where
  "sample_read = [Line (Some \<lparr>rq_ID = Some ''1'', rq_call = ToolsCall (Some (ReadFile sample_random
     (Inr \<lparr>rf_Path = ''f'', rf_StartLine = 0, rf_EndLine = 0, rf_Workspace = []\<rparr>)))\<rparr>)]"

definition sample_edit :: "string \<Rightarrow> editFileArgs" where
  "sample_edit label = \<lparr>ed_Path = ''f'', ed_Basis = label, ed_OldString = ''b'', ed_NewString = ''c'', ed_ReplaceAll = False, ed_Workspace = []\<rparr>"

definition sample_label_text :: string where "sample_label_text = ''calm:v1:file:read:f@bbbbbb''"

definition sample_binding :: WorkspaceBinding where "sample_binding = \<lparr>wb_ID = ''w'', wb_Root = ''/w''\<rparr>"

definition sample_workspaces :: workspaceSet where
  "sample_workspaces = \<lparr>ws_bindings = [sample_binding], ws_usedIDs = [''w''], ws_dirAnchors = []\<rparr>"

lemma sample_server_parts [simp]:
  "ms_files sample_server = sample_disk" "ms_faults sample_server = []" "ms_basis sample_server = []"
  "ms_workspaces sample_server = sample_workspaces"
proof -
  have "newWorkspaceSet ''/h'' sample_disk ''/w'' = sample_workspaces" by code_simp
  then show "ms_files sample_server = sample_disk" "ms_faults sample_server = []" "ms_basis sample_server = []"
    "ms_workspaces sample_server = sample_workspaces"
    by (simp_all add: sample_server_def NewServer_def sample_server_config_def)
qed

text \<open>A state that looks like the sample server to the file tools.\<close>

definition like_sample :: "unit mcp \<Rightarrow> bool" where
  "like_sample s \<longleftrightarrow> ms_files s = sample_disk \<and> ms_faults s = [] \<and> ms_workspaces s = sample_workspaces"

lemma sample_at: "wb_resolve sample_binding ''f'' = ''/w/f''" "path_clean ''/w/f'' = ''/w/f''" "path_dir ''/w/f'' = ''/w''" "path_clean ''/w'' = ''/w''"
  by code_simp+

lemma sample_node: "map_of sample_disk ''/w/f'' = Some (file_of ''ab'' 0)" "map_of sample_disk ''/w'' = Some \<lparr>fn_isDir = True, fn_content = [], fn_perm = 0\<rparr>"
  by (simp_all add: sample_disk_def)

lemma file_of_simps [simp]: "fn_isDir (file_of c p) = False" "fn_content (file_of c p) = c" "fn_perm (file_of c p) = p"
  by (simp_all add: file_of_def)

lemma sample_io:
  assumes "like_sample s"
  shows "server_workspace cfg [] ''f'' s = (Inr sample_binding, s)" "os_Stat ''/w/f'' s = (Found (file_of ''ab'' 0), s)"
    "readFull ''/w/f'' s = (Inr ''ab'', s)" "readCapped ''/w/f'' s = (Inr (''ab'', False), s)"
    "atomicWriteFile ''/w/f'' c p s = (None, s\<lparr>ms_files := AList.update ''/w/f'' (file_of c p) sample_disk\<rparr>)"
  using assms
  by (simp_all add: like_sample_def server_workspace_def workspaceForPath_def is_abs_def slash_def primary_def sample_workspaces_def
    os_Stat_def next_io_def node_def sample_at sample_node readFull_def os_ReadFile_def readCapped_def MaxOutputBytes_def
    atomicWriteFile_def is_dir_def file_of_def)

lemma sample_edit_lands:
  assumes "like_sample s" "map_of (ms_basis s) lab = Some e" "be_path e = ''/w/f''" "be_hash e = contentHash id ''ab''" "\<not> blank lab"
  shows "ms_files (snd (editFile sample_server_config rnd (Inr (sample_edit lab)) s)) = AList.update ''/w/f'' (file_of ''ac'' 0) sample_disk"
proof -
  have v: "bv_ok (verifyBasis sample_server_config lab ''/w/f'' ''ab'' cause s)" for cause
    using assms(2-5) by (cases "lab = []") (auto simp: verifyBasis_def basis_Verify_def sample_at sample_server_config_def blank_def)
  have n: "count_sub ''b'' ''ab'' = 1" "replace_sub ''b'' ''c'' 1 ''ab'' = ''ac''" by code_simp+
  define a where "a = sample_edit lab"
  have a: "ed_Path a = ''f''" "ed_Basis a = lab" "ed_OldString a = ''b''" "ed_NewString a = ''c''" "ed_ReplaceAll a = False" "ed_Workspace a = []"
    by (simp_all add: a_def sample_edit_def)
  have f: "\<not> blank ''f''" by code_simp
  obtain r s' where run: "editFile sample_server_config rnd (Inr a) s = (r, s')" by fastforce
  let ?s = "s\<lparr>ms_files := AList.update ''/w/f'' (file_of ''ac'' 0) sample_disk\<rparr>"
  have "\<exists>sp. confirmMutation sample_server_config rnd ''edited'' [] ''f'' ''/w/f'' ''ac'' sp ?s = (r, s')"
    using run f n v by (simp add: editFile_def a sample_io [OF assms(1)] sample_at apply_edit_def MaxOutputBytes_def Let_def) blast
  then obtain sp where c: "confirmMutation sample_server_config rnd ''edited'' [] ''f'' ''/w/f'' ''ac'' sp ?s = (r, s')" ..
  have "ms_files s' = ms_files ?s"
    by (rule confirmMutation_effect(1) [OF c refl, where n = "file_of ''ac'' 0"]) (simp_all add: sample_at update_conv')
  then show ?thesis using run by (simp add: a_def)
qed

text \<open>The first read of the file mints its label.\<close>

definition sample_read_spec :: spec where
  "sample_read_spec =
     \<lparr>sp_Ingest = ''ab'', sp_Visible = ''ab'', sp_Res = stdout_result ''ab'' False, sp_RangedView = False,
      sp_Plan = \<lambda>n. Some (PlanFileRead id id (bare_invocation sample_server sample_binding n) (execResultOf (stdout_result ''ab'' False)) ''f'')\<rparr>"

lemma sample_config [simp]:
  "mc_api sample_server_config = sample_api" "mc_sha sample_server_config = id" "mc_lower sample_server_config = id"
  "mc_quote sample_server_config = id" "mc_home sample_server_config = ''/h''"
  by (simp_all add: sample_server_config_def)

lemma sample_session:
  "\<exists>s1. sh_Ensure (mcp_shell sample_server_config) sample_server = (Inr (''tok'', 1), s1)"
  by (simp add: mcp_shell_def mcp_Ensure_def ensureSession_def registration_def lazy_create_def Let_def sample_server_def NewServer_def
    sample_api_def zero_time_def establishRetryInterval_def)

lemma sample_read_sources:
  "pl_LatestSource (PlanFileRead id id (bare_invocation sample_server sample_binding 1) (execResultOf (stdout_result ''ab'' False)) ''f'') = ''calm:v1:file:read:f''"
  "pl_HistorySource (PlanFileRead id id (bare_invocation sample_server sample_binding 1) (execResultOf (stdout_result ''ab'' False)) ''f'') = []"
proof -
  have b: "bare_invocation sample_server sample_binding 1
    = \<lparr>inv_Seq = 1, inv_Command = [], inv_Cwd = ''/w'', inv_WorkspaceRoot = ''/w'', inv_WorkspaceID = []\<rparr>"
    by (simp add: bare_invocation_def mcp_invocation_def sample_workspaces_def sample_binding_def primary_def)
  show "pl_LatestSource (PlanFileRead id id (bare_invocation sample_server sample_binding 1) (execResultOf (stdout_result ''ab'' False)) ''f'') = ''calm:v1:file:read:f''"
    "pl_HistorySource (PlanFileRead id id (bare_invocation sample_server sample_binding 1) (execResultOf (stdout_result ''ab'' False)) ''f'') = []"
    unfolding b by code_simp+
qed

lemma sample_minted:
  assumes "mcp_capture sample_server_config sample_random sample_read_spec sample_server = (out, s)"
  shows "oc_Label out = sample_label_text" "like_sample s" "ms_basis s = []"
proof -
  obtain s1 where e: "sh_Ensure (mcp_shell sample_server_config) sample_server = (Inr (''tok'', 1), s1)" using sample_session by blast
  have f: "fuseSource ''calm:v1:file:read:f'' (MintToken sample_random) = sample_label_text" by code_simp
  have p: "sp_Plan sample_read_spec
      = (\<lambda>n. Some (PlanFileRead id id (bare_invocation sample_server sample_binding n) (execResultOf (stdout_result ''ab'' False)) ''f''))"
    by (simp add: sample_read_spec_def)
  have i: "sh_Ingest (mcp_shell sample_server_config) token i x = (Inr \<lparr>is_Source = ii_Source i, is_SectionsIndexed = 1, is_SectionsTotal = 1,
        is_SummaryTruncated = False, is_Sections = [], is_DistinctiveTerms = [], is_CorrelationID = []\<rparr>, x\<lparr>ms_calm := ms_calm x\<rparr>)" for token i x
    by (simp add: mcp_shell_def sample_api_def)
  show "oc_Label out = sample_label_text"
    using assms
    by (auto simp: mcp_capture_def Capture_def e p i Let_def Deliver_def dualWriteIngest_def write_source_def sample_read_sources
      fan_input_def present_def f)
  have "same_outside sample_server s"
    using mcp_capture_frame assms unfolding mcp_capture_def by blast
  then show "like_sample s" "ms_basis s = []" by (auto simp: same_outside_def like_sample_def)
qed

lemma sample_read_basis:
  "like_sample (mcp_run sample_server_config ''grep'' no_process sample_read sample_server)"
  "ms_basis (mcp_run sample_server_config ''grep'' no_process sample_read sample_server)
   = [(sample_label_text, \<lparr>be_path = ''/w/f'', be_hash = contentHash id ''ab'', be_unread = False\<rparr>)]"
proof -
  obtain out s where c: "mcp_capture sample_server_config sample_random sample_read_spec sample_server = (out, s)" by fastforce
  note m = sample_minted [OF c]
  have l: "like_sample sample_server" by (simp add: like_sample_def)
  have f: "\<not> blank ''f''" by code_simp
  have run: "mcp_run sample_server_config ''grep'' no_process sample_read sample_server
    = s\<lparr>ms_basis := [(sample_label_text, \<lparr>be_path = ''/w/f'', be_hash = contentHash id ''ab'', be_unread = False\<rparr>)]\<rparr>"
    using c m f
    by (simp add: mcp_run_def sample_read_def handleLine_def dispatch_def handleToolCall_def invokeTool_def readFile_def sample_io [OF l]
      sample_at sliceLines_def read_capture_def Let_def sample_read_spec_def basis_record_def sample_label_text_def)
  show "like_sample (mcp_run sample_server_config ''grep'' no_process sample_read sample_server)"
    using m(2) by (simp add: run like_sample_def)
  show "ms_basis (mcp_run sample_server_config ''grep'' no_process sample_read sample_server)
   = [(sample_label_text, \<lparr>be_path = ''/w/f'', be_hash = contentHash id ''ab'', be_unread = False\<rparr>)]" by (simp add: run)
qed

definition sample_write :: writeFileArgs where
  "sample_write = \<lparr>wr_Path = ''f'', wr_Content = ''x'', wr_Basis = ''l'', wr_Workspace = []\<rparr>"

definition sample_offline :: "bool \<Rightarrow> unit mcp" where
  "sample_offline unread = sample_server\<lparr>ms_authFailed := True,
     ms_basis := [(''l'', \<lparr>be_path = ''/w/f'', be_hash = contentHash id ''ab'', be_unread = unread\<rparr>)]\<rparr>"

lemma sample_write_lands:
  "ms_files (snd (writeFile sample_server_config rnd (Inr sample_write) (sample_offline False))) = AList.update ''/w/f'' (file_of ''x'' 0) sample_disk"
proof -
  let ?s = "sample_offline False"
  have l: "like_sample ?s" by (simp add: like_sample_def sample_offline_def)
  have v: "bv_ok (verifyBasis sample_server_config ''l'' ''/w/f'' ''ab'' cause ?s)" for cause
  proof -
    have "\<not> blank ''l''" by code_simp
    then show ?thesis by (simp add: verifyBasis_def basis_Verify_def sample_at sample_offline_def)
  qed
  have u: "\<not> basis_Unread ''l'' (ms_basis ?s)" by (simp add: basis_Unread_def sample_offline_def)
  define a where "a = sample_write"
  have a: "wr_Path a = ''f''" "wr_Content a = ''x''" "wr_Basis a = ''l''" "wr_Workspace a = []" by (simp_all add: a_def sample_write_def)
  have f: "\<not> blank ''f''" by code_simp
  obtain r s' where run: "writeFile sample_server_config rnd (Inr a) ?s = (r, s')" by fastforce
  let ?t = "?s\<lparr>ms_files := AList.update ''/w/f'' (file_of ''x'' 0) sample_disk\<rparr>"
  have "\<exists>sp. confirmMutation sample_server_config rnd ''wrote'' [] ''f'' ''/w/f'' ''x'' sp ?t = (r, s')"
    using run f v u by (simp add: writeFile_def a sample_io [OF l] sample_at apply_write_def MaxOutputBytes_def Let_def) blast
  then obtain sp where c: "confirmMutation sample_server_config rnd ''wrote'' [] ''f'' ''/w/f'' ''x'' sp ?t = (r, s')" ..
  have "ms_files s' = ms_files ?t"
    by (rule confirmMutation_effect(1) [OF c refl, where n = "file_of ''x'' 0"]) (simp_all add: sample_at update_conv')
  then show ?thesis using run by (simp add: a_def)
qed

text \<open>A server with one namespace that asks for client tokens and one that does not, without limits.\<close>

definition no_limits :: "unit limiter_pkg" where
  "no_limits = \<lparr>rl_NewLimiter = \<lambda>_ _. (), rl_Allow = \<lambda>_ _. (True, ()), rl_Tokens = \<lambda>_ _. 0\<rparr>"

definition two_namespaces :: memoryRegistry where
  "two_namespaces = \<lparr>rg_keys = [(''k'', ''n''), (''l'', ''m'')], rg_rates = [], rg_credentials = [''n''], rg_feedbackTTLs = [],
     rg_allocators = [], rg_override = []\<rparr>"

definition sample_handlers :: handlers_config where
  "sample_handlers = \<lparr>hc_Registry = two_namespaces, hc_DefaultTTLMinutes = 30, hc_MaxTTLMinutes = 60, hc_SearchMaxBudgetBytes = 0,
     hc_Version = ''1'', hc_Chunkers = three_formats, hc_Detect = (\<lambda>_. formatText), hc_Quote = id\<rparr>"

definition sample_site :: "(rat, unit) server_config" where
  "sample_site = \<lparr>sv_Handlers = sample_handlers, sv_Env = sample_env, sv_Limiter = no_limits, sv_Validate = (\<lambda>_. None),
     sv_Routes = session_routes, sv_RatePerSecond = 0, sv_RateGlobalPerSecond = 0, sv_RatePerIPPerSecond = 0,
     sv_TrustProxyHeaders = False, sv_MaxIngestPayloadKB = 1\<rparr>"

definition front_of :: "(unit, unit) svc \<Rightarrow> (unit, unit, unit) front" where
  "front_of s = \<lparr>fr_svc = s, fr_ips = newIPBucketStore 0 ipBucketSweepThreshold ipSweepEvery, fr_nsBuckets = [], fr_global = None\<rparr>"

definition sample_rq :: "string \<Rightarrow> string \<Rightarrow> string \<Rightarrow> api_call \<Rightarrow> api_request" where
  "sample_rq meth p key call = \<lparr>rq_Method = meth, rq_Path = p, rq_RemoteAddr = [],
     rq_Header = (\<lambda>h. if h = HeaderAPIKey then key else if h = HeaderAuthorization then ''Bearer old'' else []),
     rq_ContentLength = 0, rq_Call = call, rq_Random = Some [], rq_UUID = Some ''k2''\<rparr>"

definition delete_all_rq :: api_request where
  "delete_all_rq = sample_rq ''DELETE'' ''/v1/manage/sessions'' ''l'' (OpManageDeleteSessions None None None)"

definition create_rq :: api_request where
  "create_rq = sample_rq ''POST'' ''/v1/sessions'' ''k''
     (OpCreateSession (Some \<lparr>csr_Client = None, csr_Labels = None, csr_TtlMinutes = Some 90\<rparr>) None)"

lemma sample_site_simps [simp]:
  "sv_Env sample_site = sample_env" "sv_Handlers sample_site = sample_handlers" "sv_Routes sample_site = session_routes"
  "hc_Registry sample_handlers = two_namespaces" "hc_MaxTTLMinutes sample_handlers = 60" "fr_svc (front_of s) = s"
  by (simp_all add: sample_site_def sample_handlers_def front_of_def)

lemma sample_presented: "presented sample_env r"
  by (simp add: presented_def sample_env_simps)

lemma sample_creation:
  obtains cd fr' where "NewHandler sample_site create_rq (front_of sample_svc) = ((201, SessionReply ''n'' cd), fr')"
proof -
  have "(case fst (NewHandler sample_site create_rq (front_of sample_svc)) of (st, SessionReply ns cd) \<Rightarrow> st = 201 \<and> ns = ''n'' | _ \<Rightarrow> False)"
    by code_simp
  then obtain cd where f: "fst (NewHandler sample_site create_rq (front_of sample_svc)) = (201, SessionReply ''n'' cd)"
    by (auto split: prod.splits api_reply.splits)
  show ?thesis by (rule that [of cd "snd (NewHandler sample_site create_rq (front_of sample_svc))"]) (simp add: prod_eq_iff f)
qed

definition sample_yaml :: service_config where
  "sample_yaml = \<lparr>sc_DSN = ''d'', sc_MaxOpenConns = 25, sc_MaxIdleConns = 25, sc_ConnMaxLifetime = 1800, sc_TrigramThreshold = Some (1 / 2),
     sc_MaxBudgetKB = 64, sc_RatePerSecond = 100, sc_RateGlobalPerSecond = 0, sc_RatePerIPPerSecond = 100, sc_TLSEnabled = False,
     sc_CertFile = [], sc_KeyFile = [], sc_CacheSize = 10000, sc_DefaultTTLMinutes = 120, sc_MaxTTLMinutes = 10080,
     sc_ScannerIntervalMS = 60000, sc_ScannerJitterMS = 10000, sc_IdempotencyKeyTTL = 3600, sc_IdempotencyKeySize = 10000,
     sc_Namespaces = [\<lparr>nc_Name = ''n'', nc_APIKey = ''[text:k]'', nc_RatePerSecond = 0, nc_RequireClientCredentials = True,
       nc_FeedbackTTLMinutes = 0, nc_DefaultAllocator = [], nc_AllowAllocatorOverride = False\<rparr>]\<rparr>"

section \<open>Further facts of components\<close>

text \<open>Relevance normalisation changes nothing but the scores, and puts full matches, partial matches and fuzzy matches into disjoint bands between 0.1 and 1, so no score crosses a tier.\<close>

lemma relevance_bands:
  "map (map strip) (normalizeRelevance exact pq) = map (map strip) pq
    \<and> list_all band (concat (normalizeRelevance exact pq))"
  using normalizeRelevance_exact(1) [of pq] normalizeRelevance_exact(2) [of _ pq] by (simp add: list_all_iff)

text \<open>Deleting by token removes that session and no other, reports the rows that went with it, and a delete that fails changes no table; the cache invariant holds either way.\<close>

lemma session_delete_effect:
  assumes "svc_ok sha A lx s" "collision_free sha A" "tok \<in> A" "Session_Delete sha ns tok s = (r, s')"
  shows "svc_ok sha A lx s'
    \<and> (case r of
         Inl e \<Rightarrow> tabs (sv_db s') = tabs (sv_db s)
       | Inr (sid, c) \<Rightarrow> c = counts_for {sid} (tabs (sv_db s))
           \<and> map_option md_ID (session_view (tabs (sv_db s)) (ns, HashToken sha ns tok)) = Some sid
           \<and> session_view (tabs (sv_db s')) = (session_view (tabs (sv_db s)))((ns, HashToken sha ns tok) := None))"
proof (cases r)
  case (Inl e)
  then show ?thesis using Session_Delete_ok(1,3) [OF assms] by simp
next
  case (Inr x)
  obtain sid c where x: "x = (sid, c)" by fastforce
  show ?thesis using Session_Delete_ok(1) [OF assms] Session_Delete_ok(2) [OF assms Inr [unfolded x]] by (auto simp: Inr x)
qed

lemma session_delete_effect_witness:
  "session_view (tabs (sv_db (snd (Session_Delete id ''n'' ''t'' sample_svc))))
    = (session_view two_sessions)((''n'', HashToken id ''n'' ''t'') := None)"
proof -
  have "tabs (sv_db sample_svc) = two_sessions" by (simp add: sample_svc_def sample_db_def)
  then show ?thesis
    using session_delete_effect [OF sample_svc_ok id_collision_free UNIV_I fst_Inr [OF sample_delete], of words_of] by simp
qed

text \<open>A bulk delete removes exactly the sessions of its namespace that the filter matches and reports how many; a failed one changes no table; no cached entry outlives its session.\<close>

lemma delete_all_effect:
  assumes "svc_ok sha A lx s" "Session_DeleteAll f s = (r, s')"
  shows "svc_ok sha A lx s'
    \<and> (case r of
         Inl e \<Rightarrow> tabs (sv_db s') = tabs (sv_db s)
       | Inr (n, c) \<Rightarrow> n = length (filter (session_matches (tabs (sv_db s)) f) (sessions (tabs (sv_db s))))
           \<and> sessions (tabs (sv_db s')) = filter (\<lambda>x. \<not> session_matches (tabs (sv_db s)) f x) (sessions (tabs (sv_db s))))"
proof (cases r)
  case (Inl e)
  then show ?thesis using Session_DeleteAll_ok(1,2) [OF assms] by simp
next
  case (Inr x)
  obtain n c where x: "x = (n, c)" by fastforce
  show ?thesis using Session_DeleteAll_ok(1) [OF assms] Session_DeleteAll_ok(3) [OF assms Inr [unfolded x]] by (auto simp: Inr x)
qed

lemma delete_all_effect_witness:
  "svc_ok id UNIV words_of (snd (Session_DeleteAll \<lparr>sf_namespace = ''n'', sf_client = [], sf_labels = []\<rparr> sample_svc))"
  using delete_all_effect [OF sample_svc_ok prod.collapse [symmetric]] by blast

text \<open>After a rotation the new token resolves to the client and the old one is refused at once.\<close>

lemma rotation_is_strict:
  assumes "RotateToken sha rnd ns name d = (Inr raw, d')" "faults d = []" "raw \<noteq> []" "tables_ok (tabs d)"
    "fst (ResolveByToken sha ns old d) = Inr name" "HashToken sha ns old \<noteq> HashToken sha ns raw"
    "\<forall>c\<in>set (clients (tabs d)). cl_ns c = ns \<longrightarrow> cl_hash c \<noteq> Some (HashToken sha ns raw)"
    "\<forall>c\<in>set (clients (tabs d)). cl_ns c = ns \<and> cl_hash c = Some (HashToken sha ns old) \<longrightarrow> cl_name c = name"
  shows "fst (ResolveByToken sha ns raw d') = Inr name \<and> fst (ResolveByToken sha ns old d') = Inl ErrInvalidClientCredential"
  using RotateToken_strict [OF assms] by (intro conjI)

lemma rotation_is_strict_witness:
  "fst (ResolveByToken id ''n'' ''old'' (snd (RotateToken id (Some [1]) ''n'' ''c'' sample_db))) = Inl ErrInvalidClientCredential"
proof -
  have tok: "RawURLEncoding [1] = ''AQ''" by code_simp
  have old: "fst (ResolveByToken id ''n'' ''old'' sample_db) = Inr ''c''" by code_simp
  show ?thesis
    using rotation_is_strict [OF fst_Inr [OF sample_rotate [unfolded tok]] sample_db_ok(3) _ sample_db_ok(2) old]
    by (simp add: HashToken_def sample_db_def two_sessions_def empty_tables_def a_client_def)
qed

text \<open>A credential issued with a new client resolves to that client, and is issued only for a name that did not exist.\<close>

lemma issued_credential_resolves:
  assumes "Register_Credential sha rnd ns name d = (Inr raw, d')" "faults d = []" "raw \<noteq> []"
    "\<forall>c\<in>set (clients (tabs d)). cl_ns c = ns \<longrightarrow> cl_hash c \<noteq> Some (HashToken sha ns raw)"
  shows "fst (ResolveByToken sha ns raw d') = Inr name \<and> \<not> has_client (tabs d) ns name \<and> has_client (tabs d') ns name"
  using Register_Credential_resolves [OF assms] by (intro conjI)

lemma issued_credential_resolves_witness:
  "fst (ResolveByToken id ''n'' ''AQ'' (snd (Register_Credential id (Some [1]) ''n'' ''new'' sample_db))) = Inr ''new''"
proof -
  have tok: "RawURLEncoding [1] = ''AQ''" by code_simp
  show ?thesis
    using issued_credential_resolves [OF fst_Inr [OF sample_credential [unfolded tok]] sample_db_ok(3)]
    by (simp add: HashToken_def sample_db_def two_sessions_def empty_tables_def a_client_def)
qed

text \<open>A snippet has at most 400 runes and, on well-formed content, is a contiguous part of it.\<close>

lemma snippet_is_part:
  assumes "valid_utf8 content"
  shows "length (runes (snip_text (extractSnippet U content ct q))) \<le> 400
    \<and> sublist (snip_text (extractSnippet U content ct q)) content"
  using extractSnippet_part(1) [of U content ct q] extractSnippet_part(2) [OF assms, of U ct q]
  by (simp add: snippetBudgetRunes_def)

lemma snippet_is_part_witness:
  "sublist (snip_text (extractSnippet ascii ''some text'' ''prose'' ''text'')) ''some text''"
  using snippet_is_part [of "''some text''"] by (simp add: ascii_valid)

text \<open>A random token has 43 characters of the URL alphabet, and decoding it gives back the random bytes, so no entropy is lost.\<close>

lemma token_roundtrip:
  assumes "NewRandomToken (Some bs) = Some tok" "length bs = 32" "\<forall>x\<in>set bs. x < 256"
  shows "length tok = 43 \<and> set tok \<subseteq> set b64_alphabet \<and> RawURLDecoding tok = bs"
  using NewRandomToken_ok [OF assms(1) assms(2) [folded token_bytes_def] assms(3)] by (intro conjI)

lemma token_roundtrip_witness:
  "RawURLDecoding (the (NewRandomToken (Some (replicate 32 255)))) = replicate 32 255"
  using token_roundtrip [of "replicate 32 255"] by (simp add: NewRandomToken_def)

text \<open>A metrics payload that is one HELP or UNIT line longer than chunkMaxBytes is lost: Split returns no chunk for it, although the content is not blank.\<close>

lemma metadata_only_family_lost:
  assumes "newline \<notin> set l" "trim_right_cr l = l" "\<not> blank l" "length l > chunkMaxBytes"
    "promComment_name l = Some n" "promComment_kind l = Some k" "k \<noteq> ''TYPE''"
  shows "Split (go_chunkers num_text lower sha md_parse) detectFormat source l formatMetrics ct = Some ([], formatMetrics)"
  by (rule go_Split_drops [OF assms])

lemma metadata_only_family_lost_witness:
  "Split (go_chunkers Some id id sample_parse) detectFormat ''s'' long_help formatMetrics [] = Some ([], formatMetrics)"
  by (rule metadata_only_family_lost [OF long_help_ok]) simp

text \<open>JSON records are packed in order and without loss: consecutive groups, each a chunk titled by its record or its range, and a chunk of more than one record stays under the target size.\<close>

lemma records_are_packed:
  "\<exists>gs. recordChunks num_text lower records ct = titled_groups (recordTitle num_text lower) ct 0 gs
    \<and> concat gs = records \<and> list_all group_fits gs"
  by (rule recordChunks_groups [of num_text lower records ct]) (auto simp: list_all_iff)

text \<open>A CSV or TSV document always returns chunks: either it is chunked as text, or every chunk repeats the header line, holds consecutive rows up to the target size, and header, rows and the malformed rest account for all of the content.\<close>

lemma table_rows_are_kept:
  assumes "valid_utf8 content" "\<not> blank content"
  shows "\<exists>cs. delimitedChunks comma source content ct = Some cs
    \<and> (textChunks source content ct = Some cs \<or> (\<exists>head header gs tailChunks. table_parts ct content head header gs tailChunks cs))"
  by (rule delimitedChunks_total [OF assms])

lemma table_rows_are_kept_witness:
  "\<exists>cs. delimitedChunks CHR '','' ''s'' ''a,b'' [] = Some cs
    \<and> (textChunks ''s'' ''a,b'' [] = Some cs \<or> (\<exists>head header gs tailChunks. table_parts [] ''a,b'' head header gs tailChunks cs))"
  by (rule table_rows_are_kept) (simp_all add: ascii_valid, code_simp)

text \<open>Every line of a metrics payload goes to one family or to the unparsed rest, and every line of a family that is not dropped stands whole in a chunk that repeats the metadata of the family.\<close>

lemma metric_lines_are_kept:
  assumes "valid_utf8 content" "metricsChunks sha source content ct = Some cs"
    "parseExposition content = (fams, unparsed)"
  shows "mset (metric_lines content) = all_fam_lines fams + mset unparsed
    \<and> (\<forall>f\<in>set fams. \<not> dropped f \<longrightarrow> (\<forall>l\<in>set (fam_lines f).
          \<exists>c\<in>set cs. \<exists>ls. Content c = join [newline] ls \<and> l \<in> set ls \<and> set (fam_meta f) \<subseteq> set ls))"
proof (intro conjI ballI impI)
  show "mset (metric_lines content) = all_fam_lines fams + mset unparsed"
    by (simp add: parseExposition_lines(1,2) [OF assms(3)] add.commute)
next
  fix f l assume "f \<in> set fams" "\<not> dropped f" "l \<in> set (fam_lines f)"
  then show "\<exists>c\<in>set cs. \<exists>ls. Content c = join [newline] ls \<and> l \<in> set ls \<and> set (fam_meta f) \<subseteq> set ls"
    by (rule metric_line_kept [OF assms])
qed

lemma metric_lines_are_kept_witness:
  "mset (metric_lines ''up 1'') = all_fam_lines (fst (parseExposition ''up 1'')) + mset (snd (parseExposition ''up 1''))"
proof -
  have v: "valid_utf8 ''up 1''" "\<not> blank ''up 1''" by (simp_all add: ascii_valid, code_simp)
  obtain cs where "metricsChunks id ''s'' ''up 1'' [] = Some cs" using metricsChunks_returns [OF v] by blast
  then show ?thesis using metric_lines_are_kept [OF v(1) _ prod.collapse [symmetric]] by blast
qed

text \<open>One file has one latest label: cat, calm_read_file and an edit of the same path all write it, so a read label is brought up to date by an edit.\<close>

lemma reads_and_edits_share_a_label:
  assumes "relIdent path iv = Some i" "i \<noteq> []" "plain_word path" "\<not> has_prefix path ''-''" "inv_Command iv = ''cat '' @ path"
  shows "map_option pl_LatestSource (DerivePlan sha lower goos iv r) = Some (pl_LatestSource (PlanFileRead sha lower iv r' path))
    \<and> pl_LatestSource (planFileMutation sha lower unified tool prog iv r'' path fop old new) = pl_LatestSource (PlanFileRead sha lower iv r' path)"
  using shell_read_is_typed_read [OF assms(5,3,4,1,2)] edit_latest_is_read_latest [OF assms(1,2)] by (intro conjI)

lemma reads_and_edits_share_a_label_witness:
  "map_option pl_LatestSource (DerivePlan id id ''linux'' sample_call sample_exec) = Some ''calm:v1:file:read:f.go''"
proof -
  have r: "relIdent ''f.go'' sample_call = Some [''f.go'']" "plain_word ''f.go''" by code_simp+
  have p: "pl_LatestSource (PlanFileRead id id sample_call sample_exec ''f.go'') = ''calm:v1:file:read:f.go''" by code_simp
  have c: "inv_Command sample_call = ''cat '' @ ''f.go''" by (simp add: sample_call_def)
  show ?thesis
    using reads_and_edits_share_a_label [OF r(1) _ r(2) _ c, of id id "''linux''" sample_exec sample_exec] by (simp add: p has_prefix_def)
qed

text \<open>A path that enters a label lies inside the workspace: its segments follow those of the root, and the relative path has no dot-dot segment and is not absolute.\<close>

lemma labelled_paths_stay_inside:
  assumes "wsRel path iv = Some rel" "is_abs (inv_WorkspaceRoot iv)"
  shows "''..'' \<notin> set (path_segs rel) \<and> \<not> is_abs rel
    \<and> path_segs (path_clean (path_clean (if is_abs path then path
        else path_join (if inv_Cwd iv = [] then inv_WorkspaceRoot iv else inv_Cwd iv) path)))
      = path_segs (path_clean (path_clean (inv_WorkspaceRoot iv))) @ (if rel = ''.'' then [] else path_segs rel)"
  by (rule wsRel_inside [OF assms]) simp

lemma labelled_paths_stay_inside_witness:
  "''..'' \<notin> set (path_segs ''f.go'')"
proof -
  have "wsRel ''f.go'' sample_call = Some ''f.go''" by code_simp
  from labelled_paths_stay_inside [OF this] show ?thesis by (simp add: sample_call_def is_abs_def slash_def)
qed

text \<open>With a service that echoes the source of an ingest and no local fault, the label that a capture of the command-line shell hands out is accepted by the registry of the conversation afterwards and names the captured source.\<close>

lemma capture_label_validates:
  assumes "conv_good (mg_sessionID m) w" "w_faults w = []" "echoes (manager_shell m)" "TokenLen \<le> length rnd"
    "\<forall>n p. sp_Plan sp n = Some p \<longrightarrow> (\<exists>sha iv. labelled sha iv p \<and> inv_Seq iv = n)"
    "0 \<le> conv_counter w" "conv_counter w + 1 < 2 ^ 63"
    "Capture qt opts (manager_shell m) rnd sp w = (out, w')" "oc_Label out \<noteq> []"
  shows "ValidateAndStrip (oc_Label out) (conv_registry w') = Some (oc_Source out)"
  using manager.capture_label_valid [OF _ assms(2-9)] assms(1) by (simp add: conv_inv_good)

lemma capture_label_validates_witness:
  "case Capture id sample_options (manager_shell sample_manager) sample_random sample_spec sample_host of (out, w) \<Rightarrow>
     oc_Label out \<noteq> [] \<and> ValidateAndStrip (oc_Label out) (conv_registry w) = Some (oc_Source out)"
proof -
  obtain out w where r: "Capture id sample_options (manager_shell sample_manager) sample_random sample_spec sample_host = (out, w)"
    by fastforce
  have e: "echoes (manager_shell sample_manager)"
    by (auto simp: echoes_def manager_shell_def sample_manager_def sample_api_def split: prod.splits)
  have "ValidateAndStrip (oc_Label out) (conv_registry w) = Some (oc_Source out)"
    by (rule capture_label_validates [OF _ _ e _ sample_plans _ _ r sample_label [OF r]])
      (simp_all add: conv_good_def sample_host_def sample_random_def TokenLen_def conv_counter_def)
  then show ?thesis using r sample_label [OF r] by simp
qed

text \<open>A capture never hides what fits: a ranged view up to 8 KiB, a failing command up to 16 KiB and any other result up to 4 KiB stand verbatim at the head of the text shown.\<close>

lemma short_output_is_verbatim:
  assumes "if rangedView then length raw \<le> rangedMaxBytes
    else if rs_ExitCode r \<noteq> 0 \<or> rs_TimedOut r then length raw \<le> failVerbatimMaxBytes
    else length raw \<le> wholeInlineMaxBytes"
  shows "prefix raw (presentCapture qt sm raw r token rangedView recall)"
  by (rule presentCapture_verbatim [OF assms])

lemma short_output_is_verbatim_witness:
  "prefix ''x'' (presentCapture id sample_summary ''x'' (sp_Res sample_spec) ''tttttt'' False ''calm_search'')"
  by (rule short_output_is_verbatim) (simp add: sample_spec_def wholeInlineMaxBytes_def)

text \<open>Cutting an oversized chunk on line boundaries loses nothing: the pieces concatenate to the text, each is non-empty and within the bound, and none splits a rune of well-formed UTF-8.\<close>

lemma line_split_partition:
  assumes "4 \<le> maxBytes"
  shows "\<exists>ps. splitOnLineBoundaries s maxBytes = Some ps \<and> concat ps = s
    \<and> (\<forall>p\<in>set ps. length p \<le> maxBytes \<and> p \<noteq> [] \<and> (valid_utf8 s \<longrightarrow> valid_utf8 p))"
  by (rule splitOnLineBoundaries_total [OF assms, of s]) (auto simp: pieces_ok_def)

lemma line_split_partition_witness:
  "\<exists>ps. splitOnLineBoundaries ''abcdef'' 4 = Some ps \<and> concat ps = ''abcdef''
    \<and> (\<forall>p\<in>set ps. length p \<le> 4 \<and> p \<noteq> [] \<and> (valid_utf8 ''abcdef'' \<longrightarrow> valid_utf8 p))"
  by (rule line_split_partition) simp

text \<open>The log chunker returns on well-formed UTF-8: packing never exceeds chunkMaxBytes, no chunk is blank, and the non-blank runes of the log are kept once and in order.\<close>

lemma log_chunks_bounded:
  assumes "valid_utf8 content" "\<not> blank content"
  shows "\<exists>cs. logChunks source content ct = Some cs \<and> cs \<noteq> []
    \<and> (\<forall>c\<in>set cs. length (Content c) \<le> chunkMaxBytes \<and> \<not> blank (Content c) \<and> valid_utf8 (Content c))
    \<and> concat (map (\<lambda>c. ink (Content c)) cs) = ink content"
  by (rule logChunks_total [OF assms]) (auto simp: chunk_ok_def contents_ink_def)

lemma log_chunks_bounded_witness:
  "\<exists>cs. logChunks ''s'' ''12:00:00 a'' ''prose'' = Some cs \<and> cs \<noteq> []
    \<and> (\<forall>c\<in>set cs. length (Content c) \<le> chunkMaxBytes \<and> \<not> blank (Content c) \<and> valid_utf8 (Content c))
    \<and> concat (map (\<lambda>c. ink (Content c)) cs) = ink ''12:00:00 a''"
  by (rule log_chunks_bounded) (simp add: ascii_valid, rule ascii_not_blank, simp, simp add: is_space_def)

text \<open>The largest-remainder shares of score-proportional add up to the budget, each within one byte of its exact quota.\<close>

lemma shares_follow_quotas:
  assumes "\<forall>w\<in>set weights. 0 \<le> w" "sum_list weights = ttl" "0 < ttl" "0 \<le> b" "i < length weights"
  shows "sum_list (largestRemainder exact weights ttl b) = b
    \<and> \<lfloor>weights ! i / ttl * of_int b\<rfloor> \<le> largestRemainder exact weights ttl b ! i
    \<and> largestRemainder exact weights ttl b ! i \<le> \<lfloor>weights ! i / ttl * of_int b\<rfloor> + 1"
  using largestRemainder_exact [OF assms(1-4)] assms(5) by blast

lemma shares_follow_quotas_witness:
  "sum_list (largestRemainder exact [1, 2] 3 10) = 10
    \<and> \<lfloor>([1, 2] ! 0) / 3 * rat_of_int 10\<rfloor> \<le> largestRemainder exact [1, 2] 3 10 ! 0
    \<and> largestRemainder exact [1, 2] 3 10 ! 0 \<le> \<lfloor>([1, 2] ! 0) / 3 * rat_of_int 10\<rfloor> + 1"
  by (rule shares_follow_quotas) simp_all

section \<open>Properties\<close>

text \<open>C1. Every reachable state of the server has well-formed tables: unique ids below the sequence counters, rows that refer to rows that exist, expiry times that follow from activity and TTL, one source per session and label, legal outcomes.\<close>

theorem reachable_rows_well_formed:
  assumes "env_ok E" "token_cache.entries (\<lambda>_ _. False) cache" "reachable E (boot now nss cache idem) s"
  shows "tables_ok (tabs (sv_db s))"
  using reachable_ok [OF assms(1,3) boot_ok [OF assms(2)]] unfolding svc_ok_def db_ok_def by blast

theorem reachable_rows_well_formed_witness:
  "tables_ok (tabs (sv_db (snd (on_db (Register ''n'' ''c'') (boot 0 [''n''] no_cache no_dedup)))))"
  by (rule reachable_rows_well_formed [OF sample_env_ok no_entries registered_reachable])







text \<open>C5. Ingest refines an assignment to a map from session and label to documents: afterwards that label of that session holds the chunks Split gives, at most 500 of them and in order, and every other document is what it was.\<close>

theorem ingest_replaces_document:
  assumes "lexer_distinct lx" "db_ok lx (tabs d)"
    "Ingest.Ingest chunkers detect lx ns sid cid inp = Some m" "m d = (Inr r, d')"
  shows "\<exists>cs fmt. Split chunkers detect (inp_Source inp) (inp_Content inp) (inp_Format inp) (inp_ContentType inp) = Some (cs, fmt)
    \<and> (\<forall>s l. source_chunks (tabs d') s l
         = (if s = sid \<and> l = inp_Source inp then map (doc_of l) (take maxChunksPerSource cs) else source_chunks (tabs d) s l))"
proof -
  have "inp_Source inp \<noteq> []" using assms(3,4) by (auto simp: Ingest_def fail_def)
  then obtain cs fmt where sp: "Split chunkers detect (inp_Source inp) (inp_Content inp) (inp_Format inp) (inp_ContentType inp) = Some (cs, fmt)"
    and m: "m = ingest_chunks lx ns sid cid (inp_Source inp) cs fmt"
    using assms(3) by (auto simp: Ingest_def)
  note run = assms(4) [unfolded m]
  show ?thesis using sp ingest_chunks_ok(2) [OF assms(1,2) run] by (auto simp: indexed_def)
qed

theorem ingest_replaces_document_witness:
  "\<exists>(d' :: db) cs fmt. Split three_formats (\<lambda>_. formatText) ''s'' ''hello'' formatText [] = Some (cs, fmt)
    \<and> (\<forall>s l. source_chunks (tabs d') s l
         = (if s = 1 \<and> l = ''s'' then map (doc_of l) (take maxChunksPerSource cs) else source_chunks (tabs sample_db) s l))"
proof -
  let ?i = "\<lparr>inp_Source = ''s'', inp_Content = ''hello'', inp_Format = formatText, inp_ContentType = []\<rparr>"
  have hello: "valid_utf8 ''hello''" by (simp add: ascii_valid)
  obtain cs fmt where sp: "Split three_formats (\<lambda>_. formatText) ''s'' ''hello'' formatText [] = Some (cs, fmt)"
    by (rule Split_total [OF three_formats_ok(1) hello]) (rule that, assumption)
  obtain r d' where run: "ingest_chunks words_of ''n'' 1 ''k'' ''s'' cs fmt sample_db = (Inr r, d')"
    using ingest_runs [OF sample_db_ok(3) _ sample_in(1)] by (metis list.distinct(1))
  have "Ingest.Ingest three_formats (\<lambda>_. formatText) words_of ''n'' 1 ''k'' ?i = Some (ingest_chunks words_of ''n'' 1 ''k'' ''s'' cs fmt)"
    by (simp add: Ingest_def sp)
  note doc = ingest_replaces_document [OF words_of_distinct sample_db_ok(1) this run]
  show ?thesis by (rule exI [where x = d']) (use doc in simp)
qed

text \<open>C6. The ingest reply is true of the store: created exactly when the session had no source of that label, sections counted before and after the cap of 500, summaries titled like the first 50 stored chunks, truncation flagged, and at most 40 terms, each in some chunk of the session.\<close>

theorem ingest_result_reports:
  assumes "lexer_distinct lx" "db_ok lx (tabs d)" "ingest_chunks lx ns sid cid source cs fmt d = (Inr r, d')"
  shows "session_in (tabs d) ns sid
    \<and> (ir_Created r \<longleftrightarrow> (sid, source) \<notin> (\<lambda>s. (so_session s, so_label s)) ` set (sources (tabs d)))
    \<and> ir_SectionsIndexed r = min (length cs) 500 \<and> ir_SectionsTotal r = length cs
    \<and> map sec_Title (ir_Summary r) = map Title (take 50 cs)
    \<and> (ir_SummaryTruncated r \<longleftrightarrow> 50 < length cs)
    \<and> length (ir_DistinctiveTerms r) \<le> 40
    \<and> set (ir_DistinctiveTerms r) \<subseteq> {w. 0 < with_word lx w (session_chunks (tabs d') sid)}"
proof -
  note ok = ingest_chunks_ok [OF assms]
  have t: "take summaryCap (indexed cs) = take 50 cs" by (simp add: indexed_def summaryCap_def maxChunksPerSource_def)
  have titles: "map sec_Title (ir_Summary r) = map Title (take 50 cs)" using ok(6) by (simp add: t)
  then have "length (ir_Summary r) = min (length cs) 50" by (metis length_map length_take)
  then have "ir_SummaryTruncated r \<longleftrightarrow> 50 < length cs" using ok(5) by auto
  then show ?thesis using ok(1,3,4,7,8) titles
    by (simp add: indexed_def maxChunksPerSource_def distinctiveTermsCap_def min.commute)
qed

theorem ingest_result_reports_witness:
  "\<exists>r. fst (ingest_chunks words_of ''n'' 1 ''k'' ''s'' two_chunks formatText sample_db) = Inr r
    \<and> ir_SectionsIndexed r = min (length two_chunks) 500"
proof -
  obtain r d' where run: "ingest_chunks words_of ''n'' 1 ''k'' ''s'' two_chunks formatText sample_db = (Inr r, d')"
    using ingest_runs [OF sample_db_ok(3) _ sample_in(1)] by (metis list.distinct(1))
  show ?thesis using ingest_result_reports [OF words_of_distinct sample_db_ok(1) run] run by auto
qed



text \<open>C8. After an ingest, reading the source page by page, following the next offset, ends and returns every stored chunk in full and in order, when each fits the byte budget of a page and storage does not fail.\<close>

theorem ingested_document_readable:
  assumes "lexer_distinct lx" "db_ok lx (tabs d)" "ingest_chunks lx ns sid cid source cs fmt d = (Inr r, d')"
    "faults d' = []" "ns \<noteq> []" "source \<noteq> []" "0 \<le> B"
    "\<forall>c\<in>set (take maxChunksPerSource cs). int (wireSize (full_hit F (doc_of source c))) \<le> B"
    "length (take maxChunksPerSource cs) < fuel"
  shows "fst (read_pages fuel F ns sid cid' source limit B 0 d')
    = Inr (Some (map (\<lambda>c. full_hit F (doc_of source c)) (take maxChunksPerSource cs)))"
  using ingest_then_read [OF assms(1-7) assms(8,9) [folded indexed_def], of cid' limit]
  by (simp add: indexed_def comp_def)

theorem ingested_document_readable_witness:
  "\<exists>d'. fst (read_pages 3 exact ''n'' 1 ''k'' ''s'' 0 1000 0 d')
    = Inr (Some (map (\<lambda>c. full_hit exact (doc_of ''s'' c)) (take maxChunksPerSource two_chunks)))"
proof -
  obtain r d' where run: "ingest_chunks words_of ''n'' 1 ''k'' ''s'' two_chunks formatText sample_db = (Inr r, d')" "faults d' = []"
    using ingest_runs [OF sample_db_ok(3) _ sample_in(1)] by (metis list.distinct(1))
  have "\<forall>c\<in>set (take maxChunksPerSource two_chunks). int (wireSize (full_hit exact (doc_of ''s'' c))) \<le> 1000"
    unfolding two_chunks_taken by (rule two_chunks_fit)
  from ingested_document_readable [OF words_of_distinct sample_db_ok(1) run _ _ _ this] show ?thesis
    by (intro exI [of _ d']) (simp add: two_chunks_taken two_chunks_def)
qed



text \<open>C10. One query returns at most its limit of distinct chunks of the session and source, each with the fields of its chunk and a snippet from it, ordered by tier: chunks that match every term, then other full-text matches, then fuzzy matches.\<close>

theorem one_query_ranks_by_tier:
  assumes "tables_ok (tabs d)" "Sources_Search F U T ns inp d = (Inr hits, d')"
  shows "(\<exists>cls. list_all2 (hit_from T (inQuery inp)) cls hits \<and> distinct (map (ch_id \<circ> fst) cls)
        \<and> set cls \<subseteq> set (scoped_chunks (tabs d) ns (inSessionID inp) (inSource inp)))
    \<and> int (length hits) \<le> (if inLimit inp = 0 then defaultSearchLimit else inLimit inp)
    \<and> sorted_wrt (\<lambda>a b. hit_tier b \<le> hit_tier a) hits \<and> tabs d' = tabs d"
  by (rule Sources_Search_ok [OF assms]) blast

theorem one_query_ranks_by_tier_witness:
  "\<exists>hits. fst (Sources_Search exact ascii sample_search ''n'' sample_query stored_db) = Inr hits
    \<and> sorted_wrt (\<lambda>a b. hit_tier b \<le> hit_tier a) hits"
proof -
  obtain hits where run: "Sources_Search exact ascii sample_search ''n'' sample_query stored_db = (Inr hits, stored_db)"
    using Sources_Search_runs [OF stored_db_ok(2), of "''n''" sample_query] by (fastforce simp: sample_query_def)
  show ?thesis using one_query_ranks_by_tier [OF stored_db_ok(1) run] run by simp
qed





text \<open>C13. When storage does not fail, one scan deletes exactly the sessions past their expiry, all of them, counts them, and keeps the invariant of the service with its cache.\<close>

theorem scan_removes_expired:
  assumes "svc_ok sha A lx s" "faults (sv_db s) = []"
  shows "\<exists>s'. scanOnce stop s = (length (filter (\<lambda>x. se_expires x < app_now (sv_db s)) (sessions (tabs (sv_db s)))), s')
    \<and> svc_ok sha A lx s'
    \<and> sessions (tabs (sv_db s')) = filter (\<lambda>x. \<not> se_expires x < app_now (sv_db s)) (sessions (tabs (sv_db s)))"
  by (rule scanOnce_ok [OF assms])

theorem scan_removes_expired_witness:
  "sessions (tabs (sv_db (snd (scanOnce (\<lambda>_. False) (sample_svc\<lparr>sv_db := sample_db\<lparr>app_now := 1800000001\<rparr>\<rparr>))))) = []"
proof -
  have ok: "svc_ok id UNIV words_of (sample_svc\<lparr>sv_db := sample_db\<lparr>app_now := 1800000001\<rparr>\<rparr>)"
    using sample_svc_ok [of id UNIV words_of] by (simp add: svc_ok_def sample_svc_def)
  show ?thesis
    using scan_removes_expired [OF ok, of "\<lambda>_. False"] by (auto simp: sample_db_ok sample_db_def two_sessions_def a_session_def)
qed

text \<open>C14. Deleting a client removes it and exactly its sessions, and reports how many; the default client and unknown names are refused.\<close>

theorem client_delete_cascade:
  assumes "tables_ok (tabs d)" "Clients_Delete ns name d = (Inr r, d')"
  shows "name \<noteq> DefaultClient \<and> has_client (tabs d) ns name \<and> \<not> has_client (tabs d') ns name
    \<and> sessions (tabs d') = filter (\<lambda>s. \<not> (se_ns s = ns \<and> se_client s = name)) (sessions (tabs d))
    \<and> fst r = length (client_sessions (tabs d) ns name)"
  using Clients_Delete_ok(1-5) [OF assms] by (intro conjI)

theorem client_delete_cascade_witness:
  "\<not> has_client (tabs (snd (Clients_Delete ''n'' ''c'' sample_db))) ''n'' ''c''"
  using client_delete_cascade [OF sample_db_ok(2) fst_Inr [OF sample_client_delete]] by blast





text \<open>C17. The bytes hashed for an event payload determine its type and its data, so two different events share a digest only if the hash function collides.\<close>

theorem event_digest_preimage_roundtrip:
  assumes "length ty < 2 ^ 64"
  shows "event_parts (event_preimage ty data) = (ty, data)"
  by (rule event_parts_preimage [OF assms])

theorem event_digest_preimage_roundtrip_witness:
  "event_parts (event_preimage ''ab'' ''{}'') = (''ab'', ''{}'')"
  by (rule event_digest_preimage_roundtrip) simp

text \<open>C18. The production Split, with its detection and its eight chunkers, always returns on well-formed UTF-8: every stored chunk is non-empty, well-formed and at most chunkMaxBytes long. There is no chunk exactly when the content is blank, or is a metrics payload all of whose families the metrics chunker drops.\<close>

theorem go_split_returns:
  assumes "\<forall>content. parse_ok md_parse content" "valid_utf8 content"
  shows "\<exists>bs fmt. Split (go_chunkers num_text lower sha md_parse) detectFormat source content format ct = Some (bs, fmt)
    \<and> (\<forall>b\<in>set bs. length (Content b) \<le> chunkMaxBytes \<and> Content b \<noteq> [] \<and> valid_utf8 (Content b))
    \<and> (bs = [] \<longleftrightarrow> blank content \<or> effective content format = formatMetrics \<and> all_dropped content)"
  by (rule go_Split_total [OF assms]) blast

theorem go_split_returns_witness:
  "\<exists>bs fmt. Split (go_chunkers Some id id sample_parse) detectFormat ''s'' ''# t'' [] [] = Some (bs, fmt)
    \<and> (\<forall>b\<in>set bs. length (Content b) \<le> chunkMaxBytes \<and> Content b \<noteq> [] \<and> valid_utf8 (Content b))
    \<and> (bs = [] \<longleftrightarrow> blank ''# t'' \<or> effective ''# t'' [] = formatMetrics \<and> all_dropped ''# t'')"
  by (rule go_split_returns [OF sample_parse_ok]) (simp add: ascii_valid)

text \<open>C19. For text, Markdown, log and stack-trace content the production Split keeps the text: the non-blank runes of the chunks are those of the content, each once and in order.\<close>

theorem go_split_keeps_text:
  assumes "\<forall>content. parse_ok md_parse content" "valid_utf8 content"
    "effective content format \<notin> {formatJSON, formatCSV, formatTSV, formatMetrics}"
    "Split (go_chunkers num_text lower sha md_parse) detectFormat source content format ct = Some (bs, fmt)"
  shows "concat (map (\<lambda>b. ink (Content b)) bs) = ink content"
  using go_Split_ink [OF assms] by (simp only: contents_ink_def)

theorem go_split_keeps_text_witness:
  "concat (map (\<lambda>b. ink (Content b)) (fst (the (Split (go_chunkers Some id id sample_parse) detectFormat ''s'' ''# t'' formatMarkdown []))))
    = ink ''# t''"
proof -
  have v: "valid_utf8 ''# t''" by (simp add: ascii_valid)
  obtain bs fmt where "Split (go_chunkers Some id id sample_parse) detectFormat ''s'' ''# t'' formatMarkdown [] = Some (bs, fmt)"
    using go_Split_total [OF sample_parse_ok v] by metis
  then show ?thesis using go_split_keeps_text [OF sample_parse_ok v, of formatMarkdown]
    by (simp add: effective_def formatMarkdown_def formatJSON_def formatCSV_def formatTSV_def formatMetrics_def)
qed



text \<open>C21. Every plan the adapter derives, from a shell command or a typed tool, names sources of at most 200 bytes (while the call counter has at most twelve digits), and appending a staleness token to one is undone by ParseSource.\<close>

theorem labels_bounded_and_parsed:
  assumes "plan_of sha lower unified goos iv r p" "0 \<le> inv_Seq iv" "inv_Seq iv < 10 ^ 12" "isValidToken tok"
  shows "length (pl_LatestSource p) \<le> 200 \<and> length (pl_HistorySource p) \<le> 200
    \<and> (pl_LatestSource p \<noteq> [] \<longrightarrow> ParseSource (pl_LatestSource p @ CHR ''@'' # tok) = (pl_LatestSource p, -1, tok))
    \<and> (pl_HistorySource p \<noteq> [] \<longrightarrow> (\<exists>base. pl_HistorySource p = base @ seqSuffix (inv_Seq iv)
          \<and> ParseSource (pl_HistorySource p @ CHR ''@'' # tok) = (base, inv_Seq iv, tok)))"
  using labelled_bounds [OF plan_of_labelled [OF assms(1)] assms(2,3)]
    labelled_parse [OF plan_of_labelled [OF assms(1)] assms(2) _ assms(4)] assms(3) by (simp add: maxLabelLen_def)

theorem labels_bounded_and_parsed_witness:
  "ParseSource (pl_LatestSource (PlanFileRead id id sample_call sample_exec ''f.go'') @ ''@abc234'')
    = (pl_LatestSource (PlanFileRead id id sample_call sample_exec ''f.go''), -1, ''abc234'')"
proof -
  have p: "plan_of id id (\<lambda>_ _ _. []) ''linux'' sample_call sample_exec (PlanFileRead id id sample_call sample_exec ''f.go'')"
    by (auto simp: plan_of_def)
  have q: "pl_LatestSource (PlanFileRead id id sample_call sample_exec ''f.go'') \<noteq> []" by code_simp
  have v: "isValidToken ''abc234''" by code_simp
  show ?thesis using labels_bounded_and_parsed [OF p _ _ v] q by (simp add: sample_call_def)
qed

text \<open>C22. In any history of a conversation, with local faults, lost sessions and rejections, the capture numbers given out are 1, 2, and so on without gap or repetition, and the last one is the counter on disk.\<close>

theorem history_numbers:
  assumes "conversation sid acts" "w_state w = None" "play acts w = (obs, w')"
  shows "numbers obs = [1 .. conv_counter w']"
  using play_numbers [OF assms(1) _ assms(3)] start_good [OF assms(2)] by auto

theorem history_numbers_witness:
  "numbers (fst (play sample_acts sample_host)) = [1 .. conv_counter (snd (play sample_acts sample_host))]"
  by (rule history_numbers [OF sample_conversation(1,2)]) simp

text \<open>C23. In any history of a conversation, every entry of the registry on disk was recorded under the present session token, unless the credentials are latched as rejected: no label of a lost session validates against its replacement.\<close>

theorem registry_provenance:
  assumes "conversation sid acts" "w_state w = None" "play acts w = (obs, w')" "w_state w' = Some st"
    "map_of (st_Registry st) k = Some t"
  shows "\<exists>m token delta. ARecord m token delta \<in> set acts \<and> \<lparr>tk_Source = k, tk_Token = t\<rparr> \<in> set delta
    \<and> (st_AuthFailed st \<or> st_SessionToken st = token)"
proof -
  have "host_reg_ok (set acts) w'"
    using play_reg_ok [OF assms(1) _ assms(3) order_refl] start_good [OF assms(2)] by blast
  then obtain token where t: "noted (set acts) k t token" "st_AuthFailed st \<or> st_SessionToken st = token"
    using assms(4,5) by (auto simp: host_reg_ok_def reg_ok_def)
  obtain m delta d where d: "ARecord m token delta \<in> set acts" "d \<in> set delta" "tk_Source d = k" "tk_Token d = t"
    using t(1) by (auto simp: noted_def)
  have "d = \<lparr>tk_Source = k, tk_Token = t\<rparr>" using d(3,4) by (cases d) simp
  then show ?thesis using d t(2) by blast
qed

theorem registry_provenance_witness:
  "\<exists>m token delta. ARecord m token delta \<in> set (take 2 sample_acts) \<and> \<lparr>tk_Source = ''s'', tk_Token = ''t''\<rparr> \<in> set delta
    \<and> token = ''tok''"
proof -
  have c: "conversation ''c1'' (take 2 sample_acts)" using sample_conversation(1) by (simp add: sample_acts_def conversation_def)
  obtain obs w where p: "play (take 2 sample_acts) sample_host = (obs, w)" by fastforce
  let ?st = "(newState sample_manager 0)\<lparr>st_SessionToken := ''tok'', st_Client := ''x'', st_NextAttemptAt := zero_time, st_Seq := 1\<rparr>"
  let ?w1 = "sample_host\<lparr>w_state := Some ?st\<rparr>"
  have w: "w = Manager_Record sample_manager ''tok'' [\<lparr>tk_Source = ''s'', tk_Token = ''t''\<rparr>] ?w1"
    using p by (simp add: sample_acts_def sample_ensured)
  have "w_state w = Some (recorded [\<lparr>tk_Source = ''s'', tk_Token = ''t''\<rparr>] ?st)"
    unfolding w using Record_reliable [of ?w1 ?st sample_manager "''tok''" "[\<lparr>tk_Source = ''s'', tk_Token = ''t''\<rparr>]"]
    by (simp add: loaded_def newState_def sample_manager_def)
  from registry_provenance [OF c sample_conversation(2) p this, of "''s''" "''t''"]
  show ?thesis by (simp add: recorded_def record_delta_def newState_def)
qed







text \<open>C27. In any run of the MCP server, with the files changing from outside between its lines, an edit or write that changes an existing file names a label that an earlier line of the run recorded for that very path when the file had the content (by its SHA-256) that is now replaced: no content the session never captured is overwritten.\<close>

theorem overwrites_are_informed:
  assumes "named_basis t = Some label"
    "handler cfg engine run t (mcp_run cfg engine run evs (NewServer cfg dir fs ioFaults now c)) = (r, s')"
    "map_of (ms_files (mcp_run cfg engine run evs (NewServer cfg dir fs ioFaults now c))) q = Some n"
    "map_of (ms_files s') q \<noteq> Some n"
  shows "\<exists>pre line post. evs = pre @ Line line # post
    \<and> vouched cfg (mcp_run cfg engine run (pre @ [Line line]) (NewServer cfg dir fs ioFaults now c)) label q
        (contentHash (mc_sha cfg) (fn_content n))"
proof -
  obtain e where e: "map_of (ms_basis (mcp_run cfg engine run evs (NewServer cfg dir fs ioFaults now c))) label = Some e"
      "be_path e = q" "be_hash e = contentHash (mc_sha cfg) (fn_content n)"
    using mutation_authorised [OF assms] by (auto simp: authorised_def)
  then show ?thesis using bases_vouched [OF _ e(1)] by (simp add: NewServer_def)
qed

theorem overwrites_are_informed_witness:
  "\<exists>pre line post. sample_read = pre @ Line line # post
    \<and> vouched sample_server_config (mcp_run sample_server_config ''grep'' no_process (pre @ [Line line]) sample_server)
        sample_label_text ''/w/f'' (contentHash id ''ab'')"
proof -
  let ?s = "mcp_run sample_server_config ''grep'' no_process sample_read sample_server"
  define t where "t = EditFile sample_random (Inr (sample_edit sample_label_text))"
  obtain r s' where run: "handler sample_server_config ''grep'' no_process t ?s = (r, s')" by fastforce
  have b: "\<not> blank sample_label_text" by code_simp
  have "ms_files s' = AList.update ''/w/f'' (file_of ''ac'' 0) sample_disk"
    using sample_edit_lands [OF sample_read_basis(1) _ _ _ b, of _ sample_random] run sample_read_basis(2) by (simp add: t_def)
  then have "map_of (ms_files s') ''/w/f'' \<noteq> Some (file_of ''ab'' 0)" by (simp add: update_conv' file_of_def)
  moreover have "map_of (ms_files ?s) ''/w/f'' = Some (file_of ''ab'' 0)"
    using sample_read_basis(1) by (simp add: like_sample_def sample_node)
  moreover have "named_basis t = Some sample_label_text" by (simp add: t_def sample_edit_def)
  ultimately show ?thesis
    using overwrites_are_informed [of t sample_label_text sample_server_config "''grep''" no_process sample_read "''/w''" sample_disk "[]" 0 "()" r s' "''/w/f''" "file_of ''ab'' 0"]
      run by (simp add: sample_server_def)
qed

text \<open>C28. An edit that changes anything replaces every occurrence of the old text it promised, and nothing else: the file splits at the old text into the same parts that the new text joins, there is exactly one occurrence unless all are to be replaced, the permissions stay, and no other path changes.\<close>

theorem edits_are_exact:
  assumes "editFile cfg rnd (Inr a) s = (r, s')" "ms_files s' \<noteq> ms_files s"
  shows "\<exists>q n ps. (\<exists>wb. q = path_clean (wb_resolve wb (ed_Path a))) \<and> authorised cfg s (ed_Basis a) q n
    \<and> fn_content n = join (ed_OldString a) ps \<and> 2 \<le> length ps \<and> (ed_ReplaceAll a \<or> length ps = 2)
    \<and> count_sub (ed_OldString a) (fn_content n) = length ps - 1
    \<and> ms_files s' = AList.update q (file_of (join (ed_NewString a) ps) (fn_perm n)) (ms_files s)"
proof -
  obtain wb q n k where e: "q = path_clean (wb_resolve wb (ed_Path a))" "authorised cfg s (ed_Basis a) q n" "0 < k"
      "count_sub (ed_OldString a) (fn_content n) = k" "ed_ReplaceAll a \<or> k = 1"
      "ms_files s' = AList.update q (file_of (replace_sub (ed_OldString a) (ed_NewString a) k (fn_content n)) (fn_perm n)) (ms_files s)"
    using editFile_effect [OF assms(1)] assms(2) by (auto simp: edited_def)
  have "ed_OldString a \<noteq> []"
  proof
    assume "ed_OldString a = []"
    then have "s' = s" using assms(1) by (cases "blank (ed_Path a)") (auto simp: editFile_def)
    then show False using assms(2) by simp
  qed
  then obtain ps where "length ps = Suc k" "join (ed_OldString a) ps = fn_content n"
      "join (ed_NewString a) ps = replace_sub (ed_OldString a) (ed_NewString a) k (fn_content n)"
    using replace_parts [of "ed_OldString a" k "fn_content n"] e(4) by auto
  then show ?thesis using e by (intro exI [of _ q] exI [of _ n] exI [of _ ps]) auto
qed

theorem edits_are_exact_witness:
  "\<exists>q n ps. authorised sample_server_config (mcp_run sample_server_config ''grep'' no_process sample_read sample_server) sample_label_text q n
    \<and> fn_content n = join ''b'' ps \<and> length ps = 2
    \<and> ms_files (snd (editFile sample_server_config sample_random (Inr (sample_edit sample_label_text))
         (mcp_run sample_server_config ''grep'' no_process sample_read sample_server)))
       = AList.update q (file_of (join ''c'' ps) (fn_perm n)) sample_disk"
proof -
  let ?s = "mcp_run sample_server_config ''grep'' no_process sample_read sample_server"
  obtain r s' where run: "editFile sample_server_config sample_random (Inr (sample_edit sample_label_text)) ?s = (r, s')" by fastforce
  have b: "\<not> blank sample_label_text" by code_simp
  have f: "ms_files ?s = sample_disk" using sample_read_basis(1) by (simp add: like_sample_def)
  have "ms_files s' = AList.update ''/w/f'' (file_of ''ac'' 0) sample_disk"
    using sample_edit_lands [OF sample_read_basis(1) _ _ _ b, of _ sample_random] run sample_read_basis(2) by simp
  then have "ms_files s' \<noteq> ms_files ?s" unfolding f by (simp add: sample_disk_def file_of_def)
  from edits_are_exact [OF run this] show ?thesis unfolding run snd_conv f by (auto simp: sample_edit_def)
qed

text \<open>C29. A write that changes anything stores exactly its content at its path, and either creates a file where none was, with no basis named, or replaces a regular file under a basis recorded for that path, fresh and read; the permissions of a replaced file stay.\<close>

theorem writes_are_guarded:
  assumes "writeFile cfg rnd (Inr a) s = (r, s')" "ms_files s' \<noteq> ms_files s"
  shows "\<exists>q perm. (\<exists>wb. q = path_clean (wb_resolve wb (wr_Path a)))
    \<and> (case map_of (ms_files s) q of
         None \<Rightarrow> blank (wr_Basis a) \<and> perm = 384
       | Some n \<Rightarrow> perm = fn_perm n \<and> \<not> fn_isDir n
           \<and> (\<exists>e. map_of (ms_basis s) (wr_Basis a) = Some e \<and> be_path e = q
               \<and> be_hash e = contentHash (mc_sha cfg) (fn_content n) \<and> \<not> be_unread e))
    \<and> ms_files s' = AList.update q (file_of (wr_Content a) perm) (ms_files s)"
proof -
  obtain wb q perm where w: "q = path_clean (wb_resolve wb (wr_Path a))"
      "map_of (ms_files s) q = None \<and> blank (wr_Basis a) \<and> perm = 384
        \<or> (\<exists>n. authorised cfg s (wr_Basis a) q n \<and> \<not> basis_Unread (wr_Basis a) (ms_basis s) \<and> perm = fn_perm n)"
      "ms_files s' = AList.update q (file_of (wr_Content a) perm) (ms_files s)"
    using writeFile_effect [OF assms(1)] assms(2) by (auto simp: written_def)
  then show ?thesis by (intro exI [of _ q] exI [of _ perm]) (auto simp: authorised_def basis_Unread_def)
qed

theorem writes_are_guarded_witness:
  "\<exists>q perm. map_of (ms_files (snd (writeFile sample_server_config sample_random (Inr sample_write) (sample_offline False)))) q
     = Some (file_of ''x'' perm)"
proof -
  obtain r s' where run: "writeFile sample_server_config sample_random (Inr sample_write) (sample_offline False) = (r, s')" by fastforce
  have "ms_files s' \<noteq> ms_files (sample_offline False)"
    using sample_write_lands [of sample_random] run by (simp add: sample_offline_def sample_disk_def file_of_def)
  from writes_are_guarded [OF run this] obtain q perm
    where "ms_files s' = AList.update q (file_of (wr_Content sample_write) perm) (ms_files (sample_offline False))" by blast
  then have "map_of (ms_files s') q = Some (file_of ''x'' perm)" by (simp add: update_conv' sample_write_def)
  then show ?thesis unfolding run snd_conv by blast
qed


text \<open>C31. The anchor of a directory is the deepest version-control root among its ancestors other than the home directory and the root of the file system, else the deepest ancestor with a project manifest, else none: the loop that looks for both at once agrees with two searches.\<close>

theorem anchor_is_deepest:
  "anchorOf home fs dir =
     (case find (\<lambda>d. d \<noteq> home \<and> \<not> isFSRoot d \<and> hasAnyMarker fs d vcsMarkers) (ancestors (path_clean dir)) of
        Some d \<Rightarrow> Some d
      | None \<Rightarrow> find (\<lambda>d. hasAnyMarker fs d manifestMarkers) (ancestors (path_clean dir)))"
proof -
  have v: "vcs_anchor home fs = (\<lambda>d. d \<noteq> home \<and> \<not> isFSRoot d \<and> hasAnyMarker fs d vcsMarkers)"
    by (simp add: fun_eq_iff vcs_anchor_def)
  show ?thesis unfolding anchorOf_def by (simp add: anchor_loop_find v)
qed

text \<open>C32. The HTTP server refines the transition system of the services: from a fresh start, whatever requests are served through the whole chain of middleware and handlers leave the services in a state reachable by their steps, so every invariant of reachable states holds of it.\<close>

theorem requests_refine_steps:
  assumes "env_ok (sv_Env cfg)" "token_cache.entries (\<lambda>_ _. False) cache" "fr_svc fr = boot now nss cache idem"
    "\<forall>r\<in>set rs. presented (sv_Env cfg) r" "serve_requests cfg rs fr = (as, fr')"
  shows "reachable (sv_Env cfg) (boot now nss cache idem) (fr_svc fr')
    \<and> svc_ok (e_sha (sv_Env cfg)) (e_tokens (sv_Env cfg)) (e_lexer (sv_Env cfg)) (fr_svc fr')"
proof -
  have "reachable (sv_Env cfg) (boot now nss cache idem) (fr_svc fr')"
    using reachable_steps [OF serve_steps [OF assms(4,5)]] reachable.start unfolding assms(3) by blast
  then show ?thesis using reachable_ok [OF assms(1) _ boot_ok [OF assms(2)]] by blast
qed

theorem requests_refine_steps_witness:
  "reachable sample_env (boot 0 [''n''] no_cache no_dedup)
      (fr_svc (snd (serve_requests sample_site [create_rq, delete_all_rq] (front_of (boot 0 [''n''] no_cache no_dedup)))))
    \<and> svc_ok id UNIV words_of (fr_svc (snd (serve_requests sample_site [create_rq, delete_all_rq] (front_of (boot 0 [''n''] no_cache no_dedup)))))"
  using requests_refine_steps [of sample_site no_cache "front_of (boot 0 [''n''] no_cache no_dedup)" 0 "[''n'']" no_dedup
      "[create_rq, delete_all_rq]", OF _ no_entries _ _ prod.collapse [symmetric]] sample_env_ok sample_presented
  by (simp add: sample_env_simps)

text \<open>C33. A request changes nothing of another namespace: the clients, sessions, labels, sources, chunks, vocabulary, events and correlations of every namespace other than the one its API key resolves to are the same before and after, whatever it asks and whatever fails.\<close>

theorem tenants_are_isolated:
  assumes "tables_ok (tabs (sv_db (fr_svc fr)))" "NewHandler cfg r fr = (a, fr')"
  shows "foreign (request_namespace cfg r) (tabs (sv_db (fr_svc fr'))) = foreign (request_namespace cfg r) (tabs (sv_db (fr_svc fr)))"
  using request_own [OF assms(2)] assms(1) by (simp add: own_change_def)

theorem tenants_are_isolated_witness:
  "foreign ''m'' (tabs (sv_db (fr_svc (snd (NewHandler sample_site delete_all_rq (front_of sample_svc)))))) = foreign ''m'' two_sessions
    \<and> fo_sessions (foreign ''m'' two_sessions) = [a_session 1 ''t'', a_session 2 ''u'']"
proof -
  have "request_namespace sample_site delete_all_rq = ''m''" by code_simp
  moreover have "tabs (sv_db (fr_svc (front_of sample_svc))) = two_sessions" by (simp add: sample_svc_def sample_db_def)
  moreover have "fo_sessions (foreign ''m'' two_sessions) = [a_session 1 ''t'', a_session 2 ''u'']"
    by (simp add: foreign_def Let_def two_sessions_def a_session_def)
  ultimately show ?thesis
    using tenants_are_isolated [of "front_of sample_svc" sample_site delete_all_rq, OF _ prod.collapse [symmetric]] sample_tables_ok(2) by simp
qed

text \<open>C34. Outside the two public paths, a request whose key names no namespace, or that lacks a valid client token in a namespace that asks for one (registration apart), is answered 400, 401 or 429, and changes no table, no cache and no idempotency record.\<close>

theorem unauthenticated_is_refused:
  assumes "rq_Path r \<noteq> ''/v1/health''" "rq_Path r \<noteq> ''/v1/version''"
    "\<And>ns. rq_Header r HeaderAPIKey \<noteq> [] \<Longrightarrow> reg_Resolve (hc_Registry (sv_Handlers cfg)) (rq_Header r HeaderAPIKey) = Some ns \<Longrightarrow>
       RequiresClientCredentials (hc_Registry (sv_Handlers cfg)) ns \<and> \<not> isClientRegistration (rq_Method r) (rq_Path r)
       \<and> (\<forall>token name. bearer_token r = Some token \<longrightarrow> \<not> holds_credential (e_sha (sv_Env cfg)) (tabs (sv_db (fr_svc fr))) ns token name)"
    "NewHandler cfg r fr = (a, fr')"
  shows "fst a \<in> {400, 401, 429} \<and> tabs (sv_db (fr_svc fr')) = tabs (sv_db (fr_svc fr)) \<and> sv_cache (fr_svc fr') = sv_cache (fr_svc fr)
    \<and> sv_idem (fr_svc fr') = sv_idem (fr_svc fr)"
proof -
  have "\<not> admitted cfg (tabs (sv_db (fr_svc fr))) r"
    using assms(1-3) unfolding admitted_def unauthenticatedPaths_def by auto
  then show ?thesis using refused [OF _ assms(4)] by (simp add: undisturbed_def)
qed

theorem unauthenticated_is_refused_witness:
  "fst (fst (NewHandler sample_site (delete_all_rq\<lparr>rq_Header := \<lambda>_. ''x''\<rparr>) (front_of sample_svc))) \<in> {400, 401, 429}"
proof -
  let ?r = "delete_all_rq\<lparr>rq_Header := \<lambda>_. ''x''\<rparr>"
  have p: "rq_Path ?r = ''/v1/manage/sessions''" by (simp add: delete_all_rq_def sample_rq_def)
  have k: "reg_Resolve two_namespaces ''x'' = None" by code_simp
  show ?thesis
    using unauthenticated_is_refused [of ?r sample_site "front_of sample_svc", OF _ _ _ prod.collapse [symmetric]]
    by (simp add: p k)
qed

text \<open>C35. A session that the server creates lies in the namespace of the API key, with a lifetime of at most the operator maximum, and in a namespace with client credentials under the client whose token was presented: the reply is that of the session service for exactly this request.\<close>

theorem sessions_are_attributed:
  assumes "routed r" "rq_Call r = OpCreateSession b key" "ExtractSessionTokenRoutes calm_openapi = Some (sv_Routes cfg)"
    "\<forall>c\<in>set (clients (tabs (sv_db (fr_svc fr)))). cl_name c \<noteq> []" "NewHandler cfg r fr = ((st, SessionReply ns cd), fr')"
  shows "\<exists>req k s. cr_Namespace req = ns \<and> ns = request_namespace cfg r \<and> cr_TTLMinutes req \<le> hc_MaxTTLMinutes (sv_Handlers cfg)
    \<and> tabs (sv_db s) = tabs (sv_db (fr_svc fr))
    \<and> Session_Create (e_sha (sv_Env cfg)) (rq_Random r) req k s = (Inr cd, fr_svc fr')
    \<and> (RequiresClientCredentials (hc_Registry (sv_Handlers cfg)) ns \<longrightarrow>
        (\<exists>token. bearer_token r = Some token
          \<and> holds_credential (e_sha (sv_Env cfg)) (tabs (sv_db (fr_svc fr))) ns token (cr_Client req)))"
proof -
  have routes: "sv_Routes cfg = session_routes" using assms(3) extracted_routes by simp
  obtain body client s1 where p: "ns = request_namespace cfg r" "undisturbed (fr_svc fr) s1"
    "Session_Create (e_sha (sv_Env cfg)) (rq_Random r)
       \<lparr>cr_Namespace = ns, cr_Client = client, cr_TTLMinutes = committed_ttl (sv_Handlers cfg) body,
        cr_Labels = (case csr_Labels body of Some ls \<Rightarrow> ls | None \<Rightarrow> [])\<rparr>
       (case key of Some k \<Rightarrow> k | None \<Rightarrow> []) s1 = (Inr cd, fr_svc fr')"
    and cred: "RequiresClientCredentials (hc_Registry (sv_Handlers cfg)) ns \<longrightarrow>
      (\<exists>token name. bearer_token r = Some token \<and> holds_credential (e_sha (sv_Env cfg)) (tabs (sv_db (fr_svc fr))) ns token name
        \<and> (name \<noteq> [] \<longrightarrow> client = name))"
    by (rule attributed [OF assms(1,2) routes assms(5)]) (erule (3) that)
  let ?req = "\<lparr>cr_Namespace = ns, cr_Client = client, cr_TTLMinutes = committed_ttl (sv_Handlers cfg) body,
    cr_Labels = (case csr_Labels body of Some ls \<Rightarrow> ls | None \<Rightarrow> [])\<rparr>"
  have c: "RequiresClientCredentials (hc_Registry (sv_Handlers cfg)) ns \<longrightarrow>
      (\<exists>token. bearer_token r = Some token
        \<and> holds_credential (e_sha (sv_Env cfg)) (tabs (sv_db (fr_svc fr))) ns token (cr_Client ?req))"
    using cred assms(4) by (auto simp: holds_credential_def)
  have t: "tabs (sv_db s1) = tabs (sv_db (fr_svc fr))" using p(2) by (simp add: undisturbed_def)
  have "cr_Namespace ?req = ns" "cr_TTLMinutes ?req \<le> hc_MaxTTLMinutes (sv_Handlers cfg)" by (simp_all add: committed_ttl_le)
  with p(1,3) t c show ?thesis by blast
qed

theorem sessions_are_attributed_witness:
  "\<exists>(req :: create_input) token. cr_Namespace req = ''n'' \<and> cr_TTLMinutes req \<le> 60 \<and> bearer_token create_rq = Some token
    \<and> holds_credential id two_sessions ''n'' token (cr_Client req)"
proof -
  obtain cd fr' where run: "NewHandler sample_site create_rq (front_of sample_svc) = ((201, SessionReply ''n'' cd), fr')"
    by (rule sample_creation)
  have t: "tabs (sv_db sample_svc) = two_sessions" by (simp add: sample_svc_def sample_db_def)
  have r: "routed create_rq" "rq_Call create_rq = OpCreateSession (Some \<lparr>csr_Client = None, csr_Labels = None, csr_TtlMinutes = Some 90\<rparr>) None"
    by (simp_all add: routed_def create_rq_def sample_rq_def)
  have c: "\<forall>c\<in>set (clients two_sessions). cl_name c \<noteq> []" by (simp add: two_sessions_def a_client_def DefaultClient_def)
  have q: "RequiresClientCredentials two_namespaces ''n''" by code_simp
  have x: "ExtractSessionTokenRoutes calm_openapi = Some (sv_Routes sample_site)" using extracted_routes by simp
  have c': "\<forall>c\<in>set (clients (tabs (sv_db (fr_svc (front_of sample_svc))))). cl_name c \<noteq> []" using c t by simp
  obtain req :: create_input where "cr_Namespace req = ''n''" "cr_TTLMinutes req \<le> hc_MaxTTLMinutes (sv_Handlers sample_site)"
    "RequiresClientCredentials (hc_Registry (sv_Handlers sample_site)) ''n'' \<longrightarrow>
      (\<exists>token. bearer_token create_rq = Some token
        \<and> holds_credential (e_sha (sv_Env sample_site)) (tabs (sv_db (fr_svc (front_of sample_svc)))) ''n'' token (cr_Client req))"
    using sessions_are_attributed [OF r x c' run] by blast
  then show ?thesis using q t by (auto simp: sample_env_simps)
qed

text \<open>C36. The exemption of the authentication from client tokens, which reads the path, agrees with the routes: of the routed requests with well-formed names exactly the client registrations are exempt.\<close>

theorem exemption_is_exact:
  assumes "route c = Some (meth, p)" "named_well c"
  shows "isClientRegistration meth p \<longleftrightarrow> (\<exists>name. c = OpRegisterClient name)"
  by (rule exempt_iff [OF assms])

theorem exemption_is_exact_witness:
  "isClientRegistration ''POST'' ''/v1/clients/a'' \<and> \<not> isClientRegistration ''POST'' ''/v1/clients/a/rotate-token''"
  using exemption_is_exact [of "OpRegisterClient ''a''"] exemption_is_exact [of "OpRotateClientToken ''a''"]
  by (simp add: valid_name_def name_char_def)

text \<open>C37. With a validated configuration and a registry built from it, a key resolves to a namespace exactly when it is the secret of that namespace, no two keys resolve to the same namespace, the empty key resolves to none, and client credentials are asked for exactly where configured.\<close>

theorem keys_name_one_namespace:
  assumes "validate_config c = None" "BuildRegistry reader (sc_Namespaces c) = Inr reg"
  shows "(\<forall>key name. reg_Resolve reg key = Some name \<longleftrightarrow> (\<exists>n\<in>set (sc_Namespaces c). nc_Name n = name \<and> reader (nc_APIKey n) = Inr key))
    \<and> (\<forall>k1 k2 name. reg_Resolve reg k1 = Some name \<longrightarrow> reg_Resolve reg k2 = Some name \<longrightarrow> k1 = k2)
    \<and> reg_Resolve reg [] = None
    \<and> (\<forall>name. RequiresClientCredentials reg name \<longleftrightarrow> (\<exists>n\<in>set (sc_Namespaces c). nc_Name n = name \<and> nc_RequireClientCredentials n))"
proof -
  let ?ns = "sc_Namespaces c"
  have b: "namespace_registry reader ?ns empty_registry = Inr reg" using assms(2) by (simp add: BuildRegistry_def)
  have res: "reg_Resolve reg key = Some name \<longleftrightarrow> (\<exists>n\<in>set ?ns. nc_Name n = name \<and> reader (nc_APIKey n) = Inr key)" for key name
    using buildRegistry_resolve [OF b] by (simp add: reg_Resolve_def empty_registry_def)
  have inj: "inj_on nc_Name (set ?ns)"
    using assms(1) by (simp add: validate_config_def validate_namespaces_iff distinct_map)
  have one: "k1 = k2" if "reg_Resolve reg k1 = Some name" "reg_Resolve reg k2 = Some name" for k1 k2 name
  proof -
    obtain n m where n: "n \<in> set ?ns" "nc_Name n = name" "reader (nc_APIKey n) = Inr k1"
      and m: "m \<in> set ?ns" "nc_Name m = name" "reader (nc_APIKey m) = Inr k2" using \<open>reg_Resolve reg k1 = Some name\<close> \<open>reg_Resolve reg k2 = Some name\<close> res by blast
    have "n = m" by (rule inj_onD [OF inj]) (use n m in simp_all)
    then show ?thesis using n m by simp
  qed
  have "reg_Resolve reg [] = None" by (rule buildRegistry_nonempty [OF b]) (simp add: reg_Resolve_def empty_registry_def)
  moreover have "RequiresClientCredentials reg name \<longleftrightarrow> (\<exists>n\<in>set ?ns. nc_Name n = name \<and> nc_RequireClientCredentials n)" for name
    using buildRegistry_credentials [OF b] by (simp add: RequiresClientCredentials_def empty_registry_def)
  ultimately show ?thesis using res one by blast
qed

theorem keys_name_one_namespace_witness:
  "\<exists>reg. BuildRegistry (resolve_secret (\<lambda>_. None) (\<lambda>_. None)) (sc_Namespaces sample_yaml) = Inr reg \<and> reg_Resolve reg [] = None"
proof -
  have v: "validate_config sample_yaml = None" by code_simp
  have "case BuildRegistry (resolve_secret (\<lambda>_. None) (\<lambda>_. None)) (sc_Namespaces sample_yaml) of Inr reg \<Rightarrow> True | Inl e \<Rightarrow> False"
    by code_simp
  then obtain reg where r: "BuildRegistry (resolve_secret (\<lambda>_. None) (\<lambda>_. None)) (sc_Namespaces sample_yaml) = Inr reg"
    by (auto split: sum.splits)
  show ?thesis using keys_name_one_namespace [OF v r] r by blast
qed

text \<open>C38. Windowing does not return on a paragraph longer than chunkMaxBytes that has no rune start: the cut is then 0 and the loop makes no progress.\<close>

theorem window_diverges:
  assumes "chunkMaxBytes < length p" "\<forall>c\<in>set p. cont_byte c"
  shows "windowParagraph p = None"
proof (cases "window_loop p []")
  case None
  then show ?thesis using assms(1) by (simp add: windowParagraph_def)
next
  case (Some r)
  then show ?thesis using window_loop_stuck assms by blast
qed

theorem window_diverges_witness:
  "windowParagraph (replicate 5000 (CHR 0x80)) = None"
  by (rule window_diverges) (simp_all add: cont_byte_def)



text \<open>C40. With exact arithmetic knapsack-greedy returns the largest total relevance of any choice of candidates that fits the budget.\<close>

theorem knapsack_is_optimal:
  assumes "0 < budget inp" "list_all2 subseq sel (candidates inp)" "int (total_size sel) \<le> budget inp"
  shows "total_rel sel \<le> total_rel (included (knapsackGreedy exact inp))"
  by (rule knapsack_optimal [OF assms])

theorem knapsack_is_optimal_witness:
  "total_rel [[sample_candidate 3], []] \<le> total_rel (included (knapsackGreedy exact sample_input))"
  by (rule knapsack_is_optimal) (simp_all add: sample_input_def total_size_def sample_candidate_def)

end
